(* ===== verification/Prelude.thy ===== *)
theory Prelude
  imports Main "HOL-Library.Word"
begin

unbundle bit_operations_syntax

text \<open>
  The shared vocabulary of the development. Go's fixed-width integers are words
  (\<open>uint8\<close> to \<open>uint64\<close>), a \<^verbatim>\<open>[]byte\<close> is a list of \<open>u8\<close>, and a Go string is a HOL
  \<^typ>\<open>string\<close>: both are byte sequences, and \<^typ>\<open>char\<close> is exactly one byte.
  A Go \<open>rune\<close> is an \<^typ>\<open>int\<close>; every rune the program handles lies between 0 and
  0x10FFFF, so the 32 bits of the source never overflow. Go's \<open>int\<close> is the 64-bit
  integer of the platforms the tool targets; lengths and offsets are \<^typ>\<open>nat\<close> where
  the source never goes below zero.

  A fallible operation returns \<open>'e + 'a\<close>, with \<^const>\<open>Inl\<close> the error.
\<close>

type_synonym u8 = "8 word"
type_synonym u16 = "16 word"
type_synonym u32 = "32 word"
type_synonym u64 = "64 word"
type_synonym bytes = "u8 list"
type_synonym rune = int

named_theorems byte_simps \<open>big-endian packing and unpacking\<close>

section \<open>Results\<close>

definition rbind :: "'e + 'a \<Rightarrow> ('a \<Rightarrow> 'e + 'b) \<Rightarrow> 'e + 'b" where
  "rbind m f = (case m of Inl e \<Rightarrow> Inl e | Inr x \<Rightarrow> f x)"

lemma rbind_simps [simp]: "rbind (Inl e) f = Inl e" "rbind (Inr x) f = f x"
  by (simp_all add: rbind_def)

lemma rbind_Inr_iff: "rbind m f = Inr y \<longleftrightarrow> (\<exists>x. m = Inr x \<and> f x = Inr y)"
  by (cases m) simp_all

definition is_Inr :: "'e + 'a \<Rightarrow> bool" where
  "is_Inr m = (case m of Inl _ \<Rightarrow> False | Inr _ \<Rightarrow> True)"

lemma is_Inr_simps [simp]: "is_Inr (Inr x)" "\<not> is_Inr (Inl e)"
  by (simp_all add: is_Inr_def)

lemma is_Inr_iff: "is_Inr m \<longleftrightarrow> (\<exists>x. m = Inr x)"
  by (cases m) simp_all

section \<open>Stateful results\<close>

text \<open>A Go method that mutates its receiver and returns a value or an error is a function from
  the receiver's state to the result and the new state.\<close>

type_synonym ('s, 'e, 'a) sres = "'s \<Rightarrow> ('e + 'a) \<times> 's"

definition sret :: "'a \<Rightarrow> ('s, 'e, 'a) sres" where
  "sret x = (\<lambda>s. (Inr x, s))"

definition sthrow :: "'e \<Rightarrow> ('s, 'e, 'a) sres" where
  "sthrow e = (\<lambda>s. (Inl e, s))"

definition sbind :: "('s, 'e, 'a) sres \<Rightarrow> ('a \<Rightarrow> ('s, 'e, 'b) sres) \<Rightarrow> ('s, 'e, 'b) sres" where
  "sbind m f = (\<lambda>s. case m s of (Inl e, s') \<Rightarrow> (Inl e, s') | (Inr x, s') \<Rightarrow> f x s')"

definition slift :: "('s \<Rightarrow> 'e + 'a) \<Rightarrow> ('s, 'e, 'a) sres" where
  "slift f = (\<lambda>s. (f s, s))"

definition sread :: "('s \<Rightarrow> 'a \<times> 's) \<Rightarrow> ('s, 'e, 'a) sres" where
  "sread f = (\<lambda>s. case f s of (x, s') \<Rightarrow> (Inr x, s'))"

lemma sres_simps [simp]:
  "sret x s = (Inr x, s)" "sthrow e s = (Inl e, s)" "slift g s = (g s, s)"
  by (simp_all add: sret_def sthrow_def slift_def)

lemma sbind_eq: "m s = (r, s') \<Longrightarrow> sbind m f s = (case r of Inl e \<Rightarrow> (Inl e, s') | Inr x \<Rightarrow> f x s')"
  by (cases r) (simp_all add: sbind_def)

lemma sbind_Inr [simp]: "m s = (Inr x, s') \<Longrightarrow> sbind m f s = f x s'"
  by (simp add: sbind_def)

lemma sbind_Inl [simp]: "m s = (Inl e, s') \<Longrightarrow> sbind m f s = (Inl e, s')"
  by (simp add: sbind_def)

lemma sread_eq [simp]: "f s = (x, s') \<Longrightarrow> sread f s = (Inr x, s')"
  by (simp add: sread_def)

lemma sbind_Inr_iff:
  "sbind m f s = (Inr y, s'') \<longleftrightarrow> (\<exists>x s'. m s = (Inr x, s') \<and> f x s' = (Inr y, s''))"
  by (auto simp: sbind_def split: prod.splits sum.splits)

section \<open>Go strings and byte slices\<close>

text \<open>\<^verbatim>\<open>[]byte(s)\<close> and \<^verbatim>\<open>string(b)\<close>.\<close>

definition bytes_of_string :: "string \<Rightarrow> bytes" where
  "bytes_of_string s = map of_char s"

definition string_of_bytes :: "bytes \<Rightarrow> string" where
  "string_of_bytes b = map (\<lambda>x. char_of (unat x)) b"

lemma char_of_of_char_u8 [simp]: "char_of (unat (of_char c :: u8)) = c"
proof -
  have "unat (of_nat (of_char c) :: u8) = of_char c"
    by (simp add: unat_of_nat del: of_nat_of_char)
  then have "unat (of_char c :: u8) = of_char c"
    by (simp only: of_nat_of_char)
  then show ?thesis by simp
qed

lemma of_char_char_of_u8 [simp]: "of_char (char_of (unat x)) = (x :: u8)"
proof -
  have "unat x < 256" using unsigned_less [of x] by simp
  then have "(of_char (char_of (unat x)) :: nat) = unat x"
    by (simp add: of_char_of)
  then show ?thesis by (metis of_nat_of_char of_nat_unat ucast_id)
qed

lemma string_of_bytes_of_string [simp]: "string_of_bytes (bytes_of_string s) = s"
  by (simp add: string_of_bytes_def bytes_of_string_def o_def)

lemma bytes_of_string_of_bytes [simp]: "bytes_of_string (string_of_bytes b) = b"
  by (simp add: string_of_bytes_def bytes_of_string_def o_def)

lemma bytes_of_string_append [simp]:
  "bytes_of_string (s @ t) = bytes_of_string s @ bytes_of_string t"
  by (simp add: bytes_of_string_def)

lemma string_of_bytes_append [simp]:
  "string_of_bytes (b @ c) = string_of_bytes b @ string_of_bytes c"
  by (simp add: string_of_bytes_def)

lemma length_bytes_of_string [simp]: "length (bytes_of_string s) = length s"
  by (simp add: bytes_of_string_def)

lemma length_string_of_bytes [simp]: "length (string_of_bytes b) = length b"
  by (simp add: string_of_bytes_def)

lemma bytes_of_string_inject [simp]: "bytes_of_string s = bytes_of_string t \<longleftrightarrow> s = t"
  by (metis string_of_bytes_of_string)

section \<open>Bits as arithmetic\<close>

text \<open>Shifting and masking on \<^typ>\<open>int\<close>, read as multiplication, division and remainder.\<close>

lemma or_disjoint_int:
  fixes a b :: int
  assumes "take_bit n a = 0" and "take_bit n b = b"
  shows "a OR b = a + b"
proof -
  have "bit b k \<Longrightarrow> k < n" for k
    using assms(2) by (metis bit_take_bit_iff)
  moreover have "k < n \<Longrightarrow> \<not> bit a k" for k
    using assms(1) by (metis bit_0_eq bit_take_bit_iff bot_apply bot_bool_def)
  ultimately have "a AND b = 0"
    by (auto simp: bit_eq_iff bit_simps)
  then show ?thesis
    by (metis add.right_neutral plus_and_or add.commute)
qed

lemma shift_or_int:
  fixes a b :: int
  assumes "0 \<le> b" and "b < 2 ^ n"
  shows "push_bit n a OR b = a * 2 ^ n + b"
proof -
  have "take_bit n (push_bit n a) = 0"
    by (simp add: take_bit_push_bit)
  moreover have "take_bit n b = b"
    using assms by (simp add: take_bit_int_eq_self)
  ultimately show ?thesis
    by (simp add: or_disjoint_int push_bit_eq_mult)
qed

lemma and_mask_int: "(x :: int) AND mask n = x mod 2 ^ n"
  by (simp add: take_bit_eq_mask [symmetric] take_bit_eq_mod)

lemma uint_hi_mask_u8:
  fixes x :: u8
  assumes "m = NOT (mask n)"
  shows "uint (x AND m) = uint x div 2 ^ n * 2 ^ n"
proof -
  have "x AND m = push_bit n (drop_bit n x)"
    unfolding assms by (rule bit_eqI) (auto simp: bit_simps)
  moreover have "uint (push_bit n (drop_bit n x)) = uint x div 2 ^ n * 2 ^ n"
  proof -
    have "uint x div 2 ^ n * 2 ^ n \<le> uint x"
      by (metis mod_div_mult_eq le_add_same_cancel2 pos_mod_sign zero_less_numeral zero_less_power)
    moreover have "uint x < 256" using uint_bounded[of x] by simp
    ultimately have "uint x div 2 ^ n * 2 ^ n < 2 ^ 8" by simp
    moreover have "take_bit 8 (uint x) = uint x"
      using \<open>uint x < 256\<close> by (simp add: take_bit_int_eq_self)
    moreover have "0 \<le> uint x div 2 ^ n * 2 ^ n"
      by (simp add: pos_imp_zdiv_nonneg_iff)
    ultimately show ?thesis
      unfolding unsigned_push_bit_eq unsigned_drop_bit_eq
      by (simp add: push_bit_eq_mult drop_bit_eq_div take_bit_int_eq_self)
  qed
  ultimately show ?thesis by simp
qed
lemma uint_and_lo [byte_simps]: "uint (x AND (0x3F::u8)) = uint x mod 64" "uint (x AND (0x1F::u8)) = uint x mod 32"
  "uint (x AND (0x0F::u8)) = uint x mod 16"
  using and_mask_int[of "uint x" 6] and_mask_int[of "uint x" 5] and_mask_int[of "uint x" 4]
   by (simp_all add: uint_and mask_eq_exp_minus_1)
lemma unat_lt_u8 [simp]: "unat (x :: u8) < 256"
  using unsigned_less [of x, where ?'a = nat] by simp

lemma uint_lt_u8 [simp]: "uint (x :: u8) < 256"
  using uint_bounded [of x] by simp
lemma and_hi_eq_iff:
  fixes x :: u8
  shows "x AND 0xC0 = 0x80 \<longleftrightarrow> 0x80 \<le> uint x \<and> uint x < 0xC0"
    "x AND 0xE0 = 0xC0 \<longleftrightarrow> 0xC0 \<le> uint x \<and> uint x < 0xE0"
    "x AND 0xF0 = 0xE0 \<longleftrightarrow> 0xE0 \<le> uint x \<and> uint x < 0xF0"
proof -
  have *: "(0xC0 :: u8) = NOT (mask 6)" "(0xE0 :: u8) = NOT (mask 5)" "(0xF0 :: u8) = NOT (mask 4)"
    by (simp_all add: mask_numeral)
  note h = uint_hi_mask_u8 [OF *(1), of x] uint_hi_mask_u8 [OF *(2), of x] uint_hi_mask_u8 [OF *(3), of x]
  show "x AND 0xC0 = 0x80 \<longleftrightarrow> 0x80 \<le> uint x \<and> uint x < 0xC0"
    "x AND 0xE0 = 0xC0 \<longleftrightarrow> 0xC0 \<le> uint x \<and> uint x < 0xE0"
    "x AND 0xF0 = 0xE0 \<longleftrightarrow> 0xE0 \<le> uint x \<and> uint x < 0xF0"
    unfolding word_uint_eq_iff h by (simp_all, presburger+)
qed
lemma uint_word_of_int_u8: "uint (word_of_int r :: u8) = r mod 256"
  by (simp add: unsigned_of_int take_bit_eq_mod)

text \<open>A fact about every byte, by running through the 256 of them.\<close>

lemma all_u8:
  assumes "list_all P (map word_of_nat [0..<256])"
  shows "P (x :: u8)"
proof -
  have "unat x < 256" using unsigned_less [of x] by simp
  then have "x \<in> set (map word_of_nat [0..<256])"
    by (metis atLeastLessThan_iff imageI list.set_map of_nat_unat set_upt ucast_id zero_le)
  with assms show ?thesis by (simp add: list_all_iff del: set_map)
qed

end
