(* ===== verification/Mutf8.thy ===== *)
theory Mutf8
  imports Prelude
begin

unbundle bit_operations_syntax

text \<open>
  Package \<^verbatim>\<open>jvm/mutf8\<close>: the modified UTF-8 codec of JVMS 4.4.7
  (\<^verbatim>\<open>src/jvm/mutf8/mutf8.go\<close>), together with the parts of Go's \<^verbatim>\<open>unicode/utf8\<close> and
  \<^verbatim>\<open>unicode/utf16\<close> it calls. A Go string is a byte sequence; \<^verbatim>\<open>for _, r := range s\<close>
  reads it as UTF-8, one rune at a time, and yields U+FFFD for every byte that starts no
  well-formed sequence. The theory shows that \<open>Decode\<close> inverts \<open>Encode\<close>, that \<open>Decode\<close>
  accepts only what \<open>Encode\<close> produces (lone surrogates apart), that the ASCII fast path
  agrees with the general loop, that \<open>EncodedLen\<close> is the length of the encoding, and that
  an encoding holds only bytes a class file permits in a \<open>Utf8\<close> constant.
\<close>

section \<open>The standard library's runes\<close>

definition rune_error :: rune where
  "rune_error = 0xFFFD"

text \<open>\<^verbatim>\<open>utf16.IsSurrogate\<close>, \<^verbatim>\<open>utf16.DecodeRune\<close> and \<^verbatim>\<open>utf16.EncodeRune\<close>.\<close>

definition is_surrogate :: "rune \<Rightarrow> bool" where
  "is_surrogate r \<longleftrightarrow> 0xD800 \<le> r \<and> r < 0xE000"

definition utf16_decode_rune :: "rune \<Rightarrow> rune \<Rightarrow> rune" where
  "utf16_decode_rune r1 r2 =
     (if 0xD800 \<le> r1 \<and> r1 < 0xDC00 \<and> 0xDC00 \<le> r2 \<and> r2 < 0xE000
      then (r1 - 0xD800) * 1024 + (r2 - 0xDC00) + 0x10000
      else rune_error)"

definition utf16_encode_rune :: "rune \<Rightarrow> rune \<times> rune" where
  "utf16_encode_rune r =
     (if r < 0x10000 \<or> 0x10FFFF < r then (rune_error, rune_error)
      else (0xD800 + (r - 0x10000) div 1024 mod 1024, 0xDC00 + (r - 0x10000) mod 1024))"

text \<open>A Unicode scalar value: what a well-formed UTF-8 sequence stands for.\<close>

definition is_scalar :: "rune \<Rightarrow> bool" where
  "is_scalar r \<longleftrightarrow> 0 \<le> r \<and> r \<le> 0x10FFFF \<and> \<not> is_surrogate r"

text \<open>\<^verbatim>\<open>utf8.AppendRune\<close>, which \<^verbatim>\<open>strings.Builder.WriteRune\<close> calls.\<close>

definition append_rune :: "rune \<Rightarrow> bytes" where
  "append_rune r0 = (let r = (if is_scalar r0 then r0 else rune_error) in
     if r < 0x80 then [word_of_int r]
     else if r < 0x800 then [word_of_int (0xC0 + r div 64), word_of_int (0x80 + r mod 64)]
     else if r < 0x10000 then
       [word_of_int (0xE0 + r div 4096), word_of_int (0x80 + r div 64 mod 64),
        word_of_int (0x80 + r mod 64)]
     else
       [word_of_int (0xF0 + r div 262144), word_of_int (0x80 + r div 4096 mod 64),
        word_of_int (0x80 + r div 64 mod 64), word_of_int (0x80 + r mod 64)])"

definition write_rune :: "rune \<Rightarrow> string" where
  "write_rune r = string_of_bytes (append_rune r)"

text \<open>
  \<^verbatim>\<open>utf8.DecodeRune\<close>: the rune at the front and its width. The ranges for the second
  byte are those of Go's \<open>acceptRanges\<close> table; they exclude overlong forms, surrogates and
  values above U+10FFFF.
\<close>

definition in_range :: "u8 \<Rightarrow> int \<Rightarrow> int \<Rightarrow> bool" where
  "in_range y lo hi \<longleftrightarrow> lo \<le> uint y \<and> uint y \<le> hi"

definition decode_rune :: "bytes \<Rightarrow> rune \<times> nat" where
  "decode_rune b = (case b of
     [] \<Rightarrow> (rune_error, 0)
   | a # bs \<Rightarrow>
      (let x = uint a; bad = (rune_error, 1) in
       if x < 0x80 then (x, 1)
       else if 0xC2 \<le> x \<and> x \<le> 0xDF then
         (case bs of
            y # _ \<Rightarrow> if in_range y 0x80 0xBF then ((x - 0xC0) * 64 + (uint y - 0x80), 2) else bad
          | _ \<Rightarrow> bad)
       else if 0xE0 \<le> x \<and> x \<le> 0xEF then
         (case bs of
            y # z # _ \<Rightarrow>
              if in_range y (if x = 0xE0 then 0xA0 else 0x80) (if x = 0xED then 0x9F else 0xBF)
                 \<and> in_range z 0x80 0xBF
              then ((x - 0xE0) * 4096 + (uint y - 0x80) * 64 + (uint z - 0x80), 3) else bad
          | _ \<Rightarrow> bad)
       else if 0xF0 \<le> x \<and> x \<le> 0xF4 then
         (case bs of
            y # z # w # _ \<Rightarrow>
              if in_range y (if x = 0xF0 then 0x90 else 0x80) (if x = 0xF4 then 0x8F else 0xBF)
                 \<and> in_range z 0x80 0xBF \<and> in_range w 0x80 0xBF
              then ((x - 0xF0) * 262144 + (uint y - 0x80) * 4096 + (uint z - 0x80) * 64
                    + (uint w - 0x80), 4) else bad
          | _ \<Rightarrow> bad)
       else bad))"

text \<open>The runes \<^verbatim>\<open>for _, r := range s\<close> visits.\<close>

fun range_bytes :: "bytes \<Rightarrow> rune list" where
  "range_bytes [] = []"
| "range_bytes (a # bs) =
     (case decode_rune (a # bs) of (r, n) \<Rightarrow> r # range_bytes (drop (n - 1) bs))"

definition range_string :: "string \<Rightarrow> rune list" where
  "range_string s = range_bytes (bytes_of_string s)"

text \<open>\<^verbatim>\<open>utf8.ValidString\<close>: no rune was read from an ill-formed sequence.\<close>

fun valid_bytes :: "bytes \<Rightarrow> bool" where
  "valid_bytes [] = True"
| "valid_bytes (a # bs) =
     (case decode_rune (a # bs) of (r, n) \<Rightarrow>
        (r = rune_error \<longrightarrow> n = 3) \<and> valid_bytes (drop (n - 1) bs))"

definition valid_string :: "string \<Rightarrow> bool" where
  "valid_string s = valid_bytes (bytes_of_string s)"

section \<open>Decode\<close>

datatype mutf8_error = Mutf8Error (Off: nat) (Byte: u8) (Msg: string)

definition two_rune :: "u8 \<Rightarrow> u8 \<Rightarrow> rune" where
  "two_rune x y = push_bit 6 (uint (x AND 0x1F)) OR uint (y AND 0x3F)"

definition three_rune :: "u8 \<Rightarrow> u8 \<Rightarrow> u8 \<Rightarrow> rune" where
  "three_rune x y z =
     push_bit 12 (uint (x AND 0x0F)) OR push_bit 6 (uint (y AND 0x3F)) OR uint (z AND 0x3F)"

text \<open>The look-ahead for the second half of a supplementary character; \<open>t\<close> is what follows
  the first three bytes.\<close>

definition surrogate_pair :: "rune \<Rightarrow> bytes \<Rightarrow> rune option" where
  "surrogate_pair r t =
     (case t of
        x2 # y2 # z2 # _ \<Rightarrow>
          if is_surrogate r \<and> x2 AND 0xF0 = 0xE0 \<and> y2 AND 0xC0 = 0x80 \<and> z2 AND 0xC0 = 0x80
          then (let pair = utf16_decode_rune r (three_rune x2 y2 z2)
                in if pair \<noteq> rune_error then Some pair else None)
          else None
      | _ \<Rightarrow> None)"

text \<open>The loop: \<open>i\<close> is the offset of the remaining bytes and \<open>sb\<close> the string builder.\<close>

fun decode_loop :: "nat \<Rightarrow> string \<Rightarrow> bytes \<Rightarrow> mutf8_error + string" where
  "decode_loop i sb [] = Inr sb"
| "decode_loop i sb (x # t) =
     (if x = 0 then Inl (Mutf8Error i x ''NUL byte (must use the two-byte form)'')
      else if x < 0x80 then decode_loop (i + 1) (sb @ [char_of (unat x)]) t
      else if x AND 0xE0 = 0xC0 then
        (case t of
           [] \<Rightarrow> Inl (Mutf8Error i x ''truncated two-byte sequence'')
         | y # t2 \<Rightarrow>
             if y AND 0xC0 \<noteq> 0x80 then Inl (Mutf8Error (i + 1) y ''bad continuation byte'')
             else let r = two_rune x y in
               if r \<noteq> 0 \<and> r < 0x80 then Inl (Mutf8Error i x ''overlong two-byte sequence'')
               else decode_loop (i + 2) (sb @ write_rune r) t2)
      else if x AND 0xF0 = 0xE0 then
        (case t of
           y # z # t3 \<Rightarrow>
             if y AND 0xC0 \<noteq> 0x80 \<or> z AND 0xC0 \<noteq> 0x80
             then Inl (Mutf8Error (i + 1) 0 ''bad continuation byte'')
             else let r = three_rune x y z in
               if r < 0x800 then Inl (Mutf8Error i x ''overlong three-byte sequence'')
               else (case surrogate_pair r t3 of
                  Some pair \<Rightarrow> decode_loop (i + 6) (sb @ write_rune pair) (drop 3 t3)
                | None \<Rightarrow>
                    decode_loop (i + 3)
                      (sb @ write_rune (if is_surrogate r then rune_error else r)) t3)
         | _ \<Rightarrow> Inl (Mutf8Error i x ''truncated three-byte sequence''))
      else Inl (Mutf8Error i x
             ''byte in range 0xF0-0xFF (four-byte UTF-8 is not permitted)''))"

definition Decode :: "bytes \<Rightarrow> mutf8_error + string" where
  "Decode b =
     (if list_all (\<lambda>c. \<not> (c = 0 \<or> c \<ge> 0x80)) b then Inr (string_of_bytes b)
      else decode_loop 0 [] b)"

section \<open>Encode\<close>

definition triple :: "rune \<Rightarrow> bytes" where
  "triple r =
     [word_of_int (0xE0 OR drop_bit 12 r), word_of_int (0x80 OR (drop_bit 6 r AND 0x3F)),
      word_of_int (0x80 OR (r AND 0x3F))]"

definition encode_rune :: "rune \<Rightarrow> bytes" where
  "encode_rune r =
     (if r \<ge> 0x01 \<and> r \<le> 0x7F then [word_of_int r]
      else if r = 0 \<or> r \<le> 0x7FF then
        [word_of_int (0xC0 OR drop_bit 6 r), word_of_int (0x80 OR (r AND 0x3F))]
      else if r \<le> 0xFFFF then triple r
      else case utf16_encode_rune r of (hi, lo) \<Rightarrow> triple hi @ triple lo)"

definition Encode :: "string \<Rightarrow> bytes" where
  "Encode s = concat (map encode_rune (range_string s))"

definition rune_len :: "rune \<Rightarrow> nat" where
  "rune_len r =
     (if r \<ge> 0x01 \<and> r \<le> 0x7F then 1
      else if r = 0 \<or> r \<le> 0x7FF then 2
      else if r \<le> 0xFFFF then 3
      else 6)"

definition EncodedLen :: "string \<Rightarrow> nat" where
  "EncodedLen s = sum_list (map rune_len (range_string s))"

section \<open>Bytes as numbers\<close>

lemma uint_of_small: "0 \<le> r \<Longrightarrow> r < 256 \<Longrightarrow> uint (word_of_int r :: u8) = r"
  by (simp add: uint_word_of_int_u8)

lemma two_rune_arith: "two_rune x y = uint x mod 32 * 64 + uint y mod 64"
  unfolding two_rune_def uint_and_lo using shift_or_int [of "uint y mod 64" 6 "uint x mod 32"]
  by simp

lemma three_rune_arith:
  "three_rune x y z = uint x mod 16 * 4096 + uint y mod 64 * 64 + uint z mod 64"
proof -
  have "push_bit 6 (uint y mod 64) OR uint z mod 64 = uint y mod 64 * 64 + uint z mod 64"
    using shift_or_int [of "uint z mod 64" 6 "uint y mod 64"] by simp
  moreover have "0 \<le> uint y mod 64 * 64 + uint z mod 64" by simp
  moreover have "uint y mod 64 * 64 + uint z mod 64 < 2 ^ 12"
    using pos_mod_bound [of 64 "uint y"] pos_mod_bound [of 64 "uint z"] by simp
  ultimately show ?thesis
    unfolding three_rune_def uint_and_lo
    using shift_or_int [of "uint y mod 64 * 64 + uint z mod 64" 12 "uint x mod 16"]
    by (simp add: or.assoc)
qed

lemma or_hi_int:
  fixes r :: int
  shows "0 \<le> r \<Longrightarrow> r < 64 \<Longrightarrow> 0x80 OR r = 0x80 + r"
    and "0 \<le> r \<Longrightarrow> r < 32 \<Longrightarrow> 0xC0 OR r = 0xC0 + r"
    and "0 \<le> r \<Longrightarrow> r < 16 \<Longrightarrow> 0xE0 OR r = 0xE0 + r"
  by (rule or_disjoint_int [of 6], simp_all add: take_bit_int_eq_self_iff)
     (rule or_disjoint_int [of 5], simp_all add: take_bit_int_eq_self_iff)+

lemma and_3F_int: "(r :: int) AND 0x3F = r mod 64"
  using and_mask_int [of r 6] by (simp add: mask_eq_exp_minus_1)

lemma triple_arith:
  assumes "0 \<le> r" and "r < 0x10000"
  shows "triple r = [word_of_int (0xE0 + r div 4096), word_of_int (0x80 + r div 64 mod 64),
     word_of_int (0x80 + r mod 64)]"
proof -
  have "r div 4096 < 16" "0 \<le> r div 4096" using assms by linarith+
  then show ?thesis
    by (simp add: triple_def drop_bit_eq_div and_3F_int or_hi_int)
qed

lemma encode_rune_arith:
  assumes "is_scalar r"
  shows "encode_rune r =
     (if r \<ge> 0x01 \<and> r \<le> 0x7F then [word_of_int r]
      else if r \<le> 0x7FF then [word_of_int (0xC0 + r div 64), word_of_int (0x80 + r mod 64)]
      else if r \<le> 0xFFFF then triple r
      else triple (0xD800 + (r - 0x10000) div 1024) @ triple (0xDC00 + (r - 0x10000) mod 1024))"
proof -
  have *: "0 \<le> r" "r \<le> 0x10FFFF" using assms by (simp_all add: is_scalar_def)
  have "r \<le> 0x7FF \<Longrightarrow> r div 64 < 32" "0 \<le> r div 64" using * by linarith+
  moreover have "r > 0xFFFF \<Longrightarrow> (r - 0x10000) div 1024 mod 1024 = (r - 0x10000) div 1024"
    by (rule mod_pos_pos_trivial) (use * in linarith)+
  ultimately show ?thesis
    using * by (auto simp: encode_rune_def utf16_encode_rune_def drop_bit_eq_div and_3F_int or_hi_int)
qed

section \<open>Well-formed UTF-8\<close>

lemma decode_rune_scalar:
  assumes "decode_rune b = (r, n)"
  shows "is_scalar r" and "n \<le> length b" and "b \<noteq> [] \<Longrightarrow> 1 \<le> n"
  using assms
  by (auto simp: decode_rune_def is_scalar_def is_surrogate_def rune_error_def Let_def in_range_def
      split: list.splits if_splits)

lemma range_bytes_scalar: "r \<in> set (range_bytes b) \<Longrightarrow> is_scalar r"
proof (induction b rule: range_bytes.induct)
  case (2 a bs)
  then show ?case
    by (cases "decode_rune (a # bs)") (auto dest: decode_rune_scalar)
qed simp

lemma uint_lead:
  "0 \<le> a \<Longrightarrow> a < 64 \<Longrightarrow> uint (0x80 + word_of_int a :: u8) = 0x80 + a"
  "0 \<le> a \<Longrightarrow> a < 64 \<Longrightarrow> uint (0xC0 + word_of_int a :: u8) = 0xC0 + a"
  "0 \<le> a \<Longrightarrow> a < 32 \<Longrightarrow> uint (0xE0 + word_of_int a :: u8) = 0xE0 + a"
  "0 \<le> a \<Longrightarrow> a < 16 \<Longrightarrow> uint (0xF0 + word_of_int a :: u8) = 0xF0 + a"
  using uint_of_small [of "0x80 + a"] uint_of_small [of "0xC0 + a"] uint_of_small [of "0xE0 + a"]
    uint_of_small [of "0xF0 + a"] by simp_all

lemma lead_mod:
  fixes a :: int
  shows "0 \<le> a \<Longrightarrow> a < 16 \<Longrightarrow> (0xE0 + a) mod 16 = a" and "0 \<le> a \<Longrightarrow> a < 32 \<Longrightarrow> (0xC0 + a) mod 32 = a"
    and "0 \<le> a \<Longrightarrow> a < 64 \<Longrightarrow> (0x80 + a) mod 64 = a"
  using mod_add_left_eq [of "0xE0" 16 a] mod_add_left_eq [of "0xC0" 32 a] mod_add_left_eq [of "0x80" 64 a]
  by simp_all

lemma base64_digits:
  fixes r :: int
  shows "r div 4096 = r div 64 div 64" and "r div 262144 = r div 64 div 64 div 64"
  using zdiv_zmult2_eq [of 64 r 64] zdiv_zmult2_eq [of 64 r 4096] zdiv_zmult2_eq [of 64 "r div 64" 64]
  by simp_all

lemma base64_split:
  fixes a b :: int
  assumes "0 \<le> b" "b < 64"
  shows "(a * 64 + b) div 64 = a" "(a * 64 + b) mod 64 = b"
  using assms by simp_all

lemma base64_split3:
  fixes a b c :: int
  assumes "0 \<le> b" "b < 64" "0 \<le> c" "c < 64"
  shows "(a * 4096 + b * 64 + c) div 4096 = a" "(a * 4096 + b * 64 + c) div 64 mod 64 = b"
    "(a * 4096 + b * 64 + c) mod 64 = c"
proof -
  have r: "a * 4096 + b * 64 + c = (a * 64 + b) * 64 + c" by simp
  show "(a * 4096 + b * 64 + c) div 4096 = a" "(a * 4096 + b * 64 + c) div 64 mod 64 = b"
    "(a * 4096 + b * 64 + c) mod 64 = c"
    unfolding base64_digits r using assms by (simp_all only: base64_split)
qed

lemma base64_split4:
  fixes a b c d :: int
  assumes "0 \<le> b" "b < 64" "0 \<le> c" "c < 64" "0 \<le> d" "d < 64"
  shows "(a * 262144 + b * 4096 + c * 64 + d) div 262144 = a"
    "(a * 262144 + b * 4096 + c * 64 + d) div 4096 mod 64 = b"
    "(a * 262144 + b * 4096 + c * 64 + d) div 64 mod 64 = c"
    "(a * 262144 + b * 4096 + c * 64 + d) mod 64 = d"
proof -
  have r: "a * 262144 + b * 4096 + c * 64 + d = ((a * 64 + b) * 64 + c) * 64 + d" by simp
  show "(a * 262144 + b * 4096 + c * 64 + d) div 262144 = a"
    "(a * 262144 + b * 4096 + c * 64 + d) div 4096 mod 64 = b"
    "(a * 262144 + b * 4096 + c * 64 + d) div 64 mod 64 = c"
    "(a * 262144 + b * 4096 + c * 64 + d) mod 64 = d"
    unfolding base64_digits r using assms by (simp_all only: base64_split)
qed

lemma digits2: "0 \<le> (r :: int) \<Longrightarrow> \<exists>i j. 0 \<le> i \<and> 0 \<le> j \<and> j < 64 \<and> r = i * 64 + j"
  by (rule exI [of _ "r div 64"], rule exI [of _ "r mod 64"]) (simp add: pos_imp_zdiv_nonneg_iff)

lemma digits3:
  assumes "0 \<le> (r :: int)"
  obtains i j k where "0 \<le> i" "0 \<le> j" "j < 64" "0 \<le> k" "k < 64" "r = i * 4096 + j * 64 + k"
proof -
  obtain q k where q: "0 \<le> q" "0 \<le> k" "k < 64" "r = q * 64 + k" using digits2 [OF assms] by blast
  obtain i j where "0 \<le> i" "0 \<le> j" "j < 64" "q = i * 64 + j" using digits2 [OF q(1)] by blast
  with q show thesis by (intro that [of i j k]) simp_all
qed

lemma digits4:
  assumes "0 \<le> (r :: int)"
  obtains i j k l where "0 \<le> i" "0 \<le> j" "j < 64" "0 \<le> k" "k < 64" "0 \<le> l" "l < 64"
    "r = i * 262144 + j * 4096 + k * 64 + l"
proof -
  obtain q l where q: "0 \<le> q" "0 \<le> l" "l < 64" "r = q * 64 + l" using digits2 [OF assms] by blast
  obtain i j k where "0 \<le> i" "0 \<le> j" "j < 64" "0 \<le> k" "k < 64" "q = i * 4096 + j * 64 + k"
    using digits3 [OF q(1)] by blast
  with q show thesis by (intro that [of i j k l]) simp_all
qed

text \<open>The encodings, by digits.\<close>

lemma append_rune2:
  assumes "0 \<le> j" "j < 64" "0x80 \<le> i * 64 + j" "i * 64 + j < 0x800"
  shows "append_rune (i * 64 + j) = [word_of_int (0xC0 + i), word_of_int (0x80 + j)]"
  using assms base64_split [of j i] by (simp add: append_rune_def is_scalar_def is_surrogate_def)

lemma append_rune3:
  assumes "0 \<le> j" "j < 64" "0 \<le> k" "k < 64" and "is_scalar (i * 4096 + j * 64 + k)"
    and "0x800 \<le> i * 4096 + j * 64 + k" "i * 4096 + j * 64 + k < 0x10000"
  shows "append_rune (i * 4096 + j * 64 + k) =
    [word_of_int (0xE0 + i), word_of_int (0x80 + j), word_of_int (0x80 + k)]"
  using assms base64_split3 [of j k i] by (simp add: append_rune_def)

lemma append_rune4:
  assumes "0 \<le> j" "j < 64" "0 \<le> k" "k < 64" "0 \<le> l" "l < 64"
    and "is_scalar (i * 262144 + j * 4096 + k * 64 + l)"
    and "0x10000 \<le> i * 262144 + j * 4096 + k * 64 + l"
  shows "append_rune (i * 262144 + j * 4096 + k * 64 + l) =
    [word_of_int (0xF0 + i), word_of_int (0x80 + j), word_of_int (0x80 + k), word_of_int (0x80 + l)]"
proof -
  define r where "r = i * 262144 + j * 4096 + k * 64 + l"
  have "r div 262144 = i" "r div 4096 mod 64 = j" "r div 64 mod 64 = k" "r mod 64 = l"
    unfolding r_def by (rule base64_split4 [OF assms(1-6)])+
  then have "append_rune r =
      [word_of_int (0xF0 + i), word_of_int (0x80 + j), word_of_int (0x80 + k), word_of_int (0x80 + l)]"
    using assms(7,8) [folded r_def] by (simp add: append_rune_def)
  then show ?thesis by (simp only: r_def)
qed

lemmas utf8_simps = decode_rune_def Let_def in_range_def uint_lead uint_of_small

lemma decode_append_rune:
  assumes "is_scalar r"
  shows "decode_rune (append_rune r @ t) = (r, length (append_rune r))"
proof -
  have *: "0 \<le> r" "r \<le> 0x10FFFF" "\<not> (0xD800 \<le> r \<and> r < 0xE000)"
    using assms by (auto simp: is_scalar_def is_surrogate_def)
  consider "r < 0x80" | "0x80 \<le> r" "r < 0x800" | "0x800 \<le> r" "r < 0x10000" | "0x10000 \<le> r"
    by linarith
  then show ?thesis
  proof cases
    case 1
    then show ?thesis using * assms by (simp add: utf8_simps append_rune_def)
  next
    case 2
    obtain i j where d: "0 \<le> j" "j < 64" "r = i * 64 + j" using digits2 [OF *(1)] by blast
    then have "2 \<le> i" "i < 32" using 2 by linarith+
    with 2 d append_rune2 [of j i] show ?thesis by (simp add: utf8_simps)
  next
    case 3
    obtain i j k where d: "0 \<le> i" "0 \<le> j" "j < 64" "0 \<le> k" "k < 64" "r = i * 4096 + j * 64 + k"
      using digits3 [OF *(1)] by blast
    then have "i < 16" "i = 0 \<Longrightarrow> 0x20 \<le> j" "i = 13 \<Longrightarrow> j \<le> 0x1F" using 3 * by linarith+
    with 3 d append_rune3 [of j k i] assms show ?thesis by (auto simp add: utf8_simps)
  next
    case 4
    obtain i j k l where d: "0 \<le> i" "0 \<le> j" "j < 64" "0 \<le> k" "k < 64" "0 \<le> l" "l < 64"
      "r = i * 262144 + j * 4096 + k * 64 + l" using digits4 [OF *(1)] by blast
    then have "i < 5" "i = 0 \<Longrightarrow> 0x10 \<le> j" "i = 4 \<Longrightarrow> j \<le> 0xF" using 4 * by linarith+
    with 4 d append_rune4 [of j k l i] assms show ?thesis by (auto simp add: utf8_simps)
  qed
qed

lemma append_rune_not_Nil [simp]: "append_rune r \<noteq> []"
  by (simp add: append_rune_def Let_def)

lemma range_append_rune:
  assumes "is_scalar r"
  shows "range_bytes (append_rune r @ t) = r # range_bytes t"
proof -
  obtain a bs where ab: "append_rune r = a # bs" by (cases "append_rune r") auto
  then show ?thesis using decode_append_rune [OF assms, of t] by simp
qed

lemma range_concat_append:
  "list_all is_scalar rs \<Longrightarrow> range_bytes (concat (map append_rune rs)) = rs"
  by (induction rs) (auto simp: range_append_rune)

text \<open>A well-formed sequence is the encoding of the rune it decodes to.\<close>

lemma byte_offset: "(lo :: int) \<le> uint x \<Longrightarrow> \<exists>a\<ge>0. uint x = lo + a \<and> x = word_of_int (lo + a)"
  by (rule exI [of _ "uint x - lo"]) simp

lemma append_decode_rune:
  assumes "decode_rune b = (r, n)" and "b \<noteq> []" and "r = rune_error \<longrightarrow> n = 3"
  shows "append_rune r = take n b"
proof -
  have sc: "is_scalar r" by (rule decode_rune_scalar [OF assms(1)])
  from assms consider
      (1) x t where "b = x # t" "n = 1" "r = uint x" "uint x < 0x80"
    | (2) x y t where "b = x # y # t" "n = 2" "r = (uint x - 0xC0) * 64 + (uint y - 0x80)"
        "0xC2 \<le> uint x" "uint x \<le> 0xDF" "in_range y 0x80 0xBF"
    | (3) x y z t where "b = x # y # z # t" "n = 3"
        "r = (uint x - 0xE0) * 4096 + (uint y - 0x80) * 64 + (uint z - 0x80)"
        "0xE0 \<le> uint x" "uint x \<le> 0xEF" "in_range y 0x80 0xBF" "uint x = 0xE0 \<longrightarrow> 0xA0 \<le> uint y"
        "in_range z 0x80 0xBF"
    | (4) x y z w t where "b = x # y # z # w # t" "n = 4"
        "r = (uint x - 0xF0) * 262144 + (uint y - 0x80) * 4096 + (uint z - 0x80) * 64 + (uint w - 0x80)"
        "0xF0 \<le> uint x" "in_range y 0x80 0xBF" "uint x = 0xF0 \<longrightarrow> 0x90 \<le> uint y"
        "in_range z 0x80 0xBF" "in_range w 0x80 0xBF"
    by (auto simp: decode_rune_def Let_def in_range_def split: list.splits if_splits)
  then show ?thesis
  proof cases
    case 1
    then show ?thesis using sc by (simp add: append_rune_def)
  next
    case 2
    obtain i j where ij: "uint x = 0xC0 + i" "x = word_of_int (0xC0 + i)" "uint y = 0x80 + j"
        "y = word_of_int (0x80 + j)" "0 \<le> j" "j < 64" "2 \<le> i" "i < 32"
      using 2
      byte_offset [of "0xC0" x] byte_offset [of "0x80" y] by (auto simp: in_range_def)
    then have r: "r = i * 64 + j" using 2 by simp
    have "0x80 \<le> r" "r < 0x800" using ij r by auto
    then show ?thesis using 2(1,2) ij append_rune2 [of j i] by (simp add: r)
  next
    case 3
    obtain i j k where ij: "uint x = 0xE0 + i" "x = word_of_int (0xE0 + i)" "uint y = 0x80 + j"
        "y = word_of_int (0x80 + j)" "uint z = 0x80 + k" "z = word_of_int (0x80 + k)"
        "0 \<le> j" "j < 64" "0 \<le> k" "k < 64" "0 \<le> i" "i < 16" "i = 0 \<longrightarrow> 32 \<le> j"
      using 3 byte_offset [of "0xE0" x] byte_offset [of "0x80" y] byte_offset [of "0x80" z]
      by (auto simp: in_range_def)
    then have r: "r = i * 4096 + j * 64 + k" using 3 by simp
    have "0x800 \<le> r" "r < 0x10000" using ij r by (cases "i = 0"; auto)+
    then show ?thesis using sc 3(1,2) ij append_rune3 [of j k i] by (simp add: r)
  next
    case 4
    obtain i j k l where ij: "uint x = 0xF0 + i" "x = word_of_int (0xF0 + i)" "uint y = 0x80 + j"
        "y = word_of_int (0x80 + j)" "uint z = 0x80 + k" "z = word_of_int (0x80 + k)"
        "uint w = 0x80 + l" "w = word_of_int (0x80 + l)"
        "0 \<le> j" "j < 64" "0 \<le> k" "k < 64" "0 \<le> l" "l < 64" "0 \<le> i" "i = 0 \<longrightarrow> 16 \<le> j"
      using 4 byte_offset [of "0xF0" x] byte_offset [of "0x80" y] byte_offset [of "0x80" z]
        byte_offset [of "0x80" w]
      by (auto simp: in_range_def)
    then have r: "r = i * 262144 + j * 4096 + k * 64 + l" using 4 by simp
    have "0x10000 \<le> r" using ij r by (cases "i = 0"; auto)
    then show ?thesis using sc 4(1,2) ij append_rune4 [of j k l i] by (simp add: r)
  qed
qed

lemma concat_range_bytes: "valid_bytes b \<Longrightarrow> concat (map append_rune (range_bytes b)) = b"
proof (induction b rule: range_bytes.induct)
  case (2 a bs)
  obtain r n where d: "decode_rune (a # bs) = (r, n)" by fastforce
  have "append_rune r = take n (a # bs)" "1 \<le> n"
    using append_decode_rune [OF d] decode_rune_scalar(3) [OF d] 2(2) d by auto
  moreover have "concat (map append_rune (range_bytes (drop (n - 1) bs))) = drop (n - 1) bs"
    using 2 d by simp
  ultimately show ?case using d by (cases n) auto
qed simp


section \<open>Decode inverts Encode\<close>

lemma u8_less_iff: "(x :: u8) < 0x80 \<longleftrightarrow> uint x < 0x80" "(x :: u8) = 0 \<longleftrightarrow> uint x = 0"
  by (simp_all add: word_less_def word_uint_eq_iff)

lemmas decode_step_simps = and_hi_eq_iff u8_less_iff two_rune_arith three_rune_arith Let_def

lemma length_triple [simp]: "length (triple r) = 3"
  by (simp add: triple_def)

lemma three_rune_triple:
  assumes "0 \<le> r" and "r < 0x10000"
  obtains x y z where "triple r = [x, y, z]" and "x AND 0xF0 = 0xE0" and "y AND 0xC0 = 0x80"
    and "z AND 0xC0 = 0x80" and "three_rune x y z = r" and "\<not> x < 0x80" and "x \<noteq> 0"
    and "x AND 0xE0 \<noteq> 0xC0"
proof -
  obtain i j k where d: "0 \<le> i" "0 \<le> j" "j < 64" "0 \<le> k" "k < 64" "r = i * 4096 + j * 64 + k"
    using digits3 [OF assms(1)] by blast
  let ?x = "word_of_int (0xE0 + i) :: u8" and ?y = "word_of_int (0x80 + j) :: u8"
  let ?z = "word_of_int (0x80 + k) :: u8"
  have i: "i < 16" using assms d by linarith
  have u: "uint ?x = 0xE0 + i" "uint ?y = 0x80 + j" "uint ?z = 0x80 + k"
    using d i by (simp_all add: uint_lead)
  have t: "triple r = [?x, ?y, ?z]"
    unfolding triple_arith [OF assms] using d base64_split3 [of j k i] by simp
  have "three_rune ?x ?y ?z = r"
    unfolding three_rune_arith u using d i by (simp add: lead_mod)
  moreover have "?x AND 0xF0 = 0xE0" "?y AND 0xC0 = 0x80" "?z AND 0xC0 = 0x80" "\<not> ?x < 0x80" "?x \<noteq> 0"
    "?x AND 0xE0 \<noteq> 0xC0"
    unfolding decode_step_simps u using d i by simp_all
  ultimately show thesis using t by (intro that) 
qed

lemma surrogate_pair_none: "\<not> is_surrogate r \<Longrightarrow> surrogate_pair r t = None"
  by (simp add: surrogate_pair_def split: list.splits)

lemma decode_loop_triple:
  assumes "0x800 \<le> r" and "r < 0x10000" and "\<not> is_surrogate r"
  shows "decode_loop i sb (triple r @ t) = decode_loop (i + 3) (sb @ write_rune r) t"
proof -
  have "0 \<le> r" using assms by simp
  then obtain x y z where "triple r = [x, y, z]" "x AND 0xF0 = 0xE0" "y AND 0xC0 = 0x80"
    "z AND 0xC0 = 0x80" "three_rune x y z = r" "\<not> x < 0x80" "x \<noteq> 0" "x AND 0xE0 \<noteq> 0xC0"
    using assms(2) by (rule three_rune_triple)
  then show ?thesis using assms
    by (cases t) (simp_all add: surrogate_pair_none)
qed

lemma decode_loop_pair:
  assumes "0xD800 \<le> h" "h < 0xDC00" "0xDC00 \<le> l" "l < 0xE000"
  shows "decode_loop i sb (triple h @ triple l @ t) =
    decode_loop (i + 6) (sb @ write_rune (utf16_decode_rune h l)) t"
proof -
  have hl: "0 \<le> h" "h < 0x10000" "0 \<le> l" "l < 0x10000" using assms by simp_all
  obtain x y z where 1: "triple h = [x, y, z]" "x AND 0xF0 = 0xE0" "y AND 0xC0 = 0x80"
    "z AND 0xC0 = 0x80" "three_rune x y z = h" "\<not> x < 0x80" "x \<noteq> 0" "x AND 0xE0 \<noteq> 0xC0"
    using hl(1,2) by (rule three_rune_triple)
  obtain x2 y2 z2 where 2: "triple l = [x2, y2, z2]" "x2 AND 0xF0 = 0xE0" "y2 AND 0xC0 = 0x80"
    "z2 AND 0xC0 = 0x80" "three_rune x2 y2 z2 = l"
    using hl(3,4) by (rule three_rune_triple)
  have "utf16_decode_rune h l \<noteq> rune_error" "is_surrogate h"
    using assms by (simp_all add: utf16_decode_rune_def rune_error_def is_surrogate_def)
  then show ?thesis using 1 2 assms by (simp add: surrogate_pair_def Let_def)
qed

text \<open>One rune of the encoding is one step of the decoder.\<close>

lemma decode_loop_rune:
  assumes "is_scalar r"
  shows "decode_loop i sb (encode_rune r @ t) =
    decode_loop (i + length (encode_rune r)) (sb @ write_rune r) t"
proof -
  have *: "0 \<le> r" "r \<le> 0x10FFFF" "\<not> is_surrogate r" using assms by (simp_all add: is_scalar_def)
  consider "1 \<le> r" "r \<le> 0x7F" | "r = 0 \<or> 0x80 \<le> r" "r \<le> 0x7FF" | "0x800 \<le> r" "r \<le> 0xFFFF"
    | "0x10000 \<le> r" using * by linarith
  then show ?thesis
  proof cases
    case 1
    then show ?thesis using assms
      by (simp add: encode_rune_arith u8_less_iff uint_of_small write_rune_def append_rune_def
          string_of_bytes_def)
  next
    case 2
    obtain i j where d: "0 \<le> i" "0 \<le> j" "j < 64" "r = i * 64 + j" using digits2 [OF *(1)] by blast
    let ?x = "word_of_int (0xC0 + i) :: u8" and ?y = "word_of_int (0x80 + j) :: u8"
    have i: "i < 32" using d 2 by linarith
    have u: "uint ?x = 0xC0 + i" "uint ?y = 0x80 + j"
      using d i by (simp_all add: uint_lead)
    have r: "two_rune ?x ?y = r" unfolding two_rune_arith u using d i by (simp add: lead_mod)
    have e: "encode_rune r = [?x, ?y]"
      using assms 2 d base64_split [of j i] by (auto simp add: encode_rune_arith)
    have "?x \<noteq> 0" "\<not> ?x < 0x80" "?x AND 0xE0 = 0xC0" "?y AND 0xC0 = 0x80"
      unfolding decode_step_simps u using d i by simp_all
    then show ?thesis using 2 * r unfolding e by (auto simp: Let_def)
  next
    case 3
    then have "encode_rune r = triple r" using assms by (simp add: encode_rune_arith)
    then show ?thesis using 3 * by (simp add: decode_loop_triple del: decode_loop.simps)
  next
    case 4
    let ?h = "0xD800 + (r - 0x10000) div 1024" and ?l = "0xDC00 + (r - 0x10000) mod 1024"
    have b: "0xD800 \<le> ?h" "?h < 0xDC00" "0xDC00 \<le> ?l" "?l < 0xE000"
      using * 4 pos_mod_bound [of 1024 "r - 0x10000"] pos_mod_sign [of 1024 "r - 0x10000"]
      by linarith+
    then have "utf16_decode_rune ?h ?l = r" by (simp add: utf16_decode_rune_def)
    moreover have "encode_rune r = triple ?h @ triple ?l" using assms 4 by (simp add: encode_rune_arith)
    ultimately show ?thesis using decode_loop_pair [OF b, of i sb t]
      by (simp del: decode_loop.simps)
  qed
qed

lemma decode_loop_runes:
  "list_all is_scalar rs \<Longrightarrow>
   decode_loop i sb (concat (map encode_rune rs)) = Inr (sb @ concat (map write_rune rs))"
  by (induction rs arbitrary: i sb) (simp_all add: decode_loop_rune)

lemma decode_loop_ascii:
  "list_all (\<lambda>c. \<not> (c = 0 \<or> c \<ge> 0x80)) b \<Longrightarrow> decode_loop i sb b = Inr (sb @ string_of_bytes b)"
  by (induction b arbitrary: i sb) (auto simp: string_of_bytes_def not_le)

text \<open>The ASCII fast path computes what the loop computes.\<close>

lemma Decode_eq_loop: "Decode b = decode_loop 0 [] b"
  by (simp add: Decode_def decode_loop_ascii del: decode_loop.simps)

lemma write_runes: "concat (map write_rune rs) = string_of_bytes (concat (map append_rune rs))"
  by (induction rs) (simp_all add: write_rune_def string_of_bytes_def)

lemma range_string_scalar: "list_all is_scalar (range_string s)"
  by (auto simp: range_string_def list_all_iff dest: range_bytes_scalar)

lemma range_string_write: "list_all is_scalar rs \<Longrightarrow> range_string (concat (map write_rune rs)) = rs"
  by (simp add: range_string_def write_runes range_concat_append)

lemma Decode_Encode_runes: "Decode (Encode s) = Inr (concat (map write_rune (range_string s)))"
  using decode_loop_runes [OF range_string_scalar [of s], of 0 "[]"]
  by (simp add: Decode_eq_loop Encode_def del: decode_loop.simps)

section \<open>Decode accepts only canonical encodings\<close>

abbreviation permitted :: "u8 \<Rightarrow> bool" where
  "permitted c \<equiv> c \<noteq> 0 \<and> c < 0xF0"

lemma permitted_iff: "permitted c \<longleftrightarrow> 0 < uint c \<and> uint c < 0xF0"
  using uint_ge_0 [of c] by (auto simp: word_less_def word_uint_eq_iff less_le simp del: uint_ge_0)

lemma triple_three_rune:
  assumes "x AND 0xF0 = 0xE0" and "y AND 0xC0 = 0x80" and "z AND 0xC0 = 0x80"
  shows "triple (three_rune x y z) = [x, y, z]" and "0 \<le> three_rune x y z"
    and "three_rune x y z < 0x10000" and "list_all permitted [x, y, z]"
proof -
  obtain i j k where ij: "uint x = 0xE0 + i" "x = word_of_int (0xE0 + i)" "uint y = 0x80 + j"
      "y = word_of_int (0x80 + j)" "uint z = 0x80 + k" "z = word_of_int (0x80 + k)"
      "0 \<le> j" "j < 64" "0 \<le> k" "k < 64" "0 \<le> i" "i < 16"
    using assms byte_offset [of "0xE0" x] byte_offset [of "0x80" y] byte_offset [of "0x80" z]
    by (auto simp: and_hi_eq_iff)
  have r: "three_rune x y z = i * 4096 + j * 64 + k"
    using ij(7-12) by (simp add: three_rune_arith ij(1,3,5) lead_mod)
  show rr: "0 \<le> three_rune x y z" "three_rune x y z < 0x10000"
    using ij(7-12) r by linarith+
  show "triple (three_rune x y z) = [x, y, z]"
    unfolding triple_arith [OF rr] unfolding r base64_split3 [OF ij(7-10)]
    by (simp only: ij(2,4,6) [symmetric])
  show "list_all permitted [x, y, z]" using ij by (simp add: permitted_iff)
qed

lemma split1024:
  fixes a b :: int
  shows "0 \<le> b \<Longrightarrow> b < 1024 \<Longrightarrow> (a * 1024 + b) div 1024 = a"
    and "0 \<le> b \<Longrightarrow> b < 1024 \<Longrightarrow> (a * 1024 + b) mod 1024 = b"
  by simp_all

lemma encode_pair:
  assumes "0xD800 \<le> h" "h < 0xDC00" "0xDC00 \<le> l" "l < 0xE000"
  shows "is_scalar (utf16_decode_rune h l)" and "encode_rune (utf16_decode_rune h l) = triple h @ triple l"
proof -
  define p where "p = utf16_decode_rune h l"
  have p: "p = (h - 0xD800) * 1024 + (l - 0xDC00) + 0x10000"
    using assms by (simp add: p_def utf16_decode_rune_def)
  have "(p - 0x10000) div 1024 = h - 0xD800" "(p - 0x10000) mod 1024 = l - 0xDC00"
    using assms p split1024 [of "l - 0xDC00" "h - 0xD800"] by simp_all
  moreover show "is_scalar p" using assms p by (simp add: is_scalar_def is_surrogate_def)
  moreover have "0xFFFF < p" using assms p by simp
  ultimately show "encode_rune p = triple h @ triple l" by (simp add: encode_rune_arith)
qed

text \<open>Each successful step consumes a non-empty run \<open>p\<close> of permitted bytes and writes one rune.\<close>

lemma decode_loop_step:
  assumes "decode_loop i sb (x # t) = Inr s"
  obtains p i' t' r where "x # t = p @ t'" and "p \<noteq> []" and "list_all permitted p"
    and "decode_loop i' (sb @ write_rune r) t' = Inr s" and "is_scalar r"
    and "r \<noteq> rune_error \<longrightarrow> encode_rune r = p"
proof -
  have rest: "is_scalar rune_error" by (simp add: is_scalar_def is_surrogate_def rune_error_def)
  from assms [unfolded decode_loop.simps(2)] consider
      (1) "x \<noteq> 0" "x < 0x80" "decode_loop (i + 1) (sb @ [char_of (unat x)]) t = Inr s"
    | (2) y t2 where "x AND 0xE0 = 0xC0" "y AND 0xC0 = 0x80" "t = y # t2"
        "two_rune x y = 0 \<or> 0x80 \<le> two_rune x y"
        "decode_loop (i + 2) (sb @ write_rune (two_rune x y)) t2 = Inr s"
    | (3) y z t3 where "x AND 0xF0 = 0xE0" "y AND 0xC0 = 0x80" "z AND 0xC0 = 0x80" "t = y # z # t3"
        "0x800 \<le> three_rune x y z" "surrogate_pair (three_rune x y z) t3 = None"
        "decode_loop (i + 3) (sb @ write_rune (if is_surrogate (three_rune x y z) then rune_error
           else three_rune x y z)) t3 = Inr s"
    | (4) y z t3 pair where "x AND 0xF0 = 0xE0" "y AND 0xC0 = 0x80" "z AND 0xC0 = 0x80" "t = y # z # t3"
        "surrogate_pair (three_rune x y z) t3 = Some pair"
        "decode_loop (i + 6) (sb @ write_rune pair) (drop 3 t3) = Inr s"
    by (auto simp: Let_def not_less simp del: decode_loop.simps
        split: if_split_asm list.split_asm option.split_asm)
  then show thesis
  proof cases
    case 1
    then have u: "0 < uint x" "uint x < 0x80"
      using permitted_iff [of x] by (auto simp: word_less_def)
    then have "is_scalar (uint x)" by (simp add: is_scalar_def is_surrogate_def)
    moreover from this have "write_rune (uint x) = [char_of (unat x)]" "encode_rune (uint x) = [x]"
      using u by (simp_all add: write_rune_def append_rune_def string_of_bytes_def encode_rune_arith)
    ultimately show thesis using 1 u
      by (intro that [of "[x]" t "i + 1" "uint x"]) (simp_all add: permitted_iff)
  next
    case 2
    obtain a b where ij: "uint x = 0xC0 + a" "x = word_of_int (0xC0 + a)" "uint y = 0x80 + b"
        "y = word_of_int (0x80 + b)" "0 \<le> a" "a < 32" "0 \<le> b" "b < 64"
      using 2 byte_offset [of "0xC0" x] byte_offset [of "0x80" y] by (auto simp: and_hi_eq_iff)
    then have r: "two_rune x y = a * 64 + b" by (simp add: two_rune_arith lead_mod)
    then have sc: "is_scalar (two_rune x y)" using ij by (simp add: is_scalar_def is_surrogate_def)
    moreover have "encode_rune (two_rune x y) = [x, y]"
      using 2(4) ij r base64_split [of b a] encode_rune_arith [OF sc] by auto
    ultimately show thesis using 2 ij
      by (intro that [of "[x, y]" t2 "i + 2" "two_rune x y"]) (simp_all add: permitted_iff)
  next
    case 3
    note tr = triple_three_rune [OF 3(1-3)]
    let ?r = "if is_surrogate (three_rune x y z) then rune_error else three_rune x y z"
    have sc: "is_scalar ?r" using rest tr by (simp add: is_scalar_def)
    then have "?r \<noteq> rune_error \<longrightarrow> encode_rune ?r = [x, y, z]"
      using 3(5) tr by (auto simp: encode_rune_arith)
    then show thesis using 3 tr sc by (intro that [of "[x, y, z]" t3 "i + 3" ?r]) simp_all
  next
    case 4
    note tr = triple_three_rune [OF 4(1-3)]
    from 4(5) obtain x2 y2 z2 t6 where t3: "t3 = x2 # y2 # z2 # t6" and m: "x2 AND 0xF0 = 0xE0"
      "y2 AND 0xC0 = 0x80" "z2 AND 0xC0 = 0x80"
      and pair: "pair = utf16_decode_rune (three_rune x y z) (three_rune x2 y2 z2)" "pair \<noteq> rune_error"
      by (auto simp: surrogate_pair_def Let_def split: list.splits if_splits)
    note tr2 = triple_three_rune [OF m]
    have "encode_rune pair = [x, y, z] @ [x2, y2, z2]" "is_scalar pair"
      using pair encode_pair [of "three_rune x y z" "three_rune x2 y2 z2"] tr(1) tr2(1)
      by (auto simp: utf16_decode_rune_def split: if_splits)
    then show thesis using 4 t3 tr(4) tr2(4)
      by (intro that [of "[x, y, z, x2, y2, z2]" t6 "i + 6" pair]) simp_all
  qed
qed

lemma decode_loop_sound:
  assumes "decode_loop i sb b = Inr s"
  shows "\<exists>rs. s = sb @ concat (map write_rune rs) \<and> list_all is_scalar rs \<and>
     (rune_error \<notin> set rs \<longrightarrow> concat (map encode_rune rs) = b) \<and> list_all permitted b"
  using assms
proof (induction b arbitrary: i sb rule: length_induct)
  case (1 b)
  show ?case
  proof (cases b)
    case Nil
    then show ?thesis using 1(2) by (intro exI [of _ "[]"]) simp
  next
    case (Cons x t)
    from 1(2) [unfolded Cons] obtain p i' t' r where st: "b = p @ t'" "p \<noteq> []" "list_all permitted p"
      "decode_loop i' (sb @ write_rune r) t' = Inr s" "is_scalar r" "r \<noteq> rune_error \<longrightarrow> encode_rune r = p"
      unfolding Cons by (rule decode_loop_step)
    then obtain rs where "s = (sb @ write_rune r) @ concat (map write_rune rs)" "list_all is_scalar rs"
      "rune_error \<notin> set rs \<longrightarrow> concat (map encode_rune rs) = t'" "list_all permitted t'"
      using 1(1) [rule_format, of t' i' "sb @ write_rune r"] by auto
    with st show ?thesis by (intro exI [of _ "r # rs"]) auto
  qed
qed

lemma Decode_permitted: "Decode b = Inr s \<Longrightarrow> list_all permitted b"
  using decode_loop_sound [of 0 "[]" b s] by (auto simp: Decode_eq_loop)

lemma Encode_permitted: "list_all permitted (Encode s)"
  by (rule Decode_permitted) (simp add: Decode_Encode_runes)

lemma length_encode_rune: "length (encode_rune r) = rune_len r"
  by (auto simp: encode_rune_def rune_len_def split: prod.splits)

lemma length_Encode: "length (Encode s) = EncodedLen s"
  by (simp add: Encode_def EncodedLen_def length_concat o_def length_encode_rune)

lemma valid_append_rune:
  assumes "is_scalar r"
  shows "valid_bytes (append_rune r @ t) = valid_bytes t"
proof -
  obtain a bs where ab: "append_rune r = a # bs" by (cases "append_rune r") auto
  moreover have "r = rune_error \<Longrightarrow> length (append_rune r) = 3"
    by (simp add: append_rune_def rune_error_def is_scalar_def is_surrogate_def)
  ultimately show ?thesis using decode_append_rune [OF assms, of t] by auto
qed

lemma valid_concat_append: "list_all is_scalar rs \<Longrightarrow> valid_bytes (concat (map append_rune rs))"
  by (induction rs) (auto simp: valid_append_rune)

section \<open>Properties\<close>

text \<open>C25: decoding an encoded string gives the string back exactly when the Go string is
  well-formed UTF-8; the hypothesis-free form says the codec loses nothing else.\<close>

theorem Decode_Encode_iff: "Decode (Encode s) = Inr s \<longleftrightarrow> valid_string s"
proof
  assume "valid_string s"
  then show "Decode (Encode s) = Inr s"
    by (simp add: Decode_Encode_runes write_runes range_string_def valid_string_def concat_range_bytes)
next
  assume "Decode (Encode s) = Inr s"
  then have "string_of_bytes (concat (map append_rune (range_string s))) = s"
    by (simp add: Decode_Encode_runes write_runes)
  then have "bytes_of_string s = concat (map append_rune (range_string s))"
    by (metis bytes_of_string_of_bytes)
  then show "valid_string s"
    by (simp add: valid_string_def valid_concat_append range_string_scalar)
qed

text \<open>C27: the encoding has the length \<open>EncodedLen\<close> announces, and holds neither NUL nor a byte
  of the range 0xF0-0xFF, which is what the constant pool reader demands of a \<open>Utf8\<close> entry.\<close>

theorem Encode_length_and_bytes:
  "length (Encode s) = EncodedLen s \<and> (\<forall>c \<in> set (Encode s). c \<noteq> 0 \<and> c < 0xF0)"
  using Encode_permitted [of s] by (simp add: length_Encode list_all_iff)

theorem Encode_length_and_bytes_witness:
  "length (Encode ''a'') = EncodedLen ''a'' \<and> (0x61 :: u8) \<in> set (Encode ''a'') \<and> (0x61 :: u8) < 0xF0"
proof -
  have "(0x61 :: u8) \<in> set (Encode ''a'')"
    by (simp add: Encode_def range_string_def bytes_of_string_def decode_rune_def encode_rune_def Let_def)
  then show ?thesis using Encode_length_and_bytes [of "''a''"] by blast
qed

text \<open>C26: \<open>Decode\<close> accepts only canonical input. Unless the result shows U+FFFD (the stand-in
  for a lone surrogate), encoding it again gives exactly the bytes that were read; overlong
  forms, raw NULs and four-byte sequences never pass.\<close>

theorem Decode_canonical:
  assumes "Decode b = Inr s" and "rune_error \<notin> set (range_string s)"
  shows "Encode s = b"
proof -
  obtain rs where "s = concat (map write_rune rs)" "list_all is_scalar rs"
    "rune_error \<notin> set rs \<longrightarrow> concat (map encode_rune rs) = b"
    using decode_loop_sound [of 0 "[]" b s] assms(1) by (auto simp: Decode_eq_loop)
  then show ?thesis using assms(2) by (simp add: Encode_def range_string_write)
qed

theorem Decode_canonical_witness: "Encode [CHR 0x00, CHR ''A''] = [0xC0, 0x80, 0x41]"
proof -
  have d: "Decode [0xC0, 0x80, 0x41] = Inr [CHR 0x00, CHR ''A'']" by code_simp
  have "rune_error \<notin> set (range_string [CHR 0x00, CHR ''A''])" by code_simp
  then show ?thesis by (rule Decode_canonical [OF d])
qed


end
