(* ===== verification/Desc.thy ===== *)
theory Desc
  imports Prelude
begin

text \<open>
  Package \<^verbatim>\<open>jvm/desc\<close>: the field and method descriptors of JVMS 4.3
  (\<^verbatim>\<open>src/jvm/desc/desc.go\<close>). The parser walks a byte string and the printer writes
  it back; the properties say that the two are inverse to each other on exactly the
  well-formed descriptors, with the limits of 255 dimensions and 255 argument slots.
\<close>

section \<open>Types\<close>

datatype kind = KInvalid | KVoid | KBoolean | KByte | KChar | KShort | KInt | KLong | KFloat
  | KDouble | KObject

definition MaxDims :: nat where "MaxDims = 255"

definition MaxArgSlots :: nat where "MaxArgSlots = 255"

record dtype =
  tKind :: kind
  tDims :: nat
  tName :: string

record dmethod =
  mParams :: "dtype list"
  mRet :: dtype

text \<open>One constructor per error message of the package.\<close>

datatype desc_error =
    TooManyDims nat
  | EndsAfterBracket string
  | VoidField string
  | UnterminatedClass string
  | EmptyClassName string
  | UnknownTypeChar char string
  | TrailingField string
  | TrailingReturn string
  | NotMethod string
  | UnterminatedParams string
  | TooManyArgSlots dmethod nat

definition Slots :: "dtype \<Rightarrow> nat" where
  "Slots t =
     (if tDims t > 0 then 1
      else case tKind t of KVoid \<Rightarrow> 0 | KLong \<Rightarrow> 2 | KDouble \<Rightarrow> 2 | _ \<Rightarrow> 1)"

definition IsRef :: "dtype \<Rightarrow> bool" where
  "IsRef t \<longleftrightarrow> tDims t > 0 \<or> tKind t = KObject"

text \<open>The \<open>baseChar\<close> array. Slot \<open>Invalid\<close> holds the zero byte; \<open>Object\<close> lies past the end
  of the array and is never looked up.\<close>

fun baseChar :: "kind \<Rightarrow> char" where
  "baseChar KVoid = CHR ''V''"
| "baseChar KBoolean = CHR ''Z''"
| "baseChar KByte = CHR ''B''"
| "baseChar KChar = CHR ''C''"
| "baseChar KShort = CHR ''S''"
| "baseChar KInt = CHR ''I''"
| "baseChar KLong = CHR ''J''"
| "baseChar KFloat = CHR ''F''"
| "baseChar KDouble = CHR ''D''"
| "baseChar _ = CHR 0x00"

definition type_string :: "dtype \<Rightarrow> string" where
  "type_string t =
     replicate (tDims t) (CHR ''['') @
     (if tKind t = KObject then CHR ''L'' # tName t @ [CHR '';''] else [baseChar (tKind t)])"

section \<open>Parsing\<close>

text \<open>\<^verbatim>\<open>strings.IndexByte\<close>.\<close>

fun index_byte :: "string \<Rightarrow> char \<Rightarrow> nat option" where
  "index_byte [] c = None"
| "index_byte (x # xs) c = (if x = c then Some 0 else map_option Suc (index_byte xs c))"

text \<open>The primitive type characters of the switch in \<open>parseType\<close>.\<close>

definition base_kind :: "char \<Rightarrow> kind option" where
  "base_kind c =
     (if c = CHR ''Z'' then Some KBoolean
      else if c = CHR ''B'' then Some KByte
      else if c = CHR ''C'' then Some KChar
      else if c = CHR ''S'' then Some KShort
      else if c = CHR ''I'' then Some KInt
      else if c = CHR ''J'' then Some KLong
      else if c = CHR ''F'' then Some KFloat
      else if c = CHR ''D'' then Some KDouble
      else None)"

definition parseType :: "string \<Rightarrow> bool \<Rightarrow> desc_error + dtype \<times> nat" where
  "parseType s allowVoid =
     (let dims = length (takeWhile (\<lambda>c. c = CHR ''['') s) in
      if dims > MaxDims then Inl (TooManyDims dims)
      else case drop dims s of
        [] \<Rightarrow> Inl (EndsAfterBracket s)
      | c # rest \<Rightarrow>
          if c = CHR ''V'' then
            if \<not> allowVoid \<or> dims > 0 then Inl (VoidField s)
            else Inr (\<lparr>tKind = KVoid, tDims = dims, tName = []\<rparr>, dims + 1)
          else if c = CHR ''L'' then
            (case index_byte (c # rest) (CHR '';'') of
               None \<Rightarrow> Inl (UnterminatedClass s)
             | Some e \<Rightarrow>
                 let name = take (e - 1) rest in
                 if name = [] then Inl (EmptyClassName s)
                 else Inr (\<lparr>tKind = KObject, tDims = dims, tName = name\<rparr>, dims + e + 1))
          else (case base_kind c of
               None \<Rightarrow> Inl (UnknownTypeChar c s)
             | Some k \<Rightarrow> Inr (\<lparr>tKind = k, tDims = dims, tName = []\<rparr>, dims + 1)))"

definition ParseField :: "string \<Rightarrow> desc_error + dtype" where
  "ParseField s = rbind (parseType s False) (\<lambda>(t, n).
     if n \<noteq> length s then Inl (TrailingField s) else Inr t)"

definition ParseReturn :: "string \<Rightarrow> desc_error + dtype" where
  "ParseReturn s = rbind (parseType s True) (\<lambda>(t, n).
     if n \<noteq> length s then Inl (TrailingReturn s) else Inr t)"

lemma parseType_progress: "parseType s v = Inr (t, n) \<Longrightarrow> 0 < n \<and> s \<noteq> []"
  by (auto simp: parseType_def Let_def split: if_splits list.splits option.splits)

text \<open>The parameter loop of \<open>ParseMethod\<close>: the parameters read so far and the rest of the
  descriptor, which starts at the closing parenthesis unless the input ran out.\<close>

function parse_params :: "dtype list \<Rightarrow> string \<Rightarrow> desc_error + dtype list \<times> string" where
  "parse_params ps s =
     (if s = [] \<or> hd s = CHR '')'' then Inr (ps, s)
      else case parseType s False of
        Inl e \<Rightarrow> Inl e
      | Inr (t, n) \<Rightarrow> parse_params (ps @ [t]) (drop n s))"
  by pat_completeness auto
termination
  by (relation "measure (\<lambda>(ps, s). length s)") (auto dest: parseType_progress)

declare parse_params.simps [simp del]

definition ParseMethod :: "string \<Rightarrow> desc_error + dmethod" where
  "ParseMethod s =
     (if length s < 3 \<or> hd s \<noteq> CHR ''('' then Inl (NotMethod s)
      else case parse_params [] (tl s) of
        Inl e \<Rightarrow> Inl e
      | Inr (ps, rest) \<Rightarrow>
          if rest = [] then Inl (UnterminatedParams s)
          else rbind (ParseReturn (tl rest)) (\<lambda>ret. Inr \<lparr>mParams = ps, mRet = ret\<rparr>))"

definition method_string :: "dmethod \<Rightarrow> string" where
  "method_string m =
     CHR ''('' # concat (map type_string (mParams m)) @ CHR '')'' # type_string (mRet m)"

section \<open>Slots and shorty\<close>

definition ArgSlots :: "dmethod \<Rightarrow> bool \<Rightarrow> nat" where
  "ArgSlots m receiver = (if receiver then 1 else 0) + sum_list (map Slots (mParams m))"

definition CheckArgSlots :: "dmethod \<Rightarrow> bool \<Rightarrow> desc_error option" where
  "CheckArgSlots m receiver =
     (let n = ArgSlots m receiver in if n > MaxArgSlots then Some (TooManyArgSlots m n) else None)"

definition shortyChar :: "dtype \<Rightarrow> char" where
  "shortyChar t = (if IsRef t then CHR ''L'' else baseChar (tKind t))"

definition Shorty :: "dmethod \<Rightarrow> string" where
  "Shorty m = shortyChar (mRet m) # map shortyChar (mParams m)"

definition Internal :: "string \<Rightarrow> string" where
  "Internal binary = map (\<lambda>c. if c = CHR ''.'' then CHR ''/'' else c) binary"

definition Binary :: "string \<Rightarrow> string" where
  "Binary internal = map (\<lambda>c. if c = CHR ''/'' then CHR ''.'' else c) internal"

section \<open>Well-formed descriptors\<close>

text \<open>What a parse can return: the specification of a descriptor's abstract syntax.\<close>

definition wf_type :: "bool \<Rightarrow> dtype \<Rightarrow> bool" where
  "wf_type allowVoid t \<longleftrightarrow>
     tDims t \<le> MaxDims \<and> tKind t \<noteq> KInvalid \<and>
     (tKind t = KVoid \<longrightarrow> allowVoid \<and> tDims t = 0) \<and>
     (if tKind t = KObject then tName t \<noteq> [] \<and> CHR '';'' \<notin> set (tName t) else tName t = [])"

definition wf_method :: "dmethod \<Rightarrow> bool" where
  "wf_method m \<longleftrightarrow> list_all (wf_type False) (mParams m) \<and> wf_type True (mRet m)"

lemma takeWhile_replicate_append:
  "x \<noteq> c \<Longrightarrow> takeWhile (\<lambda>y. y = c) (replicate n c @ x # xs) = replicate n c"
  by (induction n) auto

lemma baseChar_not_bracket: "baseChar k \<noteq> CHR ''[''" and baseChar_not_L: "baseChar k \<noteq> CHR ''L''"
  and baseChar_not_paren: "baseChar k \<noteq> CHR '')''"
  by (cases k; simp)+

lemma base_kind_baseChar:
  "k \<notin> {KInvalid, KVoid, KObject} \<Longrightarrow> base_kind (baseChar k) = Some k \<and> baseChar k \<noteq> CHR ''V''"
  by (cases k) (simp_all add: base_kind_def)

lemma base_kind_Some: "base_kind c = Some k \<Longrightarrow> baseChar k = c \<and> k \<notin> {KInvalid, KVoid, KObject}"
  by (auto simp: base_kind_def split: if_splits)

lemma index_byte_append: "c \<notin> set xs \<Longrightarrow> index_byte (xs @ c # ys) c = Some (length xs)"
  by (induction xs) auto

lemma index_byte_Some:
  "index_byte s c = Some n \<Longrightarrow> n < length s \<and> s = take n s @ c # drop (Suc n) s \<and> c \<notin> set (take n s)"
  by (induction s arbitrary: n) (auto split: if_splits)

lemma split_brackets:
  obtains n where "takeWhile (\<lambda>c. c = CHR ''['') s = replicate n (CHR ''['')"
    and "s = replicate n (CHR ''['') @ drop n s"
proof -
  let ?t = "takeWhile (\<lambda>c. c = CHR ''['') s"
  have r: "?t = replicate (length ?t) (CHR ''['')"
    by (rule replicate_eqI) (auto dest: set_takeWhileD)
  moreover have "s = ?t @ drop (length ?t) s"
    by (metis takeWhile_dropWhile_id dropWhile_eq_drop)
  ultimately show thesis by (metis that)
qed

text \<open>Printing a well-formed type and parsing it back, whatever follows it.\<close>

lemma parseType_print:
  assumes "wf_type v t"
  shows "parseType (type_string t @ rest) v = Inr (t, length (type_string t))"
proof -
  obtain x xs where x: "(if tKind t = KObject then CHR ''L'' # tName t @ [CHR '';'']
      else [baseChar (tKind t)]) = x # xs" and "x \<noteq> CHR ''[''"
    using baseChar_not_bracket by (cases "tKind t = KObject") auto
  then have tw: "takeWhile (\<lambda>c. c = CHR ''['') (type_string t @ rest) = replicate (tDims t) (CHR ''['')"
    by (simp add: type_string_def takeWhile_replicate_append)
  have t: "t = \<lparr>tKind = tKind t, tDims = tDims t, tName = tName t\<rparr>" by simp
  consider "tKind t = KObject" | "tKind t = KVoid" | "tKind t \<notin> {KInvalid, KVoid, KObject}"
    using assms by (auto simp: wf_type_def)
  then show ?thesis
  proof cases
    case 1
    with assms have "index_byte (tName t @ CHR '';'' # rest) (CHR '';'') = Some (length (tName t))"
      by (simp add: wf_type_def index_byte_append)
    with assms 1 t show ?thesis
      unfolding parseType_def tw by (simp add: type_string_def wf_type_def Let_def)
  next
    case 2
    with assms t show ?thesis
      unfolding parseType_def tw by (simp add: type_string_def wf_type_def Let_def)
  next
    case 3
    with assms t base_kind_baseChar [of "tKind t"] baseChar_not_L [of "tKind t"] show ?thesis
      unfolding parseType_def tw by (simp add: type_string_def wf_type_def Let_def)
  qed
qed

text \<open>A successful parse returns a well-formed type, and printing it gives the bytes consumed.\<close>

lemma parseType_sound:
  assumes "parseType s v = Inr (t, n)"
  shows "wf_type v t" and "s = type_string t @ drop n s"
proof -
  obtain d where d: "takeWhile (\<lambda>c. c = CHR ''['') s = replicate d (CHR ''['')"
      "s = replicate d (CHR ''['') @ drop d s" by (rule split_brackets)
  from assms d(1) obtain c rest where c: "drop d s = c # rest" and le: "d \<le> MaxDims"
    by (auto simp: parseType_def Let_def split: if_splits list.splits)
  note p = assms [unfolded parseType_def d(1), simplified, unfolded c, simplified Let_def]
  consider "c = CHR ''V''" | "c = CHR ''L''" | "c \<noteq> CHR ''V''" "c \<noteq> CHR ''L''" by blast
  then have "wf_type v t \<and> s = type_string t @ drop n s"
  proof cases
    case 1
    with p le have t: "t = \<lparr>tKind = KVoid, tDims = d, tName = []\<rparr>" "n = d + 1" "v" "d = 0"
      by (auto split: if_splits)
    with c 1 show ?thesis by (simp add: wf_type_def type_string_def)
  next
    case 2
    with p le obtain e where e: "index_byte rest (CHR '';'') = Some e" "take e rest \<noteq> []"
        "t = \<lparr>tKind = KObject, tDims = d, tName = take e rest\<rparr>" "n = d + Suc e + 1"
      by (auto split: if_splits option.splits)
    have "drop n s = drop (Suc e) rest" using c e(4) by (metis add.commute add_Suc_right drop_Suc_Cons drop_drop plus_1_eq_Suc)
    moreover note index_byte_Some [OF e(1)]
    ultimately show ?thesis using d(2) c e(2,3) 2 le by (simp add: wf_type_def type_string_def)
  next
    case 3
    with p le obtain k where k: "base_kind c = Some k" "t = \<lparr>tKind = k, tDims = d, tName = []\<rparr>" "n = d + 1"
      by (auto split: if_splits option.splits)
    have "drop n s = rest" using c k(3) by (metis Suc_eq_plus1 drop_Suc list.sel(3) tl_drop)
    with d(2) c k(2) base_kind_Some [OF k(1)] le show ?thesis
      by (auto simp: wf_type_def type_string_def)
  qed
  then show "wf_type v t" and "s = type_string t @ drop n s" by simp_all
qed

lemma parse_field_iff: "ParseField s = Inr t \<longleftrightarrow> wf_type False t \<and> s = type_string t"
proof
  assume "ParseField s = Inr t"
  then have "parseType s False = Inr (t, length s)"
    by (auto simp: ParseField_def rbind_Inr_iff split: if_splits)
  from parseType_sound [OF this] show "wf_type False t \<and> s = type_string t" by simp
next
  assume "wf_type False t \<and> s = type_string t"
  then show "ParseField s = Inr t"
    using parseType_print [of False t "[]"] by (simp add: ParseField_def)
qed

lemma parse_return_iff: "ParseReturn s = Inr t \<longleftrightarrow> wf_type True t \<and> s = type_string t"
proof
  assume "ParseReturn s = Inr t"
  then have "parseType s True = Inr (t, length s)"
    by (auto simp: ParseReturn_def rbind_Inr_iff split: if_splits)
  from parseType_sound [OF this] show "wf_type True t \<and> s = type_string t" by simp
next
  assume "wf_type True t \<and> s = type_string t"
  then show "ParseReturn s = Inr t"
    using parseType_print [of True t "[]"] by (simp add: ParseReturn_def)
qed

section \<open>Method descriptors\<close>

lemma type_string_not_paren: "wf_type v t \<Longrightarrow> type_string t \<noteq> [] \<and> hd (type_string t) \<noteq> CHR '')''"
  using baseChar_not_paren by (cases "tDims t") (auto simp: type_string_def)

lemma parse_params_print:
  "list_all (wf_type False) ts \<Longrightarrow>
   parse_params ps (concat (map type_string ts) @ CHR '')'' # rest) = Inr (ps @ ts, CHR '')'' # rest)"
proof (induction ts arbitrary: ps)
  case Nil
  then show ?case by (simp add: parse_params.simps)
next
  case (Cons t ts)
  then have "type_string t \<noteq> []" "hd (type_string t) \<noteq> CHR '')''"
    using type_string_not_paren [of False t] by simp_all
  with Cons show ?case
    by (subst parse_params.simps) (simp add: parseType_print)
qed

lemma parse_params_sound:
  assumes "parse_params ps s = Inr (ps', rest)"
  shows "(\<exists>ts. ps' = ps @ ts \<and> list_all (wf_type False) ts \<and> s = concat (map type_string ts) @ rest) \<and>
    (rest = [] \<or> hd rest = CHR '')'')"
  using assms
proof (induction ps s rule: parse_params.induct)
  case (1 ps s)
  show ?case
  proof (cases "s = [] \<or> hd s = CHR '')''")
    case True
    with "1.prems" show ?thesis by (auto simp: parse_params.simps [of ps s])
  next
    case False
    with "1.prems" obtain t n where p: "parseType s False = Inr (t, n)"
      and r: "parse_params (ps @ [t]) (drop n s) = Inr (ps', rest)"
      by (auto simp: parse_params.simps [of ps s] split: sum.splits)
    from "1.IH" [OF False p refl r] obtain ts where "ps' = ps @ t # ts" "list_all (wf_type False) ts"
      "drop n s = concat (map type_string ts) @ rest" "rest = [] \<or> hd rest = CHR '')''" by auto
    with parseType_sound [OF p] show ?thesis by (intro conjI exI [of _ "t # ts"]) auto
  qed
qed

lemma length_type_string: "0 < length (type_string t)"
  by (simp add: type_string_def)

lemma parse_method_iff: "ParseMethod s = Inr m \<longleftrightarrow> wf_method m \<and> s = method_string m"
proof
  assume p: "ParseMethod s = Inr m"
  then obtain ps rest ret where h: "hd s = CHR ''(''" "3 \<le> length s" "parse_params [] (tl s) = Inr (ps, rest)"
      "rest \<noteq> []" "ParseReturn (tl rest) = Inr ret" "m = \<lparr>mParams = ps, mRet = ret\<rparr>"
    by (auto simp: ParseMethod_def rbind_Inr_iff split: if_splits sum.splits)
  then have "tl s = concat (map type_string ps) @ rest" "hd rest = CHR '')''" "list_all (wf_type False) ps"
    using parse_params_sound [OF h(3)] by auto
  moreover have "s = CHR ''('' # tl s" using h(1,2) by (cases s) auto
  ultimately show "wf_method m \<and> s = method_string m"
    using h(4-6) by (cases rest) (auto simp: wf_method_def method_string_def parse_return_iff)
next
  assume wf: "wf_method m \<and> s = method_string m"
  have "type_string (mRet m) \<noteq> []"
    using length_type_string [of "mRet m"] by simp
  with wf parse_return_iff [of "type_string (mRet m)" "mRet m"] show "ParseMethod s = Inr m"
    by (simp add: ParseMethod_def method_string_def parse_params_print wf_method_def)
qed

lemma Slots_bounds: "Slots t \<le> 2" "wf_type False t \<Longrightarrow> 1 \<le> Slots t"
  by (cases "tKind t"; simp add: Slots_def wf_type_def)+

lemma ArgSlots_Some: "CheckArgSlots m r = None \<longleftrightarrow> ArgSlots m r \<le> 255"
  by (simp add: CheckArgSlots_def MaxArgSlots_def Let_def)

section \<open>Properties\<close>

text \<open>C28: \<open>ParseField\<close> accepts a string exactly when it is the printed form of a
  well-formed type without \<open>V\<close>, and \<open>ParseMethod\<close> exactly the printed forms of well-formed
  method descriptors, those whose class names contain a right parenthesis included. Each
  returns what was printed: parsing and printing are inverse, and nothing trails.\<close>

theorem descriptors_characterised:
  "(ParseField s = Inr t \<longleftrightarrow> wf_type False t \<and> s = type_string t) \<and>
   (ParseReturn s = Inr t \<longleftrightarrow> wf_type True t \<and> s = type_string t) \<and>
   (ParseMethod s = Inr m \<longleftrightarrow> wf_method m \<and> s = method_string m)"
  by (intro conjI parse_field_iff parse_return_iff parse_method_iff)

text \<open>C29: a method descriptor that parses and passes \<open>CheckArgSlots\<close> has at most 255
  parameters, its slot count fits the one-byte operand of \<open>invokeinterface\<close>, and every
  parameter counts for one or two slots.\<close>

theorem ArgSlots_fit:
  assumes "ParseMethod s = Inr m" and "CheckArgSlots m receiver = None"
  shows "ArgSlots m receiver < 256 \<and> length (mParams m) \<le> ArgSlots m receiver \<and>
    ArgSlots m receiver \<le> 2 * length (mParams m) + 1"
proof (intro conjI)
  show "ArgSlots m receiver < 256" using assms(2) by (simp add: ArgSlots_Some)
  have "list_all (wf_type False) ts \<Longrightarrow> length ts \<le> sum_list (map Slots ts)" for ts
    by (induction ts) (auto dest: Slots_bounds(2))
  then show "length (mParams m) \<le> ArgSlots m receiver"
    using assms(1) by (simp add: parse_method_iff wf_method_def ArgSlots_def trans_le_add2)
  have "sum_list (map Slots ts) \<le> 2 * length ts" for ts
  proof (induction ts)
    case (Cons t ts)
    then show ?case using Slots_bounds(1) [of t] by simp
  qed simp
  then show "ArgSlots m receiver \<le> 2 * length (mParams m) + 1"
    by (simp add: ArgSlots_def) (meson le_Suc_eq)
qed

theorem ArgSlots_fit_witness:
  "ArgSlots \<lparr>mParams = [\<lparr>tKind = KLong, tDims = 0, tName = []\<rparr>], mRet = \<lparr>tKind = KVoid, tDims = 0, tName = []\<rparr>\<rparr> True < 256"
proof (rule conjunct1 [OF ArgSlots_fit])
  show "ParseMethod ''(J)V'' = Inr \<lparr>mParams = [\<lparr>tKind = KLong, tDims = 0, tName = []\<rparr>],
      mRet = \<lparr>tKind = KVoid, tDims = 0, tName = []\<rparr>\<rparr>"
    by code_simp
  show "CheckArgSlots \<lparr>mParams = [\<lparr>tKind = KLong, tDims = 0, tName = []\<rparr>],
      mRet = \<lparr>tKind = KVoid, tDims = 0, tName = []\<rparr>\<rparr> True = None"
    by code_simp
qed

end
