(* ===== verification/Op.thy ===== *)
theory Op
  imports Prelude
begin

unbundle bit_operations_syntax

text \<open>
  Package \<^verbatim>\<open>jvm/op\<close>: the JVM instruction set (\<^verbatim>\<open>src/jvm/op/op.go\<close>). An \<open>Op\<close> is any
  byte; the constants name the 205 assigned and reserved opcodes, and \<open>table\<close> gives the
  mnemonic, the operand shape and the length of each. The properties say that the table is
  consistent: the length of an instruction follows from its operand shape, and the
  classification predicates agree with the shapes.
\<close>

type_synonym opcode = u8

section \<open>Opcodes\<close>

abbreviation (input) Nop :: opcode where "Nop \<equiv> 0x00"

abbreviation (input) AconstNull :: opcode where "AconstNull \<equiv> 0x01"

abbreviation (input) IconstM1 :: opcode where "IconstM1 \<equiv> 0x02"

abbreviation (input) Iconst0 :: opcode where "Iconst0 \<equiv> 0x03"

abbreviation (input) Iconst1 :: opcode where "Iconst1 \<equiv> 0x04"

abbreviation (input) Iconst2 :: opcode where "Iconst2 \<equiv> 0x05"

abbreviation (input) Iconst3 :: opcode where "Iconst3 \<equiv> 0x06"

abbreviation (input) Iconst4 :: opcode where "Iconst4 \<equiv> 0x07"

abbreviation (input) Iconst5 :: opcode where "Iconst5 \<equiv> 0x08"

abbreviation (input) Lconst0 :: opcode where "Lconst0 \<equiv> 0x09"

abbreviation (input) Lconst1 :: opcode where "Lconst1 \<equiv> 0x0A"

abbreviation (input) Fconst0 :: opcode where "Fconst0 \<equiv> 0x0B"

abbreviation (input) Fconst1 :: opcode where "Fconst1 \<equiv> 0x0C"

abbreviation (input) Fconst2 :: opcode where "Fconst2 \<equiv> 0x0D"

abbreviation (input) Dconst0 :: opcode where "Dconst0 \<equiv> 0x0E"

abbreviation (input) Dconst1 :: opcode where "Dconst1 \<equiv> 0x0F"

abbreviation (input) Bipush :: opcode where "Bipush \<equiv> 0x10"

abbreviation (input) Sipush :: opcode where "Sipush \<equiv> 0x11"

abbreviation (input) Ldc :: opcode where "Ldc \<equiv> 0x12"

abbreviation (input) LdcW :: opcode where "LdcW \<equiv> 0x13"

abbreviation (input) Ldc2W :: opcode where "Ldc2W \<equiv> 0x14"

abbreviation (input) Iload :: opcode where "Iload \<equiv> 0x15"

abbreviation (input) Lload :: opcode where "Lload \<equiv> 0x16"

abbreviation (input) Fload :: opcode where "Fload \<equiv> 0x17"

abbreviation (input) Dload :: opcode where "Dload \<equiv> 0x18"

abbreviation (input) Aload :: opcode where "Aload \<equiv> 0x19"

abbreviation (input) Iload0 :: opcode where "Iload0 \<equiv> 0x1A"

abbreviation (input) Iload1 :: opcode where "Iload1 \<equiv> 0x1B"

abbreviation (input) Iload2 :: opcode where "Iload2 \<equiv> 0x1C"

abbreviation (input) Iload3 :: opcode where "Iload3 \<equiv> 0x1D"

abbreviation (input) Lload0 :: opcode where "Lload0 \<equiv> 0x1E"

abbreviation (input) Lload1 :: opcode where "Lload1 \<equiv> 0x1F"

abbreviation (input) Lload2 :: opcode where "Lload2 \<equiv> 0x20"

abbreviation (input) Lload3 :: opcode where "Lload3 \<equiv> 0x21"

abbreviation (input) Fload0 :: opcode where "Fload0 \<equiv> 0x22"

abbreviation (input) Fload1 :: opcode where "Fload1 \<equiv> 0x23"

abbreviation (input) Fload2 :: opcode where "Fload2 \<equiv> 0x24"

abbreviation (input) Fload3 :: opcode where "Fload3 \<equiv> 0x25"

abbreviation (input) Dload0 :: opcode where "Dload0 \<equiv> 0x26"

abbreviation (input) Dload1 :: opcode where "Dload1 \<equiv> 0x27"

abbreviation (input) Dload2 :: opcode where "Dload2 \<equiv> 0x28"

abbreviation (input) Dload3 :: opcode where "Dload3 \<equiv> 0x29"

abbreviation (input) Aload0 :: opcode where "Aload0 \<equiv> 0x2A"

abbreviation (input) Aload1 :: opcode where "Aload1 \<equiv> 0x2B"

abbreviation (input) Aload2 :: opcode where "Aload2 \<equiv> 0x2C"

abbreviation (input) Aload3 :: opcode where "Aload3 \<equiv> 0x2D"

abbreviation (input) Iaload :: opcode where "Iaload \<equiv> 0x2E"

abbreviation (input) Laload :: opcode where "Laload \<equiv> 0x2F"

abbreviation (input) Faload :: opcode where "Faload \<equiv> 0x30"

abbreviation (input) Daload :: opcode where "Daload \<equiv> 0x31"

abbreviation (input) Aaload :: opcode where "Aaload \<equiv> 0x32"

abbreviation (input) Baload :: opcode where "Baload \<equiv> 0x33"

abbreviation (input) Caload :: opcode where "Caload \<equiv> 0x34"

abbreviation (input) Saload :: opcode where "Saload \<equiv> 0x35"

abbreviation (input) Istore :: opcode where "Istore \<equiv> 0x36"

abbreviation (input) Lstore :: opcode where "Lstore \<equiv> 0x37"

abbreviation (input) Fstore :: opcode where "Fstore \<equiv> 0x38"

abbreviation (input) Dstore :: opcode where "Dstore \<equiv> 0x39"

abbreviation (input) Astore :: opcode where "Astore \<equiv> 0x3A"

abbreviation (input) Istore0 :: opcode where "Istore0 \<equiv> 0x3B"

abbreviation (input) Istore1 :: opcode where "Istore1 \<equiv> 0x3C"

abbreviation (input) Istore2 :: opcode where "Istore2 \<equiv> 0x3D"

abbreviation (input) Istore3 :: opcode where "Istore3 \<equiv> 0x3E"

abbreviation (input) Lstore0 :: opcode where "Lstore0 \<equiv> 0x3F"

abbreviation (input) Lstore1 :: opcode where "Lstore1 \<equiv> 0x40"

abbreviation (input) Lstore2 :: opcode where "Lstore2 \<equiv> 0x41"

abbreviation (input) Lstore3 :: opcode where "Lstore3 \<equiv> 0x42"

abbreviation (input) Fstore0 :: opcode where "Fstore0 \<equiv> 0x43"

abbreviation (input) Fstore1 :: opcode where "Fstore1 \<equiv> 0x44"

abbreviation (input) Fstore2 :: opcode where "Fstore2 \<equiv> 0x45"

abbreviation (input) Fstore3 :: opcode where "Fstore3 \<equiv> 0x46"

abbreviation (input) Dstore0 :: opcode where "Dstore0 \<equiv> 0x47"

abbreviation (input) Dstore1 :: opcode where "Dstore1 \<equiv> 0x48"

abbreviation (input) Dstore2 :: opcode where "Dstore2 \<equiv> 0x49"

abbreviation (input) Dstore3 :: opcode where "Dstore3 \<equiv> 0x4A"

abbreviation (input) Astore0 :: opcode where "Astore0 \<equiv> 0x4B"

abbreviation (input) Astore1 :: opcode where "Astore1 \<equiv> 0x4C"

abbreviation (input) Astore2 :: opcode where "Astore2 \<equiv> 0x4D"

abbreviation (input) Astore3 :: opcode where "Astore3 \<equiv> 0x4E"

abbreviation (input) Iastore :: opcode where "Iastore \<equiv> 0x4F"

abbreviation (input) Lastore :: opcode where "Lastore \<equiv> 0x50"

abbreviation (input) Fastore :: opcode where "Fastore \<equiv> 0x51"

abbreviation (input) Dastore :: opcode where "Dastore \<equiv> 0x52"

abbreviation (input) Aastore :: opcode where "Aastore \<equiv> 0x53"

abbreviation (input) Bastore :: opcode where "Bastore \<equiv> 0x54"

abbreviation (input) Castore :: opcode where "Castore \<equiv> 0x55"

abbreviation (input) Sastore :: opcode where "Sastore \<equiv> 0x56"

abbreviation (input) Pop :: opcode where "Pop \<equiv> 0x57"

abbreviation (input) Pop2 :: opcode where "Pop2 \<equiv> 0x58"

abbreviation (input) Dup :: opcode where "Dup \<equiv> 0x59"

abbreviation (input) DupX1 :: opcode where "DupX1 \<equiv> 0x5A"

abbreviation (input) DupX2 :: opcode where "DupX2 \<equiv> 0x5B"

abbreviation (input) Dup2 :: opcode where "Dup2 \<equiv> 0x5C"

abbreviation (input) Dup2X1 :: opcode where "Dup2X1 \<equiv> 0x5D"

abbreviation (input) Dup2X2 :: opcode where "Dup2X2 \<equiv> 0x5E"

abbreviation (input) Swap :: opcode where "Swap \<equiv> 0x5F"

abbreviation (input) Iadd :: opcode where "Iadd \<equiv> 0x60"

abbreviation (input) Ladd :: opcode where "Ladd \<equiv> 0x61"

abbreviation (input) Fadd :: opcode where "Fadd \<equiv> 0x62"

abbreviation (input) Dadd :: opcode where "Dadd \<equiv> 0x63"

abbreviation (input) Isub :: opcode where "Isub \<equiv> 0x64"

abbreviation (input) Lsub :: opcode where "Lsub \<equiv> 0x65"

abbreviation (input) Fsub :: opcode where "Fsub \<equiv> 0x66"

abbreviation (input) Dsub :: opcode where "Dsub \<equiv> 0x67"

abbreviation (input) Imul :: opcode where "Imul \<equiv> 0x68"

abbreviation (input) Lmul :: opcode where "Lmul \<equiv> 0x69"

abbreviation (input) Fmul :: opcode where "Fmul \<equiv> 0x6A"

abbreviation (input) Dmul :: opcode where "Dmul \<equiv> 0x6B"

abbreviation (input) Idiv :: opcode where "Idiv \<equiv> 0x6C"

abbreviation (input) Ldiv :: opcode where "Ldiv \<equiv> 0x6D"

abbreviation (input) Fdiv :: opcode where "Fdiv \<equiv> 0x6E"

abbreviation (input) Ddiv :: opcode where "Ddiv \<equiv> 0x6F"

abbreviation (input) Irem :: opcode where "Irem \<equiv> 0x70"

abbreviation (input) Lrem :: opcode where "Lrem \<equiv> 0x71"

abbreviation (input) Frem :: opcode where "Frem \<equiv> 0x72"

abbreviation (input) Drem :: opcode where "Drem \<equiv> 0x73"

abbreviation (input) Ineg :: opcode where "Ineg \<equiv> 0x74"

abbreviation (input) Lneg :: opcode where "Lneg \<equiv> 0x75"

abbreviation (input) Fneg :: opcode where "Fneg \<equiv> 0x76"

abbreviation (input) Dneg :: opcode where "Dneg \<equiv> 0x77"

abbreviation (input) Ishl :: opcode where "Ishl \<equiv> 0x78"

abbreviation (input) Lshl :: opcode where "Lshl \<equiv> 0x79"

abbreviation (input) Ishr :: opcode where "Ishr \<equiv> 0x7A"

abbreviation (input) Lshr :: opcode where "Lshr \<equiv> 0x7B"

abbreviation (input) Iushr :: opcode where "Iushr \<equiv> 0x7C"

abbreviation (input) Lushr :: opcode where "Lushr \<equiv> 0x7D"

abbreviation (input) Iand :: opcode where "Iand \<equiv> 0x7E"

abbreviation (input) Land :: opcode where "Land \<equiv> 0x7F"

abbreviation (input) Ior :: opcode where "Ior \<equiv> 0x80"

abbreviation (input) Lor :: opcode where "Lor \<equiv> 0x81"

abbreviation (input) Ixor :: opcode where "Ixor \<equiv> 0x82"

abbreviation (input) Lxor :: opcode where "Lxor \<equiv> 0x83"

abbreviation (input) Iinc :: opcode where "Iinc \<equiv> 0x84"

abbreviation (input) I2l :: opcode where "I2l \<equiv> 0x85"

abbreviation (input) I2f :: opcode where "I2f \<equiv> 0x86"

abbreviation (input) I2d :: opcode where "I2d \<equiv> 0x87"

abbreviation (input) L2i :: opcode where "L2i \<equiv> 0x88"

abbreviation (input) L2f :: opcode where "L2f \<equiv> 0x89"

abbreviation (input) L2d :: opcode where "L2d \<equiv> 0x8A"

abbreviation (input) F2i :: opcode where "F2i \<equiv> 0x8B"

abbreviation (input) F2l :: opcode where "F2l \<equiv> 0x8C"

abbreviation (input) F2d :: opcode where "F2d \<equiv> 0x8D"

abbreviation (input) D2i :: opcode where "D2i \<equiv> 0x8E"

abbreviation (input) D2l :: opcode where "D2l \<equiv> 0x8F"

abbreviation (input) D2f :: opcode where "D2f \<equiv> 0x90"

abbreviation (input) I2b :: opcode where "I2b \<equiv> 0x91"

abbreviation (input) I2c :: opcode where "I2c \<equiv> 0x92"

abbreviation (input) I2s :: opcode where "I2s \<equiv> 0x93"

abbreviation (input) Lcmp :: opcode where "Lcmp \<equiv> 0x94"

abbreviation (input) Fcmpl :: opcode where "Fcmpl \<equiv> 0x95"

abbreviation (input) Fcmpg :: opcode where "Fcmpg \<equiv> 0x96"

abbreviation (input) Dcmpl :: opcode where "Dcmpl \<equiv> 0x97"

abbreviation (input) Dcmpg :: opcode where "Dcmpg \<equiv> 0x98"

abbreviation (input) Ifeq :: opcode where "Ifeq \<equiv> 0x99"

abbreviation (input) Ifne :: opcode where "Ifne \<equiv> 0x9A"

abbreviation (input) Iflt :: opcode where "Iflt \<equiv> 0x9B"

abbreviation (input) Ifge :: opcode where "Ifge \<equiv> 0x9C"

abbreviation (input) Ifgt :: opcode where "Ifgt \<equiv> 0x9D"

abbreviation (input) Ifle :: opcode where "Ifle \<equiv> 0x9E"

abbreviation (input) IfIcmpeq :: opcode where "IfIcmpeq \<equiv> 0x9F"

abbreviation (input) IfIcmpne :: opcode where "IfIcmpne \<equiv> 0xA0"

abbreviation (input) IfIcmplt :: opcode where "IfIcmplt \<equiv> 0xA1"

abbreviation (input) IfIcmpge :: opcode where "IfIcmpge \<equiv> 0xA2"

abbreviation (input) IfIcmpgt :: opcode where "IfIcmpgt \<equiv> 0xA3"

abbreviation (input) IfIcmple :: opcode where "IfIcmple \<equiv> 0xA4"

abbreviation (input) IfAcmpeq :: opcode where "IfAcmpeq \<equiv> 0xA5"

abbreviation (input) IfAcmpne :: opcode where "IfAcmpne \<equiv> 0xA6"

abbreviation (input) Goto :: opcode where "Goto \<equiv> 0xA7"

abbreviation (input) Jsr :: opcode where "Jsr \<equiv> 0xA8"

abbreviation (input) Ret :: opcode where "Ret \<equiv> 0xA9"

abbreviation (input) Tableswitch :: opcode where "Tableswitch \<equiv> 0xAA"

abbreviation (input) Lookupswitch :: opcode where "Lookupswitch \<equiv> 0xAB"

abbreviation (input) Ireturn :: opcode where "Ireturn \<equiv> 0xAC"

abbreviation (input) Lreturn :: opcode where "Lreturn \<equiv> 0xAD"

abbreviation (input) Freturn :: opcode where "Freturn \<equiv> 0xAE"

abbreviation (input) Dreturn :: opcode where "Dreturn \<equiv> 0xAF"

abbreviation (input) Areturn :: opcode where "Areturn \<equiv> 0xB0"

abbreviation (input) Return :: opcode where "Return \<equiv> 0xB1"

abbreviation (input) Getstatic :: opcode where "Getstatic \<equiv> 0xB2"

abbreviation (input) Putstatic :: opcode where "Putstatic \<equiv> 0xB3"

abbreviation (input) Getfield :: opcode where "Getfield \<equiv> 0xB4"

abbreviation (input) Putfield :: opcode where "Putfield \<equiv> 0xB5"

abbreviation (input) Invokevirtual :: opcode where "Invokevirtual \<equiv> 0xB6"

abbreviation (input) Invokespecial :: opcode where "Invokespecial \<equiv> 0xB7"

abbreviation (input) Invokestatic :: opcode where "Invokestatic \<equiv> 0xB8"

abbreviation (input) Invokeinterface :: opcode where "Invokeinterface \<equiv> 0xB9"

abbreviation (input) Invokedynamic :: opcode where "Invokedynamic \<equiv> 0xBA"

abbreviation (input) New :: opcode where "New \<equiv> 0xBB"

abbreviation (input) Newarray :: opcode where "Newarray \<equiv> 0xBC"

abbreviation (input) Anewarray :: opcode where "Anewarray \<equiv> 0xBD"

abbreviation (input) Arraylength :: opcode where "Arraylength \<equiv> 0xBE"

abbreviation (input) Athrow :: opcode where "Athrow \<equiv> 0xBF"

abbreviation (input) Checkcast :: opcode where "Checkcast \<equiv> 0xC0"

abbreviation (input) Instanceof :: opcode where "Instanceof \<equiv> 0xC1"

abbreviation (input) Monitorenter :: opcode where "Monitorenter \<equiv> 0xC2"

abbreviation (input) Monitorexit :: opcode where "Monitorexit \<equiv> 0xC3"

abbreviation (input) Wide :: opcode where "Wide \<equiv> 0xC4"

abbreviation (input) Multianewarray :: opcode where "Multianewarray \<equiv> 0xC5"

abbreviation (input) Ifnull :: opcode where "Ifnull \<equiv> 0xC6"

abbreviation (input) Ifnonnull :: opcode where "Ifnonnull \<equiv> 0xC7"

abbreviation (input) GotoW :: opcode where "GotoW \<equiv> 0xC8"

abbreviation (input) JsrW :: opcode where "JsrW \<equiv> 0xC9"

abbreviation (input) Breakpoint :: opcode where "Breakpoint \<equiv> 0xCA"

abbreviation (input) Impdep1 :: opcode where "Impdep1 \<equiv> 0xFE"

abbreviation (input) Impdep2 :: opcode where "Impdep2 \<equiv> 0xFF"

section \<open>Operand shapes\<close>

text \<open>\<open>NoOperand\<close> is the source's \<open>None\<close>.\<close>

datatype op_kind = Unused | NoOperand | Local | ConstU1 | ConstU2 | Byte1 | Short2 | Branch2 | Branch4
  | IincK | NewarrayK | MultiK | InterfaceK | DynamicK | TableswitchK | LookupswitchK | WideK

record op_info =
  iName :: string
  iKind :: op_kind
  iLen :: int

definition table :: "(opcode \<times> op_info) list" where
  "table = [
   (Nop, \<lparr>iName = ''nop'', iKind = NoOperand, iLen = 1\<rparr>),
   (AconstNull, \<lparr>iName = ''aconst_null'', iKind = NoOperand, iLen = 1\<rparr>),
   (IconstM1, \<lparr>iName = ''iconst_m1'', iKind = NoOperand, iLen = 1\<rparr>),
   (Iconst0, \<lparr>iName = ''iconst_0'', iKind = NoOperand, iLen = 1\<rparr>),
   (Iconst1, \<lparr>iName = ''iconst_1'', iKind = NoOperand, iLen = 1\<rparr>),
   (Iconst2, \<lparr>iName = ''iconst_2'', iKind = NoOperand, iLen = 1\<rparr>),
   (Iconst3, \<lparr>iName = ''iconst_3'', iKind = NoOperand, iLen = 1\<rparr>),
   (Iconst4, \<lparr>iName = ''iconst_4'', iKind = NoOperand, iLen = 1\<rparr>),
   (Iconst5, \<lparr>iName = ''iconst_5'', iKind = NoOperand, iLen = 1\<rparr>),
   (Lconst0, \<lparr>iName = ''lconst_0'', iKind = NoOperand, iLen = 1\<rparr>),
   (Lconst1, \<lparr>iName = ''lconst_1'', iKind = NoOperand, iLen = 1\<rparr>),
   (Fconst0, \<lparr>iName = ''fconst_0'', iKind = NoOperand, iLen = 1\<rparr>),
   (Fconst1, \<lparr>iName = ''fconst_1'', iKind = NoOperand, iLen = 1\<rparr>),
   (Fconst2, \<lparr>iName = ''fconst_2'', iKind = NoOperand, iLen = 1\<rparr>),
   (Dconst0, \<lparr>iName = ''dconst_0'', iKind = NoOperand, iLen = 1\<rparr>),
   (Dconst1, \<lparr>iName = ''dconst_1'', iKind = NoOperand, iLen = 1\<rparr>),
   (Bipush, \<lparr>iName = ''bipush'', iKind = Byte1, iLen = 2\<rparr>),
   (Sipush, \<lparr>iName = ''sipush'', iKind = Short2, iLen = 3\<rparr>),
   (Ldc, \<lparr>iName = ''ldc'', iKind = ConstU1, iLen = 2\<rparr>),
   (LdcW, \<lparr>iName = ''ldc_w'', iKind = ConstU2, iLen = 3\<rparr>),
   (Ldc2W, \<lparr>iName = ''ldc2_w'', iKind = ConstU2, iLen = 3\<rparr>),
   (Iload, \<lparr>iName = ''iload'', iKind = Local, iLen = 2\<rparr>),
   (Lload, \<lparr>iName = ''lload'', iKind = Local, iLen = 2\<rparr>),
   (Fload, \<lparr>iName = ''fload'', iKind = Local, iLen = 2\<rparr>),
   (Dload, \<lparr>iName = ''dload'', iKind = Local, iLen = 2\<rparr>),
   (Aload, \<lparr>iName = ''aload'', iKind = Local, iLen = 2\<rparr>),
   (Iload0, \<lparr>iName = ''iload_0'', iKind = NoOperand, iLen = 1\<rparr>),
   (Iload1, \<lparr>iName = ''iload_1'', iKind = NoOperand, iLen = 1\<rparr>),
   (Iload2, \<lparr>iName = ''iload_2'', iKind = NoOperand, iLen = 1\<rparr>),
   (Iload3, \<lparr>iName = ''iload_3'', iKind = NoOperand, iLen = 1\<rparr>),
   (Lload0, \<lparr>iName = ''lload_0'', iKind = NoOperand, iLen = 1\<rparr>),
   (Lload1, \<lparr>iName = ''lload_1'', iKind = NoOperand, iLen = 1\<rparr>),
   (Lload2, \<lparr>iName = ''lload_2'', iKind = NoOperand, iLen = 1\<rparr>),
   (Lload3, \<lparr>iName = ''lload_3'', iKind = NoOperand, iLen = 1\<rparr>),
   (Fload0, \<lparr>iName = ''fload_0'', iKind = NoOperand, iLen = 1\<rparr>),
   (Fload1, \<lparr>iName = ''fload_1'', iKind = NoOperand, iLen = 1\<rparr>),
   (Fload2, \<lparr>iName = ''fload_2'', iKind = NoOperand, iLen = 1\<rparr>),
   (Fload3, \<lparr>iName = ''fload_3'', iKind = NoOperand, iLen = 1\<rparr>),
   (Dload0, \<lparr>iName = ''dload_0'', iKind = NoOperand, iLen = 1\<rparr>),
   (Dload1, \<lparr>iName = ''dload_1'', iKind = NoOperand, iLen = 1\<rparr>),
   (Dload2, \<lparr>iName = ''dload_2'', iKind = NoOperand, iLen = 1\<rparr>),
   (Dload3, \<lparr>iName = ''dload_3'', iKind = NoOperand, iLen = 1\<rparr>),
   (Aload0, \<lparr>iName = ''aload_0'', iKind = NoOperand, iLen = 1\<rparr>),
   (Aload1, \<lparr>iName = ''aload_1'', iKind = NoOperand, iLen = 1\<rparr>),
   (Aload2, \<lparr>iName = ''aload_2'', iKind = NoOperand, iLen = 1\<rparr>),
   (Aload3, \<lparr>iName = ''aload_3'', iKind = NoOperand, iLen = 1\<rparr>),
   (Iaload, \<lparr>iName = ''iaload'', iKind = NoOperand, iLen = 1\<rparr>),
   (Laload, \<lparr>iName = ''laload'', iKind = NoOperand, iLen = 1\<rparr>),
   (Faload, \<lparr>iName = ''faload'', iKind = NoOperand, iLen = 1\<rparr>),
   (Daload, \<lparr>iName = ''daload'', iKind = NoOperand, iLen = 1\<rparr>),
   (Aaload, \<lparr>iName = ''aaload'', iKind = NoOperand, iLen = 1\<rparr>),
   (Baload, \<lparr>iName = ''baload'', iKind = NoOperand, iLen = 1\<rparr>),
   (Caload, \<lparr>iName = ''caload'', iKind = NoOperand, iLen = 1\<rparr>),
   (Saload, \<lparr>iName = ''saload'', iKind = NoOperand, iLen = 1\<rparr>),
   (Istore, \<lparr>iName = ''istore'', iKind = Local, iLen = 2\<rparr>),
   (Lstore, \<lparr>iName = ''lstore'', iKind = Local, iLen = 2\<rparr>),
   (Fstore, \<lparr>iName = ''fstore'', iKind = Local, iLen = 2\<rparr>),
   (Dstore, \<lparr>iName = ''dstore'', iKind = Local, iLen = 2\<rparr>),
   (Astore, \<lparr>iName = ''astore'', iKind = Local, iLen = 2\<rparr>),
   (Istore0, \<lparr>iName = ''istore_0'', iKind = NoOperand, iLen = 1\<rparr>),
   (Istore1, \<lparr>iName = ''istore_1'', iKind = NoOperand, iLen = 1\<rparr>),
   (Istore2, \<lparr>iName = ''istore_2'', iKind = NoOperand, iLen = 1\<rparr>),
   (Istore3, \<lparr>iName = ''istore_3'', iKind = NoOperand, iLen = 1\<rparr>),
   (Lstore0, \<lparr>iName = ''lstore_0'', iKind = NoOperand, iLen = 1\<rparr>),
   (Lstore1, \<lparr>iName = ''lstore_1'', iKind = NoOperand, iLen = 1\<rparr>),
   (Lstore2, \<lparr>iName = ''lstore_2'', iKind = NoOperand, iLen = 1\<rparr>),
   (Lstore3, \<lparr>iName = ''lstore_3'', iKind = NoOperand, iLen = 1\<rparr>),
   (Fstore0, \<lparr>iName = ''fstore_0'', iKind = NoOperand, iLen = 1\<rparr>),
   (Fstore1, \<lparr>iName = ''fstore_1'', iKind = NoOperand, iLen = 1\<rparr>),
   (Fstore2, \<lparr>iName = ''fstore_2'', iKind = NoOperand, iLen = 1\<rparr>),
   (Fstore3, \<lparr>iName = ''fstore_3'', iKind = NoOperand, iLen = 1\<rparr>),
   (Dstore0, \<lparr>iName = ''dstore_0'', iKind = NoOperand, iLen = 1\<rparr>),
   (Dstore1, \<lparr>iName = ''dstore_1'', iKind = NoOperand, iLen = 1\<rparr>),
   (Dstore2, \<lparr>iName = ''dstore_2'', iKind = NoOperand, iLen = 1\<rparr>),
   (Dstore3, \<lparr>iName = ''dstore_3'', iKind = NoOperand, iLen = 1\<rparr>),
   (Astore0, \<lparr>iName = ''astore_0'', iKind = NoOperand, iLen = 1\<rparr>),
   (Astore1, \<lparr>iName = ''astore_1'', iKind = NoOperand, iLen = 1\<rparr>),
   (Astore2, \<lparr>iName = ''astore_2'', iKind = NoOperand, iLen = 1\<rparr>),
   (Astore3, \<lparr>iName = ''astore_3'', iKind = NoOperand, iLen = 1\<rparr>),
   (Iastore, \<lparr>iName = ''iastore'', iKind = NoOperand, iLen = 1\<rparr>),
   (Lastore, \<lparr>iName = ''lastore'', iKind = NoOperand, iLen = 1\<rparr>),
   (Fastore, \<lparr>iName = ''fastore'', iKind = NoOperand, iLen = 1\<rparr>),
   (Dastore, \<lparr>iName = ''dastore'', iKind = NoOperand, iLen = 1\<rparr>),
   (Aastore, \<lparr>iName = ''aastore'', iKind = NoOperand, iLen = 1\<rparr>),
   (Bastore, \<lparr>iName = ''bastore'', iKind = NoOperand, iLen = 1\<rparr>),
   (Castore, \<lparr>iName = ''castore'', iKind = NoOperand, iLen = 1\<rparr>),
   (Sastore, \<lparr>iName = ''sastore'', iKind = NoOperand, iLen = 1\<rparr>),
   (Pop, \<lparr>iName = ''pop'', iKind = NoOperand, iLen = 1\<rparr>),
   (Pop2, \<lparr>iName = ''pop2'', iKind = NoOperand, iLen = 1\<rparr>),
   (Dup, \<lparr>iName = ''dup'', iKind = NoOperand, iLen = 1\<rparr>),
   (DupX1, \<lparr>iName = ''dup_x1'', iKind = NoOperand, iLen = 1\<rparr>),
   (DupX2, \<lparr>iName = ''dup_x2'', iKind = NoOperand, iLen = 1\<rparr>),
   (Dup2, \<lparr>iName = ''dup2'', iKind = NoOperand, iLen = 1\<rparr>),
   (Dup2X1, \<lparr>iName = ''dup2_x1'', iKind = NoOperand, iLen = 1\<rparr>),
   (Dup2X2, \<lparr>iName = ''dup2_x2'', iKind = NoOperand, iLen = 1\<rparr>),
   (Swap, \<lparr>iName = ''swap'', iKind = NoOperand, iLen = 1\<rparr>),
   (Iadd, \<lparr>iName = ''iadd'', iKind = NoOperand, iLen = 1\<rparr>),
   (Ladd, \<lparr>iName = ''ladd'', iKind = NoOperand, iLen = 1\<rparr>),
   (Fadd, \<lparr>iName = ''fadd'', iKind = NoOperand, iLen = 1\<rparr>),
   (Dadd, \<lparr>iName = ''dadd'', iKind = NoOperand, iLen = 1\<rparr>),
   (Isub, \<lparr>iName = ''isub'', iKind = NoOperand, iLen = 1\<rparr>),
   (Lsub, \<lparr>iName = ''lsub'', iKind = NoOperand, iLen = 1\<rparr>),
   (Fsub, \<lparr>iName = ''fsub'', iKind = NoOperand, iLen = 1\<rparr>),
   (Dsub, \<lparr>iName = ''dsub'', iKind = NoOperand, iLen = 1\<rparr>),
   (Imul, \<lparr>iName = ''imul'', iKind = NoOperand, iLen = 1\<rparr>),
   (Lmul, \<lparr>iName = ''lmul'', iKind = NoOperand, iLen = 1\<rparr>),
   (Fmul, \<lparr>iName = ''fmul'', iKind = NoOperand, iLen = 1\<rparr>),
   (Dmul, \<lparr>iName = ''dmul'', iKind = NoOperand, iLen = 1\<rparr>),
   (Idiv, \<lparr>iName = ''idiv'', iKind = NoOperand, iLen = 1\<rparr>),
   (Ldiv, \<lparr>iName = ''ldiv'', iKind = NoOperand, iLen = 1\<rparr>),
   (Fdiv, \<lparr>iName = ''fdiv'', iKind = NoOperand, iLen = 1\<rparr>),
   (Ddiv, \<lparr>iName = ''ddiv'', iKind = NoOperand, iLen = 1\<rparr>),
   (Irem, \<lparr>iName = ''irem'', iKind = NoOperand, iLen = 1\<rparr>),
   (Lrem, \<lparr>iName = ''lrem'', iKind = NoOperand, iLen = 1\<rparr>),
   (Frem, \<lparr>iName = ''frem'', iKind = NoOperand, iLen = 1\<rparr>),
   (Drem, \<lparr>iName = ''drem'', iKind = NoOperand, iLen = 1\<rparr>),
   (Ineg, \<lparr>iName = ''ineg'', iKind = NoOperand, iLen = 1\<rparr>),
   (Lneg, \<lparr>iName = ''lneg'', iKind = NoOperand, iLen = 1\<rparr>),
   (Fneg, \<lparr>iName = ''fneg'', iKind = NoOperand, iLen = 1\<rparr>),
   (Dneg, \<lparr>iName = ''dneg'', iKind = NoOperand, iLen = 1\<rparr>),
   (Ishl, \<lparr>iName = ''ishl'', iKind = NoOperand, iLen = 1\<rparr>),
   (Lshl, \<lparr>iName = ''lshl'', iKind = NoOperand, iLen = 1\<rparr>),
   (Ishr, \<lparr>iName = ''ishr'', iKind = NoOperand, iLen = 1\<rparr>),
   (Lshr, \<lparr>iName = ''lshr'', iKind = NoOperand, iLen = 1\<rparr>),
   (Iushr, \<lparr>iName = ''iushr'', iKind = NoOperand, iLen = 1\<rparr>),
   (Lushr, \<lparr>iName = ''lushr'', iKind = NoOperand, iLen = 1\<rparr>),
   (Iand, \<lparr>iName = ''iand'', iKind = NoOperand, iLen = 1\<rparr>),
   (Land, \<lparr>iName = ''land'', iKind = NoOperand, iLen = 1\<rparr>),
   (Ior, \<lparr>iName = ''ior'', iKind = NoOperand, iLen = 1\<rparr>),
   (Lor, \<lparr>iName = ''lor'', iKind = NoOperand, iLen = 1\<rparr>),
   (Ixor, \<lparr>iName = ''ixor'', iKind = NoOperand, iLen = 1\<rparr>),
   (Lxor, \<lparr>iName = ''lxor'', iKind = NoOperand, iLen = 1\<rparr>),
   (Iinc, \<lparr>iName = ''iinc'', iKind = IincK, iLen = 3\<rparr>),
   (I2l, \<lparr>iName = ''i2l'', iKind = NoOperand, iLen = 1\<rparr>),
   (I2f, \<lparr>iName = ''i2f'', iKind = NoOperand, iLen = 1\<rparr>),
   (I2d, \<lparr>iName = ''i2d'', iKind = NoOperand, iLen = 1\<rparr>),
   (L2i, \<lparr>iName = ''l2i'', iKind = NoOperand, iLen = 1\<rparr>),
   (L2f, \<lparr>iName = ''l2f'', iKind = NoOperand, iLen = 1\<rparr>),
   (L2d, \<lparr>iName = ''l2d'', iKind = NoOperand, iLen = 1\<rparr>),
   (F2i, \<lparr>iName = ''f2i'', iKind = NoOperand, iLen = 1\<rparr>),
   (F2l, \<lparr>iName = ''f2l'', iKind = NoOperand, iLen = 1\<rparr>),
   (F2d, \<lparr>iName = ''f2d'', iKind = NoOperand, iLen = 1\<rparr>),
   (D2i, \<lparr>iName = ''d2i'', iKind = NoOperand, iLen = 1\<rparr>),
   (D2l, \<lparr>iName = ''d2l'', iKind = NoOperand, iLen = 1\<rparr>),
   (D2f, \<lparr>iName = ''d2f'', iKind = NoOperand, iLen = 1\<rparr>),
   (I2b, \<lparr>iName = ''i2b'', iKind = NoOperand, iLen = 1\<rparr>),
   (I2c, \<lparr>iName = ''i2c'', iKind = NoOperand, iLen = 1\<rparr>),
   (I2s, \<lparr>iName = ''i2s'', iKind = NoOperand, iLen = 1\<rparr>),
   (Lcmp, \<lparr>iName = ''lcmp'', iKind = NoOperand, iLen = 1\<rparr>),
   (Fcmpl, \<lparr>iName = ''fcmpl'', iKind = NoOperand, iLen = 1\<rparr>),
   (Fcmpg, \<lparr>iName = ''fcmpg'', iKind = NoOperand, iLen = 1\<rparr>),
   (Dcmpl, \<lparr>iName = ''dcmpl'', iKind = NoOperand, iLen = 1\<rparr>),
   (Dcmpg, \<lparr>iName = ''dcmpg'', iKind = NoOperand, iLen = 1\<rparr>),
   (Ifeq, \<lparr>iName = ''ifeq'', iKind = Branch2, iLen = 3\<rparr>),
   (Ifne, \<lparr>iName = ''ifne'', iKind = Branch2, iLen = 3\<rparr>),
   (Iflt, \<lparr>iName = ''iflt'', iKind = Branch2, iLen = 3\<rparr>),
   (Ifge, \<lparr>iName = ''ifge'', iKind = Branch2, iLen = 3\<rparr>),
   (Ifgt, \<lparr>iName = ''ifgt'', iKind = Branch2, iLen = 3\<rparr>),
   (Ifle, \<lparr>iName = ''ifle'', iKind = Branch2, iLen = 3\<rparr>),
   (IfIcmpeq, \<lparr>iName = ''if_icmpeq'', iKind = Branch2, iLen = 3\<rparr>),
   (IfIcmpne, \<lparr>iName = ''if_icmpne'', iKind = Branch2, iLen = 3\<rparr>),
   (IfIcmplt, \<lparr>iName = ''if_icmplt'', iKind = Branch2, iLen = 3\<rparr>),
   (IfIcmpge, \<lparr>iName = ''if_icmpge'', iKind = Branch2, iLen = 3\<rparr>),
   (IfIcmpgt, \<lparr>iName = ''if_icmpgt'', iKind = Branch2, iLen = 3\<rparr>),
   (IfIcmple, \<lparr>iName = ''if_icmple'', iKind = Branch2, iLen = 3\<rparr>),
   (IfAcmpeq, \<lparr>iName = ''if_acmpeq'', iKind = Branch2, iLen = 3\<rparr>),
   (IfAcmpne, \<lparr>iName = ''if_acmpne'', iKind = Branch2, iLen = 3\<rparr>),
   (Goto, \<lparr>iName = ''goto'', iKind = Branch2, iLen = 3\<rparr>),
   (Jsr, \<lparr>iName = ''jsr'', iKind = Branch2, iLen = 3\<rparr>),
   (Ret, \<lparr>iName = ''ret'', iKind = Local, iLen = 2\<rparr>),
   (Tableswitch, \<lparr>iName = ''tableswitch'', iKind = TableswitchK, iLen = - 1\<rparr>),
   (Lookupswitch, \<lparr>iName = ''lookupswitch'', iKind = LookupswitchK, iLen = - 1\<rparr>),
   (Ireturn, \<lparr>iName = ''ireturn'', iKind = NoOperand, iLen = 1\<rparr>),
   (Lreturn, \<lparr>iName = ''lreturn'', iKind = NoOperand, iLen = 1\<rparr>),
   (Freturn, \<lparr>iName = ''freturn'', iKind = NoOperand, iLen = 1\<rparr>),
   (Dreturn, \<lparr>iName = ''dreturn'', iKind = NoOperand, iLen = 1\<rparr>),
   (Areturn, \<lparr>iName = ''areturn'', iKind = NoOperand, iLen = 1\<rparr>),
   (Return, \<lparr>iName = ''return'', iKind = NoOperand, iLen = 1\<rparr>),
   (Getstatic, \<lparr>iName = ''getstatic'', iKind = ConstU2, iLen = 3\<rparr>),
   (Putstatic, \<lparr>iName = ''putstatic'', iKind = ConstU2, iLen = 3\<rparr>),
   (Getfield, \<lparr>iName = ''getfield'', iKind = ConstU2, iLen = 3\<rparr>),
   (Putfield, \<lparr>iName = ''putfield'', iKind = ConstU2, iLen = 3\<rparr>),
   (Invokevirtual, \<lparr>iName = ''invokevirtual'', iKind = ConstU2, iLen = 3\<rparr>),
   (Invokespecial, \<lparr>iName = ''invokespecial'', iKind = ConstU2, iLen = 3\<rparr>),
   (Invokestatic, \<lparr>iName = ''invokestatic'', iKind = ConstU2, iLen = 3\<rparr>),
   (Invokeinterface, \<lparr>iName = ''invokeinterface'', iKind = InterfaceK, iLen = 5\<rparr>),
   (Invokedynamic, \<lparr>iName = ''invokedynamic'', iKind = DynamicK, iLen = 5\<rparr>),
   (New, \<lparr>iName = ''new'', iKind = ConstU2, iLen = 3\<rparr>),
   (Newarray, \<lparr>iName = ''newarray'', iKind = NewarrayK, iLen = 2\<rparr>),
   (Anewarray, \<lparr>iName = ''anewarray'', iKind = ConstU2, iLen = 3\<rparr>),
   (Arraylength, \<lparr>iName = ''arraylength'', iKind = NoOperand, iLen = 1\<rparr>),
   (Athrow, \<lparr>iName = ''athrow'', iKind = NoOperand, iLen = 1\<rparr>),
   (Checkcast, \<lparr>iName = ''checkcast'', iKind = ConstU2, iLen = 3\<rparr>),
   (Instanceof, \<lparr>iName = ''instanceof'', iKind = ConstU2, iLen = 3\<rparr>),
   (Monitorenter, \<lparr>iName = ''monitorenter'', iKind = NoOperand, iLen = 1\<rparr>),
   (Monitorexit, \<lparr>iName = ''monitorexit'', iKind = NoOperand, iLen = 1\<rparr>),
   (Wide, \<lparr>iName = ''wide'', iKind = WideK, iLen = - 1\<rparr>),
   (Multianewarray, \<lparr>iName = ''multianewarray'', iKind = MultiK, iLen = 4\<rparr>),
   (Ifnull, \<lparr>iName = ''ifnull'', iKind = Branch2, iLen = 3\<rparr>),
   (Ifnonnull, \<lparr>iName = ''ifnonnull'', iKind = Branch2, iLen = 3\<rparr>),
   (GotoW, \<lparr>iName = ''goto_w'', iKind = Branch4, iLen = 5\<rparr>),
   (JsrW, \<lparr>iName = ''jsr_w'', iKind = Branch4, iLen = 5\<rparr>),
   (Breakpoint, \<lparr>iName = ''breakpoint'', iKind = Unused, iLen = 1\<rparr>),
   (Impdep1, \<lparr>iName = ''impdep1'', iKind = Unused, iLen = 1\<rparr>),
   (Impdep2, \<lparr>iName = ''impdep2'', iKind = Unused, iLen = 1\<rparr>)]"

text \<open>Indexing Go's array \<open>table[o]\<close>; the entries it does not initialise are zero values.\<close>

definition op_entry :: "opcode \<Rightarrow> op_info" where
  "op_entry o' = (case map_of table o' of
     Some i \<Rightarrow> i | None \<Rightarrow> \<lparr>iName = [], iKind = Unused, iLen = 0\<rparr>)"

definition op_Name :: "opcode \<Rightarrow> string" where "op_Name o' = iName (op_entry o')"

definition op_Kind :: "opcode \<Rightarrow> op_kind" where "op_Kind o' = iKind (op_entry o')"

definition op_Len :: "opcode \<Rightarrow> int" where "op_Len o' = iLen (op_entry o')"

definition op_Valid :: "opcode \<Rightarrow> bool" where "op_Valid o' \<longleftrightarrow> op_Kind o' \<noteq> Unused"

section \<open>Classification\<close>

definition IsReturn :: "opcode \<Rightarrow> bool" where
  "IsReturn o' \<longleftrightarrow> o' \<ge> Ireturn \<and> o' \<le> Return"

definition IsInvoke :: "opcode \<Rightarrow> bool" where
  "IsInvoke o' \<longleftrightarrow> o' \<ge> Invokevirtual \<and> o' \<le> Invokedynamic"

definition IsFieldAccess :: "opcode \<Rightarrow> bool" where
  "IsFieldAccess o' \<longleftrightarrow> o' \<ge> Getstatic \<and> o' \<le> Putfield"

definition IsBranch :: "opcode \<Rightarrow> bool" where
  "IsBranch o' \<longleftrightarrow> (o' \<ge> Ifeq \<and> o' \<le> Goto) \<or> o' = Ifnull \<or> o' = Ifnonnull \<or> o' = GotoW"

definition Terminates :: "opcode \<Rightarrow> bool" where
  "Terminates o' \<longleftrightarrow> IsReturn o' \<or> o' = Athrow \<or> o' = Goto \<or> o' = GotoW \<or>
     o' = Tableswitch \<or> o' = Lookupswitch \<or> o' = Ret"

section \<open>Array type codes and decimal digits\<close>

abbreviation (input) TBoolean :: u8 where "TBoolean \<equiv> 4"

abbreviation (input) TChar :: u8 where "TChar \<equiv> 5"

abbreviation (input) TFloat :: u8 where "TFloat \<equiv> 6"

abbreviation (input) TDouble :: u8 where "TDouble \<equiv> 7"

abbreviation (input) TByte :: u8 where "TByte \<equiv> 8"

abbreviation (input) TShort :: u8 where "TShort \<equiv> 9"

abbreviation (input) TInt :: u8 where "TInt \<equiv> 10"

abbreviation (input) TLong :: u8 where "TLong \<equiv> 11"

definition ArrayTypeName :: "u8 \<Rightarrow> string" where
  "ArrayTypeName code =
     (if code = TBoolean then ''Z''
      else if code = TChar then ''C''
      else if code = TFloat then ''F''
      else if code = TDouble then ''D''
      else if code = TByte then ''B''
      else if code = TShort then ''S''
      else if code = TInt then ''I''
      else if code = TLong then ''J''
      else '''')"

text \<open>\<open>itoa\<close> fills a four-byte buffer from the end. The loop keeps the free part of the
  buffer as a count: writing below index 0 would panic, modelled as \<^const>\<open>None\<close>.\<close>

fun itoa_loop :: "nat \<Rightarrow> nat \<Rightarrow> string \<Rightarrow> string option" where
  "itoa_loop i n buf =
     (if n = 0 then Some buf
      else case i of
        0 \<Rightarrow> None
      | Suc i' \<Rightarrow> itoa_loop i' (n div 10) (char_of (48 + n mod 10) # buf))"

declare itoa_loop.simps [simp del]

definition itoa :: "nat \<Rightarrow> string option" where
  "itoa n = (if n = 0 then Some ''0'' else itoa_loop 4 n [])"

definition op_String :: "opcode \<Rightarrow> string option" where
  "op_String o' =
     (let n = op_Name o' in
      if n \<noteq> [] then Some n
      else map_option (\<lambda>d. ''op('' @ d @ '')'') (itoa (unat o')))"

section \<open>The table is consistent\<close>

text \<open>The length the operand shape dictates: one byte of opcode and its operands, or \<open>-1\<close> where
  the length depends on the operands.\<close>

fun shape_len :: "op_kind \<Rightarrow> int" where
  "shape_len NoOperand = 1"
| "shape_len Local = 2"
| "shape_len ConstU1 = 2"
| "shape_len Byte1 = 2"
| "shape_len NewarrayK = 2"
| "shape_len ConstU2 = 3"
| "shape_len Short2 = 3"
| "shape_len Branch2 = 3"
| "shape_len IincK = 3"
| "shape_len MultiK = 4"
| "shape_len Branch4 = 5"
| "shape_len InterfaceK = 5"
| "shape_len DynamicK = 5"
| "shape_len _ = - 1"

lemma op_entry_cases:
  obtains i where "(o', i) \<in> set table" and "op_entry o' = i"
  | "o' \<notin> fst ` set table" and "op_entry o' = \<lparr>iName = [], iKind = Unused, iLen = 0\<rparr>"
proof (cases "map_of table o'")
  case None
  then have "op_entry o' = \<lparr>iName = [], iKind = Unused, iLen = 0\<rparr>" by (simp add: op_entry_def)
  moreover from None have "o' \<notin> fst ` set table" by (simp add: map_of_eq_None_iff)
  ultimately show thesis by (rule that(2) [rotated])
next
  case (Some i)
  then show thesis using that(1) [of i] by (simp add: op_entry_def map_of_SomeD)
qed

lemma table_opcodes: "map fst table = map word_of_nat ([0..<0xCB] @ [0xFE, 0xFF])"
  by code_simp

lemma table_shapes: "list_all (\<lambda>(o', i). iKind i \<noteq> Unused \<longrightarrow> iLen i = shape_len (iKind i)) table"
  by code_simp

lemma table_branches:
  "list_all (\<lambda>(o', i). IsBranch o' \<longleftrightarrow> iKind i \<in> {Branch2, Branch4} \<and> o' \<noteq> Jsr \<and> o' \<noteq> JsrW) table"
  by code_simp

lemma op_len_shape: "op_Valid o' \<Longrightarrow> op_Len o' = shape_len (op_Kind o')"
  using table_shapes
  by (cases rule: op_entry_cases [of o']) (auto simp: op_Valid_def op_Kind_def op_Len_def list_all_iff)

lemma unassigned_opcode: "o' \<notin> fst ` set table \<Longrightarrow> 0xCB \<le> unat o'"
proof (rule ccontr)
  assume n: "o' \<notin> fst ` set table" and "\<not> 0xCB \<le> unat o'"
  then have "o' \<in> set (map fst table)"
    unfolding table_opcodes by (simp add: image_iff) (metis atLeastLessThan_iff not_le of_nat_unat ucast_id zero_le)
  with n show False by simp
qed

definition kind_list :: "op_kind list" where
  "kind_list = [
    NoOperand, NoOperand, NoOperand, NoOperand, NoOperand, NoOperand, NoOperand, NoOperand, NoOperand,
    NoOperand, NoOperand, NoOperand, NoOperand, NoOperand, NoOperand, NoOperand, Byte1, Short2,
    ConstU1, ConstU2, ConstU2, Local, Local, Local, Local, Local, NoOperand, NoOperand, NoOperand,
    NoOperand, NoOperand, NoOperand, NoOperand, NoOperand, NoOperand, NoOperand, NoOperand, NoOperand,
    NoOperand, NoOperand, NoOperand, NoOperand, NoOperand, NoOperand, NoOperand, NoOperand, NoOperand,
    NoOperand, NoOperand, NoOperand, NoOperand, NoOperand, NoOperand, NoOperand, Local, Local, Local,
    Local, Local, NoOperand, NoOperand, NoOperand, NoOperand, NoOperand, NoOperand, NoOperand,
    NoOperand, NoOperand, NoOperand, NoOperand, NoOperand, NoOperand, NoOperand, NoOperand, NoOperand,
    NoOperand, NoOperand, NoOperand, NoOperand, NoOperand, NoOperand, NoOperand, NoOperand, NoOperand,
    NoOperand, NoOperand, NoOperand, NoOperand, NoOperand, NoOperand, NoOperand, NoOperand, NoOperand,
    NoOperand, NoOperand, NoOperand, NoOperand, NoOperand, NoOperand, NoOperand, NoOperand, NoOperand,
    NoOperand, NoOperand, NoOperand, NoOperand, NoOperand, NoOperand, NoOperand, NoOperand, NoOperand,
    NoOperand, NoOperand, NoOperand, NoOperand, NoOperand, NoOperand, NoOperand, NoOperand, NoOperand,
    NoOperand, NoOperand, NoOperand, NoOperand, NoOperand, NoOperand, NoOperand, NoOperand, NoOperand,
    NoOperand, NoOperand, NoOperand, IincK, NoOperand, NoOperand, NoOperand, NoOperand, NoOperand,
    NoOperand, NoOperand, NoOperand, NoOperand, NoOperand, NoOperand, NoOperand, NoOperand, NoOperand,
    NoOperand, NoOperand, NoOperand, NoOperand, NoOperand, NoOperand, Branch2, Branch2, Branch2,
    Branch2, Branch2, Branch2, Branch2, Branch2, Branch2, Branch2, Branch2, Branch2, Branch2, Branch2,
    Branch2, Branch2, Local, TableswitchK, LookupswitchK, NoOperand, NoOperand, NoOperand, NoOperand,
    NoOperand, NoOperand, ConstU2, ConstU2, ConstU2, ConstU2, ConstU2, ConstU2, ConstU2, InterfaceK,
    DynamicK, ConstU2, NewarrayK, ConstU2, NoOperand, NoOperand, ConstU2, ConstU2, NoOperand,
    NoOperand, WideK, MultiK, Branch2, Branch2, Branch4, Branch4, Unused, Unused, Unused]"

lemma table_kind_list: "map (\<lambda>e. iKind (snd e)) table = kind_list"
  by code_simp

text \<open>The kind of an assigned opcode by its position in the table.\<close>

lemma op_Kind_nth:
  assumes "unat o' < 0xCB"
  shows "op_Kind o' = kind_list ! unat o'"
proof -
  have len: "length table = 205" using arg_cong [OF table_opcodes, of length] by simp
  have "map fst table ! unat o' = map word_of_nat ([0..<0xCB] @ [0xFE, 0xFF]) ! unat o'"
    by (simp only: table_opcodes)
  then have k: "fst (table ! unat o') = o'" using assms len by (simp add: nth_append)
  have inj: "(word_of_nat a :: opcode) = word_of_nat b \<Longrightarrow> a = b" if "a < 256" "b < 256" for a b
  proof -
    assume "(word_of_nat a :: opcode) = word_of_nat b"
    then have "unat (word_of_nat a :: opcode) = unat (word_of_nat b :: opcode)" by (rule arg_cong)
    then show "a = b" using that by (simp add: unsigned_of_nat take_bit_eq_mod)
  qed
  have "inj_on (word_of_nat :: nat \<Rightarrow> opcode) (set ([0..<0xCB] @ [0xFE, 0xFF]))"
    by (rule inj_onI) (use inj in auto)
  then have d: "distinct (map fst table)" unfolding table_opcodes by (simp add: distinct_map)
  have "table ! unat o' \<in> set table" using assms len by (intro nth_mem) simp
  then have "(o', snd (table ! unat o')) \<in> set table" using k by (metis prod.collapse)
  then have "map_of table o' = Some (snd (table ! unat o'))" using d by (intro map_of_is_SomeI)
  then have "op_Kind o' = iKind (snd (table ! unat o'))" by (simp add: op_Kind_def op_entry_def)
  also have "\<dots> = kind_list ! unat o'" using assms len by (simp add: table_kind_list [symmetric])
  finally show ?thesis .
qed

lemma is_branch_shape:
  "IsBranch o' \<longleftrightarrow> op_Kind o' \<in> {Branch2, Branch4} \<and> o' \<noteq> Jsr \<and> o' \<noteq> JsrW"
proof (cases rule: op_entry_cases [of o'])
  case (1 i)
  then show ?thesis using table_branches by (auto simp: list_all_iff op_Kind_def)
next
  case 2
  have "\<not> IsBranch o'"
    using unassigned_opcode [OF 2(1)] by (auto simp: IsBranch_def word_le_nat_alt)
  then show ?thesis using 2 by (simp add: op_Kind_def)
qed

lemma itoa_loop_fits: "n < 10 ^ i \<Longrightarrow> \<exists>s. itoa_loop i n buf = Some s"
proof (induction i arbitrary: n buf)
  case 0
  then show ?case by (simp add: itoa_loop.simps)
next
  case (Suc i)
  then have "n div 10 < 10 ^ i" by (simp add: less_mult_imp_div_less)
  with Suc.IH show ?case by (subst itoa_loop.simps) simp
qed

lemma itoa_byte: "\<exists>s. itoa (unat (o' :: opcode)) = Some s"
proof -
  have "unat o' < 10 ^ 4" by (rule less_trans [OF unat_lt_u8]) simp
  then show ?thesis using itoa_loop_fits [of "unat o'" 4] by (simp add: itoa_def)
qed

lemma terminator_branches: "Terminates o' \<and> IsBranch o' \<longleftrightarrow> o' = Goto \<or> o' = GotoW"
  by (auto simp: Terminates_def IsBranch_def IsReturn_def word_le_nat_alt)

section \<open>Properties\<close>

text \<open>C30: the opcode table is coherent for every one of the 256 bytes: an assigned opcode has
  the length its operand shape dictates, \<open>IsBranch\<close> holds exactly of the one-target jumps
  other than \<open>jsr\<close>, of those only \<open>goto\<close> and \<open>goto_w\<close> do not fall through, and \<open>String\<close>
  never overruns the buffer of \<open>itoa\<close>.\<close>

theorem opcode_table_coherent:
  "(if op_Valid o' then op_Len o' = shape_len (op_Kind o') else op_Kind o' = Unused) \<and>
   (IsBranch o' \<longleftrightarrow> op_Kind o' \<in> {Branch2, Branch4} \<and> o' \<noteq> Jsr \<and> o' \<noteq> JsrW) \<and>
   (Terminates o' \<and> IsBranch o' \<longleftrightarrow> o' = Goto \<or> o' = GotoW) \<and>
   (\<exists>s. op_String o' = Some s)"
proof (intro conjI)
  show "if op_Valid o' then op_Len o' = shape_len (op_Kind o') else op_Kind o' = Unused"
    by (simp add: op_len_shape) (simp add: op_Valid_def)
  show "\<exists>s. op_String o' = Some s" using itoa_byte [of o'] by (auto simp: op_String_def Let_def)
qed (rule is_branch_shape terminator_branches)+

end
