(* ===== verification/Version.thy ===== *)
theory Version
  imports Prelude
begin

unbundle bit_operations_syntax

text \<open>
  Class file versions and access flags: \<^verbatim>\<open>src/classfile/version.go\<close> and the \<open>Flags\<close> type
  of \<^verbatim>\<open>src/classfile/member.go\<close>.
\<close>

section \<open>Versions\<close>

record version =
  vMajor :: u16
  vMinor :: u16

abbreviation (input) Java1_0 :: u16 where "Java1_0 \<equiv> 45"

abbreviation (input) Java5 :: u16 where "Java5 \<equiv> 49"

abbreviation (input) Java6 :: u16 where "Java6 \<equiv> 50"

abbreviation (input) Java7 :: u16 where "Java7 \<equiv> 51"

abbreviation (input) Java8 :: u16 where "Java8 \<equiv> 52"

abbreviation (input) Java9 :: u16 where "Java9 \<equiv> 53"

abbreviation (input) Java11 :: u16 where "Java11 \<equiv> 55"

abbreviation (input) Java16 :: u16 where "Java16 \<equiv> 60"

abbreviation (input) Java17 :: u16 where "Java17 \<equiv> 61"

abbreviation (input) Java25 :: u16 where "Java25 \<equiv> 69"

abbreviation (input) Java26 :: u16 where "Java26 \<equiv> 70"

abbreviation (input) PreviewMinor :: u16 where "PreviewMinor \<equiv> 65535"

definition MaxSupported :: version where
  "MaxSupported = \<lparr>vMajor = Java26, vMinor = 0\<rparr>"

definition PreviewRelease :: u16 where
  "PreviewRelease = Java25"

definition Java :: "version \<Rightarrow> int" where
  "Java v = uint (vMajor v) - 44"

definition Preview :: "version \<Rightarrow> bool" where
  "Preview v \<longleftrightarrow> vMinor v = PreviewMinor"

definition AtLeast :: "version \<Rightarrow> u16 \<Rightarrow> bool" where
  "AtLeast v major \<longleftrightarrow> vMajor v \<ge> major"

datatype version_error =
    UnsupportedVersion version
  | IllegalMinor version
  | WrongPreviewRelease version int int
  | PreviewNotAllowed version

definition version_check :: "version \<Rightarrow> bool \<Rightarrow> version_error option" where
  "version_check v allowPreview =
     (if vMajor v < Java1_0 \<or> vMajor v > vMajor MaxSupported then Some (UnsupportedVersion v)
      else if vMajor v \<ge> 56 \<and> vMinor v \<noteq> 0 \<and> vMinor v \<noteq> PreviewMinor then Some (IllegalMinor v)
      else if Preview v then
        if vMajor v \<noteq> PreviewRelease then
          Some (WrongPreviewRelease v (Java v) (uint PreviewRelease - 44))
        else if \<not> allowPreview then Some (PreviewNotAllowed v)
        else None
      else None)"

section \<open>Access flags\<close>

type_synonym flags = u16

abbreviation (input) AccPublic :: flags where "AccPublic \<equiv> 0x0001"

abbreviation (input) AccStatic :: flags where "AccStatic \<equiv> 0x0008"

abbreviation (input) AccFinal :: flags where "AccFinal \<equiv> 0x0010"

abbreviation (input) AccSuper :: flags where "AccSuper \<equiv> 0x0020"

abbreviation (input) AccNative :: flags where "AccNative \<equiv> 0x0100"

abbreviation (input) AccInterface :: flags where "AccInterface \<equiv> 0x0200"

abbreviation (input) AccAbstract :: flags where "AccAbstract \<equiv> 0x0400"

abbreviation (input) AccStrict :: flags where "AccStrict \<equiv> 0x0800"

abbreviation (input) AccModule :: flags where "AccModule \<equiv> 0x8000"

abbreviation (input) StrictMinMajor :: u16 where "StrictMinMajor \<equiv> 46"

abbreviation (input) StrictMaxMajor :: u16 where "StrictMaxMajor \<equiv> 60"

definition Has :: "flags \<Rightarrow> flags \<Rightarrow> bool" where
  "Has f m \<longleftrightarrow> f AND m = m"

definition Strict :: "flags \<Rightarrow> version \<Rightarrow> bool" where
  "Strict f v \<longleftrightarrow>
     vMajor v \<ge> StrictMinMajor \<and> vMajor v \<le> StrictMaxMajor \<and> f AND AccStrict \<noteq> 0"

section \<open>Lemmas\<close>

lemma Has_bits: "Has f m \<longleftrightarrow> (\<forall>n. bit m n \<longrightarrow> bit f n)"
proof
  assume "Has f m"
  then have "f AND m = m" by (simp add: Has_def)
  then show "\<forall>n. bit m n \<longrightarrow> bit f n" by (metis bit_and_iff)
next
  assume "\<forall>n. bit m n \<longrightarrow> bit f n"
  then have "f AND m = m" by (intro bit_eqI) (auto simp: bit_and_iff)
  then show "Has f m" by (simp add: Has_def)
qed

lemma Has_or: "Has f (a OR b) \<longleftrightarrow> Has f a \<and> Has f b"
  by (auto simp: Has_bits bit_simps)

section \<open>Properties\<close>

text \<open>C36: which versions the reader accepts. Preview files are accepted for one release only
  and only on request. For a major version below 56, where JVMS 4.1 and the comment in
  \<open>check\<close> allow any minor version, the code rejects exactly the minor version 65535.\<close>

theorem version_check_legacy:
  assumes "45 \<le> vMajor v" and "vMajor v \<le> 55"
  shows "(version_check v allowPreview = None \<longleftrightarrow> vMinor v \<noteq> PreviewMinor) \<and>
    (vMinor v = PreviewMinor \<longrightarrow>
      version_check v allowPreview = Some (WrongPreviewRelease v (Java v) 25))"
  using assms by (auto simp: version_check_def Preview_def MaxSupported_def PreviewRelease_def
      word_le_nat_alt word_less_nat_alt)

theorem version_check_legacy_witness:
  "version_check \<lparr>vMajor = 45, vMinor = 3\<rparr> False = None \<and>
   version_check \<lparr>vMajor = 45, vMinor = 65535\<rparr> True \<noteq> None"
  using version_check_legacy [of "\<lparr>vMajor = 45, vMinor = 3\<rparr>" False]
    version_check_legacy [of "\<lparr>vMajor = 45, vMinor = 65535\<rparr>" True]
  by simp

end
