(* ===== verification/ByteIO.thy ===== *)
theory ByteIO
  imports Version Mutf8
begin

unbundle bit_operations_syntax

text \<open>
  The byte cursor and the byte sink of the class file package:
  \<^verbatim>\<open>src/classfile/reader.go\<close> and \<^verbatim>\<open>src/classfile/writer.go\<close>, with the errors the package
  reports. The reader carries a sticky error: after the first failure every read returns
  zero and the offset stops. The locale \<open>cursor_op\<close> states that contract once; every read
  operation is an interpretation of it. The writer appends big-endian values and patches a
  length that was left open; the lemmas say that the reader reads back what the writer wrote.
\<close>

section \<open>Errors\<close>

text \<open>The messages of \<open>SyntaxError\<close>, one constructor per format string, with its arguments.\<close>

datatype syntax_msg =
    UnexpectedEnd string nat int
  | NegativeLength int
  | BadMagic u32
  | PoolCountZero
  | UnknownTag u8 u16
  | TagTooNew u8 u16 u16 version
  | BadUtf8Byte u8
  | WidePastEnd u8 u16
  | BadVersion version_error
  | TrailingBytes int
  | LeftOver int

text \<open>The messages of \<open>Pool.errf\<close>, which name a constant pool index.\<close>

datatype pool_msg =
    IndexZero
  | OutOfRange int
  | UnusableSlot
  | WrongTag u8 u8
  | BadMutf8 mutf8_error
  | NotRef u8
  | NotFieldref u8
  | NotMethodref
  | BadRefKind u8
  | KindNeedsField u8 u8
  | KindNeedsMethodref u8 u8
  | KindNeedsJava8 u8 version
  | KindNeedsMethod u8 u8
  | KindNeedsInterface u8
  | KindNeedsInit string
  | KindForbidsName u8 string
  | NotDynamic u8
  | ClassNotLoadable version
  | NotLoadable u8

datatype class_error =
    SyntaxError string nat syntax_msg
  | PoolError string u16 pool_msg
  | BootstrapRange string u16 nat
  | NotFieldConstant string u8
  | CodeLengthZero string
  | CodeLengthLimit string u32
  | SuperMissing string string

section \<open>Reader\<close>

record reader =
  rb :: bytes
  roff :: nat
  rfile :: string
  rerr :: "class_error option"

definition r_fail :: "syntax_msg \<Rightarrow> reader \<Rightarrow> reader" where
  "r_fail msg r = (if rerr r = None then r\<lparr>rerr := Some (SyntaxError (rfile r) (roff r) msg)\<rparr> else r)"

definition r_short :: "nat \<Rightarrow> string \<Rightarrow> reader \<Rightarrow> bool \<times> reader" where
  "r_short n what r =
     (if rerr r \<noteq> None then (True, r)
      else if roff r + n > length (rb r)
      then (True, r_fail (UnexpectedEnd what n (int (length (rb r)) - int (roff r))) r)
      else (False, r))"

definition r_u1 :: "reader \<Rightarrow> u8 \<times> reader" where
  "r_u1 r = (case r_short 1 ''u1'' r of (short, r') \<Rightarrow>
     if short then (0, r')
     else (rb r' ! roff r', r'\<lparr>roff := roff r' + 1\<rparr>))"

definition r_u2 :: "reader \<Rightarrow> u16 \<times> reader" where
  "r_u2 r = (case r_short 2 ''u2'' r of (short, r') \<Rightarrow>
     if short then (0, r')
     else (push_bit 8 (ucast (rb r' ! roff r')) OR ucast (rb r' ! (roff r' + 1)),
           r'\<lparr>roff := roff r' + 2\<rparr>))"

definition r_u4 :: "reader \<Rightarrow> u32 \<times> reader" where
  "r_u4 r = (case r_short 4 ''u4'' r of (short, r') \<Rightarrow>
     if short then (0, r')
     else (push_bit 24 (ucast (rb r' ! roff r')) OR push_bit 16 (ucast (rb r' ! (roff r' + 1))) OR
             push_bit 8 (ucast (rb r' ! (roff r' + 2))) OR ucast (rb r' ! (roff r' + 3)),
           r'\<lparr>roff := roff r' + 4\<rparr>))"

definition r_s4 :: "reader \<Rightarrow> int \<times> reader" where
  "r_s4 r = (case r_u4 r of (v, r') \<Rightarrow> (sint v, r'))"

definition r_bytes :: "int \<Rightarrow> reader \<Rightarrow> bytes \<times> reader" where
  "r_bytes n r =
     (if n < 0 then ([], r_fail (NegativeLength n) r)
      else case r_short (nat n) ''byte array'' r of (short, r') \<Rightarrow>
        if short then ([], r')
        else (take (nat n) (drop (roff r') (rb r')), r'\<lparr>roff := roff r' + nat n\<rparr>))"

definition r_skip :: "nat \<Rightarrow> reader \<Rightarrow> reader" where
  "r_skip n r = (case r_short n ''padding'' r of (short, r') \<Rightarrow>
     if short then r' else r'\<lparr>roff := roff r' + n\<rparr>)"

definition r_done :: "reader \<Rightarrow> bool" where
  "r_done r \<longleftrightarrow> rerr r \<noteq> None"

section \<open>Writer\<close>

text \<open>The writer is the byte slice it has collected. Go panics when a patch lies outside the
  slice; the offsets the package patches are always inside, as the lemmas on \<open>w_attr\<close> and on
  the code writer's \<open>resolve\<close> show.\<close>

type_synonym bwriter = bytes

definition be_u2 :: "u16 \<Rightarrow> bytes" where
  "be_u2 v = [ucast (drop_bit 8 v), ucast v]"

definition be_u4 :: "u32 \<Rightarrow> bytes" where
  "be_u4 v = [ucast (drop_bit 24 v), ucast (drop_bit 16 v), ucast (drop_bit 8 v), ucast v]"

definition w_u1 :: "u8 \<Rightarrow> bwriter \<Rightarrow> bwriter" where
  "w_u1 v w = w @ [v]"

definition w_u2 :: "u16 \<Rightarrow> bwriter \<Rightarrow> bwriter" where
  "w_u2 v w = w @ be_u2 v"

definition w_u4 :: "u32 \<Rightarrow> bwriter \<Rightarrow> bwriter" where
  "w_u4 v w = w @ be_u4 v"

definition w_raw :: "bytes \<Rightarrow> bwriter \<Rightarrow> bwriter" where
  "w_raw b w = w @ b"

definition patchU2 :: "nat \<Rightarrow> u16 \<Rightarrow> bwriter \<Rightarrow> bwriter" where
  "patchU2 off v w = w[off := ucast (drop_bit 8 v), off + 1 := ucast v]"

definition patchU4 :: "nat \<Rightarrow> u32 \<Rightarrow> bwriter \<Rightarrow> bwriter" where
  "patchU4 off v w = w[off := ucast (drop_bit 24 v), off + 1 := ucast (drop_bit 16 v),
     off + 2 := ucast (drop_bit 8 v), off + 3 := ucast v]"

text \<open>The body of an attribute is a closure over the writer and, in \<open>emitMethod\<close>, over the
  constant pool, which is the state \<open>s\<close>.\<close>

definition w_attr :: "u16 \<Rightarrow> (bwriter \<Rightarrow> 's \<Rightarrow> bwriter \<times> 's) \<Rightarrow> bwriter \<Rightarrow> 's \<Rightarrow> bwriter \<times> 's" where
  "w_attr nameIdx body w s =
     (let w1 = w_u2 nameIdx w;
          lenOff = length w1;
          w2 = w_u4 0 w1;
          start = length w2
      in case body w2 s of (w3, s') \<Rightarrow>
        (patchU4 lenOff (word_of_nat (length w3 - start)) w3, s'))"

section \<open>Reading what was written\<close>

text \<open>What a healthy reader has still before it, and the reader moved on by \<open>n\<close> bytes.\<close>

definition reader_ok :: "reader \<Rightarrow> bool" where
  "reader_ok r \<longleftrightarrow> rerr r = None \<and> roff r \<le> length (rb r)"

definition rest :: "reader \<Rightarrow> bytes" where
  "rest r = drop (roff r) (rb r)"

definition advance :: "nat \<Rightarrow> reader \<Rightarrow> reader" where
  "advance n r = r\<lparr>roff := roff r + n\<rparr>"

lemma be_u2_join: "push_bit 8 (ucast (ucast (drop_bit 8 v) :: u8)) OR ucast (ucast v :: u8) = (v :: u16)"
  by (rule bit_eqI) (auto simp: bit_simps)

lemma be_u4_join:
  "push_bit 24 (ucast (ucast (drop_bit 24 v) :: u8)) OR push_bit 16 (ucast (ucast (drop_bit 16 v) :: u8)) OR
   push_bit 8 (ucast (ucast (drop_bit 8 v) :: u8)) OR ucast (ucast v :: u8) = (v :: u32)"
  (is "?l = v")
proof (rule bit_word_eqI)
  fix n
  assume "n < LENGTH(32)"
  then show "bit ?l n = bit v n"
    by (cases "n < 16"; cases "n < 24") (auto simp: bit_simps)
qed

lemma length_be [simp]: "length (be_u2 v) = 2" "length (be_u4 x) = 4"
  by (simp_all add: be_u2_def be_u4_def)

lemma advance_simps [simp]:
  "rb (advance n r) = rb r" "rerr (advance n r) = rerr r" "rfile (advance n r) = rfile r"
  "roff (advance n r) = roff r + n" "advance m (advance n r) = advance (n + m) r" "advance 0 r = r"
  by (simp_all add: advance_def add.assoc)

lemma rest_advance [simp]: "rest (advance n r) = drop n (rest r)"
  by (simp add: rest_def add.commute)

lemma reader_ok_advance: "reader_ok r \<Longrightarrow> n \<le> length (rest r) \<Longrightarrow> reader_ok (advance n r)"
  by (auto simp: reader_ok_def rest_def)

lemma rest_nth: "roff r + n < length (rb r) \<Longrightarrow> rb r ! (roff r + n) = rest r ! n"
  by (simp add: rest_def)

lemma r_short_ok: "reader_ok r \<Longrightarrow> r_short n what r = (if n \<le> length (rest r) then (False, r)
   else (True, r_fail (UnexpectedEnd what n (int (length (rb r)) - int (roff r))) r))"
  by (auto simp: reader_ok_def r_short_def rest_def)

lemma rest_Cons:
  assumes "reader_ok r" and "rest r = x # t"
  shows "rb r ! roff r = x"
  using assms by (metis nth_via_drop rest_def)

lemma rest_append_nth:
  assumes "rest r = xs @ t" and "i < length xs"
  shows "rb r ! (roff r + i) = xs ! i"
proof -
  have "i < length (rest r)" using assms by simp
  then have "rb r ! (roff r + i) = rest r ! i" by (simp add: rest_def)
  with assms show ?thesis by (simp add: nth_append)
qed

lemma r_u1_read: "reader_ok r \<Longrightarrow> rest r = v # t \<Longrightarrow> r_u1 r = (v, advance 1 r)"
  by (simp add: r_u1_def r_short_ok rest_Cons advance_def)

lemma r_u2_read:
  assumes "reader_ok r" and "rest r = be_u2 v @ t"
  shows "r_u2 r = (v, advance 2 r)"
proof -
  have "rb r ! roff r = ucast (drop_bit 8 v)" "rb r ! (roff r + 1) = ucast v"
    using rest_append_nth [OF assms(2), of 0] rest_append_nth [OF assms(2), of 1]
    by (simp_all add: be_u2_def)
  then show ?thesis using assms by (simp add: r_u2_def r_short_ok advance_def be_u2_join)
qed

lemma r_u4_read:
  assumes "reader_ok r" and "rest r = be_u4 v @ t"
  shows "r_u4 r = (v, advance 4 r)"
proof -
  have "rb r ! roff r = ucast (drop_bit 24 v)" "rb r ! (roff r + 1) = ucast (drop_bit 16 v)"
      "rb r ! (roff r + 2) = ucast (drop_bit 8 v)" "rb r ! (roff r + 3) = ucast v"
    using rest_append_nth [OF assms(2), of 0] rest_append_nth [OF assms(2), of 1]
      rest_append_nth [OF assms(2), of 2] rest_append_nth [OF assms(2), of 3]
    by (simp_all add: be_u4_def)
  then show ?thesis using assms by (simp add: r_u4_def r_short_ok advance_def be_u4_join)
qed

lemma r_bytes_read:
  assumes "reader_ok r" and "rest r = b @ t"
  shows "r_bytes (int (length b)) r = (b, advance (length b) r)"
proof -
  have "take (length b) (drop (roff r) (rb r)) = b"
    using assms(2) by (metis append_eq_conv_conj rest_def)
  then show ?thesis using assms by (simp add: r_bytes_def r_short_ok advance_def)
qed

text \<open>Writing, as concatenation.\<close>

lemma w_simps [simp]: "w_u1 v w = w @ [v]" "w_u2 x w = w @ be_u2 x" "w_u4 y w = w @ be_u4 y"
    "w_raw b w = w @ b"
  by (simp_all add: w_u1_def w_u2_def w_u4_def w_raw_def)

lemma patchU2_mid: "length w = off \<Longrightarrow> length x = 2 \<Longrightarrow> patchU2 off v (w @ x @ t) = w @ be_u2 v @ t"
  by (auto simp: patchU2_def be_u2_def list_update_append numeral_2_eq_2 length_Suc_conv)

lemma patchU4_mid: "length w = off \<Longrightarrow> length x = 4 \<Longrightarrow> patchU4 off v (w @ x @ t) = w @ be_u4 v @ t"
  by (auto simp: patchU4_def be_u4_def list_update_append numeral_eq_Suc length_Suc_conv)

lemma length_patch [simp]: "length (patchU2 off v w) = length w" "length (patchU4 off x w) = length w"
  by (simp_all add: patchU2_def patchU4_def)

text \<open>An attribute is its name index, the length of its body and the body.\<close>

lemma w_attr_append:
  assumes "body (w @ be_u2 i @ be_u4 0) s = (w @ be_u2 i @ be_u4 0 @ d, s')"
  shows "w_attr i body w s = (w @ be_u2 i @ be_u4 (word_of_nat (length d)) @ d, s')"
proof -
  have "patchU4 (length (w @ be_u2 i)) v ((w @ be_u2 i) @ be_u4 0 @ d) = (w @ be_u2 i) @ be_u4 v @ d" for v
    by (rule patchU4_mid) simp_all
  then show ?thesis using assms by (simp add: w_attr_def Let_def)
qed

section \<open>The contract of a read operation\<close>

text \<open>
  What the decoder relies on in every read: a failed reader is left alone and gives the zero
  value, the input and the file name never change, the offset moves forward inside the input,
  and a read that fails gives zero and does not move.
\<close>

locale cursor_op =
  fixes read_op :: "reader \<Rightarrow> 'a \<times> reader" and zero :: 'a
  assumes sticky: "rerr r \<noteq> None \<Longrightarrow> read_op r = (zero, r)"
    and frame: "read_op r = (x, r') \<Longrightarrow> rb r' = rb r \<and> rfile r' = rfile r"
    and bounded: "read_op r = (x, r') \<Longrightarrow> roff r \<le> length (rb r) \<Longrightarrow>
      roff r \<le> roff r' \<and> roff r' \<le> length (rb r)"
    and failed: "read_op r = (x, r') \<Longrightarrow> rerr r' \<noteq> None \<Longrightarrow> x = zero \<and> roff r' = roff r"

text \<open>The counted loop \<^verbatim>\<open>for i := 0; i < n && !r.done(); i++\<close> around one read.\<close>

fun read_n :: "(reader \<Rightarrow> 'a \<times> reader) \<Rightarrow> nat \<Rightarrow> reader \<Rightarrow> 'a list \<times> reader" where
  "read_n f 0 r = ([], r)"
| "read_n f (Suc n) r =
     (if r_done r then ([], r)
      else case f r of (x, r1) \<Rightarrow> case read_n f n r1 of (xs, r2) \<Rightarrow> (x # xs, r2))"

text \<open>What any sequence of reads and failures does to the reader.\<close>

definition moves :: "reader \<Rightarrow> reader \<Rightarrow> bool" where
  "moves r r' \<longleftrightarrow> rb r' = rb r \<and> rfile r' = rfile r \<and>
     (roff r \<le> length (rb r) \<longrightarrow> roff r' \<le> length (rb r)) \<and> (rerr r \<noteq> None \<longrightarrow> rerr r' = rerr r)"

lemma moves_refl [simp]: "moves r r"
  by (simp add: moves_def)

lemma moves_trans: "moves r r1 \<Longrightarrow> moves r1 r2 \<Longrightarrow> moves r r2"
  by (auto simp: moves_def)

lemma moves_fail: "moves r (r_fail m r)"
  by (simp add: moves_def r_fail_def)

lemma moves_ok: "moves r r' \<Longrightarrow> rerr r' = None \<Longrightarrow> roff r \<le> length (rb r) \<Longrightarrow>
    rerr r = None \<and> reader_ok r' \<and> rb r' = rb r \<and> rfile r' = rfile r"
  by (auto simp: moves_def reader_ok_def)

context cursor_op
begin

lemma moves_op: "read_op r = (x, r') \<Longrightarrow> moves r r'"
  unfolding moves_def using frame bounded sticky by (metis prod.inject)

lemma keeps_ok: "read_op r = (x, r') \<Longrightarrow> rerr r' = None \<Longrightarrow> roff r \<le> length (rb r) \<Longrightarrow> reader_ok r'"
  using frame bounded by (fastforce simp: reader_ok_def)

lemma error_kept: "read_op r = (x, r') \<Longrightarrow> rerr r \<noteq> None \<Longrightarrow> rerr r' = rerr r"
  using sticky by fastforce

lemma loop_contract:
  "read_n read_op n r = (xs, r') \<Longrightarrow> roff r \<le> length (rb r) \<Longrightarrow>
   rb r' = rb r \<and> rfile r' = rfile r \<and> roff r \<le> roff r' \<and> roff r' \<le> length (rb r) \<and>
   length xs \<le> n \<and> (rerr r' = None \<longrightarrow> length xs = n) \<and> (rerr r \<noteq> None \<longrightarrow> xs = [] \<and> r' = r)"
proof (induction n arbitrary: r xs)
  case (Suc n)
  show ?case
  proof (cases "r_done r")
    case True
    then show ?thesis using Suc.prems by (auto simp: r_done_def)
  next
    case False
    obtain x r1 where 1: "read_op r = (x, r1)" by fastforce
    obtain ys where 2: "read_n read_op n r1 = (ys, r')" and xs: "xs = x # ys"
      using Suc.prems(1) False 1 by (auto split: prod.splits)
    show ?thesis
      using Suc.IH [OF 2] frame [OF 1] bounded [OF 1 Suc.prems(2)] False xs
      by (auto simp: r_done_def)
  qed
qed simp

end

lemma r_short_cases:
  obtains (failed) "r_short n what r = (True, r)" and "rerr r \<noteq> None"
  | (ends) e where "r_short n what r = (True, r\<lparr>rerr := Some e\<rparr>)" and "rerr r = None"
      and "roff r + n > length (rb r)"
  | (fits) "r_short n what r = (False, r)" and "rerr r = None" and "roff r + n \<le> length (rb r)"
  by (cases "rerr r"; cases "roff r + n > length (rb r)") (auto simp: r_short_def r_fail_def)

interpretation u1: cursor_op r_u1 0
proof
  fix r :: reader and x :: u8 and r'
  show "rerr r \<noteq> None \<Longrightarrow> r_u1 r = (0, r)" by (simp add: r_u1_def r_short_def)
  assume "r_u1 r = (x, r')"
  then show "rb r' = rb r \<and> rfile r' = rfile r"
    and "roff r \<le> length (rb r) \<Longrightarrow> roff r \<le> roff r' \<and> roff r' \<le> length (rb r)"
    and "rerr r' \<noteq> None \<Longrightarrow> x = 0 \<and> roff r' = roff r"
    by (cases rule: r_short_cases [of 1 "''u1''" r]; auto simp: r_u1_def)+
qed

interpretation u2: cursor_op r_u2 0
proof
  fix r :: reader and x :: u16 and r'
  show "rerr r \<noteq> None \<Longrightarrow> r_u2 r = (0, r)" by (simp add: r_u2_def r_short_def)
  assume "r_u2 r = (x, r')"
  then show "rb r' = rb r \<and> rfile r' = rfile r"
    and "roff r \<le> length (rb r) \<Longrightarrow> roff r \<le> roff r' \<and> roff r' \<le> length (rb r)"
    and "rerr r' \<noteq> None \<Longrightarrow> x = 0 \<and> roff r' = roff r"
    by (cases rule: r_short_cases [of 2 "''u2''" r]; auto simp: r_u2_def)+
qed

interpretation u4: cursor_op r_u4 0
proof
  fix r :: reader and x :: u32 and r'
  show "rerr r \<noteq> None \<Longrightarrow> r_u4 r = (0, r)" by (simp add: r_u4_def r_short_def)
  assume "r_u4 r = (x, r')"
  then show "rb r' = rb r \<and> rfile r' = rfile r"
    and "roff r \<le> length (rb r) \<Longrightarrow> roff r \<le> roff r' \<and> roff r' \<le> length (rb r)"
    and "rerr r' \<noteq> None \<Longrightarrow> x = 0 \<and> roff r' = roff r"
    by (cases rule: r_short_cases [of 4 "''u4''" r]; auto simp: r_u4_def)+
qed

interpretation byte_array: cursor_op "r_bytes n" "[]"
proof
  fix r :: reader and x :: bytes and r'
  show "rerr r \<noteq> None \<Longrightarrow> r_bytes n r = ([], r)" by (auto simp: r_bytes_def r_short_def r_fail_def)
  assume "r_bytes n r = (x, r')"
  then show "rb r' = rb r \<and> rfile r' = rfile r"
    and "roff r \<le> length (rb r) \<Longrightarrow> roff r \<le> roff r' \<and> roff r' \<le> length (rb r)"
    and "rerr r' \<noteq> None \<Longrightarrow> x = [] \<and> roff r' = roff r"
    by (cases rule: r_short_cases [of "nat n" "''byte array''" r];
        auto simp: r_bytes_def r_fail_def split: if_splits)+
qed

interpretation s4: cursor_op r_s4 0
  by unfold_locales
    (auto simp: r_s4_def u4.sticky split: prod.splits dest: u4.frame u4.bounded u4.failed)

section \<open>Properties\<close>





end
