(* ===== verification/ConstPool.thy ===== *)
theory ConstPool
  imports ByteIO
begin

unbundle bit_operations_syntax

text \<open>
  The constant pool as the reader sees it: \<^verbatim>\<open>src/classfile/constpool.go\<close>. \<open>readPool\<close> decodes
  the table into undecoded entries; the accessors resolve an entry on demand, check its tag
  and memoise the decoded strings. The memo is part of the state, so every accessor takes the
  pool and returns it; the theory shows that the memo never changes a result.
\<close>

section \<open>Tags\<close>

type_synonym tag = u8

abbreviation (input) TagUtf8 :: tag where "TagUtf8 \<equiv> 1"

abbreviation (input) TagInteger :: tag where "TagInteger \<equiv> 3"

abbreviation (input) TagFloat :: tag where "TagFloat \<equiv> 4"

abbreviation (input) TagLong :: tag where "TagLong \<equiv> 5"

abbreviation (input) TagDouble :: tag where "TagDouble \<equiv> 6"

abbreviation (input) TagClass :: tag where "TagClass \<equiv> 7"

abbreviation (input) TagString :: tag where "TagString \<equiv> 8"

abbreviation (input) TagFieldref :: tag where "TagFieldref \<equiv> 9"

abbreviation (input) TagMethodref :: tag where "TagMethodref \<equiv> 10"

abbreviation (input) TagInterfaceMethodref :: tag where "TagInterfaceMethodref \<equiv> 11"

abbreviation (input) TagNameAndType :: tag where "TagNameAndType \<equiv> 12"

abbreviation (input) TagMethodHandle :: tag where "TagMethodHandle \<equiv> 15"

abbreviation (input) TagMethodType :: tag where "TagMethodType \<equiv> 16"

abbreviation (input) TagDynamic :: tag where "TagDynamic \<equiv> 17"

abbreviation (input) TagInvokeDynamic :: tag where "TagInvokeDynamic \<equiv> 18"

abbreviation (input) TagModule :: tag where "TagModule \<equiv> 19"

abbreviation (input) TagPackage :: tag where "TagPackage \<equiv> 20"

definition tagSince :: "tag \<Rightarrow> u16 option" where
  "tagSince t = map_of
     [(TagUtf8, Java1_0), (TagInteger, Java1_0), (TagFloat, Java1_0),
      (TagLong, Java1_0), (TagDouble, Java1_0), (TagClass, Java1_0),
      (TagString, Java1_0), (TagFieldref, Java1_0), (TagMethodref, Java1_0),
      (TagInterfaceMethodref, Java1_0), (TagNameAndType, Java1_0),
      (TagMethodHandle, Java7), (TagMethodType, Java7), (TagInvokeDynamic, Java7),
      (TagModule, Java9), (TagPackage, Java9), (TagDynamic, Java11)] t"

abbreviation (input) RefGetField :: u8 where "RefGetField \<equiv> 1"

abbreviation (input) RefGetStatic :: u8 where "RefGetStatic \<equiv> 2"

abbreviation (input) RefPutField :: u8 where "RefPutField \<equiv> 3"

abbreviation (input) RefPutStatic :: u8 where "RefPutStatic \<equiv> 4"

abbreviation (input) RefInvokeVirtual :: u8 where "RefInvokeVirtual \<equiv> 5"

abbreviation (input) RefInvokeStatic :: u8 where "RefInvokeStatic \<equiv> 6"

abbreviation (input) RefInvokeSpecial :: u8 where "RefInvokeSpecial \<equiv> 7"

abbreviation (input) RefNewInvokeSpecial :: u8 where "RefNewInvokeSpecial \<equiv> 8"

abbreviation (input) RefInvokeInterface :: u8 where "RefInvokeInterface \<equiv> 9"

section \<open>The pool\<close>

record pentry =
  etag :: tag
  ea :: u32
  eb :: u32

definition zero_entry :: pentry where
  "zero_entry = \<lparr>etag = 0, ea = 0, eb = 0\<rparr>"

record ref =
  refTag :: tag
  refClass :: string
  refName :: string
  refDesc :: string

record handle =
  hKind :: u8
  hRef :: ref

record dynamic =
  dTag :: tag
  dBootstrap :: u16
  dName :: string
  dDesc :: string

record bootstrap_method =
  bmMethod :: handle
  bmArguments :: "u16 list"

record const =
  cTag :: tag
  cBits :: u64
  cStr :: string
  cHandle :: handle
  cDyn :: dynamic

record pool =
  pentries :: "pentry list"
  psrc :: bytes
  pstrs :: "string list"
  pstrOK :: "bool list"
  pbsms :: "bootstrap_method list"
  pfile :: string

type_synonym 'a pool_op = "(pool, class_error, 'a) sres"

definition pool_Len :: "pool \<Rightarrow> nat" where
  "pool_Len p = length (pentries p)"

definition pool_Tag :: "pool \<Rightarrow> u16 \<Rightarrow> tag" where
  "pool_Tag p i = (if unat i \<ge> length (pentries p) then 0 else etag (pentries p ! unat i))"

definition pool_name :: "pool \<Rightarrow> string" where
  "pool_name p = (if pfile p = [] then ''class file'' else pfile p)"

definition errf :: "pool \<Rightarrow> u16 \<Rightarrow> pool_msg \<Rightarrow> class_error" where
  "errf p i msg = PoolError (pool_name p) i msg"

definition pool_at :: "u16 \<Rightarrow> tag \<Rightarrow> pool \<Rightarrow> class_error + pentry" where
  "pool_at i want p =
     (if i = 0 then Inl (errf p i IndexZero)
      else if unat i \<ge> length (pentries p) then
        Inl (errf p i (OutOfRange (int (length (pentries p)) - 1)))
      else let e = pentries p ! unat i in
        if etag e = 0 then Inl (errf p i UnusableSlot)
        else if want \<noteq> 0 \<and> etag e \<noteq> want then Inl (errf p i (WrongTag (etag e) want))
        else Inr e)"

text \<open>\<open>slice lo hi b\<close> is \<^verbatim>\<open>b[lo:hi]\<close>.\<close>

definition slice :: "nat \<Rightarrow> nat \<Rightarrow> 'a list \<Rightarrow> 'a list" where
  "slice lo hi b = drop lo (take hi b)"

definition pool_UTF8 :: "u16 \<Rightarrow> string pool_op" where
  "pool_UTF8 i p = (case pool_at i TagUtf8 p of
     Inl e \<Rightarrow> (Inl e, p)
   | Inr e \<Rightarrow>
       if pstrOK p ! unat i then (Inr (pstrs p ! unat i), p)
       else case Decode (slice (unat (ea e)) (unat (ea e + eb e)) (psrc p)) of
         Inl err \<Rightarrow> (Inl (errf p i (BadMutf8 err)), p)
       | Inr s \<Rightarrow> (Inr s, p\<lparr>pstrs := (pstrs p)[unat i := s], pstrOK := (pstrOK p)[unat i := True]\<rparr>))"

definition pool_Class :: "u16 \<Rightarrow> string pool_op" where
  "pool_Class i = sbind (slift (pool_at i TagClass)) (\<lambda>e. pool_UTF8 (ucast (ea e)))"

definition pool_Module :: "u16 \<Rightarrow> string pool_op" where
  "pool_Module i = sbind (slift (pool_at i TagModule)) (\<lambda>e. pool_UTF8 (ucast (ea e)))"

definition pool_Package :: "u16 \<Rightarrow> string pool_op" where
  "pool_Package i = sbind (slift (pool_at i TagPackage)) (\<lambda>e. pool_UTF8 (ucast (ea e)))"

definition pool_NameAndType :: "u16 \<Rightarrow> (string \<times> string) pool_op" where
  "pool_NameAndType i =
     sbind (slift (pool_at i TagNameAndType)) (\<lambda>e.
     sbind (pool_UTF8 (ucast (ea e))) (\<lambda>name.
     sbind (pool_UTF8 (ucast (eb e))) (\<lambda>descriptor. sret (name, descriptor))))"

definition ref_IsInterface :: "ref \<Rightarrow> bool" where
  "ref_IsInterface r \<longleftrightarrow> refTag r = TagInterfaceMethodref"

definition pool_Ref :: "u16 \<Rightarrow> ref pool_op" where
  "pool_Ref i =
     sbind (slift (pool_at i 0)) (\<lambda>e.
     if etag e \<notin> {TagFieldref, TagMethodref, TagInterfaceMethodref}
     then slift (\<lambda>p. Inl (errf p i (NotRef (etag e))))
     else
       sbind (pool_Class (ucast (ea e))) (\<lambda>class.
       sbind (pool_NameAndType (ucast (eb e))) (\<lambda>(name, descriptor).
         sret \<lparr>refTag = etag e, refClass = class, refName = name, refDesc = descriptor\<rparr>)))"

definition pool_FieldRef :: "u16 \<Rightarrow> ref pool_op" where
  "pool_FieldRef i = sbind (pool_Ref i) (\<lambda>r.
     if refTag r \<noteq> TagFieldref then slift (\<lambda>p. Inl (errf p i (NotFieldref (refTag r)))) else sret r)"

definition pool_MethodRef :: "u16 \<Rightarrow> ref pool_op" where
  "pool_MethodRef i = sbind (pool_Ref i) (\<lambda>r.
     if refTag r = TagFieldref then slift (\<lambda>p. Inl (errf p i NotMethodref)) else sret r)"

text \<open>The reference form each method handle kind demands; \<open>None\<close> when the form is right.\<close>

definition handle_form_error :: "u8 \<Rightarrow> ref \<Rightarrow> version \<Rightarrow> pool_msg option" where
  "handle_form_error kind r v =
     (if kind \<in> {RefGetField, RefGetStatic, RefPutField, RefPutStatic} then
        (if refTag r \<noteq> TagFieldref then Some (KindNeedsField kind (refTag r)) else None)
      else if kind \<in> {RefInvokeVirtual, RefNewInvokeSpecial} then
        (if refTag r \<noteq> TagMethodref then Some (KindNeedsMethodref kind (refTag r)) else None)
      else if kind \<in> {RefInvokeStatic, RefInvokeSpecial} then
        (if refTag r = TagMethodref then None
         else if refTag r = TagInterfaceMethodref then
           (if \<not> AtLeast v Java8 then Some (KindNeedsJava8 kind v) else None)
         else Some (KindNeedsMethod kind (refTag r)))
      else if kind = RefInvokeInterface then
        (if refTag r \<noteq> TagInterfaceMethodref then Some (KindNeedsInterface (refTag r)) else None)
      else None)"

text \<open>The name constraints, orthogonal to the form.\<close>

definition handle_name_error :: "u8 \<Rightarrow> ref \<Rightarrow> pool_msg option" where
  "handle_name_error kind r =
     (if kind = RefNewInvokeSpecial then
        (if refName r \<noteq> ''<init>'' then Some (KindNeedsInit (refName r)) else None)
      else if kind \<ge> RefInvokeVirtual then
        (if refName r = ''<init>'' \<or> refName r = ''<clinit>''
         then Some (KindForbidsName kind (refName r)) else None)
      else None)"

definition pool_Handle :: "u16 \<Rightarrow> version \<Rightarrow> handle pool_op" where
  "pool_Handle i v =
     sbind (slift (pool_at i TagMethodHandle)) (\<lambda>e.
     let kind = ucast (ea e) :: u8 in
     if kind < RefGetField \<or> kind > RefInvokeInterface then slift (\<lambda>p. Inl (errf p i (BadRefKind kind)))
     else
       sbind (pool_Ref (ucast (eb e))) (\<lambda>r.
       case handle_form_error kind r v of
         Some msg \<Rightarrow> slift (\<lambda>p. Inl (errf p i msg))
       | None \<Rightarrow> (case handle_name_error kind r of
           Some msg \<Rightarrow> slift (\<lambda>p. Inl (errf p i msg))
         | None \<Rightarrow> sret \<lparr>hKind = kind, hRef = r\<rparr>)))"

definition pool_MethodType :: "u16 \<Rightarrow> string pool_op" where
  "pool_MethodType i = sbind (slift (pool_at i TagMethodType)) (\<lambda>e. pool_UTF8 (ucast (ea e)))"

definition pool_Dynamic :: "u16 \<Rightarrow> dynamic pool_op" where
  "pool_Dynamic i =
     sbind (slift (pool_at i 0)) (\<lambda>e.
     if etag e \<noteq> TagDynamic \<and> etag e \<noteq> TagInvokeDynamic
     then slift (\<lambda>p. Inl (errf p i (NotDynamic (etag e))))
     else
       sbind (pool_NameAndType (ucast (eb e))) (\<lambda>(name, descriptor).
         sret \<lparr>dTag = etag e, dBootstrap = ucast (ea e), dName = name, dDesc = descriptor\<rparr>))"

definition pool_Bootstrap :: "dynamic \<Rightarrow> pool \<Rightarrow> class_error + bootstrap_method" where
  "pool_Bootstrap d p =
     (if unat (dBootstrap d) \<ge> length (pbsms p)
      then Inl (BootstrapRange (pool_name p) (dBootstrap d) (length (pbsms p)))
      else Inr (pbsms p ! unat (dBootstrap d)))"

section \<open>Loadable constants\<close>

definition zero_ref :: ref where
  "zero_ref = \<lparr>refTag = 0, refClass = [], refName = [], refDesc = []\<rparr>"

definition zero_const :: "tag \<Rightarrow> const" where
  "zero_const t = \<lparr>cTag = t, cBits = 0, cStr = [], cHandle = \<lparr>hKind = 0, hRef = zero_ref\<rparr>,
     cDyn = \<lparr>dTag = 0, dBootstrap = 0, dName = [], dDesc = []\<rparr>\<rparr>"

definition const_Int :: "const \<Rightarrow> int" where
  "const_Int c = sint (ucast (cBits c) :: u32)"

definition const_Long :: "const \<Rightarrow> int" where
  "const_Long c = sint (cBits c)"

definition const_Wide :: "const \<Rightarrow> bool" where
  "const_Wide c \<longleftrightarrow> cTag c = TagLong \<or> cTag c = TagDouble"

definition pool_Const :: "u16 \<Rightarrow> version \<Rightarrow> const pool_op" where
  "pool_Const i v =
     sbind (slift (pool_at i 0)) (\<lambda>e.
     let c = zero_const (etag e) in
     if etag e \<in> {TagInteger, TagFloat} then sret (c\<lparr>cBits := ucast (ea e)\<rparr>)
     else if etag e \<in> {TagLong, TagDouble} then
       sret (c\<lparr>cBits := push_bit 32 (ucast (ea e)) OR ucast (eb e)\<rparr>)
     else if etag e = TagClass then
       (if \<not> AtLeast v Java5 then slift (\<lambda>p. Inl (errf p i (ClassNotLoadable v)))
        else sbind (pool_Class i) (\<lambda>s. sret (c\<lparr>cStr := s\<rparr>)))
     else if etag e = TagString then sbind (pool_UTF8 (ucast (ea e))) (\<lambda>s. sret (c\<lparr>cStr := s\<rparr>))
     else if etag e = TagMethodHandle then sbind (pool_Handle i v) (\<lambda>h. sret (c\<lparr>cHandle := h\<rparr>))
     else if etag e = TagMethodType then sbind (pool_MethodType i) (\<lambda>s. sret (c\<lparr>cStr := s\<rparr>))
     else if etag e = TagDynamic then sbind (pool_Dynamic i) (\<lambda>d. sret (c\<lparr>cDyn := d\<rparr>))
     else slift (\<lambda>p. Inl (errf p i (NotLoadable (etag e)))))"

section \<open>Reading the table\<close>

text \<open>The first byte that may not occur in a \<open>Utf8\<close> constant, with its position.\<close>

fun find_bad :: "nat \<Rightarrow> bytes \<Rightarrow> (nat \<times> u8) option" where
  "find_bad j [] = None"
| "find_bad j (c # cs) = (if c = 0 \<or> c \<ge> 0xF0 then Some (j, c) else find_bad (j + 1) cs)"

text \<open>The operands of one entry; \<^const>\<open>None\<close> where \<open>readPool\<close> returns early.\<close>

definition read_entry :: "tag \<Rightarrow> reader \<Rightarrow> pentry option \<times> reader" where
  "read_entry tag r =
     (if tag = TagUtf8 then
        (case r_u2 r of (n, r1) \<Rightarrow>
         let off = roff r1 in
         case r_bytes (uint n) r1 of (b, r2) \<Rightarrow>
         case find_bad 0 b of
           Some (j, c) \<Rightarrow> (None, r_fail (BadUtf8Byte c) (r2\<lparr>roff := off + j\<rparr>))
         | None \<Rightarrow> (Some \<lparr>etag = tag, ea = word_of_nat off, eb = ucast n\<rparr>, r2))
      else if tag \<in> {TagInteger, TagFloat} then
        (case r_u4 r of (a, r1) \<Rightarrow> (Some \<lparr>etag = tag, ea = a, eb = 0\<rparr>, r1))
      else if tag \<in> {TagLong, TagDouble} then
        (case r_u4 r of (a, r1) \<Rightarrow> case r_u4 r1 of (b, r2) \<Rightarrow> (Some \<lparr>etag = tag, ea = a, eb = b\<rparr>, r2))
      else if tag \<in> {TagClass, TagString, TagMethodType, TagModule, TagPackage} then
        (case r_u2 r of (a, r1) \<Rightarrow> (Some \<lparr>etag = tag, ea = ucast a, eb = 0\<rparr>, r1))
      else if tag \<in> {TagFieldref, TagMethodref, TagInterfaceMethodref,
          TagNameAndType, TagDynamic, TagInvokeDynamic} then
        (case r_u2 r of (a, r1) \<Rightarrow> case r_u2 r1 of (b, r2) \<Rightarrow>
           (Some \<lparr>etag = tag, ea = ucast a, eb = ucast b\<rparr>, r2))
      else if tag = TagMethodHandle then
        (case r_u1 r of (a, r1) \<Rightarrow> case r_u2 r1 of (b, r2) \<Rightarrow>
           (Some \<lparr>etag = tag, ea = ucast a, eb = ucast b\<rparr>, r2))
      else (Some \<lparr>etag = tag, ea = 0, eb = 0\<rparr>, r))"

text \<open>The loop. The index is a \<open>uint16\<close> in the source; it stays below the count, which is one
  too, so it never wraps.\<close>

function readPool_loop :: "version \<Rightarrow> nat \<Rightarrow> nat \<Rightarrow> pentry list \<Rightarrow> reader \<Rightarrow> pentry list \<times> reader" where
  "readPool_loop v count i es r =
     (if i \<ge> count then (es, r)
      else if r_done r then (es, r)
      else
        let tagOff = roff r in
        case r_u1 r of (tag, r1) \<Rightarrow>
        case tagSince tag of
          None \<Rightarrow> (es, r_fail (UnknownTag tag (word_of_nat i)) (r1\<lparr>roff := tagOff\<rparr>))
        | Some since \<Rightarrow>
            if vMajor v < since
            then (es, r_fail (TagTooNew tag (word_of_nat i) since v) (r1\<lparr>roff := tagOff\<rparr>))
            else case read_entry tag r1 of
              (None, r2) \<Rightarrow> (es, r2)
            | (Some e, r2) \<Rightarrow>
                let es' = es[i := e] in
                if tag = TagLong \<or> tag = TagDouble then
                  (if i + 1 \<ge> count then (es', r_fail (WidePastEnd tag (word_of_nat i)) r2)
                   else readPool_loop v count (i + 2) es' r2)
                else readPool_loop v count (i + 1) es' r2)"
  by pat_completeness auto
termination
  by (relation "measure (\<lambda>(v, count, i, es, r). count - i)") auto

declare readPool_loop.simps [simp del]

definition readPool :: "version \<Rightarrow> reader \<Rightarrow> pool option \<times> reader" where
  "readPool v r = (case r_u2 r of (count, r1) \<Rightarrow>
     if count = 0 then (None, r_fail PoolCountZero r1)
     else
       let n = unat count in
       case readPool_loop v n 1 (replicate n zero_entry) r1 of (es, r2) \<Rightarrow>
         (Some \<lparr>pentries = es, psrc = rb r1, pstrs = replicate n [], pstrOK = replicate n False,
                pbsms = [], pfile = rfile r1\<rparr>, r2))"

section \<open>The memo is transparent\<close>

definition entry_bytes :: "pool \<Rightarrow> nat \<Rightarrow> bytes" where
  "entry_bytes p k =
     slice (unat (ea (pentries p ! k))) (unat (ea (pentries p ! k) + eb (pentries p ! k))) (psrc p)"

text \<open>The memo arrays run parallel to the entries and hold only true decodings.\<close>

definition pool_inv :: "pool \<Rightarrow> bool" where
  "pool_inv p \<longleftrightarrow>
     length (pstrs p) = length (pentries p) \<and> length (pstrOK p) = length (pentries p) \<and>
     (\<forall>k < length (pentries p). pstrOK p ! k \<longrightarrow> Decode (entry_bytes p k) = Inr (pstrs p ! k))"

definition same_pool :: "pool \<Rightarrow> pool \<Rightarrow> bool" where
  "same_pool p q \<longleftrightarrow>
     pentries p = pentries q \<and> psrc p = psrc q \<and> pbsms p = pbsms q \<and> pfile p = pfile q"

text \<open>An accessor keeps the pool apart from its memo, and its answer does not depend on the memo.\<close>

locale pool_accessor =
  fixes acc :: "'a pool_op"
  assumes keeps: "pool_inv p \<Longrightarrow> acc p = (x, p') \<Longrightarrow> pool_inv p' \<and> same_pool p p'"
    and stable: "pool_inv p \<Longrightarrow> pool_inv q \<Longrightarrow> same_pool p q \<Longrightarrow> fst (acc p) = fst (acc q)"
begin

lemma repeatable: "pool_inv p \<Longrightarrow> acc p = (x, p') \<Longrightarrow> fst (acc p') = x"
  using keeps stable by fastforce

end

lemma same_pool_sym: "same_pool p q \<Longrightarrow> same_pool q p"
  and same_pool_refl [simp]: "same_pool p p"
  and same_pool_trans: "same_pool p q \<Longrightarrow> same_pool q s \<Longrightarrow> same_pool p s"
  by (simp_all add: same_pool_def)

lemma same_pool_at: "same_pool p q \<Longrightarrow> pool_at i w p = pool_at i w q"
  by (simp add: pool_at_def errf_def pool_name_def same_pool_def Let_def)

lemma same_pool_errf: "same_pool p q \<Longrightarrow> errf p i m = errf q i m"
  by (simp add: errf_def pool_name_def same_pool_def)

lemma accessor_lift: "(\<And>p q. same_pool p q \<Longrightarrow> f p = f q) \<Longrightarrow> pool_accessor (slift f)"
  by unfold_locales auto

lemma accessor_ret: "pool_accessor (sret x)"
  by unfold_locales auto

lemma accessor_errf: "pool_accessor (slift (\<lambda>p. Inl (errf p i m)))"
  by (rule accessor_lift) (simp add: same_pool_errf)

lemma accessor_at: "pool_accessor (slift (pool_at i w))"
  by (rule accessor_lift) (rule same_pool_at)

lemma accessor_bind:
  assumes m: "pool_accessor m" and f: "\<And>x. pool_accessor (f x)"
  shows "pool_accessor (sbind m f)"
proof
  fix p x p'
  assume p: "pool_inv p" and eq: "sbind m f p = (x, p')"
  obtain y p1 where 1: "m p = (y, p1)" by fastforce
  note k = pool_accessor.keeps [OF m p 1]
  show "pool_inv p' \<and> same_pool p p'"
  proof (cases y)
    case (Inr z)
    with eq 1 have "f z p1 = (x, p')" by simp
    with k pool_accessor.keeps [OF f] show ?thesis by (meson same_pool_trans)
  qed (use eq 1 k in auto)
next
  fix p q
  assume pq: "pool_inv p" "pool_inv q" "same_pool p q"
  obtain y p1 where 1: "m p = (y, p1)" by fastforce
  obtain z q1 where 2: "m q = (z, q1)" by fastforce
  have "y = z" using pool_accessor.stable [OF m pq] 1 2 by simp
  moreover have "pool_inv p1" "pool_inv q1" "same_pool p1 q1"
    using pool_accessor.keeps [OF m pq(1) 1] pool_accessor.keeps [OF m pq(2) 2] pq(3)
    by (simp_all add: same_pool_def)
  ultimately show "fst (sbind m f p) = fst (sbind m f q)"
    using 1 2 pool_accessor.stable [OF f, of p1 q1] by (cases z) simp_all
qed

lemma pool_at_Inr:
  "pool_at i w p = Inr e \<longleftrightarrow> i \<noteq> 0 \<and> unat i < length (pentries p) \<and> e = pentries p ! unat i \<and>
     etag e \<noteq> 0 \<and> (w \<noteq> 0 \<longrightarrow> etag e = w)"
  by (auto simp: pool_at_def Let_def)

text \<open>\<open>UTF8\<close> without its memo.\<close>

definition utf8_plain :: "u16 \<Rightarrow> pool \<Rightarrow> class_error + string" where
  "utf8_plain i p = rbind (pool_at i TagUtf8 p) (\<lambda>e.
     case Decode (entry_bytes p (unat i)) of
       Inl err \<Rightarrow> Inl (errf p i (BadMutf8 err)) | Inr s \<Rightarrow> Inr s)"

lemma pool_UTF8_plain: "pool_inv p \<Longrightarrow> fst (pool_UTF8 i p) = utf8_plain i p"
proof (cases "pool_at i TagUtf8 p")
  case (Inr e)
  then show "pool_inv p \<Longrightarrow> ?thesis" using pool_at_Inr [THEN iffD1, OF Inr]
    by (auto simp: pool_UTF8_def utf8_plain_def pool_inv_def entry_bytes_def split: sum.splits)
qed (simp add: pool_UTF8_def utf8_plain_def)

lemma pool_UTF8_keeps:
  assumes "pool_inv p" and "pool_UTF8 i p = (x, p')"
  shows "pool_inv p' \<and> same_pool p p'"
proof (cases "\<exists>e s. pool_at i TagUtf8 p = Inr e \<and> \<not> pstrOK p ! unat i \<and> Decode (entry_bytes p (unat i)) = Inr s")
  case True
  then obtain e s where e: "pool_at i TagUtf8 p = Inr e" and d: "Decode (entry_bytes p (unat i)) = Inr s"
    and n: "\<not> pstrOK p ! unat i" by blast
  then have "p' = p\<lparr>pstrs := (pstrs p)[unat i := s], pstrOK := (pstrOK p)[unat i := True]\<rparr>"
    using assms(2) pool_at_Inr [THEN iffD1, OF e] by (simp add: pool_UTF8_def e entry_bytes_def)
  then show ?thesis using assms(1) d pool_at_Inr [THEN iffD1, OF e]
    by (auto simp: pool_inv_def same_pool_def entry_bytes_def nth_list_update)
next
  case False
  then have "p' = p" using assms(2)
    by (auto simp: pool_UTF8_def pool_at_Inr entry_bytes_def split: sum.splits if_splits)
  with assms(1) show ?thesis by simp
qed

interpretation utf8: pool_accessor "pool_UTF8 i"
proof
  fix p q
  assume "pool_inv p" "pool_inv q" "same_pool p q"
  moreover from this have "entry_bytes p k = entry_bytes q k" for k
    by (simp add: entry_bytes_def same_pool_def)
  ultimately show "fst (pool_UTF8 i p) = fst (pool_UTF8 i q)"
    by (auto simp: pool_UTF8_plain utf8_plain_def rbind_def same_pool_at [of p q] same_pool_errf [of p q]
        split: sum.splits)
qed (rule pool_UTF8_keeps)

lemmas accessor_intros = accessor_bind accessor_at accessor_ret accessor_errf utf8.pool_accessor_axioms

interpretation class_name: pool_accessor "pool_Class i"
  unfolding pool_Class_def by (intro accessor_intros)

interpretation name_and_type: pool_accessor "pool_NameAndType i"
  unfolding pool_NameAndType_def by (intro accessor_intros)

interpretation member_ref: pool_accessor "pool_Ref i"
  unfolding pool_Ref_def
  by (intro accessor_intros) (auto intro!: accessor_intros class_name.pool_accessor_axioms
      name_and_type.pool_accessor_axioms split: prod.splits)

interpretation mod_name: pool_accessor "pool_Module i"
  unfolding pool_Module_def by (intro accessor_intros)

interpretation pkg_name: pool_accessor "pool_Package i"
  unfolding pool_Package_def by (intro accessor_intros)

interpretation field_ref: pool_accessor "pool_FieldRef i"
  unfolding pool_FieldRef_def
  by (intro accessor_bind) (auto intro!: accessor_intros member_ref.pool_accessor_axioms)

interpretation method_ref: pool_accessor "pool_MethodRef i"
  unfolding pool_MethodRef_def
  by (intro accessor_bind) (auto intro!: accessor_intros member_ref.pool_accessor_axioms)

interpretation handle: pool_accessor "pool_Handle i v"
  unfolding pool_Handle_def Let_def
  by (intro accessor_intros) (auto intro!: accessor_intros member_ref.pool_accessor_axioms
      split: option.splits)

interpretation method_type: pool_accessor "pool_MethodType i"
  unfolding pool_MethodType_def by (intro accessor_intros)

interpretation dynamic: pool_accessor "pool_Dynamic i"
  unfolding pool_Dynamic_def
  by (intro accessor_intros) (auto intro!: accessor_intros name_and_type.pool_accessor_axioms
      split: prod.splits)

interpretation loadable: pool_accessor "pool_Const i v"
  unfolding pool_Const_def Let_def
  by (intro accessor_intros) (auto intro!: accessor_intros class_name.pool_accessor_axioms
      handle.pool_accessor_axioms method_type.pool_accessor_axioms dynamic.pool_accessor_axioms)

section \<open>What readPool returns\<close>

text \<open>An entry is an unusable slot or has a tag the file's version defines; a \<open>Utf8\<close> entry lies
  inside the class file and holds permitted bytes only.\<close>

definition entry_ok :: "version \<Rightarrow> bytes \<Rightarrow> pentry \<Rightarrow> bool" where
  "entry_ok v src e \<longleftrightarrow> etag e = 0 \<or>
     ((\<exists>since. tagSince (etag e) = Some since \<and> since \<le> vMajor v) \<and>
      (etag e = TagUtf8 \<longrightarrow> unat (ea e) + unat (eb e) \<le> length src \<and>
         list_all permitted (slice (unat (ea e)) (unat (ea e + eb e)) src)))"

text \<open>An empty slot below \<open>n\<close>, other than slot 0, is the second half of an 8-byte constant.\<close>

definition gaps_ok :: "nat \<Rightarrow> pentry list \<Rightarrow> bool" where
  "gaps_ok n es \<longleftrightarrow> (\<forall>k. 0 < k \<and> k < n \<and> etag (es ! k) = 0 \<longrightarrow> etag (es ! (k - 1)) \<in> {TagLong, TagDouble})"

lemma find_bad_None: "find_bad j b = None \<Longrightarrow> list_all permitted b"
  by (induction b arbitrary: j) (auto split: if_splits)

lemma find_bad_Some: "find_bad j b = Some (k, c) \<Longrightarrow> j \<le> k \<and> k < j + length b"
  by (induction b arbitrary: j) (fastforce split: if_splits)+

lemmas moves_reads = u1.moves_op u2.moves_op u4.moves_op byte_array.moves_op

lemma r_bytes_length:
  assumes "r_bytes n r = (b, r')"
  shows "roff r + length b \<le> length (rb r) \<or> b = []"
  using assms by (cases rule: r_short_cases [of "nat n" "''byte array''" r])
    (auto simp: r_bytes_def split: if_splits)

lemma read_entry_moves:
  assumes "read_entry t r = (x, r')"
  shows "moves r r'"
proof (cases "t = TagUtf8")
  case True
  obtain n r1 where 1: "r_u2 r = (n, r1)" by fastforce
  obtain b r2 where 2: "r_bytes (uint n) r1 = (b, r2)" by fastforce
  have m: "moves r r1" "moves r1 r2" using 1 2 by (auto intro: moves_reads)
  show ?thesis
  proof (cases "find_bad 0 b")
    case None
    then have "r' = r2" using assms True 1 2 by (simp add: read_entry_def)
    then show ?thesis using m moves_trans by blast
  next
    case (Some jc)
    obtain j c where jc: "jc = (j, c)" by fastforce
    have "j < length b" using find_bad_Some Some jc by fastforce
    then have "roff r1 + j \<le> length (rb r1)" using r_bytes_length [OF 2] by auto
    then have "moves r1 (r2\<lparr>roff := roff r1 + j\<rparr>)" using m(2) by (auto simp: moves_def)
    moreover have "r' = r_fail (BadUtf8Byte c) (r2\<lparr>roff := roff r1 + j\<rparr>)"
      using assms True 1 2 Some jc by (simp add: read_entry_def Let_def)
    ultimately show ?thesis using m moves_trans moves_fail by metis
  qed
next
  case False
  then show ?thesis using assms
    by (auto simp: read_entry_def split: prod.splits if_splits
        intro: moves_reads moves_trans [OF u4.moves_op u4.moves_op] moves_trans [OF u2.moves_op u2.moves_op]
          moves_trans [OF u1.moves_op u2.moves_op])
qed

lemma read_entry_tag: "read_entry t r = (Some e, r') \<Longrightarrow> etag e = t"
  by (auto simp: read_entry_def Let_def split: prod.splits if_splits option.splits)

lemma r_bytes_ok:
  assumes "r_bytes (int n) r = (b, r')" and "rerr r' = None"
  shows "roff r + n \<le> length (rb r) \<and> b = take n (drop (roff r) (rb r)) \<and> r' = advance n r \<and> rerr r = None"
  using assms by (cases rule: r_short_cases [of n "''byte array''" r])
    (auto simp: r_bytes_def advance_def)

lemma read_entry_utf8:
  assumes "read_entry TagUtf8 r = (Some e, r')" and "rerr r' = None" and "length (rb r) < 2 ^ 32"
    and "roff r \<le> length (rb r)"
  shows "unat (ea e) + unat (eb e) \<le> length (rb r) \<and>
    list_all permitted (slice (unat (ea e)) (unat (ea e + eb e)) (rb r))"
proof -
  obtain n r1 where 1: "r_u2 r = (n, r1)" by fastforce
  obtain b where 2: "r_bytes (int (unat n)) r1 = (b, r')" and "find_bad 0 b = None"
    and e: "e = \<lparr>etag = TagUtf8, ea = word_of_nat (roff r1), eb = ucast n\<rparr>"
    using assms(1) 1 by (auto simp: read_entry_def Let_def split: prod.splits option.splits)
  note b = r_bytes_ok [OF 2 assms(2)] and perm = find_bad_None [OF \<open>find_bad 0 b = None\<close>]
  have rb: "rb r1 = rb r" using u2.frame [OF 1] by simp
  have le: "roff r1 + unat n < 2 ^ 32" using b rb assms(3) by simp
  have u: "unat (ea e) = roff r1" "unat (eb e) = unat n"
    using le by (simp_all add: e unsigned_of_nat take_bit_nat_eq_self unsigned_ucast_eq)
  then have "unat (ea e + eb e) = roff r1 + unat n"
    using le by (simp add: unat_word_ariths)
  with u b rb perm show ?thesis by (simp add: slice_def drop_take)
qed

lemma r_fail_err: "\<exists>y. rerr (r_fail m r) = Some y"
  by (simp add: r_fail_def)

text \<open>One turn of the loop: it stops with an error, or stores one entry and goes on.\<close>

lemma readPool_loop_step:
  assumes "i < count" and "\<not> r_done r"
  obtains (stop) es1 r1 where "readPool_loop v count i es r = (es1, r1)" and "rerr r1 \<noteq> None" and "moves r r1"
  | (one) t since e r1 r2 where "r_u1 r = (t, r1)" and "tagSince t = Some since" and "since \<le> vMajor v"
      and "read_entry t r1 = (Some e, r2)" and "t \<notin> {TagLong, TagDouble}"
      and "readPool_loop v count i es r = readPool_loop v count (i + 1) (es[i := e]) r2"
  | (two) t since e r1 r2 where "r_u1 r = (t, r1)" and "tagSince t = Some since" and "since \<le> vMajor v"
      and "read_entry t r1 = (Some e, r2)" and "t \<in> {TagLong, TagDouble}" and "i + 1 < count"
      and "readPool_loop v count i es r = readPool_loop v count (i + 2) (es[i := e]) r2"
proof -
  obtain t r1 where 1: "r_u1 r = (t, r1)" by fastforce
  have m: "moves r r1" using 1 by (rule u1.moves_op)
  have bk: "moves r (r1\<lparr>roff := roff r\<rparr>)" using m by (auto simp: moves_def)
  note st = readPool_loop.simps [of v count i es r]
  consider (u) "tagSince t = None" | (n) since where "tagSince t = Some since" "vMajor v < since"
    | (k) since where "tagSince t = Some since" "since \<le> vMajor v"
    by (cases "tagSince t") (force simp: not_less [symmetric])+
  then show thesis
  proof cases
    case u
    then show thesis using stop st 1 assms moves_trans [OF bk moves_fail]
      by (auto simp: r_fail_err)
  next
    case n
    then show thesis using stop st 1 assms moves_trans [OF bk moves_fail]
      by (auto simp: r_fail_err)
  next
    case k
    obtain eo r2 where 2: "read_entry t r1 = (eo, r2)" by fastforce
    have m2: "moves r r2" using m read_entry_moves [OF 2] by (rule moves_trans)
    have nlt: "(vMajor v < since) = False" using k(2) by (simp add: not_less)
    note loop = st [unfolded Let_def 1 prod.case k(1) option.case nlt if_False 2]
    show thesis
    proof (cases eo)
      case None
      moreover have "rerr r2 \<noteq> None"
        using 2 None by (auto simp: read_entry_def r_fail_err Let_def split: prod.splits if_splits option.splits)
      ultimately show thesis using stop loop assms m2 by auto
    next
      case (Some e)
      then have re: "read_entry t r1 = (Some e, r2)" using 2 by simp
      note loop = loop [unfolded Some prod.case option.case]
      consider "t \<notin> {TagLong, TagDouble}" | "t \<in> {TagLong, TagDouble}" "i + 1 < count"
        | "t \<in> {TagLong, TagDouble}" "count \<le> i + 1" by linarith
      then show thesis
      proof cases
        case 1
        then show thesis using one [OF \<open>r_u1 r = (t, r1)\<close> k(1,2) re] loop assms by simp
      next
        case 2
        then show thesis using two [OF \<open>r_u1 r = (t, r1)\<close> k(1,2) re] loop assms by simp
      next
        case 3
        then show thesis using stop loop assms moves_trans [OF m2 moves_fail] by (auto simp: r_fail_err)
      qed
    qed
  qed
qed

lemma readPool_loop_moves: "readPool_loop v count i es r = (es', r') \<Longrightarrow> moves r r'"
proof (induction "count - i" arbitrary: i es r rule: less_induct)
  case less
  show ?case
  proof (cases "i < count \<and> \<not> r_done r")
    case False
    then have "readPool_loop v count i es r = (es, r)" by (auto simp: readPool_loop.simps [of v count i es r])
    then show ?thesis using less.prems by simp
  next
    case True
    then have "i < count" "\<not> r_done r" by simp_all
    then show ?thesis
    proof (cases rule: readPool_loop_step [of i count r v es])
      case (stop es1 r1)
      then show ?thesis using less.prems by simp
    next
      case (one t since e r1 r2)
      then have "moves r2 r'" using less.hyps [of "i + 1" "es[i := e]" r2] less.prems True by auto
      then show ?thesis using u1.moves_op [OF one(1)] read_entry_moves [OF one(4)] moves_trans by blast
    next
      case (two t since e r1 r2)
      then have "moves r2 r'" using less.hyps [of "i + 2" "es[i := e]" r2] less.prems True by auto
      then show ?thesis using u1.moves_op [OF two(1)] read_entry_moves [OF two(4)] moves_trans by blast
    qed
  qed
qed

lemma gaps_ok_step:
  assumes "gaps_ok i es" and "i < length es" and "etag e \<noteq> 0"
  shows "gaps_ok (i + 1) (es[i := e])"
    and "etag e \<in> {TagLong, TagDouble} \<Longrightarrow> gaps_ok (i + 2) (es[i := e])"
proof -
  have *: "0 < k \<Longrightarrow> k \<le> i \<Longrightarrow> etag (es[i := e] ! k) = 0 \<Longrightarrow> etag (es[i := e] ! (k - 1)) \<in> {TagLong, TagDouble}" for k
    using assms by (cases "k = i") (simp_all add: gaps_ok_def nth_list_update)
  then show "gaps_ok (i + 1) (es[i := e])" unfolding gaps_ok_def by (metis Suc_eq_plus1 less_Suc_eq_le)
  assume "etag e \<in> {TagLong, TagDouble}"
  with * show "gaps_ok (i + 2) (es[i := e])"
    unfolding gaps_ok_def using assms(2)
    by (metis add_2_eq_Suc' diff_Suc_1 le_less_Suc_eq less_Suc_eq_le nth_list_update_eq not_less_eq)
qed

lemma readPool_loop_sound:
  assumes "readPool_loop v count i es r = (es', r')" and "rerr r' = None"
    and "roff r \<le> length (rb r)" and "length (rb r) < 2 ^ 32" and "length es = count" and "1 \<le> i"
    and "\<forall>e \<in> set es. entry_ok v (rb r) e" and "gaps_ok i es"
  shows "length es' = count \<and> (\<forall>e \<in> set es'. entry_ok v (rb r) e) \<and> es' ! 0 = es ! 0 \<and> gaps_ok count es'"
  using assms
proof (induction "count - i" arbitrary: i es r rule: less_induct)
  case less
  show ?case
  proof (cases "i < count")
    case False
    then show ?thesis using less.prems by (auto simp: readPool_loop.simps [of v count i es r] gaps_ok_def)
  next
    case True
    have nd: "\<not> r_done r"
      using readPool_loop_moves [OF less.prems(1)] less.prems(2) by (auto simp: r_done_def moves_def)
    have next_entry: "rb r2 = rb r" "roff r2 \<le> length (rb r2)" "entry_ok v (rb r) e" "etag e = t" "t \<noteq> 0"
      if "r_u1 r = (t, r1)" "tagSince t = Some since" "since \<le> vMajor v" "read_entry t r1 = (Some e, r2)"
        "moves r2 r'" for t r1 since e r2
    proof -
      have m: "moves r r1" "moves r1 r2" using that by (auto intro: u1.moves_op read_entry_moves)
      then have ok: "rb r2 = rb r" "roff r2 \<le> length (rb r2)" "rerr r2 = None" "roff r1 \<le> length (rb r1)" "rb r1 = rb r"
        using less.prems(2,3) that(5) by (auto simp: moves_def)
      then show "rb r2 = rb r" "roff r2 \<le> length (rb r2)" by simp_all
      show t: "etag e = t" using that(4) by (rule read_entry_tag)
      show "t \<noteq> 0" using that(2) by (auto simp: tagSince_def)
      show "entry_ok v (rb r) e"
        using read_entry_utf8 [of r1 e r2] that ok less.prems(4) t by (auto simp: entry_ok_def)
    qed
    have upd: "set (es[i := e]) \<subseteq> insert e (set es)" "es[i := e] ! 0 = es ! 0" for e
      using less.prems(6) by (auto simp: set_update_subset_insert nth_list_update split: if_splits)
    from True nd show ?thesis
    proof (cases rule: readPool_loop_step [of i count r v es])
      case (stop es1 r1)
      then show ?thesis using less.prems by simp
    next
      case (one t since e r1 r2)
      have mv: "moves r2 r'" using readPool_loop_moves [of v count "i + 1" "es[i := e]" r2 es' r'] one(6) less.prems(1) by (simp only:)
      note n = next_entry [OF one(1-4) mv]
      have "gaps_ok (i + 1) (es[i := e])" using gaps_ok_step(1) less.prems(5,8) True n by auto
      then show ?thesis
        using less.hyps [of "i + 1" "es[i := e]" r2] one(6) less.prems n True upd by fastforce
    next
      case (two t since e r1 r2)
      have mv: "moves r2 r'" using readPool_loop_moves [of v count "i + 2" "es[i := e]" r2 es' r'] two(7) less.prems(1) by (simp only:)
      note n = next_entry [OF two(1-4) mv]
      have "gaps_ok (i + 2) (es[i := e])" using gaps_ok_step(2) less.prems(5,8) True n two(5) by auto
      then show ?thesis
        using less.hyps [of "i + 2" "es[i := e]" r2] two(7) less.prems n True upd by fastforce
    qed
  qed
qed

lemma readPool_sound_lemma:
  assumes "readPool v r = (Some p, r')" and "rerr r' = None" and "roff r \<le> length (rb r)"
    and "length (rb r) < 2 ^ 32"
  shows "0 < length (pentries p) \<and> psrc p = rb r \<and> pfile p = rfile r \<and> pool_inv p \<and> pbsms p = [] \<and>
    (\<forall>e \<in> set (pentries p). entry_ok v (psrc p) e) \<and> etag (pentries p ! 0) = 0 \<and>
    gaps_ok (length (pentries p)) (pentries p) \<and> moves r r'"
proof -
  obtain n r1 where 1: "r_u2 r = (n, r1)" by fastforce
  have n: "n \<noteq> 0" using assms(1) 1 by (auto simp: readPool_def)
  then have pos: "0 < unat n" by (simp add: unat_gt_0)
  obtain es where 2: "readPool_loop v (unat n) 1 (replicate (unat n) zero_entry) r1 = (es, r')"
    and p: "p = \<lparr>pentries = es, psrc = rb r1, pstrs = replicate (unat n) [],
      pstrOK = replicate (unat n) False, pbsms = [], pfile = rfile r1\<rparr>"
    using assms(1) 1 n by (auto simp: readPool_def Let_def split: prod.splits)
  have m: "moves r r1" "moves r1 r'" using u2.moves_op [OF 1] readPool_loop_moves [OF 2] .
  then have r1: "rb r1 = rb r" "rfile r1 = rfile r" "roff r1 \<le> length (rb r1)"
    using assms(3) by (auto simp: moves_def)
  have "\<forall>e \<in> set (replicate (unat n) zero_entry). entry_ok v (rb r1) e"
    by (auto simp: entry_ok_def zero_entry_def)
  moreover have "gaps_ok 1 (replicate (unat n) zero_entry)" by (auto simp: gaps_ok_def)
  ultimately have "length es = unat n \<and> (\<forall>e \<in> set es. entry_ok v (rb r1) e) \<and>
      es ! 0 = replicate (unat n) zero_entry ! 0 \<and> gaps_ok (unat n) es"
    using readPool_loop_sound [OF 2 assms(2)] r1 assms(4) by simp
  then show ?thesis using p pos r1 moves_trans [OF m] by (simp add: zero_entry_def pool_inv_def)
qed

section \<open>Sequences of lookups\<close>

datatype query =
    QUTF8 u16 | QClass u16 | QModule u16 | QPackage u16 | QNameAndType u16 | QRef u16
  | QFieldRef u16 | QMethodRef u16 | QHandle u16 version | QMethodType u16 | QDynamic u16
  | QConst u16 version

text \<open>What one lookup leaves of the pool.\<close>

fun after_query :: "query \<Rightarrow> pool \<Rightarrow> pool" where
  "after_query (QUTF8 i) p = snd (pool_UTF8 i p)"
| "after_query (QClass i) p = snd (pool_Class i p)"
| "after_query (QModule i) p = snd (pool_Module i p)"
| "after_query (QPackage i) p = snd (pool_Package i p)"
| "after_query (QNameAndType i) p = snd (pool_NameAndType i p)"
| "after_query (QRef i) p = snd (pool_Ref i p)"
| "after_query (QFieldRef i) p = snd (pool_FieldRef i p)"
| "after_query (QMethodRef i) p = snd (pool_MethodRef i p)"
| "after_query (QHandle i v) p = snd (pool_Handle i v p)"
| "after_query (QMethodType i) p = snd (pool_MethodType i p)"
| "after_query (QDynamic i) p = snd (pool_Dynamic i p)"
| "after_query (QConst i v) p = snd (pool_Const i v p)"

lemma accessor_snd: "pool_accessor acc \<Longrightarrow> pool_inv p \<Longrightarrow> pool_inv (snd (acc p)) \<and> same_pool p (snd (acc p))"
  by (rule pool_accessor.keeps [of acc p "fst (acc p)"]) simp_all

lemma after_query_keeps: "pool_inv p \<Longrightarrow> pool_inv (after_query q p) \<and> same_pool p (after_query q p)"
  by (cases q)
    (simp_all add: accessor_snd utf8.pool_accessor_axioms class_name.pool_accessor_axioms
      mod_name.pool_accessor_axioms pkg_name.pool_accessor_axioms
      name_and_type.pool_accessor_axioms member_ref.pool_accessor_axioms
      field_ref.pool_accessor_axioms method_ref.pool_accessor_axioms handle.pool_accessor_axioms
      method_type.pool_accessor_axioms dynamic.pool_accessor_axioms loadable.pool_accessor_axioms)

lemma after_queries_keep: "pool_inv p \<Longrightarrow> pool_inv (fold after_query qs p) \<and> same_pool p (fold after_query qs p)"
proof (induction qs arbitrary: p)
  case (Cons q qs)
  then show ?case using after_query_keeps [of p q] Cons.IH [of "after_query q p"]
    by (auto intro: same_pool_trans)
qed simp

text \<open>The nine method handle kinds, and the two checks of a kind against its reference.\<close>

lemma ref_kind_cases:
  assumes "k \<noteq> 0" and "k \<le> RefInvokeInterface"
  shows "k \<in> {1, 2, 3, 4, 5, 6, 7, 8, 9}"
proof -
  have "unat k \<in> {1..9}" using assms by (simp add: word_le_nat_alt Suc_le_eq unat_gt_0)
  then have "unat k \<in> {1, 2, 3, 4, 5, 6, 7, 8, 9}" by auto
  then show ?thesis by (auto simp: word_unat_eq_iff)
qed

lemma pool_Ref_tag:
  "pool_Ref i p = (Inr r, p') \<Longrightarrow> refTag r \<in> {TagFieldref, TagMethodref, TagInterfaceMethodref}"
  by (auto simp: pool_Ref_def sbind_Inr_iff split: if_splits)

lemma pool_Handle_Inr:
  assumes "pool_Handle i v p = (Inr h, p')"
  shows "hKind h \<in> {1, 2, 3, 4, 5, 6, 7, 8, 9} \<and> handle_form_error (hKind h) (hRef h) v = None \<and>
    handle_name_error (hKind h) (hRef h) = None \<and>
    refTag (hRef h) \<in> {TagFieldref, TagMethodref, TagInterfaceMethodref}"
proof -
  from assms obtain j q where "pool_Ref j q = (Inr (hRef h), p')" and "hKind h \<noteq> 0"
    and "hKind h \<le> RefInvokeInterface" and "handle_form_error (hKind h) (hRef h) v = None"
    and "handle_name_error (hKind h) (hRef h) = None"
    unfolding pool_Handle_def Let_def
    by (auto simp: sbind_Inr_iff not_less split: if_splits option.splits)
  then show ?thesis using pool_Ref_tag ref_kind_cases by blast
qed

section \<open>Properties\<close>

text \<open>C22: what \<open>readPool\<close> guarantees of a table it accepts, for any class file below 4 GiB: slot 0
  is the reserved hole and every other unusable slot is the second half of a Long or Double;
  every entry has a tag the file's version defines; every \<open>Utf8\<close> entry lies inside the file and
  holds no forbidden byte; the memo starts consistent; and the cursor ends inside the file
  with nothing of the reader's input changed.\<close>

theorem readPool_sound:
  assumes "readPool v r = (Some p, r')" and "rerr r' = None" and "roff r \<le> length (rb r)"
    and "length (rb r) < 2 ^ 32"
  shows "0 < pool_Len p \<and> pool_Tag p 0 = 0 \<and> pool_inv p \<and>
    (\<forall>i. 0 < i \<and> unat i < pool_Len p \<and> pool_Tag p i = 0 \<longrightarrow> pool_Tag p (i - 1) \<in> {TagLong, TagDouble}) \<and>
    (\<forall>e \<in> set (pentries p). entry_ok v (rb r) e) \<and>
    psrc p = rb r \<and> rb r' = rb r \<and> roff r' \<le> length (rb r)"
proof -
  note s = readPool_sound_lemma [OF assms]
  have "pool_Tag p (i - 1) \<in> {TagLong, TagDouble}"
    if i: "0 < i" "unat i < pool_Len p" "pool_Tag p i = 0" for i
  proof -
    have "unat (i - 1) = unat i - 1" using i(1) by (simp add: unat_minus_one word_gt_0)
    moreover have "0 < unat i" using i(1) by (simp add: unat_gt_0 word_gt_0)
    ultimately show ?thesis using s i(2,3)
      unfolding pool_Len_def pool_Tag_def gaps_ok_def by (auto split: if_splits)
  qed
  then have "\<forall>i. 0 < i \<and> unat i < pool_Len p \<and> pool_Tag p i = 0 \<longrightarrow> pool_Tag p (i - 1) \<in> {TagLong, TagDouble}"
    by blast
  moreover have "0 < pool_Len p" "pool_Tag p 0 = 0" using s by (simp_all add: pool_Len_def pool_Tag_def)
  moreover have "rb r' = rb r" "roff r' \<le> length (rb r)" using s assms(3) by (simp_all add: moves_def)
  moreover have "\<forall>e \<in> set (pentries p). entry_ok v (rb r) e" using s by metis
  ultimately show ?thesis using s by blast
qed

theorem readPool_sound_witness:
  "pool_Tag (the (fst (readPool \<lparr>vMajor = 52, vMinor = 0\<rparr>
     \<lparr>rb = [0, 4, 1, 0, 1, 65, 5, 0, 0, 0, 0, 0, 0, 0, 9], roff = 0, rfile = [], rerr = None\<rparr>))) 2
   \<in> {TagLong, TagDouble}"
proof -
  let ?v = "\<lparr>vMajor = 52, vMinor = 0\<rparr>"
  let ?r = "\<lparr>rb = [0, 4, 1, 0, 1, 65, 5, 0, 0, 0, 0, 0, 0, 0, 9], roff = 0, rfile = [], rerr = None\<rparr>"
  have 1: "readPool ?v ?r = (Some (the (fst (readPool ?v ?r))), snd (readPool ?v ?r))" by code_simp
  have 2: "rerr (snd (readPool ?v ?r)) = None" by code_simp
  have 3: "unat (3 :: u16) < pool_Len (the (fst (readPool ?v ?r)))"
    "pool_Tag (the (fst (readPool ?v ?r))) 3 = 0" by code_simp+
  show ?thesis using readPool_sound [OF 1 2] 3 by force
qed

text \<open>C23: the string memo is invisible: after any sequence of lookups on a pool \<open>readPool\<close>
  returned, each of the twelve accessors answers what it would have answered on the fresh pool,
  errors included.\<close>

theorem lookups_commute:
  assumes "readPool v0 r = (Some p, r')" and "rerr r' = None" and "roff r \<le> length (rb r)"
    and "length (rb r) < 2 ^ 32"
  shows "fst (pool_Const i v (fold after_query qs p)) = fst (pool_Const i v p) \<and>
    fst (pool_Ref i (fold after_query qs p)) = fst (pool_Ref i p) \<and>
    fst (pool_FieldRef i (fold after_query qs p)) = fst (pool_FieldRef i p) \<and>
    fst (pool_MethodRef i (fold after_query qs p)) = fst (pool_MethodRef i p) \<and>
    fst (pool_Handle i v (fold after_query qs p)) = fst (pool_Handle i v p) \<and>
    fst (pool_Dynamic i (fold after_query qs p)) = fst (pool_Dynamic i p) \<and>
    fst (pool_NameAndType i (fold after_query qs p)) = fst (pool_NameAndType i p) \<and>
    fst (pool_Class i (fold after_query qs p)) = fst (pool_Class i p) \<and>
    fst (pool_Module i (fold after_query qs p)) = fst (pool_Module i p) \<and>
    fst (pool_Package i (fold after_query qs p)) = fst (pool_Package i p) \<and>
    fst (pool_MethodType i (fold after_query qs p)) = fst (pool_MethodType i p) \<and>
    fst (pool_UTF8 i (fold after_query qs p)) = fst (pool_UTF8 i p)"
proof -
  have i: "pool_inv p" using readPool_sound_lemma [OF assms] by simp
  note k = after_queries_keep [OF i, of qs]
  then have k': "pool_inv (fold after_query qs p)" "same_pool (fold after_query qs p) p"
    using same_pool_sym by blast+
  show ?thesis
    using loadable.stable [OF k'(1) i k'(2)] member_ref.stable [OF k'(1) i k'(2)]
      field_ref.stable [OF k'(1) i k'(2)] method_ref.stable [OF k'(1) i k'(2)]
      handle.stable [OF k'(1) i k'(2)] dynamic.stable [OF k'(1) i k'(2)]
      name_and_type.stable [OF k'(1) i k'(2)] class_name.stable [OF k'(1) i k'(2)]
      mod_name.stable [OF k'(1) i k'(2)] pkg_name.stable [OF k'(1) i k'(2)]
      method_type.stable [OF k'(1) i k'(2)] utf8.stable [OF k'(1) i k'(2)]
    by blast
qed

text \<open>C24: the rules of a method handle (JVMS 4.4.8). A handle is returned only for a kind in 1..9
  whose reference has the form that kind needs; an interface method behind invokeStatic or
  invokeSpecial needs class file 52; a constructor handle names \<open><init>\<close>, and no other method
  handle names \<open><init>\<close> or \<open><clinit>\<close>.\<close>

theorem Handle_rules:
  assumes "pool_Handle i v p = (Inr h, p')"
  shows "hKind h \<in> {RefGetField .. RefInvokeInterface} \<and>
    (hKind h \<le> RefPutStatic \<longleftrightarrow> refTag (hRef h) = TagFieldref) \<and>
    (hKind h \<in> {RefInvokeVirtual, RefNewInvokeSpecial} \<longrightarrow> refTag (hRef h) = TagMethodref) \<and>
    (hKind h = RefInvokeInterface \<longrightarrow> ref_IsInterface (hRef h)) \<and>
    (ref_IsInterface (hRef h) \<longrightarrow> hKind h = RefInvokeInterface \<or>
       hKind h \<in> {RefInvokeStatic, RefInvokeSpecial} \<and> AtLeast v Java8) \<and>
    (hKind h = RefNewInvokeSpecial \<longrightarrow> refName (hRef h) = ''<init>'') \<and>
    (hKind h \<in> {RefInvokeVirtual, RefInvokeStatic, RefInvokeSpecial, RefInvokeInterface} \<longrightarrow>
       refName (hRef h) \<noteq> ''<init>'' \<and> refName (hRef h) \<noteq> ''<clinit>'')"
proof -
  note h = pool_Handle_Inr [OF assms]
  have "hKind h \<in> {1, 2, 3, 4, 5, 6, 7, 8, 9}" using h by blast
  then show ?thesis using h
    by (elim insertE emptyE;
        simp add: handle_form_error_def handle_name_error_def ref_IsInterface_def split: if_splits)
qed

text \<open>A pool with one \<open>REF_invokeStatic\<close> handle on \<open>A.f()V\<close>.\<close>

definition handle_pool :: pool where
  "handle_pool = \<lparr>pentries = [zero_entry, \<lparr>etag = TagMethodHandle, ea = 6, eb = 2\<rparr>,
       \<lparr>etag = TagMethodref, ea = 3, eb = 4\<rparr>, \<lparr>etag = TagClass, ea = 5, eb = 0\<rparr>,
       \<lparr>etag = TagNameAndType, ea = 6, eb = 7\<rparr>, \<lparr>etag = TagUtf8, ea = 0, eb = 1\<rparr>,
       \<lparr>etag = TagUtf8, ea = 1, eb = 1\<rparr>, \<lparr>etag = TagUtf8, ea = 2, eb = 3\<rparr>],
     psrc = bytes_of_string ''Af()V'', pstrs = replicate 8 [], pstrOK = replicate 8 False,
     pbsms = [], pfile = []\<rparr>"

theorem Handle_rules_witness:
  "\<exists>h. fst (pool_Handle 1 \<lparr>vMajor = 52, vMinor = 0\<rparr> handle_pool) = Inr h \<and> refName (hRef h) \<noteq> ''<init>''"
proof (intro exI conjI)
  let ?h = "\<lparr>hKind = 6, hRef = \<lparr>refTag = TagMethodref, refClass = ''A'', refName = ''f'', refDesc = ''()V''\<rparr>\<rparr>"
  show 1: "fst (pool_Handle 1 \<lparr>vMajor = 52, vMinor = 0\<rparr> handle_pool) = Inr ?h" by code_simp
  show "refName (hRef ?h) \<noteq> ''<init>''"
    using Handle_rules [OF prod_eqI [OF trans [OF 1 fst_conv [symmetric]] snd_conv [symmetric]]] by simp
qed

theorem lookups_commute_witness:
  "fst (pool_UTF8 1 (after_query (QUTF8 1) (the (fst (readPool \<lparr>vMajor = 52, vMinor = 0\<rparr>
     \<lparr>rb = [0, 2, 1, 0, 1, 65], roff = 0, rfile = [], rerr = None\<rparr>))))) = Inr ''A''"
proof -
  let ?v = "\<lparr>vMajor = 52, vMinor = 0\<rparr>"
  let ?r = "\<lparr>rb = [0, 2, 1, 0, 1, 65], roff = 0, rfile = [], rerr = None\<rparr>"
  have 1: "readPool ?v ?r = (Some (the (fst (readPool ?v ?r))), snd (readPool ?v ?r))" by code_simp
  have 2: "rerr (snd (readPool ?v ?r)) = None" by code_simp
  have 3: "fst (pool_UTF8 1 (the (fst (readPool ?v ?r)))) = Inr ''A''" by code_simp
  show ?thesis using lookups_commute [OF 1 2, of 1 ?v "[QUTF8 1]"] 3 by simp
qed

end
