(* ===== verification/PoolBuilder.thy ===== *)
theory PoolBuilder
  imports ConstPool
begin

unbundle bit_operations_syntax

text \<open>
  The writing side of the constant pool: \<^verbatim>\<open>src/classfile/poolbuilder.go\<close>. Every operation interns
  one constant, adding the entries it needs, and returns an index; a full pool or an oversized
  string sets a sticky error. The locale \<open>interner\<close> states the contract once (the table only
  grows, the index denotes the constant, asking again changes nothing) and every operation
  interprets it; the emitted table is shown to be one that \<open>readPool\<close> reads back.
\<close>

section \<open>The builder\<close>

text \<open>\<open>MaxPoolIndex\<close>: the count is a \<open>u2\<close>.\<close>

definition MaxPoolIndex :: nat where
  "MaxPoolIndex = 65534"

datatype build_error =
    TooManyEntries nat
  | Utf8TooLong nat

record poolbuilder =
  slots :: "bytes option list"
  pb_err :: "build_error option"
  utf8_map :: "string \<rightharpoonup> u16"
  class_map :: "string \<rightharpoonup> u16"
  str_map :: "string \<rightharpoonup> u16"
  mt_map :: "string \<rightharpoonup> u16"
  nat_map :: "string \<times> string \<rightharpoonup> u16"
  ref_map :: "string \<times> string \<times> string \<times> string \<rightharpoonup> u16"
  i32_map :: "u32 \<rightharpoonup> u16"
  i64_map :: "u64 \<rightharpoonup> u16"
  f32_map :: "u32 \<rightharpoonup> u16"
  f64_map :: "u64 \<rightharpoonup> u16"

definition newPoolBuilder :: poolbuilder where
  "newPoolBuilder = \<lparr>slots = [None], pb_err = None, utf8_map = Map.empty, class_map = Map.empty,
     str_map = Map.empty, mt_map = Map.empty, nat_map = Map.empty, ref_map = Map.empty,
     i32_map = Map.empty, i64_map = Map.empty, f32_map = Map.empty, f64_map = Map.empty\<rparr>"

type_synonym 'a pb_op = "poolbuilder \<Rightarrow> 'a \<times> poolbuilder"

definition pb_fail :: "build_error \<Rightarrow> u16 pb_op" where
  "pb_fail e p = (0, if pb_err p = None then p\<lparr>pb_err := Some e\<rparr> else p)"

definition pb_add :: "bytes \<Rightarrow> bool \<Rightarrow> u16 pb_op" where
  "pb_add b wide p =
     (if pb_err p \<noteq> None then (0, p)
      else
        let n = length (slots p); need = (if wide then 2 else 1) in
        if n + need - 1 > MaxPoolIndex then pb_fail (TooManyEntries MaxPoolIndex) p
        else (word_of_nat n, p\<lparr>slots := slots p @ [Some b] @ (if wide then [None] else [])\<rparr>))"

definition pb_UTF8 :: "string \<Rightarrow> u16 pb_op" where
  "pb_UTF8 s p = (case utf8_map p s of
     Some i \<Rightarrow> (i, p)
   | None \<Rightarrow>
       if EncodedLen s > 65535 then pb_fail (Utf8TooLong (EncodedLen s)) p
       else
         let enc = Encode s; w = w_raw enc (w_u2 (word_of_nat (length enc)) (w_u1 TagUtf8 [])) in
         case pb_add w False p of (i, q) \<Rightarrow> (i, q\<lparr>utf8_map := (utf8_map q)(s \<mapsto> i)\<rparr>))"

definition addRef1 :: "tag \<Rightarrow> u16 \<Rightarrow> u16 pb_op" where
  "addRef1 tag a = pb_add (w_u2 a (w_u1 tag [])) False"

definition addRef2 :: "tag \<Rightarrow> u16 \<Rightarrow> u16 \<Rightarrow> u16 pb_op" where
  "addRef2 tag a b = pb_add (w_u2 b (w_u2 a (w_u1 tag []))) False"

definition pb_Class :: "string \<Rightarrow> u16 pb_op" where
  "pb_Class internal p = (case class_map p internal of
     Some i \<Rightarrow> (i, p)
   | None \<Rightarrow> (case pb_UTF8 internal p of (n, p1) \<Rightarrow>
       case addRef1 TagClass n p1 of (i, q) \<Rightarrow> (i, q\<lparr>class_map := (class_map q)(internal \<mapsto> i)\<rparr>)))"

definition pb_String :: "string \<Rightarrow> u16 pb_op" where
  "pb_String s p = (case str_map p s of
     Some i \<Rightarrow> (i, p)
   | None \<Rightarrow> (case pb_UTF8 s p of (n, p1) \<Rightarrow>
       case addRef1 TagString n p1 of (i, q) \<Rightarrow> (i, q\<lparr>str_map := (str_map q)(s \<mapsto> i)\<rparr>)))"

definition pb_MethodType :: "string \<Rightarrow> u16 pb_op" where
  "pb_MethodType d p = (case mt_map p d of
     Some i \<Rightarrow> (i, p)
   | None \<Rightarrow> (case pb_UTF8 d p of (n, p1) \<Rightarrow>
       case addRef1 TagMethodType n p1 of (i, q) \<Rightarrow> (i, q\<lparr>mt_map := (mt_map q)(d \<mapsto> i)\<rparr>)))"

definition pb_NameAndType :: "string \<Rightarrow> string \<Rightarrow> u16 pb_op" where
  "pb_NameAndType name d p = (case nat_map p (name, d) of
     Some i \<Rightarrow> (i, p)
   | None \<Rightarrow> (case pb_UTF8 name p of (n, p1) \<Rightarrow> case pb_UTF8 d p1 of (m, p2) \<Rightarrow>
       case addRef2 TagNameAndType n m p2 of (i, q) \<Rightarrow> (i, q\<lparr>nat_map := (nat_map q)((name, d) \<mapsto> i)\<rparr>)))"

text \<open>The key holds the tag as a one-rune string.\<close>

definition memberRef :: "tag \<Rightarrow> string \<Rightarrow> string \<Rightarrow> string \<Rightarrow> u16 pb_op" where
  "memberRef tag owner name d p =
     (let key = (write_rune (uint tag), owner, name, d) in
      case ref_map p key of
        Some i \<Rightarrow> (i, p)
      | None \<Rightarrow> (case pb_Class owner p of (c, p1) \<Rightarrow> case pb_NameAndType name d p1 of (nt, p2) \<Rightarrow>
          case addRef2 tag c nt p2 of (i, q) \<Rightarrow> (i, q\<lparr>ref_map := (ref_map q)(key \<mapsto> i)\<rparr>)))"

definition pb_FieldRef :: "string \<Rightarrow> string \<Rightarrow> string \<Rightarrow> u16 pb_op" where
  "pb_FieldRef = memberRef TagFieldref"

definition pb_MethodRef :: "string \<Rightarrow> string \<Rightarrow> string \<Rightarrow> u16 pb_op" where
  "pb_MethodRef = memberRef TagMethodref"

definition pb_InterfaceMethodRef :: "string \<Rightarrow> string \<Rightarrow> string \<Rightarrow> u16 pb_op" where
  "pb_InterfaceMethodRef = memberRef TagInterfaceMethodref"

text \<open>The numeric constants: an \<open>int32\<close> or \<open>int64\<close> is its two's complement word, a float or double
  its bit pattern, which is the key of the source's map.\<close>

definition pb_Int :: "u32 \<Rightarrow> u16 pb_op" where
  "pb_Int v p = (case i32_map p v of
     Some i \<Rightarrow> (i, p)
   | None \<Rightarrow> (case pb_add (w_u4 v (w_u1 TagInteger [])) False p of (i, q) \<Rightarrow>
       (i, q\<lparr>i32_map := (i32_map q)(v \<mapsto> i)\<rparr>)))"

definition pb_Float :: "u32 \<Rightarrow> u16 pb_op" where
  "pb_Float bits p = (case f32_map p bits of
     Some i \<Rightarrow> (i, p)
   | None \<Rightarrow> (case pb_add (w_u4 bits (w_u1 TagFloat [])) False p of (i, q) \<Rightarrow>
       (i, q\<lparr>f32_map := (f32_map q)(bits \<mapsto> i)\<rparr>)))"

definition pb_Long :: "u64 \<Rightarrow> u16 pb_op" where
  "pb_Long v p = (case i64_map p v of
     Some i \<Rightarrow> (i, p)
   | None \<Rightarrow>
       (case pb_add (w_u4 (ucast v) (w_u4 (ucast (drop_bit 32 v)) (w_u1 TagLong []))) True p of (i, q) \<Rightarrow>
       (i, q\<lparr>i64_map := (i64_map q)(v \<mapsto> i)\<rparr>)))"

definition pb_Double :: "u64 \<Rightarrow> u16 pb_op" where
  "pb_Double bits p = (case f64_map p bits of
     Some i \<Rightarrow> (i, p)
   | None \<Rightarrow>
       (case pb_add (w_u4 (ucast bits) (w_u4 (ucast (drop_bit 32 bits)) (w_u1 TagDouble []))) True p of (i, q) \<Rightarrow>
       (i, q\<lparr>f64_map := (f64_map q)(bits \<mapsto> i)\<rparr>)))"

definition pb_count :: "poolbuilder \<Rightarrow> u16" where
  "pb_count p = word_of_nat (length (slots p))"

fun emit_slots :: "bytes option list \<Rightarrow> bwriter \<Rightarrow> bwriter" where
  "emit_slots [] w = w"
| "emit_slots (None # bs) w = emit_slots bs w"
| "emit_slots (Some b # bs) w = emit_slots bs (w_raw b w)"

definition emit :: "poolbuilder \<Rightarrow> bwriter \<Rightarrow> bwriter" where
  "emit p w = emit_slots (tl (slots p)) (w_u2 (pb_count p) w)"

section \<open>The entries a table holds\<close>

text \<open>The entry shapes the builder writes: a string, one index, two indices, four bytes, eight
  bytes.\<close>

datatype centry =
    CUtf8 string
  | CRef1 tag u16
  | CRef2 tag u16 u16
  | CWord tag u32
  | CWide tag u32 u32

fun cbytes :: "centry \<Rightarrow> bytes" where
  "cbytes (CUtf8 s) = TagUtf8 # be_u2 (word_of_nat (length (Encode s))) @ Encode s"
| "cbytes (CRef1 t a) = t # be_u2 a"
| "cbytes (CRef2 t a b) = t # be_u2 a @ be_u2 b"
| "cbytes (CWord t a) = t # be_u4 a"
| "cbytes (CWide t a b) = t # be_u4 a @ be_u4 b"

fun cwide :: "centry \<Rightarrow> bool" where
  "cwide (CWide t a b) = True"
| "cwide _ = False"

fun centry_ok :: "centry \<Rightarrow> bool" where
  "centry_ok (CUtf8 s) \<longleftrightarrow> EncodedLen s \<le> 65535"
| "centry_ok (CRef1 t a) \<longleftrightarrow> t \<in> {TagClass, TagString, TagMethodType}"
| "centry_ok (CRef2 t a b) \<longleftrightarrow> t \<in> {TagFieldref, TagMethodref, TagInterfaceMethodref, TagNameAndType}"
| "centry_ok (CWord t a) \<longleftrightarrow> t \<in> {TagInteger, TagFloat}"
| "centry_ok (CWide t a b) \<longleftrightarrow> t \<in> {TagLong, TagDouble}"

definition slot_of :: "centry \<Rightarrow> bytes option list" where
  "slot_of c = Some (cbytes c) # (if cwide c then [None] else [])"

definition slots_of :: "centry list \<Rightarrow> bytes option list" where
  "slots_of cs = concat (map slot_of cs)"

lemma slots_of_simps [simp]:
  "slots_of [] = []" "slots_of (c # cs) = slot_of c @ slots_of cs" "slots_of (cs @ ds) = slots_of cs @ slots_of ds"
  by (simp_all add: slots_of_def)

definition table_ok :: "bytes option list \<Rightarrow> bool" where
  "table_ok sl \<longleftrightarrow> (\<exists>cs. sl = None # slots_of cs \<and> list_all centry_ok cs) \<and> length sl \<le> 65535"

definition entry_at :: "bytes option list \<Rightarrow> u16 \<Rightarrow> centry \<Rightarrow> bool" where
  "entry_at sl i c \<longleftrightarrow> i \<noteq> 0 \<and> unat i < length sl \<and> sl ! unat i = Some (cbytes c) \<and> centry_ok c"

text \<open>What an index denotes.\<close>

definition den_utf8 :: "bytes option list \<Rightarrow> u16 \<Rightarrow> string \<Rightarrow> bool" where
  "den_utf8 sl i s \<longleftrightarrow> entry_at sl i (CUtf8 s)"

definition den_ref1 :: "tag \<Rightarrow> bytes option list \<Rightarrow> u16 \<Rightarrow> string \<Rightarrow> bool" where
  "den_ref1 t sl i s \<longleftrightarrow> (\<exists>n. entry_at sl i (CRef1 t n) \<and> den_utf8 sl n s)"

definition den_nat :: "bytes option list \<Rightarrow> u16 \<Rightarrow> string \<times> string \<Rightarrow> bool" where
  "den_nat sl i k \<longleftrightarrow> (\<exists>a b. entry_at sl i (CRef2 TagNameAndType a b) \<and>
     den_utf8 sl a (fst k) \<and> den_utf8 sl b (snd k))"

definition den_member :: "tag \<Rightarrow> bytes option list \<Rightarrow> u16 \<Rightarrow> string \<times> string \<times> string \<Rightarrow> bool" where
  "den_member t sl i k \<longleftrightarrow> (\<exists>c nt. entry_at sl i (CRef2 t c nt) \<and>
     den_ref1 TagClass sl c (fst k) \<and> den_nat sl nt (snd k))"

definition den_word :: "tag \<Rightarrow> bytes option list \<Rightarrow> u16 \<Rightarrow> u32 \<Rightarrow> bool" where
  "den_word t sl i v \<longleftrightarrow> entry_at sl i (CWord t v)"

definition den_wide :: "tag \<Rightarrow> bytes option list \<Rightarrow> u16 \<Rightarrow> u64 \<Rightarrow> bool" where
  "den_wide t sl i v \<longleftrightarrow> entry_at sl i (CWide t (ucast (drop_bit 32 v)) (ucast v))"

lemma entry_at_append: "entry_at sl i c \<Longrightarrow> entry_at (sl @ x) i c"
  by (auto simp: entry_at_def nth_append)

lemma den_append:
  "den_utf8 sl i s \<Longrightarrow> den_utf8 (sl @ x) i s"
  "den_ref1 t sl i s \<Longrightarrow> den_ref1 t (sl @ x) i s"
  "den_nat sl i k \<Longrightarrow> den_nat (sl @ x) i k"
  "den_member t sl i m \<Longrightarrow> den_member t (sl @ x) i m"
  "den_word t sl i v \<Longrightarrow> den_word t (sl @ x) i v"
  "den_wide t sl i w \<Longrightarrow> den_wide t (sl @ x) i w"
  unfolding den_utf8_def den_ref1_def den_nat_def den_member_def den_word_def den_wide_def
  using entry_at_append by blast+

section \<open>The invariant and the contract of an interning operation\<close>

definition map_den :: "('k \<rightharpoonup> u16) \<Rightarrow> (u16 \<Rightarrow> 'k \<Rightarrow> bool) \<Rightarrow> bool" where
  "map_den m D \<longleftrightarrow> (\<forall>k i. m k = Some i \<longrightarrow> D i k)"

definition maps_ok :: "poolbuilder \<Rightarrow> bytes option list \<Rightarrow> bool" where
  "maps_ok p sl \<longleftrightarrow>
     map_den (utf8_map p) (den_utf8 sl) \<and> map_den (class_map p) (den_ref1 TagClass sl) \<and>
     map_den (str_map p) (den_ref1 TagString sl) \<and> map_den (mt_map p) (den_ref1 TagMethodType sl) \<and>
     map_den (nat_map p) (den_nat sl) \<and>
     (\<forall>t \<in> {TagFieldref, TagMethodref, TagInterfaceMethodref}.
        map_den (\<lambda>k. ref_map p (write_rune (uint t), k)) (den_member t sl)) \<and>
     map_den (i32_map p) (den_word TagInteger sl) \<and> map_den (f32_map p) (den_word TagFloat sl) \<and>
     map_den (i64_map p) (den_wide TagLong sl) \<and> map_den (f64_map p) (den_wide TagDouble sl)"

text \<open>While no error is set, the table is well-formed and every interned key denotes its entry.\<close>

definition pb_inv :: "poolbuilder \<Rightarrow> bool" where
  "pb_inv p \<longleftrightarrow> pb_err p = None \<longrightarrow> table_ok (slots p) \<and> maps_ok p (slots p)"

definition maps_le :: "poolbuilder \<Rightarrow> poolbuilder \<Rightarrow> bool" where
  "maps_le p q \<longleftrightarrow> utf8_map p \<subseteq>\<^sub>m utf8_map q \<and> class_map p \<subseteq>\<^sub>m class_map q \<and> str_map p \<subseteq>\<^sub>m str_map q \<and>
     mt_map p \<subseteq>\<^sub>m mt_map q \<and> nat_map p \<subseteq>\<^sub>m nat_map q \<and> ref_map p \<subseteq>\<^sub>m ref_map q \<and>
     i32_map p \<subseteq>\<^sub>m i32_map q \<and> f32_map p \<subseteq>\<^sub>m f32_map q \<and> i64_map p \<subseteq>\<^sub>m i64_map q \<and> f64_map p \<subseteq>\<^sub>m f64_map q"

text \<open>The builder only grows: entries are appended, an error stays, no key is forgotten.\<close>

definition pb_grows :: "poolbuilder \<Rightarrow> poolbuilder \<Rightarrow> bool" where
  "pb_grows p q \<longleftrightarrow> (\<exists>x. slots q = slots p @ x) \<and> (pb_err p \<noteq> None \<longrightarrow> pb_err q = pb_err p) \<and> maps_le p q"

lemma maps_le_refl [simp]: "maps_le p p"
  by (simp add: maps_le_def)

lemma maps_le_trans: "maps_le p q \<Longrightarrow> maps_le q r \<Longrightarrow> maps_le p r"
  unfolding maps_le_def by (elim conjE, intro conjI; rule map_le_trans; assumption)

lemma pb_grows_refl [simp]: "pb_grows p p"
  by (simp add: pb_grows_def)

lemma pb_grows_trans: "pb_grows p q \<Longrightarrow> pb_grows q r \<Longrightarrow> pb_grows p r"
  unfolding pb_grows_def using maps_le_trans by fastforce

lemma map_den_mono: "map_den m D \<Longrightarrow> (\<And>i k. D i k \<Longrightarrow> E i k) \<Longrightarrow> map_den m E"
  by (simp add: map_den_def)

lemma map_den_upd: "map_den m D \<Longrightarrow> D i k \<Longrightarrow> map_den (m(k \<mapsto> i)) D"
  by (auto simp: map_den_def)

lemma map_den_append:
  "map_den m (den_utf8 sl) \<Longrightarrow> map_den m (den_utf8 (sl @ x))"
  "map_den m (den_ref1 t sl) \<Longrightarrow> map_den m (den_ref1 t (sl @ x))"
  "map_den n (den_nat sl) \<Longrightarrow> map_den n (den_nat (sl @ x))"
  "map_den r (den_member t sl) \<Longrightarrow> map_den r (den_member t (sl @ x))"
  "map_den a (den_word t sl) \<Longrightarrow> map_den a (den_word t (sl @ x))"
  "map_den b (den_wide t sl) \<Longrightarrow> map_den b (den_wide t (sl @ x))"
  by (auto intro: map_den_mono den_append)

lemma maps_ok_append: "maps_ok p sl \<Longrightarrow> maps_ok p (sl @ x)"
  unfolding maps_ok_def by (simp add: map_den_append)

locale interner =
  fixes intern :: "'k \<Rightarrow> u16 pb_op" and den :: "bytes option list \<Rightarrow> u16 \<Rightarrow> 'k \<Rightarrow> bool"
  assumes keeps_inv: "intern k p = (i, q) \<Longrightarrow> pb_inv p \<Longrightarrow> pb_inv q"
    and grows: "intern k p = (i, q) \<Longrightarrow> pb_grows p q"
    and denotes: "intern k p = (i, q) \<Longrightarrow> pb_inv p \<Longrightarrow> pb_err q = None \<Longrightarrow> den (slots q) i k"
    and again: "intern k p = (i, q) \<Longrightarrow> pb_grows q q' \<Longrightarrow> pb_err q' = None \<Longrightarrow> intern k q' = (i, q')"
    and den_grows: "den sl i k \<Longrightarrow> den (sl @ x) i k"
begin

text \<open>Whatever is interned afterwards, the index keeps its meaning and asking again returns it.\<close>

lemma stays:
  assumes "intern k p = (i, q)" and "pb_inv p" and "pb_grows q q'" and "pb_err q' = None"
  shows "den (slots q') i k \<and> intern k q' = (i, q')"
proof -
  have "pb_err q = None" using assms(3,4) by (auto simp: pb_grows_def)
  then show ?thesis using denotes [OF assms(1,2)] den_grows again [OF assms(1,3,4)] assms(3)
    by (auto simp: pb_grows_def)
qed

lemma sticky: "intern k p = (i, q) \<Longrightarrow> pb_err p \<noteq> None \<Longrightarrow> pb_err q = pb_err p"
  using grows by (auto simp: pb_grows_def)

end

section \<open>Every operation meets the contract\<close>

text \<open>Adding one entry: refused (an error is already set, or the table is full), or appended.\<close>

lemma pb_add_cases:
  assumes "pb_add b w p = (i, q)"
  obtains (failed) "i = 0" "pb_err p \<noteq> None" "q = p"
  | (full) e where "i = 0" "pb_err p = None" "q = p\<lparr>pb_err := Some e\<rparr>"
  | (added) "pb_err p = None" "length (slots p) + (if w then 2 else 1) \<le> 65535"
      "i = word_of_nat (length (slots p))" "q = p\<lparr>slots := slots p @ [Some b] @ (if w then [None] else [])\<rparr>"
  using assms by (cases "pb_err p")
    (auto simp: pb_add_def pb_fail_def MaxPoolIndex_def Let_def split: if_splits)

lemma pb_add_grows: "pb_add b w p = (i, q) \<Longrightarrow> pb_grows p q"
  by (erule pb_add_cases) (auto simp: pb_grows_def maps_le_def)

lemma pb_add_entry_conj:
  assumes "pb_add (cbytes c) (cwide c) p = (i, q)" and "centry_ok c" and "pb_inv p"
  shows "pb_inv q \<and> (pb_err q = None \<longrightarrow> entry_at (slots q) i c \<and> (\<exists>x. slots q = slots p @ x))"
  using assms(1)
proof (cases rule: pb_add_cases)
  case added
  have t: "table_ok (slots p)" "maps_ok p (slots p)" using assms(3) added(1) by (auto simp: pb_inv_def)
  obtain cs where cs: "slots p = None # slots_of cs" "list_all centry_ok cs" using t by (auto simp: table_ok_def)
  have q: "slots q = slots p @ slot_of c" using added(4) by (simp add: slot_of_def)
  have "slots q = None # slots_of (cs @ [c])" using q cs by simp
  moreover have "length (slots q) \<le> 65535" using q added(2) by (simp add: slot_of_def split: if_splits)
  ultimately have "table_ok (slots q)" using cs(2) assms(2) unfolding table_ok_def
    by (intro conjI exI [of _ "cs @ [c]"]) simp_all
  moreover have "maps_ok q (slots q)" using maps_ok_append [OF t(2), of "slot_of c"] q added(4)
    by (simp add: maps_ok_def)
  ultimately have "pb_inv q" by (simp add: pb_inv_def)
  have "unat i = length (slots p)" using added(2,3) by (simp add: unsigned_of_nat take_bit_nat_eq_self split: if_splits)
  moreover have "i \<noteq> 0" using calculation cs by auto
  ultimately have "entry_at (slots q) i c" using assms(2) q by (simp add: entry_at_def nth_append slot_of_def)
  then show ?thesis using q \<open>pb_inv q\<close> by blast
qed (use assms(3) in \<open>auto simp: pb_inv_def\<close>)

lemmas pb_add_entry = pb_add_entry_conj [THEN conjunct1] pb_add_entry_conj [THEN conjunct2, rule_format]

text \<open>The byte strings the operations build are the entry shapes.\<close>

lemma utf8_bytes:
  "w_raw (Encode s) (w_u2 (word_of_nat (length (Encode s))) (w_u1 TagUtf8 [])) = cbytes (CUtf8 s)"
  by (simp add: w_raw_def w_u2_def w_u1_def)

lemma addRef1_entry: "addRef1 t a = pb_add (cbytes (CRef1 t a)) (cwide (CRef1 t a))"
  by (simp add: addRef1_def w_u2_def w_u1_def)

lemma addRef2_entry: "addRef2 t a b = pb_add (cbytes (CRef2 t a b)) (cwide (CRef2 t a b))"
  by (simp add: addRef2_def w_u2_def w_u1_def)

lemma word_bytes: "w_u4 v (w_u1 t []) = cbytes (CWord t v)"
  by (simp add: w_u4_def w_u1_def)

lemma wide_bytes: "w_u4 b (w_u4 a (w_u1 t [])) = cbytes (CWide t a b)"
  by (simp add: w_u4_def w_u1_def)

lemma table_maps: "pb_inv p \<Longrightarrow> pb_err p = None \<Longrightarrow> maps_ok p (slots p)"
  by (simp add: pb_inv_def)

lemma pb_err_back: "pb_grows p q \<Longrightarrow> pb_err q = None \<Longrightarrow> pb_err p = None"
  by (auto simp: pb_grows_def)

text \<open>The shape all the operations but \<open>UTF8\<close> share: look the key up, else run an action that builds
  the entry, and remember its index under the key.\<close>

locale memoised =
  fixes intern :: "'k \<Rightarrow> u16 pb_op" and den :: "bytes option list \<Rightarrow> u16 \<Rightarrow> 'k \<Rightarrow> bool"
    and look :: "poolbuilder \<Rightarrow> 'k \<Rightarrow> u16 option" and act :: "'k \<Rightarrow> u16 pb_op"
    and put :: "'k \<Rightarrow> u16 \<Rightarrow> poolbuilder \<Rightarrow> poolbuilder"
  assumes intern_eq: "intern k p = (case look p k of Some i \<Rightarrow> (i, p)
      | None \<Rightarrow> (case act k p of (i, q) \<Rightarrow> (i, put k i q)))"
    and act_inv: "act k p = (i, q) \<Longrightarrow> pb_inv p \<Longrightarrow> pb_inv q"
    and act_grows: "act k p = (i, q) \<Longrightarrow> pb_grows p q \<and> look q k = look p k"
    and act_den: "act k p = (i, q) \<Longrightarrow> pb_inv p \<Longrightarrow> pb_err q = None \<Longrightarrow> den (slots q) i k"
    and look_grows: "pb_grows p q \<Longrightarrow> look p k = Some i \<Longrightarrow> look q k = Some i"
    and look_den: "maps_ok p (slots p) \<Longrightarrow> look p k = Some i \<Longrightarrow> den (slots p) i k"
    and put_same: "slots (put k i p) = slots p" "pb_err (put k i p) = pb_err p" "look (put k i p) k = Some i"
    and put_maps: "maps_ok p sl \<Longrightarrow> den sl i k \<Longrightarrow> maps_ok (put k i p) sl"
    and put_grows: "look p k = None \<Longrightarrow> maps_le p (put k i p)"
    and den_append: "den sl i k \<Longrightarrow> den (sl @ x) i k"

sublocale memoised \<subseteq> interner
proof
  fix k p i q
  assume 1: "intern k p = (i, q)"
  consider (hit) "look p k = Some i" "q = p"
    | (miss) q' where "look p k = None" "act k p = (i, q')" "q = put k i q'"
    using 1 by (auto simp: intern_eq split: option.splits prod.splits)
  note c = this
  show g: "pb_grows p q" using c
  proof cases
    case miss
    then have "maps_le q' q" using act_grows [OF miss(2)] put_grows by simp
    then show ?thesis using miss act_grows [OF miss(2)] maps_le_trans by (auto simp: pb_grows_def put_same)
  qed simp
  show "den (slots q) i k" if "pb_inv p" "pb_err q = None" using c
  proof cases
    case hit
    then show ?thesis using that look_den table_maps by blast
  next
    case miss
    then show ?thesis using that act_den [OF miss(2)] by (simp add: put_same)
  qed
  show "pb_inv q" if "pb_inv p" using c
  proof cases
    case miss
    then show ?thesis using that act_inv [OF miss(2)] act_den [OF miss(2)] put_maps
      by (simp add: pb_inv_def put_same)
  qed (use that in simp)
  show "intern k q' = (i, q')" if "pb_grows q q'" for q'
  proof -
    have "look q k = Some i" using c by cases (simp_all add: put_same)
    then show ?thesis using look_grows [OF that] by (simp add: intern_eq)
  qed
qed (rule den_append)

lemma pb_UTF8_cases:
  assumes "pb_UTF8 k p = (i, q)"
  obtains (hit) "utf8_map p k = Some i" "q = p"
  | (long) "utf8_map p k = None" "65535 < EncodedLen k" "i = 0" "pb_fail (Utf8TooLong (EncodedLen k)) p = (0, q)"
  | (miss) q' where "utf8_map p k = None" "EncodedLen k \<le> 65535"
      "pb_add (cbytes (CUtf8 k)) (cwide (CUtf8 k)) p = (i, q')" "q = q'\<lparr>utf8_map := (utf8_map q')(k \<mapsto> i)\<rparr>"
  using assms
  by (auto simp: pb_UTF8_def utf8_bytes Let_def pb_fail_def
      split: option.splits if_splits prod.splits)

lemma pb_add_maps:
  assumes "pb_add b w p = (i, q)"
  shows "utf8_map q = utf8_map p \<and> class_map q = class_map p \<and> str_map q = str_map p \<and> mt_map q = mt_map p \<and>
    nat_map q = nat_map p \<and> ref_map q = ref_map p \<and> i32_map q = i32_map p \<and> f32_map q = f32_map p \<and>
    i64_map q = i64_map p \<and> f64_map q = f64_map p"
  using assms by (cases rule: pb_add_cases) auto

interpretation utf8c: interner pb_UTF8 den_utf8
proof
  fix k p i q
  assume 1: "pb_UTF8 k p = (i, q)"
  show "pb_grows p q" using 1
  proof (cases rule: pb_UTF8_cases)
    case (miss q')
    then show ?thesis using pb_add_grows [OF miss(3)] pb_add_maps [OF miss(3)]
      by (auto simp: pb_grows_def maps_le_def map_le_def)
  qed (auto simp: pb_fail_def pb_grows_def maps_le_def)
  show "pb_inv q" if "pb_inv p" using 1
  proof (cases rule: pb_UTF8_cases)
    case (miss q')
    then show ?thesis using pb_add_entry [OF miss(3) _ that]
      by (auto simp: pb_inv_def maps_ok_def den_utf8_def intro: map_den_upd simp del: cbytes.simps)
  qed (use that in \<open>auto simp: pb_fail_def pb_inv_def\<close>)
  show "den_utf8 (slots q) i k" if "pb_inv p" "pb_err q = None" using 1
  proof (cases rule: pb_UTF8_cases)
    case hit
    then show ?thesis using that by (auto simp: pb_inv_def maps_ok_def map_den_def)
  next
    case (miss q')
    then show ?thesis using pb_add_entry [OF miss(3) _ that(1)] that(2) by (simp add: den_utf8_def)
  qed (use that in \<open>auto simp: pb_fail_def split: if_splits\<close>)
  show "pb_UTF8 k q' = (i, q')" if "pb_grows q q'" "pb_err q' = None" for q'
    using 1
  proof (cases rule: pb_UTF8_cases)
    case long
    then show ?thesis using that by (auto simp: pb_fail_def pb_grows_def split: if_splits)
  qed (use that in \<open>auto simp: pb_UTF8_def pb_grows_def maps_le_def map_le_def dom_def\<close>)
qed (rule PoolBuilder.den_append)

text \<open>Building an entry that refers to other constants.\<close>

definition ref1_act :: "tag \<Rightarrow> string \<Rightarrow> u16 pb_op" where
  "ref1_act t s p = (case pb_UTF8 s p of (n, p1) \<Rightarrow> addRef1 t n p1)"

definition nat_act :: "string \<times> string \<Rightarrow> u16 pb_op" where
  "nat_act k p = (case pb_UTF8 (fst k) p of (n, p1) \<Rightarrow> case pb_UTF8 (snd k) p1 of (m, p2) \<Rightarrow>
     addRef2 TagNameAndType n m p2)"

lemma pb_UTF8_maps:
  assumes "pb_UTF8 k p = (i, q)"
  shows "class_map q = class_map p \<and> str_map q = str_map p \<and> mt_map q = mt_map p \<and>
    nat_map q = nat_map p \<and> ref_map q = ref_map p"
  using assms by (cases rule: pb_UTF8_cases) (auto simp: pb_fail_def dest: pb_add_maps split: if_splits)

lemma ref1_act_spec:
  assumes "ref1_act t s p = (i, q)"
  shows "pb_grows p q"
    and "class_map q = class_map p \<and> str_map q = str_map p \<and> mt_map q = mt_map p \<and>
      nat_map q = nat_map p \<and> ref_map q = ref_map p"
    and "t \<in> {TagClass, TagString, TagMethodType} \<Longrightarrow> pb_inv p \<Longrightarrow> pb_inv q"
    and "t \<in> {TagClass, TagString, TagMethodType} \<Longrightarrow> pb_inv p \<Longrightarrow> pb_err q = None \<Longrightarrow> den_ref1 t (slots q) i s"
proof -
  obtain n p1 where 1: "pb_UTF8 s p = (n, p1)" by fastforce
  have 2: "pb_add (cbytes (CRef1 t n)) (cwide (CRef1 t n)) p1 = (i, q)"
    using assms 1 by (simp only: ref1_act_def addRef1_entry prod.case)
  show "pb_grows p q" using utf8c.grows [OF 1] pb_add_grows [OF 2] by (rule pb_grows_trans)
  show "class_map q = class_map p \<and> str_map q = str_map p \<and> mt_map q = mt_map p \<and>
      nat_map q = nat_map p \<and> ref_map q = ref_map p"
    using pb_UTF8_maps [OF 1] pb_add_maps [OF 2] by simp
  assume t: "t \<in> {TagClass, TagString, TagMethodType}" and p: "pb_inv p"
  have ok: "centry_ok (CRef1 t n)" using t by simp
  note e = pb_add_entry [OF 2 ok utf8c.keeps_inv [OF 1 p]]
  show "pb_inv q" by (rule e(1))
  assume q: "pb_err q = None"
  have "pb_err p1 = None" using pb_add_grows [OF 2] q by (rule pb_err_back)
  then show "den_ref1 t (slots q) i s"
    using utf8c.denotes [OF 1 p] e(2) [OF q] PoolBuilder.den_append(1) unfolding den_ref1_def by metis
qed

lemma nat_act_spec:
  assumes "nat_act k p = (i, q)"
  shows "pb_grows p q" and "class_map q = class_map p \<and> nat_map q = nat_map p \<and> ref_map q = ref_map p"
    and "pb_inv p \<Longrightarrow> pb_inv q"
    and "pb_inv p \<Longrightarrow> pb_err q = None \<Longrightarrow> den_nat (slots q) i k"
proof -
  obtain n p1 where 1: "pb_UTF8 (fst k) p = (n, p1)" by fastforce
  obtain m p2 where 2: "pb_UTF8 (snd k) p1 = (m, p2)" by fastforce
  have 3: "pb_add (cbytes (CRef2 TagNameAndType n m)) (cwide (CRef2 TagNameAndType n m)) p2 = (i, q)"
    using assms 1 2 by (simp only: nat_act_def addRef2_entry prod.case)
  have g: "pb_grows p1 p2" "pb_grows p2 q" using utf8c.grows [OF 2] pb_add_grows [OF 3] .
  then show "pb_grows p q" using utf8c.grows [OF 1] pb_grows_trans by blast
  show "class_map q = class_map p \<and> nat_map q = nat_map p \<and> ref_map q = ref_map p"
    using pb_UTF8_maps [OF 1] pb_UTF8_maps [OF 2] pb_add_maps [OF 3] by simp
  assume p: "pb_inv p"
  have p1: "pb_inv p1" using utf8c.keeps_inv [OF 1 p] .
  have ok: "centry_ok (CRef2 TagNameAndType n m)" by simp
  note e = pb_add_entry [OF 3 ok utf8c.keeps_inv [OF 2 p1]]
  show "pb_inv q" by (rule e(1))
  assume q: "pb_err q = None"
  then have "den_utf8 (slots q) n (fst k)" "den_utf8 (slots q) m (snd k)"
    using utf8c.stays [OF 1 p pb_grows_trans [OF g]] utf8c.stays [OF 2 p1 g(2)] by blast+
  then show "den_nat (slots q) i k" using e(2) [OF q] unfolding den_nat_def by blast
qed

lemma maps_put:
  "maps_ok p sl \<Longrightarrow> den_ref1 TagClass sl i s \<Longrightarrow> maps_ok (p\<lparr>class_map := (class_map p)(s \<mapsto> i)\<rparr>) sl"
  "maps_ok p sl \<Longrightarrow> den_ref1 TagString sl i s \<Longrightarrow> maps_ok (p\<lparr>str_map := (str_map p)(s \<mapsto> i)\<rparr>) sl"
  "maps_ok p sl \<Longrightarrow> den_ref1 TagMethodType sl i s \<Longrightarrow> maps_ok (p\<lparr>mt_map := (mt_map p)(s \<mapsto> i)\<rparr>) sl"
  "maps_ok p sl \<Longrightarrow> den_nat sl i n \<Longrightarrow> maps_ok (p\<lparr>nat_map := (nat_map p)(n \<mapsto> i)\<rparr>) sl"
  "maps_ok p sl \<Longrightarrow> den_word TagInteger sl i v \<Longrightarrow> maps_ok (p\<lparr>i32_map := (i32_map p)(v \<mapsto> i)\<rparr>) sl"
  "maps_ok p sl \<Longrightarrow> den_word TagFloat sl i v \<Longrightarrow> maps_ok (p\<lparr>f32_map := (f32_map p)(v \<mapsto> i)\<rparr>) sl"
  "maps_ok p sl \<Longrightarrow> den_wide TagLong sl i w \<Longrightarrow> maps_ok (p\<lparr>i64_map := (i64_map p)(w \<mapsto> i)\<rparr>) sl"
  "maps_ok p sl \<Longrightarrow> den_wide TagDouble sl i w \<Longrightarrow> maps_ok (p\<lparr>f64_map := (f64_map p)(w \<mapsto> i)\<rparr>) sl"
  by (simp_all add: maps_ok_def map_den_upd)

lemma maps_le_put:
  "class_map p s = None \<Longrightarrow> maps_le p (p\<lparr>class_map := (class_map p)(s \<mapsto> i)\<rparr>)"
  "str_map p s = None \<Longrightarrow> maps_le p (p\<lparr>str_map := (str_map p)(s \<mapsto> i)\<rparr>)"
  "mt_map p s = None \<Longrightarrow> maps_le p (p\<lparr>mt_map := (mt_map p)(s \<mapsto> i)\<rparr>)"
  "nat_map p n = None \<Longrightarrow> maps_le p (p\<lparr>nat_map := (nat_map p)(n \<mapsto> i)\<rparr>)"
  "ref_map p r = None \<Longrightarrow> maps_le p (p\<lparr>ref_map := (ref_map p)(r \<mapsto> i)\<rparr>)"
  "i32_map p v = None \<Longrightarrow> maps_le p (p\<lparr>i32_map := (i32_map p)(v \<mapsto> i)\<rparr>)"
  "f32_map p v = None \<Longrightarrow> maps_le p (p\<lparr>f32_map := (f32_map p)(v \<mapsto> i)\<rparr>)"
  "i64_map p w = None \<Longrightarrow> maps_le p (p\<lparr>i64_map := (i64_map p)(w \<mapsto> i)\<rparr>)"
  "f64_map p w = None \<Longrightarrow> maps_le p (p\<lparr>f64_map := (f64_map p)(w \<mapsto> i)\<rparr>)"
  by (auto simp: maps_le_def map_le_def)

lemma map_le_Some: "m \<subseteq>\<^sub>m m' \<Longrightarrow> m k = Some i \<Longrightarrow> m' k = Some i"
  by (metis domI map_le_def)

lemma look_grows:
  assumes "pb_grows p q"
  shows "class_map p s = Some i \<Longrightarrow> class_map q s = Some i"
    and "str_map p s = Some i \<Longrightarrow> str_map q s = Some i"
    and "mt_map p s = Some i \<Longrightarrow> mt_map q s = Some i"
    and "nat_map p n = Some i \<Longrightarrow> nat_map q n = Some i"
    and "ref_map p r = Some i \<Longrightarrow> ref_map q r = Some i"
    and "i32_map p v = Some i \<Longrightarrow> i32_map q v = Some i"
    and "f32_map p v = Some i \<Longrightarrow> f32_map q v = Some i"
    and "i64_map p w = Some i \<Longrightarrow> i64_map q w = Some i"
    and "f64_map p w = Some i \<Longrightarrow> f64_map q w = Some i"
  using assms by (auto simp: pb_grows_def maps_le_def dest: map_le_Some)

lemma look_den:
  assumes "maps_ok p sl"
  shows "class_map p s = Some i \<Longrightarrow> den_ref1 TagClass sl i s"
    and "str_map p s = Some i \<Longrightarrow> den_ref1 TagString sl i s"
    and "mt_map p s = Some i \<Longrightarrow> den_ref1 TagMethodType sl i s"
    and "nat_map p n = Some i \<Longrightarrow> den_nat sl i n"
    and "i32_map p v = Some i \<Longrightarrow> den_word TagInteger sl i v"
    and "f32_map p v = Some i \<Longrightarrow> den_word TagFloat sl i v"
    and "i64_map p w = Some i \<Longrightarrow> den_wide TagLong sl i w"
    and "f64_map p w = Some i \<Longrightarrow> den_wide TagDouble sl i w"
  using assms unfolding maps_ok_def map_den_def by blast+

lemma ops_memoised:
  "pb_Class s p = (case class_map p s of Some i \<Rightarrow> (i, p)
     | None \<Rightarrow> (case ref1_act TagClass s p of (i, q) \<Rightarrow> (i, q\<lparr>class_map := (class_map q)(s \<mapsto> i)\<rparr>)))"
  "pb_String s p = (case str_map p s of Some i \<Rightarrow> (i, p)
     | None \<Rightarrow> (case ref1_act TagString s p of (i, q) \<Rightarrow> (i, q\<lparr>str_map := (str_map q)(s \<mapsto> i)\<rparr>)))"
  "pb_MethodType s p = (case mt_map p s of Some i \<Rightarrow> (i, p)
     | None \<Rightarrow> (case ref1_act TagMethodType s p of (i, q) \<Rightarrow> (i, q\<lparr>mt_map := (mt_map q)(s \<mapsto> i)\<rparr>)))"
  "(\<lambda>(n, d). pb_NameAndType n d) k p = (case nat_map p k of Some i \<Rightarrow> (i, p)
     | None \<Rightarrow> (case nat_act k p of (i, q) \<Rightarrow> (i, q\<lparr>nat_map := (nat_map q)(k \<mapsto> i)\<rparr>)))"
  by (cases k; auto simp: pb_Class_def pb_String_def pb_MethodType_def pb_NameAndType_def ref1_act_def
      nat_act_def split: prod.splits option.splits)+

lemmas memoised_intros = look_grows look_den maps_put maps_le_put den_append

interpretation classc: memoised pb_Class "den_ref1 TagClass" class_map "ref1_act TagClass"
  "\<lambda>s i p. p\<lparr>class_map := (class_map p)(s \<mapsto> i)\<rparr>"
  by unfold_locales (auto simp: ops_memoised ref1_act_spec(2) intro: memoised_intros ref1_act_spec)

interpretation strc: memoised pb_String "den_ref1 TagString" str_map "ref1_act TagString"
  "\<lambda>s i p. p\<lparr>str_map := (str_map p)(s \<mapsto> i)\<rparr>"
  by unfold_locales (auto simp: ops_memoised ref1_act_spec(2) intro: memoised_intros ref1_act_spec)

interpretation mtc: memoised pb_MethodType "den_ref1 TagMethodType" mt_map "ref1_act TagMethodType"
  "\<lambda>s i p. p\<lparr>mt_map := (mt_map p)(s \<mapsto> i)\<rparr>"
  by unfold_locales (auto simp: ops_memoised ref1_act_spec(2) intro: memoised_intros ref1_act_spec)

interpretation natc: memoised "\<lambda>(n, d). pb_NameAndType n d" den_nat nat_map nat_act
  "\<lambda>s i p. p\<lparr>nat_map := (nat_map p)(s \<mapsto> i)\<rparr>"
  by unfold_locales (auto simp: ops_memoised nat_act_spec(2) intro: memoised_intros nat_act_spec)

text \<open>Member references: the map is shared by the three tags, which its keys tell apart.\<close>

definition member_act :: "tag \<Rightarrow> string \<times> string \<times> string \<Rightarrow> u16 pb_op" where
  "member_act t k p = (case pb_Class (fst k) p of (c, p1) \<Rightarrow>
     case (\<lambda>(n, d). pb_NameAndType n d) (snd k) p1 of (nt, p2) \<Rightarrow> addRef2 t c nt p2)"

lemma tag_runes: "write_rune 9 = [CHR 0x09]" "write_rune 10 = [CHR 0x0A]" "write_rune 11 = [CHR 0x0B]"
  by code_simp+

lemma tag_keys:
  assumes "t \<in> {TagFieldref, TagMethodref, TagInterfaceMethodref}"
    and "u \<in> {TagFieldref, TagMethodref, TagInterfaceMethodref}"
  shows "write_rune (uint t) = write_rune (uint u) \<longleftrightarrow> t = u"
  using assms by (auto simp: tag_runes)

lemma pb_Class_ref_map: "pb_Class s p = (i, q) \<Longrightarrow> ref_map q = ref_map p"
  using ref1_act_spec(2) by (auto simp: ops_memoised split: option.splits prod.splits)

lemma pb_NameAndType_ref_map: "(\<lambda>(n, d). pb_NameAndType n d) k p = (i, q) \<Longrightarrow> ref_map q = ref_map p"
  using nat_act_spec(2) [of k] by (auto simp: ops_memoised simp del: case_prod_conv split: option.splits prod.splits)

lemma member_act_spec:
  assumes "member_act t k p = (i, q)"
  shows "pb_grows p q" and "ref_map q = ref_map p"
    and "t \<in> {TagFieldref, TagMethodref, TagInterfaceMethodref} \<Longrightarrow> pb_inv p \<Longrightarrow> pb_inv q"
    and "t \<in> {TagFieldref, TagMethodref, TagInterfaceMethodref} \<Longrightarrow> pb_inv p \<Longrightarrow> pb_err q = None \<Longrightarrow>
      den_member t (slots q) i k"
proof -
  obtain c p1 where 1: "pb_Class (fst k) p = (c, p1)" by fastforce
  obtain nt p2 where 2: "(\<lambda>(n, d). pb_NameAndType n d) (snd k) p1 = (nt, p2)" by fastforce
  have 3: "pb_add (cbytes (CRef2 t c nt)) (cwide (CRef2 t c nt)) p2 = (i, q)"
    using assms 1 2 by (simp only: member_act_def addRef2_entry prod.case)
  have g: "pb_grows p1 p2" "pb_grows p2 q" using natc.grows [OF 2] pb_add_grows [OF 3] .
  then show "pb_grows p q" using classc.grows [OF 1] pb_grows_trans by blast
  show "ref_map q = ref_map p"
    using pb_Class_ref_map [OF 1] pb_NameAndType_ref_map [OF 2] pb_add_maps [OF 3] by simp
  assume t: "t \<in> {TagFieldref, TagMethodref, TagInterfaceMethodref}" and p: "pb_inv p"
  have p1: "pb_inv p1" using classc.keeps_inv [OF 1 p] .
  have ok: "centry_ok (CRef2 t c nt)" using t by auto
  note e = pb_add_entry [OF 3 ok natc.keeps_inv [OF 2 p1]]
  show "pb_inv q" by (rule e(1))
  assume q: "pb_err q = None"
  then have "den_ref1 TagClass (slots q) c (fst k)" "den_nat (slots q) nt (snd k)"
    using classc.stays [OF 1 p pb_grows_trans [OF g]] natc.stays [OF 2 p1 g(2)] by blast+
  then show "den_member t (slots q) i k" using e(2) [OF q] unfolding den_member_def by blast
qed

lemma maps_put_member:
  assumes "maps_ok p sl" and "den_member t sl i k" and "t \<in> {TagFieldref, TagMethodref, TagInterfaceMethodref}"
  shows "maps_ok (p\<lparr>ref_map := (ref_map p)((write_rune (uint t), k) \<mapsto> i)\<rparr>) sl"
proof -
  have "map_den (\<lambda>k'. ((ref_map p)((write_rune (uint t), k) \<mapsto> i)) (write_rune (uint u), k')) (den_member u sl)"
    if u: "u \<in> {TagFieldref, TagMethodref, TagInterfaceMethodref}" for u
  proof -
    have m: "map_den (\<lambda>k'. ref_map p (write_rune (uint u), k')) (den_member u sl)"
      using assms(1) u unfolding maps_ok_def by blast
    show ?thesis
      using m assms(2) tag_keys [OF assms(3) u] unfolding map_den_def by (auto split: if_splits)
  qed
  then show ?thesis using assms(1) by (simp add: maps_ok_def)
qed

lemma memberRef_memoised:
  "(\<lambda>(o1, n, d). memberRef t o1 n d) k p = (case ref_map p (write_rune (uint t), k) of Some i \<Rightarrow> (i, p)
     | None \<Rightarrow> (case member_act t k p of (i, q) \<Rightarrow>
         (i, q\<lparr>ref_map := (ref_map q)((write_rune (uint t), k) \<mapsto> i)\<rparr>)))"
  by (cases k) (auto simp: memberRef_def member_act_def Let_def split: prod.splits option.splits)

lemma look_member: "maps_ok p sl \<Longrightarrow> t \<in> {TagFieldref, TagMethodref, TagInterfaceMethodref} \<Longrightarrow>
    ref_map p (write_rune (uint t), k) = Some i \<Longrightarrow> den_member t sl i k"
  unfolding maps_ok_def map_den_def by blast

lemma member_memoised:
  assumes t: "t \<in> {TagFieldref, TagMethodref, TagInterfaceMethodref}"
  shows "memoised (\<lambda>(o1, n, d). memberRef t o1 n d) (den_member t) (\<lambda>p k. ref_map p (write_rune (uint t), k))
    (member_act t) (\<lambda>k i p. p\<lparr>ref_map := (ref_map p)((write_rune (uint t), k) \<mapsto> i)\<rparr>)"
proof (unfold_locales, goal_cases)
  case 1
  show ?case by (rule memberRef_memoised)
next
  case 2
  then show ?case using member_act_spec(3) t by blast
next
  case 3
  then show ?case using member_act_spec(1,2) by metis
next
  case 4
  then show ?case using member_act_spec(4) t by blast
next
  case 5
  then show ?case by (rule look_grows(5))
next
  case 6
  then show ?case using look_member t by blast
next
  case 10
  then show ?case using maps_put_member t by blast
qed (simp_all add: maps_le_put den_append)

interpretation fieldc: memoised "\<lambda>(o1, n, d). pb_FieldRef o1 n d" "den_member TagFieldref"
  "\<lambda>p k. ref_map p (write_rune (uint TagFieldref), k)" "member_act TagFieldref"
  "\<lambda>k i p. p\<lparr>ref_map := (ref_map p)((write_rune (uint TagFieldref), k) \<mapsto> i)\<rparr>"
  unfolding pb_FieldRef_def by (rule member_memoised) simp

interpretation methodc: memoised "\<lambda>(o1, n, d). pb_MethodRef o1 n d" "den_member TagMethodref"
  "\<lambda>p k. ref_map p (write_rune (uint TagMethodref), k)" "member_act TagMethodref"
  "\<lambda>k i p. p\<lparr>ref_map := (ref_map p)((write_rune (uint TagMethodref), k) \<mapsto> i)\<rparr>"
  unfolding pb_MethodRef_def by (rule member_memoised) simp

interpretation imethodc: memoised "\<lambda>(o1, n, d). pb_InterfaceMethodRef o1 n d" "den_member TagInterfaceMethodref"
  "\<lambda>p k. ref_map p (write_rune (uint TagInterfaceMethodref), k)" "member_act TagInterfaceMethodref"
  "\<lambda>k i p. p\<lparr>ref_map := (ref_map p)((write_rune (uint TagInterfaceMethodref), k) \<mapsto> i)\<rparr>"
  unfolding pb_InterfaceMethodRef_def by (rule member_memoised) simp

text \<open>The numeric constants.\<close>

lemma word_act_spec:
  assumes "pb_add (cbytes (CWord t v)) False p = (i, q)"
  shows "t \<in> {TagInteger, TagFloat} \<Longrightarrow> pb_inv p \<Longrightarrow> pb_inv q"
    and "t \<in> {TagInteger, TagFloat} \<Longrightarrow> pb_inv p \<Longrightarrow> pb_err q = None \<Longrightarrow> den_word t (slots q) i v"
  using pb_add_entry [of "CWord t v" p i q] assms by (auto simp: den_word_def)

lemma wide_act_spec:
  assumes "pb_add (cbytes (CWide t (ucast (drop_bit 32 v)) (ucast v))) True p = (i, q)"
  shows "t \<in> {TagLong, TagDouble} \<Longrightarrow> pb_inv p \<Longrightarrow> pb_inv q"
    and "t \<in> {TagLong, TagDouble} \<Longrightarrow> pb_inv p \<Longrightarrow> pb_err q = None \<Longrightarrow> den_wide t (slots q) i v"
  using pb_add_entry [of "CWide t (ucast (drop_bit 32 v)) (ucast v)" p i q] assms by (auto simp: den_wide_def)

lemma num_memoised:
  "pb_Int v p = (case i32_map p v of Some i \<Rightarrow> (i, p)
     | None \<Rightarrow> (case pb_add (cbytes (CWord TagInteger v)) False p of (i, q) \<Rightarrow> (i, q\<lparr>i32_map := (i32_map q)(v \<mapsto> i)\<rparr>)))"
  "pb_Float v p = (case f32_map p v of Some i \<Rightarrow> (i, p)
     | None \<Rightarrow> (case pb_add (cbytes (CWord TagFloat v)) False p of (i, q) \<Rightarrow> (i, q\<lparr>f32_map := (f32_map q)(v \<mapsto> i)\<rparr>)))"
  "pb_Long w p = (case i64_map p w of Some i \<Rightarrow> (i, p)
     | None \<Rightarrow> (case pb_add (cbytes (CWide TagLong (ucast (drop_bit 32 w)) (ucast w))) True p of (i, q) \<Rightarrow>
         (i, q\<lparr>i64_map := (i64_map q)(w \<mapsto> i)\<rparr>)))"
  "pb_Double w p = (case f64_map p w of Some i \<Rightarrow> (i, p)
     | None \<Rightarrow> (case pb_add (cbytes (CWide TagDouble (ucast (drop_bit 32 w)) (ucast w))) True p of (i, q) \<Rightarrow>
         (i, q\<lparr>f64_map := (f64_map q)(w \<mapsto> i)\<rparr>)))"
  unfolding pb_Int_def pb_Float_def pb_Long_def pb_Double_def word_bytes [symmetric] wide_bytes [symmetric]
  by (rule refl)+

interpretation intc: memoised pb_Int "den_word TagInteger" i32_map "\<lambda>v. pb_add (cbytes (CWord TagInteger v)) False"
  "\<lambda>v i p. p\<lparr>i32_map := (i32_map p)(v \<mapsto> i)\<rparr>"
  by unfold_locales (auto simp: num_memoised pb_add_maps simp del: cbytes.simps
      intro: memoised_intros word_act_spec pb_add_grows)

interpretation floatc: memoised pb_Float "den_word TagFloat" f32_map "\<lambda>v. pb_add (cbytes (CWord TagFloat v)) False"
  "\<lambda>v i p. p\<lparr>f32_map := (f32_map p)(v \<mapsto> i)\<rparr>"
  by unfold_locales (auto simp: num_memoised pb_add_maps simp del: cbytes.simps
      intro: memoised_intros word_act_spec pb_add_grows)

interpretation longc: memoised pb_Long "den_wide TagLong" i64_map
  "\<lambda>v. pb_add (cbytes (CWide TagLong (ucast (drop_bit 32 v)) (ucast v))) True"
  "\<lambda>v i p. p\<lparr>i64_map := (i64_map p)(v \<mapsto> i)\<rparr>"
  by unfold_locales (auto simp: num_memoised pb_add_maps simp del: cbytes.simps
      intro: memoised_intros wide_act_spec pb_add_grows)

interpretation doublec: memoised pb_Double "den_wide TagDouble" f64_map
  "\<lambda>v. pb_add (cbytes (CWide TagDouble (ucast (drop_bit 32 v)) (ucast v))) True"
  "\<lambda>v i p. p\<lparr>f64_map := (f64_map p)(v \<mapsto> i)\<rparr>"
  by unfold_locales (auto simp: num_memoised pb_add_maps simp del: cbytes.simps
      intro: memoised_intros wide_act_spec pb_add_grows)

section \<open>Sequences of requests\<close>

datatype pool_req =
    RUTF8 string | RClass string | RString string | RMethodType string | RNameAndType string string
  | RFieldRef string string string | RMethodRef string string string | RInterfaceMethodRef string string string
  | RInt u32 | RFloat u32 | RLong u64 | RDouble u64

fun request :: "pool_req \<Rightarrow> u16 pb_op" where
  "request (RUTF8 s) = pb_UTF8 s"
| "request (RClass s) = pb_Class s"
| "request (RString s) = pb_String s"
| "request (RMethodType s) = pb_MethodType s"
| "request (RNameAndType n d) = pb_NameAndType n d"
| "request (RFieldRef c n d) = pb_FieldRef c n d"
| "request (RMethodRef c n d) = pb_MethodRef c n d"
| "request (RInterfaceMethodRef c n d) = pb_InterfaceMethodRef c n d"
| "request (RInt v) = pb_Int v"
| "request (RFloat v) = pb_Float v"
| "request (RLong v) = pb_Long v"
| "request (RDouble v) = pb_Double v"

fun den_req :: "bytes option list \<Rightarrow> u16 \<Rightarrow> pool_req \<Rightarrow> bool" where
  "den_req sl i (RUTF8 s) = den_utf8 sl i s"
| "den_req sl i (RClass s) = den_ref1 TagClass sl i s"
| "den_req sl i (RString s) = den_ref1 TagString sl i s"
| "den_req sl i (RMethodType s) = den_ref1 TagMethodType sl i s"
| "den_req sl i (RNameAndType n d) = den_nat sl i (n, d)"
| "den_req sl i (RFieldRef c n d) = den_member TagFieldref sl i (c, n, d)"
| "den_req sl i (RMethodRef c n d) = den_member TagMethodref sl i (c, n, d)"
| "den_req sl i (RInterfaceMethodRef c n d) = den_member TagInterfaceMethodref sl i (c, n, d)"
| "den_req sl i (RInt v) = den_word TagInteger sl i v"
| "den_req sl i (RFloat v) = den_word TagFloat sl i v"
| "den_req sl i (RLong v) = den_wide TagLong sl i v"
| "den_req sl i (RDouble v) = den_wide TagDouble sl i v"

lemma den_req_append: "den_req sl i k \<Longrightarrow> den_req (sl @ x) i k"
  by (cases k) (simp_all add: den_append)

lemma request_grows: "request k p = (i, q) \<Longrightarrow> pb_grows p q"
  using natc.grows [of "(n, d)" for n d] fieldc.grows [of "(c, n, d)" for c n d]
    methodc.grows [of "(c, n, d)" for c n d] imethodc.grows [of "(c, n, d)" for c n d]
  by (cases k) (auto intro: utf8c.grows classc.grows strc.grows mtc.grows intc.grows floatc.grows
      longc.grows doublec.grows)

lemma request_inv: "request k p = (i, q) \<Longrightarrow> pb_inv p \<Longrightarrow> pb_inv q"
  using natc.keeps_inv [of "(n, d)" for n d] fieldc.keeps_inv [of "(c, n, d)" for c n d]
    methodc.keeps_inv [of "(c, n, d)" for c n d] imethodc.keeps_inv [of "(c, n, d)" for c n d]
  by (cases k) (auto intro: utf8c.keeps_inv classc.keeps_inv strc.keeps_inv mtc.keeps_inv
      intc.keeps_inv floatc.keeps_inv longc.keeps_inv doublec.keeps_inv)

lemma request_den: "request k p = (i, q) \<Longrightarrow> pb_inv p \<Longrightarrow> pb_err q = None \<Longrightarrow> den_req (slots q) i k"
  using natc.denotes [of "(n, d)" for n d] fieldc.denotes [of "(c, n, d)" for c n d]
    methodc.denotes [of "(c, n, d)" for c n d] imethodc.denotes [of "(c, n, d)" for c n d]
  by (cases k) (auto intro: utf8c.denotes classc.denotes strc.denotes mtc.denotes
      intc.denotes floatc.denotes longc.denotes doublec.denotes)

lemma request_again:
  "request k p = (i, q) \<Longrightarrow> pb_grows q q' \<Longrightarrow> pb_err q' = None \<Longrightarrow> request k q' = (i, q')"
  using natc.again [of "(n, d)" for n d] fieldc.again [of "(c, n, d)" for c n d]
    methodc.again [of "(c, n, d)" for c n d] imethodc.again [of "(c, n, d)" for c n d]
  by (cases k) (auto intro: utf8c.again classc.again strc.again mtc.again
      intc.again floatc.again longc.again doublec.again)

interpretation anyc: interner request den_req
  by unfold_locales (fact request_inv request_grows request_den request_again den_req_append)+

fun requests :: "pool_req list \<Rightarrow> u16 list pb_op" where
  "requests [] p = ([], p)"
| "requests (k # ks) p = (case request k p of (i, p1) \<Rightarrow> case requests ks p1 of (is, q) \<Rightarrow> (i # is, q))"

lemma requests_grow: "requests ks p = (is, q) \<Longrightarrow> pb_grows p q"
  by (induction ks arbitrary: p "is")
    (auto split: prod.splits intro: pb_grows_trans anyc.grows)

lemma requests_den:
  assumes "requests ks p = (is, q)" and "pb_inv p" and "pb_err q = None"
  shows "pb_inv q \<and> list_all2 (\<lambda>i k. den_req (slots q) i k \<and> request k q = (i, q)) is ks"
  using assms
proof (induction ks arbitrary: p "is")
  case (Cons k ks)
  obtain i p1 where 1: "request k p = (i, p1)" by fastforce
  obtain js where 2: "requests ks p1 = (js, q)" "is = i # js" using Cons.prems(1) 1 by (auto split: prod.splits)
  then show ?case
    using Cons.IH [OF 2(1) anyc.keeps_inv [OF 1 Cons.prems(2)] Cons.prems(3)]
      anyc.stays [OF 1 Cons.prems(2) requests_grow [OF 2(1)] Cons.prems(3)] by simp
qed simp

lemma new_inv [simp]: "pb_inv newPoolBuilder"
proof -
  have "table_ok [None]" unfolding table_ok_def by (auto intro: exI [of _ "[]"])
  then show ?thesis by (simp add: pb_inv_def newPoolBuilder_def maps_ok_def map_den_def)
qed

section \<open>The emitted table reads back\<close>

fun pentry_of :: "nat \<Rightarrow> centry \<Rightarrow> pentry" where
  "pentry_of off (CUtf8 s) = \<lparr>etag = TagUtf8, ea = word_of_nat (off + 3), eb = word_of_nat (length (Encode s))\<rparr>"
| "pentry_of off (CRef1 t a) = \<lparr>etag = t, ea = ucast a, eb = 0\<rparr>"
| "pentry_of off (CRef2 t a b) = \<lparr>etag = t, ea = ucast a, eb = ucast b\<rparr>"
| "pentry_of off (CWord t a) = \<lparr>etag = t, ea = a, eb = 0\<rparr>"
| "pentry_of off (CWide t a b) = \<lparr>etag = t, ea = a, eb = b\<rparr>"

fun ctag :: "centry \<Rightarrow> tag" where
  "ctag (CUtf8 s) = TagUtf8"
| "ctag (CRef1 t a) = t"
| "ctag (CRef2 t a b) = t"
| "ctag (CWord t a) = t"
| "ctag (CWide t a b) = t"

lemma cbytes_tag: "cbytes c = ctag c # tl (cbytes c)"
  by (cases c) simp_all

lemma find_bad_permitted: "list_all permitted b \<Longrightarrow> find_bad j b = None"
  by (induction b arbitrary: j) (auto simp: not_le)

lemma read_utf8_cbytes:
  assumes "EncodedLen s \<le> 65535" and "reader_ok r" and "0 < roff r"
    and "rest r = be_u2 (word_of_nat (length (Encode s))) @ Encode s @ t"
  shows "read_entry TagUtf8 r = (Some (pentry_of (roff r - 1) (CUtf8 s)), advance (2 + length (Encode s)) r)"
proof -
  let ?n = "word_of_nat (length (Encode s)) :: u16"
  have n: "uint ?n = int (length (Encode s))"
    using assms(1) by (simp add: length_Encode unsigned_of_nat take_bit_nat_eq_self)
  have ok: "reader_ok (advance 2 r)" using assms(2,4) by (intro reader_ok_advance) simp_all
  have 1: "r_u2 r = (?n, advance 2 r)" using r_u2_read [OF assms(2,4)] .
  have 2: "r_bytes (int (length (Encode s))) (advance 2 r) = (Encode s, advance (2 + length (Encode s)) r)"
    using r_bytes_read [OF ok, of "Encode s" t] assms(4) by simp
  have u: "ucast ?n = (word_of_nat (length (Encode s)) :: u32)"
    using n by (simp add: word_uint_eq_iff unsigned_ucast_eq unsigned_of_nat take_bit_nat_eq_self
        assms(1) length_Encode)
  show ?thesis using assms(3) n u
    by (simp add: read_entry_def 1 2 find_bad_permitted Encode_permitted Let_def)
qed

lemma read_two:
  assumes "reader_ok r" and "rest r = be_u2 a @ be_u2 b @ t"
  shows "r_u2 r = (a, advance 2 r)" and "r_u2 (advance 2 r) = (b, advance 4 r)"
  using r_u2_read [OF assms] r_u2_read [OF reader_ok_advance, of r 2 b t] assms by simp_all

lemma read_two_wide:
  assumes "reader_ok r" and "rest r = be_u4 a @ be_u4 b @ t"
  shows "r_u4 r = (a, advance 4 r)" and "r_u4 (advance 4 r) = (b, advance 8 r)"
  using r_u4_read [OF assms] r_u4_read [OF reader_ok_advance, of r 4 b t] assms by simp_all

lemma read_entry_cbytes:
  assumes "centry_ok c" and "reader_ok r" and "0 < roff r" and "rest r = tl (cbytes c) @ t"
  shows "read_entry (ctag c) r = (Some (pentry_of (roff r - 1) c), advance (length (cbytes c) - 1) r)"
proof (cases c)
  case (CUtf8 s)
  then show ?thesis using read_utf8_cbytes [of s r t] assms by simp
next
  case (CRef1 u a)
  then have "r_u2 r = (a, advance 2 r)" using r_u2_read [OF assms(2), of a t] assms(4) by simp
  then show ?thesis using CRef1 assms(1) by (auto simp: read_entry_def)
next
  case (CRef2 u a b)
  then show ?thesis using read_two [OF assms(2), of a b t] assms by (auto simp: read_entry_def)
next
  case (CWord u a)
  then have "r_u4 r = (a, advance 4 r)" using r_u4_read [OF assms(2), of a t] assms(4) by simp
  then show ?thesis using CWord assms(1) by (auto simp: read_entry_def)
next
  case (CWide u a b)
  then show ?thesis using read_two_wide [OF assms(2), of a b t] assms by (auto simp: read_entry_def)
qed

text \<open>The decoded table of a list of entries whose bytes start at \<open>off\<close>.\<close>

fun entries_of :: "nat \<Rightarrow> centry list \<Rightarrow> pentry list" where
  "entries_of off [] = []"
| "entries_of off (c # cs) =
     pentry_of off c # (if cwide c then [zero_entry] else []) @ entries_of (off + length (cbytes c)) cs"

definition tag_known :: "version \<Rightarrow> centry \<Rightarrow> bool" where
  "tag_known v c \<longleftrightarrow> (\<exists>since. tagSince (ctag c) = Some since \<and> since \<le> vMajor v)"

lemma cwide_tag: "centry_ok c \<Longrightarrow> cwide c \<longleftrightarrow> ctag c = TagLong \<or> ctag c = TagDouble"
  by (cases c) auto

lemma length_cbytes_pos: "0 < length (cbytes c)"
  by (cases c) simp_all

lemma readPool_loop_cbytes:
  assumes "list_all (\<lambda>c. centry_ok c \<and> tag_known v c) cs" and "reader_ok r"
    and "rest r = concat (map cbytes cs) @ t" and "length pre = i"
    and "es = pre @ replicate (length (slots_of cs)) zero_entry" and "n = length es"
  shows "readPool_loop v n i es r =
    (pre @ entries_of (roff r) cs, advance (length (concat (map cbytes cs))) r)"
  using assms
proof (induction cs arbitrary: r i es pre)
  case Nil
  then show ?case by (simp add: readPool_loop.simps [of v i i pre r])
next
  case (Cons c cs)
  let ?r1 = "advance 1 r" and ?r2 = "advance (length (cbytes c)) r"
  have c: "centry_ok c" "tag_known v c" using Cons.prems(1) by simp_all
  obtain since where s: "tagSince (ctag c) = Some since" "(vMajor v < since) = False"
    using c(2) by (auto simp: tag_known_def not_less)
  have rest: "rest r = ctag c # (tl (cbytes c) @ concat (map cbytes cs) @ t)"
    using Cons.prems(3) cbytes_tag [of c] by (metis append_Cons append_assoc concat.simps(2) list.map(2))
  have 1: "r_u1 r = (ctag c, ?r1)" using r_u1_read [OF Cons.prems(2) rest] .
  have ok1: "reader_ok ?r1" using Cons.prems(2) rest by (intro reader_ok_advance) simp_all
  have 2: "read_entry (ctag c) ?r1 = (Some (pentry_of (roff r) c), ?r2)"
    using read_entry_cbytes [OF c(1) ok1, of "concat (map cbytes cs) @ t"] rest length_cbytes_pos [of c] by simp
  have ok2: "reader_ok ?r2" using Cons.prems(2,3) by (intro reader_ok_advance) simp_all
  have rest2: "rest ?r2 = concat (map cbytes cs) @ t" using Cons.prems(3) by simp
  have nd: "r_done r = False" using Cons.prems(2) by (simp add: reader_ok_def r_done_def)
  have lt: "(n \<le> i) = False" using Cons.prems(4-6) by (simp add: slot_of_def)
  have upd: "es[i := pentry_of (roff r) c] = (pre @ pentry_of (roff r) c # (if cwide c then [zero_entry] else [])) @
      replicate (length (slots_of cs)) zero_entry"
    using Cons.prems(4,5) by (simp add: slot_of_def list_update_append)
  have fit: "cwide c \<Longrightarrow> (n \<le> i + 1) = False" using Cons.prems(4-6) by (simp add: slot_of_def)
  have "readPool_loop v n i es r = readPool_loop v n (i + (if cwide c then 2 else 1)) (es[i := pentry_of (roff r) c]) ?r2"
    using fit cwide_tag [OF c(1)]
    by (simp add: readPool_loop.simps [of v n i es] lt nd 1 s 2 Let_def del: One_nat_def)
  also have "\<dots> = ((pre @ pentry_of (roff r) c # (if cwide c then [zero_entry] else [])) @ entries_of (roff ?r2) cs,
      advance (length (concat (map cbytes cs))) ?r2)"
    using Cons.prems(1,4-6) by (intro Cons.IH [OF _ ok2 rest2 _ upd]) (auto simp: slot_of_def)
  finally show ?case by simp
qed

lemma emit_slots_append: "emit_slots (a @ b) w = emit_slots b (emit_slots a w)"
  by (induction a w rule: emit_slots.induct) simp_all

lemma emit_slots_of: "emit_slots (slots_of cs) w = w @ concat (map cbytes cs)"
  by (induction cs arbitrary: w) (simp_all add: slot_of_def w_raw_def emit_slots_append)

lemma readPool_emit:
  assumes "slots p = None # slots_of cs" and "length (slots p) \<le> 65535"
    and "list_all (\<lambda>c. centry_ok c \<and> tag_known v c) cs"
    and "reader_ok r" and "rest r = emit p [] @ t"
  shows "readPool v r =
    (Some \<lparr>pentries = zero_entry # entries_of (roff r + 2) cs, psrc = rb r,
       pstrs = replicate (length (slots p)) [], pstrOK = replicate (length (slots p)) False,
       pbsms = [], pfile = rfile r\<rparr>, advance (length (emit p [])) r)"
proof -
  have em: "emit p [] = be_u2 (pb_count p) @ concat (map cbytes cs)"
    using assms(1) by (simp add: emit_def emit_slots_of w_u2_def)
  have n: "unat (pb_count p) = length (slots p)"
    using assms(2) by (simp add: pb_count_def unsigned_of_nat take_bit_nat_eq_self)
  then have nz: "pb_count p \<noteq> 0" using assms(1) by auto
  have 1: "r_u2 r = (pb_count p, advance 2 r)" using r_u2_read [OF assms(4)] assms(5) em by simp
  have ok: "reader_ok (advance 2 r)" using assms(4,5) em by (intro reader_ok_advance) simp_all
  have 2: "readPool_loop v (length (slots p)) 1 (replicate (length (slots p)) zero_entry) (advance 2 r) =
      ([zero_entry] @ entries_of (roff (advance 2 r)) cs, advance (length (concat (map cbytes cs))) (advance 2 r))"
    using assms(1,5) em by (intro readPool_loop_cbytes [OF assms(3) ok, of t]) simp_all
  show ?thesis using 2 nz n em by (simp add: readPool_def 1 Let_def)
qed

text \<open>An index of the table names one entry, whose bytes stand at a known offset.\<close>

lemma slots_of_nth:
  assumes "k < length (slots_of cs)" and "slots_of cs ! k = Some b"
  shows "\<exists>pre c post. cs = pre @ c # post \<and> length (slots_of pre) = k \<and> b = cbytes c"
  using assms
proof (induction cs arbitrary: k)
  case (Cons c cs)
  show ?case
  proof (cases "k < length (slot_of c)")
    case True
    then have "k = 0" "b = cbytes c" using Cons.prems(2)
      by (auto simp: nth_append slot_of_def nth_Cons' split: if_splits)
    then show ?thesis by (intro exI [of _ "[]"]) simp
  next
    case False
    then have "k - length (slot_of c) < length (slots_of cs)" using Cons.prems(1) by simp
    with False obtain pre c' post where "cs = pre @ c' # post" "length (slots_of pre) = k - length (slot_of c)" "b = cbytes c'"
      using Cons.IH [of "k - length (slot_of c)"] Cons.prems by (auto simp: nth_append)
    then show ?thesis using False by (intro exI [of _ "c # pre"]) simp
  qed
qed simp

lemma entries_of_append:
  "entries_of off (a @ b) = entries_of off a @ entries_of (off + length (concat (map cbytes a))) b"
  by (induction a arbitrary: off) (simp_all add: add.assoc)

lemma length_entries_of [simp]: "length (entries_of off cs) = length (slots_of cs)"
  by (induction cs arbitrary: off) (simp_all add: slot_of_def)

lemma cbytes_pentry:
  assumes "cbytes c = cbytes d" and "centry_ok c" and "centry_ok d"
  shows "pentry_of off c = pentry_of off d"
proof -
  let ?r = "\<lparr>rb = replicate (off + 1) 0 @ tl (cbytes c), roff = off + 1, rfile = [], rerr = None\<rparr>"
  have "ctag c = ctag d" using assms(1) by (metis cbytes_tag list.inject)
  then show ?thesis
    using read_entry_cbytes [OF assms(2), of ?r "[]"] read_entry_cbytes [OF assms(3), of ?r "[]"] assms(1)
    by (simp add: reader_ok_def rest_def)
qed

text \<open>A pool that was read from an emitted table.\<close>

definition pool_of :: "bytes option list \<Rightarrow> pool \<Rightarrow> bool" where
  "pool_of sl p \<longleftrightarrow> pool_inv p \<and> length (psrc p) < 2 ^ 32 \<and> length (pentries p) = length sl \<and>
     (\<forall>i c. entry_at sl i c \<longrightarrow> (\<exists>off. pentries p ! unat i = pentry_of off c \<and>
        take (length (cbytes c)) (drop off (psrc p)) = cbytes c \<and> off + length (cbytes c) \<le> length (psrc p)))"

lemma pool_of_emit:
  assumes "table_ok (slots p)" and "\<And>c. centry_ok c \<Longrightarrow> Some (cbytes c) \<in> set (slots p) \<Longrightarrow> tag_known v c"
    and "reader_ok r" and "rest r = emit p [] @ t" and "length (rb r) < 2 ^ 32"
  obtains q where "readPool v r = (Some q, advance (length (emit p [])) r)" and "pool_of (slots p) q"
    and "pbsms q = []" and "psrc q = rb r" and "pfile q = rfile r"
proof -
  obtain cs where cs: "slots p = None # slots_of cs" "list_all centry_ok cs" and len: "length (slots p) \<le> 65535"
    using assms(1) by (auto simp: table_ok_def)
  have "Some (cbytes c) \<in> set (slots p)" if "c \<in> set cs" for c
    using that by (auto simp: cs(1) slots_of_def slot_of_def)
  then have "list_all (\<lambda>c. centry_ok c \<and> tag_known v c) cs" using cs(2) assms(2) by (simp add: list_all_iff)
  note rd = readPool_emit [OF cs(1) len this assms(3,4)]
  let ?q = "\<lparr>pentries = zero_entry # entries_of (roff r + 2) cs, psrc = rb r,
       pstrs = replicate (length (slots p)) [], pstrOK = replicate (length (slots p)) False,
       pbsms = [], pfile = rfile r\<rparr>"
  have "drop (roff r + 2) (rb r) = rest (advance 2 r)" by (simp only: rest_def advance_simps)
  then have src: "drop (roff r + 2) (rb r) = concat (map cbytes cs) @ t"
    using assms(4) cs(1) by (simp add: emit_def emit_slots_of w_u2_def)
  have "\<exists>off. pentries ?q ! unat i = pentry_of off c \<and> take (length (cbytes c)) (drop off (psrc ?q)) = cbytes c \<and>
      off + length (cbytes c) \<le> length (psrc ?q)" if e: "entry_at (slots p) i c" for i c
  proof -
    have "unat i \<noteq> 0" using e by (simp add: entry_at_def unat_eq_zero)
    then obtain k where k: "unat i = Suc k" by (cases "unat i") simp_all
    then have "k < length (slots_of cs)" "slots_of cs ! k = Some (cbytes c)" using e cs(1) by (simp_all add: entry_at_def)
    from slots_of_nth [OF this] obtain pre d post where
      d: "cs = pre @ d # post" "length (slots_of pre) = k" "cbytes c = cbytes d" by blast
    let ?off = "roff r + 2 + length (concat (map cbytes pre))"
    have "centry_ok d" using cs(2) d(1) by simp
    then have "pentry_of ?off d = pentry_of ?off c"
      using cbytes_pentry [of d c] d(3) e by (simp add: entry_at_def)
    then have "pentries ?q ! unat i = pentry_of ?off c"
      using d(2) by (simp add: k d(1) entries_of_append nth_append)
    moreover have dr: "drop ?off (rb r) = cbytes c @ concat (map cbytes post) @ t"
    proof -
      have "drop ?off (rb r) = drop (length (concat (map cbytes pre))) (drop (roff r + 2) (rb r))"
        by (simp only: drop_drop add.commute)
      then show ?thesis using d(1,3) by (simp only: src) simp
    qed
    moreover have "?off + length (cbytes c) \<le> length (rb r)"
      using arg_cong [OF dr, of length] length_cbytes_pos [of c] unfolding length_append length_drop by linarith
    ultimately show ?thesis by (intro exI [of _ ?off]) simp
  qed
  moreover have "pool_inv ?q" using cs(1) by (simp add: pool_inv_def nth_Cons')
  ultimately have "pool_of (slots p) ?q" using assms(5) cs(1) by (simp add: pool_of_def)
  then show thesis using that [OF rd] by simp
qed

text \<open>The string an entry of arbitrary bytes reads back as: invalid UTF-8 becomes U+FFFD.\<close>

definition utf8_clean :: "string \<Rightarrow> string" where
  "utf8_clean s = concat (map write_rune (range_string s))"

lemma utf8_clean_valid: "valid_string s \<Longrightarrow> utf8_clean s = s"
  by (simp add: utf8_clean_def write_runes range_string_def valid_string_def concat_range_bytes)

lemma entry_at_pool:
  assumes "pool_of sl p" and "entry_at sl i c"
  obtains off where "pool_at i w p = (if w = 0 \<or> w = ctag c then Inr (pentry_of off c) else Inl (errf p i (WrongTag (ctag c) w)))"
    and "pentries p ! unat i = pentry_of off c"
    and "take (length (cbytes c)) (drop off (psrc p)) = cbytes c" and "off + length (cbytes c) \<le> length (psrc p)"
proof -
  obtain off where off: "pentries p ! unat i = pentry_of off c"
      "take (length (cbytes c)) (drop off (psrc p)) = cbytes c" "off + length (cbytes c) \<le> length (psrc p)"
    and len: "length (pentries p) = length sl"
    using assms unfolding pool_of_def by blast
  have "etag (pentry_of off c) = ctag c" by (cases c) simp_all
  moreover have "ctag c \<noteq> 0" using assms(2) by (cases c) (auto simp: entry_at_def)
  ultimately show thesis using that [OF _ off] off(1) len assms(2) by (auto simp: pool_at_def entry_at_def Let_def)
qed

lemma reads_utf8:
  assumes "pool_of sl p" and "den_utf8 sl i s"
  shows "fst (pool_UTF8 i p) = Inr (utf8_clean s)"
proof -
  have e: "entry_at sl i (CUtf8 s)" using assms(2) by (simp add: den_utf8_def)
  have len: "EncodedLen s \<le> 65535" "length (psrc p) < 2 ^ 32" "pool_inv p"
    using e assms(1) by (simp_all add: entry_at_def pool_of_def)
  obtain off where off: "pool_at i TagUtf8 p = Inr (pentry_of off (CUtf8 s))" "pentries p ! unat i = pentry_of off (CUtf8 s)"
    "take (length (cbytes (CUtf8 s))) (drop off (psrc p)) = cbytes (CUtf8 s)" "off + length (cbytes (CUtf8 s)) \<le> length (psrc p)"
    using entry_at_pool [OF assms(1) e, of TagUtf8] by auto
  let ?n = "length (Encode s)"
  have "take ?n (drop (off + 3) (psrc p)) = Encode s"
  proof -
    have "take ?n (drop (off + 3) (psrc p)) = drop 3 (take (3 + ?n) (drop off (psrc p)))"
      by (simp add: drop_take add.commute)
    moreover have "length (cbytes (CUtf8 s)) = 3 + ?n" by simp
    ultimately show ?thesis using off(3) by (simp only:) simp
  qed
  moreover have "unat (word_of_nat (off + 3) :: u32) = off + 3" "unat (word_of_nat (off + 3) + word_of_nat ?n :: u32) = off + 3 + ?n"
    using off(4) len(2) by (simp_all add: unsigned_of_nat take_bit_nat_eq_self unat_word_ariths)
  ultimately have "entry_bytes p (unat i) = Encode s"
    by (simp add: entry_bytes_def off(2) slice_def drop_take add.commute)
  then show ?thesis
    using len(3) off(1) by (simp add: pool_UTF8_plain utf8_plain_def Decode_Encode_runes utf8_clean_def)
qed

lemma pool_of_same: "pool_of sl p \<Longrightarrow> pool_inv q \<Longrightarrow> same_pool p q \<Longrightarrow> pool_of sl q"
  by (simp add: pool_of_def same_pool_def)

lemma pool_of_query: "pool_of sl p \<Longrightarrow> pool_accessor acc \<Longrightarrow> acc p = (x, q) \<Longrightarrow> pool_of sl q"
  using pool_accessor.keeps pool_of_same by (metis pool_of_def)

lemma sbind_fst: "fst (m p) = Inr x \<Longrightarrow> fst (sbind m f p) = fst (f x (snd (m p)))"
  by (cases "m p") simp

lemma ucast_up_down [simp]: "ucast (ucast (a :: u16) :: u32) = a"
  by (rule bit_word_eqI) (simp add: bit_simps)

lemma at_fst:
  assumes "pool_of sl p" and "entry_at sl i c" and "w = 0 \<or> w = ctag c"
  obtains off where "slift (pool_at i w) p = (Inr (pentry_of off c), p)"
  using entry_at_pool [OF assms(1,2), of w] assms(3) by (auto simp: slift_def)

lemma reads_ref1:
  assumes "pool_of sl p" and "den_ref1 t sl i s"
  shows "fst (sbind (slift (pool_at i t)) (\<lambda>e. pool_UTF8 (ucast (ea e))) p) = Inr (utf8_clean s)"
proof -
  obtain n where n: "entry_at sl i (CRef1 t n)" "den_utf8 sl n s" using assms(2) by (auto simp: den_ref1_def)
  obtain off where "slift (pool_at i t) p = (Inr (pentry_of off (CRef1 t n)), p)"
    using at_fst [OF assms(1) n(1), of t] by auto
  then show ?thesis using reads_utf8 [OF assms(1) n(2)] by (simp add: sbind_fst)
qed

lemma reads_nat:
  assumes "pool_of sl p" and "den_nat sl i k"
  shows "fst (pool_NameAndType i p) = Inr (utf8_clean (fst k), utf8_clean (snd k))"
proof -
  obtain a b where ab: "entry_at sl i (CRef2 TagNameAndType a b)" "den_utf8 sl a (fst k)" "den_utf8 sl b (snd k)"
    using assms(2) by (auto simp: den_nat_def)
  obtain off where 1: "slift (pool_at i TagNameAndType) p = (Inr (pentry_of off (CRef2 TagNameAndType a b)), p)"
    using at_fst [OF assms(1) ab(1), of TagNameAndType] by auto
  have q: "pool_of sl (snd (pool_UTF8 a p))"
    using pool_of_query [OF assms(1) utf8.pool_accessor_axioms, of a "fst (pool_UTF8 a p)"] by simp
  show ?thesis
    using reads_utf8 [OF assms(1) ab(2)] reads_utf8 [OF q ab(3)] 1
    by (simp add: pool_NameAndType_def sbind_fst)
qed

lemma reads_member:
  assumes "pool_of sl p" and "den_member t sl i k" and t: "t \<in> {TagFieldref, TagMethodref, TagInterfaceMethodref}"
  shows "fst (pool_Ref i p) = Inr \<lparr>refTag = t, refClass = utf8_clean (fst k),
    refName = utf8_clean (fst (snd k)), refDesc = utf8_clean (snd (snd k))\<rparr>"
proof -
  obtain c nt where cn: "entry_at sl i (CRef2 t c nt)" "den_ref1 TagClass sl c (fst k)" "den_nat sl nt (snd k)"
    using assms(2) by (auto simp: den_member_def)
  obtain off where 1: "slift (pool_at i 0) p = (Inr (pentry_of off (CRef2 t c nt)), p)"
    using at_fst [OF assms(1) cn(1), of 0] by auto
  have c: "fst (pool_Class c p) = Inr (utf8_clean (fst k))"
    using reads_ref1 [OF assms(1) cn(2)] by (simp add: pool_Class_def)
  have q: "pool_of sl (snd (pool_Class c p))"
    using pool_of_query [OF assms(1) class_name.pool_accessor_axioms, of c "fst (pool_Class c p)"] by simp
  show ?thesis
    using reads_nat [OF q cn(3)] 1 c t
    by (auto simp: pool_Ref_def sbind_fst)
qed

lemma wide_join: "push_bit 32 (ucast (ucast (drop_bit 32 v) :: u32)) OR ucast (ucast v :: u32) = (v :: u64)"
  by (rule bit_word_eqI) (auto simp: bit_simps)

lemma reads_word:
  assumes "pool_of sl p" and "den_word t sl i x" and "t \<in> {TagInteger, TagFloat}"
  shows "fst (pool_Const i v p) = Inr ((zero_const t)\<lparr>cBits := ucast x\<rparr>)"
proof -
  obtain off where "slift (pool_at i 0) p = (Inr (pentry_of off (CWord t x)), p)"
    using at_fst [OF assms(1), of i "CWord t x" 0] assms(2) by (auto simp: den_word_def)
  then show ?thesis using assms(3) by (auto simp: pool_Const_def sbind_fst)
qed

lemma reads_wide:
  assumes "pool_of sl p" and "den_wide t sl i x" and "t \<in> {TagLong, TagDouble}"
  shows "fst (pool_Const i v p) = Inr ((zero_const t)\<lparr>cBits := x\<rparr>)"
proof -
  obtain off where "slift (pool_at i 0) p = (Inr (pentry_of off (CWide t (ucast (drop_bit 32 x)) (ucast x))), p)"
    using at_fst [OF assms(1), of i "CWide t (ucast (drop_bit 32 x)) (ucast x)" 0] assms(2) by (auto simp: den_wide_def)
  then show ?thesis using assms(3) by (auto simp: pool_Const_def sbind_fst wide_join)
qed

lemma reads_string:
  assumes "pool_of sl p" and "den_ref1 TagString sl i s"
  shows "fst (pool_Const i v p) = Inr ((zero_const TagString)\<lparr>cStr := utf8_clean s\<rparr>)"
proof -
  obtain n where n: "entry_at sl i (CRef1 TagString n)" "den_utf8 sl n s" using assms(2) by (auto simp: den_ref1_def)
  obtain off where "slift (pool_at i 0) p = (Inr (pentry_of off (CRef1 TagString n)), p)"
    using at_fst [OF assms(1) n(1), of 0] by auto
  then show ?thesis using reads_utf8 [OF assms(1) n(2)] by (simp add: pool_Const_def sbind_fst)
qed

text \<open>What reading the requested constant back means, per request.\<close>

fun reads_back :: "pool \<Rightarrow> u16 \<Rightarrow> pool_req \<Rightarrow> bool" where
  "reads_back p i (RUTF8 s) \<longleftrightarrow> fst (pool_UTF8 i p) = Inr (utf8_clean s)"
| "reads_back p i (RClass s) \<longleftrightarrow> fst (pool_Class i p) = Inr (utf8_clean s)"
| "reads_back p i (RString s) \<longleftrightarrow> (\<forall>v. fst (pool_Const i v p) = Inr ((zero_const TagString)\<lparr>cStr := utf8_clean s\<rparr>))"
| "reads_back p i (RMethodType s) \<longleftrightarrow> fst (pool_MethodType i p) = Inr (utf8_clean s)"
| "reads_back p i (RNameAndType n d) \<longleftrightarrow> fst (pool_NameAndType i p) = Inr (utf8_clean n, utf8_clean d)"
| "reads_back p i (RFieldRef c n d) \<longleftrightarrow> fst (pool_Ref i p) = Inr \<lparr>refTag = TagFieldref,
     refClass = utf8_clean c, refName = utf8_clean n, refDesc = utf8_clean d\<rparr>"
| "reads_back p i (RMethodRef c n d) \<longleftrightarrow> fst (pool_Ref i p) = Inr \<lparr>refTag = TagMethodref,
     refClass = utf8_clean c, refName = utf8_clean n, refDesc = utf8_clean d\<rparr>"
| "reads_back p i (RInterfaceMethodRef c n d) \<longleftrightarrow> fst (pool_Ref i p) = Inr \<lparr>refTag = TagInterfaceMethodref,
     refClass = utf8_clean c, refName = utf8_clean n, refDesc = utf8_clean d\<rparr>"
| "reads_back p i (RInt x) \<longleftrightarrow> (\<forall>v. fst (pool_Const i v p) = Inr ((zero_const TagInteger)\<lparr>cBits := ucast x\<rparr>))"
| "reads_back p i (RFloat x) \<longleftrightarrow> (\<forall>v. fst (pool_Const i v p) = Inr ((zero_const TagFloat)\<lparr>cBits := ucast x\<rparr>))"
| "reads_back p i (RLong x) \<longleftrightarrow> (\<forall>v. fst (pool_Const i v p) = Inr ((zero_const TagLong)\<lparr>cBits := x\<rparr>))"
| "reads_back p i (RDouble x) \<longleftrightarrow> (\<forall>v. fst (pool_Const i v p) = Inr ((zero_const TagDouble)\<lparr>cBits := x\<rparr>))"

lemma den_reads_back: "pool_of sl p \<Longrightarrow> den_req sl i k \<Longrightarrow> reads_back p i k"
  by (cases k) (auto simp: reads_utf8 reads_nat reads_member reads_word reads_wide reads_string
      pool_Class_def pool_MethodType_def reads_ref1)

lemma java7_tags: "Java7 \<le> vMajor v \<Longrightarrow> centry_ok c \<Longrightarrow> tag_known v c"
proof -
  assume v: "Java7 \<le> vMajor v" and c: "centry_ok c"
  have "Java1_0 \<le> vMajor v" by (rule order_trans [OF _ v]) simp
  then show "tag_known v c" using v c by (cases c) (auto simp: tag_known_def tagSince_def)
qed

section \<open>Different constants get different indices\<close>

fun req_tag :: "pool_req \<Rightarrow> tag" where
  "req_tag (RUTF8 s) = TagUtf8"
| "req_tag (RClass s) = TagClass"
| "req_tag (RString s) = TagString"
| "req_tag (RMethodType s) = TagMethodType"
| "req_tag (RNameAndType n d) = TagNameAndType"
| "req_tag (RFieldRef c n d) = TagFieldref"
| "req_tag (RMethodRef c n d) = TagMethodref"
| "req_tag (RInterfaceMethodRef c n d) = TagInterfaceMethodref"
| "req_tag (RInt v) = TagInteger"
| "req_tag (RFloat v) = TagFloat"
| "req_tag (RLong v) = TagLong"
| "req_tag (RDouble v) = TagDouble"

fun req_valid :: "pool_req \<Rightarrow> bool" where
  "req_valid (RUTF8 s) \<longleftrightarrow> valid_string s"
| "req_valid (RClass s) \<longleftrightarrow> valid_string s"
| "req_valid (RString s) \<longleftrightarrow> valid_string s"
| "req_valid (RMethodType s) \<longleftrightarrow> valid_string s"
| "req_valid (RNameAndType n d) \<longleftrightarrow> valid_string n \<and> valid_string d"
| "req_valid (RFieldRef c n d) \<longleftrightarrow> valid_string c \<and> valid_string n \<and> valid_string d"
| "req_valid (RMethodRef c n d) \<longleftrightarrow> valid_string c \<and> valid_string n \<and> valid_string d"
| "req_valid (RInterfaceMethodRef c n d) \<longleftrightarrow> valid_string c \<and> valid_string n \<and> valid_string d"
| "req_valid _ \<longleftrightarrow> True"

lemma be_u2_inj: "be_u2 a @ x = be_u2 b @ y \<longleftrightarrow> a = b \<and> x = y"
proof -
  have "be_u2 a = be_u2 b \<Longrightarrow> a = b" using be_u2_join [of a] be_u2_join [of b] unfolding be_u2_def list.inject by metis
  then show ?thesis by auto
qed

lemma be_u4_inj: "be_u4 a @ x = be_u4 b @ y \<longleftrightarrow> a = b \<and> x = y"
proof -
  have "be_u4 a = be_u4 b \<Longrightarrow> a = b" using be_u4_join [of a] be_u4_join [of b] unfolding be_u4_def list.inject by metis
  then show ?thesis by auto
qed

lemmas be_inj = be_u2_inj be_u2_inj [of _ "[]" _ "[]", simplified] be_u4_inj be_u4_inj [of _ "[]" _ "[]", simplified]

lemma entry_at_inj: "entry_at sl i c \<Longrightarrow> entry_at sl i d \<Longrightarrow> cbytes c = cbytes d"
  by (simp add: entry_at_def)

lemma ref1_inj: "entry_at sl i (CRef1 t a) \<Longrightarrow> entry_at sl i (CRef1 t a') \<Longrightarrow> a = a'"
  using entry_at_inj [of sl i "CRef1 t a" "CRef1 t a'"] by (simp add: be_inj)

lemma ref2_inj: "entry_at sl i (CRef2 t a b) \<Longrightarrow> entry_at sl i (CRef2 t a' b') \<Longrightarrow> a = a' \<and> b = b'"
  using entry_at_inj [of sl i "CRef2 t a b" "CRef2 t a' b'"] by (simp add: be_inj)

lemma den_utf8_inj:
  assumes "den_utf8 sl i s" and "den_utf8 sl i s'" and "valid_string s" and "valid_string s'"
  shows "s = s'"
proof -
  have "Encode s = Encode s'" using entry_at_inj [of sl i "CUtf8 s" "CUtf8 s'"] assms(1,2)
    by (simp add: den_utf8_def be_inj)
  then have "utf8_clean s = utf8_clean s'" using Decode_Encode_runes [of s] Decode_Encode_runes [of s']
    by (simp add: utf8_clean_def)
  then show ?thesis using assms(3,4) by (simp add: utf8_clean_valid)
qed

lemma den_ref1_inj:
  assumes "den_ref1 t sl i s" and "den_ref1 t sl i s'" and "valid_string s" and "valid_string s'"
  shows "s = s'"
  using assms ref1_inj den_utf8_inj unfolding den_ref1_def by blast

lemma den_nat_inj:
  assumes "den_nat sl i (n, d)" and "den_nat sl i (n', d')"
    and "valid_string n" "valid_string d" "valid_string n'" "valid_string d'"
  shows "n = n' \<and> d = d'"
  using assms ref2_inj den_utf8_inj unfolding den_nat_def fst_conv snd_conv by metis

lemma den_member_inj:
  assumes "den_member t sl i (c, n, d)" and "den_member t sl i (c', n', d')"
    and "valid_string c" "valid_string n" "valid_string d" "valid_string c'" "valid_string n'" "valid_string d'"
  shows "c = c' \<and> n = n' \<and> d = d'"
  using assms(1,2) ref2_inj den_ref1_inj [OF _ _ assms(3,6)] den_nat_inj [OF _ _ assms(4,5,7,8)]
  unfolding den_member_def fst_conv snd_conv by metis

lemma den_word_inj: "den_word t sl i v \<Longrightarrow> den_word t sl i w \<Longrightarrow> v = w"
  using entry_at_inj [of sl i "CWord t v" "CWord t w"] by (simp add: den_word_def be_inj)

lemma den_wide_inj: "den_wide t sl i v \<Longrightarrow> den_wide t sl i w \<Longrightarrow> v = w"
proof -
  assume "den_wide t sl i v" "den_wide t sl i w"
  then have "(ucast (drop_bit 32 v) :: u32) = ucast (drop_bit 32 w) \<and> (ucast v :: u32) = ucast w"
    unfolding den_wide_def using entry_at_inj cbytes.simps(5) be_inj(3,4) list.inject by metis
  then show "v = w" using wide_join [of v] wide_join [of w] by metis
qed

lemma den_req_tag: "den_req sl i k \<Longrightarrow> \<exists>x. sl ! unat i = Some (req_tag k # x)"
  by (cases k) (auto simp: den_utf8_def den_ref1_def den_nat_def den_member_def den_word_def den_wide_def entry_at_def)

lemmas den_injs = den_utf8_inj den_ref1_inj den_nat_inj den_member_inj den_word_inj den_wide_inj

lemma den_req_inj:
  assumes "den_req sl i k" and "den_req sl i l" and "req_valid k" and "req_valid l"
  shows "k = l"
proof -
  have "req_tag k = req_tag l" using den_req_tag [OF assms(1)] den_req_tag [OF assms(2)] by auto
  then show ?thesis using assms by (cases k; cases l; simp; blast dest: den_injs)
qed

lemmas pool_op_defs = pb_UTF8_def pb_Class_def pb_Long_def pb_Int_def pb_Float_def addRef1_def pb_add_def
  MaxPoolIndex_def Let_def w_u1_def w_u2_def w_u4_def w_raw_def emit_def pb_count_def be_u2_def be_u4_def rest_def

section \<open>Properties\<close>

text \<open>C16: the pool round trip. Whatever constants are requested, in whatever order, if the builder
  reports no error then reading the emitted table (at any position of a file below 4 GiB, for any
  version that has all the tags) succeeds, stops exactly at the end of the table, and every index the
  builder returned resolves through the reader to the constant that was requested for it; and
  requesting it again returns the same index and adds nothing.\<close>

theorem pool_round_trip:
  assumes "requests ks newPoolBuilder = (is, b)" and "pb_err b = None" and "Java7 \<le> vMajor v"
    and "reader_ok r" and "rest r = emit b [] @ t" and "length (rb r) < 2 ^ 32"
  shows "\<exists>p r'. readPool v r = (Some p, r') \<and> rerr r' = None \<and> rest r' = t \<and>
    list_all2 (\<lambda>i k. reads_back p i k \<and> request k b = (i, b)) is ks"
proof -
  note d = requests_den [OF assms(1) new_inv assms(2)]
  then have "table_ok (slots b)" using assms(2) by (simp add: pb_inv_def)
  from pool_of_emit [OF this _ assms(4-6), of v] java7_tags [OF assms(3)] obtain p where
    p: "readPool v r = (Some p, advance (length (emit b [])) r)" "pool_of (slots b) p" by metis
  have "list_all2 (\<lambda>i k. reads_back p i k \<and> request k b = (i, b)) is ks"
    using d den_reads_back [OF p(2)] by (auto elim: list_all2_mono)
  with p(1) assms(4,5) show ?thesis by (auto simp: reader_ok_def)
qed

theorem pool_round_trip_witness:
  "\<exists>p r'. readPool \<lparr>vMajor = 52, vMinor = 0\<rparr>
      \<lparr>rb = [0, 5, 1, 0, 1, 65, 7, 0, 1, 5, 0, 0, 0, 0, 0, 0, 0, 9, 77], roff = 0, rfile = [], rerr = None\<rparr> = (Some p, r') \<and>
    rest r' = [77] \<and> fst (pool_Class 2 p) = Inr (utf8_clean ''A'')"
proof -
  let ?ks = "[RClass ''A'', RLong 9, RClass ''A'']"
  let ?b = "snd (requests ?ks newPoolBuilder)"
  let ?r = "\<lparr>rb = [0, 5, 1, 0, 1, 65, 7, 0, 1, 5, 0, 0, 0, 0, 0, 0, 0, 9, 77], roff = 0, rfile = [], rerr = None\<rparr> :: reader"
  have "EncodedLen ''A'' = 1" "Encode ''A'' = [65]" by code_simp+
  then have 1: "fst (requests ?ks newPoolBuilder) = [2, 3, 2]" "pb_err ?b = None" "rest ?r = emit ?b [] @ [77]"
    by (simp_all add: newPoolBuilder_def pool_op_defs)
  have 2: "requests ?ks newPoolBuilder = ([2, 3, 2], ?b)" using 1(1) by (metis prod.collapse)
  show ?thesis
    using pool_round_trip [OF 2 1(2) _ _ 1(3), of "\<lparr>vMajor = 52, vMinor = 0\<rparr>"]
    by (auto simp: reader_ok_def)
qed

text \<open>C18: interning neither merges nor duplicates. For any sequence of requests with valid strings
  that ends without an error, two requests were given the same index exactly when they are the same
  request (same kind of constant, same contents; floats and doubles compare by bit pattern).\<close>

theorem interning_injective:
  assumes "requests ks newPoolBuilder = (is, b)" and "pb_err b = None" and "list_all req_valid ks"
    and "j < length ks" and "m < length ks"
  shows "is ! j = is ! m \<longleftrightarrow> ks ! j = ks ! m"
proof -
  have d: "list_all2 (\<lambda>i k. den_req (slots b) i k \<and> request k b = (i, b)) is ks"
    using requests_den [OF assms(1) new_inv assms(2)] by blast
  then have l: "length is = length ks" by (rule list_all2_lengthD)
  have j: "den_req (slots b) (is ! j) (ks ! j)" "request (ks ! j) b = (is ! j, b)"
    and m: "den_req (slots b) (is ! m) (ks ! m)" "request (ks ! m) b = (is ! m, b)"
    using list_all2_nthD [OF d] l assms(4,5) by auto
  have v: "req_valid (ks ! j)" "req_valid (ks ! m)" using assms(3-5) by (auto simp: list_all_length)
  show ?thesis using den_req_inj [OF j(1) _ v] m j(2) by auto
qed

theorem interning_injective_witness:
  "fst (requests [RFloat 0, RInt 0, RFloat 0x80000000, RFloat 0] newPoolBuilder) ! 0 =
   fst (requests [RFloat 0, RInt 0, RFloat 0x80000000, RFloat 0] newPoolBuilder) ! 3"
proof -
  let ?ks = "[RFloat 0, RInt 0, RFloat 0x80000000, RFloat 0]"
  have "pb_err (snd (requests ?ks newPoolBuilder)) = None" by (simp add: newPoolBuilder_def pool_op_defs)
  then show ?thesis
    using interning_injective [of ?ks "fst (requests ?ks newPoolBuilder)" "snd (requests ?ks newPoolBuilder)" 0 3]
    by simp
qed

end
