(* ===== verification/Instr.thy ===== *)
theory Instr
  imports Op ByteIO "HOL-Library.Monad_Syntax"
begin

unbundle bit_operations_syntax

text \<open>
  Instructions of a code array: \<^verbatim>\<open>src/classfile/code.go\<close>. An \<open>Instr\<close> is a slice of the code array
  with accessors for its operands; \<open>Iter\<close> walks the array. An index or slice expression that Go
  would refuse at run time is the value \<^const>\<open>None\<close> of the option monad, so that "the accessors
  of an instruction the iterator returned never panic" is a theorem. The theory shows that the
  iterator cuts the array into complete instructions without gap or overlap, in finitely many
  steps.
\<close>

section \<open>Go's bounds checks\<close>

definition slice_from :: "nat \<Rightarrow> bytes \<Rightarrow> bytes option" where
  "slice_from n b = (if n \<le> length b then Some (drop n b) else None)"

definition index_at :: "nat \<Rightarrow> bytes \<Rightarrow> u8 option" where
  "index_at n b = (if n < length b then Some (b ! n) else None)"

definition be16 :: "bytes \<Rightarrow> u16 option" where
  "be16 b = do {
     x \<leftarrow> index_at 0 b; y \<leftarrow> index_at 1 b;
     Some (push_bit 8 (ucast x) OR ucast y) }"

text \<open>\<open>be32\<close> returns an \<open>int32\<close>; here it is the 32 bits, read as signed where the source does.\<close>

definition be32 :: "bytes \<Rightarrow> u32 option" where
  "be32 b = do {
     x0 \<leftarrow> index_at 0 b; x1 \<leftarrow> index_at 1 b; x2 \<leftarrow> index_at 2 b; x3 \<leftarrow> index_at 3 b;
     Some (push_bit 24 (ucast x0) OR push_bit 16 (ucast x1) OR push_bit 8 (ucast x2) OR ucast x3) }"

section \<open>Instructions\<close>

record instr =
  inOp :: opcode
  inPC :: u32
  inWide :: bool
  inRaw :: bytes

definition instr_Len :: "instr \<Rightarrow> nat" where
  "instr_Len i = length (inRaw i)"

definition operands :: "instr \<Rightarrow> bytes option" where
  "operands i = (if inWide i then slice_from 2 (inRaw i) else slice_from 1 (inRaw i))"

definition instr_Index :: "instr \<Rightarrow> u16 option" where
  "instr_Index i = do {
     b \<leftarrow> operands i;
     if op_Kind (inOp i) = ConstU1 then map_option ucast (index_at 0 b)
     else if op_Kind (inOp i) \<in> {ConstU2, MultiK, InterfaceK, DynamicK} then be16 b
     else Some 0 }"

definition instr_Local :: "instr \<Rightarrow> u16 option" where
  "instr_Local i = do {
     b \<leftarrow> operands i;
     if op_Kind (inOp i) \<in> {Local, IincK} then
       (if inWide i then be16 b else map_option ucast (index_at 0 b))
     else if inOp i \<ge> Iload0 \<and> inOp i \<le> Aload3 then Some (ucast ((inOp i - Iload0) mod 4))
     else if inOp i \<ge> Istore0 \<and> inOp i \<le> Astore3 then Some (ucast ((inOp i - Istore0) mod 4))
     else Some 0 }"

definition instr_Increment :: "instr \<Rightarrow> int option" where
  "instr_Increment i =
     (if inOp i \<noteq> Iinc then Some 0
      else do {
        b \<leftarrow> operands i;
        if inWide i then do { d \<leftarrow> slice_from 2 b; map_option sint (be16 d) }
        else map_option sint (index_at 1 b) })"

definition instr_Immediate :: "instr \<Rightarrow> int option" where
  "instr_Immediate i = do {
     b \<leftarrow> operands i;
     if inOp i = Bipush then map_option sint (index_at 0 b)
     else if inOp i = Sipush then map_option sint (be16 b)
     else Some 0 }"

definition instr_Target :: "instr \<Rightarrow> u32 option" where
  "instr_Target i = do {
     b \<leftarrow> operands i;
     if op_Kind (inOp i) = Branch2 then map_option (\<lambda>x. inPC i + scast x) (be16 b)
     else if op_Kind (inOp i) = Branch4 then map_option (\<lambda>x. inPC i + x) (be32 b)
     else Some 0 }"

definition instr_ArrayType :: "instr \<Rightarrow> u8 option" where
  "instr_ArrayType i =
     (if inOp i \<noteq> Newarray then Some 0 else do { b \<leftarrow> operands i; index_at 0 b })"

definition instr_Dimensions :: "instr \<Rightarrow> u8 option" where
  "instr_Dimensions i =
     (if inOp i \<noteq> Multianewarray then Some 0 else do { b \<leftarrow> operands i; index_at 2 b })"

section \<open>Switches\<close>

record switch_case =
  scMatch :: u32
  scTarget :: u32

definition switch_pad :: "u32 \<Rightarrow> nat" where
  "switch_pad pc = unat ((4 - (pc + 1) mod 4) mod 4)"

text \<open>The two case loops, from the \<open>k\<close>-th case on, \<open>n\<close> of them left.\<close>

fun table_cases :: "u32 \<Rightarrow> u32 \<Rightarrow> bytes \<Rightarrow> nat \<Rightarrow> nat \<Rightarrow> switch_case list option" where
  "table_cases pc low b k 0 = Some []"
| "table_cases pc low b k (Suc n) = do {
     d \<leftarrow> slice_from (12 + 4 * k) b;
     off \<leftarrow> be32 d;
     cs \<leftarrow> table_cases pc low b (k + 1) n;
     Some (\<lparr>scMatch = low + word_of_nat k, scTarget = pc + off\<rparr> # cs) }"

fun lookup_cases :: "u32 \<Rightarrow> bytes \<Rightarrow> nat \<Rightarrow> nat \<Rightarrow> switch_case list option" where
  "lookup_cases pc b k 0 = Some []"
| "lookup_cases pc b k (Suc n) = do {
     d \<leftarrow> slice_from (8 + 8 * k) b;
     match \<leftarrow> be32 d;
     e \<leftarrow> slice_from (12 + 8 * k) b;
     off \<leftarrow> be32 e;
     cs \<leftarrow> lookup_cases pc b (k + 1) n;
     Some (\<lparr>scMatch = match, scTarget = pc + off\<rparr> # cs) }"

definition instr_Switch :: "instr \<Rightarrow> (u32 \<times> switch_case list) option" where
  "instr_Switch i = do {
     b \<leftarrow> slice_from (1 + switch_pad (inPC i)) (inRaw i);
     if length b < 4 then Some (0, [])
     else do {
       d \<leftarrow> be32 b;
       let dflt = inPC i + d;
       if inOp i = Tableswitch then
         (if length b < 12 then Some (dflt, [])
          else do {
            b4 \<leftarrow> slice_from 4 b; low \<leftarrow> be32 b4;
            b8 \<leftarrow> slice_from 8 b; high \<leftarrow> be32 b8;
            if sint high < sint low then Some (dflt, [])
            else
              let n = sint high - sint low + 1 in
              if 12 + 4 * n > int (length b) then Some (dflt, [])
              else map_option (\<lambda>cs. (dflt, cs)) (table_cases (inPC i) low b 0 (nat n)) })
       else if inOp i = Lookupswitch then
         (if length b < 8 then Some (dflt, [])
          else do {
            b4 \<leftarrow> slice_from 4 b; w \<leftarrow> be32 b4;
            let n = sint w;
            if n < 0 \<or> 8 + 8 * n > int (length b) then Some (dflt, [])
            else map_option (\<lambda>cs. (dflt, cs)) (lookup_cases (inPC i) b 0 (nat n)) })
       else Some (dflt, []) } }"

section \<open>Walking a code array\<close>

datatype code_error =
    BadOpcode u32 u8
  | WideAtEnd u32
  | WideApplied u32 opcode
  | PastEnd u32 opcode int
  | TruncatedInstr u32 opcode
  | HighBelowLow u32 int int
  | TooManyCases u32 int
  | TooManyPairs u32 int
  | NoLengthRule u32 opcode

record iter =
  itCode :: bytes
  itPc :: u32
  itCur :: instr
  itErr :: "code_error option"

definition zero_instr :: instr where
  "zero_instr = \<lparr>inOp = 0, inPC = 0, inWide = False, inRaw = []\<rparr>"

definition code_Iter :: "bytes \<Rightarrow> iter" where
  "code_Iter b = \<lparr>itCode = b, itPc = 0, itCur = zero_instr, itErr = None\<rparr>"

text \<open>\<open>instrLen\<close>: \<^const>\<open>None\<close> is a panic, \<^const>\<open>Inl\<close> the error it returns.\<close>

definition instrLen :: "bytes \<Rightarrow> u32 \<Rightarrow> opcode \<Rightarrow> bool \<Rightarrow> (code_error + int) option" where
  "instrLen code pc o' wide =
     (if wide then (if o' = Iinc then Some (Inr 6) else Some (Inr 4))
      else if op_Len o' \<ge> 0 then Some (Inr (op_Len o'))
      else
        let pad = switch_pad pc; base = unat pc + 1 + pad in
        if o' = Tableswitch then
          (if base + 12 > length code then Some (Inl (TruncatedInstr pc o'))
           else do {
             b4 \<leftarrow> slice_from (base + 4) code; low \<leftarrow> be32 b4;
             b8 \<leftarrow> slice_from (base + 8) code; high \<leftarrow> be32 b8;
             if sint high < sint low then Some (Inl (HighBelowLow pc (sint high) (sint low)))
             else
               let n = sint high - sint low + 1 in
               if n > int (length code) then Some (Inl (TooManyCases pc n))
               else Some (Inr (1 + int pad + 12 + 4 * n)) })
        else if o' = Lookupswitch then
          (if base + 8 > length code then Some (Inl (TruncatedInstr pc o'))
           else do {
             b4 \<leftarrow> slice_from (base + 4) code; w \<leftarrow> be32 b4;
             let n = sint w;
             if n < 0 \<or> n * 8 > int (length code) then Some (Inl (TooManyPairs pc n))
             else Some (Inr (1 + int pad + 8 + 8 * n)) })
        else Some (Inl (NoLengthRule pc o')))"

definition it_fail :: "code_error \<Rightarrow> iter \<Rightarrow> (bool \<times> iter) option" where
  "it_fail e it = Some (False, it\<lparr>itErr := Some e\<rparr>)"

text \<open>The second half of \<open>Next\<close>, once the opcode and a wide prefix are read.\<close>

definition next_body :: "iter \<Rightarrow> opcode \<Rightarrow> bool \<Rightarrow> (bool \<times> iter) option" where
  "next_body it o' wide = do {
     let pc = itPc it;
     r \<leftarrow> instrLen (itCode it) pc o' wide;
     case r of
       Inl e \<Rightarrow> it_fail e it
     | Inr n \<Rightarrow>
         if int (unat pc) + n > int (length (itCode it))
         then it_fail (PastEnd pc o' (int (unat pc) + n - int (length (itCode it)))) it
         else Some (True, it\<lparr>
           itCur := \<lparr>inOp = o', inPC = pc, inWide = wide,
                     inRaw = take (nat n) (drop (unat pc) (itCode it))\<rparr>,
           itPc := pc + word_of_int n\<rparr>) }"

definition Next :: "iter \<Rightarrow> (bool \<times> iter) option" where
  "Next it =
     (if itErr it \<noteq> None \<or> unat (itPc it) \<ge> length (itCode it) then Some (False, it)
      else do {
        let pc = itPc it;
        o' \<leftarrow> index_at (unat pc) (itCode it);
        if \<not> op_Valid o' then it_fail (BadOpcode pc o') it
        else if o' = Wide then
          (if unat pc + 1 \<ge> length (itCode it) then it_fail (WideAtEnd pc) it
           else do {
             inner \<leftarrow> index_at (unat (pc + 1)) (itCode it);
             if op_Kind inner \<in> {Local, IincK} then next_body it inner True
             else it_fail (WideApplied pc inner) it })
        else next_body it o' False })"

text \<open>The loop every client writes: call \<open>Next\<close> until it says no. The fuel bounds the number of
  calls; \<^const>\<open>None\<close> is a panic or too little fuel.\<close>

fun drain :: "nat \<Rightarrow> iter \<Rightarrow> (instr list \<times> iter) option" where
  "drain 0 it = None"
| "drain (Suc n) it = do {
     r \<leftarrow> Next it;
     if fst r then map_option (\<lambda>(is, e). (itCur (snd r) # is, e)) (drain n (snd r))
     else Some ([], snd r) }"

section \<open>Lemmas on bounds checks\<close>

lemma slice_from_Some [simp]: "n \<le> length b \<Longrightarrow> slice_from n b = Some (drop n b)"
  by (simp add: slice_from_def)

lemma index_at_Some [simp]: "n < length b \<Longrightarrow> index_at n b = Some (b ! n)"
  by (simp add: index_at_def)

text \<open>The word at the start of a byte string that is long enough.\<close>

definition word16 :: "bytes \<Rightarrow> u16" where
  "word16 b = push_bit 8 (ucast (b ! 0)) OR ucast (b ! 1)"

definition word32 :: "bytes \<Rightarrow> u32" where
  "word32 b = push_bit 24 (ucast (b ! 0)) OR push_bit 16 (ucast (b ! 1)) OR push_bit 8 (ucast (b ! 2)) OR ucast (b ! 3)"

lemma be16_Some [simp]: "2 \<le> length b \<Longrightarrow> be16 b = Some (word16 b)"
  by (auto simp: be16_def word16_def index_at_def)

lemma be32_Some [simp]: "4 \<le> length b \<Longrightarrow> be32 b = Some (word32 b)"
  by (auto simp: be32_def word32_def index_at_def)

lemma switch_pad_lt: "switch_pad pc \<le> 3"
proof -
  have "unat (x mod 4) < 4" for x :: u32 by (simp add: unat_mod)
  then show ?thesis unfolding switch_pad_def by (metis less_Suc_eq_le numeral_eq_Suc pred_numeral_simps(2) semiring_norm(26) semiring_norm(27))
qed

lemma word32_take: "4 \<le> n \<Longrightarrow> word32 (take n b) = word32 b"
  by (simp add: word32_def)

section \<open>Complete instructions\<close>

text \<open>The length the operand shape dictates; a switch is as long as its own header says.\<close>

definition table_len :: "instr \<Rightarrow> bool" where
  "table_len i \<longleftrightarrow> (let b = drop (1 + switch_pad (inPC i)) (inRaw i); low = word32 (drop 4 b); high = word32 (drop 8 b) in
     sint low \<le> sint high \<and> int (length b) = 12 + 4 * (sint high - sint low + 1) \<and>
     1 + switch_pad (inPC i) + length b = length (inRaw i))"

definition lookup_len :: "instr \<Rightarrow> bool" where
  "lookup_len i \<longleftrightarrow> (let b = drop (1 + switch_pad (inPC i)) (inRaw i); n = sint (word32 (drop 4 b)) in
     0 \<le> n \<and> int (length b) = 8 + 8 * n \<and> 1 + switch_pad (inPC i) + length b = length (inRaw i))"

definition complete :: "instr \<Rightarrow> bool" where
  "complete i \<longleftrightarrow>
     (if inWide i then op_Kind (inOp i) \<in> {Local, IincK} \<and> length (inRaw i) = (if inOp i = Iinc then 6 else 4)
      else op_Valid (inOp i) \<and> inOp i \<noteq> Wide \<and>
        (if inOp i = Tableswitch then table_len i
         else if inOp i = Lookupswitch then lookup_len i
         else int (length (inRaw i)) = shape_len (op_Kind (inOp i))))"

definition kind_pins :: "opcode \<Rightarrow> op_kind \<Rightarrow> bool" where
  "kind_pins o' k \<longleftrightarrow> (k = TableswitchK \<longleftrightarrow> o' = Tableswitch) \<and> (k = LookupswitchK \<longleftrightarrow> o' = Lookupswitch) \<and>
     (k = WideK \<longleftrightarrow> o' = Wide) \<and> (k = IincK \<longleftrightarrow> o' = Iinc) \<and> (k = NewarrayK \<longleftrightarrow> o' = Newarray) \<and>
     (k = MultiK \<longleftrightarrow> o' = Multianewarray) \<and> (k = Byte1 \<longleftrightarrow> o' = Bipush) \<and> (k = Short2 \<longleftrightarrow> o' = Sipush)"

lemma table_kinds: "list_all (\<lambda>(o', i). kind_pins o' (iKind i)) table"
  by code_simp

lemma op_kind_pins: "kind_pins o' (op_Kind o')"
proof (cases rule: op_entry_cases [of o'])
  case (1 i)
  then show ?thesis using table_kinds by (auto simp: op_Kind_def list_all_iff)
next
  case 2
  then have "0xCB \<le> unat o'" by (intro unassigned_opcode)
  then have "o' \<noteq> Tableswitch" "o' \<noteq> Lookupswitch" "o' \<noteq> Wide" "o' \<noteq> Iinc" "o' \<noteq> Newarray" "o' \<noteq> Multianewarray"
    "o' \<noteq> Bipush" "o' \<noteq> Sipush" by auto
  then show ?thesis using 2 by (simp add: kind_pins_def op_Kind_def)
qed

lemmas op_kinds = op_kind_pins [unfolded kind_pins_def, THEN conjunct1]
  op_kind_pins [unfolded kind_pins_def, THEN conjunct2, THEN conjunct1]
  op_kind_pins [unfolded kind_pins_def, THEN conjunct2, THEN conjunct2, THEN conjunct1]
  op_kind_pins [unfolded kind_pins_def, THEN conjunct2, THEN conjunct2, THEN conjunct2, THEN conjunct1]
  op_kind_pins [unfolded kind_pins_def, THEN conjunct2, THEN conjunct2, THEN conjunct2, THEN conjunct2]

lemma shape_len_neg: "op_Valid o' \<Longrightarrow> shape_len (op_Kind o') < 0 \<longleftrightarrow> o' = Tableswitch \<or> o' = Lookupswitch \<or> o' = Wide"
  using op_kinds [of o'] by (cases "op_Kind o'") (auto simp: op_Valid_def)

lemma shape_len_pos: "0 \<le> shape_len k \<Longrightarrow> 1 \<le> shape_len k"
  by (cases k) auto

section \<open>One step of the iterator\<close>

lemma instrLen_total: "\<exists>r. instrLen code pc o' wide = Some r"
  by (auto simp: instrLen_def Let_def)

lemma raw_length:
  assumes "int (unat (pc :: u32)) + n \<le> int (length code)" and "0 \<le> n"
  shows "length (take (nat n) (drop (unat pc) code)) = nat n"
proof -
  have "unat pc + nat n \<le> length code" using assms by linarith
  then show ?thesis by simp
qed

text \<open>A length that fits makes the instruction complete.\<close>

lemma instrLen_complete:
  assumes "instrLen code pc o' wide = Some (Inr n)" and "int (unat pc) + n \<le> int (length code)"
    and "if wide then op_Kind o' \<in> {Local, IincK} else op_Valid o' \<and> o' \<noteq> Wide"
  shows "0 < n \<and> complete \<lparr>inOp = o', inPC = pc, inWide = wide, inRaw = take (nat n) (drop (unat pc) code)\<rparr>"
proof (cases "\<not> wide \<and> (o' = Tableswitch \<or> o' = Lookupswitch)")
  case False
  then have "n = (if wide then if o' = Iinc then 6 else 4 else op_Len o')" "0 < n"
    using assms(1,3) shape_len_neg [of o'] shape_len_pos [of "op_Kind o'"] op_len_shape [of o']
    by (auto simp: instrLen_def split: if_splits)
  moreover have "length (take (nat n) (drop (unat pc) code)) = nat n" using raw_length [OF assms(2)] calculation by simp
  ultimately show ?thesis using assms(3) False op_len_shape [of o']
    by (simp add: complete_def del: length_take) auto
next
  case True
  then have len: "\<not> 0 \<le> op_Len o'" using assms(3) shape_len_neg [of o'] op_len_shape [of o'] by auto
  let ?p = "switch_pad pc" and ?raw = "take (nat n) (drop (unat pc) code)"
  have raw: "0 \<le> n \<Longrightarrow> length ?raw = nat n" using raw_length [OF assms(2)] by simp
  have dr: "drop (1 + ?p) ?raw = take (nat n - (1 + ?p)) (drop (unat pc + 1 + ?p) code)"
    by (simp add: drop_take add.commute add.left_commute)
  from True show ?thesis
  proof (elim conjE disjE)
    assume o': "o' = Tableswitch" and w: "\<not> wide"
    let ?low = "word32 (drop (unat pc + 1 + ?p + 4) code)" and ?high = "word32 (drop (unat pc + 1 + ?p + 8) code)"
    have n: "sint ?low \<le> sint ?high" "n = 1 + int ?p + 12 + 4 * (sint ?high - sint ?low + 1)"
      using assms(1) o' w len by (auto simp: instrLen_def Let_def split: if_splits)
    then have "word32 (drop 4 (drop (1 + ?p) ?raw)) = ?low" "word32 (drop 8 (drop (1 + ?p) ?raw)) = ?high"
      unfolding dr drop_take by (subst word32_take; simp add: add.commute)+
    then show ?thesis using n o' w assms(3) raw by (simp add: complete_def table_len_def Let_def)
  next
    assume o': "o' = Lookupswitch" and w: "\<not> wide"
    let ?n = "word32 (drop (unat pc + 1 + ?p + 4) code)"
    have n: "0 \<le> sint ?n" "n = 1 + int ?p + 8 + 8 * sint ?n"
      using assms(1) o' w len by (auto simp: instrLen_def Let_def split: if_splits)
    then have "word32 (drop 4 (drop (1 + ?p) ?raw)) = ?n"
      unfolding dr drop_take by (subst word32_take; simp add: add.commute)
    then show ?thesis using n o' w assms(3) raw by (simp add: complete_def lookup_len_def Let_def)
  qed
qed

text \<open>A step never panics; a step that yields an instruction yields a complete one, taken from the
  cursor, and moves the cursor past it.\<close>

definition iter_ok :: "iter \<Rightarrow> bool" where
  "iter_ok it \<longleftrightarrow> length (itCode it) < 2 ^ 32 \<and> unat (itPc it) \<le> length (itCode it)"

definition headed :: "instr \<Rightarrow> bool" where
  "headed i \<longleftrightarrow> (if inWide i then inRaw i ! 0 = Wide \<and> inRaw i ! 1 = inOp i else inRaw i ! 0 = inOp i)"

lemma next_body_cases:
  assumes "iter_ok it" and "if wide then op_Kind o' \<in> {Local, IincK} else op_Valid o' \<and> o' \<noteq> Wide"
    and "if wide then itCode it ! unat (itPc it) = Wide \<and> itCode it ! (unat (itPc it) + 1) = o'
      else itCode it ! unat (itPc it) = o'"
  obtains (err) e where "next_body it o' wide = Some (False, it\<lparr>itErr := Some e\<rparr>)"
  | (instr) i it' where "next_body it o' wide = Some (True, it')" and "it' = it\<lparr>itCur := i, itPc := itPc it'\<rparr>"
      and "complete i \<and> headed i" and "inPC i = itPc it" and "inRaw i \<noteq> []"
      and "inRaw i = take (length (inRaw i)) (drop (unat (itPc it)) (itCode it))"
      and "unat (itPc it') = unat (itPc it) + length (inRaw i)" and "iter_ok it'"
proof -
  let ?pc = "itPc it" and ?code = "itCode it"
  obtain r where r: "instrLen ?code ?pc o' wide = Some r" using instrLen_total by blast
  consider (e) e where "next_body it o' wide = Some (False, it\<lparr>itErr := Some e\<rparr>)"
    | (n) n where "r = Inr n" "int (unat ?pc) + n \<le> int (length ?code)"
  proof (cases r)
    case (Inr n)
    then show ?thesis using r that by (cases "int (unat ?pc) + n \<le> int (length ?code)")
        (auto simp: next_body_def it_fail_def Let_def)
  qed (use r that in \<open>auto simp: next_body_def it_fail_def Let_def\<close>)
  then show thesis
  proof cases
    case e
    then show ?thesis using err by blast
  next
    case n
    let ?i = "\<lparr>inOp = o', inPC = ?pc, inWide = wide, inRaw = take (nat n) (drop (unat ?pc) ?code)\<rparr>"
    let ?it = "it\<lparr>itCur := ?i, itPc := ?pc + word_of_int n\<rparr>"
    have c: "0 < n" "complete ?i" using instrLen_complete [OF _ n(2) assms(2)] r n(1) by auto
    have l: "length (inRaw ?i) = nat n" using raw_length [OF n(2)] c(1) by simp
    have le: "unat ?pc + nat n \<le> length ?code" using n(2) c(1) by linarith
    then have lt: "unat ?pc + nat n < 2 ^ 32" using assms(1) by (simp add: iter_ok_def)
    have "word_of_int n = (word_of_nat (nat n) :: u32)" using c(1) by (metis nat_0_le of_int_of_nat_eq less_imp_le)
    then have adv: "unat (?pc + word_of_int n) = unat ?pc + nat n"
      using lt by (simp add: unat_word_ariths unsigned_of_nat take_bit_nat_eq_self)
    show thesis
    proof (rule instr [of ?it ?i])
      show "next_body it o' wide = Some (True, ?it)" using r n by (simp add: next_body_def Let_def)
      show "inRaw ?i \<noteq> []" using l c(1) by fastforce
      show "unat (itPc ?it) = unat ?pc + length (inRaw ?i)" using adv l by simp
      show "iter_ok ?it" using adv le assms(1) by (simp add: iter_ok_def)
      show "inRaw ?i = take (length (inRaw ?i)) (drop (unat ?pc) ?code)" unfolding l by simp
      have "wide \<Longrightarrow> 1 < nat n" using c(2) l by (auto simp: complete_def split: if_splits)
      then show "complete ?i \<and> headed ?i" using c assms(3) le by (auto simp: headed_def)
    qed simp_all
  qed
qed

lemma Next_cases:
  assumes "iter_ok it"
  obtains (stop) "Next it = Some (False, it)" and "itErr it \<noteq> None \<or> unat (itPc it) = length (itCode it)"
  | (err) e where "Next it = Some (False, it\<lparr>itErr := Some e\<rparr>)" and "itErr it = None"
  | (instr) i it' where "Next it = Some (True, it')" and "it' = it\<lparr>itCur := i, itPc := itPc it'\<rparr>" and "itErr it = None"
      and "complete i \<and> headed i" and "inPC i = itPc it" and "inRaw i \<noteq> []"
      and "inRaw i = take (length (inRaw i)) (drop (unat (itPc it)) (itCode it))"
      and "unat (itPc it') = unat (itPc it) + length (inRaw i)" and "iter_ok it'"
proof -
  let ?pc = "itPc it" and ?code = "itCode it"
  consider (s) "itErr it \<noteq> None \<or> length ?code \<le> unat ?pc" | (r) "itErr it = None" "unat ?pc < length ?code" by linarith
  then show thesis
  proof cases
    case s
    then show thesis using stop assms by (auto simp: Next_def iter_ok_def)
  next
    case r
    have pc1: "unat (?pc + 1) = unat ?pc + 1" if "unat ?pc + 1 < length ?code"
      using that assms by (simp add: iter_ok_def unat_word_ariths)
    have nx: "Next it = (let o' = ?code ! unat ?pc in
        if \<not> op_Valid o' then it_fail (BadOpcode ?pc o') it
        else if o' = Wide then
          (if length ?code \<le> unat ?pc + 1 then it_fail (WideAtEnd ?pc) it
           else let inner = ?code ! (unat ?pc + 1) in
             if op_Kind inner \<in> {Local, IincK} then next_body it inner True else it_fail (WideApplied ?pc inner) it)
        else next_body it o' False)"
      using r pc1 by (simp add: Next_def Let_def)
    then consider (e) e where "Next it = Some (False, it\<lparr>itErr := Some e\<rparr>)"
      | (b) o' wide where "Next it = next_body it o' wide"
          "if wide then op_Kind o' \<in> {Local, IincK} else op_Valid o' \<and> o' \<noteq> Wide"
          "if wide then ?code ! unat ?pc = Wide \<and> ?code ! (unat ?pc + 1) = o' else ?code ! unat ?pc = o'"
      by (fastforce simp: it_fail_def Let_def split: if_splits)
    then show thesis
    proof cases
      case e
      then show thesis using err r by blast
    next
      case b
      show thesis by (rule next_body_cases [OF assms b(2,3)]) (use b(1) r err instr in auto)
    qed
  qed
qed

section \<open>The whole walk\<close>

text \<open>A list of instructions laid end to end from \<open>pc\<close> on.\<close>

fun laid_out :: "bytes \<Rightarrow> nat \<Rightarrow> instr list \<Rightarrow> nat \<Rightarrow> bool" where
  "laid_out code pc [] end_pc \<longleftrightarrow> pc = end_pc"
| "laid_out code pc (i # is) end_pc \<longleftrightarrow>
     unat (inPC i) = pc \<and> complete i \<and> headed i \<and> inRaw i \<noteq> [] \<and> inRaw i = take (length (inRaw i)) (drop pc code) \<and>
     laid_out code (pc + length (inRaw i)) is end_pc"

lemma laid_out_concat:
  "laid_out code pc is e \<Longrightarrow> e \<le> length code \<Longrightarrow> pc \<le> e \<and> concat (map inRaw is) = take (e - pc) (drop pc code)"
proof (induction "is" arbitrary: pc)
  case (Cons i "is")
  let ?n = "length (inRaw i)"
  have ih: "pc + ?n \<le> e" "concat (map inRaw is) = take (e - (pc + ?n)) (drop (pc + ?n) code)"
    using Cons by auto
  then have "take (e - pc) (drop pc code) = take ?n (drop pc code) @ take (e - pc - ?n) (drop ?n (drop pc code))"
    by (metis (no_types, lifting) add_le_imp_le_diff add.commute le_add_diff_inverse take_add)
  with ih Cons.prems show ?case by (simp add: add.commute)
qed simp

lemma drain_laid_out:
  assumes "iter_ok it" and "length (itCode it) - unat (itPc it) < n"
  shows "\<exists>is it'. drain n it = Some (is, it') \<and> iter_ok it' \<and> itCode it' = itCode it \<and>
    laid_out (itCode it) (unat (itPc it)) is (unat (itPc it')) \<and>
    (itErr it' = None \<longrightarrow> unat (itPc it') = length (itCode it))"
  using assms
proof (induction n arbitrary: it)
  case (Suc n)
  show ?case using Suc.prems(1)
  proof (cases rule: Next_cases)
    case stop
    then show ?thesis using Suc.prems(1) by auto
  next
    case (err e)
    then show ?thesis using Suc.prems(1) by (auto simp: iter_ok_def)
  next
    case (instr i it')
    have code: "itCode it' = itCode it" "itCur it' = i" using instr(2) by (metis iter.simps iter.select_convs iter.surjective iter.update_convs)+
    have "length (itCode it') - unat (itPc it') < n"
      using Suc.prems(2) instr(6,8,9) code by (cases "inRaw i") (auto simp: iter_ok_def)
    from Suc.IH [OF instr(9) this] obtain "is" it2 where
      "drain n it' = Some (is, it2)" "iter_ok it2" "itCode it2 = itCode it'"
      "laid_out (itCode it') (unat (itPc it')) is (unat (itPc it2))"
      "itErr it2 = None \<longrightarrow> unat (itPc it2) = length (itCode it')" by (elim exE conjE)
    then show ?thesis using instr code by (intro exI [of _ "i # is"] exI [of _ it2]) auto
  qed
qed simp

section \<open>The accessors of a complete instruction\<close>

lemma complete_wide:
  assumes "complete i" and "inWide i"
  shows "operands i = Some (drop 2 (inRaw i))" and "length (inRaw i) = (if inOp i = Iinc then 6 else 4)"
    and "op_Kind (inOp i) \<in> {Local, IincK}"
  using assms by (auto simp: complete_def operands_def)

lemma complete_narrow:
  assumes "complete i" and "\<not> inWide i"
  shows "operands i = Some (drop 1 (inRaw i))" and "1 \<le> length (inRaw i)"
    and "inOp i \<noteq> Tableswitch \<Longrightarrow> inOp i \<noteq> Lookupswitch \<Longrightarrow> int (length (inRaw i)) = shape_len (op_Kind (inOp i))"
    and "op_Valid (inOp i)"
proof -
  show v: "op_Valid (inOp i)" using assms by (simp add: complete_def)
  show s: "inOp i \<noteq> Tableswitch \<Longrightarrow> inOp i \<noteq> Lookupswitch \<Longrightarrow> int (length (inRaw i)) = shape_len (op_Kind (inOp i))"
    using assms by (simp add: complete_def)
  show l: "1 \<le> length (inRaw i)"
  proof (cases "inOp i = Tableswitch \<or> inOp i = Lookupswitch")
    case True
    then show ?thesis using assms by (auto simp: complete_def table_len_def lookup_len_def Let_def)
  next
    case False
    then show ?thesis using s shape_len_pos [of "op_Kind (inOp i)"] by simp
  qed
  then show "operands i = Some (drop 1 (inRaw i))" using assms by (simp add: operands_def)
qed

lemma narrow_kind_len:
  assumes "complete i" and "\<not> inWide i" and "op_Kind (inOp i) = k" and "k \<noteq> TableswitchK" and "k \<noteq> LookupswitchK"
  shows "int (length (inRaw i)) = shape_len k"
  using complete_narrow(3) [OF assms(1,2)] op_kinds(1,2) [of "inOp i"] assms(3-5) by auto

lemma Index_total:
  assumes "complete i"
  shows "instr_Index i \<noteq> None"
proof (cases "inWide i")
  case True
  then show ?thesis using complete_wide [OF assms True] by (auto simp: instr_Index_def)
next
  case False
  then show ?thesis using complete_narrow(1,2) [OF assms False] narrow_kind_len [OF assms False refl]
    by (cases "op_Kind (inOp i)") (auto simp: instr_Index_def)
qed

lemma Local_total:
  assumes "complete i"
  shows "instr_Local i \<noteq> None"
proof (cases "inWide i")
  case True
  then show ?thesis using complete_wide [OF assms True] by (auto simp: instr_Local_def)
next
  case False
  then show ?thesis using complete_narrow(1,2) [OF assms False] narrow_kind_len [OF assms False refl]
    by (cases "op_Kind (inOp i)") (auto simp: instr_Local_def)
qed

lemma Increment_total:
  assumes "complete i"
  shows "instr_Increment i \<noteq> None"
proof (cases "inWide i")
  case True
  then show ?thesis using complete_wide [OF assms True] by (auto simp: instr_Increment_def)
next
  case False
  then show ?thesis
    using complete_narrow(1,2) [OF assms False] narrow_kind_len [OF assms False refl] op_kinds(4) [of "inOp i"]
    by (auto simp: instr_Increment_def)
qed

lemma Immediate_total:
  assumes "complete i"
  shows "instr_Immediate i \<noteq> None"
proof (cases "inWide i")
  case True
  then show ?thesis using complete_wide [OF assms True] by (auto simp: instr_Immediate_def)
next
  case False
  then show ?thesis
    using complete_narrow(1,2) [OF assms False] narrow_kind_len [OF assms False refl] op_kinds(5) [of "inOp i"]
    by (auto simp: instr_Immediate_def)
qed

lemma Target_total:
  assumes "complete i"
  shows "instr_Target i \<noteq> None"
proof (cases "inWide i")
  case True
  then show ?thesis using complete_wide [OF assms True] by (auto simp: instr_Target_def)
next
  case False
  then show ?thesis using complete_narrow(1,2) [OF assms False] narrow_kind_len [OF assms False refl]
    by (cases "op_Kind (inOp i)") (auto simp: instr_Target_def)
qed

lemma ArrayType_total:
  assumes "complete i"
  shows "instr_ArrayType i \<noteq> None \<and> instr_Dimensions i \<noteq> None"
proof (cases "inWide i")
  case True
  then show ?thesis using complete_wide [OF assms True] op_kinds(5) [of "inOp i"]
    by (auto simp: instr_ArrayType_def instr_Dimensions_def)
next
  case False
  then show ?thesis
    using complete_narrow(1,2) [OF assms False] narrow_kind_len [OF assms False refl] op_kinds(5) [of "inOp i"]
    by (auto simp: instr_ArrayType_def instr_Dimensions_def)
qed

text \<open>The case loops of a switch whose table is all there.\<close>

lemma table_cases_Some:
  "12 + 4 * (k + n) \<le> length b \<Longrightarrow> table_cases pc low b k n =
     Some (map (\<lambda>j. \<lparr>scMatch = low + word_of_nat j, scTarget = pc + word32 (drop (12 + 4 * j) b)\<rparr>) [k ..< k + n])"
proof (induction n arbitrary: k)
  case (Suc n)
  have "[k ..< k + Suc n] = k # [k + 1 ..< k + 1 + n]" by (simp add: upt_conv_Cons)
  then show ?case using Suc.IH [of "k + 1"] Suc.prems by simp
qed simp

lemma lookup_cases_Some:
  "8 + 8 * (k + n) \<le> length b \<Longrightarrow> lookup_cases pc b k n =
     Some (map (\<lambda>j. \<lparr>scMatch = word32 (drop (8 + 8 * j) b), scTarget = pc + word32 (drop (12 + 8 * j) b)\<rparr>) [k ..< k + n])"
proof (induction n arbitrary: k)
  case (Suc n)
  have "[k ..< k + Suc n] = k # [k + 1 ..< k + 1 + n]" by (simp add: upt_conv_Cons)
  then show ?case using Suc.IH [of "k + 1"] Suc.prems by simp
qed simp

lemma complete_switch_narrow: "complete i \<Longrightarrow> inOp i = Tableswitch \<or> inOp i = Lookupswitch \<Longrightarrow> \<not> inWide i"
  using op_kinds(1,2) [of "inOp i"] by (auto simp: complete_def)

lemma complete_table: "complete i \<Longrightarrow> inOp i = Tableswitch \<Longrightarrow> table_len i"
  using complete_switch_narrow [of i] complete_def [of i] by force

lemma complete_lookup: "complete i \<Longrightarrow> inOp i = Lookupswitch \<Longrightarrow> lookup_len i"
  using complete_switch_narrow [of i] complete_def [of i] by force

lemma Switch_table:
  assumes "complete i" and "inOp i = Tableswitch"
  shows "\<exists>b low high. b = drop (1 + switch_pad (inPC i)) (inRaw i) \<and> low = word32 (drop 4 b) \<and> high = word32 (drop 8 b) \<and>
    sint low \<le> sint high \<and> instr_Switch i = Some (inPC i + word32 b,
      map (\<lambda>j. \<lparr>scMatch = low + word_of_nat j, scTarget = inPC i + word32 (drop (12 + 4 * j) b)\<rparr>)
        [0 ..< nat (sint high - sint low + 1)])"
proof -
  obtain b where b: "b = drop (1 + switch_pad (inPC i)) (inRaw i)" by simp
  obtain low high where w: "low = word32 (drop 4 b)" "high = word32 (drop 8 b)" by simp
  have t: "sint low \<le> sint high" "int (length b) = 12 + 4 * (sint high - sint low + 1)"
    "1 + switch_pad (inPC i) + length b = length (inRaw i)"
    using complete_table [OF assms] unfolding table_len_def Let_def b w by blast+
  have "int (12 + 4 * (0 + nat (sint high - sint low + 1))) \<le> int (length b)" using t(1,2) by simp
  then have l: "12 + 4 * (0 + nat (sint high - sint low + 1)) \<le> length b" by (simp only: of_nat_le_iff)
  have l12: "12 \<le> length b" using l by linarith
  have s: "slice_from (1 + switch_pad (inPC i)) (inRaw i) = Some b" unfolding b using t(3) by (intro slice_from_Some) linarith
  have f: "\<not> int (length b) < 12 + 4 * (sint high - sint low + 1)" "\<not> sint high < sint low" using t(1,2) by simp_all
  have h: "slice_from 4 b = Some (drop 4 b)" "be32 (drop 4 b) = Some low" "slice_from 8 b = Some (drop 8 b)"
    "be32 (drop 8 b) = Some high" "be32 b = Some (word32 b)" using l12 w by simp_all
  have "instr_Switch i = map_option (\<lambda>cs. (inPC i + word32 b, cs)) (table_cases (inPC i) low b 0 (nat (sint high - sint low + 1)))"
    unfolding instr_Switch_def s using l12 f h assms(2) by (simp add: Let_def)
  then show ?thesis using table_cases_Some [OF l] t(1) b w
    by (intro exI [of _ b] exI [of _ low] exI [of _ high]) simp
qed

lemma Switch_lookup:
  assumes "complete i" and "inOp i = Lookupswitch"
  shows "\<exists>b n. b = drop (1 + switch_pad (inPC i)) (inRaw i) \<and> n = sint (word32 (drop 4 b)) \<and> 0 \<le> n \<and>
    instr_Switch i = Some (inPC i + word32 b,
      map (\<lambda>j. \<lparr>scMatch = word32 (drop (8 + 8 * j) b), scTarget = inPC i + word32 (drop (12 + 8 * j) b)\<rparr>) [0 ..< nat n])"
proof -
  obtain b where b: "b = drop (1 + switch_pad (inPC i)) (inRaw i)" by simp
  obtain n where n: "n = word32 (drop 4 b)" by simp
  have t: "0 \<le> sint n" "int (length b) = 8 + 8 * sint n" "1 + switch_pad (inPC i) + length b = length (inRaw i)"
    using complete_lookup [OF assms] unfolding lookup_len_def Let_def b n by blast+
  have "int (8 + 8 * (0 + nat (sint n))) \<le> int (length b)" using t(1,2) by simp
  then have l: "8 + 8 * (0 + nat (sint n)) \<le> length b" by (simp only: of_nat_le_iff)
  have l8: "8 \<le> length b" using l by linarith
  have s: "slice_from (1 + switch_pad (inPC i)) (inRaw i) = Some b" unfolding b using t(3) by (intro slice_from_Some) linarith
  have f: "\<not> int (length b) < 8 + 8 * sint n" "\<not> sint n < 0" using t(1,2) by simp_all
  have h: "slice_from 4 b = Some (drop 4 b)" "be32 (drop 4 b) = Some n" "be32 b = Some (word32 b)" using l8 n by simp_all
  have "instr_Switch i = map_option (\<lambda>cs. (inPC i + word32 b, cs)) (lookup_cases (inPC i) b 0 (nat (sint n)))"
    unfolding instr_Switch_def s using l8 f h assms(2) by (simp add: Let_def)
  then show ?thesis using lookup_cases_Some [OF l] t(1) b n
    by (intro exI [of _ b] exI [of _ "sint n"]) simp
qed

lemma iter_start: "length code < 2 ^ 32 \<Longrightarrow> iter_ok (code_Iter code)"
  by (simp add: iter_ok_def code_Iter_def)

lemma drain_code:
  assumes "length code < 2 ^ 32"
  obtains "is" it where "drain (length code + 1) (code_Iter code) = Some (is, it)"
    and "laid_out code 0 is (unat (itPc it))" and "unat (itPc it) \<le> length code"
    and "itErr it = None \<longrightarrow> unat (itPc it) = length code"
proof -
  have 0: "itCode (code_Iter code) = code" "unat (itPc (code_Iter code)) = 0" by (simp_all add: code_Iter_def)
  show thesis
    using drain_laid_out [OF iter_start [OF assms], of "length code + 1"] 0 that by (auto simp: iter_ok_def)
qed

lemma laid_out_complete: "laid_out code pc is e \<Longrightarrow> i \<in> set is \<Longrightarrow> complete i \<and> headed i \<and> inRaw i \<noteq> []"
  by (induction "is" arbitrary: pc) auto

lemma laid_out_pcs: "laid_out code pc is e \<Longrightarrow> k < length is \<Longrightarrow>
    unat (inPC (is ! k)) = pc + length (concat (map inRaw (take k is)))"
  by (induction "is" arbitrary: pc k) (auto simp: nth_Cons' take_Cons' split: if_splits)

section \<open>Properties\<close>

text \<open>C38: walking a code array of any contents ends after at most one call of \<open>Next\<close> per byte (and
  one more), without a panic. The instructions it yields lie end to end from offset 0, each is
  complete and non-empty, starts with its opcode, and its \<open>PC\<close> is its true offset; unless \<open>Err\<close> reports an error, together
  they are the whole array.\<close>

theorem iter_tiles_code:
  assumes "length code < 2 ^ 32"
  shows "\<exists>is it. drain (length code + 1) (code_Iter code) = Some (is, it) \<and>
    concat (map inRaw is) = take (unat (itPc it)) code \<and>
    (\<forall>i \<in> set is. complete i \<and> headed i \<and> 0 < instr_Len i) \<and>
    (\<forall>k < length is. unat (inPC (is ! k)) = length (concat (map inRaw (take k is)))) \<and>
    (itErr it = None \<longrightarrow> concat (map inRaw is) = code)"
proof -
  obtain "is" it where d: "drain (length code + 1) (code_Iter code) = Some (is, it)"
    "laid_out code 0 is (unat (itPc it))" "unat (itPc it) \<le> length code"
    "itErr it = None \<longrightarrow> unat (itPc it) = length code"
    using drain_code [OF assms] .
  have "concat (map inRaw is) = take (unat (itPc it)) code" using laid_out_concat [OF d(2,3)] by simp
  moreover have "\<forall>i \<in> set is. complete i \<and> headed i \<and> 0 < instr_Len i"
    using laid_out_complete [OF d(2)] by (auto simp: instr_Len_def)
  moreover have "\<forall>k < length is. unat (inPC (is ! k)) = length (concat (map inRaw (take k is)))"
    using laid_out_pcs [OF d(2)] by simp
  ultimately show ?thesis using d(1,4) by (intro exI [of _ "is"] exI [of _ it]) simp
qed

theorem iter_tiles_code_witness:
  "\<exists>is it. drain 5 (code_Iter [Bipush, 7, Pop, Return]) = Some (is, it) \<and> concat (map inRaw is) = take (unat (itPc it)) [Bipush, 7, Pop, Return]"
proof -
  have n: "length [Bipush, 7, Pop, Return] + 1 = 5" "length [Bipush, 7, Pop, Return] < 2 ^ 32" by simp_all
  show ?thesis using iter_tiles_code [OF n(2)] unfolding n(1) by blast
qed

text \<open>C39: whatever the code array holds, no operand accessor of an instruction the iterator
  returns panics.\<close>

theorem accessors_never_panic:
  assumes "length code < 2 ^ 32" and "drain (length code + 1) (code_Iter code) = Some (is, it)" and "i \<in> set is"
  shows "instr_Index i \<noteq> None \<and> instr_Local i \<noteq> None \<and> instr_Increment i \<noteq> None \<and> instr_Immediate i \<noteq> None \<and>
    instr_Target i \<noteq> None \<and> instr_ArrayType i \<noteq> None \<and> instr_Dimensions i \<noteq> None \<and>
    (inOp i \<in> {Tableswitch, Lookupswitch} \<longrightarrow> instr_Switch i \<noteq> None)"
proof -
  have "complete i" using drain_code [OF assms(1)] assms(2,3) laid_out_complete by (metis option.inject prod.inject)
  then show ?thesis
    using Index_total Local_total Increment_total Immediate_total Target_total ArrayType_total
      Switch_table [of i] Switch_lookup [of i] by fastforce
qed

theorem accessors_never_panic_witness:
  "instr_Increment \<lparr>inOp = Iinc, inPC = 0, inWide = True, inRaw = [Wide, Iinc, 1, 0, 255, 255]\<rparr> \<noteq> None"
proof -
  have 1: "drain (length [Wide, Iinc, 1, 0, 255, 255] + 1) (code_Iter [Wide, Iinc, 1, 0, 255, 255]) =
     Some ([\<lparr>inOp = Iinc, inPC = 0, inWide = True, inRaw = [Wide, Iinc, 1, 0, 255, 255]\<rparr>],
       snd (the (drain 7 (code_Iter [Wide, Iinc, 1, 0, 255, 255]))))" by code_simp
  show ?thesis using accessors_never_panic [OF _ 1] by simp
qed

text \<open>C40: a switch the iterator returns is decoded in full: the silent fallbacks of \<open>Switch\<close> for a
  short or contradictory table are never taken. A \<open>tableswitch\<close> yields one case for each value from
  \<open>low\<close> to \<open>high\<close>, in order; a \<open>lookupswitch\<close> one case per pair its header counts.\<close>

theorem switch_decoded_in_full:
  assumes "length code < 2 ^ 32" and "drain (length code + 1) (code_Iter code) = Some (is, it)" and "i \<in> set is"
  shows "(inOp i = Tableswitch \<longrightarrow> (\<exists>d cs low high. instr_Switch i = Some (d, cs) \<and> sint low \<le> sint high \<and>
      Some low = be32 (drop (5 + switch_pad (inPC i)) (inRaw i)) \<and> Some high = be32 (drop (9 + switch_pad (inPC i)) (inRaw i)) \<and>
      map scMatch cs = map (\<lambda>j. low + word_of_nat j) [0 ..< nat (sint high - sint low + 1)])) \<and>
    (inOp i = Lookupswitch \<longrightarrow> (\<exists>d cs n. instr_Switch i = Some (d, cs) \<and>
      Some n = be32 (drop (5 + switch_pad (inPC i)) (inRaw i)) \<and> int (length cs) = sint n))"
proof (intro conjI impI)
  have c: "complete i" using drain_code [OF assms(1)] assms(2,3) laid_out_complete by (metis option.inject prod.inject)
  let ?p = "switch_pad (inPC i)"
  let ?b = "drop (1 + ?p) (inRaw i)"
  have b: "drop 4 ?b = drop (5 + ?p) (inRaw i)" "drop 8 ?b = drop (9 + ?p) (inRaw i)" by (simp_all add: add.commute)
  {
    assume o': "inOp i = Tableswitch"
    then have "table_len i" using c by (intro complete_table)
    then have "4 \<le> length (drop (5 + ?p) (inRaw i))" "4 \<le> length (drop (9 + ?p) (inRaw i))"
      by (auto simp: table_len_def Let_def)
    then show "\<exists>d cs low high. instr_Switch i = Some (d, cs) \<and> sint low \<le> sint high \<and>
      Some low = be32 (drop (5 + ?p) (inRaw i)) \<and> Some high = be32 (drop (9 + ?p) (inRaw i)) \<and>
      map scMatch cs = map (\<lambda>j. low + word_of_nat j) [0 ..< nat (sint high - sint low + 1)]"
      using Switch_table [OF c o'] b by (auto simp: o_def simp del: drop_drop)
  next
    assume o': "inOp i = Lookupswitch"
    then have "lookup_len i" using c by (intro complete_lookup)
    then have "4 \<le> length (drop (5 + ?p) (inRaw i))" by (auto simp: lookup_len_def Let_def)
    then show "\<exists>d cs n. instr_Switch i = Some (d, cs) \<and> Some n = be32 (drop (5 + ?p) (inRaw i)) \<and> int (length cs) = sint n"
      using Switch_lookup [OF c o'] b by (auto simp del: drop_drop)
  }
qed

theorem switch_decoded_in_full_witness:
  "\<exists>d cs. instr_Switch \<lparr>inOp = Tableswitch, inPC = 0, inWide = False,
      inRaw = [Tableswitch, 0, 0, 0, 0, 0, 0, 24, 0, 0, 0, 1, 0, 0, 0, 2, 0, 0, 0, 24, 0, 0, 0, 24]\<rparr> = Some (d, cs) \<and>
    (\<exists>low n. map scMatch cs = map (\<lambda>j. low + word_of_nat j) [0 ..< n])"
proof -
  let ?c = "[Tableswitch, 0, 0, 0, 0, 0, 0, 24, 0, 0, 0, 1, 0, 0, 0, 2, 0, 0, 0, 24, 0, 0, 0, 24] :: bytes"
  let ?i = "\<lparr>inOp = Tableswitch, inPC = 0, inWide = False, inRaw = ?c\<rparr>"
  have 1: "drain (length ?c + 1) (code_Iter ?c) = Some ([?i], snd (the (drain 25 (code_Iter ?c))))" by code_simp
  have 2: "length ?c < 2 ^ 32" "?i \<in> set [?i]" "inOp ?i = Tableswitch" by simp_all
  show ?thesis using conjunct1 [OF switch_decoded_in_full [OF 2(1) 1 2(2)]] 2(3) by blast
qed

end
