(* ===== verification/Attributes.thy ===== *)
theory Attributes
  imports ConstPool
begin

unbundle bit_operations_syntax

text \<open>
  The attributes of a class file and the structures that carry them:
  \<^verbatim>\<open>src/classfile/attribute.go\<close>, \<^verbatim>\<open>src/classfile/attrs.go\<close>, the \<open>Field\<close> and \<open>Method\<close> of
  \<^verbatim>\<open>src/classfile/member.go\<close> and the \<open>Class\<close> of \<^verbatim>\<open>src/classfile/classfile.go\<close>, with the hoisting of
  attributes into their fields.
\<close>

section \<open>Rows of the attribute tables\<close>

record inner_class =
  icInner :: string
  icOuter :: string
  icSimpleName :: string
  icFlags :: flags

record method_parameter =
  mpName :: string
  mpFlags :: flags

record line_number =
  lnStartPC :: u16
  lnLine :: u16

record local_variable =
  lvStartPC :: u16
  lvLength :: u16
  lvName :: string
  lvDescriptor :: string
  lvSlot :: u16

record exception_handler =
  ehStartPC :: u16
  ehEndPC :: u16
  ehHandlerPC :: u16
  ehCatchType :: string

section \<open>Attributes\<close>

text \<open>One constructor per type that implements \<open>Attr\<close>. \<open>Code\<close> and \<open>RecordComponent\<close> hold attribute
  tables themselves. A pointer that may be nil is an option.\<close>

datatype attr =
    Raw string bytes
  | SourceFile string
  | Signature string
  | ConstantValue const
  | Exceptions "string list"
  | Synthetic
  | Deprecated
  | NestHost string
  | NestMembers "string list"
  | PermittedSubclasses "string list"
  | InnerClasses "inner_class list"
  | EnclosingMethod string string string
  | Record "record_component list"
  | MethodParameters "method_parameter list"
  | BootstrapMethods "bootstrap_method list"
  | StackMapTable bytes
  | LineNumberTable "line_number list"
  | LocalVariableTable "local_variable list"
  | LocalVariableTypeTable "local_variable list"
  | Code code_attr
and record_component =
    RecordComponent (rcName: string) (rcDescriptor: string) (rcSignature: string) (rcAttrs: "attr list")
and code_attr =
    CodeAttr (caMaxStack: u16) (caMaxLocals: u16) (caBytes: bytes) (caHandlers: "exception_handler list")
      (caAttrs: "attr list") (caLineNumbers: "line_number list option") (caStackMap: "bytes option")

fun AttrName :: "attr \<Rightarrow> string" where
  "AttrName (Raw n b) = n"
| "AttrName (SourceFile s) = ''SourceFile''"
| "AttrName (Signature s) = ''Signature''"
| "AttrName (ConstantValue c) = ''ConstantValue''"
| "AttrName (Exceptions cs) = ''Exceptions''"
| "AttrName Synthetic = ''Synthetic''"
| "AttrName Deprecated = ''Deprecated''"
| "AttrName (NestHost h) = ''NestHost''"
| "AttrName (NestMembers cs) = ''NestMembers''"
| "AttrName (PermittedSubclasses cs) = ''PermittedSubclasses''"
| "AttrName (InnerClasses ics) = ''InnerClasses''"
| "AttrName (EnclosingMethod c n d) = ''EnclosingMethod''"
| "AttrName (Record rcs) = ''Record''"
| "AttrName (MethodParameters ps) = ''MethodParameters''"
| "AttrName (BootstrapMethods ms) = ''BootstrapMethods''"
| "AttrName (StackMapTable d) = ''StackMapTable''"
| "AttrName (LineNumberTable ls) = ''LineNumberTable''"
| "AttrName (LocalVariableTable vs) = ''LocalVariableTable''"
| "AttrName (LocalVariableTypeTable vs) = ''LocalVariableTypeTable''"
| "AttrName (Code c) = ''Code''"

type_synonym attrs = "attr list"

text \<open>\<open>Find\<close>: the first attribute with the name, \<^const>\<open>None\<close> for nil.\<close>

fun attrs_Find :: "attrs \<Rightarrow> string \<Rightarrow> attr option" where
  "attrs_Find [] name = None"
| "attrs_Find (a # as) name = (if AttrName a = name then Some a else attrs_Find as name)"

fun attrs_Raws :: "attrs \<Rightarrow> attrs" where
  "attrs_Raws [] = []"
| "attrs_Raws (Raw n b # as) = Raw n b # attrs_Raws as"
| "attrs_Raws (a # as) = attrs_Raws as"

section \<open>Locations\<close>

type_synonym location = u8

abbreviation (input) locClass :: location where "locClass \<equiv> 1"

abbreviation (input) locField :: location where "locField \<equiv> 2"

abbreviation (input) locMethod :: location where "locMethod \<equiv> 4"

abbreviation (input) locCode :: location where "locCode \<equiv> 8"

abbreviation (input) locRecord :: location where "locRecord \<equiv> 16"

text \<open>Where each predefined attribute may appear and the version that defines it.\<close>

definition attr_where :: "(string \<times> location \<times> u16) list" where
  "attr_where = [
     (''ConstantValue'', locField, Java1_0),
     (''Code'', locMethod, Java1_0),
     (''StackMapTable'', locCode, Java6),
     (''Exceptions'', locMethod, Java1_0),
     (''InnerClasses'', locClass, Java1_0),
     (''EnclosingMethod'', locClass, Java5),
     (''Synthetic'', locClass OR locField OR locMethod, Java1_0),
     (''Signature'', locClass OR locField OR locMethod OR locRecord, Java5),
     (''SourceFile'', locClass, Java1_0),
     (''SourceDebugExtension'', locClass, Java5),
     (''LineNumberTable'', locCode, Java1_0),
     (''LocalVariableTable'', locCode, Java1_0),
     (''LocalVariableTypeTable'', locCode, Java5),
     (''Deprecated'', locClass OR locField OR locMethod, Java1_0),
     (''RuntimeVisibleAnnotations'', locClass OR locField OR locMethod OR locRecord, Java5),
     (''RuntimeInvisibleAnnotations'', locClass OR locField OR locMethod OR locRecord, Java5),
     (''RuntimeVisibleParameterAnnotations'', locMethod, Java5),
     (''RuntimeInvisibleParameterAnnotations'', locMethod, Java5),
     (''RuntimeVisibleTypeAnnotations'', locClass OR locField OR locMethod OR locCode OR locRecord, Java8),
     (''RuntimeInvisibleTypeAnnotations'', locClass OR locField OR locMethod OR locCode OR locRecord, Java8),
     (''AnnotationDefault'', locMethod, Java5),
     (''BootstrapMethods'', locClass, Java7),
     (''MethodParameters'', locMethod, Java8),
     (''Module'', locClass, Java9),
     (''ModulePackages'', locClass, Java9),
     (''ModuleMainClass'', locClass, Java9),
     (''NestHost'', locClass, Java11),
     (''NestMembers'', locClass, Java11),
     (''Record'', locClass, Java16),
     (''PermittedSubclasses'', locClass, Java17)]"

section \<open>Members and classes\<close>

record field =
  fFlags :: flags
  fName :: string
  fDescriptor :: string
  fAttrs :: attrs
  fConstantValue :: "const option"
  fSignature :: string
  fDeprecated :: bool
  fSynthetic :: bool

definition field_IsStatic :: "field \<Rightarrow> bool" where
  "field_IsStatic f = Has (fFlags f) AccStatic"

definition field_IsFinal :: "field \<Rightarrow> bool" where
  "field_IsFinal f = Has (fFlags f) AccFinal"

record jmethod =
  jmFlags :: flags
  jmName :: string
  jmDescriptor :: string
  jmAttrs :: attrs
  jmCode :: "code_attr option"
  jmExceptions :: "string list"
  jmSignature :: string
  jmDeprecated :: bool
  jmSynthetic :: bool

definition method_IsStatic :: "jmethod \<Rightarrow> bool" where
  "method_IsStatic m = Has (jmFlags m) AccStatic"

definition method_IsAbstract :: "jmethod \<Rightarrow> bool" where
  "method_IsAbstract m = Has (jmFlags m) AccAbstract"

definition method_IsNative :: "jmethod \<Rightarrow> bool" where
  "method_IsNative m = Has (jmFlags m) AccNative"

definition IsConstructor :: "jmethod \<Rightarrow> bool" where
  "IsConstructor m \<longleftrightarrow> jmName m = ''<init>''"

definition IsClassInit :: "jmethod \<Rightarrow> bool" where
  "IsClassInit m \<longleftrightarrow> jmName m = ''<clinit>''"

definition HasBody :: "jmethod \<Rightarrow> bool" where
  "HasBody m \<longleftrightarrow> \<not> method_IsAbstract m \<and> \<not> method_IsNative m"

definition jmethod_String :: "jmethod \<Rightarrow> string" where
  "jmethod_String m = jmName m @ jmDescriptor m"

record jclass =
  jcVersion :: version
  jcPool :: pool
  jcFlags :: flags
  jcName :: string
  jcSuper :: string
  jcInterfaces :: "string list"
  jcFields :: "field list"
  jcMethods :: "jmethod list"
  jcAttrs :: attrs
  jcSourceFile :: string
  jcSignature :: string
  jcNestHost :: string
  jcDeprecated :: bool
  jcSynthetic :: bool

definition class_IsInterface :: "jclass \<Rightarrow> bool" where
  "class_IsInterface c = Has (jcFlags c) AccInterface"

definition IsModule :: "jclass \<Rightarrow> bool" where
  "IsModule c = Has (jcFlags c) AccModule"

text \<open>\<open>Method\<close> and \<open>Field\<close>: the first member with the name and descriptor.\<close>

fun find_method :: "string \<Rightarrow> string \<Rightarrow> jmethod list \<Rightarrow> jmethod option" where
  "find_method name d [] = None"
| "find_method name d (m # ms) = (if jmName m = name \<and> jmDescriptor m = d then Some m else find_method name d ms)"

definition class_Method :: "jclass \<Rightarrow> string \<Rightarrow> string \<Rightarrow> jmethod option" where
  "class_Method c name d = find_method name d (jcMethods c)"

fun find_field :: "string \<Rightarrow> string \<Rightarrow> field list \<Rightarrow> field option" where
  "find_field name d [] = None"
| "find_field name d (f # fs) = (if fName f = name \<and> fDescriptor f = d then Some f else find_field name d fs)"

definition class_Field :: "jclass \<Rightarrow> string \<Rightarrow> string \<Rightarrow> field option" where
  "class_Field c name d = find_field name d (jcFields c)"

section \<open>Hoisting\<close>

fun hoist_field_attr :: "attr \<Rightarrow> field \<Rightarrow> field" where
  "hoist_field_attr (ConstantValue v) f = f\<lparr>fConstantValue := Some v\<rparr>"
| "hoist_field_attr (Signature s) f = f\<lparr>fSignature := s\<rparr>"
| "hoist_field_attr Deprecated f = f\<lparr>fDeprecated := True\<rparr>"
| "hoist_field_attr Synthetic f = f\<lparr>fSynthetic := True\<rparr>"
| "hoist_field_attr _ f = f"

fun hoist_method_attr :: "attr \<Rightarrow> jmethod \<Rightarrow> jmethod" where
  "hoist_method_attr (Code c) m = m\<lparr>jmCode := Some c\<rparr>"
| "hoist_method_attr (Exceptions cs) m = m\<lparr>jmExceptions := cs\<rparr>"
| "hoist_method_attr (Signature s) m = m\<lparr>jmSignature := s\<rparr>"
| "hoist_method_attr Deprecated m = m\<lparr>jmDeprecated := True\<rparr>"
| "hoist_method_attr Synthetic m = m\<lparr>jmSynthetic := True\<rparr>"
| "hoist_method_attr _ m = m"

fun hoist_class_attr :: "attr \<Rightarrow> jclass \<Rightarrow> jclass" where
  "hoist_class_attr (SourceFile s) c = c\<lparr>jcSourceFile := s\<rparr>"
| "hoist_class_attr (Signature s) c = c\<lparr>jcSignature := s\<rparr>"
| "hoist_class_attr (NestHost h) c = c\<lparr>jcNestHost := h\<rparr>"
| "hoist_class_attr Deprecated c = c\<lparr>jcDeprecated := True\<rparr>"
| "hoist_class_attr Synthetic c = c\<lparr>jcSynthetic := True\<rparr>"
| "hoist_class_attr (BootstrapMethods ms) c = c\<lparr>jcPool := (jcPool c)\<lparr>pbsms := ms\<rparr>\<rparr>"
| "hoist_class_attr _ c = c"

definition hoistClass :: "jclass \<Rightarrow> jclass" where
  "hoistClass c = fold hoist_class_attr (jcAttrs c) c"

end
