(* ===== verification/CodeLayout.thy ===== *)
theory CodeLayout
  imports Instr
begin

unbundle bit_operations_syntax

text \<open>
  Code arrays as sequences of instructions. \<open>code_seq\<close> says that instructions follow one another from
  a given offset, each complete and starting with its opcode; the iterator of \<^verbatim>\<open>src/classfile/code.go\<close>
  recovers exactly such a sequence from its bytes. Patching the operand of one instruction changes that
  instruction and no other.
\<close>

fun code_seq :: "nat \<Rightarrow> instr list \<Rightarrow> bool" where
  "code_seq pc [] \<longleftrightarrow> True"
| "code_seq pc (i # is) \<longleftrightarrow> unat (inPC i) = pc \<and> complete i \<and> headed i \<and> inRaw i \<noteq> [] \<and>
     code_seq (pc + length (inRaw i)) is"

definition code_bytes :: "instr list \<Rightarrow> bytes" where
  "code_bytes is = concat (map inRaw is)"

lemma code_bytes_simps [simp]:
  "code_bytes [] = []" "code_bytes (i # is) = inRaw i @ code_bytes is" "code_bytes (is @ js) = code_bytes is @ code_bytes js"
  by (simp_all add: code_bytes_def)

lemma code_seq_append [simp]:
  "code_seq pc (is @ js) \<longleftrightarrow> code_seq pc is \<and> code_seq (pc + length (code_bytes is)) js"
  by (induction "is" arbitrary: pc) (auto simp: add.assoc)

lemma code_seq_at:
  assumes "code_seq pc is" and "k < length is"
  shows "unat (inPC (is ! k)) = pc + length (code_bytes (take k is))" and "complete (is ! k)" and "headed (is ! k)"
    and "inRaw (is ! k) \<noteq> []"
proof -
  have "is = take k is @ is ! k # drop (Suc k) is" using assms(2) by (simp add: id_take_nth_drop)
  then have "code_seq pc (take k is @ is ! k # drop (Suc k) is)" using assms(1) by simp
  then show "unat (inPC (is ! k)) = pc + length (code_bytes (take k is))" "complete (is ! k)" "headed (is ! k)"
    "inRaw (is ! k) \<noteq> []" unfolding code_seq_append code_seq.simps by blast+
qed

section \<open>The iterator recovers the sequence\<close>

lemma instrLen_narrow:
  "op_Valid o' \<Longrightarrow> o' \<noteq> Wide \<Longrightarrow> o' \<noteq> Tableswitch \<Longrightarrow> o' \<noteq> Lookupswitch \<Longrightarrow>
   instrLen code pc o' False = Some (Inr (shape_len (op_Kind o')))"
  using shape_len_neg [of o'] op_len_shape [of o'] by (simp add: instrLen_def)

lemma switch_len_neg: "\<not> 0 \<le> op_Len Tableswitch" "\<not> 0 \<le> op_Len Lookupswitch"
  by code_simp+

lemma instrLen_table:
  assumes "table_len i" and "inOp i = Tableswitch" and "unat (inPC i) = length pre"
  shows "instrLen (pre @ inRaw i @ post) (inPC i) Tableswitch False = Some (Inr (int (length (inRaw i))))"
proof -
  obtain p where p: "p = switch_pad (inPC i)" by simp
  obtain b where b: "b = drop (1 + p) (inRaw i)" by simp
  obtain low high where w: "low = word32 (drop 4 b)" "high = word32 (drop 8 b)" by simp
  let ?code = "pre @ inRaw i @ post"
  have t: "sint low \<le> sint high" "int (length b) = 12 + 4 * (sint high - sint low + 1)"
    "1 + p + length b = length (inRaw i)"
    using assms(1) unfolding table_len_def Let_def b w p by blast+
  have len: "length ?code = length pre + 1 + p + length b + length post" using t(3) by simp
  obtain m where m: "m = sint high - sint low" "0 \<le> m" "int (length b) = 12 + 4 * (m + 1)" using t(1,2) by simp
  have "int 12 \<le> int (length b)" using m(2,3) by simp
  then have b12: "12 \<le> length b" by (simp only: of_nat_le_iff)
  have bn: "sint high - sint low + 1 \<le> int (length b)" using m by simp
  have fits: "\<not> length pre + 1 + p + 12 > length ?code" "\<not> sint high - sint low + 1 > int (length ?code)"
    unfolding len using b12 bn by simp_all
  have d: "drop (length pre + 1 + p + k) ?code = drop k b @ post" if "k \<le> length b" for k
    using that t(3) by (simp add: b add.commute)
  have "be32 (drop k b @ post) = Some (word32 (drop k b))" if "k + 4 \<le> length b" for k
    using that by (simp add: word32_def nth_append less_diff_conv)
  then have h: "be32 (drop (length pre + 1 + p + 4) ?code) = Some low" "be32 (drop (length pre + 1 + p + 8) ?code) = Some high"
    using d [of 4] d [of 8] t(1,2) unfolding w by auto
  have s: "slice_from (length pre + 1 + p + 4) ?code = Some (drop (length pre + 1 + p + 4) ?code)"
    "slice_from (length pre + 1 + p + 8) ?code = Some (drop (length pre + 1 + p + 8) ?code)"
    using fits(1) by (intro slice_from_Some; linarith)+
  have "int (length (inRaw i)) = 1 + int p + 12 + 4 * (sint high - sint low + 1)" using t by linarith
  then show ?thesis
    unfolding instrLen_def assms(3) p [symmetric] Let_def using switch_len_neg fits h s t(1) by simp
qed

lemma instrLen_lookup:
  assumes "lookup_len i" and "inOp i = Lookupswitch" and "unat (inPC i) = length pre"
  shows "instrLen (pre @ inRaw i @ post) (inPC i) Lookupswitch False = Some (Inr (int (length (inRaw i))))"
proof -
  obtain p where p: "p = switch_pad (inPC i)" by simp
  obtain b where b: "b = drop (1 + p) (inRaw i)" by simp
  obtain n where n: "n = word32 (drop 4 b)" by simp
  let ?code = "pre @ inRaw i @ post"
  have t: "0 \<le> sint n" "int (length b) = 8 + 8 * sint n" "1 + p + length b = length (inRaw i)"
    using assms(1) unfolding lookup_len_def Let_def b n p by blast+
  have len: "length ?code = length pre + 1 + p + length b + length post" using t(3) by simp
  have b8: "8 \<le> length b" "sint n * 8 \<le> int (length b)" using t(1,2) by linarith+
  have fits: "\<not> length pre + 1 + p + 8 > length ?code" "\<not> sint n * 8 > int (length ?code)" "\<not> sint n < 0"
    unfolding len using b8 t(1) by simp_all
  have d: "drop (length pre + 1 + p + k) ?code = drop k b @ post" if "k \<le> length b" for k
    using that t(3) by (simp add: b add.commute)
  have "be32 (drop k b @ post) = Some (word32 (drop k b))" if "k + 4 \<le> length b" for k
    using that by (simp add: word32_def nth_append less_diff_conv)
  then have h: "be32 (drop (length pre + 1 + p + 4) ?code) = Some n"
    using d [of 4] t(1,2) unfolding n by auto
  have s: "slice_from (length pre + 1 + p + 4) ?code = Some (drop (length pre + 1 + p + 4) ?code)"
    using fits(1) by (intro slice_from_Some) linarith
  have "int (length (inRaw i)) = 1 + int p + 8 + 8 * sint n" using t by linarith
  then show ?thesis
    unfolding instrLen_def assms(3) p [symmetric] Let_def using switch_len_neg fits h s by simp
qed

lemma instrLen_complete_rev:
  assumes "complete i" and "unat (inPC i) = length pre"
  shows "instrLen (pre @ inRaw i @ post) (inPC i) (inOp i) (inWide i) = Some (Inr (int (length (inRaw i))))"
proof (cases "inWide i")
  case True
  then show ?thesis using complete_wide(2) [OF assms(1) True] by (simp add: instrLen_def)
next
  case False
  consider "inOp i = Tableswitch" | "inOp i = Lookupswitch" | "inOp i \<noteq> Tableswitch" "inOp i \<noteq> Lookupswitch" by blast
  then show ?thesis
  proof cases
    case 1
    then show ?thesis using instrLen_table [OF complete_table [OF assms(1) 1] 1 assms(2)] False by simp
  next
    case 2
    then show ?thesis using instrLen_lookup [OF complete_lookup [OF assms(1) 2] 2 assms(2)] False by simp
  next
    case 3
    then show ?thesis
      using instrLen_narrow [of "inOp i"] complete_narrow(3,4) [OF assms(1) False] assms(1) False
      by (simp add: complete_def)
  qed
qed

lemma Next_of_instr:
  assumes "complete i" and "headed i" and "inRaw i \<noteq> []" and "itCode it = pre @ inRaw i @ post"
    and "inPC i = itPc it" and "unat (itPc it) = length pre" and "itErr it = None" and "length (itCode it) < 2 ^ 32"
  shows "Next it = Some (True, it\<lparr>itCur := i, itPc := itPc it + word_of_nat (length (inRaw i))\<rparr>)"
proof -
  let ?code = "itCode it" and ?pc = "itPc it"
  have at: "?code ! unat ?pc = inRaw i ! 0" "unat ?pc < length ?code" using assms(3,4,6) by (simp_all add: nth_append)
  have body: "next_body it (inOp i) (inWide i) = Some (True, it\<lparr>itCur := i, itPc := ?pc + word_of_nat (length (inRaw i))\<rparr>)"
    using instrLen_complete_rev [OF assms(1), of pre post] assms(4-6)
    by (simp add: next_body_def Let_def)
  show ?thesis
  proof (cases "inWide i")
    case True
    have l: "1 < length (inRaw i)" using complete_wide(2) [OF assms(1) True] by simp
    then have 1: "unat ?pc + 1 < length ?code" "?code ! (unat ?pc + 1) = inRaw i ! 1"
      using assms(4,6) by (simp_all add: nth_append)
    then have "unat (?pc + 1) = unat ?pc + 1" using assms(8) by (simp add: unat_word_ariths)
    moreover have "op_Valid Wide" by code_simp
    ultimately show ?thesis
      using at 1 body True assms(2,7) complete_wide(3) [OF assms(1) True]
      by (simp add: Next_def headed_def Let_def)
  next
    case False
    then have "op_Valid (inOp i)" "inOp i \<noteq> Wide" using assms(1) by (simp_all add: complete_def)
    then show ?thesis using at body False assms(2,7) by (simp add: Next_def headed_def Let_def)
  qed
qed

lemma drain_code_seq_from:
  assumes "code_seq (length pre) is" and "itCode it = pre @ code_bytes is" and "unat (itPc it) = length pre"
    and "itErr it = None" and "length (itCode it) < 2 ^ 32" and "length (code_bytes is) < n"
  shows "\<exists>it'. drain n it = Some (is, it') \<and> itErr it' = None"
  using assms
proof (induction "is" arbitrary: pre it n)
  case Nil
  then obtain m where "n = Suc m" by (cases n) auto
  then show ?case using Nil.prems by (simp add: Next_def)
next
  case (Cons i "is")
  obtain m where n: "n = Suc m" using Cons.prems(6) by (cases n) auto
  let ?it = "it\<lparr>itCur := i, itPc := itPc it + word_of_nat (length (inRaw i))\<rparr>"
  have i: "complete i" "headed i" "inRaw i \<noteq> []" "inPC i = itPc it" using Cons.prems(1,3)
    by (simp_all add: word_unat_eq_iff)
  have nx: "Next it = Some (True, ?it)"
    using Next_of_instr [OF i(1-3) _ i(4) Cons.prems(3-5), of "code_bytes is"] Cons.prems(2) by simp
  have "length pre + length (inRaw i) < 2 ^ 32" using Cons.prems(2,5) by simp
  then have "unat (itPc ?it) = length (pre @ inRaw i)"
    using Cons.prems(3) by (simp add: unat_word_ariths unsigned_of_nat take_bit_nat_eq_self)
  moreover have "0 < length (inRaw i)" using i(3) by simp
  moreover from this have "length (code_bytes is) < m" using Cons.prems(6) n
    by (simp only: code_bytes_simps length_append)
  ultimately obtain it' where "drain m ?it = Some (is, it')" "itErr it' = None"
    using Cons.IH [of "pre @ inRaw i" ?it m] Cons.prems by auto
  then show ?case using nx n by simp
qed

lemma drain_code_seq:
  assumes "code_seq 0 is" and "length (code_bytes is) < 2 ^ 32"
  shows "\<exists>it. drain (length (code_bytes is) + 1) (code_Iter (code_bytes is)) = Some (is, it) \<and> itErr it = None"
  using drain_code_seq_from [of "[]" "is" "code_Iter (code_bytes is)"] assms by (simp add: code_Iter_def del: drain.simps)

end
