(* ===== verification/CodeWriter.thy ===== *)
theory CodeWriter
  imports PoolBuilder Attributes Desc Instr
begin

unbundle bit_operations_syntax

text \<open>
  The method body writer: \<^verbatim>\<open>src/classfile/codewriter.go\<close>. A \<open>CodeWriter\<close> appends instructions, tracks
  the operand stack depth and the reachability of the current offset, and records the branches and
  switches that \<open>resolve\<close> patches once every label has its offset. Labels are pointers in the source;
  here they are indices into the writer's list of labels, which is the store the pointers range over.
  The \<open>int32\<close> counters are integers; the invariant shows that while no error is set they stay between
  0 and 65535, so that their arithmetic never wraps.
\<close>

section \<open>The writer\<close>

definition MaxStack :: int where
  "MaxStack = 65535"

definition MaxLocals :: int where
  "MaxLocals = 65535"

type_synonym label_id = nat

record label =
  lb_pc :: int
  lb_depth :: int

record branch =
  br_ord :: nat
  br_op :: opcode
  br_label :: label_id
  br_at :: nat
  br_wide :: bool

record switch_rec =
  sw_op :: opcode
  sw_at :: nat
  sw_pad :: nat
  sw_def :: label_id
  sw_targets :: "label_id list"

record local_rec =
  lr_slot :: int
  lr_name :: string
  lr_desc :: string
  lr_start :: label_id
  lr_end :: label_id

record handler_rec =
  hr_start :: label_id
  hr_end :: label_id
  hr_handler :: label_id
  hr_catchType :: string

datatype cw_error =
    PlacedTwice label_id
  | FallDepth int label_id int
  | UnreachableLabel label_id
  | BranchDepth label_id int int
  | StackTooDeep int
  | StackUnderflow nat
  | LocalRange int
  | LocalsTooMany int int int
  | UnreachableInstr opcode nat
  | IincRange int
  | BadDescriptor desc_error
  | LocalDesc string desc_error
  | LocalSlot string int
  | ClassNotLoadableYet version
  | BadArrayCode u8
  | DimsRange int
  | DimsShort string nat int
  | TakesOperands opcode
  | NotPermitted opcode
  | NoReturnFor kind
  | SwitchRange int int
  | SwitchCount int int int nat
  | MatchCount nat nat
  | DuplicateMatch int
  | HandlerDepth label_id int
  | NeverPlaced label_id
  | SwitchDefault label_id
  | SwitchTarget label_id
  | LocalSpan string

record codewriter =
  cw_p :: poolbuilder
  cw_w :: bwriter
  cw_err :: "cw_error option"
  cw_ret :: dtype
  cw_ver :: version
  cw_labels :: "label list"
  cw_branches :: "branch list"
  cw_switches :: "switch_rec list"
  cw_handlers :: "handler_rec list"
  cw_lines :: "line_number list"
  cw_locals :: "local_rec list"
  cw_widen :: "nat set"
  cw_pass :: nat
  cw_depth :: int
  cw_maxStack :: int
  cw_maxLocals :: int
  cw_reachable :: bool

definition cw_fail :: "cw_error \<Rightarrow> codewriter \<Rightarrow> codewriter" where
  "cw_fail e c = (if cw_err c = None then c\<lparr>cw_err := Some e\<rparr> else c)"

text \<open>Writing to the buffer, and interning a constant, through the writer.\<close>

definition cw_u1 :: "u8 \<Rightarrow> codewriter \<Rightarrow> codewriter" where
  "cw_u1 v c = c\<lparr>cw_w := w_u1 v (cw_w c)\<rparr>"

definition cw_u2 :: "u16 \<Rightarrow> codewriter \<Rightarrow> codewriter" where
  "cw_u2 v c = c\<lparr>cw_w := w_u2 v (cw_w c)\<rparr>"

definition cw_u4 :: "u32 \<Rightarrow> codewriter \<Rightarrow> codewriter" where
  "cw_u4 v c = c\<lparr>cw_w := w_u4 v (cw_w c)\<rparr>"

definition cw_intern :: "u16 pb_op \<Rightarrow> codewriter \<Rightarrow> u16 \<times> codewriter" where
  "cw_intern f c = (case f (cw_p c) of (i, p) \<Rightarrow> (i, c\<lparr>cw_p := p\<rparr>))"

text \<open>\<open>c.w.u2(c.p.X(...))\<close>: intern a constant and write its index.\<close>

definition cw_ref :: "u16 pb_op \<Rightarrow> codewriter \<Rightarrow> codewriter" where
  "cw_ref f c = (case cw_intern f c of (i, c1) \<Rightarrow> cw_u2 i c1)"

section \<open>Labels\<close>

definition NewLabel :: "codewriter \<Rightarrow> label_id \<times> codewriter" where
  "NewLabel c = (length (cw_labels c), c\<lparr>cw_labels := cw_labels c @ [\<lparr>lb_pc = - 1, lb_depth = - 1\<rparr>]\<rparr>)"

definition lbl :: "codewriter \<Rightarrow> label_id \<Rightarrow> label" where
  "lbl c l = (if l < length (cw_labels c) then cw_labels c ! l else \<lparr>lb_pc = - 1, lb_depth = - 1\<rparr>)"

definition set_pc :: "label_id \<Rightarrow> int \<Rightarrow> codewriter \<Rightarrow> codewriter" where
  "set_pc l v c = c\<lparr>cw_labels := (cw_labels c)[l := (lbl c l)\<lparr>lb_pc := v\<rparr>]\<rparr>"

definition set_depth :: "label_id \<Rightarrow> int \<Rightarrow> codewriter \<Rightarrow> codewriter" where
  "set_depth l v c = c\<lparr>cw_labels := (cw_labels c)[l := (lbl c l)\<lparr>lb_depth := v\<rparr>]\<rparr>"

definition Mark :: "label_id \<Rightarrow> codewriter \<Rightarrow> codewriter" where
  "Mark l c =
     (if lb_pc (lbl c l) \<ge> 0 then cw_fail (PlacedTwice l) c
      else
        let c1 = set_pc l (int (length (cw_w c))) c in
        if lb_depth (lbl c1 l) \<ge> 0 then
          (if cw_reachable c1 \<and> cw_depth c1 \<noteq> lb_depth (lbl c1 l)
           then cw_fail (FallDepth (cw_depth c1) l (lb_depth (lbl c1 l))) c1
           else c1\<lparr>cw_depth := lb_depth (lbl c1 l), cw_reachable := True\<rparr>)
        else if cw_reachable c1 then (set_depth l (cw_depth c1) c1)\<lparr>cw_reachable := True\<rparr>
        else cw_fail (UnreachableLabel l) c1)"

definition noteDepth :: "label_id \<Rightarrow> codewriter \<Rightarrow> codewriter" where
  "noteDepth l c =
     (if lb_depth (lbl c l) < 0 then set_depth l (cw_depth c) c
      else if lb_depth (lbl c l) \<noteq> cw_depth c
      then cw_fail (BranchDepth l (cw_depth c) (lb_depth (lbl c l))) c
      else c)"

section \<open>Stack and locals\<close>

definition cw_push :: "int \<Rightarrow> codewriter \<Rightarrow> codewriter" where
  "cw_push n c =
     (let c1 = c\<lparr>cw_depth := cw_depth c + n\<rparr> in
      if cw_depth c1 > cw_maxStack c1 then
        (if cw_depth c1 > MaxStack then cw_fail (StackTooDeep (cw_depth c1)) c1
         else c1\<lparr>cw_maxStack := cw_depth c1\<rparr>)
      else c1)"

definition cw_pop :: "int \<Rightarrow> codewriter \<Rightarrow> codewriter" where
  "cw_pop n c =
     (let c1 = c\<lparr>cw_depth := cw_depth c - n\<rparr> in
      if cw_depth c1 < 0 then (cw_fail (StackUnderflow (length (cw_w c1))) c1)\<lparr>cw_depth := 0\<rparr> else c1)"

definition useLocal :: "int \<Rightarrow> int \<Rightarrow> codewriter \<Rightarrow> codewriter" where
  "useLocal slot width c =
     (if slot < 0 \<or> slot > MaxLocals then cw_fail (LocalRange slot) c
      else
        let n = slot + width in
        if n > MaxLocals then cw_fail (LocalsTooMany slot width n) c
        else if n > cw_maxLocals c then c\<lparr>cw_maxLocals := n\<rparr>
        else c)"

definition cw_terminate :: "codewriter \<Rightarrow> codewriter" where
  "cw_terminate c = c\<lparr>cw_reachable := False\<rparr>"

definition emitOp :: "opcode \<Rightarrow> codewriter \<Rightarrow> codewriter" where
  "emitOp o' c =
     (if \<not> cw_reachable c then cw_fail (UnreachableInstr o' (length (cw_w c))) c else cw_u1 o' c)"

section \<open>Loads and stores\<close>

definition localOp :: "opcode \<Rightarrow> opcode \<Rightarrow> int \<Rightarrow> int \<Rightarrow> codewriter \<Rightarrow> codewriter" where
  "localOp general compact slot width c =
     (let c1 = useLocal slot width c in
      if cw_err c1 \<noteq> None then c1
      else if slot < 4 then emitOp (compact + word_of_int slot) c1
      else if slot < 256 then cw_u1 (word_of_int slot) (emitOp general c1)
      else cw_u2 (word_of_int slot) (cw_u1 general (emitOp Wide c1)))"

definition cw_load :: "opcode \<Rightarrow> opcode \<Rightarrow> int \<Rightarrow> int \<Rightarrow> codewriter \<Rightarrow> codewriter" where
  "cw_load general compact slot width c = cw_push width (localOp general compact slot width c)"

definition cw_Aload :: "int \<Rightarrow> codewriter \<Rightarrow> codewriter" where
  "cw_Aload slot = cw_load Aload Aload0 slot 1"

definition cw_Iload :: "int \<Rightarrow> codewriter \<Rightarrow> codewriter" where
  "cw_Iload slot = cw_load Iload Iload0 slot 1"

definition cw_Fload :: "int \<Rightarrow> codewriter \<Rightarrow> codewriter" where
  "cw_Fload slot = cw_load Fload Fload0 slot 1"

definition cw_Lload :: "int \<Rightarrow> codewriter \<Rightarrow> codewriter" where
  "cw_Lload slot = cw_load Lload Lload0 slot 2"

definition cw_Dload :: "int \<Rightarrow> codewriter \<Rightarrow> codewriter" where
  "cw_Dload slot = cw_load Dload Dload0 slot 2"

definition cw_store :: "opcode \<Rightarrow> opcode \<Rightarrow> int \<Rightarrow> int \<Rightarrow> codewriter \<Rightarrow> codewriter" where
  "cw_store general compact slot width c = cw_pop width (localOp general compact slot width c)"

definition cw_Astore :: "int \<Rightarrow> codewriter \<Rightarrow> codewriter" where
  "cw_Astore slot = cw_store Astore Astore0 slot 1"

definition cw_Istore :: "int \<Rightarrow> codewriter \<Rightarrow> codewriter" where
  "cw_Istore slot = cw_store Istore Istore0 slot 1"

definition cw_Fstore :: "int \<Rightarrow> codewriter \<Rightarrow> codewriter" where
  "cw_Fstore slot = cw_store Fstore Fstore0 slot 1"

definition cw_Lstore :: "int \<Rightarrow> codewriter \<Rightarrow> codewriter" where
  "cw_Lstore slot = cw_store Lstore Lstore0 slot 2"

definition cw_Dstore :: "int \<Rightarrow> codewriter \<Rightarrow> codewriter" where
  "cw_Dstore slot = cw_store Dstore Dstore0 slot 2"

definition cw_Iinc :: "int \<Rightarrow> int \<Rightarrow> codewriter \<Rightarrow> codewriter" where
  "cw_Iinc slot delta c =
     (let c1 = useLocal slot 1 c in
      if cw_err c1 \<noteq> None then c1
      else if delta < - 32768 \<or> delta > 32767 then cw_fail (IincRange delta) c1
      else if slot < 256 \<and> delta \<ge> - 128 \<and> delta \<le> 127 then
        cw_u1 (word_of_int delta) (cw_u1 (word_of_int slot) (emitOp Iinc c1))
      else cw_u2 (word_of_int delta) (cw_u2 (word_of_int slot) (cw_u1 Iinc (emitOp Wide c1))))"

definition cw_Local :: "int \<Rightarrow> string \<Rightarrow> string \<Rightarrow> label_id \<Rightarrow> label_id \<Rightarrow> codewriter \<Rightarrow> codewriter" where
  "cw_Local slot name descriptor start end_l c =
     (case ParseField descriptor of
        Inl err \<Rightarrow> cw_fail (LocalDesc name err) c
      | Inr _ \<Rightarrow>
          if slot < 0 \<or> slot > MaxLocals then cw_fail (LocalSlot name slot) c
          else c\<lparr>cw_locals := cw_locals c @ [\<lparr>lr_slot = slot, lr_name = name, lr_desc = descriptor,
            lr_start = start, lr_end = end_l\<rparr>]\<rparr>)"

section \<open>Constants\<close>

definition cw_ldc :: "u16 \<Rightarrow> bool \<Rightarrow> codewriter \<Rightarrow> codewriter" where
  "cw_ldc idx wide c =
     (if wide then cw_push 2 (cw_u2 idx (emitOp Ldc2W c))
      else if idx < 256 then cw_push 1 (cw_u1 (ucast idx) (emitOp Ldc c))
      else cw_push 1 (cw_u2 idx (emitOp LdcW c)))"

text \<open>\<open>c.ldc(c.p.X(...), wide)\<close>.\<close>

definition cw_ldc_of :: "u16 pb_op \<Rightarrow> bool \<Rightarrow> codewriter \<Rightarrow> codewriter" where
  "cw_ldc_of f wide c = (case cw_intern f c of (i, c1) \<Rightarrow> cw_ldc i wide c1)"

text \<open>An \<open>int32\<close> argument is an integer; its word goes to the pool.\<close>

definition cw_Iconst :: "int \<Rightarrow> codewriter \<Rightarrow> codewriter" where
  "cw_Iconst v c =
     (if v \<ge> - 1 \<and> v \<le> 5 then cw_push 1 (emitOp (Iconst0 + word_of_int v) c)
      else if v \<ge> - 128 \<and> v \<le> 127 then cw_push 1 (cw_u1 (word_of_int v) (emitOp Bipush c))
      else if v \<ge> - 32768 \<and> v \<le> 32767 then cw_push 1 (cw_u2 (word_of_int v) (emitOp Sipush c))
      else cw_ldc_of (pb_Int (word_of_int v)) False c)"

definition cw_Lconst :: "int \<Rightarrow> codewriter \<Rightarrow> codewriter" where
  "cw_Lconst v c =
     (if v = 0 \<or> v = 1 then cw_push 2 (emitOp (Lconst0 + word_of_int v) c)
      else cw_ldc_of (pb_Long (word_of_int v)) True c)"

text \<open>Floats and doubles are their bit patterns: those of 0, 1 and 2 have a short form.\<close>

definition cw_Fconst :: "u32 \<Rightarrow> codewriter \<Rightarrow> codewriter" where
  "cw_Fconst bits c =
     (if bits = 0 then cw_push 1 (emitOp Fconst0 c)
      else if bits = 0x3F800000 then cw_push 1 (emitOp Fconst1 c)
      else if bits = 0x40000000 then cw_push 1 (emitOp Fconst2 c)
      else cw_ldc_of (pb_Float bits) False c)"

definition cw_Dconst :: "u64 \<Rightarrow> codewriter \<Rightarrow> codewriter" where
  "cw_Dconst bits c =
     (if bits = 0 then cw_push 2 (emitOp Dconst0 c)
      else if bits = 0x3FF0000000000000 then cw_push 2 (emitOp Dconst1 c)
      else cw_ldc_of (pb_Double bits) True c)"

definition cw_Sconst :: "string \<Rightarrow> codewriter \<Rightarrow> codewriter" where
  "cw_Sconst s = cw_ldc_of (pb_String s) False"

definition cw_Cconst :: "string \<Rightarrow> codewriter \<Rightarrow> codewriter" where
  "cw_Cconst internal c =
     (if \<not> AtLeast (cw_ver c) Java5 then cw_fail (ClassNotLoadableYet (cw_ver c)) c
      else cw_ldc_of (pb_Class internal) False c)"

definition cw_AconstNull :: "codewriter \<Rightarrow> codewriter" where
  "cw_AconstNull c = cw_push 1 (emitOp AconstNull c)"

section \<open>Members\<close>

definition cw_field :: "opcode \<Rightarrow> string \<Rightarrow> string \<Rightarrow> string \<Rightarrow> codewriter \<Rightarrow> codewriter" where
  "cw_field o' owner name descriptor c =
     (case ParseField descriptor of
        Inl err \<Rightarrow> cw_fail (BadDescriptor err) c
      | Inr t \<Rightarrow>
          let c1 = cw_ref (pb_FieldRef owner name descriptor) (emitOp o' c);
              width = int (Slots t) in
          if o' = Getstatic then cw_push width c1
          else if o' = Putstatic then cw_pop width c1
          else if o' = Getfield then cw_push width (cw_pop 1 c1)
          else if o' = Putfield then cw_pop (width + 1) c1
          else c1)"

definition cw_GetStatic :: "string \<Rightarrow> string \<Rightarrow> string \<Rightarrow> codewriter \<Rightarrow> codewriter" where
  "cw_GetStatic = cw_field Getstatic"

definition cw_PutStatic :: "string \<Rightarrow> string \<Rightarrow> string \<Rightarrow> codewriter \<Rightarrow> codewriter" where
  "cw_PutStatic = cw_field Putstatic"

definition cw_GetField :: "string \<Rightarrow> string \<Rightarrow> string \<Rightarrow> codewriter \<Rightarrow> codewriter" where
  "cw_GetField = cw_field Getfield"

definition cw_PutField :: "string \<Rightarrow> string \<Rightarrow> string \<Rightarrow> codewriter \<Rightarrow> codewriter" where
  "cw_PutField = cw_field Putfield"

definition cw_invoke :: "opcode \<Rightarrow> string \<Rightarrow> string \<Rightarrow> string \<Rightarrow> codewriter \<Rightarrow> codewriter" where
  "cw_invoke o' owner name descriptor c =
     (case ParseMethod descriptor of
        Inl err \<Rightarrow> cw_fail (BadDescriptor err) c
      | Inr m \<Rightarrow>
          let receiver = (o' \<noteq> Invokestatic) in
          case CheckArgSlots m receiver of
            Some err \<Rightarrow> cw_fail (BadDescriptor err) c
          | None \<Rightarrow>
              let args = int (ArgSlots m receiver);
                  c1 = emitOp o' c;
                  c2 = (if o' = Invokeinterface
                        then cw_u1 0 (cw_u1 (word_of_int args) (cw_ref (pb_InterfaceMethodRef owner name descriptor) c1))
                        else cw_ref (pb_MethodRef owner name descriptor) c1) in
              cw_push (int (Slots (mRet m))) (cw_pop args c2))"

definition cw_InvokeVirtual :: "string \<Rightarrow> string \<Rightarrow> string \<Rightarrow> codewriter \<Rightarrow> codewriter" where
  "cw_InvokeVirtual = cw_invoke Invokevirtual"

definition cw_InvokeSpecial :: "string \<Rightarrow> string \<Rightarrow> string \<Rightarrow> codewriter \<Rightarrow> codewriter" where
  "cw_InvokeSpecial = cw_invoke Invokespecial"

definition cw_InvokeStatic :: "string \<Rightarrow> string \<Rightarrow> string \<Rightarrow> codewriter \<Rightarrow> codewriter" where
  "cw_InvokeStatic = cw_invoke Invokestatic"

definition cw_InvokeInterface :: "string \<Rightarrow> string \<Rightarrow> string \<Rightarrow> codewriter \<Rightarrow> codewriter" where
  "cw_InvokeInterface = cw_invoke Invokeinterface"

section \<open>Objects\<close>

definition cw_New :: "string \<Rightarrow> codewriter \<Rightarrow> codewriter" where
  "cw_New internal c = cw_push 1 (cw_ref (pb_Class internal) (emitOp New c))"

definition cw_ANewArray :: "string \<Rightarrow> codewriter \<Rightarrow> codewriter" where
  "cw_ANewArray internal c = cw_push 1 (cw_pop 1 (cw_ref (pb_Class internal) (emitOp Anewarray c)))"

definition cw_NewArray :: "u8 \<Rightarrow> codewriter \<Rightarrow> codewriter" where
  "cw_NewArray typeCode c =
     (if ArrayTypeName typeCode = [] then cw_fail (BadArrayCode typeCode) c
      else cw_push 1 (cw_pop 1 (cw_u1 typeCode (emitOp Newarray c))))"

definition cw_MultiANewArray :: "string \<Rightarrow> int \<Rightarrow> codewriter \<Rightarrow> codewriter" where
  "cw_MultiANewArray descriptor dims c =
     (if dims < 1 \<or> dims > 255 then cw_fail (DimsRange dims) c
      else case ParseField descriptor of
        Inl err \<Rightarrow> cw_fail (BadDescriptor err) c
      | Inr t \<Rightarrow>
          if int (tDims t) < dims then cw_fail (DimsShort descriptor (tDims t) dims) c
          else cw_push 1 (cw_pop dims
            (cw_u1 (word_of_int dims) (cw_ref (pb_Class descriptor) (emitOp Multianewarray c)))))"

definition cw_CheckCast :: "string \<Rightarrow> codewriter \<Rightarrow> codewriter" where
  "cw_CheckCast internal c = cw_ref (pb_Class internal) (emitOp Checkcast c)"

definition cw_InstanceOf :: "string \<Rightarrow> codewriter \<Rightarrow> codewriter" where
  "cw_InstanceOf internal c = cw_ref (pb_Class internal) (emitOp Instanceof c)"

section \<open>Simple operations\<close>

text \<open>\<open>simpleDelta\<close>: the groups in the order the source sets them; a later group would override an
  earlier one, and an opcode of no group has the marker -1.\<close>

definition delta_groups :: "((int \<times> int) \<times> opcode list) list" where
  "delta_groups = [
     ((0, 0), [Nop]),
     ((1, 0), [Monitorenter, Monitorexit]),
     ((0, 1), [Iconst0, Iconst1, Iconst2, Iconst3, Iconst4, Iconst5,
       IconstM1, Fconst0, Fconst1, Fconst2, AconstNull]),
     ((0, 2), [Lconst0, Lconst1, Dconst0, Dconst1]),
     ((2, 1), [Iaload, Faload, Aaload, Baload, Caload, Saload,
       Iadd, Isub, Imul, Idiv, Irem, Iand, Ior, Ixor,
       Ishl, Ishr, Iushr,
       Fadd, Fsub, Fmul, Fdiv, Frem]),
     ((2, 2), [Laload, Daload]),
     ((4, 2), [Ladd, Lsub, Lmul, Ldiv, Lrem, Land, Lor, Lxor,
       Dadd, Dsub, Dmul, Ddiv, Drem]),
     ((3, 2), [Lshl, Lshr, Lushr]),
     ((3, 0), [Iastore, Fastore, Aastore, Bastore, Castore, Sastore]),
     ((4, 0), [Lastore, Dastore]),
     ((1, 1), [Ineg, Fneg, I2f, F2i, I2b, I2c, I2s, Arraylength]),
     ((2, 2), [Lneg, Dneg, L2d, D2l]),
     ((1, 2), [I2l, I2d, F2l, F2d]),
     ((2, 1), [L2i, L2f, D2i, D2f]),
     ((4, 1), [Lcmp, Dcmpl, Dcmpg]),
     ((2, 1), [Fcmpl, Fcmpg]),
     ((1, 0), [Pop, Ireturn, Freturn, Areturn]),
     ((2, 0), [Pop2, Lreturn, Dreturn]),
     ((0, 0), [Return]),
     ((1, 0), [Athrow]),
     ((1, 2), [Dup]),
     ((2, 3), [DupX1]),
     ((3, 4), [DupX2]),
     ((2, 4), [Dup2]),
     ((3, 5), [Dup2X1]),
     ((4, 6), [Dup2X2]),
     ((2, 2), [Swap])]"

definition simpleDelta :: "opcode \<Rightarrow> int \<times> int" where
  "simpleDelta o' = fold (\<lambda>(d, ops) t. if o' \<in> set ops then d else t) delta_groups (- 1, 0)"

definition cw_Op :: "opcode \<Rightarrow> codewriter \<Rightarrow> codewriter" where
  "cw_Op o' c =
     (if op_Kind o' \<noteq> NoOperand then cw_fail (TakesOperands o') c
      else
        let d = simpleDelta o' in
        if fst d < 0 then cw_fail (NotPermitted o') c
        else
          let c1 = cw_push (snd d) (cw_pop (fst d) (emitOp o' c)) in
          if Terminates o' then cw_terminate c1 else c1)"

definition cw_Throw :: "codewriter \<Rightarrow> codewriter" where
  "cw_Throw = cw_Op Athrow"

definition cw_Return :: "codewriter \<Rightarrow> codewriter" where
  "cw_Return c =
     (if IsRef (cw_ret c) then cw_Op Areturn c
      else case tKind (cw_ret c) of
        KVoid \<Rightarrow> cw_Op Return c
      | KLong \<Rightarrow> cw_Op Lreturn c
      | KFloat \<Rightarrow> cw_Op Freturn c
      | KDouble \<Rightarrow> cw_Op Dreturn c
      | KBoolean \<Rightarrow> cw_Op Ireturn c
      | KByte \<Rightarrow> cw_Op Ireturn c
      | KChar \<Rightarrow> cw_Op Ireturn c
      | KShort \<Rightarrow> cw_Op Ireturn c
      | KInt \<Rightarrow> cw_Op Ireturn c
      | k \<Rightarrow> cw_fail (NoReturnFor k) c)"

section \<open>Branches\<close>

definition invert :: "opcode \<Rightarrow> opcode option" where
  "invert o' = map_of
     [(Ifeq, Ifne), (Ifne, Ifeq), (Iflt, Ifge), (Ifge, Iflt), (Ifgt, Ifle), (Ifle, Ifgt),
      (IfIcmpeq, IfIcmpne), (IfIcmpne, IfIcmpeq), (IfIcmplt, IfIcmpge), (IfIcmpge, IfIcmplt),
      (IfIcmpgt, IfIcmple), (IfIcmple, IfIcmpgt), (IfAcmpeq, IfAcmpne), (IfAcmpne, IfAcmpeq),
      (Ifnull, Ifnonnull), (Ifnonnull, Ifnull)] o'"

text \<open>\<open>invert[o]\<close> is the zero opcode where the map has no entry.\<close>

definition invert_op :: "opcode \<Rightarrow> opcode" where
  "invert_op o' = (case invert o' of Some i \<Rightarrow> i | None \<Rightarrow> 0)"

definition cw_branch :: "opcode \<Rightarrow> label_id \<Rightarrow> int \<Rightarrow> codewriter \<Rightarrow> codewriter" where
  "cw_branch o' l pops c =
     (let ord = length (cw_branches c);
          at = length (cw_w c);
          wide = (ord \<in> cw_widen c);
          c1 = noteDepth l (cw_pop pops c);
          c2 = (if \<not> wide then cw_u2 0 (emitOp o' c1)
                else if o' = Goto then cw_u4 0 (emitOp GotoW c1)
                else cw_u4 0 (cw_u1 GotoW (cw_u2 8 (emitOp (invert_op o') c1)))) in
      c2\<lparr>cw_branches := cw_branches c2 @
        [\<lparr>br_ord = ord, br_op = o', br_label = l, br_at = at, br_wide = wide\<rparr>]\<rparr>)"

definition cw_Goto :: "label_id \<Rightarrow> codewriter \<Rightarrow> codewriter" where
  "cw_Goto l c = cw_terminate (cw_branch Goto l 0 c)"

definition cw_IfEq :: "label_id \<Rightarrow> codewriter \<Rightarrow> codewriter" where
  "cw_IfEq l = cw_branch Ifeq l 1"

definition cw_IfNe :: "label_id \<Rightarrow> codewriter \<Rightarrow> codewriter" where
  "cw_IfNe l = cw_branch Ifne l 1"

definition cw_IfLt :: "label_id \<Rightarrow> codewriter \<Rightarrow> codewriter" where
  "cw_IfLt l = cw_branch Iflt l 1"

definition cw_IfGe :: "label_id \<Rightarrow> codewriter \<Rightarrow> codewriter" where
  "cw_IfGe l = cw_branch Ifge l 1"

definition cw_IfGt :: "label_id \<Rightarrow> codewriter \<Rightarrow> codewriter" where
  "cw_IfGt l = cw_branch Ifgt l 1"

definition cw_IfLe :: "label_id \<Rightarrow> codewriter \<Rightarrow> codewriter" where
  "cw_IfLe l = cw_branch Ifle l 1"

definition cw_IfICmpEq :: "label_id \<Rightarrow> codewriter \<Rightarrow> codewriter" where
  "cw_IfICmpEq l = cw_branch IfIcmpeq l 2"

definition cw_IfICmpNe :: "label_id \<Rightarrow> codewriter \<Rightarrow> codewriter" where
  "cw_IfICmpNe l = cw_branch IfIcmpne l 2"

definition cw_IfICmpLt :: "label_id \<Rightarrow> codewriter \<Rightarrow> codewriter" where
  "cw_IfICmpLt l = cw_branch IfIcmplt l 2"

definition cw_IfICmpGe :: "label_id \<Rightarrow> codewriter \<Rightarrow> codewriter" where
  "cw_IfICmpGe l = cw_branch IfIcmpge l 2"

definition cw_IfICmpGt :: "label_id \<Rightarrow> codewriter \<Rightarrow> codewriter" where
  "cw_IfICmpGt l = cw_branch IfIcmpgt l 2"

definition cw_IfICmpLe :: "label_id \<Rightarrow> codewriter \<Rightarrow> codewriter" where
  "cw_IfICmpLe l = cw_branch IfIcmple l 2"

definition cw_IfACmpEq :: "label_id \<Rightarrow> codewriter \<Rightarrow> codewriter" where
  "cw_IfACmpEq l = cw_branch IfAcmpeq l 2"

definition cw_IfACmpNe :: "label_id \<Rightarrow> codewriter \<Rightarrow> codewriter" where
  "cw_IfACmpNe l = cw_branch IfAcmpne l 2"

definition cw_IfNull :: "label_id \<Rightarrow> codewriter \<Rightarrow> codewriter" where
  "cw_IfNull l = cw_branch Ifnull l 1"

definition cw_IfNonNull :: "label_id \<Rightarrow> codewriter \<Rightarrow> codewriter" where
  "cw_IfNonNull l = cw_branch Ifnonnull l 1"

section \<open>Switches\<close>

definition emit_pad :: "nat \<Rightarrow> codewriter \<Rightarrow> codewriter" where
  "emit_pad n c = c\<lparr>cw_w := cw_w c @ replicate n 0\<rparr>"

definition code_pad :: "nat \<Rightarrow> nat" where
  "code_pad at = (4 - (at + 1) mod 4) mod 4"

definition cw_TableSwitch :: "int \<Rightarrow> int \<Rightarrow> label_id \<Rightarrow> label_id list \<Rightarrow> codewriter \<Rightarrow> codewriter" where
  "cw_TableSwitch low high def targets c =
     (if high < low then cw_fail (SwitchRange low high) c
      else if high - low + 1 \<noteq> int (length targets)
      then cw_fail (SwitchCount low high (high - low + 1) (length targets)) c
      else
        let at = length (cw_w c);
            c1 = fold noteDepth targets (noteDepth def (cw_pop 1 c));
            pad = code_pad at;
            c2 = emit_pad pad (emitOp Tableswitch c1);
            c3 = cw_u4 (word_of_int high) (cw_u4 (word_of_int low) (cw_u4 0 c2));
            c4 = fold (\<lambda>_. cw_u4 0) targets c3 in
        cw_terminate (c4\<lparr>cw_switches := cw_switches c4 @
          [\<lparr>sw_op = Tableswitch, sw_at = at, sw_pad = pad, sw_def = def, sw_targets = targets\<rparr>]\<rparr>))"

text \<open>The index permutation \<open>sort.Slice\<close> computes. Equal keys may come out in any order there, but
  then the two are adjacent and the duplicate is refused.\<close>

definition sort_ord :: "int list \<Rightarrow> nat list" where
  "sort_ord matches = sort_key (\<lambda>j. matches ! j) [0 ..< length matches]"

fun adjacent_dup :: "int list \<Rightarrow> int option" where
  "adjacent_dup (x # y # zs) = (if x = y then Some y else adjacent_dup (y # zs))"
| "adjacent_dup _ = None"

definition emit_pair :: "int \<Rightarrow> codewriter \<Rightarrow> codewriter" where
  "emit_pair m c = cw_u4 0 (cw_u4 (word_of_int m) c)"

definition cw_LookupSwitch :: "label_id \<Rightarrow> int list \<Rightarrow> label_id list \<Rightarrow> codewriter \<Rightarrow> codewriter" where
  "cw_LookupSwitch def matches targets c =
     (if length matches \<noteq> length targets then cw_fail (MatchCount (length matches) (length targets)) c
      else
        let ord = sort_ord matches;
            sortedM = map (\<lambda>j. matches ! j) ord;
            sortedT = map (\<lambda>j. targets ! j) ord in
        case adjacent_dup sortedM of
          Some m \<Rightarrow> cw_fail (DuplicateMatch m) c
        | None \<Rightarrow>
            let at = length (cw_w c);
                c1 = fold noteDepth sortedT (noteDepth def (cw_pop 1 c));
                pad = code_pad at;
                c2 = emit_pad pad (emitOp Lookupswitch c1);
                c3 = cw_u4 (word_of_nat (length sortedM)) (cw_u4 0 c2);
                c4 = fold emit_pair sortedM c3 in
            cw_terminate (c4\<lparr>cw_switches := cw_switches c4 @
              [\<lparr>sw_op = Lookupswitch, sw_at = at, sw_pad = pad, sw_def = def, sw_targets = sortedT\<rparr>]\<rparr>))"

section \<open>Handlers and lines\<close>

definition cw_TryCatch :: "label_id \<Rightarrow> label_id \<Rightarrow> label_id \<Rightarrow> string \<Rightarrow> codewriter \<Rightarrow> codewriter" where
  "cw_TryCatch start end_l handler catchType c =
     (let c1 = c\<lparr>cw_handlers := cw_handlers c @
            [\<lparr>hr_start = start, hr_end = end_l, hr_handler = handler, hr_catchType = catchType\<rparr>]\<rparr>;
          d = lb_depth (lbl c1 handler);
          c2 = (if d < 0 then set_depth handler 1 c1
                else if d \<noteq> 1 then cw_fail (HandlerDepth handler d) c1
                else c1) in
      if 1 > cw_maxStack c2 then c2\<lparr>cw_maxStack := 1\<rparr> else c2)"

definition cw_Line :: "int \<Rightarrow> codewriter \<Rightarrow> codewriter" where
  "cw_Line n c = c\<lparr>cw_lines := cw_lines c @
     [\<lparr>lnStartPC = word_of_nat (length (cw_w c)), lnLine = word_of_int n\<rparr>]\<rparr>"

section \<open>Resolving\<close>

definition cw_patchU2 :: "nat \<Rightarrow> u16 \<Rightarrow> codewriter \<Rightarrow> codewriter" where
  "cw_patchU2 off v c = c\<lparr>cw_w := patchU2 off v (cw_w c)\<rparr>"

definition cw_patchU4 :: "nat \<Rightarrow> u32 \<Rightarrow> codewriter \<Rightarrow> codewriter" where
  "cw_patchU4 off v c = c\<lparr>cw_w := patchU4 off v (cw_w c)\<rparr>"

text \<open>One branch of the first loop of \<open>resolve\<close>; the flag says whether it has to be widened.\<close>

definition resolve_branch :: "branch \<Rightarrow> codewriter \<Rightarrow> bool \<times> codewriter" where
  "resolve_branch br c =
     (let pc = lb_pc (lbl c (br_label br)); off = pc - int (br_at br) in
      if br_wide br \<and> br_op br = Goto then (False, cw_patchU4 (br_at br + 1) (word_of_int off) c)
      else if br_wide br then (False, cw_patchU4 (br_at br + 4) (word_of_int (pc - int (br_at br) - 3)) c)
      else if off < - 32768 \<or> off > 32767 then (True, c\<lparr>cw_widen := insert (br_ord br) (cw_widen c)\<rparr>)
      else (False, cw_patchU2 (br_at br + 1) (word_of_int off) c))"

text \<open>The loop; \<^const>\<open>None\<close> where it returns early with an error.\<close>

fun resolve_branches :: "branch list \<Rightarrow> bool \<Rightarrow> codewriter \<Rightarrow> bool option \<times> codewriter" where
  "resolve_branches [] again c = (Some again, c)"
| "resolve_branches (br # brs) again c =
     (if lb_pc (lbl c (br_label br)) < 0 then (None, cw_fail (NeverPlaced (br_label br)) c)
      else case resolve_branch br c of (w, c1) \<Rightarrow> resolve_branches brs (again \<or> w) c1)"

fun resolve_targets :: "switch_rec \<Rightarrow> nat \<Rightarrow> label_id list \<Rightarrow> codewriter \<Rightarrow> bool \<times> codewriter" where
  "resolve_targets s i [] c = (True, c)"
| "resolve_targets s i (t # ts) c =
     (let pc = lb_pc (lbl c t); body = sw_at s + 1 + sw_pad s; off = word_of_int (pc - int (sw_at s)) in
      if pc < 0 then (False, cw_fail (SwitchTarget t) c)
      else resolve_targets s (i + 1) ts
        (if sw_op s = Tableswitch then cw_patchU4 (body + 12 + 4 * i) off c
         else cw_patchU4 (body + 8 + 8 * i + 4) off c))"

fun resolve_switches :: "switch_rec list \<Rightarrow> codewriter \<Rightarrow> codewriter" where
  "resolve_switches [] c = c"
| "resolve_switches (s # ss) c =
     (let pc = lb_pc (lbl c (sw_def s)) in
      if pc < 0 then cw_fail (SwitchDefault (sw_def s)) c
      else case resolve_targets s 0 (sw_targets s)
          (cw_patchU4 (sw_at s + 1 + sw_pad s) (word_of_int (pc - int (sw_at s))) c) of
        (ok, c1) \<Rightarrow> if ok then resolve_switches ss c1 else c1)"

definition resolve :: "codewriter \<Rightarrow> bool \<times> codewriter" where
  "resolve c = (case resolve_branches (cw_branches c) False c of
     (None, c1) \<Rightarrow> (False, c1)
   | (Some again, c1) \<Rightarrow> if again then (True, c1) else (False, resolve_switches (cw_switches c1) c1))"

text \<open>\<open>localRows\<close>: the rows, or nil after an error.\<close>

fun local_rows :: "local_rec list \<Rightarrow> codewriter \<Rightarrow> local_variable list option \<times> codewriter" where
  "local_rows [] c = (Some [], c)"
| "local_rows (l # ls) c =
     (let s = lb_pc (lbl c (lr_start l)); e = lb_pc (lbl c (lr_end l)) in
      if s < 0 \<or> e < 0 then (None, cw_fail (LocalSpan (lr_name l)) c)
      else case local_rows ls c of (rows, c1) \<Rightarrow>
        (if e \<le> s then rows
         else map_option (Cons \<lparr>lvStartPC = word_of_int s, lvLength = word_of_int (e - s),
           lvName = lr_name l, lvDescriptor = lr_desc l, lvSlot = word_of_int (lr_slot l)\<rparr>) rows, c1))"

definition localRows :: "codewriter \<Rightarrow> local_variable list \<times> codewriter" where
  "localRows c = (case local_rows (cw_locals c) c of
     (Some rows, c1) \<Rightarrow> (rows, c1) | (None, c1) \<Rightarrow> ([], c1))"

section \<open>Method bodies\<close>

text \<open>The closure a caller passes to \<open>MethodBuilder.Code\<close> is required to be deterministic and has no way
  to read the writer back, so what it does is a fixed sequence of calls. Each call is a constructor;
  the labels it names are those its \<open>NewLabel\<close> calls return, numbered from 0. The \<open>int32\<close> and \<open>int64\<close>
  arguments are words, read as signed; the bit patterns stand for floats and doubles.\<close>

datatype local_type = LocalA | LocalI | LocalF | LocalL | LocalD

datatype cond = CondEq | CondNe | CondLt | CondGe | CondGt | CondLe | CondICmpEq | CondICmpNe | CondICmpLt
  | CondICmpGe | CondICmpGt | CondICmpLe | CondACmpEq | CondACmpNe | CondNull | CondNonNull

datatype field_access = FGetStatic | FPutStatic | FGetField | FPutField

datatype invoke_form = IVirtual | ISpecial | IStatic | IInterface

datatype code_op =
    DoNewLabel
  | DoMark label_id
  | DoLoad local_type int
  | DoStore local_type int
  | DoIinc int int
  | DoLocal int string string label_id label_id
  | DoIconst u32
  | DoLconst u64
  | DoFconst u32
  | DoDconst u64
  | DoSconst string
  | DoCconst string
  | DoAconstNull
  | DoField field_access string string string
  | DoInvoke invoke_form string string string
  | DoNew string
  | DoANewArray string
  | DoNewArray u8
  | DoMultiANewArray string int
  | DoCheckCast string
  | DoInstanceOf string
  | DoThrow
  | DoOp opcode
  | DoReturn
  | DoGoto label_id
  | DoIf cond label_id
  | DoTableSwitch u32 u32 label_id "label_id list"
  | DoLookupSwitch label_id "u32 list" "label_id list"
  | DoTryCatch label_id label_id label_id string
  | DoLine int

fun do_load :: "local_type \<Rightarrow> int \<Rightarrow> codewriter \<Rightarrow> codewriter" where
  "do_load LocalA = cw_Aload"
| "do_load LocalI = cw_Iload"
| "do_load LocalF = cw_Fload"
| "do_load LocalL = cw_Lload"
| "do_load LocalD = cw_Dload"

fun do_store :: "local_type \<Rightarrow> int \<Rightarrow> codewriter \<Rightarrow> codewriter" where
  "do_store LocalA = cw_Astore"
| "do_store LocalI = cw_Istore"
| "do_store LocalF = cw_Fstore"
| "do_store LocalL = cw_Lstore"
| "do_store LocalD = cw_Dstore"

fun do_if :: "cond \<Rightarrow> label_id \<Rightarrow> codewriter \<Rightarrow> codewriter" where
  "do_if CondEq = cw_IfEq"
| "do_if CondNe = cw_IfNe"
| "do_if CondLt = cw_IfLt"
| "do_if CondGe = cw_IfGe"
| "do_if CondGt = cw_IfGt"
| "do_if CondLe = cw_IfLe"
| "do_if CondICmpEq = cw_IfICmpEq"
| "do_if CondICmpNe = cw_IfICmpNe"
| "do_if CondICmpLt = cw_IfICmpLt"
| "do_if CondICmpGe = cw_IfICmpGe"
| "do_if CondICmpGt = cw_IfICmpGt"
| "do_if CondICmpLe = cw_IfICmpLe"
| "do_if CondACmpEq = cw_IfACmpEq"
| "do_if CondACmpNe = cw_IfACmpNe"
| "do_if CondNull = cw_IfNull"
| "do_if CondNonNull = cw_IfNonNull"

fun do_field :: "field_access \<Rightarrow> string \<Rightarrow> string \<Rightarrow> string \<Rightarrow> codewriter \<Rightarrow> codewriter" where
  "do_field FGetStatic = cw_GetStatic"
| "do_field FPutStatic = cw_PutStatic"
| "do_field FGetField = cw_GetField"
| "do_field FPutField = cw_PutField"

fun do_invoke :: "invoke_form \<Rightarrow> string \<Rightarrow> string \<Rightarrow> string \<Rightarrow> codewriter \<Rightarrow> codewriter" where
  "do_invoke IVirtual = cw_InvokeVirtual"
| "do_invoke ISpecial = cw_InvokeSpecial"
| "do_invoke IStatic = cw_InvokeStatic"
| "do_invoke IInterface = cw_InvokeInterface"

fun run_op :: "code_op \<Rightarrow> codewriter \<Rightarrow> codewriter" where
  "run_op DoNewLabel c = snd (NewLabel c)"
| "run_op (DoMark l) c = Mark l c"
| "run_op (DoLoad t slot) c = do_load t slot c"
| "run_op (DoStore t slot) c = do_store t slot c"
| "run_op (DoIinc slot delta) c = cw_Iinc slot delta c"
| "run_op (DoLocal slot name d s e) c = cw_Local slot name d s e c"
| "run_op (DoIconst v) c = cw_Iconst (sint v) c"
| "run_op (DoLconst v) c = cw_Lconst (sint v) c"
| "run_op (DoFconst v) c = cw_Fconst v c"
| "run_op (DoDconst v) c = cw_Dconst v c"
| "run_op (DoSconst s) c = cw_Sconst s c"
| "run_op (DoCconst s) c = cw_Cconst s c"
| "run_op DoAconstNull c = cw_AconstNull c"
| "run_op (DoField a own n d) c = do_field a own n d c"
| "run_op (DoInvoke f own n d) c = do_invoke f own n d c"
| "run_op (DoNew s) c = cw_New s c"
| "run_op (DoANewArray s) c = cw_ANewArray s c"
| "run_op (DoNewArray t) c = cw_NewArray t c"
| "run_op (DoMultiANewArray d n) c = cw_MultiANewArray d n c"
| "run_op (DoCheckCast s) c = cw_CheckCast s c"
| "run_op (DoInstanceOf s) c = cw_InstanceOf s c"
| "run_op DoThrow c = cw_Throw c"
| "run_op (DoOp o') c = cw_Op o' c"
| "run_op DoReturn c = cw_Return c"
| "run_op (DoGoto l) c = cw_Goto l c"
| "run_op (DoIf k l) c = do_if k l c"
| "run_op (DoTableSwitch low high d ts) c = cw_TableSwitch (sint low) (sint high) d ts c"
| "run_op (DoLookupSwitch d ms ts) c = cw_LookupSwitch d (map sint ms) ts c"
| "run_op (DoTryCatch s e h t) c = cw_TryCatch s e h t c"
| "run_op (DoLine n) c = cw_Line n c"

definition run_body :: "code_op list \<Rightarrow> codewriter \<Rightarrow> codewriter" where
  "run_body ops c = fold run_op ops c"

end
