(* ===== verification/CodeInv.thy ===== *)
theory CodeInv
  imports CodeWriter CodeLayout
begin

unbundle bit_operations_syntax

text \<open>
  What every call on a \<open>CodeWriter\<close> preserves. The locale \<open>code_step\<close> is the contract of a call: an
  error stays, the stack and local counters stay within their limits, and the code array grows by
  whole instructions, with the records of labels, branches and switches pointing at instruction
  boundaries. Every call of \<^const>\<open>run_op\<close> meets it, so every method body does.
\<close>

section \<open>What the primitives leave alone\<close>

definition pcs :: "codewriter \<Rightarrow> int list" where
  "pcs c = map lb_pc (cw_labels c)"

named_theorems cw_frame

lemma fail_frame [cw_frame]:
  "cw_w (cw_fail e c) = cw_w c" "pcs (cw_fail e c) = pcs c" "cw_branches (cw_fail e c) = cw_branches c"
  "cw_switches (cw_fail e c) = cw_switches c" "cw_widen (cw_fail e c) = cw_widen c" "cw_reachable (cw_fail e c) = cw_reachable c"
  "cw_labels (cw_fail e c) = cw_labels c" "cw_depth (cw_fail e c) = cw_depth c" "cw_maxStack (cw_fail e c) = cw_maxStack c"
  "cw_maxLocals (cw_fail e c) = cw_maxLocals c" "cw_p (cw_fail e c) = cw_p c" "cw_err (cw_fail e c) \<noteq> None"
  by (simp_all add: cw_fail_def pcs_def)

lemma fail_err [cw_frame]: "cw_err c \<noteq> None \<Longrightarrow> cw_fail e c = c"
  by (simp add: cw_fail_def)

lemma lbl_update: "cw_labels (c\<lparr>cw_labels := xs\<rparr>) = xs"
  by simp

lemma set_depth_frame [cw_frame]:
  "cw_w (set_depth l v c) = cw_w c" "pcs (set_depth l v c) = pcs c" "cw_branches (set_depth l v c) = cw_branches c"
  "cw_switches (set_depth l v c) = cw_switches c" "cw_widen (set_depth l v c) = cw_widen c"
  "cw_reachable (set_depth l v c) = cw_reachable c" "cw_depth (set_depth l v c) = cw_depth c"
  "cw_maxStack (set_depth l v c) = cw_maxStack c" "cw_maxLocals (set_depth l v c) = cw_maxLocals c"
  "cw_p (set_depth l v c) = cw_p c" "cw_err (set_depth l v c) = cw_err c"
  "length (cw_labels (set_depth l v c)) = length (cw_labels c)"
proof -
  show "pcs (set_depth l v c) = pcs c"
    by (cases "l < length (cw_labels c)")
      (simp_all add: set_depth_def pcs_def lbl_def map_update list_update_beyond list_update_same_conv)
qed (simp_all add: set_depth_def)

lemma noteDepth_frame [cw_frame]:
  "cw_w (noteDepth l c) = cw_w c" "pcs (noteDepth l c) = pcs c" "cw_branches (noteDepth l c) = cw_branches c"
  "cw_switches (noteDepth l c) = cw_switches c" "cw_widen (noteDepth l c) = cw_widen c"
  "cw_reachable (noteDepth l c) = cw_reachable c" "cw_depth (noteDepth l c) = cw_depth c"
  "cw_maxStack (noteDepth l c) = cw_maxStack c" "cw_maxLocals (noteDepth l c) = cw_maxLocals c"
  "cw_p (noteDepth l c) = cw_p c" "length (cw_labels (noteDepth l c)) = length (cw_labels c)"
  by (simp_all add: noteDepth_def cw_frame)

lemma push_frame [cw_frame]:
  "cw_w (cw_push n c) = cw_w c" "pcs (cw_push n c) = pcs c" "cw_branches (cw_push n c) = cw_branches c"
  "cw_switches (cw_push n c) = cw_switches c" "cw_widen (cw_push n c) = cw_widen c"
  "cw_reachable (cw_push n c) = cw_reachable c" "cw_labels (cw_push n c) = cw_labels c"
  "cw_maxLocals (cw_push n c) = cw_maxLocals c" "cw_p (cw_push n c) = cw_p c"
  by (simp_all add: cw_push_def Let_def cw_frame) (simp_all add: pcs_def)

lemma pop_frame [cw_frame]:
  "cw_w (cw_pop n c) = cw_w c" "pcs (cw_pop n c) = pcs c" "cw_branches (cw_pop n c) = cw_branches c"
  "cw_switches (cw_pop n c) = cw_switches c" "cw_widen (cw_pop n c) = cw_widen c"
  "cw_reachable (cw_pop n c) = cw_reachable c" "cw_labels (cw_pop n c) = cw_labels c"
  "cw_maxLocals (cw_pop n c) = cw_maxLocals c" "cw_maxStack (cw_pop n c) = cw_maxStack c" "cw_p (cw_pop n c) = cw_p c"
  by (simp_all add: cw_pop_def Let_def cw_frame) (simp_all add: pcs_def cw_frame)

lemma useLocal_frame [cw_frame]:
  "cw_w (useLocal s n c) = cw_w c" "pcs (useLocal s n c) = pcs c" "cw_branches (useLocal s n c) = cw_branches c"
  "cw_switches (useLocal s n c) = cw_switches c" "cw_widen (useLocal s n c) = cw_widen c"
  "cw_reachable (useLocal s n c) = cw_reachable c" "cw_labels (useLocal s n c) = cw_labels c"
  "cw_depth (useLocal s n c) = cw_depth c" "cw_maxStack (useLocal s n c) = cw_maxStack c" "cw_p (useLocal s n c) = cw_p c"
  by (simp_all add: useLocal_def Let_def cw_frame) (simp_all add: pcs_def)

lemma write_frame [cw_frame]:
  "cw_w (cw_u1 a c) = cw_w c @ [a]" "cw_w (cw_u2 b c) = cw_w c @ be_u2 b" "cw_w (cw_u4 d c) = cw_w c @ be_u4 d"
  "pcs (cw_u1 a c) = pcs c" "pcs (cw_u2 b c) = pcs c" "pcs (cw_u4 d c) = pcs c"
  "cw_branches (cw_u1 a c) = cw_branches c" "cw_branches (cw_u2 b c) = cw_branches c" "cw_branches (cw_u4 d c) = cw_branches c"
  "cw_switches (cw_u1 a c) = cw_switches c" "cw_switches (cw_u2 b c) = cw_switches c" "cw_switches (cw_u4 d c) = cw_switches c"
  "cw_widen (cw_u1 a c) = cw_widen c" "cw_widen (cw_u2 b c) = cw_widen c" "cw_widen (cw_u4 d c) = cw_widen c"
  "cw_reachable (cw_u1 a c) = cw_reachable c" "cw_reachable (cw_u2 b c) = cw_reachable c" "cw_reachable (cw_u4 d c) = cw_reachable c"
  "cw_labels (cw_u1 a c) = cw_labels c" "cw_labels (cw_u2 b c) = cw_labels c" "cw_labels (cw_u4 d c) = cw_labels c"
  "cw_depth (cw_u1 a c) = cw_depth c" "cw_depth (cw_u2 b c) = cw_depth c" "cw_depth (cw_u4 d c) = cw_depth c"
  "cw_maxStack (cw_u1 a c) = cw_maxStack c" "cw_maxStack (cw_u2 b c) = cw_maxStack c" "cw_maxStack (cw_u4 d c) = cw_maxStack c"
  "cw_maxLocals (cw_u1 a c) = cw_maxLocals c" "cw_maxLocals (cw_u2 b c) = cw_maxLocals c" "cw_maxLocals (cw_u4 d c) = cw_maxLocals c"
  "cw_p (cw_u1 a c) = cw_p c" "cw_p (cw_u2 b c) = cw_p c" "cw_p (cw_u4 d c) = cw_p c"
  "cw_err (cw_u1 a c) = cw_err c" "cw_err (cw_u2 b c) = cw_err c" "cw_err (cw_u4 d c) = cw_err c"
  by (simp_all add: cw_u1_def cw_u2_def cw_u4_def w_u1_def w_u2_def w_u4_def pcs_def)

lemma emitOp_frame [cw_frame]:
  "cw_w (emitOp o' c) = (if cw_reachable c then cw_w c @ [o'] else cw_w c)"
  "pcs (emitOp o' c) = pcs c" "cw_branches (emitOp o' c) = cw_branches c" "cw_switches (emitOp o' c) = cw_switches c"
  "cw_widen (emitOp o' c) = cw_widen c" "cw_reachable (emitOp o' c) = cw_reachable c" "cw_labels (emitOp o' c) = cw_labels c"
  "cw_depth (emitOp o' c) = cw_depth c" "cw_maxStack (emitOp o' c) = cw_maxStack c" "cw_maxLocals (emitOp o' c) = cw_maxLocals c"
  "cw_p (emitOp o' c) = cw_p c"
  by (simp_all add: emitOp_def cw_frame)

lemma ref_frame [cw_frame]:
  "\<exists>i. cw_w (cw_ref f c) = cw_w c @ be_u2 i"
  "pcs (cw_ref f c) = pcs c" "cw_branches (cw_ref f c) = cw_branches c" "cw_switches (cw_ref f c) = cw_switches c"
  "cw_widen (cw_ref f c) = cw_widen c" "cw_reachable (cw_ref f c) = cw_reachable c" "cw_labels (cw_ref f c) = cw_labels c"
  "cw_depth (cw_ref f c) = cw_depth c" "cw_maxStack (cw_ref f c) = cw_maxStack c" "cw_maxLocals (cw_ref f c) = cw_maxLocals c"
  "cw_err (cw_ref f c) = cw_err c"
  by (auto simp: cw_ref_def cw_intern_def cw_frame pcs_def split: prod.splits)

lemma terminate_frame [cw_frame]:
  "cw_w (cw_terminate c) = cw_w c" "pcs (cw_terminate c) = pcs c" "cw_branches (cw_terminate c) = cw_branches c"
  "cw_switches (cw_terminate c) = cw_switches c" "cw_widen (cw_terminate c) = cw_widen c" "cw_labels (cw_terminate c) = cw_labels c"
  "cw_depth (cw_terminate c) = cw_depth c" "cw_maxStack (cw_terminate c) = cw_maxStack c"
  "cw_maxLocals (cw_terminate c) = cw_maxLocals c" "cw_err (cw_terminate c) = cw_err c" "cw_p (cw_terminate c) = cw_p c"
  by (simp_all add: cw_terminate_def pcs_def)

section \<open>When a primitive succeeds\<close>

lemma err_iff [cw_frame]:
  "cw_err (emitOp o' c) = None \<longleftrightarrow> cw_err c = None \<and> cw_reachable c"
  "cw_err (cw_push n c) = None \<longleftrightarrow> cw_err c = None \<and> (cw_depth c + n \<le> cw_maxStack c \<or> cw_depth c + n \<le> MaxStack)"
  "cw_err (cw_pop n c) = None \<longleftrightarrow> cw_err c = None \<and> n \<le> cw_depth c"
  "cw_err (useLocal s w c) = None \<longleftrightarrow> cw_err c = None \<and> 0 \<le> s \<and> s \<le> MaxLocals \<and> s + w \<le> MaxLocals"
  "cw_err (noteDepth l c) = None \<longleftrightarrow> cw_err c = None \<and> (lb_depth (lbl c l) < 0 \<or> lb_depth (lbl c l) = cw_depth c)"
  by (auto simp: emitOp_def cw_push_def cw_pop_def useLocal_def noteDepth_def Let_def cw_frame split: if_splits)

lemma err_sticky:
  "cw_err c \<noteq> None \<Longrightarrow> cw_err (emitOp o' c) = cw_err c"
  "cw_err c \<noteq> None \<Longrightarrow> cw_err (cw_push n c) = cw_err c"
  "cw_err c \<noteq> None \<Longrightarrow> cw_err (cw_pop n c) = cw_err c"
  "cw_err c \<noteq> None \<Longrightarrow> cw_err (useLocal s w c) = cw_err c"
  "cw_err c \<noteq> None \<Longrightarrow> cw_err (noteDepth l c) = cw_err c"
  by (auto simp: emitOp_def cw_push_def cw_pop_def useLocal_def noteDepth_def Let_def cw_frame cw_fail_def)

section \<open>The counters\<close>

definition counters_ok :: "codewriter \<Rightarrow> bool" where
  "counters_ok c \<longleftrightarrow> 0 \<le> cw_depth c \<and> cw_depth c \<le> cw_maxStack c \<and> cw_maxStack c \<le> MaxStack \<and>
     0 \<le> cw_maxLocals c \<and> cw_maxLocals c \<le> MaxLocals \<and>
     (\<forall>l \<in> set (cw_labels c). - 1 \<le> lb_depth l \<and> lb_depth l \<le> cw_maxStack c)"

lemma counters_push:
  "cw_err (cw_push n c) = None \<Longrightarrow> 0 \<le> n \<Longrightarrow> counters_ok c \<Longrightarrow> counters_ok (cw_push n c)"
  by (auto simp: cw_push_def Let_def counters_ok_def cw_frame split: if_splits)

lemma counters_pop: "cw_err (cw_pop n c) = None \<Longrightarrow> 0 \<le> n \<Longrightarrow> counters_ok c \<Longrightarrow> counters_ok (cw_pop n c)"
  by (auto simp: cw_pop_def Let_def counters_ok_def cw_frame split: if_splits)

lemma counters_local: "0 \<le> n \<Longrightarrow> counters_ok c \<Longrightarrow> counters_ok (useLocal s n c)"
  by (auto simp: useLocal_def Let_def counters_ok_def cw_frame)

lemma counters_depth: "counters_ok c \<Longrightarrow> counters_ok (set_depth l (cw_depth c) c)"
  by (auto simp: counters_ok_def set_depth_def dest!: set_update_subset_insert [THEN subsetD])

lemma counters_note: "counters_ok c \<Longrightarrow> counters_ok (noteDepth l c)"
  by (simp add: noteDepth_def counters_depth) (simp add: counters_ok_def cw_frame)

lemma counters_writes:
  "counters_ok (cw_u1 a c) = counters_ok c" "counters_ok (cw_u2 b c) = counters_ok c" "counters_ok (cw_u4 d c) = counters_ok c"
  "counters_ok (emitOp o' c) = counters_ok c" "counters_ok (cw_ref f c) = counters_ok c"
  "counters_ok (cw_terminate c) = counters_ok c" "counters_ok (cw_fail e c) = counters_ok c"
  by (simp_all add: counters_ok_def cw_frame)

lemmas counters_intros = counters_push counters_pop counters_local counters_note

section \<open>The layout\<close>

definition boundary :: "instr list \<Rightarrow> nat \<Rightarrow> bool" where
  "boundary is p \<longleftrightarrow> (\<exists>k \<le> length is. p = length (code_bytes (take k is)))"

abbreviation instr_off :: "instr list \<Rightarrow> nat \<Rightarrow> nat" where
  "instr_off is k \<equiv> length (code_bytes (take k is))"

text \<open>A branch record points at its instruction: the short form, the long \<open>goto\<close>, or the inverted test
  followed by a long \<open>goto\<close>.\<close>

definition branch_ok :: "instr list \<Rightarrow> branch \<Rightarrow> bool" where
  "branch_ok is br \<longleftrightarrow> (\<exists>k < length is. instr_off is k = br_at br \<and> \<not> inWide (is ! k) \<and> op_Kind (br_op br) = Branch2 \<and>
     (if \<not> br_wide br then inOp (is ! k) = br_op br
      else if br_op br = Goto then inOp (is ! k) = GotoW
      else invert (br_op br) = Some (inOp (is ! k)) \<and> inRaw (is ! k) = inOp (is ! k) # be_u2 8 \<and>
        Suc k < length is \<and> inOp (is ! Suc k) = GotoW \<and> \<not> inWide (is ! Suc k)))"

text \<open>Where the code of a branch ends.\<close>

definition br_end :: "branch \<Rightarrow> nat" where
  "br_end br = br_at br + (if \<not> br_wide br then 3 else if br_op br = Goto then 5 else 8)"

definition switch_ok :: "instr list \<Rightarrow> switch_rec \<Rightarrow> bool" where
  "switch_ok is s \<longleftrightarrow> (\<exists>k < length is. instr_off is k = sw_at s \<and> \<not> inWide (is ! k) \<and> inOp (is ! k) = sw_op s \<and>
     sw_op s \<in> {Tableswitch, Lookupswitch} \<and> sw_pad s = switch_pad (inPC (is ! k)) \<and>
     length (inRaw (is ! k)) = 1 + sw_pad s +
       (if sw_op s = Tableswitch then 12 + 4 * length (sw_targets s) else 8 + 8 * length (sw_targets s)))"

definition placed_ok :: "instr list \<Rightarrow> int \<Rightarrow> bool" where
  "placed_ok is p \<longleftrightarrow> p = - 1 \<or> 0 \<le> p \<and> boundary is (nat p)"

definition code_inv :: "codewriter \<Rightarrow> instr list \<Rightarrow> bool" where
  "code_inv c is \<longleftrightarrow> code_seq 0 is \<and> cw_w c = code_bytes is \<and> list_all (placed_ok is) (pcs c) \<and>
     list_all (branch_ok is) (cw_branches c) \<and> list_all (switch_ok is) (cw_switches c) \<and>
     sorted_wrt (\<lambda>a b. br_end a \<le> br_at b) (cw_branches c) \<and> sorted_wrt (<) (map sw_at (cw_switches c))"

lemma boundary_append: "boundary is p \<Longrightarrow> boundary (is @ js) p"
proof -
  assume "boundary is p"
  then obtain k where "k \<le> length is" "p = instr_off is k" by (auto simp: boundary_def)
  then show "boundary (is @ js) p" unfolding boundary_def by (intro exI [of _ k]) simp
qed

lemma boundary_end: "boundary is (length (code_bytes is))"
  unfolding boundary_def by (intro exI [of _ "length is"]) simp

lemma nth_off_append: "k < length is \<Longrightarrow> (is @ js) ! k = is ! k \<and> instr_off (is @ js) k = instr_off is k"
  by (simp add: nth_append)

lemma branch_ok_append: "branch_ok is br \<Longrightarrow> branch_ok (is @ js) br"
  unfolding branch_ok_def
proof (elim exE conjE)
  fix k
  assume k: "k < length is" "instr_off is k = br_at br" "\<not> inWide (is ! k)" "op_Kind (br_op br) = Branch2"
    and s: "if \<not> br_wide br then inOp (is ! k) = br_op br
      else if br_op br = Goto then inOp (is ! k) = GotoW
      else invert (br_op br) = Some (inOp (is ! k)) \<and> inRaw (is ! k) = inOp (is ! k) # be_u2 8 \<and>
        Suc k < length is \<and> inOp (is ! Suc k) = GotoW \<and> \<not> inWide (is ! Suc k)"
  show "\<exists>k < length (is @ js). instr_off (is @ js) k = br_at br \<and> \<not> inWide ((is @ js) ! k) \<and> op_Kind (br_op br) = Branch2 \<and>
     (if \<not> br_wide br then inOp ((is @ js) ! k) = br_op br
      else if br_op br = Goto then inOp ((is @ js) ! k) = GotoW
      else invert (br_op br) = Some (inOp ((is @ js) ! k)) \<and> inRaw ((is @ js) ! k) = inOp ((is @ js) ! k) # be_u2 8 \<and>
        Suc k < length (is @ js) \<and> inOp ((is @ js) ! Suc k) = GotoW \<and> \<not> inWide ((is @ js) ! Suc k))"
    by (rule exI [of _ k]) (use k s nth_off_append [of k "is" js] nth_off_append [of "Suc k" "is" js] in \<open>auto split: if_splits\<close>)
qed

lemma switch_ok_append: "switch_ok is s \<Longrightarrow> switch_ok (is @ js) s"
  unfolding switch_ok_def
proof (elim exE conjE)
  fix k
  assume k: "k < length is" "instr_off is k = sw_at s" "\<not> inWide (is ! k)" "inOp (is ! k) = sw_op s"
    "sw_op s \<in> {Tableswitch, Lookupswitch}" "sw_pad s = switch_pad (inPC (is ! k))"
    "length (inRaw (is ! k)) = 1 + sw_pad s +
       (if sw_op s = Tableswitch then 12 + 4 * length (sw_targets s) else 8 + 8 * length (sw_targets s))"
  show "\<exists>k < length (is @ js). instr_off (is @ js) k = sw_at s \<and> \<not> inWide ((is @ js) ! k) \<and> inOp ((is @ js) ! k) = sw_op s \<and>
     sw_op s \<in> {Tableswitch, Lookupswitch} \<and> sw_pad s = switch_pad (inPC ((is @ js) ! k)) \<and>
     length (inRaw ((is @ js) ! k)) = 1 + sw_pad s +
       (if sw_op s = Tableswitch then 12 + 4 * length (sw_targets s) else 8 + 8 * length (sw_targets s))"
    by (rule exI [of _ k]) (use k nth_off_append [of k "is" js] in auto)
qed

lemma code_inv_append:
  assumes "code_inv c is" and "code_seq (length (cw_w c)) js" and "cw_w c' = cw_w c @ code_bytes js"
    and "pcs c' = pcs c" and "cw_branches c' = cw_branches c" and "cw_switches c' = cw_switches c"
  shows "code_inv c' (is @ js)"
  using assms unfolding code_inv_def placed_ok_def
  by (auto simp: list_all_iff intro: boundary_append branch_ok_append switch_ok_append)

section \<open>The contract of a call\<close>

definition interning :: "u16 pb_op \<Rightarrow> bool" where
  "interning f \<longleftrightarrow> (\<forall>p i q. f p = (i, q) \<longrightarrow> pb_grows p q \<and> (pb_inv p \<longrightarrow> pb_inv q))"

lemma interning_request: "interning (request k)"
  unfolding interning_def using anyc.grows anyc.keeps_inv by blast

lemmas interning_ops = interning_request [of "RUTF8 s" for s, simplified] interning_request [of "RClass s" for s, simplified]
  interning_request [of "RString s" for s, simplified] interning_request [of "RFieldRef c n d" for c n d, simplified]
  interning_request [of "RMethodRef c n d" for c n d, simplified]
  interning_request [of "RInterfaceMethodRef c n d" for c n d, simplified]
  interning_request [of "RInt v" for v, simplified] interning_request [of "RFloat v" for v, simplified]
  interning_request [of "RLong v" for v, simplified] interning_request [of "RDouble v" for v, simplified]

locale code_step =
  fixes call :: "codewriter \<Rightarrow> codewriter"
  assumes sticky: "cw_err c \<noteq> None \<Longrightarrow> cw_err (call c) = cw_err c"
    and extends: "length (cw_w c) \<le> length (cw_w (call c))"
    and counters: "cw_err (call c) = None \<Longrightarrow> counters_ok c \<Longrightarrow> counters_ok (call c)"
    and layout: "cw_err (call c) = None \<Longrightarrow> length (cw_w (call c)) < 2 ^ 32 \<Longrightarrow> code_inv c is \<Longrightarrow>
      \<exists>js. code_inv (call c) (is @ js)"
    and pool: "pb_grows (cw_p c) (cw_p (call c)) \<and> (pb_inv (cw_p c) \<longrightarrow> pb_inv (cw_p (call c)))"
    and keeps_widen: "cw_widen (call c) = cw_widen c"
begin

lemma err_before: "cw_err (call c) = None \<Longrightarrow> cw_err c = None"
  using sticky by (cases "cw_err c") auto

end

lemma code_step_id: "code_step (\<lambda>c. c)"
proof
  show "\<exists>js. code_inv c (is @ js)" if "code_inv c is" for c "is" using that by (intro exI [of _ "[]"]) simp
qed simp_all

lemma code_step_comp:
  assumes f: "code_step f" and g: "code_step g"
  shows "code_step (\<lambda>c. g (f c))"
proof
  show "cw_err (g (f c)) = cw_err c" if "cw_err c \<noteq> None" for c
    using that code_step.sticky [OF f that] code_step.sticky [OF g, of "f c"] by simp
  show "length (cw_w c) \<le> length (cw_w (g (f c)))" for c
    using code_step.extends [OF f, of c] code_step.extends [OF g, of "f c"] by simp
  show "counters_ok (g (f c))" if "cw_err (g (f c)) = None" "counters_ok c" for c
    using that code_step.counters [OF f] code_step.counters [OF g] code_step.err_before [OF g] by blast
  show "\<exists>js. code_inv (g (f c)) (is @ js)"
    if "cw_err (g (f c)) = None" "length (cw_w (g (f c))) < 2 ^ 32" "code_inv c is" for c "is"
  proof -
    note t = that
    have e: "cw_err (f c) = None" using code_step.err_before [OF g t(1)] .
    have "length (cw_w (f c)) < 2 ^ 32" using code_step.extends [OF g, of "f c"] t(2) by simp
    then obtain js where "code_inv (f c) (is @ js)" using code_step.layout [OF f e _ t(3)] by blast
    then obtain ks where "code_inv (g (f c)) ((is @ js) @ ks)" using code_step.layout [OF g t(1,2)] by blast
    then show ?thesis by (intro exI [of _ "js @ ks"]) simp
  qed
  show "pb_grows (cw_p c) (cw_p (g (f c))) \<and> (pb_inv (cw_p c) \<longrightarrow> pb_inv (cw_p (g (f c))))" for c
    using code_step.pool [OF f, of c] code_step.pool [OF g, of "f c"] pb_grows_trans by blast
  show "cw_widen (g (f c)) = cw_widen c" for c
    using code_step.keeps_widen [OF f] code_step.keeps_widen [OF g] by simp
qed

text \<open>A call that appends whole instructions and keeps the records.\<close>

lemma code_step_emits:
  assumes "\<And>c. cw_err c \<noteq> None \<Longrightarrow> cw_err (f c) = cw_err c"
    and "\<And>c. length (cw_w c) \<le> length (cw_w (f c))"
    and "\<And>c. cw_err (f c) = None \<Longrightarrow> counters_ok c \<Longrightarrow> counters_ok (f c)"
    and "\<And>c. cw_err (f c) = None \<Longrightarrow> length (cw_w (f c)) < 2 ^ 32 \<Longrightarrow>
      \<exists>js. code_seq (length (cw_w c)) js \<and> cw_w (f c) = cw_w c @ code_bytes js"
    and "\<And>c. pcs (f c) = pcs c \<and> cw_branches (f c) = cw_branches c \<and> cw_switches (f c) = cw_switches c"
    and "\<And>c. pb_grows (cw_p c) (cw_p (f c)) \<and> (pb_inv (cw_p c) \<longrightarrow> pb_inv (cw_p (f c)))"
    and "\<And>c. cw_widen (f c) = cw_widen c"
  shows "code_step f"
proof
  show "\<exists>js. code_inv (f c) (is @ js)"
    if "cw_err (f c) = None" "length (cw_w (f c)) < 2 ^ 32" "code_inv c is" for c "is"
  proof -
    note t = that
    obtain js where "code_seq (length (cw_w c)) js" "cw_w (f c) = cw_w c @ code_bytes js"
      using assms(4) [OF t(1,2)] by blast
    then have "code_inv (f c) (is @ js)" using code_inv_append [OF t(3)] assms(5) by blast
    then show ?thesis ..
  qed
qed (use assms in blast)+

text \<open>One instruction of a given shape.\<close>

definition plain_instr :: "nat \<Rightarrow> opcode \<Rightarrow> bytes \<Rightarrow> instr" where
  "plain_instr pc o' raw = \<lparr>inOp = o', inPC = word_of_nat pc, inWide = False, inRaw = o' # raw\<rparr>"

lemma plain_instr_simps [simp]:
  "inOp (plain_instr pc o' raw) = o'" "inPC (plain_instr pc o' raw) = word_of_nat pc" "\<not> inWide (plain_instr pc o' raw)"
  "inRaw (plain_instr pc o' raw) = o' # raw"
  by (simp_all add: plain_instr_def)

lemma plain_code:
  assumes "complete (plain_instr pc o' raw)" and "pc < 2 ^ 32"
  shows "code_seq pc [plain_instr pc o' raw]"
  using assms by (simp add: headed_def unsigned_of_nat take_bit_nat_eq_self)

lemma plain_complete:
  assumes "op_Kind o' = k" and "0 \<le> shape_len k" and "int (length raw) + 1 = shape_len k"
  shows "complete (plain_instr pc o' raw)"
proof -
  have v: "op_Valid o'" using assms(1,2) by (auto simp: op_Valid_def)
  then have "\<not> (o' = Tableswitch \<or> o' = Lookupswitch \<or> o' = Wide)" using shape_len_neg [OF v] assms(1,2) by (metis not_le)
  then show ?thesis using v assms(1,3) by (simp add: complete_def)
qed

lemma plain_seq:
  assumes "op_Kind o' = k" and "0 \<le> shape_len k" and "int (length raw) + 1 = shape_len k" and "pc < 2 ^ 32"
  shows "\<exists>js. code_seq pc js \<and> code_bytes js = o' # raw"
  using plain_code [OF plain_complete [OF assms(1-3)] assms(4)] by (intro exI [of _ "[plain_instr pc o' raw]"]) simp

lemma wide_seq:
  assumes "op_Kind o' \<in> {Local, IincK}" and "length raw = (if o' = Iinc then 4 else 2)" and "pc < 2 ^ 32"
  shows "\<exists>js. code_seq pc js \<and> code_bytes js = Wide # o' # raw"
proof -
  have "complete \<lparr>inOp = o', inPC = word_of_nat pc, inWide = True, inRaw = Wide # o' # raw\<rparr>"
    using assms(1,2) by (simp add: complete_def)
  then have "code_seq pc [\<lparr>inOp = o', inPC = word_of_nat pc, inWide = True, inRaw = Wide # o' # raw\<rparr>]"
    using assms(3) by (simp add: headed_def unsigned_of_nat take_bit_nat_eq_self)
  then show ?thesis by (intro exI [of _ "[\<lparr>inOp = o', inPC = word_of_nat pc, inWide = True, inRaw = Wide # o' # raw\<rparr>]"]) simp
qed

end
