(* ===== verification/CodeSteps.thy ===== *)
theory CodeSteps
  imports CodeInv
begin

unbundle bit_operations_syntax

text \<open>
  Every call on a \<open>CodeWriter\<close> meets the contract \<open>code_step\<close>. The calls are built from a few
  primitives; the contract is closed under sequencing and under branching on the state, so most calls
  follow from their parts.
\<close>

section \<open>Closure of the contract\<close>

lemma code_step_pointwise:
  assumes "\<And>c. \<exists>g. code_step g \<and> f c = g c"
  shows "code_step f"
proof
  fix c "is"
  obtain g where g: "code_step g" "f c = g c" using assms by blast
  show "cw_err c \<noteq> None \<Longrightarrow> cw_err (f c) = cw_err c" using code_step.sticky [OF g(1)] g(2) by simp
  show "length (cw_w c) \<le> length (cw_w (f c))" using code_step.extends [OF g(1)] g(2) by simp
  show "cw_err (f c) = None \<Longrightarrow> counters_ok c \<Longrightarrow> counters_ok (f c)" using code_step.counters [OF g(1)] g(2) by simp
  show "cw_err (f c) = None \<Longrightarrow> length (cw_w (f c)) < 2 ^ 32 \<Longrightarrow> code_inv c is \<Longrightarrow> \<exists>js. code_inv (f c) (is @ js)"
    using code_step.layout [OF g(1)] g(2) by simp
  show "pb_grows (cw_p c) (cw_p (f c)) \<and> (pb_inv (cw_p c) \<longrightarrow> pb_inv (cw_p (f c)))" using code_step.pool [OF g(1)] g(2) by simp
  show "cw_widen (f c) = cw_widen c" using code_step.keeps_widen [OF g(1)] g(2) by simp
qed

lemma code_step_if: "code_step f \<Longrightarrow> code_step g \<Longrightarrow> code_step (\<lambda>c. if P c then f c else g c)"
  by (rule code_step_pointwise) auto

lemma code_step_const_if:
  "(P \<Longrightarrow> code_step f) \<Longrightarrow> (\<not> P \<Longrightarrow> code_step g) \<Longrightarrow> code_step (\<lambda>c. if P then f c else g c)"
  by (cases P) simp_all

text \<open>Calls that touch neither the code nor the records.\<close>

lemma code_step_quiet:
  assumes "\<And>c. cw_err c \<noteq> None \<Longrightarrow> cw_err (f c) = cw_err c"
    and "\<And>c. cw_w (f c) = cw_w c" and "\<And>c. cw_err (f c) = None \<Longrightarrow> counters_ok c \<Longrightarrow> counters_ok (f c)"
    and "\<And>c. pcs (f c) = pcs c \<and> cw_branches (f c) = cw_branches c \<and> cw_switches (f c) = cw_switches c"
    and "\<And>c. pb_grows (cw_p c) (cw_p (f c)) \<and> (pb_inv (cw_p c) \<longrightarrow> pb_inv (cw_p (f c)))"
    and "\<And>c. cw_widen (f c) = cw_widen c"
  shows "code_step f"
proof (rule code_step_emits)
  show "\<exists>js. code_seq (length (cw_w c)) js \<and> cw_w (f c) = cw_w c @ code_bytes js" for c
    using assms(2) by (intro exI [of _ "[]"]) simp
qed (use assms in auto)

lemma code_step_fail: "code_step (\<lambda>c. cw_fail (e c) c)"
  by (rule code_step_quiet) (simp_all add: cw_frame)

lemma code_step_push: "0 \<le> n \<Longrightarrow> code_step (cw_push n)"
  by (rule code_step_quiet) (simp_all add: cw_frame err_sticky counters_push)

lemma code_step_pop: "0 \<le> n \<Longrightarrow> code_step (cw_pop n)"
  by (rule code_step_quiet) (simp_all add: cw_frame err_sticky counters_pop)

lemma code_step_note: "code_step (noteDepth l)"
  by (rule code_step_quiet) (simp_all add: cw_frame err_sticky counters_note)

lemma code_step_local: "0 \<le> w \<Longrightarrow> code_step (useLocal s w)"
  by (rule code_step_quiet) (simp_all add: cw_frame err_sticky counters_local)

lemma code_step_terminate: "code_step cw_terminate"
  by (rule code_step_quiet) (simp_all add: cw_frame counters_writes)

lemma code_step_intern: "interning f \<Longrightarrow> code_step (\<lambda>c. snd (cw_intern f c))"
  by (rule code_step_quiet) (auto simp: cw_intern_def interning_def counters_ok_def pcs_def split: prod.splits)

section \<open>Operands\<close>

text \<open>A writer of \<open>n\<close> operand bytes.\<close>

definition writes :: "nat \<Rightarrow> (codewriter \<Rightarrow> codewriter) \<Rightarrow> bool" where
  "writes n g \<longleftrightarrow> (\<forall>c. (\<exists>raw. length raw = n \<and> cw_w (g c) = cw_w c @ raw) \<and> cw_err (g c) = cw_err c \<and>
     counters_ok (g c) = counters_ok c \<and> pcs (g c) = pcs c \<and> cw_branches (g c) = cw_branches c \<and>
     cw_switches (g c) = cw_switches c \<and> cw_widen (g c) = cw_widen c \<and>
     pb_grows (cw_p c) (cw_p (g c)) \<and> (pb_inv (cw_p c) \<longrightarrow> pb_inv (cw_p (g c))))"

lemma writes_raw: "writes n g \<Longrightarrow> \<exists>raw. length raw = n \<and> cw_w (g c) = cw_w c @ raw"
  by (simp add: writes_def)

lemma writes_pool: "writes n g \<Longrightarrow> pb_grows (cw_p c) (cw_p (g c)) \<and> (pb_inv (cw_p c) \<longrightarrow> pb_inv (cw_p (g c)))"
  by (simp add: writes_def)

lemma writes_frame: "writes n g \<Longrightarrow> cw_err (g c) = cw_err c \<and>
    counters_ok (g c) = counters_ok c \<and> pcs (g c) = pcs c \<and> cw_branches (g c) = cw_branches c \<and>
     cw_switches (g c) = cw_switches c \<and> cw_widen (g c) = cw_widen c"
  by (simp add: writes_def)

lemma writes_0: "writes 0 (\<lambda>c. c)"
  by (simp add: writes_def)

lemma writes_u1: "writes 1 (cw_u1 a)"
  by (simp add: writes_def cw_frame counters_writes)

lemma writes_u2: "writes 2 (cw_u2 a)"
  by (simp add: writes_def cw_frame counters_writes)

lemma writes_u4: "writes 4 (cw_u4 a)"
  by (simp add: writes_def cw_frame counters_writes)

lemma writes_ref:
  assumes "interning f"
  shows "writes 2 (cw_ref f)"
proof -
  have "\<exists>raw. length raw = 2 \<and> cw_w (cw_ref f c) = cw_w c @ raw" for c
    using ref_frame(1) [of f c] by (metis length_be(1))
  moreover have "pb_grows (cw_p c) (cw_p (cw_ref f c)) \<and> (pb_inv (cw_p c) \<longrightarrow> pb_inv (cw_p (cw_ref f c)))" for c
    using assms by (auto simp: interning_def cw_ref_def cw_intern_def cw_frame split: prod.splits)
  ultimately show ?thesis by (simp add: writes_def cw_frame counters_writes)
qed

lemma writes_comp:
  assumes g: "writes m g" and h: "writes n h"
  shows "writes (m + n) (\<lambda>c. h (g c))"
  unfolding writes_def
proof (intro allI conjI)
  fix c
  obtain a where a: "length a = m" "cw_w (g c) = cw_w c @ a" using writes_raw [OF g] by blast
  obtain b where "length b = n" "cw_w (h (g c)) = cw_w (g c) @ b" using writes_raw [OF h] by blast
  with a show "\<exists>raw. length raw = m + n \<and> cw_w (h (g c)) = cw_w c @ raw" by (intro exI [of _ "a @ b"]) simp
  show "pb_grows (cw_p c) (cw_p (h (g c)))"
    using writes_pool [OF g, of c] writes_pool [OF h, of "g c"] pb_grows_trans by blast
  show "pb_inv (cw_p c) \<longrightarrow> pb_inv (cw_p (h (g c)))"
    using writes_pool [OF g, of c] writes_pool [OF h, of "g c"] by blast
qed (simp_all add: writes_frame [OF g] writes_frame [OF h])

text \<open>An opcode and its operands.\<close>

lemma code_step_plain:
  assumes "writes n g" and "op_Kind o' = k" and "int n + 1 = shape_len k"
  shows "code_step (\<lambda>c. g (emitOp o' c))"
proof (rule code_step_emits)
  fix c
  show "\<exists>js. code_seq (length (cw_w c)) js \<and> cw_w (g (emitOp o' c)) = cw_w c @ code_bytes js"
    if "cw_err (g (emitOp o' c)) = None" "length (cw_w (g (emitOp o' c))) < 2 ^ 32"
  proof -
    note t = that
    have "cw_reachable c" using t(1) by (simp add: writes_frame [OF assms(1)] cw_frame)
    moreover obtain raw where r: "length raw = n" "cw_w (g (emitOp o' c)) = cw_w (emitOp o' c) @ raw"
      using writes_raw [OF assms(1)] by blast
    ultimately have w: "cw_w (g (emitOp o' c)) = cw_w c @ o' # raw" by (simp add: cw_frame)
    have "0 \<le> shape_len k" "int (length raw) + 1 = shape_len k" using assms(3) r(1) by simp_all
    then obtain js where "code_seq (length (cw_w c)) js" "code_bytes js = o' # raw"
      using plain_seq [OF assms(2), of raw "length (cw_w c)"] t(2) w by auto
    then show ?thesis using w by auto
  qed
  obtain raw where "cw_w (g (emitOp o' c)) = cw_w (emitOp o' c) @ raw"
    using writes_raw [OF assms(1)] by blast
  then show "length (cw_w c) \<le> length (cw_w (g (emitOp o' c)))" by (simp add: cw_frame)
  show "pb_grows (cw_p c) (cw_p (g (emitOp o' c))) \<and> (pb_inv (cw_p c) \<longrightarrow> pb_inv (cw_p (g (emitOp o' c))))"
    using writes_pool [OF assms(1), of "emitOp o' c"] by (simp add: cw_frame)
qed (simp_all add: writes_frame [OF assms(1)] cw_frame counters_writes err_sticky)

lemma code_step_wide:
  assumes "writes n g" and "op_Kind o' \<in> {Local, IincK}" and "n = (if o' = Iinc then 4 else 2)"
  shows "code_step (\<lambda>c. g (cw_u1 o' (emitOp Wide c)))"
proof (rule code_step_emits)
  fix c
  show "\<exists>js. code_seq (length (cw_w c)) js \<and> cw_w (g (cw_u1 o' (emitOp Wide c))) = cw_w c @ code_bytes js"
    if "cw_err (g (cw_u1 o' (emitOp Wide c))) = None" "length (cw_w (g (cw_u1 o' (emitOp Wide c)))) < 2 ^ 32"
  proof -
    note t = that
    have "cw_reachable c" using t(1) by (simp add: writes_frame [OF assms(1)] cw_frame)
    moreover obtain raw where r: "length raw = n" "cw_w (g (cw_u1 o' (emitOp Wide c))) = cw_w (cw_u1 o' (emitOp Wide c)) @ raw"
      using writes_raw [OF assms(1)] by blast
    ultimately have w: "cw_w (g (cw_u1 o' (emitOp Wide c))) = cw_w c @ Wide # o' # raw" by (simp add: cw_frame)
    then obtain js where "code_seq (length (cw_w c)) js" "code_bytes js = Wide # o' # raw"
      using wide_seq [OF assms(2), of raw "length (cw_w c)"] t(2) r(1) assms(3) by auto
    then show ?thesis using w by auto
  qed
  obtain raw where "cw_w (g (cw_u1 o' (emitOp Wide c))) = cw_w (cw_u1 o' (emitOp Wide c)) @ raw"
    using writes_raw [OF assms(1)] by blast
  then show "length (cw_w c) \<le> length (cw_w (g (cw_u1 o' (emitOp Wide c))))" by (simp add: cw_frame)
  show "pb_grows (cw_p c) (cw_p (g (cw_u1 o' (emitOp Wide c)))) \<and>
      (pb_inv (cw_p c) \<longrightarrow> pb_inv (cw_p (g (cw_u1 o' (emitOp Wide c)))))"
    using writes_pool [OF assms(1), of "cw_u1 o' (emitOp Wide c)"] by (simp add: cw_frame)
qed (simp_all add: writes_frame [OF assms(1)] cw_frame counters_writes err_sticky)

lemmas code_step_bare = code_step_plain [OF writes_0]
lemmas code_step_u1 = code_step_plain [OF writes_u1]
lemmas code_step_u2 = code_step_plain [OF writes_u2]
lemmas code_step_ref = code_step_plain [OF writes_ref]

section \<open>Loads, stores and constants\<close>

text \<open>The kinds of the opcodes the calls name.\<close>

lemma emitted_kinds:
  "op_Kind Aload = Local" "op_Kind Iload = Local" "op_Kind Fload = Local" "op_Kind Lload = Local" "op_Kind Dload = Local"
  "op_Kind Astore = Local" "op_Kind Istore = Local" "op_Kind Fstore = Local" "op_Kind Lstore = Local" "op_Kind Dstore = Local"
  "op_Kind Bipush = Byte1" "op_Kind Sipush = Short2" "op_Kind Ldc = ConstU1" "op_Kind LdcW = ConstU2" "op_Kind Ldc2W = ConstU2"
  "op_Kind Fconst0 = NoOperand" "op_Kind Fconst1 = NoOperand" "op_Kind Fconst2 = NoOperand"
  "op_Kind Dconst0 = NoOperand" "op_Kind Dconst1 = NoOperand" "op_Kind AconstNull = NoOperand" "op_Kind Iinc = IincK"
  "op_Kind Getstatic = ConstU2" "op_Kind Putstatic = ConstU2" "op_Kind Getfield = ConstU2" "op_Kind Putfield = ConstU2"
  "op_Kind Invokevirtual = ConstU2" "op_Kind Invokespecial = ConstU2" "op_Kind Invokestatic = ConstU2"
  "op_Kind Invokeinterface = InterfaceK" "op_Kind New = ConstU2" "op_Kind Anewarray = ConstU2" "op_Kind Newarray = NewarrayK"
  "op_Kind Multianewarray = MultiK" "op_Kind Checkcast = ConstU2" "op_Kind Instanceof = ConstU2"
  "op_Kind Goto = Branch2" "op_Kind GotoW = Branch4"
  by (simp_all add: op_Kind_nth kind_list_def)

definition local_pair :: "opcode \<Rightarrow> opcode \<Rightarrow> bool" where
  "local_pair general compact \<longleftrightarrow> op_Kind general = Local \<and> (\<forall>k \<in> {0, 1, 2, 3}. op_Kind (compact + k) = NoOperand)"

lemma local_pairs:
  "local_pair Aload Aload0" "local_pair Iload Iload0" "local_pair Fload Fload0" "local_pair Lload Lload0" "local_pair Dload Dload0"
  "local_pair Astore Astore0" "local_pair Istore Istore0" "local_pair Fstore Fstore0" "local_pair Lstore Lstore0"
  "local_pair Dstore Dstore0"
  by (simp_all add: local_pair_def op_Kind_nth kind_list_def)

lemma small_slot: "0 \<le> (s :: int) \<Longrightarrow> s < 4 \<Longrightarrow> (word_of_int s :: u8) \<in> {0, 1, 2, 3}"
proof -
  assume "0 \<le> s" "s < 4"
  then have "s = 0 \<or> s = 1 \<or> s = 2 \<or> s = 3" by linarith
  then show ?thesis by auto
qed

lemma step_localOp:
  assumes "local_pair general compact" and "0 \<le> width"
  shows "code_step (localOp general compact slot width)"
proof -
  have g: "op_Kind general = Local" "general \<noteq> Iinc" using assms(1) op_kinds(4) [of general] by (auto simp: local_pair_def)
  have lift: "code_step (\<lambda>c. emit (useLocal slot width c))" if "code_step emit" for emit
    using code_step_comp [OF code_step_local [OF assms(2)] that] .
  show ?thesis
  proof (rule code_step_pointwise)
    fix c
    let ?c1 = "useLocal slot width c"
    consider "cw_err ?c1 \<noteq> None" | "cw_err ?c1 = None" "slot < 4" | "cw_err ?c1 = None" "4 \<le> slot" "slot < 256"
      | "cw_err ?c1 = None" "256 \<le> slot" by linarith
    then show "\<exists>g. code_step g \<and> localOp general compact slot width c = g c"
    proof cases
      case 1
      then show ?thesis using code_step_local [OF assms(2)] by (intro exI [of _ "useLocal slot width"]) (simp add: localOp_def)
    next
      case 2
      then have "0 \<le> slot" by (simp add: cw_frame)
      then have "op_Kind (compact + word_of_int slot) = NoOperand"
        using small_slot [of slot] 2 assms(1) by (auto simp: local_pair_def)
      then have "code_step (\<lambda>c. emitOp (compact + word_of_int slot) c)" by (rule code_step_bare) simp
      then show ?thesis using lift 2 by (intro exI [of _ "\<lambda>c. emitOp (compact + word_of_int slot) (useLocal slot width c)"])
          (simp add: localOp_def)
    next
      case 3
      have "code_step (\<lambda>c. cw_u1 (word_of_int slot) (emitOp general c))" by (rule code_step_u1 [OF g(1)]) simp
      then show ?thesis using lift 3
        by (intro exI [of _ "\<lambda>c. cw_u1 (word_of_int slot) (emitOp general (useLocal slot width c))"]) (simp add: localOp_def)
    next
      case 4
      have "code_step (\<lambda>c. cw_u2 (word_of_int slot) (cw_u1 general (emitOp Wide c)))"
        using g by (intro code_step_wide [OF writes_u2]) simp_all
      then show ?thesis using lift 4
        by (intro exI [of _ "\<lambda>c. cw_u2 (word_of_int slot) (cw_u1 general (emitOp Wide (useLocal slot width c)))"])
          (simp add: localOp_def)
    qed
  qed
qed

lemma step_load: "local_pair g k \<Longrightarrow> 0 \<le> w \<Longrightarrow> code_step (cw_load g k slot w)"
  unfolding cw_load_def [abs_def] by (rule code_step_comp [OF step_localOp code_step_push])

lemma step_store: "local_pair g k \<Longrightarrow> 0 \<le> w \<Longrightarrow> code_step (cw_store g k slot w)"
  unfolding cw_store_def [abs_def] by (rule code_step_comp [OF step_localOp code_step_pop])

lemma step_do_load: "code_step (do_load t slot)"
  by (cases t) (simp_all add: cw_Aload_def cw_Iload_def cw_Fload_def cw_Lload_def cw_Dload_def step_load local_pairs)

lemma step_do_store: "code_step (do_store t slot)"
  by (cases t) (simp_all add: cw_Astore_def cw_Istore_def cw_Fstore_def cw_Lstore_def cw_Dstore_def step_store local_pairs)

lemma step_Iinc: "code_step (cw_Iinc slot delta)"
proof -
  have n: "code_step (\<lambda>c. cw_u1 (word_of_int delta) (cw_u1 (word_of_int slot) (emitOp Iinc c)))"
    by (rule code_step_plain [OF writes_comp [OF writes_u1 writes_u1] emitted_kinds(22)]) simp
  have w: "code_step (\<lambda>c. cw_u2 (word_of_int delta) (cw_u2 (word_of_int slot) (cw_u1 Iinc (emitOp Wide c))))"
    by (rule code_step_wide [OF writes_comp [OF writes_u2 writes_u2]]) (simp_all add: emitted_kinds)
  have l: "code_step (useLocal slot 1)" by (simp add: code_step_local)
  show ?thesis unfolding cw_Iinc_def [abs_def] Let_def
    by (intro code_step_if code_step_comp [OF l, of "cw_fail (IincRange delta)"] code_step_comp [OF l n] code_step_comp [OF l w] l
        code_step_fail)
qed

lemma step_ldc: "code_step (cw_ldc i wide)"
proof -
  have 1: "code_step (\<lambda>c. cw_push 2 (cw_u2 i (emitOp Ldc2W c)))"
    by (rule code_step_comp [OF code_step_u2 [OF emitted_kinds(15)] code_step_push]) simp_all
  have 2: "code_step (\<lambda>c. cw_push 1 (cw_u1 (ucast i) (emitOp Ldc c)))"
    by (rule code_step_comp [OF code_step_u1 [OF emitted_kinds(13)] code_step_push]) simp_all
  have 3: "code_step (\<lambda>c. cw_push 1 (cw_u2 i (emitOp LdcW c)))"
    by (rule code_step_comp [OF code_step_u2 [OF emitted_kinds(14)] code_step_push]) simp_all
  show ?thesis unfolding cw_ldc_def [abs_def] by (intro code_step_if 1 2 3)
qed

lemma step_ldc_of: "interning f \<Longrightarrow> code_step (cw_ldc_of f wide)"
proof (rule code_step_pointwise)
  fix c
  assume f: "interning f"
  have "code_step (\<lambda>c'. cw_ldc (fst (cw_intern f c)) wide (snd (cw_intern f c')))"
    by (rule code_step_comp [OF code_step_intern [OF f] step_ldc])
  then show "\<exists>g. code_step g \<and> cw_ldc_of f wide c = g c"
    by (intro exI [of _ "\<lambda>c'. cw_ldc (fst (cw_intern f c)) wide (snd (cw_intern f c'))"])
      (simp add: cw_ldc_of_def split: prod.splits)
qed

lemma iconst_kind: "- 1 \<le> (v :: int) \<Longrightarrow> v \<le> 5 \<Longrightarrow> op_Kind (Iconst0 + word_of_int v) = NoOperand"
proof -
  assume "- 1 \<le> v" "v \<le> 5"
  then consider "v = - 1" | "v = 0" | "v = 1" | "v = 2" | "v = 3" | "v = 4" | "v = 5" by linarith
  then show ?thesis by cases (simp_all add: op_Kind_nth kind_list_def)
qed

lemma step_bare_push: "op_Kind o' = NoOperand \<Longrightarrow> 0 \<le> n \<Longrightarrow> code_step (\<lambda>c. cw_push n (emitOp o' c))"
  by (rule code_step_comp [OF code_step_bare [of _ NoOperand] code_step_push]) simp_all

lemma step_Iconst: "code_step (cw_Iconst v)"
proof -
  have 1: "code_step (\<lambda>c. cw_push 1 (emitOp (Iconst0 + word_of_int v) c))" if "- 1 \<le> v" "v \<le> 5"
    using step_bare_push iconst_kind [OF that] by simp
  have 2: "code_step (\<lambda>c. cw_push 1 (cw_u1 (word_of_int v) (emitOp Bipush c)))"
    by (rule code_step_comp [OF code_step_u1 [OF emitted_kinds(11)] code_step_push]) simp_all
  have 3: "code_step (\<lambda>c. cw_push 1 (cw_u2 (word_of_int v) (emitOp Sipush c)))"
    by (rule code_step_comp [OF code_step_u2 [OF emitted_kinds(12)] code_step_push]) simp_all
  show ?thesis unfolding cw_Iconst_def [abs_def]
    by (intro code_step_const_if 1 2 3 step_ldc_of interning_ops) simp_all
qed

lemma step_Lconst: "code_step (cw_Lconst v)"
proof -
  have "code_step (\<lambda>c. cw_push 2 (emitOp (Lconst0 + word_of_int v) c))" if "v = 0 \<or> v = 1"
    by (rule step_bare_push) (use that in \<open>auto simp: op_Kind_nth kind_list_def\<close>)
  then show ?thesis unfolding cw_Lconst_def [abs_def] using step_ldc_of [OF interning_ops(9)] by (cases "v = 0 \<or> v = 1") simp_all
qed

lemma step_Fconst: "code_step (cw_Fconst v)"
  unfolding cw_Fconst_def [abs_def]
  by (intro code_step_if step_bare_push step_ldc_of interning_ops) (simp_all add: emitted_kinds)

lemma step_Dconst: "code_step (cw_Dconst v)"
  unfolding cw_Dconst_def [abs_def]
  by (intro code_step_if step_bare_push step_ldc_of interning_ops) (simp_all add: emitted_kinds)

lemma step_Cconst: "code_step (cw_Cconst s)"
  unfolding cw_Cconst_def [abs_def] by (intro code_step_if code_step_fail step_ldc_of interning_ops)

lemma step_Sconst: "code_step (cw_Sconst s)"
  unfolding cw_Sconst_def by (intro step_ldc_of interning_ops)

lemma step_AconstNull: "code_step cw_AconstNull"
  unfolding cw_AconstNull_def [abs_def] by (intro step_bare_push) (simp_all add: emitted_kinds)

section \<open>Members, objects and simple operations\<close>

lemma step_field:
  assumes "o' \<in> {Getstatic, Putstatic, Getfield, Putfield}"
  shows "code_step (cw_field o' owner name d)"
proof (cases "ParseField d")
  case (Inl e)
  then show ?thesis unfolding cw_field_def [abs_def] by (simp add: code_step_fail)
next
  case (Inr t)
  have k: "op_Kind o' = ConstU2" using assms emitted_kinds by auto
  have e: "code_step (\<lambda>c. cw_ref (pb_FieldRef owner name d) (emitOp o' c))"
    by (rule code_step_ref [OF interning_ops(4) k]) simp
  let ?E = "\<lambda>c. cw_ref (pb_FieldRef owner name d) (emitOp o' c)" and ?w = "int (Slots t)"
  have 1: "code_step (\<lambda>c. cw_push ?w (?E c))" by (rule code_step_comp [OF e code_step_push]) simp
  have 2: "code_step (\<lambda>c. cw_pop ?w (?E c))" by (rule code_step_comp [OF e code_step_pop]) simp
  have p: "code_step (\<lambda>c. cw_pop 1 (?E c))" by (rule code_step_comp [OF e code_step_pop]) simp
  have 3: "code_step (\<lambda>c. cw_push ?w (cw_pop 1 (?E c)))" by (rule code_step_comp [OF p code_step_push]) simp
  have 4: "code_step (\<lambda>c. cw_pop (?w + 1) (?E c))" by (rule code_step_comp [OF e code_step_pop]) simp
  show ?thesis unfolding cw_field_def [abs_def] Inr Let_def sum.case by (intro code_step_const_if 1 2 3 4 e)
qed

lemma step_do_field: "code_step (do_field a owner name d)"
  by (cases a) (simp_all add: cw_GetStatic_def cw_PutStatic_def cw_GetField_def cw_PutField_def step_field)

lemma step_invoke:
  assumes "o' \<in> {Invokevirtual, Invokespecial, Invokestatic, Invokeinterface}"
  shows "code_step (cw_invoke o' owner name d)"
proof (cases "ParseMethod d")
  case (Inl e)
  then show ?thesis unfolding cw_invoke_def [abs_def] by (simp add: code_step_fail)
next
  case (Inr m)
  show ?thesis
  proof (cases "CheckArgSlots m (o' \<noteq> Invokestatic)")
    case (Some e)
    then show ?thesis unfolding cw_invoke_def [abs_def] Inr by (simp add: code_step_fail Let_def)
  next
    case None
    let ?args = "int (ArgSlots m (o' \<noteq> Invokestatic))"
    have i: "code_step (\<lambda>c. cw_u1 0 (cw_u1 (word_of_int ?args) (cw_ref (pb_InterfaceMethodRef owner name d) (emitOp o' c))))"
      if "o' = Invokeinterface"
      using that emitted_kinds(30)
      by (intro code_step_plain [OF writes_comp [OF writes_comp [OF writes_ref [OF interning_ops(6)] writes_u1] writes_u1], of _ InterfaceK])
        simp_all
    have v: "code_step (\<lambda>c. cw_ref (pb_MethodRef owner name d) (emitOp o' c))" if "o' \<noteq> Invokeinterface"
      using that assms emitted_kinds by (intro code_step_ref [OF interning_ops(5), of _ ConstU2]) auto
    let ?E = "\<lambda>c. if o' = Invokeinterface
          then cw_u1 0 (cw_u1 (word_of_int ?args) (cw_ref (pb_InterfaceMethodRef owner name d) (emitOp o' c)))
          else cw_ref (pb_MethodRef owner name d) (emitOp o' c)"
    have e: "code_step ?E" by (intro code_step_const_if i v)
    have p: "code_step (\<lambda>c. cw_pop ?args (?E c))" by (rule code_step_comp [OF e code_step_pop]) simp
    have "code_step (\<lambda>c. cw_push (int (Slots (mRet m))) (cw_pop ?args (?E c)))"
      by (rule code_step_comp [OF p code_step_push]) simp
    then show ?thesis unfolding cw_invoke_def [abs_def] Inr Let_def sum.case None option.case .
  qed
qed

lemma step_do_invoke: "code_step (do_invoke f owner name d)"
  by (cases f) (simp_all add: cw_InvokeVirtual_def cw_InvokeSpecial_def cw_InvokeStatic_def cw_InvokeInterface_def step_invoke)

lemma step_class_ref: "op_Kind o' = ConstU2 \<Longrightarrow> code_step (\<lambda>c. cw_ref (pb_Class s) (emitOp o' c))"
  by (rule code_step_ref [OF interning_ops(2), of _ ConstU2]) simp_all

lemma step_New: "code_step (cw_New s)"
  unfolding cw_New_def [abs_def]
  by (rule code_step_comp [OF step_class_ref code_step_push]) (simp_all add: emitted_kinds)

lemma step_ANewArray: "code_step (cw_ANewArray s)"
  unfolding cw_ANewArray_def [abs_def]
  by (rule code_step_comp [OF code_step_comp [OF step_class_ref code_step_pop] code_step_push]) (simp_all add: emitted_kinds)

lemma step_NewArray: "code_step (cw_NewArray t)"
  unfolding cw_NewArray_def [abs_def]
  by (intro code_step_const_if code_step_fail
      code_step_comp [OF code_step_comp [OF code_step_u1 [OF emitted_kinds(33)] code_step_pop] code_step_push]) simp_all

lemma step_MultiANewArray: "code_step (cw_MultiANewArray d n)"
proof -
  have "code_step (\<lambda>c. cw_u1 (word_of_int n) (cw_ref (pb_Class d) (emitOp Multianewarray c)))"
    by (rule code_step_plain [OF writes_comp [OF writes_ref [OF interning_ops(2)] writes_u1] emitted_kinds(34)]) simp
  note e = this
  have "code_step (\<lambda>c. cw_push 1 (cw_pop n (cw_u1 (word_of_int n) (cw_ref (pb_Class d) (emitOp Multianewarray c)))))" if "0 \<le> n"
    by (rule code_step_comp [OF code_step_comp [OF e code_step_pop [OF that]] code_step_push]) simp
  then show ?thesis unfolding cw_MultiANewArray_def [abs_def]
    by (cases "ParseField d") (auto intro!: code_step_const_if code_step_fail)
qed

lemma step_CheckCast: "code_step (cw_CheckCast s)"
  unfolding cw_CheckCast_def [abs_def] by (rule step_class_ref) (simp add: emitted_kinds)

lemma step_InstanceOf: "code_step (cw_InstanceOf s)"
  unfolding cw_InstanceOf_def [abs_def] by (rule step_class_ref) (simp add: emitted_kinds)

lemma fold_groups: "fold (\<lambda>(d, ops) t. if o' \<in> set ops then d else t) gs t0 \<in> insert t0 (fst ` set gs)"
  by (induction gs arbitrary: t0) (auto split: if_splits, (metis (no_types, lifting) insert_iff image_eqI)+)

lemma simpleDelta_nonneg: "0 \<le> fst (simpleDelta o') \<Longrightarrow> 0 \<le> snd (simpleDelta o')"
proof -
  have "list_all (\<lambda>g. 0 \<le> snd (fst g)) delta_groups" by (simp add: delta_groups_def)
  then show "0 \<le> fst (simpleDelta o') \<Longrightarrow> ?thesis"
    using fold_groups [of o' delta_groups "(- 1, 0)"] unfolding simpleDelta_def by (auto simp: list_all_iff)
qed

lemma step_Op: "code_step (cw_Op o')"
proof -
  have "code_step (\<lambda>c. cw_push (snd (simpleDelta o')) (cw_pop (fst (simpleDelta o')) (emitOp o' c)))"
    if "op_Kind o' = NoOperand" "0 \<le> fst (simpleDelta o')"
    using that simpleDelta_nonneg [of o']
    by (intro code_step_comp [OF code_step_comp [OF code_step_bare [of _ NoOperand] code_step_pop] code_step_push]) simp_all
  then show ?thesis unfolding cw_Op_def [abs_def] Let_def
    by (intro code_step_const_if code_step_fail code_step_comp [OF _ code_step_terminate]) simp_all
qed

lemma step_Return: "code_step cw_Return"
  by (rule code_step_pointwise) (auto simp: cw_Return_def intro: step_Op code_step_fail split: kind.splits)

end
