(* ===== verification/CodeBranches.thy ===== *)
theory CodeBranches
  imports CodeSteps
begin

unbundle bit_operations_syntax

text \<open>
  The calls that record something for later: labels, branches, switches, handlers, lines and local
  variable entries. With them every call of a method body meets the contract \<open>code_step\<close>, and
  so does the whole body.
\<close>

section \<open>Calls that only add a record\<close>

lemma step_Local: "code_step (cw_Local slot name d s e)"
proof (rule code_step_quiet)
  fix c
  show "cw_w (cw_Local slot name d s e c) = cw_w c" by (simp add: cw_Local_def cw_frame split: sum.splits)
  show "cw_err c \<noteq> None \<Longrightarrow> cw_err (cw_Local slot name d s e c) = cw_err c"
    by (auto simp: cw_Local_def cw_frame split: sum.splits)
  show "counters_ok c \<Longrightarrow> counters_ok (cw_Local slot name d s e c)"
    by (auto simp: cw_Local_def counters_ok_def cw_frame split: sum.splits)
  show "pcs (cw_Local slot name d s e c) = pcs c \<and> cw_branches (cw_Local slot name d s e c) = cw_branches c \<and>
    cw_switches (cw_Local slot name d s e c) = cw_switches c"
    by (auto simp: cw_Local_def cw_frame pcs_def split: sum.splits)
  show "pb_grows (cw_p c) (cw_p (cw_Local slot name d s e c)) \<and>
      (pb_inv (cw_p c) \<longrightarrow> pb_inv (cw_p (cw_Local slot name d s e c)))"
    by (simp add: cw_Local_def cw_frame split: sum.splits)
  show "cw_widen (cw_Local slot name d s e c) = cw_widen c" by (simp add: cw_Local_def cw_frame split: sum.splits)
qed

lemma step_Line: "code_step (cw_Line n)"
  by (rule code_step_quiet) (simp_all add: cw_Line_def pcs_def counters_ok_def)

lemma counters_try: "counters_ok c \<Longrightarrow> counters_ok (cw_TryCatch s e h t c)"
  by (auto simp: cw_TryCatch_def Let_def counters_ok_def cw_fail_def set_depth_def MaxStack_def
      dest!: set_update_subset_insert [THEN subsetD])

lemma step_TryCatch: "code_step (cw_TryCatch s e h t)"
proof (rule code_step_quiet)
  fix c
  have pcs_max: "pcs (x\<lparr>cw_maxStack := v\<rparr>) = pcs x" "pcs (x\<lparr>cw_handlers := hs\<rparr>) = pcs x" for x v hs by (simp_all add: pcs_def)
  show "pcs (cw_TryCatch s e h t c) = pcs c \<and> cw_branches (cw_TryCatch s e h t c) = cw_branches c \<and>
    cw_switches (cw_TryCatch s e h t c) = cw_switches c"
    by (simp add: cw_TryCatch_def Let_def cw_frame pcs_max)
  show "counters_ok c \<Longrightarrow> counters_ok (cw_TryCatch s e h t c)" by (rule counters_try)
qed (simp_all add: cw_TryCatch_def Let_def cw_frame)

section \<open>Labels\<close>

text \<open>A call that leaves the code alone and moves the labels.\<close>

lemma code_step_labels:
  assumes "\<And>c. cw_err c \<noteq> None \<Longrightarrow> cw_err (f c) = cw_err c"
    and "\<And>c. cw_w (f c) = cw_w c" and "\<And>c. cw_err (f c) = None \<Longrightarrow> counters_ok c \<Longrightarrow> counters_ok (f c)"
    and "\<And>c. cw_branches (f c) = cw_branches c \<and> cw_switches (f c) = cw_switches c \<and> cw_p (f c) = cw_p c \<and> cw_widen (f c) = cw_widen c"
    and "\<And>c p. p \<in> set (pcs (f c)) \<Longrightarrow> p \<in> set (pcs c) \<or> p = - 1 \<or> p = int (length (cw_w c))"
  shows "code_step f"
proof
  show "\<exists>js. code_inv (f c) (is @ js)" if "code_inv c is" for c "is"
  proof -
    have "placed_ok is (int (length (cw_w c)))" using that boundary_end [of "is"] by (simp add: placed_ok_def code_inv_def)
    moreover have "placed_ok is (- 1)" by (simp add: placed_ok_def)
    ultimately have "list_all (placed_ok is) (pcs (f c))"
      using that assms(5) unfolding code_inv_def list_all_iff by blast
    then have "code_inv (f c) is" using that assms(2,4) by (simp add: code_inv_def)
    then show ?thesis by (intro exI [of _ "[]"]) simp
  qed
qed (use assms in auto)

lemma step_NewLabel: "code_step (\<lambda>c. snd (NewLabel c))"
  by (rule code_step_labels) (auto simp: NewLabel_def pcs_def counters_ok_def)

lemma counters_Mark: "cw_err (Mark l c) = None \<Longrightarrow> counters_ok c \<Longrightarrow> counters_ok (Mark l c)"
proof -
  assume e: "cw_err (Mark l c) = None" and c: "counters_ok c"
  let ?c1 = "set_pc l (int (length (cw_w c))) c"
  have depths: "lb_depth ` set (cw_labels ?c1) \<subseteq> insert (- 1) (lb_depth ` set (cw_labels c))"
    by (auto simp: set_pc_def lbl_def list_update_beyond dest!: set_update_subset_insert [THEN subsetD] split: if_splits)
  have c1: "counters_ok ?c1"
    unfolding counters_ok_def
  proof (intro conjI ballI)
    fix x assume "x \<in> set (cw_labels ?c1)"
    then have "lb_depth x = - 1 \<or> (\<exists>y \<in> set (cw_labels c). lb_depth x = lb_depth y)" using depths by blast
    then show "- 1 \<le> lb_depth x" "lb_depth x \<le> cw_maxStack ?c1" using c by (auto simp: counters_ok_def set_pc_def)
  qed (use c in \<open>auto simp: counters_ok_def set_pc_def\<close>)
  have b: "lb_depth (lbl ?c1 l) \<le> cw_maxStack ?c1" using c1 unfolding lbl_def counters_ok_def by auto
  have r: "counters_ok (x\<lparr>cw_reachable := True\<rparr>) = counters_ok x" for x by (simp add: counters_ok_def)
  have d: "counters_ok (?c1\<lparr>cw_depth := lb_depth (lbl ?c1 l), cw_reachable := True\<rparr>)" if "0 \<le> lb_depth (lbl ?c1 l)"
    using c1 b that unfolding counters_ok_def by simp
  show ?thesis using e d counters_depth [OF c1] c1 c
    by (auto simp: Mark_def Let_def r counters_writes split: if_splits)
qed

lemma step_Mark: "code_step (Mark l)"
proof (rule code_step_labels)
  fix c p
  have pc: "set (pcs (set_pc l v c)) \<subseteq> insert v (set (pcs c))" for v c
    by (auto simp: set_pc_def pcs_def map_update dest!: set_update_subset_insert [THEN subsetD])
  have u: "pcs (x\<lparr>cw_depth := d, cw_reachable := r\<rparr>) = pcs x" "pcs (x\<lparr>cw_reachable := r\<rparr>) = pcs x" "pcs (x\<lparr>cw_depth := d\<rparr>) = pcs x" for x d r by (simp_all add: pcs_def)
  show "p \<in> set (pcs (Mark l c)) \<Longrightarrow> p \<in> set (pcs c) \<or> p = - 1 \<or> p = int (length (cw_w c))"
    using pc [of "int (length (cw_w c))" c] by (auto simp: Mark_def Let_def cw_frame u split: if_splits)
  have s: "cw_err (set_pc l v c) = cw_err c" "cw_w (set_pc l v c) = cw_w c" "cw_branches (set_pc l v c) = cw_branches c"
    "cw_switches (set_pc l v c) = cw_switches c" "cw_p (set_pc l v c) = cw_p c" "cw_widen (set_pc l v c) = cw_widen c" for v
    by (simp_all add: set_pc_def)
  show "cw_err c \<noteq> None \<Longrightarrow> cw_err (Mark l c) = cw_err c" by (simp add: Mark_def Let_def cw_frame s)
  show "cw_w (Mark l c) = cw_w c" by (simp add: Mark_def Let_def cw_frame s)
  show "cw_branches (Mark l c) = cw_branches c \<and> cw_switches (Mark l c) = cw_switches c \<and> cw_p (Mark l c) = cw_p c \<and>
    cw_widen (Mark l c) = cw_widen c" by (simp add: Mark_def Let_def cw_frame s)
qed (rule counters_Mark)

section \<open>Branches\<close>

lemma instr_off_lt: "code_seq pc is \<Longrightarrow> k < length is \<Longrightarrow> instr_off is k < length (code_bytes is)"
proof -
  assume s: "code_seq pc is" and k: "k < length is"
  have "is = take k is @ is ! k # drop (Suc k) is" using k by (simp add: id_take_nth_drop)
  then have "length (code_bytes is) = instr_off is k + length (inRaw (is ! k)) + length (code_bytes (drop (Suc k) is))"
    by (metis add.assoc code_bytes_simps(2,3) length_append)
  then show ?thesis using code_seq_at(4) [OF s k] by simp
qed

lemma instr_off_Suc: "k < length is \<Longrightarrow> instr_off is (Suc k) = instr_off is k + length (inRaw (is ! k))"
  by (simp add: take_Suc_conv_app_nth)

lemma instr_off_le: "instr_off is k \<le> length (code_bytes is)"
  by (metis append_take_drop_id code_bytes_simps(3) length_append le_add1)

lemma branch_extent:
  assumes "code_seq pc is" and "branch_ok is br"
  shows "br_end br \<le> length (code_bytes is)"
proof -
  obtain k where k: "k < length is" "instr_off is k = br_at br" "\<not> inWide (is ! k)" "op_Kind (br_op br) = Branch2"
    and s: "if \<not> br_wide br then inOp (is ! k) = br_op br
      else if br_op br = Goto then inOp (is ! k) = GotoW
      else invert (br_op br) = Some (inOp (is ! k)) \<and> inRaw (is ! k) = inOp (is ! k) # be_u2 8 \<and>
        Suc k < length is \<and> inOp (is ! Suc k) = GotoW \<and> \<not> inWide (is ! Suc k)"
    using assms(2) unfolding branch_ok_def by blast
  have len: "length (inRaw (is ! j)) = (if inOp (is ! j) = GotoW then 5 else 3)"
    if "j < length is" "\<not> inWide (is ! j)" "inOp (is ! j) = GotoW \<or> op_Kind (inOp (is ! j)) = Branch2" for j
  proof -
    have "int (length (inRaw (is ! j))) = shape_len (op_Kind (inOp (is ! j)))"
      using complete_narrow(3,4) [OF code_seq_at(2) [OF assms(1) that(1)] that(2)] that(3) emitted_kinds(38) op_kinds [of "inOp (is ! j)"]
        code_seq_at(2) [OF assms(1) that(1)] that(2) by (auto simp: complete_def)
    then show ?thesis using that(3) emitted_kinds(38) by (auto split: if_splits)
  qed
  show ?thesis
  proof (cases "br_wide br \<and> br_op br \<noteq> Goto")
    case True
    then have "Suc k < length is" "length (inRaw (is ! k)) = 3" "length (inRaw (is ! Suc k)) = 5"
      using s len [of "Suc k"] by auto
    then have "br_end br = instr_off is (Suc (Suc k))" using k True by (simp only: br_end_def instr_off_Suc) simp
    then show ?thesis using instr_off_le by metis
  next
    case False
    then have "br_end br = instr_off is (Suc k)"
      using k s len [of k] emitted_kinds(38) by (auto simp: br_end_def instr_off_Suc simp del: take_Suc split: if_splits)
    then show ?thesis using instr_off_le by metis
  qed
qed

lemma records_before:
  assumes "code_inv c is"
  shows "\<forall>b \<in> set (cw_branches c). br_end b \<le> length (cw_w c)" and "\<forall>s \<in> set (cw_switches c). sw_at s < length (cw_w c)"
proof -
  show "\<forall>b \<in> set (cw_branches c). br_end b \<le> length (cw_w c)"
    using assms branch_extent [of 0 "is"] unfolding code_inv_def list_all_iff by auto
  show "\<forall>s \<in> set (cw_switches c). sw_at s < length (cw_w c)"
    using assms instr_off_lt [of 0 "is"] unfolding code_inv_def list_all_iff switch_ok_def by metis
qed

lemma code_inv_branch:
  assumes "code_inv c is" and "code_seq (length (cw_w c)) js" and "cw_w c' = cw_w c @ code_bytes js"
    and "pcs c' = pcs c" and "cw_branches c' = cw_branches c @ [br]" and "cw_switches c' = cw_switches c"
    and "br_at br = length (cw_w c)" and "branch_ok (is @ js) br"
  shows "code_inv c' (is @ js)"
  using assms records_before(1) [OF assms(1)] unfolding code_inv_def placed_ok_def
  by (auto simp: list_all_iff sorted_wrt_append intro: boundary_append branch_ok_append switch_ok_append)

lemma code_inv_switch:
  assumes "code_inv c is" and "code_seq (length (cw_w c)) js" and "cw_w c' = cw_w c @ code_bytes js"
    and "pcs c' = pcs c" and "cw_branches c' = cw_branches c" and "cw_switches c' = cw_switches c @ [s]"
    and "sw_at s = length (cw_w c)" and "switch_ok (is @ js) s"
  shows "code_inv c' (is @ js)"
  using assms records_before(2) [OF assms(1)] unfolding code_inv_def placed_ok_def
  by (auto simp: list_all_iff sorted_wrt_append intro: boundary_append branch_ok_append switch_ok_append)

text \<open>What \<open>branch\<close> emits after the depth bookkeeping.\<close>

definition branch_code :: "opcode \<Rightarrow> codewriter \<Rightarrow> codewriter" where
  "branch_code o' c =
     (if length (cw_branches c) \<notin> cw_widen c then cw_u2 0 (emitOp o' c)
      else if o' = Goto then cw_u4 0 (emitOp GotoW c)
      else cw_u4 0 (cw_u1 GotoW (cw_u2 8 (emitOp (invert_op o') c))))"

definition emit_branch :: "opcode \<Rightarrow> label_id \<Rightarrow> codewriter \<Rightarrow> codewriter" where
  "emit_branch o' l c = (branch_code o' c)\<lparr>cw_branches := cw_branches c @
     [\<lparr>br_ord = length (cw_branches c), br_op = o', br_label = l, br_at = length (cw_w c),
       br_wide = (length (cw_branches c) \<in> cw_widen c)\<rparr>]\<rparr>"

lemma cw_branch_emits: "cw_branch o' l n c = emit_branch o' l (noteDepth l (cw_pop n c))"
  by (simp add: cw_branch_def emit_branch_def branch_code_def Let_def cw_frame)

definition conditional :: "opcode set" where
  "conditional = {Ifeq, Ifne, Iflt, Ifge, Ifgt, Ifle, IfIcmpeq, IfIcmpne, IfIcmplt, IfIcmpge, IfIcmpgt, IfIcmple,
     IfAcmpeq, IfAcmpne, Ifnull, Ifnonnull}"

lemma conditional_kinds: "o' \<in> conditional \<Longrightarrow> op_Kind o' = Branch2 \<and> o' \<noteq> Goto"
  unfolding conditional_def by (elim insertE emptyE) (simp_all add: op_Kind_nth kind_list_def)

lemma conditional_invert: "o' \<in> conditional \<Longrightarrow> invert o' = Some (invert_op o') \<and> invert_op o' \<in> conditional"
  unfolding conditional_def by (elim insertE emptyE) (simp_all add: invert_def invert_op_def)

text \<open>The instructions it emits.\<close>

definition branch_instrs :: "opcode \<Rightarrow> bool \<Rightarrow> nat \<Rightarrow> instr list" where
  "branch_instrs o' wide pc =
     (if \<not> wide then [plain_instr pc o' (be_u2 0)]
      else if o' = Goto then [plain_instr pc GotoW (be_u4 0)]
      else [plain_instr pc (invert_op o') (be_u2 8), plain_instr (pc + 3) GotoW (be_u4 0)])"

lemma branch_instrs_code:
  assumes "o' = Goto \<or> o' \<in> conditional" and "pc + 3 < 2 ^ 32"
  shows "code_seq pc (branch_instrs o' wide pc)"
proof -
  have o': "op_Kind o' = Branch2" using assms(1) emitted_kinds(37) conditional_kinds by blast
  have s: "complete (plain_instr pc q (be_u2 v))" if "op_Kind q = Branch2" for q v
    using plain_complete [OF that, of "be_u2 v"] by simp
  have w: "complete (plain_instr n GotoW (be_u4 0))" for n using plain_complete [OF emitted_kinds(38), of "be_u4 0"] by simp
  have two: "code_seq n [i, j]" if "code_seq n [i]" "code_seq (n + length (inRaw i)) [j]" for n i j
    using that by (cases i, cases j) simp
  have lt: "pc < 2 ^ 32" using assms(2) by simp
  have i: "op_Kind (invert_op o') = Branch2" if "o' \<noteq> Goto"
    using that assms(1) conditional_invert conditional_kinds by blast
  have "code_seq pc [plain_instr pc (invert_op o') (be_u2 8), plain_instr (pc + 3) GotoW (be_u4 0)]" if "o' \<noteq> Goto"
    by (rule two) (use plain_code [OF s [OF i [OF that]] lt] plain_code [OF w assms(2)] in \<open>simp_all only: plain_instr_simps length_Cons length_be, simp\<close>)
  then show ?thesis unfolding branch_instrs_def using plain_code [OF s [OF o'] lt] plain_code [OF w lt] by (simp only: if_split) blast
qed

lemma branch_instrs_bytes:
  "cw_reachable c \<Longrightarrow>
    cw_w (branch_code o' c) = cw_w c @ code_bytes (branch_instrs o' (length (cw_branches c) \<in> cw_widen c) (length (cw_w c)))"
  by (simp add: branch_code_def branch_instrs_def cw_frame)

lemma branch_instrs_ok:
  assumes "o' = Goto \<or> o' \<in> conditional"
    and "br = \<lparr>br_ord = n, br_op = o', br_label = l, br_at = length (code_bytes is), br_wide = wide\<rparr>"
  shows "branch_ok (is @ branch_instrs o' wide pc) br"
proof -
  have "op_Kind o' = Branch2" using assms(1) emitted_kinds(37) conditional_kinds by blast
  then show ?thesis using assms conditional_invert [of o']
    unfolding branch_ok_def by (intro exI [of _ "length is"]) (auto simp: branch_instrs_def nth_append)
qed

lemma branch_code_frame:
  "pcs (branch_code o' c) = pcs c" "cw_switches (branch_code o' c) = cw_switches c" "cw_p (branch_code o' c) = cw_p c"
  "cw_widen (branch_code o' c) = cw_widen c" "cw_err (branch_code o' c) = None \<longleftrightarrow> cw_err c = None \<and> cw_reachable c"
  "cw_err c \<noteq> None \<Longrightarrow> cw_err (branch_code o' c) = cw_err c" "counters_ok (branch_code o' c) = counters_ok c"
  "length (cw_w c) + 3 \<le> length (cw_w (branch_code o' c)) \<or> \<not> cw_reachable c"
  "length (cw_w c) \<le> length (cw_w (branch_code o' c))"
  by (simp_all add: branch_code_def cw_frame counters_writes err_sticky)

lemma step_emit_branch:
  assumes "o' = Goto \<or> o' \<in> conditional"
  shows "code_step (emit_branch o' l)"
proof
  fix c :: codewriter and "is"
  let ?js = "branch_instrs o' (length (cw_branches c) \<in> cw_widen c) (length (cw_w c))"
  show "\<exists>js. code_inv (emit_branch o' l c) (is @ js)"
    if "cw_err (emit_branch o' l c) = None" "length (cw_w (emit_branch o' l c)) < 2 ^ 32" "code_inv c is"
  proof -
    have r: "cw_reachable c" using that(1) by (simp add: emit_branch_def branch_code_frame)
    have lt: "length (cw_w c) + 3 < 2 ^ 32"
      using that(2) r branch_code_frame(8) [of c o'] by (simp add: emit_branch_def)
    have w: "cw_w c = code_bytes is" using that(3) by (simp add: code_inv_def)
    have "code_inv (emit_branch o' l c) (is @ ?js)"
    proof (rule code_inv_branch [OF that(3) branch_instrs_code [OF assms lt]])
      show "branch_ok (is @ ?js) \<lparr>br_ord = length (cw_branches c), br_op = o', br_label = l, br_at = length (cw_w c),
          br_wide = (length (cw_branches c) \<in> cw_widen c)\<rparr>"
        unfolding w by (rule branch_instrs_ok [OF assms refl])
      show "pcs (emit_branch o' l c) = pcs c" using branch_code_frame(1) [of o' c] by (simp add: emit_branch_def pcs_def)
    qed (simp_all add: emit_branch_def branch_instrs_bytes [OF r] branch_code_frame)
    then show ?thesis ..
  qed
qed (use branch_code_frame in \<open>simp_all add: emit_branch_def counters_ok_def\<close>)

lemma step_branch: "o' = Goto \<or> o' \<in> conditional \<Longrightarrow> 0 \<le> n \<Longrightarrow> code_step (cw_branch o' l n)"
  unfolding cw_branch_emits [abs_def]
  by (rule code_step_comp [OF code_step_comp [OF code_step_pop code_step_note] step_emit_branch])

lemma step_Goto: "code_step (cw_Goto l)"
  unfolding cw_Goto_def [abs_def] by (rule code_step_comp [OF step_branch code_step_terminate]) simp_all

lemmas if_defs = cw_IfEq_def cw_IfNe_def cw_IfLt_def cw_IfGe_def cw_IfGt_def cw_IfLe_def cw_IfICmpEq_def cw_IfICmpNe_def
  cw_IfICmpLt_def cw_IfICmpGe_def cw_IfICmpGt_def cw_IfICmpLe_def cw_IfACmpEq_def cw_IfACmpNe_def cw_IfNull_def cw_IfNonNull_def

lemma step_do_if: "code_step (do_if k l)"
  by (cases k) (simp_all add: if_defs step_branch conditional_def)

section \<open>Switches\<close>

lemma word32_be [simp]: "word32 (be_u4 v @ t) = v" "word16 (be_u2 x @ t) = x"
  using be_u4_join [of v] be_u2_join [of x] by (simp_all add: word32_def word16_def be_u4_def be_u2_def)

lemma code_pad_switch_pad:
  assumes "n + 1 < 2 ^ 32"
  shows "switch_pad (word_of_nat n) = code_pad n"
proof -
  have u: "unat (word_of_nat n + 1 :: u32) = n + 1"
    using assms by (simp add: unat_word_ariths unsigned_of_nat take_bit_nat_eq_self)
  have m: "unat ((word_of_nat n + 1 :: u32) mod 4) = (n + 1) mod 4" by (simp add: unat_mod u)
  have "(word_of_nat n + 1 :: u32) mod 4 \<le> 4" by (simp add: word_le_nat_alt m)
  then have "unat (4 - (word_of_nat n + 1 :: u32) mod 4) = 4 - (n + 1) mod 4" by (simp add: unat_sub m)
  then show ?thesis unfolding switch_pad_def code_pad_def by (simp add: unat_mod)
qed

lemma fold_notes_step: "code_step (fold noteDepth ls)"
proof (induction ls)
  case Nil
  have "fold noteDepth [] = (\<lambda>c. c)" by auto
  then show ?case using code_step_id by simp
next
  case (Cons l ls)
  have "fold noteDepth (l # ls) = (\<lambda>c. fold noteDepth ls (noteDepth l c))" by auto
  then show ?case using code_step_comp [OF code_step_note Cons] by simp
qed

lemma fold_notes_frame:
  "cw_w (fold noteDepth ls c) = cw_w c" "cw_switches (fold noteDepth ls c) = cw_switches c"
  by (induction ls arbitrary: c) (simp_all add: cw_frame)

lemma writes_pad: "writes n (emit_pad n)"
  by (simp add: writes_def emit_pad_def counters_ok_def pcs_def)

lemma writes_words: "writes (4 * length ts) (fold (\<lambda>_. cw_u4 0) ts)"
proof (induction ts)
  case Nil
  have "fold (\<lambda>_. cw_u4 0) [] = (\<lambda>c. c)" by auto
  then show ?case using writes_0 by simp
next
  case (Cons t ts)
  have "fold (\<lambda>_. cw_u4 0) (t # ts) = (\<lambda>c. fold (\<lambda>_. cw_u4 0) ts (cw_u4 0 c))" by auto
  then show ?case using writes_comp [OF writes_u4 Cons, of 0] by simp
qed

lemma writes_pairs: "writes (8 * length ms) (fold emit_pair ms)"
proof (induction ms)
  case Nil
  have "fold emit_pair [] = (\<lambda>c. c)" by auto
  then show ?case using writes_0 by simp
next
  case (Cons m ms)
  have "fold emit_pair (m # ms) = (\<lambda>c. fold emit_pair ms (cw_u4 0 (cw_u4 (word_of_int m) c)))" by (auto simp: emit_pair_def)
  then show ?case using writes_comp [OF writes_comp [OF writes_u4 writes_u4] Cons, of 0 "word_of_int m"] by simp
qed

lemma table_complete:
  assumes "sint low \<le> sint high" and "int (length t) = 4 * (sint high - sint low + 1)" and "pc + 1 < 2 ^ 32"
  shows "complete (plain_instr pc Tableswitch (replicate (code_pad pc) 0 @ be_u4 d @ be_u4 low @ be_u4 high @ t))"
proof -
  let ?i = "plain_instr pc Tableswitch (replicate (code_pad pc) 0 @ be_u4 d @ be_u4 low @ be_u4 high @ t)"
  have d: "drop (1 + switch_pad (inPC ?i)) (inRaw ?i) = be_u4 d @ be_u4 low @ be_u4 high @ t"
    using code_pad_switch_pad [OF assms(3)] by simp
  have "table_len ?i" using assms(1,2) code_pad_switch_pad [OF assms(3)] unfolding table_len_def d Let_def by simp
  moreover have "op_Valid Tableswitch" "Tableswitch \<noteq> Wide" by (simp_all add: op_Valid_def op_Kind_nth kind_list_def)
  ultimately show ?thesis by (simp add: complete_def)
qed

lemma lookup_complete:
  assumes "0 \<le> sint n" and "int (length t) = 8 * sint n" and "pc + 1 < 2 ^ 32"
  shows "complete (plain_instr pc Lookupswitch (replicate (code_pad pc) 0 @ be_u4 d @ be_u4 n @ t))"
proof -
  let ?i = "plain_instr pc Lookupswitch (replicate (code_pad pc) 0 @ be_u4 d @ be_u4 n @ t)"
  have d: "drop (1 + switch_pad (inPC ?i)) (inRaw ?i) = be_u4 d @ be_u4 n @ t"
    using code_pad_switch_pad [OF assms(3)] by simp
  have "lookup_len ?i" using assms(1,2) code_pad_switch_pad [OF assms(3)] unfolding lookup_len_def d Let_def by simp
  moreover have "op_Valid Lookupswitch" "Lookupswitch \<noteq> Wide" "Lookupswitch \<noteq> Tableswitch"
    by (simp_all add: op_Valid_def op_Kind_nth kind_list_def)
  ultimately show ?thesis by (simp add: complete_def)
qed

text \<open>A switch: the opcode, the padding, the words of the header and the table, then its record.\<close>

definition emit_switch :: "opcode \<Rightarrow> u32 list \<Rightarrow> (codewriter \<Rightarrow> codewriter) \<Rightarrow> label_id \<Rightarrow> label_id list \<Rightarrow> codewriter \<Rightarrow> codewriter" where
  "emit_switch o' hs g def ts c =
     (let c4 = g (fold cw_u4 hs (emit_pad (code_pad (length (cw_w c))) (emitOp o' c))) in
      c4\<lparr>cw_switches := cw_switches c4 @
        [\<lparr>sw_op = o', sw_at = length (cw_w c), sw_pad = code_pad (length (cw_w c)), sw_def = def, sw_targets = ts\<rparr>]\<rparr>)"

lemma TableSwitch_emits:
  "cw_TableSwitch low high def ts c =
     (if high < low then cw_fail (SwitchRange low high) c
      else if high - low + 1 \<noteq> int (length ts) then cw_fail (SwitchCount low high (high - low + 1) (length ts)) c
      else cw_terminate (emit_switch Tableswitch [0, word_of_int low, word_of_int high] (fold (\<lambda>_. cw_u4 0) ts) def ts
        (fold noteDepth ts (noteDepth def (cw_pop 1 c)))))"
  by (simp add: cw_TableSwitch_def emit_switch_def Let_def fold_notes_frame cw_frame)

lemma LookupSwitch_emits:
  "cw_LookupSwitch def ms ts c =
     (if length ms \<noteq> length ts then cw_fail (MatchCount (length ms) (length ts)) c
      else case adjacent_dup (map (\<lambda>j. ms ! j) (sort_ord ms)) of
          Some m \<Rightarrow> cw_fail (DuplicateMatch m) c
        | None \<Rightarrow> cw_terminate (emit_switch Lookupswitch [0, word_of_nat (length ms)]
            (fold emit_pair (map (\<lambda>j. ms ! j) (sort_ord ms))) def (map (\<lambda>j. ts ! j) (sort_ord ms))
            (fold noteDepth (map (\<lambda>j. ts ! j) (sort_ord ms)) (noteDepth def (cw_pop 1 c)))))"
  by (simp add: cw_LookupSwitch_def emit_switch_def Let_def fold_notes_frame cw_frame sort_ord_def split: option.splits)

lemma writes_header: "writes (4 * length hs) (fold cw_u4 hs)"
proof (induction hs)
  case Nil
  have "fold cw_u4 [] = (\<lambda>c. c)" by auto
  then show ?case using writes_0 by simp
next
  case (Cons h hs)
  have "fold cw_u4 (h # hs) = (\<lambda>c. fold cw_u4 hs (cw_u4 h c))" by auto
  then show ?case using writes_comp [OF writes_u4 Cons, of h] by simp
qed

lemma header_bytes: "cw_w (fold cw_u4 hs c) = cw_w c @ concat (map be_u4 hs)"
  by (induction hs arbitrary: c) (simp_all add: cw_frame)

lemma step_emit_switch:
  assumes g: "writes n g"
    and kind: "o' \<in> {Tableswitch, Lookupswitch}"
    and len: "4 * length hs + n = (if o' = Tableswitch then 12 + 4 * length ts else 8 + 8 * length ts)"
    and complete: "\<And>pc t. pc + 1 < 2 ^ 32 \<Longrightarrow> n < 2 ^ 32 \<Longrightarrow> length t = n \<Longrightarrow>
      complete (plain_instr pc o' (replicate (code_pad pc) 0 @ concat (map be_u4 hs) @ t))"
  shows "code_step (emit_switch o' hs g def ts)"
proof -
  let ?E = "\<lambda>c. g (fold cw_u4 hs (emit_pad (code_pad (length (cw_w c))) (emitOp o' c)))"
  have w: "writes (p + (4 * length hs + n)) (\<lambda>c. g (fold cw_u4 hs (emit_pad p c)))" for p
    using writes_comp [OF writes_comp [OF writes_pad writes_header] g] by (simp add: add.assoc)
  show ?thesis
  proof
    fix c :: codewriter and "is"
    note f = writes_frame [OF w [of "code_pad (length (cw_w c))"], of "emitOp o' c"]
    note pl = writes_pool [OF w [of "code_pad (length (cw_w c))"], of "emitOp o' c"]
    obtain t where t: "length t = n"
      "cw_w (?E c) = cw_w (fold cw_u4 hs (emit_pad (code_pad (length (cw_w c))) (emitOp o' c))) @ t"
      using writes_raw [OF g] by blast
    show "length (cw_w c) \<le> length (cw_w (emit_switch o' hs g def ts c))"
      using t(2) by (simp add: emit_switch_def Let_def header_bytes emit_pad_def cw_frame)
    show "cw_err c \<noteq> None \<Longrightarrow> cw_err (emit_switch o' hs g def ts c) = cw_err c"
      using f by (simp add: emit_switch_def Let_def err_sticky)
    show "counters_ok c \<Longrightarrow> counters_ok (emit_switch o' hs g def ts c)"
      using f by (simp add: emit_switch_def Let_def counters_writes) (simp add: counters_ok_def)
    show "cw_widen (emit_switch o' hs g def ts c) = cw_widen c" using f by (simp add: emit_switch_def Let_def cw_frame)
    show "pb_grows (cw_p c) (cw_p (emit_switch o' hs g def ts c)) \<and> (pb_inv (cw_p c) \<longrightarrow> pb_inv (cw_p (emit_switch o' hs g def ts c)))"
      using pl by (simp add: emit_switch_def Let_def cw_frame)
    let ?i = "plain_instr (length (cw_w c)) o' (replicate (code_pad (length (cw_w c))) 0 @ concat (map be_u4 hs) @ t)"
    show "\<exists>js. code_inv (emit_switch o' hs g def ts c) (is @ js)"
      if "cw_err (emit_switch o' hs g def ts c) = None" "length (cw_w (emit_switch o' hs g def ts c)) < 2 ^ 32" "code_inv c is"
    proof -
      have r: "cw_reachable c" using that(1) f by (simp add: emit_switch_def Let_def cw_frame)
      then have b: "cw_w (?E c) = cw_w c @ code_bytes [?i]"
        using t(2) by (simp add: header_bytes emit_pad_def cw_frame)
      have hl: "length (concat (map be_u4 hs)) = 4 * length hs" by (induction hs) simp_all
      have tot: "length (cw_w c) + (1 + code_pad (length (cw_w c)) + (4 * length hs + n)) < 2 ^ 32"
        using that(2) b t(1) hl by (simp add: emit_switch_def Let_def)
      have pos: "0 < 4 * length hs + n" using len by (simp split: if_splits)
      have lt: "length (cw_w c) + 1 < 2 ^ 32" "n < 2 ^ 32" using tot pos by linarith+
      have cs: "code_seq (length (cw_w c)) [?i]" using complete [OF lt t(1)] lt(1) by (intro plain_code) simp_all
      have wc: "cw_w c = code_bytes is" using that(3) by (simp add: code_inv_def)
      have "code_inv (emit_switch o' hs g def ts c) (is @ [?i])"
      proof (rule code_inv_switch [OF that(3) cs])
        show "switch_ok (is @ [?i]) \<lparr>sw_op = o', sw_at = length (cw_w c), sw_pad = code_pad (length (cw_w c)),
            sw_def = def, sw_targets = ts\<rparr>"
          unfolding switch_ok_def using kind len t(1) hl code_pad_switch_pad [OF lt(1)] wc
          by (intro exI [of _ "length is"]) (simp add: nth_append)
        show "pcs (emit_switch o' hs g def ts c) = pcs c" using f by (simp add: emit_switch_def Let_def cw_frame) (simp add: pcs_def)
        show "cw_w (emit_switch o' hs g def ts c) = cw_w c @ code_bytes [?i]" using b by (simp add: emit_switch_def Let_def)
        show "cw_branches (emit_switch o' hs g def ts c) = cw_branches c" using f by (simp add: emit_switch_def Let_def cw_frame)
      qed (use f in \<open>simp_all add: emit_switch_def Let_def cw_frame\<close>)
      then show ?thesis ..
    qed
  qed
qed

lemma step_switch:
  assumes "code_step (emit_switch o' hs g def ts)"
  shows "code_step (\<lambda>c. cw_terminate (emit_switch o' hs g def ts (fold noteDepth ts (noteDepth def (cw_pop 1 c)))))"
proof -
  have "code_step (\<lambda>c. noteDepth def (cw_pop 1 c))" by (rule code_step_comp [OF code_step_pop code_step_note]) simp
  from code_step_comp [OF this fold_notes_step] have "code_step (\<lambda>c. fold noteDepth ts (noteDepth def (cw_pop 1 c)))" .
  from code_step_comp [OF code_step_comp [OF this assms] code_step_terminate] show ?thesis .
qed

lemma step_TableSwitch: "code_step (cw_TableSwitch (sint (low :: u32)) (sint (high :: u32)) def ts)"
proof -
  have "code_step (\<lambda>c. cw_terminate (emit_switch Tableswitch [0, low, high] (fold (\<lambda>_. cw_u4 0) ts) def ts
        (fold noteDepth ts (noteDepth def (cw_pop 1 c)))))"
    if "\<not> sint high < sint low" "sint high - sint low + 1 = int (length ts)"
  proof (rule step_switch, rule step_emit_switch [OF writes_words])
    show "complete (plain_instr pc Tableswitch (replicate (code_pad pc) 0 @ concat (map be_u4 [0, low, high]) @ t))"
      if "pc + 1 < 2 ^ 32" "length t = 4 * length ts" for pc t
      using table_complete [of low high t pc 0] that \<open>\<not> sint high < sint low\<close> \<open>sint high - sint low + 1 = int (length ts)\<close> by simp
  qed simp_all
  then show ?thesis unfolding TableSwitch_emits [abs_def] by (intro code_step_const_if code_step_fail) simp_all
qed

lemma length_sort_ord [simp]: "length (sort_ord ms) = length ms"
  by (simp add: sort_ord_def)

lemma step_LookupSwitch: "code_step (cw_LookupSwitch def ms ts)"
proof -
  let ?ms = "map (\<lambda>j. ms ! j) (sort_ord ms)" and ?ts = "map (\<lambda>j. ts ! j) (sort_ord ms)"
  have "code_step (\<lambda>c. cw_terminate (emit_switch Lookupswitch [0, word_of_nat (length ms)] (fold emit_pair ?ms) def ?ts
        (fold noteDepth ?ts (noteDepth def (cw_pop 1 c)))))"
    if "length ms = length ts"
  proof (rule step_switch, rule step_emit_switch [OF writes_pairs])
    show "complete (plain_instr pc Lookupswitch (replicate (code_pad pc) 0 @ concat (map be_u4 [0, word_of_nat (length ms)]) @ t))"
      if "pc + 1 < 2 ^ 32" "8 * length ?ms < 2 ^ 32" "length t = 8 * length ?ms" for pc t
    proof -
      have "sint (word_of_nat (length ms) :: u32) = int (length ms)"
        using that(2) by (subst signed_of_nat) (simp add: signed_take_bit_int_eq_self)
      then show ?thesis using lookup_complete [of "word_of_nat (length ms)" t pc 0] that by simp
    qed
  qed simp_all
  then show ?thesis unfolding LookupSwitch_emits [abs_def]
    by (cases "adjacent_dup ?ms") (auto intro!: code_step_const_if code_step_fail)
qed

section \<open>Every call, and every body\<close>

lemma step_Throw: "code_step cw_Throw"
  unfolding cw_Throw_def by (rule step_Op)

lemmas code_steps = step_NewLabel step_Mark step_do_load step_do_store step_Iinc step_Local step_Iconst step_Lconst
  step_Fconst step_Dconst step_Sconst step_Cconst step_AconstNull step_do_field step_do_invoke step_New step_ANewArray
  step_NewArray step_MultiANewArray step_CheckCast step_InstanceOf step_Throw step_Op step_Return step_Goto step_do_if
  step_TableSwitch step_LookupSwitch step_TryCatch step_Line

interpretation call: code_step "run_op k" for k
proof -
  have "\<exists>g. run_op k = g \<and> code_step g"
    by (cases k) (auto simp: fun_eq_iff intro!: exI [where P = "\<lambda>g. (\<forall>c. _ c = g c) \<and> code_step g"] code_steps)
  then show "code_step (run_op k)" by auto
qed

lemma body_step: "code_step (run_body ops)"
proof (induction ops)
  case Nil
  have "run_body [] = (\<lambda>c. c)" by (auto simp: run_body_def)
  then show ?case using code_step_id by simp
next
  case (Cons k ops)
  have "run_body (k # ops) = (\<lambda>c. run_body ops (run_op k c))" by (auto simp: run_body_def)
  then show ?case using code_step_comp [OF call.code_step_axioms Cons] by simp
qed

interpretation body: code_step "run_body ops" for ops
  by (rule body_step)

end
