(* ===== verification/Resolve.thy ===== *)
theory Resolve
  imports CodeBranches
begin

unbundle bit_operations_syntax

text \<open>
  What \<open>resolve\<close> does to a finished body. Every patch changes the operand bytes of one instruction, so
  the code array stays a sequence of complete instructions of the same shapes; afterwards every branch
  and every switch case jumps to the offset of its label.
\<close>

section \<open>Patching one instruction\<close>

definition like :: "instr \<Rightarrow> instr \<Rightarrow> bool" where
  "like i j \<longleftrightarrow> inOp j = inOp i \<and> inPC j = inPC i \<and> inWide j = inWide i \<and> length (inRaw j) = length (inRaw i)"

abbreviation same_shape :: "instr list \<Rightarrow> instr list \<Rightarrow> bool" where
  "same_shape \<equiv> list_all2 like"

lemma same_shape_refl [simp]: "same_shape is is"
  by (simp add: list_all2_refl like_def)

lemma same_shape_trans: "same_shape is js \<Longrightarrow> same_shape js ks \<Longrightarrow> same_shape is ks"
  by (rule list_all2_trans [of like like]) (auto simp: like_def)

lemma same_shape_nth:
  assumes "same_shape is js" and "k < length is"
  shows "inOp (js ! k) = inOp (is ! k)" and "inPC (js ! k) = inPC (is ! k)" and "inWide (js ! k) = inWide (is ! k)"
    and "length (inRaw (js ! k)) = length (inRaw (is ! k))"
  using list_all2_nthD [OF assms] by (simp_all add: like_def)

lemma same_shape_off: "same_shape is js \<Longrightarrow> instr_off js k = instr_off is k"
  by (induction arbitrary: k rule: list_all2_induct) (auto simp: take_Cons' like_def)

lemma code_bytes_update:
  "k < length is \<Longrightarrow> code_bytes (is[k := i]) = code_bytes (take k is) @ inRaw i @ code_bytes (drop (Suc k) is)"
  by (simp add: upd_conv_take_nth_drop)

lemma code_bytes_split:
  "k < length is \<Longrightarrow> code_bytes is = code_bytes (take k is) @ inRaw (is ! k) @ code_bytes (drop (Suc k) is)"
  using code_bytes_update [of k "is" "is ! k"] by simp

lemma code_seq_update:
  assumes "code_seq pc is" and "k < length is" and "inPC i = inPC (is ! k)" and "complete i" and "headed i"
    and "length (inRaw i) = length (inRaw (is ! k))"
  shows "code_seq pc (is[k := i])"
proof -
  have s: "is = take k is @ is ! k # drop (Suc k) is" using assms(2) by (rule id_take_nth_drop)
  have "code_seq pc (take k is @ is ! k # drop (Suc k) is)" using assms(1) s by simp
  then show ?thesis using assms by (auto simp: upd_conv_take_nth_drop)
qed

text \<open>The instruction with other bytes.\<close>

lemma same_shape_update:
  "k < length is \<Longrightarrow> length raw = length (inRaw (is ! k)) \<Longrightarrow> same_shape is (is[k := (is ! k)\<lparr>inRaw := raw\<rparr>])"
  by (auto simp: list_all2_conv_all_nth nth_list_update like_def)

lemma narrow_rebuild:
  assumes "complete i" and "headed i" and "\<not> inWide i" and "inOp i \<noteq> Tableswitch" and "inOp i \<noteq> Lookupswitch"
    and "inRaw i = o' # x @ t" and "length y = length x"
  shows "complete (i\<lparr>inRaw := o' # y @ t\<rparr>) \<and> headed (i\<lparr>inRaw := o' # y @ t\<rparr>)"
  using assms by (simp add: complete_def headed_def)

text \<open>One patch of an operand that starts right after the opcode.\<close>

lemma patch_operand:
  assumes "code_seq 0 is" and "k < length is" and "\<not> inWide (is ! k)"
    and "inOp (is ! k) \<noteq> Tableswitch" and "inOp (is ! k) \<noteq> Lookupswitch" and "1 + n \<le> length (inRaw (is ! k))"
    and "length y = n"
  defines "is' \<equiv> is[k := (is ! k)\<lparr>inRaw := inOp (is ! k) # y @ drop (1 + n) (inRaw (is ! k))\<rparr>]"
  shows "code_seq 0 is'" and "same_shape is is'"
    and "code_bytes is' = take (instr_off is k + 1) (code_bytes is) @ y @ drop (instr_off is k + 1 + n) (code_bytes is)"
proof -
  let ?i = "is ! k" and ?raw = "inOp (is ! k) # y @ drop (1 + n) (inRaw (is ! k))"
  note i = code_seq_at [OF assms(1,2)]
  obtain h t where ht: "inRaw ?i = h # t" using i(4) by (cases "inRaw ?i") auto
  have h: "h = inOp ?i" using i(3) assms(3) ht by (simp add: headed_def)
  have len: "length ?raw = length (inRaw ?i)" using assms(6,7) by simp
  have raw: "inRaw ?i = inOp ?i # take n t @ drop (1 + n) (inRaw ?i)" using ht h by simp
  have "complete (?i\<lparr>inRaw := ?raw\<rparr>) \<and> headed (?i\<lparr>inRaw := ?raw\<rparr>)"
    using narrow_rebuild [OF i(2,3) assms(3-5) raw] assms(6,7) ht by simp
  then show "code_seq 0 is'" unfolding is'_def using code_seq_update [OF assms(1,2)] len by simp
  show "same_shape is is'" unfolding is'_def using same_shape_update [OF assms(2) len] .
  have b: "code_bytes is = code_bytes (take k is) @ inRaw ?i @ code_bytes (drop (Suc k) is)" by (rule code_bytes_split [OF assms(2)])
  show "code_bytes is' = take (instr_off is k + 1) (code_bytes is) @ y @ drop (instr_off is k + 1 + n) (code_bytes is)"
    unfolding is'_def code_bytes_update [OF assms(2)] using b ht h assms(6) by simp
qed

lemma patch_at:
  assumes "off + n \<le> length w"
  shows "n = 2 \<Longrightarrow> patchU2 off v w = take off w @ be_u2 v @ drop (off + n) w"
    and "n = 4 \<Longrightarrow> patchU4 off x w = take off w @ be_u4 x @ drop (off + n) w"
proof -
  have s: "w = take off w @ take n (drop off w) @ drop (off + n) w"
    by (metis append_take_drop_id add.commute drop_drop)
  show "n = 2 \<Longrightarrow> patchU2 off v w = take off w @ be_u2 v @ drop (off + n) w"
    using patchU2_mid [of "take off w" off "take n (drop off w)" v "drop (off + n) w"] s assms by simp
  show "n = 4 \<Longrightarrow> patchU4 off x w = take off w @ be_u4 x @ drop (off + n) w"
    using patchU4_mid [of "take off w" off "take n (drop off w)" x "drop (off + n) w"] s assms by simp
qed

section \<open>Branches\<close>

text \<open>The instruction that carries the offset: the branch itself, or the \<open>goto_w\<close> behind an inverted test.\<close>

definition br_pos :: "branch \<Rightarrow> nat" where
  "br_pos br = br_at br + (if br_wide br \<and> br_op br \<noteq> Goto then 3 else 0)"

definition jumps :: "instr list \<Rightarrow> nat \<Rightarrow> int \<Rightarrow> bool" where
  "jumps is p pc \<longleftrightarrow> (\<exists>k < length is. instr_off is k = p \<and> instr_Target (is ! k) = Some (word_of_int pc))"

lemma branch_carrier:
  assumes "code_seq 0 is" and "branch_ok is br"
  shows "\<exists>k < length is. instr_off is k = br_pos br \<and> \<not> inWide (is ! k) \<and>
    inOp (is ! k) = (if br_wide br then GotoW else br_op br) \<and> op_Kind (inOp (is ! k)) = (if br_wide br then Branch4 else Branch2) \<and>
    length (inRaw (is ! k)) = (if br_wide br then 5 else 3)"
proof -
  obtain k where k: "k < length is" "instr_off is k = br_at br" "\<not> inWide (is ! k)" "op_Kind (br_op br) = Branch2"
    and s: "if \<not> br_wide br then inOp (is ! k) = br_op br
      else if br_op br = Goto then inOp (is ! k) = GotoW
      else invert (br_op br) = Some (inOp (is ! k)) \<and> inRaw (is ! k) = inOp (is ! k) # be_u2 8 \<and>
        Suc k < length is \<and> inOp (is ! Suc k) = GotoW \<and> \<not> inWide (is ! Suc k)"
    using assms(2) unfolding branch_ok_def by blast
  obtain j where j: "j < length is" "instr_off is j = br_pos br" "\<not> inWide (is ! j)" "inOp (is ! j) = (if br_wide br then GotoW else br_op br)"
  proof (cases "br_wide br \<and> br_op br \<noteq> Goto")
    case True
    then have 1: "Suc k < length is" "length (inRaw (is ! k)) = 3" "inOp (is ! Suc k) = GotoW" "\<not> inWide (is ! Suc k)" using s by auto
    moreover have "instr_off is (Suc k) = br_pos br" using True k(1,2) 1(2) by (simp only: instr_off_Suc br_pos_def) simp
    ultimately show ?thesis using that [of "Suc k"] True by simp
  next
    case False
    then show ?thesis using that [of k] k s by (auto simp: br_pos_def split: if_splits)
  qed
  then have kind: "op_Kind (inOp (is ! j)) = (if br_wide br then Branch4 else Branch2)" using k(4) emitted_kinds(38) by simp
  have c: "complete (is ! j)" using code_seq_at(2) [OF assms(1) j(1)] .
  have "inOp (is ! j) \<noteq> Tableswitch" "inOp (is ! j) \<noteq> Lookupswitch"
    using kind op_kinds [of "inOp (is ! j)"] by (auto split: if_splits)
  then have "int (length (inRaw (is ! j))) = shape_len (op_Kind (inOp (is ! j)))" using complete_narrow(3) [OF c j(3)] by blast
  then show ?thesis using j kind by (intro exI [of _ j]) (auto split: if_splits)
qed

lemma Target_of:
  assumes "complete i" and "\<not> inWide i"
  shows "op_Kind (inOp i) = Branch2 \<Longrightarrow> inRaw i = inOp i # be_u2 v \<Longrightarrow> instr_Target i = Some (inPC i + scast v)"
    and "op_Kind (inOp i) = Branch4 \<Longrightarrow> inRaw i = inOp i # be_u4 x \<Longrightarrow> instr_Target i = Some (inPC i + x)"
  using complete_narrow(1) [OF assms] word32_be(1) [of x "[]"] word32_be(2) [of v "[]"] by (simp_all add: instr_Target_def)

lemma short_offset: "- 32768 \<le> d \<Longrightarrow> d \<le> 32767 \<Longrightarrow> (scast (word_of_int d :: u16) :: u32) = word_of_int d"
proof -
  assume "- 32768 \<le> d" "d \<le> 32767"
  then have "sint (word_of_int d :: u16) = d" by (simp add: signed_of_int signed_take_bit_int_eq_self)
  then show ?thesis by (simp add: scast_eq)
qed

text \<open>One branch: the carrier gets the offset of the label, nothing else changes.\<close>

lemma resolve_branch_patches:
  assumes "code_seq 0 is" and "cw_w c = code_bytes is" and "same_shape is0 is" and "code_seq 0 is0" and "branch_ok is0 br"
    and "resolve_branch br c = (False, c1)"
  shows "\<exists>is1 k. k < length is0 \<and> instr_off is0 k = br_pos br \<and> code_seq 0 is1 \<and> same_shape is0 is1 \<and>
    c1 = c\<lparr>cw_w := code_bytes is1\<rparr> \<and> instr_Target (is1 ! k) = Some (word_of_int (lb_pc (lbl c (br_label br)))) \<and>
    (\<forall>j. j \<noteq> k \<longrightarrow> is1 ! j = is ! j)"
proof -
  let ?pc = "lb_pc (lbl c (br_label br))"
  obtain k where k0: "k < length is0" "instr_off is0 k = br_pos br" "\<not> inWide (is0 ! k)"
    "inOp (is0 ! k) = (if br_wide br then GotoW else br_op br)" "op_Kind (inOp (is0 ! k)) = (if br_wide br then Branch4 else Branch2)"
    "length (inRaw (is0 ! k)) = (if br_wide br then 5 else 3)"
    using branch_carrier [OF assms(4,5)] by blast
  note sh = same_shape_nth [OF assms(3) k0(1)]
  have k: "k < length is" using k0(1) list_all2_lengthD [OF assms(3)] by simp
  have off: "instr_off is k = br_pos br" using same_shape_off [OF assms(3)] k0(2) by simp
  have i: "\<not> inWide (is ! k)" "op_Kind (inOp (is ! k)) = (if br_wide br then Branch4 else Branch2)"
    "length (inRaw (is ! k)) = (if br_wide br then 5 else 3)" using sh k0(3-6) by simp_all
  have nsw: "inOp (is ! k) \<noteq> Tableswitch" "inOp (is ! k) \<noteq> Lookupswitch" using i(2) op_kinds [of "inOp (is ! k)"] by (auto split: if_splits)
  have pc: "inPC (is ! k) = word_of_nat (br_pos br)"
  proof -
    have "word_of_nat (unat (inPC (is ! k))) = inPC (is ! k)" by simp
    then show ?thesis using code_seq_at(1) [OF assms(1) k] off by simp
  qed
  define n where "n = (if br_wide br then 4 else 2 :: nat)"
  define d where "d = ?pc - int (br_pos br)"
  define y where "y = (if br_wide br then be_u4 (word_of_int d) else be_u2 (word_of_int d))"
  define is1 where "is1 = is[k := (is ! k)\<lparr>inRaw := inOp (is ! k) # y @ drop (1 + n) (inRaw (is ! k))\<rparr>]"
  have yn: "length y = n" "1 + n = length (inRaw (is ! k))" using i(3) by (simp_all add: y_def n_def)
  have fits: "instr_off is k + 1 + n \<le> length (code_bytes is)" using code_bytes_split [OF k] yn(2) by simp
  note p = patch_operand [OF assms(1) k i(1) nsw eq_refl [OF yn(2)] yn(1), folded is1_def]
  have raw: "is1 ! k = (is ! k)\<lparr>inRaw := inOp (is ! k) # y\<rparr>" using k yn by (simp add: is1_def)
  have c1: "complete (is1 ! k)" using code_seq_at(2) [OF p(1), of k] k by (simp add: is1_def)
  have w: "cw_w c1 = code_bytes is1 \<and> c1 = c\<lparr>cw_w := cw_w c1\<rparr> \<and> (\<not> br_wide br \<longrightarrow> - 32768 \<le> d \<and> d \<le> 32767)"
  proof (cases "br_wide br")
    case True
    then have "c1 = cw_patchU4 (br_pos br + 1) (word_of_int d) c" using assms(6)
      by (auto simp: resolve_branch_def Let_def br_pos_def d_def algebra_simps split: if_splits)
    moreover have "patchU4 (br_pos br + 1) (word_of_int d) (cw_w c) = code_bytes is1"
      using patch_at(2) [of "br_pos br + 1" 4 "cw_w c" "word_of_int d"] fits p(3) assms(2) off True by (simp add: n_def y_def)
    ultimately show ?thesis using True by (simp add: cw_patchU4_def)
  next
    case False
    then have "c1 = cw_patchU2 (br_pos br + 1) (word_of_int d) c" "- 32768 \<le> d \<and> d \<le> 32767" using assms(6)
      by (auto simp: resolve_branch_def Let_def br_pos_def d_def split: if_splits)
    moreover have "patchU2 (br_pos br + 1) (word_of_int d) (cw_w c) = code_bytes is1"
      using patch_at(1) [of "br_pos br + 1" 2 "cw_w c" "word_of_int d"] fits p(3) assms(2) off False by (simp add: n_def y_def)
    ultimately show ?thesis by (simp add: cw_patchU2_def)
  qed
  have sum: "word_of_nat (br_pos br) + word_of_int d = (word_of_int ?pc :: u32)"
    by (simp add: d_def)
  have "instr_Target (is1 ! k) = Some (word_of_int ?pc)"
  proof (cases "br_wide br")
    case True
    then show ?thesis using Target_of(2) [OF c1, of "word_of_int d"] raw i pc sum by (simp add: y_def)
  next
    case False
    then show ?thesis using Target_of(1) [OF c1, of "word_of_int d"] raw i pc sum w short_offset by (simp add: y_def)
  qed
  then show ?thesis using k0(1,2) p(1) same_shape_trans [OF assms(3) p(2)] w
    by (intro exI [of _ is1] exI [of _ k]) (auto simp: is1_def)
qed

lemma resolve_branches_patches:
  assumes "code_seq 0 is" and "cw_w c = code_bytes is" and "same_shape is0 is" and "code_seq 0 is0"
    and "list_all (branch_ok is0) brs" and "distinct (map br_pos brs)" and "resolve_branches brs again c = (Some False, c')"
  shows "\<exists>is'. code_seq 0 is' \<and> same_shape is0 is' \<and> c' = c\<lparr>cw_w := code_bytes is'\<rparr> \<and>
    (\<forall>br \<in> set brs. 0 \<le> lb_pc (lbl c (br_label br)) \<and> jumps is' (br_pos br) (lb_pc (lbl c (br_label br)))) \<and>
    (\<forall>k < length is0. instr_off is0 k \<notin> br_pos ` set brs \<longrightarrow> is' ! k = is ! k)"
  using assms(1-3,5-7)
proof (induction brs arbitrary: "is" c again)
  case Nil
  then show ?case by (intro exI [of _ "is"]) simp
next
  case (Cons br brs)
  obtain b c1 where b: "resolve_branch br c = (b, c1)" by fastforce
  have placed: "0 \<le> lb_pc (lbl c (br_label br))" and rest: "resolve_branches brs (again \<or> b) c1 = (Some False, c')"
    using Cons.prems(6) b by (auto split: if_splits)
  have mono: "resolve_branches bs True x \<noteq> (Some False, y)" for bs x y
    by (induction bs arbitrary: x) (auto split: prod.splits)
  have "\<not> b" using rest mono by (cases b) auto
  then obtain is1 k where 1: "k < length is0" "instr_off is0 k = br_pos br" "code_seq 0 is1" "same_shape is0 is1"
    "c1 = c\<lparr>cw_w := code_bytes is1\<rparr>" "instr_Target (is1 ! k) = Some (word_of_int (lb_pc (lbl c (br_label br))))"
    "\<And>j. j \<noteq> k \<Longrightarrow> is1 ! j = is ! j"
    using resolve_branch_patches [OF Cons.prems(1-3) assms(4), of br c1] Cons.prems(4) b by auto
  have l: "lbl c1 = lbl c" using 1(5) by (auto simp: lbl_def)
  obtain is' where 2: "code_seq 0 is'" "same_shape is0 is'" "c' = c1\<lparr>cw_w := code_bytes is'\<rparr>"
    "\<forall>br \<in> set brs. 0 \<le> lb_pc (lbl c1 (br_label br)) \<and> jumps is' (br_pos br) (lb_pc (lbl c1 (br_label br)))"
    "\<forall>k < length is0. instr_off is0 k \<notin> br_pos ` set brs \<longrightarrow> is' ! k = is1 ! k"
    using Cons.IH [OF 1(3) _ 1(4) _ _ rest] Cons.prems(4,5) 1(5) by auto
  have "is' ! k = is1 ! k" using 2(5) 1(1,2) Cons.prems(5) by auto
  then have "jumps is' (br_pos br) (lb_pc (lbl c (br_label br)))"
    unfolding jumps_def using 1(1,2,6) same_shape_off [OF 2(2)] list_all2_lengthD [OF 2(2)] by (intro exI [of _ k]) simp
  moreover have "\<forall>j < length is0. instr_off is0 j \<notin> br_pos ` set (br # brs) \<longrightarrow> is' ! j = is ! j"
    using 2(5) 1(2,7) by (metis image_insert insertCI list.simps(15))
  ultimately show ?case using 2(1-4) 1(5) placed l by (intro exI [of _ is']) auto
qed

lemma branch_positions: "code_inv c is \<Longrightarrow> distinct (map br_pos (cw_branches c))"
proof -
  assume "code_inv c is"
  then have "sorted_wrt (\<lambda>a b. br_end a \<le> br_at b) (cw_branches c)" by (simp add: code_inv_def)
  then have "sorted_wrt (\<lambda>a b. br_pos a < br_pos b) (cw_branches c)"
    by (rule sorted_wrt_mono_rel [rotated]) (auto simp: br_end_def br_pos_def split: if_splits)
  then have "sorted_wrt (<) (map br_pos (cw_branches c))" by (simp add: sorted_wrt_map)
  then show ?thesis by (simp add: strict_sorted_iff)
qed

section \<open>Switches\<close>

lemma be_u4_word32:
  assumes "4 \<le> length b"
  shows "be_u4 (word32 b) = take 4 b"
proof -
  obtain a1 a2 a3 a4 t where b: "b = a1 # a2 # a3 # a4 # t"
    using assms by (auto simp: numeral_eq_Suc Suc_le_length_iff)
  have high: "\<not> bit (x :: u8) n" if "8 \<le> n" for x n using that bit_imp_le_length [of x n] by auto
  have "ucast (drop_bit 24 (word32 b)) = a1"
    by (intro bit_word_eqI) (simp add: b word32_def bit_simps high)
  moreover have "ucast (drop_bit 16 (word32 b)) = a2"
    by (intro bit_word_eqI) (simp add: b word32_def bit_simps high)
  moreover have "ucast (drop_bit 8 (word32 b)) = a3"
    by (intro bit_word_eqI) (simp add: b word32_def bit_simps high)
  moreover have "ucast (word32 b) = a4"
    by (intro bit_word_eqI) (simp add: b word32_def bit_simps high)
  ultimately show ?thesis by (simp add: be_u4_def b)
qed

lemma words_at: "j < length vs \<Longrightarrow> word32 (drop (4 * j) (concat (map be_u4 vs) @ t)) = vs ! j"
proof (induction vs arbitrary: j)
  case (Cons v vs)
  then show ?case using Cons.IH [of "j - 1"] by (cases j) simp_all
qed simp

text \<open>A table of pairs with its offsets replaced.\<close>

fun weave :: "bytes \<Rightarrow> u32 list \<Rightarrow> bytes" where
  "weave T [] = []"
| "weave T (v # vs) = take 4 T @ be_u4 v @ weave (drop 8 T) vs"

lemma weave_at:
  assumes "j < length vs" and "8 * length vs \<le> length T"
  shows "word32 (drop (4 + 8 * j) (weave T vs)) = vs ! j" and "word32 (drop (8 * j) (weave T vs)) = word32 (drop (8 * j) T)"
  using assms
proof (induction vs arbitrary: j T)
  case (Cons v vs)
  {
    case 1
    then show ?case using Cons.IH(1) [of "j - 1" "drop 8 T"] by (cases j) auto
  next
    case 2
    have "word32 (take 4 T @ x) = word32 T" for x using 2(2) by (simp add: word32_def nth_append)
    then show ?case using 2 Cons.IH(2) [of "j - 1" "drop 8 T"] by (cases j) (auto simp: add.commute)
  }
qed simp_all

lemma length_weave: "8 * length vs \<le> length T \<Longrightarrow> length (weave T vs) = 8 * length vs"
  by (induction vs arbitrary: T) auto

lemma length_words: "length (concat (map be_u4 vs)) = 4 * length vs"
  by (induction vs) simp_all

text \<open>A switch instruction taken apart.\<close>

lemma table_parts:
  assumes "inOp i = Tableswitch" and "\<not> inWide i" and "length z = switch_pad (inPC i)"
    and "inRaw i = Tableswitch # z @ be_u4 d @ be_u4 low @ be_u4 high @ T"
  shows "complete i \<longleftrightarrow> sint low \<le> sint high \<and> int (length T) = 4 * (sint high - sint low + 1)" and "headed i"
proof -
  have d: "drop (1 + switch_pad (inPC i)) (inRaw i) = be_u4 d @ be_u4 low @ be_u4 high @ T" using assms(3,4) by simp
  have "table_len i \<longleftrightarrow> sint low \<le> sint high \<and> int (length T) = 4 * (sint high - sint low + 1)"
    unfolding table_len_def d Let_def using assms(3,4) by auto
  moreover have "op_Valid Tableswitch" "Tableswitch \<noteq> Wide" by (simp_all add: op_Valid_def op_Kind_nth kind_list_def)
  ultimately show "complete i \<longleftrightarrow> sint low \<le> sint high \<and> int (length T) = 4 * (sint high - sint low + 1)"
    using assms(1,2) by (simp add: complete_def)
  show "headed i" using assms by (simp add: headed_def)
qed

lemma lookup_parts:
  assumes "inOp i = Lookupswitch" and "\<not> inWide i" and "length z = switch_pad (inPC i)"
    and "inRaw i = Lookupswitch # z @ be_u4 d @ be_u4 n @ T"
  shows "complete i \<longleftrightarrow> 0 \<le> sint n \<and> int (length T) = 8 * sint n" and "headed i"
proof -
  have d: "drop (1 + switch_pad (inPC i)) (inRaw i) = be_u4 d @ be_u4 n @ T" using assms(3,4) by simp
  have "lookup_len i \<longleftrightarrow> 0 \<le> sint n \<and> int (length T) = 8 * sint n"
    unfolding lookup_len_def d Let_def using assms(3,4) by simp
  moreover have "op_Valid Lookupswitch" "Lookupswitch \<noteq> Wide" "Lookupswitch \<noteq> Tableswitch"
    by (simp_all add: op_Valid_def op_Kind_nth kind_list_def)
  ultimately show "complete i \<longleftrightarrow> 0 \<le> sint n \<and> int (length T) = 8 * sint n" using assms(1,2) by (simp add: complete_def)
  show "headed i" using assms by (simp add: headed_def)
qed

lemma split_head:
  assumes "complete i" and "headed i" and "inOp i \<in> {Tableswitch, Lookupswitch}"
  shows "\<exists>z b. inRaw i = inOp i # z @ b \<and> length z = switch_pad (inPC i) \<and> b = drop (1 + switch_pad (inPC i)) (inRaw i)"
proof -
  have n: "\<not> inWide i" using complete_switch_narrow [OF assms(1)] assms(3) by auto
  have len: "1 + switch_pad (inPC i) \<le> length (inRaw i)"
    using assms(3) complete_table [OF assms(1)] complete_lookup [OF assms(1)] by (auto simp: table_len_def lookup_len_def Let_def)
  then obtain h t where ht: "inRaw i = h # t" by (cases "inRaw i") auto
  then have "h = inOp i" using assms(2) n by (simp add: headed_def)
  then show ?thesis using ht len
    by (intro exI [of _ "take (switch_pad (inPC i)) t"] exI [of _ "drop (switch_pad (inPC i)) t"]) simp
qed

lemma table_split:
  assumes "complete i" and "headed i" and "inOp i = Tableswitch"
  obtains z d low high T where "inRaw i = Tableswitch # z @ be_u4 d @ be_u4 low @ be_u4 high @ T" and "length z = switch_pad (inPC i)"
    and "sint low \<le> sint high" and "int (length T) = 4 * (sint high - sint low + 1)"
proof -
  obtain z b where r: "inRaw i = inOp i # z @ b" "length z = switch_pad (inPC i)" "b = drop (1 + switch_pad (inPC i)) (inRaw i)"
    using split_head [OF assms(1,2)] assms(3) by blast
  have "\<exists>l h. l \<le> h \<and> int (length b) = 12 + 4 * (h - l + 1)"
    using complete_table [OF assms(1,3)] unfolding table_len_def r(3) Let_def by blast
  then have "12 \<le> length b" by auto
  then have b: "b = be_u4 (word32 b) @ be_u4 (word32 (drop 4 b)) @ be_u4 (word32 (drop 8 b)) @ drop 12 b"
    by (simp add: be_u4_word32 flip: drop_drop) (metis (no_types) append_take_drop_id drop_drop numeral_plus_numeral semiring_norm(2,3,6))
  have n: "\<not> inWide i" using complete_switch_narrow [OF assms(1)] assms(3) by auto
  have raw: "inRaw i = Tableswitch # z @ be_u4 (word32 b) @ be_u4 (word32 (drop 4 b)) @ be_u4 (word32 (drop 8 b)) @ drop 12 b"
    using r(1) b assms(3) by metis
  show thesis using that [OF raw r(2)] table_parts(1) [OF assms(3) n r(2) raw] assms(1) by blast
qed

lemma lookup_split:
  assumes "complete i" and "headed i" and "inOp i = Lookupswitch"
  obtains z d n T where "inRaw i = Lookupswitch # z @ be_u4 d @ be_u4 n @ T" and "length z = switch_pad (inPC i)"
    and "0 \<le> sint n" and "int (length T) = 8 * sint n"
proof -
  obtain z b where r: "inRaw i = inOp i # z @ b" "length z = switch_pad (inPC i)" "b = drop (1 + switch_pad (inPC i)) (inRaw i)"
    using split_head [OF assms(1,2)] assms(3) by blast
  have "\<exists>n. 0 \<le> n \<and> int (length b) = 8 + 8 * n"
    using complete_lookup [OF assms(1,3)] unfolding lookup_len_def r(3) Let_def by blast
  then have "8 \<le> length b" by auto
  then have b: "b = be_u4 (word32 b) @ be_u4 (word32 (drop 4 b)) @ drop 8 b"
    by (simp add: be_u4_word32 flip: drop_drop) (metis (no_types) append_take_drop_id drop_drop numeral_plus_numeral semiring_norm(2,3,6))
  have n: "\<not> inWide i" using complete_switch_narrow [OF assms(1)] assms(3) by auto
  have raw: "inRaw i = Lookupswitch # z @ be_u4 (word32 b) @ be_u4 (word32 (drop 4 b)) @ drop 8 b"
    using r(1) b assms(3) by metis
  show thesis using that [OF raw r(2)] lookup_parts(1) [OF assms(3) n r(2) raw] assms(1) by blast
qed

text \<open>The offset of a label from a switch.\<close>

definition sw_off :: "codewriter \<Rightarrow> switch_rec \<Rightarrow> label_id \<Rightarrow> u32" where
  "sw_off c s t = word_of_int (lb_pc (lbl c t) - int (sw_at s))"

lemma sw_off_w [simp]: "sw_off (c\<lparr>cw_w := w\<rparr>) = sw_off c"
  by (auto simp: fun_eq_iff sw_off_def lbl_def)

lemma lbl_w [simp]: "lbl (c\<lparr>cw_w := w\<rparr>) = lbl c"
  by (auto simp: lbl_def)

lemma targets_table:
  assumes "sw_op s = Tableswitch" and "cw_w c = P @ T @ B" and "length P = sw_at s + 1 + sw_pad s + 12 + 4 * i"
    and "length T = 4 * length ts" and "resolve_targets s i ts c = (True, c')"
  shows "(\<forall>t \<in> set ts. 0 \<le> lb_pc (lbl c t)) \<and> c' = c\<lparr>cw_w := P @ concat (map be_u4 (map (sw_off c s) ts)) @ B\<rparr>"
  using assms
proof (induction ts arbitrary: c P T i)
  case (Cons t ts)
  let ?c = "cw_patchU4 (sw_at s + 1 + sw_pad s + 12 + 4 * i) (sw_off c s t) c"
  have p: "0 \<le> lb_pc (lbl c t)" and r: "resolve_targets s (i + 1) ts ?c = (True, c')"
    using Cons.prems(1,5) by (auto simp: Let_def sw_off_def split: if_splits)
  have "T = take 4 T @ drop 4 T" by simp
  then have "cw_w c = P @ take 4 T @ drop 4 T @ B" using Cons.prems(2) by (metis append_assoc)
  then have w: "?c = c\<lparr>cw_w := (P @ be_u4 (sw_off c s t)) @ drop 4 T @ B\<rparr>"
    using patchU4_mid [of P "sw_at s + 1 + sw_pad s + 12 + 4 * i" "take 4 T"] Cons.prems(3,4) by (simp add: cw_patchU4_def)
  show ?case
    using Cons.IH [OF Cons.prems(1) _ _ _ r, of "P @ be_u4 (sw_off c s t)" "drop 4 T"] w Cons.prems(3,4) p by simp
qed simp

lemma targets_lookup:
  assumes "sw_op s = Lookupswitch" and "cw_w c = P @ T @ B" and "length P = sw_at s + 1 + sw_pad s + 8 + 8 * i"
    and "length T = 8 * length ts" and "resolve_targets s i ts c = (True, c')"
  shows "(\<forall>t \<in> set ts. 0 \<le> lb_pc (lbl c t)) \<and> c' = c\<lparr>cw_w := P @ weave T (map (sw_off c s) ts) @ B\<rparr>"
  using assms
proof (induction ts arbitrary: c P T i)
  case (Cons t ts)
  let ?c = "cw_patchU4 (sw_at s + 1 + sw_pad s + 8 + 8 * i + 4) (sw_off c s t) c"
  have p: "0 \<le> lb_pc (lbl c t)" and r: "resolve_targets s (i + 1) ts ?c = (True, c')"
    using Cons.prems(1,5) by (auto simp: Let_def sw_off_def split: if_splits)
  have "T = take 4 T @ take 4 (drop 4 T) @ drop 8 T"
    by (metis (no_types) append_take_drop_id drop_drop numeral_plus_numeral semiring_norm(2,3,6))
  then have "cw_w c = (P @ take 4 T) @ take 4 (drop 4 T) @ drop 8 T @ B" using Cons.prems(2) by (metis append_assoc)
  then have w: "?c = c\<lparr>cw_w := (P @ take 4 T @ be_u4 (sw_off c s t)) @ drop 8 T @ B\<rparr>"
    using patchU4_mid [of "P @ take 4 T" "sw_at s + 1 + sw_pad s + 8 + 8 * i + 4" "take 4 (drop 4 T)"] Cons.prems(3,4)
    by (simp add: cw_patchU4_def)
  show ?case
    using Cons.IH [OF Cons.prems(1) _ _ _ r, of "P @ take 4 T @ be_u4 (sw_off c s t)" "drop 8 T"] w Cons.prems(3,4) p by simp
qed simp

lemma targets_err: "resolve_targets s i ts c = (False, c') \<Longrightarrow> cw_err c' \<noteq> None"
  by (induction s i ts c rule: resolve_targets.induct) (auto simp: Let_def cw_fail_def split: if_splits)

text \<open>A resolved switch: the same match values, every case at its label.\<close>

definition switches_to :: "instr \<Rightarrow> instr \<Rightarrow> (label_id \<Rightarrow> int) \<Rightarrow> switch_rec \<Rightarrow> bool" where
  "switches_to i0 i pc s \<longleftrightarrow> (\<exists>cs. instr_Switch i = Some (word_of_int (pc (sw_def s)), cs) \<and>
     map scTarget cs = map (\<lambda>t. word_of_int (pc t)) (sw_targets s) \<and>
     (\<exists>d0 cs0. instr_Switch i0 = Some (d0, cs0) \<and> map scMatch cs = map scMatch cs0))"

lemma table_resolved:
  assumes i: "complete i" "headed i" "inOp i = Tableswitch" "inPC i = word_of_nat (sw_at s)"
    and s: "sw_op s = Tableswitch" "sw_pad s = switch_pad (inPC i)" "length (inRaw i) = 1 + sw_pad s + 12 + 4 * length (sw_targets s)"
    and w: "cw_w c = A @ inRaw i @ B" "length A = sw_at s" "0 \<le> lb_pc (lbl c (sw_def s))"
    and r: "resolve_targets s 0 (sw_targets s) (cw_patchU4 (sw_at s + 1 + sw_pad s) (sw_off c s (sw_def s)) c) = (True, c1)"
  shows "\<exists>raw. length raw = length (inRaw i) \<and> complete (i\<lparr>inRaw := raw\<rparr>) \<and> headed (i\<lparr>inRaw := raw\<rparr>) \<and> c1 = c\<lparr>cw_w := A @ raw @ B\<rparr> \<and>
    (\<forall>t \<in> set (sw_targets s). 0 \<le> lb_pc (lbl c t)) \<and> switches_to i (i\<lparr>inRaw := raw\<rparr>) (\<lambda>t. lb_pc (lbl c t)) s"
proof -
  obtain z d low high T where raw: "inRaw i = Tableswitch # z @ be_u4 d @ be_u4 low @ be_u4 high @ T" "length z = switch_pad (inPC i)"
    "sint low \<le> sint high" "int (length T) = 4 * (sint high - sint low + 1)"
    using table_split [OF i(1-3)] .
  let ?ts = "sw_targets s"
  define offs where "offs = map (sw_off c s) ?ts"
  have lo: "length offs = length ?ts" by (simp add: offs_def)
  define raw' where "raw' = Tableswitch # z @ be_u4 (sw_off c s (sw_def s)) @ be_u4 low @ be_u4 high @ concat (map be_u4 offs)"
  have lT: "length T = 4 * length ?ts" using s(3) raw(1,2) s(2) by simp
  have n: "\<not> inWide i" using complete_switch_narrow [OF i(1)] i(3) by simp
  let ?i = "i\<lparr>inRaw := raw'\<rparr>"
  have c0: "cw_patchU4 (sw_at s + 1 + sw_pad s) (sw_off c s (sw_def s)) c =
      c\<lparr>cw_w := (A @ Tableswitch # z @ be_u4 (sw_off c s (sw_def s)) @ be_u4 low @ be_u4 high) @ T @ B\<rparr>"
    using patchU4_mid [of "A @ Tableswitch # z" "sw_at s + 1 + sw_pad s" "be_u4 d" _ "be_u4 low @ be_u4 high @ T @ B"] w(1,2) raw(1,2) s(2)
    by (simp add: cw_patchU4_def)
  have c1: "(\<forall>t \<in> set ?ts. 0 \<le> lb_pc (lbl c t)) \<and> c1 = c\<lparr>cw_w := A @ raw' @ B\<rparr>"
    using targets_table [OF s(1) _ _ lT r, of "A @ Tableswitch # z @ be_u4 (sw_off c s (sw_def s)) @ be_u4 low @ be_u4 high" B]
      w(2) raw(2) s(2) unfolding c0 raw'_def offs_def by simp
  have p: "complete ?i \<and> headed ?i"
    using table_parts [of ?i z "sw_off c s (sw_def s)" low high "concat (map be_u4 offs)"] i(3) n raw lT
    by (simp add: raw'_def length_words lo)
  have cnt: "nat (sint high - sint low + 1) = length ?ts" using raw(4) lT by simp
  have b: "drop (1 + switch_pad (inPC ?i)) (inRaw ?i) = be_u4 (sw_off c s (sw_def s)) @ be_u4 low @ be_u4 high @ concat (map be_u4 offs)"
    using raw(2) by (simp add: raw'_def)
  have b0: "drop (1 + switch_pad (inPC i)) (inRaw i) = be_u4 d @ be_u4 low @ be_u4 high @ T" using raw(1,2) by simp
  have sw: "instr_Switch j = Some (inPC j + e, map (\<lambda>m. \<lparr>scMatch = low + word_of_nat m, scTarget = inPC j + word32 (drop (4 * m) U)\<rparr>) [0 ..< length ?ts])"
    if j: "complete j" "inOp j = Tableswitch" "drop (1 + switch_pad (inPC j)) (inRaw j) = be_u4 e @ be_u4 low @ be_u4 high @ U" for j e U
  proof -
    obtain b l h where S: "b = drop (1 + switch_pad (inPC j)) (inRaw j)" "l = word32 (drop 4 b)" "h = word32 (drop 8 b)"
      "instr_Switch j = Some (inPC j + word32 b,
        map (\<lambda>m. \<lparr>scMatch = l + word_of_nat m, scTarget = inPC j + word32 (drop (12 + 4 * m) b)\<rparr>) [0 ..< nat (sint h - sint l + 1)])"
      using Switch_table [OF j(1,2)] by blast
    have lh: "l = low" "h = high" using S(1-3) unfolding j(3) by simp_all
    show ?thesis using S(4) unfolding S(1) j(3) lh cnt by simp
  qed
  have at: "word32 (drop (4 * m) (concat (map be_u4 offs))) = offs ! m" if "m < length ?ts" for m
    using words_at [of m offs "[]"] that lo by simp
  have sum: "inPC i + sw_off c s t = word_of_int (lb_pc (lbl c t))" for t by (simp add: i(4) sw_off_def)
  have "switches_to i ?i (\<lambda>t. lb_pc (lbl c t)) s"
    unfolding switches_to_def
  proof (intro exI conjI)
    have "inOp ?i = Tableswitch" "inPC ?i = inPC i" using i(3) by simp_all
    then show "instr_Switch ?i = Some (word_of_int (lb_pc (lbl c (sw_def s))),
        map (\<lambda>m. \<lparr>scMatch = low + word_of_nat m, scTarget = inPC i + word32 (drop (4 * m) (concat (map be_u4 offs)))\<rparr>) [0 ..< length ?ts])"
      using sw [OF conjunct1 [OF p] _ b] by (simp only: sum)
    show "map scTarget (map (\<lambda>m. \<lparr>scMatch = low + word_of_nat m, scTarget = inPC i + word32 (drop (4 * m) (concat (map be_u4 offs)))\<rparr>) [0 ..< length ?ts]) =
        map (\<lambda>t. word_of_int (lb_pc (lbl c t))) ?ts"
      by (rule nth_equalityI) (simp_all add: at, simp add: offs_def sum)
    show "instr_Switch i = Some (inPC i + d, map (\<lambda>m. \<lparr>scMatch = low + word_of_nat m, scTarget = inPC i + word32 (drop (4 * m) T)\<rparr>) [0 ..< length ?ts])"
      by (rule sw [OF i(1,3) b0])
  qed simp
  then show ?thesis using p c1 s(3) raw(2) s(2) by (intro exI [of _ raw']) (simp add: raw'_def length_words lo)
qed

lemma lookup_resolved:
  assumes i: "complete i" "headed i" "inOp i = Lookupswitch" "inPC i = word_of_nat (sw_at s)"
    and s: "sw_op s = Lookupswitch" "sw_pad s = switch_pad (inPC i)" "length (inRaw i) = 1 + sw_pad s + 8 + 8 * length (sw_targets s)"
    and w: "cw_w c = A @ inRaw i @ B" "length A = sw_at s" "0 \<le> lb_pc (lbl c (sw_def s))"
    and r: "resolve_targets s 0 (sw_targets s) (cw_patchU4 (sw_at s + 1 + sw_pad s) (sw_off c s (sw_def s)) c) = (True, c1)"
  shows "\<exists>raw. length raw = length (inRaw i) \<and> complete (i\<lparr>inRaw := raw\<rparr>) \<and> headed (i\<lparr>inRaw := raw\<rparr>) \<and> c1 = c\<lparr>cw_w := A @ raw @ B\<rparr> \<and>
    (\<forall>t \<in> set (sw_targets s). 0 \<le> lb_pc (lbl c t)) \<and> switches_to i (i\<lparr>inRaw := raw\<rparr>) (\<lambda>t. lb_pc (lbl c t)) s"
proof -
  obtain z d n T where raw: "inRaw i = Lookupswitch # z @ be_u4 d @ be_u4 n @ T" "length z = switch_pad (inPC i)"
    "0 \<le> sint n" "int (length T) = 8 * sint n"
    using lookup_split [OF i(1-3)] .
  let ?ts = "sw_targets s"
  define offs where "offs = map (sw_off c s) ?ts"
  have lo: "length offs = length ?ts" by (simp add: offs_def)
  define raw' where "raw' = Lookupswitch # z @ be_u4 (sw_off c s (sw_def s)) @ be_u4 n @ weave T offs"
  have lT: "length T = 8 * length ?ts" using s(3) raw(1,2) s(2) by simp
  have wide: "\<not> inWide i" using complete_switch_narrow [OF i(1)] i(3) by simp
  let ?i = "i\<lparr>inRaw := raw'\<rparr>"
  have c0: "cw_patchU4 (sw_at s + 1 + sw_pad s) (sw_off c s (sw_def s)) c =
      c\<lparr>cw_w := (A @ Lookupswitch # z @ be_u4 (sw_off c s (sw_def s)) @ be_u4 n) @ T @ B\<rparr>"
    using patchU4_mid [of "A @ Lookupswitch # z" "sw_at s + 1 + sw_pad s" "be_u4 d" _ "be_u4 n @ T @ B"] w(1,2) raw(1,2) s(2)
    by (simp add: cw_patchU4_def)
  have c1: "(\<forall>t \<in> set ?ts. 0 \<le> lb_pc (lbl c t)) \<and> c1 = c\<lparr>cw_w := A @ raw' @ B\<rparr>"
    using targets_lookup [OF s(1) _ _ lT r, of "A @ Lookupswitch # z @ be_u4 (sw_off c s (sw_def s)) @ be_u4 n" B]
      w(2) raw(2) s(2) unfolding c0 raw'_def offs_def by simp
  have lW: "length (weave T offs) = length T" using length_weave [of offs T] lT lo by simp
  have p: "complete ?i \<and> headed ?i"
    using lookup_parts [of ?i z "sw_off c s (sw_def s)" n "weave T offs"] i(3) wide raw lW by (simp add: raw'_def)
  have cnt: "nat (sint n) = length ?ts" using raw(4) lT by simp
  have b: "drop (1 + switch_pad (inPC ?i)) (inRaw ?i) = be_u4 (sw_off c s (sw_def s)) @ be_u4 n @ weave T offs"
    using raw(2) by (simp add: raw'_def)
  have b0: "drop (1 + switch_pad (inPC i)) (inRaw i) = be_u4 d @ be_u4 n @ T" using raw(1,2) by simp
  have sw: "instr_Switch j = Some (inPC j + e,
      map (\<lambda>m. \<lparr>scMatch = word32 (drop (8 * m) U), scTarget = inPC j + word32 (drop (4 + 8 * m) U)\<rparr>) [0 ..< length ?ts])"
    if j: "complete j" "inOp j = Lookupswitch" "drop (1 + switch_pad (inPC j)) (inRaw j) = be_u4 e @ be_u4 n @ U" for j e U
  proof -
    obtain b l where S: "b = drop (1 + switch_pad (inPC j)) (inRaw j)" "l = sint (word32 (drop 4 b))"
      "instr_Switch j = Some (inPC j + word32 b,
        map (\<lambda>m. \<lparr>scMatch = word32 (drop (8 + 8 * m) b), scTarget = inPC j + word32 (drop (12 + 8 * m) b)\<rparr>) [0 ..< nat l])"
      using Switch_lookup [OF j(1,2)] by blast
    have lh: "l = sint n" using S(1,2) unfolding j(3) by simp
    show ?thesis using S(3) unfolding S(1) j(3) lh cnt by simp
  qed
  have at: "word32 (drop (4 + 8 * m) (weave T offs)) = offs ! m"
    "word32 (drop (8 * m) (weave T offs)) = word32 (drop (8 * m) T)" if "m < length ?ts" for m
    using weave_at [of m offs T] that lT lo by simp_all
  have sum: "inPC i + sw_off c s t = word_of_int (lb_pc (lbl c t))" for t by (simp add: i(4) sw_off_def)
  have "switches_to i ?i (\<lambda>t. lb_pc (lbl c t)) s"
    unfolding switches_to_def
  proof (intro exI conjI)
    let ?cs = "\<lambda>U. map (\<lambda>m. \<lparr>scMatch = word32 (drop (8 * m) U), scTarget = inPC i + word32 (drop (4 + 8 * m) U)\<rparr>) [0 ..< length ?ts]"
    have "inOp ?i = Lookupswitch" "inPC ?i = inPC i" using i(3) by simp_all
    then show "instr_Switch ?i = Some (word_of_int (lb_pc (lbl c (sw_def s))), ?cs (weave T offs))"
      using sw [OF conjunct1 [OF p] _ b] by (simp only: sum)
    show "map scTarget (?cs (weave T offs)) = map (\<lambda>t. word_of_int (lb_pc (lbl c t))) ?ts"
      by (rule nth_equalityI) (simp_all add: at, simp add: offs_def sum)
    show "instr_Switch i = Some (inPC i + d, ?cs T)" by (rule sw [OF i(1,3) b0])
    show "map scMatch (?cs (weave T offs)) = map scMatch (?cs T)" by (simp add: at)
  qed
  then show ?thesis using p c1 s(3) raw(2) s(2) lW lT by (intro exI [of _ raw']) (simp add: raw'_def)
qed

lemma off_inj:
  assumes "code_seq pc is" and "j < length is" and "k < length is" and "instr_off is j = instr_off is k"
  shows "j = k"
proof -
  have lt: "instr_off is a < instr_off is b" if "a < b" "b < length is" for a b
  proof -
    have "code_seq pc (take b is)" using assms(1) by (metis append_take_drop_id code_seq_append)
    then show ?thesis using instr_off_lt [of pc "take b is" a] that by simp
  qed
  show ?thesis using lt [of j k] lt [of k j] assms by (cases j k rule: linorder_cases) auto
qed

text \<open>The instruction of a switch record, resolved.\<close>

definition switch_done :: "instr list \<Rightarrow> instr list \<Rightarrow> (label_id \<Rightarrow> int) \<Rightarrow> switch_rec \<Rightarrow> bool" where
  "switch_done is0 is pc s \<longleftrightarrow> (\<forall>t \<in> set (sw_def s # sw_targets s). 0 \<le> pc t) \<and>
     (\<exists>k < length is0. instr_off is0 k = sw_at s \<and> switches_to (is0 ! k) (is ! k) pc s)"

lemma resolve_switch_patches:
  assumes "code_seq 0 is" and "cw_w c = code_bytes is" and "same_shape is0 is" and "code_seq 0 is0" and "switch_ok is0 s"
    and "\<And>k. k < length is0 \<Longrightarrow> instr_off is0 k = sw_at s \<Longrightarrow> is ! k = is0 ! k" and "0 \<le> lb_pc (lbl c (sw_def s))"
    and r: "resolve_targets s 0 (sw_targets s) (cw_patchU4 (sw_at s + 1 + sw_pad s) (sw_off c s (sw_def s)) c) = (True, c1)"
  shows "\<exists>is1. code_seq 0 is1 \<and> same_shape is0 is1 \<and> c1 = c\<lparr>cw_w := code_bytes is1\<rparr> \<and>
    switch_done is0 is1 (\<lambda>t. lb_pc (lbl c t)) s \<and> (\<forall>k < length is0. instr_off is0 k \<noteq> sw_at s \<longrightarrow> is1 ! k = is ! k)"
proof -
  obtain k where k: "k < length is0" "instr_off is0 k = sw_at s" "inOp (is0 ! k) = sw_op s"
    "sw_op s = Tableswitch \<or> sw_op s = Lookupswitch" "sw_pad s = switch_pad (inPC (is0 ! k))"
    and len: "length (inRaw (is0 ! k)) = 1 + sw_pad s +
       (if sw_op s = Tableswitch then 12 + 4 * length (sw_targets s) else 8 + 8 * length (sw_targets s))"
    using assms(5) unfolding switch_ok_def by blast
  have ik: "is ! k = is0 ! k" using assms(6) k(1,2) by blast
  have kl: "k < length is" using k(1) list_all2_lengthD [OF assms(3)] by simp
  note i = code_seq_at(2,3) [OF assms(4) k(1)]
  have pc: "inPC (is0 ! k) = word_of_nat (sw_at s)"
  proof -
    have "word_of_nat (unat (inPC (is0 ! k))) = inPC (is0 ! k)" by simp
    then show ?thesis using code_seq_at(1) [OF assms(4) k(1)] k(2) by simp
  qed
  have w: "cw_w c = code_bytes (take k is) @ inRaw (is0 ! k) @ code_bytes (drop (Suc k) is)"
    using code_bytes_split [OF kl] assms(2) ik by simp
  have A: "length (code_bytes (take k is)) = sw_at s" using same_shape_off [OF assms(3)] k(2) by simp
  have "\<exists>raw. length raw = length (inRaw (is0 ! k)) \<and> complete ((is0 ! k)\<lparr>inRaw := raw\<rparr>) \<and> headed ((is0 ! k)\<lparr>inRaw := raw\<rparr>) \<and>
    c1 = c\<lparr>cw_w := code_bytes (take k is) @ raw @ code_bytes (drop (Suc k) is)\<rparr> \<and> (\<forall>t \<in> set (sw_targets s). 0 \<le> lb_pc (lbl c t)) \<and>
    switches_to (is0 ! k) ((is0 ! k)\<lparr>inRaw := raw\<rparr>) (\<lambda>t. lb_pc (lbl c t)) s"
  proof (cases "sw_op s = Tableswitch")
    case True
    then show ?thesis using table_resolved [OF i _ pc True k(5) _ w A assms(7) r] k(3) len by simp
  next
    case False
    then have o': "sw_op s = Lookupswitch" using k(4) by blast
    then show ?thesis using lookup_resolved [OF i _ pc o' k(5) _ w A assms(7) r] k(3) len by simp
  qed
  then obtain raw where raw: "length raw = length (inRaw (is0 ! k))" "complete ((is0 ! k)\<lparr>inRaw := raw\<rparr>)" "headed ((is0 ! k)\<lparr>inRaw := raw\<rparr>)"
    "c1 = c\<lparr>cw_w := code_bytes (take k is) @ raw @ code_bytes (drop (Suc k) is)\<rparr>" "\<forall>t \<in> set (sw_targets s). 0 \<le> lb_pc (lbl c t)"
    "switches_to (is0 ! k) ((is0 ! k)\<lparr>inRaw := raw\<rparr>) (\<lambda>t. lb_pc (lbl c t)) s" by blast
  let ?is1 = "is[k := (is ! k)\<lparr>inRaw := raw\<rparr>]"
  have 1: "code_seq 0 ?is1" using code_seq_update [OF assms(1) kl] raw(1-3) ik by simp
  have 2: "same_shape is0 ?is1" using same_shape_trans [OF assms(3) same_shape_update [OF kl]] raw(1) ik by simp
  have 3: "c1 = c\<lparr>cw_w := code_bytes ?is1\<rparr>" using raw(4) code_bytes_update [OF kl] by simp
  have 4: "switch_done is0 ?is1 (\<lambda>t. lb_pc (lbl c t)) s"
    unfolding switch_done_def using k(1,2) kl raw(5,6) assms(7) ik by auto
  have 5: "\<forall>j < length is0. instr_off is0 j \<noteq> sw_at s \<longrightarrow> ?is1 ! j = is ! j" using k(2) by (metis nth_list_update_neq)
  show ?thesis using 1 2 3 4 5 by blast
qed

lemma resolve_switches_patches:
  assumes "code_seq 0 is" and "cw_w c = code_bytes is" and "same_shape is0 is" and "code_seq 0 is0"
    and "list_all (switch_ok is0) ss" and "distinct (map sw_at ss)"
    and "\<And>k. k < length is0 \<Longrightarrow> instr_off is0 k \<in> sw_at ` set ss \<Longrightarrow> is ! k = is0 ! k"
    and "resolve_switches ss c = c'" and "cw_err c' = None"
  shows "\<exists>is'. code_seq 0 is' \<and> same_shape is0 is' \<and> c' = c\<lparr>cw_w := code_bytes is'\<rparr> \<and>
    (\<forall>s \<in> set ss. switch_done is0 is' (\<lambda>t. lb_pc (lbl c t)) s) \<and>
    (\<forall>k < length is0. instr_off is0 k \<notin> sw_at ` set ss \<longrightarrow> is' ! k = is ! k)"
  using assms(1-3,5-9)
proof (induction ss arbitrary: "is" c)
  case Nil
  then show ?case by (intro exI [of _ "is"]) auto
next
  case (Cons s ss)
  let ?c = "cw_patchU4 (sw_at s + 1 + sw_pad s) (sw_off c s (sw_def s)) c"
  obtain ok c1 where r: "resolve_targets s 0 (sw_targets s) ?c = (ok, c1)" by fastforce
  have placed: "0 \<le> lb_pc (lbl c (sw_def s))"
    using Cons.prems(7,8) by (auto simp: Let_def cw_fail_def split: if_splits)
  have ok: ok and rest: "resolve_switches ss c1 = c'"
    using Cons.prems(7,8) placed r targets_err [of s 0 "sw_targets s" ?c c1] by (auto simp: Let_def sw_off_def split: if_splits)
  have fresh: "sw_at s \<notin> sw_at ` set ss" using Cons.prems(5) by auto
  obtain is1 where 1: "code_seq 0 is1" "same_shape is0 is1" "c1 = c\<lparr>cw_w := code_bytes is1\<rparr>"
    "switch_done is0 is1 (\<lambda>t. lb_pc (lbl c t)) s" "\<forall>k < length is0. instr_off is0 k \<noteq> sw_at s \<longrightarrow> is1 ! k = is ! k"
    using resolve_switch_patches [OF Cons.prems(1-3) assms(4) _ _ placed, of c1] Cons.prems(4,6) r ok by auto
  have keep: "is1 ! k = is0 ! k" if "k < length is0" "instr_off is0 k \<in> sw_at ` set ss" for k
    using that 1(5) fresh Cons.prems(6) [of k] by auto
  have w1: "cw_w c1 = code_bytes is1" using 1(3) by simp
  have tl: "list_all (switch_ok is0) ss" "distinct (map sw_at ss)" using Cons.prems(4,5) by simp_all
  obtain is' where 2: "code_seq 0 is'" "same_shape is0 is'" "c' = c1\<lparr>cw_w := code_bytes is'\<rparr>"
    "\<forall>s \<in> set ss. switch_done is0 is' (\<lambda>t. lb_pc (lbl c1 t)) s"
    "\<forall>k < length is0. instr_off is0 k \<notin> sw_at ` set ss \<longrightarrow> is' ! k = is1 ! k"
    using Cons.IH [OF 1(1) w1 1(2) tl keep rest Cons.prems(8)] by blast
  obtain k where k: "k < length is0" "instr_off is0 k = sw_at s" "switches_to (is0 ! k) (is1 ! k) (\<lambda>t. lb_pc (lbl c t)) s"
    using 1(4) unfolding switch_done_def by blast
  have "is' ! k = is1 ! k" using 2(5) k(1,2) fresh by simp
  then have "switch_done is0 is' (\<lambda>t. lb_pc (lbl c t)) s" using 1(4) k unfolding switch_done_def by (intro conjI exI [of _ k]) simp_all
  then show ?case using 2 1(3,5) by (intro exI [of _ is']) auto
qed

section \<open>The whole of \<open>resolve\<close>\<close>

text \<open>A resolved branch: the branch itself reaches the label, or the inverted test skips a \<open>goto_w\<close> that
  does.\<close>

definition branch_done :: "instr list \<Rightarrow> int \<Rightarrow> branch \<Rightarrow> bool" where
  "branch_done is pc br \<longleftrightarrow> (\<exists>k < length is. instr_off is k = br_at br \<and>
     (if \<not> br_wide br then inOp (is ! k) = br_op br \<and> instr_Target (is ! k) = Some (word_of_int pc)
      else if br_op br = Goto then inOp (is ! k) = GotoW \<and> instr_Target (is ! k) = Some (word_of_int pc)
      else invert (br_op br) = Some (inOp (is ! k)) \<and> instr_Target (is ! k) = Some (inPC (is ! k) + 8) \<and>
        Suc k < length is \<and> inOp (is ! Suc k) = GotoW \<and> instr_Target (is ! Suc k) = Some (word_of_int pc) \<and>
        instr_off is (Suc (Suc k)) = br_at br + 8))"

lemma branches_err: "resolve_branches brs again c = (None, c') \<Longrightarrow> cw_err c' \<noteq> None"
  by (induction brs arbitrary: again c) (auto simp: cw_fail_def split: if_splits prod.splits)

lemma invert_Branch2: "invert o' = Some x \<Longrightarrow> op_Kind x = Branch2"
proof -
  assume "invert o' = Some x"
  from map_of_SomeD [OF this [unfolded invert_def]] have "x \<in> conditional" unfolding conditional_def by auto
  then show ?thesis using conditional_kinds by blast
qed

text \<open>From the patched carriers to the records.\<close>

lemma branch_done_from:
  assumes s0: "code_seq 0 is0" and s: "code_seq 0 is" and sh: "same_shape is0 is" and ok: "branch_ok is0 br"
    and j: "jumps is (br_pos br) pc"
    and keep: "\<And>k. k < length is0 \<Longrightarrow> instr_off is0 k = br_at br \<Longrightarrow> br_wide br \<Longrightarrow> br_op br \<noteq> Goto \<Longrightarrow> is ! k = is0 ! k"
  shows "branch_done is pc br"
proof -
  obtain k where k: "k < length is0" "instr_off is0 k = br_at br" "\<not> inWide (is0 ! k)" "op_Kind (br_op br) = Branch2"
    and f: "if \<not> br_wide br then inOp (is0 ! k) = br_op br
      else if br_op br = Goto then inOp (is0 ! k) = GotoW
      else invert (br_op br) = Some (inOp (is0 ! k)) \<and> inRaw (is0 ! k) = inOp (is0 ! k) # be_u2 8 \<and>
        Suc k < length is0 \<and> inOp (is0 ! Suc k) = GotoW \<and> \<not> inWide (is0 ! Suc k)"
    using ok unfolding branch_ok_def by blast
  have kl: "k < length is" and off: "instr_off is k = br_at br"
    using k(1,2) list_all2_lengthD [OF sh] same_shape_off [OF sh] by simp_all
  obtain m where m: "m < length is" "instr_off is m = br_pos br" "instr_Target (is ! m) = Some (word_of_int pc)"
    using j unfolding jumps_def by blast
  show ?thesis
  proof (cases "br_wide br \<and> br_op br \<noteq> Goto")
    case True
    have ik: "is ! k = is0 ! k" using keep k(1,2) True by blast
    have f': "invert (br_op br) = Some (inOp (is ! k))" "inRaw (is ! k) = inOp (is ! k) # be_u2 8" "Suc k < length is"
      "inOp (is ! Suc k) = GotoW" "\<not> inWide (is ! Suc k)"
      using f True ik same_shape_nth [OF sh, of "Suc k"] list_all2_lengthD [OF sh] by auto
    have l3: "length (inRaw (is ! k)) = 3" using f'(2) by simp
    have o1: "instr_off is (Suc k) = br_pos br" using True off l3 kl by (simp only: instr_off_Suc br_pos_def) simp
    have mk: "m = Suc k" using off_inj [OF s m(1) f'(3)] m(2) o1 by simp
    note cs = code_seq_at(2) [OF s f'(3)]
    have "op_Valid GotoW" "GotoW \<noteq> Tableswitch" "GotoW \<noteq> Lookupswitch" by (simp_all add: op_Valid_def emitted_kinds)
    then have "length (inRaw (is ! Suc k)) = 5" using complete_narrow(3) [OF cs f'(5)] f'(4) emitted_kinds(38) by simp
    then have o2: "instr_off is (Suc (Suc k)) = br_at br + 8" using o1 f'(3) True by (simp only: instr_off_Suc br_pos_def) simp
    have "instr_Target (is ! k) = Some (inPC (is ! k) + scast (8 :: u16))"
      using Target_of(1) [OF code_seq_at(2) [OF s kl] _ invert_Branch2 [OF f'(1)] f'(2)] k(3) ik by simp
    then have "instr_Target (is ! k) = Some (inPC (is ! k) + 8)" by simp
    then show ?thesis using True kl off f' m(3) mk o2 unfolding branch_done_def by (intro exI [of _ k]) simp
  next
    case False
    then have "br_pos br = br_at br" by (auto simp: br_pos_def)
    then have "m = k" using off_inj [OF s m(1) kl] m(2) off by simp
    then show ?thesis using False kl off m(3) f same_shape_nth [OF sh k(1)] unfolding branch_done_def by (intro exI [of _ k]) auto
  qed
qed

lemma test_not_carrier:
  assumes "sorted_wrt (\<lambda>a b. br_end a \<le> br_at b) brs" and "br \<in> set brs" and "b \<in> set brs" and "br_wide br" and "br_op br \<noteq> Goto"
  shows "br_at br \<noteq> br_pos b"
proof (cases "b = br")
  case False
  obtain m n where mn: "m < length brs" "brs ! m = br" "n < length brs" "brs ! n = b" using assms(2,3) by (metis in_set_conv_nth)
  then have "m < n \<or> n < m" using False by (metis linorder_neqE_nat)
  then have "br_end br \<le> br_at b \<or> br_end b \<le> br_at br" using assms(1) mn by (metis sorted_wrt_nth_less)
  then show ?thesis by (auto simp: br_end_def br_pos_def split: if_splits)
qed (use assms in \<open>simp add: br_pos_def\<close>)

lemma switch_carrier:
  "list_all (switch_ok is) ss \<Longrightarrow> p \<in> sw_at ` set ss \<Longrightarrow>
    \<exists>n < length is. instr_off is n = p \<and> inOp (is ! n) \<in> {Tableswitch, Lookupswitch}"
  unfolding list_all_iff switch_ok_def by fastforce

lemma inverted_test:
  assumes "branch_ok is br" and "br_wide br" and "br_op br \<noteq> Goto"
  shows "\<exists>q < length is. instr_off is q = br_at br \<and> op_Kind (inOp (is ! q)) = Branch2"
  using assms invert_Branch2 unfolding branch_ok_def by fastforce

lemma resolve_done:
  assumes "code_inv c is0" and "resolve c = (False, c')" and "cw_err c' = None"
  shows "\<exists>is. code_seq 0 is \<and> same_shape is0 is \<and> c' = c\<lparr>cw_w := code_bytes is\<rparr> \<and>
    (\<forall>br \<in> set (cw_branches c). 0 \<le> lb_pc (lbl c (br_label br)) \<and> branch_done is (lb_pc (lbl c (br_label br))) br) \<and>
    (\<forall>s \<in> set (cw_switches c). switch_done is0 is (\<lambda>t. lb_pc (lbl c t)) s)"
proof -
  note inv = assms(1) [unfolded code_inv_def]
  obtain c1 where r: "resolve_branches (cw_branches c) False c = (Some False, c1)" "c' = resolve_switches (cw_switches c1) c1"
    using assms(2,3) branches_err [of "cw_branches c" False c c'] unfolding resolve_def by (auto split: prod.splits option.splits if_splits)
  have s0: "code_seq 0 is0" using inv by blast
  have w: "cw_w c = code_bytes is0" using inv by blast
  have bok: "list_all (branch_ok is0) (cw_branches c)" and sok: "list_all (switch_ok is0) (cw_switches c)" using inv by blast+
  obtain is1 where 1: "code_seq 0 is1" "same_shape is0 is1" "c1 = c\<lparr>cw_w := code_bytes is1\<rparr>"
    "\<forall>br \<in> set (cw_branches c). 0 \<le> lb_pc (lbl c (br_label br)) \<and> jumps is1 (br_pos br) (lb_pc (lbl c (br_label br)))"
    "\<forall>k < length is0. instr_off is0 k \<notin> br_pos ` set (cw_branches c) \<longrightarrow> is1 ! k = is0 ! k"
    using resolve_branches_patches [OF s0 w same_shape_refl s0 bok branch_positions [OF assms(1)] r(1)] by blast
  have apart: "instr_off is0 k \<notin> br_pos ` set (cw_branches c)" if k: "k < length is0" "instr_off is0 k \<in> sw_at ` set (cw_switches c)" for k
  proof
    assume "instr_off is0 k \<in> br_pos ` set (cw_branches c)"
    then obtain br where br: "br \<in> set (cw_branches c)" "instr_off is0 k = br_pos br" by blast
    obtain m where m: "m < length is0" "instr_off is0 m = br_pos br" "op_Kind (inOp (is0 ! m)) = (if br_wide br then Branch4 else Branch2)"
      using branch_carrier [OF s0] bok br(1) unfolding list_all_iff by blast
    obtain n where n: "n < length is0" "instr_off is0 n = instr_off is0 k" "inOp (is0 ! n) \<in> {Tableswitch, Lookupswitch}"
      using switch_carrier [OF sok k(2)] by blast
    have "m = k" "n = k" using off_inj [OF s0] m(1,2) n(1,2) k(1) br(2) by simp_all
    then show False using m(3) n(3) by (auto simp: op_Kind_nth kind_list_def split: if_splits)
  qed
  have d: "distinct (map sw_at (cw_switches c))" using inv by (simp add: strict_sorted_iff)
  have sw1: "cw_switches c1 = cw_switches c" "lbl c1 = lbl c" "cw_w c1 = code_bytes is1" using 1(3) by simp_all
  obtain "is" where 2: "code_seq 0 is" "same_shape is0 is" "c' = c1\<lparr>cw_w := code_bytes is\<rparr>"
    "\<forall>s \<in> set (cw_switches c). switch_done is0 is (\<lambda>t. lb_pc (lbl c t)) s"
    "\<forall>k < length is0. instr_off is0 k \<notin> sw_at ` set (cw_switches c) \<longrightarrow> is ! k = is1 ! k"
    using resolve_switches_patches [OF 1(1) sw1(3) 1(2) s0 sok d _ r(2) [symmetric, unfolded sw1(1)] assms(3)] 1(5) apart sw1(2) by auto
  have "branch_done is (lb_pc (lbl c (br_label br))) br" if br: "br \<in> set (cw_branches c)" for br
  proof (rule branch_done_from [OF s0 2(1,2)])
    show "branch_ok is0 br" using bok br by (simp add: list_all_iff)
    obtain m where m: "m < length is1" "instr_off is1 m = br_pos br" "instr_Target (is1 ! m) = Some (word_of_int (lb_pc (lbl c (br_label br))))"
      using 1(4) br unfolding jumps_def by blast
    have "instr_off is0 m \<notin> sw_at ` set (cw_switches c)"
      using apart [of m] m(1,2) list_all2_lengthD [OF 1(2)] same_shape_off [OF 1(2)] br by auto
    then have "is ! m = is1 ! m" using 2(5) m(1) list_all2_lengthD [OF 1(2)] by simp
    then show "jumps is (br_pos br) (lb_pc (lbl c (br_label br)))"
      using m same_shape_off [OF 1(2)] same_shape_off [OF 2(2)] list_all2_lengthD [OF 1(2)] list_all2_lengthD [OF 2(2)]
      unfolding jumps_def by (intro exI [of _ m]) simp
    show "is ! k = is0 ! k" if k: "k < length is0" "instr_off is0 k = br_at br" "br_wide br" "br_op br \<noteq> Goto" for k
    proof -
      have nb: "instr_off is0 k \<notin> br_pos ` set (cw_branches c)"
        using test_not_carrier [OF _ br _ k(3,4)] inv k(2) by auto
      moreover have "instr_off is0 k \<notin> sw_at ` set (cw_switches c)"
      proof
        assume "instr_off is0 k \<in> sw_at ` set (cw_switches c)"
        then obtain n where n: "n < length is0" "instr_off is0 n = instr_off is0 k" "inOp (is0 ! n) \<in> {Tableswitch, Lookupswitch}"
          using switch_carrier [OF sok] by blast
        have "n = k" using off_inj [OF s0 n(1) k(1) n(2)] .
        moreover obtain q where q: "q < length is0" "instr_off is0 q = br_at br" "op_Kind (inOp (is0 ! q)) = Branch2"
          using inverted_test [OF _ k(3,4)] bok br unfolding list_all_iff by blast
        then have "q = k" using off_inj [OF s0 q(1) k(1)] k(2) by simp
        ultimately show False using n(3) q(3) by (auto simp: op_Kind_nth kind_list_def)
      qed
      ultimately show ?thesis using 1(5) 2(5) k(1) by simp
    qed
  qed
  then show ?thesis using 2(1-4) 1(3,4) by (intro exI [of _ "is"]) simp
qed

end
