(* ===== verification/Builder.thy ===== *)
theory Builder
  imports Resolve
begin

unbundle bit_operations_syntax

text \<open>
  The class builder: \<^verbatim>\<open>src/classfile/builder.go\<close>. A \<open>Builder\<close> owns the constant pool and the tables of
  field and method builders; \<open>MethodBuilder.Code\<close> replays a method body until the branch widths settle;
  \<open>Bytes\<close> interns what is left and assembles the file. The field and method builders the API hands out
  as pointers are positions in the builder's tables.
\<close>

section \<open>The builder\<close>

definition MaxCodeLength :: nat where
  "MaxCodeLength = 65535"

definition maxReplays :: nat where
  "maxReplays = 10"

definition Magic :: u32 where
  "Magic = 0xCAFEBABE"

record fieldbuilder =
  fb_flags :: flags
  fb_name :: string
  fb_descriptor :: string
  fb_constant :: u16
  fb_signature :: string

record encodedHandler =
  eh_start :: u16
  eh_end :: u16
  eh_handler :: u16
  eh_catchType :: u16

record methodbuilder =
  mb_flags :: flags
  mb_name :: string
  mb_descriptor :: string
  mb_signature :: string
  mb_exceptions :: "string list"
  mb_code :: bytes
  mb_maxStack :: u16
  mb_maxLocals :: u16
  mb_handlers :: "encodedHandler list"
  mb_lines :: "line_number list"
  mb_locals :: "local_variable list"
  mb_hasCode :: bool

datatype class_build_error =
    StackMapNeeded version
  | BelowMinimum version
  | PreviewTarget version
  | FieldDescError string desc_error
  | NotStaticFinal string
  | MethodDescError string desc_error
  | NotConverged string
  | BodyError string cw_error
  | FallsOffEnd string
  | CodeEmpty string
  | CodeTooLong string nat
  | LimitsExceeded string int int
  | BodyNotAllowed string
  | BodyMissing string
  | NoSuperclass string
  | PoolError build_error

record builder =
  bd_pool :: poolbuilder
  bd_version :: version
  bd_flags :: flags
  bd_name :: string
  bd_super :: string
  bd_ifaces :: "string list"
  bd_fields :: "fieldbuilder list"
  bd_methods :: "methodbuilder list"
  bd_sourceFile :: string
  bd_err :: "class_build_error option"

definition NewBuilder :: "string \<Rightarrow> builder" where
  "NewBuilder internal = \<lparr>bd_pool = newPoolBuilder, bd_version = \<lparr>vMajor = Java5, vMinor = 0\<rparr>, bd_flags = AccPublic OR AccSuper,
     bd_name = internal, bd_super = ''java/lang/Object'', bd_ifaces = [], bd_fields = [], bd_methods = [], bd_sourceFile = [],
     bd_err = None\<rparr>"

definition bd_fail :: "class_build_error \<Rightarrow> builder \<Rightarrow> builder" where
  "bd_fail e b = (if bd_err b = None then b\<lparr>bd_err := Some e\<rparr> else b)"

definition SetVersion :: "version \<Rightarrow> builder \<Rightarrow> builder" where
  "SetVersion v b =
     (if vMajor v \<ge> Java6 then bd_fail (StackMapNeeded v) b
      else if vMajor v < Java1_0 then bd_fail (BelowMinimum v) b
      else if vMinor v = PreviewMinor then bd_fail (PreviewTarget v) b
      else b\<lparr>bd_version := v\<rparr>)"

definition SetFlags :: "flags \<Rightarrow> builder \<Rightarrow> builder" where
  "SetFlags f b = b\<lparr>bd_flags := f\<rparr>"

definition SetSuper :: "string \<Rightarrow> builder \<Rightarrow> builder" where
  "SetSuper internal b = b\<lparr>bd_super := internal\<rparr>"

definition AddInterface :: "string \<Rightarrow> builder \<Rightarrow> builder" where
  "AddInterface internal b = b\<lparr>bd_ifaces := bd_ifaces b @ [internal]\<rparr>"

definition SetSourceFile :: "string \<Rightarrow> builder \<Rightarrow> builder" where
  "SetSourceFile name b = b\<lparr>bd_sourceFile := name\<rparr>"

definition bd_intern :: "u16 pb_op \<Rightarrow> builder \<Rightarrow> u16 \<times> builder" where
  "bd_intern f b = (case f (bd_pool b) of (i, p) \<Rightarrow> (i, b\<lparr>bd_pool := p\<rparr>))"

section \<open>Fields\<close>

definition bd_Field :: "flags \<Rightarrow> string \<Rightarrow> string \<Rightarrow> builder \<Rightarrow> nat \<times> builder" where
  "bd_Field fl name descriptor b =
     (let b1 = (case ParseField descriptor of Inl e \<Rightarrow> bd_fail (FieldDescError name e) b | Inr _ \<Rightarrow> b) in
      (length (bd_fields b1), b1\<lparr>bd_fields := bd_fields b1 @
        [\<lparr>fb_flags = fl, fb_name = name, fb_descriptor = descriptor, fb_constant = 0, fb_signature = []\<rparr>]\<rparr>))"

definition setConstant :: "nat \<Rightarrow> u16 \<Rightarrow> builder \<Rightarrow> builder" where
  "setConstant f idx b =
     (let fb = bd_fields b ! f in
      if \<not> Has (fb_flags fb) (AccStatic OR AccFinal) then bd_fail (NotStaticFinal (fb_name fb)) b
      else b\<lparr>bd_fields := (bd_fields b)[f := fb\<lparr>fb_constant := idx\<rparr>]\<rparr>)"

text \<open>\<open>f.setConstant(f.b.pool.X(v))\<close>.\<close>

definition constant_of :: "nat \<Rightarrow> u16 pb_op \<Rightarrow> builder \<Rightarrow> builder" where
  "constant_of f k b = (case bd_intern k b of (i, b1) \<Rightarrow> setConstant f i b1)"

definition ConstantInt :: "nat \<Rightarrow> u32 \<Rightarrow> builder \<Rightarrow> builder" where
  "ConstantInt f v = constant_of f (pb_Int v)"

definition ConstantLong :: "nat \<Rightarrow> u64 \<Rightarrow> builder \<Rightarrow> builder" where
  "ConstantLong f v = constant_of f (pb_Long v)"

definition ConstantFloat :: "nat \<Rightarrow> u32 \<Rightarrow> builder \<Rightarrow> builder" where
  "ConstantFloat f v = constant_of f (pb_Float v)"

definition ConstantDouble :: "nat \<Rightarrow> u64 \<Rightarrow> builder \<Rightarrow> builder" where
  "ConstantDouble f v = constant_of f (pb_Double v)"

definition ConstantString :: "nat \<Rightarrow> string \<Rightarrow> builder \<Rightarrow> builder" where
  "ConstantString f v = constant_of f (pb_String v)"

definition fb_Signature :: "nat \<Rightarrow> string \<Rightarrow> builder \<Rightarrow> builder" where
  "fb_Signature f s b = b\<lparr>bd_fields := (bd_fields b)[f := (bd_fields b ! f)\<lparr>fb_signature := s\<rparr>]\<rparr>"

section \<open>Methods\<close>

definition bd_Method :: "flags \<Rightarrow> string \<Rightarrow> string \<Rightarrow> builder \<Rightarrow> nat \<times> builder" where
  "bd_Method fl name descriptor b =
     (let b1 = (case ParseMethod descriptor of Inl e \<Rightarrow> bd_fail (MethodDescError name e) b | Inr _ \<Rightarrow> b) in
      (length (bd_methods b1), b1\<lparr>bd_methods := bd_methods b1 @
        [\<lparr>mb_flags = fl, mb_name = name, mb_descriptor = descriptor, mb_signature = [], mb_exceptions = [], mb_code = [],
          mb_maxStack = 0, mb_maxLocals = 0, mb_handlers = [], mb_lines = [], mb_locals = [], mb_hasCode = False\<rparr>]\<rparr>))"

definition upd_method :: "nat \<Rightarrow> (methodbuilder \<Rightarrow> methodbuilder) \<Rightarrow> builder \<Rightarrow> builder" where
  "upd_method m g b = b\<lparr>bd_methods := (bd_methods b)[m := g (bd_methods b ! m)]\<rparr>"

definition Throws :: "nat \<Rightarrow> string \<Rightarrow> builder \<Rightarrow> builder" where
  "Throws m internal = upd_method m (\<lambda>mb. mb\<lparr>mb_exceptions := mb_exceptions mb @ [internal]\<rparr>)"

definition mb_Signature :: "nat \<Rightarrow> string \<Rightarrow> builder \<Rightarrow> builder" where
  "mb_Signature m s = upd_method m (\<lambda>mb. mb\<lparr>mb_signature := s\<rparr>)"

text \<open>The writer a pass of \<open>Code\<close> starts with.\<close>

definition code_start :: "poolbuilder \<Rightarrow> dtype \<Rightarrow> version \<Rightarrow> nat set \<Rightarrow> nat \<Rightarrow> int \<Rightarrow> codewriter" where
  "code_start p ret ver widen pass args = \<lparr>cw_p = p, cw_w = [], cw_err = None, cw_ret = ret, cw_ver = ver, cw_labels = [],
     cw_branches = [], cw_switches = [], cw_handlers = [], cw_lines = [], cw_locals = [], cw_widen = widen, cw_pass = pass,
     cw_depth = 0, cw_maxStack = 0, cw_maxLocals = args, cw_reachable = True\<rparr>"

definition encode_handler :: "nat \<Rightarrow> codewriter \<Rightarrow> handler_rec \<Rightarrow> builder \<Rightarrow> builder" where
  "encode_handler m c h b =
     (case (if hr_catchType h \<noteq> [] then bd_intern (pb_Class (hr_catchType h)) b else (0, b)) of (ct, b1) \<Rightarrow>
        upd_method m (\<lambda>mb. mb\<lparr>mb_handlers := mb_handlers mb @
          [\<lparr>eh_start = word_of_int (lb_pc (lbl c (hr_start h))), eh_end = word_of_int (lb_pc (lbl c (hr_end h))),
            eh_handler = word_of_int (lb_pc (lbl c (hr_handler h))), eh_catchType = ct\<rparr>]\<rparr>) b1)"

text \<open>What \<open>Code\<close> does once the widths have settled, from the check of \<open>c.err\<close> after \<open>resolve\<close> on.\<close>

definition code_finish :: "nat \<Rightarrow> codewriter \<Rightarrow> builder \<Rightarrow> builder" where
  "code_finish m c b =
     (let name = mb_name (bd_methods b ! m) in
      case cw_err c of
        Some e \<Rightarrow> bd_fail (BodyError name e) b
      | None \<Rightarrow>
        if cw_w c = [] then bd_fail (CodeEmpty name) b
        else if length (cw_w c) > MaxCodeLength then bd_fail (CodeTooLong name (length (cw_w c))) b
        else if cw_maxStack c > MaxStack \<or> cw_maxLocals c > MaxLocals
        then bd_fail (LimitsExceeded name (cw_maxStack c) (cw_maxLocals c)) b
        else case localRows c of (rows, c1) \<Rightarrow>
          let b1 = upd_method m (\<lambda>mb. mb\<lparr>mb_code := cw_w c, mb_maxStack := word_of_int (cw_maxStack c),
                 mb_maxLocals := word_of_int (cw_maxLocals c), mb_lines := cw_lines c, mb_locals := rows, mb_hasCode := True\<rparr>) b in
          case cw_err c1 of
            Some e \<Rightarrow> bd_fail (BodyError name e) b1
          | None \<Rightarrow> fold (encode_handler m c1) (cw_handlers c1) b1)"

text \<open>The replay loop. The body mutates the builder's pool through the writer, also when it fails.\<close>

function code_loop :: "code_op list \<Rightarrow> nat \<Rightarrow> dmethod \<Rightarrow> bool \<Rightarrow> nat set \<Rightarrow> nat \<Rightarrow> builder \<Rightarrow> builder" where
  "code_loop body m sig receiver widen pass b =
     (if pass \<ge> maxReplays then bd_fail (NotConverged (mb_name (bd_methods b ! m))) b
      else
        let c = run_body body (code_start (bd_pool b) (mRet sig) (bd_version b) widen pass (int (ArgSlots sig receiver)));
            b1 = b\<lparr>bd_pool := cw_p c\<rparr> in
        case cw_err c of
          Some e \<Rightarrow> bd_fail (BodyError (mb_name (bd_methods b ! m)) e) b1
        | None \<Rightarrow>
            if cw_reachable c then bd_fail (FallsOffEnd (mb_name (bd_methods b ! m))) b1
            else case resolve c of (again, c1) \<Rightarrow>
              if again then code_loop body m sig receiver (cw_widen c1) (pass + 1) b1
              else code_finish m c1 b1)"
  by pat_completeness auto
termination
  by (relation "measure (\<lambda>(_, _, _, _, _, pass, _). maxReplays - pass)") auto

declare code_loop.simps [simp del]

definition mb_Code :: "nat \<Rightarrow> code_op list \<Rightarrow> builder \<Rightarrow> builder" where
  "mb_Code m body b =
     (if bd_err b \<noteq> None then b
      else
        let mb = bd_methods b ! m; receiver = \<not> Has (mb_flags mb) AccStatic in
        case ParseMethod (mb_descriptor mb) of
          Inl e \<Rightarrow> bd_fail (MethodDescError (mb_name mb) e) b
        | Inr sig \<Rightarrow>
            (case CheckArgSlots sig receiver of
               Some e \<Rightarrow> bd_fail (MethodDescError (mb_name mb) e) b
             | None \<Rightarrow> code_loop body m sig receiver {} 0 b))"

section \<open>Assembling the file\<close>

text \<open>What \<open>emitField\<close> and \<open>emitMethod\<close> do is write bytes and intern constants; an emitter is a function
  from the buffer and the pool to both.\<close>

type_synonym emitter = "bwriter \<Rightarrow> poolbuilder \<Rightarrow> bwriter \<times> poolbuilder"

definition em_u2 :: "u16 \<Rightarrow> emitter" where
  "em_u2 v w p = (w_u2 v w, p)"

definition em_raw :: "bytes \<Rightarrow> emitter" where
  "em_raw b w p = (w_raw b w, p)"

definition em_then :: "emitter \<Rightarrow> emitter \<Rightarrow> emitter" where
  "em_then f g w p = (case f w p of (w1, p1) \<Rightarrow> g w1 p1)"

definition em_when :: "bool \<Rightarrow> emitter \<Rightarrow> emitter" where
  "em_when c f w p = (if c then f w p else (w, p))"

text \<open>\<open>w.u2(b.pool.X(...))\<close>.\<close>

definition em_ref :: "u16 pb_op \<Rightarrow> emitter" where
  "em_ref f w p = (case f p of (i, p1) \<Rightarrow> (w_u2 i w, p1))"

text \<open>\<open>w.attr(b.pool.UTF8(name), body)\<close>.\<close>

definition em_attr :: "string \<Rightarrow> emitter \<Rightarrow> emitter" where
  "em_attr name body w p = (case pb_UTF8 name p of (i, p1) \<Rightarrow> w_attr i body w p1)"

text \<open>\<open>s := b.pool.UTF8(v)\<close> before an attribute whose body is that index.\<close>

definition em_utf8_attr :: "string \<Rightarrow> string \<Rightarrow> emitter" where
  "em_utf8_attr name v w p = (case pb_UTF8 v p of (s, p1) \<Rightarrow> em_attr name (em_u2 s) w p1)"

definition bool_count :: "bool list \<Rightarrow> u16" where
  "bool_count bs = word_of_nat (length (filter id bs))"

definition field_attrs :: "fieldbuilder \<Rightarrow> emitter" where
  "field_attrs f =
     em_then (em_u2 (bool_count [fb_constant f \<noteq> 0, fb_signature f \<noteq> []]))
     (em_then (em_when (fb_constant f \<noteq> 0) (em_attr ''ConstantValue'' (em_u2 (fb_constant f))))
       (em_when (fb_signature f \<noteq> []) (em_utf8_attr ''Signature'' (fb_signature f))))"

text \<open>A scratch writer for the attributes, spliced in at the end.\<close>

definition em_scratch :: "emitter \<Rightarrow> emitter" where
  "em_scratch f w p = (case f [] p of (a, p1) \<Rightarrow> (w_raw a w, p1))"

definition emitField :: "fieldbuilder \<Rightarrow> emitter" where
  "emitField f =
     em_then (em_u2 (fb_flags f))
     (em_then (em_ref (pb_UTF8 (fb_name f)))
     (em_then (em_ref (pb_UTF8 (fb_descriptor f)))
       (em_scratch (field_attrs f))))"

text \<open>The rows of the local variable table with their names interned.\<close>

record lvRow =
  row_startPC :: u16
  row_length :: u16
  row_name :: u16
  row_descriptor :: u16
  row_slot :: u16

fun lv_rows :: "local_variable list \<Rightarrow> lvRow list pb_op" where
  "lv_rows [] p = ([], p)"
| "lv_rows (lv # lvs) p =
     (case pb_UTF8 (lvName lv) p of (n, p1) \<Rightarrow>
      case pb_UTF8 (lvDescriptor lv) p1 of (d, p2) \<Rightarrow>
      case lv_rows lvs p2 of (rows, p3) \<Rightarrow>
        (\<lparr>row_startPC = lvStartPC lv, row_length = lvLength lv, row_name = n, row_descriptor = d, row_slot = lvSlot lv\<rparr> # rows, p3))"

fun em_each :: "('a \<Rightarrow> emitter) \<Rightarrow> 'a list \<Rightarrow> emitter" where
  "em_each f [] w p = (w, p)"
| "em_each f (x # xs) w p = em_then (f x) (em_each f xs) w p"

text \<open>A count and its rows; the count is cut to sixteen bits.\<close>

definition em_table :: "('a \<Rightarrow> emitter) \<Rightarrow> 'a list \<Rightarrow> emitter" where
  "em_table f xs = em_then (em_u2 (word_of_nat (length xs))) (em_each f xs)"

definition em_handler :: "encodedHandler \<Rightarrow> emitter" where
  "em_handler h = em_then (em_u2 (eh_start h)) (em_then (em_u2 (eh_end h)) (em_then (em_u2 (eh_handler h)) (em_u2 (eh_catchType h))))"

definition em_line :: "line_number \<Rightarrow> emitter" where
  "em_line l = em_then (em_u2 (lnStartPC l)) (em_u2 (lnLine l))"

definition em_row :: "lvRow \<Rightarrow> emitter" where
  "em_row r = em_then (em_u2 (row_startPC r)) (em_then (em_u2 (row_length r)) (em_then (em_u2 (row_name r))
     (em_then (em_u2 (row_descriptor r)) (em_u2 (row_slot r)))))"

definition code_body :: "methodbuilder \<Rightarrow> lvRow list \<Rightarrow> emitter" where
  "code_body m rows =
     em_then (em_u2 (mb_maxStack m))
     (em_then (em_u2 (mb_maxLocals m))
     (em_then (\<lambda>w p. (w_u4 (word_of_nat (length (mb_code m))) w, p))
     (em_then (em_raw (mb_code m))
     (em_then (em_table em_handler (mb_handlers m))
     (em_then (em_u2 (bool_count [mb_lines m \<noteq> [], rows \<noteq> []]))
     (em_then (em_when (mb_lines m \<noteq> []) (em_attr ''LineNumberTable'' (em_table em_line (mb_lines m))))
       (em_when (rows \<noteq> []) (em_attr ''LocalVariableTable'' (em_table em_row rows)))))))))"

definition code_attribute :: "methodbuilder \<Rightarrow> emitter" where
  "code_attribute m w p = (case lv_rows (mb_locals m) p of (rows, p1) \<Rightarrow> em_attr ''Code'' (code_body m rows) w p1)"

fun intern_classes :: "string list \<Rightarrow> u16 list pb_op" where
  "intern_classes [] p = ([], p)"
| "intern_classes (s # ss) p =
     (case pb_Class s p of (i, p1) \<Rightarrow> case intern_classes ss p1 of (is, p2) \<Rightarrow> (i # is, p2))"

definition exceptions_attribute :: "string list \<Rightarrow> emitter" where
  "exceptions_attribute es w p =
     (case intern_classes es p of (idx, p1) \<Rightarrow> em_attr ''Exceptions'' (em_table em_u2 idx) w p1)"

definition method_attrs :: "methodbuilder \<Rightarrow> emitter" where
  "method_attrs m =
     em_then (em_u2 (bool_count [mb_hasCode m, mb_exceptions m \<noteq> [], mb_signature m \<noteq> []]))
     (em_then (em_when (mb_hasCode m) (code_attribute m))
     (em_then (em_when (mb_exceptions m \<noteq> []) (exceptions_attribute (mb_exceptions m)))
       (em_when (mb_signature m \<noteq> []) (em_utf8_attr ''Signature'' (mb_signature m)))))"

text \<open>The guards of \<open>emitMethod\<close>, which fail the builder and write nothing.\<close>

definition method_refused :: "methodbuilder \<Rightarrow> class_build_error option" where
  "method_refused m =
     (if mb_hasCode m \<and> (Has (mb_flags m) AccAbstract \<or> Has (mb_flags m) AccNative) then Some (BodyNotAllowed (mb_name m))
      else if \<not> mb_hasCode m \<and> \<not> Has (mb_flags m) AccAbstract \<and> \<not> Has (mb_flags m) AccNative then Some (BodyMissing (mb_name m))
      else None)"

definition emitMethod :: "methodbuilder \<Rightarrow> bwriter \<Rightarrow> builder \<Rightarrow> bwriter \<times> builder" where
  "emitMethod m w b =
     (case method_refused m of
        Some e \<Rightarrow> (w, bd_fail e b)
      | None \<Rightarrow>
          case em_then (em_u2 (mb_flags m))
            (em_then (em_ref (pb_UTF8 (mb_name m)))
            (em_then (em_ref (pb_UTF8 (mb_descriptor m)))
              (em_scratch (method_attrs m)))) w (bd_pool b) of
            (w1, p1) \<Rightarrow> (w1, b\<lparr>bd_pool := p1\<rparr>))"

fun emitMethods :: "methodbuilder list \<Rightarrow> bwriter \<Rightarrow> builder \<Rightarrow> bwriter \<times> builder" where
  "emitMethods [] w b = (w, b)"
| "emitMethods (m # ms) w b = (case emitMethod m w b of (w1, b1) \<Rightarrow> emitMethods ms w1 b1)"

definition class_attrs :: "string \<Rightarrow> emitter" where
  "class_attrs sf =
     em_then (em_u2 (bool_count [sf \<noteq> []]))
       (em_when (sf \<noteq> []) (\<lambda>w p. case pb_UTF8 ''SourceFile'' p of (nameIdx, p1) \<Rightarrow>
          case pb_UTF8 sf p1 of (valIdx, p2) \<Rightarrow> w_attr nameIdx (em_u2 valIdx) w p2))"

text \<open>The superclass index: 0 for \<open>java/lang/Object\<close> alone.\<close>

definition super_index :: "builder \<Rightarrow> class_build_error + u16 \<times> builder" where
  "super_index b =
     (if bd_super b \<noteq> [] then Inr (bd_intern (pb_Class (bd_super b)) b)
      else if bd_name b \<noteq> ''java/lang/Object'' then Inl (NoSuperclass (bd_name b))
      else Inr (0, b))"

definition file_bytes :: "builder \<Rightarrow> u16 \<Rightarrow> u16 \<Rightarrow> u16 list \<Rightarrow> bytes \<Rightarrow> bytes \<Rightarrow> bytes \<Rightarrow> bytes" where
  "file_bytes b thisIdx superIdx ifaceIdx fieldBytes methodBytes attrs =
     (let w1 = w_u2 (vMajor (bd_version b)) (w_u2 (vMinor (bd_version b)) (w_u4 Magic []));
          w2 = emit (bd_pool b) w1;
          w3 = w_u2 (word_of_nat (length ifaceIdx)) (w_u2 superIdx (w_u2 thisIdx (w_u2 (bd_flags b) w2)));
          w4 = fold w_u2 ifaceIdx w3 in
      w_raw attrs (w_raw methodBytes (w_raw fieldBytes w4)))"

definition builder_Bytes :: "builder \<Rightarrow> (class_build_error + bytes) \<times> builder" where
  "builder_Bytes b =
     (case bd_err b of
        Some e \<Rightarrow> (Inl e, b)
      | None \<Rightarrow>
        (case bd_intern (pb_Class (bd_name b)) b of (thisIdx, b1) \<Rightarrow>
         case super_index b1 of
           Inl e \<Rightarrow> (Inl e, b1)
         | Inr (superIdx, b2) \<Rightarrow>
           (case intern_classes (bd_ifaces b2) (bd_pool b2) of (ifaceIdx, p3) \<Rightarrow>
            case em_table emitField (bd_fields b2) [] p3 of (fieldBytes, p4) \<Rightarrow>
            case emitMethods (bd_methods b2) (w_u2 (word_of_nat (length (bd_methods b2))) []) (b2\<lparr>bd_pool := p4\<rparr>) of (methodBytes, b5) \<Rightarrow>
            case class_attrs (bd_sourceFile b5) [] (bd_pool b5) of (attrs, p6) \<Rightarrow>
            let b6 = b5\<lparr>bd_pool := p6\<rparr> in
            case pb_err p6 of
              Some e \<Rightarrow> (Inl (PoolError e), b6)
            | None \<Rightarrow>
              (case bd_err b6 of
                 Some e \<Rightarrow> (Inl e, b6)
               | None \<Rightarrow> (Inr (file_bytes b6 thisIdx superIdx ifaceIdx fieldBytes methodBytes attrs), b6)))))"

section \<open>Sequences of builder calls\<close>

text \<open>The calls a client makes on a builder, in any order; fields and methods are named by their
  position, as the API names them by the pointers it returned.\<close>

datatype build_op =
    BSetVersion version
  | BSetFlags flags
  | BSetSuper string
  | BAddInterface string
  | BSetSourceFile string
  | BPool pool_req
  | BField flags string string
  | BConstantInt nat u32
  | BConstantLong nat u64
  | BConstantFloat nat u32
  | BConstantDouble nat u64
  | BConstantString nat string
  | BFieldSignature nat string
  | BMethod flags string string
  | BThrows nat string
  | BMethodSignature nat string
  | BCode nat "code_op list"

fun build_step :: "build_op \<Rightarrow> builder \<Rightarrow> builder" where
  "build_step (BSetVersion v) b = SetVersion v b"
| "build_step (BSetFlags f) b = SetFlags f b"
| "build_step (BSetSuper s) b = SetSuper s b"
| "build_step (BAddInterface s) b = AddInterface s b"
| "build_step (BSetSourceFile s) b = SetSourceFile s b"
| "build_step (BPool r) b = snd (bd_intern (request r) b)"
| "build_step (BField fl n d) b = snd (bd_Field fl n d b)"
| "build_step (BConstantInt f v) b = ConstantInt f v b"
| "build_step (BConstantLong f v) b = ConstantLong f v b"
| "build_step (BConstantFloat f v) b = ConstantFloat f v b"
| "build_step (BConstantDouble f v) b = ConstantDouble f v b"
| "build_step (BConstantString f v) b = ConstantString f v b"
| "build_step (BFieldSignature f s) b = fb_Signature f s b"
| "build_step (BMethod fl n d) b = snd (bd_Method fl n d b)"
| "build_step (BThrows m s) b = Throws m s b"
| "build_step (BMethodSignature m s) b = mb_Signature m s b"
| "build_step (BCode m ops) b = mb_Code m ops b"

definition build :: "build_op list \<Rightarrow> builder \<Rightarrow> builder" where
  "build ops b = fold build_step ops b"

end
