(* ===== verification/BuildCode.thy ===== *)
theory BuildCode
  imports Builder
begin

unbundle bit_operations_syntax

text \<open>
  What \<open>MethodBuilder.Code\<close> guarantees: a body it accepts has become a code array that the iterator reads
  without error, in which every branch and switch goes to its label; and replaying the body settles the
  branch widths, one more branch being widened by every pass that has to be repeated.
\<close>

section \<open>The first writer\<close>

lemma code_start_inv: "code_inv (code_start p ret ver W n args) []"
  by (simp add: code_inv_def code_start_def pcs_def)

lemma code_start_counters: "0 \<le> args \<Longrightarrow> args \<le> MaxLocals \<Longrightarrow> counters_ok (code_start p ret ver W n args)"
  by (simp add: counters_ok_def code_start_def MaxStack_def)

lemma code_start_simps [simp]:
  "cw_p (code_start p ret ver W n args) = p" "cw_widen (code_start p ret ver W n args) = W"
  "cw_branches (code_start p ret ver W n args) = []" "cw_err (code_start p ret ver W n args) = None"
  by (simp_all add: code_start_def)

section \<open>The end of \<open>Code\<close>\<close>

lemma upd_method_simps [simp]:
  "bd_err (upd_method m g b) = bd_err b" "length (bd_methods (upd_method m g b)) = length (bd_methods b)"
  "bd_pool (upd_method m g b) = bd_pool b" "bd_version (upd_method m g b) = bd_version b" "bd_fields (upd_method m g b) = bd_fields b"
  "m < length (bd_methods b) \<Longrightarrow> bd_methods (upd_method m g b) ! m = g (bd_methods b ! m)"
  "bd_name (upd_method m g b) = bd_name b" "bd_super (upd_method m g b) = bd_super b"
  by (simp_all add: upd_method_def)

lemma bd_fail_err [simp]: "bd_err (bd_fail e b) = None \<longleftrightarrow> False"
  by (simp add: bd_fail_def)

lemma bd_intern_frame:
  "bd_intern f b = (i, b1) \<Longrightarrow> bd_methods b1 = bd_methods b \<and> bd_err b1 = bd_err b \<and> bd_fields b1 = bd_fields b \<and> bd_version b1 = bd_version b"
  by (auto simp: bd_intern_def split: prod.splits)

lemma encode_handlers_keep:
  assumes "m < length (bd_methods b)"
  shows "bd_err (fold (encode_handler m c) hs b) = bd_err b \<and>
    length (bd_methods (fold (encode_handler m c) hs b)) = length (bd_methods b) \<and>
    (\<exists>es. bd_methods (fold (encode_handler m c) hs b) ! m = (bd_methods b ! m)\<lparr>mb_handlers := mb_handlers (bd_methods b ! m) @ es\<rparr> \<and>
      map (\<lambda>e. (eh_start e, eh_end e, eh_handler e)) es =
        map (\<lambda>h. (word_of_int (lb_pc (lbl c (hr_start h))), word_of_int (lb_pc (lbl c (hr_end h))), word_of_int (lb_pc (lbl c (hr_handler h))))) hs)"
  using assms
proof (induction hs arbitrary: b)
  case Nil
  then show ?case by simp
next
  case (Cons h hs)
  obtain ct b1 where i: "(if hr_catchType h \<noteq> [] then bd_intern (pb_Class (hr_catchType h)) b else (0, b)) = (ct, b1)" by fastforce
  have m: "bd_methods b1 = bd_methods b" "bd_err b1 = bd_err b" using i bd_intern_frame by (auto split: if_splits)
  let ?e = "\<lparr>eh_start = word_of_int (lb_pc (lbl c (hr_start h))), eh_end = word_of_int (lb_pc (lbl c (hr_end h))),
            eh_handler = word_of_int (lb_pc (lbl c (hr_handler h))), eh_catchType = ct\<rparr>"
  let ?b = "upd_method m (\<lambda>mb. mb\<lparr>mb_handlers := mb_handlers mb @ [?e]\<rparr>) b1"
  have e: "encode_handler m c h b = ?b" by (simp add: encode_handler_def i del: if_split)
  have l: "m < length (bd_methods ?b)" using Cons.prems m by simp
  obtain es where "bd_methods (fold (encode_handler m c) hs ?b) ! m = (bd_methods ?b ! m)\<lparr>mb_handlers := mb_handlers (bd_methods ?b ! m) @ es\<rparr>"
    "map (\<lambda>e. (eh_start e, eh_end e, eh_handler e)) es =
      map (\<lambda>h. (word_of_int (lb_pc (lbl c (hr_start h))), word_of_int (lb_pc (lbl c (hr_end h))), word_of_int (lb_pc (lbl c (hr_handler h))))) hs"
    using Cons.IH [OF l] by blast
  then have "\<exists>es. bd_methods (fold (encode_handler m c) hs ?b) ! m = (bd_methods b ! m)\<lparr>mb_handlers := mb_handlers (bd_methods b ! m) @ es\<rparr> \<and>
      map (\<lambda>e. (eh_start e, eh_end e, eh_handler e)) es =
        map (\<lambda>h. (word_of_int (lb_pc (lbl c (hr_start h))), word_of_int (lb_pc (lbl c (hr_end h))), word_of_int (lb_pc (lbl c (hr_handler h))))) (h # hs)"
    using Cons.prems m by (intro exI [of _ "?e # es"]) simp
  then show ?case using Cons.IH [OF l] m by (simp add: e)
qed

lemma code_finish_ok:
  assumes "m < length (bd_methods b)" and "bd_err b = None" and "bd_err (code_finish m c b) = None"
  defines "mb \<equiv> bd_methods (code_finish m c b) ! m"
  shows "cw_err c = None" and "mb_code mb = cw_w c" and "cw_w c \<noteq> []" and "length (cw_w c) \<le> MaxCodeLength"
    and "mb_maxStack mb = word_of_int (cw_maxStack c)" and "mb_maxLocals mb = word_of_int (cw_maxLocals c)"
    and "cw_maxStack c \<le> MaxStack" and "cw_maxLocals c \<le> MaxLocals" and "mb_hasCode mb"
    and "length (bd_methods (code_finish m c b)) = length (bd_methods b)"
proof -
  obtain rows c1 where r: "localRows c = (rows, c1)" by fastforce
  let ?g = "\<lambda>mb. mb\<lparr>mb_code := cw_w c, mb_maxStack := word_of_int (cw_maxStack c),
                 mb_maxLocals := word_of_int (cw_maxLocals c), mb_lines := cw_lines c, mb_locals := rows, mb_hasCode := True\<rparr>"
  have all: "cw_err c = None" "cw_w c \<noteq> []" "\<not> length (cw_w c) > MaxCodeLength" "\<not> (cw_maxStack c > MaxStack \<or> cw_maxLocals c > MaxLocals)"
    "cw_err c1 = None"
    using assms(3) r by (auto simp: code_finish_def Let_def split: option.splits if_splits prod.splits)
  have f: "code_finish m c b = fold (encode_handler m c1) (cw_handlers c1) (upd_method m ?g b)"
    using all r by (simp add: code_finish_def Let_def)
  have l: "m < length (bd_methods (upd_method m ?g b))" using assms(1) by simp
  obtain es where "mb = (bd_methods (upd_method m ?g b) ! m)\<lparr>mb_handlers := mb_handlers (bd_methods (upd_method m ?g b) ! m) @ es\<rparr>"
    using encode_handlers_keep [OF l] unfolding mb_def f by blast
  then have mb: "mb = (?g (bd_methods b ! m))\<lparr>mb_handlers := mb_handlers (bd_methods b ! m) @ es\<rparr>" using assms(1) by simp
  show "cw_err c = None" "cw_w c \<noteq> []" "length (cw_w c) \<le> MaxCodeLength" "cw_maxStack c \<le> MaxStack" "cw_maxLocals c \<le> MaxLocals"
    using all by simp_all
  show "mb_code mb = cw_w c" "mb_maxStack mb = word_of_int (cw_maxStack c)" "mb_maxLocals mb = word_of_int (cw_maxLocals c)" "mb_hasCode mb"
    using mb by simp_all
  show "length (bd_methods (code_finish m c b)) = length (bd_methods b)" unfolding f using encode_handlers_keep [OF l] by simp
qed

section \<open>No label is left at the end\<close>

text \<open>A label marks reachable code, so once the end of a body cannot be reached every placed label lies
  before some instruction.\<close>

definition labels_inside :: "codewriter \<Rightarrow> bool" where
  "labels_inside c \<longleftrightarrow> cw_reachable c \<or> (\<forall>p \<in> set (pcs c). p < int (length (cw_w c)))"

definition terminator :: "code_op \<Rightarrow> bool" where
  "terminator k \<longleftrightarrow> (case k of DoGoto _ \<Rightarrow> True | DoTableSwitch _ _ _ _ \<Rightarrow> True | DoLookupSwitch _ _ _ \<Rightarrow> True | DoOp _ \<Rightarrow> True
     | DoReturn \<Rightarrow> True | DoThrow \<Rightarrow> True | _ \<Rightarrow> False)"

lemma localOp_reach [simp]: "cw_reachable (localOp g k s w c) = cw_reachable c" "pcs (localOp g k s w c) = pcs c"
  by (simp_all add: localOp_def Let_def cw_frame)

lemma intern_reach [simp]: "cw_reachable (snd (cw_intern f c)) = cw_reachable c" "pcs (snd (cw_intern f c)) = pcs c"
  by (simp_all add: cw_intern_def pcs_def split: prod.splits)

lemma ldc_of_reach [simp]: "cw_reachable (cw_ldc_of f w c) = cw_reachable c" "pcs (cw_ldc_of f w c) = pcs c"
proof -
  have "cw_ldc_of f w c = cw_ldc (fst (cw_intern f c)) w (snd (cw_intern f c))" by (simp add: cw_ldc_of_def split: prod.splits)
  then show "cw_reachable (cw_ldc_of f w c) = cw_reachable c" "pcs (cw_ldc_of f w c) = pcs c"
    by (simp_all add: cw_ldc_def cw_frame)
qed

lemma branch_reach [simp]: "cw_reachable (cw_branch o' l n c) = cw_reachable c" "pcs (cw_branch o' l n c) = pcs c"
  by (simp_all add: cw_branch_emits emit_branch_def branch_code_def cw_frame pcs_def) (simp_all add: cw_frame flip: pcs_def)

lemma op_keeps_labels:
  assumes "\<not> terminator k" and "\<And>l. k \<noteq> DoMark l"
  shows "cw_reachable (run_op k c) = cw_reachable c" and "set (pcs (run_op k c)) \<subseteq> insert (- 1) (set (pcs c))"
proof -
  have t: "pcs (c\<lparr>cw_handlers := x\<rparr>) = pcs c" "pcs (c\<lparr>cw_maxStack := y\<rparr>) = pcs c"
    "pcs (c\<lparr>cw_lines := ls\<rparr>) = pcs c" "pcs (c\<lparr>cw_locals := vs\<rparr>) = pcs c" "pcs (snd (NewLabel c)) = pcs c @ [- 1]"
    for c :: codewriter and x y ls vs by (simp_all add: pcs_def NewLabel_def)
  have n: "cw_reachable (snd (NewLabel c)) = cw_reachable c" by (simp add: NewLabel_def)
  have "cw_reachable (run_op k c) = cw_reachable c \<and> set (pcs (run_op k c)) \<subseteq> insert (- 1) (set (pcs c))"
  proof (cases k)
    case (DoLoad lt slot)
    then show ?thesis by (cases lt) (auto simp: cw_Aload_def cw_Iload_def cw_Fload_def cw_Lload_def cw_Dload_def cw_load_def cw_frame)
  next
    case (DoStore lt slot)
    then show ?thesis by (cases lt) (auto simp: cw_Astore_def cw_Istore_def cw_Fstore_def cw_Lstore_def cw_Dstore_def cw_store_def cw_frame)
  next
    case (DoField a own n d)
    then show ?thesis
      by (cases a) (auto simp: cw_GetStatic_def cw_PutStatic_def cw_GetField_def cw_PutField_def cw_field_def Let_def cw_frame split: sum.splits)
  next
    case (DoInvoke a own n d)
    then show ?thesis
      by (cases a) (auto simp: cw_InvokeVirtual_def cw_InvokeSpecial_def cw_InvokeStatic_def cw_InvokeInterface_def cw_invoke_def Let_def
          cw_frame split: sum.splits option.splits)
  next
    case (DoIf a l)
    then show ?thesis by (cases a) (auto simp: if_defs)
  next
    case (DoTryCatch s e h ct)
    then show ?thesis by (auto simp: cw_TryCatch_def Let_def cw_frame t)
  qed (use assms in \<open>auto simp: terminator_def n t cw_Iinc_def cw_Local_def cw_Iconst_def cw_Lconst_def cw_Fconst_def cw_Dconst_def
      cw_Sconst_def cw_Cconst_def cw_AconstNull_def cw_New_def cw_ANewArray_def cw_NewArray_def cw_MultiANewArray_def cw_CheckCast_def
      cw_InstanceOf_def cw_Line_def Let_def cw_frame split: sum.splits\<close>)
  then show "cw_reachable (run_op k c) = cw_reachable c" "set (pcs (run_op k c)) \<subseteq> insert (- 1) (set (pcs c))" by simp_all
qed

lemma emit_switch_grows:
  assumes "writes n g" and "cw_err (emit_switch o' hs g def ts c) = None"
  shows "length (cw_w c) < length (cw_w (emit_switch o' hs g def ts c))" and "pcs (emit_switch o' hs g def ts c) = pcs c"
proof -
  let ?p = "code_pad (length (cw_w c))"
  have w: "writes (?p + 4 * length hs + n) (\<lambda>c. g (fold cw_u4 hs (emit_pad ?p c)))"
    by (rule writes_comp [OF writes_comp [OF writes_pad writes_header] assms(1)])
  note f = writes_frame [OF w, of "emitOp o' c"]
  obtain raw where raw: "cw_w (g (fold cw_u4 hs (emit_pad ?p (emitOp o' c)))) = cw_w (emitOp o' c) @ raw"
    using writes_raw [OF w, of "emitOp o' c"] by blast
  have "cw_reachable c" using assms(2) f by (simp add: emit_switch_def Let_def cw_frame)
  then show "length (cw_w c) < length (cw_w (emit_switch o' hs g def ts c))"
    using raw by (simp add: emit_switch_def Let_def cw_frame)
  have u: "pcs (x\<lparr>cw_switches := y\<rparr>) = pcs x" for x y by (simp add: pcs_def)
  show "pcs (emit_switch o' hs g def ts c) = pcs c" using f by (simp add: emit_switch_def Let_def cw_frame u)
qed

lemma fold_notes_pcs: "pcs (fold noteDepth ls c) = pcs c"
  by (induction ls arbitrary: c) (simp_all add: cw_frame)

lemma switch_grows:
  assumes "writes n g" and "cw_err (cw_terminate (emit_switch o' hs g def ts (fold noteDepth ts (noteDepth def (cw_pop 1 c))))) = None"
  shows "length (cw_w c) < length (cw_w (cw_terminate (emit_switch o' hs g def ts (fold noteDepth ts (noteDepth def (cw_pop 1 c)))))) \<and>
    pcs (cw_terminate (emit_switch o' hs g def ts (fold noteDepth ts (noteDepth def (cw_pop 1 c))))) = pcs c"
  using emit_switch_grows [OF assms(1), of o' hs def ts "fold noteDepth ts (noteDepth def (cw_pop 1 c))"] assms(2)
  by (simp add: cw_frame fold_notes_frame fold_notes_pcs)

lemma Op_grows: "cw_err (cw_Op o' c) = None \<Longrightarrow> length (cw_w c) < length (cw_w (cw_Op o' c)) \<and> pcs (cw_Op o' c) = pcs c"
  by (auto simp: cw_Op_def Let_def cw_frame cw_fail_def split: if_splits)

lemma Return_is_Op: "cw_err (cw_Return c) = None \<Longrightarrow> \<exists>o'. cw_Return c = cw_Op o' c"
  by (auto simp: cw_Return_def cw_fail_def split: if_splits kind.splits)

lemma terminator_grows:
  assumes "terminator k" and "cw_err (run_op k c) = None"
  shows "length (cw_w c) < length (cw_w (run_op k c)) \<and> pcs (run_op k c) = pcs c"
proof -
  have fail: "cw_err (cw_fail e x) = None \<longleftrightarrow> False" for e x by (simp add: cw_fail_def)
  show ?thesis
  proof (cases k)
    case (DoGoto l)
    let ?c = "noteDepth l (cw_pop 0 c)"
    have e: "cw_err (branch_code Goto ?c) = None" using assms(2) DoGoto by (simp add: cw_Goto_def cw_branch_emits emit_branch_def cw_frame)
    then have "length (cw_w ?c) + 3 \<le> length (cw_w (branch_code Goto ?c))" using branch_code_frame(5,8) by blast
    moreover have "pcs (run_op k c) = pcs c" using DoGoto by (simp add: cw_Goto_def cw_frame)
    ultimately show ?thesis using DoGoto by (simp add: cw_Goto_def cw_frame cw_branch_emits emit_branch_def)
  next
    case (DoTableSwitch low high d ts)
    then show ?thesis using assms(2) switch_grows [OF writes_words] by (simp add: TableSwitch_emits fail split: if_splits)
  next
    case (DoLookupSwitch d ms ts)
    then show ?thesis using assms(2) switch_grows [OF writes_pairs] by (simp add: LookupSwitch_emits fail split: if_splits option.splits)
  next
    case DoReturn
    then show ?thesis using assms(2) Return_is_Op [of c] Op_grows [of _ c] by (metis run_op.simps(24))
  qed (use assms Op_grows in \<open>simp_all add: terminator_def cw_Throw_def\<close>)
qed

lemma Mark_reaches: "cw_err (Mark l c) = None \<Longrightarrow> cw_reachable (Mark l c)"
  by (auto simp: Mark_def Let_def cw_fail_def split: if_splits)

lemma placed_at:
  assumes "code_inv c is" and "p \<in> set (pcs c)" and "0 \<le> p"
  shows "\<exists>k \<le> length is. nat p = instr_off is k"
  using assms by (auto simp: code_inv_def list_all_iff placed_ok_def boundary_def)

lemma placed_le:
  assumes "code_inv c is" and "p \<in> set (pcs c)"
  shows "p \<le> int (length (cw_w c))"
proof (cases "0 \<le> p")
  case True
  obtain k where "nat p = instr_off is k" using placed_at [OF assms True] by blast
  then have "nat p \<le> length (cw_w c)" using instr_off_le [of k "is"] assms(1) by (simp add: code_inv_def)
  then show ?thesis using True by simp
qed simp

lemma inside_op:
  assumes "cw_err (run_op k c) = None" and "code_inv c is" and "labels_inside c"
  shows "labels_inside (run_op k c)"
proof (cases "cw_reachable (run_op k c)")
  case False
  have mark: "\<And>l. k \<noteq> DoMark l" using Mark_reaches [of _ c] assms(1) False by auto
  have "p < int (length (cw_w (run_op k c)))" if "p \<in> set (pcs (run_op k c))" for p
  proof (cases "terminator k")
    case True
    then show ?thesis using terminator_grows [OF True assms(1)] placed_le [OF assms(2), of p] that by simp
  next
    case F: False
    then have r: "\<not> cw_reachable c" "set (pcs (run_op k c)) \<subseteq> insert (- 1) (set (pcs c))"
      using op_keeps_labels [OF F mark] False by auto
    then have "p = - 1 \<or> p < int (length (cw_w c))" using that assms(3) by (auto simp: labels_inside_def)
    then show ?thesis using call.extends [of c k] by auto
  qed
  then show ?thesis by (simp add: labels_inside_def)
qed (simp add: labels_inside_def)

lemma inside_body:
  "cw_err (run_body ops c) = None \<Longrightarrow> length (cw_w (run_body ops c)) < 2 ^ 32 \<Longrightarrow> code_inv c is \<Longrightarrow> labels_inside c \<Longrightarrow>
    labels_inside (run_body ops c)"
proof (induction ops arbitrary: c "is")
  case Nil
  then show ?case by (simp add: run_body_def)
next
  case (Cons k ops)
  have r: "run_body (k # ops) c = run_body ops (run_op k c)" by (simp add: run_body_def)
  have e: "cw_err (run_op k c) = None" using Cons.prems(1) body.err_before [of ops "run_op k c"] by (simp add: r)
  have l: "length (cw_w (run_op k c)) < 2 ^ 32" using Cons.prems(2) body.extends [of "run_op k c" ops] by (simp add: r)
  obtain js where "code_inv (run_op k c) (is @ js)" using call.layout [OF e l Cons.prems(3)] by blast
  then show ?case using Cons.IH [OF _ _ _ inside_op [OF e Cons.prems(3,4)]] Cons.prems(1,2) by (simp add: r)
qed

text \<open>A placed label of a finished body is the offset of an instruction.\<close>

definition starts :: "instr list \<Rightarrow> int \<Rightarrow> bool" where
  "starts is p \<longleftrightarrow> 0 \<le> p \<and> (\<exists>k < length is. instr_off is k = nat p)"

lemma label_starts:
  assumes "code_inv c is" and "labels_inside c" and "\<not> cw_reachable c" and "0 \<le> lb_pc (lbl c l)" and "same_shape is js"
  shows "starts js (lb_pc (lbl c l))"
proof -
  have l: "l < length (cw_labels c)" using assms(4) by (auto simp: lbl_def split: if_splits)
  then have p: "lb_pc (lbl c l) \<in> set (pcs c)" by (simp add: pcs_def lbl_def)
  obtain k where k: "k \<le> length is" "nat (lb_pc (lbl c l)) = instr_off is k" using placed_at [OF assms(1) p assms(4)] by blast
  have "lb_pc (lbl c l) < int (length (cw_w c))" using assms(2,3) p by (simp add: labels_inside_def)
  then have "instr_off is k < length (code_bytes is)" using k(2) assms(1,4) by (simp add: code_inv_def)
  then have "k \<noteq> length is" by auto
  then show ?thesis using k assms(4) same_shape_off [OF assms(5)] list_all2_lengthD [OF assms(5)] unfolding starts_def
    by (intro conjI exI [of _ k]) simp_all
qed

section \<open>The replay loop\<close>

lemma code_loop_ok:
  assumes "bd_err (code_loop body m sig receiver W n b) = None"
  shows "\<exists>p W' n' c c1 p'. n' < maxReplays \<and>
    c = run_body body (code_start p (mRet sig) (bd_version b) W' n' (int (ArgSlots sig receiver))) \<and>
    cw_err c = None \<and> \<not> cw_reachable c \<and> resolve c = (False, c1) \<and>
    code_loop body m sig receiver W n b = code_finish m c1 (b\<lparr>bd_pool := p'\<rparr>)"
  using assms
proof (induction "maxReplays - n" arbitrary: W n b rule: less_induct)
  case less
  let ?c = "run_body body (code_start (bd_pool b) (mRet sig) (bd_version b) W n (int (ArgSlots sig receiver)))"
  let ?b = "b\<lparr>bd_pool := cw_p ?c\<rparr>"
  obtain again c1 where r: "resolve ?c = (again, c1)" by fastforce
  have ok: "n < maxReplays" "cw_err ?c = None" "\<not> cw_reachable ?c"
    using less.prems by (auto simp: code_loop.simps [of body m sig receiver W n b] Let_def split: if_splits option.splits)
  have step: "code_loop body m sig receiver W n b =
      (if again then code_loop body m sig receiver (cw_widen c1) (n + 1) ?b else code_finish m c1 ?b)"
    using ok r by (simp add: code_loop.simps [of body m sig receiver W n b] Let_def)
  show ?case
  proof (cases again)
    case True
    have "bd_err (code_loop body m sig receiver (cw_widen c1) (n + 1) ?b) = None" using less.prems step True by simp
    have lt: "maxReplays - (n + 1) < maxReplays - n" using ok(1) by simp
    from less.hyps [OF lt \<open>bd_err (code_loop body m sig receiver (cw_widen c1) (n + 1) ?b) = None\<close>]
    obtain p W' n' c c1' p' where "n' < maxReplays"
      "c = run_body body (code_start p (mRet sig) (bd_version ?b) W' n' (int (ArgSlots sig receiver)))"
      "cw_err c = None" "\<not> cw_reachable c" "resolve c = (False, c1')"
      "code_loop body m sig receiver (cw_widen c1) (n + 1) ?b = code_finish m c1' (?b\<lparr>bd_pool := p'\<rparr>)" by blast
    then show ?thesis using step True by (intro exI [of _ p] exI [of _ W'] exI [of _ n'] exI [of _ c] exI [of _ c1'] exI [of _ p']) simp
  next
    case False
    then show ?thesis using step ok r
      by (intro exI [of _ "bd_pool b"] exI [of _ W] exI [of _ n] exI [of _ ?c] exI [of _ c1] exI [of _ "cw_p ?c"]) simp
  qed
qed

lemma body_finished:
  assumes "c = run_body body (code_start p ret ver W n args)" and "0 \<le> args" and "args \<le> MaxLocals"
    and "cw_err c = None" and "\<not> cw_reachable c" and "length (cw_w c) < 2 ^ 32"
  shows "\<exists>is. code_inv c is \<and> counters_ok c \<and> labels_inside c"
proof -
  obtain js where js: "code_inv c ([] @ js)" using body.layout [OF _ _ code_start_inv] assms(1,4,6) by blast
  have "counters_ok c" using body.counters [OF _ code_start_counters [OF assms(2,3)]] assms(1,4) by blast
  moreover have "labels_inside c"
    using inside_body [OF _ _ code_start_inv] assms(1,4,6) by (simp add: labels_inside_def code_start_def)
  ultimately show ?thesis using js by auto
qed

lemma Code_ok:
  assumes "bd_err (mb_Code m body b) = None" and "bd_err b = None"
  shows "\<exists>sig. ParseMethod (mb_descriptor (bd_methods b ! m)) = Inr sig \<and>
    CheckArgSlots sig (\<not> Has (mb_flags (bd_methods b ! m)) AccStatic) = None \<and>
    mb_Code m body b = code_loop body m sig (\<not> Has (mb_flags (bd_methods b ! m)) AccStatic) {} 0 b"
  using assms by (auto simp: mb_Code_def Let_def split: sum.splits option.splits)

lemma args_fit: "CheckArgSlots sig r = None \<Longrightarrow> int (ArgSlots sig r) \<le> MaxLocals"
  by (auto simp: CheckArgSlots_def MaxArgSlots_def MaxLocals_def Let_def split: if_splits)

lemma u2_exact: "0 \<le> x \<Longrightarrow> x \<le> 65535 \<Longrightarrow> uint (word_of_int x :: u16) = x"
  by (simp add: unsigned_of_int take_bit_int_eq_self)

lemma resolve_length:
  assumes "code_inv c is0" and "resolve c = (False, c1)" and "cw_err c1 = None"
  shows "length (cw_w c) = length (cw_w c1) \<and> cw_maxStack c1 = cw_maxStack c \<and> cw_maxLocals c1 = cw_maxLocals c"
proof -
  obtain "is" where r: "same_shape is0 is" "c1 = c\<lparr>cw_w := code_bytes is\<rparr>" using resolve_done [OF assms] by blast
  have "length (code_bytes is) = length (code_bytes is0)" using same_shape_off [OF r(1), of "length is"] list_all2_lengthD [OF r(1)] by simp
  then show ?thesis using r(2) assms(1) by (simp add: code_inv_def)
qed

lemma resolve_bytes: "length (cw_w (snd (resolve c))) = length (cw_w c)"
proof -
  have t: "length (cw_w (snd (resolve_targets s i ts x))) = length (cw_w x)" for s i ts x
    by (induction s i ts x rule: resolve_targets.induct) (simp_all add: Let_def cw_frame cw_patchU4_def)
  have s: "length (cw_w (resolve_switches ss x)) = length (cw_w x)" for ss x
  proof (induction ss arbitrary: x)
    case (Cons a ss)
    let ?y = "cw_patchU4 (sw_at a + 1 + sw_pad a) (word_of_int (lb_pc (lbl x (sw_def a)) - int (sw_at a))) x"
    obtain ok z where r: "resolve_targets a 0 (sw_targets a) ?y = (ok, z)" by fastforce
    have z: "length (cw_w z) = length (cw_w x)" using t [of a 0 "sw_targets a" ?y] r by (simp add: cw_patchU4_def)
    have "resolve_switches (a # ss) x = (if lb_pc (lbl x (sw_def a)) < 0 then cw_fail (SwitchDefault (sw_def a)) x
        else if ok then resolve_switches ss z else z)"
      unfolding resolve_switches.simps Let_def r prod.case ..
    then show ?case using z Cons.IH by (simp add: cw_frame)
  qed simp
  have b: "length (cw_w (snd (resolve_branches bs g x))) = length (cw_w x)" for bs g x
    by (induction bs arbitrary: g x) (simp_all add: Let_def cw_frame resolve_branch_def cw_patchU4_def cw_patchU2_def split: prod.split)
  show ?thesis using b [of "cw_branches c" False c] s by (auto simp: resolve_def split: prod.splits option.splits)
qed

section \<open>Settling the widths\<close>

definition is_branch :: "code_op \<Rightarrow> bool" where
  "is_branch k \<longleftrightarrow> (case k of DoGoto _ \<Rightarrow> True | DoIf _ _ \<Rightarrow> True | _ \<Rightarrow> False)"

text \<open>The branch records are numbered in order and wide exactly when their number is in the set.\<close>

definition numbered :: "codewriter \<Rightarrow> bool" where
  "numbered c \<longleftrightarrow> map br_ord (cw_branches c) = [0 ..< length (cw_branches c)] \<and>
     (\<forall>br \<in> set (cw_branches c). br_wide br \<longleftrightarrow> br_ord br \<in> cw_widen c)"

lemma localOp_branches [simp]: "cw_branches (localOp g k s w c) = cw_branches c"
  by (simp add: localOp_def Let_def cw_frame)

lemma ldc_of_branches [simp]: "cw_branches (cw_ldc_of f w c) = cw_branches c"
proof -
  have "cw_ldc_of f w c = cw_ldc (fst (cw_intern f c)) w (snd (cw_intern f c))" by (simp add: cw_ldc_of_def split: prod.splits)
  moreover have "cw_branches (snd (cw_intern f c)) = cw_branches c" by (simp add: cw_intern_def split: prod.splits)
  ultimately show ?thesis by (simp add: cw_ldc_def cw_frame)
qed

lemma Op_branches [simp]: "cw_branches (cw_Op o' c) = cw_branches c"
  by (simp add: cw_Op_def Let_def cw_frame)

lemma emit_switch_branches: "writes n g \<Longrightarrow> cw_branches (emit_switch o' hs g def ts c) = cw_branches c"
proof -
  assume g: "writes n g"
  have "writes (p + 4 * length hs + n) (\<lambda>c. g (fold cw_u4 hs (emit_pad p c)))" for p
    by (rule writes_comp [OF writes_comp [OF writes_pad writes_header] g])
  from writes_frame [OF this, of _ "emitOp o' c"] show ?thesis by (simp add: emit_switch_def Let_def cw_frame)
qed

lemma fold_notes_branches: "cw_branches (fold noteDepth ls c) = cw_branches c"
  by (induction ls arbitrary: c) (simp_all add: cw_frame)

lemma branch_adds: "cw_branches (cw_branch o' l n c) = cw_branches c @
    [\<lparr>br_ord = length (cw_branches c), br_op = o', br_label = l, br_at = length (cw_w c), br_wide = (length (cw_branches c) \<in> cw_widen c)\<rparr>]"
  by (simp add: cw_branch_emits emit_branch_def cw_frame)

lemma op_branches:
  "if is_branch k then \<exists>o' l. cw_branches (run_op k c) = cw_branches c @
     [\<lparr>br_ord = length (cw_branches c), br_op = o', br_label = l, br_at = length (cw_w c), br_wide = (length (cw_branches c) \<in> cw_widen c)\<rparr>]
   else cw_branches (run_op k c) = cw_branches c"
proof (cases k)
  case (DoLoad lt slot)
  then show ?thesis by (cases lt) (auto simp: is_branch_def cw_Aload_def cw_Iload_def cw_Fload_def cw_Lload_def cw_Dload_def cw_load_def cw_frame)
next
  case (DoStore lt slot)
  then show ?thesis by (cases lt) (auto simp: is_branch_def cw_Astore_def cw_Istore_def cw_Fstore_def cw_Lstore_def cw_Dstore_def cw_store_def cw_frame)
next
  case (DoField a own n d)
  then show ?thesis
    by (cases a) (auto simp: is_branch_def cw_GetStatic_def cw_PutStatic_def cw_GetField_def cw_PutField_def cw_field_def Let_def cw_frame split: sum.splits)
next
  case (DoInvoke a own n d)
  then show ?thesis
    by (cases a) (auto simp: is_branch_def cw_InvokeVirtual_def cw_InvokeSpecial_def cw_InvokeStatic_def cw_InvokeInterface_def cw_invoke_def Let_def
        cw_frame split: sum.splits option.splits)
next
  case (DoIf a l)
  then show ?thesis by (cases a) (auto simp: is_branch_def if_defs branch_adds)
next
  case (DoGoto l)
  then show ?thesis by (auto simp: is_branch_def cw_Goto_def branch_adds cw_frame)
next
  case (DoTableSwitch low high d ts)
  then show ?thesis by (auto simp: is_branch_def TableSwitch_emits emit_switch_branches [OF writes_words] fold_notes_branches cw_frame)
next
  case (DoLookupSwitch d ms ts)
  then show ?thesis
    by (auto simp: is_branch_def LookupSwitch_emits emit_switch_branches [OF writes_pairs] fold_notes_branches cw_frame split: option.splits)
next
  case DoReturn
  then show ?thesis by (auto simp: is_branch_def cw_Return_def cw_frame split: kind.splits)
next
  case (DoMark l)
  then show ?thesis by (auto simp: is_branch_def Mark_def Let_def set_pc_def cw_frame)
qed (auto simp: is_branch_def NewLabel_def cw_Iinc_def cw_Local_def cw_Iconst_def cw_Lconst_def cw_Fconst_def cw_Dconst_def cw_Sconst_def cw_Cconst_def
    cw_AconstNull_def cw_New_def cw_ANewArray_def cw_NewArray_def cw_MultiANewArray_def cw_CheckCast_def cw_InstanceOf_def cw_Throw_def
    cw_TryCatch_def cw_Line_def Let_def cw_frame split: sum.splits)

lemma numbered_op: "numbered c \<Longrightarrow> numbered (run_op k c)"
  using op_branches [of k c] call.keeps_widen [of k c] by (auto simp: numbered_def split: if_splits)

lemma numbered_body: "numbered c \<Longrightarrow> numbered (run_body ops c)"
  by (induction ops arbitrary: c) (simp_all add: run_body_def numbered_op)

lemma body_branch_count: "length (cw_branches (run_body ops c)) = length (cw_branches c) + length (filter is_branch ops)"
proof (induction ops arbitrary: c)
  case (Cons k ops)
  have "length (cw_branches (run_op k c)) = length (cw_branches c) + (if is_branch k then 1 else 0)"
    using op_branches [of k c] by (auto split: if_splits)
  then show ?case using Cons.IH [of "run_op k c"] by (simp add: run_body_def)
qed (simp add: run_body_def)

lemma resolve_branches_widen:
  "resolve_branches brs again c = (Some g, c') \<Longrightarrow>
    cw_widen c \<subseteq> cw_widen c' \<and> cw_widen c' \<subseteq> cw_widen c \<union> br_ord ` {br \<in> set brs. \<not> br_wide br} \<and>
    (g \<longrightarrow> again \<or> (\<exists>br \<in> set brs. \<not> br_wide br \<and> br_ord br \<in> cw_widen c'))"
proof (induction brs arbitrary: again c)
  case (Cons br brs)
  obtain w c1 where r: "resolve_branch br c = (w, c1)" by fastforce
  have rest: "resolve_branches brs (again \<or> w) c1 = (Some g, c')" using Cons.prems r by (auto split: if_splits)
  have "(if w then \<not> br_wide br \<and> cw_widen c1 = insert (br_ord br) (cw_widen c) else cw_widen c1 = cw_widen c)"
    using r by (auto simp: resolve_branch_def Let_def cw_patchU4_def cw_patchU2_def split: if_splits)
  then show ?case using Cons.IH [OF rest] by (auto split: if_splits)
qed simp

lemma resolve_widens:
  assumes "numbered c" and "resolve c = (True, c1)" and "cw_widen c \<subseteq> {..<length (cw_branches c)}"
  shows "cw_widen c \<subset> cw_widen c1 \<and> cw_widen c1 \<subseteq> {..<length (cw_branches c)}"
proof -
  have r: "resolve_branches (cw_branches c) False c = (Some True, c1)"
    using assms(2) by (auto simp: resolve_def split: prod.splits option.splits if_splits)
  have "br_ord br < length (cw_branches c)" if "br \<in> set (cw_branches c)" for br
    using that assms(1) unfolding numbered_def by (metis atLeast0LessThan image_eqI lessThan_iff list.set_map set_upt)
  then show ?thesis using resolve_branches_widen [OF r] assms(1,3) unfolding numbered_def by fastforce
qed

lemma encode_handlers_err: "bd_err (fold (encode_handler m c) hs b) = bd_err b"
proof (induction hs arbitrary: b)
  case (Cons h hs)
  have "bd_err (encode_handler m c h b) = bd_err b"
    by (auto simp: encode_handler_def split: prod.splits if_splits dest: bd_intern_frame)
  then show ?case using Cons.IH by simp
qed simp

lemma code_finish_settled: "bd_err b = None \<Longrightarrow> bd_err (code_finish m c b) \<noteq> Some (NotConverged x)"
  by (auto simp: code_finish_def Let_def bd_fail_def encode_handlers_err split: option.splits if_splits prod.splits)

lemma code_loop_settles:
  assumes "length (filter is_branch body) < maxReplays" and "W \<subseteq> {..<length (filter is_branch body)}" and "n \<le> card W" and "bd_err b = None"
  shows "bd_err (code_loop body m sig receiver W n b) \<noteq> Some (NotConverged x)"
  using assms(2-4)
proof (induction "maxReplays - n" arbitrary: W n b rule: less_induct)
  case less
  let ?c = "run_body body (code_start (bd_pool b) (mRet sig) (bd_version b) W n (int (ArgSlots sig receiver)))"
  let ?b = "b\<lparr>bd_pool := cw_p ?c\<rparr>"
  let ?N = "length (filter is_branch body)"
  obtain again c1 where r: "resolve ?c = (again, c1)" by fastforce
  have fin: "finite W" "card W \<le> ?N" using less.prems(1) finite_subset [of W "{..<?N}"] card_mono [of "{..<?N}" W] by auto
  have n: "n < maxReplays" using less.prems(2) fin(2) assms(1) by simp
  have nb: "numbered ?c" by (rule numbered_body) (simp add: numbered_def code_start_def)
  have cnt: "length (cw_branches ?c) = ?N" using body_branch_count [of body] by simp
  have wd: "cw_widen ?c = W" using body.keeps_widen by simp
  have step: "code_loop body m sig receiver W n b = (case cw_err ?c of
      Some e \<Rightarrow> bd_fail (BodyError (mb_name (bd_methods b ! m)) e) ?b
    | None \<Rightarrow> if cw_reachable ?c then bd_fail (FallsOffEnd (mb_name (bd_methods b ! m))) ?b
        else if again then code_loop body m sig receiver (cw_widen c1) (n + 1) ?b else code_finish m c1 ?b)"
    using n r by (simp add: code_loop.simps [of body m sig receiver W n b] Let_def split: option.split)
  have rep: "bd_err (code_loop body m sig receiver (cw_widen c1) (n + 1) ?b) \<noteq> Some (NotConverged x)" if again
  proof -
    have w: "W \<subset> cw_widen c1" "cw_widen c1 \<subseteq> {..<?N}" using resolve_widens [OF nb] r that less.prems(1) unfolding wd cnt by auto
    have "card W < card (cw_widen c1)" using w psubset_card_mono finite_subset by (metis finite_lessThan)
    then show ?thesis using less.hyps [of "n + 1" "cw_widen c1" ?b] w(2) less.prems(2,3) n by simp
  qed
  show ?case unfolding step using rep less.prems(3) code_finish_settled [of ?b m c1]
    by (auto simp: bd_fail_def split: option.split)
qed

section \<open>Properties\<close>


lemmas cw_eval = run_body_def code_start_def NewLabel_def cw_Iload_def cw_load_def localOp_def useLocal_def emitOp_def cw_push_def cw_pop_def
  cw_u1_def cw_u2_def cw_fail_def cw_IfEq_def cw_branch_def noteDepth_def lbl_def set_depth_def cw_Iconst_def cw_Op_def simpleDelta_def
  delta_groups_def Terminates_def IsReturn_def cw_terminate_def Mark_def set_pc_def cw_Return_def IsRef_def MaxLocals_def MaxStack_def Let_def
  w_u1_def w_u2_def be_u2_def op_Kind_nth kind_list_def resolve_def resolve_branch_def cw_patchU2_def patchU2_def

definition sample_body :: "code_op list" where
  "sample_body = [DoNewLabel, DoLoad LocalI 0, DoIf CondEq 0, DoIconst 1, DoOp Pop, DoMark 0, DoReturn]"

definition sample_builder :: builder where
  "sample_builder = snd (bd_Method AccStatic ''f'' ''(I)V'' (NewBuilder ''A''))"

lemma sample_sig:
  "ParseMethod ''(I)V'' = Inr \<lparr>mParams = [\<lparr>tKind = KInt, tDims = 0, tName = []\<rparr>], mRet = \<lparr>tKind = KVoid, tDims = 0, tName = []\<rparr>\<rparr>"
  by code_simp

lemma sample_methods:
  "bd_err sample_builder = None" "length (bd_methods sample_builder) = 1" "mb_descriptor (bd_methods sample_builder ! 0) = ''(I)V''"
  "mb_flags (bd_methods sample_builder ! 0) = AccStatic" "bd_version sample_builder = \<lparr>vMajor = 49, vMinor = 0\<rparr>"
  by (simp_all add: sample_builder_def bd_Method_def NewBuilder_def sample_sig Let_def)

lemma sample_run: "bd_err (mb_Code 0 sample_body sample_builder) = None"
proof -
  let ?sig = "\<lparr>mParams = [\<lparr>tKind = KInt, tDims = 0, tName = []\<rparr>], mRet = \<lparr>tKind = KVoid, tDims = 0, tName = []\<rparr>\<rparr>"
  have a: "ArgSlots ?sig False = 1" "CheckArgSlots ?sig False = None" by code_simp+
  have h: "Has AccStatic AccStatic" by code_simp
  have "mb_Code 0 sample_body sample_builder = code_loop sample_body 0 ?sig False {} 0 sample_builder"
    by (simp add: mb_Code_def sample_methods sample_sig Let_def a h)
  also have "bd_err \<dots> = None"
    by (subst code_loop.simps) (simp add: maxReplays_def sample_body_def cw_eval a code_finish_def localRows_def MaxCodeLength_def
        sample_methods)
  finally show ?thesis .
qed


text \<open>C4: replaying settles: a pass is repeated only after at least one more branch has been widened, so
  a body with fewer branches than \<open>maxReplays\<close> is never refused for not converging.\<close>

theorem widening_converges:
  assumes "length (filter is_branch body) < maxReplays" and "bd_err b = None"
  shows "bd_err (mb_Code m body b) \<noteq> Some (NotConverged name)"
proof -
  have "bd_err (code_loop body m sig r {} 0 b) \<noteq> Some (NotConverged name)" for sig r
    using code_loop_settles [OF assms(1), of "{}" 0] assms(2) by simp
  then show ?thesis using assms(2) by (auto simp: mb_Code_def Let_def bd_fail_def split: sum.splits option.splits)
qed

theorem widening_converges_witness: "bd_err (mb_Code 0 sample_body sample_builder) \<noteq> Some (NotConverged ''f'')"
  using widening_converges [of sample_body sample_builder 0 "''f''"] sample_methods(1)
  by (simp add: sample_body_def is_branch_def maxReplays_def)

section \<open>Handler labels are not checked\<close>

text \<open>Unlike a branch, a handler may name labels that are never placed: the offsets written are the
  unplaced \<^verbatim>\<open>pc\<close>, minus one, cut to sixteen bits.\<close>

definition unplaced_body :: "code_op list" where
  "unplaced_body = [DoNewLabel, DoTryCatch 0 0 0 [], DoReturn]"

lemma unplaced_handler_accepted:
  "bd_err (mb_Code 0 unplaced_body sample_builder) = None \<and>
   mb_handlers (bd_methods (mb_Code 0 unplaced_body sample_builder) ! 0) =
     [\<lparr>eh_start = 65535, eh_end = 65535, eh_handler = 65535, eh_catchType = 0\<rparr>]"
proof -
  let ?sig = "\<lparr>mParams = [\<lparr>tKind = KInt, tDims = 0, tName = []\<rparr>], mRet = \<lparr>tKind = KVoid, tDims = 0, tName = []\<rparr>\<rparr>"
  have a: "ArgSlots ?sig False = 1" "CheckArgSlots ?sig False = None" by code_simp+
  have h: "Has AccStatic AccStatic" by code_simp
  have m: "mb_handlers (bd_methods sample_builder ! 0) = []" by (simp add: sample_builder_def bd_Method_def NewBuilder_def sample_sig Let_def)
  have c: "mb_Code 0 unplaced_body sample_builder = code_loop unplaced_body 0 ?sig False {} 0 sample_builder"
    by (simp add: mb_Code_def sample_methods sample_sig Let_def a h)
  show ?thesis
    unfolding c
    by (subst (1 2) code_loop.simps) (simp add: maxReplays_def unplaced_body_def cw_eval a code_finish_def localRows_def MaxCodeLength_def
        sample_methods cw_TryCatch_def encode_handler_def upd_method_def m lbl_def)
qed

end
