(* ===== verification/Decoder.thy ===== *)
theory Decoder
  imports Attributes Desc
begin

unbundle bit_operations_syntax

text \<open>
  The class file decoder: \<^verbatim>\<open>src/classfile/decoder.go\<close> and \<open>read\<close> of \<^verbatim>\<open>src/classfile/classfile.go\<close>. The
  decoder's state is its reader, the pool it shares with the decoders nested in it, the version and the
  mode; an operation returns a value or the error the source returns, and the state after it.

  An attribute table may hold a \<open>Code\<close> or \<open>Record\<close> attribute, which holds a table of its own, so the
  source's \<open>attributes\<close>, \<open>attribute\<close> and \<open>code\<close> call each other. Here the operations take the nested
  table reader as an argument and \<open>attributes_at\<close> ties the knot at a depth; the property on the
  recursion shows that two levels give the function the source's mutual recursion describes.
\<close>

section \<open>State\<close>

type_synonym mode = "64 word"

abbreviation (input) SkipCode :: mode where "SkipCode \<equiv> 2"

abbreviation (input) SkipDebug :: mode where "SkipDebug \<equiv> 4"

abbreviation (input) KeepRaw :: mode where "KeepRaw \<equiv> 8"

abbreviation (input) AllowPreview :: mode where "AllowPreview \<equiv> 16"

record decoder =
  dr :: reader
  dpool :: pool
  dversion :: version
  dmode :: mode

type_synonym 'a dec = "(decoder, class_error, 'a) sres"

definition dec_name :: "decoder \<Rightarrow> string" where
  "dec_name d = (if rfile (dr d) = [] then ''class file'' else rfile (dr d))"

text \<open>A read of the cursor, and a lookup in the shared pool.\<close>

definition d_read :: "(reader \<Rightarrow> 'a \<times> reader) \<Rightarrow> 'a dec" where
  "d_read f d = (case f (dr d) of (x, r) \<Rightarrow> (Inr x, d\<lparr>dr := r\<rparr>))"

definition d_pool :: "'a pool_op \<Rightarrow> 'a dec" where
  "d_pool f d = (case f (dpool d) of (x, p) \<Rightarrow> (x, d\<lparr>dpool := p\<rparr>))"

abbreviation (input) d_u1 :: "u8 dec" where "d_u1 \<equiv> d_read r_u1"

abbreviation (input) d_u2 :: "u16 dec" where "d_u2 \<equiv> d_read r_u2"

abbreviation (input) d_u4 :: "u32 dec" where "d_u4 \<equiv> d_read r_u4"

definition dec_utf8 :: "u16 \<Rightarrow> string dec" where
  "dec_utf8 i = d_pool (pool_UTF8 i)"

definition dec_class :: "u16 \<Rightarrow> string dec" where
  "dec_class i = d_pool (pool_Class i)"

definition optClass :: "u16 \<Rightarrow> string dec" where
  "optClass i = (if i = 0 then sret [] else d_pool (pool_Class i))"

definition optUTF8 :: "u16 \<Rightarrow> string dec" where
  "optUTF8 i = (if i = 0 then sret [] else d_pool (pool_UTF8 i))"

text \<open>The loop every table is read with: \<^verbatim>\<open>for i := 0; i < n && !d.r.done(); i++\<close>, collecting what the
  body appends and leaving at the first error the body returns.\<close>

fun d_times :: "nat \<Rightarrow> 'a dec \<Rightarrow> 'a list dec" where
  "d_times 0 body d = (Inr [], d)"
| "d_times (Suc n) body d =
     (if r_done (dr d) then (Inr [], d)
      else sbind body (\<lambda>x. sbind (d_times n body) (\<lambda>xs. sret (x # xs))) d)"

text \<open>\<^verbatim>\<open>n := int(d.r.u2())\<close> and the loop.\<close>

definition d_table :: "'a dec \<Rightarrow> 'a list dec" where
  "d_table body = sbind d_u2 (\<lambda>n. d_times (unat n) body)"

text \<open>\<^verbatim>\<open>return out, d.r.err\<close>.\<close>

definition d_checked :: "'a \<Rightarrow> 'a dec" where
  "d_checked x d = (case rerr (dr d) of Some e \<Rightarrow> (Inl e, d) | None \<Rightarrow> (Inr x, d))"

definition dec_throw :: "(string \<Rightarrow> class_error) \<Rightarrow> 'a dec" where
  "dec_throw e d = (Inl (e (dec_name d)), d)"

text \<open>\<open>orErr\<close> on a result that is not an error: the sticky error of the nested reader, then the
  leftovers.\<close>

definition orErr :: "'a \<Rightarrow> 'a dec" where
  "orErr x d = (case rerr (dr d) of
     Some e \<Rightarrow> (Inl e, d)
   | None \<Rightarrow>
       let n = int (length (rb (dr d))) - int (roff (dr d)) in
       if n \<noteq> 0 then (Inl (SyntaxError (rfile (dr d)) (roff (dr d)) (LeftOver n)), d) else (Inr x, d))"

text \<open>The nested decoder over an attribute's body: its own reader, the same pool.\<close>

definition nested :: "bytes \<Rightarrow> 'a dec \<Rightarrow> 'a dec" where
  "nested body f d =
     (case f (d\<lparr>dr := \<lparr>rb = body, roff = 0, rfile = rfile (dr d), rerr = None\<rparr>\<rparr>) of
        (x, sub) \<Rightarrow> (x, d\<lparr>dpool := dpool sub\<rparr>))"

section \<open>Attribute bodies\<close>

definition classList :: "string list dec" where
  "classList = d_table (sbind d_u2 dec_class)"

definition localVars :: "local_variable list dec" where
  "localVars = d_table
     (sbind d_u2 (\<lambda>start.
      sbind d_u2 (\<lambda>len.
      sbind (sbind d_u2 dec_utf8) (\<lambda>name.
      sbind (sbind d_u2 dec_utf8) (\<lambda>descriptor.
      sbind d_u2 (\<lambda>slot.
        sret \<lparr>lvStartPC = start, lvLength = len, lvName = name, lvDescriptor = descriptor, lvSlot = slot\<rparr>))))))"

definition dec_handler :: "exception_handler dec" where
  "dec_handler =
     sbind d_u2 (\<lambda>start.
     sbind d_u2 (\<lambda>end1.
     sbind d_u2 (\<lambda>handler.
     sbind (sbind d_u2 optClass) (\<lambda>catch.
       sret \<lparr>ehStartPC = start, ehEndPC = end1, ehHandlerPC = handler, ehCatchType = catch\<rparr>))))"

fun hoist_code_attr :: "attr \<Rightarrow> code_attr \<Rightarrow> code_attr" where
  "hoist_code_attr (LineNumberTable ls) (CodeAttr ms ml b hs as l s) = CodeAttr ms ml b hs as (Some ls) s"
| "hoist_code_attr (StackMapTable t) (CodeAttr ms ml b hs as l s) = CodeAttr ms ml b hs as l (Some t)"
| "hoist_code_attr _ c = c"

definition dec_code :: "attrs dec \<Rightarrow> code_attr dec" where
  "dec_code code_attributes =
     sbind d_u2 (\<lambda>maxStack.
     sbind d_u2 (\<lambda>maxLocals.
     sbind d_u4 (\<lambda>len.
     if len = 0 then dec_throw CodeLengthZero
     else if len \<ge> 65536 then dec_throw (\<lambda>n. CodeLengthLimit n len)
     else
       sbind (d_read (r_bytes (uint len))) (\<lambda>code.
       sbind (d_table dec_handler) (\<lambda>handlers.
       sbind code_attributes (\<lambda>as.
         orErr (fold hoist_code_attr as (CodeAttr maxStack maxLocals code handlers as None None))))))))"

definition dec_constant_value :: "attr dec" where
  "dec_constant_value =
     sbind d_u2 (\<lambda>i.
     sbind (\<lambda>d. d_pool (pool_Const i (dversion d)) d) (\<lambda>v.
     if cTag v \<in> {TagInteger, TagFloat, TagLong, TagDouble, TagString} then orErr (ConstantValue v)
     else dec_throw (\<lambda>n. NotFieldConstant n (cTag v))))"

definition dec_enclosing_method :: "attr dec" where
  "dec_enclosing_method =
     sbind (sbind d_u2 dec_class) (\<lambda>cl.
     sbind d_u2 (\<lambda>mi.
     if mi \<noteq> 0 then sbind (d_pool (pool_NameAndType mi)) (\<lambda>(n, t). orErr (EnclosingMethod cl n t))
     else orErr (EnclosingMethod cl [] [])))"

definition dec_inner_class :: "inner_class dec" where
  "dec_inner_class =
     sbind (sbind d_u2 dec_class) (\<lambda>inner.
     sbind (sbind d_u2 optClass) (\<lambda>outer.
     sbind (sbind d_u2 optUTF8) (\<lambda>simple.
     sbind d_u2 (\<lambda>fl. sret \<lparr>icInner = inner, icOuter = outer, icSimpleName = simple, icFlags = fl\<rparr>))))"

definition dec_bootstrap :: "bootstrap_method dec" where
  "dec_bootstrap =
     sbind (sbind d_u2 (\<lambda>i d. d_pool (pool_Handle i (dversion d)) d)) (\<lambda>h.
     sbind (d_table d_u2) (\<lambda>args. sret \<lparr>bmMethod = h, bmArguments = args\<rparr>))"

definition dec_parameter :: "method_parameter dec" where
  "dec_parameter =
     sbind (sbind d_u2 optUTF8) (\<lambda>name.
     sbind d_u2 (\<lambda>fl. sret \<lparr>mpName = name, mpFlags = fl\<rparr>))"

definition dec_line :: "line_number dec" where
  "dec_line = sbind d_u2 (\<lambda>start. sbind d_u2 (\<lambda>line. sret \<lparr>lnStartPC = start, lnLine = line\<rparr>))"

definition dec_component :: "attrs dec \<Rightarrow> record_component dec" where
  "dec_component record_attributes =
     sbind (sbind d_u2 dec_utf8) (\<lambda>name.
     sbind (sbind d_u2 dec_utf8) (\<lambda>descriptor.
     sbind record_attributes (\<lambda>as.
       sret (RecordComponent name descriptor
         (case attrs_Find as ''Signature'' of Some (Signature s) \<Rightarrow> s | _ \<Rightarrow> []) as))))"

section \<open>One attribute\<close>

text \<open>The gate in front of the decoding: known, legal at the location, and defined by this version.\<close>

definition attr_gate :: "string \<Rightarrow> location \<Rightarrow> version \<Rightarrow> bool" where
  "attr_gate name loc v = (case map_of attr_where name of
     None \<Rightarrow> False
   | Some (at, since) \<Rightarrow> at AND loc \<noteq> 0 \<and> AtLeast v since)"

text \<open>The switch on the name, in a decoder over the body. \<open>\<^const>\<open>None\<close>\<close> is the nil attribute of the
  skipping modes.\<close>

definition attribute_body :: "(location \<Rightarrow> attrs dec) \<Rightarrow> string \<Rightarrow> bytes \<Rightarrow> mode \<Rightarrow> attr option dec" where
  "attribute_body rec name body mode =
     (let as_attr = (\<lambda>f. sbind f (\<lambda>a. sret (Some a))) in
      if name = ''SourceFile'' then as_attr (sbind (sbind d_u2 dec_utf8) (\<lambda>v. orErr (SourceFile v)))
      else if name = ''Signature'' then as_attr (sbind (sbind d_u2 dec_utf8) (\<lambda>v. orErr (Signature v)))
      else if name = ''ConstantValue'' then as_attr dec_constant_value
      else if name = ''Synthetic'' then as_attr (orErr Synthetic)
      else if name = ''Deprecated'' then as_attr (orErr Deprecated)
      else if name = ''NestHost'' then as_attr (sbind (sbind d_u2 dec_class) (\<lambda>v. orErr (NestHost v)))
      else if name = ''Exceptions'' then as_attr (sbind classList (\<lambda>cs. orErr (Exceptions cs)))
      else if name = ''NestMembers'' then as_attr (sbind classList (\<lambda>cs. orErr (NestMembers cs)))
      else if name = ''PermittedSubclasses'' then as_attr (sbind classList (\<lambda>cs. orErr (PermittedSubclasses cs)))
      else if name = ''EnclosingMethod'' then as_attr dec_enclosing_method
      else if name = ''InnerClasses'' then as_attr (sbind (d_table dec_inner_class) (\<lambda>cs. orErr (InnerClasses cs)))
      else if name = ''BootstrapMethods'' then as_attr (sbind (d_table dec_bootstrap) (\<lambda>ms. orErr (BootstrapMethods ms)))
      else if name = ''MethodParameters'' then
        as_attr (sbind d_u1 (\<lambda>n. sbind (d_times (unat n) dec_parameter) (\<lambda>ps. orErr (MethodParameters ps))))
      else if name = ''Record'' then
        as_attr (sbind (d_table (dec_component (rec locRecord))) (\<lambda>cs. orErr (Record cs)))
      else if name = ''StackMapTable'' then sret (Some (StackMapTable body))
      else if name = ''LineNumberTable'' then
        (if mode AND SkipDebug \<noteq> 0 then sret None
         else as_attr (sbind (d_table dec_line) (\<lambda>ls. orErr (LineNumberTable ls))))
      else if name = ''LocalVariableTable'' then
        (if mode AND SkipDebug \<noteq> 0 then sret None
         else as_attr (sbind localVars (\<lambda>vs. orErr (LocalVariableTable vs))))
      else if name = ''LocalVariableTypeTable'' then
        (if mode AND SkipDebug \<noteq> 0 then sret None
         else as_attr (sbind localVars (\<lambda>vs. orErr (LocalVariableTypeTable vs))))
      else if name = ''Code'' then
        (if mode AND SkipCode \<noteq> 0 then sret None
         else sbind (dec_code (rec locCode)) (\<lambda>c. sret (Some (Code c))))
      else sret (Some (Raw name body)))"

definition attribute :: "(location \<Rightarrow> attrs dec) \<Rightarrow> string \<Rightarrow> bytes \<Rightarrow> location \<Rightarrow> attr option dec" where
  "attribute rec name body loc d =
     (if \<not> attr_gate name loc (dversion d) then (Inr (Some (Raw name body)), d)
      else nested body (attribute_body rec name body (dmode d)) d)"

section \<open>Attribute tables\<close>

fun is_Raw :: "attr option \<Rightarrow> bool" where
  "is_Raw (Some (Raw n b)) = True"
| "is_Raw _ = False"

definition kept :: "mode \<Rightarrow> string \<Rightarrow> bytes \<Rightarrow> attr option \<Rightarrow> attrs" where
  "kept mode name body a =
     (case a of Some x \<Rightarrow> [x] | None \<Rightarrow> []) @
     (if mode AND KeepRaw \<noteq> 0 \<and> \<not> is_Raw a then [Raw name body] else [])"

text \<open>One turn of the loop of \<open>attributes\<close>. The two early \<open>break\<close>s happen only when the reader has
  failed, and then the loop's own test ends it: they add nothing.\<close>

definition attribute_turn :: "(location \<Rightarrow> attrs dec) \<Rightarrow> location \<Rightarrow> attrs dec" where
  "attribute_turn rec loc =
     sbind d_u2 (\<lambda>nameIdx.
     sbind d_u4 (\<lambda>len d.
     if r_done (dr d) then (Inr [], d)
     else
       sbind (dec_utf8 nameIdx) (\<lambda>name.
       sbind (d_read (r_bytes (uint len))) (\<lambda>body d1.
       if r_done (dr d1) then (Inr [], d1)
       else sbind (attribute rec name body loc) (\<lambda>a. sret (kept (dmode d1) name body a)) d1)) d))"

definition attributes_with :: "(location \<Rightarrow> attrs dec) \<Rightarrow> location \<Rightarrow> attrs dec" where
  "attributes_with rec loc = sbind (d_table (attribute_turn rec loc)) (\<lambda>out. d_checked (concat out))"

text \<open>Tables nested at most \<open>n\<close> deep; the innermost level never asks for another.\<close>

fun attributes_at :: "nat \<Rightarrow> location \<Rightarrow> attrs dec" where
  "attributes_at 0 loc = sret []"
| "attributes_at (Suc n) loc = attributes_with (attributes_at n) loc"

definition attributes :: "location \<Rightarrow> attrs dec" where
  "attributes = attributes_at 2"

section \<open>Members\<close>

definition member :: "location \<Rightarrow> field dec" where
  "member loc =
     sbind d_u2 (\<lambda>fl.
     sbind (sbind d_u2 dec_utf8) (\<lambda>name.
     sbind (sbind d_u2 dec_utf8) (\<lambda>descriptor.
     sbind (attributes loc) (\<lambda>as.
       sret (fold hoist_field_attr as \<lparr>fFlags = fl, fName = name, fDescriptor = descriptor, fAttrs = as,
         fConstantValue = None, fSignature = [], fDeprecated = False, fSynthetic = False\<rparr>)))))"

definition members :: "location \<Rightarrow> field list dec" where
  "members loc = sbind (d_table (member loc)) d_checked"

definition dec_method :: "jmethod dec" where
  "dec_method =
     sbind d_u2 (\<lambda>fl.
     sbind (sbind d_u2 dec_utf8) (\<lambda>name.
     sbind (sbind d_u2 dec_utf8) (\<lambda>descriptor.
     sbind (attributes locMethod) (\<lambda>as.
       sret (fold hoist_method_attr as \<lparr>jmFlags = fl, jmName = name, jmDescriptor = descriptor, jmAttrs = as,
         jmCode = None, jmExceptions = [], jmSignature = [], jmDeprecated = False, jmSynthetic = False\<rparr>)))))"

definition methods :: "jmethod list dec" where
  "methods = sbind (d_table dec_method) d_checked"

section \<open>The class\<close>

text \<open>The part of \<open>read\<close> after the pool.\<close>

definition read_super :: "string \<Rightarrow> flags \<Rightarrow> string dec" where
  "read_super name fl =
     sbind d_u2 (\<lambda>super.
     if super \<noteq> 0 then dec_class super
     else if name \<noteq> ''java/lang/Object'' \<and> \<not> Has fl AccModule then dec_throw (\<lambda>n. SuperMissing n (Binary name))
     else sret [])"

definition read_class :: "version \<Rightarrow> jclass dec" where
  "read_class v =
     sbind d_u2 (\<lambda>fl.
     sbind (sbind d_u2 dec_class) (\<lambda>name.
     sbind (read_super name fl) (\<lambda>super.
     sbind (d_table (sbind d_u2 dec_class)) (\<lambda>ifaces.
     sbind (members locField) (\<lambda>fs.
     sbind methods (\<lambda>ms.
     sbind (attributes locClass) (\<lambda>as d.
     case rerr (dr d) of
       Some e \<Rightarrow> (Inl e, d)
     | None \<Rightarrow>
         if roff (dr d) \<noteq> length (rb (dr d))
         then (Inl (SyntaxError (rfile (dr d)) (roff (dr d))
                 (TrailingBytes (int (length (rb (dr d))) - int (roff (dr d))))), d)
         else (Inr (hoistClass \<lparr>jcVersion = v, jcPool = dpool d, jcFlags = fl, jcName = name, jcSuper = super,
                 jcInterfaces = ifaces, jcFields = fs, jcMethods = ms, jcAttrs = as, jcSourceFile = [], jcSignature = [],
                 jcNestHost = [], jcDeprecated = False, jcSynthetic = False\<rparr>), d))))))))"

definition read :: "bytes \<Rightarrow> string \<Rightarrow> mode \<Rightarrow> class_error + jclass" where
  "read b file mode =
     (let r0 = \<lparr>rb = b, roff = 0, rfile = file, rerr = None\<rparr> in
      case r_u4 r0 of (magic, r1) \<Rightarrow>
      if magic \<noteq> 0xCAFEBABE then
        (case rerr r1 of
           Some e \<Rightarrow> Inl e
         | None \<Rightarrow> Inl (SyntaxError file 0 (BadMagic magic)))
      else
        case r_u2 r1 of (minor, r2) \<Rightarrow>
        case r_u2 r2 of (major, r3) \<Rightarrow>
        case rerr r3 of
          Some e \<Rightarrow> Inl e
        | None \<Rightarrow>
            let v = \<lparr>vMajor = major, vMinor = minor\<rparr> in
            case version_check v (mode AND AllowPreview \<noteq> 0) of
              Some e \<Rightarrow> Inl (SyntaxError file 4 (BadVersion e))
            | None \<Rightarrow>
                (case readPool v r3 of (p, r4) \<Rightarrow>
                 case (rerr r4, p) of
                   (Some e, _) \<Rightarrow> Inl e
                 | (None, Some p1) \<Rightarrow> fst (read_class v \<lparr>dr = r4, dpool = p1, dversion = v, dmode = mode\<rparr>)
                 | (None, None) \<Rightarrow> Inl (SyntaxError file (roff r4) PoolCountZero)))"

definition Read :: "bytes \<Rightarrow> mode \<Rightarrow> class_error + jclass" where
  "Read b mode = read b [] mode"

section \<open>The recursion closes after two levels\<close>

lemma gate_at:
  "attr_gate name loc v \<Longrightarrow> (name, at, since) \<in> set attr_where \<Longrightarrow> at AND loc \<noteq> 0"
proof -
  assume g: "attr_gate name loc v" and i: "(name, at, since) \<in> set attr_where"
  have d: "distinct (map fst attr_where)" by (simp add: attr_where_def)
  have "map_of attr_where name = Some (at, since)" using i d by (simp add: map_of_is_SomeI)
  then show ?thesis using g by (simp add: attr_gate_def)
qed

lemma gate_nesting:
  "attr_gate ''Code'' loc v \<Longrightarrow> 4 AND loc \<noteq> 0"
  "attr_gate ''Record'' loc v \<Longrightarrow> 1 AND loc \<noteq> 0"
  by (rule gate_at, assumption, simp add: attr_where_def)+

text \<open>An attribute asks for a nested table only under \<open>Code\<close> and \<open>Record\<close>, and only at those two
  locations.\<close>

lemma attribute_body_cong:
  assumes "name = ''Code'' \<Longrightarrow> rec locCode = rec' locCode" "name = ''Record'' \<Longrightarrow> rec locRecord = rec' locRecord"
  shows "attribute_body rec name body mode = attribute_body rec' name body mode"
  using assms unfolding attribute_body_def by (cases "name = ''Code''"; cases "name = ''Record''") simp_all

lemma attribute_cong:
  assumes "4 AND loc \<noteq> 0 \<Longrightarrow> rec locCode = rec' locCode" "1 AND loc \<noteq> 0 \<Longrightarrow> rec locRecord = rec' locRecord"
  shows "attribute rec name body loc = attribute rec' name body loc"
proof
  fix d
  show "attribute rec name body loc d = attribute rec' name body loc d"
  proof (cases "attr_gate name loc (dversion d)")
    case True
    then have "attribute_body rec name body (dmode d) = attribute_body rec' name body (dmode d)"
      using assms gate_nesting by (intro attribute_body_cong) blast+
    then show ?thesis by (simp add: attribute_def)
  qed (simp add: attribute_def)
qed

lemma attributes_with_cong:
  assumes "4 AND loc \<noteq> 0 \<Longrightarrow> rec locCode = rec' locCode" "1 AND loc \<noteq> 0 \<Longrightarrow> rec locRecord = rec' locRecord"
  shows "attributes_with rec loc = attributes_with rec' loc"
proof -
  have "attribute rec n b loc = attribute rec' n b loc" for n b using attribute_cong [OF assms] by blast
  then show ?thesis by (simp add: attributes_with_def attribute_turn_def cong: if_cong)
qed

lemma attributes_inner: "attributes_at (Suc n) locCode = attributes_at (Suc m) locCode"
  "attributes_at (Suc n) locRecord = attributes_at (Suc m) locRecord"
  by (simp_all, rule attributes_with_cong, simp_all, rule attributes_with_cong, simp_all)

lemma attributes_at_enough: "attributes_at (Suc (Suc n)) loc = attributes_at 2 loc"
proof -
  have "attributes_with (attributes_at (Suc n)) loc = attributes_with (attributes_at (Suc 0)) loc"
    using attributes_inner [of n 0] by (intro attributes_with_cong) blast+
  then show ?thesis by (simp add: numeral_2_eq_2)
qed

section \<open>Properties\<close>

text \<open>C37: The decoder's mutual recursion is well founded whatever the file says: an attribute table nests
  at most once (a \<open>Code\<close> attribute is decoded only in a method's table and a \<open>Record\<close> attribute only in
  a class's, so neither occurs inside the other), the depth of two the model allows is therefore the
  function the source defines, which satisfies the source's own recursive equation at every location, and
  no greater depth changes any result.\<close>

theorem attributes_recursion:
  "attributes loc = attributes_with attributes loc \<and> (\<forall>n. attributes_at (n + 2) loc = attributes loc)"
proof
  have "attributes_with (attributes_at 2) loc = attributes_at (Suc (Suc (Suc 0))) loc" by (simp add: numeral_2_eq_2)
  also have "\<dots> = attributes_at 2 loc" by (rule attributes_at_enough)
  finally show "attributes loc = attributes_with attributes loc" by (simp add: attributes_def)
  show "\<forall>n. attributes_at (n + 2) loc = attributes loc"
    using attributes_at_enough by (simp add: attributes_def)
qed

end
