(* ===== verification/DecoderSound.thy ===== *)
theory DecoderSound
  imports Decoder
begin

unbundle bit_operations_syntax

text \<open>
  What the decoder of \<^theory_text>\<open>Decoder\<close> guarantees. The locale \<open>decoding\<close> is the contract of every decoder operation: the
  reader moves forward inside its input, the shared pool changes in its memo only, version and mode stay.
  \<open>yields\<close> propagates what a decoded value satisfies through the tables to the class; the last part shows that
  the rows of an attribute table can be recovered byte for byte under \<open>KeepRaw\<close>.
\<close>

section \<open>What every operation keeps\<close>

definition dec_keeps :: "decoder \<Rightarrow> decoder \<Rightarrow> bool" where
  "dec_keeps d d' \<longleftrightarrow> moves (dr d) (dr d') \<and> same_pool (dpool d) (dpool d') \<and> pool_inv (dpool d') \<and>
     dversion d' = dversion d \<and> dmode d' = dmode d"

locale decoding =
  fixes f :: "'a dec"
  assumes keeps: "pool_inv (dpool d) \<Longrightarrow> f d = (x, d') \<Longrightarrow> dec_keeps d d'"

lemma dec_keeps_refl: "pool_inv (dpool d) \<Longrightarrow> dec_keeps d d"
  by (simp add: dec_keeps_def same_pool_def)

lemma dec_keeps_trans: "dec_keeps d d1 \<Longrightarrow> dec_keeps d1 d2 \<Longrightarrow> dec_keeps d d2"
  unfolding dec_keeps_def using moves_trans by (auto simp: same_pool_def)

lemma decoding_bind:
  assumes "decoding f" and "\<And>x. decoding (g x)"
  shows "decoding (sbind f g)"
proof
  fix d r d'
  assume p: "pool_inv (dpool d)" and b: "sbind f g d = (r, d')"
  obtain x d1 where 1: "f d = (x, d1)" by fastforce
  have k: "dec_keeps d d1" using decoding.keeps [OF assms(1) p 1] .
  show "dec_keeps d d'"
  proof (cases x)
    case (Inl e)
    then show ?thesis using b 1 k by simp
  next
    case (Inr y)
    then have "g y d1 = (r, d')" using b 1 by simp
    then have "dec_keeps d1 d'" by (rule decoding.keeps [OF assms(2), rotated]) (use k in \<open>simp add: dec_keeps_def\<close>)
    then show ?thesis using k dec_keeps_trans by blast
  qed
qed

lemma decoding_ret: "decoding (sret x)"
  by standard (auto simp: dec_keeps_refl)

lemma decoding_throw: "decoding (dec_throw e)"
  by standard (auto simp: dec_keeps_refl dec_throw_def)

lemma decoding_checked: "decoding (d_checked x)"
  by standard (auto simp: dec_keeps_refl d_checked_def split: option.splits)

lemma decoding_orErr: "decoding (orErr x)"
  by standard (auto simp: dec_keeps_refl orErr_def Let_def split: option.splits if_splits)

lemma decoding_read: "(\<And>r x r'. f r = (x, r') \<Longrightarrow> moves r r') \<Longrightarrow> decoding (d_read f)"
  by standard (auto simp: d_read_def dec_keeps_def same_pool_def split: prod.splits)

lemma decoding_pool:
  assumes "pool_accessor acc"
  shows "decoding (d_pool acc)"
proof
  fix d x d'
  assume p: "pool_inv (dpool d)" and "d_pool acc d = (x, d')"
  then obtain q where q: "acc (dpool d) = (x, q)" "d' = d\<lparr>dpool := q\<rparr>" by (auto simp: d_pool_def split: prod.splits)
  then show "dec_keeps d d'" using pool_accessor.keeps [OF assms p q(1)] by (auto simp: dec_keeps_def)
qed

lemma decoding_reads: "decoding (d_read r_u1)" "decoding (d_read r_u2)" "decoding (d_read r_u4)" "decoding (d_read (r_bytes n))"
  by (rule decoding_read, erule moves_reads)+

lemma decoding_lookups: "decoding (dec_utf8 i)" "decoding (dec_class i)" "decoding (optClass i)" "decoding (optUTF8 i)"
  "decoding (d_pool (pool_NameAndType i))"
  by (simp_all add: dec_utf8_def dec_class_def optClass_def optUTF8_def decoding_ret decoding_pool utf8.pool_accessor_axioms
      class_name.pool_accessor_axioms name_and_type.pool_accessor_axioms)

lemma decoding_versioned:
  "decoding (\<lambda>d. d_pool (pool_Const i (dversion d)) d)" "decoding (\<lambda>d. d_pool (pool_Handle i (dversion d)) d)"
  using decoding.keeps [OF decoding_pool [OF loadable.pool_accessor_axioms]] decoding.keeps [OF decoding_pool [OF handle.pool_accessor_axioms]]
  by (auto intro!: decoding.intro)

lemma decoding_times: "decoding f \<Longrightarrow> decoding (d_times n f)"
proof (induction n)
  case 0
  show ?case by standard (auto simp: dec_keeps_refl)
next
  case (Suc n)
  let ?g = "sbind f (\<lambda>x. sbind (d_times n f) (\<lambda>xs. sret (x # xs)))"
  have g: "decoding ?g" using Suc by (intro decoding_bind decoding_ret) simp_all
  show ?case
  proof
    fix d x d'
    assume p: "pool_inv (dpool d)" and "d_times (Suc n) f d = (x, d')"
    then show "dec_keeps d d'" using decoding.keeps [OF g p] dec_keeps_refl [OF p] by (auto split: if_splits)
  qed
qed

lemma decoding_table: "decoding f \<Longrightarrow> decoding (d_table f)"
  unfolding d_table_def by (intro decoding_bind decoding_reads decoding_times)

lemma decoding_nested:
  assumes "decoding f"
  shows "decoding (nested body f)"
proof
  fix d d' :: decoder and x
  let ?d = "d\<lparr>dr := \<lparr>rb = body, roff = 0, rfile = rfile (dr d), rerr = None\<rparr>\<rparr>"
  assume p: "pool_inv (dpool d)" and "nested body f d = (x, d')"
  then obtain s where s: "f ?d = (x, s)" "d' = d\<lparr>dpool := dpool s\<rparr>" by (auto simp: nested_def split: prod.splits)
  have "dec_keeps ?d s" by (rule decoding.keeps [OF assms _ s(1)]) (simp add: p)
  then show "dec_keeps d d'" by (simp add: dec_keeps_def s(2))
qed

lemmas decoding_intros = decoding_bind decoding_ret decoding_throw decoding_checked decoding_orErr decoding_reads decoding_lookups
  decoding_times decoding_table decoding_versioned

lemma decoding_parts: "decoding classList" "decoding localVars" "decoding dec_handler" "decoding dec_constant_value"
  "decoding dec_enclosing_method" "decoding dec_inner_class" "decoding dec_bootstrap" "decoding dec_parameter" "decoding dec_line"
proof -
  show "decoding classList" "decoding localVars" "decoding dec_handler" "decoding dec_inner_class" "decoding dec_bootstrap"
    "decoding dec_parameter" "decoding dec_line"
    unfolding classList_def localVars_def dec_handler_def dec_inner_class_def dec_bootstrap_def dec_parameter_def dec_line_def
    by (intro decoding_intros)+
  show "decoding dec_constant_value" unfolding dec_constant_value_def by (intro decoding_intros) (simp add: decoding_intros)
  show "decoding dec_enclosing_method" unfolding dec_enclosing_method_def
    by (intro decoding_intros) (simp add: decoding_intros split: prod.splits)
qed

lemma decoding_code: "decoding as \<Longrightarrow> decoding (dec_code as)" "decoding as \<Longrightarrow> decoding (dec_component as)"
proof -
  assume a: "decoding as"
  have g: "decoding (if len = 0 then dec_throw CodeLengthZero else if len \<ge> 65536 then dec_throw (\<lambda>n. CodeLengthLimit n len) else F)"
    if "decoding F" for len :: u32 and F :: "code_attr dec" using that by (simp add: decoding_throw)
  show "decoding (dec_code as)" unfolding dec_code_def by (intro g decoding_intros a decoding_parts)
  show "decoding (dec_component as)" unfolding dec_component_def by (intro decoding_intros a)
qed

lemma decoding_body:
  assumes "\<And>loc. decoding (rec loc)"
  shows "decoding (attribute_body rec name body mode)"
proof -
  have i: "decoding (if c then F else G)" if "decoding F" "decoding G" for c and F G :: "attr option dec" using that by simp
  show ?thesis
    unfolding attribute_body_def Let_def
    by (intro i decoding_intros decoding_parts decoding_code assms)
qed

lemma decoding_attribute:
  assumes "\<And>loc. decoding (rec loc)"
  shows "decoding (attribute rec name body loc)"
proof
  fix d x d'
  assume p: "pool_inv (dpool d)" and "attribute rec name body loc d = (x, d')"
  then show "dec_keeps d d'"
    using decoding.keeps [OF decoding_nested [OF decoding_body [OF assms]] p] dec_keeps_refl [OF p]
    by (auto simp: attribute_def split: if_splits)
qed

lemma decoding_unless_done:
  assumes "\<And>d0. decoding (F d0)"
  shows "decoding (\<lambda>d. if r_done (dr d) then (Inr y, d) else F d d)"
proof
  fix d x d'
  assume p: "pool_inv (dpool d)" and "(if r_done (dr d) then (Inr y, d) else F d d) = (x, d')"
  then show "dec_keeps d d'" using decoding.keeps [OF assms p] dec_keeps_refl [OF p] by (auto split: if_splits)
qed

lemma decoding_turn:
  assumes "\<And>loc. decoding (rec loc)"
  shows "decoding (attribute_turn rec loc)"
  unfolding attribute_turn_def
  by (intro decoding_bind decoding_reads decoding_unless_done decoding_lookups decoding_attribute assms decoding_ret)

lemma decoding_attributes_at: "decoding (attributes_at n loc)"
proof (induction n arbitrary: loc)
  case 0
  show ?case by (simp only: attributes_at.simps decoding_ret)
next
  case (Suc n)
  then show ?case by (simp add: attributes_with_def) (intro decoding_intros decoding_turn, simp)
qed

interpretation attributes: decoding "attributes loc"
  unfolding attributes_def by (rule decoding_attributes_at)

lemma decoding_members: "decoding (member loc)" "decoding (members loc)" "decoding dec_method" "decoding methods"
  unfolding member_def members_def dec_method_def methods_def
  by (intro decoding_intros attributes.decoding_axioms)+

section \<open>What a decoded attribute satisfies\<close>

definition legal_handle :: "version \<Rightarrow> handle \<Rightarrow> bool" where
  "legal_handle v h \<longleftrightarrow> handle_form_error (hKind h) (hRef h) v = None \<and> handle_name_error (hKind h) (hRef h) = None"

fun attr_ok :: "version \<Rightarrow> attr \<Rightarrow> bool" where
  "attr_ok v (ConstantValue c) \<longleftrightarrow> cTag c \<in> {TagInteger, TagFloat, TagLong, TagDouble, TagString}"
| "attr_ok v (Code c) \<longleftrightarrow> 1 \<le> length (caBytes c) \<and> length (caBytes c) \<le> 65535"
| "attr_ok v (BootstrapMethods ms) \<longleftrightarrow> list_all (\<lambda>m. legal_handle v (bmMethod m)) ms"
| "attr_ok v _ \<longleftrightarrow> True"

lemma orErr_Inr: "orErr x d = (Inr y, d') \<longleftrightarrow> y = x \<and> d' = d \<and> rerr (dr d) = None \<and> roff (dr d) = length (rb (dr d))"
  by (auto simp: orErr_def Let_def split: option.splits)

lemma throw_Inr [simp]: "dec_throw e d \<noteq> (Inr y, d')"
  by (simp add: dec_throw_def)

lemma fold_hoist_code: "caBytes (fold hoist_code_attr as c) = caBytes c"
proof (induction as arbitrary: c)
  case (Cons a as)
  have "caBytes (hoist_code_attr a c) = caBytes c" by (cases a; cases c) simp_all
  then show ?case using Cons by simp
qed simp

lemma dec_code_ok:
  assumes "pool_inv (dpool d)" and as: "decoding as" and "dec_code as d = (Inr c, d')"
  shows "1 \<le> length (caBytes c) \<and> length (caBytes c) \<le> 65535"
proof -
  obtain ms da ml db len d1 where r: "d_read r_u2 d = (Inr ms, da)" "d_read r_u2 da = (Inr ml, db)" "d_read r_u4 db = (Inr len, d1)"
    and len: "len \<noteq> 0" "\<not> len \<ge> 65536"
    and b: "sbind (d_read (r_bytes (uint len))) (\<lambda>code. sbind (d_table dec_handler) (\<lambda>handlers. sbind as (\<lambda>as.
         orErr (fold hoist_code_attr as (CodeAttr ms ml code handlers as None None))))) d1 = (Inr c, d')"
    using assms(3) by (auto simp: dec_code_def sbind_Inr_iff [of "d_read r_u2"] sbind_Inr_iff [of "d_read r_u4"] split: if_splits)
  obtain code d2 hs d3 xs d4 where s: "d_read (r_bytes (uint len)) d1 = (Inr code, d2)"
    "d_table dec_handler d2 = (Inr hs, d3)" "as d3 = (Inr xs, d4)" "rerr (dr d4) = None"
    "c = fold hoist_code_attr xs (CodeAttr ms ml code hs xs None None)"
    using b by (auto simp: sbind_Inr_iff orErr_Inr)
  have p: "pool_inv (dpool d1)" using r assms(1) by (auto simp: d_read_def split: prod.splits)
  have k: "dec_keeps d1 d2" using decoding.keeps [OF decoding_reads(4) p s(1)] .
  have "dec_keeps d2 d4"
    using decoding.keeps [OF decoding_table [OF decoding_parts(3)] _ s(2)] decoding.keeps [OF as _ s(3)] k dec_keeps_trans
    unfolding dec_keeps_def by blast
  then have "rerr (dr d2) = None" using s(4) by (auto simp: dec_keeps_def moves_def)
  moreover have "r_bytes (uint len) (dr d1) = (code, dr d2)" using s(1) by (auto simp: d_read_def split: prod.splits)
  then have "r_bytes (int (unat len)) (dr d1) = (code, dr d2)" by (simp only: uint_nat)
  ultimately have "length code = unat len" using r_bytes_ok [of "unat len" "dr d1" code "dr d2"] by (auto simp: min_def)
  moreover have "unat len \<noteq> 0" "unat len < 65536" using len by (auto simp: unat_eq_zero word_le_nat_alt)
  ultimately show ?thesis by (simp add: s(5) fold_hoist_code)
qed

lemma as_attr_Inr: "sbind f (\<lambda>a. sret (g a)) d = (Inr y, d') \<longleftrightarrow> (\<exists>a. f d = (Inr a, d') \<and> y = g a)"
  by (auto simp: sbind_Inr_iff)

lemma bootstrap_ok: "dec_bootstrap d = (Inr m, d') \<Longrightarrow> dversion d = v \<Longrightarrow> legal_handle v (bmMethod m)"
proof -
  assume "dec_bootstrap d = (Inr m, d')" and v: "dversion d = v"
  then obtain i d1 h d2 where 1: "d_read r_u2 d = (Inr i, d1)" "d_pool (pool_Handle i (dversion d1)) d1 = (Inr h, d2)" "bmMethod m = h"
    by (auto simp: dec_bootstrap_def sbind_Inr_iff)
  then obtain q where q: "pool_Handle i (dversion d1) (dpool d1) = (Inr h, q)" by (auto simp: d_pool_def split: prod.splits)
  have "dversion d1 = v" using 1(1) v by (auto simp: d_read_def split: prod.splits)
  then show ?thesis using pool_Handle_Inr [OF q] 1(3) by (simp add: legal_handle_def)
qed

lemma keeps_version: "decoding f \<Longrightarrow> pool_inv (dpool d) \<Longrightarrow> f d = (x, d') \<Longrightarrow> dversion d' = dversion d \<and> pool_inv (dpool d')"
  by (drule (2) decoding.keeps) (simp add: dec_keeps_def)

lemma bootstraps_ok:
  assumes "d_table dec_bootstrap d = (Inr ms, d')" and "pool_inv (dpool d)"
  shows "list_all (\<lambda>m. legal_handle (dversion d) (bmMethod m)) ms"
proof -
  have "list_all (\<lambda>m. legal_handle (dversion d) (bmMethod m)) ms" if "d_times n dec_bootstrap d1 = (Inr ms, d')" "dversion d1 = dversion d"
    "pool_inv (dpool d1)" for n d1
    using that
  proof (induction n arbitrary: d1 ms)
    case (Suc n)
    show ?case
    proof (cases "r_done (dr d1)")
      case False
      then obtain x d2 ys where 1: "dec_bootstrap d1 = (Inr x, d2)" "d_times n dec_bootstrap d2 = (Inr ys, d')" "ms = x # ys"
        using Suc.prems(1) by (auto simp: sbind_Inr_iff)
      note k = keeps_version [OF decoding_parts(7) Suc.prems(3) 1(1)]
      show ?thesis using bootstrap_ok [OF 1(1) Suc.prems(2)] Suc.IH [OF 1(2)] k Suc.prems(2) 1(3) by simp
    qed (use Suc.prems in simp)
  qed simp
  then show ?thesis using assms by (auto simp: d_table_def sbind_Inr_iff d_read_def split: prod.splits)
qed

lemma attribute_body_ok:
  assumes "attribute_body rec name body mode d = (Inr (Some a), d')" and "pool_inv (dpool d)" and "\<And>loc. decoding (rec loc)"
  shows "attr_ok (dversion d) a"
proof (cases "name \<in> {''ConstantValue'', ''BootstrapMethods'', ''Code''}")
  case True
  have r: "pool_inv (dpool d1) \<and> dversion d1 = dversion d" if "d_read r_u2 d = (x, d1)" for x d1
    using that assms(2) by (auto simp: d_read_def split: prod.splits)
  consider "name = ''ConstantValue''" | "name = ''BootstrapMethods''" | "name = ''Code''" using True by blast
  then show ?thesis
  proof cases
    case 1
    then show ?thesis using assms(1)
      by (auto simp: attribute_body_def dec_constant_value_def sbind_Inr_iff orErr_Inr split: if_splits)
  next
    case 2
    then show ?thesis using assms(1) bootstraps_ok [OF _ assms(2)]
      by (auto simp: attribute_body_def sbind_Inr_iff orErr_Inr)
  next
    case 3
    then show ?thesis using assms(1) dec_code_ok [OF assms(2) assms(3)]
      by (auto simp: attribute_body_def as_attr_Inr split: if_splits)
  qed
next
  case False
  then show ?thesis using assms(1)
    by (auto simp: attribute_body_def Let_def as_attr_Inr sbind_Inr_iff orErr_Inr dec_enclosing_method_def split: if_splits)
qed

text \<open>A property of what an operation returns, from a well-formed pool.\<close>

definition yields :: "'a dec \<Rightarrow> (version \<Rightarrow> 'a \<Rightarrow> bool) \<Rightarrow> bool" where
  "yields f Q \<longleftrightarrow> (\<forall>d x d'. pool_inv (dpool d) \<longrightarrow> f d = (Inr x, d') \<longrightarrow> Q (dversion d) x)"

lemma yields_bind:
  assumes "decoding f" and "\<And>x. yields (g x) Q"
  shows "yields (sbind f g) Q"
  unfolding yields_def
proof (intro allI impI)
  fix d y d'
  assume p: "pool_inv (dpool d)" and "sbind f g d = (Inr y, d')"
  then obtain x d1 where 1: "f d = (Inr x, d1)" "g x d1 = (Inr y, d')" by (auto simp: sbind_Inr_iff)
  then show "Q (dversion d) y" using keeps_version [OF assms(1) p 1(1)] assms(2) [of x] unfolding yields_def by metis
qed

lemma yields_map: "yields f P \<Longrightarrow> (\<And>v x. P v x \<Longrightarrow> Q v (h x)) \<Longrightarrow> yields (sbind f (\<lambda>x. sret (h x))) Q"
  unfolding yields_def as_attr_Inr by blast

lemma yields_checked: "yields f P \<Longrightarrow> (\<And>v x. P v x \<Longrightarrow> Q v (h x)) \<Longrightarrow> yields (sbind f (\<lambda>x. d_checked (h x))) Q"
  by (auto simp: yields_def sbind_Inr_iff d_checked_def split: option.splits)

lemma yields_times:
  assumes "decoding f" and "yields f Q"
  shows "yields (d_times n f) (\<lambda>v. list_all (Q v))"
proof (induction n)
  case (Suc n)
  have "list_all (Q (dversion d)) ys" if p: "pool_inv (dpool d)" and t: "d_times (Suc n) f d = (Inr ys, d')" for d ys d'
  proof (cases "r_done (dr d)")
    case False
    then obtain x d1 zs where 1: "f d = (Inr x, d1)" "d_times n f d1 = (Inr zs, d')" "ys = x # zs"
      using t by (auto simp: sbind_Inr_iff)
    have "Q (dversion d) x" using assms(2) p 1(1) by (simp add: yields_def)
    moreover have "list_all (Q (dversion d)) zs" using Suc 1(2) keeps_version [OF assms(1) p 1(1)] unfolding yields_def by metis
    ultimately show ?thesis using 1(3) by simp
  qed (use t in simp)
  then show ?case by (simp add: yields_def)
qed (simp add: yields_def)

lemma yields_table: "decoding f \<Longrightarrow> yields f Q \<Longrightarrow> yields (d_table f) (\<lambda>v. list_all (Q v))"
  unfolding d_table_def by (intro yields_bind decoding_reads yields_times)

lemma attribute_ok:
  assumes "\<And>loc. decoding (rec loc)"
  shows "yields (attribute rec name body loc) (\<lambda>v a. list_all (attr_ok v) (kept mode name body a))"
proof -
  have "attr_ok (dversion d) a" if p: "pool_inv (dpool d)" "attribute rec name body loc d = (Inr (Some a), d')" for d a d'
  proof (cases "attr_gate name loc (dversion d)")
    case True
    let ?d = "d\<lparr>dr := \<lparr>rb = body, roff = 0, rfile = rfile (dr d), rerr = None\<rparr>\<rparr>"
    obtain s where "attribute_body rec name body (dmode d) ?d = (Inr (Some a), s)"
      using p(2) True by (auto simp: attribute_def nested_def split: prod.splits)
    from attribute_body_ok [OF this _ assms] show ?thesis using p(1) by simp
  qed (use p in \<open>auto simp: attribute_def\<close>)
  then show ?thesis by (auto simp: yields_def kept_def split: option.splits)
qed

lemma turn_ok:
  assumes "\<And>loc. decoding (rec loc)"
  shows "yields (attribute_turn rec loc) (\<lambda>v. list_all (attr_ok v))"
proof -
  have u: "yields (\<lambda>d. if r_done (dr d) then (Inr [], d) else F d d) (\<lambda>v. list_all (attr_ok v))"
    if "\<And>d0. yields (F d0) (\<lambda>v. list_all (attr_ok v))" for F :: "decoder \<Rightarrow> attrs dec"
    using that by (auto simp: yields_def)
  show ?thesis
    unfolding attribute_turn_def
    by (intro yields_bind decoding_reads decoding_lookups u yields_map [OF attribute_ok] assms)
qed

lemma attributes_ok: "yields (attributes loc) (\<lambda>v. list_all (attr_ok v))"
proof -
  have r: "decoding (attributes_at 1 l)" for l by (rule decoding_attributes_at)
  have "yields (d_table (attribute_turn (attributes_at 1) loc)) (\<lambda>v. list_all (list_all (attr_ok v)))"
    by (intro yields_table decoding_turn turn_ok r)
  then have "yields (attributes_with (attributes_at 1) loc) (\<lambda>v. list_all (attr_ok v))"
    unfolding attributes_with_def by (rule yields_checked) (auto simp: list_all_iff)
  then show ?thesis by (simp add: attributes_def numeral_2_eq_2)
qed

section \<open>Members\<close>

definition field_sound :: "version \<Rightarrow> field \<Rightarrow> bool" where
  "field_sound v f \<longleftrightarrow> list_all (attr_ok v) (fAttrs f) \<and>
     (\<forall>c. fConstantValue f = Some c \<longrightarrow> cTag c \<in> {TagInteger, TagFloat, TagLong, TagDouble, TagString})"

definition method_sound :: "version \<Rightarrow> jmethod \<Rightarrow> bool" where
  "method_sound v m \<longleftrightarrow> list_all (attr_ok v) (jmAttrs m) \<and>
     (\<forall>c. jmCode m = Some c \<longrightarrow> Code c \<in> set (jmAttrs m) \<and> 1 \<le> length (caBytes c) \<and> length (caBytes c) \<le> 65535)"

lemma hoisted_constant:
  "fAttrs (fold hoist_field_attr as f) = fAttrs f \<and>
   (fConstantValue (fold hoist_field_attr as f) = fConstantValue f \<or> (\<exists>c. fConstantValue (fold hoist_field_attr as f) = Some c \<and> ConstantValue c \<in> set as))"
proof (induction as arbitrary: f)
  case (Cons a as)
  show ?case using Cons [of "hoist_field_attr a f"] by (cases a) auto
qed simp

lemma hoisted_code:
  "jmAttrs (fold hoist_method_attr as m) = jmAttrs m \<and>
   (jmCode (fold hoist_method_attr as m) = jmCode m \<or> (\<exists>c. jmCode (fold hoist_method_attr as m) = Some c \<and> Code c \<in> set as))"
proof (induction as arbitrary: m)
  case (Cons a as)
  show ?case using Cons [of "hoist_method_attr a m"] by (cases a) auto
qed simp

lemma hoisted_bootstraps:
  "pbsms (jcPool (fold hoist_class_attr as c)) = pbsms (jcPool c) \<or>
     (BootstrapMethods (pbsms (jcPool (fold hoist_class_attr as c))) \<in> set as)"
  "jcVersion (fold hoist_class_attr as c) = jcVersion c" "jcFields (fold hoist_class_attr as c) = jcFields c"
  "jcMethods (fold hoist_class_attr as c) = jcMethods c" "jcAttrs (fold hoist_class_attr as c) = jcAttrs c" "pool_inv (jcPool (fold hoist_class_attr as c)) = pool_inv (jcPool c)"
proof (induction as arbitrary: c)
  case (Cons a as)
  have p: "pool_inv (q\<lparr>pbsms := x\<rparr>) = pool_inv q" for q x by (simp add: pool_inv_def entry_bytes_def)
  {
    case 1
    show ?case using Cons.IH(1) [of "hoist_class_attr a c"] by (cases a) auto
  next
    case 2
    show ?case using Cons.IH(2) [of "hoist_class_attr a c"] by (cases a) auto
  next
    case 3
    show ?case using Cons.IH(3) [of "hoist_class_attr a c"] by (cases a) auto
  next
    case 4
    show ?case using Cons.IH(4) [of "hoist_class_attr a c"] by (cases a) auto
  next
    case 5
    show ?case using Cons.IH(5) [of "hoist_class_attr a c"] by (cases a) auto
  next
    case 6
    show ?case using Cons.IH(6) [of "hoist_class_attr a c"] by (cases a) (auto simp: p)
  }
qed simp_all

lemma hoisted_field_sound:
  assumes "list_all (attr_ok v) (fAttrs f)" and "fConstantValue f = None"
  shows "field_sound v (fold hoist_field_attr (fAttrs f) f)"
proof -
  have "attr_ok v (ConstantValue c)" if "ConstantValue c \<in> set (fAttrs f)" for c using assms(1) that unfolding list_all_iff by blast
  then have "cTag c \<in> {TagInteger, TagFloat, TagLong, TagDouble, TagString}"
    if "fConstantValue (fold hoist_field_attr (fAttrs f) f) = Some c" for c
    using that hoisted_constant [of "fAttrs f" f] assms(2) unfolding attr_ok.simps by fastforce
  then show ?thesis using hoisted_constant [of "fAttrs f" f] assms(1) unfolding field_sound_def by simp
qed

lemma hoisted_method_sound:
  assumes "list_all (attr_ok v) (jmAttrs m)" and "jmCode m = None"
  shows "method_sound v (fold hoist_method_attr (jmAttrs m) m)"
proof -
  have "attr_ok v (Code c)" if "Code c \<in> set (jmAttrs m)" for c using assms(1) that unfolding list_all_iff by blast
  then show ?thesis using hoisted_code [of "jmAttrs m" m] assms by (auto simp: method_sound_def)
qed

lemma decoding_name: "decoding (sbind (d_read r_u2) dec_utf8)"
  by (intro decoding_intros)

lemma member_sound: "yields (member loc) field_sound"
  unfolding member_def
proof (rule yields_bind [OF decoding_reads(2)], rule yields_bind [OF decoding_name], rule yields_bind [OF decoding_name],
    rule yields_map [OF attributes_ok])
  fix fl name ds v as
  assume "list_all (attr_ok v) as"
  then show "field_sound v (fold hoist_field_attr as \<lparr>fFlags = fl, fName = name, fDescriptor = ds, fAttrs = as,
         fConstantValue = None, fSignature = [], fDeprecated = False, fSynthetic = False\<rparr>)"
    using hoisted_field_sound [of v "\<lparr>fFlags = fl, fName = name, fDescriptor = ds, fAttrs = as,
         fConstantValue = None, fSignature = [], fDeprecated = False, fSynthetic = False\<rparr>"] by simp
qed

lemma method_is_sound: "yields dec_method method_sound"
  unfolding dec_method_def
proof (rule yields_bind [OF decoding_reads(2)], rule yields_bind [OF decoding_name], rule yields_bind [OF decoding_name],
    rule yields_map [OF attributes_ok])
  fix fl name ds v as
  assume "list_all (attr_ok v) as"
  then show "method_sound v (fold hoist_method_attr as \<lparr>jmFlags = fl, jmName = name, jmDescriptor = ds, jmAttrs = as,
         jmCode = None, jmExceptions = [], jmSignature = [], jmDeprecated = False, jmSynthetic = False\<rparr>)"
    using hoisted_method_sound [of v "\<lparr>jmFlags = fl, jmName = name, jmDescriptor = ds, jmAttrs = as,
         jmCode = None, jmExceptions = [], jmSignature = [], jmDeprecated = False, jmSynthetic = False\<rparr>"] by simp
qed

lemma members_sound: "yields (members loc) (\<lambda>v. list_all (field_sound v))" "yields methods (\<lambda>v. list_all (method_sound v))"
  unfolding members_def methods_def
  using yields_checked [OF yields_table [OF decoding_members(1) member_sound], where h = "\<lambda>x. x"]
    yields_checked [OF yields_table [OF decoding_members(3) method_is_sound], where h = "\<lambda>x. x"] by simp_all

lemma decoding_super: "decoding (read_super name fl)"
proof -
  have "decoding (if super \<noteq> 0 then dec_class super else if c then dec_throw e else sret x)" for super c e x
    by (simp add: decoding_lookups decoding_throw decoding_ret)
  then show ?thesis unfolding read_super_def by (intro decoding_bind decoding_reads)
qed

text \<open>What \<open>read\<close> promises of a class, and that the cursor ended exactly at the end of the input.\<close>

definition class_sound :: "jclass \<Rightarrow> bool" where
  "class_sound c \<longleftrightarrow> pool_inv (jcPool c) \<and> list_all (field_sound (jcVersion c)) (jcFields c) \<and>
     list_all (method_sound (jcVersion c)) (jcMethods c) \<and> list_all (attr_ok (jcVersion c)) (jcAttrs c) \<and>
     (pbsms (jcPool c) = [] \<or> list_all (\<lambda>m. legal_handle (jcVersion c) (bmMethod m)) (pbsms (jcPool c)))"

lemma read_class_sound:
  assumes "read_class v d = (Inr c, d')" and "pool_inv (dpool d)" and "dversion d = v" and "pbsms (dpool d) = []"
  shows "class_sound c \<and> jcVersion c = v"
proof -
  obtain fl d1 name d2 super d3 ifaces d4 fs d5 ms d6 as d7 where r: "d_read r_u2 d = (Inr fl, d1)"
    "sbind (d_read r_u2) dec_class d1 = (Inr name, d2)" "read_super name fl d2 = (Inr super, d3)"
    "d_table (sbind (d_read r_u2) dec_class) d3 = (Inr ifaces, d4)" "members locField d4 = (Inr fs, d5)" "methods d5 = (Inr ms, d6)"
    "attributes locClass d6 = (Inr as, d7)"
    and c: "c = hoistClass \<lparr>jcVersion = v, jcPool = dpool d7, jcFlags = fl, jcName = name, jcSuper = super,
                 jcInterfaces = ifaces, jcFields = fs, jcMethods = ms, jcAttrs = as, jcSourceFile = [], jcSignature = [],
                 jcNestHost = [], jcDeprecated = False, jcSynthetic = False\<rparr>"
    using assms(1) unfolding read_class_def by (auto simp: sbind_Inr_iff [of "d_read r_u2"] sbind_Inr_iff [of "sbind _ _"] sbind_Inr_iff
        split: option.splits if_splits)
  have k1: "dec_keeps d d1" using decoding.keeps [OF decoding_reads(2) assms(2) r(1)] .
  have k2: "dec_keeps d1 d2" by (rule decoding.keeps [OF decoding_bind [OF decoding_reads(2) decoding_lookups(2)] _ r(2)]) (use k1 in \<open>simp add: dec_keeps_def\<close>)
  have k3: "dec_keeps d2 d3" by (rule decoding.keeps [OF decoding_super _ r(3)]) (use k2 in \<open>auto simp: dec_keeps_def\<close>)
  have k4: "dec_keeps d3 d4" by (rule decoding.keeps [OF decoding_table [OF decoding_bind [OF decoding_reads(2) decoding_lookups(2)]] _ r(4)])
    (use k3 in \<open>simp add: dec_keeps_def\<close>)
  have k5: "dec_keeps d4 d5" by (rule decoding.keeps [OF decoding_members(2) _ r(5)]) (use k4 in \<open>auto simp: dec_keeps_def\<close>)
  have k6: "dec_keeps d5 d6" by (rule decoding.keeps [OF decoding_members(4) _ r(6)]) (use k5 in \<open>auto simp: dec_keeps_def\<close>)
  have k7: "dec_keeps d6 d7" by (rule attributes.keeps [OF _ r(7)]) (use k6 in \<open>auto simp: dec_keeps_def\<close>)
  have v: "dversion d4 = v" "dversion d5 = v" "dversion d6 = v" "pool_inv (dpool d4)" "pool_inv (dpool d5)" "pool_inv (dpool d6)" "pool_inv (dpool d7)"
    using k1 k2 k3 k4 k5 k6 k7 assms(3) by (simp_all add: dec_keeps_def)
  have "list_all (field_sound v) fs" "list_all (method_sound v) ms" "list_all (attr_ok v) as"
    using members_sound attributes_ok [of locClass] r(5-7) v unfolding yields_def by metis+
  moreover have "pbsms (dpool d7) = []" using k1 k2 k3 k4 k5 k6 k7 assms(4) by (simp add: dec_keeps_def same_pool_def)
  moreover have "list_all (\<lambda>m. legal_handle v (bmMethod m)) bs" if "BootstrapMethods bs \<in> set as" for bs
    using \<open>list_all (attr_ok v) as\<close> that unfolding list_all_iff by (metis attr_ok.simps(3) list_all_iff)
  ultimately show ?thesis
    using v(7) hoisted_bootstraps(1) [of as "\<lparr>jcVersion = v, jcPool = dpool d7, jcFlags = fl, jcName = name, jcSuper = super,
                 jcInterfaces = ifaces, jcFields = fs, jcMethods = ms, jcAttrs = as, jcSourceFile = [], jcSignature = [],
                 jcNestHost = [], jcDeprecated = False, jcSynthetic = False\<rparr>"]
    by (auto simp: c class_sound_def hoistClass_def hoisted_bootstraps)
qed

lemma join_u4:
  "be_u4 (push_bit 24 (ucast a) OR push_bit 16 (ucast b) OR push_bit 8 (ucast c) OR ucast d) = [a, b, c, d :: u8]"
proof -
  let ?w = "push_bit 24 (ucast a) OR push_bit 16 (ucast b) OR push_bit 8 (ucast c) OR ucast d :: u32"
  have "ucast (drop_bit 24 ?w) = a" "ucast (drop_bit 16 ?w) = b" "ucast (drop_bit 8 ?w) = c" "ucast ?w = d"
    by (rule bit_word_eqI; auto simp: bit_simps dest: bit_imp_le_length)+
  then show ?thesis by (simp add: be_u4_def)
qed

lemma u4_first:
  assumes "r_u4 \<lparr>rb = b, roff = 0, rfile = f, rerr = None\<rparr> = (v, r)" and "v \<noteq> 0"
  shows "take 4 b = be_u4 v \<and> r = \<lparr>rb = b, roff = 4, rfile = f, rerr = None\<rparr>"
proof -
  have l: "4 \<le> length b" using assms by (auto simp: r_u4_def r_short_def split: if_splits)
  then obtain a0 a1 a2 a3 t where b: "b = a0 # a1 # a2 # a3 # t"
    by (cases b; cases "tl b"; cases "tl (tl b)"; cases "tl (tl (tl b))") auto
  then show ?thesis using assms(1) join_u4 [of a0 a1 a2 a3] by (auto simp: r_u4_def r_short_def)
qed

section \<open>Keeping the bytes\<close>

lemma u2_split: "be_u2 (push_bit 8 (ucast a) OR ucast b) = [a, b :: u8]"
proof -
  let ?w = "push_bit 8 (ucast a) OR ucast b :: u16"
  have "ucast (drop_bit 8 ?w) = a" "ucast ?w = b"
    by (rule bit_word_eqI; auto simp: bit_simps dest: bit_imp_le_length)+
  then show ?thesis by (simp add: be_u2_def)
qed

text \<open>What a successful read took from the input.\<close>

lemma took_u2:
  assumes "r_u2 r = (v, r')" and "rerr r' = None" and "roff r \<le> length (rb r)"
  shows "rest r = be_u2 v @ rest r' \<and> reader_ok r'"
proof -
  have l: "2 \<le> length (rest r)" "reader_ok r"
    using assms by (cases rule: r_short_cases [of 2 "''u2''" r]; force simp: r_u2_def rest_def reader_ok_def)+
  then obtain a b t where "rest r = a # b # t" by (cases "rest r"; cases "tl (rest r)") auto
  then have "rest r = be_u2 (push_bit 8 (ucast a) OR ucast b) @ t" by (simp add: u2_split)
  from r_u2_read [OF l(2) this] this show ?thesis using assms(1) reader_ok_advance [OF l(2), of 2] l(1) by auto
qed

lemma took_u4:
  assumes "r_u4 r = (v, r')" and "rerr r' = None" and "roff r \<le> length (rb r)"
  shows "rest r = be_u4 v @ rest r' \<and> reader_ok r'"
proof -
  have l: "4 \<le> length (rest r)" "reader_ok r"
    using assms by (cases rule: r_short_cases [of 4 "''u4''" r]; force simp: r_u4_def rest_def reader_ok_def)+
  then obtain a b c d t where "rest r = a # b # c # d # t"
    by (cases "rest r"; cases "tl (rest r)"; cases "tl (tl (rest r))"; cases "tl (tl (tl (rest r)))") auto
  then have "rest r = be_u4 (push_bit 24 (ucast a) OR push_bit 16 (ucast b) OR push_bit 8 (ucast c) OR ucast d) @ t" by (simp add: join_u4)
  from r_u4_read [OF l(2) this] this show ?thesis using assms(1) reader_ok_advance [OF l(2), of 4] l(1) by auto
qed

lemma took_bytes:
  assumes "r_bytes (uint (n :: u32)) r = (b, r')" and "rerr r' = None" and "roff r \<le> length (rb r)"
  shows "rest r = b @ rest r' \<and> reader_ok r' \<and> word_of_nat (length b) = n"
proof -
  have o: "roff r + unat n \<le> length (rb r) \<and> b = take (unat n) (drop (roff r) (rb r)) \<and> r' = advance (unat n) r \<and> rerr r = None"
    by (rule r_bytes_ok [OF assms(1) [unfolded uint_nat] assms(2)])
  then have "b = take (unat n) (rest r)" "rest r' = drop (unat n) (rest r)" "length b = unat n" by (auto simp: rest_def min_def add.commute)
  then show ?thesis using o by (simp add: reader_ok_def)
qed

lemma raw_attribute:
  assumes "attribute rec name body loc d = (Inr (Some (Raw n b)), d')"
  shows "n = name \<and> b = body"
proof (cases "attr_gate name loc (dversion d)")
  case True
  then obtain s s' where "attribute_body rec name body (dmode d) s = (Inr (Some (Raw n b)), s')"
    using assms by (auto simp: attribute_def nested_def split: prod.splits)
  then show ?thesis
    by (auto simp: attribute_body_def Let_def as_attr_Inr sbind_Inr_iff orErr_Inr dec_enclosing_method_def dec_constant_value_def
        split: if_splits)
qed (use assms in \<open>auto simp: attribute_def\<close>)

lemma raws_append: "attrs_Raws (as @ bs) = attrs_Raws as @ attrs_Raws bs"
  by (induction as rule: attrs_Raws.induct) simp_all

lemma kept_raw:
  assumes "mode AND KeepRaw \<noteq> 0" and "\<And>n b. a = Some (Raw n b) \<Longrightarrow> n = name \<and> b = body"
  shows "attrs_Raws (kept mode name body a) = [Raw name body]"
proof (cases a)
  case (Some x)
  then show ?thesis using assms by (cases x) (auto simp: kept_def)
qed (use assms in \<open>simp add: kept_def\<close>)

lemma attribute_reader: "attribute rec name body loc d = (x, d') \<Longrightarrow> dr d' = dr d"
  by (auto simp: attribute_def nested_def split: if_splits prod.splits)

text \<open>A table row as it stands in the file: name index, name, body.\<close>

type_synonym raw_row = "u16 \<times> string \<times> bytes"

definition row_bytes :: "raw_row \<Rightarrow> bytes" where
  "row_bytes = (\<lambda>(i, n, b). be_u2 i @ be_u4 (word_of_nat (length b)) @ b)"

definition raw_of :: "raw_row \<Rightarrow> attr" where
  "raw_of = (\<lambda>(i, n, b). Raw n b)"

definition row_named :: "pool \<Rightarrow> raw_row \<Rightarrow> bool" where
  "row_named p = (\<lambda>(i, n, b). fst (pool_UTF8 i p) = Inr n)"

lemma row_named_same: "pool_inv p \<Longrightarrow> pool_inv q \<Longrightarrow> same_pool p q \<Longrightarrow> row_named p row = row_named q row"
  by (cases row) (simp only: row_named_def prod.case utf8.stable [of p q])

lemma turn_raw:
  assumes t: "attribute_turn rec loc d = (Inr as, d')" and m: "dmode d AND KeepRaw \<noteq> 0" and p: "pool_inv (dpool d)"
    and r: "roff (dr d) \<le> length (rb (dr d))" "rerr (dr d') = None"
  shows "\<exists>row. attrs_Raws as = [raw_of row] \<and> rest (dr d) = row_bytes row @ rest (dr d') \<and> row_named (dpool d) row \<and> reader_ok (dr d')"
proof -
  obtain i r1 where 1: "r_u2 (dr d) = (i, r1)" by fastforce
  obtain n r2 where 2: "r_u4 r1 = (n, r2)" by fastforce
  let ?d = "d\<lparr>dr := r2\<rparr>"
  have k: "moves (dr d) r1" "moves r1 r2" using u2.moves_op [OF 1] u4.moves_op [OF 2] by blast+
  have nd: "\<not> r_done r2" using t 1 2 r(2) by (auto simp: attribute_turn_def sbind_def d_read_def r_done_def split: if_splits)
  obtain x q where 3: "pool_UTF8 i (dpool d) = (x, q)" by fastforce
  obtain b r3 where 4: "r_bytes (uint n) r2 = (b, r3)" by fastforce
  obtain name where x: "x = Inr name"
    using t 1 2 3 nd by (cases x) (auto simp: attribute_turn_def sbind_def d_read_def dec_utf8_def d_pool_def)
  have nd3: "\<not> r_done r3" using t 1 2 3 4 nd x r(2)
    by (auto simp: attribute_turn_def sbind_def d_read_def dec_utf8_def d_pool_def r_done_def split: if_splits)
  let ?e = "d\<lparr>dpool := q, dr := r3\<rparr>"
  obtain a where a: "attribute rec name b loc ?e = (Inr a, d')" "as = kept (dmode d) name b a"
    using t 1 2 3 4 nd x nd3 by (auto simp: attribute_turn_def sbind_Inr_iff d_read_def dec_utf8_def d_pool_def)
  have r': "dr d' = r3" using attribute_reader [OF a(1)] by simp
  have e: "rerr r1 = None" "rerr r2 = None" using nd k(2) by (auto simp: r_done_def moves_def)
  have o: "roff r1 \<le> length (rb r1)" "roff r2 \<le> length (rb r2)" using r(1) k by (auto simp: moves_def)
  have "rest (dr d) = row_bytes (i, name, b) @ rest (dr d') \<and> reader_ok (dr d')"
    using took_u2 [OF 1 e(1) r(1)] took_u4 [OF 2 e(2) o(1)] took_bytes [OF 4 _ o(2)] nd3 by (auto simp: r' row_bytes_def r_done_def)
  moreover have "attrs_Raws as = [raw_of (i, name, b)]"
  proof -
    have "n = name \<and> x = b" if "a = Some (Raw n x)" for n x using raw_attribute [of rec name b loc ?e n x d'] a(1) that by simp
    then show ?thesis using kept_raw [OF m, of a name b] a(2) by (simp add: raw_of_def)
  qed
  moreover have "row_named (dpool d) (i, name, b)" using 3 x by (simp add: row_named_def)
  ultimately show ?thesis by blast
qed

lemma times_raw:
  assumes "decoding (attribute_turn rec loc)"
  shows "d_times n (attribute_turn rec loc) d = (Inr ass, d') \<Longrightarrow> dmode d AND KeepRaw \<noteq> 0 \<Longrightarrow> pool_inv (dpool d) \<Longrightarrow>
    roff (dr d) \<le> length (rb (dr d)) \<Longrightarrow> rerr (dr d') = None \<Longrightarrow>
    \<exists>rows. attrs_Raws (concat ass) = map raw_of rows \<and> rest (dr d) = concat (map row_bytes rows) @ rest (dr d') \<and>
      list_all (row_named (dpool d)) rows \<and> length rows = n"
proof (induction n arbitrary: d ass)
  case 0
  then show ?case by (intro exI [of _ "[]"]) simp
next
  case (Suc n)
  have "\<not> r_done (dr d)"
    using Suc.prems(1,5) by (auto simp: r_done_def split: if_splits)
  then obtain as d1 bs where 1: "attribute_turn rec loc d = (Inr as, d1)" "d_times n (attribute_turn rec loc) d1 = (Inr bs, d')" "ass = as # bs"
    using Suc.prems(1) by (auto simp: sbind_Inr_iff)
  have k: "dec_keeps d d1" using decoding.keeps [OF assms Suc.prems(3) 1(1)] .
  have "dec_keeps d1 d'" using decoding.keeps [OF decoding_times [OF assms] _ 1(2)] k by (simp add: dec_keeps_def)
  then have e: "rerr (dr d1) = None" using Suc.prems(5) by (auto simp: dec_keeps_def moves_def)
  obtain row where row: "attrs_Raws as = [raw_of row]" "rest (dr d) = row_bytes row @ rest (dr d1)" "row_named (dpool d) row" "reader_ok (dr d1)"
    using turn_raw [OF 1(1) Suc.prems(2-4) e] by blast
  have d1: "dmode d1 AND KeepRaw \<noteq> 0" "pool_inv (dpool d1)" "roff (dr d1) \<le> length (rb (dr d1))"
    using k Suc.prems(2) row(4) by (simp_all add: dec_keeps_def reader_ok_def)
  obtain rows where rows: "attrs_Raws (concat bs) = map raw_of rows" "rest (dr d1) = concat (map row_bytes rows) @ rest (dr d')"
    "list_all (row_named (dpool d1)) rows" "length rows = n"
    using Suc.IH [OF 1(2) d1 Suc.prems(5)] by blast
  have "list_all (row_named (dpool d)) rows"
    using rows(3) row_named_same [OF Suc.prems(3) d1(2)] k by (simp add: dec_keeps_def list_all_iff)
  then show ?case using row rows 1(3) by (intro exI [of _ "row # rows"]) (simp add: raws_append)
qed

section \<open>Properties\<close>

text \<open>C20: what \<open>read\<close> guarantees of any file it accepts, in any mode, for input below 4 GiB: the input starts
  with the magic number and its version passes the version rules; the pool's memo is consistent with its
  bytes; every code array, hoisted or in an attribute table, has between 1 and 65535 bytes and the hoisted
  one is the method's own attribute; every field constant is one of the five kinds a field may have; and
  every bootstrap method's handle obeys the form and naming rules of its kind.\<close>

theorem read_sound:
  assumes "read b path mode = Inr c" and "length b < 2 ^ 32"
  shows "take 4 b = be_u4 0xCAFEBABE \<and> version_check (jcVersion c) (mode AND AllowPreview \<noteq> 0) = None \<and> class_sound c"
proof -
  let ?r = "\<lparr>rb = b, roff = 0, rfile = path, rerr = None\<rparr> :: reader"
  obtain m r1 where 1: "r_u4 ?r = (m, r1)" by fastforce
  have m: "m = 0xCAFEBABE" using assms(1) 1 by (auto simp: read_def Let_def split: if_splits option.splits)
  have t: "take 4 b = be_u4 0xCAFEBABE" "r1 = \<lparr>rb = b, roff = 4, rfile = path, rerr = None\<rparr>" "4 \<le> length b"
    using u4_first [OF 1] 1 m by (auto simp: r_u4_def r_short_def split: if_splits)
  obtain mi r2 ma r3 where 2: "r_u2 r1 = (mi, r2)" "r_u2 r2 = (ma, r3)" by fastforce
  have k: "moves r1 r3" using u2.moves_op [OF 2(1)] u2.moves_op [OF 2(2)] moves_trans by blast
  let ?v = "\<lparr>vMajor = ma, vMinor = mi\<rparr>"
  obtain p r4 where 3: "readPool ?v r3 = (p, r4)" by fastforce
  obtain q where ok: "rerr r3 = None" "version_check ?v (mode AND AllowPreview \<noteq> 0) = None" "rerr r4 = None" "p = Some q"
    "fst (read_class ?v \<lparr>dr = r4, dpool = q, dversion = ?v, dmode = mode\<rparr>) = Inr c"
    using assms(1) 1 2 3 m by (auto simp: read_def Let_def split: option.splits)
  have "pool_inv q" "pbsms q = []"
    using readPool_sound_lemma [of ?v r3 q r4] 3 ok(3,4) k t(2,3) assms(2) by (auto simp: moves_def)
  then have "class_sound c \<and> jcVersion c = ?v"
    using read_class_sound [of ?v "\<lparr>dr = r4, dpool = q, dversion = ?v, dmode = mode\<rparr>" c] ok(5) by (metis decoder.select_convs(2,3) prod.collapse)
  then show ?thesis using t(1) ok(2) by simp
qed

definition object_file :: bytes where
  "object_file = [0xCA, 0xFE, 0xBA, 0xBE, 0, 0, 0, 49, 0, 3, 1, 0, 16, 106, 97, 118, 97, 47, 108, 97, 110, 103, 47, 79, 98, 106, 101, 99, 116,
     7, 0, 1, 0, 33, 0, 2, 0, 0, 0, 0, 0, 0, 0, 0, 0, 0]"

lemma object_file_read: "\<exists>c. read object_file [] 0 = Inr c"
proof -
  have "case read object_file [] 0 of Inr c \<Rightarrow> True | Inl e \<Rightarrow> False" by code_simp
  then show ?thesis by (auto split: sum.splits)
qed

theorem read_sound_witness: "\<exists>c. read object_file [] 0 = Inr c \<and> class_sound c"
proof -
  obtain c where c: "read object_file [] 0 = Inr c" using object_file_read by blast
  then show ?thesis using read_sound [OF c] by (auto simp: object_file_def)
qed

text \<open>C21: \<open>KeepRaw\<close> retains the bytes. Under a mode with \<open>KeepRaw\<close>, whatever other flags are set, the \<open>Raw\<close> entries of
  an attribute table that was read are, in order, exactly the rows of the table in the file: writing each
  one's name index, length and bytes after the count gives back the bytes the decoder consumed, and each
  name is what the row's name index resolves to.\<close>

theorem KeepRaw_exact:
  assumes "attributes loc d = (Inr as, d')" and "dmode d AND KeepRaw \<noteq> 0" and "pool_inv (dpool d)" and "reader_ok (dr d)"
  shows "\<exists>rows. attrs_Raws as = map raw_of rows \<and> list_all (row_named (dpool d)) rows \<and>
    rest (dr d) = be_u2 (word_of_nat (length rows)) @ concat (map row_bytes rows) @ rest (dr d')"
proof -
  let ?t = "attribute_turn (attributes_at 1) loc"
  have dt: "decoding ?t" by (intro decoding_turn decoding_attributes_at)
  have "attributes_with (attributes_at 1) loc d = (Inr as, d')" using assms(1) by (simp add: attributes_def numeral_2_eq_2)
  then obtain n d1 ass where 1: "d_read r_u2 d = (Inr n, d1)" "d_times (unat n) ?t d1 = (Inr ass, d')" "rerr (dr d') = None" "as = concat ass"
    by (auto simp: attributes_with_def d_table_def sbind_Inr_iff d_checked_def split: option.splits)
  have u: "r_u2 (dr d) = (n, dr d1)" "dpool d1 = dpool d" "dmode d1 = dmode d" using 1(1) by (auto simp: d_read_def split: prod.splits)
  have "dec_keeps d1 d'" using decoding.keeps [OF decoding_times [OF dt] _ 1(2)] assms(3) u(2) by simp
  then have e: "rerr (dr d1) = None" using 1(3) by (auto simp: dec_keeps_def moves_def)
  have r: "rest (dr d) = be_u2 n @ rest (dr d1)" "roff (dr d1) \<le> length (rb (dr d1))"
    using took_u2 [OF u(1) e] assms(4) by (auto simp: reader_ok_def)
  obtain rows where rows: "attrs_Raws (concat ass) = map raw_of rows" "rest (dr d1) = concat (map row_bytes rows) @ rest (dr d')"
    "list_all (row_named (dpool d1)) rows" "length rows = unat n"
    using times_raw [OF dt 1(2) _ _ r(2) 1(3)] assms(2,3) u(2,3) by auto
  then show ?thesis using r(1) u(2) 1(4) by (intro exI [of _ rows]) (simp add: rows(4))
qed

definition raw_decoder :: decoder where
  "raw_decoder = \<lparr>dr = \<lparr>rb = [0, 1, 0, 1, 0, 0, 0, 2, 5, 6], roff = 0, rfile = [], rerr = None\<rparr>,
     dpool = \<lparr>pentries = [zero_entry, \<lparr>etag = 1, ea = 0, eb = 1\<rparr>], psrc = [65], pstrs = [[], []], pstrOK = [False, False], pbsms = [], pfile = []\<rparr>,
     dversion = \<lparr>vMajor = 49, vMinor = 0\<rparr>, dmode = 10\<rparr>"

theorem KeepRaw_exact_witness:
  "\<exists>as d' rows. attributes locClass raw_decoder = (Inr as, d') \<and> attrs_Raws as = map raw_of rows \<and> list_all (row_named (dpool raw_decoder)) rows"
proof -
  have "case attributes locClass raw_decoder of (Inr as, d') \<Rightarrow> True | _ \<Rightarrow> False" by code_simp
  then obtain as d' where a: "attributes locClass raw_decoder = (Inr as, d')" by (auto split: prod.splits sum.splits)
  have "pool_inv (dpool raw_decoder)" by (simp add: raw_decoder_def pool_inv_def less_Suc_eq numeral_2_eq_2)
  then show ?thesis using KeepRaw_exact [OF a] a by (auto simp: raw_decoder_def reader_ok_def)
qed

end
