(* ===== verification/ReadBack.thy ===== *)
theory ReadBack
  imports Decoder Builder
begin

unbundle bit_operations_syntax

text \<open>
  What the decoder reads from bytes a builder wrote. \<open>reads v sl bs D x\<close> says that the decoder operation
  \<open>D\<close>, started on a reader that stands before \<open>bs\<close> with a pool read from the table \<open>sl\<close>, succeeds with \<open>x\<close>
  and stops right after \<open>bs\<close>. \<open>emission\<close> is the contract between an emitter of the builder and the decoder
  operation that undoes it; the lemmas compose both the way the two programs compose their parts.
\<close>

section \<open>Reading back\<close>

definition ready :: "version \<Rightarrow> bytes option list \<Rightarrow> bytes \<Rightarrow> decoder \<Rightarrow> bool" where
  "ready v sl bs d \<longleftrightarrow> pool_of sl (dpool d) \<and> dversion d = v \<and> dmode d = 0 \<and> reader_ok (dr d) \<and>
     length (rb (dr d)) < 2 ^ 32 \<and> (\<exists>t. rest (dr d) = bs @ t)"

definition reads :: "version \<Rightarrow> bytes option list \<Rightarrow> bytes \<Rightarrow> 'a dec \<Rightarrow> 'a \<Rightarrow> bool" where
  "reads v sl bs D x \<longleftrightarrow> (\<forall>d. ready v sl bs d \<longrightarrow>
     (\<exists>q. D d = (Inr x, d\<lparr>dr := advance (length bs) (dr d), dpool := q\<rparr>) \<and> pool_of sl q))"

lemma readsI:
  assumes "\<And>d. ready v sl bs d \<Longrightarrow> \<exists>q. D d = (Inr x, d\<lparr>dr := advance (length bs) (dr d), dpool := q\<rparr>) \<and> pool_of sl q"
  shows "reads v sl bs D x"
  using assms by (simp add: reads_def)

lemma reads_pureI:
  assumes "\<And>d. ready v sl bs d \<Longrightarrow> D d = (Inr x, d\<lparr>dr := advance (length bs) (dr d)\<rparr>)"
  shows "reads v sl bs D x"
proof (rule readsI)
  fix d assume "ready v sl bs d"
  then show "\<exists>q. D d = (Inr x, d\<lparr>dr := advance (length bs) (dr d), dpool := q\<rparr>) \<and> pool_of sl q"
    using assms [of d] by (intro exI [of _ "dpool d"]) (simp add: ready_def)
qed

lemma advance_0 [simp]: "advance 0 r = r"
  by (simp add: advance_def)

lemma advance_add [simp]: "advance m (advance n r) = advance (n + m) r"
  by (simp add: advance_def add.assoc)

lemma ready_step:
  "ready v sl (a @ b) d \<Longrightarrow> pool_of sl q \<Longrightarrow> ready v sl b (d\<lparr>dr := advance (length a) (dr d), dpool := q\<rparr>)"
  by (auto simp: ready_def intro!: reader_ok_advance)

lemma ready_prefix: "ready v sl (a @ b) d \<Longrightarrow> ready v sl a d"
  by (auto simp: ready_def)

lemma reads_bind [intro]:
  assumes "reads v sl a D x" and "reads v sl b (F x) y"
  shows "reads v sl (a @ b) (sbind D F) y"
proof (rule readsI)
  fix d assume r: "ready v sl (a @ b) d"
  then obtain q where q: "D d = (Inr x, d\<lparr>dr := advance (length a) (dr d), dpool := q\<rparr>)" "pool_of sl q"
    using assms(1) ready_prefix unfolding reads_def by blast
  obtain q' where "F x (d\<lparr>dr := advance (length a) (dr d), dpool := q\<rparr>) =
      (Inr y, d\<lparr>dr := advance (length a) (dr d), dpool := q\<rparr>\<lparr>dr := advance (length b) (advance (length a) (dr d)), dpool := q'\<rparr>)"
      "pool_of sl q'"
    using assms(2) ready_step [OF r q(2)] unfolding reads_def by fastforce
  then show "\<exists>q. sbind D F d = (Inr y, d\<lparr>dr := advance (length (a @ b)) (dr d), dpool := q\<rparr>) \<and> pool_of sl q"
    using q(1) by auto
qed

lemma reads_ret [intro]: "reads v sl [] (sret x) x"
  by (rule reads_pureI) simp

lemma reads_bind0: "reads v sl a D x \<Longrightarrow> reads v sl [] (F x) y \<Longrightarrow> reads v sl a (sbind D F) y"
  using reads_bind [of v sl a D x "[]" F y] by simp

lemma reads_then_ret: "reads v sl a D x \<Longrightarrow> f x = y \<Longrightarrow> reads v sl a (sbind D (\<lambda>x. sret (f x))) y"
  using reads_bind0 [of v sl a D x "\<lambda>x. sret (f x)" y] reads_ret by blast

lemma reads_u2 [intro]: "reads v sl (be_u2 i) (d_read r_u2) i"
  by (rule reads_pureI) (auto simp: ready_def d_read_def r_u2_read)

lemma reads_u4 [intro]: "reads v sl (be_u4 i) (d_read r_u4) i"
  by (rule reads_pureI) (auto simp: ready_def d_read_def r_u4_read)

lemma reads_bytes [intro]: "n = int (length bs) \<Longrightarrow> reads v sl bs (d_read (r_bytes n)) bs"
  by (rule reads_pureI) (auto simp: ready_def d_read_def r_bytes_read)

lemma reads_pool:
  assumes "\<And>p. pool_of sl p \<Longrightarrow> fst (acc p) = Inr x" and "pool_accessor acc"
  shows "reads v sl [] (d_pool acc) x"
proof (rule readsI)
  fix d assume r: "ready v sl [] d"
  obtain y q where 1: "acc (dpool d) = (y, q)" by fastforce
  have "y = Inr x" using assms(1) [of "dpool d"] r 1 by (simp add: ready_def)
  moreover have "pool_of sl q" using pool_of_query [OF _ assms(2) 1] r by (simp add: ready_def)
  ultimately show "\<exists>q. d_pool acc d = (Inr x, d\<lparr>dr := advance (length []) (dr d), dpool := q\<rparr>) \<and> pool_of sl q"
    using 1 by (intro exI [of _ q]) (simp add: d_pool_def)
qed

lemma reads_dec_utf8: "den_utf8 sl i s \<Longrightarrow> reads v sl [] (dec_utf8 i) (utf8_clean s)"
  unfolding dec_utf8_def by (rule reads_pool) (auto simp: reads_utf8 utf8.pool_accessor_axioms)

lemma reads_dec_class: "den_ref1 TagClass sl i s \<Longrightarrow> reads v sl [] (dec_class i) (utf8_clean s)"
  unfolding dec_class_def
  by (rule reads_pool [OF _ class_name.pool_accessor_axioms]) (simp add: pool_Class_def reads_ref1)

lemma reads_utf8_idx: "den_utf8 sl i s \<Longrightarrow> reads v sl (be_u2 i) (sbind (d_read r_u2) dec_utf8) (utf8_clean s)"
  using reads_u2 reads_dec_utf8 by (rule reads_bind0)

lemma reads_class_idx: "den_ref1 TagClass sl i s \<Longrightarrow> reads v sl (be_u2 i) (sbind (d_read r_u2) dec_class) (utf8_clean s)"
  using reads_u2 reads_dec_class by (rule reads_bind0)

lemma reads_times:
  "list_all2 (\<lambda>b x. reads v sl b D x) bs xs \<Longrightarrow> reads v sl (concat bs) (d_times (length xs) D) xs"
proof (induction bs xs rule: list_all2_induct)
  case Nil
  show ?case by (rule reads_pureI) simp
next
  case (Cons b bs x xs)
  have "reads v sl (b @ concat bs) (sbind D (\<lambda>x. sbind (d_times (length xs) D) (\<lambda>xs. sret (x # xs)))) (x # xs)"
    using Cons by (intro reads_bind reads_then_ret) auto
  then show ?case by (auto simp: reads_def ready_def r_done_def reader_ok_def)
qed

lemma reads_table:
  assumes "list_all2 (\<lambda>b x. reads v sl b D x) bs xs" and "length xs < 65536"
  shows "reads v sl (be_u2 (word_of_nat (length xs)) @ concat bs) (d_table D) xs"
proof -
  have "unat (word_of_nat (length xs) :: u16) = length xs"
    using assms(2) by (simp add: unsigned_of_nat take_bit_nat_eq_self)
  then show ?thesis
    unfolding d_table_def using reads_times [OF assms(1)] by (intro reads_bind [OF reads_u2]) simp
qed

lemma reads_checked: "reads v sl [] (d_checked x) x"
  by (rule reads_pureI) (auto simp: ready_def d_checked_def reader_ok_def)

section \<open>Attributes\<close>

text \<open>A body that its decoder consumes exactly.\<close>

lemma nested_reads:
  assumes "reads v sl body D x" and "ready v sl [] d" and "length body < 2 ^ 32"
  obtains q where "nested body (sbind D (\<lambda>x. sbind (orErr (f x)) (\<lambda>a. sret (g a)))) d = (Inr (g (f x)), d\<lparr>dpool := q\<rparr>)"
    and "pool_of sl q"
proof -
  let ?r = "\<lparr>rb = body, roff = 0, rfile = rfile (dr d), rerr = None\<rparr> :: reader"
  have "ready v sl body (d\<lparr>dr := ?r\<rparr>)" using assms(2,3) by (simp add: ready_def reader_ok_def rest_def)
  then obtain q where q: "D (d\<lparr>dr := ?r\<rparr>) = (Inr x, d\<lparr>dr := advance (length body) ?r, dpool := q\<rparr>)" "pool_of sl q"
    using assms(1) unfolding reads_def by fastforce
  then have "nested body (sbind D (\<lambda>x. sbind (orErr (f x)) (\<lambda>a. sret (g a)))) d = (Inr (g (f x)), d\<lparr>dpool := q\<rparr>)"
    by (simp add: nested_def orErr_def sbind_def)
  then show thesis using that q(2) by blast
qed

lemma sbind_assoc: "sbind (sbind D F) G = sbind D (\<lambda>x. sbind (F x) G)"
  by (rule ext) (simp add: sbind_def split: prod.splits sum.splits)

text \<open>One turn of the attribute loop over an attribute whose gate is open and whose decoder is known.\<close>

lemma reads_attribute:
  assumes gate: "attr_gate name loc v"
    and body: "attribute_body rec name bs 0 = sbind D (\<lambda>x. sbind (orErr (f x)) (\<lambda>a. sret (Some (g a))))"
    and D: "reads v sl bs D x" and nm: "den_utf8 sl i name" "utf8_clean name = name"
    and a: "g (f x) = a"
  shows "reads v sl (be_u2 i @ be_u4 (word_of_nat (length bs)) @ bs) (attribute_turn rec loc) [a]"
proof -
  have att: "reads v sl [] (sbind (attribute rec name bs loc) (\<lambda>a. sret (kept 0 name bs a))) [a]" if len: "length bs < 2 ^ 32"
  proof (rule readsI)
    fix d assume r: "ready v sl [] d"
    then have "dversion d = v" "dmode d = 0" by (simp_all add: ready_def)
    moreover obtain q where q: "nested bs (sbind D (\<lambda>x. sbind (orErr (f x)) (\<lambda>a. sret (Some (g a))))) d =
        (Inr (Some (g (f x))), d\<lparr>dpool := q\<rparr>)" "pool_of sl q"
      using nested_reads [OF D r len, where f = f and g = "\<lambda>a. Some (g a)"] by blast
    ultimately show "\<exists>q. sbind (attribute rec name bs loc) (\<lambda>a. sret (kept 0 name bs a)) d =
        (Inr [a], d\<lparr>dr := advance (length []) (dr d), dpool := q\<rparr>) \<and> pool_of sl q"
      using gate body a by (intro exI [of _ q]) (simp add: attribute_def kept_def sbind_def)
  qed
  have ok: "\<not> r_done (dr d)" if "ready v sl b d" for b d using that by (simp add: ready_def reader_ok_def r_done_def)
  have mode0: "dmode d = 0" if "ready v sl b d" for b d using that by (simp add: ready_def)
  have skip: "reads v sl b (\<lambda>d. if r_done (dr d) then X d else F d) y" if "reads v sl b F y" for b X F and y :: "attr list"
    using that ok unfolding reads_def by simp
  have skip2: "reads v sl [] (\<lambda>d. if r_done (dr d) then X d else F (dmode d) d) y" if "reads v sl [] (F 0) y" for X F and y :: "attr list"
    using that ok [of "[]"] mode0 unfolding reads_def by simp
  show ?thesis
  proof (cases "length bs < 2 ^ 32")
    case True
    then have n: "uint (word_of_nat (length bs) :: u32) = int (length bs)"
      by (simp add: unsigned_of_nat take_bit_nat_eq_self flip: uint_nat)
    have "reads v sl ([] @ bs @ []) (sbind (dec_utf8 i) (\<lambda>name. sbind (d_read (r_bytes (uint (word_of_nat (length bs) :: u32))))
        (\<lambda>body d1. if r_done (dr d1) then (Inr [], d1)
          else sbind (attribute rec name body loc) (\<lambda>a. sret (kept (dmode d1) name body a)) d1))) [a]"
      using reads_dec_utf8 [OF nm(1)] unfolding nm(2)
      by (intro reads_bind, assumption) (auto intro!: reads_bytes skip2 att True n)
    then show ?thesis
      unfolding attribute_turn_def
      by (intro reads_bind [OF reads_u2] reads_bind [OF reads_u4] skip) simp
  next
    case False
    have "\<not> ready v sl (be_u2 i @ be_u4 (word_of_nat (length bs)) @ bs) d" for d
    proof
      assume "ready v sl (be_u2 i @ be_u4 (word_of_nat (length bs)) @ bs) d"
      then obtain t where "rest (dr d) = be_u2 i @ be_u4 (word_of_nat (length bs)) @ bs @ t" "length (rb (dr d)) < 2 ^ 32"
        by (auto simp: ready_def)
      moreover have "length (rest (dr d)) \<le> length (rb (dr d))" by (simp add: rest_def)
      ultimately show False using False by simp
    qed
    then show ?thesis by (simp add: reads_def)
  qed
qed

section \<open>Emitters\<close>

text \<open>The pool side of an emitter: it only interns.\<close>

locale pool_writer =
  fixes E :: emitter
  assumes grows: "E w p = (w', p') \<Longrightarrow> pb_grows p p'"
    and inv: "E w p = (w', p') \<Longrightarrow> pb_inv p \<Longrightarrow> pb_inv p'"

text \<open>The emitter \<open>E\<close> appends bytes from which \<open>D\<close> reads \<open>x\<close>, whatever is interned later, provided no error
  was recorded and the table satisfied \<open>P\<close> before. \<open>P\<close> collects what earlier indices denote.\<close>

definition lasting :: "(bytes option list \<Rightarrow> bool) \<Rightarrow> bool" where
  "lasting P \<longleftrightarrow> (\<forall>sl y. P sl \<longrightarrow> P (sl @ y))"

locale emission = pool_writer E
  for v :: version and P :: "bytes option list \<Rightarrow> bool" and E :: emitter and D :: "'a dec" and x :: 'a +
  assumes read_back: "E w p = (w', p') \<Longrightarrow> pb_inv p \<Longrightarrow> pb_err p' = None \<Longrightarrow> P (slots p) \<Longrightarrow>
    \<exists>bs. w' = w @ bs \<and> (\<forall>y. reads v (slots p' @ y) bs D x)"

text \<open>The same for an emitter of consecutive items of one kind.\<close>

locale items = pool_writer E
  for v :: version and P :: "bytes option list \<Rightarrow> bool" and E :: emitter and D :: "'a dec" and xs :: "'a list" +
  assumes read_back: "E w p = (w', p') \<Longrightarrow> pb_inv p \<Longrightarrow> pb_err p' = None \<Longrightarrow> P (slots p) \<Longrightarrow>
    \<exists>bss. w' = w @ concat bss \<and> (\<forall>y. list_all2 (\<lambda>b x. reads v (slots p' @ y) b D x) bss xs)"

lemma pool_writer_then:
  assumes "pool_writer E" and "pool_writer F"
  shows "pool_writer (em_then E F)"
proof
  fix w p w' p'
  assume "em_then E F w p = (w', p')"
  then obtain w1 p1 where 1: "E w p = (w1, p1)" "F w1 p1 = (w', p')"
    by (auto simp: em_then_def split: prod.splits)
  show "pb_grows p p'"
    using pool_writer.grows [OF assms(1) 1(1)] pool_writer.grows [OF assms(2) 1(2)] pb_grows_trans by blast
  show "pb_inv p'" if "pb_inv p"
    using pool_writer.inv [OF assms(2) 1(2) pool_writer.inv [OF assms(1) 1(1) that]] .
qed

text \<open>What holds between two emitters run in sequence.\<close>

lemma between:
  assumes "pool_writer E" "pool_writer F" "lasting P"
    and "em_then E F w p = (w', p')" "pb_inv p" "pb_err p' = None" "P (slots p)"
  obtains w1 p1 z where "E w p = (w1, p1)" "F w1 p1 = (w', p')" "pb_inv p1" "pb_err p1 = None" "P (slots p1)"
    "slots p' = slots p1 @ z"
proof -
  obtain w1 p1 where 1: "E w p = (w1, p1)" "F w1 p1 = (w', p')"
    using assms(4) by (auto simp: em_then_def split: prod.splits)
  have g: "pb_grows p p1" "pb_grows p1 p'"
    using pool_writer.grows [OF assms(1) 1(1)] pool_writer.grows [OF assms(2) 1(2)] by blast+
  have "pb_inv p1" using pool_writer.inv [OF assms(1) 1(1) assms(5)] .
  moreover have "pb_err p1 = None" using g(2) assms(6) by (auto simp: pb_grows_def)
  moreover have "P (slots p1)" using g(1) assms(3,7) by (auto simp: pb_grows_def lasting_def)
  moreover obtain z where "slots p' = slots p1 @ z" using g(2) by (auto simp: pb_grows_def)
  ultimately show thesis using that [OF 1] by blast
qed

lemma emission_then:
  assumes E: "emission v P E D x" and F: "emission v P F (G x) y" and P: "lasting P"
  shows "emission v P (em_then E F) (sbind D G) y"
proof -
  have w: "pool_writer E" "pool_writer F" using E F by (simp_all add: emission_def)
  show ?thesis
  proof (intro emission.intro pool_writer_then [OF w] emission_axioms.intro)
    fix w p w' p'
    assume a: "em_then E F w p = (w', p')" "pb_inv p" "pb_err p' = None" "P (slots p)"
    obtain w1 p1 z where 1: "E w p = (w1, p1)" "F w1 p1 = (w', p')" "pb_inv p1" "pb_err p1 = None" "P (slots p1)"
      "slots p' = slots p1 @ z" using between [OF \<open>pool_writer E\<close> \<open>pool_writer F\<close> P a] by blast
    obtain b1 where b1: "w1 = w @ b1" "\<forall>y. reads v (slots p1 @ y) b1 D x"
      using emission.read_back [OF E 1(1) a(2) 1(4) a(4)] by blast
    obtain b2 where b2: "w' = w1 @ b2" "\<forall>z. reads v (slots p' @ z) b2 (G x) y"
      using emission.read_back [OF F 1(2,3) a(3) 1(5)] by blast
    have "reads v (slots p' @ u) (b1 @ b2) (sbind D G) y" for u
      using b1(2) b2(2) by (intro reads_bind [of _ _ _ _ x]) (simp_all add: 1(6))
    then show "\<exists>bs. w' = w @ bs \<and> (\<forall>u. reads v (slots p' @ u) bs (sbind D G) y)"
      using b1(1) b2(1) by auto
  qed
qed

lemma items_then:
  assumes E: "items v P E D xs" and F: "items v P F D ys" and P: "lasting P"
  shows "items v P (em_then E F) D (xs @ ys)"
proof -
  have w: "pool_writer E" "pool_writer F" using E F by (simp_all add: items_def)
  show ?thesis
  proof (intro items.intro pool_writer_then [OF w] items_axioms.intro)
    fix w p w' p'
    assume a: "em_then E F w p = (w', p')" "pb_inv p" "pb_err p' = None" "P (slots p)"
    obtain w1 p1 z where 1: "E w p = (w1, p1)" "F w1 p1 = (w', p')" "pb_inv p1" "pb_err p1 = None" "P (slots p1)"
      "slots p' = slots p1 @ z" using between [OF \<open>pool_writer E\<close> \<open>pool_writer F\<close> P a] by blast
    obtain b1 where b1: "w1 = w @ concat b1" "\<forall>y. list_all2 (\<lambda>b x. reads v (slots p1 @ y) b D x) b1 xs"
      using items.read_back [OF E 1(1) a(2) 1(4) a(4)] by blast
    obtain b2 where b2: "w' = w1 @ concat b2" "\<forall>y. list_all2 (\<lambda>b x. reads v (slots p' @ y) b D x) b2 ys"
      using items.read_back [OF F 1(2,3) a(3) 1(5)] by blast
    have "list_all2 (\<lambda>b x. reads v (slots p' @ y) b D x) (b1 @ b2) (xs @ ys)" for y
      using b1(2) b2(2) by (intro list_all2_appendI) (simp_all add: 1(6))
    then show "\<exists>bss. w' = w @ concat bss \<and> (\<forall>y. list_all2 (\<lambda>b x. reads v (slots p' @ y) b D x) bss (xs @ ys))"
      using b1(1) b2(1) by (intro exI [of _ "b1 @ b2"]) simp
  qed
qed

lemma interner_let:
  assumes "interner intern den" and "intern k p = (i, q)"
  shows "pb_grows p q \<and> (pb_inv p \<longrightarrow> pb_inv q \<and> (pb_err q = None \<longrightarrow> den (slots q) i k))"
  using interner.grows [OF assms] interner.keeps_inv [OF assms] interner.denotes [OF assms] by blast

lemma utf8_let:
  "pb_UTF8 s p = (i, q) \<Longrightarrow> pb_grows p q \<and> (pb_inv p \<longrightarrow> pb_inv q \<and> (pb_err q = None \<longrightarrow> den_utf8 (slots q) i s))"
  by (rule interner_let [OF utf8c.interner_axioms])

lemma class_let:
  "pb_Class s p = (i, q) \<Longrightarrow> pb_grows p q \<and> (pb_inv p \<longrightarrow> pb_inv q \<and> (pb_err q = None \<longrightarrow> den_ref1 TagClass (slots q) i s))"
  by (rule interner_let [OF classc.interner_axioms])

lemma emission_pure:
  assumes "\<And>w p. E w p = (w @ bs, p)" and "\<And>sl. P sl \<Longrightarrow> reads v sl bs D x" and "lasting P"
  shows "emission v P E D x"
proof
  fix w p w' p'
  assume a: "E w p = (w', p')"
  show "pb_grows p p'" using a assms(1) by simp
  show "pb_inv p'" if "pb_inv p" using a that assms(1) by simp
  show "\<exists>bs. w' = w @ bs \<and> (\<forall>y. reads v (slots p' @ y) bs D x)" if "P (slots p)"
    using a that assms by (auto simp: lasting_def)
qed

lemma den_grown:
  "pb_grows p q \<Longrightarrow> den_utf8 (slots p) i s \<Longrightarrow> den_utf8 (slots q) i s"
  "pb_grows p q \<Longrightarrow> den_ref1 t (slots p) i s \<Longrightarrow> den_ref1 t (slots q) i s"
  "pb_grows p q \<Longrightarrow> den_req (slots p) i k \<Longrightarrow> den_req (slots q) i k"
  by (auto simp: pb_grows_def den_append den_req_append)

text \<open>Facts that follow from the precondition may be used before the run.\<close>

lemma emission_if:
  assumes "pool_writer E" and "\<And>sl. P sl \<Longrightarrow> emission v P E D x"
  shows "emission v P E D x"
proof (intro emission.intro emission_axioms.intro assms(1))
  fix w p w' p'
  assume a: "E w p = (w', p')" "pb_inv p" "pb_err p' = None" "P (slots p)"
  show "\<exists>bs. w' = w @ bs \<and> (\<forall>y. reads v (slots p' @ y) bs D x)"
    by (rule emission.read_back [OF assms(2) [OF a(4)] a])
qed

lemma pool_writer_u2: "pool_writer (em_u2 i)"
  by (auto simp: em_u2_def intro: pool_writer.intro)

lemma pool_writer_each: "(\<And>a. pool_writer (f a)) \<Longrightarrow> pool_writer (em_each f as)"
proof (induction as)
  case Nil
  show ?case by (rule pool_writer.intro) auto
next
  case (Cons a as)
  have "em_each f (a # as) = em_then (f a) (em_each f as)" by (intro ext) simp
  then show ?case using Cons by (simp add: pool_writer_then)
qed

lemma pool_writer_when: "pool_writer E \<Longrightarrow> pool_writer (em_when c E)"
  by (cases c) (auto simp: em_when_def pool_writer_def)

lemma pool_writer_attr: "pool_writer E \<Longrightarrow> pool_writer (em_attr name E)"
proof
  fix w p w' p'
  assume E: "pool_writer E" and "em_attr name E w p = (w', p')"
  then obtain i p1 w1 where 1: "pb_UTF8 name p = (i, p1)" "E (w @ be_u2 i @ be_u4 0) p1 = (w1, p')"
    by (auto simp: em_attr_def w_attr_def Let_def split: prod.splits)
  show "pb_grows p p'" using utf8_let [OF 1(1)] pool_writer.grows [OF E 1(2)] pb_grows_trans by blast
  show "pb_inv p'" if "pb_inv p" using utf8_let [OF 1(1)] pool_writer.inv [OF E 1(2)] that by blast
qed

lemma emission_u2: "lasting P \<Longrightarrow> emission v P (em_u2 i) (d_read r_u2) i"
  by (rule emission_pure [where bs = "be_u2 i"]) (auto simp: em_u2_def)

text \<open>Interning first: the index goes to the emitter, what it denotes into its precondition.\<close>

lemma emission_let:
  assumes f: "\<And>p i q. f p = (i, q) \<Longrightarrow> pb_grows p q \<and> (pb_inv p \<longrightarrow> pb_inv q \<and> (pb_err q = None \<longrightarrow> den (slots q) i))"
    and E: "\<And>i. emission v (\<lambda>sl. P sl \<and> den sl i) (F i) D x" and P: "lasting P"
  shows "emission v P (\<lambda>w p. case f p of (i, q) \<Rightarrow> F i w q) D x"
proof
  fix w p w' p'
  assume "(case f p of (i, q) \<Rightarrow> F i w q) = (w', p')"
  then obtain i q where 1: "f p = (i, q)" "F i w q = (w', p')" by (cases "f p") auto
  note w = emission.axioms(1) [OF E [of i]]
  have g: "pb_grows p q" "pb_grows q p'" using f [OF 1(1)] pool_writer.grows [OF w 1(2)] by blast+
  then show "pb_grows p p'" by (rule pb_grows_trans)
  show "pb_inv p'" if "pb_inv p" using f [OF 1(1)] pool_writer.inv [OF w 1(2)] that by blast
  show "\<exists>bs. w' = w @ bs \<and> (\<forall>y. reads v (slots p' @ y) bs D x)" if "pb_inv p" "pb_err p' = None" "P (slots p)"
  proof -
    have "pb_err q = None" using g(2) that(2) by (auto simp: pb_grows_def)
    moreover have "P (slots q)" using g(1) that(3) P by (auto simp: pb_grows_def lasting_def)
    ultimately show ?thesis using emission.read_back [OF E 1(2)] f [OF 1(1)] that by blast
  qed
qed

lemma lasting_intros [intro]:
  "lasting (\<lambda>sl. True)" "lasting (\<lambda>sl. den_utf8 sl i s)" "lasting (\<lambda>sl. den_ref1 t sl i s)" "lasting (\<lambda>sl. den_req sl i k)"
  "lasting P \<Longrightarrow> lasting Q \<Longrightarrow> lasting (\<lambda>sl. P sl \<and> Q sl)"
  "(\<And>a. a \<in> A \<Longrightarrow> lasting (R a)) \<Longrightarrow> lasting (\<lambda>sl. \<forall>a \<in> A. R a sl)"
  by (simp_all add: lasting_def den_append den_req_append)

lemma emission_ref:
  assumes "interner intern den" and "\<And>sl i. den sl i k \<Longrightarrow> reads v sl [] (R i) y" and "lasting P"
  shows "emission v P (em_ref (intern k)) (sbind (d_read r_u2) R) y"
proof -
  have l: "lasting (\<lambda>sl. P sl \<and> den sl i k)" for i
    using assms(3) interner.den_grows [OF assms(1)] by (simp add: lasting_def)
  have "emission v (\<lambda>sl. P sl \<and> den sl i k) (em_u2 i) (sbind (d_read r_u2) R) y" for i
    by (rule emission_pure [where bs = "be_u2 i", OF _ _ l])
      (auto simp: em_u2_def intro!: reads_bind0 [OF reads_u2] assms(2))
  then have "emission v P (\<lambda>w p. case intern k p of (i, q) \<Rightarrow> em_u2 i w q) (sbind (d_read r_u2) R) y"
    using interner_let [OF assms(1)] assms(3) by (intro emission_let [where den = "\<lambda>sl i. den sl i k"]) simp_all
  moreover have "em_ref (intern k) = (\<lambda>w p. case intern k p of (i, q) \<Rightarrow> em_u2 i w q)"
    by (intro ext) (simp add: em_ref_def em_u2_def)
  ultimately show ?thesis by simp
qed

lemma emission_scratch:
  assumes E: "emission v P E D x"
  shows "emission v P (em_scratch E) D x"
proof
  fix w p w' p'
  assume "em_scratch E w p = (w', p')"
  then obtain b where 1: "E [] p = (b, p')" "w' = w @ b" by (auto simp: em_scratch_def split: prod.splits)
  note w = emission.axioms(1) [OF E]
  show "pb_grows p p'" using pool_writer.grows [OF w 1(1)] .
  show "pb_inv p'" if "pb_inv p" using pool_writer.inv [OF w 1(1) that] .
  show "\<exists>bs. w' = w @ bs \<and> (\<forall>y. reads v (slots p' @ y) bs D x)" if "pb_inv p" "pb_err p' = None" "P (slots p)"
    using emission.read_back [OF E 1(1) that] 1(2) by auto
qed

lemma emission_raw: "lasting P \<Longrightarrow> n = int (length bs) \<Longrightarrow> emission v P (em_raw bs) (d_read (r_bytes n)) bs"
  by (rule emission_pure [where bs = bs]) (auto simp: em_raw_def w_raw_def)

lemma items_one:
  assumes E: "emission v P E D x"
  shows "items v P E D [x]"
proof (intro items.intro items_axioms.intro)
  show "pool_writer E" using E by (simp add: emission_def)
  fix w p w' p'
  assume "E w p = (w', p')" "pb_inv p" "pb_err p' = None" "P (slots p)"
  from emission.read_back [OF E this] obtain bs where "w' = w @ bs" "\<forall>y. reads v (slots p' @ y) bs D x" by blast
  then show "\<exists>bss. w' = w @ concat bss \<and> (\<forall>y. list_all2 (\<lambda>b x. reads v (slots p' @ y) b D x) bss [x])"
    by (intro exI [of _ "[bs]"]) simp
qed

lemma items_none: "items v P (\<lambda>w p. (w, p)) D []"
  by standard auto

lemma items_when:
  assumes "c \<Longrightarrow> items v P E D xs"
  shows "items v P (em_when c E) D (if c then xs else [])"
proof -
  have "em_when c E = (if c then E else (\<lambda>w p. (w, p)))" by (intro ext) (simp add: em_when_def)
  then show ?thesis using assms by (cases c) (simp_all add: items_none)
qed

lemma items_zip:
  assumes "list_all2 (\<lambda>a x. emission v P (f a) D x) as xs" and "lasting P"
  shows "items v P (em_each f as) D xs"
  using assms(1)
proof (induction as xs rule: list_all2_induct)
  case Nil
  have "em_each f [] = (\<lambda>w p. (w, p))" by (intro ext) simp
  then show ?case by (simp add: items_none)
next
  case (Cons a as x xs)
  have "em_each f (a # as) = em_then (f a) (em_each f as)" by (intro ext) simp
  moreover have "items v P (em_then (f a) (em_each f as)) D ([x] @ xs)"
    using Cons by (intro items_then items_one assms(2)) simp_all
  ultimately show ?case by simp
qed

lemma items_each:
  assumes "\<And>a. a \<in> set as \<Longrightarrow> emission v P (f a) D (h a)" and "lasting P"
  shows "items v P (em_each f as) D (map h as)"
  using assms by (intro items_zip) (auto simp: list_all2_map2 intro!: list.rel_refl_strong)

lemma items_table:
  assumes E: "items v P E D xs" and P: "lasting P" and n: "length xs < 65536" "i = word_of_nat (length xs)"
  shows "emission v P (em_then (em_u2 i) E) (d_table D) xs"
proof (intro emission.intro emission_axioms.intro)
  have w: "pool_writer (em_u2 i)" "pool_writer E" using E by (auto simp: items_def em_u2_def intro: pool_writer.intro)
  then show "pool_writer (em_then (em_u2 i) E)" by (rule pool_writer_then)
  fix w p w' p'
  assume a: "em_then (em_u2 i) E w p = (w', p')" "pb_inv p" "pb_err p' = None" "P (slots p)"
  then have "E (w @ be_u2 i) p = (w', p')" by (simp add: em_then_def em_u2_def)
  then obtain bss where b: "w' = (w @ be_u2 i) @ concat bss" "\<forall>y. list_all2 (\<lambda>b x. reads v (slots p' @ y) b D x) bss xs"
    using items.read_back [OF E _ a(2-4)] by blast
  then show "\<exists>bs. w' = w @ bs \<and> (\<forall>y. reads v (slots p' @ y) bs (d_table D) xs)"
    using reads_table [OF _ n(1)] n(2) by (intro exI [of _ "be_u2 i @ concat bss"]) simp
qed

lemma emission_table_zip:
  assumes "list_all2 (\<lambda>a x. emission v P (f a) D x) as xs" and "lasting P" and "length as < 65536"
  shows "emission v P (em_table f as) (d_table D) xs"
  unfolding em_table_def using assms list_all2_lengthD [OF assms(1)] by (intro items_table items_zip) simp_all

lemma emission_table:
  assumes "\<And>a. a \<in> set as \<Longrightarrow> emission v P (f a) D (h a)" and "lasting P" and "length as < 65536"
  shows "emission v P (em_table f as) (d_table D) (map h as)"
  using assms by (intro emission_table_zip) (auto simp: list_all2_map2 intro!: list.rel_refl_strong)

lemma emission_w_attr:
  assumes E: "emission v P body D x" and P: "lasting P" and d: "\<And>sl. P sl \<Longrightarrow> den_utf8 sl i name"
    and gate: "attr_gate name loc v" and nm: "utf8_clean name = name"
    and b: "\<And>bs. attribute_body rec name bs 0 = sbind D (\<lambda>x. sbind (orErr (f x)) (\<lambda>a. sret (Some (g a))))"
  shows "emission v P (w_attr i body) (attribute_turn rec loc) [g (f x)]"
proof
  fix w p w' p'
  assume a: "w_attr i body w p = (w', p')"
  then obtain w1 where 1: "body (w @ be_u2 i @ be_u4 0) p = (w1, p')"
    by (auto simp: w_attr_def Let_def split: prod.splits)
  note w = emission.axioms(1) [OF E]
  show "pb_grows p p'" using pool_writer.grows [OF w 1] .
  show "pb_inv p'" if "pb_inv p" using pool_writer.inv [OF w 1 that] .
  show "\<exists>bs. w' = w @ bs \<and> (\<forall>y. reads v (slots p' @ y) bs (attribute_turn rec loc) [g (f x)])"
    if s: "pb_inv p" "pb_err p' = None" "P (slots p)"
  proof -
    obtain bs where bs: "w1 = (w @ be_u2 i @ be_u4 0) @ bs" "\<forall>y. reads v (slots p' @ y) bs D x"
      using emission.read_back [OF E 1 s] by blast
    then have w': "w' = w @ be_u2 i @ be_u4 (word_of_nat (length bs)) @ bs"
      using w_attr_append [of body w i p bs p'] 1 a by simp
    obtain z where "slots p' = slots p @ z" using pool_writer.grows [OF w 1] by (auto simp: pb_grows_def)
    then have "den_utf8 (slots p' @ y) i name" for y using d P s(3) by (simp add: lasting_def)
    then have "reads v (slots p' @ y) (be_u2 i @ be_u4 (word_of_nat (length bs)) @ bs) (attribute_turn rec loc) [g (f x)]" for y
      using bs(2) by (intro reads_attribute [OF gate b _ _ nm refl]) simp_all
    with w' show ?thesis by blast
  qed
qed

text \<open>\<open>b.pool.UTF8(name)\<close> and the attribute.\<close>

lemma emission_attr:
  assumes E: "emission v P body D x" and P: "lasting P" and gate: "attr_gate name loc v" and nm: "utf8_clean name = name"
    and b: "\<And>bs. attribute_body rec name bs 0 = sbind D (\<lambda>x. sbind (orErr (f x)) (\<lambda>a. sret (Some (g a))))"
  shows "emission v P (em_attr name body) (attribute_turn rec loc) [g (f x)]"
proof -
  have E': "emission v (\<lambda>sl. P sl \<and> den_utf8 sl i name) body D x" for i
    using E by (simp add: emission_def emission_axioms_def)
  have "emission v (\<lambda>sl. P sl \<and> den_utf8 sl i name) (w_attr i body) (attribute_turn rec loc) [g (f x)]" for i
    by (rule emission_w_attr [OF E' _ _ gate nm b]) (use P in auto)
  then have "emission v P (\<lambda>w p. case pb_UTF8 name p of (i, q) \<Rightarrow> w_attr i body w q) (attribute_turn rec loc) [g (f x)]"
    using utf8_let P by (intro emission_let [where den = "\<lambda>sl i. den_utf8 sl i name"]) simp_all
  moreover have "em_attr name body = (\<lambda>w p. case pb_UTF8 name p of (i, q) \<Rightarrow> w_attr i body w q)"
    by (intro ext) (simp add: em_attr_def)
  ultimately show ?thesis by simp
qed

end
