(* ===== verification/RoundTrip.thy ===== *)
theory RoundTrip
  imports ReadBack BuildCode
begin

unbundle bit_operations_syntax

text \<open>
  Reading what was built: the file \<open>Builder.Bytes\<close> returns is decoded by \<open>read\<close> to the class the builder
  described. The images below say which decoded structure stands for which builder; each emitter of
  \<^verbatim>\<open>src/classfile/builder.go\<close> is shown to be undone by the operation of \<^verbatim>\<open>src/classfile/decoder.go\<close> that reads its
  part of the file.
\<close>

section \<open>Images\<close>

text \<open>\<open>cn\<close> and \<open>ck\<close> give the class name and the field constant an index of the pool denotes.\<close>

fun req_const :: "pool_req \<Rightarrow> const option" where
  "req_const (RInt x) = Some ((zero_const TagInteger)\<lparr>cBits := ucast x\<rparr>)"
| "req_const (RFloat x) = Some ((zero_const TagFloat)\<lparr>cBits := ucast x\<rparr>)"
| "req_const (RLong x) = Some ((zero_const TagLong)\<lparr>cBits := x\<rparr>)"
| "req_const (RDouble x) = Some ((zero_const TagDouble)\<lparr>cBits := x\<rparr>)"
| "req_const (RString s) = Some ((zero_const TagString)\<lparr>cStr := utf8_clean s\<rparr>)"
| "req_const _ = None"

definition field_image :: "(u16 \<Rightarrow> const) \<Rightarrow> fieldbuilder \<Rightarrow> field" where
  "field_image ck f = \<lparr>fFlags = fb_flags f, fName = utf8_clean (fb_name f), fDescriptor = utf8_clean (fb_descriptor f),
     fAttrs = (if fb_constant f \<noteq> 0 then [ConstantValue (ck (fb_constant f))] else []) @
       (if fb_signature f \<noteq> [] then [Signature (utf8_clean (fb_signature f))] else []),
     fConstantValue = (if fb_constant f \<noteq> 0 then Some (ck (fb_constant f)) else None),
     fSignature = utf8_clean (fb_signature f), fDeprecated = False, fSynthetic = False\<rparr>"

definition handler_image :: "(u16 \<Rightarrow> string) \<Rightarrow> encodedHandler \<Rightarrow> exception_handler" where
  "handler_image cn h = \<lparr>ehStartPC = eh_start h, ehEndPC = eh_end h, ehHandlerPC = eh_handler h,
     ehCatchType = (if eh_catchType h = 0 then [] else utf8_clean (cn (eh_catchType h)))\<rparr>"

definition local_image :: "local_variable \<Rightarrow> local_variable" where
  "local_image lv = lv\<lparr>lvName := utf8_clean (lvName lv), lvDescriptor := utf8_clean (lvDescriptor lv)\<rparr>"

definition code_image :: "(u16 \<Rightarrow> string) \<Rightarrow> methodbuilder \<Rightarrow> code_attr" where
  "code_image cn m = CodeAttr (mb_maxStack m) (mb_maxLocals m) (mb_code m) (map (handler_image cn) (mb_handlers m))
     ((if mb_lines m \<noteq> [] then [LineNumberTable (mb_lines m)] else []) @
      (if mb_locals m \<noteq> [] then [LocalVariableTable (map local_image (mb_locals m))] else []))
     (if mb_lines m \<noteq> [] then Some (mb_lines m) else None) None"

definition method_image :: "(u16 \<Rightarrow> string) \<Rightarrow> methodbuilder \<Rightarrow> jmethod" where
  "method_image cn m = \<lparr>jmFlags = mb_flags m, jmName = utf8_clean (mb_name m), jmDescriptor = utf8_clean (mb_descriptor m),
     jmAttrs = (if mb_hasCode m then [Code (code_image cn m)] else []) @
       (if mb_exceptions m \<noteq> [] then [Exceptions (map utf8_clean (mb_exceptions m))] else []) @
       (if mb_signature m \<noteq> [] then [Signature (utf8_clean (mb_signature m))] else []),
     jmCode = (if mb_hasCode m then Some (code_image cn m) else None),
     jmExceptions = map utf8_clean (mb_exceptions m), jmSignature = utf8_clean (mb_signature m),
     jmDeprecated = False, jmSynthetic = False\<rparr>"

definition class_image :: "(u16 \<Rightarrow> string) \<Rightarrow> (u16 \<Rightarrow> const) \<Rightarrow> pool \<Rightarrow> builder \<Rightarrow> jclass" where
  "class_image cn ck p b = \<lparr>jcVersion = bd_version b, jcPool = p, jcFlags = bd_flags b, jcName = utf8_clean (bd_name b),
     jcSuper = utf8_clean (bd_super b), jcInterfaces = map utf8_clean (bd_ifaces b),
     jcFields = map (field_image ck) (bd_fields b), jcMethods = map (method_image cn) (bd_methods b),
     jcAttrs = (if bd_sourceFile b \<noteq> [] then [SourceFile (utf8_clean (bd_sourceFile b))] else []),
     jcSourceFile = utf8_clean (bd_sourceFile b), jcSignature = [], jcNestHost = [], jcDeprecated = False, jcSynthetic = False\<rparr>"

section \<open>Attribute names\<close>

lemma ascii_byte: "\<not> digit7 c \<Longrightarrow> uint (of_char c :: u8) < 128"
  by (cases c) (simp add: of_char_def)

lemma ascii_rune:
  "\<not> digit7 c \<Longrightarrow> decode_rune (of_char c # bs) = (uint (of_char c :: u8), 1) \<and> uint (of_char c :: u8) \<noteq> rune_error"
  using ascii_byte [of c] by (simp add: decode_rune_def rune_error_def Let_def)

lemma valid_ascii: "list_all (\<lambda>c. \<not> digit7 c) s \<Longrightarrow> valid_string s"
  unfolding valid_string_def bytes_of_string_def by (induction s) (simp_all add: ascii_rune)

lemma clean_ascii: "list_all (\<lambda>c. \<not> digit7 c) s \<Longrightarrow> utf8_clean s = s"
  by (simp add: utf8_clean_valid valid_ascii)

lemma clean_names [simp]:
  "utf8_clean [] = []"
  "utf8_clean ''ConstantValue'' = ''ConstantValue''" "utf8_clean ''Signature'' = ''Signature''"
  "utf8_clean ''Code'' = ''Code''" "utf8_clean ''LineNumberTable'' = ''LineNumberTable''"
  "utf8_clean ''LocalVariableTable'' = ''LocalVariableTable''" "utf8_clean ''Exceptions'' = ''Exceptions''"
  "utf8_clean ''SourceFile'' = ''SourceFile''" "utf8_clean ''java/lang/Object'' = ''java/lang/Object''"
  by (rule clean_ascii, simp)+

lemma builder_gates:
  "Java1_0 \<le> vMajor v \<Longrightarrow> attr_gate ''ConstantValue'' locField v" "Java1_0 \<le> vMajor v \<Longrightarrow> attr_gate ''Code'' locMethod v"
  "Java1_0 \<le> vMajor v \<Longrightarrow> attr_gate ''Exceptions'' locMethod v" "Java1_0 \<le> vMajor v \<Longrightarrow> attr_gate ''LineNumberTable'' locCode v"
  "Java1_0 \<le> vMajor v \<Longrightarrow> attr_gate ''LocalVariableTable'' locCode v" "Java1_0 \<le> vMajor v \<Longrightarrow> attr_gate ''SourceFile'' locClass v"
  "Java5 \<le> vMajor v \<Longrightarrow> attr_gate ''Signature'' locField v" "Java5 \<le> vMajor v \<Longrightarrow> attr_gate ''Signature'' locMethod v"
  by (simp_all add: attr_gate_def attr_where_def AtLeast_def)

section \<open>Tables of attributes\<close>

lemma emission_attributes:
  assumes "items v P E (attribute_turn rec loc) xs" and "lasting P" and "length xs < 65536" and "i = word_of_nat (length xs)"
  shows "emission v P (em_then (em_u2 i) E) (attributes_with rec loc) (concat xs)"
proof -
  have "emission v P (em_then (em_u2 i) E) (d_table (attribute_turn rec loc)) xs" by (rule items_table [OF assms])
  then have "emission v P (em_then (em_then (em_u2 i) E) (\<lambda>w p. (w, p))) (attributes_with rec loc) (concat xs)"
    unfolding attributes_with_def
    by (rule emission_then [OF _ emission_pure [where bs = "[]"] assms(2)]) (simp_all add: reads_checked assms(2))
  moreover have "em_then (em_then (em_u2 i) E) (\<lambda>w p. (w, p)) = em_then (em_u2 i) E"
    by (intro ext) (simp add: em_then_def split: prod.splits)
  ultimately show ?thesis by simp
qed

lemma attributes_2: "attributes loc = attributes_with (attributes_at 1) loc"
  by (simp add: attributes_def numeral_2_eq_2)

lemma em_then_assoc: "em_then (em_then a b) c = em_then a (em_then b c)"
  by (intro ext) (simp add: em_then_def split: prod.splits)

lemma emission_utf8_attr:
  assumes "attr_gate ''Signature'' loc v" and "lasting P"
  shows "emission v P (em_utf8_attr ''Signature'' s) (attribute_turn rec loc) [Signature (utf8_clean s)]"
proof -
  have b: "attribute_body rec ''Signature'' bs 0 =
      sbind (sbind (d_read r_u2) dec_utf8) (\<lambda>v. sbind (orErr (Signature v)) (\<lambda>a. sret (Some a)))" for bs
    by (simp add: attribute_body_def sbind_assoc)
  have l: "lasting (\<lambda>sl. P sl \<and> den_utf8 sl i s)" for i using assms(2) by auto
  have "emission v (\<lambda>sl. P sl \<and> den_utf8 sl i s) (em_u2 i) (sbind (d_read r_u2) dec_utf8) (utf8_clean s)" for i
    by (rule emission_pure [where bs = "be_u2 i", OF _ _ l]) (auto simp: em_u2_def intro: reads_utf8_idx)
  from emission_attr [OF this l assms(1) _ b]
  have "emission v (\<lambda>sl. P sl \<and> den_utf8 sl i s) (em_attr ''Signature'' (em_u2 i)) (attribute_turn rec loc) [Signature (utf8_clean s)]" for i
    by simp
  then have "emission v P (\<lambda>w p. case pb_UTF8 s p of (i, q) \<Rightarrow> em_attr ''Signature'' (em_u2 i) w q)
      (attribute_turn rec loc) [Signature (utf8_clean s)]"
    using utf8_let assms(2) by (intro emission_let [where den = "\<lambda>sl i. den_utf8 sl i s"]) simp_all
  moreover have "em_utf8_attr ''Signature'' s = (\<lambda>w p. case pb_UTF8 s p of (i, q) \<Rightarrow> em_attr ''Signature'' (em_u2 i) w q)"
    by (intro ext) (simp add: em_utf8_attr_def)
  ultimately show ?thesis by simp
qed

section \<open>Fields\<close>

lemma reads_const:
  assumes "den_req sl i k" and "req_const k = Some c"
  shows "reads v sl [] (\<lambda>d. d_pool (pool_Const i (dversion d)) d) c"
proof -
  have "fst (pool_Const i v p) = Inr c" if "pool_of sl p" for p
    using den_reads_back [OF that assms(1)] assms(2) by (cases k) auto
  then have "reads v sl [] (d_pool (pool_Const i v)) c" by (rule reads_pool [OF _ loadable.pool_accessor_axioms])
  then show ?thesis by (simp add: reads_def ready_def)
qed

lemma req_const_tag: "req_const k = Some c \<Longrightarrow> cTag c \<in> {TagInteger, TagFloat, TagLong, TagDouble, TagString}"
  by (cases k) (auto simp: zero_const_def)

lemma emission_constant:
  assumes "Java1_0 \<le> vMajor v" and P: "lasting P" and d: "\<And>sl. P sl \<Longrightarrow> \<exists>k. den_req sl i k \<and> req_const k = Some c"
  shows "emission v P (em_attr ''ConstantValue'' (em_u2 i)) (attribute_turn rec locField) [ConstantValue c]"
proof -
  let ?D = "sbind (d_read r_u2) (\<lambda>i. sbind (\<lambda>d. d_pool (pool_Const i (dversion d)) d) (\<lambda>v.
      if cTag v \<in> {TagInteger, TagFloat, TagLong, TagDouble, TagString} then sret v
      else dec_throw (\<lambda>n. NotFieldConstant n (cTag v))))"
  have thr: "sbind (dec_throw e) F = dec_throw e" for e and F :: "const \<Rightarrow> 'b dec" by (rule ext) (simp add: sbind_def dec_throw_def)
  have thr': "sbind (dec_throw e) F = dec_throw e" for e and F :: "attr \<Rightarrow> 'b dec" by (rule ext) (simp add: sbind_def dec_throw_def)
  have ret: "sbind (sret x) F = F x" for x and F :: "const \<Rightarrow> 'b dec" by (rule ext) (simp add: sbind_def)
  have b: "attribute_body rec ''ConstantValue'' bs 0 =
      sbind ?D (\<lambda>v. sbind (orErr (ConstantValue v)) (\<lambda>a. sret (Some a)))" for bs
    by (simp add: attribute_body_def sbind_assoc dec_constant_value_def if_distrib [of "\<lambda>m. sbind m _"] thr thr' ret cong: if_cong)
  have "reads v sl (be_u2 i @ [] @ []) ?D c" if s: "P sl" for sl
  proof -
    obtain k where k: "den_req sl i k" "req_const k = Some c" using d [OF s] by blast
    have "reads v sl [] (if cTag c \<in> {TagInteger, TagFloat, TagLong, TagDouble, TagString} then sret c
      else dec_throw (\<lambda>n. NotFieldConstant n (cTag c))) c" using req_const_tag [OF k(2)] by auto
    then show ?thesis by (intro reads_bind [OF reads_u2] reads_bind [OF reads_const [OF k]])
  qed
  then have "emission v P (em_u2 i) ?D c"
    by (intro emission_pure [where bs = "be_u2 i", OF _ _ P]) (simp_all add: em_u2_def)
  from emission_attr [OF this P builder_gates(1) [OF assms(1)] _ b] show ?thesis by simp
qed

lemma emission_map:
  assumes E: "emission v P E D x" and "f x = y"
  shows "emission v P E (sbind D (\<lambda>x. sret (f x))) y"
proof (intro emission.intro emission_axioms.intro)
  show "pool_writer E" using E by (simp add: emission_def)
  fix w p w' p'
  assume "E w p = (w', p')" "pb_inv p" "pb_err p' = None" "P (slots p)"
  from emission.read_back [OF E this] show "\<exists>bs. w' = w @ bs \<and> (\<forall>y'. reads v (slots p' @ y') bs (sbind D (\<lambda>x. sret (f x))) y)"
    using reads_then_ret assms(2) by blast
qed

lemma emission_name: "lasting P \<Longrightarrow> emission v P (em_ref (pb_UTF8 s)) (sbind (d_read r_u2) dec_utf8) (utf8_clean s)"
  by (rule emission_ref [OF utf8c.interner_axioms reads_dec_utf8])

lemma emission_field_attrs:
  assumes v: "Java1_0 \<le> vMajor v" "fb_signature f \<noteq> [] \<Longrightarrow> Java5 \<le> vMajor v" and P: "lasting P"
    and d: "\<And>sl. P sl \<Longrightarrow> fb_constant f \<noteq> 0 \<Longrightarrow> \<exists>k. den_req sl (fb_constant f) k \<and> req_const k = Some (ck (fb_constant f))"
  shows "emission v P (field_attrs f) (attributes locField) (fAttrs (field_image ck f))"
proof -
  let ?xs = "(if fb_constant f \<noteq> 0 then [[ConstantValue (ck (fb_constant f))]] else []) @
    (if fb_signature f \<noteq> [] then [[Signature (utf8_clean (fb_signature f))]] else [])"
  have "items v P (em_then (em_when (fb_constant f \<noteq> 0) (em_attr ''ConstantValue'' (em_u2 (fb_constant f))))
      (em_when (fb_signature f \<noteq> []) (em_utf8_attr ''Signature'' (fb_signature f)))) (attribute_turn (attributes_at 1) locField) ?xs"
    by (intro items_then items_when items_one emission_constant emission_utf8_attr builder_gates v P d) simp_all
  from emission_attributes [OF this P] show ?thesis
    unfolding field_attrs_def attributes_2 by (auto simp: field_image_def bool_count_def split: if_splits)
qed

lemma emission_field:
  assumes "Java1_0 \<le> vMajor v" "fb_signature f \<noteq> [] \<Longrightarrow> Java5 \<le> vMajor v" and P: "lasting P"
    and "\<And>sl. P sl \<Longrightarrow> fb_constant f \<noteq> 0 \<Longrightarrow> \<exists>k. den_req sl (fb_constant f) k \<and> req_const k = Some (ck (fb_constant f))"
  shows "emission v P (emitField f) (member locField) (field_image ck f)"
  unfolding emitField_def member_def
  by (rule emission_then [OF emission_u2 [OF P] _ P] emission_then [OF emission_name [OF P] _ P]
      emission_map [OF emission_scratch [OF emission_field_attrs [where ck = ck, OF assms]]])+
    (simp_all add: field_image_def)

section \<open>Code\<close>

definition code_parts :: "attrs dec \<Rightarrow> code_attr dec" where
  "code_parts code_attributes =
     sbind d_u2 (\<lambda>maxStack.
     sbind d_u2 (\<lambda>maxLocals.
     sbind d_u4 (\<lambda>len.
     if len = 0 then dec_throw CodeLengthZero
     else if len \<ge> 65536 then dec_throw (\<lambda>n. CodeLengthLimit n len)
     else
       sbind (d_read (r_bytes (uint len))) (\<lambda>code.
       sbind (d_table dec_handler) (\<lambda>handlers.
       sbind code_attributes (\<lambda>as.
         sret (fold hoist_code_attr as (CodeAttr maxStack maxLocals code handlers as None None))))))))"

lemma sbind_throw [simp]: "sbind (dec_throw e) F = dec_throw e"
  by (rule ext) (simp add: sbind_def dec_throw_def)

lemma sbind_sret [simp]: "sbind (sret x) F = F x"
  by (rule ext) (simp add: sbind_def)

lemma dec_code_parts: "dec_code c = sbind (code_parts c) orErr"
  by (simp add: dec_code_def code_parts_def sbind_assoc if_distrib [of "\<lambda>m. sbind m orErr"] cong: if_cong)

lemma emission_handler:
  assumes P: "lasting P"
    and d: "\<And>sl. P sl \<Longrightarrow> eh_catchType h \<noteq> 0 \<Longrightarrow> den_ref1 TagClass sl (eh_catchType h) (cn (eh_catchType h))"
  shows "emission v P (em_handler h) dec_handler (handler_image cn h)"
proof -
  let ?n = "if eh_catchType h = 0 then [] else utf8_clean (cn (eh_catchType h))"
  have "reads v sl (be_u2 (eh_catchType h)) (sbind (d_read r_u2) optClass) ?n" if "P sl" for sl
    using reads_dec_class [OF d [OF that]] by (intro reads_bind0 [OF reads_u2]) (auto simp: optClass_def dec_class_def)
  then have "emission v P (em_u2 (eh_catchType h)) (sbind (d_read r_u2) optClass) ?n"
    by (intro emission_pure [where bs = "be_u2 (eh_catchType h)", OF _ _ P]) (auto simp: em_u2_def)
  then show ?thesis
    unfolding em_handler_def dec_handler_def
    by (intro emission_then [OF emission_u2 [OF P] _ P]) (rule emission_map, assumption, simp add: handler_image_def)
qed

lemma emission_line: "lasting P \<Longrightarrow> emission v P (em_line l) dec_line l"
  unfolding em_line_def dec_line_def
  by (rule emission_then [OF emission_u2 emission_map [OF emission_u2]]) simp_all

text \<open>A row of the local variable table whose indices denote the names.\<close>

definition row_of :: "bytes option list \<Rightarrow> lvRow \<Rightarrow> local_variable \<Rightarrow> bool" where
  "row_of sl r lv \<longleftrightarrow> row_startPC r = lvStartPC lv \<and> row_length r = lvLength lv \<and> row_slot r = lvSlot lv \<and>
     den_utf8 sl (row_name r) (lvName lv) \<and> den_utf8 sl (row_descriptor r) (lvDescriptor lv)"

lemma row_of_append: "row_of sl r lv \<Longrightarrow> row_of (sl @ y) r lv"
  by (simp add: row_of_def den_append)

lemma rows_append: "list_all2 (row_of sl) rows lvs \<Longrightarrow> list_all2 (row_of (sl @ y)) rows lvs"
  by (rule list_all2_mono [OF _ row_of_append])

lemma lv_rows_let:
  "lv_rows lvs p = (rows, q) \<Longrightarrow> pb_grows p q \<and> (pb_inv p \<longrightarrow> pb_inv q \<and> (pb_err q = None \<longrightarrow> list_all2 (row_of (slots q)) rows lvs))"
proof (induction lvs arbitrary: p rows)
  case (Cons lv lvs)
  obtain n p1 where 1: "pb_UTF8 (lvName lv) p = (n, p1)" by fastforce
  obtain d p2 where 2: "pb_UTF8 (lvDescriptor lv) p1 = (d, p2)" by fastforce
  obtain rs where 3: "lv_rows lvs p2 = (rs, q)" and rows: "rows = \<lparr>row_startPC = lvStartPC lv, row_length = lvLength lv,
      row_name = n, row_descriptor = d, row_slot = lvSlot lv\<rparr> # rs"
    using Cons.prems 1 2 by (auto split: prod.splits)
  have g: "pb_grows p p1" "pb_grows p1 p2" "pb_grows p2 q" using utf8_let [OF 1] utf8_let [OF 2] Cons.IH [OF 3] by blast+
  have "list_all2 (row_of (slots q)) rows (lv # lvs)" if i: "pb_inv p" "pb_err q = None"
  proof -
    have e: "pb_err p2 = None" using g(3) i(2) by (auto simp: pb_grows_def)
    then have e1: "pb_err p1 = None" using g(2) by (auto simp: pb_grows_def)
    have "den_utf8 (slots q) n (lvName lv)" "den_utf8 (slots q) d (lvDescriptor lv)"
      using utf8_let [OF 1] utf8_let [OF 2] i(1) e e1 den_grown(1) [OF g(2)] den_grown(1) [OF g(3)] by blast+
    moreover have "list_all2 (row_of (slots q)) rs lvs" using Cons.IH [OF 3] utf8_let [OF 1] utf8_let [OF 2] i by blast
    ultimately show ?thesis by (simp add: rows row_of_def)
  qed
  moreover have "pb_inv q" if "pb_inv p" using Cons.IH [OF 3] utf8_let [OF 1] utf8_let [OF 2] that by blast
  ultimately show ?case using g pb_grows_trans by blast
qed simp

lemma emission_utf8_idx:
  assumes "\<And>sl. P sl \<Longrightarrow> den_utf8 sl i s" and "lasting P"
  shows "emission v P (em_u2 i) (sbind (d_read r_u2) dec_utf8) (utf8_clean s)"
  using assms by (intro emission_pure [where bs = "be_u2 i"]) (auto simp: em_u2_def intro: reads_utf8_idx)

lemma emission_class_idx:
  assumes "\<And>sl. P sl \<Longrightarrow> den_ref1 TagClass sl i s" and "lasting P"
  shows "emission v P (em_u2 i) (sbind (d_read r_u2) dec_class) (utf8_clean s)"
  using assms by (intro emission_pure [where bs = "be_u2 i"]) (auto simp: em_u2_def intro: reads_class_idx)

lemma emission_row:
  assumes r: "row_startPC r = lvStartPC lv" "row_length r = lvLength lv" "row_slot r = lvSlot lv"
    and n: "\<And>sl. P sl \<Longrightarrow> den_utf8 sl (row_name r) (lvName lv)" "\<And>sl. P sl \<Longrightarrow> den_utf8 sl (row_descriptor r) (lvDescriptor lv)"
    and P: "lasting P"
  shows "emission v P (em_row r) (sbind (d_read r_u2) (\<lambda>start. sbind (d_read r_u2) (\<lambda>len.
      sbind (sbind (d_read r_u2) dec_utf8) (\<lambda>name. sbind (sbind (d_read r_u2) dec_utf8) (\<lambda>descriptor. sbind (d_read r_u2) (\<lambda>slot.
        sret \<lparr>lvStartPC = start, lvLength = len, lvName = name, lvDescriptor = descriptor, lvSlot = slot\<rparr>)))))) (local_image lv)"
proof -
  have "local_image lv = \<lparr>lvStartPC = row_startPC r, lvLength = row_length r, lvName = utf8_clean (lvName lv),
      lvDescriptor = utf8_clean (lvDescriptor lv), lvSlot = row_slot r\<rparr>"
    unfolding r by (cases lv) (simp add: local_image_def)
  then show ?thesis
    unfolding em_row_def
    by (intro emission_then [OF emission_u2 [OF P] _ P] emission_then [OF emission_utf8_idx [OF n(1) P] _ P]
        emission_then [OF emission_utf8_idx [OF n(2) P] _ P] emission_map [OF emission_u2 [OF P]]) (simp_all only:)
qed

lemma emission_rows:
  assumes "length lvs < 65536" and P: "lasting P" and d: "\<And>sl. P sl \<Longrightarrow> list_all2 (row_of sl) rows lvs"
  shows "emission v P (em_table em_row rows) localVars (map local_image lvs)"
proof (rule emission_if)
  show "pool_writer (em_table em_row rows)"
    unfolding em_table_def em_row_def by (intro pool_writer_then pool_writer_each pool_writer_u2)
  fix sl assume "P sl"
  then have r: "list_all2 (row_of sl) rows lvs" by (rule d)
  then have l: "length rows = length lvs" by (rule list_all2_lengthD)
  have "row_of sl (rows ! i) (lvs ! i)" if "P sl" "i < length rows" for sl i using d [OF that(1)] that(2) by (rule list_all2_nthD)
  then show "emission v P (em_table em_row rows) localVars (map local_image lvs)"
    unfolding localVars_def using assms(1) l r
    by (intro emission_table_zip [OF _ P] list_all2_all_nthI) (auto intro!: emission_row P simp: row_of_def dest: list_all2_nthD)
qed

lemma intern_classes_let:
  "intern_classes ss p = (idx, q) \<Longrightarrow> pb_grows p q \<and>
     (pb_inv p \<longrightarrow> pb_inv q \<and> (pb_err q = None \<longrightarrow> list_all2 (den_ref1 TagClass (slots q)) idx ss))"
proof (induction ss arbitrary: p idx)
  case (Cons s ss)
  obtain i p1 where 1: "pb_Class s p = (i, p1)" by fastforce
  obtain js where 2: "intern_classes ss p1 = (js, q)" and idx: "idx = i # js"
    using Cons.prems 1 by (auto split: prod.splits)
  have g: "pb_grows p p1" "pb_grows p1 q" using class_let [OF 1] Cons.IH [OF 2] by blast+
  have "list_all2 (den_ref1 TagClass (slots q)) idx (s # ss)" if i: "pb_inv p" "pb_err q = None"
  proof -
    have "pb_err p1 = None" using g(2) i(2) by (auto simp: pb_grows_def)
    then have "den_ref1 TagClass (slots q) i s" using class_let [OF 1] i(1) den_grown(2) [OF g(2)] by blast
    moreover have "list_all2 (den_ref1 TagClass (slots q)) js ss" using Cons.IH [OF 2] class_let [OF 1] i by blast
    ultimately show ?thesis by (simp add: idx)
  qed
  then show ?case using g pb_grows_trans Cons.IH [OF 2] class_let [OF 1] by blast
qed simp

lemma emission_weaken: "emission v P E D x \<Longrightarrow> emission v (\<lambda>sl. P sl \<and> Q sl) E D x"
  by (simp add: emission_def emission_axioms_def)

lemma lasting_rows [intro]: "lasting (\<lambda>sl. list_all2 (row_of sl) rows lvs)"
  by (simp add: lasting_def rows_append)

lemma lasting_classes [intro]: "lasting (\<lambda>sl. list_all2 (den_ref1 t sl) idx ss)"
  unfolding lasting_def by (auto elim!: list_all2_mono intro: den_append)

lemma emission_u4: "lasting P \<Longrightarrow> emission v P (\<lambda>w p. (w_u4 n w, p)) (d_read r_u4) n"
  by (rule emission_pure [where bs = "be_u4 n"]) auto

lemma code_bodies:
  "attribute_body rec ''LineNumberTable'' bs 0 = sbind (d_table dec_line) (\<lambda>ls. sbind (orErr (LineNumberTable ls)) (\<lambda>a. sret (Some a)))"
  "attribute_body rec ''LocalVariableTable'' bs 0 = sbind localVars (\<lambda>vs. sbind (orErr (LocalVariableTable vs)) (\<lambda>a. sret (Some a)))"
  "attribute_body rec ''Code'' bs 0 = sbind (code_parts (rec locCode)) (\<lambda>c. sbind (orErr c) (\<lambda>a. sret (Some (Code a))))"
  "attribute_body rec ''Exceptions'' bs 0 = sbind classList (\<lambda>cs. sbind (orErr (Exceptions cs)) (\<lambda>a. sret (Some a)))"
  "attribute_body rec ''SourceFile'' bs 0 = sbind (sbind (d_read r_u2) dec_utf8) (\<lambda>s. sbind (orErr (SourceFile s)) (\<lambda>a. sret (Some a)))"
  by (simp_all add: attribute_body_def sbind_assoc dec_code_parts)

text \<open>What the tables of a method may hold: the counts are sixteen bits wide.\<close>

definition method_fits :: "methodbuilder \<Rightarrow> bool" where
  "method_fits m \<longleftrightarrow> length (mb_handlers m) < 65536 \<and> length (mb_lines m) < 65536 \<and> length (mb_locals m) < 65536 \<and>
     length (mb_exceptions m) < 65536"

lemma emission_code_attrs:
  assumes v: "Java1_0 \<le> vMajor v" and P: "lasting P" and m: "method_fits m"
    and d: "\<And>sl. P sl \<Longrightarrow> list_all2 (row_of sl) rows (mb_locals m)"
  shows "emission v P (em_then (em_u2 (bool_count [mb_lines m \<noteq> [], rows \<noteq> []]))
     (em_then (em_when (mb_lines m \<noteq> []) (em_attr ''LineNumberTable'' (em_table em_line (mb_lines m))))
       (em_when (rows \<noteq> []) (em_attr ''LocalVariableTable'' (em_table em_row rows)))))
    (attributes_with rec locCode) (caAttrs (code_image cn m))"
    (is "emission v P ?E ?D ?x")
proof (rule emission_if)
  have t: "pool_writer (em_table em_line ls)" "pool_writer (em_table em_row rs)" for ls rs
    unfolding em_table_def em_row_def em_line_def by (intro pool_writer_then pool_writer_each pool_writer_u2)+
  show "pool_writer ?E"
    by (intro pool_writer_then pool_writer_u2 pool_writer_when pool_writer_attr t)
  fix sl assume "P sl"
  then have r: "rows = [] \<longleftrightarrow> mb_locals m = []" using d by fastforce
  have "emission v P (em_table em_line (mb_lines m)) (d_table dec_line) (map (\<lambda>l. l) (mb_lines m))"
    using m by (intro emission_table emission_line P) (simp add: method_fits_def)
  then have 1: "emission v P (em_attr ''LineNumberTable'' (em_table em_line (mb_lines m))) (attribute_turn rec locCode) [LineNumberTable (mb_lines m)]"
    using emission_attr [OF _ P builder_gates(4) [OF v] _ code_bodies(1)] by simp
  have "emission v P (em_table em_row rows) localVars (map local_image (mb_locals m))"
    using m by (intro emission_rows P d) (simp_all add: method_fits_def)
  then have 2: "emission v P (em_attr ''LocalVariableTable'' (em_table em_row rows)) (attribute_turn rec locCode)
      [LocalVariableTable (map local_image (mb_locals m))]"
    using emission_attr [OF _ P builder_gates(5) [OF v] _ code_bodies(2)] by simp
  let ?xs = "(if mb_lines m \<noteq> [] then [[LineNumberTable (mb_lines m)]] else []) @
    (if rows \<noteq> [] then [[LocalVariableTable (map local_image (mb_locals m))]] else [])"
  have "items v P (em_then (em_when (mb_lines m \<noteq> []) (em_attr ''LineNumberTable'' (em_table em_line (mb_lines m))))
       (em_when (rows \<noteq> []) (em_attr ''LocalVariableTable'' (em_table em_row rows)))) (attribute_turn rec locCode) ?xs"
    by (intro items_then items_when items_one 1 2 P)
  from emission_attributes [OF this P] show "emission v P ?E ?D ?x"
    using r by (auto simp: code_image_def bool_count_def split: if_splits)
qed

lemma emission_code_body:
  assumes v: "Java1_0 \<le> vMajor v" and P: "lasting P" and m: "method_fits m" "mb_code m \<noteq> []" "length (mb_code m) \<le> 65535"
    and d: "\<And>sl. P sl \<Longrightarrow> list_all2 (row_of sl) rows (mb_locals m)"
    and h: "\<And>sl h. P sl \<Longrightarrow> h \<in> set (mb_handlers m) \<Longrightarrow> eh_catchType h \<noteq> 0 \<Longrightarrow>
      den_ref1 TagClass sl (eh_catchType h) (cn (eh_catchType h))"
  shows "emission v P (code_body m rows) (code_parts (attributes_with rec locCode)) (code_image cn m)"
proof -
  let ?n = "word_of_nat (length (mb_code m)) :: u32"
  have n: "unat ?n = length (mb_code m)" using m(3) by (simp add: unsigned_of_nat take_bit_nat_eq_self)
  then have "?n \<noteq> 0" "\<not> ?n \<ge> 65536" using m(2,3) by (auto simp: word_le_nat_alt)
  moreover have "uint ?n = int (length (mb_code m))" using n by (metis uint_nat)
  moreover have "emission v P (em_table em_handler (mb_handlers m)) (d_table dec_handler) (map (handler_image cn) (mb_handlers m))"
    using m(1) h by (intro emission_table emission_handler P) (simp_all add: method_fits_def)
  moreover have "fold hoist_code_attr (caAttrs (code_image cn m))
      (CodeAttr (mb_maxStack m) (mb_maxLocals m) (mb_code m) (map (handler_image cn) (mb_handlers m)) (caAttrs (code_image cn m)) None None) =
      code_image cn m"
    by (simp add: code_image_def)
  ultimately show ?thesis
    unfolding code_body_def code_parts_def
    by (intro emission_then [OF emission_u2 [OF P] _ P] emission_then [OF emission_u4 [OF P] _ P])
      (auto intro!: emission_raw [OF P] emission_then [OF _ _ P]
        emission_map [OF emission_code_attrs [OF v P m(1) d]])
qed

section \<open>Methods\<close>

text \<open>What the indices a class already holds denote.\<close>

definition handlers_named :: "(u16 \<Rightarrow> string) \<Rightarrow> methodbuilder \<Rightarrow> bytes option list \<Rightarrow> bool" where
  "handlers_named cn m sl \<longleftrightarrow> (\<forall>h \<in> set (mb_handlers m). eh_catchType h \<noteq> 0 \<longrightarrow>
     den_ref1 TagClass sl (eh_catchType h) (cn (eh_catchType h)))"

definition constant_named :: "(u16 \<Rightarrow> const) \<Rightarrow> fieldbuilder \<Rightarrow> bytes option list \<Rightarrow> bool" where
  "constant_named ck f sl \<longleftrightarrow> (fb_constant f \<noteq> 0 \<longrightarrow>
     (\<exists>k. den_req sl (fb_constant f) k \<and> req_const k = Some (ck (fb_constant f))))"

lemma lasting_named [intro]: "lasting (handlers_named cn m)" "lasting (constant_named ck f)"
  by (auto simp: lasting_def handlers_named_def constant_named_def intro: den_append den_req_append)

lemma emission_code:
  assumes v: "Java1_0 \<le> vMajor v" and P: "lasting P" and m: "method_fits m" "mb_code m \<noteq> []" "length (mb_code m) \<le> 65535"
    and h: "\<And>sl. P sl \<Longrightarrow> handlers_named cn m sl"
  shows "emission v P (code_attribute m) (attribute_turn (attributes_at 1) locMethod) [Code (code_image cn m)]"
proof -
  let ?Q = "\<lambda>rows sl. P sl \<and> list_all2 (row_of sl) rows (mb_locals m)"
  have Q: "lasting (?Q rows)" for rows using P by auto
  have "emission v (?Q rows) (code_body m rows) (code_parts (attributes_with (attributes_at 0) locCode)) (code_image cn m)" for rows
    using h by (intro emission_code_body v Q m) (auto simp: handlers_named_def)
  then have "emission v (?Q rows) (em_attr ''Code'' (code_body m rows)) (attribute_turn (attributes_at 1) locMethod) [Code (code_image cn m)]" for rows
    using emission_attr [OF _ Q builder_gates(2) [OF v] _ code_bodies(3) [of "attributes_at 1"]] by simp
  then have "emission v P (\<lambda>w p. case lv_rows (mb_locals m) p of (rows, q) \<Rightarrow> em_attr ''Code'' (code_body m rows) w q)
      (attribute_turn (attributes_at 1) locMethod) [Code (code_image cn m)]"
    using lv_rows_let P by (intro emission_let [where den = "\<lambda>sl rows. list_all2 (row_of sl) rows (mb_locals m)"]) blast+
  moreover have "code_attribute m = (\<lambda>w p. case lv_rows (mb_locals m) p of (rows, q) \<Rightarrow> em_attr ''Code'' (code_body m rows) w q)"
    by (intro ext) (simp add: code_attribute_def)
  ultimately show ?thesis by simp
qed

lemma emission_exceptions:
  assumes v: "Java1_0 \<le> vMajor v" and P: "lasting P" and n: "length es < 65536"
  shows "emission v P (exceptions_attribute es) (attribute_turn rec locMethod) [Exceptions (map utf8_clean es)]"
proof -
  let ?Q = "\<lambda>idx sl. P sl \<and> list_all2 (den_ref1 TagClass sl) idx es"
  have Q: "lasting (?Q idx)" for idx using P by auto
  have "emission v (?Q idx) (em_table em_u2 idx) classList (map utf8_clean es)" for idx
  proof (rule emission_if)
    show "pool_writer (em_table em_u2 idx)"
      unfolding em_table_def by (intro pool_writer_then pool_writer_each pool_writer_u2)
    fix sl assume "?Q idx sl"
    then have l: "length idx = length es" by (auto dest: list_all2_lengthD)
    show "emission v (?Q idx) (em_table em_u2 idx) classList (map utf8_clean es)"
      unfolding classList_def using n l
      by (intro emission_table_zip [OF _ Q] list_all2_all_nthI) (auto intro!: emission_class_idx Q dest: list_all2_nthD)
  qed
  then have "emission v (?Q idx) (em_attr ''Exceptions'' (em_table em_u2 idx)) (attribute_turn rec locMethod) [Exceptions (map utf8_clean es)]" for idx
    using emission_attr [OF _ Q builder_gates(3) [OF v] _ code_bodies(4)] by simp
  then have "emission v P (\<lambda>w p. case intern_classes es p of (idx, q) \<Rightarrow> em_attr ''Exceptions'' (em_table em_u2 idx) w q)
      (attribute_turn rec locMethod) [Exceptions (map utf8_clean es)]"
    using intern_classes_let P by (intro emission_let [where den = "\<lambda>sl idx. list_all2 (den_ref1 TagClass sl) idx es"]) blast+
  moreover have "exceptions_attribute es = (\<lambda>w p. case intern_classes es p of (idx, q) \<Rightarrow> em_attr ''Exceptions'' (em_table em_u2 idx) w q)"
    by (intro ext) (simp add: exceptions_attribute_def)
  ultimately show ?thesis by simp
qed

text \<open>The methods the builder can write without loss.\<close>

definition method_ready :: "version \<Rightarrow> methodbuilder \<Rightarrow> bool" where
  "method_ready v m \<longleftrightarrow> method_fits m \<and> (mb_signature m \<noteq> [] \<longrightarrow> Java5 \<le> vMajor v) \<and>
     (mb_hasCode m \<longrightarrow> mb_code m \<noteq> [] \<and> length (mb_code m) \<le> 65535)"

lemma emission_method:
  assumes v: "Java1_0 \<le> vMajor v" and P: "lasting P" and m: "method_ready v m"
    and h: "\<And>sl. P sl \<Longrightarrow> handlers_named cn m sl"
  shows "emission v P (em_then (em_u2 (mb_flags m)) (em_then (em_ref (pb_UTF8 (mb_name m)))
     (em_then (em_ref (pb_UTF8 (mb_descriptor m))) (em_scratch (method_attrs m))))) dec_method (method_image cn m)"
proof -
  have r: "method_fits m" "mb_signature m \<noteq> [] \<Longrightarrow> Java5 \<le> vMajor v" "mb_hasCode m \<Longrightarrow> mb_code m \<noteq> []"
    "mb_hasCode m \<Longrightarrow> length (mb_code m) \<le> 65535" using m by (auto simp: method_ready_def)
  let ?xs = "(if mb_hasCode m then [[Code (code_image cn m)]] else []) @
    (if mb_exceptions m \<noteq> [] then [[Exceptions (map utf8_clean (mb_exceptions m))]] else []) @
    (if mb_signature m \<noteq> [] then [[Signature (utf8_clean (mb_signature m))]] else [])"
  have "items v P (em_then (em_when (mb_hasCode m) (code_attribute m))
     (em_then (em_when (mb_exceptions m \<noteq> []) (exceptions_attribute (mb_exceptions m)))
       (em_when (mb_signature m \<noteq> []) (em_utf8_attr ''Signature'' (mb_signature m)))))
     (attribute_turn (attributes_at 1) locMethod) ?xs"
    using r(1) by (intro items_then items_when items_one emission_code emission_exceptions emission_utf8_attr builder_gates v P r h)
      (simp_all add: method_fits_def)
  from emission_attributes [OF this P]
  have "emission v P (method_attrs m) (attributes locMethod) (jmAttrs (method_image cn m))"
    unfolding method_attrs_def attributes_2 by (auto simp: method_image_def bool_count_def split: if_splits)
  then show ?thesis
    unfolding dec_method_def
    by (intro emission_then [OF emission_u2 [OF P] _ P] emission_then [OF emission_name [OF P] _ P]
        emission_map [OF emission_scratch]) (assumption, simp add: method_image_def)
qed

section \<open>The file\<close>

definition method_emitter :: "methodbuilder \<Rightarrow> emitter" where
  "method_emitter m = em_then (em_u2 (mb_flags m)) (em_then (em_ref (pb_UTF8 (mb_name m)))
     (em_then (em_ref (pb_UTF8 (mb_descriptor m))) (em_scratch (method_attrs m))))"

lemma emitMethods_each:
  "emitMethods ms w b = (w', b') \<Longrightarrow> bd_err b' = None \<Longrightarrow>
   em_each method_emitter ms w (bd_pool b) = (w', bd_pool b') \<and> b' = b\<lparr>bd_pool := bd_pool b'\<rparr> \<and> list_all (\<lambda>m. method_refused m = None) ms"
proof (induction ms arbitrary: w b)
  case (Cons m ms)
  obtain w1 b1 where 1: "emitMethod m w b = (w1, b1)" "emitMethods ms w1 b1 = (w', b')"
    using Cons.prems(1) by (auto split: prod.splits)
  note ih = Cons.IH [OF 1(2) Cons.prems(2)]
  have "bd_err b1 = None" using ih Cons.prems(2) by (metis builder.select_convs(10) builder.surjective builder.update_convs(1))
  then have "method_refused m = None" using 1(1) by (auto simp: emitMethod_def bd_fail_def split: option.splits if_splits)
  moreover from this obtain p1 where p1: "method_emitter m w (bd_pool b) = (w1, p1)" "b1 = b\<lparr>bd_pool := p1\<rparr>"
    using 1(1) by (auto simp: emitMethod_def method_emitter_def split: prod.splits)
  moreover obtain p2 where "b' = b1\<lparr>bd_pool := p2\<rparr>" using ih by blast
  ultimately show ?case using ih by (simp add: em_then_def)
qed simp

lemma emission_class_attrs:
  assumes v: "Java1_0 \<le> vMajor v"
  shows "emission v (\<lambda>sl. True) (class_attrs sf) (attributes locClass) (if sf \<noteq> [] then [SourceFile (utf8_clean sf)] else [])"
proof -
  let ?A = "\<lambda>i w p. case pb_UTF8 sf p of (j, p2) \<Rightarrow> w_attr i (em_u2 j) w p2"
  have "emission v (\<lambda>sl. (True \<and> den_utf8 sl i ''SourceFile'') \<and> den_utf8 sl j sf) (w_attr i (em_u2 j))
      (attribute_turn (attributes_at 1) locClass) [SourceFile (utf8_clean sf)]" for i j
    by (rule emission_w_attr [OF emission_utf8_idx _ _ builder_gates(6) [OF v] _ code_bodies(5), of _ j sf i, simplified]) auto
  then have A: "emission v (\<lambda>sl. True \<and> den_utf8 sl i ''SourceFile'') (?A i) (attribute_turn (attributes_at 1) locClass) [SourceFile (utf8_clean sf)]" for i
    using utf8_let by (intro emission_let [where den = "\<lambda>sl j. den_utf8 sl j sf"]) auto
  have "emission v (\<lambda>sl. True) (\<lambda>w p. case pb_UTF8 ''SourceFile'' p of (i, p1) \<Rightarrow> ?A i w p1)
      (attribute_turn (attributes_at 1) locClass) [SourceFile (utf8_clean sf)]"
    by (rule emission_let [where den = "\<lambda>sl i. den_utf8 sl i ''SourceFile''", OF _ A]) (use utf8_let in auto)
  then have "items v (\<lambda>sl. True) (em_when (sf \<noteq> []) (\<lambda>w p. case pb_UTF8 ''SourceFile'' p of (i, p1) \<Rightarrow> ?A i w p1))
      (attribute_turn (attributes_at 1) locClass) (if sf \<noteq> [] then [[SourceFile (utf8_clean sf)]] else [])"
    by (intro items_when items_one)
  from emission_attributes [OF this lasting_intros(1)] show ?thesis
    unfolding class_attrs_def attributes_2 by (auto simp: bool_count_def split: if_splits)
qed

text \<open>The part of \<open>read_class\<close> before its final checks.\<close>

definition class_parts :: "version \<Rightarrow> (pool \<Rightarrow> jclass) dec" where
  "class_parts v =
     sbind d_u2 (\<lambda>fl.
     sbind (sbind d_u2 dec_class) (\<lambda>name.
     sbind (read_super name fl) (\<lambda>super.
     sbind (d_table (sbind d_u2 dec_class)) (\<lambda>ifaces.
     sbind (members locField) (\<lambda>fs.
     sbind methods (\<lambda>ms.
     sbind (attributes locClass) (\<lambda>as.
       sret (\<lambda>p. \<lparr>jcVersion = v, jcPool = p, jcFlags = fl, jcName = name, jcSuper = super,
         jcInterfaces = ifaces, jcFields = fs, jcMethods = ms, jcAttrs = as, jcSourceFile = [], jcSignature = [],
         jcNestHost = [], jcDeprecated = False, jcSynthetic = False\<rparr>))))))))"

lemma read_class_parts:
  "read_class v = sbind (class_parts v) (\<lambda>f d. case rerr (dr d) of
       Some e \<Rightarrow> (Inl e, d)
     | None \<Rightarrow>
         if roff (dr d) \<noteq> length (rb (dr d))
         then (Inl (SyntaxError (rfile (dr d)) (roff (dr d))
                 (TrailingBytes (int (length (rb (dr d))) - int (roff (dr d))))), d)
         else (Inr (hoistClass (f (dpool d))), d))"
  by (simp add: read_class_def class_parts_def sbind_assoc)

lemma read_class_reads:
  assumes "reads v sl bs (class_parts v) f" and "ready v sl bs d" and "rest (dr d) = bs"
  obtains q where "fst (read_class v d) = Inr (hoistClass (f q))" and "pool_of sl q"
proof -
  obtain q where q: "class_parts v d = (Inr f, d\<lparr>dr := advance (length bs) (dr d), dpool := q\<rparr>)" "pool_of sl q"
    using assms(1,2) by (auto simp: reads_def)
  have "rerr (dr d) = None" "roff (dr d) + length bs = length (rb (dr d))"
    using assms(2,3) by (auto simp: ready_def reader_ok_def rest_def)
  then have "fst (read_class v d) = Inr (hoistClass (f q))" using q(1) by (simp add: read_class_parts)
  then show thesis using that q(2) by blast
qed

lemma read_file:
  assumes fl: "fl = be_u4 Magic @ be_u2 (vMinor v) @ be_u2 (vMajor v) @ emit p [] @ body"
    and v: "version_check v False = None" and p: "table_ok (slots p)"
      "\<And>c. centry_ok c \<Longrightarrow> Some (cbytes c) \<in> set (slots p) \<Longrightarrow> tag_known v c"
    and len: "length fl < 2 ^ 32" and r: "reads v (slots p) body (class_parts v) f"
  obtains q where "read fl name 0 = Inr (hoistClass (f q))" and "pool_of (slots p) q"
proof -
  let ?r = "\<lparr>rb = fl, roff = 0, rfile = name, rerr = None\<rparr> :: reader"
  have ok: "reader_ok ?r" "rest ?r = fl" by (simp_all add: reader_ok_def rest_def)
  have 1: "r_u4 ?r = (Magic, advance 4 ?r)" using r_u4_read [OF ok(1)] ok(2) fl by simp
  have 2: "r_u2 (advance 4 ?r) = (vMinor v, advance 6 ?r)"
    using r_u2_read [OF reader_ok_advance [OF ok(1), of 4]] ok(2) fl by simp
  have 3: "r_u2 (advance 6 ?r) = (vMajor v, advance 8 ?r)"
    using r_u2_read [OF reader_ok_advance [OF ok(1), of 6]] ok(2) fl by simp
  have ok8: "reader_ok (advance 8 ?r)" "rest (advance 8 ?r) = emit p [] @ body"
    using reader_ok_advance [OF ok(1), of 8] ok(2) fl by simp_all
  obtain q where q: "readPool v (advance 8 ?r) = (Some q, advance (length (emit p [])) (advance 8 ?r))" "pool_of (slots p) q"
    using pool_of_emit [OF p ok8] len by (metis advance_simps(1) reader.select_convs(1))
  let ?d = "\<lparr>dr = advance (length (emit p [])) (advance 8 ?r), dpool = q, dversion = v, dmode = 0\<rparr>"
  have "ready v (slots p) body ?d" "rest (dr ?d) = body"
    using q(2) len ok8 reader_ok_advance [OF ok8(1), of "length (emit p [])"] by (simp_all add: ready_def del: advance_add)
  from read_class_reads [OF r this] obtain q' where q': "fst (read_class v ?d) = Inr (hoistClass (f q'))" "pool_of (slots p) q'" by blast
  have vv: "\<lparr>vMajor = vMajor v, vMinor = vMinor v\<rparr> = v" by simp
  have "read fl name 0 = Inr (hoistClass (f q'))"
    using 1 2 3 q(1) v ok8(1) q'(1) by (simp add: read_def Magic_def reader_ok_def Let_def vv)
  then show thesis using that q'(2) by blast
qed

text \<open>What the builder's tables must satisfy for nothing to be cut off.\<close>

definition builder_fits :: "builder \<Rightarrow> bool" where
  "builder_fits b \<longleftrightarrow> length (bd_ifaces b) < 65536 \<and> length (bd_fields b) < 65536 \<and> length (bd_methods b) < 65536 \<and>
     (\<forall>m \<in> set (bd_methods b). method_ready (bd_version b) m) \<and>
     (\<forall>f \<in> set (bd_fields b). fb_signature f \<noteq> [] \<longrightarrow> Java5 \<le> vMajor (bd_version b))"

definition names_ok :: "(u16 \<Rightarrow> string) \<Rightarrow> (u16 \<Rightarrow> const) \<Rightarrow> builder \<Rightarrow> bytes option list \<Rightarrow> bool" where
  "names_ok cn ck b sl \<longleftrightarrow> (\<forall>f \<in> set (bd_fields b). constant_named ck f sl) \<and> (\<forall>m \<in> set (bd_methods b). handlers_named cn m sl)"

lemma lasting_names [intro]: "lasting (names_ok cn ck b)"
  unfolding names_ok_def by (intro lasting_intros lasting_named)

lemma emission_members:
  assumes v: "v = bd_version b" "Java1_0 \<le> vMajor v" and f: "builder_fits b"
  shows "emission v (names_ok cn ck b) (em_table emitField (bd_fields b)) (d_table (member locField)) (map (field_image ck) (bd_fields b))"
    and "emission v (names_ok cn ck b) (em_table method_emitter (bd_methods b)) (d_table dec_method) (map (method_image cn) (bd_methods b))"
proof -
  have "emission v (names_ok cn ck b) (emitField f') (member locField) (field_image ck f')" if "f' \<in> set (bd_fields b)" for f'
    using that f v by (intro emission_field) (auto simp: builder_fits_def names_ok_def constant_named_def)
  then show "emission v (names_ok cn ck b) (em_table emitField (bd_fields b)) (d_table (member locField)) (map (field_image ck) (bd_fields b))"
    using f by (intro emission_table lasting_names) (simp_all add: builder_fits_def)
  have "emission v (names_ok cn ck b) (method_emitter m) dec_method (method_image cn m)" if "m \<in> set (bd_methods b)" for m
    using that f v unfolding method_emitter_def by (intro emission_method) (auto simp: builder_fits_def names_ok_def)
  then show "emission v (names_ok cn ck b) (em_table method_emitter (bd_methods b)) (d_table dec_method) (map (method_image cn) (bd_methods b))"
    using f by (intro emission_table lasting_names) (simp_all add: builder_fits_def)
qed

lemma reads_super:
  assumes "bd_super b \<noteq> [] \<Longrightarrow> den_ref1 TagClass sl i (bd_super b)"
    and "bd_super b = [] \<Longrightarrow> i = 0 \<and> bd_name b = ''java/lang/Object''"
  shows "reads v sl (be_u2 i) (read_super (utf8_clean (bd_name b)) fl) (utf8_clean (bd_super b))"
proof (cases "bd_super b = []")
  case True
  then show ?thesis using assms(2) unfolding read_super_def by (intro reads_bind0 [OF reads_u2]) auto
next
  case False
  then have d: "den_ref1 TagClass sl i (bd_super b)" by (rule assms(1))
  then have "i \<noteq> 0" by (auto simp: den_ref1_def entry_at_def)
  then show ?thesis unfolding read_super_def using reads_dec_class [OF d] by (intro reads_bind0 [OF reads_u2]) simp
qed

lemma reads_classes:
  assumes "list_all2 (den_ref1 TagClass sl) idx ss" and "length ss < 65536"
  shows "reads v sl (be_u2 (word_of_nat (length idx)) @ concat (map be_u2 idx)) (d_table (sbind (d_read r_u2) dec_class)) (map utf8_clean ss)"
proof -
  have "list_all2 (\<lambda>bs x. reads v sl bs (sbind (d_read r_u2) dec_class) x) (map be_u2 idx) (map utf8_clean ss)"
    using assms(1) by (auto simp: list_all2_map1 list_all2_map2 elim!: list_all2_mono intro: reads_class_idx)
  from reads_table [OF this] show ?thesis using assms list_all2_lengthD [OF assms(1)] by simp
qed

lemma reads_class_parts:
  assumes "den_ref1 TagClass sl i (bd_name b)"
    and "bd_super b \<noteq> [] \<Longrightarrow> den_ref1 TagClass sl j (bd_super b)" "bd_super b = [] \<Longrightarrow> j = 0 \<and> bd_name b = ''java/lang/Object''"
    and "list_all2 (den_ref1 TagClass sl) idx (bd_ifaces b)" "length (bd_ifaces b) < 65536"
    and f: "reads v sl fb (d_table (member locField)) fs" and m: "reads v sl mb (d_table dec_method) ms"
    and a: "reads v sl ab (attributes locClass) as"
  shows "reads v sl (be_u2 fl @ be_u2 i @ be_u2 j @ (be_u2 (word_of_nat (length idx)) @ concat (map be_u2 idx)) @ fb @ mb @ ab)
    (class_parts v) (\<lambda>p. \<lparr>jcVersion = v, jcPool = p, jcFlags = fl, jcName = utf8_clean (bd_name b), jcSuper = utf8_clean (bd_super b),
      jcInterfaces = map utf8_clean (bd_ifaces b), jcFields = fs, jcMethods = ms, jcAttrs = as, jcSourceFile = [], jcSignature = [],
      jcNestHost = [], jcDeprecated = False, jcSynthetic = False\<rparr>)"
proof -
  have F: "reads v sl fb (members locField) fs" unfolding members_def by (rule reads_bind0 [OF f reads_checked])
  have M: "reads v sl mb methods ms" unfolding methods_def by (rule reads_bind0 [OF m reads_checked])
  show ?thesis
    unfolding class_parts_def
    by (rule reads_bind [OF reads_u2], rule reads_bind [OF reads_class_idx [OF assms(1)]], rule reads_bind [OF reads_super [OF assms(2,3)]],
        assumption, assumption, rule reads_bind [OF reads_classes [OF assms(4,5)]],
        rule reads_bind [OF F], rule reads_bind [OF M], rule reads_then_ret [OF a refl])
qed

text \<open>The stages of \<open>Bytes\<close>, when it succeeds.\<close>

lemma Bytes_stages:
  assumes "builder_Bytes b = (Inr fl, b')"
  obtains i p1 j p2 idx p3 fb p4 mb p5 ab p6 where "bd_err b = None" "pb_Class (bd_name b) (bd_pool b) = (i, p1)"
    "if bd_super b \<noteq> [] then pb_Class (bd_super b) p1 = (j, p2) else j = 0 \<and> p2 = p1 \<and> bd_name b = ''java/lang/Object''"
    "intern_classes (bd_ifaces b) p2 = (idx, p3)" "em_table emitField (bd_fields b) [] p3 = (fb, p4)"
    "em_table method_emitter (bd_methods b) [] p4 = (mb, p5)" "class_attrs (bd_sourceFile b) [] p5 = (ab, p6)"
    "pb_err p6 = None" "b' = b\<lparr>bd_pool := p6\<rparr>" "fl = file_bytes b' i j idx fb mb ab"
proof -
  have e: "bd_err b = None" using assms by (auto simp: builder_Bytes_def split: option.splits)
  obtain i p1 where 1: "pb_Class (bd_name b) (bd_pool b) = (i, p1)" by fastforce
  let ?b1 = "b\<lparr>bd_pool := p1\<rparr>"
  obtain j p2 where 2: "super_index ?b1 = Inr (j, b\<lparr>bd_pool := p2\<rparr>)"
    "if bd_super b \<noteq> [] then pb_Class (bd_super b) p1 = (j, p2) else j = 0 \<and> p2 = p1 \<and> bd_name b = ''java/lang/Object''"
    using assms e 1
    by (cases "pb_Class (bd_super b) p1") (auto simp: builder_Bytes_def bd_intern_def super_index_def split: if_splits)
  obtain idx p3 where 3: "intern_classes (bd_ifaces b) p2 = (idx, p3)" by fastforce
  obtain fb p4 where 4: "em_table emitField (bd_fields b) [] p3 = (fb, p4)" by fastforce
  obtain mb b5 where 5: "emitMethods (bd_methods b) (w_u2 (word_of_nat (length (bd_methods b))) []) (b\<lparr>bd_pool := p4\<rparr>) = (mb, b5)"
    by fastforce
  obtain ab p6 where 6: "class_attrs (bd_sourceFile b5) [] (bd_pool b5) = (ab, p6)" by fastforce
  have f: "pb_err p6 = None" "bd_err b5 = None" "b' = b5\<lparr>bd_pool := p6\<rparr>" "fl = file_bytes (b5\<lparr>bd_pool := p6\<rparr>) i j idx fb mb ab"
    using assms e 1 2(1) 3 4 5 6 by (auto simp: builder_Bytes_def bd_intern_def Let_def split: option.splits)
  obtain p5 where p5: "em_each method_emitter (bd_methods b) (w_u2 (word_of_nat (length (bd_methods b))) []) p4 = (mb, p5)" "b5 = b\<lparr>bd_pool := p5\<rparr>"
    using emitMethods_each [OF 5 f(2)] by (metis builder.select_convs(1) builder.surjective builder.update_convs(1))
  then have "em_table method_emitter (bd_methods b) [] p4 = (mb, p5)" by (simp add: em_table_def em_then_def em_u2_def)
  then show thesis using that [OF e 1 2(2) 3 4 _ _ f(1)] 6 f(3,4) p5(2) by simp
qed

lemma emit_append: "emit p w = w @ emit p []"
proof -
  have "emit_slots sl (w @ x) = w @ emit_slots sl x" for sl x
    by (induction sl x rule: emit_slots.induct) (simp_all add: w_raw_def)
  then show ?thesis by (simp add: emit_def w_u2_def)
qed

lemma fold_u2: "fold w_u2 idx w = w @ concat (map be_u2 idx)"
  by (induction idx arbitrary: w) simp_all

lemma file_bytes_split:
  "file_bytes b i j idx fb mb ab = be_u4 Magic @ be_u2 (vMinor (bd_version b)) @ be_u2 (vMajor (bd_version b)) @ emit (bd_pool b) [] @
     (be_u2 (bd_flags b) @ be_u2 i @ be_u2 j @ (be_u2 (word_of_nat (length idx)) @ concat (map be_u2 idx)) @ fb @ mb @ ab)"
proof -
  have "emit (bd_pool b) (be_u4 Magic @ be_u2 (vMinor (bd_version b)) @ be_u2 (vMajor (bd_version b))) =
      (be_u4 Magic @ be_u2 (vMinor (bd_version b)) @ be_u2 (vMajor (bd_version b))) @ emit (bd_pool b) []"
    by (rule emit_append)
  then show ?thesis by (simp add: file_bytes_def fold_u2 w_raw_def Let_def)
qed

text \<open>A table that names no constant introduced after Java 5.\<close>

definition no_method_types :: "bytes option list \<Rightarrow> bool" where
  "no_method_types sl \<longleftrightarrow> list_all (\<lambda>s. case s of Some (t # _) \<Rightarrow> t \<noteq> TagMethodType | _ \<Rightarrow> True) sl"

lemma java5_tags:
  assumes "no_method_types sl" and "Java1_0 \<le> vMajor v" and "centry_ok c" and "Some (cbytes c) \<in> set sl"
  shows "tag_known v c"
proof -
  have "ctag c \<noteq> TagMethodType"
    using assms(1,4) cbytes_tag [of c] by (fastforce simp: no_method_types_def list_all_iff split: list.splits)
  then show ?thesis using assms(2,3) by (cases c) (auto simp: tag_known_def tagSince_def)
qed

text \<open>The class before the attributes are hoisted.\<close>

definition plain_class :: "(u16 \<Rightarrow> string) \<Rightarrow> (u16 \<Rightarrow> const) \<Rightarrow> builder \<Rightarrow> pool \<Rightarrow> jclass" where
  "plain_class cn ck b p = \<lparr>jcVersion = bd_version b, jcPool = p, jcFlags = bd_flags b, jcName = utf8_clean (bd_name b),
     jcSuper = utf8_clean (bd_super b), jcInterfaces = map utf8_clean (bd_ifaces b), jcFields = map (field_image ck) (bd_fields b),
     jcMethods = map (method_image cn) (bd_methods b),
     jcAttrs = (if bd_sourceFile b \<noteq> [] then [SourceFile (utf8_clean (bd_sourceFile b))] else []), jcSourceFile = [], jcSignature = [],
     jcNestHost = [], jcDeprecated = False, jcSynthetic = False\<rparr>"

lemma hoist_plain: "hoistClass (plain_class cn ck b q) = class_image cn ck q b"
  by (simp add: plain_class_def class_image_def hoistClass_def)

lemma Bytes_grows:
  assumes "builder_Bytes b = (Inr fl, b')" and "builder_fits b" and "Java1_0 \<le> vMajor (bd_version b)"
  shows "pb_grows (bd_pool b) (bd_pool b') \<and> pb_err (bd_pool b') = None \<and> (\<exists>p. b' = b\<lparr>bd_pool := p\<rparr>)"
proof -
  from Bytes_stages [OF assms(1)] obtain i p1 j p2 idx p3 fb p4 mb p5 ab p6 where st: "pb_Class (bd_name b) (bd_pool b) = (i, p1)"
    "if bd_super b \<noteq> [] then pb_Class (bd_super b) p1 = (j, p2) else j = 0 \<and> p2 = p1 \<and> bd_name b = ''java/lang/Object''"
    "intern_classes (bd_ifaces b) p2 = (idx, p3)" "em_table emitField (bd_fields b) [] p3 = (fb, p4)"
    "em_table method_emitter (bd_methods b) [] p4 = (mb, p5)" "class_attrs (bd_sourceFile b) [] p5 = (ab, p6)"
    "pb_err p6 = None" "b' = b\<lparr>bd_pool := p6\<rparr>" by metis
  note E = emission_members [OF refl assms(3,2), THEN emission.axioms(1)]
  have "pb_grows p1 p2" using st(2) class_let [of "bd_super b" p1 j p2] by (auto split: if_splits)
  then have "pb_grows (bd_pool b) p6"
    using class_let [OF st(1)] intern_classes_let [OF st(3)] pool_writer.grows [OF E(1) st(4)] pool_writer.grows [OF E(2) st(5)]
      pool_writer.grows [OF emission.axioms(1) [OF emission_class_attrs [OF assms(3)]] st(6)] pb_grows_trans by meson
  then show ?thesis using st(7,8) by auto
qed

lemma Bytes_body:
  assumes B: "builder_Bytes b = (Inr fl, b')" and inv: "pb_inv (bd_pool b)" and n: "names_ok cn ck b (slots (bd_pool b))"
    and f: "builder_fits b" and v: "Java1_0 \<le> vMajor (bd_version b)"
  obtains body where "fl = be_u4 Magic @ be_u2 (vMinor (bd_version b)) @ be_u2 (vMajor (bd_version b)) @ emit (bd_pool b') [] @ body"
    and "reads (bd_version b) (slots (bd_pool b')) body (class_parts (bd_version b)) (plain_class cn ck b)"
    and "table_ok (slots (bd_pool b'))"
proof -
  let ?v = "bd_version b"
  from Bytes_stages [OF B] obtain i p1 j p2 idx p3 fb p4 mb p5 ab p6 where st: "pb_Class (bd_name b) (bd_pool b) = (i, p1)"
    "if bd_super b \<noteq> [] then pb_Class (bd_super b) p1 = (j, p2) else j = 0 \<and> p2 = p1 \<and> bd_name b = ''java/lang/Object''"
    "intern_classes (bd_ifaces b) p2 = (idx, p3)" "em_table emitField (bd_fields b) [] p3 = (fb, p4)"
    "em_table method_emitter (bd_methods b) [] p4 = (mb, p5)" "class_attrs (bd_sourceFile b) [] p5 = (ab, p6)"
    "pb_err p6 = None" "b' = b\<lparr>bd_pool := p6\<rparr>" "fl = file_bytes b' i j idx fb mb ab" by metis
  note E = emission_members [OF refl v f, of cn ck]
  note A = emission_class_attrs [OF v]
  have p1: "pb_grows (bd_pool b) p1" "pb_inv p1" using class_let [OF st(1)] inv by blast+
  have p2: "pb_grows p1 p2" "pb_inv p2" using st(2) class_let [of "bd_super b" p1 j p2] p1(2) by (auto split: if_splits)
  have p3: "pb_grows p2 p3" "pb_inv p3" using intern_classes_let [OF st(3)] p2(2) by blast+
  have p4: "pb_grows p3 p4" "pb_inv p4" using pool_writer.grows [OF emission.axioms(1) [OF E(1)] st(4)]
    pool_writer.inv [OF emission.axioms(1) [OF E(1)] st(4) p3(2)] by blast+
  have p5: "pb_grows p4 p5" "pb_inv p5" using pool_writer.grows [OF emission.axioms(1) [OF E(2)] st(5)]
    pool_writer.inv [OF emission.axioms(1) [OF E(2)] st(5) p4(2)] by blast+
  have p6: "pb_grows p5 p6" "pb_inv p6" using pool_writer.grows [OF emission.axioms(1) [OF A] st(6)]
    pool_writer.inv [OF emission.axioms(1) [OF A] st(6) p5(2)] by blast+
  have up: "pb_grows p4 p6" "pb_grows p3 p6" "pb_grows p2 p6" "pb_grows p1 p6" "pb_grows (bd_pool b) p3" "pb_grows (bd_pool b) p4"
    using p1(1) p2(1) p3(1) p4(1) p5(1) p6(1) pb_grows_trans by meson+
  have err: "pb_err p1 = None" "pb_err p2 = None" "pb_err p3 = None" "pb_err p4 = None" "pb_err p5 = None"
    using up p6(1) st(7) pb_err_back by blast+
  have names: "names_ok cn ck b (slots p3)" "names_ok cn ck b (slots p4)"
    using n up(5,6) lasting_names [of cn ck b] by (auto simp: lasting_def pb_grows_def)
  obtain z where z: "slots p6 = slots p4 @ z" using up(1) by (auto simp: pb_grows_def)
  obtain z' where z': "slots p6 = slots p5 @ z'" using p6(1) by (auto simp: pb_grows_def)
  have rf: "reads ?v (slots p6) fb (d_table (member locField)) (map (field_image ck) (bd_fields b))"
    using emission.read_back [OF E(1) st(4) p3(2) err(4) names(1)] by (auto simp: z)
  have rm: "reads ?v (slots p6) mb (d_table dec_method) (map (method_image cn) (bd_methods b))"
    using emission.read_back [OF E(2) st(5) p4(2) err(5) names(2)] by (auto simp: z')
  have ra: "reads ?v (slots p6) ab (attributes locClass) (if bd_sourceFile b \<noteq> [] then [SourceFile (utf8_clean (bd_sourceFile b))] else [])"
    using emission.read_back [OF A st(6) p5(2) st(7) TrueI] by (metis append_Nil append_Nil2)
  have d1: "den_ref1 TagClass (slots p6) i (bd_name b)" using class_let [OF st(1)] inv err(1) den_grown(2) [OF up(4)] by blast
  have d2: "den_ref1 TagClass (slots p6) j (bd_super b)" if "bd_super b \<noteq> []"
    using class_let [of "bd_super b" p1 j p2] st(2) that p1(2) err(2) den_grown(2) [OF up(3)] by simp
  have d2': "bd_super b = [] \<Longrightarrow> j = 0 \<and> bd_name b = ''java/lang/Object''" using st(2) by simp
  have "list_all2 (den_ref1 TagClass (slots p3)) idx (bd_ifaces b)" using intern_classes_let [OF st(3)] p2(2) err(3) by blast
  then have d3: "list_all2 (den_ref1 TagClass (slots p6)) idx (bd_ifaces b)" using den_grown(2) [OF up(2)] by (rule list_all2_mono)
  have "length (bd_ifaces b) < 65536" using f by (simp add: builder_fits_def)
  note R = reads_class_parts [OF d1 d2 d2' d3 this rf rm ra, of "bd_flags b"]
  have "table_ok (slots (bd_pool b'))" using p6(2) st(7,8) by (simp add: pb_inv_def)
  moreover have "bd_version b' = bd_version b" "bd_flags b' = bd_flags b" "bd_pool b' = p6" by (simp_all add: st(8))
  moreover note file_bytes_split [of b' i j idx fb mb ab, folded st(9)]
  ultimately show thesis using that R unfolding plain_class_def [abs_def] by simp
qed

lemma Bytes_read:
  assumes B: "builder_Bytes b = (Inr fl, b')" and inv: "pb_inv (bd_pool b)" and n: "names_ok cn ck b (slots (bd_pool b))"
    and f: "builder_fits b" and v: "Java1_0 \<le> vMajor (bd_version b)" "version_check (bd_version b) False = None"
    and mt: "no_method_types (slots (bd_pool b'))" and len: "length fl < 2 ^ 32"
  obtains q where "read fl name 0 = Inr (class_image cn ck q b)" and "pool_of (slots (bd_pool b')) q"
proof -
  obtain body where b: "fl = be_u4 Magic @ be_u2 (vMinor (bd_version b)) @ be_u2 (vMajor (bd_version b)) @ emit (bd_pool b') [] @ body"
    "reads (bd_version b) (slots (bd_pool b')) body (class_parts (bd_version b)) (plain_class cn ck b)" "table_ok (slots (bd_pool b'))"
    using Bytes_body [OF B inv n f v(1)] by blast
  show thesis
    by (rule read_file [OF b(1) v(2) b(3) _ len b(2), of name])
      (use java5_tags [OF mt v(1)] that in \<open>auto simp: hoist_plain\<close>)
qed

section \<open>Emitters that meet the contract unconditionally\<close>

interpretation name_part: emission v "\<lambda>sl. True" "em_ref (pb_UTF8 s)" "sbind (d_read r_u2) dec_utf8" "utf8_clean s"
  by (rule emission_name) auto

interpretation line_part: items v "\<lambda>sl. True" "em_each em_line ls" dec_line ls
proof -
  have "items v (\<lambda>sl. True) (em_each em_line ls) dec_line (map (\<lambda>l. l) ls)" by (intro items_each emission_line) auto
  then show "items v (\<lambda>sl. True) (em_each em_line ls) dec_line ls" by simp
qed

end
