(* ===== verification/BuildSteps.thy ===== *)
theory BuildSteps
  imports RoundTrip
begin

unbundle bit_operations_syntax

text \<open>
  The invariant every call on a builder keeps, and the round trip over whole sequences of calls: whatever
  a client did with a builder, if \<open>Bytes\<close> returns a file then \<open>read\<close> returns the class the builder describes.
\<close>

section \<open>The invariant\<close>

definition method_ok :: "bytes option list \<Rightarrow> methodbuilder \<Rightarrow> bool" where
  "method_ok sl m \<longleftrightarrow> (\<forall>h \<in> set (mb_handlers m). eh_catchType h \<noteq> 0 \<longrightarrow> (\<exists>s. den_ref1 TagClass sl (eh_catchType h) s))"

definition field_ok :: "bytes option list \<Rightarrow> fieldbuilder \<Rightarrow> bool" where
  "field_ok sl f \<longleftrightarrow> (fb_constant f \<noteq> 0 \<longrightarrow> (\<exists>k c. den_req sl (fb_constant f) k \<and> req_const k = Some c))"

definition body_ok :: "methodbuilder \<Rightarrow> bool" where
  "body_ok m \<longleftrightarrow> (mb_hasCode m \<longrightarrow> mb_code m \<noteq> [] \<and> length (mb_code m) \<le> MaxCodeLength)"

definition version_ok :: "version \<Rightarrow> bool" where
  "version_ok v \<longleftrightarrow> Java1_0 \<le> vMajor v \<and> vMajor v < Java6 \<and> vMinor v \<noteq> PreviewMinor"

definition builder_inv :: "builder \<Rightarrow> bool" where
  "builder_inv b \<longleftrightarrow> pb_inv (bd_pool b) \<and> version_ok (bd_version b) \<and> list_all body_ok (bd_methods b) \<and>
     (pb_err (bd_pool b) = None \<longrightarrow>
        list_all (field_ok (slots (bd_pool b))) (bd_fields b) \<and> list_all (method_ok (slots (bd_pool b))) (bd_methods b))"

locale builder_step =
  fixes step :: "builder \<Rightarrow> builder"
  assumes keeps: "builder_inv b \<Longrightarrow> builder_inv (step b)"
    and sticky: "bd_err b \<noteq> None \<Longrightarrow> bd_err (step b) = bd_err b"

lemma NewBuilder_inv: "builder_inv (NewBuilder name)"
  by (simp add: builder_inv_def NewBuilder_def version_ok_def)

lemma inv_fail: "builder_inv b \<Longrightarrow> builder_inv (bd_fail e b)"
  by (simp add: builder_inv_def bd_fail_def)

lemma ok_grown:
  "pb_grows p q \<Longrightarrow> field_ok (slots p) f \<Longrightarrow> field_ok (slots q) f"
  "pb_grows p q \<Longrightarrow> method_ok (slots p) m \<Longrightarrow> method_ok (slots q) m"
  unfolding field_ok_def method_ok_def using den_grown by blast+

lemma inv_pool:
  assumes "builder_inv b" and "pb_grows (bd_pool b) p" and "pb_inv p"
  shows "builder_inv (b\<lparr>bd_pool := p\<rparr>)"
proof -
  have "pb_err (bd_pool b) = None" if "pb_err p = None" using assms(2) that pb_err_back by blast
  then show ?thesis using assms ok_grown [OF assms(2)] by (auto simp: builder_inv_def list_all_iff)
qed

lemma inv_intern:
  assumes "builder_inv b" and "bd_intern (request k) b = (i, b1)"
  shows "builder_inv b1" and "pb_err (bd_pool b1) = None \<Longrightarrow> den_req (slots (bd_pool b1)) i k"
proof -
  obtain p where p: "request k (bd_pool b) = (i, p)" "b1 = b\<lparr>bd_pool := p\<rparr>"
    using assms(2) by (auto simp: bd_intern_def split: prod.splits)
  have "pb_inv (bd_pool b)" using assms(1) by (simp add: builder_inv_def)
  then show "builder_inv b1" "pb_err (bd_pool b1) = None \<Longrightarrow> den_req (slots (bd_pool b1)) i k"
    using inv_pool [OF assms(1) request_grows [OF p(1)] request_inv [OF p(1)]] request_den [OF p(1)] by (simp_all add: p(2))
qed

lemma list_all_update: "list_all P xs \<Longrightarrow> (i < length xs \<Longrightarrow> P x) \<Longrightarrow> list_all P (xs[i := x])"
  by (cases "i < length xs") (auto simp: list_all_length nth_list_update)

lemma inv_method:
  assumes "builder_inv b"
    and "m < length (bd_methods b) \<Longrightarrow> body_ok (bd_methods b ! m) \<Longrightarrow> body_ok (g (bd_methods b ! m))"
    and "m < length (bd_methods b) \<Longrightarrow> pb_err (bd_pool b) = None \<Longrightarrow> method_ok (slots (bd_pool b)) (bd_methods b ! m) \<Longrightarrow>
      method_ok (slots (bd_pool b)) (g (bd_methods b ! m))"
  shows "builder_inv (upd_method m g b)"
proof -
  have "list_all body_ok ((bd_methods b)[m := g (bd_methods b ! m)])"
    using assms(1,2) by (intro list_all_update) (auto simp: builder_inv_def list_all_length)
  moreover have "list_all (method_ok (slots (bd_pool b))) ((bd_methods b)[m := g (bd_methods b ! m)])" if "pb_err (bd_pool b) = None"
    using assms(1,3) that by (intro list_all_update) (auto simp: builder_inv_def list_all_length)
  ultimately show ?thesis using assms(1) by (simp add: builder_inv_def upd_method_def)
qed

lemma inv_field:
  assumes "builder_inv b"
    and "pb_err (bd_pool b) = None \<Longrightarrow> f < length (bd_fields b) \<Longrightarrow> field_ok (slots (bd_pool b)) (bd_fields b ! f) \<Longrightarrow> field_ok (slots (bd_pool b)) x"
  shows "builder_inv (b\<lparr>bd_fields := (bd_fields b)[f := x]\<rparr>)"
proof -
  have "list_all (field_ok (slots (bd_pool b))) ((bd_fields b)[f := x])" if "pb_err (bd_pool b) = None"
    using assms that by (intro list_all_update) (auto simp: builder_inv_def list_all_length)
  then show ?thesis using assms(1) by (simp add: builder_inv_def)
qed

section \<open>Every call keeps it\<close>

lemma constant_step:
  assumes "req_const k = Some c"
  shows "builder_step (constant_of f (request k))"
proof
  fix b
  obtain i b1 where 1: "bd_intern (request k) b = (i, b1)" by fastforce
  show "builder_inv (constant_of f (request k) b)" if "builder_inv b"
  proof -
    have "field_ok (slots (bd_pool b1)) (x\<lparr>fb_constant := i\<rparr>)" if "pb_err (bd_pool b1) = None" for x
      using inv_intern(2) [OF \<open>builder_inv b\<close> 1 that] assms by (auto simp: field_ok_def)
    then show ?thesis
      using inv_intern(1) [OF that 1] by (auto simp: constant_of_def 1 setConstant_def Let_def intro!: inv_fail inv_field)
  qed
  show "bd_err (constant_of f (request k) b) = bd_err b" if "bd_err b \<noteq> None"
    using bd_intern_frame [OF 1] that by (auto simp: constant_of_def 1 setConstant_def Let_def bd_fail_def)
qed

lemma encode_handler_step: "builder_step (encode_handler m c h)"
proof
  fix b
  obtain ct b1 where i: "(if hr_catchType h \<noteq> [] then bd_intern (pb_Class (hr_catchType h)) b else (0, b)) = (ct, b1)" by fastforce
  let ?e = "\<lparr>eh_start = word_of_int (lb_pc (lbl c (hr_start h))), eh_end = word_of_int (lb_pc (lbl c (hr_end h))),
            eh_handler = word_of_int (lb_pc (lbl c (hr_handler h))), eh_catchType = ct\<rparr>"
  have e: "encode_handler m c h b = upd_method m (\<lambda>mb. mb\<lparr>mb_handlers := mb_handlers mb @ [?e]\<rparr>) b1"
    by (simp add: encode_handler_def i del: if_split)
  show "builder_inv (encode_handler m c h b)" if "builder_inv b"
  proof -
    have "builder_inv b1 \<and> (pb_err (bd_pool b1) = None \<longrightarrow> ct \<noteq> 0 \<longrightarrow> den_ref1 TagClass (slots (bd_pool b1)) ct (hr_catchType h))"
      using i inv_intern [OF that, of "RClass (hr_catchType h)" ct b1] that by (auto split: if_splits)
    then show ?thesis unfolding e by (intro inv_method) (auto simp: body_ok_def method_ok_def)
  qed
  show "bd_err (encode_handler m c h b) = bd_err b" using i bd_intern_frame by (auto simp: e split: if_splits)
qed

lemma fold_steps: "(\<And>x. builder_step (f x)) \<Longrightarrow> builder_step (fold f xs)"
  by (induction xs) (auto simp: builder_step_def)

lemma code_finish_inv:
  assumes "builder_inv b"
  shows "builder_inv (code_finish m c b)"
proof -
  obtain rows c1 where r: "localRows c = (rows, c1)" by fastforce
  let ?b = "upd_method m (\<lambda>mb. mb\<lparr>mb_code := cw_w c, mb_maxStack := word_of_int (cw_maxStack c),
                 mb_maxLocals := word_of_int (cw_maxLocals c), mb_lines := cw_lines c, mb_locals := rows, mb_hasCode := True\<rparr>) b"
  have "builder_inv ?b" if "cw_w c \<noteq> []" "\<not> length (cw_w c) > MaxCodeLength"
    using assms that by (intro inv_method) (auto simp: body_ok_def method_ok_def)
  then show ?thesis
    using assms builder_step.keeps [OF fold_steps [where f = "encode_handler m c1", OF encode_handler_step]] inv_fail
    by (auto simp: code_finish_def Let_def r split: option.splits)
qed

lemma code_loop_inv: "builder_inv b \<Longrightarrow> builder_inv (code_loop body m sig receiver W n b)"
proof (induction "maxReplays - n" arbitrary: W n b rule: less_induct)
  case less
  let ?c = "run_body body (code_start (bd_pool b) (mRet sig) (bd_version b) W n (int (ArgSlots sig receiver)))"
  let ?b = "b\<lparr>bd_pool := cw_p ?c\<rparr>"
  obtain again c1 where r: "resolve ?c = (again, c1)" by fastforce
  have "pb_grows (bd_pool b) (cw_p ?c) \<and> (pb_inv (bd_pool b) \<longrightarrow> pb_inv (cw_p ?c))"
    using body.pool [of "code_start (bd_pool b) (mRet sig) (bd_version b) W n (int (ArgSlots sig receiver))" body] by simp
  then have b: "builder_inv ?b" using inv_pool [OF less.prems] less.prems by (simp add: builder_inv_def)
  have rec: "builder_inv (code_loop body m sig receiver (cw_widen c1) (n + 1) ?b)" if "n < maxReplays"
    using less.hyps [OF _ b] that by simp
  show ?case
    using rec inv_fail [OF b] inv_fail [OF less.prems] code_finish_inv [OF b] r
    by (subst code_loop.simps) (auto simp: Let_def split: option.splits)
qed

lemma mb_Code_step: "builder_step (mb_Code m body)"
  by standard (auto simp: mb_Code_def Let_def inv_fail code_loop_inv split: sum.splits option.splits)

lemma SetVersion_step: "builder_step (SetVersion v)"
  by standard (auto simp: SetVersion_def inv_fail bd_fail_def builder_inv_def version_ok_def not_le not_less)

lemma pool_step: "builder_step (build_step (BPool k))"
proof
  fix b
  obtain i b1 where 1: "bd_intern (request k) b = (i, b1)" by fastforce
  show "builder_inv (build_step (BPool k) b)" if "builder_inv b" using inv_intern [OF that 1] 1 by simp
  show "bd_err (build_step (BPool k) b) = bd_err b" using bd_intern_frame [OF 1] 1 by simp
qed

lemma constant_steps:
  "builder_step (ConstantInt f v)" "builder_step (ConstantLong f w)" "builder_step (ConstantFloat f v)" "builder_step (ConstantDouble f w)"
  "builder_step (ConstantString f s)"
  using constant_step [of "RInt v"] constant_step [of "RLong w"] constant_step [of "RFloat v"] constant_step [of "RDouble w"]
    constant_step [of "RString s"]
  by (simp_all add: ConstantInt_def ConstantLong_def ConstantFloat_def ConstantDouble_def ConstantString_def)

lemma table_steps:
  "builder_step (\<lambda>b. snd (bd_Field fl n d b))" "builder_step (\<lambda>b. snd (bd_Method fl n d b))"
  by (standard; auto simp: bd_Field_def bd_Method_def Let_def builder_inv_def field_ok_def method_ok_def body_ok_def bd_fail_def
      split: sum.splits)+

lemma entry_steps: "builder_step (fb_Signature f s)" "builder_step (Throws m s)" "builder_step (mb_Signature m s)"
proof -
  have f: "field_ok sl (x\<lparr>fb_signature := s\<rparr>) = field_ok sl x" for sl x by (simp add: field_ok_def)
  show "builder_step (fb_Signature f s)"
    by standard (auto simp: fb_Signature_def f intro!: inv_field)
  show "builder_step (Throws m s)" "builder_step (mb_Signature m s)"
    by (standard; auto simp: Throws_def mb_Signature_def body_ok_def method_ok_def intro!: inv_method)+
qed

lemma call_steps: "builder_step (build_step k)"
proof (cases k)
  case (BPool r)
  then show ?thesis using pool_step by simp
qed (use SetVersion_step mb_Code_step constant_steps table_steps entry_steps in
   \<open>auto simp: builder_step_def SetFlags_def SetSuper_def AddInterface_def SetSourceFile_def builder_inv_def\<close>)

interpretation calls: builder_step "build_step k"
  by (rule call_steps)

section \<open>Reading what was built\<close>

lemma build_inv: "builder_inv b \<Longrightarrow> builder_inv (build ops b)"
proof -
  have "builder_step (build ops)" unfolding build_def by (rule fold_steps [OF call_steps])
  then show "builder_inv b \<Longrightarrow> builder_inv (build ops b)" by (rule builder_step.keeps)
qed

lemma version_ok_check: "version_ok v \<Longrightarrow> Java1_0 \<le> vMajor v \<and> version_check v False = None"
proof -
  assume v: "version_ok v"
  then have "vMajor v < 50" by (simp add: version_ok_def)
  then have "\<not> vMajor v \<ge> 56" "\<not> vMajor v > 70" by (auto dest: order_le_less_trans order_less_trans)
  then show ?thesis using v by (simp add: version_ok_def version_check_def MaxSupported_def Preview_def leD)
qed

text \<open>The sizes the file format can hold, and signatures only where the version has them.\<close>

definition tables_fit :: "builder \<Rightarrow> bool" where
  "tables_fit b \<longleftrightarrow> length (bd_ifaces b) < 65536 \<and> length (bd_fields b) < 65536 \<and> length (bd_methods b) < 65536 \<and>
     list_all method_fits (bd_methods b) \<and>
     (Java5 \<le> vMajor (bd_version b) \<or> list_all (\<lambda>m. mb_signature m = []) (bd_methods b) \<and> list_all (\<lambda>f. fb_signature f = []) (bd_fields b))"

lemma fits_inv: "builder_inv b \<Longrightarrow> tables_fit b \<Longrightarrow> builder_fits b"
  by (auto simp: builder_inv_def tables_fit_def builder_fits_def method_ready_def body_ok_def MaxCodeLength_def list_all_iff)

lemma names_exist:
  assumes "builder_inv b" and "pb_err (bd_pool b) = None"
  obtains cn ck where "names_ok cn ck b (slots (bd_pool b))"
proof -
  let ?sl = "slots (bd_pool b)"
  let ?cn = "\<lambda>i. SOME s. den_ref1 TagClass ?sl i s"
  let ?ck = "\<lambda>i. SOME c. \<exists>k. den_req ?sl i k \<and> req_const k = Some c"
  have cn: "den_ref1 TagClass ?sl i s \<Longrightarrow> den_ref1 TagClass ?sl i (?cn i)" for i s by (rule someI)
  have ck: "\<exists>k c. den_req ?sl i k \<and> req_const k = Some c \<Longrightarrow> \<exists>k. den_req ?sl i k \<and> req_const k = Some (?ck i)" for i
    by (rule someI_ex [of "\<lambda>c. \<exists>k. den_req ?sl i k \<and> req_const k = Some c"]) blast
  have "handlers_named ?cn m ?sl" if "m \<in> set (bd_methods b)" for m
    using assms that cn by (fastforce simp: builder_inv_def handlers_named_def list_all_iff method_ok_def)
  moreover have "constant_named ?ck f ?sl" if "f \<in> set (bd_fields b)" for f
    using assms that ck [of "fb_constant f"] by (auto simp: builder_inv_def constant_named_def list_all_iff field_ok_def)
  ultimately have "names_ok ?cn ?ck b ?sl" by (simp add: names_ok_def)
  then show thesis by (rule that)
qed

section \<open>A sample class\<close>

definition plain_char :: "char \<Rightarrow> bool" where
  "plain_char c \<longleftrightarrow> \<not> digit7 c \<and> c \<noteq> CHR 0x00"

lemma encode_ascii:
  assumes "list_all plain_char s"
  shows "Encode s = map of_char s" and "EncodedLen s = length s"
proof -
  have r: "range_string s = map (\<lambda>c. uint (of_char c :: u8)) s"
    using assms unfolding range_string_def bytes_of_string_def by (induction s) (simp_all add: ascii_rune plain_char_def)
  have "encode_rune (uint (of_char c :: u8)) = [of_char c]" if "plain_char c" for c
  proof -
    have "uint (of_char c :: u8) \<noteq> 0" using that by (cases c) (auto simp: plain_char_def of_char_def)
    then have "1 \<le> uint (of_char c :: u8)" using uint_ge_0 [of "of_char c :: u8"] by linarith
    then show ?thesis using ascii_byte [of c] that by (simp add: plain_char_def encode_rune_def)
  qed
  then show e: "Encode s = map of_char s" using assms unfolding Encode_def r by (induction s) simp_all
  show "EncodedLen s = length s" using e by (simp flip: length_Encode)
qed

definition sample_ops :: "build_op list" where
  "sample_ops = [BField (AccStatic OR AccFinal) ''x'' ''I'', BConstantInt 0 42, BMethod AccStatic ''g'' ''()V'', BCode 0 [DoReturn]]"

definition sample_class :: builder where
  "sample_class = build sample_ops (NewBuilder ''A'')"

lemma sample_desc:
  "ParseField ''I'' = Inr \<lparr>tKind = KInt, tDims = 0, tName = []\<rparr>"
  "ParseMethod ''()V'' = Inr \<lparr>mParams = [], mRet = \<lparr>tKind = KVoid, tDims = 0, tName = []\<rparr>\<rparr>"
  by code_simp+

definition sample_method :: methodbuilder where
  "sample_method = \<lparr>mb_flags = AccStatic, mb_name = ''g'', mb_descriptor = ''()V'', mb_signature = [], mb_exceptions = [],
     mb_code = [177], mb_maxStack = 0, mb_maxLocals = 0, mb_handlers = [], mb_lines = [], mb_locals = [], mb_hasCode = True\<rparr>"

definition sample_field :: fieldbuilder where
  "sample_field = \<lparr>fb_flags = AccStatic OR AccFinal, fb_name = ''x'', fb_descriptor = ''I'', fb_constant = 1, fb_signature = []\<rparr>"

lemma sample_has: "Has (AccStatic OR AccFinal) (AccStatic OR AccFinal)" "Has AccStatic AccStatic" "\<not> Has AccStatic AccAbstract" "\<not> Has AccStatic AccNative"
  by code_simp+

lemma sample_class_is:
  "bd_err sample_class = None" "bd_name sample_class = ''A''" "bd_super sample_class = ''java/lang/Object''" "bd_ifaces sample_class = []"
  "bd_version sample_class = \<lparr>vMajor = Java5, vMinor = 0\<rparr>" "bd_sourceFile sample_class = []"
  "bd_fields sample_class = [sample_field]" "bd_methods sample_class = [sample_method]" "bd_flags sample_class = AccPublic OR AccSuper"
  "bd_pool sample_class = snd (pb_Int 42 newPoolBuilder)"
proof -
  let ?sig = "\<lparr>mParams = [], mRet = \<lparr>tKind = KVoid, tDims = 0, tName = []\<rparr>\<rparr>"
  have a: "ArgSlots ?sig False = 0" "CheckArgSlots ?sig False = None" by code_simp+
  let ?b = "\<lparr>bd_pool = snd (pb_Int 42 newPoolBuilder), bd_version = \<lparr>vMajor = Java5, vMinor = 0\<rparr>, bd_flags = AccPublic OR AccSuper,
     bd_name = ''A'', bd_super = ''java/lang/Object'', bd_ifaces = [], bd_fields = [sample_field], 
     bd_methods = [sample_method\<lparr>mb_code := [], mb_hasCode := False\<rparr>], bd_sourceFile = [],
     bd_err = None\<rparr>"
  have p: "fst (pb_Int 42 newPoolBuilder) = 1" by (simp add: newPoolBuilder_def pool_op_defs)
  have "sample_class = mb_Code 0 [DoReturn] ?b"
    unfolding sample_class_def sample_ops_def build_def
    by (simp add: bd_Field_def NewBuilder_def sample_desc ConstantInt_def constant_of_def bd_intern_def setConstant_def
       Let_def bd_Method_def sample_method_def sample_field_def split_beta p Has_def)
  also have "\<dots> = code_loop [DoReturn] 0 ?sig False {} 0 ?b"
    by (simp add: mb_Code_def sample_desc Let_def a Has_def sample_method_def)
  also have "\<dots> = ?b\<lparr>bd_methods := [sample_method]\<rparr>"
    by (subst code_loop.simps) (simp add: maxReplays_def cw_eval a code_finish_def localRows_def MaxCodeLength_def sample_method_def upd_method_def)
  finally have *: "sample_class = ?b\<lparr>bd_methods := [sample_method]\<rparr>" .
  show
  "bd_err sample_class = None" "bd_name sample_class = ''A''" "bd_super sample_class = ''java/lang/Object''" "bd_ifaces sample_class = []"
  "bd_version sample_class = \<lparr>vMajor = Java5, vMinor = 0\<rparr>" "bd_sourceFile sample_class = []"
  "bd_fields sample_class = [sample_field]" "bd_methods sample_class = [sample_method]" "bd_flags sample_class = AccPublic OR AccSuper"
  "bd_pool sample_class = snd (pb_Int 42 newPoolBuilder)" unfolding * by simp_all
qed

lemma sample_encodings:
  "Encode ''A'' = [65]" "Encode ''java/lang/Object'' = map of_char ''java/lang/Object''" "Encode ''x'' = [120]" "Encode ''I'' = [73]"
  "Encode ''ConstantValue'' = map of_char ''ConstantValue''" "Encode ''g'' = [103]" "Encode ''()V'' = [40, 41, 86]" "Encode ''Code'' = [67, 111, 100, 101]"
  "EncodedLen ''A'' = 1" "EncodedLen ''java/lang/Object'' = 16" "EncodedLen ''x'' = 1" "EncodedLen ''I'' = 1"
  "EncodedLen ''ConstantValue'' = 13" "EncodedLen ''g'' = 1" "EncodedLen ''()V'' = 3" "EncodedLen ''Code'' = 4"
  by (simp_all add: encode_ascii plain_char_def)

lemma sample_file:
  "\<exists>fl b'. builder_Bytes sample_class = (Inr fl, b') \<and> no_method_types (slots (bd_pool b')) \<and> length fl < 200"
  by (simp add: builder_Bytes_def sample_class_is bd_intern_def super_index_def em_table_def em_then_def emitField_def sample_field_def
      sample_method_def emitMethod_def method_refused_def Has_def field_attrs_def em_u2_def em_ref_def em_when_def em_attr_def w_attr_def
      em_scratch_def method_attrs_def code_attribute_def code_body_def em_raw_def bool_count_def class_attrs_def
      newPoolBuilder_def pool_op_defs sample_encodings file_bytes_def no_method_types_def patchU4_def)
section \<open>Properties\<close>



end
