(* ===== verification/Switches.thy ===== *)
theory Switches
  imports CodeBranches "HOL-Library.Multiset"
begin

text \<open>
  The order of a \<open>lookupswitch\<close>: \<open>CodeWriter.LookupSwitch\<close> of \<^verbatim>\<open>src/classfile/codewriter.go\<close> sorts an index permutation
  and looks for duplicates among neighbours. Here that is shown equivalent to sorting the pairs of match
  and target by the match and refusing exactly the lists with a repeated match.
\<close>

section \<open>The reference\<close>

definition emit_lookup :: "label_id \<Rightarrow> (int \<times> label_id) list \<Rightarrow> codewriter \<Rightarrow> codewriter" where
  "emit_lookup def rows c = cw_terminate (emit_switch Lookupswitch [0, word_of_nat (length rows)] (fold emit_pair (map fst rows)) def
     (map snd rows) (fold noteDepth (map snd rows) (noteDepth def (cw_pop 1 c))))"

definition by_ord :: "int list \<Rightarrow> 'a list \<Rightarrow> (int \<times> 'a) list" where
  "by_ord ms ts = map (\<lambda>j. (ms ! j, ts ! j)) (sort_ord ms)"

lemma length_by_ord [simp]: "length (by_ord ms ts) = length ms"
  by (simp add: by_ord_def)

lemma set_by_ord:
  assumes "length ms = length ts"
  shows "set (by_ord ms ts) = set (zip ms ts)"
proof -
  have "set (by_ord ms ts) = (\<lambda>j. (ms ! j, ts ! j)) ` {0..<length ms}" by (simp add: by_ord_def sort_ord_def)
  also have "\<dots> = set (zip ms ts)" using assms by (auto simp: in_set_zip)
  finally show ?thesis .
qed

lemma by_ord_sorted: "sorted (map fst (by_ord ms ts))"
  by (simp add: by_ord_def sort_ord_def o_def)

lemma fst_by_ord: "mset (map fst (by_ord ms ts)) = mset ms"
proof -
  have "mset (map fst (by_ord ms ts)) = image_mset (\<lambda>j. ms ! j) (mset (sort_ord ms))" by (simp add: by_ord_def o_def flip: mset_map)
  also have "\<dots> = mset (map (\<lambda>j. ms ! j) [0..<length ms])" by (simp only: sort_ord_def mset_sort mset_map)
  also have "\<dots> = mset ms" by (simp only: map_nth)
  finally show ?thesis .
qed

lemma distinct_by_ord: "distinct (map fst (by_ord ms ts)) \<longleftrightarrow> distinct ms"
  using fst_by_ord mset_eq_imp_distinct_iff by blast

lemma by_ord_is_sort:
  assumes "length ms = length ts" and "distinct ms"
  shows "by_ord ms ts = sort_key fst (zip ms ts)"
proof (rule map_sorted_distinct_set_unique [where f = fst])
  have d: "distinct (map fst (zip ms ts))" using assms by simp
  show "sorted (map fst (by_ord ms ts))" "sorted (map fst (sort_key fst (zip ms ts)))" by (simp_all add: by_ord_sorted)
  show "distinct (map fst (by_ord ms ts))" using assms(2) by (simp add: distinct_by_ord)
  have "mset (map fst (sort_key fst (zip ms ts))) = mset (map fst (zip ms ts))" by simp
  then show "distinct (map fst (sort_key fst (zip ms ts)))" using d mset_eq_imp_distinct_iff by blast
  show "set (by_ord ms ts) = set (sort_key fst (zip ms ts))" using set_by_ord [OF assms(1)] by simp
  show "inj_on fst (set (by_ord ms ts) \<union> set (sort_key fst (zip ms ts)))"
    using d set_by_ord [OF assms(1)] by (simp add: distinct_map)
qed

lemma adjacent_dup_None: "sorted xs \<Longrightarrow> adjacent_dup xs = None \<longleftrightarrow> distinct xs"
  by (induction xs rule: adjacent_dup.induct) (auto simp: antisym)

lemma adjacent_dup_Some: "adjacent_dup xs = Some m \<Longrightarrow> 2 \<le> count (mset xs) m"
proof (induction xs rule: adjacent_dup.induct)
  case (1 x y zs)
  have "count (mset (y # zs)) m \<le> count (mset (x # y # zs)) m" by simp
  then show ?case using 1 by (cases "x = y") (simp, fastforce)
qed simp_all

section \<open>Properties\<close>

text \<open>C19: \<open>LookupSwitch\<close> is equivalent to its specification on the table as a whole: given as many targets as
  matches, a table without a repeated match is emitted as the pairs sorted by match, strictly ascending, each
  match with the target it was given with; a table with a repeated match is refused, naming a match that
  does occur twice, and nothing is written.\<close>

theorem LookupSwitch_sorts:
  assumes "length ms = length ts"
  shows "(distinct ms \<longrightarrow> cw_LookupSwitch d ms ts c = emit_lookup d (sort_key fst (zip ms ts)) c \<and>
       sorted_wrt (<) (map fst (sort_key fst (zip ms ts)))) \<and>
    (\<not> distinct ms \<longrightarrow> (\<exists>m. 2 \<le> count (mset ms) m \<and> cw_LookupSwitch d ms ts c = cw_fail (DuplicateMatch m) c))"
proof (intro conjI impI)
  have fs: "map fst (by_ord ms ts) = map (\<lambda>j. ms ! j) (sort_ord ms)" "map snd (by_ord ms ts) = map (\<lambda>j. ts ! j) (sort_ord ms)"
    by (simp_all add: by_ord_def o_def)
  note dup = adjacent_dup_None [OF by_ord_sorted [of ms ts]] distinct_by_ord [of ms ts]
  {
    assume d: "distinct ms"
    then have "adjacent_dup (map (\<lambda>j. ms ! j) (sort_ord ms)) = None" using dup by (simp only: fs)
    then show "cw_LookupSwitch d ms ts c = emit_lookup d (sort_key fst (zip ms ts)) c"
      using assms fs by (simp add: LookupSwitch_emits emit_lookup_def flip: by_ord_is_sort [OF assms d])
    show "sorted_wrt (<) (map fst (sort_key fst (zip ms ts)))"
      using by_ord_sorted [of ms ts] dup(2) d unfolding by_ord_is_sort [OF assms d] by (simp only: strict_sorted_iff)
  }
  assume "\<not> distinct ms"
  then obtain m where m: "adjacent_dup (map fst (by_ord ms ts)) = Some m" using dup by auto
  then have "2 \<le> count (mset ms) m" using adjacent_dup_Some fst_by_ord by metis
  then show "\<exists>m. 2 \<le> count (mset ms) m \<and> cw_LookupSwitch d ms ts c = cw_fail (DuplicateMatch m) c"
    using m assms by (auto simp: LookupSwitch_emits fs)
qed

theorem LookupSwitch_sorts_witness:
  "\<forall>c. cw_LookupSwitch 0 [7, -1] [1, 2] c = emit_lookup 0 [(-1, 2), (7, 1)] c"
  using LookupSwitch_sorts [of "[7, -1]" "[1, 2]" 0] by (simp add: insort_key_def)

end
