(* ===== verification/Operands.thy ===== *)
theory Operands
  imports CodeBranches
begin

unbundle bit_operations_syntax

text \<open>
  The choice of encodings: \<open>CodeWriter\<close> writes a load, a store, an \<open>iinc\<close> or an int constant in the shortest of
  several forms (an opcode that carries the slot or the value, a one-byte operand, a two-byte operand, the
  \<open>wide\<close> prefix, a constant of the pool). \<open>meaning\<close> is the abstract instruction a decoded one stands for, read
  through the accessors of \<^verbatim>\<open>src/classfile/code.go\<close>; the refinement says that whichever form was chosen, the bytes
  decode to one instruction that means what the call asked for.
\<close>

section \<open>The abstract instructions\<close>

datatype operand_op =
    ALoad local_type int
  | AStore local_type int
  | AIinc int int
  | AInt int

definition type_no :: "nat \<Rightarrow> local_type" where
  "type_no n = (if n = 0 then LocalI else if n = 1 then LocalL else if n = 2 then LocalF else if n = 3 then LocalD else LocalA)"

text \<open>The int constant an index of the table stands for.\<close>

definition int_at :: "bytes option list \<Rightarrow> u16 \<Rightarrow> int option" where
  "int_at sl i = (if unat i < length sl then
     (case sl ! unat i of Some (t # b) \<Rightarrow> if t = TagInteger \<and> length b = 4 then Some (sint (word32 b)) else None | _ \<Rightarrow> None) else None)"

definition meaning :: "bytes option list \<Rightarrow> instr \<Rightarrow> operand_op option" where
  "meaning sl i = (let n = unat (inOp i) in
     if 21 \<le> n \<and> n \<le> 25 then map_option (\<lambda>s. ALoad (type_no (n - 21)) (uint s)) (instr_Local i)
     else if 26 \<le> n \<and> n \<le> 45 then map_option (\<lambda>s. ALoad (type_no ((n - 26) div 4)) (uint s)) (instr_Local i)
     else if 54 \<le> n \<and> n \<le> 58 then map_option (\<lambda>s. AStore (type_no (n - 54)) (uint s)) (instr_Local i)
     else if 59 \<le> n \<and> n \<le> 78 then map_option (\<lambda>s. AStore (type_no ((n - 59) div 4)) (uint s)) (instr_Local i)
     else if inOp i = Iinc then do { s \<leftarrow> instr_Local i; d \<leftarrow> instr_Increment i; Some (AIinc (uint s) d) }
     else if 2 \<le> n \<and> n \<le> 8 then Some (AInt (int n - 3))
     else if inOp i = Bipush \<or> inOp i = Sipush then map_option AInt (instr_Immediate i)
     else if inOp i = Ldc \<or> inOp i = LdcW then do { j \<leftarrow> instr_Index i; map_option AInt (int_at sl j) }
     else None)"

text \<open>The bytes hold exactly one instruction and it means \<open>a\<close>.\<close>

definition encodes :: "bytes option list \<Rightarrow> bytes \<Rightarrow> operand_op \<Rightarrow> bool" where
  "encodes sl raw a \<longleftrightarrow> (\<exists>i it. drain (length raw + 1) (code_Iter raw) = Some ([i], it) \<and> itErr it = None \<and> meaning sl i = Some a)"

lemma unat_word_of_nat:
  assumes "n < 10"
  shows "unat (word_of_int (int n) :: u32) = n"
proof -
  have "(word_of_int (int n) :: u32) = word_of_nat n" by simp
  moreover have "unat (word_of_nat n :: u32) = n" using assms by (simp add: unsigned_of_nat take_bit_nat_eq_self)
  ultimately show ?thesis by metis
qed

lemma encodes_narrow:
  assumes "op_Valid o'" "o' \<noteq> Wide" "op_Len o' = int (Suc (length t))" "length t < 9"
    and "meaning sl \<lparr>inOp = o', inPC = 0, inWide = False, inRaw = o' # t\<rparr> = Some a"
  shows "encodes sl (o' # t) a"
proof -
  have n: "Next (code_Iter (o' # t)) = Some (True, (code_Iter (o' # t))\<lparr>itCur := \<lparr>inOp = o', inPC = 0, inWide = False, inRaw = o' # t\<rparr>,
      itPc := word_of_int (int (Suc (length t)))\<rparr>)"
    using assms(1-3) by (simp add: Next_def code_Iter_def next_body_def instrLen_def)
  have u: "unat (word_of_int (int (Suc (length t))) :: u32) = Suc (length t)"
    using assms(4) by (intro unat_word_of_nat) simp
  show ?thesis using assms(5) n u by (auto simp: encodes_def Next_def code_Iter_def)
qed

lemma encodes_wide:
  assumes "op_Kind o' = Local \<and> o' \<noteq> Iinc \<and> length t = 2 \<or> o' = Iinc \<and> length t = 4"
    and "meaning sl \<lparr>inOp = o', inPC = 0, inWide = True, inRaw = Wide # o' # t\<rparr> = Some a"
  shows "encodes sl (Wide # o' # t) a"
proof -
  have k: "op_Kind Iinc = IincK" "op_Kind Wide = WideK" by (simp_all add: op_Kind_nth kind_list_def)
  have n: "Next (code_Iter (Wide # o' # t)) = Some (True, (code_Iter (Wide # o' # t))\<lparr>itCur := \<lparr>inOp = o', inPC = 0, inWide = True, inRaw = Wide # o' # t\<rparr>,
      itPc := word_of_int (int (Suc (Suc (length t))))\<rparr>)"
    using assms(1) k by (auto simp: Next_def code_Iter_def next_body_def instrLen_def op_Valid_def)
  have u: "unat (word_of_int (int (Suc (Suc (length t)))) :: u32) = Suc (Suc (length t))"
    using assms(1) by (intro unat_word_of_nat) auto
  show ?thesis using assms(2) n u by (auto simp: encodes_def Next_def code_Iter_def)
qed


section \<open>Loads and stores\<close>

definition local_bytes :: "opcode \<Rightarrow> opcode \<Rightarrow> int \<Rightarrow> bytes" where
  "local_bytes g k slot =
     (if slot < 4 then [k + word_of_int slot] else if slot < 256 then [g, word_of_int slot]
      else Wide # g # be_u2 (word_of_int slot))"

lemma push_pop_ok:
  "cw_err (cw_push n c) = None \<Longrightarrow> cw_err c = None"
  "cw_err (cw_pop n c) = None \<Longrightarrow> cw_err c = None"
  by (auto simp: cw_push_def cw_pop_def cw_fail_def Let_def split: if_splits)

lemma emitOp_ok:
  "cw_err (emitOp o' c) = None \<Longrightarrow> cw_w (emitOp o' c) = cw_w c @ [o'] \<and> cw_p (emitOp o' c) = cw_p c"
  by (auto simp: emitOp_def cw_fail_def cw_frame split: if_splits)

lemma useLocal_ok:
  "cw_err (useLocal slot w c) = None \<Longrightarrow> 0 \<le> slot \<and> slot \<le> MaxLocals"
  by (auto simp: useLocal_def cw_fail_def Let_def split: if_splits)

lemma localOp_writes:
  assumes "cw_err (localOp g k slot w c) = None"
  shows "0 \<le> slot \<and> slot \<le> MaxLocals \<and> cw_w (localOp g k slot w c) = cw_w c @ local_bytes g k slot"
  using assms useLocal_ok [of slot w c] emitOp_ok [of _ "useLocal slot w c"]
  by (auto simp: localOp_def local_bytes_def Let_def cw_frame split: if_splits)

definition local_form :: "opcode \<Rightarrow> opcode \<Rightarrow> (int \<Rightarrow> operand_op) \<Rightarrow> bool" where
  "local_form g k a \<longleftrightarrow> op_Kind g = Local \<and> g \<noteq> Iinc \<and> g \<noteq> Wide \<and>
     (\<forall>sl i. inOp i = g \<longrightarrow> meaning sl i = map_option (\<lambda>s. a (uint s)) (instr_Local i)) \<and>
     (\<forall>j \<in> {0, 1, 2, 3}. op_Kind (k + j) = NoOperand \<and>
        (\<forall>sl. meaning sl \<lparr>inOp = k + j, inPC = 0, inWide = False, inRaw = [k + j]\<rparr> = Some (a (uint j))))"

lemma local_forms:
  "local_form Iload Iload0 (ALoad LocalI)" "local_form Lload Lload0 (ALoad LocalL)" "local_form Fload Fload0 (ALoad LocalF)"
  "local_form Dload Dload0 (ALoad LocalD)" "local_form Aload Aload0 (ALoad LocalA)"
  "local_form Istore Istore0 (AStore LocalI)" "local_form Lstore Lstore0 (AStore LocalL)" "local_form Fstore Fstore0 (AStore LocalF)"
  "local_form Dstore Dstore0 (AStore LocalD)" "local_form Astore Astore0 (AStore LocalA)"
  by (simp_all add: local_form_def op_Kind_nth kind_list_def meaning_def instr_Local_def operands_def slice_from_def type_no_def)


lemma slot_byte: "0 \<le> slot \<Longrightarrow> slot < 256 \<Longrightarrow> uint (ucast (word_of_int slot :: u8) :: u16) = slot"
  by (simp add: unsigned_ucast_eq unsigned_of_int take_bit_int_eq_self)

lemma local_encodes:
  assumes "local_form g k a" "0 \<le> slot" "slot \<le> MaxLocals"
  shows "encodes sl (local_bytes g k slot) (a slot)"
proof -
  have g: "op_Kind g = Local" "g \<noteq> Iinc" "g \<noteq> Wide" "op_Valid g" "op_Len g = 2"
    and m: "inOp i = g \<Longrightarrow> meaning sl i = map_option (\<lambda>s. a (uint s)) (instr_Local i)" for sl i
    using assms(1) op_len_shape [of g] by (auto simp: local_form_def op_Valid_def)
  consider "slot < 4" | "4 \<le> slot" "slot < 256" | "256 \<le> slot" by linarith
  then show ?thesis
  proof cases
    case 1
    let ?j = "word_of_int slot :: u8"
    have j: "?j \<in> {0, 1, 2, 3}" "uint ?j = slot" using 1 assms(2) small_slot [of slot] by (auto simp: uint_word_of_int)
    then have "op_Kind (k + ?j) = NoOperand" "meaning sl \<lparr>inOp = k + ?j, inPC = 0, inWide = False, inRaw = [k + ?j]\<rparr> = Some (a slot)"
      using assms(1) unfolding local_form_def by metis+
    moreover from this have "k + ?j \<noteq> Wide" using op_kinds(3) [of "k + ?j"] by auto
    ultimately show ?thesis using encodes_narrow [of "k + ?j" "[]" sl "a slot"] op_len_shape [of "k + ?j"] 1
      by (auto simp: local_bytes_def op_Valid_def)
  next
    case 2
    then have "uint (ucast (word_of_int slot :: u8) :: u16) = slot" by (intro slot_byte) simp_all
    then show ?thesis using 2 g m by (auto simp: local_bytes_def instr_Local_def operands_def slice_from_def index_at_def intro!: encodes_narrow)
  next
    case 3
    then have "uint (word_of_int slot :: u16) = slot" using assms(3) by (simp add: uint_word_of_int MaxLocals_def)
    then show ?thesis using 3 g m by (auto simp: local_bytes_def instr_Local_def operands_def slice_from_def word32_be(2) [of _ "[]", simplified] intro!: encodes_wide)
  qed
qed

lemma do_local_refines:
  assumes "local_form g k a" "cw_err (localOp g k slot w c) = None"
  shows "\<exists>raw. cw_w (localOp g k slot w c) = cw_w c @ raw \<and> encodes sl raw (a slot)"
  using localOp_writes [OF assms(2)] local_encodes [OF assms(1)] by blast

lemma load_refines:
  assumes "cw_err (do_load t slot c) = None"
  shows "\<exists>raw. cw_w (do_load t slot c) = cw_w c @ raw \<and> encodes sl raw (ALoad t slot)"
  using assms by (cases t) (auto simp: cw_Aload_def cw_Iload_def cw_Fload_def cw_Lload_def cw_Dload_def cw_load_def cw_frame
      dest!: push_pop_ok(1) intro: do_local_refines local_forms)

lemma store_refines:
  assumes "cw_err (do_store t slot c) = None"
  shows "\<exists>raw. cw_w (do_store t slot c) = cw_w c @ raw \<and> encodes sl raw (AStore t slot)"
  using assms by (cases t) (auto simp: cw_Astore_def cw_Istore_def cw_Fstore_def cw_Lstore_def cw_Dstore_def cw_store_def cw_frame
      dest!: push_pop_ok(2) intro: do_local_refines local_forms)


section \<open>Increments and constants\<close>

lemma signed_words:
  "- 128 \<le> d \<Longrightarrow> d \<le> 127 \<Longrightarrow> sint (word_of_int d :: u8) = d"
  "- 32768 \<le> d \<Longrightarrow> d \<le> 32767 \<Longrightarrow> sint (word_of_int d :: u16) = d"
  by (simp_all add: signed_of_int signed_take_bit_int_eq_self)

definition iinc_bytes :: "int \<Rightarrow> int \<Rightarrow> bytes" where
  "iinc_bytes slot d =
     (if slot < 256 \<and> - 128 \<le> d \<and> d \<le> 127 then [Iinc, word_of_int slot, word_of_int d]
      else Wide # Iinc # be_u2 (word_of_int slot) @ be_u2 (word_of_int d))"

lemma iinc_writes:
  assumes "cw_err (cw_Iinc slot d c) = None"
  shows "0 \<le> slot \<and> slot \<le> MaxLocals \<and> - 32768 \<le> d \<and> d \<le> 32767 \<and> cw_w (cw_Iinc slot d c) = cw_w c @ iinc_bytes slot d"
proof -
  have u: "cw_err (useLocal slot 1 c) = None" using assms by (auto simp: cw_Iinc_def Let_def split: if_splits)
  then show ?thesis using assms useLocal_ok [OF u] emitOp_ok [of _ "useLocal slot 1 c"]
    by (auto simp: cw_Iinc_def iinc_bytes_def Let_def write_frame useLocal_frame fail_frame split: if_splits)
qed

lemma iinc_encodes:
  assumes "0 \<le> slot" "slot \<le> MaxLocals" "- 32768 \<le> d" "d \<le> 32767"
  shows "encodes sl (iinc_bytes slot d) (AIinc slot d)"
proof (cases "slot < 256 \<and> - 128 \<le> d \<and> d \<le> 127")
  case True
  have "uint (ucast (word_of_int slot :: u8) :: u16) = slot" using assms True by (intro slot_byte) simp_all
  then show ?thesis using True
    by (auto simp: iinc_bytes_def meaning_def instr_Local_def instr_Increment_def operands_def slice_from_def index_at_def signed_words
        op_Kind_nth kind_list_def op_Valid_def op_len_shape intro!: encodes_narrow)
next
  case False
  have "uint (word_of_int slot :: u16) = slot" using assms by (simp add: uint_word_of_int MaxLocals_def)
  then show ?thesis using False assms signed_words(2) [of d]
    by (auto simp: iinc_bytes_def meaning_def instr_Local_def instr_Increment_def operands_def slice_from_def
        word32_be(2) [of _ "[]", simplified] op_Kind_nth kind_list_def intro!: encodes_wide)
qed


lemma int_at_den: "den_word TagInteger sl i v \<Longrightarrow> int_at sl i = Some (sint v)"
  using word32_be(1) [of v "[]"] by (simp add: den_word_def entry_at_def int_at_def)

lemma iconst_encodes: "- 1 \<le> v \<Longrightarrow> v \<le> 5 \<Longrightarrow> encodes sl [Iconst0 + word_of_int v] (AInt v)"
proof -
  assume "- 1 \<le> v" "v \<le> 5"
  then have "v \<in> {-1, 0, 1, 2, 3, 4, 5}" by auto
  then show ?thesis
    by (auto simp: meaning_def op_Kind_nth kind_list_def op_Valid_def op_len_shape intro!: encodes_narrow)
qed

lemma push_encodes:
  "- 128 \<le> v \<Longrightarrow> v \<le> 127 \<Longrightarrow> encodes sl [Bipush, word_of_int v] (AInt v)"
  "- 32768 \<le> v \<Longrightarrow> v \<le> 32767 \<Longrightarrow> encodes sl (Sipush # be_u2 (word_of_int v)) (AInt v)"
  using word32_be(2) [of _ "[]"]
  by (auto simp: meaning_def instr_Immediate_def operands_def slice_from_def index_at_def signed_words
      op_Kind_nth kind_list_def op_Valid_def op_len_shape intro!: encodes_narrow)

lemma ldc_encodes:
  assumes "den_word TagInteger sl i v"
  shows "i < 256 \<Longrightarrow> encodes sl [Ldc, ucast i] (AInt (sint v))"
    and "encodes sl (LdcW # be_u2 i) (AInt (sint v))"
proof -
  show "encodes sl [Ldc, ucast i] (AInt (sint v))" if "i < 256"
  proof -
    have "(ucast (ucast i :: u8) :: u16) = i" using that
      by (simp add: word_uint_eq_iff unsigned_ucast_eq unsigned_take_bit_eq take_bit_int_eq_self word_less_def)
    then show ?thesis using int_at_den [OF assms]
      by (auto simp: meaning_def instr_Index_def operands_def slice_from_def index_at_def
        op_Kind_nth kind_list_def op_Valid_def op_len_shape intro!: encodes_narrow)
  qed
  show "encodes sl (LdcW # be_u2 i) (AInt (sint v))" using word32_be(2) [of _ "[]"] int_at_den [OF assms]
    by (auto simp: meaning_def instr_Index_def operands_def slice_from_def index_at_def
      op_Kind_nth kind_list_def op_Valid_def op_len_shape intro!: encodes_narrow)
qed

lemma ldc_int_refines:
  assumes "pb_inv (cw_p c)" "cw_err (cw_ldc_of (pb_Int v) False c) = None" "pb_err (cw_p (cw_ldc_of (pb_Int v) False c)) = None"
  shows "\<exists>raw. cw_w (cw_ldc_of (pb_Int v) False c) = cw_w c @ raw \<and> encodes (slots (cw_p (cw_ldc_of (pb_Int v) False c))) raw (AInt (sint v))"
proof -
  obtain i q where q: "pb_Int v (cw_p c) = (i, q)" by fastforce
  let ?c = "c\<lparr>cw_p := q\<rparr>"
  have l: "cw_ldc_of (pb_Int v) False c = cw_ldc i False ?c" by (simp add: cw_ldc_of_def cw_intern_def q)
  have e: "cw_err (emitOp (if i < 256 then Ldc else LdcW) ?c) = None"
    using assms(2) unfolding l by (auto simp: cw_ldc_def cw_u1_def cw_u2_def dest!: push_pop_ok(1) split: if_splits)
  have p: "cw_p (cw_ldc i False ?c) = q" using emitOp_ok [OF e] by (simp add: cw_ldc_def cw_frame)
  have d: "den_word TagInteger (slots q) i v" using intc.denotes [OF q assms(1)] assms(3) unfolding l p by simp
  show ?thesis
  proof (cases "i < 256")
    case True
    then show ?thesis using emitOp_ok [OF e] ldc_encodes(1) [OF d] unfolding l p by (auto simp: cw_ldc_def cw_frame)
  next
    case False
    then show ?thesis using emitOp_ok [OF e] ldc_encodes(2) [OF d] unfolding l p by (auto simp: cw_ldc_def cw_frame)
  qed
qed

lemma iconst_small_refines:
  assumes "- 32768 \<le> v" "v \<le> 32767" "cw_err (cw_Iconst v c) = None"
  shows "\<exists>raw. cw_w (cw_Iconst v c) = cw_w c @ raw \<and> encodes sl raw (AInt v)"
proof -
  consider "- 1 \<le> v" "v \<le> 5" | "\<not> (- 1 \<le> v \<and> v \<le> 5)" "- 128 \<le> v" "v \<le> 127" | "\<not> (- 128 \<le> v \<and> v \<le> 127)" by linarith
  then show ?thesis
  proof cases
    case 1
    then show ?thesis using assms(3) iconst_encodes by (auto simp: cw_Iconst_def cw_frame dest!: push_pop_ok(1) emitOp_ok)
  next
    case 2
    then show ?thesis using assms(3) push_encodes(1) by (auto simp: cw_Iconst_def cw_frame dest!: push_pop_ok(1) emitOp_ok)
  next
    case 3
    then show ?thesis using assms push_encodes(2) by (auto simp: cw_Iconst_def cw_frame dest!: push_pop_ok(1) emitOp_ok)
  qed
qed

lemma iconst_refines:
  fixes v :: u32
  assumes "pb_inv (cw_p c)" "cw_err (cw_Iconst (sint v) c) = None" "pb_err (cw_p (cw_Iconst (sint v) c)) = None"
  shows "\<exists>raw. cw_w (cw_Iconst (sint v) c) = cw_w c @ raw \<and> encodes (slots (cw_p (cw_Iconst (sint v) c))) raw (AInt (sint v))"
proof (cases "- 32768 \<le> sint v \<and> sint v \<le> 32767")
  case True
  then show ?thesis using iconst_small_refines assms(2) by blast
next
  case False
  then have "cw_Iconst (sint v) c = cw_ldc_of (pb_Int v) False c" by (auto simp: cw_Iconst_def)
  then show ?thesis using ldc_int_refines assms by metis
qed

section \<open>Properties\<close>

text \<open>What a call asks for.\<close>

fun asked :: "code_op \<Rightarrow> operand_op option" where
  "asked (DoLoad t slot) = Some (ALoad t slot)"
| "asked (DoStore t slot) = Some (AStore t slot)"
| "asked (DoIinc slot d) = Some (AIinc slot d)"
| "asked (DoIconst v) = Some (AInt (sint v))"
| "asked _ = None"

text \<open>C17: The choice of encodings refines the abstract instruction. When a load, a store, an increment or an int
  constant is accepted, what it appends is exactly one instruction, and that instruction, read back by the
  iterator and the accessors of a code array against the pool, is the one asked for: the same operation on the
  same slot by the same amount, whichever of the compact, the one-byte, the wide and the pooled forms was
  chosen.\<close>

theorem operands_refine:
  assumes "asked k = Some a" "pb_inv (cw_p c)" "cw_err (run_op k c) = None" "pb_err (cw_p (run_op k c)) = None"
  shows "\<exists>raw. cw_w (run_op k c) = cw_w c @ raw \<and> encodes (slots (cw_p (run_op k c))) raw a"
proof (cases k rule: asked.cases)
  case (1 t slot)
  then show ?thesis using assms(1,3) load_refines by auto
next
  case (2 t slot)
  then show ?thesis using assms(1,3) store_refines by auto
next
  case (3 slot d)
  then have "cw_err (cw_Iinc slot d c) = None" using assms(3) by simp
  note w = iinc_writes [OF this]
  have "a = AIinc slot d" "run_op k c = cw_Iinc slot d c" using 3 assms(1) by simp_all
  then show ?thesis using w iinc_encodes by metis
next
  case (4 v)
  then have "cw_err (cw_Iconst (sint v) c) = None" "pb_err (cw_p (cw_Iconst (sint v) c)) = None" using assms(3,4) by simp_all
  note w = iconst_refines [OF assms(2) this]
  have "a = AInt (sint v)" "run_op k c = cw_Iconst (sint v) c" using 4 assms(1) by simp_all
  then show ?thesis using w by metis
qed (use assms(1) in simp_all)

text \<open>An empty body over an empty pool, to write one call into.\<close>

definition blank_writer :: codewriter where
  "blank_writer = \<lparr>cw_p = newPoolBuilder, cw_w = [], cw_err = None, cw_ret = \<lparr>tKind = KVoid, tDims = 0, tName = []\<rparr>,
     cw_ver = \<lparr>vMajor = 52, vMinor = 0\<rparr>, cw_labels = [], cw_branches = [], cw_switches = [], cw_handlers = [],
     cw_lines = [], cw_locals = [], cw_widen = {}, cw_pass = 0, cw_depth = 0, cw_maxStack = 0, cw_maxLocals = 0,
     cw_reachable = True\<rparr>"

theorem operands_refine_witness:
  "\<exists>raw. cw_w (run_op (DoIconst 100000) blank_writer) = raw \<and>
     encodes (slots (cw_p (run_op (DoIconst 100000) blank_writer))) raw (AInt 100000)"
proof -
  have p: "pb_inv (cw_p blank_writer)" "cw_w blank_writer = []" by (simp_all add: blank_writer_def)
  have "cw_err (run_op (DoIconst 100000) blank_writer) = None" "pb_err (cw_p (run_op (DoIconst 100000) blank_writer)) = None"
    by (simp_all add: cw_Iconst_def cw_ldc_of_def cw_intern_def cw_ldc_def emitOp_def cw_push_def cw_u1_def cw_u2_def blank_writer_def
      newPoolBuilder_def pool_op_defs MaxStack_def)
  then show ?thesis using operands_refine [of "DoIconst 100000" "AInt 100000" blank_writer] p by simp
qed

end
