(* ===== verification/Token.thy ===== *)
theory Token
  imports Prelude "HOL-Library.Char_ord" "HOL-Library.List_Lexorder" "HOL-Library.Product_Lexorder" "HOL-Library.Multiset"
begin

unbundle bit_operations_syntax

text \<open>
  Package \<^verbatim>\<open>token\<close>: the lexical vocabulary of the front end. The kinds and the contextual keywords are the
  constants of \<^verbatim>\<open>src/token/kind.go\<close> and \<^verbatim>\<open>src/token/ctx.go\<close>, numbered as \<^verbatim>\<open>iota\<close> numbers them, with their
  spellings and the tables that resolve a spelling; \<^verbatim>\<open>src/token/token.go\<close> gives tokens, their flags and the join
  of adjacent \<open>>\<close> tokens into shift operators, \<^verbatim>\<open>src/token/precedence.go\<close> the binding powers and
  \<^verbatim>\<open>src/token/diagnostic.go\<close> diagnostics and their order. The properties say that the spelling tables are
  consistent, that resolving a spelling inverts spelling a keyword, and that \<open>Join\<close> recognises exactly the shift
  operators spelled by adjacent tokens.
\<close>

section \<open>Kinds\<close>

type_synonym tkind = u8

abbreviation (input) ILLEGAL :: tkind where "ILLEGAL \<equiv> 0"

abbreviation (input) EOF :: tkind where "EOF \<equiv> 1"

abbreviation (input) COMMENT :: tkind where "COMMENT \<equiv> 2"

abbreviation (input) IDENT :: tkind where "IDENT \<equiv> 3"

abbreviation (input) literalBeg :: tkind where "literalBeg \<equiv> 4"

abbreviation (input) INT_LIT :: tkind where "INT_LIT \<equiv> 5"

abbreviation (input) FLOAT_LIT :: tkind where "FLOAT_LIT \<equiv> 6"

abbreviation (input) CHAR_LIT :: tkind where "CHAR_LIT \<equiv> 7"

abbreviation (input) STRING_LIT :: tkind where "STRING_LIT \<equiv> 8"

abbreviation (input) TEXTBLOCK :: tkind where "TEXTBLOCK \<equiv> 9"

abbreviation (input) TRUE :: tkind where "TRUE \<equiv> 10"

abbreviation (input) FALSE :: tkind where "FALSE \<equiv> 11"

abbreviation (input) NULL :: tkind where "NULL \<equiv> 12"

abbreviation (input) literalEnd :: tkind where "literalEnd \<equiv> 13"

abbreviation (input) operatorBeg :: tkind where "operatorBeg \<equiv> 14"

abbreviation (input) ASSIGN :: tkind where "ASSIGN \<equiv> 15"

abbreviation (input) GTR :: tkind where "GTR \<equiv> 16"

abbreviation (input) LSS :: tkind where "LSS \<equiv> 17"

abbreviation (input) NOT_OP :: tkind where "NOT_OP \<equiv> 18"

abbreviation (input) TILDE :: tkind where "TILDE \<equiv> 19"

abbreviation (input) QUESTION :: tkind where "QUESTION \<equiv> 20"

abbreviation (input) COLON :: tkind where "COLON \<equiv> 21"

abbreviation (input) ARROW :: tkind where "ARROW \<equiv> 22"

abbreviation (input) EQL :: tkind where "EQL \<equiv> 23"

abbreviation (input) GEQ :: tkind where "GEQ \<equiv> 24"

abbreviation (input) LEQ :: tkind where "LEQ \<equiv> 25"

abbreviation (input) NEQ :: tkind where "NEQ \<equiv> 26"

abbreviation (input) LAND :: tkind where "LAND \<equiv> 27"

abbreviation (input) LOR :: tkind where "LOR \<equiv> 28"

abbreviation (input) INC :: tkind where "INC \<equiv> 29"

abbreviation (input) DEC :: tkind where "DEC \<equiv> 30"

abbreviation (input) ADD :: tkind where "ADD \<equiv> 31"

abbreviation (input) SUB :: tkind where "SUB \<equiv> 32"

abbreviation (input) MUL :: tkind where "MUL \<equiv> 33"

abbreviation (input) QUO :: tkind where "QUO \<equiv> 34"

abbreviation (input) AND_OP :: tkind where "AND_OP \<equiv> 35"

abbreviation (input) OR_OP :: tkind where "OR_OP \<equiv> 36"

abbreviation (input) XOR_OP :: tkind where "XOR_OP \<equiv> 37"

abbreviation (input) REM :: tkind where "REM \<equiv> 38"

abbreviation (input) SHL :: tkind where "SHL \<equiv> 39"

abbreviation (input) ADD_ASSIGN :: tkind where "ADD_ASSIGN \<equiv> 40"

abbreviation (input) SUB_ASSIGN :: tkind where "SUB_ASSIGN \<equiv> 41"

abbreviation (input) MUL_ASSIGN :: tkind where "MUL_ASSIGN \<equiv> 42"

abbreviation (input) QUO_ASSIGN :: tkind where "QUO_ASSIGN \<equiv> 43"

abbreviation (input) AND_ASSIGN :: tkind where "AND_ASSIGN \<equiv> 44"

abbreviation (input) OR_ASSIGN :: tkind where "OR_ASSIGN \<equiv> 45"

abbreviation (input) XOR_ASSIGN :: tkind where "XOR_ASSIGN \<equiv> 46"

abbreviation (input) REM_ASSIGN :: tkind where "REM_ASSIGN \<equiv> 47"

abbreviation (input) SHL_ASSIGN :: tkind where "SHL_ASSIGN \<equiv> 48"

abbreviation (input) operatorEnd :: tkind where "operatorEnd \<equiv> 49"

abbreviation (input) separatorBeg :: tkind where "separatorBeg \<equiv> 50"

abbreviation (input) LPAREN :: tkind where "LPAREN \<equiv> 51"

abbreviation (input) RPAREN :: tkind where "RPAREN \<equiv> 52"

abbreviation (input) LBRACE :: tkind where "LBRACE \<equiv> 53"

abbreviation (input) RBRACE :: tkind where "RBRACE \<equiv> 54"

abbreviation (input) LBRACK :: tkind where "LBRACK \<equiv> 55"

abbreviation (input) RBRACK :: tkind where "RBRACK \<equiv> 56"

abbreviation (input) SEMICOLON :: tkind where "SEMICOLON \<equiv> 57"

abbreviation (input) COMMA :: tkind where "COMMA \<equiv> 58"

abbreviation (input) PERIOD :: tkind where "PERIOD \<equiv> 59"

abbreviation (input) ELLIPSIS :: tkind where "ELLIPSIS \<equiv> 60"

abbreviation (input) AT :: tkind where "AT \<equiv> 61"

abbreviation (input) COLONCOLON :: tkind where "COLONCOLON \<equiv> 62"

abbreviation (input) separatorEnd :: tkind where "separatorEnd \<equiv> 63"

abbreviation (input) keywordBeg :: tkind where "keywordBeg \<equiv> 64"

abbreviation (input) ABSTRACT :: tkind where "ABSTRACT \<equiv> 65"

abbreviation (input) ASSERT :: tkind where "ASSERT \<equiv> 66"

abbreviation (input) BOOLEAN :: tkind where "BOOLEAN \<equiv> 67"

abbreviation (input) BREAK :: tkind where "BREAK \<equiv> 68"

abbreviation (input) BYTE :: tkind where "BYTE \<equiv> 69"

abbreviation (input) CASE :: tkind where "CASE \<equiv> 70"

abbreviation (input) CATCH :: tkind where "CATCH \<equiv> 71"

abbreviation (input) CHARK :: tkind where "CHARK \<equiv> 72"

abbreviation (input) CLASS :: tkind where "CLASS \<equiv> 73"

abbreviation (input) CONST_KW :: tkind where "CONST_KW \<equiv> 74"

abbreviation (input) CONTINUE :: tkind where "CONTINUE \<equiv> 75"

abbreviation (input) DEFAULT :: tkind where "DEFAULT \<equiv> 76"

abbreviation (input) DO :: tkind where "DO \<equiv> 77"

abbreviation (input) DOUBLE :: tkind where "DOUBLE \<equiv> 78"

abbreviation (input) ELSE :: tkind where "ELSE \<equiv> 79"

abbreviation (input) ENUM :: tkind where "ENUM \<equiv> 80"

abbreviation (input) EXTENDS :: tkind where "EXTENDS \<equiv> 81"

abbreviation (input) FINAL :: tkind where "FINAL \<equiv> 82"

abbreviation (input) FINALLY :: tkind where "FINALLY \<equiv> 83"

abbreviation (input) FLOATK :: tkind where "FLOATK \<equiv> 84"

abbreviation (input) FOR :: tkind where "FOR \<equiv> 85"

abbreviation (input) GOTO :: tkind where "GOTO \<equiv> 86"

abbreviation (input) IF :: tkind where "IF \<equiv> 87"

abbreviation (input) IMPLEMENTS :: tkind where "IMPLEMENTS \<equiv> 88"

abbreviation (input) IMPORT :: tkind where "IMPORT \<equiv> 89"

abbreviation (input) INSTANCEOF :: tkind where "INSTANCEOF \<equiv> 90"

abbreviation (input) INT_KW :: tkind where "INT_KW \<equiv> 91"

abbreviation (input) INTERFACE :: tkind where "INTERFACE \<equiv> 92"

abbreviation (input) LONG :: tkind where "LONG \<equiv> 93"

abbreviation (input) NATIVE :: tkind where "NATIVE \<equiv> 94"

abbreviation (input) NEW :: tkind where "NEW \<equiv> 95"

abbreviation (input) PACKAGE :: tkind where "PACKAGE \<equiv> 96"

abbreviation (input) PRIVATE :: tkind where "PRIVATE \<equiv> 97"

abbreviation (input) PROTECTED :: tkind where "PROTECTED \<equiv> 98"

abbreviation (input) PUBLIC :: tkind where "PUBLIC \<equiv> 99"

abbreviation (input) RETURN :: tkind where "RETURN \<equiv> 100"

abbreviation (input) SHORT :: tkind where "SHORT \<equiv> 101"

abbreviation (input) STATIC :: tkind where "STATIC \<equiv> 102"

abbreviation (input) STRICTFP :: tkind where "STRICTFP \<equiv> 103"

abbreviation (input) SUPER :: tkind where "SUPER \<equiv> 104"

abbreviation (input) SWITCH :: tkind where "SWITCH \<equiv> 105"

abbreviation (input) SYNCHRONIZED :: tkind where "SYNCHRONIZED \<equiv> 106"

abbreviation (input) THIS :: tkind where "THIS \<equiv> 107"

abbreviation (input) THROW :: tkind where "THROW \<equiv> 108"

abbreviation (input) THROWS :: tkind where "THROWS \<equiv> 109"

abbreviation (input) TRANSIENT :: tkind where "TRANSIENT \<equiv> 110"

abbreviation (input) TRY :: tkind where "TRY \<equiv> 111"

abbreviation (input) VOID :: tkind where "VOID \<equiv> 112"

abbreviation (input) VOLATILE :: tkind where "VOLATILE \<equiv> 113"

abbreviation (input) WHILE :: tkind where "WHILE \<equiv> 114"

abbreviation (input) UNDERSCORE :: tkind where "UNDERSCORE \<equiv> 115"

abbreviation (input) keywordEnd :: tkind where "keywordEnd \<equiv> 116"

abbreviation (input) NON_SEALED :: tkind where "NON_SEALED \<equiv> 117"

abbreviation (input) syntheticBeg :: tkind where "syntheticBeg \<equiv> 118"

abbreviation (input) SHR :: tkind where "SHR \<equiv> 119"

abbreviation (input) USHR :: tkind where "USHR \<equiv> 120"

abbreviation (input) SHR_ASSIGN :: tkind where "SHR_ASSIGN \<equiv> 121"

abbreviation (input) USHR_ASSIGN :: tkind where "USHR_ASSIGN \<equiv> 122"

abbreviation (input) syntheticEnd :: tkind where "syntheticEnd \<equiv> 123"

text \<open>\<open>kindStrings\<close>: an entry the array literal does not name is the empty string.\<close>

definition kindStrings :: "(tkind \<times> string) list" where
  "kindStrings =
  [(ILLEGAL, ''ILLEGAL''), (EOF, ''EOF''), (COMMENT, ''COMMENT''), (IDENT, ''IDENT''), (INT_LIT, ''INT''),
   (FLOAT_LIT, ''FLOAT''), (CHAR_LIT, ''CHAR''), (STRING_LIT, ''STRING''), (TEXTBLOCK, ''TEXTBLOCK''),
   (TRUE, ''true''), (FALSE, ''false''), (NULL, ''null''), (ASSIGN, ''=''), (GTR, ''>''), (LSS, ''<''),
   (NOT_OP, ''!''), (TILDE, ''~''), (QUESTION, ''?''), (COLON, '':''), (ARROW, ''->''), (EQL, ''==''), (GEQ, ''>=''),
   (LEQ, ''<=''), (NEQ, ''!=''), (LAND, ''&&''), (LOR, ''||''), (INC, ''++''), (DEC, ''--''), (ADD, ''+''),
   (SUB, ''-''), (MUL, ''*''), (QUO, ''/''), (AND_OP, ''&''), (OR_OP, ''|''), (XOR_OP, ''^''), (REM, ''%''),
   (SHL, ''<<''), (ADD_ASSIGN, ''+=''), (SUB_ASSIGN, ''-=''), (MUL_ASSIGN, ''*=''), (QUO_ASSIGN, ''/=''),
   (AND_ASSIGN, ''&=''), (OR_ASSIGN, ''|=''), (XOR_ASSIGN, ''^=''), (REM_ASSIGN, ''%=''), (SHL_ASSIGN, ''<<=''),
   (LPAREN, ''(''), (RPAREN, '')''), (LBRACE, ''{''), (RBRACE, ''}''), (LBRACK, ''[''), (RBRACK, '']''),
   (SEMICOLON, '';''), (COMMA, '',''), (PERIOD, ''.''), (ELLIPSIS, ''...''), (AT, ''@''), (COLONCOLON, ''::''),
   (ABSTRACT, ''abstract''), (ASSERT, ''assert''), (BOOLEAN, ''boolean''), (BREAK, ''break''), (BYTE, ''byte''),
   (CASE, ''case''), (CATCH, ''catch''), (CHARK, ''char''), (CLASS, ''class''), (CONST_KW, ''const''),
   (CONTINUE, ''continue''), (DEFAULT, ''default''), (DO, ''do''), (DOUBLE, ''double''), (ELSE, ''else''),
   (ENUM, ''enum''), (EXTENDS, ''extends''), (FINAL, ''final''), (FINALLY, ''finally''), (FLOATK, ''float''),
   (FOR, ''for''), (GOTO, ''goto''), (IF, ''if''), (IMPLEMENTS, ''implements''), (IMPORT, ''import''),
   (INSTANCEOF, ''instanceof''), (INT_KW, ''int''), (INTERFACE, ''interface''), (LONG, ''long''), (NATIVE, ''native''),
   (NEW, ''new''), (PACKAGE, ''package''), (PRIVATE, ''private''), (PROTECTED, ''protected''), (PUBLIC, ''public''),
   (RETURN, ''return''), (SHORT, ''short''), (STATIC, ''static''), (STRICTFP, ''strictfp''), (SUPER, ''super''),
   (SWITCH, ''switch''), (SYNCHRONIZED, ''synchronized''), (THIS, ''this''), (THROW, ''throw''), (THROWS, ''throws''),
   (TRANSIENT, ''transient''), (TRY, ''try''), (VOID, ''void''), (VOLATILE, ''volatile''), (WHILE, ''while''),
   (UNDERSCORE, ''_''), (NON_SEALED, ''non-sealed''), (SHR, ''> >''), (USHR, ''> > >''), (SHR_ASSIGN, ''> >=''),
   (USHR_ASSIGN, ''> > >='')]"

text \<open>\<^verbatim>\<open>strconv.Itoa\<close> on a number that is not negative.\<close>

fun Itoa :: "nat \<Rightarrow> string" where
  "Itoa n = (if n < 10 then [char_of (48 + n)] else Itoa (n div 10) @ [char_of (48 + n mod 10)])"

declare Itoa.simps [simp del]

definition kind_String :: "tkind \<Rightarrow> string" where
  "kind_String k = (case map_of kindStrings k of Some s \<Rightarrow> s | None \<Rightarrow> ''Kind('' @ Itoa (unat k) @ '')'')"

text \<open>\<open>identTable\<close> as \<open>init\<close> fills it: the later entries are found first.\<close>

definition keyword_kinds :: "tkind list" where
  "keyword_kinds = map word_of_nat [unat keywordBeg + 1 ..< unat keywordEnd]"

definition identTable :: "(string \<times> tkind) list" where
  "identTable = [(''null'', NULL), (''false'', FALSE), (''true'', TRUE)] @
     rev (map (\<lambda>k. (case map_of kindStrings k of Some s \<Rightarrow> s | None \<Rightarrow> [], k)) keyword_kinds)"

definition Lookup :: "string \<Rightarrow> tkind" where
  "Lookup s = (case map_of identTable s of Some k \<Rightarrow> k | None \<Rightarrow> IDENT)"

definition IsLiteral :: "tkind \<Rightarrow> bool" where "IsLiteral k \<longleftrightarrow> literalBeg < k \<and> k < literalEnd"

definition IsOperator :: "tkind \<Rightarrow> bool" where "IsOperator k \<longleftrightarrow> operatorBeg < k \<and> k < operatorEnd"

definition IsSeparator :: "tkind \<Rightarrow> bool" where "IsSeparator k \<longleftrightarrow> separatorBeg < k \<and> k < separatorEnd"

definition IsKeyword :: "tkind \<Rightarrow> bool" where "IsKeyword k \<longleftrightarrow> keywordBeg < k \<and> k < keywordEnd"

definition IsSynthetic :: "tkind \<Rightarrow> bool" where "IsSynthetic k \<longleftrightarrow> syntheticBeg < k \<and> k < syntheticEnd"

section \<open>Contextual keywords\<close>

type_synonym tctx = u8

abbreviation (input) CtxNone :: tctx where "CtxNone \<equiv> 0"

abbreviation (input) CtxExports :: tctx where "CtxExports \<equiv> 1"

abbreviation (input) CtxModule :: tctx where "CtxModule \<equiv> 2"

abbreviation (input) CtxNonSealed :: tctx where "CtxNonSealed \<equiv> 3"

abbreviation (input) CtxOpen :: tctx where "CtxOpen \<equiv> 4"

abbreviation (input) CtxOpens :: tctx where "CtxOpens \<equiv> 5"

abbreviation (input) CtxPermits :: tctx where "CtxPermits \<equiv> 6"

abbreviation (input) CtxProvides :: tctx where "CtxProvides \<equiv> 7"

abbreviation (input) CtxRecord :: tctx where "CtxRecord \<equiv> 8"

abbreviation (input) CtxRequires :: tctx where "CtxRequires \<equiv> 9"

abbreviation (input) CtxSealed :: tctx where "CtxSealed \<equiv> 10"

abbreviation (input) CtxTo :: tctx where "CtxTo \<equiv> 11"

abbreviation (input) CtxTransitive :: tctx where "CtxTransitive \<equiv> 12"

abbreviation (input) CtxUses :: tctx where "CtxUses \<equiv> 13"

abbreviation (input) CtxVar :: tctx where "CtxVar \<equiv> 14"

abbreviation (input) CtxWhen :: tctx where "CtxWhen \<equiv> 15"

abbreviation (input) CtxWith :: tctx where "CtxWith \<equiv> 16"

abbreviation (input) CtxYield :: tctx where "CtxYield \<equiv> 17"

abbreviation (input) numCtx :: tctx where "numCtx \<equiv> 18"

definition ctxStrings :: "string list" where
  "ctxStrings = ['''', ''exports'', ''module'', ''non-sealed'', ''open'', ''opens'', ''permits'', ''provides'', ''record'', ''requires'', ''sealed'', ''to'', ''transitive'', ''uses'', ''var'', ''when'', ''with'', ''yield'']"

text \<open>Indexing the array is a panic past its end.\<close>

definition ctx_String :: "tctx \<Rightarrow> string option" where
  "ctx_String c = (if unat c < length ctxStrings then Some (ctxStrings ! unat c) else None)"

text \<open>\<open>ctxTable\<close> as \<open>init\<close> fills it, and its lookup, whose default is the zero value.\<close>

definition ctxTable :: "(string \<times> tctx) list" where
  "ctxTable = rev (map (\<lambda>c. (ctxStrings ! c, word_of_nat c)) [unat CtxNone + 1 ..< unat numCtx])"

definition LookupCtx :: "string \<Rightarrow> tctx" where
  "LookupCtx s = (case map_of ctxTable s of Some c \<Rightarrow> c | None \<Rightarrow> CtxNone)"

definition BarredFromTypeIdentifier :: "tctx \<Rightarrow> bool" where
  "BarredFromTypeIdentifier c \<longleftrightarrow> c \<in> {CtxPermits, CtxRecord, CtxSealed, CtxVar, CtxYield}"

definition BarredFromMethodIdentifier :: "tctx \<Rightarrow> bool" where
  "BarredFromMethodIdentifier c \<longleftrightarrow> c = CtxYield"

section \<open>Precedence\<close>

definition LowestPrec :: nat where "LowestPrec = 0"

definition Precedence :: "tkind \<Rightarrow> nat" where
  "Precedence k =
     (if k = LOR then 1
      else if k = LAND then 2
      else if k = OR_OP then 3
      else if k = XOR_OP then 4
      else if k = AND_OP then 5
      else if k \<in> {EQL, NEQ} then 6
      else if k \<in> {LSS, GTR, LEQ, GEQ, INSTANCEOF} then 7
      else if k \<in> {SHL, SHR, USHR} then 8
      else if k \<in> {ADD, SUB} then 9
      else if k \<in> {MUL, QUO, REM} then 10
      else LowestPrec)"

section \<open>Positions and tokens\<close>

type_synonym tpos = u32

abbreviation (input) NoPos :: tpos where "NoPos \<equiv> 0"

definition pos_IsValid :: "tpos \<Rightarrow> bool" where "pos_IsValid p \<longleftrightarrow> p \<noteq> NoPos"

type_synonym tflags = u8

abbreviation (input) FlagAdjacent :: tflags where "FlagAdjacent \<equiv> 1"

abbreviation (input) FlagNLBefore :: tflags where "FlagNLBefore \<equiv> 2"

record token =
  tokKind :: tkind
  tokCtx :: tctx
  tokFlags :: tflags
  tokPos :: tpos
  tokEnd :: tpos

definition tok_Adjacent :: "token \<Rightarrow> bool" where "tok_Adjacent t \<longleftrightarrow> tokFlags t AND FlagAdjacent \<noteq> 0"

definition tok_NLBefore :: "token \<Rightarrow> bool" where "tok_NLBefore t \<longleftrightarrow> tokFlags t AND FlagNLBefore \<noteq> 0"

definition tok_Len :: "token \<Rightarrow> int" where "tok_Len t = uint (tokEnd t - tokPos t)"

definition tok_Is :: "tctx \<Rightarrow> token \<Rightarrow> bool" where "tok_Is c t \<longleftrightarrow> tokCtx t = c \<and> tokCtx t \<noteq> CtxNone"

definition IsTypeIdentifier :: "token \<Rightarrow> bool" where
  "IsTypeIdentifier t \<longleftrightarrow> tokKind t = IDENT \<and> \<not> BarredFromTypeIdentifier (tokCtx t)"

definition IsMethodIdentifier :: "token \<Rightarrow> bool" where
  "IsMethodIdentifier t \<longleftrightarrow> tokKind t = IDENT \<and> \<not> BarredFromMethodIdentifier (tokCtx t)"

text \<open>\<open>Join\<close>: the shift operator at the head of a token sequence and the number of tokens it takes.\<close>

fun Join :: "token list \<Rightarrow> tkind \<times> nat" where
  "Join (t0 # t1 # ts) =
     (if tokKind t0 \<noteq> GTR \<or> \<not> tok_Adjacent t1 then (ILLEGAL, 0)
      else if tokKind t1 = GEQ then (SHR_ASSIGN, 2)
      else if tokKind t1 = GTR then
        (case ts of
           t2 # _ \<Rightarrow>
             if tok_Adjacent t2 \<and> tokKind t2 = GEQ then (USHR_ASSIGN, 3)
             else if tok_Adjacent t2 \<and> tokKind t2 = GTR then (USHR, 3)
             else (SHR, 2)
         | [] \<Rightarrow> (SHR, 2))
      else (ILLEGAL, 0))"
| "Join _ = (ILLEGAL, 0)"

section \<open>Diagnostics\<close>

datatype severity = SevError | SevWarning

fun severity_String :: "severity \<Rightarrow> string" where
  "severity_String SevWarning = ''warning''"
| "severity_String SevError = ''error''"

record diagnostic =
  dgPos :: tpos
  dgEnd :: tpos
  dgSeverity :: severity
  dgMsg :: string

text \<open>The comparison handed to \<^verbatim>\<open>sort.SliceStable\<close>; strings compare byte by byte.\<close>

definition diag_less :: "diagnostic \<Rightarrow> diagnostic \<Rightarrow> bool" where
  "diag_less d e =
     (if dgPos d \<noteq> dgPos e then dgPos d < dgPos e
      else if dgEnd d \<noteq> dgEnd e then dgEnd d < dgEnd e
      else dgMsg d < dgMsg e)"

text \<open>A stable sort: each element goes behind the ones it is not less than.\<close>

fun insert_diag :: "diagnostic \<Rightarrow> diagnostic list \<Rightarrow> diagnostic list" where
  "insert_diag d [] = [d]"
| "insert_diag d (e # es) = (if diag_less e d then e # insert_diag d es else d # e # es)"

definition SortDiagnostics :: "diagnostic list \<Rightarrow> diagnostic list" where
  "SortDiagnostics ds = foldr insert_diag ds []"


section \<open>The order of diagnostics\<close>

definition diag_key :: "diagnostic \<Rightarrow> tpos \<times> tpos \<times> string" where
  "diag_key d = (dgPos d, dgEnd d, dgMsg d)"

lemma diag_less_key: "diag_less d e \<longleftrightarrow> diag_key d < diag_key e"
  by (auto simp: diag_less_def diag_key_def)

lemma insert_diag_insort: "insert_diag d es = insort_key diag_key d es"
  by (induction es) (auto simp: diag_less_key dest: leD)

lemma SortDiagnostics_eq: "SortDiagnostics ds = sort_key diag_key ds"
proof -
  have "insert_diag = insort_key diag_key" using insert_diag_insort by blast
  then show ?thesis by (simp add: SortDiagnostics_def sort_key_def)
qed

section \<open>Spellings\<close>

lemma keyword_kinds_iff: "k \<in> set keyword_kinds \<longleftrightarrow> IsKeyword k"
proof
  assume "k \<in> set keyword_kinds"
  then show "IsKeyword k"
    by (auto simp: keyword_kinds_def IsKeyword_def word_less_nat_alt unsigned_of_nat take_bit_nat_eq_self)
next
  assume "IsKeyword k"
  then have "unat k \<in> set [unat keywordBeg + 1 ..< unat keywordEnd]"
    unfolding set_upt atLeastLessThan_iff by (simp add: IsKeyword_def word_less_nat_alt)
  then have "word_of_nat (unat k) \<in> set keyword_kinds" unfolding keyword_kinds_def set_map by (rule imageI)
  then show "k \<in> set keyword_kinds" by simp
qed

lemma spellings_distinct: "distinct (map snd kindStrings)"
  unfolding kindStrings_def by simp

lemma kind_String_table: "(k, s) \<in> set kindStrings \<Longrightarrow> kind_String k = s"
proof -
  have "distinct (map fst kindStrings)" unfolding kindStrings_def by simp
  then show "(k, s) \<in> set kindStrings \<Longrightarrow> kind_String k = s" by (simp add: kind_String_def)
qed

lemma keyword_kinds_list: "keyword_kinds = [ABSTRACT, ASSERT, BOOLEAN, BREAK, BYTE, CASE, CATCH, CHARK, CLASS, CONST_KW, CONTINUE, DEFAULT, DO, DOUBLE, ELSE, ENUM, EXTENDS, FINAL, FINALLY, FLOATK, FOR, GOTO, IF, IMPLEMENTS, IMPORT, INSTANCEOF, INT_KW, INTERFACE, LONG, NATIVE, NEW, PACKAGE, PRIVATE, PROTECTED, PUBLIC, RETURN, SHORT, STATIC, STRICTFP, SUPER, SWITCH, SYNCHRONIZED, THIS, THROW, THROWS, TRANSIENT, TRY, VOID, VOLATILE, WHILE, UNDERSCORE]"
  by (simp add: keyword_kinds_def upt_rec_numeral)

lemma identTable_spelled: "list_all (\<lambda>(s, k). map_of kindStrings k = Some s) identTable"
proof -
  have "set keyword_kinds \<subseteq> fst ` set kindStrings" unfolding keyword_kinds_list kindStrings_def by simp
  then have "k \<in> set keyword_kinds \<Longrightarrow> \<exists>s. map_of kindStrings k = Some s" for k
    using map_of_eq_None_iff [of kindStrings k] by blast
  moreover have "map_of kindStrings TRUE = Some ''true''" "map_of kindStrings FALSE = Some ''false''" "map_of kindStrings NULL = Some ''null''"
    by (simp_all add: kindStrings_def)
  ultimately show ?thesis by (fastforce simp: identTable_def list_all_iff)
qed

lemma identTable_kind: "(s, k) \<in> set identTable \<Longrightarrow> map_of kindStrings k = Some s"
  using identTable_spelled unfolding list_all_iff by blast

lemma Lookup_Some:
  assumes "Lookup s \<noteq> IDENT"
  shows "(s, Lookup s) \<in> set identTable"
  using assms by (auto simp: Lookup_def split: option.splits dest: map_of_SomeD)

lemma Lookup_spelled:
  assumes "Lookup s \<noteq> IDENT"
  shows "kind_String (Lookup s) = s" and "IsKeyword (Lookup s) \<or> Lookup s \<in> {TRUE, FALSE, NULL}"
proof -
  have m: "(s, Lookup s) \<in> set identTable" using assms by (rule Lookup_Some)
  then show "kind_String (Lookup s) = s" using identTable_kind by (simp add: kind_String_def)
  show "IsKeyword (Lookup s) \<or> Lookup s \<in> {TRUE, FALSE, NULL}" using m by (auto simp: identTable_def keyword_kinds_iff)
qed

lemma ctx_not_reserved:
  assumes "s \<in> set (tl ctxStrings)"
  shows "Lookup s = IDENT"
proof (rule ccontr)
  assume "Lookup s \<noteq> IDENT"
  then have m: "(s, Lookup s) \<in> set identTable" by (rule Lookup_Some)
  then have k: "(Lookup s, s) \<in> set kindStrings" using identTable_kind map_of_SomeD by metis
  have "list_all (\<lambda>s. s \<notin> set (map snd kindStrings) \<or> s = ''non-sealed'') (tl ctxStrings)" unfolding ctxStrings_def kindStrings_def by simp
  then have "s \<notin> snd ` set kindStrings \<or> s = ''non-sealed''" using assms by (simp add: list_all_iff)
  then have s: "s = ''non-sealed''" using k by force
  have "(NON_SEALED, ''non-sealed'') \<in> set kindStrings" by (simp add: kindStrings_def)
  then have "Lookup s = NON_SEALED" using k s spellings_distinct by (fastforce simp: distinct_map inj_on_def)
  then show False using m by (auto simp: identTable_def keyword_kinds_iff IsKeyword_def)
qed

lemma identTable_keys: "distinct (map fst identTable)" "length identTable = 54"
proof -
  have k: "map fst identTable = map (\<lambda>k. the (map_of kindStrings k)) (map snd identTable)"
    using identTable_spelled by (auto simp: list_all_iff)
  have d: "distinct (map snd identTable)" unfolding identTable_def keyword_kinds_list by simp
  have i: "(k, s) \<in> set kindStrings \<Longrightarrow> (k', s) \<in> set kindStrings \<Longrightarrow> k = k'" for k k' s
    using spellings_distinct by (fastforce simp: distinct_map inj_on_def)
  have "inj_on (\<lambda>k. the (map_of kindStrings k)) (set (map snd identTable))"
  proof (rule inj_onI)
    fix k k'
    assume "k \<in> set (map snd identTable)" "k' \<in> set (map snd identTable)" "the (map_of kindStrings k) = the (map_of kindStrings k')"
    then obtain s where "map_of kindStrings k = Some s" "map_of kindStrings k' = Some s" by (auto dest!: identTable_kind)
    then show "k = k'" using i map_of_SomeD by metis
  qed
  then show "distinct (map fst identTable)" using d unfolding k distinct_map [of "\<lambda>k. the (map_of kindStrings k)"] by blast
  show "length identTable = 54" by (simp add: identTable_def keyword_kinds_list)
qed

lemma ctxTable_list:
  "ctxTable = rev (zip (tl ctxStrings) [1, 2, 3, 4, 5, 6, 7, 8, 9, 10, 11, 12, 13, 14, 15, 16, 17])"
  by (simp add: ctxTable_def upt_conv_Cons ctxStrings_def)

lemma ctx_keys: "distinct (map fst ctxTable)" "length ctxTable = 17"
  by (simp_all add: ctxTable_list ctxStrings_def)

section \<open>Properties\<close>

text \<open>C31: The keyword tables are consistent. Fifty-one reserved words and three literals resolve, seventeen contextual
  keywords do, no spelling occurs twice (so \<open>init\<close> never panics); resolving the spelling of a reserved word
  gives that word back, a spelling that resolves is the spelling of what it resolves to, and no contextual
  keyword is reserved.\<close>

theorem keyword_tables:
  "card (set (map fst identTable)) - 3 = 51 \<and> card (set (map fst ctxTable)) = 17 \<and>
   (\<forall>k. IsKeyword k \<longrightarrow> Lookup (kind_String k) = k) \<and>
   (\<forall>s. Lookup s \<noteq> IDENT \<longrightarrow> kind_String (Lookup s) = s \<and> (IsKeyword (Lookup s) \<or> Lookup s \<in> {TRUE, FALSE, NULL})) \<and>
   (\<forall>s. LookupCtx s \<noteq> CtxNone \<longrightarrow> ctx_String (LookupCtx s) = Some s \<and> Lookup s = IDENT) \<and>
   (\<forall>c. CtxNone < c \<and> c < numCtx \<longrightarrow> (\<exists>s. ctx_String c = Some s \<and> LookupCtx s = c))"
proof (intro conjI allI impI)
  show "card (set (map fst identTable)) - 3 = 51" "card (set (map fst ctxTable)) = 17"
    using distinct_card [OF identTable_keys(1)] distinct_card [OF ctx_keys(1)] identTable_keys(2) ctx_keys(2) by simp_all
  fix k
  assume "IsKeyword k"
  then have "(case map_of kindStrings k of Some s \<Rightarrow> s | None \<Rightarrow> [], k) \<in> set identTable"
    by (auto simp: identTable_def keyword_kinds_iff)
  moreover from this have "map_of kindStrings k = Some (kind_String k)"
    by (drule_tac identTable_kind) (metis kind_String_def option.simps(5))
  ultimately have "map_of identTable (kind_String k) = Some k" using identTable_keys(1) by simp
  then show "Lookup (kind_String k) = k" by (simp add: Lookup_def)
next
  fix s
  assume "Lookup s \<noteq> IDENT"
  then show "kind_String (Lookup s) = s" "IsKeyword (Lookup s) \<or> Lookup s \<in> {TRUE, FALSE, NULL}" by (rule Lookup_spelled)+
next
  fix s
  assume "LookupCtx s \<noteq> CtxNone"
  then have m: "(s, LookupCtx s) \<in> set ctxTable" by (auto simp: LookupCtx_def split: option.splits dest: map_of_SomeD)
  then show "ctx_String (LookupCtx s) = Some s" by (auto simp: ctxTable_list ctxStrings_def ctx_String_def)
  have "s \<in> set (tl ctxStrings)" using m unfolding ctxTable_list by (auto dest: set_zip_leftD)
  then show "Lookup s = IDENT" by (rule ctx_not_reserved)
next
  fix c :: tctx
  assume "CtxNone < c \<and> c < numCtx"
  then have c: "unat c \<in> set [unat CtxNone + 1 ..< unat numCtx]"
    unfolding set_upt atLeastLessThan_iff by (auto simp: word_less_nat_alt)
  then have s: "ctx_String c = Some (ctxStrings ! unat c)" by (simp add: ctx_String_def ctxStrings_def)
  have "(ctxStrings ! unat c, word_of_nat (unat c)) \<in> set ctxTable" using c unfolding ctxTable_def set_rev set_map by (rule imageI)
  then have "map_of ctxTable (ctxStrings ! unat c) = Some c" using ctx_keys(1) by simp
  then show "\<exists>s. ctx_String c = Some s \<and> LookupCtx s = c" using s by (auto simp: LookupCtx_def)
qed

theorem keyword_tables_witness: "Lookup (kind_String WHILE) = WHILE \<and> (\<exists>s. ctx_String CtxYield = Some s \<and> LookupCtx s = CtxYield)"
proof -
  have "IsKeyword WHILE" "CtxNone < CtxYield \<and> CtxYield < numCtx" by (simp_all add: IsKeyword_def)
  then show ?thesis using keyword_tables by blast
qed

text \<open>What each shift operator is made of.\<close>

definition joins :: "(tkind \<times> tkind list) list" where
  "joins = [(SHR, [GTR, GTR]), (USHR, [GTR, GTR, GTR]), (SHR_ASSIGN, [GTR, GEQ]), (USHR_ASSIGN, [GTR, GTR, GEQ])]"

definition spells_shift :: "token list \<Rightarrow> tkind \<Rightarrow> nat \<Rightarrow> bool" where
  "spells_shift ts k n \<longleftrightarrow> n \<le> length ts \<and> (k, map tokKind (take n ts)) \<in> set joins \<and> (\<forall>t \<in> set (tl (take n ts)). tok_Adjacent t)"

lemma spells_shift_length: "spells_shift ts k n \<Longrightarrow> n = 2 \<or> n = 3"
proof -
  assume "spells_shift ts k n"
  then have m: "map tokKind (take n ts) \<in> snd ` set joins" and n: "length (map tokKind (take n ts)) = n"
    by (force simp: spells_shift_def)+
  have "ks \<in> snd ` set joins \<Longrightarrow> length ks = 2 \<or> length ks = 3" for ks by (auto simp: joins_def)
  then show ?thesis using m n by metis
qed

lemma spells_shift_eqs:
  "spells_shift ts k 2 \<longleftrightarrow> (\<exists>t0 t1 us. ts = t0 # t1 # us \<and> tok_Adjacent t1 \<and> tokKind t0 = GTR \<and>
     (k = SHR \<and> tokKind t1 = GTR \<or> k = SHR_ASSIGN \<and> tokKind t1 = GEQ))"
  "spells_shift ts k 3 \<longleftrightarrow> (\<exists>t0 t1 t2 us. ts = t0 # t1 # t2 # us \<and> tok_Adjacent t1 \<and> tok_Adjacent t2 \<and> tokKind t0 = GTR \<and>
     tokKind t1 = GTR \<and> (k = USHR \<and> tokKind t2 = GTR \<or> k = USHR_ASSIGN \<and> tokKind t2 = GEQ))"
proof -
  show "spells_shift ts k 2 \<longleftrightarrow> (\<exists>t0 t1 us. ts = t0 # t1 # us \<and> tok_Adjacent t1 \<and> tokKind t0 = GTR \<and>
     (k = SHR \<and> tokKind t1 = GTR \<or> k = SHR_ASSIGN \<and> tokKind t1 = GEQ))"
    by (cases ts rule: Join.cases) (auto simp: spells_shift_def joins_def)
  show "spells_shift ts k 3 \<longleftrightarrow> (\<exists>t0 t1 t2 us. ts = t0 # t1 # t2 # us \<and> tok_Adjacent t1 \<and> tok_Adjacent t2 \<and> tokKind t0 = GTR \<and>
     tokKind t1 = GTR \<and> (k = USHR \<and> tokKind t2 = GTR \<or> k = USHR_ASSIGN \<and> tokKind t2 = GEQ))"
  proof (cases "\<exists>t0 t1 t2 us. ts = t0 # t1 # t2 # us")
    case True
    then show ?thesis by (auto simp: spells_shift_def joins_def)
  next
    case False
    then have "length ts < 3" by (cases ts rule: Join.cases) (auto, metis list.exhaust)
    then show ?thesis by (auto simp: spells_shift_def)
  qed
qed

text \<open>C32: \<open>Join\<close> finds the longest shift operator: it takes tokens exactly when the head of the sequence spells one
  of the four operators with every token after the first adjacent, the operator it names is the one spelled,
  and no longer one is.\<close>

theorem Join_longest:
  "(snd (Join ts) = 0 \<longleftrightarrow> \<not> (\<exists>k n. spells_shift ts k n)) \<and>
   (snd (Join ts) \<noteq> 0 \<longrightarrow> spells_shift ts (fst (Join ts)) (snd (Join ts)) \<and> IsSynthetic (fst (Join ts)) \<and>
      (\<forall>k n. spells_shift ts k n \<longrightarrow> n \<le> snd (Join ts)))"
proof -
  have "(\<exists>k n. spells_shift ts k n) \<longleftrightarrow> (\<exists>k. spells_shift ts k 2) \<or> (\<exists>k. spells_shift ts k 3)"
    using spells_shift_length by blast
  moreover have "snd (Join ts) = 0 \<longleftrightarrow> \<not> ((\<exists>k. spells_shift ts k 2) \<or> (\<exists>k. spells_shift ts k 3))"
    unfolding spells_shift_eqs by (cases ts rule: Join.cases) (auto split: list.splits)
  moreover have "spells_shift ts (fst (Join ts)) (snd (Join ts)) \<and> IsSynthetic (fst (Join ts))" if "snd (Join ts) \<noteq> 0"
    using that by (cases ts rule: Join.cases) (auto simp: spells_shift_eqs IsSynthetic_def split: list.splits if_splits)
  moreover have "snd (Join ts) = 3" if "spells_shift ts k 3" for k
    using that by (auto simp: spells_shift_eqs)
  moreover have "2 \<le> snd (Join ts)" if "spells_shift ts k 2" for k
    using that by (auto simp: spells_shift_eqs split: list.splits)
  ultimately show ?thesis using spells_shift_length by (metis order_refl)
qed

theorem Join_longest_witness:
  "let g = \<lparr>tokKind = GTR, tokCtx = CtxNone, tokFlags = FlagAdjacent, tokPos = 1, tokEnd = 2\<rparr>;
       ts = [g, g, g\<lparr>tokKind := GEQ\<rparr>] in spells_shift ts USHR_ASSIGN 3 \<and> snd (Join ts) = 3"
proof -
  let ?g = "\<lparr>tokKind = GTR, tokCtx = CtxNone, tokFlags = FlagAdjacent, tokPos = 1, tokEnd = 2\<rparr>"
  let ?ts = "[?g, ?g, ?g\<lparr>tokKind := GEQ\<rparr>]"
  have j: "Join ?ts = (USHR_ASSIGN, 3)" by (simp add: tok_Adjacent_def)
  show ?thesis using Join_longest [of ?ts] unfolding j Let_def by (simp add: j del: Join.simps)
qed


end
