(* ===== verification/SourceFile.thy ===== *)
theory SourceFile
  imports Token Mutf8
begin

unbundle bit_operations_syntax

text \<open>
  The position space of a compilation unit (\<^verbatim>\<open>src/token/file.go\<close>): a \<open>File\<close> holds the raw source, the text after
  Unicode escapes are translated, the edits that lead from one to the other and the starts of the lines.
  Source text is a byte sequence, written as a string whose characters are the bytes. The properties are in the
  theory \<open>SourceSpans\<close>.
\<close>

section \<open>Shared with the scanner\<close>

abbreviation (input) LF :: char where "LF \<equiv> CHR 0x0A"

abbreviation (input) CR :: char where "CR \<equiv> CHR 0x0D"

abbreviation (input) backslash :: char where "backslash \<equiv> CHR 0x5C"

text \<open>\<open>for i < len(s) && p(s[i]) { i++ }\<close>\<close>

function skip_while :: "(char \<Rightarrow> bool) \<Rightarrow> string \<Rightarrow> nat \<Rightarrow> nat" where
  "skip_while p s i = (if i < length s \<and> p (s ! i) then skip_while p s (i + 1) else i)"
  by pat_completeness auto

termination by (relation "measure (\<lambda>(p, s, i). length s - i)") auto

declare skip_while.simps [simp del]

text \<open>\<^verbatim>\<open>s[i:j]\<close> of a string, for bounds that are in range.\<close>

definition substr :: "string \<Rightarrow> nat \<Rightarrow> nat \<Rightarrow> string" where
  "substr s i j = take (j - i) (drop i s)"

lemma substr_append: "i \<le> j \<Longrightarrow> j \<le> k \<Longrightarrow> substr s i j @ substr s j k = substr s i k"
  unfolding substr_def by (metis add_diff_inverse_nat diff_add drop_drop le_add_diff_inverse2 not_le ordered_cancel_comm_monoid_diff_class.add_diff_assoc2 take_add)

text \<open>\<^verbatim>\<open>sort.Search(n, f)\<close>: binary search for the first index in \<open>[0, n)\<close> at which \<open>f\<close> holds.\<close>

function search_loop :: "(nat \<Rightarrow> bool) \<Rightarrow> nat \<Rightarrow> nat \<Rightarrow> nat" where
  "search_loop f i j =
     (if i < j then (let h = (i + j) div 2 in if \<not> f h then search_loop f (h + 1) j else search_loop f i h) else i)"
  by pat_completeness auto

termination by (relation "measure (\<lambda>(f, i, j). j - i)") auto

declare search_loop.simps [simp del]

definition sort_Search :: "nat \<Rightarrow> (nat \<Rightarrow> bool) \<Rightarrow> nat" where
  "sort_Search n f = search_loop f 0 n"

section \<open>Files\<close>

record position =
  psFilename :: string
  psOffset :: int
  psLine :: int
  psColumn :: int

record edit =
  tOff :: nat
  tLen :: nat
  rOff :: nat
  rLen :: nat

record sfile =
  flName :: string
  flRaw :: string
  flText :: string
  flEdits :: "edit list"
  flLines :: "nat list"
  flDiags :: "diagnostic list"

section \<open>Escape translation\<close>

definition hexVal :: "char \<Rightarrow> int" where
  "hexVal c =
     (if CHR ''0'' \<le> c \<and> c \<le> CHR ''9'' then of_char c - of_char (CHR ''0'')
      else if CHR ''a'' \<le> c \<and> c \<le> CHR ''f'' then of_char c - of_char (CHR ''a'') + 10
      else if CHR ''A'' \<le> c \<and> c \<le> CHR ''F'' then of_char c - of_char (CHR ''A'') + 10
      else - 1)"

fun hex_digits :: "int \<Rightarrow> string \<Rightarrow> int option" where
  "hex_digits v [] = Some v"
| "hex_digits v (c # cs) = (if hexVal c < 0 then None else hex_digits (push_bit 4 v OR hexVal c) cs)"

definition decodeEscape :: "string \<Rightarrow> nat \<Rightarrow> (rune \<times> nat) option" where
  "decodeEscape raw i =
     (let k = skip_while (\<lambda>c. c = CHR ''u'') raw (i + 1) in
      if k = i + 1 \<or> k + 4 > length raw then None
      else map_option (\<lambda>v. (v, k + 4)) (hex_digits 0 (substr raw k (k + 4))))"

definition appendRune :: "string \<Rightarrow> rune \<Rightarrow> string" where
  "appendRune dst r =
     (if r \<ge> 0xD800 \<and> r \<le> 0xDFFF then
        dst @ string_of_bytes [word_of_int (0xE0 OR drop_bit 12 r), word_of_int (0x80 OR (drop_bit 6 r AND 0x3F)),
          word_of_int (0x80 OR (r AND 0x3F))]
      else dst @ string_of_bytes (append_rune r))"

text \<open>The rune an escape stands for and where it ends: two adjacent escapes of a surrogate pair are one.\<close>

definition pair_escape :: "string \<Rightarrow> rune \<times> nat \<Rightarrow> rune \<times> nat" where
  "pair_escape raw e = (case e of (r, nxt) \<Rightarrow>
     if r \<ge> 0xD800 \<and> r \<le> 0xDBFF \<and> nxt < length raw \<and> raw ! nxt = backslash then
       (case decodeEscape raw nxt of
          Some (lo, next2) \<Rightarrow>
            if lo \<ge> 0xDC00 \<and> lo \<le> 0xDFFF then (0x10000 + push_bit 10 (r - 0xD800) + (lo - 0xDC00), next2) else (r, nxt)
        | None \<Rightarrow> (r, nxt))
     else (r, nxt))"

lemma skip_while_ge: "i \<le> skip_while p s i"
  by (induction p s i rule: skip_while.induct) (subst skip_while.simps, auto)

lemma skip_while_gt: "i < length s \<Longrightarrow> p (s ! i) \<Longrightarrow> i < skip_while p s i"
  using skip_while_ge [of "i + 1" p s] by (subst skip_while.simps) simp

lemma skip_while_eq: "skip_while p s i = i + length (takeWhile p (drop i s))"
proof (induction p s i rule: skip_while.induct)
  case (1 p s i)
  then show ?case
  proof (cases "i < length s \<and> p (s ! i)")
    case True
    then have "drop i s = s ! i # drop (i + 1) s" by (simp add: Cons_nth_drop_Suc)
    then show ?thesis using 1 True by (subst skip_while.simps) simp
  next
    case False
    then have "takeWhile p (drop i s) = []"
      by (cases "i < length s") (auto simp: Cons_nth_drop_Suc [symmetric])
    then show ?thesis using False by (subst skip_while.simps) auto
  qed
qed

lemma skip_while_le: "i \<le> length s \<Longrightarrow> skip_while p s i \<le> length s"
  using length_takeWhile_le [of p "drop i s"] by (simp add: skip_while_eq)

lemma skip_while_all: "i \<le> k \<Longrightarrow> k < skip_while p s i \<Longrightarrow> p (s ! k)"
proof -
  assume k: "i \<le> k" "k < skip_while p s i"
  then have m: "k - i < length (takeWhile p (drop i s))" by (simp add: skip_while_eq)
  then have "p (takeWhile p (drop i s) ! (k - i))" by (metis nth_mem set_takeWhileD)
  moreover have "takeWhile p (drop i s) ! (k - i) = s ! k"
    using m k length_takeWhile_le [of p "drop i s"] by (simp add: takeWhile_nth)
  ultimately show ?thesis by simp
qed

lemma skip_while_last: "i < length s \<Longrightarrow> p (s ! i) \<Longrightarrow> p (s ! (skip_while p s i - 1))"
  using skip_while_gt [of i s p] skip_while_all [of i "skip_while p s i - 1" p s] by simp

lemma skip_while_stop: "skip_while p s i < length s \<Longrightarrow> \<not> p (s ! skip_while p s i)"
  using nth_length_takeWhile [of p "drop i s"] by (simp add: skip_while_eq)

lemma decodeEscape_gt: "decodeEscape raw i = Some (r, n) \<Longrightarrow> i + 5 < n \<and> n \<le> length raw"
  using skip_while_ge [of "i + 1" "\<lambda>c. c = CHR ''u''" raw] by (auto simp: decodeEscape_def Let_def split: if_splits)

lemma pair_escape_ge: "snd e \<le> snd (pair_escape raw e)"
  using decodeEscape_gt [of raw "snd e"] by (auto simp: pair_escape_def split: prod.splits option.splits)

text \<open>The state of the translation loop is the text so far, the edits and the diagnostics.\<close>

record translation =
  trText :: string
  trEdits :: "edit list"
  trDiags :: "diagnostic list"

function translate_loop :: "string \<Rightarrow> nat \<Rightarrow> translation \<Rightarrow> translation" where
  "translate_loop raw i t =
     (if i \<ge> length raw then t
      else if raw ! i \<noteq> backslash then translate_loop raw (i + 1) (t\<lparr>trText := trText t @ [raw ! i]\<rparr>)
      else
        let j = skip_while (\<lambda>c. c = backslash) raw i in
        if (j - i) mod 2 = 0 \<or> j = length raw \<or> raw ! j \<noteq> CHR ''u''
        then translate_loop raw j (t\<lparr>trText := trText t @ substr raw i j\<rparr>)
        else
          let text = trText t @ substr raw i (j - 1); i1 = j - 1 in
          case decodeEscape raw i1 of
            None \<Rightarrow>
              translate_loop raw (i1 + 1) (t\<lparr>trText := text @ [backslash],
                trDiags := trDiags t @ [\<lparr>dgPos = word_of_nat (length text + 1), dgEnd = word_of_nat (length text + 2),
                  dgSeverity = SevError, dgMsg = ''invalid Unicode escape''\<rparr>]\<rparr>)
          | Some e \<Rightarrow>
              (case pair_escape raw e of (r, rNext) \<Rightarrow>
                 let text' = appendRune text r in
                 translate_loop raw rNext (t\<lparr>trText := text',
                   trEdits := trEdits t @ [\<lparr>tOff = length text, tLen = length text' - length text, rOff = i1, rLen = rNext - i1\<rparr>]\<rparr>)))"
  by pat_completeness auto

termination
proof (relation "measure (\<lambda>(raw, i, t). length raw - i)", goal_cases)
  case (3 raw i t j)
  then show ?case using skip_while_gt [of i raw "\<lambda>c. c = backslash"] by auto
next
  case (4 raw i t j tx i1)
  then show ?case using skip_while_gt [of i raw "\<lambda>c. c = backslash"] by auto
next
  case (5 raw i t j tx i1 e r rNext tx')
  then have "i < j" using skip_while_gt [of i raw "\<lambda>c. c = backslash"] by auto
  moreover have "rNext = snd (pair_escape raw e)" using 5 by (metis snd_conv)
  then have "i1 < rNext" using 5 decodeEscape_gt [of raw i1 "fst e" "snd e"] pair_escape_ge [of e raw] by auto
  ultimately show ?case using 5 by auto
qed auto

declare translate_loop.simps [simp del]

definition translate :: "string \<Rightarrow> translation" where
  "translate raw =
     (if backslash \<notin> set raw then \<lparr>trText = raw, trEdits = [], trDiags = []\<rparr>
      else translate_loop raw 0 \<lparr>trText = [], trEdits = [], trDiags = []\<rparr>)"

section \<open>Lines\<close>

text \<open>\<open>i\<close> is the raw offset of the rest.\<close>

fun line_starts :: "nat \<Rightarrow> string \<Rightarrow> nat list" where
  "line_starts i [] = []"
| "line_starts i (c # cs) =
     (if c = LF then (i + 1) # line_starts (i + 1) cs
      else if c = CR then
        (case cs of
           d # ds \<Rightarrow> if d = LF then (i + 2) # line_starts (i + 2) ds else (i + 1) # line_starts (i + 1) cs
         | [] \<Rightarrow> (i + 1) # line_starts (i + 1) cs)
      else line_starts (i + 1) cs)"

definition buildLines :: "string \<Rightarrow> nat list" where
  "buildLines raw = 0 # line_starts 0 raw"

definition NewFile :: "string \<Rightarrow> string \<Rightarrow> sfile" where
  "NewFile name src =
     (let t = translate src; text = trText t in
      \<lparr>flName = name, flRaw = src,
       flText = (if text \<noteq> [] \<and> last text = CHR 0x1A then butlast text else text),
       flEdits = trEdits t, flLines = buildLines src, flDiags = trDiags t\<rparr>)"

section \<open>Positions\<close>

definition fl_Size :: "sfile \<Rightarrow> nat" where "fl_Size f = length (flText f)"

definition fl_LineCount :: "sfile \<Rightarrow> nat" where "fl_LineCount f = length (flLines f)"

definition fl_Pos :: "nat \<Rightarrow> tpos" where "fl_Pos off = word_of_nat (off + 1)"

definition fl_Offset :: "tpos \<Rightarrow> int" where
  "fl_Offset p = (if p = NoPos then - 1 else uint p - 1)"

text \<open>\<^verbatim>\<open>s[a:b]\<close> with bounds that may be out of range, which is a panic.\<close>

definition slice_int :: "string \<Rightarrow> int \<Rightarrow> int \<Rightarrow> string option" where
  "slice_int s a b = (if 0 \<le> a \<and> a \<le> b \<and> b \<le> int (length s) then Some (substr s (nat a) (nat b)) else None)"

definition fl_Slice :: "sfile \<Rightarrow> tpos \<Rightarrow> tpos \<Rightarrow> string option" where
  "fl_Slice f pos end' = slice_int (flText f) (fl_Offset pos) (fl_Offset end')"

definition rawStart :: "sfile \<Rightarrow> int \<Rightarrow> int" where
  "rawStart f t =
     (if flEdits f = [] then t
      else
        let i = int (sort_Search (length (flEdits f)) (\<lambda>k. int (tOff (flEdits f ! k)) > t)) - 1 in
        if i < 0 then t
        else
          let e = flEdits f ! nat i in
          if t < int (tOff e + tLen e) then int (rOff e) else int (rOff e + rLen e) + (t - int (tOff e + tLen e)))"

definition rawEnd :: "sfile \<Rightarrow> int \<Rightarrow> int" where
  "rawEnd f t =
     (if flEdits f = [] then t
      else
        let i = int (sort_Search (length (flEdits f)) (\<lambda>k. int (tOff (flEdits f ! k)) \<ge> t)) - 1 in
        if i < 0 then t
        else
          let e = flEdits f ! nat i in
          if t < int (tOff e + tLen e) then int (rOff e + rLen e) else int (rOff e + rLen e) + (t - int (tOff e + tLen e)))"

definition RawSpan :: "sfile \<Rightarrow> tpos \<Rightarrow> tpos \<Rightarrow> int \<times> int" where
  "RawSpan f pos end' =
     (let a = rawStart f (fl_Offset pos); b = rawEnd f (fl_Offset end') in (a, if b < a then a else b))"

definition fl_Raw :: "sfile \<Rightarrow> tpos \<Rightarrow> tpos \<Rightarrow> string option" where
  "fl_Raw f pos end' = (case RawSpan f pos end' of (a, b) \<Rightarrow> slice_int (flRaw f) a b)"

definition fl_Between :: "sfile \<Rightarrow> token \<Rightarrow> token \<Rightarrow> string option" where
  "fl_Between f a b = (if tokEnd a > tokPos b then Some [] else fl_Slice f (tokEnd a) (tokPos b))"

text \<open>\<open>lines\<close> is never empty (\<open>buildLines\<close>), so the index is in range.\<close>

definition fl_Position :: "sfile \<Rightarrow> tpos \<Rightarrow> position" where
  "fl_Position f p =
     (if \<not> pos_IsValid p then \<lparr>psFilename = flName f, psOffset = - 1, psLine = 0, psColumn = 0\<rparr>
      else
        let off = rawStart f (fl_Offset p);
            i = int (sort_Search (length (flLines f)) (\<lambda>k. int (flLines f ! k) > off)) - 1;
            i' = (if i < 0 then 0 else i) in
        \<lparr>psFilename = flName f, psOffset = off, psLine = i' + 1, psColumn = off - int (flLines f ! nat i') + 1\<rparr>)"

end
