(* ===== verification/SourceSpans.thy ===== *)
theory SourceSpans
  imports SourceFile
begin

text \<open>
  What a \<open>File\<close> promises (\<^verbatim>\<open>src/token/file.go\<close>): the translation cuts the source into pieces (single bytes kept as
  they are, and escapes replaced by the encoding of what they name), \<open>RawSpan\<close> maps a span of the text to
  exactly the pieces it touches, and \<open>Position\<close> gives the line and the column of the raw byte. The binary
  searches of the code are shown to find the last edit, and the last line start, before an offset.
\<close>

section \<open>Lemmas on loops and searches\<close>

text \<open>Binary search finds the boundary of a monotone predicate.\<close>

lemma search_loop_boundary:
  assumes "i \<le> b" "b \<le> j" "\<And>k. i \<le> k \<Longrightarrow> k < j \<Longrightarrow> f k \<longleftrightarrow> b \<le> k"
  shows "search_loop f i j = b"
  using assms
proof (induction f i j rule: search_loop.induct)
  case (1 f i j)
  show ?case
  proof (cases "i < j")
    case False
    then show ?thesis using "1.prems" by (subst search_loop.simps) simp
  next
    case True
    let ?h = "(i + j) div 2"
    have h: "i \<le> ?h" "?h < j" using True by auto
    have IH1: "\<not> f ?h \<Longrightarrow> search_loop f (?h + 1) j = b" and IH2: "f ?h \<Longrightarrow> search_loop f i ?h = b"
      using "1.IH" [OF True refl] "1.prems" h by fastforce+
    then show ?thesis using True by (subst search_loop.simps) (simp add: Let_def)
  qed
qed

lemma sort_Search_takeWhile:
  assumes "sorted_wrt (\<lambda>x y. P y \<longrightarrow> P x) xs"
  shows "sort_Search (length xs) (\<lambda>k. \<not> P (xs ! k)) = length (takeWhile P xs)"
  unfolding sort_Search_def
proof (rule search_loop_boundary)
  show "length (takeWhile P xs) \<le> length xs" by (rule length_takeWhile_le)
  fix k
  assume k: "k < length xs"
  show "\<not> P (xs ! k) \<longleftrightarrow> length (takeWhile P xs) \<le> k"
  proof
    assume "length (takeWhile P xs) \<le> k"
    then show "\<not> P (xs ! k)" using nth_length_takeWhile [of P xs] k assms
      by (metis (mono_tags, lifting) le_neq_implies_less order_le_less_trans sorted_wrt_nth_less)
  qed (metis nth_mem set_takeWhileD takeWhile_nth not_le)
qed simp

section \<open>The pieces of a source file\<close>

text \<open>A piece is a byte that is kept or an escape with what replaces it.\<close>

datatype piece = Kept char | Escaped string string

fun piece_raw :: "piece \<Rightarrow> string" where
  "piece_raw (Kept c) = [c]"
| "piece_raw (Escaped x y) = x"

fun piece_text :: "piece \<Rightarrow> string" where
  "piece_text (Kept c) = [c]"
| "piece_text (Escaped x y) = y"

abbreviation raw_of :: "piece list \<Rightarrow> string" where "raw_of ps \<equiv> concat (map piece_raw ps)"

abbreviation text_of :: "piece list \<Rightarrow> string" where "text_of ps \<equiv> concat (map piece_text ps)"

text \<open>\<open>\\u\<close>, any number of further \<open>u\<close>, four hexadecimal digits.\<close>

definition unit_escape :: "string \<Rightarrow> rune \<Rightarrow> bool" where
  "unit_escape x r \<longleftrightarrow> (\<exists>m ds. x = backslash # replicate (Suc m) (CHR ''u'') @ ds \<and> length ds = 4 \<and> hex_digits 0 ds = Some r)"

definition pair_rune :: "rune \<Rightarrow> rune \<Rightarrow> rune" where
  "pair_rune h l = 0x10000 + push_bit 10 (h - 0xD800) + (l - 0xDC00)"

fun piece_ok :: "piece \<Rightarrow> bool" where
  "piece_ok (Kept c) = True"
| "piece_ok (Escaped x y) \<longleftrightarrow> (\<exists>r. unit_escape x r \<and> y = appendRune [] r) \<or>
     (\<exists>x1 x2 h l. x = x1 @ x2 \<and> unit_escape x1 h \<and> unit_escape x2 l \<and> 0xD800 \<le> h \<and> h \<le> 0xDBFF \<and> 0xDC00 \<le> l \<and> l \<le> 0xDFFF \<and>
        y = appendRune [] (pair_rune h l))"

text \<open>The edits a list of pieces amounts to, from text offset \<open>t\<close> and raw offset \<open>r\<close> on.\<close>

fun edits_of :: "nat \<Rightarrow> nat \<Rightarrow> piece list \<Rightarrow> edit list" where
  "edits_of t r [] = []"
| "edits_of t r (Kept c # ps) = edits_of (t + 1) (r + 1) ps"
| "edits_of t r (Escaped x y # ps) =
     \<lparr>tOff = t, tLen = length y, rOff = r, rLen = length x\<rparr> # edits_of (t + length y) (r + length x) ps"

lemma edits_of_append:
  "edits_of t r (ps @ qs) = edits_of t r ps @ edits_of (t + length (text_of ps)) (r + length (raw_of ps)) qs"
  by (induction t r ps rule: edits_of.induct) (simp_all add: add.assoc)

lemma kept_of: "raw_of (map Kept s) = s" "text_of (map Kept s) = s" "edits_of t r (map Kept s) = []"
  by (induction s arbitrary: t r) auto

lemma appendRune_eq: "appendRune d r = d @ appendRune [] r"
  by (simp add: appendRune_def)

lemma appendRune_not_Nil: "appendRune [] r \<noteq> []"
  by (auto simp: appendRune_def string_of_bytes_def)

lemma piece_ok_text: "piece_ok p \<Longrightarrow> piece_text p \<noteq> [] \<and> piece_raw p \<noteq> []"
  by (cases p) (auto simp: appendRune_not_Nil unit_escape_def)

lemma decodeEscape_unit:
  assumes "decodeEscape raw i = Some (r, n)" "i < length raw" "raw ! i = backslash"
  shows "unit_escape (substr raw i n) r"
proof -
  let ?us = "takeWhile (\<lambda>c. c = CHR ''u'') (drop (i + 1) raw)"
  let ?k = "i + 1 + length ?us"
  have n: "n = ?k + 4" "?k + 4 \<le> length raw" "?us \<noteq> []" "hex_digits 0 (substr raw ?k (?k + 4)) = Some r"
    using assms(1) unfolding decodeEscape_def skip_while_eq Let_def by (auto split: if_splits)
  have u: "?us = replicate (Suc (length ?us - 1)) (CHR ''u'')"
    using n(3) by (intro replicate_eqI) (auto dest: set_takeWhileD)
  have "substr raw i n = substr raw i (i + 1) @ substr raw (i + 1) ?k @ substr raw ?k (?k + 4)"
    using n(1) by (simp add: substr_append)
  moreover have "substr raw i (i + 1) = [backslash]" using assms(2,3) by (simp add: substr_def take_Suc_conv_app_nth hd_drop_conv_nth take_Suc)
  moreover have "substr raw (i + 1) ?k = ?us" by (simp add: substr_def takeWhile_eq_take [symmetric])
  moreover have "length (substr raw ?k (?k + 4)) = 4" using n(2) by (simp add: substr_def)
  ultimately have "substr raw i n = backslash # replicate (Suc (length ?us - 1)) (CHR ''u'') @ substr raw ?k (?k + 4) \<and>
      length (substr raw ?k (?k + 4)) = 4 \<and> hex_digits 0 (substr raw ?k (?k + 4)) = Some r"
    unfolding u [symmetric] using n(4) by simp
  then show ?thesis unfolding unit_escape_def by blast
qed

lemma escape_piece:
  assumes "decodeEscape raw i = Some e" "i < length raw" "raw ! i = backslash" "pair_escape raw e = (r, n)"
  shows "piece_ok (Escaped (substr raw i n) (appendRune [] r)) \<and> i < n \<and> n \<le> length raw"
proof -
  obtain h m where e: "e = (h, m)" by fastforce
  have d: "decodeEscape raw i = Some (h, m)" using assms(1) e by simp
  note u = decodeEscape_unit [OF d assms(2,3)] and m = decodeEscape_gt [OF d]
  show ?thesis
  proof (cases "0xD800 \<le> h \<and> h \<le> 0xDBFF \<and> m < length raw \<and> raw ! m = backslash \<and>
      (\<exists>l k. decodeEscape raw m = Some (l, k) \<and> 0xDC00 \<le> l \<and> l \<le> 0xDFFF)")
    case True
    then obtain l k where pair: "decodeEscape raw m = Some (l, k)" "0xDC00 \<le> l" "l \<le> 0xDFFF" "m < length raw" "raw ! m = backslash"
      "0xD800 \<le> h" "h \<le> 0xDBFF" by blast
    then have r: "r = pair_rune h l" "n = k" using assms(4) by (simp_all add: e pair_escape_def pair_rune_def)
    note v = decodeEscape_unit [OF pair(1,4,5)] and k = decodeEscape_gt [OF pair(1)]
    have "substr raw i k = substr raw i m @ substr raw m k" using m k by (simp add: substr_append)
    then have "piece_ok (Escaped (substr raw i n) (appendRune [] r))" unfolding piece_ok.simps r using pair u v by blast
    then show ?thesis using m k r by simp
  next
    case False
    then have "r = h" "n = m" using assms(4) by (auto simp: e pair_escape_def split: if_splits option.splits)
    then show ?thesis using u m by auto
  qed
qed

text \<open>The invariant of the translation loop.\<close>

definition diag_at :: "string \<Rightarrow> diagnostic \<Rightarrow> bool" where
  "diag_at s d \<longleftrightarrow> (\<exists>p < length s. s ! p = backslash \<and> dgPos d = word_of_nat (p + 1) \<and> dgEnd d = word_of_nat (p + 2))"

definition translated :: "string \<Rightarrow> nat \<Rightarrow> translation \<Rightarrow> bool" where
  "translated raw i t \<longleftrightarrow> i \<le> length raw \<and> list_all (diag_at (trText t)) (trDiags t) \<and>
     (\<exists>ps. list_all piece_ok ps \<and> raw_of ps = take i raw \<and> text_of ps = trText t \<and> edits_of 0 0 ps = trEdits t)"

lemma diag_at_append: "diag_at s d \<Longrightarrow> diag_at (s @ x) d"
  by (auto simp: diag_at_def nth_append)

lemma diags_append: "list_all (diag_at s) ds \<Longrightarrow> list_all (diag_at (s @ x)) ds"
  by (auto simp: list_all_iff diag_at_append)

lemma take_substr: "i \<le> j \<Longrightarrow> take i s @ substr s i j = take j s"
  by (metis le_add_diff_inverse substr_def take_add)

lemma translated_keep:
  assumes "translated raw i t" "i \<le> j" "j \<le> length raw"
  shows "translated raw j (t\<lparr>trText := trText t @ substr raw i j\<rparr>)"
proof -
  obtain ps where "list_all piece_ok ps" "raw_of ps = take i raw" "text_of ps = trText t" "edits_of 0 0 ps = trEdits t"
    using assms(1) by (auto simp: translated_def)
  then have "list_all piece_ok (ps @ map Kept (substr raw i j)) \<and> raw_of (ps @ map Kept (substr raw i j)) = take j raw \<and>
      text_of (ps @ map Kept (substr raw i j)) = trText t @ substr raw i j \<and> edits_of 0 0 (ps @ map Kept (substr raw i j)) = trEdits t"
    using take_substr [OF assms(2), of raw] kept_of unfolding edits_of_append by (auto simp: list_all_iff)
  then show ?thesis using assms diags_append unfolding translated_def by (simp, blast)
qed

lemma translated_escape:
  assumes "translated raw i t" "piece_ok (Escaped (substr raw i n) y)" "i \<le> n" "n \<le> length raw"
  shows "translated raw n (t\<lparr>trText := trText t @ y,
    trEdits := trEdits t @ [\<lparr>tOff = length (trText t), tLen = length y, rOff = i, rLen = n - i\<rparr>]\<rparr>)"
proof -
  obtain ps where p: "list_all piece_ok ps" "raw_of ps = take i raw" "text_of ps = trText t" "edits_of 0 0 ps = trEdits t"
    using assms(1) by (auto simp: translated_def)
  let ?ps = "ps @ [Escaped (substr raw i n) y]"
  have "length (substr raw i n) = n - i" using assms(4) by (simp add: substr_def)
  then have "edits_of 0 0 ?ps = trEdits t @ [\<lparr>tOff = length (trText t), tLen = length y, rOff = i, rLen = n - i\<rparr>]"
    using p assms(3,4) unfolding edits_of_append by simp
  moreover have "list_all piece_ok ?ps" "raw_of ?ps = take n raw" "text_of ?ps = trText t @ y"
    using p assms(2) take_substr [OF assms(3), of raw] by simp_all
  ultimately show ?thesis using assms diags_append unfolding translated_def by (simp, blast)
qed

lemma translated_diag:
  assumes "translated raw i t" "diag_at (trText t) d"
  shows "translated raw i (t\<lparr>trDiags := trDiags t @ [d]\<rparr>)"
  using assms by (simp add: translated_def)

lemma translate_loop_ok: "translated raw i t \<Longrightarrow> translated raw (length raw) (translate_loop raw i t)"
proof (induction raw i t rule: translate_loop.induct)
  case (1 raw i t)
  let ?j = "skip_while (\<lambda>c. c = backslash) raw i"
  let ?i1 = "?j - 1"
  have j: "i < length raw \<Longrightarrow> raw ! i = backslash \<Longrightarrow> i < ?j" "i \<le> length raw \<Longrightarrow> ?j \<le> length raw"
    "i < length raw \<Longrightarrow> raw ! i = backslash \<Longrightarrow> raw ! ?i1 = backslash"
    using skip_while_gt [of i raw "\<lambda>c. c = backslash"] skip_while_le skip_while_last by auto
  consider (stop) "length raw \<le> i" | (plain) "i < length raw" "raw ! i \<noteq> backslash"
    | (run) "i < length raw" "raw ! i = backslash" "(?j - i) mod 2 = 0 \<or> ?j = length raw \<or> raw ! ?j \<noteq> CHR ''u''"
    | (bad) "i < length raw" "raw ! i = backslash" "\<not> ((?j - i) mod 2 = 0 \<or> ?j = length raw \<or> raw ! ?j \<noteq> CHR ''u'')"
        "decodeEscape raw ?i1 = None"
    | (esc) e r n where "i < length raw" "raw ! i = backslash" "\<not> ((?j - i) mod 2 = 0 \<or> ?j = length raw \<or> raw ! ?j \<noteq> CHR ''u'')"
        "decodeEscape raw ?i1 = Some e" "pair_escape raw e = (r, n)"
    by (metis not_le option.exhaust surj_pair)
  then show ?case
  proof cases
    case stop
    then show ?thesis using "1.prems" by (subst translate_loop.simps) (auto simp: translated_def)
  next
    case plain
    have s: "substr raw i (i + 1) = [raw ! i]" using plain by (simp add: substr_def take_Suc hd_drop_conv_nth)
    have "translated raw (i + 1) (t\<lparr>trText := trText t @ [raw ! i]\<rparr>)"
      using translated_keep [OF "1.prems", of "i + 1"] plain unfolding s by simp
    then show ?thesis using "1.IH"(1) plain by (subst translate_loop.simps) simp
  next
    case run
    then have "translated raw ?j (t\<lparr>trText := trText t @ substr raw i ?j\<rparr>)"
      using translated_keep [OF "1.prems", of ?j] j by simp
    then show ?thesis using "1.IH"(2) [OF _ _ refl] run by (subst translate_loop.simps) (simp add: Let_def)
  next
    case bad
    have b: "?i1 + 1 = ?j" "i \<le> ?i1" "?j \<le> length raw" using j bad(1,2) by auto
    let ?text = "trText t @ substr raw i ?i1"
    let ?d = "\<lparr>dgPos = word_of_nat (length ?text + 1), dgEnd = word_of_nat (length ?text + 2), dgSeverity = SevError,
      dgMsg = ''invalid Unicode escape''\<rparr>"
    have s: "substr raw ?i1 (?i1 + 1) = [backslash]" using j(3) bad b by (simp add: substr_def take_Suc hd_drop_conv_nth)
    have "translated raw ?i1 (t\<lparr>trText := ?text\<rparr>)" using translated_keep [OF "1.prems" b(2)] b by simp
    from translated_keep [OF this, of "?i1 + 1"] have "translated raw (?i1 + 1) (t\<lparr>trText := ?text @ [backslash]\<rparr>)"
      using b unfolding s by simp
    moreover have "diag_at (?text @ [backslash]) ?d" unfolding diag_at_def by (intro exI [of _ "length ?text"]) simp
    ultimately have "translated raw (?i1 + 1) (t\<lparr>trText := ?text @ [backslash], trDiags := trDiags t @ [?d]\<rparr>)"
      using translated_diag by fastforce
    moreover have "translate_loop raw i t = translate_loop raw (?i1 + 1) (t\<lparr>trText := ?text @ [backslash], trDiags := trDiags t @ [?d]\<rparr>)"
      using bad by (subst translate_loop.simps) (simp add: Let_def)
    ultimately show ?thesis using "1.IH"(3) [OF _ _ refl bad(3) refl refl bad(4)] bad(1,2) by simp
  next
    case esc
    have b: "i \<le> ?i1" "?i1 < length raw" "raw ! ?i1 = backslash" using j esc(1,2) by auto
    let ?text = "trText t @ substr raw i ?i1" and ?y = "appendRune [] r"
    note p = escape_piece [OF esc(4) b(2,3) esc(5)]
    have y: "appendRune ?text r = ?text @ ?y" by (rule appendRune_eq)
    have "translated raw ?i1 (t\<lparr>trText := ?text\<rparr>)" using translated_keep [OF "1.prems" b(1)] b by simp
    from translated_escape [OF this conjunct1 [OF p]]
    have "translated raw n (t\<lparr>trText := ?text @ ?y, trEdits := trEdits t @ [\<lparr>tOff = length ?text, tLen = length ?y, rOff = ?i1, rLen = n - ?i1\<rparr>]\<rparr>)"
      using p by simp
    moreover have "translate_loop raw i t = translate_loop raw n (t\<lparr>trText := ?text @ ?y,
        trEdits := trEdits t @ [\<lparr>tOff = length ?text, tLen = length ?y, rOff = ?i1, rLen = n - ?i1\<rparr>]\<rparr>)"
      using esc y by (subst translate_loop.simps) (simp add: Let_def)
    ultimately show ?thesis using "1.IH"(4) [OF _ _ refl esc(3) refl refl esc(4) esc(5) [symmetric] refl] esc(1,2) y by simp
  qed
qed

lemma translate_ok: "translated raw (length raw) (translate raw)"
proof (cases "backslash \<in> set raw")
  case True
  have "translated raw 0 \<lparr>trText = [], trEdits = [], trDiags = []\<rparr>"
    unfolding translated_def by (simp add: exI [of _ "[]"])
  then show ?thesis using True translate_loop_ok by (simp add: translate_def)
next
  case False
  have "list_all piece_ok (map Kept raw)" by (simp add: list_all_iff)
  then show ?thesis using False kept_of unfolding translated_def translate_def
    by (intro conjI exI [of _ "map Kept raw"]) simp_all
qed

section \<open>Offsets of pieces\<close>

text \<open>The raw start of the piece that holds text offset \<open>t\<close>, and the raw end of the last piece that starts before it.\<close>

fun start_of :: "piece list \<Rightarrow> nat \<Rightarrow> nat" where
  "start_of [] t = t"
| "start_of (p # ps) t = (if t < length (piece_text p) then 0 else length (piece_raw p) + start_of ps (t - length (piece_text p)))"

fun end_of :: "piece list \<Rightarrow> nat \<Rightarrow> nat" where
  "end_of [] t = t"
| "end_of (p # ps) t =
     (if t = 0 then 0 else if t \<le> length (piece_text p) then length (piece_raw p)
      else length (piece_raw p) + end_of ps (t - length (piece_text p)))"

definition start_after :: "nat \<Rightarrow> edit \<Rightarrow> nat" where
  "start_after t e = (if t < tOff e + tLen e then rOff e else rOff e + rLen e + (t - (tOff e + tLen e)))"

definition end_after :: "nat \<Rightarrow> edit \<Rightarrow> nat" where
  "end_after t e = (if t < tOff e + tLen e then rOff e + rLen e else rOff e + rLen e + (t - (tOff e + tLen e)))"

text \<open>What an offset maps to through the last edit before it; \<open>d\<close> is the answer where there is none.\<close>

definition last_edit :: "(edit \<Rightarrow> bool) \<Rightarrow> (edit \<Rightarrow> nat) \<Rightarrow> nat \<Rightarrow> edit list \<Rightarrow> nat" where
  "last_edit p v d es = (if takeWhile p es = [] then d else v (last (takeWhile p es)))"

lemma last_edit_simps:
  "p e \<Longrightarrow> last_edit p v d (e # es) = last_edit p v (v e) es" "\<not> p e \<Longrightarrow> last_edit p v d (e # es) = d" "last_edit p v d [] = d"
  by (simp_all add: last_edit_def)

lemma edits_of_ge: "e \<in> set (edits_of t r ps) \<Longrightarrow> t \<le> tOff e"
  by (induction t r ps rule: edits_of.induct) auto

lemma edits_none:
  "t < t1 \<Longrightarrow> last_edit (\<lambda>e. tOff e \<le> t) v d (edits_of t1 r ps) = d"
  "t \<le> t1 \<Longrightarrow> last_edit (\<lambda>e. tOff e < t) v d (edits_of t1 r ps) = d"
  using edits_of_ge [of _ t1 r ps] by (cases "edits_of t1 r ps"; fastforce simp: last_edit_simps)+

lemma edit_start_of:
  "t0 \<le> t \<Longrightarrow> last_edit (\<lambda>e. tOff e \<le> t) (start_after t) (r0 + (t - t0)) (edits_of t0 r0 ps) = r0 + start_of ps (t - t0)"
proof (induction t0 r0 ps rule: edits_of.induct)
  case (2 t0 r0 c ps)
  show ?case
  proof (cases "t = t0")
    case True
    then show ?thesis using edits_none(1) [of t "t0 + 1"] by simp
  next
    case False
    then have "r0 + (t - t0) = r0 + 1 + (t - (t0 + 1))" "t0 + 1 \<le> t" using 2(2) by simp_all
    then show ?thesis using 2(1) by simp
  qed
next
  case (3 t0 r0 x y ps)
  show ?case
  proof (cases "t < t0 + length y")
    case True
    then show ?thesis using 3(2) edits_none(1) [of t "t0 + length y"] by (auto simp: last_edit_simps start_after_def)
  next
    case False
    then show ?thesis using 3 by (auto simp: last_edit_simps start_after_def)
  qed
qed (simp add: last_edit_simps)

lemma edit_end_of:
  "t0 \<le> t \<Longrightarrow> last_edit (\<lambda>e. tOff e < t) (end_after t) (r0 + (t - t0)) (edits_of t0 r0 ps) = r0 + end_of ps (t - t0)"
proof (induction t0 r0 ps rule: edits_of.induct)
  case (2 t0 r0 c ps)
  show ?case
  proof (cases "t \<le> t0 + 1")
    case True
    then show ?thesis using 2(2) edits_none(2) [of t "t0 + 1"] by auto
  next
    case False
    then have "r0 + (t - t0) = r0 + 1 + (t - (t0 + 1))" "t0 + 1 \<le> t" using 2(2) by simp_all
    then show ?thesis using False 2(1) by auto
  qed
next
  case (3 t0 r0 x y ps)
  consider "t = t0" | "t0 < t" "t \<le> t0 + length y" | "t0 + length y < t" using 3(2) by linarith
  then show ?case
  proof cases
    case 1
    then show ?thesis by (simp add: last_edit_simps)
  next
    case 2
    then show ?thesis using edits_none(2) [of t "t0 + length y"] by (auto simp: last_edit_simps end_after_def)
  next
    case q: 3
    then show ?thesis using 3 by (auto simp: last_edit_simps end_after_def)
  qed
qed (simp add: last_edit_simps)

lemma edits_sorted: "sorted_wrt (\<lambda>d e. tOff d \<le> tOff e) (edits_of t r ps)"
proof (induction t r ps rule: edits_of.induct)
  case (3 t r x y ps)
  then show ?case using edits_of_ge [of _ "t + length y"] by fastforce
qed simp_all

text \<open>The two searches look the last edit up.\<close>

lemma search_edit:
  assumes "sorted_wrt (\<lambda>x y. p y \<longrightarrow> p x) es"
  defines "i \<equiv> int (sort_Search (length es) (\<lambda>k. \<not> p (es ! k))) - 1"
  shows "(if es = [] then d else if i < 0 then d else v (es ! nat i)) = last_edit p v d es"
proof (cases "takeWhile p es")
  case Nil
  then show ?thesis using sort_Search_takeWhile [OF assms(1)] by (simp add: i_def last_edit_def)
next
  case (Cons a xs)
  have "takeWhile p es ! (length (takeWhile p es) - 1) = es ! (length (takeWhile p es) - 1)"
    using Cons by (intro takeWhile_nth) simp
  then have "es ! (length (takeWhile p es) - 1) = last (takeWhile p es)" using Cons by (metis last_conv_nth list.distinct(1))
  moreover have "nat i = length (takeWhile p es) - 1" "\<not> i < 0"
    using Cons sort_Search_takeWhile [OF assms(1)] by (simp_all add: i_def)
  ultimately show ?thesis using Cons by (auto simp: last_edit_def)
qed

lemma rawStart_pieces:
  assumes "flEdits f = edits_of 0 0 ps"
  shows "rawStart f (int t) = int (start_of ps t)"
proof -
  have "sorted_wrt (\<lambda>x y. tOff y \<le> t \<longrightarrow> tOff x \<le> t) (flEdits f)"
    unfolding assms by (rule sorted_wrt_mono_rel [OF _ edits_sorted]) simp
  from search_edit [OF this, of t "start_after t"]
  have "rawStart f (int t) = int (last_edit (\<lambda>e. tOff e \<le> t) (start_after t) t (flEdits f))"
    unfolding rawStart_def Let_def by (subst (asm) eq_commute) (simp add: not_le start_after_def of_nat_diff if_distrib [of int] cong: if_cong)
  then show ?thesis using edit_start_of [of 0 t 0 ps] assms by simp
qed

lemma rawEnd_pieces:
  assumes "flEdits f = edits_of 0 0 ps"
  shows "rawEnd f (int t) = int (end_of ps t)"
proof -
  have "sorted_wrt (\<lambda>x y. tOff y < t \<longrightarrow> tOff x < t) (flEdits f)"
    unfolding assms by (rule sorted_wrt_mono_rel [OF _ edits_sorted]) simp
  from search_edit [OF this, of t "end_after t"]
  have "rawEnd f (int t) = int (last_edit (\<lambda>e. tOff e < t) (end_after t) t (flEdits f))"
    unfolding rawEnd_def Let_def by (subst (asm) eq_commute) (simp add: not_less end_after_def of_nat_diff if_distrib [of int] cong: if_cong)
  then show ?thesis using edit_end_of [of 0 t 0 ps] assms by simp
qed

section \<open>Spans\<close>

lemma start_of_append:
  "length (text_of ps) \<le> t \<Longrightarrow> start_of (ps @ qs) t = length (raw_of ps) + start_of qs (t - length (text_of ps))"
  by (induction ps arbitrary: t) auto

lemma end_of_append:
  "length (text_of ps) < t \<Longrightarrow> end_of (ps @ qs) t = length (raw_of ps) + end_of qs (t - length (text_of ps))"
  by (induction ps arbitrary: t) auto

lemma start_split:
  assumes "t < length (text_of ps)"
  shows "\<exists>qs p rs. ps = qs @ p # rs \<and> length (text_of qs) \<le> t \<and> t < length (text_of (qs @ [p])) \<and> start_of ps t = length (raw_of qs)"
  using assms
proof (induction ps arbitrary: t)
  case (Cons p ps)
  show ?case
  proof (cases "t < length (piece_text p)")
    case True
    then show ?thesis by (intro exI [of _ "[]"] exI [of _ p] exI [of _ ps]) simp
  next
    case False
    then have "t - length (piece_text p) < length (text_of ps)" using Cons.prems by simp
    then obtain qs q rs where "ps = qs @ q # rs" "length (text_of qs) \<le> t - length (piece_text p)"
      "t - length (piece_text p) < length (text_of (qs @ [q]))" "start_of ps (t - length (piece_text p)) = length (raw_of qs)"
      using Cons.IH by blast
    then show ?thesis using False by (intro exI [of _ "p # qs"] exI [of _ q] exI [of _ rs]) auto
  qed
qed simp

lemma end_split:
  assumes "0 < t" "t \<le> length (text_of ps)"
  shows "\<exists>qs p rs. ps = qs @ p # rs \<and> length (text_of qs) < t \<and> t \<le> length (text_of (qs @ [p])) \<and> end_of ps t = length (raw_of (qs @ [p]))"
  using assms
proof (induction ps arbitrary: t)
  case (Cons p ps)
  show ?case
  proof (cases "t \<le> length (piece_text p)")
    case True
    then show ?thesis using Cons.prems by (intro exI [of _ "[]"] exI [of _ p] exI [of _ ps]) simp
  next
    case False
    then have "0 < t - length (piece_text p)" "t - length (piece_text p) \<le> length (text_of ps)" using Cons.prems by simp_all
    then obtain qs q rs where "ps = qs @ q # rs" "length (text_of qs) < t - length (piece_text p)"
      "t - length (piece_text p) \<le> length (text_of (qs @ [q]))" "end_of ps (t - length (piece_text p)) = length (raw_of (qs @ [q]))"
      using Cons.IH by blast
    then show ?thesis using False by (intro exI [of _ "p # qs"] exI [of _ q] exI [of _ rs]) auto
  qed
qed simp

text \<open>The pieces a span of the text touches.\<close>

definition touched :: "piece list \<Rightarrow> nat \<Rightarrow> nat \<Rightarrow> piece list \<Rightarrow> piece list \<Rightarrow> piece list \<Rightarrow> bool" where
  "touched ps a b before ins after \<longleftrightarrow> ps = before @ ins @ after \<and> ins \<noteq> [] \<and>
     length (text_of before) \<le> a \<and> a < length (text_of (before @ [hd ins])) \<and>
     length (text_of (before @ butlast ins)) < b \<and> b \<le> length (text_of (before @ ins))"

lemma span_pieces:
  assumes "a < b" "b \<le> length (text_of ps)"
  shows "\<exists>before ins after. touched ps a b before ins after \<and> start_of ps a = length (raw_of before) \<and>
    end_of ps b = length (raw_of (before @ ins))"
proof -
  have "a < length (text_of ps)" using assms by simp
  then obtain qs p rs where q: "ps = qs @ p # rs" "length (text_of qs) \<le> a" "a < length (text_of (qs @ [p]))" "start_of ps a = length (raw_of qs)"
    using start_split by blast
  have b: "0 < b - length (text_of qs)" "b - length (text_of qs) \<le> length (text_of (p # rs))" using assms q(1,2) by simp_all
  from end_split [OF b] obtain us u vs where u: "p # rs = us @ u # vs" "length (text_of us) < b - length (text_of qs)"
    "b - length (text_of qs) \<le> length (text_of (us @ [u]))" "end_of (p # rs) (b - length (text_of qs)) = length (raw_of (us @ [u]))"
    by blast
  have "end_of ps b = length (raw_of (qs @ us @ [u]))" using end_of_append [of qs b "p # rs"] u(4) q(1,2) assms(1) by simp
  moreover have "hd (us @ [u]) = p" using u(1) by (cases us) auto
  ultimately show ?thesis using q u unfolding touched_def
    by (intro exI [of _ qs] exI [of _ "us @ [u]"] exI [of _ vs]) auto
qed

section \<open>Line starts\<close>

text \<open>A line starts after a line feed, and after a carriage return that no line feed follows.\<close>

definition starts_line :: "string \<Rightarrow> nat \<Rightarrow> bool" where
  "starts_line s n \<longleftrightarrow> 0 < n \<and> n \<le> length s \<and> (s ! (n - 1) = LF \<or> s ! (n - 1) = CR \<and> \<not> (n < length s \<and> s ! n = LF))"

lemma starts_line_Cons:
  "starts_line (c # s) n \<longleftrightarrow> n = 1 \<and> (c = LF \<or> c = CR \<and> (s = [] \<or> hd s \<noteq> LF)) \<or> 1 < n \<and> starts_line s (n - 1)"
  by (cases n; cases s) (auto simp: starts_line_def nth_Cons split: nat.splits)

lemma line_starts_Cons:
  "c = LF \<or> c = CR \<and> (cs = [] \<or> hd cs \<noteq> LF) \<Longrightarrow> line_starts i (c # cs) = (i + 1) # line_starts (i + 1) cs"
  "line_starts i (CR # LF # cs) = (i + 2) # line_starts (i + 2) cs"
  "c \<noteq> LF \<Longrightarrow> c \<noteq> CR \<Longrightarrow> line_starts i (c # cs) = line_starts (i + 1) cs"
  by (cases cs; auto)+

lemma line_cases:
  obtains "s = []" | c cs where "s = c # cs" "c = LF \<or> c = CR \<and> (cs = [] \<or> hd cs \<noteq> LF)" | cs where "s = CR # LF # cs"
    | c cs where "s = c # cs" "c \<noteq> LF" "c \<noteq> CR"
  by (cases s) (auto, metis list.collapse)

declare line_starts.simps(2) [simp del]

lemma line_starts_iff: "n \<in> set (line_starts i s) \<longleftrightarrow> i < n \<and> starts_line s (n - i)"
proof (induction s arbitrary: i rule: length_induct)
  case (1 s)
  consider "s = []" | c cs where "s = c # cs" "c = LF \<or> c = CR \<and> (cs = [] \<or> hd cs \<noteq> LF)" | cs where "s = CR # LF # cs"
    | c cs where "s = c # cs" "c \<noteq> LF" "c \<noteq> CR" by (rule line_cases)
  then show ?case
  proof cases
    case 1
    then show ?thesis by (simp add: starts_line_def)
  next
    case (2 c cs)
    then show ?thesis using 1 by (auto simp: line_starts_Cons(1) starts_line_Cons)
  next
    case (3 cs)
    have h: "n \<in> set (line_starts (i + 2) cs) \<longleftrightarrow> i + 2 < n \<and> starts_line cs (n - (i + 2))" using 1 3 by simp
    show ?thesis unfolding 3 line_starts_Cons(2) list.set insert_iff h by (auto simp: starts_line_Cons)
  next
    case (4 c cs)
    then show ?thesis using 1 by (auto simp: line_starts_Cons(3) starts_line_Cons)
  qed
qed

lemma line_starts_sorted: "sorted_wrt (<) (line_starts i s)"
proof (induction s arbitrary: i rule: length_induct)
  case (1 s)
  have lb: "n \<in> set (line_starts i s) \<Longrightarrow> i < n" for n i s by (simp add: line_starts_iff)
  show ?case
  proof (cases s rule: line_cases)
    case (2 c cs)
    then show ?thesis using 1 by (simp add: line_starts_Cons(1) lb)
  next
    case (3 cs)
    then show ?thesis using 1 lb [of _ "i + 2"] by (simp add: line_starts_Cons(2))
  next
    case (4 c cs)
    then show ?thesis using 1 by (simp add: line_starts_Cons(3))
  qed simp
qed

lemma buildLines_iff: "n \<in> set (buildLines s) \<longleftrightarrow> n = 0 \<or> starts_line s n"
  by (auto simp: buildLines_def line_starts_iff starts_line_def)

lemma buildLines_sorted: "sorted_wrt (<) (buildLines s)"
  using line_starts_sorted [of 0 s] line_starts_iff [of _ 0 s] by (auto simp: buildLines_def)

lemma takeWhile_sorted_filter: "sorted_wrt (<) xs \<Longrightarrow> takeWhile (\<lambda>n. n \<le> b) xs = filter (\<lambda>n. n \<le> b) (xs :: nat list)"
  by (induction xs) (auto simp: eq_commute [of "[]"] filter_empty_conv)

lemma sorted_last_ge: "sorted xs \<Longrightarrow> n \<in> set xs \<Longrightarrow> n \<le> last (xs :: nat list)"
  by (induction xs) auto

lemma fl_Offset_Pos: "a + 1 < 2 ^ 32 \<Longrightarrow> fl_Offset (fl_Pos a) = int a \<and> pos_IsValid (fl_Pos a)"
proof -
  assume "a + 1 < 2 ^ 32"
  then have u: "unat (fl_Pos a) = a + 1" by (simp add: fl_Pos_def unsigned_of_nat take_bit_nat_eq_self del: of_nat_Suc of_nat_add)
  then have "fl_Pos a \<noteq> 0" by auto
  then show ?thesis using u by (simp add: fl_Offset_def pos_IsValid_def uint_nat)
qed

lemma NewFile_pieces:
  obtains ps where "list_all piece_ok ps" "raw_of ps = src" "flEdits (NewFile name src) = edits_of 0 0 ps"
    "text_of ps = flText (NewFile name src) \<or> text_of ps = flText (NewFile name src) @ [CHR 0x1A]"
proof -
  have "translated src (length src) (translate src)" by (rule translate_ok)
  then obtain ps where "list_all piece_ok ps" "raw_of ps = src" "text_of ps = trText (translate src)"
    "edits_of 0 0 ps = trEdits (translate src)" by (auto simp: translated_def)
  moreover from this have "text_of ps = flText (NewFile name src) \<or> text_of ps = flText (NewFile name src) @ [CHR 0x1A]"
    by (cases "trText (translate src)" rule: rev_cases) (auto simp: NewFile_def Let_def)
  ultimately show ?thesis using that [of ps] by (simp add: NewFile_def Let_def)
qed

section \<open>Properties\<close>

text \<open>C6: Every span of the translated text resolves to the bytes the user typed. A file is a sequence of pieces, each a byte
  kept as it is or a Unicode escape (or an adjacent pair of surrogate escapes) with the encoding of its code
  point; the raw bytes of the pieces are the source, their texts the translated text (up to a trailing SUB).
  \<open>Raw\<close> of a non-empty span is exactly the source of the pieces the span touches: whole escapes, nothing
  besides.\<close>

theorem raw_spans:
  assumes "a < b" "b \<le> fl_Size (NewFile name src)" "fl_Size (NewFile name src) + 1 < 2 ^ 32"
  shows "\<exists>ps before ins after. list_all piece_ok ps \<and> raw_of ps = src \<and>
    (text_of ps = flText (NewFile name src) \<or> text_of ps = flText (NewFile name src) @ [CHR 0x1A]) \<and>
    touched ps a b before ins after \<and> fl_Raw (NewFile name src) (fl_Pos a) (fl_Pos b) = Some (raw_of ins)"
proof -
  let ?f = "NewFile name src"
  obtain ps where p: "list_all piece_ok ps" "raw_of ps = src" "flEdits ?f = edits_of 0 0 ps"
    "text_of ps = flText ?f \<or> text_of ps = flText ?f @ [CHR 0x1A]" by (rule NewFile_pieces)
  have "b \<le> length (text_of ps)" using p(4) assms(2) by (auto simp: fl_Size_def)
  from span_pieces [OF assms(1) this] obtain before ins after where t: "touched ps a b before ins after"
    "start_of ps a = length (raw_of before)" "end_of ps b = length (raw_of (before @ ins))" by blast
  have o: "fl_Offset (fl_Pos a) = int a" "fl_Offset (fl_Pos b) = int b" using assms fl_Offset_Pos by simp_all
  have s: "RawSpan ?f (fl_Pos a) (fl_Pos b) = (int (length (raw_of before)), int (length (raw_of (before @ ins))))"
    unfolding RawSpan_def Let_def o rawStart_pieces [OF p(3)] rawEnd_pieces [OF p(3)] t(2,3) by simp
  have r: "flRaw ?f = raw_of before @ raw_of ins @ raw_of after" using p(2) t(1) by (auto simp: touched_def NewFile_def Let_def)
  have "fl_Raw ?f (fl_Pos a) (fl_Pos b) = Some (raw_of ins)" unfolding fl_Raw_def s prod.case slice_int_def r by (simp add: substr_def)
  then show ?thesis using p t(1) by blast
qed

theorem raw_spans_witness:
  "\<exists>ps before ins after. list_all piece_ok ps \<and> raw_of ps = ''ab'' \<and>
    (text_of ps = flText (NewFile [] ''ab'') \<or> text_of ps = flText (NewFile [] ''ab'') @ [CHR 0x1A]) \<and>
    touched ps 0 1 before ins after \<and> fl_Raw (NewFile [] ''ab'') (fl_Pos 0) (fl_Pos 1) = Some (raw_of ins)"
  by (rule raw_spans) (simp_all add: NewFile_def translate_def fl_Size_def Let_def)

text \<open>C7: \<open>Position\<close> is exact: for an offset of the text, the line is one more than the number of line terminators before the
  raw byte (a carriage return followed by a line feed counts once), and the column counts from the start of
  that line: no terminator ends between the two.\<close>

theorem position_exact:
  assumes "t + 1 < 2 ^ 32"
  shows "\<exists>off start. rawStart (NewFile name src) (int t) = int off \<and>
    fl_Position (NewFile name src) (fl_Pos t) = \<lparr>psFilename = name, psOffset = int off,
      psLine = 1 + int (card {n. starts_line src n \<and> n \<le> off}), psColumn = int off - int start + 1\<rparr> \<and>
    (start = 0 \<or> starts_line src start) \<and> start \<le> off \<and> (\<forall>n. start < n \<and> n \<le> off \<longrightarrow> \<not> starts_line src n)"
proof -
  let ?f = "NewFile name src" and ?L = "buildLines src"
  obtain ps where p: "flEdits ?f = edits_of 0 0 ps" by (rule NewFile_pieces)
  define off where "off = start_of ps t"
  have r: "rawStart ?f (int t) = int off" unfolding off_def by (rule rawStart_pieces [OF p])
  let ?tw = "takeWhile (\<lambda>n. n \<le> off) ?L"
  have "sorted_wrt (\<lambda>x y. y \<le> off \<longrightarrow> x \<le> off) ?L" by (rule sorted_wrt_mono_rel [OF _ buildLines_sorted]) simp
  from sort_Search_takeWhile [OF this]
  have s: "sort_Search (length ?L) (\<lambda>k. int (?L ! k) > int off) = length ?tw" by (simp add: not_le)
  have ne: "?tw \<noteq> []" by (simp add: buildLines_def)
  have f: "?tw = filter (\<lambda>n. n \<le> off) ?L" by (rule takeWhile_sorted_filter [OF buildLines_sorted])
  have d: "distinct ?tw" using buildLines_sorted [of src] unfolding f by (simp add: strict_sorted_iff)
  have "set ?tw = insert 0 {n. starts_line src n \<and> n \<le> off}" unfolding f by (auto simp: buildLines_iff)
  moreover have "0 \<notin> {n. starts_line src n \<and> n \<le> off}" "finite {n. starts_line src n \<and> n \<le> off}" by (auto simp: starts_line_def)
  ultimately have c: "length ?tw = 1 + card {n. starts_line src n \<and> n \<le> off}" using distinct_card [OF d] by simp
  define start where "start = last ?tw"
  have l: "?L ! (length ?tw - 1) = start" unfolding start_def using ne
    by (metis diff_less last_conv_nth length_greater_0_conv less_numeral_extra(1) takeWhile_nth)
  have "start \<in> set ?tw" using ne by (simp add: start_def)
  then have st: "start = 0 \<or> starts_line src start" "start \<le> off" unfolding f by (auto simp: buildLines_iff)
  have "\<not> starts_line src n" if "start < n" "n \<le> off" for n
  proof
    assume "starts_line src n"
    then have n: "n \<in> set ?tw" using that unfolding f by (simp add: buildLines_iff)
    have "sorted ?tw" using buildLines_sorted [of src] unfolding f by (simp add: strict_sorted_iff sorted_filter [of id, simplified])
    then have "n \<le> last ?tw" using n sorted_last_ge by blast
    then show False using that by (simp add: start_def)
  qed
  moreover have "fl_Position ?f (fl_Pos t) = \<lparr>psFilename = name, psOffset = int off,
      psLine = 1 + int (card {n. starts_line src n \<and> n \<le> off}), psColumn = int off - int start + 1\<rparr>"
  proof -
    have "flLines ?f = ?L" "flName ?f = name" by (simp_all add: NewFile_def Let_def)
    moreover have "nat (int (length ?tw) - 1) = length ?tw - 1" "\<not> int (length ?tw) - 1 < 0" using c by simp_all
    ultimately show ?thesis using fl_Offset_Pos [OF assms] unfolding fl_Position_def Let_def
      by (simp only: r s l if_False simp_thms) (simp add: c)
  qed
  ultimately show ?thesis using r st by blast
qed

theorem position_exact_witness:
  "\<exists>off start. rawStart (NewFile [] ''ab'') (int 1) = int off \<and>
    fl_Position (NewFile [] ''ab'') (fl_Pos 1) = \<lparr>psFilename = [], psOffset = int off,
      psLine = 1 + int (card {n. starts_line ''ab'' n \<and> n \<le> off}), psColumn = int off - int start + 1\<rparr> \<and>
    (start = 0 \<or> starts_line ''ab'' start) \<and> start \<le> off \<and> (\<forall>n. start < n \<and> n \<le> off \<longrightarrow> \<not> starts_line ''ab'' n)"
  by (rule position_exact) simp

end
