(* ===== verification/Scanner.thy ===== *)
theory Scanner
  imports SourceFile
begin

unbundle bit_operations_syntax

text \<open>
  Package \<^verbatim>\<open>scanner\<close>: from the translated text of a file to its tokens (\<^verbatim>\<open>src/scanner/scanner.go\<close>,
  \<^verbatim>\<open>src/scanner/ident.go\<close>, \<^verbatim>\<open>src/scanner/number.go\<close>, \<^verbatim>\<open>src/scanner/text.go\<close>, \<^verbatim>\<open>src/scanner/frame.go\<close>). The
  scanner's state is a record; every method is a function on it, and every loop is a recursive function whose
  termination proof is that the offset grows. The Unicode categories that identifiers rest on are tables of
  Go's \<^verbatim>\<open>unicode\<close> package; they are a parameter. Indexing is written \<open>src ! i\<close> where the code has just checked
  \<open>i < len(src)\<close>.
\<close>

section \<open>State\<close>

text \<open>The categories of \<^verbatim>\<open>unicode\<close>: \<open>IsLetter\<close> and the tables \<open>Nl\<close>, \<open>Sc\<close>, \<open>Pc\<close>, \<open>Nd\<close>, \<open>Mn\<close>, \<open>Mc\<close>, \<open>Cf\<close>.\<close>

record unicode =
  ucLetter :: "rune \<Rightarrow> bool"
  ucNl :: "rune \<Rightarrow> bool"
  ucSc :: "rune \<Rightarrow> bool"
  ucPc :: "rune \<Rightarrow> bool"
  ucNd :: "rune \<Rightarrow> bool"
  ucMn :: "rune \<Rightarrow> bool"
  ucMc :: "rune \<Rightarrow> bool"
  ucCf :: "rune \<Rightarrow> bool"

type_synonym smode = u64

abbreviation (input) ScanComments :: smode where "ScanComments \<equiv> 1"

record frame =
  frKind :: tkind
  frPos :: nat

text \<open>\<open>scOpen\<close> and \<open>scReported\<close> are the \<open>frameStack\<close>.\<close>

record scanner =
  scSrc :: string
  scMode :: smode
  scOff :: nat
  scToks :: "token list"
  scDiags :: "diagnostic list"
  scOpen :: "frame list"
  scReported :: bool
  scGap :: bool
  scNl :: bool

definition set_off :: "nat \<Rightarrow> scanner \<Rightarrow> scanner" where
  "set_off i s = s\<lparr>scOff := i\<rparr>"

text \<open>\<open>s.off += n\<close>.\<close>

definition adv :: "nat \<Rightarrow> scanner \<Rightarrow> scanner" where
  "adv n s = s\<lparr>scOff := scOff s + n\<rparr>"

definition s_at :: "nat \<Rightarrow> scanner \<Rightarrow> char" where
  "s_at i s = (if i < length (scSrc s) then scSrc s ! i else CHR 0x00)"

definition s_has :: "string \<Rightarrow> scanner \<Rightarrow> bool" where
  "s_has lit s \<longleftrightarrow> scOff s + length lit \<le> length (scSrc s) \<and> substr (scSrc s) (scOff s) (scOff s + length lit) = lit"

definition s_rune :: "string \<Rightarrow> nat \<Rightarrow> rune \<times> nat" where
  "s_rune src i =
     (if (of_char (src ! i) :: int) < 0x80 then (of_char (src ! i), 1) else decode_rune (bytes_of_string (drop i src)))"

definition s_error :: "nat \<Rightarrow> nat \<Rightarrow> string \<Rightarrow> scanner \<Rightarrow> scanner" where
  "s_error pos end0 msg s =
     (let end1 = (if end0 \<le> pos then pos + 1 else end0);
          end2 = (if end1 > length (scSrc s) then length (scSrc s) else end1) in
      s\<lparr>scDiags := scDiags s @ [\<lparr>dgPos = fl_Pos pos, dgEnd = fl_Pos end2, dgSeverity = SevError, dgMsg = msg\<rparr>]\<rparr>)"

definition token_flags :: "scanner \<Rightarrow> tflags" where
  "token_flags s =
     (if \<not> scGap s \<and> scToks s \<noteq> [] then FlagAdjacent else 0) OR (if scNl s then FlagNLBefore else 0)"

definition emit :: "tkind \<Rightarrow> tctx \<Rightarrow> nat \<Rightarrow> nat \<Rightarrow> scanner \<Rightarrow> scanner" where
  "emit k c pos end' s =
     s\<lparr>scToks := scToks s @ [\<lparr>tokKind = k, tokCtx = c, tokFlags = token_flags s, tokPos = fl_Pos pos, tokEnd = fl_Pos end'\<rparr>],
       scGap := False, scNl := False\<rparr>"

definition illegalRune :: "nat \<Rightarrow> scanner \<Rightarrow> scanner" where
  "illegalRune pos s =
     (let w0 = snd (decode_rune (bytes_of_string (drop pos (scSrc s))));
          w = (if w0 = 0 then 1 else w0);
          s1 = set_off (pos + w) s in
      emit ILLEGAL CtxNone pos (scOff s1) (s_error pos (scOff s1) ''illegal character in input'' s1))"

section \<open>Bracket frames\<close>

definition closerOf :: "tkind \<Rightarrow> tkind" where
  "closerOf k = (if k = LPAREN then RPAREN else if k = LBRACK then RBRACK else if k = LBRACE then RBRACE else ILLEGAL)"

definition track :: "tkind \<Rightarrow> nat \<Rightarrow> nat \<Rightarrow> scanner \<Rightarrow> scanner" where
  "track k pos end' s =
     (if k \<in> {LPAREN, LBRACK, LBRACE} then s\<lparr>scOpen := scOpen s @ [\<lparr>frKind = k, frPos = pos\<rparr>]\<rparr>
      else if k \<notin> {RPAREN, RBRACK, RBRACE} then s
      else if scOpen s = [] then
        (if \<not> scReported s then s_error pos end' (''unmatched '' @ kind_String k) (s\<lparr>scReported := True\<rparr>) else s)
      else
        let top = last (scOpen s) in
        if closerOf (frKind top) = k then s\<lparr>scOpen := butlast (scOpen s)\<rparr>
        else
          let s1 = (if \<not> scReported s then
              s_error (frPos top) (frPos top + 1) (''unclosed '' @ kind_String (frKind top) @ '', closed by '' @ kind_String k)
                (s\<lparr>scReported := True\<rparr>)
            else s) in
          s1\<lparr>scOpen := butlast (scOpen s1)\<rparr>)"

definition finish :: "scanner \<Rightarrow> scanner" where
  "finish s =
     (if scOpen s = [] \<or> scReported s then s
      else
        let top = last (scOpen s) in
        s_error (frPos top) (frPos top + 1) (''unclosed '' @ kind_String (frKind top) @ '' at end of file'') (s\<lparr>scReported := True\<rparr>))"

section \<open>Characters\<close>

definition isDecDigit :: "char \<Rightarrow> bool" where "isDecDigit c \<longleftrightarrow> CHR ''0'' \<le> c \<and> c \<le> CHR ''9''"

definition isOctDigit :: "char \<Rightarrow> bool" where "isOctDigit c \<longleftrightarrow> CHR ''0'' \<le> c \<and> c \<le> CHR ''7''"

definition isBinDigit :: "char \<Rightarrow> bool" where "isBinDigit c \<longleftrightarrow> c = CHR ''0'' \<or> c = CHR ''1''"

definition isHexDigit :: "char \<Rightarrow> bool" where
  "isHexDigit c \<longleftrightarrow> isDecDigit c \<or> CHR ''a'' \<le> c \<and> c \<le> CHR ''f'' \<or> CHR ''A'' \<le> c \<and> c \<le> CHR ''F''"

definition isJavaLetterStartByte :: "char \<Rightarrow> bool" where
  "isJavaLetterStartByte c \<longleftrightarrow> (CHR ''a'' \<le> c \<and> c \<le> CHR ''z'') \<or> (CHR ''A'' \<le> c \<and> c \<le> CHR ''Z'') \<or> c = CHR ''_'' \<or> c = CHR ''$''"

definition isJavaLetter :: "unicode \<Rightarrow> rune \<Rightarrow> bool" where
  "isJavaLetter uc r =
     (if r < 0x80 then isJavaLetterStartByte (char_of (nat r)) else ucLetter uc r \<or> ucNl uc r \<or> ucSc uc r \<or> ucPc uc r)"

definition isJavaLetterOrDigit :: "unicode \<Rightarrow> rune \<Rightarrow> bool" where
  "isJavaLetterOrDigit uc r =
     (if r < 0x80 then isJavaLetterStartByte (char_of (nat r)) \<or> isDecDigit (char_of (nat r))
      else isJavaLetter uc r \<or> ucNd uc r \<or> ucMn uc r \<or> ucMc uc r \<or> ucCf uc r)"

section \<open>Identifiers\<close>

lemma s_rune_width: "i < length src \<Longrightarrow> 1 \<le> snd (s_rune src i) \<and> i + snd (s_rune src i) \<le> length src"
  using decode_rune_scalar(2,3) [of "bytes_of_string (drop i src)" "fst (decode_rune (bytes_of_string (drop i src)))"
      "snd (decode_rune (bytes_of_string (drop i src)))"]
  by (auto simp: s_rune_def bytes_of_string_def)

function ident_end :: "unicode \<Rightarrow> string \<Rightarrow> nat \<Rightarrow> nat" where
  "ident_end uc src i =
     (if i < length src then
        (case s_rune src i of (r, w) \<Rightarrow> if isJavaLetterOrDigit uc r then ident_end uc src (i + w) else i)
      else i)"
  by pat_completeness auto

termination
proof (relation "measure (\<lambda>(uc, src, i). length src - i)", goal_cases)
  case (2 uc src i r w)
  then show ?case using s_rune_width [of i src] by (cases "s_rune src i") auto
qed simp

declare ident_end.simps [simp del]

definition spliceNonSealed :: "unicode \<Rightarrow> nat \<Rightarrow> scanner \<Rightarrow> bool \<times> scanner" where
  "spliceNonSealed uc pos s =
     (let tail = ''-sealed''; after = scOff s + length tail in
      if scOff s + length tail > length (scSrc s) \<or> substr (scSrc s) (scOff s) (scOff s + length tail) \<noteq> tail then (False, s)
      else if after < length (scSrc s) \<and> isJavaLetterOrDigit uc (fst (s_rune (scSrc s) after)) then (False, s)
      else (True, emit NON_SEALED CtxNonSealed pos after (set_off after s)))"

definition scanIdent :: "unicode \<Rightarrow> nat \<Rightarrow> scanner \<Rightarrow> bool \<times> scanner" where
  "scanIdent uc pos s =
     (case s_rune (scSrc s) pos of (r, w) \<Rightarrow>
        if \<not> isJavaLetter uc r then (False, s)
        else
          let end' = ident_end uc (scSrc s) (pos + w);
              s1 = set_off end' s;
              lit = substr (scSrc s) pos end';
              splice = (if lit = ''non'' then spliceNonSealed uc pos s1 else (False, s1)) in
          if fst splice then (True, snd splice)
          else if Lookup lit \<noteq> IDENT then (True, emit (Lookup lit) CtxNone pos end' s1)
          else (True, emit IDENT (LookupCtx lit) pos end' s1))"

section \<open>Numbers\<close>

definition digits :: "(char \<Rightarrow> bool) \<Rightarrow> scanner \<Rightarrow> scanner" where
  "digits ok s = set_off (skip_while (\<lambda>c. ok c \<or> c = CHR ''_'' \<or> isDecDigit c) (scSrc s) (scOff s)) s"

definition intSuffix :: "scanner \<Rightarrow> scanner" where
  "intSuffix s = (if s_at (scOff s) s \<in> {CHR ''l'', CHR ''L''} then adv 1 s else s)"

definition checkRun :: "nat \<Rightarrow> nat \<Rightarrow> (char \<Rightarrow> bool) \<Rightarrow> string \<Rightarrow> scanner \<Rightarrow> scanner" where
  "checkRun lo hi ok radix s =
     (if lo \<ge> hi then s
      else if scSrc s ! lo = CHR ''_'' \<or> scSrc s ! (hi - 1) = CHR ''_'' then s_error lo hi ''underscore may appear only between digits'' s
      else
        (case find (\<lambda>i. scSrc s ! i \<noteq> CHR ''_'' \<and> \<not> ok (scSrc s ! i)) [lo ..< hi] of
           Some i \<Rightarrow> s_error i (i + 1) (''invalid digit in '' @ radix @ '' literal'') s
         | None \<Rightarrow> s))"

text \<open>The sign and the digits of an exponent whose letter has been read.\<close>

definition exponent :: "nat \<Rightarrow> string \<Rightarrow> scanner \<Rightarrow> scanner" where
  "exponent start msg s =
     (let s1 = (if s_at (scOff s) s \<in> {CHR ''+'', CHR ''-''} then adv 1 s else s);
          es = scOff s1;
          s2 = digits isDecDigit s1 in
      if scOff s2 = es then s_error start (scOff s2) msg s2 else checkRun es (scOff s2) isDecDigit ''decimal'' s2)"

text \<open>The digits after a decimal point at the offset; \<open>noInt\<close> says that there were none before it.\<close>

definition fraction :: "(char \<Rightarrow> bool) \<Rightarrow> string \<Rightarrow> nat \<Rightarrow> bool \<Rightarrow> string \<Rightarrow> scanner \<Rightarrow> scanner" where
  "fraction ok radix start noInt msg s =
     (let s1 = adv 1 s; fs = scOff s1; s2 = digits ok s1 in
      if scOff s2 > fs then checkRun fs (scOff s2) ok radix s2
      else if noInt then s_error start (scOff s2) msg s2
      else s2)"

definition float_suffix :: "char set" where
  "float_suffix = {CHR ''f'', CHR ''F'', CHR ''d'', CHR ''D''}"

text \<open>The end of a hexadecimal literal: a binary exponent, or else no fraction and an integer suffix.\<close>

definition hex_tail :: "nat \<Rightarrow> bool \<Rightarrow> scanner \<Rightarrow> tkind \<times> scanner" where
  "hex_tail start hasDot s =
     (if s_at (scOff s) s \<in> {CHR ''p'', CHR ''P''} then
        let s1 = exponent start ''binary exponent has no digits'' (adv 1 s) in
        (FLOAT_LIT, if s_at (scOff s1) s1 \<in> float_suffix then adv 1 s1 else s1)
      else if hasDot then
        (FLOAT_LIT, s_error start (scOff s) ''hexadecimal floating-point literal requires a binary exponent'' s)
      else (INT_LIT, intSuffix s))"

definition scanHexNumber :: "nat \<Rightarrow> scanner \<Rightarrow> tkind \<times> scanner" where
  "scanHexNumber start s =
     (let s1 = adv 2 s; ds = scOff s1; s2 = digits isHexDigit s1; de = scOff s2;
          hasDot = (s_at (scOff s2) s2 = CHR ''.'');
          s3 = (if hasDot then fraction isHexDigit ''hexadecimal'' start (de = ds) ''hexadecimal literal has no digits'' s2 else s2);
          s4 = (if de > ds then checkRun ds de isHexDigit ''hexadecimal'' s3
            else if \<not> hasDot then s_error start (scOff s3) ''hexadecimal literal has no digits'' s3
            else s3) in
      hex_tail start hasDot s4)"

definition octal_check :: "nat \<Rightarrow> nat \<Rightarrow> scanner \<Rightarrow> scanner" where
  "octal_check intStart intEnd s =
     (if intEnd - intStart > 1 \<and> scSrc s ! intStart = CHR ''0'' then
        let os = min intEnd (skip_while (\<lambda>c. c = CHR ''_'') (scSrc s) (intStart + 1)) in
        if os = intEnd then s_error intStart intEnd ''octal literal has no digits'' s
        else checkRun os intEnd isOctDigit ''octal'' s
      else s)"

text \<open>The end of a decimal literal, from the exponent on: \<open>isFloat\<close> says what came before.\<close>

definition dec_tail :: "nat \<Rightarrow> nat \<Rightarrow> bool \<Rightarrow> scanner \<Rightarrow> tkind \<times> scanner" where
  "dec_tail start intEnd isFloat s =
     (let expo = (s_at (scOff s) s \<in> {CHR ''e'', CHR ''E''});
          s1 = (if expo then exponent start ''exponent has no digits'' (adv 1 s) else s);
          fsuf = (s_at (scOff s1) s1 \<in> float_suffix);
          s2 = (if fsuf then adv 1 s1
            else if s_at (scOff s1) s1 \<in> {CHR ''l'', CHR ''L''} then
              adv 1 (if isFloat \<or> expo then s_error start (scOff s1 + 1) ''floating-point literal cannot have an integer type suffix'' s1 else s1)
            else s1) in
      if isFloat \<or> expo \<or> fsuf then (FLOAT_LIT, s2)
      else (INT_LIT, octal_check start intEnd (checkRun start intEnd isDecDigit ''decimal'' s2)))"

definition scanDecimal :: "nat \<Rightarrow> scanner \<Rightarrow> tkind \<times> scanner" where
  "scanDecimal start s =
     (let isFloat = (s_at start s = CHR ''.'');
          s1 = (if isFloat then s else digits isDecDigit s);
          intEnd = (if isFloat then start else scOff s1);
          dot = (s_at (scOff s1) s1 = CHR ''.'' \<and>
            \<not> (s_at (scOff s1 + 1) s1 = CHR ''.'' \<and> s_at (scOff s1 + 2) s1 = CHR ''.''));
          s2 = (if dot then fraction isDecDigit ''decimal'' start (intEnd = start) ''floating-point literal has no digits'' s1 else s1) in
      dec_tail start intEnd (isFloat \<or> dot) s2)"

definition scanNumber :: "scanner \<Rightarrow> tkind \<times> scanner" where
  "scanNumber s =
     (let start = scOff s in
      if s_at start s = CHR ''0'' \<and> s_at (start + 1) s \<in> {CHR ''x'', CHR ''X''} then scanHexNumber start s
      else if s_at start s = CHR ''0'' \<and> s_at (start + 1) s \<in> {CHR ''b'', CHR ''B''} then
        let s1 = adv 2 s; ds = scOff s1; s2 = digits isBinDigit s1 in
        (INT_LIT, intSuffix (checkRun ds (scOff s2) isBinDigit ''binary'' s2))
      else scanDecimal start s)"

section \<open>Characters, strings and text blocks\<close>

text \<open>The second and third digit of an octal escape: three only when the first is at most 3.\<close>

definition octal_escape :: "char \<Rightarrow> scanner \<Rightarrow> scanner" where
  "octal_escape c s =
     (if isOctDigit (s_at (scOff s) s) then
        let s1 = adv 1 s in
        if c \<le> CHR ''3'' \<and> isOctDigit (s_at (scOff s1) s1) then adv 1 s1 else s1
      else s)"

definition line_continuation :: "nat \<Rightarrow> bool \<Rightarrow> char \<Rightarrow> scanner \<Rightarrow> scanner" where
  "line_continuation start inTextBlock c s =
     (let s1 = (if \<not> inTextBlock then s_error start (scOff s + 1) ''line continuation is permitted only in a text block'' s else s);
          s2 = adv 1 s1 in
      if c = CR \<and> s_at (scOff s2) s2 = LF then adv 1 s2 else s2)"

definition escape :: "bool \<Rightarrow> scanner \<Rightarrow> scanner" where
  "escape inTextBlock s =
     (let start = scOff s; s1 = adv 1 s in
      if scOff s1 \<ge> length (scSrc s1) then s_error start (scOff s1) ''incomplete escape sequence'' s1
      else
        let c = scSrc s1 ! scOff s1 in
        if c \<in> set ''bstnfr'' \<or> c = CHR 0x22 \<or> c = CHR 0x27 \<or> c = backslash then adv 1 s1
        else if isOctDigit c then octal_escape c (adv 1 s1)
        else if c = LF \<or> c = CR then line_continuation start inTextBlock c s1
        else
          let s2 = adv (snd (s_rune (scSrc s1) (scOff s1))) s1 in
          s_error start (scOff s2) ''invalid escape sequence'' s2)"

lemma s_error_frame [simp]:
  "scSrc (s_error p e m s) = scSrc s" "scOff (s_error p e m s) = scOff s" "scMode (s_error p e m s) = scMode s"
  "scToks (s_error p e m s) = scToks s" "scGap (s_error p e m s) = scGap s" "scNl (s_error p e m s) = scNl s"
  "scOpen (s_error p e m s) = scOpen s" "scReported (s_error p e m s) = scReported s"
  by (simp_all add: s_error_def Let_def)

lemma adv_frame [simp]:
  "scSrc (adv n s) = scSrc s" "scOff (adv n s) = scOff s + n" "scMode (adv n s) = scMode s" "scToks (adv n s) = scToks s"
  "scGap (adv n s) = scGap s" "scNl (adv n s) = scNl s" "scDiags (adv n s) = scDiags s" "scOpen (adv n s) = scOpen s"
  "scReported (adv n s) = scReported s"
  by (simp_all add: adv_def)

lemma set_off_frame [simp]:
  "scSrc (set_off n s) = scSrc s" "scOff (set_off n s) = n" "scMode (set_off n s) = scMode s" "scToks (set_off n s) = scToks s"
  "scGap (set_off n s) = scGap s" "scNl (set_off n s) = scNl s" "scDiags (set_off n s) = scDiags s" "scOpen (set_off n s) = scOpen s"
  "scReported (set_off n s) = scReported s"
  by (simp_all add: set_off_def)

text \<open>A step that reads: it leaves everything but the offset and the diagnostics, the offset moves on within the source,
  and what is reported is a non-empty span of the source.\<close>

definition diag_in :: "string \<Rightarrow> diagnostic \<Rightarrow> bool" where
  "diag_in src d \<longleftrightarrow> (\<exists>a b. a < b \<and> b \<le> length src \<and> dgPos d = fl_Pos a \<and> dgEnd d = fl_Pos b)"

definition reports :: "scanner \<Rightarrow> scanner \<Rightarrow> bool" where
  "reports s t \<longleftrightarrow> (\<exists>ds. scDiags t = scDiags s @ ds \<and> list_all (diag_in (scSrc s)) ds)"

definition reads_on :: "scanner \<Rightarrow> scanner \<Rightarrow> bool" where
  "reads_on s t \<longleftrightarrow> scSrc t = scSrc s \<and> scMode t = scMode s \<and> scToks t = scToks s \<and> scGap t = scGap s \<and> scNl t = scNl s \<and>
     scOpen t = scOpen s \<and> scReported t = scReported s \<and> scOff s \<le> scOff t \<and>
     (scOff s \<le> length (scSrc s) \<longrightarrow> scOff t \<le> length (scSrc s)) \<and> reports s t"

lemma reports_refl: "scDiags t = scDiags s \<Longrightarrow> reports s t"
  by (simp add: reports_def)

lemma reports_trans: "reports s t \<Longrightarrow> reports t u \<Longrightarrow> scSrc t = scSrc s \<Longrightarrow> reports s u"
  by (auto simp: reports_def)

lemma reports_error: "p < length (scSrc s) \<Longrightarrow> reports s (s_error p e m s)"
proof -
  assume p: "p < length (scSrc s)"
  let ?e = "min (length (scSrc s)) (if e \<le> p then p + 1 else e)"
  have "p < ?e" "?e \<le> length (scSrc s)" using p by auto
  then have "diag_in (scSrc s) \<lparr>dgPos = fl_Pos p, dgEnd = fl_Pos ?e, dgSeverity = SevError, dgMsg = m\<rparr>"
    unfolding diag_in_def by (intro exI [of _ p] exI [of _ ?e]) simp
  then show ?thesis by (auto simp: reports_def s_error_def Let_def min_def split: if_splits)
qed

lemma reads_refl [simp]: "reads_on s s"
  by (simp add: reads_on_def reports_def)

lemma reads_trans [trans]: "reads_on s t \<Longrightarrow> reads_on t u \<Longrightarrow> reads_on s u"
  unfolding reads_on_def by (auto intro: reports_trans)

lemma reads_adv: "scOff s + n \<le> length (scSrc s) \<Longrightarrow> reads_on s (adv n s)"
  by (simp add: reads_on_def reports_def)

lemma reads_error: "p < length (scSrc s) \<Longrightarrow> reads_on s (s_error p e m s)"
  using reports_error by (simp add: reads_on_def)

lemma reads_skip: "reads_on s (set_off (skip_while p (scSrc s) (scOff s)) s)"
  using skip_while_ge [of "scOff s" p "scSrc s"] skip_while_le [of "scOff s" "scSrc s" p] by (simp add: reads_on_def reports_def)

lemma reads_at: "s_at (scOff s) s = c \<Longrightarrow> c \<noteq> CHR 0x00 \<Longrightarrow> reads_on s (adv 1 s)"
  by (intro reads_adv) (auto simp: s_at_def split: if_splits)

lemma reads_src: "reads_on s t \<Longrightarrow> scSrc t = scSrc s" and reads_le: "reads_on s t \<Longrightarrow> scOff s \<le> scOff t"
  by (simp_all add: reads_on_def)

lemma reads_bound: "reads_on s t \<Longrightarrow> scOff s \<le> length (scSrc s) \<Longrightarrow> scOff t \<le> length (scSrc s)"
  by (simp add: reads_on_def)

lemma reads_advI: "reads_on s t \<Longrightarrow> scOff t + n \<le> length (scSrc s) \<Longrightarrow> reads_on s (adv n t)"
  using reads_trans [OF _ reads_adv] reads_src by metis

lemma reads_errorI: "reads_on s t \<Longrightarrow> p < length (scSrc s) \<Longrightarrow> reads_on s (s_error p e m t)"
  using reads_trans [OF _ reads_error] reads_src by metis

lemma at_reads: "s_at (scOff s) s = c \<Longrightarrow> c \<noteq> CHR 0x00 \<Longrightarrow> reads_on s (adv (Suc 0) s)"
  using reads_at by simp

lemma oct_not_zero: "isOctDigit c \<Longrightarrow> c \<noteq> CHR 0x00"
  by (auto simp: isOctDigit_def)

lemma octal_escape_reads: "reads_on s (octal_escape c s)"
proof -
  have 1: "reads_on s (adv 1 s)" if "isOctDigit (s_at (scOff s) s)" for s
    using reads_at [OF refl oct_not_zero [OF that]] .
  show ?thesis using 1 [of s] reads_trans [OF 1 [of s] 1 [of "adv 1 s"]] by (simp add: octal_escape_def Let_def)
qed

lemma line_continuation_reads:
  assumes "start < length (scSrc s)" "scOff s < length (scSrc s)"
  shows "reads_on s (line_continuation start b c s)"
proof -
  let ?s1 = "if \<not> b then s_error start (scOff s + 1) ''line continuation is permitted only in a text block'' s else s"
  have 2: "reads_on s (adv 1 ?s1)" using assms by (intro reads_advI) (auto intro: reads_errorI)
  have 3: "reads_on (adv 1 ?s1) (adv 1 (adv 1 ?s1))" if "s_at (scOff (adv 1 ?s1)) (adv 1 ?s1) = LF"
    using that by (rule reads_at) simp
  show ?thesis unfolding line_continuation_def Let_def using 2 reads_trans [OF 2 3] by (cases "c = CR \<and> s_at (scOff (adv 1 ?s1)) (adv 1 ?s1) = LF") (simp_all only: if_True if_False simp_thms)
qed

lemma escape_reads:
  assumes "scOff s < length (scSrc s)"
  shows "reads_on s (escape b s) \<and> scOff s < scOff (escape b s)"
proof -
  have 1: "reads_on s (adv 1 s)" using assms by (intro reads_adv) simp
  have "reads_on (adv 1 s) (escape b s)"
  proof (cases "scOff s + 1 < length (scSrc s)")
    case False
    then show ?thesis using assms by (auto simp: escape_def Let_def intro!: reads_errorI)
  next
    case True
    let ?s1 = "adv 1 s"
    have a: "reads_on ?s1 (adv 1 ?s1)" using True by (intro reads_adv) simp
    have o: "reads_on ?s1 (octal_escape c (adv 1 ?s1))" for c by (rule reads_trans [OF a octal_escape_reads])
    have l: "reads_on ?s1 (line_continuation (scOff s) b c ?s1)" for c using True assms by (intro line_continuation_reads) simp_all
    have r: "reads_on ?s1 (s_error (scOff s) e m (adv (snd (s_rune (scSrc s) (scOff s + 1))) ?s1))" for e m
      using True s_rune_width [of "scOff s + 1" "scSrc s"] by (intro reads_errorI reads_adv) simp_all
    show ?thesis using True unfolding escape_def Let_def by (simp add: a [simplified] o [simplified] l [simplified] r [simplified])
  qed
  then show ?thesis using reads_trans [OF 1] reads_le [of "adv 1 s" "escape b s"] by auto
qed

lemma rune_reads: "scOff s < length (scSrc s) \<Longrightarrow> reads_on s (adv (snd (s_rune (scSrc s) (scOff s))) s) \<and>
    scOff s < scOff (adv (snd (s_rune (scSrc s) (scOff s))) s)"
  using s_rune_width [of "scOff s" "scSrc s"] by (auto intro: reads_adv)

text \<open>The loop of \<open>scanChar\<close>, with the number of characters so far.\<close>

function char_loop :: "nat \<Rightarrow> nat \<Rightarrow> scanner \<Rightarrow> scanner" where
  "char_loop pos n s =
     (if scOff s < length (scSrc s) then
        let c = scSrc s ! scOff s in
        if c = CHR 0x27 then
          let s1 = adv 1 s;
              s2 = (if n = 0 then s_error pos (scOff s1) ''empty character literal'' s1
                else if n > 1 then s_error pos (scOff s1) ''character literal has more than one character'' s1
                else s1) in
          emit CHAR_LIT CtxNone pos (scOff s2) s2
        else if c = LF \<or> c = CR then
          emit CHAR_LIT CtxNone pos (scOff s) (s_error pos (scOff s) ''unterminated character literal'' s)
        else if c = backslash then char_loop pos (n + 1) (escape False s)
        else char_loop pos (n + 1) (adv (snd (s_rune (scSrc s) (scOff s))) s)
      else emit CHAR_LIT CtxNone pos (scOff s) (s_error pos (scOff s) ''unterminated character literal'' s))"
  by pat_completeness auto

termination
proof (relation "measure (\<lambda>(pos, n, s). length (scSrc s) - scOff s)", goal_cases)
  case (2 pos n s c)
  then show ?case using escape_reads [of s False] by (auto simp: reads_on_def)
next
  case (3 pos n s c)
  then show ?case using s_rune_width [of "scOff s" "scSrc s"] by auto
qed simp

declare char_loop.simps [simp del]

definition scanChar :: "nat \<Rightarrow> scanner \<Rightarrow> scanner" where
  "scanChar pos s = char_loop pos 0 (adv 1 s)"

function string_loop :: "nat \<Rightarrow> scanner \<Rightarrow> scanner" where
  "string_loop pos s =
     (if scOff s < length (scSrc s) then
        let c = scSrc s ! scOff s in
        if c = CHR 0x22 then emit STRING_LIT CtxNone pos (scOff s + 1) (adv 1 s)
        else if c = LF \<or> c = CR then
          emit STRING_LIT CtxNone pos (scOff s) (s_error pos (scOff s) ''unterminated string literal'' s)
        else if c = backslash then string_loop pos (escape False s)
        else string_loop pos (adv (snd (s_rune (scSrc s) (scOff s))) s)
      else emit STRING_LIT CtxNone pos (scOff s) (s_error pos (scOff s) ''unterminated string literal'' s))"
  by pat_completeness auto

termination
proof (relation "measure (\<lambda>(pos, s). length (scSrc s) - scOff s)", goal_cases)
  case (2 pos s c)
  then show ?case using escape_reads [of s False] by (auto simp: reads_on_def)
next
  case (3 pos s c)
  then show ?case using s_rune_width [of "scOff s" "scSrc s"] by auto
qed simp

declare string_loop.simps [simp del]

definition scanString :: "nat \<Rightarrow> scanner \<Rightarrow> scanner" where
  "scanString pos s = string_loop pos (adv 1 s)"

function block_loop :: "nat \<Rightarrow> scanner \<Rightarrow> scanner" where
  "block_loop pos s =
     (if scOff s < length (scSrc s) then
        let c = scSrc s ! scOff s in
        if c = backslash then block_loop pos (set_off (min (scOff s + 2) (length (scSrc s))) s)
        else if c = CHR 0x22 then
          (if s_has [CHR 0x22, CHR 0x22, CHR 0x22] s then emit TEXTBLOCK CtxNone pos (scOff s + 3) (adv 3 s) else block_loop pos (adv 1 s))
        else block_loop pos (adv (snd (s_rune (scSrc s) (scOff s))) s)
      else emit TEXTBLOCK CtxNone pos (scOff s) (s_error pos (scOff s) ''unterminated text block'' s))"
  by pat_completeness auto

termination
proof (relation "measure (\<lambda>(pos, s). length (scSrc s) - scOff s)", goal_cases)
  case (4 pos s c)
  then show ?case using s_rune_width [of "scOff s" "scSrc s"] by auto
qed auto

declare block_loop.simps [simp del]

definition scanTextBlock :: "nat \<Rightarrow> scanner \<Rightarrow> scanner" where
  "scanTextBlock pos s =
     (let s1 = adv 3 s;
          s2 = set_off (skip_while (\<lambda>c. c \<in> {CHR '' '', CHR 0x09, CHR 0x0C}) (scSrc s1) (scOff s1)) s1;
          c = s_at (scOff s2) s2;
          s3 = (if c = LF then adv 1 s2
            else if c = CR then (let t = adv 1 s2 in if s_at (scOff t) t = LF then adv 1 t else t)
            else s_error pos (scOff s2) ''text block opening delimiter must be followed by a line terminator'' s2) in
      block_loop pos s3)"

section \<open>Trivia\<close>

definition comment :: "nat \<Rightarrow> nat \<Rightarrow> bool \<Rightarrow> scanner \<Rightarrow> scanner" where
  "comment pos end' multiline s =
     (let s1 = (if scMode s AND ScanComments \<noteq> 0 then
          s\<lparr>scToks := scToks s @ [\<lparr>tokKind = COMMENT, tokCtx = CtxNone, tokFlags = token_flags s, tokPos = fl_Pos pos, tokEnd = fl_Pos end'\<rparr>]\<rparr>
        else s) in
      s1\<lparr>scGap := True, scNl := (if multiline then True else scNl s1)\<rparr>)"

definition scanLineComment :: "scanner \<Rightarrow> scanner" where
  "scanLineComment s =
     (let pos = scOff s; s1 = adv 2 s;
          s2 = set_off (skip_while (\<lambda>c. c \<noteq> LF \<and> c \<noteq> CR) (scSrc s1) (scOff s1)) s1 in
      comment pos (scOff s2) False s2)"

function comment_loop :: "nat \<Rightarrow> bool \<Rightarrow> scanner \<Rightarrow> scanner" where
  "comment_loop pos multiline s =
     (if scOff s < length (scSrc s) then
        let c = scSrc s ! scOff s in
        if c = CHR ''*'' then
          (if s_at (scOff s + 1) s = CHR ''/'' then comment pos (scOff s + 2) multiline (adv 2 s)
           else comment_loop pos multiline (adv 1 s))
        else if c = LF \<or> c = CR then comment_loop pos True (adv 1 s)
        else comment_loop pos multiline (adv 1 s)
      else comment pos (scOff s) multiline (s_error pos (scOff s) ''unterminated comment'' s))"
  by pat_completeness auto

termination by (relation "measure (\<lambda>(pos, m, s). length (scSrc s) - scOff s)") auto

declare comment_loop.simps [simp del]

definition scanBlockComment :: "scanner \<Rightarrow> scanner" where
  "scanBlockComment s = comment_loop (scOff s) False (adv 2 s)"

text \<open>A comment is read to its end: the offset moves on, and only the token list, the gap and the line flag change besides.\<close>

lemma comment_frame [simp]:
  "scSrc (comment p e m s) = scSrc s" "scOff (comment p e m s) = scOff s" "scMode (comment p e m s) = scMode s"
  "scDiags (comment p e m s) = scDiags s" "scOpen (comment p e m s) = scOpen s" "scReported (comment p e m s) = scReported s"
  "scGap (comment p e m s)"
  by (simp_all add: comment_def Let_def)

lemma comment_loop_off:
  "scOff s \<le> scOff (comment_loop p m s) \<and> scSrc (comment_loop p m s) = scSrc s \<and>
   (scOff s \<le> length (scSrc s) \<longrightarrow> scOff (comment_loop p m s) \<le> length (scSrc s))"
proof (induction p m s rule: comment_loop.induct)
  case (1 p m s)
  consider "\<not> scOff s < length (scSrc s)" | "scOff s < length (scSrc s)" "scSrc s ! scOff s = CHR ''*''" "s_at (scOff s + 1) s = CHR ''/''"
    | "scOff s < length (scSrc s)" "scSrc s ! scOff s = CHR ''*''" "s_at (scOff s + 1) s \<noteq> CHR ''/''"
    | "scOff s < length (scSrc s)" "scSrc s ! scOff s \<noteq> CHR ''*''" "scSrc s ! scOff s = LF \<or> scSrc s ! scOff s = CR"
    | "scOff s < length (scSrc s)" "scSrc s ! scOff s \<noteq> CHR ''*''" "\<not> (scSrc s ! scOff s = LF \<or> scSrc s ! scOff s = CR)" by blast
  then show ?case
  proof cases
    case 1
    then show ?thesis by (simp add: comment_loop.simps [of p m s])
  next
    case 2
    then show ?thesis by (auto simp: comment_loop.simps [of p m s] s_at_def split: if_splits)
  next
    case 3
    note h = "1.IH"(1) [OF 3(1) refl 3(2,3)]
    show ?thesis using 3 h by (simp add: comment_loop.simps [of p m s] Let_def)
  next
    case 4
    note h = "1.IH"(2) [OF 4(1) refl 4(2,3)]
    show ?thesis using 4 h by (simp add: comment_loop.simps [of p m s] Let_def)
  next
    case 5
    note h = "1.IH"(3) [OF 5(1) refl 5(2,3)]
    show ?thesis using 5 h by (simp add: comment_loop.simps [of p m s] Let_def)
  qed
qed

lemma comments_advance:
  "scOff s + 1 < length (scSrc s) \<Longrightarrow> scOff s < scOff (scanLineComment s) \<and> scOff (scanLineComment s) \<le> length (scSrc s) \<and>
     scSrc (scanLineComment s) = scSrc s"
  "scOff s + 1 < length (scSrc s) \<Longrightarrow> scOff s < scOff (scanBlockComment s) \<and> scOff (scanBlockComment s) \<le> length (scSrc s) \<and>
     scSrc (scanBlockComment s) = scSrc s"
  using skip_while_ge [of "scOff s + 2" "\<lambda>c. c \<noteq> LF \<and> c \<noteq> CR" "scSrc s"]
    skip_while_le [of "scOff s + 2" "scSrc s" "\<lambda>c. c \<noteq> LF \<and> c \<noteq> CR"] comment_loop_off [of "adv 2 s" "scOff s" False]
  by (auto simp: scanLineComment_def scanBlockComment_def Let_def)

function skipTrivia :: "scanner \<Rightarrow> scanner" where
  "skipTrivia s =
     (if scOff s < length (scSrc s) then
        let c = scSrc s ! scOff s in
        if c \<in> {CHR '' '', CHR 0x09, CHR 0x0C} then skipTrivia (adv 1 (s\<lparr>scGap := True\<rparr>))
        else if c = LF then skipTrivia (adv 1 (s\<lparr>scGap := True, scNl := True\<rparr>))
        else if c = CR then
          let s1 = adv 1 (s\<lparr>scGap := True, scNl := True\<rparr>) in
          skipTrivia (if scOff s1 < length (scSrc s1) \<and> scSrc s1 ! scOff s1 = LF then adv 1 s1 else s1)
        else if c = CHR ''/'' then
          (if scOff s + 1 \<ge> length (scSrc s) then s
           else if scSrc s ! (scOff s + 1) = CHR ''/'' then skipTrivia (scanLineComment s)
           else if scSrc s ! (scOff s + 1) = CHR ''*'' then skipTrivia (scanBlockComment s)
           else s)
        else s
      else s)"
  by pat_completeness auto

termination
proof (relation "measure (\<lambda>s. length (scSrc s) - scOff s)", goal_cases)
  case (5 s c)
  then show ?case using comments_advance(1) [of s] by auto
next
  case (6 s c)
  then show ?case using comments_advance(2) [of s] by auto
qed auto

declare skipTrivia.simps [simp del]

section \<open>Separators and operators\<close>

text \<open>The byte at the position decides; a longer operator is tried first. \<open>n1\<close> and \<open>n2\<close> are \<open>next(1)\<close> and \<open>next(2)\<close>, the
  bytes further on, or zero.\<close>

definition punct_of :: "char \<Rightarrow> char \<Rightarrow> char \<Rightarrow> tkind \<times> nat" where
  "punct_of c n1 n2 =
     (if c = CHR ''>'' then (if n1 = CHR ''='' then (GEQ, 2) else (GTR, 1))
      else if c = CHR ''<'' then
        (if n1 = CHR ''<'' \<and> n2 = CHR ''='' then (SHL_ASSIGN, 3)
         else if n1 = CHR ''<'' then (SHL, 2)
         else if n1 = CHR ''='' then (LEQ, 2)
         else (LSS, 1))
      else if c = CHR ''='' then (if n1 = CHR ''='' then (EQL, 2) else (ASSIGN, 1))
      else if c = CHR ''!'' then (if n1 = CHR ''='' then (NEQ, 2) else (NOT_OP, 1))
      else if c = CHR ''+'' then
        (if n1 = CHR ''+'' then (INC, 2) else if n1 = CHR ''='' then (ADD_ASSIGN, 2) else (ADD, 1))
      else if c = CHR ''-'' then
        (if n1 = CHR ''-'' then (DEC, 2) else if n1 = CHR ''='' then (SUB_ASSIGN, 2)
         else if n1 = CHR ''>'' then (ARROW, 2) else (SUB, 1))
      else if c = CHR ''*'' then (if n1 = CHR ''='' then (MUL_ASSIGN, 2) else (MUL, 1))
      else if c = CHR ''/'' then (if n1 = CHR ''='' then (QUO_ASSIGN, 2) else (QUO, 1))
      else if c = CHR ''%'' then (if n1 = CHR ''='' then (REM_ASSIGN, 2) else (REM, 1))
      else if c = CHR ''&'' then
        (if n1 = CHR ''&'' then (LAND, 2) else if n1 = CHR ''='' then (AND_ASSIGN, 2) else (AND_OP, 1))
      else if c = CHR ''|'' then
        (if n1 = CHR ''|'' then (LOR, 2) else if n1 = CHR ''='' then (OR_ASSIGN, 2) else (OR_OP, 1))
      else if c = CHR ''^'' then (if n1 = CHR ''='' then (XOR_ASSIGN, 2) else (XOR_OP, 1))
      else if c = CHR ''~'' then (TILDE, 1)
      else if c = CHR ''?'' then (QUESTION, 1)
      else if c = CHR '':'' then (if n1 = CHR '':'' then (COLONCOLON, 2) else (COLON, 1))
      else if c = CHR ''.'' then (if n1 = CHR ''.'' \<and> n2 = CHR ''.'' then (ELLIPSIS, 3) else (PERIOD, 1))
      else if c = CHR ''('' then (LPAREN, 1)
      else if c = CHR '')'' then (RPAREN, 1)
      else if c = CHR ''{'' then (LBRACE, 1)
      else if c = CHR ''}'' then (RBRACE, 1)
      else if c = CHR ''['' then (LBRACK, 1)
      else if c = CHR '']'' then (RBRACK, 1)
      else if c = CHR '';'' then (SEMICOLON, 1)
      else if c = CHR '','' then (COMMA, 1)
      else if c = CHR ''@'' then (AT, 1)
      else (ILLEGAL, 0))"

definition punct :: "nat \<Rightarrow> scanner \<Rightarrow> tkind \<times> nat" where
  "punct pos s = punct_of (scSrc s ! pos) (s_at (pos + 1) s) (s_at (pos + 2) s)"

section \<open>The scanner\<close>

definition scan_punct :: "nat \<Rightarrow> scanner \<Rightarrow> scanner" where
  "scan_punct pos s =
     (case punct pos s of (kind, n) \<Rightarrow>
        if n = 0 then illegalRune pos s
        else
          let s1 = set_off (pos + n) s; s2 = track kind pos (scOff s1) s1 in
          emit kind CtxNone pos (scOff s2) s2)"

definition emit_number :: "nat \<Rightarrow> scanner \<Rightarrow> scanner" where
  "emit_number pos s = (case scanNumber s of (k, s1) \<Rightarrow> emit k CtxNone pos (scOff s1) s1)"

definition scanToken :: "unicode \<Rightarrow> scanner \<Rightarrow> scanner" where
  "scanToken uc s =
     (let pos = scOff s; c = scSrc s ! pos in
      if isJavaLetterStartByte c \<or> (of_char c :: int) \<ge> 0x80 then
        (case scanIdent uc pos s of (done', s1) \<Rightarrow> if done' then s1 else illegalRune pos s1)
      else if isDecDigit c then emit_number pos s
      else if c = CHR 0x22 then
        (if s_has [CHR 0x22, CHR 0x22, CHR 0x22] s then scanTextBlock pos s else scanString pos s)
      else if c = CHR 0x27 then scanChar pos s
      else if c = CHR ''.'' \<and> pos + 1 < length (scSrc s) \<and> isDecDigit (scSrc s ! (pos + 1)) then emit_number pos s
      else scan_punct pos s)"

end
