(* ===== verification/ScanSteps.thy ===== *)
theory ScanSteps
  imports Scanner
begin

text \<open>
  What each routine of the scanner does to its state. A routine that reads leaves everything but the offset and the
  diagnostics alone and reports non-empty spans of the source (\<open>reads_on\<close>); a routine that scans a token
  appends one token for the bytes it consumed, at least one of them (\<open>emits\<close>), and the text of the token
  spells its kind. The separators and operators are found by longest match.
\<close>

section \<open>Scanning reads on\<close>

lemma digits_reads: "reads_on s (digits ok s)"
  unfolding digits_def by (rule reads_skip)

lemma digitsI: "reads_on s t \<Longrightarrow> reads_on s (digits ok t)"
  using reads_trans digits_reads by blast

lemma checkRun_off [simp]: "scOff (checkRun lo hi ok r s) = scOff s" "scSrc (checkRun lo hi ok r s) = scSrc s"
  by (auto simp: checkRun_def split: option.splits)

lemma checkRunI: "reads_on s t \<Longrightarrow> hi \<le> length (scSrc s) \<Longrightarrow> reads_on s (checkRun lo hi ok r t)"
  by (auto simp: checkRun_def find_Some_iff intro!: reads_errorI split: option.splits)

lemma atI:
  assumes "reads_on s t" "s_at (scOff t) t = c" "c \<noteq> CHR 0x00"
  shows "reads_on s (adv 1 t)"
  using reads_trans [OF assms(1) reads_at [OF assms(2,3)]] .

lemma atI': "reads_on s t \<Longrightarrow> s_at (scOff t) t = c \<Longrightarrow> c \<noteq> CHR 0x00 \<Longrightarrow> reads_on s (adv (Suc 0) t)"
  using atI by simp

lemma intSuffixI: "reads_on s t \<Longrightarrow> reads_on s (intSuffix t)"
  by (auto simp: intSuffix_def intro: atI')

lemma exponentI:
  assumes "reads_on s t" "start < length (scSrc s)" "scOff s \<le> length (scSrc s)"
  shows "reads_on s (exponent start msg t)"
proof -
  define t1 where "t1 = (if s_at (scOff t) t \<in> {CHR ''+'', CHR ''-''} then adv 1 t else t)"
  have 1: "reads_on s t1" using assms(1) atI' [OF assms(1)] by (auto simp: t1_def)
  note 2 = digitsI [OF 1, of isDecDigit]
  have "exponent start msg t = (if scOff (digits isDecDigit t1) = scOff t1 then s_error start (scOff (digits isDecDigit t1)) msg (digits isDecDigit t1)
      else checkRun (scOff t1) (scOff (digits isDecDigit t1)) isDecDigit ''decimal'' (digits isDecDigit t1))"
    unfolding exponent_def Let_def t1_def ..
  then show ?thesis using 2 assms(2) reads_bound [OF 2 assms(3)] by (auto intro: reads_errorI checkRunI)
qed

lemma fractionI:
  assumes "reads_on s t" "s_at (scOff t) t = CHR ''.''" "start < length (scSrc s)" "scOff s \<le> length (scSrc s)"
  shows "reads_on s (fraction ok radix start noInt msg t)"
proof -
  note 2 = digitsI [OF atI [OF assms(1,2)], of ok]
  show ?thesis using 2 assms(3) reads_bound [OF 2] assms(4) by (auto simp: fraction_def Let_def intro!: reads_errorI checkRunI)
qed

lemma hex_tailI:
  assumes "reads_on s t" "start < length (scSrc s)" "scOff s \<le> length (scSrc s)"
  shows "reads_on s (snd (hex_tail start d t))"
proof -
  have e: "reads_on s (exponent start m (adv (Suc 0) t))" if "s_at (scOff t) t \<in> {CHR ''p'', CHR ''P''}" for m
    using that atI' [OF assms(1) refl] assms(2,3) by (intro exponentI) auto
  show ?thesis using assms e
    by (auto simp: hex_tail_def Let_def float_suffix_def intro!: reads_errorI intSuffixI intro: atI')
qed

lemma scanHexNumber_reads:
  assumes "scOff s + 2 \<le> length (scSrc s)" "start < length (scSrc s)"
  shows "reads_on (adv 2 s) (snd (scanHexNumber start s))"
proof -
  let ?s1 = "adv 2 s" and ?s2 = "digits isHexDigit (adv 2 s)"
  have 2: "reads_on ?s1 ?s2" by (rule digits_reads)
  have b: "scOff ?s2 \<le> length (scSrc s)" using reads_bound [OF 2] assms(1) by simp
  define s3 where "s3 = (if s_at (scOff ?s2) ?s2 = CHR ''.'' then
    fraction isHexDigit ''hexadecimal'' start (scOff ?s2 = scOff ?s1) ''hexadecimal literal has no digits'' ?s2 else ?s2)"
  have 3: "reads_on ?s1 s3" using 2 assms by (auto simp: s3_def intro!: fractionI)
  show ?thesis unfolding scanHexNumber_def Let_def s3_def [symmetric]
    using 3 assms b by (intro hex_tailI) (auto intro: checkRunI reads_errorI)
qed

lemma octal_checkI: "reads_on s t \<Longrightarrow> a < length (scSrc s) \<Longrightarrow> b \<le> length (scSrc s) \<Longrightarrow> reads_on s (octal_check a b t)"
  by (auto simp: octal_check_def Let_def intro: reads_errorI checkRunI)

lemma dec_tailI:
  assumes "reads_on s t" "start < length (scSrc s)" "scOff s \<le> length (scSrc s)" "e \<le> length (scSrc s)"
  shows "reads_on s (snd (dec_tail start e f t))"
proof -
  define t1 where "t1 = (if s_at (scOff t) t \<in> {CHR ''e'', CHR ''E''} then exponent start ''exponent has no digits'' (adv 1 t) else t)"
  have 1: "reads_on s t1" using assms(1-3) atI' [OF assms(1) refl] by (auto simp: t1_def intro!: exponentI)
  define t2 where "t2 = (if s_at (scOff t1) t1 \<in> float_suffix then adv 1 t1
      else if s_at (scOff t1) t1 \<in> {CHR ''l'', CHR ''L''} then
        adv 1 (if f \<or> s_at (scOff t) t \<in> {CHR ''e'', CHR ''E''} then
          s_error start (scOff t1 + 1) ''floating-point literal cannot have an integer type suffix'' t1 else t1)
      else t1)"
  have a: "reads_on s (adv (Suc 0) t1)" if "s_at (scOff t1) t1 \<in> float_suffix \<or> s_at (scOff t1) t1 \<in> {CHR ''l'', CHR ''L''}"
    using that by (intro atI' [OF 1 refl]) (auto simp: float_suffix_def)
  have "adv (Suc 0) (s_error p q m t1) = s_error p q m (adv (Suc 0) t1)" for p q m by (simp add: adv_def s_error_def Let_def)
  then have 2: "reads_on s t2" using 1 a assms(2) by (auto simp: t2_def intro!: reads_errorI)
  show ?thesis unfolding dec_tail_def Let_def t1_def [symmetric] t2_def [symmetric]
    using 2 assms by (auto intro!: octal_checkI checkRunI)
qed

text \<open>A decimal literal goes from its integer digits to its tail, through a fraction when it has one.\<close>

definition int_part :: "scanner \<Rightarrow> scanner" where
  "int_part s = (if s_at (scOff s) s = CHR ''.'' then s else digits isDecDigit s)"

lemma int_part_reads: "reads_on s (int_part s)"
  by (simp add: int_part_def digits_reads)

lemma scanDecimal_shape:
  assumes "scOff s < length (scSrc s)"
  shows "\<exists>e f. e \<le> length (scSrc s) \<and>
    (scanDecimal (scOff s) s = dec_tail (scOff s) e f (int_part s) \<and>
       (s_at (scOff (int_part s)) (int_part s) \<noteq> CHR ''.'' \<or> s_at (scOff (int_part s) + 1) (int_part s) = CHR ''.'') \<or>
     s_at (scOff (int_part s)) (int_part s) = CHR ''.'' \<and>
       (\<exists>n m. scanDecimal (scOff s) s = dec_tail (scOff s) e f (fraction isDecDigit ''decimal'' (scOff s) n m (int_part s))))"
proof -
  let ?s1 = "int_part s"
  have b: "scOff ?s1 \<le> length (scSrc s)" using reads_bound [OF int_part_reads] assms by simp
  let ?e = "if s_at (scOff s) s = CHR ''.'' then scOff s else scOff ?s1"
  have e: "?e \<le> length (scSrc s)" using b assms by simp
  let ?dot = "s_at (scOff ?s1) ?s1 = CHR ''.'' \<and> \<not> (s_at (scOff ?s1 + 1) ?s1 = CHR ''.'' \<and> s_at (scOff ?s1 + 2) ?s1 = CHR ''.'')"
  have eq: "scanDecimal (scOff s) s = dec_tail (scOff s) ?e (s_at (scOff s) s = CHR ''.'' \<or> ?dot)
      (if ?dot then fraction isDecDigit ''decimal'' (scOff s) (?e = scOff s) ''floating-point literal has no digits'' ?s1 else ?s1)"
    unfolding scanDecimal_def Let_def int_part_def ..
  show ?thesis
  proof (cases ?dot)
    case True
    show ?thesis using e eq [unfolded if_P [OF True]] True by blast
  next
    case False
    show ?thesis using e eq [unfolded if_not_P [OF False]] False by blast
  qed
qed

lemma scanDecimal_reads:
  assumes "scOff s < length (scSrc s)"
  shows "reads_on s (snd (scanDecimal (scOff s) s))"
  using scanDecimal_shape [OF assms] assms by (auto intro!: dec_tailI fractionI int_part_reads)

lemma fraction_reads:
  assumes "scOff s < length (scSrc s)" "start < length (scSrc s)"
  shows "reads_on (adv 1 s) (fraction ok radix start n m s)"
proof -
  have "reads_on (adv 1 s) (digits ok (adv 1 s))" by (rule digits_reads)
  note b = this reads_bound [OF this]
  show ?thesis using b assms by (auto simp: fraction_def Let_def intro!: reads_errorI checkRunI)
qed

lemma scanDecimal_advances:
  assumes "scOff s < length (scSrc s)" "isDecDigit (scSrc s ! scOff s) \<or>
    scSrc s ! scOff s = CHR ''.'' \<and> scOff s + 1 < length (scSrc s) \<and> isDecDigit (scSrc s ! (scOff s + 1))"
  shows "scOff s < scOff (snd (scanDecimal (scOff s) s))"
proof -
  let ?t = "snd (scanDecimal (scOff s) s)" and ?s1 = "int_part s"
  note b = reads_src [OF int_part_reads, of s] reads_bound [OF int_part_reads, of s] reads_le [OF int_part_reads, of s]
  have next1: "scOff s < scOff ?s1" if q: "s_at (scOff ?s1) ?s1 \<noteq> CHR ''.'' \<or> s_at (scOff ?s1 + 1) ?s1 = CHR ''.''"
  proof -
    have n: "s_at (scOff s) s \<noteq> CHR ''.''" using q assms by (auto simp: int_part_def s_at_def isDecDigit_def)
    then have "isDecDigit (scSrc s ! scOff s)" using assms by (auto simp: s_at_def)
    then show ?thesis using n assms(1) skip_while_gt [of "scOff s" "scSrc s"] by (simp add: int_part_def digits_def)
  qed
  obtain e f where e: "e \<le> length (scSrc s)" and sh: "scanDecimal (scOff s) s = dec_tail (scOff s) e f ?s1 \<and>
       (s_at (scOff ?s1) ?s1 \<noteq> CHR ''.'' \<or> s_at (scOff ?s1 + 1) ?s1 = CHR ''.'') \<or>
     s_at (scOff ?s1) ?s1 = CHR ''.'' \<and>
       (\<exists>n m. scanDecimal (scOff s) s = dec_tail (scOff s) e f (fraction isDecDigit ''decimal'' (scOff s) n m ?s1))"
    using scanDecimal_shape [OF assms(1)] by blast
  from sh show ?thesis
  proof
    assume "scanDecimal (scOff s) s = dec_tail (scOff s) e f ?s1 \<and>
      (s_at (scOff ?s1) ?s1 \<noteq> CHR ''.'' \<or> s_at (scOff ?s1 + 1) ?s1 = CHR ''.'')"
    then show ?thesis using next1 reads_le [of ?s1 ?t] dec_tailI [OF reads_refl, of "scOff s" ?s1 e f] b assms(1) e by simp
  next
    assume "s_at (scOff ?s1) ?s1 = CHR ''.'' \<and>
       (\<exists>n m. scanDecimal (scOff s) s = dec_tail (scOff s) e f (fraction isDecDigit ''decimal'' (scOff s) n m ?s1))"
    then obtain n m where d: "s_at (scOff ?s1) ?s1 = CHR ''.''"
      and t: "scanDecimal (scOff s) s = dec_tail (scOff s) e f (fraction isDecDigit ''decimal'' (scOff s) n m ?s1)" by blast
    then have o: "scOff ?s1 < length (scSrc ?s1)" by (auto simp: s_at_def split: if_splits)
    have "reads_on (adv 1 ?s1) ?t" unfolding t
      using o b assms(1) e by (intro dec_tailI fraction_reads) simp_all
    then show ?thesis using reads_le [of "adv 1 ?s1" ?t] b by simp
  qed
qed

lemma scanNumber_advances:
  assumes "scOff s < length (scSrc s)" "isDecDigit (scSrc s ! scOff s) \<or>
    scSrc s ! scOff s = CHR ''.'' \<and> scOff s + 1 < length (scSrc s) \<and> isDecDigit (scSrc s ! (scOff s + 1))"
  shows "reads_on s (snd (scanNumber s)) \<and> scOff s < scOff (snd (scanNumber s))"
proof -
  have two: "scOff s + 2 \<le> length (scSrc s)" if "s_at (scOff s + 1) s \<in> {CHR ''x'', CHR ''X'', CHR ''b'', CHR ''B''}"
    using that by (auto simp: s_at_def split: if_splits)
  have a2: "reads_on s t \<and> scOff s < scOff t" if "scOff s + 2 \<le> length (scSrc s)" "reads_on (adv 2 s) t" for t
    using reads_trans [OF reads_adv [OF that(1)] that(2)] reads_le [OF that(2)] by simp
  have "reads_on (adv 2 s) (digits isBinDigit (adv 2 s))" by (rule digits_reads)
  note b = this reads_bound [OF this]
  have "reads_on (adv 2 s) (intSuffix (checkRun (scOff s + 2) (scOff (digits isBinDigit (adv 2 s))) isBinDigit ''binary'' (digits isBinDigit (adv 2 s))))"
    if "scOff s + 2 \<le> length (scSrc s)" using that b by (intro intSuffixI checkRunI) simp_all
  note bin = this
  consider "s_at (scOff s) s = CHR ''0''" "s_at (scOff s + 1) s \<in> {CHR ''x'', CHR ''X''}"
    | "s_at (scOff s) s = CHR ''0''" "s_at (scOff s + 1) s \<in> {CHR ''b'', CHR ''B''}"
    | "\<not> (s_at (scOff s) s = CHR ''0'' \<and> s_at (scOff s + 1) s \<in> {CHR ''x'', CHR ''X''})"
      "\<not> (s_at (scOff s) s = CHR ''0'' \<and> s_at (scOff s + 1) s \<in> {CHR ''b'', CHR ''B''})" by blast
  then show ?thesis
  proof cases
    case 1
    then have "scanNumber s = scanHexNumber (scOff s) s" by (simp add: scanNumber_def)
    then show ?thesis using a2 two scanHexNumber_reads [of s "scOff s"] 1 assms(1) by auto
  next
    case 2
    then have "snd (scanNumber s) = intSuffix (checkRun (scOff s + 2) (scOff (digits isBinDigit (adv 2 s))) isBinDigit ''binary'' (digits isBinDigit (adv 2 s)))"
      by (auto simp: scanNumber_def Let_def)
    then show ?thesis using a2 two bin 2(2) by auto
  next
    case 3
    have "scanNumber s = scanDecimal (scOff s) s" unfolding scanNumber_def Let_def if_not_P [OF 3(1)] if_not_P [OF 3(2)] ..
    then show ?thesis using scanDecimal_reads [OF assms(1)] scanDecimal_advances [OF assms] by simp
  qed
qed

lemma scanNumber_kind: "fst (scanNumber s) \<in> {INT_LIT, FLOAT_LIT}"
proof -
  have "fst (hex_tail a d t) \<in> {INT_LIT, FLOAT_LIT}" "fst (dec_tail a e f t) \<in> {INT_LIT, FLOAT_LIT}" for a d e f t
    by (simp_all add: hex_tail_def dec_tail_def Let_def)
  then show ?thesis unfolding scanNumber_def scanHexNumber_def scanDecimal_def Let_def by simp
qed

section \<open>Emitting tokens\<close>

text \<open>What the text of a token says about its kind and its tag.\<close>

definition spelled :: "string \<Rightarrow> tkind \<Rightarrow> tctx \<Rightarrow> bool" where
  "spelled lit k c \<longleftrightarrow>
     (if k = IDENT then Lookup lit = IDENT \<and> c = LookupCtx lit
      else if k \<in> {INT_LIT, FLOAT_LIT, CHAR_LIT, STRING_LIT, TEXTBLOCK, ILLEGAL} then c = CtxNone
      else (IsOperator k \<or> IsSeparator k \<or> IsKeyword k \<or> k \<in> {TRUE, FALSE, NULL, NON_SEALED}) \<and> kind_String k = lit)"

definition frames_ok :: "scanner \<Rightarrow> bool" where
  "frames_ok s \<longleftrightarrow> list_all (\<lambda>f. frPos f < length (scSrc s)) (scOpen s)"

text \<open>A step that emits one token, for the text from the old offset to the new one.\<close>

definition emits :: "scanner \<Rightarrow> scanner \<Rightarrow> bool" where
  "emits s t \<longleftrightarrow> scSrc t = scSrc s \<and> scMode t = scMode s \<and> scOff s < scOff t \<and> scOff t \<le> length (scSrc s) \<and> \<not> scGap t \<and> \<not> scNl t \<and>
     (frames_ok s \<longrightarrow> frames_ok t \<and> reports s t) \<and>
     (\<exists>k c. spelled (substr (scSrc s) (scOff s) (scOff t)) k c \<and>
        scToks t = scToks s @ [\<lparr>tokKind = k, tokCtx = c, tokFlags = token_flags s, tokPos = fl_Pos (scOff s), tokEnd = fl_Pos (scOff t)\<rparr>])"

lemma emit_frame [simp]:
  "scSrc (emit k c p e s) = scSrc s" "scMode (emit k c p e s) = scMode s" "scOff (emit k c p e s) = scOff s"
  "scOpen (emit k c p e s) = scOpen s" "scDiags (emit k c p e s) = scDiags s" "scReported (emit k c p e s) = scReported s"
  "\<not> scGap (emit k c p e s)" "\<not> scNl (emit k c p e s)"
  by (simp_all add: emit_def)

lemma emitI:
  assumes "reads_on s t" "scOff s < scOff t" "scOff t \<le> length (scSrc s)"
    and "spelled (substr (scSrc s) (scOff s) (scOff t)) k c" "pos = scOff s" "e = scOff t"
  shows "emits s (emit k c pos e t)"
proof -
  have "token_flags t = token_flags s" using assms(1) by (simp add: reads_on_def token_flags_def)
  then show ?thesis using assms by (auto simp: emits_def reads_on_def emit_def frames_ok_def reports_def)
qed

lemma literal_spelled: "k \<in> {INT_LIT, FLOAT_LIT, CHAR_LIT, STRING_LIT, TEXTBLOCK, ILLEGAL} \<Longrightarrow> spelled lit k CtxNone"
  by (auto simp: spelled_def)

lemma illegalRune_emits:
  assumes "scOff s < length (scSrc s)"
  shows "emits s (illegalRune (scOff s) s)"
proof -
  let ?d = "decode_rune (bytes_of_string (drop (scOff s) (scSrc s)))"
  have w: "1 \<le> snd ?d" "scOff s + snd ?d \<le> length (scSrc s)"
    using decode_rune_scalar(2,3) [of "bytes_of_string (drop (scOff s) (scSrc s))" "fst ?d" "snd ?d"] assms
    by (auto simp: bytes_of_string_def)
  have "reads_on s (set_off (scOff s + snd ?d) s)" using w by (simp add: reads_on_def reports_def)
  then show ?thesis unfolding illegalRune_def Let_def using w assms
    by (auto intro!: emitI reads_errorI literal_spelled)
qed

lemma emit_number_emits:
  assumes "scOff s < length (scSrc s)" "isDecDigit (scSrc s ! scOff s) \<or>
    scSrc s ! scOff s = CHR ''.'' \<and> scOff s + 1 < length (scSrc s) \<and> isDecDigit (scSrc s ! (scOff s + 1))"
  shows "emits s (emit_number (scOff s) s)"
proof -
  have r: "reads_on s (snd (scanNumber s))" "scOff s < scOff (snd (scanNumber s))" using scanNumber_advances [OF assms] by simp_all
  have "scOff (snd (scanNumber s)) \<le> length (scSrc s)" using reads_bound [OF r(1)] assms(1) by simp
  then show ?thesis using r literal_spelled [of "fst (scanNumber s)"] scanNumber_kind [of s]
    by (auto simp: emit_number_def split_beta intro!: emitI)
qed

lemma char_loop_emits:
  assumes "reads_on s t" "scOff s < scOff t" "scOff t \<le> length (scSrc s)"
  shows "emits s (char_loop (scOff s) n t)"
  using assms
proof (induction "scOff s" n t rule: char_loop.induct)
  case (1 n t)
  have src: "scSrc t = scSrc s" by (rule reads_src [OF "1.prems"(1)])
  have p: "scOff s < length (scSrc s)" using "1.prems" by simp
  have fin: "emits s (emit CHAR_LIT CtxNone (scOff s) e u)" if "reads_on s u" "scOff s < scOff u" "scOff u \<le> length (scSrc s)" "e = scOff u" for u e
    using that by (intro emitI literal_spelled) auto
  have err: "emits s (emit CHAR_LIT CtxNone (scOff s) (scOff t) (s_error (scOff s) e m t))" for e m
    using reads_errorI [OF "1.prems"(1) p] "1.prems" by (intro fin) simp_all
  consider "\<not> scOff t < length (scSrc t)" | "scOff t < length (scSrc t)" "scSrc t ! scOff t = CHR 0x27"
    | "scOff t < length (scSrc t)" "scSrc t ! scOff t \<noteq> CHR 0x27" "scSrc t ! scOff t = LF \<or> scSrc t ! scOff t = CR"
    | "scOff t < length (scSrc t)" "scSrc t ! scOff t \<noteq> CHR 0x27" "\<not> (scSrc t ! scOff t = LF \<or> scSrc t ! scOff t = CR)" "scSrc t ! scOff t = backslash"
    | "scOff t < length (scSrc t)" "scSrc t ! scOff t \<noteq> CHR 0x27" "\<not> (scSrc t ! scOff t = LF \<or> scSrc t ! scOff t = CR)" "scSrc t ! scOff t \<noteq> backslash"
    by blast
  then show ?case
  proof cases
    case 1
    then show ?thesis using err by (simp add: char_loop.simps [of _ n t])
  next
    case 2
    have "reads_on s (adv 1 t)" using "1.prems" 2 src by (intro reads_advI) simp_all
    note a = this reads_errorI [OF this p]
    show ?thesis using 2 src "1.prems" fin [OF a(1)] fin [OF a(2)] by (simp add: char_loop.simps [of _ n t] Let_def)
  next
    case 3
    then show ?thesis using err by (simp add: char_loop.simps [of _ n t] Let_def)
  next
    case 4
    note e = escape_reads [OF 4(1), of False]
    have r: "reads_on s (escape False t)" using reads_trans [OF "1.prems"(1)] e by blast
    then have "emits s (char_loop (scOff s) (n + 1) (escape False t))"
      using "1.hyps"(1) [OF 4(1) refl 4(2,3,4)] e "1.prems" reads_bound [OF r] p by auto
    then show ?thesis using 4 by (simp add: char_loop.simps [of _ n t] Let_def)
  next
    case 5
    note e = rune_reads [OF 5(1)]
    have r: "reads_on s (adv (snd (s_rune (scSrc t) (scOff t))) t)" using reads_trans [OF "1.prems"(1)] e by blast
    then have "emits s (char_loop (scOff s) (n + 1) (adv (snd (s_rune (scSrc t) (scOff t))) t))"
      using "1.hyps"(2) [OF 5(1) refl 5(2,3,4)] e "1.prems" reads_bound [OF r] p by auto
    then show ?thesis using 5 by (simp add: char_loop.simps [of _ n t] Let_def)
  qed
qed

lemma string_loop_emits:
  assumes "reads_on s t" "scOff s < scOff t" "scOff t \<le> length (scSrc s)"
  shows "emits s (string_loop (scOff s) t)"
  using assms
proof (induction "scOff s" t rule: string_loop.induct)
  case (1 t)
  have src: "scSrc t = scSrc s" by (rule reads_src [OF "1.prems"(1)])
  have p: "scOff s < length (scSrc s)" using "1.prems" by simp
  have fin: "emits s (emit STRING_LIT CtxNone (scOff s) e u)" if "reads_on s u" "scOff s < scOff u" "scOff u \<le> length (scSrc s)" "e = scOff u" for u e
    using that by (intro emitI literal_spelled) auto
  have err: "emits s (emit STRING_LIT CtxNone (scOff s) (scOff t) (s_error (scOff s) e m t))" for e m
    using reads_errorI [OF "1.prems"(1) p] "1.prems" by (intro fin) simp_all
  show ?case
  proof (cases "scOff t < length (scSrc t)")
    case False
    then show ?thesis using err by (simp add: string_loop.simps [of _ t])
  next
    case in_src: True
    note e = escape_reads [OF in_src, of False] and r = rune_reads [OF in_src]
    note e' = reads_trans [OF "1.prems"(1) conjunct1 [OF e]] and r' = reads_trans [OF "1.prems"(1) conjunct1 [OF r]]
    have a: "emits s (emit STRING_LIT CtxNone (scOff s) (scOff t + 1) (adv 1 t))"
      using in_src src "1.prems" by (intro fin reads_advI) simp_all
    show ?thesis
    proof (cases "scSrc t ! scOff t = CHR 0x22 \<or> scSrc t ! scOff t = LF \<or> scSrc t ! scOff t = CR")
      case True
      then show ?thesis using in_src a err unfolding string_loop.simps [of _ t] by auto
    next
      case False
      show ?thesis
      proof (cases "scSrc t ! scOff t = backslash")
        case True
        have "emits s (string_loop (scOff s) (escape False t))"
          using "1.hyps"(1) [OF in_src refl _ _ True] False e e' reads_bound [OF e'] "1.prems" p by auto
        then show ?thesis using True False in_src by (simp add: string_loop.simps [of _ t] Let_def)
      next
        case q: False
        have "emits s (string_loop (scOff s) (adv (snd (s_rune (scSrc t) (scOff t))) t))"
          using "1.hyps"(2) [OF in_src refl _ _ q] False r r' reads_bound [OF r'] "1.prems" p by auto
        then show ?thesis using q False in_src by (simp add: string_loop.simps [of _ t] Let_def)
      qed
    qed
  qed
qed

lemma block_loop_emits:
  assumes "reads_on s t" "scOff s < scOff t" "scOff t \<le> length (scSrc s)"
  shows "emits s (block_loop (scOff s) t)"
  using assms
proof (induction "scOff s" t rule: block_loop.induct)
  case (1 t)
  have src: "scSrc t = scSrc s" by (rule reads_src [OF "1.prems"(1)])
  have p: "scOff s < length (scSrc s)" using "1.prems" by simp
  have fin: "emits s (emit TEXTBLOCK CtxNone (scOff s) e u)" if "reads_on s u" "scOff s < scOff u" "scOff u \<le> length (scSrc s)" "e = scOff u" for u e
    using that by (intro emitI literal_spelled) auto
  show ?case
  proof (cases "scOff t < length (scSrc t)")
    case False
    have "emits s (emit TEXTBLOCK CtxNone (scOff s) (scOff t) (s_error (scOff s) e m t))" for e m
      using reads_errorI [OF "1.prems"(1) p] "1.prems" by (intro fin) simp_all
    then show ?thesis using False by (simp add: block_loop.simps [of _ t])
  next
    case in_src: True
    consider "scSrc t ! scOff t = backslash" | "scSrc t ! scOff t \<noteq> backslash" "scSrc t ! scOff t = CHR 0x22" "s_has [CHR 0x22, CHR 0x22, CHR 0x22] t"
      | "scSrc t ! scOff t \<noteq> backslash" "scSrc t ! scOff t = CHR 0x22" "\<not> s_has [CHR 0x22, CHR 0x22, CHR 0x22] t"
      | "scSrc t ! scOff t \<noteq> backslash" "scSrc t ! scOff t \<noteq> CHR 0x22" by blast
    then show ?thesis
    proof cases
      case 1
      let ?u = "set_off (min (scOff t + 2) (length (scSrc t))) t"
      have "reads_on t ?u" using in_src by (auto simp: reads_on_def reports_def)
      note u = reads_trans [OF "1.prems"(1) this]
      have "emits s (block_loop (scOff s) ?u)" using "1.hyps"(1) [OF in_src refl 1] u reads_bound [OF u] p "1.prems" in_src src by auto
      then show ?thesis using 1 in_src by (simp add: block_loop.simps [of _ t] Let_def)
    next
      case 2
      have l: "scOff t + 3 \<le> length (scSrc s)" using 2(3) src by (simp add: s_has_def)
      have "emits s (emit TEXTBLOCK CtxNone (scOff s) (scOff t + 3) (adv 3 t))" using l "1.prems" by (intro fin reads_advI) simp_all
      then show ?thesis using 2 in_src by (simp add: block_loop.simps [of _ t] Let_def)
    next
      case 3
      have "reads_on s (adv 1 t)" using in_src src "1.prems"(1) by (intro reads_advI) simp_all
      then have "emits s (block_loop (scOff s) (adv 1 t))" using "1.hyps"(2) [OF in_src refl 3] "1.prems" in_src src by simp
      then show ?thesis using 3 in_src by (simp add: block_loop.simps [of _ t] Let_def)
    next
      case 4
      note r = rune_reads [OF in_src]
      note r' = reads_trans [OF "1.prems"(1) conjunct1 [OF r]]
      have "emits s (block_loop (scOff s) (adv (snd (s_rune (scSrc t) (scOff t))) t))"
        using "1.hyps"(3) [OF in_src refl 4] r r' reads_bound [OF r'] "1.prems" p by auto
      then show ?thesis using 4 in_src by (simp add: block_loop.simps [of _ t] Let_def)
    qed
  qed
qed

section \<open>Longest match\<close>

text \<open>The separators and operators with their spellings.\<close>

definition punct_table :: "(tkind \<times> string) list" where
  "punct_table = [(ASSIGN, ''=''), (GTR, ''>''), (LSS, ''<''), (NOT_OP, ''!''), (TILDE, ''~''), (QUESTION, ''?''), (COLON, '':''), (ARROW, ''->''), (EQL, ''==''), (GEQ, ''>=''), (LEQ, ''<=''), (NEQ, ''!=''), (LAND, ''&&''), (LOR, ''||''), (INC, ''++''), (DEC, ''--''), (ADD, ''+''), (SUB, ''-''), (MUL, ''*''), (QUO, ''/''), (AND_OP, ''&''), (OR_OP, ''|''), (XOR_OP, ''^''), (REM, ''%''), (SHL, ''<<''), (ADD_ASSIGN, ''+=''), (SUB_ASSIGN, ''-=''), (MUL_ASSIGN, ''*=''), (QUO_ASSIGN, ''/=''), (AND_ASSIGN, ''&=''), (OR_ASSIGN, ''|=''), (XOR_ASSIGN, ''^=''), (REM_ASSIGN, ''%=''), (SHL_ASSIGN, ''<<=''), (LPAREN, ''(''), (RPAREN, '')''), (LBRACE, ''{''), (RBRACE, ''}''), (LBRACK, ''[''), (RBRACK, '']''), (SEMICOLON, '';''), (COMMA, '',''), (PERIOD, ''.''), (ELLIPSIS, ''...''), (AT, ''@''), (COLONCOLON, ''::'')]"

lemma punct_table_spelled: "list_all (\<lambda>(k, s). kind_String k = s \<and> (IsOperator k \<or> IsSeparator k) \<and> k \<notin> {IDENT, ILLEGAL}) punct_table"
proof -
  have "set punct_table \<subseteq> set kindStrings" unfolding punct_table_def kindStrings_def by simp
  moreover have "list_all (\<lambda>(k, s). (IsOperator k \<or> IsSeparator k) \<and> k \<notin> {IDENT, ILLEGAL}) punct_table"
    unfolding punct_table_def by (simp add: IsOperator_def IsSeparator_def)
  ultimately show ?thesis using kind_String_table by (auto simp: list_all_iff)
qed

lemma operator_in_table:
  assumes "IsOperator k \<or> IsSeparator k"
  shows "(k, kind_String k) \<in> set punct_table"
proof -
  have "unat k \<in> {unat operatorBeg + 1 ..< unat operatorEnd} \<union> {unat separatorBeg + 1 ..< unat separatorEnd}"
    using assms by (auto simp: IsOperator_def IsSeparator_def word_less_nat_alt)
  then have "k \<in> word_of_nat ` ({unat operatorBeg + 1 ..< unat operatorEnd} \<union> {unat separatorBeg + 1 ..< unat separatorEnd})"
    by (metis imageI of_nat_unat ucast_id)
  moreover have "word_of_nat ` ({unat operatorBeg + 1 ..< unat operatorEnd} \<union> {unat separatorBeg + 1 ..< unat separatorEnd}) \<subseteq> fst ` set punct_table"
    unfolding atLeastLessThan_upt set_append [symmetric] set_map [symmetric] punct_table_def by (simp add: upt_rec_numeral)
  ultimately obtain s where "(k, s) \<in> set punct_table" by auto
  then show ?thesis using punct_table_spelled by (auto simp: list_all_iff)
qed

definition table_entry :: "char \<Rightarrow> char \<Rightarrow> char \<Rightarrow> tkind \<times> nat \<Rightarrow> bool" where
  "table_entry c n1 n2 e \<longleftrightarrow> snd e = 0 \<or> snd e \<le> 3 \<and> (fst e, take (snd e) [c, n1, n2]) \<in> set punct_table"

lemma table_entry_if: "(b \<Longrightarrow> table_entry c n1 n2 x) \<Longrightarrow> (\<not> b \<Longrightarrow> table_entry c n1 n2 y) \<Longrightarrow> table_entry c n1 n2 (if b then x else y)"
  by simp

lemma punct_in_table: "table_entry c n1 n2 (punct_of c n1 n2)"
  unfolding punct_of_def by (intro table_entry_if; simp add: table_entry_def punct_table_def)

lemma punct_covers:
  "list_all (\<lambda>(k, str). \<forall>c n1 n2. take (length str) [c, n1, n2] = str \<longrightarrow> length str \<le> snd (punct_of c n1 n2)) punct_table"
  unfolding punct_table_def by (simp add: punct_of_def)

lemma table_no_zero: "(k, str) \<in> set punct_table \<Longrightarrow> CHR 0x00 \<notin> set str"
  unfolding punct_table_def by auto

lemma at_in: "s_at i s \<noteq> CHR 0x00 \<Longrightarrow> i < length (scSrc s) \<and> s_at i s = scSrc s ! i"
  by (auto simp: s_at_def split: if_splits)

lemma substr_nth: "a + 1 \<le> length src \<Longrightarrow> substr src a (a + 1) = [src ! a]"
  "a + 2 \<le> length src \<Longrightarrow> substr src a (a + 2) = [src ! a, src ! (a + 1)]"
  "a + 3 \<le> length src \<Longrightarrow> substr src a (a + 3) = [src ! a, src ! (a + 1), src ! (a + 2)]"
  by (simp_all add: substr_def list_eq_iff_nth_eq nth_Cons less_Suc_eq numeral_eq_Suc split: nat.splits)

lemma punct_spelled:
  assumes "pos < length (scSrc s)" "punct pos s = (k, n)" "n \<noteq> 0"
  shows "pos + n \<le> length (scSrc s) \<and> (k, substr (scSrc s) pos (pos + n)) \<in> set punct_table"
proof -
  let ?cs = "[scSrc s ! pos, s_at (pos + 1) s, s_at (pos + 2) s]"
  have t: "n \<le> 3" "(k, take n ?cs) \<in> set punct_table" using punct_in_table [of "scSrc s ! pos" "s_at (pos + 1) s" "s_at (pos + 2) s"] assms(2,3)
    by (simp_all add: table_entry_def punct_def)
  note z = table_no_zero [OF t(2)]
  consider "n = 1" | "n = 2" | "n = 3" using t(1) assms(3) by linarith
  then show ?thesis
  proof cases
    case 1
    then show ?thesis using t assms(1) by (simp add: substr_nth(1) [simplified])
  next
    case 2
    then have "pos + 1 < length (scSrc s) \<and> s_at (pos + 1) s = scSrc s ! (pos + 1)" using z at_in by (auto simp: numeral_eq_Suc)
    then show ?thesis using 2 t(2) substr_nth(2) [of pos "scSrc s"] by (simp add: numeral_eq_Suc)
  next
    case 3
    then have "pos + 1 < length (scSrc s) \<and> s_at (pos + 1) s = scSrc s ! (pos + 1)"
      "pos + 2 < length (scSrc s) \<and> s_at (pos + 2) s = scSrc s ! (pos + 2)" using z at_in by (auto simp: numeral_eq_Suc)
    then show ?thesis using 3 t(2) substr_nth(3) [of pos "scSrc s"] by (simp add: numeral_eq_Suc)
  qed
qed

text \<open>The byte at the position and the two after it decide, so a spelling that is a prefix of them is found or extended.\<close>

lemma punct_finds:
  assumes "(k, str) \<in> set punct_table" "pos + length str \<le> length (scSrc s)" "substr (scSrc s) pos (pos + length str) = str"
  shows "length str \<le> snd (punct pos s)"
proof -
  have l: "length str = 1 \<or> length str = 2 \<or> length str = 3" using assms(1) by (auto simp: punct_table_def)
  have "take (length str) [scSrc s ! pos, s_at (pos + 1) s, s_at (pos + 2) s] = substr (scSrc s) pos (pos + length str)"
    using l assms(2) substr_nth [of pos "scSrc s"] by (auto simp: s_at_def)
  then show ?thesis using punct_covers assms(1,3) unfolding punct_def list_all_iff by fastforce
qed

section \<open>Every token advances\<close>

lemma ident_end_bounds: "i \<le> ident_end uc src i \<and> (i \<le> length src \<longrightarrow> ident_end uc src i \<le> length src)"
proof (induction uc src i rule: ident_end.induct)
  case (1 uc src i)
  show ?case
  proof (cases "i < length src")
    case True
    obtain r w where rw: "s_rune src i = (r, w)" by fastforce
    have w: "1 \<le> w" "i + w \<le> length src" using s_rune_width [OF True] rw by simp_all
    show ?thesis using 1 [OF True rw [symmetric]] True rw w by (cases "isJavaLetterOrDigit uc r") (auto simp: ident_end.simps [of uc src i])
  next
    case False
    then have "ident_end uc src i = i" by (simp add: ident_end.simps [of uc src i])
    then show ?thesis by simp
  qed
qed

lemma non_sealed_spelled: "spelled ''non-sealed'' NON_SEALED CtxNonSealed"
proof -
  have "(NON_SEALED, ''non-sealed'') \<in> set kindStrings" by (simp add: kindStrings_def)
  from kind_String_table [OF this] show ?thesis by (simp add: spelled_def)
qed

lemma scanIdent_emits:
  assumes "scOff s < length (scSrc s)"
  shows "(fst (scanIdent uc (scOff s) s) \<longrightarrow> emits s (snd (scanIdent uc (scOff s) s))) \<and>
    (\<not> fst (scanIdent uc (scOff s) s) \<longrightarrow> snd (scanIdent uc (scOff s) s) = s)"
proof -
  obtain r w where rw: "s_rune (scSrc s) (scOff s) = (r, w)" by fastforce
  have w: "1 \<le> w" "scOff s + w \<le> length (scSrc s)" using s_rune_width [OF assms] rw by simp_all
  define e where "e = ident_end uc (scSrc s) (scOff s + w)"
  have e: "scOff s < e" "e \<le> length (scSrc s)" using ident_end_bounds [of "scOff s + w" uc "scSrc s"] w by (auto simp: e_def)
  define lit where "lit = substr (scSrc s) (scOff s) e"
  let ?s1 = "set_off e s"
  have r1: "reads_on s ?s1" using e by (simp add: reads_on_def reports_def)
  have ident: "emits s (emit k c (scOff s) e ?s1)" if "spelled lit k c" for k c
    using that e r1 by (intro emitI) (simp_all add: lit_def)
  have kw: "spelled lit (Lookup lit) CtxNone" if "Lookup lit \<noteq> IDENT"
    using Lookup_spelled [OF that] that by (auto simp: spelled_def)
  have idn: "spelled lit IDENT (LookupCtx lit)" if "Lookup lit = IDENT" using that by (simp add: spelled_def)
  have spl: "emits s (snd (spliceNonSealed uc (scOff s) ?s1))" if "lit = ''non''" "fst (spliceNonSealed uc (scOff s) ?s1)"
  proof -
    have a: "e + length ''-sealed'' \<le> length (scSrc s)" "substr (scSrc s) e (e + length ''-sealed'') = ''-sealed''"
      "snd (spliceNonSealed uc (scOff s) ?s1) = emit NON_SEALED CtxNonSealed (scOff s) (e + length ''-sealed'') (set_off (e + length ''-sealed'') ?s1)"
      using that(2) by (auto simp: spliceNonSealed_def Let_def split: if_splits)
    have "substr (scSrc s) (scOff s) (e + length ''-sealed'') = ''non-sealed''"
      using substr_append [of "scOff s" e "e + length ''-sealed''" "scSrc s"] e a(2) that(1) by (simp add: lit_def)
    moreover have "reads_on s (set_off (e + length ''-sealed'') ?s1)" using e a(1) by (simp add: reads_on_def reports_def)
    ultimately show ?thesis unfolding a(3) using e a(1) non_sealed_spelled by (intro emitI) simp_all
  qed
  show ?thesis
  proof (cases "isJavaLetter uc r")
    case False
    then show ?thesis by (simp add: scanIdent_def rw)
  next
    case True
    then show ?thesis using ident kw idn spl
      by (auto simp: scanIdent_def rw Let_def e_def [symmetric] lit_def [symmetric] spliceNonSealed_def)
  qed
qed

lemma track_frame [simp]:
  "scSrc (track k p e s) = scSrc s" "scMode (track k p e s) = scMode s" "scOff (track k p e s) = scOff s" "scToks (track k p e s) = scToks s"
  "scGap (track k p e s) = scGap s" "scNl (track k p e s) = scNl s"
  by (simp_all add: track_def Let_def)

lemma track_ok:
  assumes "p < length (scSrc s)" "frames_ok s"
  shows "reports s (track k p e s) \<and> frames_ok (track k p e s)"
proof -
  have top: "scOpen s \<noteq> [] \<Longrightarrow> frPos (last (scOpen s)) < length (scSrc s)" using assms(2) last_in_set by (fastforce simp: frames_ok_def list_all_iff)
  have b: "list_all P (butlast xs)" if "list_all P xs" for P and xs :: "frame list" using that by (auto simp: list_all_iff dest: in_set_butlastD)
  have r: "reports s t" if "reports (s\<lparr>scReported := True\<rparr>) t" for t using that by (simp add: reports_def)
  have r2: "reports s (t\<lparr>scOpen := x\<rparr>)" if "reports s t" for t x using that by (simp add: reports_def)
  show ?thesis using assms top
    by (auto simp: track_def Let_def frames_ok_def b intro!: reports_refl r r2 reports_error)
qed

lemma scan_punct_emits:
  assumes "scOff s < length (scSrc s)"
  shows "emits s (scan_punct (scOff s) s)"
proof -
  obtain k n where p: "punct (scOff s) s = (k, n)" by fastforce
  show ?thesis
  proof (cases "n = 0")
    case True
    then show ?thesis using p illegalRune_emits [OF assms] by (simp add: scan_punct_def)
  next
    case False
    note q = punct_spelled [OF assms p False]
    then have sp: "spelled (substr (scSrc s) (scOff s) (scOff s + n)) k CtxNone"
      using punct_table_spelled by (fastforce simp: list_all_iff spelled_def)
    let ?t = "track k (scOff s) (scOff s + n) (set_off (scOff s + n) s)"
    have t: "reports s ?t \<and> frames_ok ?t" if "frames_ok s"
      using track_ok [of "scOff s" "set_off (scOff s + n) s" k "scOff s + n"] that assms by (simp add: frames_ok_def reports_def)
    have f: "token_flags ?t = token_flags s" by (simp add: token_flags_def)
    have "reports s (emit k CtxNone (scOff s) (scOff s + n) ?t) \<longleftrightarrow> reports s ?t" "frames_ok (emit k CtxNone (scOff s) (scOff s + n) ?t) \<longleftrightarrow> frames_ok ?t"
      by (simp_all add: reports_def frames_ok_def)
    then show ?thesis using q sp t f False unfolding emits_def
      by (auto simp: scan_punct_def p Let_def emit_def)
  qed
qed

lemma scanTextBlock_emits:
  assumes "s_has [CHR 0x22, CHR 0x22, CHR 0x22] s"
  shows "emits s (scanTextBlock (scOff s) s)"
proof -
  have l: "scOff s + 3 \<le> length (scSrc s)" using assms by (simp add: s_has_def)
  define s2 where "s2 = set_off (skip_while (\<lambda>c. c \<in> {CHR '' '', CHR 0x09, CHR 0x0C}) (scSrc (adv 3 s)) (scOff (adv 3 s))) (adv 3 s)"
  have "reads_on (adv 3 s) s2" unfolding s2_def by (rule reads_skip)
  then have 2: "reads_on s s2" "scOff s + 3 \<le> scOff s2" using reads_trans [OF reads_adv [OF l]] reads_le by fastforce+
  define s3 where "s3 = (if s_at (scOff s2) s2 = LF then adv 1 s2
      else if s_at (scOff s2) s2 = CR then (let t = adv 1 s2 in if s_at (scOff t) t = LF then adv 1 t else t)
      else s_error (scOff s) (scOff s2) ''text block opening delimiter must be followed by a line terminator'' s2)"
  have 3: "reads_on s2 s3"
  proof -
    have a: "reads_on s2 (adv 1 s2)" if "s_at (scOff s2) s2 = LF \<or> s_at (scOff s2) s2 = CR" using that by (intro reads_at) auto
    have b: "reads_on (adv 1 s2) (adv 1 (adv 1 s2))" if "s_at (scOff (adv 1 s2)) (adv 1 s2) = LF" using that by (intro reads_at) auto
    have c: "reads_on s2 (s_error (scOff s) e m s2)" for e m using l reads_src [OF 2(1)] by (intro reads_error) simp
    show ?thesis using a b c reads_trans [of s2 "adv 1 s2" "adv 1 (adv 1 s2)"] unfolding s3_def Let_def by (simp split: if_split)
  qed
  have r: "reads_on s s3" by (rule reads_trans [OF 2(1) 3])
  have "scanTextBlock (scOff s) s = block_loop (scOff s) s3"
    unfolding scanTextBlock_def s3_def s2_def Let_def by (rule refl)
  then show ?thesis using block_loop_emits [OF r] reads_le [OF 3] 2(2) reads_bound [OF r] l by simp
qed

lemma scanToken_emits:
  assumes "scOff s < length (scSrc s)"
  shows "emits s (scanToken uc s)"
proof -
  have a: "reads_on s (adv 1 s)" using assms by (intro reads_adv) simp
  have q: "emits s (scanString (scOff s) s)" "emits s (scanChar (scOff s) s)"
    unfolding scanString_def scanChar_def using a assms by (intro string_loop_emits char_loop_emits; simp)+
  show ?thesis
    using q illegalRune_emits [OF assms] scan_punct_emits [OF assms] scanTextBlock_emits emit_number_emits [OF assms] scanIdent_emits [OF assms, of uc]
    by (auto simp: scanToken_def Let_def split_beta)
qed

end
