(* ===== verification/ScanRun.thy ===== *)
theory ScanRun
  imports ScanSteps SourceSpans
begin

text \<open>
  The main loop of the scanner and what it promises (\<^verbatim>\<open>src/scanner/scanner.go\<close>): the loop ends since every token advances,
  the tokens tile the text up to white space and comments, their flags say what lies before them, and every
  diagnostic is a non-empty span of the text.
\<close>

section \<open>Trivia\<close>

text \<open>What may stand between two tokens: white space, line comments up to a line terminator or the end, block comments
  (up to the first \<open>*/\<close>), and an unterminated block comment at the end.\<close>

definition closes_first :: "string \<Rightarrow> bool" where
  "closes_first b \<longleftrightarrow> (\<forall>i < length b. \<not> ((b @ ''*/'') ! i = CHR ''*'' \<and> (b @ ''*/'') ! (i + 1) = CHR ''/''))"

inductive trivia :: "string \<Rightarrow> bool" where
  trivia_nil: "trivia []"
| trivia_white: "c \<in> {CHR '' '', CHR 0x09, CHR 0x0C, LF, CR} \<Longrightarrow> trivia x \<Longrightarrow> trivia (c # x)"
| trivia_line: "LF \<notin> set b \<Longrightarrow> CR \<notin> set b \<Longrightarrow> x = [] \<or> hd x \<in> {LF, CR} \<Longrightarrow> trivia x \<Longrightarrow> trivia (''//'' @ b @ x)"
| trivia_block: "closes_first b \<Longrightarrow> trivia x \<Longrightarrow> trivia (''/*'' @ b @ ''*/'' @ x)"
| trivia_open: "trivia (''/*'' @ b)"

text \<open>One step of \<open>skipTrivia\<close> over white space or a comment, and a run of them.\<close>

definition newline_in :: "string \<Rightarrow> bool" where
  "newline_in x \<longleftrightarrow> LF \<in> set x \<or> CR \<in> set x"

definition skips_one :: "scanner \<Rightarrow> scanner \<Rightarrow> bool" where
  "skips_one s t \<longleftrightarrow> scSrc t = scSrc s \<and> scMode t = scMode s \<and> scOpen t = scOpen s \<and> scOff s < scOff t \<and> scOff t \<le> length (scSrc s) \<and>
     scGap t \<and> (scNl t \<longleftrightarrow> scNl s \<or> newline_in (substr (scSrc s) (scOff s) (scOff t))) \<and> reports s t \<and>
     (\<exists>cs. scToks t = scToks s @ cs \<and> list_all (\<lambda>c. tokKind c = COMMENT) cs) \<and>
     (\<forall>j. scOff t \<le> j \<and> j \<le> length (scSrc s) \<and> trivia (substr (scSrc s) (scOff t) j) \<longrightarrow> trivia (substr (scSrc s) (scOff s) j))"

definition skips :: "scanner \<Rightarrow> scanner \<Rightarrow> bool" where
  "skips s t \<longleftrightarrow> scSrc t = scSrc s \<and> scMode t = scMode s \<and> scOpen t = scOpen s \<and> scOff s \<le> scOff t \<and> scOff t \<le> length (scSrc s) \<and>
     (scGap t \<longleftrightarrow> scGap s \<or> scOff s < scOff t) \<and> (scNl t \<longleftrightarrow> scNl s \<or> newline_in (substr (scSrc s) (scOff s) (scOff t))) \<and> reports s t \<and>
     (\<exists>cs. scToks t = scToks s @ cs \<and> list_all (\<lambda>c. tokKind c = COMMENT) cs \<and> (scOff t = scOff s \<longrightarrow> cs = [])) \<and>
     trivia (substr (scSrc s) (scOff s) (scOff t))"

lemma substr_empty [simp]: "substr x i i = []"
  by (simp add: substr_def)

lemma skips_refl: "scOff s \<le> length (scSrc s) \<Longrightarrow> skips s s"
  by (simp add: skips_def newline_in_def reports_def trivia_nil)

lemma skips_step:
  assumes "skips_one s t" "skips t u"
  shows "skips s u"
proof -
  have a: "substr (scSrc s) (scOff s) (scOff u) = substr (scSrc s) (scOff s) (scOff t) @ substr (scSrc s) (scOff t) (scOff u)"
    using assms by (simp add: skips_one_def skips_def substr_append)
  have "trivia (substr (scSrc s) (scOff s) (scOff u))" using assms by (auto simp: skips_one_def skips_def)
  moreover have "reports s u" using assms reports_trans [of s t u] by (simp add: skips_one_def skips_def)
  moreover have "newline_in (substr (scSrc s) (scOff s) (scOff u)) \<longleftrightarrow>
      newline_in (substr (scSrc s) (scOff s) (scOff t)) \<or> newline_in (substr (scSrc s) (scOff t) (scOff u))"
    unfolding a by (auto simp: newline_in_def)
  ultimately show ?thesis using assms by (auto simp: skips_one_def skips_def)
qed

lemma white_skips:
  assumes "scOff s < length (scSrc s)" "scSrc s ! scOff s \<in> {CHR '' '', CHR 0x09, CHR 0x0C, LF, CR}"
    and "nl \<longleftrightarrow> scNl s \<or> scSrc s ! scOff s \<in> {LF, CR}"
  shows "skips_one s (adv 1 (s\<lparr>scGap := True, scNl := nl\<rparr>))"
proof -
  have "substr (scSrc s) (scOff s) j = scSrc s ! scOff s # substr (scSrc s) (scOff s + 1) j" if "scOff s + 1 \<le> j" for j
    using substr_append [of "scOff s" "scOff s + 1" j "scSrc s"] substr_nth(1) [of "scOff s" "scSrc s"] that assms(1) by simp
  then show ?thesis using assms trivia_white substr_nth(1) [of "scOff s" "scSrc s"]
    by (auto simp: skips_one_def reports_def newline_in_def)
qed

lemma comment_reports: "reports s (comment p e m t) \<longleftrightarrow> reports s t"
  by (simp add: reports_def)

lemma comment_toks: "\<exists>cs. scToks (comment p e m s) = scToks s @ cs \<and> list_all (\<lambda>c. tokKind c = COMMENT) cs"
  by (simp add: comment_def Let_def)

lemma comment_nl: "scNl (comment p e m s) \<longleftrightarrow> m \<or> scNl s"
  by (simp add: comment_def Let_def)

lemma substr_mem: "c \<in> set (substr s i j) \<Longrightarrow> j \<le> length s \<Longrightarrow> \<exists>k. i \<le> k \<and> k < j \<and> s ! k = c"
  by (auto simp: substr_def in_set_conv_nth) (metis le_add1 less_diff_conv add.commute nth_drop le_trans less_imp_le_nat)

lemma substr_hd: "i < j \<Longrightarrow> j \<le> length s \<Longrightarrow> substr s i j \<noteq> [] \<and> hd (substr s i j) = s ! i"
  by (auto simp: substr_def hd_drop_conv_nth)

lemma line_comment_skips:
  assumes "scOff s + 1 < length (scSrc s)" "scSrc s ! scOff s = CHR ''/''" "scSrc s ! (scOff s + 1) = CHR ''/''"
  shows "skips_one s (scanLineComment s)"
proof -
  let ?p = "\<lambda>c. c \<noteq> LF \<and> c \<noteq> CR"
  define e where "e = skip_while ?p (scSrc s) (scOff s + 2)"
  have e: "scOff s + 2 \<le> e" "e \<le> length (scSrc s)" using skip_while_ge skip_while_le assms(1) by (simp_all add: e_def)
  define b where "b = substr (scSrc s) (scOff s + 2) e"
  have nb: "LF \<notin> set b" "CR \<notin> set b"
    using substr_mem [of _ "scSrc s" "scOff s + 2" e] skip_while_all [of "scOff s + 2" _ ?p "scSrc s"] e by (fastforce simp: b_def e_def)+
  have two: "substr (scSrc s) (scOff s) (scOff s + 2) = ''//''" using substr_nth(2) [of "scOff s" "scSrc s"] assms by simp
  have j: "substr (scSrc s) (scOff s) j = ''//'' @ b @ substr (scSrc s) e j" if "e \<le> j" for j
    using substr_append [of "scOff s" "scOff s + 2" j "scSrc s"] substr_append [of "scOff s + 2" e j "scSrc s"] two that e by (simp add: b_def)
  have h: "substr (scSrc s) e j = [] \<or> hd (substr (scSrc s) e j) \<in> {LF, CR}" if "e \<le> j" "j \<le> length (scSrc s)" for j
    using skip_while_stop [of ?p "scSrc s" "scOff s + 2"] substr_hd [of e j "scSrc s"] that by (cases "e = j") (auto simp: e_def)
  have t: "scanLineComment s = comment (scOff s) e False (set_off e (adv 2 s))" by (simp add: scanLineComment_def Let_def e_def)
  have "trivia (substr (scSrc s) (scOff s) j)" if "e \<le> j" "j \<le> length (scSrc s)" "trivia (substr (scSrc s) e j)" for j
    unfolding j [OF that(1)] by (rule trivia_line [OF nb h [OF that(1,2)] that(3)])
  moreover have "\<not> newline_in (substr (scSrc s) (scOff s) e)" using j [of e] nb by (simp add: newline_in_def)
  ultimately show ?thesis unfolding t skips_one_def using e comment_toks [of _ _ _ "set_off e (adv 2 s)"]
    by (auto simp: comment_reports comment_nl reports_def)
qed

lemma closes_first_Cons: "closes_first (c # b) \<longleftrightarrow> \<not> (c = CHR ''*'' \<and> (b @ ''*/'') ! 0 = CHR ''/'') \<and> closes_first b"
  unfolding closes_first_def by (simp add: All_less_Suc2)

text \<open>Where a block comment that starts before the offset ends.\<close>

definition block_end :: "string \<Rightarrow> nat \<Rightarrow> nat \<Rightarrow> bool" where
  "block_end src i e \<longleftrightarrow> i \<le> e \<and> e \<le> length src \<and> ((\<exists>b. substr src i e = b @ ''*/'' \<and> closes_first b) \<or> e = length src)"

lemma comment_loop_ends:
  assumes "scOff s \<le> length (scSrc s)" "p < length (scSrc s)"
  shows "\<exists>u m'. comment_loop p m s = comment p (scOff u) m' u \<and> reads_on s u \<and> block_end (scSrc s) (scOff s) (scOff u) \<and>
    (m' \<longleftrightarrow> m \<or> newline_in (substr (scSrc s) (scOff s) (scOff u)))"
  using assms
proof (induction p m s rule: comment_loop.induct)
  case (1 p m s)
  let ?P = "\<lambda>m s x. \<exists>u m'. x = comment p (scOff u) m' u \<and> reads_on s u \<and> block_end (scSrc s) (scOff s) (scOff u) \<and>
    (m' \<longleftrightarrow> m \<or> newline_in (substr (scSrc s) (scOff s) (scOff u)))"
  have step: "?P m s x" if c: "scOff s < length (scSrc s)" "\<not> (scSrc s ! scOff s = CHR ''*'' \<and> s_at (scOff s + 1) s = CHR ''/'')"
    and x: "?P m2 (adv 1 s) x" "m2 \<longleftrightarrow> m \<or> scSrc s ! scOff s \<in> {LF, CR}" for x m2
  proof -
    obtain u m' where u: "x = comment p (scOff u) m' u" "reads_on (adv 1 s) u" "block_end (scSrc s) (scOff s + 1) (scOff u)"
      "m' \<longleftrightarrow> m2 \<or> newline_in (substr (scSrc s) (scOff s + 1) (scOff u))" using x(1) by auto
    have r: "reads_on s u" using reads_trans [OF reads_adv u(2)] c(1) by simp
    have s: "substr (scSrc s) (scOff s) (scOff u) = scSrc s ! scOff s # substr (scSrc s) (scOff s + 1) (scOff u)"
      using substr_append [of "scOff s" "scOff s + 1" "scOff u" "scSrc s"] substr_nth(1) [of "scOff s" "scSrc s"] c(1) u(3)
      by (simp add: block_end_def)
    have "block_end (scSrc s) (scOff s) (scOff u)"
    proof (cases "scOff u = length (scSrc s)")
      case True
      then show ?thesis using c(1) by (simp add: block_end_def)
    next
      case False
      then obtain b where b: "substr (scSrc s) (scOff s + 1) (scOff u) = b @ ''*/''" "closes_first b" using u(3) by (auto simp: block_end_def)
      have l: "scOff s + 1 < scOff u" "scOff u \<le> length (scSrc s)" using b(1) u(3) by (auto simp: block_end_def substr_def intro: ccontr)
      have "(b @ ''*/'') ! 0 = scSrc s ! (scOff s + 1)" using substr_hd [OF l] unfolding b(1) by (simp add: hd_conv_nth)
      then have "closes_first (scSrc s ! scOff s # b)" using b(2) c(2) l by (simp add: closes_first_Cons s_at_def)
      then have "\<exists>b. substr (scSrc s) (scOff s) (scOff u) = b @ ''*/'' \<and> closes_first b" unfolding s b(1) by (metis append_Cons)
      then show ?thesis using l unfolding block_end_def by simp
    qed
    moreover have "newline_in (substr (scSrc s) (scOff s) (scOff u)) \<longleftrightarrow> scSrc s ! scOff s \<in> {LF, CR} \<or> newline_in (substr (scSrc s) (scOff s + 1) (scOff u))"
      unfolding s by (auto simp: newline_in_def)
    ultimately show ?thesis using u(1,4) r x(2) by (intro exI [of _ u] exI [of _ m']) auto
  qed
  show ?case
  proof (cases "scOff s < length (scSrc s)")
    case False
    let ?u = "s_error p (scOff s) ''unterminated comment'' s"
    have "reads_on s ?u" using "1.prems" by (intro reads_error) simp
    then show ?thesis using False "1.prems"(1) by (intro exI [of _ ?u] exI [of _ m]) (simp add: comment_loop.simps [of p m s] block_end_def newline_in_def)
  next
    case i: True
    consider "scSrc s ! scOff s = CHR ''*''" "s_at (scOff s + 1) s = CHR ''/''" | "scSrc s ! scOff s = CHR ''*''" "s_at (scOff s + 1) s \<noteq> CHR ''/''"
      | "scSrc s ! scOff s \<noteq> CHR ''*''" "scSrc s ! scOff s = LF \<or> scSrc s ! scOff s = CR"
      | "scSrc s ! scOff s \<noteq> CHR ''*''" "\<not> (scSrc s ! scOff s = LF \<or> scSrc s ! scOff s = CR)" by blast
    then show ?thesis
    proof cases
      case 1
      have l: "scOff s + 2 \<le> length (scSrc s)" "scSrc s ! (scOff s + 1) = CHR ''/''" using 1(2) by (auto simp: s_at_def split: if_splits)
      then have t: "substr (scSrc s) (scOff s) (scOff s + 2) = ''*/''" using substr_nth(2) [of "scOff s" "scSrc s"] 1(1) by simp
      have "closes_first []" by (simp add: closes_first_def)
      then have "block_end (scSrc s) (scOff s) (scOff s + 2)" using l t unfolding block_end_def by (metis append_Nil le_add1)
      then show ?thesis using 1 i l t reads_adv [OF l(1)]
        by (intro exI [of _ "adv 2 s"] exI [of _ m]) (simp add: comment_loop.simps [of p m s] Let_def newline_in_def)
    next
      case 2
      have "?P m (adv 1 s) (comment_loop p m (adv 1 s))" using "1.IH"(1) [OF i refl 2] i "1.prems" by simp
      then have "?P m s (comment_loop p m (adv 1 s))" using step [OF i] 2 by auto
      then show ?thesis using 2 i by (simp add: comment_loop.simps [of p m s] Let_def)
    next
      case 3
      have "?P True (adv 1 s) (comment_loop p True (adv 1 s))" using "1.IH"(2) [OF i refl 3] i "1.prems" by simp
      then have "?P m s (comment_loop p True (adv 1 s))" using step [OF i] 3 by auto
      then show ?thesis using 3 i by (simp add: comment_loop.simps [of p m s] Let_def)
    next
      case 4
      have "?P m (adv 1 s) (comment_loop p m (adv 1 s))" using "1.IH"(3) [OF i refl 4] i "1.prems" by simp
      then have "?P m s (comment_loop p m (adv 1 s))" using step [OF i] 4 by auto
      then show ?thesis using 4 i by (simp add: comment_loop.simps [of p m s] Let_def)
    qed
  qed
qed

lemma block_comment_skips:
  assumes "scOff s + 1 < length (scSrc s)" "scSrc s ! scOff s = CHR ''/''" "scSrc s ! (scOff s + 1) = CHR ''*''"
  shows "skips_one s (scanBlockComment s)"
proof -
  have "\<exists>u m'. comment_loop (scOff s) False (adv 2 s) = comment (scOff s) (scOff u) m' u \<and> reads_on (adv 2 s) u \<and>
      block_end (scSrc (adv 2 s)) (scOff (adv 2 s)) (scOff u) \<and> (m' \<longleftrightarrow> False \<or> newline_in (substr (scSrc (adv 2 s)) (scOff (adv 2 s)) (scOff u)))"
    using assms(1) by (intro comment_loop_ends) simp_all
  then obtain u m where u: "scanBlockComment s = comment (scOff s) (scOff u) m u" "reads_on (adv 2 s) u"
    "block_end (scSrc s) (scOff s + 2) (scOff u)" "m \<longleftrightarrow> newline_in (substr (scSrc s) (scOff s + 2) (scOff u))"
    by (auto simp: scanBlockComment_def)
  have r: "reads_on s u" using reads_trans [OF reads_adv u(2)] assms(1) by simp
  have le: "scOff s + 2 \<le> scOff u" "scOff u \<le> length (scSrc s)" using u(3) by (simp_all add: block_end_def)
  have two: "substr (scSrc s) (scOff s) (scOff s + 2) = ''/*''" using substr_nth(2) [of "scOff s" "scSrc s"] assms by simp
  have j: "substr (scSrc s) (scOff s) j = ''/*'' @ substr (scSrc s) (scOff s + 2) (scOff u) @ substr (scSrc s) (scOff u) j" if "scOff u \<le> j" for j
    using substr_append [of "scOff s" "scOff s + 2" j "scSrc s"] substr_append [of "scOff s + 2" "scOff u" j "scSrc s"] two that le by simp
  have tr: "trivia (substr (scSrc s) (scOff s) j)" if t: "scOff u \<le> j" "j \<le> length (scSrc s)" "trivia (substr (scSrc s) (scOff u) j)" for j
  proof (cases "scOff u = length (scSrc s)")
    case True
    show ?thesis unfolding j [OF t(1)] by (rule trivia_open)
  next
    case False
    then obtain b where "substr (scSrc s) (scOff s + 2) (scOff u) = b @ ''*/''" "closes_first b" using u(3) by (auto simp: block_end_def)
    then show ?thesis unfolding j [OF t(1)] using trivia_block [OF _ t(3), of b] by simp
  qed
  have "newline_in (substr (scSrc s) (scOff s) (scOff u)) \<longleftrightarrow> m" unfolding u(4) j [OF order_refl] by (simp add: newline_in_def)
  then show ?thesis unfolding u(1) skips_one_def using r le tr comment_toks [of "scOff s" "scOff u" m u]
    by (auto simp: comment_reports comment_nl reads_on_def)
qed

lemma skipTrivia_skips: "scOff s \<le> length (scSrc s) \<Longrightarrow> skips s (skipTrivia s)"
proof (induction s rule: skipTrivia.induct)
  case (1 s)
  let ?c = "scSrc s ! scOff s"
  have one: "skips s (skipTrivia t)" if "skips_one s t" "skips t (skipTrivia t)" for t using skips_step that by blast
  consider (stay) "skipTrivia s = s"
    | (white) "scOff s < length (scSrc s)" "?c \<in> {CHR '' '', CHR 0x09, CHR 0x0C}"
    | (lf) "scOff s < length (scSrc s)" "?c = LF" | (cr) "scOff s < length (scSrc s)" "?c = CR"
    | (line) "scOff s + 1 < length (scSrc s)" "?c = CHR ''/''" "scSrc s ! (scOff s + 1) = CHR ''/''"
    | (block) "scOff s + 1 < length (scSrc s)" "?c = CHR ''/''" "scSrc s ! (scOff s + 1) = CHR ''*''"
  proof -
    show ?thesis
    proof (cases "scOff s < length (scSrc s) \<and> ?c \<in> {CHR '' '', CHR 0x09, CHR 0x0C, LF, CR} \<or> scOff s + 1 < length (scSrc s) \<and> ?c = CHR ''/'' \<and>
        scSrc s ! (scOff s + 1) \<in> {CHR ''/'', CHR ''*''}")
      case True
      then show ?thesis using white lf cr line block by auto
    next
      case False
      then have "skipTrivia s = s" by (subst skipTrivia.simps) (auto simp: Let_def)
      then show ?thesis by (rule stay)
    qed
  qed
  then show ?case
  proof cases
    case stay
    then show ?thesis using skips_refl "1.prems" by simp
  next
    case white
    let ?t = "adv 1 (s\<lparr>scGap := True\<rparr>)"
    have "?t = adv 1 (s\<lparr>scGap := True, scNl := scNl s\<rparr>)" by simp
    then have "skips_one s ?t" using white white_skips [of s "scNl s"] by auto
    moreover have "skips ?t (skipTrivia ?t)" using "1.IH"(1) [OF white(1) refl white(2)] white(1) by simp
    ultimately show ?thesis using one white by (simp add: skipTrivia.simps [of s] Let_def)
  next
    case lf
    let ?t = "adv 1 (s\<lparr>scGap := True, scNl := True\<rparr>)"
    have "skips_one s ?t" using lf white_skips [of s True] by auto
    moreover have "skips ?t (skipTrivia ?t)" using "1.IH"(2) [OF lf(1) refl _ lf(2)] lf by simp
    ultimately show ?thesis using one lf by (simp add: skipTrivia.simps [of s] Let_def)
  next
    case cr
    let ?t = "adv 1 (s\<lparr>scGap := True, scNl := True\<rparr>)"
    let ?u = "if scOff ?t < length (scSrc ?t) \<and> scSrc ?t ! scOff ?t = LF then adv 1 ?t else ?t"
    have a: "skips_one s ?t" using cr white_skips [of s True] by auto
    have b: "skips ?u (skipTrivia ?u)" using "1.IH"(3) [OF cr(1) refl _ _ cr(2) refl] cr by auto
    have "skips ?t (skipTrivia ?u)"
    proof (cases "scOff ?t < length (scSrc ?t) \<and> scSrc ?t ! scOff ?t = LF")
      case True
      have t: "?t\<lparr>scGap := True, scNl := True\<rparr> = ?t" by (simp add: adv_def)
      have "skips_one ?t (adv 1 ?t)" using True white_skips [of ?t True, unfolded t] by auto
      then have "skips_one ?t ?u" using True by simp
      then show ?thesis using skips_step b by blast
    next
      case False
      show ?thesis using b unfolding if_not_P [OF False] .
    qed
    then have "skips s (skipTrivia ?u)" by (rule skips_step [OF a])
    moreover have "skipTrivia s = skipTrivia ?u" using cr by (subst skipTrivia.simps) (simp add: Let_def)
    ultimately show ?thesis by (simp only:)
  next
    case line
    note k = line_comment_skips [OF line]
    have "skips (scanLineComment s) (skipTrivia (scanLineComment s))"
      using "1.IH"(4) [OF _ refl _ _ _ line(2)] line comments_advance(1) [OF line(1)] by simp
    then show ?thesis using one [OF k] line by (simp add: skipTrivia.simps [of s] Let_def)
  next
    case block
    note k = block_comment_skips [OF block]
    have "skips (scanBlockComment s) (skipTrivia (scanBlockComment s))"
      using "1.IH"(5) [OF _ refl _ _ _ block(2)] block comments_advance(2) [OF block(1)] by simp
    then show ?thesis using one [OF k] block by (simp add: skipTrivia.simps [of s] Let_def)
  qed
qed

section \<open>The main loop\<close>

lemma skipTrivia_past: "\<not> scOff s < length (scSrc s) \<Longrightarrow> skipTrivia s = s"
  by (simp add: skipTrivia.simps [of s])

function run_loop :: "unicode \<Rightarrow> scanner \<Rightarrow> scanner" where
  "run_loop uc s =
     (let t = skipTrivia s in if scOff t \<ge> length (scSrc t) then t else run_loop uc (scanToken uc t))"
  by pat_completeness auto

termination
proof (relation "measure (\<lambda>(uc, s). length (scSrc s) - scOff s)", goal_cases)
  case (2 uc s t)
  then have s: "scOff s \<le> length (scSrc s)" using skipTrivia_past [of s] by (cases "scOff s < length (scSrc s)") auto
  have "skips s t" using skipTrivia_skips [OF s] 2 by simp
  moreover have "emits t (scanToken uc t)" using 2 by (intro scanToken_emits) simp
  ultimately show ?case by (auto simp: skips_def emits_def)
qed simp

declare run_loop.simps [simp del]

definition run :: "unicode \<Rightarrow> scanner \<Rightarrow> scanner" where
  "run uc s = (let t = finish (run_loop uc s); n = length (scSrc t) in emit EOF CtxNone n n t)"

definition new_scanner :: "sfile \<Rightarrow> smode \<Rightarrow> scanner" where
  "new_scanner f mode = \<lparr>scSrc = flText f, scMode = mode, scOff = 0, scToks = [], scDiags = flDiags f, scOpen = [],
     scReported = False, scGap = False, scNl = False\<rparr>"

definition Scan :: "unicode \<Rightarrow> sfile \<Rightarrow> smode \<Rightarrow> token list \<times> diagnostic list" where
  "Scan uc f mode = (let s = run uc (new_scanner f mode) in (scToks s, SortDiagnostics (scDiags s)))"

section \<open>The layout of tokens\<close>

text \<open>The offsets of a token, and the tokens that are not comments.\<close>

definition tok_start :: "token \<Rightarrow> nat" where "tok_start t = unat (tokPos t) - 1"

definition tok_stop :: "token \<Rightarrow> nat" where "tok_stop t = unat (tokEnd t) - 1"

definition reals :: "token list \<Rightarrow> token list" where
  "reals ts = filter (\<lambda>t. tokKind t \<noteq> COMMENT) ts"

text \<open>Tokens that lie one behind the other from offset \<open>i\<close> on: what is between them is trivia, the flags of each say whether
  anything, and a line terminator in particular, comes before it; \<open>first\<close> says that no token came before.\<close>

fun laid :: "string \<Rightarrow> nat \<Rightarrow> bool \<Rightarrow> token list \<Rightarrow> nat \<Rightarrow> bool" where
  "laid src i first [] j \<longleftrightarrow> i = j"
| "laid src i first (t # ts) j \<longleftrightarrow>
     i \<le> tok_start t \<and> tok_start t < tok_stop t \<and> tok_stop t \<le> length src \<and> trivia (substr src i (tok_start t)) \<and>
     spelled (substr src (tok_start t) (tok_stop t)) (tokKind t) (tokCtx t) \<and>
     (tok_Adjacent t \<longleftrightarrow> \<not> first \<and> tok_start t = i) \<and> (tok_NLBefore t \<longleftrightarrow> newline_in (substr src i (tok_start t))) \<and>
     laid src (tok_stop t) False ts j"

lemma laid_append: "laid src i first (ts @ us) j \<longleftrightarrow> (\<exists>k. laid src i first ts k \<and> laid src k (first \<and> ts = []) us j)"
  by (induction ts arbitrary: i first) auto

lemma fl_Pos_back: "a + 1 < 2 ^ 32 \<Longrightarrow> unat (fl_Pos a) - 1 = a"
  by (simp add: fl_Pos_def unsigned_of_nat take_bit_nat_eq_self del: of_nat_Suc of_nat_add)

lemma flags_read:
  "token_flags s AND FlagAdjacent \<noteq> 0 \<longleftrightarrow> \<not> scGap s \<and> scToks s \<noteq> []" "token_flags s AND FlagNLBefore \<noteq> 0 \<longleftrightarrow> scNl s"
  by (simp_all add: token_flags_def)

lemma spelled_not_comment: "spelled lit k c \<Longrightarrow> k \<noteq> COMMENT"
  by (auto simp: spelled_def IsOperator_def IsSeparator_def IsKeyword_def split: if_splits)

text \<open>The state between two tokens.\<close>

definition between :: "scanner \<Rightarrow> bool" where
  "between s \<longleftrightarrow> scOff s \<le> length (scSrc s) \<and> \<not> scGap s \<and> \<not> scNl s \<and> frames_ok s \<and> list_all (diag_in (scSrc s)) (scDiags s) \<and>
     (scToks s = [] \<longleftrightarrow> reals (scToks s) = []) \<and> laid (scSrc s) 0 True (reals (scToks s)) (scOff s)"

lemma reports_in: "reports s t \<Longrightarrow> scSrc t = scSrc s \<Longrightarrow> list_all (diag_in (scSrc s)) (scDiags s) \<Longrightarrow> list_all (diag_in (scSrc t)) (scDiags t)"
  by (auto simp: reports_def)

lemma between_step:
  assumes "between s" "skips s t" "emits t u" "length (scSrc s) + 1 < 2 ^ 32"
  shows "between u"
proof -
  obtain cs where cs: "scToks t = scToks s @ cs" "list_all (\<lambda>c. tokKind c = COMMENT) cs" "scOff t = scOff s \<longrightarrow> cs = []"
    using assms(2) by (auto simp: skips_def)
  obtain k c where k: "spelled (substr (scSrc s) (scOff t) (scOff u)) k c"
    "scToks u = scToks t @ [\<lparr>tokKind = k, tokCtx = c, tokFlags = token_flags t, tokPos = fl_Pos (scOff t), tokEnd = fl_Pos (scOff u)\<rparr>]"
    using assms(2,3) by (auto simp: skips_def emits_def)
  let ?t = "\<lparr>tokKind = k, tokCtx = c, tokFlags = token_flags t, tokPos = fl_Pos (scOff t), tokEnd = fl_Pos (scOff u)\<rparr>"
  have r: "reals (scToks u) = reals (scToks s) @ [?t]"
    using spelled_not_comment [OF k(1)] cs(2) unfolding k(2) cs(1) reals_def by (auto simp: list_all_iff)
  have le: "scOff s \<le> scOff t" "scOff t < scOff u" "scOff u \<le> length (scSrc s)" "scSrc u = scSrc s" using assms(2,3) by (auto simp: skips_def emits_def)
  have p: "tok_start ?t = scOff t" "tok_stop ?t = scOff u" using fl_Pos_back [of "scOff t"] fl_Pos_back [of "scOff u"] le assms(4)
    by (simp_all add: tok_start_def tok_stop_def)
  have gap: "scGap t \<longleftrightarrow> scOff s < scOff t" "scNl t \<longleftrightarrow> newline_in (substr (scSrc s) (scOff s) (scOff t))"
    "trivia (substr (scSrc s) (scOff s) (scOff t))" using assms(1,2) by (auto simp: skips_def between_def)
  have "tok_Adjacent ?t \<longleftrightarrow> \<not> scGap t \<and> scToks t \<noteq> []" "tok_NLBefore ?t \<longleftrightarrow> scNl t"
    using flags_read by (simp_all add: tok_Adjacent_def tok_NLBefore_def)
  moreover have "\<not> scGap t \<and> scToks t \<noteq> [] \<longleftrightarrow> reals (scToks s) \<noteq> [] \<and> scOff t = scOff s"
    using gap(1) le(1) cs assms(1) by (auto simp: between_def)
  ultimately have one: "laid (scSrc s) (scOff s) (reals (scToks s) = []) [?t] (scOff u)"
    using le gap(2,3) k(1) unfolding laid.simps p by auto
  have "laid (scSrc s) 0 True (reals (scToks s)) (scOff s)" using assms(1) by (simp add: between_def)
  then have "laid (scSrc u) 0 True (reals (scToks u)) (scOff u)" unfolding r le(4) laid_append using one by auto
  moreover have "frames_ok t" using assms(1,2) by (simp add: between_def skips_def frames_ok_def)
  moreover from this have "frames_ok u" "reports t u" using assms(3) by (simp_all add: emits_def)
  moreover have "list_all (diag_in (scSrc t)) (scDiags t)" using assms(1,2) reports_in by (auto simp: between_def skips_def)
  ultimately show ?thesis using assms(3) le r reports_in [of t u] unfolding between_def by (auto simp: emits_def k(2))
qed

text \<open>The loop stops behind the last token, with only trivia left.\<close>

lemma run_loop_ends:
  assumes "between s" "length (scSrc s) + 1 < 2 ^ 32"
  shows "\<exists>u. between u \<and> skips u (run_loop uc s) \<and> scOff (run_loop uc s) = length (scSrc s) \<and> scSrc u = scSrc s"
  using assms
proof (induction uc s rule: run_loop.induct)
  case (1 uc s)
  let ?t = "skipTrivia s"
  have b: "scOff s \<le> length (scSrc s)" using "1.prems"(1) by (simp add: between_def)
  have t: "skips s ?t" by (rule skipTrivia_skips [OF b])
  show ?case
  proof (cases "length (scSrc ?t) \<le> scOff ?t")
    case True
    then have "run_loop uc s = ?t" by (simp add: run_loop.simps [of uc s])
    then show ?thesis using t True "1.prems"(1) by (intro exI [of _ s]) (auto simp: skips_def)
  next
    case False
    have e: "emits ?t (scanToken uc ?t)" using False by (intro scanToken_emits) simp
    have "scSrc (scanToken uc ?t) = scSrc s" using t e by (simp add: skips_def emits_def)
    then show ?thesis using "1.IH" [OF refl False between_step [OF "1.prems"(1) t e "1.prems"(2)]] "1.prems"(2) False
      by (simp add: run_loop.simps [of uc s])
  qed
qed

section \<open>A whole scan\<close>

lemma finish_frame [simp]:
  "scSrc (finish s) = scSrc s" "scMode (finish s) = scMode s" "scOff (finish s) = scOff s" "scToks (finish s) = scToks s"
  "scGap (finish s) = scGap s" "scNl (finish s) = scNl s"
  by (simp_all add: finish_def Let_def)

lemma finish_reports: "frames_ok s \<Longrightarrow> reports s (finish s)"
proof -
  assume f: "frames_ok s"
  have r: "reports s t" if "reports (s\<lparr>scReported := True\<rparr>) t" for t using that by (simp add: reports_def)
  have "scOpen s \<noteq> [] \<Longrightarrow> frPos (last (scOpen s)) < length (scSrc s)" using f last_in_set by (fastforce simp: frames_ok_def list_all_iff)
  then show ?thesis by (auto simp: finish_def Let_def intro!: reports_refl r reports_error)
qed

lemma file_diags: "list_all (diag_in (flText (NewFile name src))) (flDiags (NewFile name src))"
proof -
  have d: "list_all (diag_at (trText (translate src))) (trDiags (translate src))" using translate_ok [of src] by (simp add: translated_def)
  have "diag_in (flText (NewFile name src)) d" if t: "diag_at (trText (translate src)) d" for d
  proof -
    let ?t = "trText (translate src)"
    obtain p where p: "p < length ?t" "?t ! p = backslash" "dgPos d = word_of_nat (p + 1)" "dgEnd d = word_of_nat (p + 2)"
      using t by (auto simp: diag_at_def)
    have "p < length (flText (NewFile name src))"
    proof (cases "?t \<noteq> [] \<and> last ?t = CHR 0x1A")
      case True
      then have "p \<noteq> length ?t - 1" using p(2) by (auto simp: last_conv_nth)
      then show ?thesis using p(1) by (auto simp: NewFile_def Let_def)
    next
      case False
      then show ?thesis using p(1) by (auto simp: NewFile_def Let_def)
    qed
    then show ?thesis unfolding diag_in_def using p(3,4) by (intro exI [of _ p] exI [of _ "p + 1"]) (simp add: fl_Pos_def)
  qed
  then show ?thesis using d by (auto simp: NewFile_def Let_def list_all_iff)
qed

lemma between_start: "between (new_scanner (NewFile name src) mode)"
  using file_diags by (simp add: between_def new_scanner_def frames_ok_def reals_def)

text \<open>Everything a scan leaves: the tokens before the last, the last one, and the diagnostics.\<close>

lemma Scan_result:
  assumes "fl_Size (NewFile name src) + 1 < 2 ^ 32"
  defines "txt' \<equiv> flText (NewFile name src)"
  shows "\<exists>ts eof k. reals (fst (Scan uc (NewFile name src) mode)) = ts @ [eof] \<and> last (fst (Scan uc (NewFile name src) mode)) = eof \<and>
    tokKind eof = EOF \<and> tok_start eof = length txt' \<and> tok_stop eof = length txt' \<and> laid txt' 0 True ts k \<and> trivia (substr txt' k (length txt')) \<and>
    list_all (diag_in txt') (snd (Scan uc (NewFile name src) mode))"
proof -
  let ?s = "new_scanner (NewFile name src) mode"
  have src: "scSrc ?s = txt'" by (simp add: new_scanner_def txt'_def)
  have l: "length txt' + 1 < 2 ^ 32" using assms(1) by (simp add: fl_Size_def txt'_def)
  obtain u where u: "between u" "skips u (run_loop uc ?s)" "scOff (run_loop uc ?s) = length txt'" "scSrc u = txt'"
    using run_loop_ends [OF between_start, of name src mode uc] l src by auto
  let ?r = "run_loop uc ?s"
  obtain cs where cs: "scToks ?r = scToks u @ cs" "list_all (\<lambda>c. tokKind c = COMMENT) cs" using u(2) by (auto simp: skips_def)
  have srcr: "scSrc ?r = txt'" using u(2,4) by (simp add: skips_def)
  let ?eof = "\<lparr>tokKind = EOF, tokCtx = CtxNone, tokFlags = token_flags (finish ?r), tokPos = fl_Pos (length txt'), tokEnd = fl_Pos (length txt')\<rparr>"
  have t: "fst (Scan uc (NewFile name src) mode) = scToks u @ cs @ [?eof]"
    by (simp add: Scan_def run_def Let_def emit_def srcr cs(1))
  have "reals (fst (Scan uc (NewFile name src) mode)) = reals (scToks u) @ [?eof]" unfolding t reals_def using cs(2) by (auto simp: list_all_iff)
  moreover have "tok_start ?eof = length txt'" "tok_stop ?eof = length txt'" using fl_Pos_back [OF l] by (simp_all add: tok_start_def tok_stop_def)
  moreover have "laid txt' 0 True (reals (scToks u)) (scOff u)" "trivia (substr txt' (scOff u) (length txt'))"
    using u by (auto simp: between_def skips_def)
  moreover have "list_all (diag_in txt') (snd (Scan uc (NewFile name src) mode))"
  proof -
    have "frames_ok ?r" using u(1,2) by (simp add: between_def skips_def frames_ok_def)
    then have "reports ?r (finish ?r)" by (rule finish_reports)
    moreover have "list_all (diag_in txt') (scDiags ?r)" using u reports_in [of u ?r] by (simp add: between_def skips_def)
    ultimately have "list_all (diag_in txt') (scDiags (finish ?r))" using srcr by (auto simp: reports_def)
    then show ?thesis by (simp add: Scan_def run_def Let_def SortDiagnostics_eq list_all_iff)
  qed
  moreover have "last (fst (Scan uc (NewFile name src) mode)) = ?eof" unfolding t by simp
  ultimately show ?thesis by (intro exI [of _ "reals (scToks u)"] exI [of _ ?eof] exI [of _ "scOff u"]) simp
qed

section \<open>Properties\<close>



text \<open>C8: Every diagnostic of a scan, those of the escape translation included, is a non-empty span of the text, and the
  diagnostics are in order.\<close>

theorem scan_diagnostics:
  assumes "fl_Size (NewFile name src) + 1 < 2 ^ 32"
  shows "(\<forall>d \<in> set (snd (Scan uc (NewFile name src) mode)). \<exists>a b. a < b \<and> b \<le> fl_Size (NewFile name src) \<and> dgPos d = fl_Pos a \<and> dgEnd d = fl_Pos b) \<and>
    sorted_wrt (\<lambda>d e. \<not> diag_less e d) (snd (Scan uc (NewFile name src) mode))"
proof
  show "\<forall>d \<in> set (snd (Scan uc (NewFile name src) mode)). \<exists>a b. a < b \<and> b \<le> fl_Size (NewFile name src) \<and> dgPos d = fl_Pos a \<and> dgEnd d = fl_Pos b"
    using Scan_result [OF assms, of uc mode] unfolding list_all_iff diag_in_def fl_Size_def by blast
  have "sorted (map diag_key (sort_key diag_key ds))" for ds by (rule sorted_sort_key)
  then show "sorted_wrt (\<lambda>d e. \<not> diag_less e d) (snd (Scan uc (NewFile name src) mode))"
    by (simp add: Scan_def Let_def SortDiagnostics_eq diag_less_key not_less sorted_map)
qed

theorem scan_diagnostics_witness:
  "\<forall>uc. list_all (\<lambda>d. \<exists>a b. a < b \<and> b \<le> 1 \<and> dgPos d = fl_Pos a \<and> dgEnd d = fl_Pos b) (snd (Scan uc (NewFile [] ''('') 0))"
proof
  fix uc
  have z: "fl_Size (NewFile [] ''('') = 1" by (simp add: NewFile_def translate_def Let_def fl_Size_def)
  show "list_all (\<lambda>d. \<exists>a b. a < b \<and> b \<le> 1 \<and> dgPos d = fl_Pos a \<and> dgEnd d = fl_Pos b) (snd (Scan uc (NewFile [] ''('') 0))"
    using scan_diagnostics [of "[]" "''(''" uc 0] unfolding z list_all_iff by simp
qed

text \<open>C9: Separators and operators are scanned by longest match: at any position, \<open>punct\<close> finds the longest separator or
  operator of the language that is a prefix of the text there, and reports none only when there is none. (Since no operator
  is spelled \<open>>>\<close>, a \<open>>\<close> is never joined with a following one.)\<close>

theorem punct_longest:
  assumes "pos < length (scSrc s)"
  shows "(snd (punct pos s) = 0 \<or> (IsOperator (fst (punct pos s)) \<or> IsSeparator (fst (punct pos s))) \<and>
      kind_String (fst (punct pos s)) = substr (scSrc s) pos (pos + snd (punct pos s))) \<and>
    (\<forall>k. (IsOperator k \<or> IsSeparator k) \<and> take (length (kind_String k)) (drop pos (scSrc s)) = kind_String k \<longrightarrow>
      length (kind_String k) \<le> snd (punct pos s))"
proof
  obtain k n where p: "punct pos s = (k, n)" by fastforce
  show "snd (punct pos s) = 0 \<or> (IsOperator (fst (punct pos s)) \<or> IsSeparator (fst (punct pos s))) \<and>
      kind_String (fst (punct pos s)) = substr (scSrc s) pos (pos + snd (punct pos s))"
    using punct_spelled [OF assms p] punct_table_spelled p by (fastforce simp: list_all_iff)
  show "\<forall>k. (IsOperator k \<or> IsSeparator k) \<and> take (length (kind_String k)) (drop pos (scSrc s)) = kind_String k \<longrightarrow>
      length (kind_String k) \<le> snd (punct pos s)"
  proof (intro allI impI)
    fix k
    assume k: "(IsOperator k \<or> IsSeparator k) \<and> take (length (kind_String k)) (drop pos (scSrc s)) = kind_String k"
    then have "length (kind_String k) \<le> length (drop pos (scSrc s))" by (metis length_take min.absorb_iff2 min.commute)
    then show "length (kind_String k) \<le> snd (punct pos s)"
      using punct_finds [OF operator_in_table, of k pos s] k assms by (simp add: substr_def)
  qed
qed

theorem punct_longest_witness:
  "kind_String (fst (punct 1 (new_scanner (NewFile [] ''a>>='') 0))) = ''>'' \<and> snd (punct 1 (new_scanner (NewFile [] ''a>>='') 0)) = 1"
proof -
  have s: "scSrc (new_scanner (NewFile [] ''a>>='') 0) = ''a>>=''" by (simp add: new_scanner_def NewFile_def translate_def Let_def)
  have p: "punct 1 (new_scanner (NewFile [] ''a>>='') 0) = (GTR, 1)" by (simp add: punct_def punct_of_def s_at_def s)
  then show ?thesis using punct_longest [of 1 "new_scanner (NewFile [] ''a>>='') 0"] by (simp add: s substr_def)
qed

end
