(* ===== verification/Types.thy ===== *)
theory Types
  imports Desc
begin

text \<open>
  Package \<^verbatim>\<open>types\<close>: the type model (\<^verbatim>\<open>src/types/types.go\<close>), erasure and descriptors (\<^verbatim>\<open>src/types/erase.go\<close>).
  Class symbols, type parameter symbols and type variables are pointers in the source: here they are
  positions in the tables of a \<open>heap\<close>, the store those pointers range over. A type variable's bound is read
  through the heap, since bounds may be cyclic (\<open>E extends Enum<E>\<close>); everything else of a type is a finite tree.
  A nil \<open>Type\<close> is \<^const>\<open>None\<close> where the code tests for it. \<open>Erase\<close> follows bounds without a guard, so it is a partial
  function: \<^const>\<open>None\<close> means that it does not return. The properties say when it returns, what an erased type
  looks like, and that the descriptor of a type parses back to its erasure.
\<close>

section \<open>Kinds\<close>

datatype tkind = KindError | KindVoid | KindNull | KindBoolean | KindByte | KindShort | KindChar | KindInt
  | KindLong | KindFloat | KindDouble | KindClass | KindArray | KindTypeVar | KindWildcard | KindIntersection

text \<open>The number \<^verbatim>\<open>iota\<close> gives each kind.\<close>

primrec kind_no :: "tkind \<Rightarrow> nat" where
  "kind_no KindError = 0"
| "kind_no KindVoid = 1"
| "kind_no KindNull = 2"
| "kind_no KindBoolean = 3"
| "kind_no KindByte = 4"
| "kind_no KindShort = 5"
| "kind_no KindChar = 6"
| "kind_no KindInt = 7"
| "kind_no KindLong = 8"
| "kind_no KindFloat = 9"
| "kind_no KindDouble = 10"
| "kind_no KindClass = 11"
| "kind_no KindArray = 12"
| "kind_no KindTypeVar = 13"
| "kind_no KindWildcard = 14"
| "kind_no KindIntersection = 15"

primrec kind_string :: "tkind \<Rightarrow> string" where
  "kind_string KindError = ''error''"
| "kind_string KindVoid = ''void''"
| "kind_string KindNull = ''null''"
| "kind_string KindBoolean = ''boolean''"
| "kind_string KindByte = ''byte''"
| "kind_string KindShort = ''short''"
| "kind_string KindChar = ''char''"
| "kind_string KindInt = ''int''"
| "kind_string KindLong = ''long''"
| "kind_string KindFloat = ''float''"
| "kind_string KindDouble = ''double''"
| "kind_string KindClass = ''class''"
| "kind_string KindArray = ''array''"
| "kind_string KindTypeVar = ''type variable''"
| "kind_string KindWildcard = ''wildcard''"
| "kind_string KindIntersection = ''intersection''"

definition IsPrimitive :: "tkind \<Rightarrow> bool" where
  "IsPrimitive k \<longleftrightarrow> kind_no KindBoolean \<le> kind_no k \<and> kind_no k \<le> kind_no KindDouble"

definition IsNumeric :: "tkind \<Rightarrow> bool" where
  "IsNumeric k \<longleftrightarrow> kind_no KindByte \<le> kind_no k \<and> kind_no k \<le> kind_no KindDouble"

definition IsIntegral :: "tkind \<Rightarrow> bool" where
  "IsIntegral k \<longleftrightarrow> kind_no KindByte \<le> kind_no k \<and> kind_no k \<le> kind_no KindLong"

section \<open>Types\<close>

type_synonym csym = nat

type_synonym tsym = nat

type_synonym tvar = nat

datatype wildcardKind = Unbounded | Extends | Super

text \<open>\<open>Basic\<close> is a primitive type, void or null: the package's singletons, one per kind. The class symbol of a class
  type may be nil; a class type's arguments are empty for a raw or non-generic use.\<close>

datatype ty =
    Basic tkind
  | ClassType "csym option" "ty list" "ty option"
  | ArrayType ty
  | TypeVar tvar
  | Wildcard wildcardKind "ty option"
  | Intersection "ty list"
  | ErrorType string

primrec Kind :: "ty \<Rightarrow> tkind" where
  "Kind (Basic k) = k"
| "Kind (ClassType s args outer) = KindClass"
| "Kind (ArrayType e) = KindArray"
| "Kind (TypeVar v) = KindTypeVar"
| "Kind (Wildcard w b) = KindWildcard"
| "Kind (Intersection bs) = KindIntersection"
| "Kind (ErrorType sought) = KindError"

definition PrimitiveOf :: "tkind \<Rightarrow> ty option" where
  "PrimitiveOf k = (if IsPrimitive k \<or> k = KindVoid \<or> k = KindNull then Some (Basic k) else None)"

text \<open>What the types point at. A class object holds what this package reads of a class symbol, its binary name and
  whether it is static, and its completed class information, the superclass and the superinterfaces. A type
  parameter symbol is its name. The symbol table lists the classes by binary name.\<close>

record classObj =
  coBinary :: string
  coStatic :: bool
  coSuper :: "ty option"
  coIfaces :: "ty list"

record typevar =
  tvSym :: "tsym option"
  tvBound :: "ty option"

record heap =
  hClasses :: "classObj list"
  hVars :: "typevar list"
  hParams :: "string list"
  hTable :: "(string \<times> csym) list"

definition binary_of :: "heap \<Rightarrow> csym \<Rightarrow> string" where
  "binary_of h c = (if c < length (hClasses h) then coBinary (hClasses h ! c) else [])"

definition var_of :: "heap \<Rightarrow> tvar \<Rightarrow> typevar" where
  "var_of h v = (if v < length (hVars h) then hVars h ! v else \<lparr>tvSym = None, tvBound = None\<rparr>)"

definition class_Binary :: "heap \<Rightarrow> csym option \<Rightarrow> string" where
  "class_Binary h s = (case s of None \<Rightarrow> [] | Some c \<Rightarrow> binary_of h c)"

definition IsRaw :: "ty list \<Rightarrow> bool" where
  "IsRaw args \<longleftrightarrow> length args = 0"

primrec arrayOf :: "ty \<Rightarrow> nat \<Rightarrow> ty" where
  "arrayOf elem 0 = elem"
| "arrayOf elem (Suc n) = arrayOf (ArrayType elem) n"

definition intersect :: "ty list \<Rightarrow> ty option" where
  "intersect bounds = (case bounds of [] \<Rightarrow> None | [b] \<Rightarrow> Some b | _ \<Rightarrow> Some (Intersection bounds))"

definition IsError :: "ty option \<Rightarrow> bool" where
  "IsError t \<longleftrightarrow> (case t of None \<Rightarrow> True | Some x \<Rightarrow> Kind x = KindError)"

definition IsReference :: "ty \<Rightarrow> bool" where
  "IsReference t \<longleftrightarrow> Kind t \<in> {KindClass, KindArray, KindTypeVar, KindIntersection, KindNull}"

text \<open>\<open>MethodType\<close>: its own type parameters, its parameters, its result and its exceptions.\<close>

record methodType =
  mtTypeParams :: "tvar list"
  mtParams :: "ty list"
  mtResult :: ty
  mtThrows :: "ty list"

subsection \<open>Identity\<close>

text \<open>\<open>Identical\<close>. The test of pointer equality it starts with is an instance of what the comparison by shape
  yields, since that is reflexive (lemma \<open>Identical_refl\<close>).\<close>

fun Identical :: "heap \<Rightarrow> ty \<Rightarrow> ty \<Rightarrow> bool" where
  "Identical h (Basic k) (Basic k') \<longleftrightarrow> k = k'"
| "Identical h (ClassType s args outer) (ClassType s' args' outer') \<longleftrightarrow>
     s = s' \<and> list_all2 (\<lambda>x y. Identical h x y) args args' \<and>
     (case outer of
        None \<Rightarrow> outer' = None
      | Some p \<Rightarrow> (case outer' of None \<Rightarrow> False | Some q \<Rightarrow> Identical h p q))"
| "Identical h (ArrayType e) (ArrayType e') \<longleftrightarrow> Identical h e e'"
| "Identical h (TypeVar v) (TypeVar w) \<longleftrightarrow> v = w \<or> tvSym (var_of h v) = tvSym (var_of h w)"
| "Identical h (Wildcard w b) (Wildcard w' b') \<longleftrightarrow>
     w = w' \<and> (case b of None \<Rightarrow> b' = None | Some x \<Rightarrow> (case b' of None \<Rightarrow> False | Some y \<Rightarrow> Identical h x y))"
| "Identical h (Intersection bs) (Intersection bs') \<longleftrightarrow>
     list_all2 (\<lambda>x y. Identical h x y) bs bs'"
| "Identical h (ErrorType s) (ErrorType s') \<longleftrightarrow> s = s'"
| "Identical h _ _ \<longleftrightarrow> False"

section \<open>Erasure\<close>

partial_function (option) Erase :: "heap \<Rightarrow> ty \<Rightarrow> ty option" where
  "Erase h t =
     (case t of
        ClassType s args outer \<Rightarrow> if args = [] \<and> outer = None then Some t else Some (ClassType s [] None)
      | ArrayType e \<Rightarrow> Option.bind (Erase h e) (\<lambda>e'. Some (ArrayType e'))
      | TypeVar v \<Rightarrow> (case tvBound (var_of h v) of None \<Rightarrow> Some t | Some b \<Rightarrow> Erase h b)
      | Intersection bs \<Rightarrow> (case bs of [] \<Rightarrow> Some t | b # bs' \<Rightarrow> Erase h b)
      | Wildcard w b \<Rightarrow> (case b of Some x \<Rightarrow> Erase h x | None \<Rightarrow> Some t)
      | _ \<Rightarrow> Some t)"

lemma Erase_eqs [simp]:
  "Erase h (Basic k) = Some (Basic k)"
  "Erase h (ErrorType n) = Some (ErrorType n)"
  "Erase h (ClassType s args outer) = Some (ClassType s [] None)"
  "Erase h (ArrayType e) = map_option ArrayType (Erase h e)"
  "Erase h (Wildcard w None) = Some (Wildcard w None)"
  "Erase h (Wildcard w (Some x)) = Erase h x"
  "Erase h (Intersection []) = Some (Intersection [])"
  "Erase h (Intersection (b # bs)) = Erase h b"
  by (subst Erase.simps, simp add: map_option_case Option.bind_eq_Some_conv split: option.split)+

lemma Erase_TypeVar:
  "Erase h (TypeVar v) = (case tvBound (var_of h v) of None \<Rightarrow> Some (TypeVar v) | Some b \<Rightarrow> Erase h b)"
  by (subst Erase.simps) simp

definition EraseMethod :: "heap \<Rightarrow> methodType \<Rightarrow> methodType option" where
  "EraseMethod h mt =
     Option.bind (Erase h (mtResult mt)) (\<lambda>r.
     Option.bind (those (map (Erase h) (mtParams mt))) (\<lambda>ps.
     Option.bind (those (map (Erase h) (mtThrows mt))) (\<lambda>xs.
       Some \<lparr>mtTypeParams = [], mtParams = ps, mtResult = r, mtThrows = xs\<rparr>)))"

section \<open>Descriptors\<close>

definition ObjectName :: string where "ObjectName = ''java/lang/Object''"

definition objectDesc :: dtype where
  "objectDesc = \<lparr>tKind = KObject, tDims = 0, tName = ObjectName\<rparr>"

definition descKind :: "tkind \<Rightarrow> kind" where
  "descKind k =
     (case k of KindVoid \<Rightarrow> KVoid | KindBoolean \<Rightarrow> KBoolean | KindByte \<Rightarrow> KByte | KindChar \<Rightarrow> KChar | KindShort \<Rightarrow> KShort
      | KindInt \<Rightarrow> KInt | KindLong \<Rightarrow> KLong | KindFloat \<Rightarrow> KFloat | KindDouble \<Rightarrow> KDouble | _ \<Rightarrow> KObject)"

partial_function (option) Descriptor :: "heap \<Rightarrow> ty \<Rightarrow> dtype option" where
  "Descriptor h t =
     Option.bind (Erase h t) (\<lambda>u.
       case u of
         Basic k \<Rightarrow> Some \<lparr>tKind = descKind k, tDims = 0, tName = []\<rparr>
       | ClassType s args outer \<Rightarrow>
           (case s of None \<Rightarrow> Some objectDesc | Some c \<Rightarrow> Some \<lparr>tKind = KObject, tDims = 0, tName = binary_of h c\<rparr>)
       | ArrayType e \<Rightarrow> Option.bind (Descriptor h e) (\<lambda>inner. Some (inner\<lparr>tDims := tDims inner + 1\<rparr>))
       | _ \<Rightarrow> Some objectDesc)"

definition MethodDescriptor :: "heap \<Rightarrow> methodType option \<Rightarrow> string option" where
  "MethodDescriptor h mt =
     (case mt of
        None \<Rightarrow> Some ''()V''
      | Some m \<Rightarrow>
          Option.bind (Descriptor h (mtResult m)) (\<lambda>r.
          Option.bind (those (map (Descriptor h) (mtParams m))) (\<lambda>ps.
            Some (method_string \<lparr>mParams = ps, mRet = r\<rparr>))))"

definition Slots :: "ty \<Rightarrow> nat" where
  "Slots t = (case Kind t of KindVoid \<Rightarrow> 0 | KindLong \<Rightarrow> 2 | KindDouble \<Rightarrow> 2 | _ \<Rightarrow> 1)"

section \<open>Types from descriptors\<close>

text \<open>\<open>sym.Table.Class\<close> on the classes the table holds.\<close>

definition syms_Class :: "heap \<Rightarrow> string \<Rightarrow> csym option" where
  "syms_Class h binary = map_of (hTable h) binary"

lemma parseType_name:
  assumes "parseType s v = Inr (d, n)"
  shows "length (tName d) < length s"
proof -
  let ?n = "length (takeWhile (\<lambda>c. c = CHR ''['') s)"
  obtain c rest where r: "drop ?n s = c # rest"
    using assms by (auto simp: parseType_def Let_def split: if_splits list.splits)
  then have "length rest < length s" by (metis Suc_le_eq diff_le_self length_Cons length_drop)
  moreover have "length (tName d) \<le> length rest"
    using assms r by (auto simp: parseType_def Let_def split: if_splits option.splits)
  ultimately show ?thesis by simp
qed

lemma ParseField_name: "ParseField s = Inr d \<Longrightarrow> length (tName d) < length s"
  by (auto simp: ParseField_def rbind_Inr_iff dest: parseType_name split: prod.splits if_splits)

function named and fromDescriptor and fromDescType where
  "named h binary =
     (if binary = [] then ErrorType []
      else if hd binary = CHR ''['' then fromDescriptor h binary
      else case syms_Class h binary of None \<Rightarrow> ErrorType binary | Some c \<Rightarrow> ClassType (Some c) [] None)"
| "fromDescriptor h s =
     (if s = [] then ErrorType []
      else case ParseField s of Inl e \<Rightarrow> ErrorType s | Inr d \<Rightarrow> fromDescType h d)"
| "fromDescType h d =
     (case tKind d of
        KVoid \<Rightarrow> arrayOf (Basic KindVoid) (tDims d)
      | KBoolean \<Rightarrow> arrayOf (Basic KindBoolean) (tDims d)
      | KByte \<Rightarrow> arrayOf (Basic KindByte) (tDims d)
      | KChar \<Rightarrow> arrayOf (Basic KindChar) (tDims d)
      | KShort \<Rightarrow> arrayOf (Basic KindShort) (tDims d)
      | KInt \<Rightarrow> arrayOf (Basic KindInt) (tDims d)
      | KLong \<Rightarrow> arrayOf (Basic KindLong) (tDims d)
      | KFloat \<Rightarrow> arrayOf (Basic KindFloat) (tDims d)
      | KDouble \<Rightarrow> arrayOf (Basic KindDouble) (tDims d)
      | KObject \<Rightarrow> arrayOf (named h (tName d)) (tDims d)
      | KInvalid \<Rightarrow> ErrorType [])"
  by pat_completeness auto

termination
  by (relation "measure (\<lambda>x. case x of Inl (h, b) \<Rightarrow> 3 * length b + 2 | Inr (Inl (h, s)) \<Rightarrow> 3 * length s + 1
      | Inr (Inr (h, d)) \<Rightarrow> 3 * length (tName d) + 3)")
    (auto dest: ParseField_name)

declare named.simps [simp del] fromDescriptor.simps [simp del] fromDescType.simps [simp del]

section \<open>When erasure returns\<close>

text \<open>The type variable that erasure meets first, and the chain of variables it follows through their bounds.\<close>

fun lead :: "ty \<Rightarrow> tvar option" where
  "lead (TypeVar v) = Some v"
| "lead (ArrayType e) = lead e"
| "lead (Wildcard w (Some b)) = lead b"
| "lead (Intersection (b # bs)) = lead b"
| "lead _ = None"

definition next_var :: "heap \<Rightarrow> tvar \<Rightarrow> tvar option" where
  "next_var h v = (case tvBound (var_of h v) of None \<Rightarrow> None | Some b \<Rightarrow> lead b)"

primrec lead_chain :: "heap \<Rightarrow> nat \<Rightarrow> tvar option \<Rightarrow> tvar option" where
  "lead_chain h 0 x = x"
| "lead_chain h (Suc n) x = (case x of None \<Rightarrow> None | Some v \<Rightarrow> lead_chain h n (next_var h v))"

lemma lead_chain_None [simp]: "lead_chain h n None = None"
  by (cases n) simp_all

fun erased :: "heap \<Rightarrow> ty \<Rightarrow> bool" where
  "erased h (ClassType s args outer) \<longleftrightarrow> args = [] \<and> outer = None"
| "erased h (ArrayType e) \<longleftrightarrow> erased h e"
| "erased h (TypeVar v) \<longleftrightarrow> tvBound (var_of h v) = None"
| "erased h (Wildcard w b) \<longleftrightarrow> b = None"
| "erased h (Intersection bs) \<longleftrightarrow> bs = []"
| "erased h _ \<longleftrightarrow> True"

lemma Erase_erased: "erased h u \<Longrightarrow> Erase h u = Some u"
  by (induction h u rule: erased.induct) (auto simp: Erase_TypeVar)

lemma Erase_gives:
  "Erase h t = Some u \<Longrightarrow> erased h u \<and> (\<exists>n. lead_chain h n (lead t) = None)"
proof (induction rule: Erase.raw_induct [rotated, consumes 1])
  case (1 E h t u)
  show ?case
  proof (cases t)
    case (TypeVar v)
    show ?thesis
    proof (cases "tvBound (var_of h v)")
      case None
      then have "lead_chain h 1 (lead t) = None" using TypeVar by (simp add: next_var_def)
      moreover have "erased h u" using None TypeVar 1(2) by auto
      ultimately show ?thesis by blast
    next
      case (Some b)
      then have "E h b = Some u" using 1(2) TypeVar by simp
      then obtain n where "erased h u" "lead_chain h n (lead b) = None" using 1(1) by blast
      then have "lead_chain h (Suc n) (lead t) = None" using Some TypeVar by (simp add: next_var_def)
      then show ?thesis using \<open>erased h u\<close> by blast
    qed
  qed (use 1 in \<open>auto simp: Option.bind_eq_Some_conv split: if_splits list.splits option.splits; metis lead_chain_None\<close>)+
qed

lemma Erase_returns: "lead_chain h n (lead t) = None \<Longrightarrow> \<exists>u. Erase h t = Some u"
proof (induction n arbitrary: t)
  case 0
  then show ?case by (induction t rule: lead.induct) auto
next
  case (Suc n)
  then show ?case
  proof (induction t rule: lead.induct)
    case (1 v)
    then show ?case by (cases "tvBound (var_of h v)") (auto simp: Erase_TypeVar next_var_def)
  qed auto
qed

lemma self_bound_never_erases:
  assumes "tvBound (var_of h v) = Some (TypeVar v)"
  shows "Erase h (TypeVar v) = None"
proof (rule ccontr)
  assume "Erase h (TypeVar v) \<noteq> None"
  then obtain n where "lead_chain h n (Some v) = None" using Erase_gives [of h "TypeVar v"] by auto
  moreover have "lead_chain h n (Some v) = Some v" using assms by (induction n) (simp_all add: next_var_def)
  ultimately show False by simp
qed

section \<open>Descriptors of types\<close>

text \<open>The element type under the dimensions of an array, and their number.\<close>

fun elem_of :: "ty \<Rightarrow> ty" where
  "elem_of (ArrayType e) = elem_of e"
| "elem_of t = t"

fun dims_of :: "ty \<Rightarrow> nat" where
  "dims_of (ArrayType e) = Suc (dims_of e)"
| "dims_of t = 0"

text \<open>An erased type that a descriptor can name: a primitive type or a class that the symbol table finds under its
  binary name, with at most 255 dimensions.\<close>

definition denotable :: "heap \<Rightarrow> ty \<Rightarrow> bool" where
  "denotable h u \<longleftrightarrow> dims_of u \<le> MaxDims \<and>
     (case elem_of u of
        Basic k \<Rightarrow> IsPrimitive k
      | ClassType (Some c) args outer \<Rightarrow>
          binary_of h c \<noteq> [] \<and> hd (binary_of h c) \<noteq> CHR ''['' \<and> CHR '';'' \<notin> set (binary_of h c) \<and>
          syms_Class h (binary_of h c) = Some c
      | _ \<Rightarrow> False)"

definition elem_desc :: "heap \<Rightarrow> ty \<Rightarrow> dtype" where
  "elem_desc h t =
     (case t of
        Basic k \<Rightarrow> \<lparr>tKind = descKind k, tDims = 0, tName = []\<rparr>
      | ClassType (Some c) args outer \<Rightarrow> \<lparr>tKind = KObject, tDims = 0, tName = binary_of h c\<rparr>
      | _ \<Rightarrow> objectDesc)"

lemma erased_elem: "erased h u \<Longrightarrow> erased h (elem_of u)"
  by (induction u rule: elem_of.induct) simp_all

lemma Descriptor_erased:
  "erased h u \<Longrightarrow> Descriptor h u = Some ((elem_desc h (elem_of u))\<lparr>tDims := dims_of u\<rparr>)"
proof (induction u rule: elem_of.induct)
  case (1 e)
  then show ?case by (subst Descriptor.simps) (simp add: Erase_erased)
qed (subst Descriptor.simps, auto simp: Erase_erased Erase_TypeVar elem_desc_def objectDesc_def split: option.splits)+

lemma Descriptor_Erase: "Erase h t = Some u \<Longrightarrow> Descriptor h t = Descriptor h u"
  using Erase_erased [of h u] Erase_gives [of h t u] by (subst (1 2) Descriptor.simps) simp

lemma arrayOf_ArrayType: "arrayOf (ArrayType x) n = ArrayType (arrayOf x n)"
  by (induction n arbitrary: x) simp_all

lemma arrayOf_elem: "arrayOf (elem_of u) (dims_of u) = u"
  by (induction u rule: elem_of.induct) (simp_all add: arrayOf_ArrayType)

lemma descKind_primitive:
  assumes "IsPrimitive k"
  shows "descKind k \<noteq> KInvalid \<and> descKind k \<noteq> KVoid \<and> descKind k \<noteq> KObject \<and>
    fromDescType h \<lparr>tKind = descKind k, tDims = n, tName = []\<rparr> = arrayOf (Basic k) n"
  using assms by (cases k) (simp_all add: IsPrimitive_def descKind_def fromDescType.simps)

lemma denotable_desc:
  assumes "erased h u" "denotable h u"
  defines "d \<equiv> (elem_desc h (elem_of u))\<lparr>tDims := dims_of u\<rparr>"
  shows "wf_type False d" "fromDescType h d = u"
proof -
  have w: "dims_of u \<le> MaxDims" using assms(2) by (simp add: denotable_def)
  have "wf_type False d \<and> fromDescType h d = arrayOf (elem_of u) (dims_of u)"
  proof (cases "elem_of u")
    case (Basic k)
    then have "IsPrimitive k" using assms(2) by (simp add: denotable_def)
    then show ?thesis using w descKind_primitive [of k h "dims_of u"] Basic
      by (simp add: d_def elem_desc_def wf_type_def)
  next
    case (ClassType s args outer)
    then obtain c where c: "s = Some c" "args = []" "outer = None"
      using assms(2) erased_elem [OF assms(1)] by (auto simp: denotable_def split: option.splits)
    then show ?thesis using w assms(2) ClassType
      by (simp add: denotable_def d_def elem_desc_def wf_type_def fromDescType.simps named.simps)
  qed (use assms(2) in \<open>simp_all add: denotable_def\<close>)
  then show "wf_type False d" "fromDescType h d = u" by (simp_all add: arrayOf_elem)
qed

text \<open>C14: the descriptor of a type is the descriptor of its erasure; when that is a primitive type or a class the
  symbol table knows, with at most 255 dimensions, the descriptor is well formed: it parses, and reading it back
  gives the erasure.\<close>

theorem Descriptor_reads_back:
  assumes "Erase h t = Some u" "denotable h u"
  shows "\<exists>d. Descriptor h t = Some d \<and> ParseField (type_string d) = Inr d \<and> fromDescriptor h (type_string d) = u"
proof -
  have e: "erased h u" using assms(1) Erase_gives by blast
  let ?d = "(elem_desc h (elem_of u))\<lparr>tDims := dims_of u\<rparr>"
  have p: "ParseField (type_string ?d) = Inr ?d" by (simp add: parse_field_iff denotable_desc [OF e assms(2)])
  then have "fromDescriptor h (type_string ?d) = u"
    using denotable_desc(2) [OF e assms(2)] length_type_string [of ?d] by (auto simp: fromDescriptor.simps)
  then show ?thesis using p Descriptor_Erase [OF assms(1)] Descriptor_erased [OF e] by simp
qed

definition enum_heap :: heap where
  "enum_heap =
     \<lparr>hClasses = [\<lparr>coBinary = ''java/lang/Enum'', coStatic = False, coSuper = None, coIfaces = []\<rparr>],
      hVars = [\<lparr>tvSym = Some 0, tvBound = Some (ClassType (Some 0) [TypeVar 0] None)\<rparr>],
      hParams = [''E''], hTable = [(''java/lang/Enum'', 0)]\<rparr>"

theorem Descriptor_reads_back_witness:
  "Erase enum_heap (ArrayType (TypeVar 0)) = Some (ArrayType (ClassType (Some 0) [] None)) \<and>
   denotable enum_heap (ArrayType (ClassType (Some 0) [] None)) \<and>
   (\<exists>d. Descriptor enum_heap (ArrayType (TypeVar 0)) = Some d \<and> ParseField (type_string d) = Inr d \<and>
     fromDescriptor enum_heap (type_string d) = ArrayType (ClassType (Some 0) [] None))"
proof -
  have e: "Erase enum_heap (ArrayType (TypeVar 0)) = Some (ArrayType (ClassType (Some 0) [] None))"
    by (simp add: Erase_TypeVar var_of_def enum_heap_def)
  moreover have d: "denotable enum_heap (ArrayType (ClassType (Some 0) [] None))"
    by (simp add: denotable_def binary_of_def enum_heap_def syms_Class_def MaxDims_def)
  ultimately show ?thesis using Descriptor_reads_back [OF e d] by blast
qed

text \<open>The null type has no descriptor: what \<open>Descriptor\<close> returns for it does not parse.\<close>

lemma Descriptor_null:
  "Descriptor h (Basic KindNull) = Some \<lparr>tKind = KObject, tDims = 0, tName = []\<rparr>"
  "ParseField (type_string \<lparr>tKind = KObject, tDims = 0, tName = []\<rparr>) = Inl (EmptyClassName ''L;'')"
  by (subst Descriptor.simps, simp add: descKind_def)
    (simp add: type_string_def ParseField_def parseType_def MaxDims_def)

end
