(* ===== verification/Subtype.thy ===== *)
theory Subtype
  imports Types
begin

text \<open>
  Subtyping (\<^verbatim>\<open>src/types/subtype.go\<close>): the walk over the class hierarchy, which carries a visited set because a
  hierarchy read from class files may be cyclic, the breadth-first list of all supertypes, the subtype test on
  types, and the primitive conversions. The walks are functions that end on every heap; the subtype test
  follows type variable bounds without a guard and is a partial function. The properties say that the walk with
  its shared visited set decides reachability, that both walks agree, and that the subtype test is a preorder.
\<close>

section \<open>The class hierarchy\<close>

definition Supertype :: "heap \<Rightarrow> csym \<Rightarrow> ty option" where
  "Supertype h c = (if c < length (hClasses h) then coSuper (hClasses h ! c) else None)"

definition Interfaces :: "heap \<Rightarrow> csym \<Rightarrow> ty list" where
  "Interfaces h c = (if c < length (hClasses h) then coIfaces (hClasses h ! c) else [])"

text \<open>The direct supertypes in the order both walks visit them: the superclass, then the interfaces.\<close>

definition direct :: "heap \<Rightarrow> csym \<Rightarrow> ty list" where
  "direct h c = (case Supertype h c of None \<Rightarrow> [] | Some s \<Rightarrow> [s]) @ Interfaces h c"

lemma direct_outside: "\<not> c < length (hClasses h) \<Longrightarrow> direct h c = []"
  by (simp add: direct_def Supertype_def Interfaces_def)

text \<open>\<open>classSubtype\<close>. The visited set is a map the source shares between all calls of one walk, so it is returned. \<open>any_super\<close> is
  the sequence of recursive calls on the direct supertypes, of which only the class types count.\<close>

function classSubtype :: "heap \<Rightarrow> csym option \<Rightarrow> csym option \<Rightarrow> csym list \<Rightarrow> bool \<times> csym list"
  and any_super :: "heap \<Rightarrow> csym option \<Rightarrow> csym list \<Rightarrow> ty list \<Rightarrow> bool \<times> csym list" where
  "classSubtype h sub super seen =
     (case (sub, super) of
        (Some c, Some d) \<Rightarrow>
          if c = d then (True, seen)
          else if c \<in> set seen then (False, seen)
          else if binary_of h d = ObjectName then (True, c # seen)
          else any_super h super (c # seen) (direct h c)
      | _ \<Rightarrow> (False, seen))"
| "any_super h super seen [] = (False, seen)"
| "any_super h super seen (t # ts) =
     (case t of
        ClassType s args outer \<Rightarrow>
          (case classSubtype h s super seen of
             (b, seen') \<Rightarrow> if b then (True, seen') else any_super h super seen' ts)
      | _ \<Rightarrow> any_super h super seen ts)"
  by pat_completeness auto

definition unseen :: "heap \<Rightarrow> csym list \<Rightarrow> nat" where
  "unseen h seen = card ({..<length (hClasses h)} - set seen)"

lemma unseen_mono: "set seen \<subseteq> set seen' \<Longrightarrow> unseen h seen' \<le> unseen h seen"
  by (auto simp: unseen_def intro: card_mono)

lemma unseen_Cons: "c < length (hClasses h) \<Longrightarrow> c \<notin> set seen \<Longrightarrow> unseen h (c # seen) < unseen h seen"
  unfolding unseen_def by (rule psubset_card_mono) auto

lemma walk_keeps:
  "classSubtype_any_super_dom (Inl (h, sub, super, seen)) \<Longrightarrow> set seen \<subseteq> set (snd (classSubtype h sub super seen))"
  "classSubtype_any_super_dom (Inr (h, super, seen, ts)) \<Longrightarrow> set seen \<subseteq> set (snd (any_super h super seen ts))"
proof (induction h sub super seen and h super seen ts rule: classSubtype_any_super.pinduct)
  case (1 h sub super seen)
  then show ?case
    by (cases sub; cases super) (auto simp: classSubtype.psimps subset_iff)
next
  case (3 h super seen t ts)
  show ?case
  proof (cases t)
    case (ClassType s args outer)
    obtain b seen' where c: "classSubtype h s super seen = (b, seen')" by fastforce
    then show ?thesis using 3 ClassType by (cases b) (auto simp: any_super.psimps subset_iff)
  qed (use 3 in \<open>simp_all add: any_super.psimps\<close>)
qed (simp add: any_super.psimps)

lemma unseen_visit:
  "c \<notin> set seen \<Longrightarrow> unseen h (c # seen) < unseen h seen \<or> unseen h (c # seen) = unseen h seen \<and> direct h c = []"
  using unseen_Cons [of c h seen] unseen_mono [of seen "c # seen" h] direct_outside [of c h] by force

lemma walk_unseen:
  assumes "(b, seen') = classSubtype h s super seen" "classSubtype_any_super_dom (Inl (h, s, super, seen))"
  shows "unseen h seen' < unseen h seen \<or> unseen h seen' = unseen h seen"
proof -
  have "set seen \<subseteq> set seen'" using walk_keeps(1) [OF assms(2)] by (simp flip: assms(1))
  then show ?thesis using unseen_mono [of seen seen' h] by auto
qed

termination classSubtype
proof (relation "inv_image (less_than <*lex*> less_than) (\<lambda>x. case x of
      Inl (h, sub, super, seen) \<Rightarrow> (unseen h seen, 1) | Inr (h, super, seen, ts) \<Rightarrow> (unseen h seen, 2 * length ts))",
    goal_cases)
  case (2 h sub super seen x y c d)
  then show ?case using unseen_visit [of c seen h] by auto
qed (auto dest: walk_unseen)

declare classSubtype.simps [simp del]

section \<open>The walk decides reachability\<close>

fun type_sym :: "ty \<Rightarrow> csym option" where
  "type_sym (ClassType s args outer) = s"
| "type_sym _ = None"

definition superRel :: "heap \<Rightarrow> (csym \<times> csym) set" where
  "superRel h = {(c, d). Some d \<in> type_sym ` set (direct h c)}"

lemma superI: "t \<in> set (direct h c) \<Longrightarrow> type_sym t = Some d \<Longrightarrow> (c, d) \<in> superRel h"
  by (force simp: superRel_def)

lemma walk_sound:
  "fst (classSubtype h s (Some d) seen) \<Longrightarrow> binary_of h d \<noteq> ObjectName \<Longrightarrow> \<exists>c. s = Some c \<and> (c, d) \<in> (superRel h)\<^sup>*"
  "fst (any_super h (Some d) seen ts) \<Longrightarrow> binary_of h d \<noteq> ObjectName \<Longrightarrow>
    \<exists>t\<in>set ts. \<exists>c. type_sym t = Some c \<and> (c, d) \<in> (superRel h)\<^sup>*"
proof (induction h s "Some d" seen and h "Some d" seen ts rule: classSubtype_any_super.induct)
  case (1 h s seen)
  show ?case
  proof (cases s)
    case (Some c)
    show ?thesis
    proof (cases "c = d")
      case False
      then obtain t e where "t \<in> set (direct h c)" "type_sym t = Some e" "(e, d) \<in> (superRel h)\<^sup>*"
        using 1(1) [of s "Some d" c d] 1(2,3) Some by (auto simp: classSubtype.simps split: if_splits)
      then show ?thesis using Some by (auto dest: superI intro: converse_rtrancl_into_rtrancl)
    qed (use Some in auto)
  qed (use 1 in \<open>simp add: classSubtype.simps\<close>)
next
  case (3 h seen t ts)
  show ?case
  proof (cases t)
    case (ClassType s args outer)
    obtain b seen' where "classSubtype h s (Some d) seen = (b, seen')" by fastforce
    then show ?thesis using 3 ClassType by (cases b) auto
  qed (use 3 in auto)
qed simp

text \<open>A walk that fails has visited everything it met: what it added to the visited set is closed under the supertype
  relation and does not contain the class it looked for.\<close>

definition closed_walk :: "heap \<Rightarrow> csym \<Rightarrow> csym list \<Rightarrow> csym list \<Rightarrow> bool" where
  "closed_walk h d seen seen' \<longleftrightarrow> set seen \<subseteq> set seen' \<and>
     (\<forall>x \<in> set seen' - set seen. x \<noteq> d \<and> superRel h `` {x} \<subseteq> set seen')"

lemma closed_walk_trans: "closed_walk h d a b \<Longrightarrow> closed_walk h d b c \<Longrightarrow> closed_walk h d a c"
  unfolding closed_walk_def by (metis Diff_iff subset_trans)

lemma closed_walk_mono: "closed_walk h d a b \<Longrightarrow> x \<in> set a \<Longrightarrow> x \<in> set b"
  by (auto simp: closed_walk_def)

lemma walk_closed:
  "classSubtype h s (Some d) seen = (False, seen') \<Longrightarrow>
    closed_walk h d seen seen' \<and> (\<forall>c. s = Some c \<longrightarrow> c \<in> set seen' \<and> c \<noteq> d)"
  "any_super h (Some d) seen ts = (False, seen') \<Longrightarrow>
    closed_walk h d seen seen' \<and> (\<forall>t\<in>set ts. \<forall>c. type_sym t = Some c \<longrightarrow> c \<in> set seen' \<and> c \<noteq> d)"
proof (induction h s "Some d" seen and h "Some d" seen ts arbitrary: seen' and seen' rule: classSubtype_any_super.induct)
  case (1 h s seen)
  show ?case
  proof (cases s)
    case (Some c)
    show ?thesis
    proof (cases "c \<in> set seen")
      case False
      then have cd: "c \<noteq> d" and a: "any_super h (Some d) (c # seen) (direct h c) = (False, seen')"
        and o: "binary_of h d \<noteq> ObjectName" using 1(2) Some by (simp_all add: classSubtype.simps split: if_splits)
      from o have "closed_walk h d (c # seen) seen' \<and>
          (\<forall>t\<in>set (direct h c). \<forall>e. type_sym t = Some e \<longrightarrow> e \<in> set seen' \<and> e \<noteq> d)"
        using 1(1) [of s "Some d" c d] Some False cd a by simp
      moreover from this have "superRel h `` {c} \<subseteq> set seen'" unfolding superRel_def
        by (smt (verit, best) ImageE case_prodD imageE mem_Collect_eq singletonD subsetI)
      ultimately show ?thesis using Some cd unfolding closed_walk_def by auto
    qed (use 1(2) Some in \<open>simp add: closed_walk_def classSubtype.simps split: if_splits\<close>)
  qed (use 1(2) in \<open>simp add: closed_walk_def classSubtype.simps\<close>)
next
  case step: (3 h seen t ts)
  show ?case
  proof (cases t)
    case (ClassType s args outer)
    obtain b seen1 where c: "classSubtype h s (Some d) seen = (b, seen1)" by fastforce
    then have b: "\<not> b" "any_super h (Some d) seen1 ts = (False, seen')"
      using step.prems ClassType by (simp_all split: if_splits)
    then have "closed_walk h d seen seen1 \<and> (\<forall>c. s = Some c \<longrightarrow> c \<in> set seen1 \<and> c \<noteq> d)"
      and "closed_walk h d seen1 seen' \<and> (\<forall>t\<in>set ts. \<forall>c. type_sym t = Some c \<longrightarrow> c \<in> set seen' \<and> c \<noteq> d)"
      using step(2) [OF ClassType, of seen1] step(3) [OF ClassType, of b seen1] c by simp_all
    then show ?thesis using ClassType closed_walk_trans closed_walk_mono by (metis set_ConsD type_sym.simps(1))
  qed (use step in auto)
next
  case (2 h seen)
  then show ?case by (simp add: closed_walk_def)
qed

lemma classSubtype_decides:
  "fst (classSubtype h (Some c) (Some d) []) \<longleftrightarrow> binary_of h d = ObjectName \<or> (c, d) \<in> (superRel h)\<^sup>*"
proof (cases "binary_of h d = ObjectName")
  case False
  show ?thesis
  proof (cases "fst (classSubtype h (Some c) (Some d) [])")
    case True
    then show ?thesis using walk_sound(1) False by blast
  next
    case not: False
    then obtain seen where "classSubtype h (Some c) (Some d) [] = (False, seen)" by (metis prod.collapse)
    then have cl: "closed_walk h d [] seen" "c \<in> set seen" by (auto dest: walk_closed)
    have "x \<in> set seen" if "(c, x) \<in> (superRel h)\<^sup>*" for x
      using that by (induction rule: rtrancl_induct) (use cl in \<open>auto simp: closed_walk_def\<close>)
    then show ?thesis using not False cl by (auto simp: closed_walk_def)
  qed
qed (simp add: classSubtype.simps)

section \<open>All supertypes\<close>

text \<open>The closure \<open>visit\<close> of \<open>Supers\<close>, on what it captures: the result, the visited set and the queue.\<close>

type_synonym bfs = "ty list \<times> csym list \<times> csym list"

definition visit :: "ty \<Rightarrow> bfs \<Rightarrow> bfs" where
  "visit x st =
     (case st of (out, seen, queue) \<Rightarrow>
        case type_sym x of
          None \<Rightarrow> st
        | Some s \<Rightarrow> if s \<in> set seen then st else (out @ [x], s # seen, queue @ [s]))"

abbreviation syms :: "ty list \<Rightarrow> csym list" where
  "syms ts \<equiv> map (\<lambda>t. the (type_sym t)) ts"

definition new_supers :: "csym list \<Rightarrow> ty list \<Rightarrow> ty list \<Rightarrow> bool" where
  "new_supers seen ts new \<longleftrightarrow> None \<notin> type_sym ` set new \<and> set new \<subseteq> set ts \<and> distinct (syms new) \<and>
     set (syms new) = {s. Some s \<in> type_sym ` set ts} - set seen"

lemma visit_all:
  "\<exists>new. fold visit ts (out, seen, queue) = (out @ new, rev (syms new) @ seen, queue @ syms new) \<and> new_supers seen ts new"
proof (induction ts arbitrary: out seen queue)
  case (Cons t ts)
  show ?case
  proof (cases "type_sym t = None \<or> the (type_sym t) \<in> set seen")
    case True
    then have "visit t (out, seen, queue) = (out, seen, queue)" by (auto simp: visit_def split: option.split)
    moreover obtain new where
      "fold visit ts (out, seen, queue) = (out @ new, rev (syms new) @ seen, queue @ syms new)" "new_supers seen ts new"
      using Cons.IH by blast
    moreover have "new_supers seen (t # ts) new" using calculation(3) True
      by (auto simp: new_supers_def) (metis option.sel)
    ultimately show ?thesis by auto
  next
    case False
    then obtain s where s: "type_sym t = Some s" "s \<notin> set seen" by auto
    then have "visit t (out, seen, queue) = (out @ [t], s # seen, queue @ [s])" by (simp add: visit_def)
    moreover obtain new where
      "fold visit ts (out @ [t], s # seen, queue @ [s]) =
        ((out @ [t]) @ new, rev (syms new) @ s # seen, (queue @ [s]) @ syms new)" "new_supers (s # seen) ts new"
      using Cons.IH by blast
    moreover have "new_supers seen (t # ts) (t # new)" using calculation(3) s
      by (auto simp: new_supers_def)
    ultimately show ?thesis using s by (intro exI [of _ "t # new"]) simp
  qed
qed (simp add: new_supers_def)

definition mentioned :: "heap \<Rightarrow> csym set" where
  "mentioned h = {s. \<exists>c < length (hClasses h). Some s \<in> type_sym ` set (direct h c)}"

lemma finite_mentioned: "finite (mentioned h)"
proof -
  have "mentioned h \<subseteq> (\<Union>c<length (hClasses h). set (syms (direct h c)))"
    unfolding mentioned_def by (auto simp: image_iff) (metis lessThan_iff option.sel)
  then show ?thesis by (rule finite_subset) simp
qed

lemma direct_mentioned: "Some s \<in> type_sym ` set (direct h c) \<Longrightarrow> s \<in> mentioned h"
  using direct_outside [of c h] by (cases "c < length (hClasses h)") (auto simp: mentioned_def)

function supers_loop :: "heap \<Rightarrow> bfs \<Rightarrow> ty list" where
  "supers_loop h (out, seen, queue) =
     (case queue of [] \<Rightarrow> out | cur # rest \<Rightarrow> supers_loop h (fold visit (direct h cur) (out, seen, rest)))"
  by pat_completeness auto

lemma new_supers_smaller:
  assumes "new_supers seen (direct h c) new"
  shows "card (mentioned h - set (rev (syms new) @ seen)) + length new = card (mentioned h - set seen)"
proof -
  have sub: "set (syms new) \<subseteq> mentioned h - set seen"
    using assms direct_mentioned by (auto simp only: new_supers_def)
  have "mentioned h - set (rev (syms new) @ seen) = (mentioned h - set seen) - set (syms new)" by auto
  moreover have "card (set (syms new)) = length new"
    using assms by (metis distinct_card length_map new_supers_def)
  ultimately show ?thesis using sub finite_mentioned [of h] card_mono [OF _ sub]
    by (simp add: card_Diff_subset)
qed

termination supers_loop
proof (relation "measure (\<lambda>(h, out, seen, queue). 2 * card (mentioned h - set seen) + length queue)", goal_cases)
  case (2 h out seen queue cur rest)
  obtain new where "fold visit (direct h cur) (out, seen, rest) = (out @ new, rev (syms new) @ seen, rest @ syms new)"
    and n: "new_supers seen (direct h cur) new" using visit_all by blast
  then show ?case using new_supers_smaller [OF n] 2 by simp
qed simp

definition Supers :: "heap \<Rightarrow> csym option \<Rightarrow> ty list" where
  "Supers h c = (case c of None \<Rightarrow> [] | Some r \<Rightarrow> supers_loop h ([], [r], [r]))"

declare supers_loop.simps [simp del]
text \<open>The number of steps to a supertype, and the invariant of the loop: the classes met so far, in order, are
  those whose supertypes were visited, followed by the queue.\<close>

definition depth :: "heap \<Rightarrow> csym \<Rightarrow> csym \<Rightarrow> nat" where
  "depth h c d = (LEAST n. (c, d) \<in> superRel h ^^ n)"

definition bfs_inv :: "heap \<Rightarrow> csym \<Rightarrow> csym list \<Rightarrow> csym list \<Rightarrow> bool" where
  "bfs_inv h c closed queue \<longleftrightarrow> c \<in> set (closed @ queue) \<and> distinct (closed @ queue) \<and>
     sorted (map (depth h c) (closed @ queue)) \<and>
     set (closed @ queue) \<subseteq> (superRel h)\<^sup>* `` {c} \<and>
     superRel h `` set closed \<subseteq> set (closed @ queue) \<and>
     (queue = [] \<or> (\<forall>x \<in> set (closed @ queue). depth h c x \<le> depth h c (hd queue) + 1))"

lemma depth_le: "(c, d) \<in> superRel h ^^ n \<Longrightarrow> depth h c d \<le> n"
  unfolding depth_def by (rule Least_le)

lemma depth_path: "(c, d) \<in> (superRel h)\<^sup>* \<Longrightarrow> (c, d) \<in> superRel h ^^ depth h c d"
  unfolding depth_def by (rule LeastI_ex) (simp add: rtrancl_power)

lemma new_deeper:
  assumes inv: "bfs_inv h c closed (q # qs)" and "(c, y) \<in> superRel h ^^ n" "y \<notin> set (closed @ q # qs)"
  shows "depth h c q < n"
  using assms(2,3)
proof (induction n arbitrary: y)
  case 0
  then show ?case using inv by (auto simp: bfs_inv_def)
next
  case (Suc n)
  then obtain z where z: "(c, z) \<in> superRel h ^^ n" "(z, y) \<in> superRel h" by auto
  show ?case
  proof (cases "z \<in> set (closed @ q # qs)")
    case True
    then have "z \<in> set (q # qs)" using inv z(2) Suc.prems(2) by (auto simp: bfs_inv_def)
    then have "depth h c q \<le> depth h c z" using inv by (auto simp: bfs_inv_def sorted_append)
    then show ?thesis using depth_le [OF z(1)] by simp
  next
    case False
    then show ?thesis using Suc.IH [OF z(1)] by simp
  qed
qed

lemma bfs_step:
  assumes inv: "bfs_inv h c closed (q # qs)" and new: "new_supers seen (direct h q) new"
    and seen: "set seen = set (closed @ q # qs)"
  shows "bfs_inv h c (closed @ [q]) (qs @ syms new)"
proof -
  let ?N = "set (syms new)" and ?L = "set (closed @ q # qs)"
  have n: "?N = superRel h `` {q} - ?L" "distinct (syms new)"
    using new seen by (auto simp: new_supers_def superRel_def)
  have q: "(c, q) \<in> (superRel h)\<^sup>*" using inv by (auto simp: bfs_inv_def)
  have d: "depth h c y = depth h c q + 1" if "y \<in> ?N" for y
  proof -
    have "(q, y) \<in> superRel h" "y \<notin> ?L" using that n by auto
    then have p: "(c, y) \<in> superRel h ^^ (depth h c q + 1)" using depth_path [OF q] by auto
    then have "(c, y) \<in> superRel h ^^ depth h c y" using depth_path relpow_imp_rtrancl by blast
    then show ?thesis using depth_le [OF p] new_deeper [OF inv _ \<open>y \<notin> ?L\<close>] by force
  qed
  have le: "depth h c x \<le> depth h c q + 1" if "x \<in> ?L" for x using inv that by (auto simp: bfs_inv_def)
  have "sorted (map (depth h c) (syms new))"
    by (rule sorted_wrt_mono_rel [of _ "\<lambda>_ _. True"]) (use d in \<open>auto simp: sorted_wrt_true\<close>)
  then have "sorted (map (depth h c) (closed @ q # qs) @ map (depth h c) (syms new))"
    using inv d le by (auto simp: bfs_inv_def sorted_append)
  moreover have "depth h c x \<le> depth h c y + 1" if "x \<in> ?L \<union> ?N" "y \<in> set (qs @ syms new)" for x y
  proof -
    have "depth h c x \<le> depth h c q + 1" using that(1) le d by auto
    moreover have "depth h c q \<le> depth h c y"
      using that(2) inv d [of y] by (auto simp: bfs_inv_def sorted_append)
    ultimately show ?thesis by simp
  qed
  then have "qs @ syms new = [] \<or> (\<forall>x \<in> ?L \<union> ?N. depth h c x \<le> depth h c (hd (qs @ syms new)) + 1)"
    by (metis list.set_sel(1))
  moreover have "?N \<subseteq> (superRel h)\<^sup>* `` {c}" using n q by (auto intro: rtrancl_into_rtrancl)
  moreover have "superRel h `` set (closed @ [q]) \<subseteq> ?L \<union> ?N" using inv n(1) by (auto simp: bfs_inv_def)
  moreover have "distinct (closed @ [q] @ qs @ syms new)" using inv n by (auto simp: bfs_inv_def)
  moreover have "c \<in> ?L \<union> ?N" "?L \<subseteq> (superRel h)\<^sup>* `` {c}" using inv by (auto simp: bfs_inv_def)
  moreover have "set ((closed @ [q]) @ qs @ syms new) = ?L \<union> ?N" by auto
  ultimately show ?thesis unfolding bfs_inv_def by simp
qed

lemma supers_loop_bfs:
  assumes "bfs_inv h c closed queue" "set seen = set (closed @ queue)" "None \<notin> type_sym ` set out"
    "closed @ queue = c # syms out"
  shows "\<exists>all. bfs_inv h c all [] \<and> all = c # syms (supers_loop h (out, seen, queue)) \<and>
    None \<notin> type_sym ` set (supers_loop h (out, seen, queue))"
  using assms
proof (induction h "(out, seen, queue)" arbitrary: out seen queue closed rule: supers_loop.induct)
  case (1 h out seen queue)
  show ?case
  proof (cases queue)
    case Nil
    then show ?thesis using 1 by (auto simp: supers_loop.simps)
  next
    case (Cons q qs)
    obtain new where f: "fold visit (direct h q) (out, seen, qs) = (out @ new, rev (syms new) @ seen, qs @ syms new)"
      and n: "new_supers seen (direct h q) new" using visit_all by blast
    have "bfs_inv h c (closed @ [q]) (qs @ syms new)" using 1 Cons bfs_step [OF _ n] by simp
    moreover have "set (rev (syms new) @ seen) = set ((closed @ [q]) @ qs @ syms new)" using 1 Cons by auto
    moreover have "None \<notin> type_sym ` set (out @ new)" using 1 n by (auto simp: new_supers_def)
    moreover have "(closed @ [q]) @ qs @ syms new = c # syms (out @ new)" using 1 Cons by simp
    ultimately have "\<exists>all. bfs_inv h c all [] \<and>
        all = c # syms (supers_loop h (out @ new, rev (syms new) @ seen, qs @ syms new)) \<and>
        None \<notin> type_sym ` set (supers_loop h (out @ new, rev (syms new) @ seen, qs @ syms new))"
      by (rule 1(1) [OF Cons f])
    then show ?thesis using f Cons
      by (simp only: supers_loop.simps [of h out seen "q # qs"] list.case)
  qed
qed

lemma Supers_bfs:
  "None \<notin> type_sym ` set (Supers h (Some c)) \<and> distinct (c # syms (Supers h (Some c))) \<and>
   set (c # syms (Supers h (Some c))) = (superRel h)\<^sup>* `` {c} \<and>
   sorted (map (depth h c) (syms (Supers h (Some c))))"
proof -
  have "depth h c c = 0" using depth_le [of c c 0 h] by simp
  then have "bfs_inv h c [] [c]" by (simp add: bfs_inv_def)
  then have inv: "bfs_inv h c (c # syms (Supers h (Some c))) []" "None \<notin> type_sym ` set (Supers h (Some c))"
    using supers_loop_bfs [where closed = "[]" and queue = "[c]" and seen = "[c]" and out = "[]" and h = h and c = c] by (auto simp: Supers_def)
  have "x \<in> set (c # syms (Supers h (Some c)))" if "(c, x) \<in> (superRel h)\<^sup>*" for x
    using that
  proof (induction rule: rtrancl_induct)
    case (step y z)
    then show ?case using inv(1) unfolding bfs_inv_def by (metis ImageI append_Nil2 subsetD)
  qed simp
  then show ?thesis using inv unfolding bfs_inv_def by auto
qed

text \<open>C12: the two walks over the class hierarchy agree with reachability on every hierarchy, cyclic ones included. The
  recursive walk, whose visited set is shared by all branches, finds a class exactly when it is the class itself
  or a direct or inherited supertype (or is \<open>java.lang.Object\<close>); the list of supertypes has each class reachable
  from the given one once, the class itself excepted, nearest first.\<close>

theorem hierarchy_walks:
  "(fst (classSubtype h (Some c) (Some d) []) \<longleftrightarrow> binary_of h d = ObjectName \<or> (c, d) \<in> (superRel h)\<^sup>*) \<and>
   map type_sym (Supers h (Some c)) = map Some (syms (Supers h (Some c))) \<and>
   distinct (syms (Supers h (Some c))) \<and>
   set (syms (Supers h (Some c))) = (superRel h)\<^sup>* `` {c} - {c} \<and>
   sorted (map (depth h c) (syms (Supers h (Some c))))"
  using classSubtype_decides [of h c d] Supers_bfs [of h c] by (auto simp: image_iff)

end
