(* ===== verification/Subtyping.thy ===== *)
theory Subtyping
  imports Subtype
begin

text \<open>
  The subtype test on types and the primitive conversions (\<^verbatim>\<open>src/types/subtype.go\<close>). \<open>IsSubtype\<close> follows the bounds of
  type variables and the elements of arrays and intersections without a guard, so it is a partial function.
  The property says that on the types expressions have, over bounds that are not cyclic, it always returns and is
  a preorder.
\<close>

section \<open>Primitive conversions\<close>

text \<open>\<open>Widens\<close> compares pointers first; the primitive types are singletons, so that on them this is equality of kinds,
  and its callers never pass two reference types.\<close>

definition Widens :: "ty \<Rightarrow> ty \<Rightarrow> bool" where
  "Widens from to =
     (case (from, to) of
        (Basic f, Basic k) \<Rightarrow>
          if f = k then True
          else if \<not> IsPrimitive f \<or> \<not> IsPrimitive k then False
          else (case f of
              KindByte \<Rightarrow> k \<in> {KindShort, KindInt, KindLong, KindFloat, KindDouble}
            | KindShort \<Rightarrow> k \<in> {KindInt, KindLong, KindFloat, KindDouble}
            | KindChar \<Rightarrow> k \<in> {KindInt, KindLong, KindFloat, KindDouble}
            | KindInt \<Rightarrow> k \<in> {KindLong, KindFloat, KindDouble}
            | KindLong \<Rightarrow> k \<in> {KindFloat, KindDouble}
            | KindFloat \<Rightarrow> k = KindDouble
            | _ \<Rightarrow> False)
      | _ \<Rightarrow> False)"

definition Promote :: "ty \<Rightarrow> ty" where
  "Promote t = (if Kind t \<in> {KindByte, KindShort, KindChar} then Basic KindInt else t)"

definition PromoteBinary :: "ty \<Rightarrow> ty \<Rightarrow> ty" where
  "PromoteBinary a b =
     (if Kind a = KindDouble \<or> Kind b = KindDouble then Basic KindDouble
      else if Kind a = KindFloat \<or> Kind b = KindFloat then Basic KindFloat
      else if Kind a = KindLong \<or> Kind b = KindLong then Basic KindLong
      else Basic KindInt)"

section \<open>The subtype test\<close>

definition isObject :: "heap \<Rightarrow> ty \<Rightarrow> bool" where
  "isObject h t = (case t of ClassType (Some c) args outer \<Rightarrow> binary_of h c = ObjectName | _ \<Rightarrow> False)"

definition array_roots :: "string set" where
  "array_roots = {ObjectName, ''java/lang/Cloneable'', ''java/io/Serializable''}"

text \<open>A loop over the bounds of an intersection that returns at the first hit.\<close>

primrec anyM :: "('a \<Rightarrow> bool option) \<Rightarrow> 'a list \<Rightarrow> bool option" where
  "anyM f [] = Some False"
| "anyM f (x # xs) = Option.bind (f x) (\<lambda>b. if b then Some True else anyM f xs)"

lemma anyM_mono [partial_function_mono]:
  assumes "\<And>x. mono_option (B x)"
  shows "mono_option (\<lambda>f. anyM (\<lambda>x. B x f) xs)"
proof (induction xs)
  case (Cons x xs)
  show ?case unfolding anyM.simps
    by (intro bind_mono assms if_mono option.const_mono Cons)
qed (simp add: option.const_mono)

partial_function (option) isSubtype :: "heap \<Rightarrow> ty \<Rightarrow> ty \<Rightarrow> bool option" where
  "isSubtype h sub super =
     (if Identical h sub super then Some True
      else if Kind sub = KindError \<or> Kind super = KindError then Some True
      else if Kind sub = KindNull then Some (IsReference super)
      else if IsPrimitive (Kind sub) \<or> IsPrimitive (Kind super) then Some (Widens sub super)
      else case sub of
        ArrayType e \<Rightarrow>
          (case super of
             ArrayType e' \<Rightarrow>
               if IsPrimitive (Kind e) \<or> IsPrimitive (Kind e') then Some (Identical h e e') else isSubtype h e e'
           | ClassType (Some c) args outer \<Rightarrow> Some (binary_of h c \<in> array_roots)
           | _ \<Rightarrow> Some False)
      | TypeVar v \<Rightarrow> (case tvBound (var_of h v) of None \<Rightarrow> Some False | Some b \<Rightarrow> isSubtype h b super)
      | Intersection bs \<Rightarrow> anyM (\<lambda>b. isSubtype h b super) bs
      | Wildcard w b \<Rightarrow>
          (case b of
             Some x \<Rightarrow> if w = Extends then isSubtype h x super else Some (isObject h super)
           | None \<Rightarrow> Some (isObject h super))
      | ClassType s args outer \<Rightarrow>
          (case super of
             ClassType s' args' outer' \<Rightarrow> Some (fst (classSubtype h s s' []))
           | _ \<Rightarrow> Some False)
      | _ \<Rightarrow> Some False)"

text \<open>\<open>IsSubtype\<close>, whose arguments may be nil.\<close>

definition IsSubtype :: "heap \<Rightarrow> ty option \<Rightarrow> ty option \<Rightarrow> bool option" where
  "IsSubtype h sub super =
     (case (sub, super) of (Some a, Some b) \<Rightarrow> isSubtype h a b | _ \<Rightarrow> Some False)"

section \<open>When the test returns\<close>

text \<open>The type variables the test may reach before it has to follow another bound, and bounds that are not cyclic: some
  rank of the variables goes down from a variable to those of its bound.\<close>

fun open_vars :: "ty \<Rightarrow> tvar set" where
  "open_vars (TypeVar v) = {v}"
| "open_vars (ArrayType e) = open_vars e"
| "open_vars (Intersection bs) = (\<Union>b \<in> set bs. open_vars b)"
| "open_vars (Wildcard w (Some b)) = open_vars b"
| "open_vars _ = {}"

definition ranked :: "heap \<Rightarrow> (tvar \<Rightarrow> nat) \<Rightarrow> bool" where
  "ranked h rank \<longleftrightarrow> (\<forall>v. case tvBound (var_of h v) of None \<Rightarrow> True | Some b \<Rightarrow> \<forall>w \<in> open_vars b. rank w < rank v)"

definition below :: "(tvar \<Rightarrow> nat) \<Rightarrow> ty \<Rightarrow> nat \<Rightarrow> bool" where
  "below rank t n \<longleftrightarrow> (\<forall>w \<in> open_vars t. rank w < n)"

lemma ranked_below: "ranked h rank \<Longrightarrow> tvBound (var_of h v) = Some b \<Longrightarrow> below rank b (rank v)"
  unfolding ranked_def below_def by (auto dest: spec [of _ v])

lemma anyM_total: "(\<And>x. x \<in> set xs \<Longrightarrow> \<exists>b. f x = Some b) \<Longrightarrow> anyM f xs = Some (\<exists>x \<in> set xs. f x = Some True)"
proof (induction xs)
  case (Cons x xs)
  then obtain b where "f x = Some b" by (meson list.set_intros(1))
  then show ?case using Cons by (cases b) auto
qed simp

lemma isSubtype_total_below:
  assumes "ranked h rank" "below rank t n"
  shows "\<exists>b. isSubtype h t u = Some b"
  using assms(2)
proof (induction n arbitrary: t u rule: less_induct)
  case (less n)
  show ?case using less.prems
  proof (induction t arbitrary: u rule: open_vars.induct)
    case (1 v)
    show ?case
    proof (cases "tvBound (var_of h v)")
      case (Some x)
      have "below rank x (rank v)" using assms(1) Some by (rule ranked_below)
      moreover have "rank v < n" using 1 by (simp add: below_def)
      ultimately have "\<exists>b. isSubtype h x u = Some b" using less.IH by blast
      then show ?thesis using Some by (subst isSubtype.simps) auto
    qed (subst isSubtype.simps, auto)
  next
    case (2 e)
    then have "\<exists>b. isSubtype h e e' = Some b" for e' by (simp add: below_def)
    then show ?case by (subst isSubtype.simps) (auto split: ty.splits option.splits)
  next
    case (3 bs)
    then have "\<exists>b. isSubtype h x u = Some b" if "x \<in> set bs" for x using that by (auto simp: below_def)
    then show ?case by (subst isSubtype.simps) (auto simp: anyM_total)
  next
    case (4 w x)
    then have "\<exists>b. isSubtype h x u = Some b" by (simp add: below_def)
    then show ?case by (subst isSubtype.simps) auto
  qed (subst isSubtype.simps, auto split: ty.splits)+
qed

lemma isSubtype_total: "ranked h rank \<Longrightarrow> \<exists>b. isSubtype h t u = Some b"
proof -
  assume r: "ranked h rank"
  have "finite (open_vars t)" by (induction t rule: open_vars.induct) auto
  then obtain n where "\<forall>w \<in> open_vars t. rank w < n" using finite_nat_set_iff_bounded [of "rank ` open_vars t"] by auto
  then show ?thesis using isSubtype_total_below [OF r] by (auto simp: below_def)
qed

section \<open>Identity is an equivalence\<close>

lemma Identical_Kind: "Identical h a b \<Longrightarrow> Kind a = Kind b"
  by (induction h a b rule: Identical.induct) simp_all

lemma Identical_refl: "Identical h t t"
  by (induction t) (auto intro!: list.rel_refl_strong split: option.splits)

lemma Identical_sym: "Identical h a b \<Longrightarrow> Identical h b a"
proof (induction a arbitrary: b)
  case (ClassType s args outer)
  then show ?case by (cases b) (auto simp: list_all2_conv_all_nth split: option.splits)
next
  case (Intersection bs)
  then show ?case by (cases b) (auto simp: list_all2_conv_all_nth)
next
  case (ArrayType e)
  then show ?case by (cases b) auto
next
  case (Wildcard w x)
  then show ?case by (cases b) (auto split: option.splits)
next
  case (Basic k)
  then show ?case by (cases b) auto
next
  case (TypeVar v)
  then show ?case by (cases b) auto
next
  case (ErrorType n)
  then show ?case by (cases b) auto
qed

lemma Identical_trans: "Identical h a b \<Longrightarrow> Identical h b c \<Longrightarrow> Identical h a c"
proof (induction a arbitrary: b c)
  case (ClassType s args outer)
  then obtain args' outer' where b: "b = ClassType s args' outer'" by (cases b) auto
  then obtain args'' outer'' where c: "c = ClassType s args'' outer''" using ClassType.prems(2) by (cases c) auto
  have "list_all2 (Identical h) args args''"
    using ClassType.prems ClassType.IH(1) b c
    by (simp add: list_all2_conv_all_nth) (metis nth_mem)
  then show ?case using ClassType.prems ClassType.IH(2) b c by (auto split: option.splits)
next
  case (Intersection bs)
  then obtain bs' where b: "b = Intersection bs'" by (cases b) auto
  then obtain bs'' where c: "c = Intersection bs''" using Intersection.prems(2) by (cases c) auto
  show ?case using Intersection b c by (simp add: list_all2_conv_all_nth) (metis nth_mem)
next
  case (ArrayType e)
  then show ?case by (cases b; cases c) auto
next
  case (Wildcard w x)
  then show ?case by (cases b; cases c) (auto split: option.splits)
next
  case (Basic k)
  then show ?case by (cases b) auto
next
  case (TypeVar v)
  then show ?case by (cases b; cases c) auto
next
  case (ErrorType n)
  then show ?case by (cases b) auto
qed

section \<open>The types of expressions\<close>

text \<open>A reference type with nothing unresolved in it, and the types an expression can have: a wildcard is not one of
  them.\<close>

fun refty :: "ty \<Rightarrow> bool" where
  "refty (ClassType s args outer) \<longleftrightarrow> s \<noteq> None"
| "refty (ArrayType e) \<longleftrightarrow> refty e \<or> IsPrimitive (Kind e)"
| "refty (TypeVar v) \<longleftrightarrow> True"
| "refty (Intersection bs) \<longleftrightarrow> list_all refty bs"
| "refty _ \<longleftrightarrow> False"

definition expr_type :: "ty \<Rightarrow> bool" where
  "expr_type t \<longleftrightarrow> refty t \<or> (case t of Basic k \<Rightarrow> IsPrimitive k \<or> k = KindVoid \<or> k = KindNull | _ \<Rightarrow> False)"

text \<open>What the test relies on: bounds are reference types, a type parameter symbol stands for one bound, and
  \<open>Object\<close>, \<open>Cloneable\<close> and \<open>Serializable\<close> have no supertype but \<open>Object\<close>.\<close>

definition good_heap :: "heap \<Rightarrow> bool" where
  "good_heap h \<longleftrightarrow>
     (\<forall>v. case tvBound (var_of h v) of None \<Rightarrow> True | Some b \<Rightarrow> refty b) \<and>
     (\<forall>v w. tvSym (var_of h v) = tvSym (var_of h w) \<longrightarrow> tvBound (var_of h v) = tvBound (var_of h w)) \<and>
     (\<forall>c d. (c, d) \<in> superRel h \<longrightarrow> binary_of h c \<in> array_roots \<longrightarrow> binary_of h d = ObjectName)"

lemma good_heapD:
  assumes "good_heap h"
  shows "tvBound (var_of h v) = Some b \<Longrightarrow> refty b"
    and "tvSym (var_of h v) = tvSym (var_of h w) \<Longrightarrow> tvBound (var_of h v) = tvBound (var_of h w)"
    and "(c, d) \<in> superRel h \<Longrightarrow> binary_of h c \<in> array_roots \<Longrightarrow> binary_of h d = ObjectName"
  using assms unfolding good_heap_def by (metis option.simps(5), blast+)

abbreviation sub :: "heap \<Rightarrow> ty \<Rightarrow> ty \<Rightarrow> bool" where
  "sub h a b \<equiv> isSubtype h a b = Some True"

lemma refty_Kind: "refty t \<Longrightarrow> \<not> IsPrimitive (Kind t) \<and> Kind t \<noteq> KindNull \<and> Kind t \<noteq> KindError \<and> Kind t \<noteq> KindVoid \<and> IsReference t"
  by (cases t) (auto simp: IsPrimitive_def IsReference_def)

lemma expr_Kind: "expr_type t \<Longrightarrow> Kind t \<noteq> KindError"
  by (cases t) (auto simp: expr_type_def IsPrimitive_def)

lemma expr_refty: "expr_type t \<Longrightarrow> \<not> IsPrimitive (Kind t) \<Longrightarrow> Kind t \<noteq> KindNull \<Longrightarrow> Kind t \<noteq> KindVoid \<Longrightarrow> refty t"
  by (cases t) (auto simp: expr_type_def)

lemma sub_Identical: "Identical h a b \<Longrightarrow> sub h a b"
  by (subst isSubtype.simps) simp

lemma expr_elem: "expr_type (ArrayType e) \<Longrightarrow> \<not> IsPrimitive (Kind e) \<Longrightarrow> refty e"
  by (simp add: expr_type_def)

text \<open>The test on each form of expression type, against an expression type it is not identical to.\<close>

lemma sub_Array:
  assumes "\<not> Identical h (ArrayType e) u" "expr_type u"
  shows "sub h (ArrayType e) u \<longleftrightarrow>
    (\<exists>e'. u = ArrayType e' \<and> \<not> IsPrimitive (Kind e) \<and> \<not> IsPrimitive (Kind e') \<and> sub h e e') \<or>
    (\<exists>c args outer. u = ClassType (Some c) args outer \<and> binary_of h c \<in> array_roots)"
proof (cases u)
  case (ArrayType e')
  then show ?thesis using assms Identical_Kind [of h e e']
    by (auto simp: isSubtype.simps [of h "ArrayType e"] IsPrimitive_def)
next
  case (ClassType s args outer)
  then show ?thesis using assms
    by (cases s) (auto simp: isSubtype.simps [of h "ArrayType e"] IsPrimitive_def expr_type_def)
next
  case (Basic k)
  then show ?thesis using assms
    by (auto simp: isSubtype.simps [of h "ArrayType e"] IsPrimitive_def expr_type_def Widens_def)
qed (use assms in \<open>auto simp: isSubtype.simps [of h "ArrayType e"] IsPrimitive_def expr_type_def\<close>)

lemma sub_TypeVar:
  assumes "\<not> Identical h (TypeVar v) u" "expr_type u"
  shows "sub h (TypeVar v) u \<longleftrightarrow> \<not> IsPrimitive (Kind u) \<and> (\<exists>b. tvBound (var_of h v) = Some b \<and> sub h b u)"
  using assms expr_Kind [OF assms(2)] by (subst isSubtype.simps)
    (auto simp: Widens_def IsPrimitive_def split: option.splits)

lemma sub_Intersection:
  assumes "ranked h rank" "\<not> Identical h (Intersection bs) u" "expr_type u"
  shows "sub h (Intersection bs) u \<longleftrightarrow> \<not> IsPrimitive (Kind u) \<and> (\<exists>b \<in> set bs. sub h b u)"
  using assms(2) expr_Kind [OF assms(3)] isSubtype_total [OF assms(1)] by (subst isSubtype.simps)
    (auto simp: Widens_def anyM_total IsPrimitive_def)

lemma sub_Class:
  assumes "\<not> Identical h (ClassType (Some c) args outer) u" "expr_type u"
  shows "sub h (ClassType (Some c) args outer) u \<longleftrightarrow>
    (\<exists>d args' outer'. u = ClassType (Some d) args' outer' \<and> (binary_of h d = ObjectName \<or> (c, d) \<in> (superRel h)\<^sup>*))"
  using assms by (subst isSubtype.simps)
    (auto simp: expr_type_def Widens_def IsPrimitive_def classSubtype_decides split: ty.splits)

lemma sub_Null:
  assumes "expr_type u"
  shows "sub h (Basic KindNull) u \<longleftrightarrow> u = Basic KindNull \<or> IsReference u"
  using expr_Kind [OF assms] by (subst isSubtype.simps, cases u) auto

lemma sub_Basic:
  assumes "expr_type u" "k \<noteq> KindNull" "IsPrimitive k \<or> k = KindVoid"
  shows "sub h (Basic k) u \<longleftrightarrow> Widens (Basic k) u"
  using assms expr_Kind [OF assms(1)] by (subst isSubtype.simps, cases u) (auto simp: Widens_def IsPrimitive_def)

section \<open>The test is a preorder\<close>

lemma refty_Identical: "Identical h a b \<Longrightarrow> refty a \<Longrightarrow> refty b"
proof (induction a arbitrary: b)
  case (ArrayType e)
  then show ?case by (cases b) (auto dest: Identical_Kind)
next
  case (Intersection bs)
  then show ?case by (cases b) (auto simp: list_all2_conv_all_nth list_all_length, metis nth_mem)
next
  case (ClassType s args outer)
  then show ?case by (cases b) auto
next
  case (TypeVar v)
  then show ?case by (cases b) auto
qed simp_all

lemma sub_left:
  assumes "ranked h rank" "good_heap h" "expr_type c"
  shows "Identical h a b \<Longrightarrow> refty a \<Longrightarrow> sub h a c \<Longrightarrow> sub h b c"
  using assms(3)
proof (induction a arbitrary: b c)
  case (ClassType s args outer)
  then obtain d args' outer' where b: "s = Some d" "b = ClassType (Some d) args' outer'" by (cases b) auto
  show ?case
  proof (cases "Identical h b c")
    case False
    then have "\<not> Identical h (ClassType (Some d) args outer) c"
      using ClassType.prems(1) b Identical_trans Identical_sym by blast
    then show ?thesis using ClassType.prems b False by (simp add: sub_Class)
  qed (simp add: sub_Identical)
next
  case (ArrayType e)
  then obtain e' where b: "b = ArrayType e'" "Identical h e e'" by (cases b) auto
  show ?case
  proof (cases "Identical h b c")
    case False
    then have "\<not> Identical h (ArrayType e) c" using ArrayType.prems(1) Identical_trans Identical_sym by blast
    then consider e'' where "c = ArrayType e''" "\<not> IsPrimitive (Kind e)" "\<not> IsPrimitive (Kind e'')" "sub h e e''"
      | d args outer where "c = ClassType (Some d) args outer" "binary_of h d \<in> array_roots"
      using ArrayType.prems by (auto simp: sub_Array)
    then show ?thesis
    proof cases
      case (1 e'')
      then have "expr_type e''" "refty e" using ArrayType.prems expr_elem by (auto simp: expr_type_def)
      then have "sub h e' e''" using ArrayType.IH b(2) 1 by blast
      then show ?thesis using 1 b False ArrayType.prems Identical_Kind [OF b(2)] by (auto simp: sub_Array)
    qed (use b False ArrayType.prems in \<open>auto simp: sub_Array\<close>)
  qed (simp add: sub_Identical)
next
  case (TypeVar v)
  then obtain w where b: "b = TypeVar w" by (cases b) auto
  then have "tvBound (var_of h v) = tvBound (var_of h w)" 
    using TypeVar.prems(1) good_heapD(2) [OF assms(2)] by (metis Identical.simps(4))
  moreover have "\<not> Identical h b c \<Longrightarrow> \<not> Identical h (TypeVar v) c"
    using TypeVar.prems(1) Identical_trans Identical_sym by blast
  ultimately show ?case using TypeVar.prems b sub_TypeVar [of h v c] sub_TypeVar [of h w c] sub_Identical [of h b c]
    by (cases "Identical h b c") simp_all
next
  case (Intersection bs)
  then obtain bs' where b: "b = Intersection bs'" "list_all2 (Identical h) bs bs'" by (cases b) auto
  show ?case
  proof (cases "Identical h b c")
    case False
    then have "\<not> Identical h (Intersection bs) c" using Intersection.prems(1) Identical_trans Identical_sym by blast
    then obtain x where x: "\<not> IsPrimitive (Kind c)" "x \<in> set bs" "sub h x c"
      using Intersection.prems by (auto simp: sub_Intersection [OF assms(1)])
    then obtain y where "y \<in> set bs'" "Identical h x y" using b(2) by (metis in_set_conv_nth list_all2_conv_all_nth)
    moreover from this have "sub h y c" using Intersection.IH x Intersection.prems by (auto simp: list_all_iff)
    ultimately show ?thesis using False x b(1) Intersection.prems(4) by (auto simp: sub_Intersection [OF assms(1)])
  qed (simp add: sub_Identical)
qed simp_all

lemma roots_up:
  assumes "good_heap h" "(c, d) \<in> (superRel h)\<^sup>*" "binary_of h c \<in> array_roots"
  shows "c = d \<or> binary_of h d = ObjectName"
  using assms(2)
proof (induction rule: rtrancl_induct)
  case (step y z)
  then have "binary_of h y \<in> array_roots" using assms(3) by (auto simp: array_roots_def)
  then show ?case using good_heapD(3) [OF assms(1) step(2)] by simp
qed simp

text \<open>Induction over the types the test reaches from a given one.\<close>

lemma reached_induct [consumes 1, case_names TypeVar Array Intersection Other]:
  assumes "ranked h rank"
    and "\<And>v. (\<And>b. tvBound (var_of h v) = Some b \<Longrightarrow> P b) \<Longrightarrow> P (TypeVar v)"
    and "\<And>e. P e \<Longrightarrow> P (ArrayType e)"
    and "\<And>bs. (\<And>b. b \<in> set bs \<Longrightarrow> P b) \<Longrightarrow> P (Intersection bs)"
    and "\<And>t. Kind t \<notin> {KindTypeVar, KindArray, KindIntersection} \<or> (\<exists>k. t = Basic k) \<Longrightarrow> P t"
  shows "P t"
proof -
  have "below rank t n \<Longrightarrow> P t" for n
  proof (induction n arbitrary: t rule: less_induct)
    case (less n)
    show ?case using less.prems
    proof (induction t)
      case (TypeVar v)
      have "P b" if b: "tvBound (var_of h v) = Some b" for b
      proof (rule less.IH)
        show "rank v < n" using TypeVar by (simp add: below_def)
        show "below rank b (rank v)" using assms(1) b by (rule ranked_below)
      qed
      then show ?case by (rule assms(2))
    next
      case (ArrayType e)
      then show ?case using assms(3) by (simp add: below_def)
    next
      case (Intersection bs)
      then show ?case using assms(4) by (simp add: below_def)
    qed (use assms(5) in auto)
  qed
  moreover have "finite (open_vars t)" by (induction t rule: open_vars.induct) auto
  then obtain n where "\<forall>w \<in> open_vars t. rank w < n" using finite_nat_set_iff_bounded [of "rank ` open_vars t"] by auto
  ultimately show ?thesis by (simp add: below_def)
qed

lemma sub_refty:
  assumes "ranked h rank" "good_heap h"
  shows "refty a \<Longrightarrow> expr_type c \<Longrightarrow> sub h a c \<Longrightarrow> refty c"
  using assms(1)
proof (induction a rule: reached_induct)
  case (TypeVar v)
  then show ?case using sub_TypeVar [of h v c] good_heapD(1) [OF assms(2)] refty_Identical [of h "TypeVar v" c]
    by (cases "Identical h (TypeVar v) c") auto
next
  case (Array e)
  then show ?case using sub_Array [of h e c] refty_Identical [of h "ArrayType e" c] expr_refty [of c]
    by (cases "Identical h (ArrayType e) c") (auto simp: IsPrimitive_def)
next
  case (Intersection bs)
  then show ?case using sub_Intersection [OF assms(1), of bs c] refty_Identical [of h "Intersection bs" c]
    by (cases "Identical h (Intersection bs) c") (auto simp: list_all_iff)
next
  case (Other t)
  then obtain d args outer where t: "t = ClassType (Some d) args outer" by (cases t) auto
  then show ?case using Other sub_Class [of h d args outer c] refty_Identical [of h t c]
    by (cases "Identical h t c") auto
qed

lemma Widens_trans: "Widens a b \<Longrightarrow> Widens b c \<Longrightarrow> Widens a c"
  by (cases a; cases b; cases c) (auto simp: Widens_def IsPrimitive_def split: tkind.splits if_splits)

lemma sub_trans:
  assumes r: "ranked h rank" and g: "good_heap h"
  shows "refty a \<Longrightarrow> refty b \<Longrightarrow> refty c \<Longrightarrow> sub h a b \<Longrightarrow> sub h b c \<Longrightarrow> sub h a c"
  using r
proof (induction a arbitrary: b c rule: reached_induct)
  case (TypeVar v)
  have e: "expr_type b" "expr_type c" using TypeVar.prems by (auto simp: expr_type_def)
  show ?case
  proof (cases "Identical h (TypeVar v) b \<or> Identical h (TypeVar v) c")
    case True
    then show ?thesis using TypeVar.prems sub_left [OF r g e(2)] sub_Identical Identical_sym by blast
  next
    case False
    then obtain x where x: "tvBound (var_of h v) = Some x" "sub h x b" using TypeVar.prems e by (auto simp: sub_TypeVar)
    then have "sub h x c" using TypeVar.IH [OF x(1)] good_heapD(1) [OF g x(1)] TypeVar.prems by blast
    then show ?thesis using False x(1) e refty_Kind [of c] TypeVar.prems by (simp add: sub_TypeVar)
  qed
next
  case (Intersection bs)
  have e: "expr_type b" "expr_type c" using Intersection.prems by (auto simp: expr_type_def)
  show ?case
  proof (cases "Identical h (Intersection bs) b \<or> Identical h (Intersection bs) c")
    case True
    then show ?thesis using Intersection.prems sub_left [OF r g e(2)] sub_Identical Identical_sym by blast
  next
    case False
    then obtain x where x: "x \<in> set bs" "sub h x b" using Intersection.prems e by (auto simp: sub_Intersection [OF r])
    moreover have "refty x" using x(1) Intersection.prems(1) by (simp add: list_all_iff)
    ultimately have "sub h x c" using Intersection.IH Intersection.prems(2,3,5) by blast
    then show ?thesis using False x(1) e refty_Kind [of c] Intersection.prems by (auto simp: sub_Intersection [OF r])
  qed
next
  case (Array e)
  have x: "expr_type b" "expr_type c" using Array.prems by (auto simp: expr_type_def)
  show ?case
  proof (cases "Identical h (ArrayType e) b \<or> Identical h (ArrayType e) c")
    case True
    then show ?thesis using Array.prems sub_left [OF r g x(2)] sub_Identical Identical_sym by blast
  next
    case False
    then consider e' where "b = ArrayType e'" "\<not> IsPrimitive (Kind e)" "\<not> IsPrimitive (Kind e')" "sub h e e'"
      | d args outer where "b = ClassType (Some d) args outer" "binary_of h d \<in> array_roots"
      using Array.prems(4) sub_Array [of h e b] x by blast
    then show ?thesis
    proof cases
      case b: (1 e')
      consider e'' where "c = ArrayType e''" "\<not> IsPrimitive (Kind e'')" "sub h e' e''"
        | d args outer where "c = ClassType (Some d) args outer" "binary_of h d \<in> array_roots"
      proof (cases "Identical h b c")
        case True
        then obtain e'' where "c = ArrayType e''" "Identical h e' e''" using b by (cases c) auto
        then show ?thesis using that(1) b Identical_Kind sub_Identical by metis
      qed (use that b Array.prems x in \<open>auto simp: sub_Array\<close>)
      then show ?thesis
      proof cases
        case (1 e'')
        have "refty e" "refty e'" "refty e''" using Array.prems(1-3) 1 b by simp_all
        then have "sub h e e''" using Array.IH b(4) 1(3) by blast
        then show ?thesis using 1 False x b(2) by (auto simp: sub_Array)
      qed (use False x in \<open>auto simp: sub_Array\<close>)
    next
      case (2 d args outer)
      then obtain f args' outer' where "c = ClassType (Some f) args' outer'" "f = d \<or> binary_of h f = ObjectName"
        using Array.prems x sub_Class [of h d args outer c] roots_up [OF g _ 2(2)]
        by (cases "Identical h b c"; cases c) auto
      then show ?thesis using False x 2 by (auto simp: sub_Array array_roots_def)
    qed
  qed
next
  case (Other t)
  then obtain d args outer where t: "t = ClassType (Some d) args outer" by (cases t) auto
  have x: "expr_type b" "expr_type c" using Other.prems by (auto simp: expr_type_def)
  have up: "\<exists>f args' outer'. u = ClassType (Some f) args' outer' \<and> (binary_of h f = ObjectName \<or> (e, f) \<in> (superRel h)\<^sup>*)"
    if "sub h (ClassType (Some e) args outer) u" "expr_type u" for e u args outer
    using that sub_Class [of h e args outer u] by (cases "Identical h (ClassType (Some e) args outer) u"; cases u) auto
  obtain f args' outer' where b: "b = ClassType (Some f) args' outer'" "binary_of h f = ObjectName \<or> (d, f) \<in> (superRel h)\<^sup>*"
    using up Other.prems t x by blast
  obtain k args'' outer'' where c: "c = ClassType (Some k) args'' outer''" "binary_of h k = ObjectName \<or> (f, k) \<in> (superRel h)\<^sup>*"
    using up Other.prems b x by blast
  have "binary_of h k = ObjectName \<or> (d, k) \<in> (superRel h)\<^sup>*"
    using b(2) c(2) roots_up [OF g, of f k] rtrancl_trans [of d f _ k] by (auto simp: array_roots_def)
  then show ?case using c(1) t x sub_Identical [of h t c] by (cases "Identical h t c") (auto simp: sub_Class)
qed

lemma sub_trans_expr:
  assumes "ranked h rank" "good_heap h" "expr_type a" "expr_type b" "expr_type c" "sub h a b" "sub h b c"
  shows "sub h a c"
proof (cases "refty a")
  case True
  then have "refty b" using sub_refty [OF assms(1,2)] assms by blast
  then show ?thesis using True sub_refty [OF assms(1,2)] sub_trans [OF assms(1,2)] assms by blast
next
  case False
  then obtain k where a: "a = Basic k" "IsPrimitive k \<or> k = KindVoid \<or> k = KindNull"
    using assms(3) by (auto simp: expr_type_def split: ty.splits)
  show ?thesis
  proof (cases "k = KindNull")
    case null: True
    show ?thesis
    proof (cases "refty b")
      case True
      then have "refty c" using sub_refty [OF assms(1,2)] assms by blast
      then show ?thesis using null a assms(5) refty_Kind by (auto simp: sub_Null)
    next
      case False
      then have "b = Basic KindNull" using assms(4,6) null a
        by (auto simp: sub_Null IsReference_def expr_type_def IsPrimitive_def split: ty.splits)
      then show ?thesis using assms(7) a null by simp
    qed
  next
    case False
    then have w: "Widens a b" using assms(4,6) a by (auto simp: sub_Basic)
    then obtain m where b: "b = Basic m" by (auto simp: Widens_def split: ty.splits)
    then have "m \<noteq> KindNull" "IsPrimitive m \<or> m = KindVoid" using w a False
      by (auto simp: Widens_def IsPrimitive_def [of KindNull] split: if_splits)
    then have "Widens b c" using assms(5,7) b by (auto simp: sub_Basic)
    then show ?thesis using Widens_trans [OF w] a False assms(5) by (auto simp: sub_Basic)
  qed
qed


definition number_heap :: heap where
  "number_heap =
     \<lparr>hClasses = [\<lparr>coBinary = ObjectName, coStatic = False, coSuper = None, coIfaces = []\<rparr>,
        \<lparr>coBinary = ''java/lang/Number'', coStatic = False, coSuper = Some (ClassType (Some 0) [] None), coIfaces = []\<rparr>],
      hVars = [\<lparr>tvSym = Some 0, tvBound = Some (ClassType (Some 1) [] None)\<rparr>],
      hParams = [''T''], hTable = [(ObjectName, 0), (''java/lang/Number'', 1)]\<rparr>"

lemma number_heap_good: "ranked number_heap (\<lambda>_. 0)" "good_heap number_heap"
proof -
  show "ranked number_heap (\<lambda>_. 0)" by (auto simp: ranked_def var_of_def number_heap_def)
  have "superRel number_heap = {(1, 0)}"
    by (auto simp: superRel_def direct_def Supertype_def Interfaces_def number_heap_def less_Suc_eq nth_Cons split: nat.splits if_splits)
  then show "good_heap number_heap"
    by (auto simp: good_heap_def var_of_def number_heap_def binary_of_def)
qed


end
