(* ===== verification/Signature.thy ===== *)
theory Signature
  imports Types
begin

text \<open>
  Generic signatures (\<^verbatim>\<open>src/types/signature.go\<close>): the parser of the grammar of JVMS 4.7.9.1, and what a parsed signature
  resolves to (\<^verbatim>\<open>src/types/binary.go\<close>). The parser carries its position and a sticky error; a nil result is \<open>SNil\<close>. Its
  functions call each other, so they take fuel; six units per byte are always enough. The properties say that the
  parser ends on every input, and which strings it accepts: the strings a grammar spells, with the tree the
  grammar gives them.
\<close>

section \<open>Signatures\<close>

text \<open>A type argument is its wildcard mark, the zero byte for none, and its type; a suffix is a name with arguments.\<close>

datatype sigType =
    SNil
  | SBase char
  | SArray sigType
  | SVar string
  | SClass string "(char \<times> sigType) list" "(string \<times> (char \<times> sigType) list) list"

type_synonym sigArg = "char \<times> sigType"

type_synonym sigSuffix = "string \<times> sigArg list"

record sigParam =
  spName :: string
  spBounds :: "sigType list"

record classSig =
  csParams :: "sigParam list"
  csSuper :: sigType
  csIfaces :: "sigType list"

record methodSig =
  msParams :: "sigParam list"
  msArgs :: "sigType list"
  msResult :: sigType
  msThrows :: "sigType list"

section \<open>The parser\<close>

record sigParser =
  pS :: string
  pI :: nat
  pErr :: "string option"

definition p_fail :: "string \<Rightarrow> sigParser \<Rightarrow> sigParser" where
  "p_fail msg p = (if pErr p = None then p\<lparr>pErr := Some msg\<rparr> else p)"

definition p_done :: "sigParser \<Rightarrow> bool" where
  "p_done p \<longleftrightarrow> length (pS p) \<le> pI p"

definition p_at :: "char \<Rightarrow> sigParser \<Rightarrow> bool" where
  "p_at c p \<longleftrightarrow> pI p < length (pS p) \<and> pS p ! pI p = c"

definition p_adv :: "nat \<Rightarrow> sigParser \<Rightarrow> sigParser" where
  "p_adv n p = p\<lparr>pI := pI p + n\<rparr>"

definition p_next :: "sigParser \<Rightarrow> char \<times> sigParser" where
  "p_next p = (if p_done p then (CHR 0x00, p_fail ''unexpected end'' p) else (pS p ! pI p, p_adv 1 p))"

definition p_eat :: "char \<Rightarrow> sigParser \<Rightarrow> bool \<times> sigParser" where
  "p_eat c p = (if p_at c p then (True, p_adv 1 p) else (False, p_fail (''expected '' @ [c]) p))"

definition p_ident :: "string \<Rightarrow> sigParser \<Rightarrow> string \<times> sigParser" where
  "p_ident stop p =
     (let name = takeWhile (\<lambda>c. c \<notin> set stop) (drop (pI p) (pS p)) in (name, p_adv (length name) p))"

fun javaType :: "nat \<Rightarrow> sigParser \<Rightarrow> (sigType \<times> sigParser) option"
  and referenceType :: "nat \<Rightarrow> sigParser \<Rightarrow> (sigType \<times> sigParser) option"
  and classType :: "nat \<Rightarrow> sigParser \<Rightarrow> (sigType \<times> sigParser) option"
  and suffixes :: "nat \<Rightarrow> sigSuffix list \<Rightarrow> sigParser \<Rightarrow> (sigSuffix list option \<times> sigParser) option"
  and typeArgs :: "nat \<Rightarrow> sigParser \<Rightarrow> (sigArg list \<times> sigParser) option"
  and arg_loop :: "nat \<Rightarrow> sigArg list \<Rightarrow> sigParser \<Rightarrow> (sigArg list \<times> sigParser) option"
  and typeArg :: "nat \<Rightarrow> sigParser \<Rightarrow> (sigArg \<times> sigParser) option" where
  "javaType 0 p = None"
| "javaType (Suc n) p =
     (if p_done p then Some (SNil, p_fail ''unexpected end'' p)
      else if pS p ! pI p \<in> set ''BCDFIJSZV'' then Some (SBase (pS p ! pI p), p_adv 1 p)
      else referenceType n p)"
| "referenceType 0 p = None"
| "referenceType (Suc n) p =
     (if p_done p then Some (SNil, p_fail ''unexpected end'' p)
      else if pS p ! pI p = CHR ''['' then
        Option.bind (javaType n (p_adv 1 p)) (\<lambda>(e, q). Some (SArray e, q))
      else if pS p ! pI p = CHR ''T'' then
        (case p_ident '';'' (p_adv 1 p) of (name, q) \<Rightarrow>
           case p_eat (CHR '';'') q of (ok, r) \<Rightarrow> Some (if ok then SVar name else SNil, r))
      else if pS p ! pI p = CHR ''L'' then classType n (p_adv 1 p)
      else Some (SNil, p_fail ''not a reference type signature'' p))"
| "classType 0 p = None"
| "classType (Suc n) p =
     (case p_ident ''<.;'' p of (name, q) \<Rightarrow>
        if name = [] then Some (SNil, p_fail ''empty class name'' q)
        else Option.bind (typeArgs n q) (\<lambda>(args, q1).
          Option.bind (suffixes n [] q1) (\<lambda>(sufs, q2).
            case sufs of
              None \<Rightarrow> Some (SNil, q2)
            | Some ss \<Rightarrow>
                (case p_eat (CHR '';'') q2 of (ok, r) \<Rightarrow> Some (if ok then SClass name args ss else SNil, r)))))"
| "suffixes 0 acc p = None"
| "suffixes (Suc n) acc p =
     (if p_at (CHR ''.'') p \<and> pErr p = None then
        (case p_ident ''<.;'' (snd (p_next p)) of (name, q) \<Rightarrow>
           if name = [] then Some (None, p_fail ''empty nested class name'' q)
           else Option.bind (typeArgs n q) (\<lambda>(args, q1). suffixes n (acc @ [(name, args)]) q1))
      else Some (Some acc, p))"
| "typeArgs 0 p = None"
| "typeArgs (Suc n) p =
     (if \<not> p_at (CHR ''<'') p then Some ([], p)
      else Option.bind (arg_loop n [] (snd (p_next p))) (\<lambda>(out, q). Some (out, snd (p_eat (CHR ''>'') q))))"
| "arg_loop 0 out p = None"
| "arg_loop (Suc n) out p =
     (if \<not> p_at (CHR ''>'') p \<and> pErr p = None \<and> \<not> p_done p then
        Option.bind (typeArg n p) (\<lambda>(a, q). arg_loop n (out @ [a]) q)
      else Some (out, p))"
| "typeArg 0 p = None"
| "typeArg (Suc n) p =
     (if p_at (CHR ''*'') p then Some ((CHR ''*'', SNil), snd (p_next p))
      else if p_at (CHR ''+'') p then
        Option.bind (referenceType n (snd (p_next p))) (\<lambda>(t, q). Some ((CHR ''+'', t), q))
      else if p_at (CHR ''-'') p then
        Option.bind (referenceType n (snd (p_next p))) (\<lambda>(t, q). Some ((CHR ''-'', t), q))
      else Option.bind (referenceType n p) (\<lambda>(t, q). Some ((CHR 0x00, t), q)))"

text \<open>The type parameters, and the loops of the entry points.\<close>

fun bound_loop :: "nat \<Rightarrow> sigType list \<Rightarrow> sigParser \<Rightarrow> (sigType list \<times> sigParser) option" where
  "bound_loop 0 bs p = None"
| "bound_loop (Suc n) bs p =
     (if p_at (CHR '':'') p \<and> pErr p = None then
        Option.bind (referenceType n (snd (p_next p))) (\<lambda>(t, q). bound_loop n (bs @ [t]) q)
      else Some (bs, p))"

definition typeParam :: "nat \<Rightarrow> sigParser \<Rightarrow> (sigParam \<times> sigParser) option" where
  "typeParam n p =
     (case p_ident '':'' p of (name, q) \<Rightarrow>
        if name = [] then Some (\<lparr>spName = name, spBounds = []\<rparr>, p_fail ''empty type parameter name'' q)
        else case p_eat (CHR '':'') q of (ok, r) \<Rightarrow>
          if \<not> ok then Some (\<lparr>spName = name, spBounds = []\<rparr>, r)
          else Option.bind
            (if \<not> p_at (CHR '':'') r \<and> \<not> p_at (CHR ''>'') r \<and> \<not> p_done r
             then Option.bind (referenceType n r) (\<lambda>(t, r1). Some ([t], r1))
             else Some ([], r))
            (\<lambda>(bs, r1). Option.bind (bound_loop n bs r1) (\<lambda>(bs', r2).
              Some (\<lparr>spName = name, spBounds = bs'\<rparr>, r2))))"

fun param_loop :: "nat \<Rightarrow> sigParam list \<Rightarrow> sigParser \<Rightarrow> (sigParam list \<times> sigParser) option" where
  "param_loop 0 out p = None"
| "param_loop (Suc n) out p =
     (if \<not> p_at (CHR ''>'') p \<and> pErr p = None \<and> \<not> p_done p then
        Option.bind (typeParam n p) (\<lambda>(t, q). param_loop n (out @ [t]) q)
      else Some (out, p))"

definition typeParams :: "nat \<Rightarrow> sigParser \<Rightarrow> (sigParam list \<times> sigParser) option" where
  "typeParams n p =
     (if \<not> p_at (CHR ''<'') p then Some ([], p)
      else Option.bind (param_loop n [] (snd (p_next p))) (\<lambda>(out, q). Some (out, snd (p_eat (CHR ''>'') q))))"

fun iface_loop :: "nat \<Rightarrow> sigType list \<Rightarrow> sigParser \<Rightarrow> (sigType list \<times> sigParser) option" where
  "iface_loop 0 out p = None"
| "iface_loop (Suc n) out p =
     (if \<not> p_done p \<and> pErr p = None then
        Option.bind (referenceType n p) (\<lambda>(t, q). iface_loop n (out @ [t]) q)
      else Some (out, p))"

fun param_types :: "nat \<Rightarrow> sigType list \<Rightarrow> sigParser \<Rightarrow> (sigType list \<times> sigParser) option" where
  "param_types 0 out p = None"
| "param_types (Suc n) out p =
     (if \<not> p_at (CHR '')'') p \<and> pErr p = None \<and> \<not> p_done p then
        Option.bind (javaType n p) (\<lambda>(t, q). param_types n (out @ [t]) q)
      else Some (out, p))"

fun throws_loop :: "nat \<Rightarrow> sigType list \<Rightarrow> sigParser \<Rightarrow> (sigType list \<times> sigParser) option" where
  "throws_loop 0 out p = None"
| "throws_loop (Suc n) out p =
     (if p_at (CHR ''^'') p \<and> pErr p = None then
        Option.bind (referenceType n (snd (p_next p))) (\<lambda>(t, q). throws_loop n (out @ [t]) q)
      else Some (out, p))"

section \<open>Entry points\<close>

text \<open>The outer option is the fuel; the inner one is the source's second result. \<open>sig_fuel\<close> is what an input can need.\<close>

definition sig_fuel :: "string \<Rightarrow> nat" where
  "sig_fuel s = 6 * length s + 6"

definition new_parser :: "string \<Rightarrow> sigParser" where
  "new_parser s = \<lparr>pS = s, pI = 0, pErr = None\<rparr>"

definition accepted :: "'a \<Rightarrow> sigParser \<Rightarrow> 'a option option" where
  "accepted x p = Some (if pErr p \<noteq> None \<or> \<not> p_done p then None else Some x)"

definition parseClassSignature :: "string \<Rightarrow> classSig option option" where
  "parseClassSignature s =
     (if s = [] then Some None
      else Option.bind (typeParams (sig_fuel s) (new_parser s)) (\<lambda>(ps, p1).
        Option.bind (referenceType (sig_fuel s) p1) (\<lambda>(super, p2).
          Option.bind (iface_loop (sig_fuel s) [] p2) (\<lambda>(ifaces, p3).
            accepted \<lparr>csParams = ps, csSuper = super, csIfaces = ifaces\<rparr> p3))))"

definition parseMethodSignature :: "string \<Rightarrow> methodSig option option" where
  "parseMethodSignature s =
     (if s = [] then Some None
      else Option.bind (typeParams (sig_fuel s) (new_parser s)) (\<lambda>(ps, p1).
        case p_eat (CHR ''('') p1 of (ok, p2) \<Rightarrow>
          if \<not> ok then Some None
          else Option.bind (param_types (sig_fuel s) [] p2) (\<lambda>(args, p3).
            case p_eat (CHR '')'') p3 of (ok', p4) \<Rightarrow>
              if \<not> ok' then Some None
              else Option.bind (javaType (sig_fuel s) p4) (\<lambda>(result, p5).
                Option.bind (throws_loop (sig_fuel s) [] p5) (\<lambda>(throws, p6).
                  accepted \<lparr>msParams = ps, msArgs = args, msResult = result, msThrows = throws\<rparr> p6)))))"

definition parseFieldSignature :: "string \<Rightarrow> sigType option option" where
  "parseFieldSignature s =
     (if s = [] then Some None
      else Option.bind (referenceType (sig_fuel s) (new_parser s)) (\<lambda>(t, p). accepted t p))"

section \<open>The parser always returns\<close>

text \<open>What is left of the input, and how far a call gets: forward, inside the input, never forgetting an error.\<close>

definition left :: "sigParser \<Rightarrow> nat" where
  "left p = length (pS p) - pI p"

definition sigmoves :: "sigParser \<Rightarrow> sigParser \<Rightarrow> bool" where
  "sigmoves p q \<longleftrightarrow> pS q = pS p \<and> pI p \<le> pI q \<and> (pErr q = None \<longrightarrow> pErr p = None)"

text \<open>A call that ends without an error has consumed something.\<close>

definition returns :: "('a \<times> sigParser) option \<Rightarrow> sigParser \<Rightarrow> bool" where
  "returns r p \<longleftrightarrow> (\<exists>x q. r = Some (x, q) \<and> sigmoves p q)"

definition consumes :: "('a \<times> sigParser) option \<Rightarrow> sigParser \<Rightarrow> bool" where
  "consumes r p \<longleftrightarrow> (\<exists>x q. r = Some (x, q) \<and> sigmoves p q \<and> (pErr q = None \<longrightarrow> left q < left p))"

lemma sigmoves_refl [simp, intro]: "sigmoves p p"
  by (simp add: sigmoves_def)

lemma sigmoves_trans: "sigmoves p q \<Longrightarrow> sigmoves q r \<Longrightarrow> sigmoves p r"
  by (auto simp: sigmoves_def)

lemma sigmoves_left: "sigmoves p q \<Longrightarrow> left q \<le> left p"
  by (auto simp: sigmoves_def left_def)

lemma sigmoves_prims [simp]:
  "sigmoves p (p_fail m p)" "sigmoves p (p_adv n p)" "sigmoves p (snd (p_next p))" "sigmoves p (snd (p_eat c p))"
  "sigmoves p (snd (p_ident st p))"
  by (auto simp: sigmoves_def p_fail_def p_adv_def p_next_def p_eat_def p_ident_def Let_def)

lemma sigfail_err [simp]: "pErr (p_fail m p) \<noteq> None"
  by (simp add: p_fail_def)

lemma at_left: "p_at c p \<Longrightarrow> left (p_adv (Suc 0) p) < left p" "p_at c p \<Longrightarrow> snd (p_next p) = p_adv (Suc 0) p"
  "\<not> p_done p \<Longrightarrow> left (p_adv (Suc 0) p) < left p"
  by (auto simp: p_at_def left_def p_adv_def p_next_def p_done_def)

lemma ident_left:
  assumes "p_ident st p = (name, q)" "name \<noteq> []"
  shows "left q < left p"
proof -
  have q: "q = p_adv (length name) p" and "name = takeWhile (\<lambda>c. c \<notin> set st) (drop (pI p) (pS p))"
    using assms(1) by (auto simp: p_ident_def Let_def)
  then have "pI p < length (pS p)" "0 < length name" using assms(2) by (auto simp: not_le [symmetric])
  then show ?thesis using q by (simp add: left_def p_adv_def del: length_greater_0_conv)
qed

text \<open>With six units of fuel per byte left, every function of the parser returns.\<close>

definition all_return :: "nat \<Rightarrow> bool" where
  "all_return n \<longleftrightarrow>
     (\<forall>p. 6 * left p + 1 \<le> n \<longrightarrow> consumes (referenceType n p) p) \<and>
     (\<forall>p. 6 * left p + 2 \<le> n \<longrightarrow> consumes (javaType n p) p) \<and>
     (\<forall>p. 6 * left p + 4 \<le> n \<longrightarrow> consumes (classType n p) p) \<and>
     (\<forall>p. 6 * left p + 4 \<le> n \<longrightarrow> returns (typeArgs n p) p) \<and>
     (\<forall>p acc. 6 * left p + 3 \<le> n \<longrightarrow> returns (suffixes n acc p) p) \<and>
     (\<forall>p out. 1 \<le> n \<and> (pErr p = None \<longrightarrow> 6 * left p + 3 \<le> n) \<longrightarrow> returns (arg_loop n out p) p) \<and>
     (\<forall>p. 6 * left p + 2 \<le> n \<longrightarrow> consumes (typeArg n p) p)"

lemma consumes_mono: "consumes r p \<Longrightarrow> sigmoves p0 p \<Longrightarrow> consumes r p0"
  unfolding consumes_def using sigmoves_trans sigmoves_left by (metis order_less_le_trans)

lemma returns_mono: "returns r p \<Longrightarrow> sigmoves p0 p \<Longrightarrow> returns r p0"
  unfolding returns_def using sigmoves_trans by blast

lemma consumes_returns: "consumes r p \<Longrightarrow> returns r p"
  by (auto simp: consumes_def returns_def)

lemma consumes_later: "returns r p \<Longrightarrow> sigmoves p0 p \<Longrightarrow> left p < left p0 \<Longrightarrow> consumes r p0"
  unfolding returns_def consumes_def using sigmoves_trans sigmoves_left by (metis order_le_less_trans)

lemma consumes_bind:
  assumes "consumes r p" and "\<And>x q. r = Some (x, q) \<Longrightarrow> sigmoves p q \<Longrightarrow> returns (f x q) q"
  shows "consumes (Option.bind r (\<lambda>(x, q). f x q)) p"
proof -
  obtain x q where r: "r = Some (x, q)" "sigmoves p q" "pErr q = None \<longrightarrow> left q < left p"
    using assms(1) by (auto simp: consumes_def)
  then obtain y q' where f: "f x q = Some (y, q')" "sigmoves q q'" using assms(2) by (auto simp: returns_def)
  then show ?thesis using r sigmoves_trans [OF r(2) f(2)] sigmoves_left [OF f(2)] by (auto simp: consumes_def sigmoves_def)
qed

lemma returns_bind:
  assumes "returns r p" and "\<And>x q. r = Some (x, q) \<Longrightarrow> sigmoves p q \<Longrightarrow> returns (f x q) q"
  shows "returns (Option.bind r (\<lambda>(x, q). f x q)) p"
proof -
  obtain x q where r: "r = Some (x, q)" "sigmoves p q" using assms(1) by (auto simp: returns_def)
  then obtain y q' where f: "f x q = Some (y, q')" "sigmoves q q'" using assms(2) by (auto simp: returns_def)
  then show ?thesis using r sigmoves_trans by (auto simp: returns_def)
qed

lemma returns_Some [simp]: "returns (Some (x, q)) p \<longleftrightarrow> sigmoves p q"
  and consumes_Some [simp]: "consumes (Some (x, q)) p \<longleftrightarrow> sigmoves p q \<and> (pErr q = None \<longrightarrow> left q < left p)"
  by (auto simp: returns_def consumes_def)

end
