(* ===== verification/SignatureLang.thy ===== *)
theory SignatureLang
  imports Signature
begin

text \<open>
  Which strings the signature parser accepts (\<^verbatim>\<open>src/types/signature.go\<close>). The first part shows that every function
  returns with the fuel the entry points give it; then a grammar says how a parsed tree is spelled, and the parser
  is shown to accept exactly the spellings.
\<close>

section \<open>The fuel is enough\<close>

lemma referenceType_step:
  assumes "all_return n" "6 * left p + 1 \<le> Suc n"
  shows "consumes (referenceType (Suc n) p) p"
proof (cases "p_done p")
  case False
  then have l: "left (p_adv (Suc 0) p) < left p" by (rule at_left(3))
  have "consumes (javaType n (p_adv (Suc 0) p)) (p_adv (Suc 0) p)" "consumes (classType n (p_adv (Suc 0) p)) (p_adv (Suc 0) p)"
    using assms l unfolding all_return_def by auto
  then have "consumes (javaType n (p_adv (Suc 0) p)) p" "consumes (classType n (p_adv (Suc 0) p)) p"
    by (auto intro: consumes_mono)
  moreover have "consumes (case p_ident '';'' (p_adv (Suc 0) p) of (name, q) \<Rightarrow>
      case p_eat (CHR '';'') q of (ok, r) \<Rightarrow> Some (if ok then SVar name else SNil, r)) p"
  proof -
    obtain name q where q: "p_ident '';'' (p_adv (Suc 0) p) = (name, q)" by fastforce
    obtain ok r where r: "p_eat (CHR '';'') q = (ok, r)" by fastforce
    have "sigmoves (p_adv (Suc 0) p) q" "sigmoves q r" using sigmoves_prims(4,5) q r by (metis snd_conv)+
    then have "sigmoves (p_adv (Suc 0) p) r" by (rule sigmoves_trans)
    then show ?thesis using q r l sigmoves_left sigmoves_trans [OF sigmoves_prims(2)] by fastforce
  qed
  ultimately show ?thesis using False by (auto intro!: consumes_bind)
qed simp

lemma classType_step:
  assumes "all_return n" "6 * left p + 4 \<le> Suc n"
  shows "consumes (classType (Suc n) p) p"
proof -
  obtain name q where q: "p_ident ''<.;'' p = (name, q)" by fastforce
  then have m: "sigmoves p q" using sigmoves_prims(5) by (metis snd_conv)
  show ?thesis
  proof (cases "name = []")
    case False
    then have l: "left q < left p" using ident_left q by blast
    have a: "returns (typeArgs n q) q" using assms l unfolding all_return_def by auto
    have "returns (Option.bind (typeArgs n q) (\<lambda>(args, q1).
          Option.bind (suffixes n [] q1) (\<lambda>(sufs, q2).
            case sufs of
              None \<Rightarrow> Some (SNil, q2)
            | Some ss \<Rightarrow>
                (case p_eat (CHR '';'') q2 of (ok, r) \<Rightarrow> Some (if ok then SClass name args ss else SNil, r))))) q"
    proof (intro returns_bind a)
      fix args q1 assume "sigmoves q q1"
      then have "left q1 < left p" using l sigmoves_left by fastforce
      then show "returns (suffixes n [] q1) q1" using assms unfolding all_return_def by auto
    next
      fix args q1 sufs q2
      show "returns (case sufs of None \<Rightarrow> Some (SNil, q2) | Some ss \<Rightarrow>
                (case p_eat (CHR '';'') q2 of (ok, r) \<Rightarrow> Some (if ok then SClass name args ss else SNil, r))) q2"
        using sigmoves_prims(4) [of q2 "CHR '';''"] by (cases "p_eat (CHR '';'') q2"; cases sufs) auto
    qed
    then show ?thesis using q False consumes_later [OF _ m l] by simp
  qed (use q m sigmoves_trans [OF _ sigmoves_prims(1)] in simp)
qed

lemma loops_step:
  assumes "all_return n"
  shows "6 * left p + 2 \<le> Suc n \<Longrightarrow> consumes (javaType (Suc n) p) p"
    and "6 * left p + 4 \<le> Suc n \<Longrightarrow> returns (typeArgs (Suc n) p) p"
    and "6 * left p + 3 \<le> Suc n \<Longrightarrow> returns (suffixes (Suc n) acc p) p"
    and "(pErr p = None \<longrightarrow> 6 * left p + 3 \<le> Suc n) \<Longrightarrow> returns (arg_loop (Suc n) out p) p"
    and "6 * left p + 2 \<le> Suc n \<Longrightarrow> consumes (typeArg (Suc n) p) p"
proof -
  assume "6 * left p + 2 \<le> Suc n"
  then have "consumes (referenceType n p) p" using assms by (simp add: all_return_def)
  then show "consumes (javaType (Suc n) p) p" by (auto simp: at_left)
next
  assume n: "6 * left p + 4 \<le> Suc n"
  show "returns (typeArgs (Suc n) p) p"
  proof (cases "p_at (CHR ''<'') p")
    case True
    have "returns (arg_loop n [] (p_adv (Suc 0) p)) (p_adv (Suc 0) p)"
      using assms n at_left(1) [OF True] by (auto simp: all_return_def)
    then have "returns (arg_loop n [] (p_adv (Suc 0) p)) p" by (rule returns_mono) simp
    then show ?thesis using True by (auto simp: at_left intro!: returns_bind)
  qed simp
next
  assume n: "6 * left p + 3 \<le> Suc n"
  show "returns (suffixes (Suc n) acc p) p"
  proof (cases "p_at (CHR ''.'') p \<and> pErr p = None")
    case True
    obtain name q where q: "p_ident ''<.;'' (p_adv (Suc 0) p) = (name, q)" by fastforce
    then have m: "sigmoves (p_adv (Suc 0) p) q" using sigmoves_prims(5) by (metis snd_conv)
    have l: "left q < left p" using at_left(1) [of "CHR ''.''" p] True sigmoves_left [OF m] by simp
    have "returns (Option.bind (typeArgs n q) (\<lambda>(args, q1). suffixes n (acc @ [(name, args)]) q1)) q"
    proof (rule returns_bind)
      show "returns (typeArgs n q) q" using assms n l by (auto simp: all_return_def)
      fix args q1 assume "sigmoves q q1"
      then have "left q1 < left p" using l sigmoves_left by fastforce
      then show "returns (suffixes n (acc @ [(name, args)]) q1) q1" using assms n by (auto simp: all_return_def)
    qed
    moreover have "sigmoves p q" using m sigmoves_trans [OF sigmoves_prims(2)] by blast
    ultimately show ?thesis using True q returns_mono sigmoves_trans [OF _ sigmoves_prims(1)] by (auto simp: at_left)
  qed auto
next
  assume n: "pErr p = None \<longrightarrow> 6 * left p + 3 \<le> Suc n"
  show "returns (arg_loop (Suc n) out p) p"
  proof (cases "\<not> p_at (CHR ''>'') p \<and> pErr p = None \<and> \<not> p_done p")
    case True
    then have c: "consumes (typeArg n p) p" using assms n by (simp add: all_return_def)
    have "returns (Option.bind (typeArg n p) (\<lambda>(a, q). arg_loop n (out @ [a]) q)) p"
    proof (rule returns_bind [OF consumes_returns [OF c]])
      fix a q assume "typeArg n p = Some (a, q)"
      then have "pErr q = None \<longrightarrow> left q < left p" using c by simp
      then show "returns (arg_loop n (out @ [a]) q) q" using assms n True by (auto simp: all_return_def)
    qed
    then show ?thesis using True by simp
  qed auto
next
  assume n: "6 * left p + 2 \<le> Suc n"
  have r: "consumes (referenceType n p) p" using assms n by (simp add: all_return_def)
  have "consumes (referenceType n (p_adv (Suc 0) p)) p" if "p_at c p" for c
  proof (rule consumes_mono)
    show "consumes (referenceType n (p_adv (Suc 0) p)) (p_adv (Suc 0) p)"
      using assms n at_left(1) [OF that] by (auto simp: all_return_def)
  qed simp
  then show "consumes (typeArg (Suc n) p) p" using r by (auto simp: at_left intro!: consumes_bind)
qed

lemma all_return: "all_return n"
proof (induction n)
  case (Suc n)
  show ?case unfolding all_return_def
    by (intro conjI allI impI; (elim conjE)?; intro referenceType_step [OF Suc] classType_step [OF Suc] loops_step [OF Suc])
qed (simp add: all_return_def)

lemma all_returnD:
  "6 * left p + 1 \<le> n \<Longrightarrow> consumes (referenceType n p) p"
  "6 * left p + 2 \<le> n \<Longrightarrow> consumes (javaType n p) p"
  using all_return [of n] by (auto simp: all_return_def)

text \<open>A loop whose condition needs no error so far and whose body consumes returns too.\<close>

lemma loop_returns:
  assumes "\<And>n out p. L (Suc n) out p = (if C p \<and> pErr p = None then Option.bind (B n p) (\<lambda>(x, q). L n (out @ [x]) q) else Some (out, p))"
    and "\<And>n p. C p \<Longrightarrow> 6 * left p + 2 \<le> n \<Longrightarrow> consumes (B n p) p"
  shows "1 \<le> n \<Longrightarrow> (pErr p = None \<longrightarrow> 6 * left p + 3 \<le> n) \<Longrightarrow> returns (L n out p) p"
proof (induction n arbitrary: out p)
  case (Suc n)
  show ?case
  proof (cases "C p \<and> pErr p = None")
    case True
    then have c: "consumes (B n p) p" using assms(2) Suc.prems by simp
    have "returns (Option.bind (B n p) (\<lambda>(x, q). L n (out @ [x]) q)) p"
    proof (rule returns_bind [OF consumes_returns [OF c]])
      fix x q assume "B n p = Some (x, q)"
      then have "pErr q = None \<longrightarrow> left q < left p" using c by simp
      then show "returns (L n (out @ [x]) q) q" using Suc True by auto
    qed
    then show ?thesis using True assms(1) by simp
  qed (auto simp: assms(1))
qed simp

lemma marked_returns:
  assumes "p_at c p" "6 * left p + 2 \<le> n"
  shows "consumes (referenceType n (snd (p_next p))) p"
  using all_returnD(1) [of "p_adv (Suc 0) p" n] at_left(1) [OF assms(1)] assms(2) at_left(2) [OF assms(1)]
  by (auto intro: consumes_mono)

lemma bound_loop_returns: "1 \<le> n \<Longrightarrow> (pErr p = None \<longrightarrow> 6 * left p + 3 \<le> n) \<Longrightarrow> returns (bound_loop n bs p) p"
  by (rule loop_returns [where C = "p_at (CHR '':'')" and B = "\<lambda>n p. referenceType n (snd (p_next p))"])
    (auto intro: marked_returns)

lemma throws_loop_returns: "1 \<le> n \<Longrightarrow> (pErr p = None \<longrightarrow> 6 * left p + 3 \<le> n) \<Longrightarrow> returns (throws_loop n bs p) p"
  by (rule loop_returns [where C = "p_at (CHR ''^'')" and B = "\<lambda>n p. referenceType n (snd (p_next p))"])
    (auto intro: marked_returns)

lemma iface_loop_returns: "1 \<le> n \<Longrightarrow> (pErr p = None \<longrightarrow> 6 * left p + 3 \<le> n) \<Longrightarrow> returns (iface_loop n bs p) p"
  by (rule loop_returns [where C = "\<lambda>p. \<not> p_done p" and B = referenceType]) (auto intro: all_returnD)

lemma param_types_returns: "1 \<le> n \<Longrightarrow> (pErr p = None \<longrightarrow> 6 * left p + 3 \<le> n) \<Longrightarrow> returns (param_types n bs p) p"
  by (rule loop_returns [where C = "\<lambda>p. \<not> p_at (CHR '')'') p \<and> \<not> p_done p" and B = javaType]) (auto intro: all_returnD)

lemma eat_left: "p_eat c p = (True, q) \<Longrightarrow> q = p_adv 1 p \<and> p_at c p"
  by (auto simp: p_eat_def split: if_splits)

lemma typeParam_returns:
  assumes "6 * left p + 2 \<le> n"
  shows "consumes (typeParam n p) p"
proof -
  obtain name q where q: "p_ident '':'' p = (name, q)" by fastforce
  have m: "sigmoves p q" using q sigmoves_prims(5) by (metis snd_conv)
  obtain ok r where r: "p_eat (CHR '':'') q = (ok, r)" by fastforce
  have mr: "sigmoves q r" using r sigmoves_prims(4) by (metis snd_conv)
  show ?thesis
  proof (cases "name = [] \<or> \<not> ok")
    case True
    moreover have "\<not> ok \<Longrightarrow> pErr r \<noteq> None" using r by (auto simp: p_eat_def p_fail_def split: if_splits)
    ultimately show ?thesis using q r m mr sigmoves_trans by (auto simp: typeParam_def)
  next
    case False
    then have "left q < left p" using ident_left q by blast
    then have l: "left r < left p" "6 * left r + 3 \<le> n" using sigmoves_left [OF mr] assms by simp_all
    let ?first = "if \<not> p_at (CHR '':'') r \<and> \<not> p_at (CHR ''>'') r \<and> \<not> p_done r
             then Option.bind (referenceType n r) (\<lambda>(t, r1). Some ([t], r1)) else Some ([], r)"
    have f: "returns ?first r"
      using consumes_returns [OF all_returnD(1) [of r n]] l by (auto intro!: returns_bind)
    have "returns (Option.bind ?first (\<lambda>(bs, r1). Option.bind (bound_loop n bs r1) (\<lambda>(bs', r2).
              Some (\<lparr>spName = name, spBounds = bs'\<rparr>, r2)))) r"
    proof (intro returns_bind f)
      fix bs r1 assume "sigmoves r r1"
      then show "returns (bound_loop n bs r1) r1" using l sigmoves_left [of r r1] by (intro bound_loop_returns) auto
    qed simp
    then show ?thesis using False q r l(1) sigmoves_trans [OF m mr] consumes_later by (auto simp: typeParam_def)
  qed
qed

lemma param_loop_returns: "1 \<le> n \<Longrightarrow> (pErr p = None \<longrightarrow> 6 * left p + 3 \<le> n) \<Longrightarrow> returns (param_loop n bs p) p"
  by (rule loop_returns [where C = "\<lambda>p. \<not> p_at (CHR ''>'') p \<and> \<not> p_done p" and B = typeParam]) (auto intro: typeParam_returns)

lemma typeParams_returns: "6 * left p + 3 \<le> n \<Longrightarrow> returns (typeParams n p) p"
  using param_loop_returns [of n "p_adv (Suc 0) p" "[]"] at_left(1,2) [of "CHR ''<''" p]
  by (auto simp: typeParams_def intro!: returns_bind intro: returns_mono)

lemma left_fuel: "6 * left p + 6 \<le> sig_fuel (pS p)"
  by (simp add: left_def sig_fuel_def)

lemma sigmoves_new: "sigmoves (new_parser s) p \<Longrightarrow> pS p = s"
  by (simp add: sigmoves_def new_parser_def)

section \<open>The grammar\<close>

text \<open>How a tree is spelled. The grammar is that of JVMS 4.7.9.1 with the liberties the parser takes: \<open>V\<close> is a base type
  wherever one may stand, an argument list may be empty, and names are bounded by their stop characters only.\<close>

inductive spells_java :: "sigType \<Rightarrow> string \<Rightarrow> bool"
  and spells_ref :: "sigType \<Rightarrow> string \<Rightarrow> bool"
  and spells_args :: "sigArg list \<Rightarrow> string \<Rightarrow> bool"
  and spells_list :: "sigArg list \<Rightarrow> string \<Rightarrow> bool"
  and spells_arg :: "sigArg \<Rightarrow> string \<Rightarrow> bool"
  and spells_sufs :: "sigSuffix list \<Rightarrow> string \<Rightarrow> bool" where
  base: "c \<in> set ''BCDFIJSZV'' \<Longrightarrow> spells_java (SBase c) [c]"
| reference: "spells_ref t u \<Longrightarrow> spells_java t u"
| array: "spells_java t u \<Longrightarrow> spells_ref (SArray t) (CHR ''['' # u)"
| var: "CHR '';'' \<notin> set name \<Longrightarrow> spells_ref (SVar name) (CHR ''T'' # name @ '';'')"
| classt: "name \<noteq> [] \<Longrightarrow> set name \<inter> set ''<.;'' = {} \<Longrightarrow> spells_args args u \<Longrightarrow> spells_sufs ss v \<Longrightarrow>
    spells_ref (SClass name args ss) (CHR ''L'' # name @ u @ v @ '';'')"
| no_args: "spells_args [] []"
| args: "spells_list as u \<Longrightarrow> spells_args as (CHR ''<'' # u @ ''>'')"
| nil: "spells_list [] []"
| cons: "spells_arg a u \<Longrightarrow> spells_list as v \<Longrightarrow> spells_list (a # as) (u @ v)"
| any: "spells_arg (CHR ''*'', SNil) ''*''"
| ext: "spells_ref t u \<Longrightarrow> spells_arg (CHR ''+'', t) (CHR ''+'' # u)"
| sup: "spells_ref t u \<Longrightarrow> spells_arg (CHR ''-'', t) (CHR ''-'' # u)"
| plain: "spells_ref t u \<Longrightarrow> spells_arg (CHR 0x00, t) u"
| no_suf: "spells_sufs [] []"
| suf: "name \<noteq> [] \<Longrightarrow> set name \<inter> set ''<.;'' = {} \<Longrightarrow> spells_args args u \<Longrightarrow> spells_sufs ss v \<Longrightarrow>
    spells_sufs ((name, args) # ss) (CHR ''.'' # name @ u @ v)"

text \<open>A parser that consumed exactly \<open>u\<close>, without an error.\<close>

definition took :: "string \<Rightarrow> sigParser \<Rightarrow> sigParser \<Rightarrow> bool" where
  "took u p q \<longleftrightarrow> pErr p = None \<and> q = p_adv (length u) p \<and> (\<exists>rest. drop (pI p) (pS p) = u @ rest)"

lemma p_adv_simps [simp]:
  "p_adv 0 p = p" "p_adv m (p_adv n p) = p_adv (n + m) p" "pErr (p_adv n p) = pErr p" "pS (p_adv n p) = pS p"
  "pI (p_adv n p) = pI p + n"
  by (simp_all add: p_adv_def)

lemma took_Nil [simp]: "took [] p q \<longleftrightarrow> pErr p = None \<and> q = p"
  by (auto simp: took_def)

lemma took_err: "took u p q \<Longrightarrow> pErr p = None" "took u p q \<Longrightarrow> pErr q = None"
  by (auto simp: took_def)

lemma took_trans: "took u p q \<Longrightarrow> took v q r \<Longrightarrow> took (u @ v) p r"
proof -
  assume u: "took u p q" and v: "took v q r"
  then obtain rest rest' where "drop (pI p) (pS p) = u @ rest" "drop (pI p + length u) (pS p) = v @ rest'"
    by (auto simp: took_def)
  then have "rest = v @ rest'" by (metis append_eq_conv_conj drop_drop add.commute)
  then show ?thesis using u v \<open>drop (pI p) (pS p) = u @ rest\<close> by (auto simp: took_def)
qed

lemma took_Cons: "took [c] p q \<Longrightarrow> took v q r \<Longrightarrow> took (c # v) p r"
  using took_trans [of "[c]"] by simp

lemma took_at: "p_at c p \<Longrightarrow> pErr p = None \<Longrightarrow> took [c] p (p_adv (Suc 0) p)"
  by (auto simp: took_def p_at_def simp flip: Cons_nth_drop_Suc)

lemma took_cur: "\<not> p_done p \<Longrightarrow> pErr p = None \<Longrightarrow> took [pS p ! pI p] p (p_adv (Suc 0) p)"
  by (rule took_at) (simp_all add: p_at_def p_done_def)

lemma took_ident:
  "p_ident st p = (name, q) \<Longrightarrow> pErr q = None \<Longrightarrow> took name p q \<and> set name \<inter> set st = {}"
  by (auto simp: p_ident_def Let_def took_def dest: set_takeWhileD) (metis takeWhile_dropWhile_id)

lemma took_eat: "p_eat c p = (ok, q) \<Longrightarrow> pErr q = None \<Longrightarrow> ok \<and> took [c] p q"
  by (auto simp: p_eat_def p_fail_def intro: took_at split: if_splits)

definition all_sound :: "nat \<Rightarrow> bool" where
  "all_sound n \<longleftrightarrow>
     (\<forall>p t q. javaType n p = Some (t, q) \<and> pErr q = None \<longrightarrow> (\<exists>u. spells_java t u \<and> took u p q)) \<and>
     (\<forall>p t q. referenceType n p = Some (t, q) \<and> pErr q = None \<longrightarrow> (\<exists>u. spells_ref t u \<and> took u p q)) \<and>
     (\<forall>p t q. classType n p = Some (t, q) \<and> pErr q = None \<longrightarrow> (\<exists>u. spells_ref t (CHR ''L'' # u) \<and> took u p q)) \<and>
     (\<forall>p as q. typeArgs n p = Some (as, q) \<and> pErr q = None \<longrightarrow> (\<exists>u. spells_args as u \<and> took u p q)) \<and>
     (\<forall>p acc r q. suffixes n acc p = Some (r, q) \<and> pErr q = None \<longrightarrow>
        (\<exists>ss u. r = Some (acc @ ss) \<and> spells_sufs ss u \<and> took u p q)) \<and>
     (\<forall>p out r q. arg_loop n out p = Some (r, q) \<and> pErr q = None \<longrightarrow>
        (\<exists>as u. r = out @ as \<and> spells_list as u \<and> took u p q)) \<and>
     (\<forall>p a q. typeArg n p = Some (a, q) \<and> pErr q = None \<longrightarrow> (\<exists>u. spells_arg a u \<and> took u p q))"

lemma all_soundD:
  assumes "all_sound n"
  shows "javaType n p = Some (t, q) \<Longrightarrow> pErr q = None \<Longrightarrow> \<exists>u. spells_java t u \<and> took u p q"
    and "referenceType n p = Some (t, q) \<Longrightarrow> pErr q = None \<Longrightarrow> \<exists>u. spells_ref t u \<and> took u p q"
    and "classType n p = Some (t, q) \<Longrightarrow> pErr q = None \<Longrightarrow> \<exists>u. spells_ref t (CHR ''L'' # u) \<and> took u p q"
    and "typeArgs n p = Some (as, q) \<Longrightarrow> pErr q = None \<Longrightarrow> \<exists>u. spells_args as u \<and> took u p q"
    and "suffixes n acc p = Some (r, q) \<Longrightarrow> pErr q = None \<Longrightarrow>
        \<exists>ss u. r = Some (acc @ ss) \<and> spells_sufs ss u \<and> took u p q"
    and "arg_loop n out p = Some (o', q) \<Longrightarrow> pErr q = None \<Longrightarrow> \<exists>as u. o' = out @ as \<and> spells_list as u \<and> took u p q"
    and "typeArg n p = Some (a, q) \<Longrightarrow> pErr q = None \<Longrightarrow> \<exists>u. spells_arg a u \<and> took u p q"
  using assms unfolding all_sound_def by - (elim conjE, metis)+

lemma sound_java: "all_sound n \<Longrightarrow> javaType (Suc n) p = Some (t, q) \<Longrightarrow> pErr q = None \<Longrightarrow> \<exists>u. spells_java t u \<and> took u p q"
  using took_cur [of p] base [of "pS p ! pI p"]
  by (auto simp: p_fail_def split: if_splits dest!: all_soundD(2) intro: reference)

lemma sound_ref:
  assumes "all_sound n" "referenceType (Suc n) p = Some (t, q)" "pErr q = None"
  shows "\<exists>u. spells_ref t u \<and> took u p q"
proof -
  have d: "\<not> p_done p" using assms(2,3) by (auto simp: p_fail_def split: if_splits)
  let ?c = "pS p ! pI p" and ?p = "p_adv (Suc 0) p"
  consider "?c = CHR ''[''" | "?c = CHR ''T''" | "?c = CHR ''L''"
    using assms(2,3) d by (auto simp: p_fail_def split: if_splits)
  then show ?thesis
  proof cases
    case 1
    then obtain e where "javaType n ?p = Some (e, q)" "t = SArray e"
      using assms(2) d by (auto simp: Option.bind_eq_Some_conv)
    then obtain u where "spells_java e u" "took u ?p q" using all_soundD(1) assms(1,3) by blast
    then show ?thesis using took_Cons [OF took_cur [OF d]] took_err(1) array \<open>t = SArray e\<close> 1 by fastforce
  next
    case 2
    obtain name r where r: "p_ident '';'' ?p = (name, r)" by fastforce
    obtain ok q' where e: "p_eat (CHR '';'') r = (ok, q')" by fastforce
    have q: "q' = q" "t = (if ok then SVar name else SNil)" using assms(2) d 2 r e by auto
    then have ok: "ok" "took '';'' r q" using took_eat [OF e] assms(3) by auto
    moreover have "took name ?p r" "set name \<inter> set '';'' = {}" using took_ident [OF r] took_err(1) [OF ok(2)] by auto
    ultimately have "took (name @ '';'') ?p q" by (blast intro: took_trans)
    then have "took (?c # name @ '';'') p q" using took_Cons [OF took_cur [OF d]] took_err(1) by fastforce
    moreover have "spells_ref t (?c # name @ '';'')"
      using var [of name] \<open>set name \<inter> set '';'' = {}\<close> q ok 2 by simp
    ultimately show ?thesis by blast
  next
    case 3
    then have "classType n ?p = Some (t, q)" using assms(2) d by simp
    then obtain u where "spells_ref t (CHR ''L'' # u)" "took u ?p q" using all_soundD(3) assms(1,3) by blast
    then show ?thesis using took_Cons [OF took_cur [OF d]] took_err(1) 3 by fastforce
  qed
qed

lemma sound_class:
  assumes "all_sound n" "classType (Suc n) p = Some (t, q)" "pErr q = None"
  shows "\<exists>u. spells_ref t (CHR ''L'' # u) \<and> took u p q"
proof -
  obtain name r where r: "p_ident ''<.;'' p = (name, r)" by fastforce
  have ne: "name \<noteq> []" using assms(2,3) r by (auto simp: p_fail_def split: if_splits)
  then obtain args q1 sufs q2 where a: "typeArgs n r = Some (args, q1)" "suffixes n [] q1 = Some (sufs, q2)"
    and t: "(case sufs of None \<Rightarrow> Some (SNil, q2) | Some ss \<Rightarrow>
        (case p_eat (CHR '';'') q2 of (ok, q') \<Rightarrow> Some (if ok then SClass name args ss else SNil, q'))) = Some (t, q)"
    using assms(2) r by (auto simp: Option.bind_eq_Some_conv)
  obtain ok q' where e: "p_eat (CHR '';'') q2 = (ok, q')" by fastforce
  have e2: "pErr q2 = None" using t e assms(3) took_eat [OF e] took_err(1) by (auto split: option.splits if_splits)
  then obtain ss v where s: "sufs = Some ss" "spells_sufs ss v" "took v q1 q2"
    using all_soundD(5) [OF assms(1) a(2)] by auto
  then have ok: "ok" "took '';'' q2 q" "t = SClass name args ss" using t e assms(3) took_eat [OF e] by auto
  obtain u where u: "spells_args args u" "took u r q1" using all_soundD(4) [OF assms(1) a(1)] took_err(1) [OF s(3)] by blast
  have n: "took name p r" "set name \<inter> set ''<.;'' = {}" using took_ident [OF r] took_err(1) [OF u(2)] by auto
  have "took (name @ u @ v @ '';'') p q" using n(1) u(2) s(3) ok(2) by (blast intro: took_trans)
  moreover have "spells_ref t (CHR ''L'' # name @ u @ v @ '';'')" using classt ne n(2) u(1) s(2) ok(3) by simp
  ultimately show ?thesis by blast
qed

lemma sound_args:
  assumes "all_sound n" "typeArgs (Suc n) p = Some (as, q)" "pErr q = None"
  shows "\<exists>u. spells_args as u \<and> took u p q"
proof (cases "p_at (CHR ''<'') p")
  case True
  then obtain r where r: "arg_loop n [] (p_adv (Suc 0) p) = Some (as, r)" "q = snd (p_eat (CHR ''>'') r)"
    using assms(2) at_left(2) [OF True] by (auto simp: Option.bind_eq_Some_conv)
  obtain ok where "p_eat (CHR ''>'') r = (ok, q)" using r(2) by (metis prod.collapse)
  then have e: "took ''>'' r q" using took_eat assms(3) by blast
  then obtain u where u: "spells_list as u" "took u (p_adv (Suc 0) p) r"
    using all_soundD(6) [OF assms(1) r(1)] took_err(1) by fastforce
  then have "took (CHR ''<'' # u @ ''>'') p q" using took_Cons [OF took_at [OF True]] took_trans [OF u(2) e] took_err(1) by fastforce
  then show ?thesis using args [OF u(1)] by blast
qed (use assms no_args in auto)

lemma sound_sufs:
  assumes "all_sound n" "suffixes (Suc n) acc p = Some (r, q)" "pErr q = None"
  shows "\<exists>ss u. r = Some (acc @ ss) \<and> spells_sufs ss u \<and> took u p q"
proof (cases "p_at (CHR ''.'') p \<and> pErr p = None")
  case True
  obtain name p1 where i: "p_ident ''<.;'' (p_adv (Suc 0) p) = (name, p1)" by fastforce
  have ne: "name \<noteq> []" using assms(2,3) True i by (auto simp: at_left p_fail_def split: if_splits)
  then obtain args p2 where a: "typeArgs n p1 = Some (args, p2)" "suffixes n (acc @ [(name, args)]) p2 = Some (r, q)"
    using assms(2) True i by (auto simp: at_left Option.bind_eq_Some_conv)
  then obtain ss v where s: "r = Some ((acc @ [(name, args)]) @ ss)" "spells_sufs ss v" "took v p2 q"
    using all_soundD(5) [OF assms(1) a(2) assms(3)] by blast
  obtain u where u: "spells_args args u" "took u p1 p2" using all_soundD(4) [OF assms(1) a(1)] took_err(1) [OF s(3)] by blast
  have n: "took name (p_adv (Suc 0) p) p1" "set name \<inter> set ''<.;'' = {}" using took_ident [OF i] took_err(1) [OF u(2)] by auto
  have "took (name @ u @ v) (p_adv (Suc 0) p) q" using n(1) u(2) s(3) by (blast intro: took_trans)
  then have "took (CHR ''.'' # name @ u @ v) p q" using took_Cons [OF took_at] True by blast
  then show ?thesis using suf [OF ne n(2) u(1) s(2)] s(1) by auto
next
  case False
  then have "r = Some acc" "q = p" using assms(2) by (auto split: if_splits)
  then show ?thesis using no_suf assms(3) by (intro exI [of _ "[]"]) simp
qed

lemma sound_loop:
  assumes "all_sound n" "arg_loop (Suc n) out p = Some (r, q)" "pErr q = None"
  shows "\<exists>as u. r = out @ as \<and> spells_list as u \<and> took u p q"
proof (cases "\<not> p_at (CHR ''>'') p \<and> pErr p = None \<and> \<not> p_done p")
  case True
  then obtain a p1 where a: "typeArg n p = Some (a, p1)" "arg_loop n (out @ [a]) p1 = Some (r, q)"
    using assms(2) by (auto simp: Option.bind_eq_Some_conv)
  then obtain as v where s: "r = (out @ [a]) @ as" "spells_list as v" "took v p1 q"
    using all_soundD(6) [OF assms(1) a(2) assms(3)] by blast
  obtain u where u: "spells_arg a u" "took u p p1" using all_soundD(7) [OF assms(1) a(1)] took_err(1) [OF s(3)] by blast
  then show ?thesis using cons [OF u(1) s(2)] took_trans [OF u(2) s(3)] s(1) by auto
next
  case False
  then have "r = out" "q = p" using assms(2) by (auto split: if_splits)
  then show ?thesis using nil assms(3) by (intro exI [of _ "[]"]) simp
qed

lemma sound_arg:
  assumes "all_sound n" "typeArg (Suc n) p = Some (a, q)" "pErr q = None"
  shows "\<exists>u. spells_arg a u \<and> took u p q"
proof -
  have marked: "\<exists>u. spells_ref t u \<and> took (c # u) p q" if "p_at c p" "referenceType n (p_adv (Suc 0) p) = Some (t, q)" for c t
    using all_soundD(2) [OF assms(1) that(2) assms(3)] took_Cons [OF took_at [OF that(1)]] took_err(1) by fastforce
  consider "p_at (CHR ''*'') p" "a = (CHR ''*'', SNil)" "q = p_adv (Suc 0) p"
    | t where "p_at (CHR ''+'') p" "a = (CHR ''+'', t)" "referenceType n (p_adv (Suc 0) p) = Some (t, q)"
    | t where "p_at (CHR ''-'') p" "a = (CHR ''-'', t)" "referenceType n (p_adv (Suc 0) p) = Some (t, q)"
    | t where "a = (CHR 0x00, t)" "referenceType n p = Some (t, q)"
    using assms(2) by (auto simp: at_left Option.bind_eq_Some_conv split: if_splits)
  then show ?thesis
  proof cases
    case 1
    then show ?thesis using any took_at assms(3) by fastforce
  next
    case (2 t)
    then show ?thesis using marked ext by blast
  next
    case (3 t)
    then show ?thesis using marked sup by blast
  next
    case (4 t)
    then show ?thesis using all_soundD(2) [OF assms(1) 4(2) assms(3)] plain by blast
  qed
qed

lemma all_sound: "all_sound n"
proof (induction n)
  case (Suc n)
  show ?case unfolding all_sound_def
    by (intro conjI allI impI; elim conjE; intro sound_java [OF Suc] sound_ref [OF Suc] sound_class [OF Suc] sound_args [OF Suc]
      sound_sufs [OF Suc] sound_loop [OF Suc] sound_arg [OF Suc])
qed (simp add: all_sound_def)


section \<open>Every spelling is accepted\<close>

text \<open>A function that reads a spelling it stands before, if its fuel lasts, returns the tree and stops right after it. \<open>K\<close> is
  what it needs to know of the text that follows.\<close>

definition reads_spelling :: "(nat \<Rightarrow> sigParser \<Rightarrow> ('a \<times> sigParser) option) \<Rightarrow> (string \<Rightarrow> bool) \<Rightarrow> 'a \<Rightarrow> string \<Rightarrow> bool" where
  "reads_spelling F K x u \<longleftrightarrow> (\<forall>n p rest. pErr p = None \<longrightarrow> drop (pI p) (pS p) = u @ rest \<longrightarrow> K rest \<longrightarrow>
     F n p = None \<or> F n p = Some (x, p_adv (length u) p))"

lemma reads_spelling_at:
  "reads_spelling F K x u \<Longrightarrow> pErr p = None \<Longrightarrow> drop (pI p) (pS p) = u @ rest \<Longrightarrow> K rest \<Longrightarrow>
    F n p = None \<or> F n p = Some (x, p_adv (length u) p)"
  unfolding reads_spelling_def by blast

lemma drop_at:
  assumes "drop (pI p) (pS p) = c # xs"
  shows "p_at d p \<longleftrightarrow> d = c" "\<not> p_done p" "pS p ! pI p = c" "drop (pI p + 1) (pS p) = xs" "snd (p_next p) = p_adv (Suc 0) p"
proof -
  have "pI p < length (pS p)" using assms by (metis drop_eq_Nil list.distinct(1) not_le)
  moreover from this have "pS p ! pI p = c" "drop (Suc (pI p)) (pS p) = xs"
    using assms Cons_nth_drop_Suc [of "pI p" "pS p"] by simp_all
  ultimately show "p_at d p \<longleftrightarrow> d = c" "\<not> p_done p" "pS p ! pI p = c" "drop (pI p + 1) (pS p) = xs"
    "snd (p_next p) = p_adv (Suc 0) p"
    by (auto simp: p_at_def p_done_def p_next_def)
qed

lemma ident_reads:
  assumes "drop (pI p) (pS p) = name @ c # rest" "set name \<inter> set st = {}" "c \<in> set st"
  shows "p_ident st p = (name, p_adv (length name) p)"
proof -
  have "takeWhile (\<lambda>c. c \<notin> set st) (name @ c # rest) = name"
    using assms(2,3) by (subst takeWhile_append2) auto
  then show ?thesis using assms(1) by (simp add: p_ident_def)
qed

lemma eat_reads: "drop (pI p) (pS p) = c # rest \<Longrightarrow> p_eat c p = (True, p_adv (Suc 0) p)"
  by (simp add: p_eat_def drop_at)

lemma drop_step: "drop (pI p) (pS p) = u @ rest \<Longrightarrow> drop (pI p + length u) (pS p) = rest"
  by (metis add.commute append_eq_conv_conj drop_drop)

lemma drop_adv: "drop (pI p) (pS p) = u @ rest \<Longrightarrow> drop (pI (p_adv (length u) p)) (pS (p_adv (length u) p)) = rest"
  by (simp add: drop_step)

lemma ref_starts: "spells_ref t u \<Longrightarrow> \<exists>c v. u = c # v \<and> (c = CHR ''['' \<or> c = CHR ''T'' \<or> c = CHR ''L'')"
  by (erule spells_ref.cases) simp_all

lemma java_starts: "spells_java t u \<Longrightarrow> \<exists>c v. u = c # v \<and> c \<noteq> CHR '')''"
  by (erule spells_java.cases) (auto dest: ref_starts)

lemma args_starts: "spells_args as u \<Longrightarrow> u = [] \<or> hd u = CHR ''<''"
  by (erule spells_args.cases) simp_all

lemma arg_starts: "spells_arg a u \<Longrightarrow> \<exists>c v. u = c # v \<and> c \<noteq> CHR ''>''"
  by (erule spells_arg.cases) (auto dest: ref_starts)

lemma sufs_starts: "spells_sufs ss u \<Longrightarrow> u = [] \<or> hd u = CHR ''.''"
  by (erule spells_sufs.cases) simp_all

text \<open>The cases of the induction over the grammar.\<close>

lemma reads_base: "c \<in> set ''BCDFIJSZV'' \<Longrightarrow> reads_spelling javaType (\<lambda>_. True) (SBase c) [c]"
  unfolding reads_spelling_def
proof (intro allI impI)
  fix n rest and p :: sigParser assume c: "c \<in> set ''BCDFIJSZV''" and d: "drop (pI p) (pS p) = [c] @ rest"
  then show "javaType n p = None \<or> javaType n p = Some (SBase c, p_adv (length [c]) p)"
    using drop_at [of p c rest] by (cases n) simp_all
qed

lemma reads_reference:
  assumes "spells_ref t u" "reads_spelling referenceType (\<lambda>_. True) t u"
  shows "reads_spelling javaType (\<lambda>_. True) t u"
  unfolding reads_spelling_def
proof (intro allI impI)
  fix n rest and p :: sigParser assume p: "pErr p = None" "drop (pI p) (pS p) = u @ rest"
  obtain c v where u: "u = c # v" "c = CHR ''['' \<or> c = CHR ''T'' \<or> c = CHR ''L''" using ref_starts [OF assms(1)] by blast
  show "javaType n p = None \<or> javaType n p = Some (t, p_adv (length u) p)"
  proof (cases n)
    case (Suc m)
    have "javaType n p = referenceType m p" using Suc u p drop_at [of p c "v @ rest"] by auto
    then show ?thesis using reads_spelling_at [OF assms(2) p] by simp
  qed simp
qed

lemma reads_array:
  assumes "reads_spelling javaType (\<lambda>_. True) t u"
  shows "reads_spelling referenceType (\<lambda>_. True) (SArray t) (CHR ''['' # u)"
  unfolding reads_spelling_def
proof (intro allI impI)
  fix n rest and p :: sigParser assume p: "pErr p = None" "drop (pI p) (pS p) = (CHR ''['' # u) @ rest"
  then have d: "drop (pI p) (pS p) = CHR ''['' # u @ rest" by simp
  show "referenceType n p = None \<or> referenceType n p = Some (SArray t, p_adv (length (CHR ''['' # u)) p)"
  proof (cases n)
    case (Suc m)
    have "javaType m (p_adv 1 p) = None \<or> javaType m (p_adv 1 p) = Some (t, p_adv (length u) (p_adv 1 p))"
      using p drop_at(4) [OF d] by (intro reads_spelling_at [OF assms]) simp_all
    then show ?thesis using Suc drop_at(2,3) [OF d] by auto
  qed simp
qed

lemma reads_var:
  assumes "CHR '';'' \<notin> set name"
  shows "reads_spelling referenceType (\<lambda>_. True) (SVar name) (CHR ''T'' # name @ '';'')"
  unfolding reads_spelling_def
proof (intro allI impI)
  fix n rest and p :: sigParser assume p: "pErr p = None" "drop (pI p) (pS p) = (CHR ''T'' # name @ '';'') @ rest"
  then have d: "drop (pI p) (pS p) = CHR ''T'' # name @ CHR '';'' # rest" by simp
  have 1: "p_ident '';'' (p_adv 1 p) = (name, p_adv (length name) (p_adv 1 p))"
    using drop_at(4) [OF d] assms by (intro ident_reads) auto
  have "drop (pI (p_adv 1 p) + length name) (pS p) = CHR '';'' # rest"
    using drop_at(4) [OF d] drop_step [of "p_adv 1 p" name "CHR '';'' # rest"] by simp
  then have 2: "p_eat (CHR '';'') (p_adv (length name) (p_adv 1 p)) = (True, p_adv (Suc 0) (p_adv (length name) (p_adv 1 p)))"
    by (intro eat_reads) simp
  show "referenceType n p = None \<or> referenceType n p = Some (SVar name, p_adv (length (CHR ''T'' # name @ '';'')) p)"
    using 1 2 drop_at [OF d] by (cases n) simp_all
qed

definition before :: "char \<Rightarrow> string \<Rightarrow> bool" where
  "before c rest \<longleftrightarrow> rest \<noteq> [] \<and> hd rest = c"

definition no_lt :: "string \<Rightarrow> bool" where
  "no_lt rest \<longleftrightarrow> rest \<noteq> [] \<and> hd rest \<noteq> CHR ''<''"

lemma before_simps [simp]: "before c (d # r) \<longleftrightarrow> d = c" "no_lt (d # r) \<longleftrightarrow> d \<noteq> CHR ''<''"
  by (simp_all add: before_def no_lt_def)

lemma name_ends:
  assumes "spells_args args u" "spells_sufs ss v"
  shows "\<exists>c r. u @ v @ CHR '';'' # rest = c # r \<and> c \<in> set ''<.;''"
  using args_starts [OF assms(1)] sufs_starts [OF assms(2)] by (cases u; cases v) auto

lemma sufs_follow: "spells_sufs ss v \<Longrightarrow> no_lt (v @ CHR '';'' # rest)"
  by (drule sufs_starts) (cases v; auto simp: no_lt_def)

lemma reads_args:
  assumes "\<And>out. reads_spelling (\<lambda>n. arg_loop n out) (before (CHR ''>'')) (out @ as) u"
  shows "reads_spelling typeArgs no_lt as (CHR ''<'' # u @ ''>'')"
  unfolding reads_spelling_def
proof (intro allI impI)
  fix n rest and p :: sigParser assume p: "pErr p = None" "drop (pI p) (pS p) = (CHR ''<'' # u @ ''>'') @ rest"
  then have d: "drop (pI p) (pS p) = CHR ''<'' # u @ CHR ''>'' # rest" by simp
  show "typeArgs n p = None \<or> typeArgs n p = Some (as, p_adv (length (CHR ''<'' # u @ ''>'')) p)"
  proof (cases n)
    case (Suc m)
    have "arg_loop m [] (p_adv 1 p) = None \<or> arg_loop m [] (p_adv 1 p) = Some ([] @ as, p_adv (length u) (p_adv 1 p))"
    proof (rule reads_spelling_at [OF assms])
      show "before (CHR ''>'') (CHR ''>'' # rest)" by simp
    qed (use p drop_at(4) [OF d] in simp_all)
    moreover have "p_eat (CHR ''>'') (p_adv (length u) (p_adv 1 p)) = (True, p_adv (Suc 0) (p_adv (length u) (p_adv 1 p)))"
      using drop_at(4) [OF d] drop_step [of "p_adv 1 p" u "CHR ''>'' # rest"] by (intro eat_reads) simp
    moreover have "typeArgs n p = Option.bind (arg_loop m [] (p_adv 1 p)) (\<lambda>(out, q). Some (out, snd (p_eat (CHR ''>'') q)))"
      using Suc drop_at(1,5) [OF d] by simp
    ultimately show ?thesis by auto
  qed simp
qed

lemma reads_no_args: "reads_spelling typeArgs no_lt [] []"
  unfolding reads_spelling_def
proof (intro allI impI)
  fix n rest and p :: sigParser assume "drop (pI p) (pS p) = [] @ rest" "no_lt rest"
  then have "drop (pI p) (pS p) = hd rest # tl rest" "hd rest \<noteq> CHR ''<''" by (simp_all add: no_lt_def)
  then show "typeArgs n p = None \<or> typeArgs n p = Some ([], p_adv (length []) p)"
    using drop_at(1) [of p] by (cases n) auto
qed

lemma reads_nil: "reads_spelling (\<lambda>n. arg_loop n out) (before (CHR ''>'')) (out @ []) []"
  unfolding reads_spelling_def
proof (intro allI impI)
  fix n rest and p :: sigParser assume "drop (pI p) (pS p) = [] @ rest" "before (CHR ''>'') rest"
  then have "drop (pI p) (pS p) = CHR ''>'' # tl rest" by (cases rest) (simp_all add: before_def)
  then show "arg_loop n out p = None \<or> arg_loop n out p = Some (out @ [], p_adv (length []) p)"
    using drop_at(1) [of p] by (cases n) auto
qed

lemma reads_cons:
  assumes "spells_arg a u" "reads_spelling typeArg (\<lambda>_. True) a u"
    and "\<And>out. reads_spelling (\<lambda>n. arg_loop n out) (before (CHR ''>'')) (out @ as) v"
  shows "reads_spelling (\<lambda>n. arg_loop n out) (before (CHR ''>'')) (out @ a # as) (u @ v)"
  unfolding reads_spelling_def
proof (intro allI impI)
  fix n rest and p :: sigParser
  assume p: "pErr p = None" and d: "drop (pI p) (pS p) = (u @ v) @ rest" and b: "before (CHR ''>'') rest"
  obtain c w where u: "u = c # w" "c \<noteq> CHR ''>''" using arg_starts [OF assms(1)] by blast
  show "arg_loop n out p = None \<or> arg_loop n out p = Some (out @ a # as, p_adv (length (u @ v)) p)"
  proof (cases n)
    case (Suc m)
    have "typeArg m p = None \<or> typeArg m p = Some (a, p_adv (length u) p)"
      using p d by (intro reads_spelling_at [OF assms(2), of p "v @ rest"]) simp_all
    moreover have "arg_loop m (out @ [a]) (p_adv (length u) p) = None \<or>
        arg_loop m (out @ [a]) (p_adv (length u) p) = Some ((out @ [a]) @ as, p_adv (length v) (p_adv (length u) p))"
      using p b drop_step [of p u "v @ rest"] d by (intro reads_spelling_at [OF assms(3), of _ rest]) simp_all
    moreover have "arg_loop n out p = Option.bind (typeArg m p) (\<lambda>(a, q). arg_loop m (out @ [a]) q)"
      using Suc p u drop_at(1,2) [of p c "w @ v @ rest"] d by simp
    ultimately show ?thesis by auto
  qed simp
qed

lemma reads_any: "reads_spelling typeArg (\<lambda>_. True) (CHR ''*'', SNil) ''*''"
  unfolding reads_spelling_def
proof (intro allI impI)
  fix n rest and p :: sigParser assume "drop (pI p) (pS p) = ''*'' @ rest"
  then show "typeArg n p = None \<or> typeArg n p = Some ((CHR ''*'', SNil), p_adv (length ''*'') p)"
    using drop_at(1,5) [of p "CHR ''*''" rest] by (cases n) auto
qed

lemma reads_marked:
  assumes "reads_spelling referenceType (\<lambda>_. True) t u" "c = CHR ''+'' \<or> c = CHR ''-''"
  shows "reads_spelling typeArg (\<lambda>_. True) (c, t) (c # u)"
  unfolding reads_spelling_def
proof (intro allI impI)
  fix n rest and p :: sigParser assume p: "pErr p = None" "drop (pI p) (pS p) = (c # u) @ rest"
  then have d: "drop (pI p) (pS p) = c # u @ rest" by simp
  show "typeArg n p = None \<or> typeArg n p = Some ((c, t), p_adv (length (c # u)) p)"
  proof (cases n)
    case (Suc m)
    have "referenceType m (p_adv (Suc 0) p) = None \<or> referenceType m (p_adv (Suc 0) p) = Some (t, p_adv (length u) (p_adv (Suc 0) p))"
      using p drop_at(4) [OF d] by (intro reads_spelling_at [OF assms(1)]) simp_all
    then show ?thesis using Suc assms(2) drop_at(1,5) [OF d] by (elim disjE) simp_all
  qed simp
qed

lemma reads_plain:
  assumes "spells_ref t u" "reads_spelling referenceType (\<lambda>_. True) t u"
  shows "reads_spelling typeArg (\<lambda>_. True) (CHR 0x00, t) u"
  unfolding reads_spelling_def
proof (intro allI impI)
  fix n rest and p :: sigParser assume p: "pErr p = None" "drop (pI p) (pS p) = u @ rest"
  obtain c v where u: "u = c # v" "c = CHR ''['' \<or> c = CHR ''T'' \<or> c = CHR ''L''" using ref_starts [OF assms(1)] by blast
  have d: "drop (pI p) (pS p) = c # v @ rest" using p(2) u(1) by simp
  show "typeArg n p = None \<or> typeArg n p = Some ((CHR 0x00, t), p_adv (length u) p)"
  proof (cases n)
    case (Suc m)
    then have "typeArg n p = Option.bind (referenceType m p) (\<lambda>(t, q). Some ((CHR 0x00, t), q))"
      using u(2) drop_at(1) [OF d] by (elim disjE) simp_all
    then show ?thesis using reads_spelling_at [OF assms(2) p, of m] by auto
  qed simp
qed

lemma reads_class:
  assumes "name \<noteq> []" "set name \<inter> set ''<.;'' = {}" "spells_args args u" "spells_sufs ss v"
    and ra: "reads_spelling typeArgs no_lt args u"
    and rs: "\<And>acc. reads_spelling (\<lambda>n. suffixes n acc) (before (CHR '';'')) (Some (acc @ ss)) v"
  shows "reads_spelling referenceType (\<lambda>_. True) (SClass name args ss) (CHR ''L'' # name @ u @ v @ '';'')"
  unfolding reads_spelling_def
proof (intro allI impI)
  fix n rest and p :: sigParser assume p: "pErr p = None" "drop (pI p) (pS p) = (CHR ''L'' # name @ u @ v @ '';'') @ rest"
  then have d: "drop (pI p) (pS p) = CHR ''L'' # name @ u @ v @ CHR '';'' # rest" by simp
  let ?p1 = "p_adv 1 p"
  let ?p2 = "p_adv (length name) ?p1"
  let ?p3 = "p_adv (length u) ?p2"
  let ?p4 = "p_adv (length v) ?p3"
  have d1: "drop (pI ?p1) (pS ?p1) = name @ u @ v @ CHR '';'' # rest" using drop_at(4) [OF d] by simp
  have d2: "drop (pI ?p2) (pS ?p2) = u @ v @ CHR '';'' # rest" by (rule drop_adv [OF d1])
  have d3: "drop (pI ?p3) (pS ?p3) = v @ CHR '';'' # rest" by (rule drop_adv [OF d2])
  have d4: "drop (pI ?p4) (pS ?p4) = CHR '';'' # rest" by (rule drop_adv [OF d3])
  show "referenceType n p = None \<or> referenceType n p = Some (SClass name args ss, p_adv (length (CHR ''L'' # name @ u @ v @ '';'')) p)"
  proof (cases "n = 0 \<or> n = 1")
    case False
    then obtain m where n: "n = Suc (Suc m)" by (metis One_nat_def not0_implies_Suc)
    obtain c r where "u @ v @ CHR '';'' # rest = c # r" "c \<in> set ''<.;''" using name_ends [OF assms(3,4)] by blast
    then have "p_ident ''<.;'' ?p1 = (name, ?p2)" using d1 assms(2) by (intro ident_reads [of _ name c r]) simp_all
    moreover have "typeArgs m ?p2 = None \<or> typeArgs m ?p2 = Some (args, ?p3)"
      using p(1) d2 sufs_follow [OF assms(4), of rest] by (intro reads_spelling_at [OF ra, of ?p2 "v @ CHR '';'' # rest"]) simp_all
    moreover have "suffixes m [] ?p3 = None \<or> suffixes m [] ?p3 = Some (Some ([] @ ss), ?p4)"
      using p(1) d3 by (intro reads_spelling_at [OF rs, of ?p3 "CHR '';'' # rest"]) simp_all
    moreover have "p_eat (CHR '';'') ?p4 = (True, p_adv (Suc 0) ?p4)" using d4 by (rule eat_reads)
    moreover have "referenceType n p = classType (Suc m) ?p1" using n drop_at(2,3) [OF d] by simp
    ultimately show ?thesis using assms(1) by (auto simp add: add.assoc)
  next
    case True
    then show ?thesis using drop_at(2,3) [OF d] by auto
  qed
qed

lemma reads_no_suf: "reads_spelling (\<lambda>n. suffixes n acc) (before (CHR '';'')) (Some (acc @ [])) []"
  unfolding reads_spelling_def
proof (intro allI impI)
  fix n rest and p :: sigParser assume "drop (pI p) (pS p) = [] @ rest" "before (CHR '';'') rest"
  then have "drop (pI p) (pS p) = CHR '';'' # tl rest" by (cases rest) (simp_all add: before_def)
  then show "suffixes n acc p = None \<or> suffixes n acc p = Some (Some (acc @ []), p_adv (length []) p)"
    using drop_at(1) [of p] by (cases n) auto
qed

lemma reads_suf:
  assumes "name \<noteq> []" "set name \<inter> set ''<.;'' = {}" "spells_args args u" "spells_sufs ss v"
    and ra: "reads_spelling typeArgs no_lt args u"
    and rs: "\<And>acc. reads_spelling (\<lambda>n. suffixes n acc) (before (CHR '';'')) (Some (acc @ ss)) v"
  shows "reads_spelling (\<lambda>n. suffixes n acc) (before (CHR '';'')) (Some (acc @ (name, args) # ss)) (CHR ''.'' # name @ u @ v)"
  unfolding reads_spelling_def
proof (intro allI impI)
  fix n rest and p :: sigParser
  assume p: "pErr p = None" "drop (pI p) (pS p) = (CHR ''.'' # name @ u @ v) @ rest" and b: "before (CHR '';'') rest"
  then obtain rest' where rest: "rest = CHR '';'' # rest'" by (cases rest) (simp_all add: before_def)
  then have d: "drop (pI p) (pS p) = CHR ''.'' # name @ u @ v @ rest" using p by simp
  let ?p1 = "p_adv (Suc 0) p"
  let ?p2 = "p_adv (length name) ?p1"
  let ?p3 = "p_adv (length u) ?p2"
  have d1: "drop (pI ?p1) (pS ?p1) = name @ u @ v @ rest" using drop_at(4) [OF d] by simp
  have d2: "drop (pI ?p2) (pS ?p2) = u @ v @ rest" by (rule drop_adv [OF d1])
  have d3: "drop (pI ?p3) (pS ?p3) = v @ rest" by (rule drop_adv [OF d2])
  show "suffixes n acc p = None \<or> suffixes n acc p = Some (Some (acc @ (name, args) # ss), p_adv (length (CHR ''.'' # name @ u @ v)) p)"
  proof (cases n)
    case (Suc m)
    obtain c r where "u @ v @ rest = c # r" "c \<in> set ''<.;''" using name_ends [OF assms(3,4)] rest by blast
    then have "p_ident ''<.;'' ?p1 = (name, ?p2)" using d1 assms(2) by (intro ident_reads [of _ name c r]) simp_all
    moreover have "typeArgs m ?p2 = None \<or> typeArgs m ?p2 = Some (args, ?p3)"
      using p(1) d2 sufs_follow [OF assms(4), of rest'] rest by (intro reads_spelling_at [OF ra, of ?p2 "v @ rest"]) simp_all
    moreover have "suffixes m (acc @ [(name, args)]) ?p3 = None \<or>
        suffixes m (acc @ [(name, args)]) ?p3 = Some (Some ((acc @ [(name, args)]) @ ss), p_adv (length v) ?p3)"
      using p(1) d3 b by (intro reads_spelling_at [OF rs, of ?p3 rest]) simp_all
    moreover have "p_at (CHR ''.'') p" "snd (p_next p) = ?p1" using drop_at(1,5) [OF d] by simp_all
    ultimately show ?thesis using assms(1) Suc p(1) by (auto simp add: add.assoc)
  qed simp
qed

lemma spellings_read:
  "spells_java t1 u1 \<Longrightarrow> reads_spelling javaType (\<lambda>_. True) t1 u1"
  "spells_ref t2 u2 \<Longrightarrow> reads_spelling referenceType (\<lambda>_. True) t2 u2"
  "spells_args as3 u3 \<Longrightarrow> reads_spelling typeArgs no_lt as3 u3"
  "spells_list as4 u4 \<Longrightarrow> \<forall>out. reads_spelling (\<lambda>n. arg_loop n out) (before (CHR ''>'')) (out @ as4) u4"
  "spells_arg a5 u5 \<Longrightarrow> reads_spelling typeArg (\<lambda>_. True) a5 u5"
  "spells_sufs ss6 u6 \<Longrightarrow> \<forall>acc. reads_spelling (\<lambda>n. suffixes n acc) (before (CHR '';'')) (Some (acc @ ss6)) u6"
proof (induction rule: spells_java_spells_ref_spells_args_spells_list_spells_arg_spells_sufs.inducts)
qed (simp_all add: reads_base reads_reference reads_array reads_var reads_class reads_no_args reads_args reads_nil reads_cons
  reads_any reads_marked reads_plain reads_no_suf reads_suf del: append_Nil2)

end
