(* ===== verification/SignatureEntry.thy ===== *)
theory SignatureEntry
  imports SignatureLang
begin

text \<open>
  The entry points of the signature parser (\<^verbatim>\<open>src/types/signature.go\<close>): the loops over bounds, parameters and exceptions,
  and the property that class, method and field signatures are accepted exactly when they are spelled by the
  grammar.
\<close>

section \<open>Loops\<close>

text \<open>What the loops share: a condition on the next byte, a body, and the results collected in order.\<close>

definition is_loop :: "(nat \<Rightarrow> 'a list \<Rightarrow> sigParser \<Rightarrow> ('a list \<times> sigParser) option) \<Rightarrow> (sigParser \<Rightarrow> bool) \<Rightarrow>
    (nat \<Rightarrow> sigParser \<Rightarrow> ('a \<times> sigParser) option) \<Rightarrow> bool" where
  "is_loop L C B \<longleftrightarrow> (\<forall>out p. L 0 out p = None) \<and>
     (\<forall>n out p. L (Suc n) out p =
        (if C p \<and> pErr p = None then Option.bind (B n p) (\<lambda>(x, q). L n (out @ [x]) q) else Some (out, p)))"

lemma the_loops:
  "is_loop bound_loop (p_at (CHR '':'')) (\<lambda>n p. referenceType n (snd (p_next p)))"
  "is_loop throws_loop (p_at (CHR ''^'')) (\<lambda>n p. referenceType n (snd (p_next p)))"
  "is_loop iface_loop (\<lambda>p. \<not> p_done p) referenceType"
  "is_loop param_types (\<lambda>p. \<not> p_at (CHR '')'') p \<and> \<not> p_done p) javaType"
  by (auto simp: is_loop_def)

lemma loop_sound:
  assumes "is_loop L C B"
    and "\<And>n p x q. B n p = Some (x, q) \<Longrightarrow> C p \<Longrightarrow> pErr p = None \<Longrightarrow> pErr q = None \<Longrightarrow> \<exists>u. R x u \<and> took u p q"
    and "\<And>n p x q. B n p = Some (x, q) \<Longrightarrow> pErr q = None \<Longrightarrow> pErr p = None"
  shows "L n out p = Some (r, q) \<Longrightarrow> pErr q = None \<Longrightarrow>
    \<exists>xs us. r = out @ xs \<and> list_all2 R xs us \<and> took (concat us) p q \<and> \<not> C q"
proof (induction n arbitrary: out p)
  case (Suc n)
  show ?case
  proof (cases "C p \<and> pErr p = None")
    case True
    then obtain x p1 where x: "B n p = Some (x, p1)" "L n (out @ [x]) p1 = Some (r, q)"
      using Suc.prems assms(1) by (auto simp: is_loop_def Option.bind_eq_Some_conv)
    then obtain xs us where xs: "r = (out @ [x]) @ xs" "list_all2 R xs us" "took (concat us) p1 q" "\<not> C q"
      using Suc.IH Suc.prems(2) by blast
    have "pErr p1 = None" by (rule took_err(1) [OF xs(3)])
    then have "\<exists>u. R x u \<and> took u p p1" using assms(2) [OF x(1)] True by simp
    then obtain u where u: "R x u" "took u p p1" by blast
    then have "took (concat (u # us)) p q" using took_trans [OF u(2) xs(3)] by simp
    then show ?thesis using u xs by (intro exI [of _ "x # xs"] exI [of _ "u # us"]) simp
  next
    case False
    then have "r = out" "q = p" using Suc.prems assms(1) by (auto simp: is_loop_def)
    then show ?thesis using False Suc.prems(2) by (intro exI [of _ "[]"]) simp
  qed
qed (use assms(1) in \<open>simp add: is_loop_def\<close>)

lemma loop_reads:
  assumes loop: "is_loop L C B"
    and body: "\<And>x u. R x u \<Longrightarrow> reads_spelling B (\<lambda>_. True) x u"
    and starts: "\<And>x u p rest. R x u \<Longrightarrow> drop (pI p) (pS p) = u @ rest \<Longrightarrow> C p"
    and ends: "\<And>p rest. drop (pI p) (pS p) = rest \<Longrightarrow> K rest \<Longrightarrow> \<not> C p"
  shows "list_all2 R xs us \<Longrightarrow> reads_spelling (\<lambda>n. L n out) K (out @ xs) (concat us)"
proof (induction xs us arbitrary: out rule: list_all2_induct)
  case Nil
  show ?case unfolding reads_spelling_def
  proof (intro allI impI)
    fix n rest and p :: sigParser assume "drop (pI p) (pS p) = concat [] @ rest" "K rest"
    then have "\<not> C p" using ends by simp
    then show "L n out p = None \<or> L n out p = Some (out @ [], p_adv (length (concat [])) p)"
      using loop by (cases n) (auto simp: is_loop_def)
  qed
next
  case (Cons x xs u us)
  show ?case unfolding reads_spelling_def
  proof (intro allI impI)
    fix n rest and p :: sigParser
    assume p: "pErr p = None" and d: "drop (pI p) (pS p) = concat (u # us) @ rest" and k: "K rest"
    show "L n out p = None \<or> L n out p = Some (out @ x # xs, p_adv (length (concat (u # us))) p)"
    proof (cases n)
      case (Suc m)
      have d': "drop (pI p) (pS p) = u @ concat us @ rest" using d by simp
      have "B m p = None \<or> B m p = Some (x, p_adv (length u) p)"
        by (rule reads_spelling_at [OF body [OF Cons(1)] p d']) simp
      moreover have "L m (out @ [x]) (p_adv (length u) p) = None \<or>
          L m (out @ [x]) (p_adv (length u) p) = Some ((out @ [x]) @ xs, p_adv (length (concat us)) (p_adv (length u) p))"
        using p k drop_adv [OF d'] by (intro reads_spelling_at [OF Cons(3), of "p_adv (length u) p" rest]) simp_all
      moreover have "L n out p = Option.bind (B m p) (\<lambda>(x, q). L m (out @ [x]) q)"
        using loop starts [OF Cons(1) d'] p Suc by (simp add: is_loop_def)
      ultimately show ?thesis by auto
    qed (use loop in \<open>simp add: is_loop_def\<close>)
  qed
qed

text \<open>A reference type after a mark.\<close>

definition spells_marked :: "char \<Rightarrow> sigType \<Rightarrow> string \<Rightarrow> bool" where
  "spells_marked c t u \<longleftrightarrow> (\<exists>v. u = c # v \<and> spells_ref t v)"

lemma marked_sound:
  assumes "referenceType n (snd (p_next p)) = Some (t, q)" "p_at c p" "pErr p = None" "pErr q = None"
  shows "\<exists>u. spells_marked c t u \<and> took u p q"
proof -
  obtain u where "spells_ref t u" "took u (p_adv (Suc 0) p) q"
    using all_soundD(2) [OF all_sound] assms at_left(2) [OF assms(2)] by metis
  then show ?thesis using took_Cons [OF took_at [OF assms(2,3)]] by (auto simp: spells_marked_def)
qed

lemma marked_reads:
  assumes "spells_marked c t u"
  shows "reads_spelling (\<lambda>n p. referenceType n (snd (p_next p))) (\<lambda>_. True) t u"
  unfolding reads_spelling_def
proof (intro allI impI)
  fix n rest and p :: sigParser assume p: "pErr p = None" "drop (pI p) (pS p) = u @ rest"
  obtain v where v: "u = c # v" "spells_ref t v" using assms by (auto simp: spells_marked_def)
  then have d: "drop (pI p) (pS p) = c # v @ rest" using p by simp
  have "referenceType n (p_adv (Suc 0) p) = None \<or> referenceType n (p_adv (Suc 0) p) = Some (t, p_adv (length v) (p_adv (Suc 0) p))"
    using p(1) drop_at(4) [OF d] by (intro reads_spelling_at [OF spellings_read(2) [OF v(2)]]) simp_all
  then show "referenceType n (snd (p_next p)) = None \<or> referenceType n (snd (p_next p)) = Some (t, p_adv (length u) p)"
    using drop_at(5) [OF d] v(1) by simp
qed

lemma next_err:
  assumes "referenceType n (snd (p_next p)) = Some (t, q)" "pErr q = None"
  shows "pErr p = None"
proof -
  obtain u where "took u (snd (p_next p)) q" using all_soundD(2) [OF all_sound assms] by auto
  then have "pErr (snd (p_next p)) = None" by (rule took_err)
  then show ?thesis using sigmoves_prims(3) [of p] by (simp add: sigmoves_def)
qed

section \<open>Type parameters\<close>

text \<open>A type parameter is spelled by its name, a colon, an optional class bound and the interface bounds, each after a
  colon of its own. Only the last parameter may be without a bound: after the colon the parser takes anything but
  a colon or the closing bracket for a class bound.\<close>

definition pname :: "string \<Rightarrow> bool" where
  "pname name \<longleftrightarrow> name \<noteq> [] \<and> CHR '':'' \<notin> set name \<and> hd name \<noteq> CHR ''>''"

definition spells_bounds :: "sigType list \<Rightarrow> string \<Rightarrow> bool" where
  "spells_bounds bs w \<longleftrightarrow>
     (\<exists>us. list_all2 (spells_marked (CHR '':'')) bs us \<and> w = concat us) \<or>
     (\<exists>b bs' u us. bs = b # bs' \<and> spells_ref b u \<and> list_all2 (spells_marked (CHR '':'')) bs' us \<and> w = u @ concat us)"

definition spells_param :: "sigParam \<Rightarrow> string \<Rightarrow> bool" where
  "spells_param x u \<longleftrightarrow> pname (spName x) \<and> (\<exists>w. spells_bounds (spBounds x) w \<and> u = spName x @ '':'' @ w)"

definition spells_params :: "sigParam list \<Rightarrow> string \<Rightarrow> bool" where
  "spells_params ps w \<longleftrightarrow> ps = [] \<and> w = [] \<or>
     (\<exists>us. list_all2 spells_param ps us \<and> list_all (\<lambda>x. spBounds x \<noteq> []) (butlast ps) \<and> w = ''<'' @ concat us @ ''>'')"

lemma bound_loop_sound:
  assumes "bound_loop n bs p = Some (r, q)" "pErr q = None"
  shows "\<exists>xs us. r = bs @ xs \<and> list_all2 (spells_marked (CHR '':'')) xs us \<and> took (concat us) p q \<and> \<not> p_at (CHR '':'') q"
  by (rule loop_sound [OF the_loops(1) _ _ assms]) (auto intro: marked_sound next_err)

lemma typeParam_sound:
  assumes "typeParam n p = Some (x, q)" "pErr q = None" "\<not> p_at (CHR ''>'') p" "\<not> p_done p"
  shows "\<exists>u. spells_param x u \<and> took u p q \<and> (spBounds x = [] \<longrightarrow> p_at (CHR ''>'') q \<or> p_done q)"
proof -
  obtain name r where r: "p_ident '':'' p = (name, r)" by fastforce
  obtain ok r1 where e: "p_eat (CHR '':'') r = (ok, r1)" by fastforce
  have ne: "name \<noteq> []" using assms(1,2) r by (auto simp: typeParam_def p_fail_def split: if_splits)
  have ok: "ok"
  proof (rule ccontr)
    assume "\<not> ok"
    then have "q = r1" using assms(1) r e ne by (simp add: typeParam_def)
    then show False using took_eat [OF e] assms(2) \<open>\<not> ok\<close> by simp
  qed
  let ?b = "\<not> p_at (CHR '':'') r1 \<and> \<not> p_at (CHR ''>'') r1 \<and> \<not> p_done r1"
  obtain bs p1 bs' where f: "(if ?b then Option.bind (referenceType n r1) (\<lambda>(t, q). Some ([t], q)) else Some ([], r1)) = Some (bs, p1)"
    and l: "bound_loop n bs p1 = Some (bs', q)" and x: "x = \<lparr>spName = name, spBounds = bs'\<rparr>"
    using assms(1) r e ne ok by (auto simp: typeParam_def Option.bind_eq_Some_conv)
  obtain xs us where xs: "bs' = bs @ xs" "list_all2 (spells_marked (CHR '':'')) xs us" "took (concat us) p1 q" "\<not> p_at (CHR '':'') q"
    using bound_loop_sound [OF l assms(2)] by blast
  have e1: "pErr p1 = None" by (rule took_err(1) [OF xs(3)])
  have w: "\<exists>w. spells_bounds bs' w \<and> took w r1 q \<and> (bs' = [] \<longrightarrow> p_at (CHR ''>'') q \<or> p_done q)"
  proof (cases ?b)
    case True
    then obtain t where t: "referenceType n r1 = Some (t, p1)" "bs = [t]" using f by (auto simp: Option.bind_eq_Some_conv)
    obtain u where u: "spells_ref t u" "took u r1 p1" using all_soundD(2) [OF all_sound t(1) e1] by auto
    then have "took (u @ concat us) r1 q" using took_trans [OF u(2) xs(3)] by simp
    moreover have "spells_bounds bs' (u @ concat us)" using xs t(2) u(1) by (auto simp: spells_bounds_def)
    ultimately show ?thesis using xs t(2) by auto
  next
    case False
    then have "bs = []" "p1 = r1" using f by auto
    moreover have "spells_bounds bs' (concat us)" using xs(1,2) \<open>bs = []\<close> by (auto simp: spells_bounds_def)
    ultimately show ?thesis using xs False by (cases xs) auto
  qed
  then obtain w where w: "spells_bounds bs' w" "took w r1 q" "bs' = [] \<longrightarrow> p_at (CHR ''>'') q \<or> p_done q" by blast
  have t1: "took '':'' r r1" using took_eat [OF e] took_err(1) [OF w(2)] by simp
  have t0: "took name p r" "set name \<inter> set '':'' = {}" using took_ident [OF r] took_err(1) [OF t1] by auto
  have t: "took (name @ '':'' @ w) p q" using took_trans [OF t0(1) took_trans [OF t1 w(2)]] by simp
  have "hd name \<noteq> CHR ''>''"
  proof
    assume h: "hd name = CHR ''>''"
    obtain rest where "drop (pI p) (pS p) = name @ rest" using t0(1) by (auto simp: took_def)
    then have "drop (pI p) (pS p) = CHR ''>'' # (tl name @ rest)" using ne h by (cases name) auto
    then show False using drop_at(1) assms(3) by blast
  qed
  then have "pname name" using ne t0(2) by (simp add: pname_def)
  then show ?thesis using x w t by (auto simp: spells_param_def)
qed

lemma param_loop_sound:
  "param_loop n out p = Some (r, q) \<Longrightarrow> pErr q = None \<Longrightarrow>
    \<exists>xs us. r = out @ xs \<and> list_all2 spells_param xs us \<and> took (concat us) p q \<and> list_all (\<lambda>x. spBounds x \<noteq> []) (butlast xs) \<and>
      (xs \<noteq> [] \<longrightarrow> \<not> p_at (CHR ''>'') p \<and> \<not> p_done p)"
proof (induction n arbitrary: out p)
  case (Suc n)
  show ?case
  proof (cases "\<not> p_at (CHR ''>'') p \<and> pErr p = None \<and> \<not> p_done p")
    case True
    then obtain x p1 where x: "typeParam n p = Some (x, p1)" "param_loop n (out @ [x]) p1 = Some (r, q)"
      using Suc.prems by (auto simp: Option.bind_eq_Some_conv)
    then obtain xs us where xs: "r = (out @ [x]) @ xs" "list_all2 spells_param xs us" "took (concat us) p1 q"
        "list_all (\<lambda>x. spBounds x \<noteq> []) (butlast xs)" "xs \<noteq> [] \<longrightarrow> \<not> p_at (CHR ''>'') p1 \<and> \<not> p_done p1"
      using Suc.IH Suc.prems(2) by blast
    have e: "pErr p1 = None" by (rule took_err(1) [OF xs(3)])
    obtain u where u: "spells_param x u" "took u p p1" "spBounds x = [] \<longrightarrow> p_at (CHR ''>'') p1 \<or> p_done p1"
      using typeParam_sound [OF x(1) e] True by blast
    have "took (concat (u # us)) p q" using took_trans [OF u(2) xs(3)] by simp
    moreover have "list_all (\<lambda>x. spBounds x \<noteq> []) (butlast (x # xs))" using xs(4,5) u(3) by auto
    ultimately show ?thesis using u(1) xs(1,2) True by (intro exI [of _ "x # xs"] exI [of _ "u # us"]) simp
  next
    case False
    then have "r = out" "q = p" using Suc.prems by (auto split: if_splits)
    then show ?thesis using Suc.prems(2) by (intro exI [of _ "[]"]) simp
  qed
qed simp

lemma typeParams_sound:
  assumes "typeParams n p = Some (ps, q)" "pErr q = None"
  shows "\<exists>w. spells_params ps w \<and> took w p q"
proof (cases "p_at (CHR ''<'') p")
  case True
  then obtain r where r: "param_loop n [] (p_adv (Suc 0) p) = Some (ps, r)" "q = snd (p_eat (CHR ''>'') r)"
    using assms(1) at_left(2) [OF True] by (auto simp: typeParams_def Option.bind_eq_Some_conv)
  obtain ok where "p_eat (CHR ''>'') r = (ok, q)" using r(2) by (metis prod.collapse)
  then have e: "took ''>'' r q" using took_eat assms(2) by blast
  obtain us where u: "list_all2 spells_param ps us" "took (concat us) (p_adv (Suc 0) p) r" "list_all (\<lambda>x. spBounds x \<noteq> []) (butlast ps)"
    using param_loop_sound [OF r(1) took_err(1) [OF e]] by auto
  have "pErr p = None" using took_err(1) [OF u(2)] by simp
  then have "took (CHR ''<'' # concat us @ ''>'') p q" using took_Cons [OF took_at [OF True] took_trans [OF u(2) e]] by simp
  then show ?thesis using u by (auto simp: spells_params_def)
next
  case False
  then have "ps = []" "q = p" using assms(1) by (auto simp: typeParams_def)
  then show ?thesis using assms(2) by (intro exI [of _ "[]"]) (simp add: spells_params_def)
qed

text \<open>Reading them back. What follows a parameter is its closing bracket or the name of the next one.\<close>

definition follows :: "sigParam \<Rightarrow> string \<Rightarrow> bool" where
  "follows x rest \<longleftrightarrow> rest \<noteq> [] \<and> hd rest \<noteq> CHR '':'' \<and> (spBounds x = [] \<longrightarrow> hd rest = CHR ''>'')"

lemma marked_at: "spells_marked c t u \<Longrightarrow> drop (pI p) (pS p) = u @ rest \<Longrightarrow> p_at d p \<longleftrightarrow> d = c"
  by (auto simp: spells_marked_def drop_at(1))

lemma ref_at:
  assumes "spells_ref t u" "drop (pI p) (pS p) = u @ rest"
  shows "\<not> p_done p" "\<not> p_at (CHR '':'') p" "\<not> p_at (CHR ''>'') p"
proof -
  obtain c v where u: "u = c # v" "c = CHR ''['' \<or> c = CHR ''T'' \<or> c = CHR ''L''" using ref_starts [OF assms(1)] by blast
  then have "drop (pI p) (pS p) = c # v @ rest" using assms(2) by simp
  note a = drop_at(1,2) [OF this]
  show "\<not> p_done p" "\<not> p_at (CHR '':'') p" "\<not> p_at (CHR ''>'') p" using a u(2) by auto
qed

lemma bound_loop_reads:
  "list_all2 (spells_marked (CHR '':'')) xs us \<Longrightarrow>
    reads_spelling (\<lambda>n. bound_loop n out) (\<lambda>rest. rest \<noteq> [] \<and> hd rest \<noteq> CHR '':'') (out @ xs) (concat us)"
proof (rule loop_reads [OF the_loops(1)])
  fix p :: sigParser and rest assume "drop (pI p) (pS p) = rest" "rest \<noteq> [] \<and> hd rest \<noteq> CHR '':''"
  then show "\<not> p_at (CHR '':'') p" using drop_at(1) [of p "hd rest" "tl rest"] by auto
qed (auto intro: marked_reads simp: marked_at)

text \<open>The bounds, as the parser reads them after the first colon.\<close>

definition bounds_part :: "nat \<Rightarrow> sigParser \<Rightarrow> (sigType list \<times> sigParser) option" where
  "bounds_part n r = Option.bind
     (if \<not> p_at (CHR '':'') r \<and> \<not> p_at (CHR ''>'') r \<and> \<not> p_done r
      then Option.bind (referenceType n r) (\<lambda>(t, r1). Some ([t], r1)) else Some ([], r))
     (\<lambda>(bs, r1). bound_loop n bs r1)"

lemma bounds_part_reads:
  assumes "spells_bounds (spBounds x) w"
  shows "reads_spelling bounds_part (follows x) (spBounds x) w"
  unfolding reads_spelling_def
proof (intro allI impI)
  fix n rest and p :: sigParser
  assume p: "pErr p = None" "drop (pI p) (pS p) = w @ rest" and f: "follows x rest"
  then have k: "rest \<noteq> [] \<and> hd rest \<noteq> CHR '':''" by (simp add: follows_def)
  from assms consider
    (none) us where "list_all2 (spells_marked (CHR '':'')) (spBounds x) us" "w = concat us"
  | (some) b bs u us where "spBounds x = b # bs" "spells_ref b u" "list_all2 (spells_marked (CHR '':'')) bs us" "w = u @ concat us"
    by (auto simp: spells_bounds_def)
  then show "bounds_part n p = None \<or> bounds_part n p = Some (spBounds x, p_adv (length w) p)"
  proof cases
    case none
    have "p_at (CHR '':'') p \<or> p_at (CHR ''>'') p"
    proof (cases us)
      case Nil
      then have "rest = CHR ''>'' # tl rest" using none(1) f by (cases rest) (auto simp: follows_def)
      then show ?thesis using p(2) none(2) Nil drop_at(1) [of p "CHR ''>''" "tl rest"] by simp
    next
      case (Cons u us')
      then obtain b where "spells_marked (CHR '':'') b u" using none(1) by (auto simp: list_all2_Cons2)
      then show ?thesis using marked_at [of _ b u p "concat us' @ rest"] p(2) none(2) Cons by simp
    qed
    then have "bounds_part n p = bound_loop n [] p" by (auto simp: bounds_part_def)
    then show ?thesis using reads_spelling_at [OF bound_loop_reads [OF none(1), of "[]"] p(1), of rest n] p(2) k none(2) by simp
  next
    case some
    have d: "drop (pI p) (pS p) = u @ concat us @ rest" using p(2) some(4) by simp
    have "referenceType n p = None \<or> referenceType n p = Some (b, p_adv (length u) p)"
      by (rule reads_spelling_at [OF spellings_read(2) [OF some(2)] p(1) d]) simp
    moreover have "bound_loop n [b] (p_adv (length u) p) = None \<or>
        bound_loop n [b] (p_adv (length u) p) = Some ([b] @ bs, p_adv (length (concat us)) (p_adv (length u) p))"
      using p(1) k drop_adv [OF d] by (intro reads_spelling_at [OF bound_loop_reads [OF some(3)], of _ rest]) simp_all
    moreover have "bounds_part n p = Option.bind (referenceType n p) (\<lambda>(t, q). bound_loop n [t] q)"
      using ref_at [OF some(2) d] by (cases "referenceType n p") (auto simp: bounds_part_def)
    ultimately show ?thesis using some(1,4) by auto
  qed
qed

lemma typeParam_reads:
  assumes "spells_param x u"
  shows "reads_spelling typeParam (follows x) x u"
  unfolding reads_spelling_def
proof (intro allI impI)
  fix n rest and p :: sigParser
  assume p: "pErr p = None" "drop (pI p) (pS p) = u @ rest" and f: "follows x rest"
  obtain w where x: "pname (spName x)" "spells_bounds (spBounds x) w" "u = spName x @ '':'' @ w"
    using assms by (auto simp: spells_param_def)
  let ?q = "p_adv (length (spName x)) p"
  let ?r = "p_adv (Suc 0) ?q"
  have d: "drop (pI p) (pS p) = spName x @ CHR '':'' # w @ rest" using p(2) x(3) by simp
  have dq: "drop (pI ?q) (pS ?q) = CHR '':'' # w @ rest" by (rule drop_adv [OF d])
  have dr: "drop (pI ?r) (pS ?r) = w @ rest" using drop_at(4) [OF dq] by simp
  have i: "p_ident '':'' p = (spName x, ?q)"
    using x(1) by (intro ident_reads [OF d]) (auto simp: pname_def)
  have e: "p_eat (CHR '':'') ?q = (True, ?r)" by (rule eat_reads [OF dq])
  have "bounds_part n ?r = None \<or> bounds_part n ?r = Some (spBounds x, p_adv (length w) ?r)"
    using p(1) dr f by (intro reads_spelling_at [OF bounds_part_reads [OF x(2)], of _ rest]) simp_all
  moreover have "typeParam n p = Option.bind (bounds_part n ?r) (\<lambda>(bs, r2). Some (\<lparr>spName = spName x, spBounds = bs\<rparr>, r2))"
    using x(1) i e by (auto simp: typeParam_def bounds_part_def pname_def split_def)
  ultimately show "typeParam n p = None \<or> typeParam n p = Some (x, p_adv (length u) p)" using x(3) by auto
qed

lemma param_starts: "spells_param x u \<Longrightarrow> \<exists>c v. u = c # v \<and> c \<noteq> CHR ''>'' \<and> c \<noteq> CHR '':''"
  by (cases "spName x") (auto simp: spells_param_def pname_def)

lemma param_loop_reads:
  "list_all2 spells_param xs us \<Longrightarrow> list_all (\<lambda>x. spBounds x \<noteq> []) (butlast xs) \<Longrightarrow>
    reads_spelling (\<lambda>n. param_loop n out) (before (CHR ''>'')) (out @ xs) (concat us)"
proof (induction xs us arbitrary: out rule: list_all2_induct)
  case Nil
  show ?case unfolding reads_spelling_def
  proof (intro allI impI)
    fix n rest and p :: sigParser assume "drop (pI p) (pS p) = concat [] @ rest" "before (CHR ''>'') rest"
    then have "drop (pI p) (pS p) = CHR ''>'' # tl rest" by (cases rest) (simp_all add: before_def)
    then show "param_loop n out p = None \<or> param_loop n out p = Some (out @ [], p_adv (length (concat [])) p)"
      using drop_at(1) [of p] by (cases n) auto
  qed
next
  case (Cons x xs u us)
  show ?case unfolding reads_spelling_def
  proof (intro allI impI)
    fix n rest and p :: sigParser
    assume p: "pErr p = None" and d: "drop (pI p) (pS p) = concat (u # us) @ rest" and k: "before (CHR ''>'') rest"
    show "param_loop n out p = None \<or> param_loop n out p = Some (out @ x # xs, p_adv (length (concat (u # us))) p)"
    proof (cases n)
      case (Suc m)
      have d': "drop (pI p) (pS p) = u @ concat us @ rest" using d by simp
      have "follows x (concat us @ rest)"
      proof (cases us)
        case Nil
        then show ?thesis using k by (cases rest) (auto simp: follows_def before_def)
      next
        case (Cons u' us')
        then obtain y ys where "xs = y # ys" "spells_param y u'" using \<open>list_all2 spells_param xs us\<close> by (auto simp: list_all2_Cons2)
        then show ?thesis using param_starts [of y u'] Cons.prems Cons by (auto simp: follows_def)
      qed
      then have "typeParam m p = None \<or> typeParam m p = Some (x, p_adv (length u) p)"
        by (rule reads_spelling_at [OF typeParam_reads [OF Cons(1)] p d'])
      moreover have b: "list_all (\<lambda>x. spBounds x \<noteq> []) (butlast xs)" using Cons.prems by (cases xs) auto
      have "param_loop m (out @ [x]) (p_adv (length u) p) = None \<or>
          param_loop m (out @ [x]) (p_adv (length u) p) = Some ((out @ [x]) @ xs, p_adv (length (concat us)) (p_adv (length u) p))"
        using p k drop_adv [OF d'] by (intro reads_spelling_at [OF Cons.IH [OF b], of _ rest]) simp_all
      moreover have "\<not> p_at (CHR ''>'') p \<and> \<not> p_done p"
      proof -
        obtain c v where "u = c # v" "c \<noteq> CHR ''>''" using param_starts [OF Cons(1)] by blast
        then show ?thesis using drop_at(1,2) [of p c "v @ concat us @ rest"] d' by simp
      qed
      ultimately show ?thesis using p Suc by auto
    qed simp
  qed
qed

definition no_params :: "string \<Rightarrow> bool" where
  "no_params rest \<longleftrightarrow> rest \<noteq> [] \<and> hd rest \<noteq> CHR ''<''"

lemma typeParams_reads:
  assumes "spells_params ps w"
  shows "reads_spelling typeParams no_params ps w"
  unfolding reads_spelling_def
proof (intro allI impI)
  fix n rest and p :: sigParser
  assume p: "pErr p = None" "drop (pI p) (pS p) = w @ rest" and k: "no_params rest"
  show "typeParams n p = None \<or> typeParams n p = Some (ps, p_adv (length w) p)"
  proof (cases "ps = [] \<and> w = []")
    case True
    then show ?thesis using p(2) k drop_at(1) [of p "hd rest" "tl rest"] by (auto simp: typeParams_def no_params_def)
  next
    case False
    then obtain us where u: "list_all2 spells_param ps us" "list_all (\<lambda>x. spBounds x \<noteq> []) (butlast ps)" "w = ''<'' @ concat us @ ''>''"
      using assms by (auto simp: spells_params_def)
    have d: "drop (pI p) (pS p) = CHR ''<'' # concat us @ CHR ''>'' # rest" using p(2) u(3) by simp
    let ?q = "p_adv (Suc 0) p"
    let ?r = "p_adv (length (concat us)) ?q"
    have dq: "drop (pI ?q) (pS ?q) = concat us @ CHR ''>'' # rest" using drop_at(4) [OF d] by simp
    have "param_loop n [] ?q = None \<or> param_loop n [] ?q = Some ([] @ ps, ?r)"
      using p(1) dq by (intro reads_spelling_at [OF param_loop_reads [OF u(1,2)], of _ "CHR ''>'' # rest"]) simp_all
    moreover have "p_eat (CHR ''>'') ?r = (True, p_adv (Suc 0) ?r)" by (rule eat_reads [OF drop_adv [OF dq]])
    moreover have "typeParams n p = Option.bind (param_loop n [] ?q) (\<lambda>(out, q). Some (out, snd (p_eat (CHR ''>'') q)))"
      using drop_at(1,5) [OF d] by (simp add: typeParams_def)
    ultimately show ?thesis using u(3) by (elim disjE) simp_all
  qed
qed

section \<open>Whole signatures\<close>

text \<open>The spellings of class and method signatures; a field signature is a reference type.\<close>

definition spells_class :: "classSig \<Rightarrow> string \<Rightarrow> bool" where
  "spells_class cs s \<longleftrightarrow> (\<exists>w u us. spells_params (csParams cs) w \<and> spells_ref (csSuper cs) u \<and>
     list_all2 spells_ref (csIfaces cs) us \<and> s = w @ u @ concat us)"

definition spells_method :: "methodSig \<Rightarrow> string \<Rightarrow> bool" where
  "spells_method ms s \<longleftrightarrow> (\<exists>w us v ts. spells_params (msParams ms) w \<and> list_all2 spells_java (msArgs ms) us \<and>
     spells_java (msResult ms) v \<and> list_all2 (spells_marked (CHR ''^'')) (msThrows ms) ts \<and>
     s = w @ ''('' @ concat us @ '')'' @ v @ concat ts)"

text \<open>Every step of an entry point returns.\<close>

lemma entry_returns:
  assumes "pS p = s"
  shows "\<exists>x q. typeParams (sig_fuel s) p = Some (x, q) \<and> pS q = s"
    and "\<exists>x q. referenceType (sig_fuel s) p = Some (x, q) \<and> pS q = s"
    and "\<exists>x q. javaType (sig_fuel s) p = Some (x, q) \<and> pS q = s"
    and "\<exists>x q. iface_loop (sig_fuel s) [] p = Some (x, q) \<and> pS q = s"
    and "\<exists>x q. param_types (sig_fuel s) [] p = Some (x, q) \<and> pS q = s"
    and "\<exists>x q. throws_loop (sig_fuel s) [] p = Some (x, q) \<and> pS q = s"
proof -
  have f: "6 * left p + 6 \<le> sig_fuel s" using left_fuel [of p] assms by simp
  show "\<exists>x q. typeParams (sig_fuel s) p = Some (x, q) \<and> pS q = s"
    using typeParams_returns [of p "sig_fuel s"] f assms by (auto simp: returns_def sigmoves_def)
  show "\<exists>x q. referenceType (sig_fuel s) p = Some (x, q) \<and> pS q = s"
    "\<exists>x q. javaType (sig_fuel s) p = Some (x, q) \<and> pS q = s"
    using all_returnD [of p "sig_fuel s"] f assms by (auto simp: consumes_def sigmoves_def)
  show "\<exists>x q. iface_loop (sig_fuel s) [] p = Some (x, q) \<and> pS q = s"
    "\<exists>x q. param_types (sig_fuel s) [] p = Some (x, q) \<and> pS q = s"
    "\<exists>x q. throws_loop (sig_fuel s) [] p = Some (x, q) \<and> pS q = s"
    using iface_loop_returns [of "sig_fuel s" p "[]"] param_types_returns [of "sig_fuel s" p "[]"]
      throws_loop_returns [of "sig_fuel s" p "[]"] f assms by (auto simp: returns_def sigmoves_def)
qed

lemma new_parser_simps [simp]: "pS (new_parser s) = s" "pI (new_parser s) = 0" "pErr (new_parser s) = None"
  by (simp_all add: new_parser_def)

lemma accepted_total [simp]: "\<exists>y. accepted x p = Some y"
  by (simp add: accepted_def)

lemma accepted_iff: "accepted x p = Some (Some y) \<longleftrightarrow> y = x \<and> pErr p = None \<and> p_done p"
  by (auto simp: accepted_def)

lemma eat_source: "p_eat c p = (ok, q) \<Longrightarrow> pS q = pS p"
  by (auto simp: p_eat_def p_fail_def split: if_splits)

text \<open>None of the three entry points runs out of fuel.\<close>

lemma field_total: "parseFieldSignature s \<noteq> None"
  using entry_returns(2) [of "new_parser s" s] by (auto simp: parseFieldSignature_def)

lemma class_total: "parseClassSignature s \<noteq> None"
proof (cases "s = []")
  case False
  obtain ps p1 where 1: "typeParams (sig_fuel s) (new_parser s) = Some (ps, p1)" "pS p1 = s"
    using entry_returns(1) [of "new_parser s" s] by auto
  obtain t p2 where 2: "referenceType (sig_fuel s) p1 = Some (t, p2)" "pS p2 = s" using entry_returns(2) [OF 1(2)] by blast
  obtain fs p3 where "iface_loop (sig_fuel s) [] p2 = Some (fs, p3)" using entry_returns(4) [OF 2(2)] by blast
  then show ?thesis using 1 2 False by (simp add: parseClassSignature_def)
qed (simp add: parseClassSignature_def)

lemma method_total: "parseMethodSignature s \<noteq> None"
proof (cases "s = []")
  case False
  obtain ps p1 where 1: "typeParams (sig_fuel s) (new_parser s) = Some (ps, p1)" "pS p1 = s"
    using entry_returns(1) [of "new_parser s" s] by auto
  obtain ok p2 where 2: "p_eat (CHR ''('') p1 = (ok, p2)" by fastforce
  obtain as p3 where 3: "param_types (sig_fuel s) [] p2 = Some (as, p3)" "pS p3 = s"
    using entry_returns(5) [of p2 s] eat_source [OF 2] 1(2) by auto
  obtain ok' p4 where 4: "p_eat (CHR '')'') p3 = (ok', p4)" by fastforce
  obtain t p5 where 5: "javaType (sig_fuel s) p4 = Some (t, p5)" "pS p5 = s"
    using entry_returns(3) [of p4 s] eat_source [OF 4] 3(2) by auto
  obtain ts p6 where "throws_loop (sig_fuel s) [] p5 = Some (ts, p6)" using entry_returns(6) [OF 5(2)] by blast
  then show ?thesis using 1 2 3 4 5 False by (simp add: parseMethodSignature_def)
qed (simp add: parseMethodSignature_def)

text \<open>What is accepted is spelled.\<close>

lemma took_all:
  assumes "took u (new_parser s) q" "p_done q"
  shows "s = u"
proof -
  obtain rest where "s = u @ rest" "q = p_adv (length u) (new_parser s)" using assms(1) by (auto simp: took_def)
  then show ?thesis using assms(2) by (simp add: p_done_def)
qed

lemma ref_sound: "referenceType n p = Some (t, q) \<Longrightarrow> pErr q = None \<Longrightarrow> \<exists>u. spells_ref t u \<and> took u p q"
  and java_sound: "javaType n p = Some (t, q) \<Longrightarrow> pErr q = None \<Longrightarrow> \<exists>u. spells_java t u \<and> took u p q"
  by (rule all_soundD(2) [OF all_sound], assumption+) (rule all_soundD(1) [OF all_sound], assumption+)

lemma iface_loop_sound:
  "iface_loop n out p = Some (r, q) \<Longrightarrow> pErr q = None \<Longrightarrow>
    \<exists>xs us. r = out @ xs \<and> list_all2 spells_ref xs us \<and> took (concat us) p q \<and> \<not> \<not> p_done q"
  by (rule loop_sound [OF the_loops(3)]) (use ref_sound took_err in blast)+

lemma param_types_sound:
  "param_types n out p = Some (r, q) \<Longrightarrow> pErr q = None \<Longrightarrow>
    \<exists>xs us. r = out @ xs \<and> list_all2 spells_java xs us \<and> took (concat us) p q \<and> \<not> (\<not> p_at (CHR '')'') q \<and> \<not> p_done q)"
  by (rule loop_sound [OF the_loops(4)]) (use java_sound took_err in blast)+

lemma throws_loop_sound:
  "throws_loop n out p = Some (r, q) \<Longrightarrow> pErr q = None \<Longrightarrow>
    \<exists>xs us. r = out @ xs \<and> list_all2 (spells_marked (CHR ''^'')) xs us \<and> took (concat us) p q \<and> \<not> p_at (CHR ''^'') q"
  by (rule loop_sound [OF the_loops(2)]) (auto intro: marked_sound next_err)

lemma field_sound:
  assumes "parseFieldSignature s = Some (Some t)"
  shows "spells_ref t s"
proof -
  obtain q where q: "referenceType (sig_fuel s) (new_parser s) = Some (t, q)" "pErr q = None" "p_done q"
    using assms by (auto simp: parseFieldSignature_def Option.bind_eq_Some_conv accepted_iff split: if_splits)
  then show ?thesis using ref_sound [OF q(1,2)] took_all by blast
qed

lemma class_sound:
  assumes "parseClassSignature s = Some (Some cs)"
  shows "spells_class cs s"
proof -
  obtain ps p1 t p2 fs p3 where p: "typeParams (sig_fuel s) (new_parser s) = Some (ps, p1)" "referenceType (sig_fuel s) p1 = Some (t, p2)"
      "iface_loop (sig_fuel s) [] p2 = Some (fs, p3)" "pErr p3 = None" "p_done p3" and cs: "cs = \<lparr>csParams = ps, csSuper = t, csIfaces = fs\<rparr>"
    using assms by (auto simp: parseClassSignature_def Option.bind_eq_Some_conv accepted_iff split: if_splits)
  obtain us where us: "list_all2 spells_ref fs us" "took (concat us) p2 p3" using iface_loop_sound [OF p(3,4)] by auto
  obtain u where u: "spells_ref t u" "took u p1 p2" using ref_sound [OF p(2) took_err(1) [OF us(2)]] by blast
  obtain w where w: "spells_params ps w" "took w (new_parser s) p1" using typeParams_sound [OF p(1) took_err(1) [OF u(2)]] by blast
  have "s = w @ u @ concat us" using took_all [OF took_trans [OF w(2) took_trans [OF u(2) us(2)]] p(5)] .
  then show ?thesis using us u w cs by (auto simp: spells_class_def)
qed

lemma method_sound:
  assumes "parseMethodSignature s = Some (Some ms)"
  shows "spells_method ms s"
proof -
  obtain ps p1 where p1: "typeParams (sig_fuel s) (new_parser s) = Some (ps, p1)"
    using assms by (auto simp: parseMethodSignature_def Option.bind_eq_Some_conv split: if_splits)
  obtain ok p2 where p2: "p_eat (CHR ''('') p1 = (ok, p2)" by fastforce
  have ok: "ok" "s \<noteq> []" using assms p1 p2 by (auto simp: parseMethodSignature_def split: if_splits)
  obtain as p3 where p3: "param_types (sig_fuel s) [] p2 = Some (as, p3)"
    using assms p1 p2 ok by (auto simp: parseMethodSignature_def Option.bind_eq_Some_conv)
  obtain ok' p4 where p4: "p_eat (CHR '')'') p3 = (ok', p4)" by fastforce
  have ok': "ok'" using assms p1 p2 p3 p4 ok by (auto simp: parseMethodSignature_def split: if_splits)
  obtain t p5 ts p6 where p: "typeParams (sig_fuel s) (new_parser s) = Some (ps, p1)" "p_eat (CHR ''('') p1 = (True, p2)"
      "param_types (sig_fuel s) [] p2 = Some (as, p3)" "p_eat (CHR '')'') p3 = (True, p4)" "javaType (sig_fuel s) p4 = Some (t, p5)"
      "throws_loop (sig_fuel s) [] p5 = Some (ts, p6)" "pErr p6 = None" "p_done p6"
    and ms: "ms = \<lparr>msParams = ps, msArgs = as, msResult = t, msThrows = ts\<rparr>"
    using assms p1 p2 p3 p4 ok ok' by (auto simp: parseMethodSignature_def Option.bind_eq_Some_conv accepted_iff)
  obtain xs where x: "list_all2 (spells_marked (CHR ''^'')) ts xs" "took (concat xs) p5 p6" using throws_loop_sound [OF p(6,7)] by auto
  obtain v where v: "spells_java t v" "took v p4 p5" using java_sound [OF p(5) took_err(1) [OF x(2)]] by blast
  have e: "took '')'' p3 p4" using took_eat [OF p(4) took_err(1) [OF v(2)]] by simp
  obtain us where us: "list_all2 spells_java as us" "took (concat us) p2 p3" using param_types_sound [OF p(3) took_err(1) [OF e]] by auto
  have e': "took ''('' p1 p2" using took_eat [OF p(2) took_err(1) [OF us(2)]] by simp
  obtain w where w: "spells_params ps w" "took w (new_parser s) p1" using typeParams_sound [OF p(1) took_err(1) [OF e']] by blast
  have "s = w @ ''('' @ concat us @ '')'' @ v @ concat xs"
    using took_all [OF took_trans [OF w(2) took_trans [OF e' took_trans [OF us(2) took_trans [OF e took_trans [OF v(2) x(2)]]]]] p(8)] .
  then show ?thesis using x v us w ms by (auto simp: spells_method_def)
qed

text \<open>What is spelled is accepted.\<close>

lemma at_end: "drop (pI p) (pS p) = [] \<Longrightarrow> p_done p" "drop (pI p) (pS p) = [] \<Longrightarrow> \<not> p_at c p"
  by (auto simp: p_done_def p_at_def)

lemma iface_loop_reads:
  "list_all2 spells_ref xs us \<Longrightarrow> reads_spelling (\<lambda>n. iface_loop n out) (\<lambda>rest. rest = []) (out @ xs) (concat us)"
  by (rule loop_reads [OF the_loops(3)]) (auto intro: spellings_read(2) simp: ref_at(1) at_end)

lemma throws_loop_reads:
  "list_all2 (spells_marked (CHR ''^'')) xs us \<Longrightarrow> reads_spelling (\<lambda>n. throws_loop n out) (\<lambda>rest. rest = []) (out @ xs) (concat us)"
  by (rule loop_reads [OF the_loops(2)]) (auto intro: marked_reads simp: marked_at at_end)

lemma param_types_reads:
  "list_all2 spells_java xs us \<Longrightarrow> reads_spelling (\<lambda>n. param_types n out) (before (CHR '')'')) (out @ xs) (concat us)"
proof (rule loop_reads [OF the_loops(4)])
  fix x u rest and p :: sigParser assume "spells_java x u" and d: "drop (pI p) (pS p) = u @ rest"
  then obtain c v where "u = c # v" "c \<noteq> CHR '')''" using java_starts by blast
  then show "\<not> p_at (CHR '')'') p \<and> \<not> p_done p" using drop_at(1,2) [of p c "v @ rest"] d by simp
next
  fix rest and p :: sigParser assume "drop (pI p) (pS p) = rest" "before (CHR '')'') rest"
  then show "\<not> (\<not> p_at (CHR '')'') p \<and> \<not> p_done p)"
    using drop_at(1) [of p "CHR '')''" "tl rest"] by (cases rest) (auto simp: before_def)
qed (auto intro: spellings_read(1))

lemma field_reads:
  assumes "spells_ref t s"
  shows "parseFieldSignature s = Some (Some t)"
proof -
  have "referenceType (sig_fuel s) (new_parser s) = Some (t, p_adv (length s) (new_parser s))"
    using reads_spelling_at [OF spellings_read(2) [OF assms], of "new_parser s" "[]" "sig_fuel s"]
      entry_returns(2) [of "new_parser s" s] by auto
  moreover have "s \<noteq> []" using ref_starts [OF assms] by auto
  ultimately show ?thesis by (simp add: parseFieldSignature_def accepted_iff p_done_def)
qed

lemma class_reads:
  assumes "spells_class cs s"
  shows "parseClassSignature s = Some (Some cs)"
proof -
  obtain w u us where u: "spells_params (csParams cs) w" "spells_ref (csSuper cs) u" "list_all2 spells_ref (csIfaces cs) us"
      "s = w @ u @ concat us" using assms by (auto simp: spells_class_def)
  let ?p1 = "p_adv (length w) (new_parser s)" and ?p2 = "p_adv (length u) (p_adv (length w) (new_parser s))"
  have h: "no_params (u @ concat us)" "s \<noteq> []" using ref_starts [OF u(2)] u(4) by (auto simp: no_params_def)
  have d1: "drop (pI ?p1) (pS ?p1) = u @ concat us" using u(4) by simp
  have d2: "drop (pI ?p2) (pS ?p2) = concat us" by (rule drop_adv [OF d1])
  have "typeParams (sig_fuel s) (new_parser s) = Some (csParams cs, ?p1)"
    using reads_spelling_at [OF typeParams_reads [OF u(1)], of "new_parser s" "u @ concat us" "sig_fuel s"] u(4) h(1)
      entry_returns(1) [of "new_parser s" s] by auto
  moreover have "referenceType (sig_fuel s) ?p1 = Some (csSuper cs, ?p2)"
    using reads_spelling_at [OF spellings_read(2) [OF u(2)] _ d1, of "sig_fuel s"] entry_returns(2) [of ?p1 s] by auto
  moreover have "iface_loop (sig_fuel s) [] ?p2 = Some (csIfaces cs, p_adv (length (concat us)) ?p2)"
    using reads_spelling_at [OF iface_loop_reads [OF u(3)], of ?p2 "[]" "sig_fuel s" "[]"] d2 entry_returns(4) [of ?p2 s] by auto
  ultimately show ?thesis using h(2) u(4) by (simp add: parseClassSignature_def accepted_iff p_done_def)
qed

lemma method_reads:
  assumes "spells_method ms s"
  shows "parseMethodSignature s = Some (Some ms)"
proof -
  obtain w us v ts where u: "spells_params (msParams ms) w" "list_all2 spells_java (msArgs ms) us" "spells_java (msResult ms) v"
      "list_all2 (spells_marked (CHR ''^'')) (msThrows ms) ts" and s: "s = w @ ''('' @ concat us @ '')'' @ v @ concat ts"
    using assms by (auto simp: spells_method_def)
  let ?p1 = "p_adv (length w) (new_parser s)"
  let ?p2 = "p_adv (Suc 0) ?p1"
  let ?p3 = "p_adv (length (concat us)) ?p2"
  let ?p4 = "p_adv (Suc 0) ?p3"
  let ?p5 = "p_adv (length v) ?p4"
  have d1: "drop (pI ?p1) (pS ?p1) = CHR ''('' # concat us @ CHR '')'' # v @ concat ts" using s by simp
  have d2: "drop (pI ?p2) (pS ?p2) = concat us @ CHR '')'' # v @ concat ts" using drop_at(4) [OF d1] by simp
  have d3: "drop (pI ?p3) (pS ?p3) = CHR '')'' # v @ concat ts" by (rule drop_adv [OF d2])
  have d4: "drop (pI ?p4) (pS ?p4) = v @ concat ts" using drop_at(4) [OF d3] by simp
  have d5: "drop (pI ?p5) (pS ?p5) = concat ts" by (rule drop_adv [OF d4])
  have "typeParams (sig_fuel s) (new_parser s) = Some (msParams ms, ?p1)"
    using reads_spelling_at [OF typeParams_reads [OF u(1)], of "new_parser s" "CHR ''('' # concat us @ CHR '')'' # v @ concat ts" "sig_fuel s"] s
      entry_returns(1) [of "new_parser s" s] by (auto simp: no_params_def)
  moreover have "p_eat (CHR ''('') ?p1 = (True, ?p2)" by (rule eat_reads [OF d1])
  moreover have "param_types (sig_fuel s) [] ?p2 = Some (msArgs ms, ?p3)"
    using reads_spelling_at [OF param_types_reads [OF u(2)] _ d2, of "sig_fuel s" "[]"] entry_returns(5) [of ?p2 s] by auto
  moreover have "p_eat (CHR '')'') ?p3 = (True, ?p4)" by (rule eat_reads [OF d3])
  moreover have "javaType (sig_fuel s) ?p4 = Some (msResult ms, ?p5)"
    using reads_spelling_at [OF spellings_read(1) [OF u(3)] _ d4, of "sig_fuel s"] entry_returns(3) [of ?p4 s] by auto
  moreover have "throws_loop (sig_fuel s) [] ?p5 = Some (msThrows ms, p_adv (length (concat ts)) ?p5)"
    using reads_spelling_at [OF throws_loop_reads [OF u(4)], of ?p5 "[]" "sig_fuel s" "[]"] d5 entry_returns(6) [of ?p5 s] by auto
  moreover have "s \<noteq> []" using s by simp
  ultimately show ?thesis using s by (simp add: parseMethodSignature_def accepted_iff p_done_def)
qed

text \<open>C13: the signature parser ends on every input without running out of fuel, and it is exact: a string is accepted as a
  field, class or method signature, with a given tree, exactly when the grammar spells that tree with that string.
  So trailing bytes, empty names and truncated signatures are refused, and a string has at most one tree.\<close>

theorem signatures_exact:
  "parseFieldSignature s \<noteq> None \<and> parseClassSignature s \<noteq> None \<and> parseMethodSignature s \<noteq> None \<and>
   (parseFieldSignature s = Some (Some t) \<longleftrightarrow> spells_ref t s) \<and>
   (parseClassSignature s = Some (Some cs) \<longleftrightarrow> spells_class cs s) \<and>
   (parseMethodSignature s = Some (Some ms) \<longleftrightarrow> spells_method ms s)"
  by (intro conjI iffI field_total class_total method_total) (fact field_sound field_reads class_sound class_reads method_sound method_reads)+

end
