(* ===== verification/Ast.thy ===== *)
theory Ast
  imports Token
begin

text \<open>
  The expressions of the syntax tree (\<^verbatim>\<open>src/ast/expr.go\<close>, \<open>Ident\<close> and \<open>Name\<close> of \<^verbatim>\<open>src/ast/ast.go\<close>). A node holds its span, its operator
  and its operands; of the positions of single tokens, which only a formatter reads, none is kept. Children of the
  other hierarchies (types, patterns, declarations, lambda and switch bodies) are references: the code modelled
  over expressions passes them on or uses them as keys of the attribution tables, and never looks into them.
\<close>

section \<open>Nodes\<close>

record span =
  spLo :: tpos
  spHi :: tpos

text \<open>References to nodes of the other hierarchies.\<close>

type_synonym node_ref = nat

record ident =
  idSpan :: span
  idCtx :: tctx
  idUnderscore :: bool

text \<open>A \<open>nil\<close> operand is \<^const>\<open>None\<close>. The elements of an array initialiser are expressions or nested initialisers, which are
  expressions themselves.\<close>

datatype expr =
    Ident ident
  | Name span "ident list"
  | BasicLit span tkind
  | ClassLit span "node_ref option" nat
  | This span "span option"
  | SuperExpr span "span option"
  | ParenExpr span expr
  | SelectorExpr span expr ident
  | IndexExpr span expr expr
  | CallExpr span "expr option" ident "expr list"
  | MethodRef span node_ref "ident option"
  | NewExpr span "expr option" node_ref "expr list" "node_ref list option"
  | NewArrayExpr span node_ref "expr list" nat "expr option"
  | ArrayInit span "expr list"
  | UnaryExpr span tkind expr
  | PostfixExpr span expr tkind
  | BinaryExpr span expr tkind expr
  | InstanceOfExpr span expr "node_ref option" "node_ref option"
  | CondExpr span expr expr expr
  | AssignExpr span expr tkind expr
  | CastExpr span node_ref "node_ref list" expr
  | LambdaExpr span node_ref
  | SwitchExpr span expr node_ref
  | BadExpr span

primrec expr_span :: "expr \<Rightarrow> span" where
  "expr_span (Ident i) = idSpan i"
| "expr_span (Name s parts) = s"
| "expr_span (BasicLit s k) = s"
| "expr_span (ClassLit s t dims) = s"
| "expr_span (This s q) = s"
| "expr_span (SuperExpr s q) = s"
| "expr_span (ParenExpr s x) = s"
| "expr_span (SelectorExpr s x sel) = s"
| "expr_span (IndexExpr s x i) = s"
| "expr_span (CallExpr s x f args) = s"
| "expr_span (MethodRef s x n) = s"
| "expr_span (NewExpr s x t args body) = s"
| "expr_span (NewArrayExpr s t dims n init) = s"
| "expr_span (ArrayInit s elts) = s"
| "expr_span (UnaryExpr s k x) = s"
| "expr_span (PostfixExpr s x k) = s"
| "expr_span (BinaryExpr s x k y) = s"
| "expr_span (InstanceOfExpr s x t p) = s"
| "expr_span (CondExpr s c x y) = s"
| "expr_span (AssignExpr s x k y) = s"
| "expr_span (CastExpr s t bs x) = s"
| "expr_span (LambdaExpr s b) = s"
| "expr_span (SwitchExpr s x b) = s"
| "expr_span (BadExpr s) = s"

definition node_Pos :: "expr \<Rightarrow> tpos" where
  "node_Pos x = spLo (expr_span x)"

definition node_End :: "expr \<Rightarrow> tpos" where
  "node_End x = spHi (expr_span x)"

end
