(* ===== verification/Fold.thy ===== *)
theory Fold
  imports Ast Subtyping SourceFile Attributes "HOL-Library.Signed_Division"
begin

text \<open>
  Constants and conversions of attribution: the constant value (\<^verbatim>\<open>src/types/const.go\<close>), constant folding
  (\<^verbatim>\<open>src/analyzer/attr/fold.go\<close>), the conversions of JLS 5 (\<^verbatim>\<open>src/analyzer/attr/convert.go\<close>), the types of operators
  (\<^verbatim>\<open>src/analyzer/attr/expr.go\<close>) and the tables attribution fills (\<^verbatim>\<open>src/analyzer/attr/attr.go\<close>).
  Floating point values are their bit patterns, and Go's arithmetic on them is the parameter \<open>goFloats\<close>. Four functions
  that folding calls, \<^verbatim>\<open>parseCharLit\<close>, \<^verbatim>\<open>parseStringLit\<close>, \<^verbatim>\<open>parseTextBlock\<close> and \<^verbatim>\<open>constOfVar\<close>, have no definition in the repository and
  are the parameter \<open>litDecoders\<close>.
\<close>

unbundle bit_operations_syntax

section \<open>Constants\<close>

text \<open>\<open>Value\<close> is one of six Go types, or nil; an integer is its word.\<close>

datatype cval = CInt u32 | CLong u64 | CFloat u32 | CDouble u64 | CStr string | CBool bool

record konst =
  kType :: "ty option"
  kValue :: "cval option"

definition no_konst :: konst where
  "no_konst = \<lparr>kType = None, kValue = None\<rparr>"

definition mk_const :: "ty \<Rightarrow> cval \<Rightarrow> konst" where
  "mk_const t v = \<lparr>kType = Some t, kValue = Some v\<rparr>"

lemma mk_const_simps [simp]: "kType (mk_const t v) = Some t" "kValue (mk_const t v) = Some v"
  by (simp_all add: mk_const_def)

definition k_IsValid :: "konst \<Rightarrow> bool" where
  "k_IsValid c \<longleftrightarrow> kValue c \<noteq> None"

definition k_Int :: "konst \<Rightarrow> u32 option" where
  "k_Int c = (case kValue c of Some (CInt v) \<Rightarrow> Some v | Some (CBool b) \<Rightarrow> Some (if b then 1 else 0) | _ \<Rightarrow> None)"

definition k_Str :: "konst \<Rightarrow> string option" where
  "k_Str c = (case kValue c of Some (CStr s) \<Rightarrow> Some s | _ \<Rightarrow> None)"

definition StringName :: string where
  "StringName = ''java/lang/String''"

definition String_type :: "heap \<Rightarrow> ty" where
  "String_type h = named h StringName"

definition FromClassfile :: "heap \<Rightarrow> const option \<Rightarrow> ty \<Rightarrow> konst" where
  "FromClassfile h co declared =
     (case co of
        None \<Rightarrow> no_konst
      | Some c \<Rightarrow>
          if cTag c = TagInteger then
            (let v = ucast (cBits c) :: u32 in
             case Kind declared of
               KindBoolean \<Rightarrow> mk_const (Basic KindBoolean) (CBool (v \<noteq> 0))
             | KindByte \<Rightarrow> mk_const (Basic KindByte) (CInt v)
             | KindShort \<Rightarrow> mk_const (Basic KindShort) (CInt v)
             | KindChar \<Rightarrow> mk_const (Basic KindChar) (CInt v)
             | _ \<Rightarrow> mk_const (Basic KindInt) (CInt v))
          else if cTag c = TagLong then mk_const (Basic KindLong) (CLong (cBits c))
          else if cTag c = TagFloat then mk_const (Basic KindFloat) (CFloat (ucast (cBits c)))
          else if cTag c = TagDouble then mk_const (Basic KindDouble) (CDouble (cBits c))
          else if cTag c = TagString then mk_const (String_type h) (CStr (cStr c))
          else no_konst)"

section \<open>The tables of attribution\<close>

text \<open>The maps of \<open>Info\<close>, keyed on nodes; nodes of the other hierarchies are keyed by their reference. Symbols are pointers.\<close>

datatype symbol = SymVar nat | SymMethod nat | SymClass csym

record info =
  inTypes :: "expr \<Rightarrow> ty option"
  inNodeTypes :: "node_ref \<Rightarrow> ty option"
  inUses :: "expr \<Rightarrow> symbol option"
  inConsts :: "expr \<Rightarrow> konst option"

definition errType :: ty where
  "errType = ErrorType []"

definition in_Type :: "info \<Rightarrow> expr \<Rightarrow> ty" where
  "in_Type i x = (case inTypes i x of Some t \<Rightarrow> t | None \<Rightarrow> errType)"

definition in_NodeType :: "info \<Rightarrow> node_ref \<Rightarrow> ty" where
  "in_NodeType i x = (case inNodeTypes i x of Some t \<Rightarrow> t | None \<Rightarrow> errType)"

definition in_Use :: "info \<Rightarrow> expr \<Rightarrow> symbol option" where
  "in_Use i x = inUses i x"

definition in_Const :: "info \<Rightarrow> expr \<Rightarrow> konst option" where
  "in_Const i x = (case inConsts i x of Some c \<Rightarrow> (if k_IsValid c then Some c else None) | None \<Rightarrow> None)"

section \<open>Conversions\<close>

definition boxNames :: "Types.tkind \<rightharpoonup> string" where
  "boxNames = map_of
     [(KindBoolean, ''java/lang/Boolean''), (KindByte, ''java/lang/Byte''), (KindShort, ''java/lang/Short''),
      (KindChar, ''java/lang/Character''), (KindInt, ''java/lang/Integer''), (KindLong, ''java/lang/Long''),
      (KindFloat, ''java/lang/Float''), (KindDouble, ''java/lang/Double''), (KindVoid, ''java/lang/Void'')]"

definition unboxKinds :: "string \<rightharpoonup> Types.tkind" where
  "unboxKinds = map_of
     [(''java/lang/Boolean'', KindBoolean), (''java/lang/Byte'', KindByte), (''java/lang/Short'', KindShort),
      (''java/lang/Character'', KindChar), (''java/lang/Integer'', KindInt), (''java/lang/Long'', KindLong),
      (''java/lang/Float'', KindFloat), (''java/lang/Double'', KindDouble)]"

definition boxed :: "heap \<Rightarrow> ty \<Rightarrow> ty" where
  "boxed h t = (case boxNames (Kind t) of None \<Rightarrow> t | Some name \<Rightarrow> named h name)"

definition unboxed :: "heap \<Rightarrow> ty \<Rightarrow> ty" where
  "unboxed h t =
     (case t of
        ClassType (Some c) args outer \<Rightarrow>
          (case unboxKinds (binary_of h c) of
             Some k \<Rightarrow> (case PrimitiveOf k of Some p \<Rightarrow> p | None \<Rightarrow> t)
           | None \<Rightarrow> t)
      | _ \<Rightarrow> t)"

definition assignableTo :: "heap \<Rightarrow> ty option \<Rightarrow> ty option \<Rightarrow> bool option" where
  "assignableTo h from to =
     (case (from, to) of
        (Some f, Some t) \<Rightarrow>
          if Identical h f t \<or> IsError from \<or> IsError to then Some True
          else if Kind f = KindNull then Some (IsReference t)
          else if IsPrimitive (Kind f) \<and> IsPrimitive (Kind t) then Some (Widens f t)
          else if IsPrimitive (Kind f) then IsSubtype h (Some (boxed h f)) to
          else if IsPrimitive (Kind t) then
            (let u = unboxed h f in Some (IsPrimitive (Kind u) \<and> (Identical h u t \<or> Widens u t)))
          else IsSubtype h from to
      | _ \<Rightarrow> Some False)"

definition fitsNarrowed :: "konst \<Rightarrow> ty \<Rightarrow> bool" where
  "fitsNarrowed k to =
     (case k_Int k of
        None \<Rightarrow> False
      | Some v \<Rightarrow>
          (case Kind to of
             KindByte \<Rightarrow> - 128 \<le> sint v \<and> sint v \<le> 127
           | KindShort \<Rightarrow> - 32768 \<le> sint v \<and> sint v \<le> 32767
           | KindChar \<Rightarrow> 0 \<le> sint v \<and> sint v \<le> 65535
           | _ \<Rightarrow> False))"

text \<open>The diagnostics of the functions below, with the types their messages name.\<close>

datatype attr_error = Incompatible ty ty | CannotCast ty ty | BadUnary Token.tkind ty | BadBinary Token.tkind ty ty | Incomparable ty ty

definition assignable :: "heap \<Rightarrow> info \<Rightarrow> expr \<Rightarrow> ty \<Rightarrow> ty option \<Rightarrow> (ty \<times> attr_error list) option" where
  "assignable h i x from to =
     (case to of
        None \<Rightarrow> Some (from, [])
      | Some t \<Rightarrow>
          if IsError (Some from) \<or> IsError to then Some (from, [])
          else Option.bind (assignableTo h (Some from) to) (\<lambda>ok.
            if ok then Some (t, [])
            else case in_Const i x of
                Some k \<Rightarrow> if fitsNarrowed k t then Some (t, []) else Some (t, [Incompatible from t])
              | None \<Rightarrow> Some (t, [Incompatible from t])))"

definition checkCast :: "heap \<Rightarrow> ty \<Rightarrow> ty \<Rightarrow> attr_error list option" where
  "checkCast h from to =
     (if IsError (Some from) \<or> IsError (Some to) then Some []
      else if IsPrimitive (Kind from) \<noteq> IsPrimitive (Kind to) then
        Option.bind (if IsPrimitive (Kind from) then IsSubtype h (Some (boxed h from)) (Some to) else Some False) (\<lambda>ok.
          if ok then Some []
          else if IsPrimitive (Kind to) \<and> IsPrimitive (Kind (unboxed h from)) then Some []
          else Some [CannotCast from to])
      else if IsPrimitive (Kind from) then
        Some (if (Kind from = KindBoolean) \<noteq> (Kind to = KindBoolean) then [CannotCast from to] else [])
      else Option.bind (IsSubtype h (Some from) (Some to)) (\<lambda>a.
        if a then Some []
        else Option.bind (IsSubtype h (Some to) (Some from)) (\<lambda>b. Some (if b then [] else [CannotCast from to]))))"

definition isString :: "heap \<Rightarrow> ty \<Rightarrow> bool" where
  "isString h t = (case t of ClassType (Some c) args outer \<Rightarrow> binary_of h c = StringName | _ \<Rightarrow> False)"

definition isConstantVarType :: "heap \<Rightarrow> ty \<Rightarrow> bool" where
  "isConstantVarType h t \<longleftrightarrow> IsPrimitive (Kind t) \<or> isString h t"

section \<open>The types of operators\<close>

text \<open>What \<open>unary\<close>, \<open>binary\<close>, \<open>arith\<close> and \<open>checkComparable\<close> compute from the types of the operands.\<close>

definition isIntegral :: "ty \<Rightarrow> bool" where
  "isIntegral t = IsIntegral (Kind t)"

definition attr_unary :: "heap \<Rightarrow> Token.tkind \<Rightarrow> ty \<Rightarrow> ty \<times> attr_error list" where
  "attr_unary h k t =
     (if IsError (Some t) then (errType, [])
      else if k = NOT_OP then
        (if Kind (unboxed h t) \<noteq> KindBoolean then (errType, [BadUnary k t]) else (Basic KindBoolean, []))
      else if k = TILDE then
        (let p = Promote (unboxed h t) in if \<not> isIntegral p then (errType, [BadUnary k t]) else (p, []))
      else if k = ADD \<or> k = SUB then
        (let p = Promote (unboxed h t) in if \<not> IsNumeric (Kind p) then (errType, [BadUnary k t]) else (p, []))
      else if k = INC \<or> k = DEC then
        (if \<not> IsNumeric (Kind (unboxed h t)) then (errType, [BadUnary k t]) else (t, []))
      else (errType, []))"

definition attr_arith :: "Token.tkind \<Rightarrow> ty \<Rightarrow> ty \<Rightarrow> ty \<Rightarrow> ty \<Rightarrow> ty \<times> attr_error list" where
  "attr_arith k lt rt lu ru =
     (if \<not> IsNumeric (Kind lu) \<or> \<not> IsNumeric (Kind ru) then (errType, [BadBinary k lt rt])
      else (PromoteBinary (Promote lu) (Promote ru), []))"

definition checkComparable :: "heap \<Rightarrow> ty \<Rightarrow> ty \<Rightarrow> ty \<Rightarrow> ty \<Rightarrow> attr_error list option" where
  "checkComparable h lt rt lu ru =
     (if IsNumeric (Kind lu) \<and> IsNumeric (Kind ru) then Some []
      else if Kind lu = KindBoolean \<and> Kind ru = KindBoolean then Some []
      else if IsReference lt \<and> IsReference rt then
        Option.bind (IsSubtype h (Some lt) (Some rt)) (\<lambda>a.
          if a then Some []
          else Option.bind (IsSubtype h (Some rt) (Some lt)) (\<lambda>b. Some (if b then [] else [Incomparable lt rt])))
      else Some [Incomparable lt rt])"

definition attr_binary :: "heap \<Rightarrow> Token.tkind \<Rightarrow> ty \<Rightarrow> ty \<Rightarrow> (ty \<times> attr_error list) option" where
  "attr_binary h k lt rt =
     (if IsError (Some lt) \<or> IsError (Some rt) then Some (errType, [])
      else
        (let lu = unboxed h lt; ru = unboxed h rt in
         if k = ADD then
           Some (if isString h lt \<or> isString h rt then (String_type h, []) else attr_arith k lt rt lu ru)
         else if k \<in> {SUB, MUL, QUO, REM} then Some (attr_arith k lt rt lu ru)
         else if k \<in> {SHL, SHR, USHR} then
           Some (if \<not> isIntegral (Promote lu) \<or> \<not> isIntegral (Promote ru) then (errType, [BadBinary k lt rt])
                 else (Promote lu, []))
         else if k \<in> {LSS, GTR, LEQ, GEQ} then
           Some (Basic KindBoolean, if \<not> IsNumeric (Kind lu) \<or> \<not> IsNumeric (Kind ru) then [BadBinary k lt rt] else [])
         else if k \<in> {EQL, NEQ} then
           Option.bind (checkComparable h lt rt lu ru) (\<lambda>es. Some (Basic KindBoolean, es))
         else if k \<in> {AND_OP, OR_OP, XOR_OP} then
           Some (if Kind lu = KindBoolean \<and> Kind ru = KindBoolean then (Basic KindBoolean, [])
                 else if isIntegral (Promote lu) \<and> isIntegral (Promote ru)
                   then (PromoteBinary (Promote lu) (Promote ru), [])
                 else (errType, [BadBinary k lt rt]))
         else if k \<in> {LAND, LOR} then
           Some (Basic KindBoolean,
             if Kind lu \<noteq> KindBoolean \<or> Kind ru \<noteq> KindBoolean then [BadBinary k lt rt] else [])
         else Some (errType, [])))"

section \<open>Folding\<close>

text \<open>Go's arithmetic on \<open>float64\<close> and its conversions, on bit patterns.\<close>

record goFloats =
  f64Add :: "u64 \<Rightarrow> u64 \<Rightarrow> u64"
  f64Sub :: "u64 \<Rightarrow> u64 \<Rightarrow> u64"
  f64Mul :: "u64 \<Rightarrow> u64 \<Rightarrow> u64"
  f64Quo :: "u64 \<Rightarrow> u64 \<Rightarrow> u64"
  f64Neg :: "u64 \<Rightarrow> u64"
  f64Eq :: "u64 \<Rightarrow> u64 \<Rightarrow> bool"
  f64Lt :: "u64 \<Rightarrow> u64 \<Rightarrow> bool"
  f64Le :: "u64 \<Rightarrow> u64 \<Rightarrow> bool"
  f64OfInt :: "int \<Rightarrow> u64"
  f64OfF32 :: "u32 \<Rightarrow> u64"
  f32OfF64 :: "u64 \<Rightarrow> u32"
  parseFloat :: "string \<Rightarrow> u64 option"

record litDecoders =
  parseCharLit :: "string \<Rightarrow> u32 option"
  parseStringLit :: "string \<Rightarrow> string option"
  parseTextBlock :: "string \<Rightarrow> string option"
  constOfVar :: "expr \<Rightarrow> konst option"

definition integerOf :: "konst \<Rightarrow> u64 option" where
  "integerOf k = (case kValue k of Some (CInt v) \<Rightarrow> Some (scast v) | Some (CLong v) \<Rightarrow> Some v | _ \<Rightarrow> None)"

definition floatOf :: "goFloats \<Rightarrow> konst \<Rightarrow> u64 option" where
  "floatOf g k =
     (case kValue k of
        Some (CInt v) \<Rightarrow> Some (f64OfInt g (sint v))
      | Some (CLong v) \<Rightarrow> Some (f64OfInt g (sint v))
      | Some (CFloat v) \<Rightarrow> Some (f64OfF32 g v)
      | Some (CDouble v) \<Rightarrow> Some v
      | _ \<Rightarrow> None)"

text \<open>\<open>strconv.FormatInt\<close> in base ten.\<close>

fun digits_of :: "nat \<Rightarrow> string" where
  "digits_of n = (if n < 10 then [char_of (48 + n)] else digits_of (n div 10) @ [char_of (48 + n mod 10)])"

definition FormatInt :: "int \<Rightarrow> string" where
  "FormatInt i = (if i < 0 then CHR ''-'' # digits_of (nat (- i)) else digits_of (nat i))"

definition stringOf :: "konst \<Rightarrow> string option" where
  "stringOf k =
     (case kValue k of
        Some (CStr s) \<Rightarrow> Some s
      | Some (CBool b) \<Rightarrow> Some (if b then ''true'' else ''false'')
      | Some (CInt v) \<Rightarrow> Some (FormatInt (sint v))
      | Some (CLong v) \<Rightarrow> Some (FormatInt (sint v))
      | _ \<Rightarrow> None)"

definition shiftCount :: "u64 \<Rightarrow> ty \<Rightarrow> nat" where
  "shiftCount r t = (if Kind t = KindLong then unat (r AND 63) else unat (r AND 31))"

definition coerce :: "goFloats \<Rightarrow> konst \<Rightarrow> ty \<Rightarrow> konst" where
  "coerce g k to =
     (case Kind to of
        KindByte \<Rightarrow> (case integerOf k of Some v \<Rightarrow> mk_const (Basic KindByte) (CInt (scast (ucast v :: 8 word))) | None \<Rightarrow> k)
      | KindShort \<Rightarrow> (case integerOf k of Some v \<Rightarrow> mk_const (Basic KindShort) (CInt (scast (ucast v :: 16 word))) | None \<Rightarrow> k)
      | KindChar \<Rightarrow> (case integerOf k of Some v \<Rightarrow> mk_const (Basic KindChar) (CInt (ucast (ucast v :: 16 word))) | None \<Rightarrow> k)
      | KindInt \<Rightarrow> (case integerOf k of Some v \<Rightarrow> mk_const (Basic KindInt) (CInt (ucast v)) | None \<Rightarrow> k)
      | KindLong \<Rightarrow> (case integerOf k of Some v \<Rightarrow> mk_const (Basic KindLong) (CLong v) | None \<Rightarrow> k)
      | KindFloat \<Rightarrow> (case floatOf g k of Some v \<Rightarrow> mk_const (Basic KindFloat) (CFloat (f32OfF64 g v)) | None \<Rightarrow> k)
      | KindDouble \<Rightarrow> (case floatOf g k of Some v \<Rightarrow> mk_const (Basic KindDouble) (CDouble v) | None \<Rightarrow> k)
      | _ \<Rightarrow> k)"

definition negate :: "goFloats \<Rightarrow> konst \<Rightarrow> ty \<Rightarrow> konst option" where
  "negate g k t =
     (case integerOf k of
        Some v \<Rightarrow>
          Some (if Kind t = KindLong then mk_const (Basic KindLong) (CLong (- v))
                else mk_const (Basic KindInt) (CInt (ucast (- v))))
      | None \<Rightarrow>
          (case floatOf g k of
             Some v \<Rightarrow>
               Some (if Kind t = KindFloat then mk_const (Basic KindFloat) (CFloat (f32OfF64 g (f64Neg g v)))
                     else mk_const (Basic KindDouble) (CDouble (f64Neg g v)))
           | None \<Rightarrow> None))"

definition foldUnary :: "goFloats \<Rightarrow> info \<Rightarrow> Token.tkind \<Rightarrow> expr \<Rightarrow> ty \<Rightarrow> konst option" where
  "foldUnary g i op x t =
     (case in_Const i x of
        None \<Rightarrow> None
      | Some k \<Rightarrow>
          if op = ADD then Some (coerce g k t)
          else if op = SUB then negate g k t
          else if op = TILDE then
            (case (k_Int k, Kind t) of
               (Some v, KindInt) \<Rightarrow> Some (mk_const (Basic KindInt) (CInt (NOT v)))
             | _ \<Rightarrow> (case kValue k of Some (CLong v) \<Rightarrow> Some (mk_const (Basic KindLong) (CLong (NOT v))) | _ \<Rightarrow> None))
          else if op = NOT_OP then
            (case kValue k of Some (CBool b) \<Rightarrow> Some (mk_const (Basic KindBoolean) (CBool (\<not> b))) | _ \<Rightarrow> None)
          else None)"

definition bool_const :: "bool \<Rightarrow> konst" where
  "bool_const b = mk_const (Basic KindBoolean) (CBool b)"

definition foldFloat :: "goFloats \<Rightarrow> Token.tkind \<Rightarrow> konst \<Rightarrow> konst \<Rightarrow> ty \<Rightarrow> konst option" where
  "foldFloat g op lk rk t =
     (case (floatOf g lk, floatOf g rk) of
        (Some l, Some r) \<Rightarrow>
          (let result = (\<lambda>v. Some (if Kind t = KindFloat then mk_const (Basic KindFloat) (CFloat (f32OfF64 g v))
                                   else mk_const (Basic KindDouble) (CDouble v))) in
           if op = ADD then result (f64Add g l r)
           else if op = SUB then result (f64Sub g l r)
           else if op = MUL then result (f64Mul g l r)
           else if op = QUO then result (f64Quo g l r)
           else if op = EQL then Some (bool_const (f64Eq g l r))
           else if op = NEQ then Some (bool_const (\<not> f64Eq g l r))
           else if op = LSS then Some (bool_const (f64Lt g l r))
           else if op = GTR then Some (bool_const (f64Lt g r l))
           else if op = LEQ then Some (bool_const (f64Le g l r))
           else if op = GEQ then Some (bool_const (f64Le g r l))
           else None)
      | _ \<Rightarrow> None)"

text \<open>The boolean and the integral part of \<open>foldBinary\<close>. Go's signed division truncates and wraps; its \<open>>>\<close> is arithmetic on a signed
  operand and logical on an unsigned one.\<close>

definition foldBool :: "Token.tkind \<Rightarrow> bool \<Rightarrow> bool \<Rightarrow> konst option" where
  "foldBool op a b =
     (if op = LAND \<or> op = AND_OP then Some (bool_const (a \<and> b))
      else if op = LOR \<or> op = OR_OP then Some (bool_const (a \<or> b))
      else if op = XOR_OP then Some (bool_const (a \<noteq> b))
      else if op = EQL then Some (bool_const (a = b))
      else if op = NEQ then Some (bool_const (a \<noteq> b))
      else None)"

definition foldInt :: "Token.tkind \<Rightarrow> u64 \<Rightarrow> u64 \<Rightarrow> ty \<Rightarrow> konst option" where
  "foldInt op l r t =
     (let result = (\<lambda>v. Some (if Kind t = KindLong then mk_const (Basic KindLong) (CLong v)
                              else mk_const (Basic KindInt) (CInt (ucast v)))) in
      if op = ADD then result (l + r)
      else if op = SUB then result (l - r)
      else if op = MUL then result (l * r)
      else if op = QUO then (if r = 0 then None else result (word_of_int (sint l sdiv sint r)))
      else if op = REM then (if r = 0 then None else result (word_of_int (sint l smod sint r)))
      else if op = AND_OP then result (l AND r)
      else if op = OR_OP then result (l OR r)
      else if op = XOR_OP then result (l XOR r)
      else if op = SHL then result (push_bit (shiftCount r t) l)
      else if op = SHR then result (signed_drop_bit (shiftCount r t) l)
      else if op = USHR then
        (if Kind t = KindLong then result (drop_bit (shiftCount r t) l)
         else result (ucast (drop_bit (shiftCount r t) (ucast l :: u32))))
      else if op = EQL then Some (bool_const (l = r))
      else if op = NEQ then Some (bool_const (l \<noteq> r))
      else if op = LSS then Some (bool_const (sint l < sint r))
      else if op = GTR then Some (bool_const (sint l > sint r))
      else if op = LEQ then Some (bool_const (sint l \<le> sint r))
      else if op = GEQ then Some (bool_const (sint l \<ge> sint r))
      else None)"

definition foldBinary :: "goFloats \<Rightarrow> heap \<Rightarrow> info \<Rightarrow> expr \<Rightarrow> Token.tkind \<Rightarrow> expr \<Rightarrow> ty \<Rightarrow> konst option" where
  "foldBinary g h i x op y t =
     (case (in_Const i x, in_Const i y) of
        (Some lk, Some rk) \<Rightarrow>
          if isString h t then
            (case (stringOf lk, stringOf rk) of
               (Some ls, Some rs) \<Rightarrow> Some (mk_const t (CStr (ls @ rs)))
             | _ \<Rightarrow> None)
          else
            (case kValue lk of
               Some (CBool a) \<Rightarrow>
                 (case kValue rk of Some (CBool b) \<Rightarrow> foldBool op a b | _ \<Rightarrow> None)
             | _ \<Rightarrow>
                 (case (integerOf lk, integerOf rk) of
                    (Some l, Some r) \<Rightarrow> foldInt op l r t
                  | _ \<Rightarrow> foldFloat g op lk rk t))
      | _ \<Rightarrow> None)"

subsection \<open>Literals\<close>

definition trim_right :: "string \<Rightarrow> string \<Rightarrow> string" where
  "trim_right cs s = rev (dropWhile (\<lambda>c. c \<in> set cs) (rev s))"

text \<open>\<open>strconv.ParseUint\<close> for a base between 2 and 36 and 64 bits: at least one digit, digits below the base, no overflow.\<close>

definition digit_val :: "char \<Rightarrow> nat option" where
  "digit_val c =
     (let n = of_char c :: nat in
      if 48 \<le> n \<and> n \<le> 57 then Some (n - 48)
      else if 97 \<le> n \<and> n \<le> 122 then Some (n - 97 + 10)
      else if 65 \<le> n \<and> n \<le> 90 then Some (n - 65 + 10)
      else None)"

fun parse_digits :: "nat \<Rightarrow> nat \<Rightarrow> string \<Rightarrow> nat option" where
  "parse_digits base acc [] = Some acc"
| "parse_digits base acc (c # cs) =
     (case digit_val c of
        None \<Rightarrow> None
      | Some d \<Rightarrow> if base \<le> d \<or> 2 ^ 64 \<le> acc * base + d then None else parse_digits base (acc * base + d) cs)"

definition ParseUint :: "string \<Rightarrow> nat \<Rightarrow> u64 option" where
  "ParseUint s base = (if s = [] then None else map_option of_nat (parse_digits base 0 s))"

definition lit_radix :: "string \<Rightarrow> string \<times> nat" where
  "lit_radix s =
     (if take 2 s = ''0x'' \<or> take 2 s = ''0X'' then (drop 2 s, 16)
      else if take 2 s = ''0b'' \<or> take 2 s = ''0B'' then (drop 2 s, 2)
      else if 1 < length s \<and> hd s = CHR ''0'' then (tl s, 8)
      else (s, 10))"

definition parseIntLit :: "string \<Rightarrow> u64 option" where
  "parseIntLit raw = (case lit_radix (trim_right ''lL'' (filter (\<lambda>c. c \<noteq> CHR ''_'') raw)) of (s, base) \<Rightarrow> ParseUint s base)"

text \<open>\<open>literalValue\<close>. The outer option is the panic of \<open>Slice\<close> on a span outside the text.\<close>

definition literalValue :: "goFloats \<Rightarrow> litDecoders \<Rightarrow> sfile option \<Rightarrow> span \<Rightarrow> Token.tkind \<Rightarrow> ty \<Rightarrow> konst option option" where
  "literalValue g d file sp k t =
     (case file of
        None \<Rightarrow> Some None
      | Some f \<Rightarrow>
          Option.bind (fl_Slice f (spLo sp) (spHi sp)) (\<lambda>raw. Some
            (if k = TRUE then Some (bool_const True)
             else if k = FALSE then Some (bool_const False)
             else if k = NULL then None
             else if k = INT_LIT then
               map_option (\<lambda>v. if Kind t = KindLong then mk_const (Basic KindLong) (CLong v)
                               else mk_const (Basic KindInt) (CInt (ucast v))) (parseIntLit raw)
             else if k = FLOAT_LIT then
               map_option (\<lambda>v. if Kind t = KindFloat then mk_const (Basic KindFloat) (CFloat (f32OfF64 g v))
                               else mk_const (Basic KindDouble) (CDouble v))
                 (parseFloat g (trim_right ''fFdD'' (filter (\<lambda>c. c \<noteq> CHR ''_'') raw)))
             else if k = CHAR_LIT then map_option (\<lambda>r. mk_const (Basic KindChar) (CInt r)) (parseCharLit d raw)
             else if k = STRING_LIT then map_option (\<lambda>s. mk_const t (CStr s)) (parseStringLit d raw)
             else if k = TEXTBLOCK then map_option (\<lambda>s. mk_const t (CStr s)) (parseTextBlock d raw)
             else None)))"

definition constOf :: "goFloats \<Rightarrow> litDecoders \<Rightarrow> heap \<Rightarrow> info \<Rightarrow> sfile option \<Rightarrow> expr \<Rightarrow> konst option option" where
  "constOf g d h i file x =
     (let t = in_Type i x in
      case x of
        BasicLit sp k \<Rightarrow> literalValue g d file sp k t
      | ParenExpr sp y \<Rightarrow> Some (in_Const i y)
      | Ident n \<Rightarrow> Some (constOfVar d x)
      | Name sp ps \<Rightarrow> Some (constOfVar d x)
      | SelectorExpr sp y sel \<Rightarrow> Some (constOfVar d x)
      | UnaryExpr sp op y \<Rightarrow> Some (foldUnary g i op y t)
      | BinaryExpr sp a op b \<Rightarrow> Some (foldBinary g h i a op b t)
      | CondExpr sp c a b \<Rightarrow>
          Some (case in_Const i c of
             None \<Rightarrow> None
           | Some kc \<Rightarrow> (case k_Int kc of None \<Rightarrow> None | Some v \<Rightarrow> if v \<noteq> 0 then in_Const i a else in_Const i b))
      | CastExpr sp ty bs y \<Rightarrow>
          Some (if \<not> isConstantVarType h t then None else map_option (\<lambda>k. coerce g k t) (in_Const i y))
      | _ \<Rightarrow> Some None)"

definition fold_expr :: "goFloats \<Rightarrow> litDecoders \<Rightarrow> heap \<Rightarrow> sfile option \<Rightarrow> expr \<Rightarrow> info \<Rightarrow> info option" where
  "fold_expr g d h file x i =
     Option.bind (constOf g d h i file x) (\<lambda>r.
       Some (case r of
           Some k \<Rightarrow> if k_IsValid k then i\<lparr>inConsts := (inConsts i)(x := Some k)\<rparr> else i
         | None \<Rightarrow> i))"

end
