(* ===== verification/JavaOps.thy ===== *)
theory JavaOps
  imports Token Subtyping "HOL-Library.Signed_Division"
begin

text \<open>
  What the integral and boolean operators of Java mean (JLS 4.2.2, 5.1 and 15.15 to 15.25), as functions on machine words. This is
  the specification that constant folding and code generation are measured against; it models no code of its own.
  A value carries the width it has on the operand stack: everything up to \<open>int\<close> is a word of 32 bits, \<open>boolean\<close> is 0 or 1,
  and floating point values are their bit patterns.
\<close>

unbundle bit_operations_syntax

section \<open>Values\<close>

datatype jval = VI u32 | VL u64 | VF u32 | VD u64 | VA "nat option"

definition jbool :: "bool \<Rightarrow> jval" where
  "jbool b = VI (if b then 1 else 0)"

lemma jbool_simps [simp]: "jbool True = VI 1" "jbool False = VI 0" "jbool a = jbool b \<longleftrightarrow> a = b"
  by (simp_all add: jbool_def)

section \<open>Integral operators\<close>

text \<open>Division and remainder truncate towards zero and wrap; they are undefined for a zero divisor.\<close>

definition jdiv :: "'a::len word \<Rightarrow> 'a word \<Rightarrow> 'a word" where
  "jdiv a b = word_of_int (sint a sdiv sint b)"

definition jrem :: "'a::len word \<Rightarrow> 'a word \<Rightarrow> 'a word" where
  "jrem a b = word_of_int (sint a smod sint b)"

definition jarith :: "Token.tkind \<Rightarrow> 'a::len word \<Rightarrow> 'a word \<Rightarrow> 'a word option" where
  "jarith k a b =
     (if k = ADD then Some (a + b)
      else if k = SUB then Some (a - b)
      else if k = MUL then Some (a * b)
      else if k = QUO then (if b = 0 then None else Some (jdiv a b))
      else if k = REM then (if b = 0 then None else Some (jrem a b))
      else if k = AND_OP then Some (a AND b)
      else if k = OR_OP then Some (a OR b)
      else if k = XOR_OP then Some (a XOR b)
      else None)"

text \<open>A shift by a distance of which the low five or six bits count, which depends on the left operand's width only.\<close>

definition jshift :: "Token.tkind \<Rightarrow> 'a::len word \<Rightarrow> nat \<Rightarrow> 'a word option" where
  "jshift k a n =
     (if k = SHL then Some (push_bit n a)
      else if k = SHR then Some (signed_drop_bit n a)
      else if k = USHR then Some (drop_bit n a)
      else None)"

definition jcmp :: "Token.tkind \<Rightarrow> int \<Rightarrow> int \<Rightarrow> bool option" where
  "jcmp k a b =
     (if k = EQL then Some (a = b)
      else if k = NEQ then Some (a \<noteq> b)
      else if k = LSS then Some (a < b)
      else if k = GTR then Some (a > b)
      else if k = LEQ then Some (a \<le> b)
      else if k = GEQ then Some (a \<ge> b)
      else None)"

section \<open>On values\<close>

fun bin_arith :: "Token.tkind \<Rightarrow> jval \<Rightarrow> jval \<Rightarrow> jval option" where
  "bin_arith k (VI a) (VI b) = map_option VI (jarith k a b)"
| "bin_arith k (VL a) (VL b) = map_option VL (jarith k a b)"
| "bin_arith k _ _ = None"

fun bin_shift :: "Token.tkind \<Rightarrow> jval \<Rightarrow> jval \<Rightarrow> jval option" where
  "bin_shift k (VI a) (VI b) = map_option VI (jshift k a (unat (b AND 31)))"
| "bin_shift k (VL a) (VI b) = map_option VL (jshift k a (unat (b AND 63)))"
| "bin_shift k _ _ = None"

fun jneg :: "jval \<Rightarrow> jval option" where
  "jneg (VI a) = Some (VI (- a))"
| "jneg (VL a) = Some (VL (- a))"
| "jneg _ = None"

fun jcompl :: "jval \<Rightarrow> jval option" where
  "jcompl (VI a) = Some (VI (NOT a))"
| "jcompl (VL a) = Some (VL (NOT a))"
| "jcompl _ = None"

text \<open>The conversions of JLS 5.1.2 and 5.1.3 between integral types. A narrowing from \<open>long\<close> goes through \<open>int\<close>.\<close>

definition int_to :: "Types.tkind \<Rightarrow> u32 \<Rightarrow> u32" where
  "int_to k w =
     (if k = KindByte then scast (ucast w :: 8 word)
      else if k = KindShort then scast (ucast w :: 16 word)
      else if k = KindChar then ucast (ucast w :: 16 word)
      else w)"

fun jconv :: "Types.tkind \<Rightarrow> jval \<Rightarrow> jval" where
  "jconv k (VI a) = (if k = KindLong then VL (scast a) else VI (int_to k a))"
| "jconv k (VL a) = (if k = KindLong then VL a else VI (int_to k (ucast a)))"
| "jconv k v = v"

text \<open>The order of floating point numbers, read off their bits: sign and magnitude, with the two zeros equal. Nothing is
  ordered with a value that is not a number.\<close>

definition f32_nan :: "u32 \<Rightarrow> bool" where
  "f32_nan w \<longleftrightarrow> w AND 0x7FFFFFFF > 0x7F800000"

definition f64_nan :: "u64 \<Rightarrow> bool" where
  "f64_nan w \<longleftrightarrow> w AND 0x7FFFFFFFFFFFFFFF > 0x7FF0000000000000"

definition f32_key :: "u32 \<Rightarrow> int" where
  "f32_key w = (if w < 0x80000000 then uint w else - uint (w - 0x80000000))"

definition f64_key :: "u64 \<Rightarrow> int" where
  "f64_key w = (if w < 0x8000000000000000 then uint w else - uint (w - 0x8000000000000000))"

text \<open>A comparison of two values of one type. With a NaN every operator but \<open>!=\<close> is false.\<close>

fun nan_among :: "jval \<Rightarrow> jval \<Rightarrow> bool" where
  "nan_among (VF a) (VF b) \<longleftrightarrow> f32_nan a \<or> f32_nan b"
| "nan_among (VD a) (VD b) \<longleftrightarrow> f64_nan a \<or> f64_nan b"
| "nan_among _ _ \<longleftrightarrow> False"

fun bin_cmp :: "Token.tkind \<Rightarrow> jval \<Rightarrow> jval \<Rightarrow> bool option" where
  "bin_cmp k (VI a) (VI b) = jcmp k (sint a) (sint b)"
| "bin_cmp k (VL a) (VL b) = jcmp k (sint a) (sint b)"
| "bin_cmp k (VF a) (VF b) =
     (if f32_nan a \<or> f32_nan b then map_option (\<lambda>_. k = NEQ) (jcmp k 0 0) else jcmp k (f32_key a) (f32_key b))"
| "bin_cmp k (VD a) (VD b) =
     (if f64_nan a \<or> f64_nan b then map_option (\<lambda>_. k = NEQ) (jcmp k 0 0) else jcmp k (f64_key a) (f64_key b))"
| "bin_cmp k (VA a) (VA b) = (if k = EQL then Some (a = b) else if k = NEQ then Some (a \<noteq> b) else None)"
| "bin_cmp k _ _ = None"

section \<open>Typed operators\<close>

text \<open>The kinds the operators below are specified for.\<close>

definition int_kinds :: "Types.tkind set" where
  "int_kinds = {KindByte, KindShort, KindChar, KindInt, KindLong}"

definition promoted :: "Types.tkind \<Rightarrow> Types.tkind \<Rightarrow> Types.tkind" where
  "promoted k l = Kind (PromoteBinary (Basic k) (Basic l))"

text \<open>A binary operator on operands of the given kinds, both of which have been evaluated: shifts promote each operand by itself, the others
  both together; the logical operators on booleans are the bitwise ones on 0 and 1.\<close>

definition java_binary :: "Token.tkind \<Rightarrow> Types.tkind \<Rightarrow> Types.tkind \<Rightarrow> jval \<Rightarrow> jval \<Rightarrow> jval option" where
  "java_binary op kl kr a b =
     (if op \<in> {SHL, SHR, USHR} then bin_shift op (jconv (Kind (Promote (Basic kl))) a) (jconv KindInt b)
      else if op \<in> {EQL, NEQ, LSS, GTR, LEQ, GEQ} then
        map_option jbool (bin_cmp op (jconv (promoted kl kr) a) (jconv (promoted kl kr) b))
      else if op = LAND then bin_arith AND_OP a b
      else if op = LOR then bin_arith OR_OP a b
      else bin_arith op (jconv (promoted kl kr) a) (jconv (promoted kl kr) b))"

fun jnot :: "jval \<Rightarrow> jval option" where
  "jnot (VI a) = Some (VI (a XOR 1))"
| "jnot _ = None"

definition java_unary :: "Token.tkind \<Rightarrow> Types.tkind \<Rightarrow> jval \<Rightarrow> jval option" where
  "java_unary op k a =
     (let v = jconv (Kind (Promote (Basic k))) a in
      if op = ADD then Some v
      else if op = SUB then jneg v
      else if op = TILDE then jcompl v
      else if op = NOT_OP then jnot a
      else None)"

end
