(* ===== verification/FoldJava.thy ===== *)
theory FoldJava
  imports Fold JavaOps
begin

text \<open>
  Constant folding computes what Java's operators mean. \<^verbatim>\<open>src/analyzer/attr/fold.go\<close> does all integral arithmetic in 64 bits and
  truncates at the end; the property says that the result is that of the operator at its own width, for every
  operator, with the promotions the types ask for, and that only a division by zero is left unfolded.
\<close>

unbundle bit_operations_syntax

section \<open>Truncation and sign extension\<close>

lemma wi_sint: "word_of_int (sint (x :: 'a::len word)) = x"
  by (simp only: of_int_sint scast_id)

lemma trunc_of_int: "(ucast (word_of_int k :: u64) :: u32) = word_of_int k"
  by transfer simp

lemma sext_of: "(scast (a :: u32) :: u64) = word_of_int (sint a)"
  by (rule scast_eq)

lemma sint_sext [simp]: "sint (scast (a :: u32) :: u64) = sint a"
  by transfer simp

lemma trunc_sext [simp]: "(ucast (scast (a :: u32) :: u64) :: u32) = a"
  by (simp only: sext_of trunc_of_int wi_sint)

lemma sext_inj [simp]: "(scast (a :: u32) :: u64) = scast b \<longleftrightarrow> a = b"
  by (metis trunc_sext)

lemma sext_0 [simp]: "(scast (b :: u32) :: u64) = 0 \<longleftrightarrow> b = 0"
  by (metis trunc_sext scast_0 ucast_0)

lemma trunc_bits:
  "(ucast (a AND b :: u64) :: u32) = ucast a AND ucast b" "(ucast (a OR b :: u64) :: u32) = ucast a OR ucast b"
  "(ucast (a XOR b :: u64) :: u32) = ucast a XOR ucast b" "(ucast (push_bit n a :: u64) :: u32) = push_bit n (ucast a)"
  by (rule bit_word_eqI, auto simp: bit_simps)+

lemma trunc_add: "(ucast (a + b :: u64) :: u32) = ucast a + ucast b"
  by (metis (mono_tags) trunc_of_int of_int_add word_of_int_uint)

lemma trunc_diff: "(ucast (a - b :: u64) :: u32) = ucast a - ucast b"
  by (metis (mono_tags) trunc_of_int of_int_diff word_of_int_uint)

lemma trunc_mult: "(ucast (a * b :: u64) :: u32) = ucast a * ucast b"
  by (metis (mono_tags) trunc_of_int of_int_mult word_of_int_uint)

lemma trunc_minus: "(ucast (- a :: u64) :: u32) = - ucast a"
  by (metis (mono_tags) trunc_of_int of_int_minus word_of_int_uint)

lemma trunc_sar: "(ucast (signed_drop_bit n (scast (a :: u32)) :: u64) :: u32) = signed_drop_bit n a"
  by (metis (mono_tags) trunc_of_int sint_signed_drop_bit_eq sint_sext wi_sint)

lemma trunc_zext: "(ucast (ucast (a :: u32) :: u64) :: u32) = a"
  by transfer simp

lemma sint_eq: "l = r \<longleftrightarrow> sint l = sint r"
  by (metis wi_sint)

lemmas trunc = trunc_zext trunc_bits trunc_add trunc_diff trunc_mult trunc_minus trunc_sar trunc_of_int

lemma shift_counts:
  "unat (r AND 31 :: u64) = unat (ucast r AND 31 :: u32)" "unat (r AND 63 :: u64) = unat (ucast r AND 63 :: u32)"
proof -
  have m: "(31 :: int) = mask 5" "(63 :: int) = mask 6" by (simp_all add: mask_eq_exp_minus_1)
  show "unat (r AND 31 :: u64) = unat (ucast r AND 31 :: u32)" "unat (r AND 63 :: u64) = unat (ucast r AND 63 :: u32)"
    by (transfer, simp add: m flip: take_bit_eq_mask)+
qed

section \<open>Constants as values\<close>

text \<open>The value a constant of a kind stands for; none when the constant's Go type is not the one that kind has.\<close>

fun const_jval :: "Types.tkind \<Rightarrow> cval \<Rightarrow> jval option" where
  "const_jval k (CBool b) = (if k = KindBoolean then Some (jbool b) else None)"
| "const_jval k (CInt v) = (if k \<in> {KindByte, KindShort, KindChar, KindInt} then Some (VI v) else None)"
| "const_jval k (CLong v) = (if k = KindLong then Some (VL v) else None)"
| "const_jval k (CFloat v) = (if k = KindFloat then Some (VF v) else None)"
| "const_jval k (CDouble v) = (if k = KindDouble then Some (VD v) else None)"
| "const_jval k (CStr s) = None"

definition konst_jval :: "Types.tkind \<Rightarrow> konst \<Rightarrow> jval option" where
  "konst_jval k c = Option.bind (kValue c) (const_jval k)"

lemma konst_jval_mk [simp]: "konst_jval k (mk_const t v) = const_jval k v" "konst_jval KindBoolean (bool_const b) = Some (jbool b)"
  by (simp_all add: konst_jval_def bool_const_def)

lemma konst_bool: "konst_jval KindBoolean c = Some v \<Longrightarrow> \<exists>b. kValue c = Some (CBool b) \<and> v = jbool b"
  by (cases "kValue c"; cases "the (kValue c)") (auto simp: konst_jval_def)

lemma konst_int:
  assumes "konst_jval k c = Some v" "k \<in> int_kinds"
  shows "\<exists>l. integerOf c = Some l \<and> kValue c \<noteq> None \<and> (\<forall>b. kValue c \<noteq> Some (CBool b)) \<and>
    (if k = KindLong then v = VL l \<and> kValue c = Some (CLong l) else \<exists>w. v = VI w \<and> l = scast w \<and> kValue c = Some (CInt w))"
  using assms by (cases "kValue c"; cases "the (kValue c)") (auto simp: konst_jval_def integerOf_def int_kinds_def split: if_splits)

section \<open>The operators\<close>

lemma foldInt_cmp:
  assumes "op \<in> {EQL, NEQ, LSS, GTR, LEQ, GEQ}"
  shows "foldInt op l r t = map_option bool_const (jcmp op (sint l) (sint r))"
  using assms by (auto simp: foldInt_def jcmp_def Let_def sint_eq [of l r] sint_eq [of l 0])

lemma foldInt_shift:
  assumes "op \<in> {SHL, SHR, USHR}"
  shows "Option.bind (foldInt op l r (Basic KindLong)) (konst_jval KindLong) = map_option VL (jshift op l (unat (r AND 63)))"
    and "Option.bind (foldInt op (scast a) r (Basic KindInt)) (konst_jval KindInt) = map_option VI (jshift op a (unat (r AND 31)))"
  using assms by (auto simp: foldInt_def jshift_def Let_def shiftCount_def trunc)

lemma foldInt_arith:
  assumes "op \<notin> {SHL, SHR, USHR}" "op \<notin> {EQL, NEQ, LSS, GTR, LEQ, GEQ}"
  shows "Option.bind (foldInt op l r (Basic KindLong)) (konst_jval KindLong) = map_option VL (jarith op l r)"
    and "Option.bind (foldInt op (scast a) (scast b) (Basic KindInt)) (konst_jval KindInt) = map_option VI (jarith op a b)"
  using assms by (auto simp: foldInt_def jarith_def Let_def jdiv_def jrem_def trunc)

section \<open>Folding is evaluation\<close>

abbreviation (input) "shift_ops \<equiv> {SHL, SHR, USHR}"

abbreviation (input) "cmp_ops \<equiv> {EQL, NEQ, LSS, GTR, LEQ, GEQ}"

abbreviation (input) "arith_ops \<equiv> {ADD, SUB, MUL, QUO, REM, AND_OP, OR_OP, XOR_OP}"

lemma basic_types [simp]:
  "unboxed h (Basic k) = Basic k" "isString h (Basic k) \<longleftrightarrow> False" "IsError (Some (Basic k)) \<longleftrightarrow> k = KindError"
  by (simp_all add: unboxed_def isString_def IsError_def)

lemma promoted_int: "kl \<in> int_kinds \<Longrightarrow> kr \<in> int_kinds \<Longrightarrow>
    promoted kl kr = (if kl = KindLong \<or> kr = KindLong then KindLong else KindInt)"
  by (auto simp: promoted_def PromoteBinary_def int_kinds_def)

lemma promote_int: "k \<in> int_kinds \<Longrightarrow> Promote (Basic k) = Basic (if k = KindLong then KindLong else KindInt)"
  by (auto simp: Promote_def int_kinds_def)

lemma int_kinds_numeric [simp]: "k \<in> int_kinds \<Longrightarrow> IsNumeric k" "k \<in> int_kinds \<Longrightarrow> k \<noteq> KindError" "k \<in> int_kinds \<Longrightarrow> k \<noteq> KindBoolean"
  by (auto simp: int_kinds_def IsNumeric_def)

lemma promote_both:
  "kl \<in> int_kinds \<Longrightarrow> kr \<in> int_kinds \<Longrightarrow> PromoteBinary (Promote (Basic kl)) (Promote (Basic kr)) = Basic (promoted kl kr)"
  by (auto simp: promote_int promoted_int PromoteBinary_def)

lemma attr_binary_int:
  assumes "attr_binary h op (Basic kl) (Basic kr) = Some (t, [])" "kl \<in> int_kinds" "kr \<in> int_kinds"
  shows "op \<in> shift_ops \<Longrightarrow> t = Promote (Basic kl)" "op \<in> cmp_ops \<Longrightarrow> t = Basic KindBoolean"
    "op \<in> arith_ops \<Longrightarrow> t = Basic (promoted kl kr)" "op \<noteq> LAND" "op \<noteq> LOR"
  using assms by (auto simp: attr_binary_def attr_arith_def checkComparable_def promote_both Let_def split: if_splits)

lemma attr_binary_bool:
  assumes "attr_binary h op (Basic KindBoolean) (Basic KindBoolean) = Some (t, [])"
  shows "op \<notin> shift_ops" "op \<notin> {ADD, SUB, MUL, QUO, REM, LSS, GTR, LEQ, GEQ}"
    "op \<in> {AND_OP, OR_OP, XOR_OP, LAND, LOR, EQL, NEQ} \<Longrightarrow> t = Basic KindBoolean"
  using assms by (auto simp: attr_binary_def attr_arith_def checkComparable_def isIntegral_def Promote_def
      IsIntegral_def IsNumeric_def Let_def split: if_splits)

lemma boolean_types [simp]:
  "\<not> IsNumeric KindBoolean" "Promote (Basic KindBoolean) = Basic KindBoolean" "\<not> isIntegral (Basic KindBoolean)"
  "\<not> IsReference (Basic KindBoolean)"
  by (simp_all add: IsNumeric_def Promote_def isIntegral_def IsIntegral_def IsReference_def)

lemma attr_binary_mixed:
  assumes "attr_binary h op (Basic kl) (Basic kr) = Some (t, [])" "kl = KindBoolean \<and> kr \<in> int_kinds \<or> kl \<in> int_kinds \<and> kr = KindBoolean"
  shows "op \<notin> shift_ops \<union> cmp_ops \<union> arith_ops \<union> {LAND, LOR}"
proof -
  have "op \<noteq> k" if "k \<in> shift_ops \<union> cmp_ops \<union> arith_ops \<union> {LAND, LOR}" for k
    using that assms by (elim UnE insertE emptyE; elim disjE conjE) (auto simp: attr_binary_def attr_arith_def checkComparable_def Let_def)
  then show ?thesis by blast
qed

lemma attr_binary_other:
  assumes "op \<notin> shift_ops \<union> cmp_ops \<union> arith_ops \<union> {LAND, LOR}" "attr_binary h op (Basic kl) (Basic kr) = Some (t, [])"
  shows "t = errType"
  using assms by (simp add: attr_binary_def split: if_splits)

lemma not_string_err [simp]: "\<not> isString h errType"
  by (simp add: isString_def errType_def)

lemma no_operator:
  assumes "op \<notin> shift_ops \<union> cmp_ops \<union> arith_ops \<union> {LAND, LOR}"
  shows "java_binary op kl kr a b = None" "foldInt op l r t = None" "foldBool op p q = None"
proof -
  have "jarith op x y = None" for x y :: "'a::len word" using assms by (simp add: jarith_def)
  then have "bin_arith op v w = None" for v w using assms by (cases "(op, v, w)" rule: bin_arith.cases) (simp_all add: jarith_def)
  then show "java_binary op kl kr a b = None" using assms by (simp add: java_binary_def)
  show "foldInt op l r t = None" "foldBool op p q = None" using assms by (simp_all add: foldInt_def foldBool_def)
qed

lemma fold_ints:
  assumes c: "in_Const i x = Some lk" "konst_jval kl lk = Some a" "in_Const i y = Some rk" "konst_jval kr rk = Some b"
    and t: "attr_binary h op (Basic kl) (Basic kr) = Some (t, [])" and k: "kl \<in> int_kinds" "kr \<in> int_kinds"
  shows "Option.bind (foldBinary g h i x op y t) (konst_jval (Kind t)) = java_binary op kl kr a b"
proof -
  obtain l where l: "integerOf lk = Some l" "kValue lk \<noteq> None" "\<And>b. kValue lk \<noteq> Some (CBool b)"
      "if kl = KindLong then a = VL l else \<exists>w. a = VI w \<and> l = scast w"
    using konst_int [OF c(2) k(1)] by (auto split: if_splits)
  obtain r where r: "integerOf rk = Some r" "if kr = KindLong then b = VL r else \<exists>w. b = VI w \<and> r = scast w"
    using konst_int [OF c(4) k(2)] by (auto split: if_splits)
  show ?thesis
  proof (cases "op \<in> shift_ops \<union> cmp_ops \<union> arith_ops")
    case False
    then have o: "op \<notin> shift_ops \<union> cmp_ops \<union> arith_ops \<union> {LAND, LOR}" using attr_binary_int(4,5) [OF t k] by blast
    note n = no_operator [OF this]
    have "t = errType" by (rule attr_binary_other [OF o t])
    then have "foldBinary g h i x op y t = foldInt op l r t"
      using c(1,3) l r by (auto simp: foldBinary_def split: option.split cval.split)
    then show ?thesis by (simp add: n)
  next
    case True
    have "\<exists>k. t = Basic k" using True attr_binary_int(1-3) [OF t k] by (auto simp: promote_int [OF k(1)])
    then have f: "foldBinary g h i x op y t = foldInt op l r t"
      using c(1,3) l(1-3) r(1) by (auto simp: foldBinary_def split: option.split cval.split)
    consider (shift) "op \<in> shift_ops" | (cmp) "op \<in> cmp_ops" | (arith) "op \<in> arith_ops" using True by blast
    then show ?thesis
    proof cases
      case shift
      then show ?thesis
        using l(4) r(2) foldInt_shift [OF shift] attr_binary_int(1) [OF t k shift] f
        by (auto simp: java_binary_def promote_int [OF k(1)] shift_counts int_to_def split: if_splits)
    next
      case cmp
      have "bin_cmp op (jconv (promoted kl kr) a) (jconv (promoted kl kr) b) = jcmp op (sint l) (sint r)"
        using l(4) r(2) by (auto simp: promoted_int [OF k] int_to_def split: if_splits)
      then show ?thesis
        using f foldInt_cmp [OF cmp, of l r t] attr_binary_int(2) [OF t k cmp] cmp
        by (cases "jcmp op (sint l) (sint r)") (auto simp: java_binary_def)
    next
      case arith
      have n: "op \<notin> shift_ops" "op \<notin> cmp_ops" "op \<noteq> LAND" "op \<noteq> LOR" using arith by auto
      then show ?thesis
        using l(4) r(2) f foldInt_arith [OF n(1,2)] attr_binary_int(3) [OF t k arith]
        by (auto simp: java_binary_def promoted_int [OF k] int_to_def split: if_splits)
    qed
  qed
qed

lemma fold_bools:
  assumes c: "in_Const i x = Some lk" "konst_jval KindBoolean lk = Some a" "in_Const i y = Some rk" "konst_jval KindBoolean rk = Some b"
    and t: "attr_binary h op (Basic KindBoolean) (Basic KindBoolean) = Some (t, [])"
  shows "Option.bind (foldBinary g h i x op y t) (konst_jval (Kind t)) = java_binary op KindBoolean KindBoolean a b"
proof -
  obtain p where p: "kValue lk = Some (CBool p)" "a = jbool p" using konst_bool [OF c(2)] by blast
  obtain q where q: "kValue rk = Some (CBool q)" "b = jbool q" using konst_bool [OF c(4)] by blast
  show ?thesis
  proof (cases "op \<in> {AND_OP, OR_OP, XOR_OP, LAND, LOR, EQL, NEQ}")
    case True
    then have t': "t = Basic KindBoolean" by (rule attr_binary_bool(3) [OF t])
    then have "foldBinary g h i x op y t = foldBool op p q" using c(1,3) p q by (simp add: foldBinary_def)
    moreover have "promoted KindBoolean KindBoolean = KindInt" by (simp add: promoted_def PromoteBinary_def)
    ultimately show ?thesis using True p q t'
      by (cases p; cases q) (auto simp: foldBool_def java_binary_def jarith_def jcmp_def int_to_def)
  next
    case False
    then have o: "op \<notin> shift_ops \<union> cmp_ops \<union> arith_ops \<union> {LAND, LOR}" using attr_binary_bool(1,2) [OF t] by blast
    then have "t = errType" using attr_binary_other t by blast
    then have "foldBinary g h i x op y t = foldBool op p q" using c(1,3) p q by (simp add: foldBinary_def)
    then show ?thesis by (simp add: no_operator [OF o])
  qed
qed

lemma fold_mixed:
  assumes c: "in_Const i x = Some lk" "konst_jval kl lk = Some a" "in_Const i y = Some rk" "konst_jval kr rk = Some b"
    and t: "attr_binary h op (Basic kl) (Basic kr) = Some (t, [])"
    and k: "kl = KindBoolean \<and> kr \<in> int_kinds \<or> kl \<in> int_kinds \<and> kr = KindBoolean"
  shows "Option.bind (foldBinary g h i x op y t) (konst_jval (Kind t)) = java_binary op kl kr a b"
proof -
  have o: "op \<notin> shift_ops \<union> cmp_ops \<union> arith_ops \<union> {LAND, LOR}" by (rule attr_binary_mixed [OF t k])
  have "foldBinary g h i x op y t = None"
    using k
  proof (elim disjE conjE)
    assume "kl = KindBoolean" "kr \<in> int_kinds"
    then show ?thesis
      using konst_bool [of lk a] konst_int [of kr rk b] c attr_binary_other [OF o t]
      by (auto simp: foldBinary_def split: option.split cval.split if_splits)
  next
    assume "kl \<in> int_kinds" "kr = KindBoolean"
    then show ?thesis
      using konst_bool [of rk b] konst_int [of kl lk a] c attr_binary_other [OF o t]
      by (auto simp: foldBinary_def integerOf_def foldFloat_def floatOf_def split: option.split cval.split if_splits)
  qed
  then show ?thesis by (simp add: no_operator [OF o])
qed

lemma fold_unaries:
  assumes c: "in_Const i x = Some lk" "konst_jval k lk = Some a" and k: "k \<in> insert KindBoolean int_kinds"
    and u: "attr_unary h op (Basic k) = (t, [])" "op \<in> {ADD, SUB, TILDE, NOT_OP}"
  shows "Option.bind (foldUnary g i op x t) (konst_jval (Kind t)) = java_unary op k a"
proof (cases "k = KindBoolean")
  case True
  then obtain p where p: "kValue lk = Some (CBool p)" "a = jbool p" using konst_bool c(2) by blast
  have "op = NOT_OP" "t = Basic KindBoolean" using u True by (auto simp: attr_unary_def Let_def split: if_splits)
  then show ?thesis using p c(1) by (cases p) (simp_all add: foldUnary_def java_unary_def)
next
  case False
  then have k': "k \<in> int_kinds" using k by simp
  obtain l where l: "integerOf lk = Some l" "if k = KindLong then a = VL l \<and> kValue lk = Some (CLong l)
      else \<exists>w. a = VI w \<and> l = scast w \<and> kValue lk = Some (CInt w)"
    using konst_int [OF c(2) k'] by (auto split: if_splits)
  have "op \<noteq> NOT_OP" "t = Promote (Basic k)" using u False k' by (auto simp: attr_unary_def Let_def split: if_splits)
  then show ?thesis using u(2) c(1) l
    by (auto simp: foldUnary_def java_unary_def promote_int [OF k'] coerce_def negate_def k_Int_def trunc int_to_def split: if_splits)
qed

lemma coerce_conv:
  assumes "konst_jval k lk = Some a" "k \<in> int_kinds" "kc \<in> int_kinds"
  shows "konst_jval kc (coerce g lk (Basic kc)) = Some (jconv kc a)"
proof -
  obtain l where l: "integerOf lk = Some l" "if k = KindLong then a = VL l \<and> kValue lk = Some (CLong l)
      else \<exists>w. a = VI w \<and> l = scast w \<and> kValue lk = Some (CInt w)"
    using konst_int [OF assms(1,2)] by (auto split: if_splits)
  have n: "(ucast (ucast l :: u32) :: 8 word) = ucast l" "(ucast (ucast l :: u32) :: 16 word) = ucast l" by (transfer, simp)+
  have "kc = KindByte \<or> kc = KindShort \<or> kc = KindChar \<or> kc = KindInt \<or> kc = KindLong" using assms(3) by (simp add: int_kinds_def)
  then show ?thesis using l n by (elim disjE) (auto simp: coerce_def int_to_def split: if_splits)
qed

text \<open>C10: constant folding computes Java's operators. For two constant operands of boolean or integral type, and whatever
  operator attribution types without an error, \<open>foldBinary\<close> gives the constant of the value the operator has at its
  own width, with the promotions of JLS 5.6, although the code computes in 64 bits and truncates; it gives none
  exactly when the operator has no value, which is division and remainder by zero. The same holds for the unary
  operators, and a cast between integral types is the narrowing or widening of JLS 5.1.\<close>

theorem folding_is_java:
  assumes "in_Const i x = Some lk" "konst_jval kl lk = Some a" "kl \<in> insert KindBoolean int_kinds"
    and "in_Const i y = Some rk" "konst_jval kr rk = Some b" "kr \<in> insert KindBoolean int_kinds"
    and "attr_binary h op (Basic kl) (Basic kr) = Some (t, [])"
    and "attr_unary h uop (Basic kl) = (u, [])" "uop \<in> {ADD, SUB, TILDE, NOT_OP}"
    and "konst_jval kz ck = Some c" "kz \<in> int_kinds" "kc \<in> int_kinds"
  shows "Option.bind (foldBinary g h i x op y t) (konst_jval (Kind t)) = java_binary op kl kr a b \<and>
    Option.bind (foldUnary g i uop x u) (konst_jval (Kind u)) = java_unary uop kl a \<and>
    konst_jval kc (coerce g ck (Basic kc)) = Some (jconv kc c)"
proof (intro conjI)
  show "Option.bind (foldBinary g h i x op y t) (konst_jval (Kind t)) = java_binary op kl kr a b"
    using assms fold_ints [of i x lk kl a y rk kr b h op t g] fold_mixed [of i x lk kl a y rk kr b h op t g]
      fold_bools [of i x lk a y rk b h op t g] by auto
qed (use assms fold_unaries coerce_conv in blast)+

text \<open>The constant \<open>1 << 33L\<close>, and the cast of 128 to a byte.\<close>

definition lit_node :: "nat \<Rightarrow> expr" where
  "lit_node n = BasicLit \<lparr>spLo = of_nat n, spHi = of_nat n + 1\<rparr> INT_LIT"

definition two_consts :: info where
  "two_consts = \<lparr>inTypes = (\<lambda>x. None), inNodeTypes = (\<lambda>x. None), inUses = (\<lambda>x. None),
     inConsts = (\<lambda>x. if x = lit_node 1 then Some (mk_const (Basic KindInt) (CInt 1))
       else if x = lit_node 2 then Some (mk_const (Basic KindLong) (CLong 33)) else None)\<rparr>"

definition some_floats :: goFloats where
  "some_floats = \<lparr>f64Add = (\<lambda>a b. a), f64Sub = (\<lambda>a b. a), f64Mul = (\<lambda>a b. a), f64Quo = (\<lambda>a b. a), f64Neg = (\<lambda>a. a),
     f64Eq = (\<lambda>a b. a = b), f64Lt = (\<lambda>a b. a < b), f64Le = (\<lambda>a b. a \<le> b), f64OfInt = (\<lambda>k. of_int k), f64OfF32 = ucast,
     f32OfF64 = ucast, parseFloat = (\<lambda>s. None)\<rparr>"

definition no_classes :: heap where
  "no_classes = \<lparr>hClasses = [], hVars = [], hParams = [], hTable = []\<rparr>"

theorem folding_is_java_witness:
  "Option.bind (foldBinary some_floats no_classes two_consts (lit_node 1) SHL (lit_node 2) (Basic KindInt)) (konst_jval KindInt) = Some (VI 2) \<and>
    konst_jval KindByte (coerce some_floats (mk_const (Basic KindInt) (CInt 128)) (Basic KindByte)) = Some (VI (- 128))"
proof -
  have ne: "lit_node 2 \<noteq> lit_node 1" by (simp add: lit_node_def)
  have c: "in_Const two_consts (lit_node 1) = Some (mk_const (Basic KindInt) (CInt 1))"
    "in_Const two_consts (lit_node 2) = Some (mk_const (Basic KindLong) (CLong 33))"
    using ne by (simp_all add: in_Const_def two_consts_def k_IsValid_def)
  have t: "attr_binary no_classes SHL (Basic KindInt) (Basic KindLong) = Some (Basic KindInt, [])"
    by (simp add: attr_binary_def isIntegral_def IsIntegral_def Promote_def)
  have u: "attr_unary no_classes SUB (Basic KindInt) = (Basic KindInt, [])"
    by (simp add: attr_unary_def Promote_def IsNumeric_def)
  have v: "java_binary SHL KindInt KindLong (VI 1) (VL 33) = Some (VI 2)" "jconv KindByte (VI 128) = VI (- 128)"
    by (simp_all add: java_binary_def Promote_def jshift_def int_to_def)
  show ?thesis
    using folding_is_java [OF c(1) _ _ c(2) _ _ t u, of "VI 1" "VL 33" KindInt "mk_const (Basic KindInt) (CInt 128)" "VI 128" KindByte some_floats] v
    by (simp add: int_kinds_def)
qed

end
