(* ===== verification/Lower.thy ===== *)
theory Lower
  imports Fold CodeWriter
begin

text \<open>
  Code generation for expressions, first part: local variable slots (\<^verbatim>\<open>src/lower/slot.go\<close>), the emitter (\<^verbatim>\<open>src/lower/stmt.go\<close>),
  conversions (\<^verbatim>\<open>src/lower/convert.go\<close>), items (\<^verbatim>\<open>src/lower/item.go\<close>) and the choice of opcodes (\<^verbatim>\<open>src/lower/expr.go\<close>). The emitter drives a
  \<open>CodeWriter\<close> inside the closure it passes to \<open>MethodBuilder.Code\<close>; what it does there is the sequence of calls, the \<open>code_op\<close>s
  that \<open>run_body\<close> replays. A panic of \<open>bug\<close> is \<open>Bug\<close>; \<open>Stuck\<close> is a walk over cyclic bounds, or a recursion, that does not return.
\<close>

section \<open>Slots\<close>

type_synonym vsym = nat

type_synonym msym = nat

record slotMap =
  smOf :: "vsym \<Rightarrow> nat option"
  smNext :: nat
  smMax :: nat

definition newSlotMap :: slotMap where
  "newSlotMap = \<lparr>smOf = (\<lambda>v. None), smNext = 0, smMax = 0\<rparr>"

definition slot_reserve :: "nat \<Rightarrow> slotMap \<Rightarrow> nat \<times> slotMap" where
  "slot_reserve n s = (smNext s, s\<lparr>smNext := smNext s + n, smMax := max (smMax s) (smNext s + n)\<rparr>)"

definition slot_declare :: "vsym \<Rightarrow> ty \<Rightarrow> slotMap \<Rightarrow> nat \<times> slotMap" where
  "slot_declare v t s =
     (case slot_reserve (if Types.Slots t < 1 then 1 else Types.Slots t) s of
        (at', s1) \<Rightarrow> (at', s1\<lparr>smOf := (smOf s1)(v := Some at')\<rparr>))"

definition slot_has :: "vsym \<Rightarrow> slotMap \<Rightarrow> bool" where
  "slot_has v s \<longleftrightarrow> smOf s v \<noteq> None"

definition slot_mark :: "slotMap \<Rightarrow> nat" where
  "slot_mark s = smNext s"

definition slot_release :: "nat \<Rightarrow> slotMap \<Rightarrow> slotMap" where
  "slot_release m s = s\<lparr>smNext := m\<rparr>"

section \<open>The emitter\<close>

text \<open>What emission changes: the calls made so far, the number of labels allocated, the slots, and whether the point
  is reachable.\<close>

record emitter =
  emCode :: "code_op list"
  emLabels :: nat
  emSlots :: slotMap
  emAlive :: bool

datatype 'a out = Ret 'a emitter | Bug string | Stuck

type_synonym 'a emit = "emitter \<Rightarrow> 'a out"

definition ret :: "'a \<Rightarrow> 'a emit" where
  "ret x e = Ret x e"

definition em_bind :: "'a emit \<Rightarrow> ('a \<Rightarrow> 'b emit) \<Rightarrow> 'b emit" where
  "em_bind a f e = (case a e of Ret x e1 \<Rightarrow> f x e1 | Bug s \<Rightarrow> Bug s | Stuck \<Rightarrow> Stuck)"

primrec seqs :: "unit emit list \<Rightarrow> unit emit" where
  "seqs [] = ret ()"
| "seqs (a # as) = em_bind a (\<lambda>_. seqs as)"

definition bug :: "string \<Rightarrow> 'a emit" where
  "bug msg e = Bug (''lower: '' @ msg)"

definition lift :: "'a option \<Rightarrow> 'a emit" where
  "lift x = (case x of Some y \<Rightarrow> ret y | None \<Rightarrow> (\<lambda>e. Stuck))"

text \<open>One call on the writer, and a call of \<open>NewLabel\<close>.\<close>

definition call1 :: "code_op \<Rightarrow> unit emit" where
  "call1 c e = Ret () (e\<lparr>emCode := emCode e @ [c]\<rparr>)"

definition newLabel :: "label_id emit" where
  "newLabel e = Ret (emLabels e) (e\<lparr>emCode := emCode e @ [DoNewLabel], emLabels := emLabels e + 1\<rparr>)"

definition set_alive :: "bool \<Rightarrow> unit emit" where
  "set_alive b e = Ret () (e\<lparr>emAlive := b\<rparr>)"

definition em_mark :: "label_id \<Rightarrow> unit emit" where
  "em_mark l = seqs [call1 (DoMark l), set_alive True]"

definition opc :: "opcode \<Rightarrow> unit emit" where
  "opc o' = call1 (DoOp o')"

text \<open>\<open>e.slots.slot\<close>, which panics on a variable that pass one forgot, and \<open>e.slots.declare\<close>.\<close>

definition em_slot :: "vsym \<Rightarrow> nat emit" where
  "em_slot v e = (case smOf (emSlots e) v of Some n \<Rightarrow> Ret n e | None \<Rightarrow> Bug ''lower: no slot assigned'')"

definition em_declare :: "vsym \<Rightarrow> ty \<Rightarrow> nat emit" where
  "em_declare v t e = (case slot_declare v t (emSlots e) of (n, s) \<Rightarrow> Ret n (e\<lparr>emSlots := s\<rparr>))"

section \<open>What emission reads\<close>

text \<open>Symbols are pointers; the tables say what code generation reads of them. The types of fields and methods come from
  the type table, the captures, accessors and lambdas from pass one.\<close>

datatype varKind = VarField | VarLocal | VarParam | VarRecordComponent | VarEnumConstant | VarExceptionParam | VarResource | VarBinding

type_synonym sflags = u32

record varSym =
  vsName :: string
  vsVar :: varKind
  vsFlags :: sflags
  vsClass :: "csym option"

record methodSym =
  mdName :: string
  mdFlags :: sflags
  mdClass :: csym
  mdDescriptor :: string

record classSym =
  clFlags :: sflags
  clOuter :: "csym option"

record captureField =
  cpLocal :: vsym
  cpName :: string
  cpDesc :: string

record accessorRec =
  acName :: string
  acOwner :: string
  acDesc :: string

record lambdaRec =
  lrNode :: expr
  lrBinary :: string
  lrInStatic :: bool
  lrCaptures :: "vsym list"

record lowCtx =
  lcInfo :: info
  lcFloats :: goFloats
  lcHeap :: heap
  lcFieldType :: "vsym \<Rightarrow> ty"
  lcMethodType :: "msym \<Rightarrow> methodType"
  lcVar :: "vsym \<Rightarrow> varSym"
  lcMethod :: "msym \<Rightarrow> methodSym"
  lcClass :: "csym \<Rightarrow> classSym"
  lcPattern :: "node_ref \<Rightarrow> (node_ref \<times> ident) option"
  lcNameText :: "span \<Rightarrow> string"
  lcSelf :: csym
  lcCaptures :: "captureField list"
  lcThisField :: string
  lcAccessors :: "string \<Rightarrow> accessorRec option"
  lcLambdas :: "lambdaRec list"

definition cx_Type :: "lowCtx \<Rightarrow> expr \<Rightarrow> ty" where
  "cx_Type cx x = in_Type (lcInfo cx) x"

definition cx_Const :: "lowCtx \<Rightarrow> expr \<Rightarrow> konst option" where
  "cx_Const cx x = in_Const (lcInfo cx) x"

definition cx_Use :: "lowCtx \<Rightarrow> expr \<Rightarrow> symbol option" where
  "cx_Use cx x = in_Use (lcInfo cx) x"

abbreviation (input) FlagPrivate :: sflags where "FlagPrivate \<equiv> 2"

abbreviation (input) FlagStatic :: sflags where "FlagStatic \<equiv> 8"

abbreviation (input) FlagInterface :: sflags where "FlagInterface \<equiv> 16384"

abbreviation (input) FlagVarargs :: sflags where "FlagVarargs \<equiv> 262144"

definition sHas :: "sflags \<Rightarrow> sflags \<Rightarrow> bool" where
  "sHas f b \<longleftrightarrow> f AND b = b"

definition captureOf :: "lowCtx \<Rightarrow> vsym \<Rightarrow> captureField option" where
  "captureOf cx v = List.find (\<lambda>c. cpLocal c = v) (lcCaptures cx)"

definition lambdaFor :: "lowCtx \<Rightarrow> expr \<Rightarrow> lambdaRec option" where
  "lambdaFor cx x = List.find (\<lambda>r. lrNode r = x) (lcLambdas cx)"

section \<open>Conversions\<close>

text \<open>\<open>primitive\<close> for a source that is an int on the stack, and in general.\<close>

definition prim_int :: "Types.tkind \<Rightarrow> unit emit" where
  "prim_int to =
     (case to of
        KindLong \<Rightarrow> opc I2l
      | KindFloat \<Rightarrow> opc I2f
      | KindDouble \<Rightarrow> opc I2d
      | KindByte \<Rightarrow> opc I2b
      | KindChar \<Rightarrow> opc I2c
      | KindShort \<Rightarrow> opc I2s
      | KindInt \<Rightarrow> ret ()
      | KindBoolean \<Rightarrow> ret ()
      | _ \<Rightarrow> bug ''no int conversion'')"

definition primitive :: "Types.tkind \<Rightarrow> Types.tkind \<Rightarrow> unit emit" where
  "primitive from to =
     (if from = to then ret ()
      else if from \<in> {KindBoolean, KindByte, KindShort, KindChar, KindInt} then prim_int to
      else if from = KindLong then
        (case to of
           KindInt \<Rightarrow> opc L2i
         | KindFloat \<Rightarrow> opc L2f
         | KindDouble \<Rightarrow> opc L2d
         | KindByte \<Rightarrow> seqs [opc L2i, prim_int to]
         | KindShort \<Rightarrow> seqs [opc L2i, prim_int to]
         | KindChar \<Rightarrow> seqs [opc L2i, prim_int to]
         | _ \<Rightarrow> bug ''no long conversion'')
      else if from = KindFloat then
        (case to of
           KindInt \<Rightarrow> opc F2i
         | KindLong \<Rightarrow> opc F2l
         | KindDouble \<Rightarrow> opc F2d
         | KindByte \<Rightarrow> seqs [opc F2i, prim_int to]
         | KindShort \<Rightarrow> seqs [opc F2i, prim_int to]
         | KindChar \<Rightarrow> seqs [opc F2i, prim_int to]
         | _ \<Rightarrow> bug ''no float conversion'')
      else if from = KindDouble then
        (case to of
           KindInt \<Rightarrow> opc D2i
         | KindLong \<Rightarrow> opc D2l
         | KindFloat \<Rightarrow> opc D2f
         | KindByte \<Rightarrow> seqs [opc D2i, prim_int to]
         | KindShort \<Rightarrow> seqs [opc D2i, prim_int to]
         | KindChar \<Rightarrow> seqs [opc D2i, prim_int to]
         | _ \<Rightarrow> bug ''no double conversion'')
      else bug ''no conversion'')"

text \<open>The wrapper of a kind, the descriptor of its \<open>valueOf\<close>, and its accessor with descriptor.\<close>

definition boxes :: "Types.tkind \<rightharpoonup> string \<times> string \<times> string \<times> string" where
  "boxes = map_of
     [(KindBoolean, ''java/lang/Boolean'', ''(Z)Ljava/lang/Boolean;'', ''booleanValue'', ''()Z''),
      (KindByte, ''java/lang/Byte'', ''(B)Ljava/lang/Byte;'', ''byteValue'', ''()B''),
      (KindShort, ''java/lang/Short'', ''(S)Ljava/lang/Short;'', ''shortValue'', ''()S''),
      (KindChar, ''java/lang/Character'', ''(C)Ljava/lang/Character;'', ''charValue'', ''()C''),
      (KindInt, ''java/lang/Integer'', ''(I)Ljava/lang/Integer;'', ''intValue'', ''()I''),
      (KindLong, ''java/lang/Long'', ''(J)Ljava/lang/Long;'', ''longValue'', ''()J''),
      (KindFloat, ''java/lang/Float'', ''(F)Ljava/lang/Float;'', ''floatValue'', ''()F''),
      (KindDouble, ''java/lang/Double'', ''(D)Ljava/lang/Double;'', ''doubleValue'', ''()D'')]"

definition box :: "ty \<Rightarrow> unit emit" where
  "box t = (case boxes (Kind t) of
     None \<Rightarrow> bug ''cannot box'' | Some (owner, d, _, _) \<Rightarrow> call1 (DoInvoke IStatic owner ''valueOf'' d))"

definition unbox :: "ty \<Rightarrow> unit emit" where
  "unbox to = (case boxes (Kind to) of
     None \<Rightarrow> bug ''cannot unbox''
   | Some (owner, _, acc, d) \<Rightarrow> seqs [call1 (DoCheckCast owner), call1 (DoInvoke IVirtual owner acc d)])"

text \<open>\<open>castTarget\<close> calls itself on the erasure of a type variable or an intersection, so it is partial.\<close>

partial_function (option) castTarget :: "heap \<Rightarrow> ty \<Rightarrow> string option" where
  "castTarget h t =
     (case t of
        ClassType s args outer \<Rightarrow> Some (class_Binary h s)
      | ArrayType e \<Rightarrow> map_option type_string (Descriptor h t)
      | TypeVar v \<Rightarrow> Option.bind (Erase h t) (castTarget h)
      | Intersection bs \<Rightarrow> Option.bind (Erase h t) (castTarget h)
      | _ \<Rightarrow> Some [])"

definition refConvert :: "lowCtx \<Rightarrow> ty \<Rightarrow> ty \<Rightarrow> unit emit" where
  "refConvert cx from to =
     (if Kind to = KindNull \<or> IsError (Some to) \<or> Kind from = KindNull \<or> IsError (Some from) then ret ()
      else em_bind (lift (IsSubtype (lcHeap cx) (Some from) (Some to))) (\<lambda>sub.
        if sub then ret ()
        else em_bind (lift (castTarget (lcHeap cx) to)) (\<lambda>name.
          if name = [] then ret () else call1 (DoCheckCast name))))"

text \<open>\<open>convert\<close>. No caller modelled here passes a nil type.\<close>

definition convert :: "lowCtx \<Rightarrow> ty \<Rightarrow> ty \<Rightarrow> unit emit" where
  "convert cx from to =
     (if Kind to = KindVoid then ret ()
      else if IsPrimitive (Kind from) \<and> IsPrimitive (Kind to) then primitive (Kind from) (Kind to)
      else if IsPrimitive (Kind from) then box from
      else if IsPrimitive (Kind to) then unbox to
      else refConvert cx from to)"

end
