(* ===== verification/LowerExpr.thy ===== *)
theory LowerExpr
  imports Lower
begin

text \<open>
  Code generation for expressions, second part: items (\<^verbatim>\<open>src/lower/item.go\<close>), conditions (\<^verbatim>\<open>src/lower/cond.go\<close>), string
  concatenation (\<^verbatim>\<open>src/lower/string.go\<close>) and expressions (\<^verbatim>\<open>src/lower/expr.go\<close>). Each function takes the recursive call \<open>e.expr\<close> as
  its argument \<open>ex\<close>; \<open>lower_expr\<close> ties the knot and takes fuel, which the property on compiled expressions shows to exist.
\<close>

section \<open>Opcodes\<close>

definition arithOp :: "Token.tkind \<Rightarrow> Types.tkind \<Rightarrow> opcode option" where
  "arithOp k t =
     (case t of
        KindLong \<Rightarrow>
          (if k = ADD then Some Ladd else if k = SUB then Some Lsub else if k = MUL then Some Lmul
           else if k = QUO then Some Ldiv else if k = REM then Some Lrem else if k = AND_OP then Some Land
           else if k = OR_OP then Some Lor else if k = XOR_OP then Some Lxor else None)
      | KindFloat \<Rightarrow>
          (if k = ADD then Some Fadd else if k = SUB then Some Fsub else if k = MUL then Some Fmul
           else if k = QUO then Some Fdiv else if k = REM then Some Frem else None)
      | KindDouble \<Rightarrow>
          (if k = ADD then Some Dadd else if k = SUB then Some Dsub else if k = MUL then Some Dmul
           else if k = QUO then Some Ddiv else if k = REM then Some Drem else None)
      | _ \<Rightarrow>
          (if k = ADD then Some Iadd else if k = SUB then Some Isub else if k = MUL then Some Imul
           else if k = QUO then Some Idiv else if k = REM then Some Irem else if k = AND_OP then Some Iand
           else if k = OR_OP then Some Ior else if k = XOR_OP then Some Ixor else None))"

definition shiftOp :: "Token.tkind \<Rightarrow> Types.tkind \<Rightarrow> opcode option" where
  "shiftOp k t =
     (if k = SHL then Some (if t = KindLong then Lshl else Ishl)
      else if k = SHR then Some (if t = KindLong then Lshr else Ishr)
      else if k = USHR then Some (if t = KindLong then Lushr else Iushr)
      else None)"

definition negOp :: "Types.tkind \<Rightarrow> opcode" where
  "negOp t = (if t = KindLong then Lneg else if t = KindFloat then Fneg else if t = KindDouble then Dneg else Ineg)"

definition cmpOp :: "Types.tkind \<Rightarrow> Token.tkind \<Rightarrow> opcode option" where
  "cmpOp t k =
     (let g = k = GTR \<or> k = GEQ in
      case t of
        KindLong \<Rightarrow> Some Lcmp
      | KindFloat \<Rightarrow> Some (if g then Fcmpg else Fcmpl)
      | KindDouble \<Rightarrow> Some (if g then Dcmpg else Dcmpl)
      | _ \<Rightarrow> None)"

definition compoundOp :: "Token.tkind \<Rightarrow> Token.tkind option" where
  "compoundOp k =
     map_of [(ADD_ASSIGN, ADD), (SUB_ASSIGN, SUB), (MUL_ASSIGN, MUL), (QUO_ASSIGN, QUO), (REM_ASSIGN, REM), (AND_ASSIGN, AND_OP),
       (OR_ASSIGN, OR_OP), (XOR_ASSIGN, XOR_OP), (SHL_ASSIGN, SHL), (SHR_ASSIGN, SHR), (USHR_ASSIGN, USHR)] k"

text \<open>An opcode a table function found, or its panic.\<close>

definition opc_or :: "string \<Rightarrow> opcode option \<Rightarrow> unit emit" where
  "opc_or msg o' = (case o' of Some c \<Rightarrow> opc c | None \<Rightarrow> bug msg)"

definition arrayLoadOp :: "ty \<Rightarrow> opcode" where
  "arrayLoadOp t =
     (case Kind t of KindBoolean \<Rightarrow> Baload | KindByte \<Rightarrow> Baload | KindChar \<Rightarrow> Caload | KindShort \<Rightarrow> Saload | KindInt \<Rightarrow> Iaload
      | KindLong \<Rightarrow> Laload | KindFloat \<Rightarrow> Faload | KindDouble \<Rightarrow> Daload | _ \<Rightarrow> Aaload)"

definition arrayStoreOp :: "ty \<Rightarrow> opcode" where
  "arrayStoreOp t =
     (case Kind t of KindBoolean \<Rightarrow> Bastore | KindByte \<Rightarrow> Bastore | KindChar \<Rightarrow> Castore | KindShort \<Rightarrow> Sastore | KindInt \<Rightarrow> Iastore
      | KindLong \<Rightarrow> Lastore | KindFloat \<Rightarrow> Fastore | KindDouble \<Rightarrow> Dastore | _ \<Rightarrow> Aastore)"

definition local_type_of :: "ty \<Rightarrow> local_type" where
  "local_type_of t =
     (case Kind t of KindBoolean \<Rightarrow> LocalI | KindByte \<Rightarrow> LocalI | KindChar \<Rightarrow> LocalI | KindShort \<Rightarrow> LocalI | KindInt \<Rightarrow> LocalI
      | KindLong \<Rightarrow> LocalL | KindFloat \<Rightarrow> LocalF | KindDouble \<Rightarrow> LocalD | _ \<Rightarrow> LocalA)"

definition loadLocal :: "nat \<Rightarrow> ty \<Rightarrow> unit emit" where
  "loadLocal slot t = call1 (DoLoad (local_type_of t) (int slot))"

definition storeLocal :: "nat \<Rightarrow> ty \<Rightarrow> unit emit" where
  "storeLocal slot t = call1 (DoStore (local_type_of t) (int slot))"

definition dupValue :: "ty \<Rightarrow> unit emit" where
  "dupValue t = opc (if Types.Slots t = 2 then Dup2 else Dup)"

definition em_pop :: "ty \<Rightarrow> unit emit" where
  "em_pop t = (if Types.Slots t = 0 then ret () else if Types.Slots t = 2 then opc Pop2 else opc Pop)"

abbreviation (input) aload :: "int \<Rightarrow> unit emit" where "aload n \<equiv> call1 (DoLoad LocalA n)"

abbreviation (input) iconst :: "u32 \<Rightarrow> unit emit" where "iconst v \<equiv> call1 (DoIconst v)"

section \<open>Items\<close>

datatype item = LocalItem nat ty | StaticItem string string string ty | FieldItem string string string ty | IndexItem ty

primrec item_typ :: "item \<Rightarrow> ty" where
  "item_typ (LocalItem slot t) = t"
| "item_typ (StaticItem owner name d t) = t"
| "item_typ (FieldItem owner name d t) = t"
| "item_typ (IndexItem t) = t"

primrec item_dupAddr :: "item \<Rightarrow> unit emit" where
  "item_dupAddr (LocalItem slot t) = ret ()"
| "item_dupAddr (StaticItem owner name d t) = ret ()"
| "item_dupAddr (FieldItem owner name d t) = opc Dup"
| "item_dupAddr (IndexItem t) = opc Dup2"

primrec item_load :: "item \<Rightarrow> unit emit" where
  "item_load (LocalItem slot t) = loadLocal slot t"
| "item_load (StaticItem owner name d t) = call1 (DoField FGetStatic owner name d)"
| "item_load (FieldItem owner name d t) = call1 (DoField FGetField owner name d)"
| "item_load (IndexItem t) = opc (arrayLoadOp t)"

primrec item_store :: "item \<Rightarrow> unit emit" where
  "item_store (LocalItem slot t) = storeLocal slot t"
| "item_store (StaticItem owner name d t) = call1 (DoField FPutStatic owner name d)"
| "item_store (FieldItem owner name d t) = call1 (DoField FPutField owner name d)"
| "item_store (IndexItem t) = opc (arrayStoreOp t)"

primrec item_stash :: "item \<Rightarrow> unit emit" where
  "item_stash (LocalItem slot t) = dupValue t"
| "item_stash (StaticItem owner name d t) = dupValue t"
| "item_stash (FieldItem owner name d t) = opc (if Types.Slots t = 2 then Dup2X1 else DupX1)"
| "item_stash (IndexItem t) = opc (if Types.Slots t = 2 then Dup2X2 else DupX2)"

definition descriptor_of :: "lowCtx \<Rightarrow> ty \<Rightarrow> string emit" where
  "descriptor_of cx t = lift (map_option type_string (Descriptor (lcHeap cx) t))"

definition fieldOwner :: "lowCtx \<Rightarrow> vsym \<Rightarrow> string emit" where
  "fieldOwner cx v = (case vsClass (lcVar cx v) of
     None \<Rightarrow> bug ''field has no declaring class'' | Some c \<Rightarrow> ret (binary_of (lcHeap cx) c))"

definition itemFor :: "lowCtx \<Rightarrow> vsym \<Rightarrow> item emit" where
  "itemFor cx v =
     (let t = lcFieldType cx v; vs = lcVar cx v in
      if vsVar vs = VarField then
        em_bind (descriptor_of cx t) (\<lambda>d. em_bind (fieldOwner cx v) (\<lambda>owner.
          ret ((if sHas (vsFlags vs) FlagStatic then StaticItem else FieldItem) owner (vsName vs) d t)))
      else em_bind (em_slot v) (\<lambda>slot. ret (LocalItem slot t)))"

section \<open>Names\<close>

text \<open>\<open>loadEnclosing\<close> walks out through \<^verbatim>\<open>this$0\<close>. The fuel is the number of classes; a chain of enclosing classes is not longer.
  A nil dereference at a class without an enclosing one is a panic.\<close>

primrec enclosing_walk :: "nat \<Rightarrow> lowCtx \<Rightarrow> csym \<Rightarrow> csym \<Rightarrow> unit emit" where
  "enclosing_walk 0 cx c owner = (\<lambda>e. Stuck)"
| "enclosing_walk (Suc n) cx c owner =
     (if c = owner \<or> lcThisField cx = [] then ret ()
      else case clOuter (lcClass cx c) of
          None \<Rightarrow> bug ''nil dereference''
        | Some o' \<Rightarrow> seqs
            [call1 (DoField FGetField (binary_of (lcHeap cx) c) ''this$0'' (''L'' @ binary_of (lcHeap cx) o' @ '';'')),
             enclosing_walk n cx o' owner])"

definition loadEnclosing :: "lowCtx \<Rightarrow> csym option \<Rightarrow> unit emit" where
  "loadEnclosing cx owner = seqs
     [aload 0,
      (case owner of None \<Rightarrow> ret () | Some o' \<Rightarrow> enclosing_walk (length (hClasses (lcHeap cx)) + 1) cx (lcSelf cx) o')]"

definition accessorFor :: "lowCtx \<Rightarrow> csym option \<Rightarrow> sflags \<Rightarrow> string \<Rightarrow> accessorRec option" where
  "accessorFor cx owner flags name =
     (case owner of
        None \<Rightarrow> None
      | Some o' \<Rightarrow>
          if o' = lcSelf cx \<or> \<not> sHas flags FlagPrivate then None
          else lcAccessors cx (binary_of (lcHeap cx) o' @ ''.'' @ name))"

definition self_binary :: "lowCtx \<Rightarrow> string" where
  "self_binary cx = binary_of (lcHeap cx) (lcSelf cx)"

definition loadVar :: "lowCtx \<Rightarrow> vsym \<Rightarrow> unit emit" where
  "loadVar cx v =
     (let vs = lcVar cx v in
      case captureOf cx v of
        Some cap \<Rightarrow> seqs [aload 0, call1 (DoField FGetField (self_binary cx) (cpName cap) (cpDesc cap))]
      | None \<Rightarrow>
          if vsVar vs = VarField then
            em_bind (descriptor_of cx (lcFieldType cx v)) (\<lambda>d.
              if sHas (vsFlags vs) FlagStatic then
                em_bind (fieldOwner cx v) (\<lambda>owner. call1 (DoField FGetStatic owner (vsName vs) d))
              else seqs
                [loadEnclosing cx (vsClass vs),
                 (case accessorFor cx (vsClass vs) (vsFlags vs) (vsName vs) of
                    Some acc \<Rightarrow> call1 (DoInvoke IStatic (self_binary cx) (acName acc) (''(L'' @ acOwner acc @ '';)'' @ acDesc acc))
                  | None \<Rightarrow> em_bind (fieldOwner cx v) (\<lambda>owner. call1 (DoField FGetField owner (vsName vs) d)))])
          else em_bind (em_slot v) (\<lambda>slot. loadLocal slot (lcFieldType cx v)))"

definition lower_name :: "lowCtx \<Rightarrow> expr \<Rightarrow> unit emit" where
  "lower_name cx x =
     (case cx_Use cx x of
        Some (SymVar v) \<Rightarrow> loadVar cx v
      | Some (SymClass c) \<Rightarrow> ret ()
      | _ \<Rightarrow> bug ''name did not resolve'')"

definition Dotted :: "string \<Rightarrow> string" where
  "Dotted s = map (\<lambda>c. if c = CHR ''/'' \<or> c = CHR ''$'' then CHR ''.'' else c) s"

primrec this_walk :: "nat \<Rightarrow> lowCtx \<Rightarrow> csym \<Rightarrow> string \<Rightarrow> unit emit" where
  "this_walk 0 cx c want = (\<lambda>e. Stuck)"
| "this_walk (Suc n) cx c want =
     (case clOuter (lcClass cx c) of
        None \<Rightarrow> ret ()
      | Some o' \<Rightarrow>
          if Dotted (binary_of (lcHeap cx) c) = want then ret ()
          else seqs
            [call1 (DoField FGetField (binary_of (lcHeap cx) c) ''this$0'' (''L'' @ binary_of (lcHeap cx) o' @ '';'')),
             this_walk n cx o' want])"

definition thisRef :: "lowCtx \<Rightarrow> span option \<Rightarrow> unit emit" where
  "thisRef cx q = seqs
     [aload 0,
      (case q of
         None \<Rightarrow> ret ()
       | Some s \<Rightarrow> this_walk (length (hClasses (lcHeap cx)) + 1) cx (lcSelf cx) (lcNameText cx s))]"

definition classLit :: "lowCtx \<Rightarrow> node_ref option \<Rightarrow> unit emit" where
  "classLit cx t =
     (case t of
        None \<Rightarrow> call1 (DoField FGetStatic ''java/lang/Void'' ''TYPE'' ''Ljava/lang/Class;'')
      | Some r \<Rightarrow>
          (let ty = in_NodeType (lcInfo cx) r in
           if IsPrimitive (Kind ty) then
             (case boxes (Kind ty) of
                Some (owner, _) \<Rightarrow> call1 (DoField FGetStatic owner ''TYPE'' ''Ljava/lang/Class;'')
              | None \<Rightarrow> call1 (DoField FGetStatic [] ''TYPE'' ''Ljava/lang/Class;''))
           else em_bind (lift (castTarget (lcHeap cx) ty)) (\<lambda>n. call1 (DoCconst n))))"

definition lambdaValue :: "lowCtx \<Rightarrow> expr \<Rightarrow> unit emit" where
  "lambdaValue cx x =
     (case lambdaFor cx x of
        None \<Rightarrow> bug ''lambda has no synthetic class''
      | Some rec \<Rightarrow> seqs
          [call1 (DoNew (lrBinary rec)), opc Dup, (if lrInStatic rec then ret () else aload 0),
           seqs (map (\<lambda>v. case captureOf cx v of
               Some cap \<Rightarrow> seqs [aload 0, call1 (DoField FGetField (self_binary cx) (cpName cap) (cpDesc cap))]
             | None \<Rightarrow> em_bind (em_slot v) (\<lambda>slot. loadLocal slot (lcFieldType cx v))) (lrCaptures rec)),
           em_bind (lift (those (map (\<lambda>v. map_option type_string (Descriptor (lcHeap cx) (lcFieldType cx v))) (lrCaptures rec)))) (\<lambda>ds.
             call1 (DoInvoke ISpecial (lrBinary rec) ''<init>''
               (''('' @ (if lrInStatic rec then [] else ''L'' @ self_binary cx @ '';'') @ concat ds @ '')V'')))])"

section \<open>Constants\<close>

definition lower_constant :: "konst \<Rightarrow> code_op option" where
  "lower_constant k =
     (case kValue k of
        Some (CBool b) \<Rightarrow> Some (DoIconst (if b then 1 else 0))
      | Some (CInt v) \<Rightarrow> Some (DoIconst v)
      | Some (CLong v) \<Rightarrow> Some (DoLconst v)
      | Some (CFloat v) \<Rightarrow> Some (DoFconst v)
      | Some (CDouble v) \<Rightarrow> Some (DoDconst v)
      | Some (CStr s) \<Rightarrow> Some (DoSconst s)
      | None \<Rightarrow> None)"

definition lower_literal :: "Token.tkind \<Rightarrow> unit emit" where
  "lower_literal k = (if k = NULL then call1 DoAconstNull else bug ''literal was not folded by attr'')"

definition pushOne :: "goFloats \<Rightarrow> ty \<Rightarrow> int \<Rightarrow> unit emit" where
  "pushOne g t delta =
     (case Kind t of
        KindLong \<Rightarrow> call1 (DoLconst (of_int delta))
      | KindFloat \<Rightarrow> call1 (DoFconst (f32OfF64 g (f64OfInt g delta)))
      | KindDouble \<Rightarrow> call1 (DoDconst (f64OfInt g delta))
      | _ \<Rightarrow> iconst (of_int delta))"

definition primitiveArrayCode :: "ty \<Rightarrow> u8 option" where
  "primitiveArrayCode t =
     (case Kind t of KindBoolean \<Rightarrow> Some 4 | KindChar \<Rightarrow> Some 5 | KindFloat \<Rightarrow> Some 6 | KindDouble \<Rightarrow> Some 7 | KindByte \<Rightarrow> Some 8
      | KindShort \<Rightarrow> Some 9 | KindInt \<Rightarrow> Some 10 | KindLong \<Rightarrow> Some 11 | _ \<Rightarrow> None)"

definition newArrayOf :: "lowCtx \<Rightarrow> ty \<Rightarrow> unit emit" where
  "newArrayOf cx elem =
     (case primitiveArrayCode elem of
        Some code \<Rightarrow> call1 (DoNewArray code)
      | None \<Rightarrow> em_bind (lift (castTarget (lcHeap cx) elem)) (\<lambda>n. call1 (DoANewArray n)))"

section \<open>Conditions\<close>

text \<open>\<open>exprAs\<close>: emit a value and convert it.\<close>

definition exprAs :: "lowCtx \<Rightarrow> (expr \<Rightarrow> unit emit) \<Rightarrow> expr \<Rightarrow> ty \<Rightarrow> unit emit" where
  "exprAs cx ex x want = seqs [ex x, convert cx (cx_Type cx x) want]"

definition branchZero :: "label_id \<Rightarrow> bool \<Rightarrow> unit emit" where
  "branchZero target when = call1 (DoIf (if when then CondNe else CondEq) target)"

definition branchNull :: "Token.tkind \<Rightarrow> label_id \<Rightarrow> bool \<Rightarrow> unit emit" where
  "branchNull k target when = call1 (DoIf (if (k = EQL) = when then CondNull else CondNonNull) target)"

definition branchAgainstZero :: "Token.tkind \<Rightarrow> label_id \<Rightarrow> unit emit" where
  "branchAgainstZero k target =
     (if k = EQL then call1 (DoIf CondEq target)
      else if k = NEQ then call1 (DoIf CondNe target)
      else if k = LSS then call1 (DoIf CondLt target)
      else if k = LEQ then call1 (DoIf CondLe target)
      else if k = GTR then call1 (DoIf CondGt target)
      else if k = GEQ then call1 (DoIf CondGe target)
      else bug ''not a comparison'')"

definition branchCompare :: "Token.tkind \<Rightarrow> label_id \<Rightarrow> unit emit" where
  "branchCompare k target =
     (if k = EQL then call1 (DoIf CondICmpEq target)
      else if k = NEQ then call1 (DoIf CondICmpNe target)
      else if k = LSS then call1 (DoIf CondICmpLt target)
      else if k = LEQ then call1 (DoIf CondICmpLe target)
      else if k = GTR then call1 (DoIf CondICmpGt target)
      else if k = GEQ then call1 (DoIf CondICmpGe target)
      else bug ''not a comparison'')"

definition invert :: "Token.tkind \<Rightarrow> Token.tkind option" where
  "invert k =
     (if k = EQL then Some NEQ else if k = NEQ then Some EQL else if k = LSS then Some GEQ else if k = GEQ then Some LSS
      else if k = GTR then Some LEQ else if k = LEQ then Some GTR else None)"

definition isNullLit :: "expr \<Rightarrow> bool" where
  "isNullLit x = (case x of BasicLit s k \<Rightarrow> k = NULL | _ \<Rightarrow> False)"

definition lower_compare :: "lowCtx \<Rightarrow> (expr \<Rightarrow> unit emit) \<Rightarrow> expr \<Rightarrow> Token.tkind \<Rightarrow> expr \<Rightarrow> label_id \<Rightarrow> bool \<Rightarrow> unit emit" where
  "lower_compare cx ex x op y target when =
     (let lt = cx_Type cx x; rt = cx_Type cx y in
      if IsReference lt \<and> IsReference rt then
        (if isNullLit y then seqs [ex x, branchNull op target when]
         else if isNullLit x then seqs [ex y, branchNull op target when]
         else seqs [ex x, ex y, call1 (DoIf (if (op = EQL) = when then CondACmpEq else CondACmpNe) target)])
      else
        (let p = PromoteBinary lt rt in seqs
           [ex x, convert cx lt p, ex y, convert cx rt p,
            (case (if when then Some op else invert op) of
               None \<Rightarrow> bug ''not a comparison''
             | Some k \<Rightarrow>
                 if Kind p = KindInt \<or> Kind p = KindBoolean then branchCompare k target
                 else seqs [opc_or ''no comparison opcode'' (cmpOp (Kind p) k), branchAgainstZero k target])]))"

text \<open>\<open>cond\<close> with \<open>condAnd\<close> and \<open>condOr\<close>. A condition that is a boolean constant is a jump or nothing.\<close>

function lower_cond :: "lowCtx \<Rightarrow> (expr \<Rightarrow> unit emit) \<Rightarrow> expr \<Rightarrow> label_id \<Rightarrow> bool \<Rightarrow> unit emit"
  and condAnd :: "lowCtx \<Rightarrow> (expr \<Rightarrow> unit emit) \<Rightarrow> expr \<Rightarrow> expr \<Rightarrow> label_id \<Rightarrow> bool \<Rightarrow> unit emit"
  and condOr :: "lowCtx \<Rightarrow> (expr \<Rightarrow> unit emit) \<Rightarrow> expr \<Rightarrow> expr \<Rightarrow> label_id \<Rightarrow> bool \<Rightarrow> unit emit" where
  "lower_cond cx ex x target when =
     (case Option.bind (cx_Const cx x) kValue of
        Some (CBool b) \<Rightarrow> if b = when then call1 (DoGoto target) else ret ()
      | _ \<Rightarrow>
          (case x of
             ParenExpr s y \<Rightarrow> lower_cond cx ex y target when
           | UnaryExpr s op y \<Rightarrow>
               if op = NOT_OP then lower_cond cx ex y target (\<not> when)
               else seqs [ex x, branchZero target when]
           | BinaryExpr s a op b \<Rightarrow>
               if op = LAND then condAnd cx ex a b target when
               else if op = LOR then condOr cx ex a b target when
               else if op \<in> {EQL, NEQ, LSS, GTR, LEQ, GEQ} then lower_compare cx ex a op b target when
               else seqs [ex x, branchZero target when]
           | InstanceOfExpr s y t p \<Rightarrow> seqs
               [ex y,
                (case t of
                   Some r \<Rightarrow> seqs
                     [em_bind (lift (castTarget (lcHeap cx) (in_NodeType (lcInfo cx) r))) (\<lambda>n. call1 (DoInstanceOf n)),
                      branchZero target when]
                 | None \<Rightarrow> bug ''instanceof pattern in condition position'')]
           | _ \<Rightarrow> seqs [ex x, branchZero target when]))"
| "condAnd cx ex a b target when =
     (if when then em_bind newLabel (\<lambda>skip. seqs
        [lower_cond cx ex a skip False, lower_cond cx ex b target True, call1 (DoMark skip)])
      else seqs [lower_cond cx ex a target False, lower_cond cx ex b target False])"
| "condOr cx ex a b target when =
     (if when then seqs [lower_cond cx ex a target True, lower_cond cx ex b target True]
      else em_bind newLabel (\<lambda>skip. seqs
        [lower_cond cx ex a skip True, lower_cond cx ex b target False, call1 (DoMark skip)]))"
  by pat_completeness auto

termination
  by (relation "measure (\<lambda>x. case x of Inl (cx, ex, x, target, when) \<Rightarrow> 2 * size x
        | Inr (Inl (cx, ex, a, b, target, when)) \<Rightarrow> 2 * size a + 2 * size b + 1
        | Inr (Inr (cx, ex, a, b, target, when)) \<Rightarrow> 2 * size a + 2 * size b + 1)") auto

declare lower_cond.simps [simp del] condAnd.simps [simp del] condOr.simps [simp del]

definition condValue :: "lowCtx \<Rightarrow> (expr \<Rightarrow> unit emit) \<Rightarrow> expr \<Rightarrow> unit emit" where
  "condValue cx ex x = em_bind newLabel (\<lambda>t. em_bind newLabel (\<lambda>f. em_bind newLabel (\<lambda>done'. seqs
     [lower_cond cx ex x t True, iconst 0, call1 (DoGoto done'), call1 (DoMark t), iconst 1, call1 (DoMark done')])))"

section \<open>Strings\<close>

definition isConcat :: "lowCtx \<Rightarrow> expr \<Rightarrow> bool" where
  "isConcat cx x = (case cx_Type cx x of ClassType s args outer \<Rightarrow> class_Binary (lcHeap cx) s = StringName | _ \<Rightarrow> False)"

definition append_desc :: "lowCtx \<Rightarrow> ty \<Rightarrow> string" where
  "append_desc cx t =
     (case Kind t of
        KindBoolean \<Rightarrow> ''(Z)Ljava/lang/StringBuilder;''
      | KindChar \<Rightarrow> ''(C)Ljava/lang/StringBuilder;''
      | KindByte \<Rightarrow> ''(I)Ljava/lang/StringBuilder;''
      | KindShort \<Rightarrow> ''(I)Ljava/lang/StringBuilder;''
      | KindInt \<Rightarrow> ''(I)Ljava/lang/StringBuilder;''
      | KindLong \<Rightarrow> ''(J)Ljava/lang/StringBuilder;''
      | KindFloat \<Rightarrow> ''(F)Ljava/lang/StringBuilder;''
      | KindDouble \<Rightarrow> ''(D)Ljava/lang/StringBuilder;''
      | KindNull \<Rightarrow> ''(Ljava/lang/String;)Ljava/lang/StringBuilder;''
      | _ \<Rightarrow>
          (case t of
             ClassType s args outer \<Rightarrow>
               if class_Binary (lcHeap cx) s = StringName then ''(Ljava/lang/String;)Ljava/lang/StringBuilder;''
               else ''(Ljava/lang/Object;)Ljava/lang/StringBuilder;''
           | _ \<Rightarrow> ''(Ljava/lang/Object;)Ljava/lang/StringBuilder;''))"

definition sb_append :: "lowCtx \<Rightarrow> (expr \<Rightarrow> unit emit) \<Rightarrow> expr \<Rightarrow> unit emit" where
  "sb_append cx ex x =
     (let t = cx_Type cx x in seqs
        [ex x,
         (if Kind t \<in> {KindByte, KindShort, KindInt} then convert cx t (Basic KindInt) else ret ()),
         call1 (DoInvoke IVirtual ''java/lang/StringBuilder'' ''append'' (append_desc cx t))])"

fun concat_walk :: "lowCtx \<Rightarrow> (expr \<Rightarrow> unit emit) \<Rightarrow> expr \<Rightarrow> unit emit" where
  "concat_walk cx ex (ParenExpr s x) = concat_walk cx ex x"
| "concat_walk cx ex (BinaryExpr s a op b) =
     (if op = ADD \<and> isConcat cx (BinaryExpr s a op b) then seqs [concat_walk cx ex a, concat_walk cx ex b]
      else sb_append cx ex (BinaryExpr s a op b))"
| "concat_walk cx ex x = sb_append cx ex x"

definition lower_concat :: "lowCtx \<Rightarrow> (expr \<Rightarrow> unit emit) \<Rightarrow> expr \<Rightarrow> expr \<Rightarrow> unit emit" where
  "lower_concat cx ex x y = seqs
     [call1 (DoNew ''java/lang/StringBuilder''), opc Dup, call1 (DoInvoke ISpecial ''java/lang/StringBuilder'' ''<init>'' ''()V''),
      concat_walk cx ex x, concat_walk cx ex y,
      call1 (DoInvoke IVirtual ''java/lang/StringBuilder'' ''toString'' ''()Ljava/lang/String;'')]"

section \<open>Calls and creation\<close>

text \<open>\<open>initValue\<close>: an array initialiser is an expression too, so the first case of the source's type switch takes every node.\<close>

definition initValue :: "lowCtx \<Rightarrow> (expr \<Rightarrow> unit emit) \<Rightarrow> expr \<Rightarrow> ty \<Rightarrow> unit emit" where
  "initValue cx ex x want = exprAs cx ex x want"

text \<open>Storing a list of values into the array on top of the stack, from an index on.\<close>

fun fill_array :: "lowCtx \<Rightarrow> (expr \<Rightarrow> unit emit) \<Rightarrow> ty \<Rightarrow> nat \<Rightarrow> expr list \<Rightarrow> unit emit" where
  "fill_array cx ex elem i [] = ret ()"
| "fill_array cx ex elem i (x # xs) = seqs
     [opc Dup, iconst (of_nat i), initValue cx ex x elem, opc (arrayStoreOp elem), fill_array cx ex elem (Suc i) xs]"

definition arrayInit :: "lowCtx \<Rightarrow> (expr \<Rightarrow> unit emit) \<Rightarrow> expr list \<Rightarrow> ty \<Rightarrow> unit emit" where
  "arrayInit cx ex elts want =
     (case want of
        ArrayType elem \<Rightarrow> seqs [iconst (of_nat (length elts)), newArrayOf cx elem, fill_array cx ex elem 0 elts]
      | _ \<Rightarrow> bug ''array initialiser for non-array type'')"

definition passedAsArray :: "lowCtx \<Rightarrow> expr list \<Rightarrow> methodType \<Rightarrow> bool" where
  "passedAsArray cx args mt \<longleftrightarrow> length args = length (mtParams mt) \<and>
     Kind (cx_Type cx (args ! (length (mtParams mt) - 1))) \<in> {KindArray, KindNull}"

fun plain_args :: "lowCtx \<Rightarrow> (expr \<Rightarrow> unit emit) \<Rightarrow> expr list \<Rightarrow> ty list \<Rightarrow> unit emit" where
  "plain_args cx ex [] ps = ret ()"
| "plain_args cx ex (a # as) [] = seqs [ex a, plain_args cx ex as []]"
| "plain_args cx ex (a # as) (p # ps) = seqs [exprAs cx ex a p, plain_args cx ex as ps]"

definition lower_args :: "lowCtx \<Rightarrow> (expr \<Rightarrow> unit emit) \<Rightarrow> expr list \<Rightarrow> methodType \<Rightarrow> bool \<Rightarrow> unit emit" where
  "lower_args cx ex args mt varargs =
     (let np = length (mtParams mt) in
      if varargs \<and> 0 < np \<and> \<not> passedAsArray cx args mt then
        (if length args < np - 1 then bug ''index out of range''
         else seqs
           [plain_args cx ex (take (np - 1) args) (take (np - 1) (mtParams mt)),
            (case mtParams mt ! (np - 1) of
               ArrayType elem \<Rightarrow> seqs
                 [iconst (of_nat (length args - (np - 1))), newArrayOf cx elem, fill_array cx ex elem 0 (drop (np - 1) args)]
             | _ \<Rightarrow> bug ''varargs parameter is not an array'')])
      else plain_args cx ex args (mtParams mt))"

definition methodDesc :: "lowCtx \<Rightarrow> msym \<Rightarrow> string emit" where
  "methodDesc cx m =
     (if mdDescriptor (lcMethod cx m) \<noteq> [] then ret (mdDescriptor (lcMethod cx m))
      else lift (MethodDescriptor (lcHeap cx) (Some (lcMethodType cx m))))"

definition prependParam :: "string \<Rightarrow> string \<Rightarrow> string" where
  "prependParam d param = ''('' @ param @ tl d"

definition lower_receiver :: "lowCtx \<Rightarrow> (expr \<Rightarrow> unit emit) \<Rightarrow> expr option \<Rightarrow> msym \<Rightarrow> unit emit" where
  "lower_receiver cx ex x m =
     (case x of
        None \<Rightarrow> loadEnclosing cx (Some (mdClass (lcMethod cx m)))
      | Some (SuperExpr s q) \<Rightarrow> aload 0
      | Some y \<Rightarrow> (case cx_Use cx y of Some (SymClass c) \<Rightarrow> ret () | _ \<Rightarrow> ex y))"

definition isSuperCall :: "expr option \<Rightarrow> bool" where
  "isSuperCall x = (case x of Some (SuperExpr s q) \<Rightarrow> True | _ \<Rightarrow> False)"

definition lower_call :: "lowCtx \<Rightarrow> (expr \<Rightarrow> unit emit) \<Rightarrow> expr \<Rightarrow> expr option \<Rightarrow> expr list \<Rightarrow> unit emit" where
  "lower_call cx ex n x args =
     (case cx_Use cx n of
        Some (SymMethod m) \<Rightarrow>
          (let ms = lcMethod cx m; mt = lcMethodType cx m; static = sHas (mdFlags ms) FlagStatic;
               varargs = sHas (mdFlags ms) FlagVarargs; owner = binary_of (lcHeap cx) (mdClass ms) in
           em_bind (methodDesc cx m) (\<lambda>d. seqs
             [(if static then ret () else lower_receiver cx ex x m),
              lower_args cx ex args mt varargs,
              (case accessorFor cx (Some (mdClass ms)) (mdFlags ms) (mdName ms) of
                 Some acc \<Rightarrow> call1 (DoInvoke IStatic (self_binary cx) (acName acc)
                   (if static then d else prependParam d (''L'' @ acOwner acc @ '';'')))
               | None \<Rightarrow>
                   if static then call1 (DoInvoke IStatic owner (mdName ms) d)
                   else if isSuperCall x \<or> sHas (mdFlags ms) FlagPrivate then call1 (DoInvoke ISpecial owner (mdName ms) d)
                   else if sHas (clFlags (lcClass cx (mdClass ms))) FlagInterface
                     then call1 (DoInvoke IInterface owner (mdName ms) d)
                   else call1 (DoInvoke IVirtual owner (mdName ms) d))]))
      | _ \<Rightarrow> bug ''call did not resolve to a method'')"

definition needsOuter :: "lowCtx \<Rightarrow> ty \<Rightarrow> bool" where
  "needsOuter cx t =
     (case t of
        ClassType (Some c) args outer \<Rightarrow> clOuter (lcClass cx c) \<noteq> None \<and> \<not> sHas (clFlags (lcClass cx c)) FlagStatic
      | _ \<Rightarrow> False)"

definition lower_new :: "lowCtx \<Rightarrow> (expr \<Rightarrow> unit emit) \<Rightarrow> expr \<Rightarrow> expr option \<Rightarrow> expr list \<Rightarrow> unit emit" where
  "lower_new cx ex n outer args =
     (let t = cx_Type cx n in
      em_bind (lift (castTarget (lcHeap cx) t)) (\<lambda>binary. seqs
        [call1 (DoNew binary), opc Dup,
         (case outer of Some o' \<Rightarrow> ex o' | None \<Rightarrow> if needsOuter cx t then aload 0 else ret ()),
         (case cx_Use cx n of
            Some (SymMethod m) \<Rightarrow> em_bind (methodDesc cx m) (\<lambda>d. seqs
              [lower_args cx ex args (lcMethodType cx m) (sHas (mdFlags (lcMethod cx m)) FlagVarargs),
               call1 (DoInvoke ISpecial binary ''<init>'' d)])
          | _ \<Rightarrow> call1 (DoInvoke ISpecial binary ''<init>'' ''()V''))]))"

definition lower_newArray :: "lowCtx \<Rightarrow> (expr \<Rightarrow> unit emit) \<Rightarrow> expr \<Rightarrow> expr list \<Rightarrow> expr option \<Rightarrow> unit emit" where
  "lower_newArray cx ex n dims init =
     (let t = cx_Type cx n in
      case init of
        Some (ArrayInit s elts) \<Rightarrow> arrayInit cx ex elts t
      | _ \<Rightarrow>
          (case dims of
             [d] \<Rightarrow> seqs
               [exprAs cx ex d (Basic KindInt),
                (case t of ArrayType elem \<Rightarrow> newArrayOf cx elem | _ \<Rightarrow> bug ''array creation has no array type'')]
           | _ \<Rightarrow> seqs
               [seqs (map (\<lambda>d. exprAs cx ex d (Basic KindInt)) dims),
                em_bind (descriptor_of cx t) (\<lambda>d. call1 (DoMultiANewArray d (int (length dims))))]))"

section \<open>Operators and assignment\<close>

definition lower_binary :: "lowCtx \<Rightarrow> (expr \<Rightarrow> unit emit) \<Rightarrow> expr \<Rightarrow> expr \<Rightarrow> Token.tkind \<Rightarrow> expr \<Rightarrow> unit emit" where
  "lower_binary cx ex n x op y =
     (if op \<in> {LAND, LOR, EQL, NEQ, LSS, GTR, LEQ, GEQ} then condValue cx ex n
      else if op = ADD \<and> isConcat cx n then lower_concat cx ex x y
      else
        (let t = cx_Type cx n in
         if op \<in> {SHL, SHR, USHR} then seqs
           [exprAs cx ex x t, exprAs cx ex y (Basic KindInt), opc_or ''not a shift'' (shiftOp op (Kind t))]
         else
           (let p = PromoteBinary (cx_Type cx x) (cx_Type cx y) in seqs
              [exprAs cx ex x p, exprAs cx ex y p, opc_or ''no opcode'' (arithOp op (Kind p))])))"

definition simpleIntLocal :: "lowCtx \<Rightarrow> expr \<Rightarrow> slotMap \<Rightarrow> vsym option" where
  "simpleIntLocal cx x s =
     (case x of
        Ident i \<Rightarrow>
          (case cx_Use cx x of
             Some (SymVar v) \<Rightarrow>
               if vsVar (lcVar cx v) = VarField \<or> captureOf cx v \<noteq> None \<or> Kind (lcFieldType cx v) \<noteq> KindInt then None
               else if slot_has v s then Some v else None
           | _ \<Rightarrow> None)
      | _ \<Rightarrow> None)"

fun lower_lvalue :: "lowCtx \<Rightarrow> (expr \<Rightarrow> unit emit) \<Rightarrow> expr \<Rightarrow> item emit" where
  "lower_lvalue cx ex (ParenExpr s x) = lower_lvalue cx ex x"
| "lower_lvalue cx ex (IndexExpr s x i) =
     em_bind (seqs [ex x, exprAs cx ex i (Basic KindInt)]) (\<lambda>_. ret (IndexItem (cx_Type cx (IndexExpr s x i))))"
| "lower_lvalue cx ex (SelectorExpr s x sel) =
     (case cx_Use cx (SelectorExpr s x sel) of
        Some (SymVar v) \<Rightarrow>
          if sHas (vsFlags (lcVar cx v)) FlagStatic then itemFor cx v else em_bind (ex x) (\<lambda>_. itemFor cx v)
      | _ \<Rightarrow> bug ''assignment target did not resolve to a variable'')"
| "lower_lvalue cx ex x =
     (case cx_Use cx x of
        Some (SymVar v) \<Rightarrow>
          (let vs = lcVar cx v in
           if vsVar vs = VarField \<and> \<not> sHas (vsFlags vs) FlagStatic
           then em_bind (loadEnclosing cx (vsClass vs)) (\<lambda>_. itemFor cx v)
           else itemFor cx v)
      | _ \<Rightarrow> bug ''assignment target did not resolve to a variable'')"

definition stringItem :: "lowCtx \<Rightarrow> ty \<Rightarrow> bool" where
  "stringItem cx t = (case t of ClassType s args outer \<Rightarrow> class_Binary (lcHeap cx) s = StringName | _ \<Rightarrow> False)"

definition lower_assign :: "lowCtx \<Rightarrow> (expr \<Rightarrow> unit emit) \<Rightarrow> expr \<Rightarrow> Token.tkind \<Rightarrow> expr \<Rightarrow> bool \<Rightarrow> unit emit" where
  "lower_assign cx ex lhs op rhs value =
     em_bind (lower_lvalue cx ex lhs) (\<lambda>it.
       let t = item_typ it in
       if op = ASSIGN then seqs [initValue cx ex rhs t, (if value then item_stash it else ret ()), item_store it]
       else seqs
         [item_dupAddr it, item_load it,
          (case compoundOp op of
             None \<Rightarrow> bug ''not a compound assignment''
           | Some k \<Rightarrow>
               if k \<in> {SHL, SHR, USHR} then seqs [exprAs cx ex rhs (Basic KindInt), opc_or ''not a shift'' (shiftOp k (Kind t))]
               else if k = ADD \<and> stringItem cx t then bug ''compound string concatenation needs a StringBuilder chain''
               else
                 (let p = PromoteBinary t (cx_Type cx rhs) in seqs
                    [convert cx t p, exprAs cx ex rhs p, opc_or ''no opcode'' (arithOp k (Kind p)), convert cx p t])),
          (if value then item_stash it else ret ()), item_store it])"

definition lower_incdec :: "lowCtx \<Rightarrow> (expr \<Rightarrow> unit emit) \<Rightarrow> expr \<Rightarrow> Token.tkind \<Rightarrow> bool \<Rightarrow> bool \<Rightarrow> unit emit" where
  "lower_incdec cx ex x kind value postfix e =
     (let delta = if kind = DEC then - 1 else (1 :: int); t = cx_Type cx x in
      case simpleIntLocal cx x (emSlots e) of
        Some v \<Rightarrow> em_bind (em_slot v) (\<lambda>slot. seqs
          [(if value \<and> postfix then call1 (DoLoad LocalI (int slot)) else ret ()), call1 (DoIinc (int slot) delta),
           (if value \<and> \<not> postfix then call1 (DoLoad LocalI (int slot)) else ret ())]) e
      | None \<Rightarrow> em_bind (lower_lvalue cx ex x) (\<lambda>it.
          let p = Promote t in seqs
            [item_dupAddr it, item_load it, (if value \<and> postfix then item_stash it else ret ()),
             convert cx t p, pushOne (lcFloats cx) p delta, opc_or ''no opcode'' (arithOp ADD (Kind p)), convert cx p t,
             (if value \<and> \<not> postfix then item_stash it else ret ()), item_store it]) e)"

definition lower_unary :: "lowCtx \<Rightarrow> (expr \<Rightarrow> unit emit) \<Rightarrow> expr \<Rightarrow> Token.tkind \<Rightarrow> expr \<Rightarrow> unit emit" where
  "lower_unary cx ex n op x =
     (let t = cx_Type cx n in
      if op = NOT_OP then condValue cx ex n
      else if op = ADD then exprAs cx ex x t
      else if op = SUB then seqs [exprAs cx ex x t, opc (negOp (Kind t))]
      else if op = TILDE then seqs
        [exprAs cx ex x t,
         (if Kind t = KindLong then seqs [call1 (DoLconst (- 1)), opc Lxor] else seqs [iconst (- 1), opc Ixor])]
      else if op = INC \<or> op = DEC then lower_incdec cx ex x op True False
      else bug ''unhandled unary'')"

definition lower_instanceOf :: "lowCtx \<Rightarrow> (expr \<Rightarrow> unit emit) \<Rightarrow> expr \<Rightarrow> node_ref option \<Rightarrow> node_ref option \<Rightarrow> unit emit" where
  "lower_instanceOf cx ex x t p = seqs
     [ex x,
      (case t of
         Some r \<Rightarrow> em_bind (lift (castTarget (lcHeap cx) (in_NodeType (lcInfo cx) r))) (\<lambda>n. call1 (DoInstanceOf n))
       | None \<Rightarrow>
           (case Option.bind p (lcPattern cx) of
              None \<Rightarrow> bug ''unsupported pattern reached pass two''
            | Some (r, name) \<Rightarrow>
                (let ty = in_NodeType (lcInfo cx) r in
                 case cx_Use cx (Ident name) of
                   Some (SymVar v) \<Rightarrow>
                     em_bind (em_declare v ty) (\<lambda>slot. em_bind newLabel (\<lambda>no. em_bind newLabel (\<lambda>done'.
                     em_bind (lift (castTarget (lcHeap cx) ty)) (\<lambda>n. seqs
                       [opc Dup, call1 (DoInstanceOf n), call1 (DoIf CondEq no), call1 (DoCheckCast n), storeLocal slot ty,
                        iconst 1, call1 (DoGoto done'), set_alive False, em_mark no, opc Pop, iconst 0, em_mark done']))))
                 | _ \<Rightarrow> bug ''pattern variable did not resolve'')))]"

definition lower_condExpr :: "lowCtx \<Rightarrow> (expr \<Rightarrow> unit emit) \<Rightarrow> expr \<Rightarrow> expr \<Rightarrow> expr \<Rightarrow> expr \<Rightarrow> unit emit" where
  "lower_condExpr cx ex n c x y =
     (let t = cx_Type cx n in
      em_bind newLabel (\<lambda>els. em_bind newLabel (\<lambda>done'. seqs
        [lower_cond cx ex c els False, exprAs cx ex x t, call1 (DoGoto done'), set_alive False, em_mark els,
         exprAs cx ex y t, em_mark done'])))"

definition lower_selector :: "lowCtx \<Rightarrow> (expr \<Rightarrow> unit emit) \<Rightarrow> expr \<Rightarrow> expr \<Rightarrow> unit emit" where
  "lower_selector cx ex n x =
     (case cx_Use cx n of
        Some (SymVar v) \<Rightarrow>
          (let vs = lcVar cx v in
           em_bind (descriptor_of cx (lcFieldType cx v)) (\<lambda>d.
             if sHas (vsFlags vs) FlagStatic then em_bind (fieldOwner cx v) (\<lambda>owner. call1 (DoField FGetStatic owner (vsName vs) d))
             else if vsName vs = ''length'' \<and> Kind (cx_Type cx x) = KindArray then seqs [ex x, opc Arraylength]
             else seqs [ex x, em_bind (fieldOwner cx v) (\<lambda>owner. call1 (DoField FGetField owner (vsName vs) d))]))
      | _ \<Rightarrow> ex x)"

section \<open>Expressions\<close>

definition expr_body :: "lowCtx \<Rightarrow> (expr \<Rightarrow> unit emit) \<Rightarrow> expr \<Rightarrow> unit emit" where
  "expr_body cx ex n =
     (case Option.bind (cx_Const cx n) lower_constant of
        Some c \<Rightarrow> call1 c
      | None \<Rightarrow>
          (case n of
             ParenExpr s x \<Rightarrow> ex x
           | BasicLit s k \<Rightarrow> lower_literal k
           | Ident i \<Rightarrow> lower_name cx n
           | Name s ps \<Rightarrow> lower_name cx n
           | SelectorExpr s x sel \<Rightarrow> lower_selector cx ex n x
           | IndexExpr s x i \<Rightarrow> seqs [ex x, exprAs cx ex i (Basic KindInt), opc (arrayLoadOp (cx_Type cx n))]
           | CallExpr s x f args \<Rightarrow> lower_call cx ex n x args
           | NewExpr s x t args body \<Rightarrow> lower_new cx ex n x args
           | NewArrayExpr s t dims k init \<Rightarrow> lower_newArray cx ex n dims init
           | AssignExpr s x op y \<Rightarrow> lower_assign cx ex x op y True
           | BinaryExpr s x op y \<Rightarrow> lower_binary cx ex n x op y
           | UnaryExpr s op x \<Rightarrow> lower_unary cx ex n op x
           | PostfixExpr s x op \<Rightarrow> lower_incdec cx ex x op True True
           | CastExpr s t bs x \<Rightarrow> seqs [ex x, convert cx (cx_Type cx x) (cx_Type cx n)]
           | CondExpr s c x y \<Rightarrow> lower_condExpr cx ex n c x y
           | InstanceOfExpr s x t p \<Rightarrow> lower_instanceOf cx ex x t p
           | This s q \<Rightarrow> thisRef cx q
           | ClassLit s t k \<Rightarrow> classLit cx t
           | LambdaExpr s b \<Rightarrow> lambdaValue cx n
           | MethodRef s b name \<Rightarrow> lambdaValue cx n
           | SuperExpr s q \<Rightarrow> aload 0
           | BadExpr s \<Rightarrow> bug ''BadExpr reached pass two''
           | _ \<Rightarrow> bug ''unhandled expression''))"

primrec lower_expr :: "lowCtx \<Rightarrow> nat \<Rightarrow> expr \<Rightarrow> unit emit" where
  "lower_expr cx 0 = (\<lambda>x e. Stuck)"
| "lower_expr cx (Suc n) = expr_body cx (lower_expr cx n)"

text \<open>\<open>exprStmt\<close>: the same node in statement position leaves nothing on the stack.\<close>

definition exprStmt :: "lowCtx \<Rightarrow> nat \<Rightarrow> expr \<Rightarrow> unit emit" where
  "exprStmt cx n x =
     (let ex = lower_expr cx n; rest = seqs [ex x, em_pop (cx_Type cx x)] in
      case x of
        AssignExpr s l op r \<Rightarrow> lower_assign cx ex l op r False
      | UnaryExpr s op y \<Rightarrow> if op = INC \<or> op = DEC then lower_incdec cx ex y op False False else rest
      | PostfixExpr s y op \<Rightarrow> lower_incdec cx ex y op False False
      | _ \<Rightarrow> rest)"

end
