(* ===== verification/Jvm.thy ===== *)
theory Jvm
  imports JavaOps CodeWriter
begin

text \<open>
  What the instructions of an expression do (JVMS 6.5), as a machine over the calls a method body makes on its \<open>CodeWriter\<close>: a
  program counter into the sequence of calls, an operand stack and the local variables. A jump goes to the call that places the label;
  that the bytes written for the calls do the same is the property on \<open>Code\<close>. This is specification: it models no code of its own.
  An instruction it does not describe, or that would throw, has no step.
\<close>

section \<open>Instructions\<close>

fun int2 :: "Token.tkind \<Rightarrow> jval list \<Rightarrow> jval list option" where
  "int2 k (VI b # VI a # s) = map_option (\<lambda>c. VI c # s) (jarith k a b)"
| "int2 k _ = None"

fun long2 :: "Token.tkind \<Rightarrow> jval list \<Rightarrow> jval list option" where
  "long2 k (VL b # VL a # s) = map_option (\<lambda>c. VL c # s) (jarith k a b)"
| "long2 k _ = None"

fun ishift :: "Token.tkind \<Rightarrow> jval list \<Rightarrow> jval list option" where
  "ishift k (VI b # VI a # s) = map_option (\<lambda>c. VI c # s) (jshift k a (unat (b AND 31)))"
| "ishift k _ = None"

fun lshift :: "Token.tkind \<Rightarrow> jval list \<Rightarrow> jval list option" where
  "lshift k (VI b # VL a # s) = map_option (\<lambda>c. VL c # s) (jshift k a (unat (b AND 63)))"
| "lshift k _ = None"

definition three_way :: "int \<Rightarrow> int \<Rightarrow> jval" where
  "three_way a b = VI (if a < b then - 1 else if a = b then 0 else 1)"

fun long_cmp :: "jval list \<Rightarrow> jval list option" where
  "long_cmp (VL b # VL a # s) = Some (three_way (sint a) (sint b) # s)"
| "long_cmp _ = None"

text \<open>The comparisons of floating point values, with the result for a NaN.\<close>

fun float_cmp :: "u32 \<Rightarrow> jval list \<Rightarrow> jval list option" where
  "float_cmp nan (VF b # VF a # s) =
     Some ((if f32_nan a \<or> f32_nan b then VI nan else three_way (f32_key a) (f32_key b)) # s)"
| "float_cmp nan _ = None"

fun double_cmp :: "u32 \<Rightarrow> jval list \<Rightarrow> jval list option" where
  "double_cmp nan (VD b # VD a # s) =
     Some ((if f64_nan a \<or> f64_nan b then VI nan else three_way (f64_key a) (f64_key b)) # s)"
| "double_cmp nan _ = None"

fun int_conv :: "Types.tkind \<Rightarrow> jval list \<Rightarrow> jval list option" where
  "int_conv k (VI a # s) = Some (jconv k (VI a) # s)"
| "int_conv k _ = None"

fun long_to_int :: "jval list \<Rightarrow> jval list option" where
  "long_to_int (VL a # s) = Some (VI (ucast a) # s)"
| "long_to_int _ = None"

fun int_neg :: "jval list \<Rightarrow> jval list option" where
  "int_neg (VI a # s) = Some (VI (- a) # s)"
| "int_neg _ = None"

fun long_neg :: "jval list \<Rightarrow> jval list option" where
  "long_neg (VL a # s) = Some (VL (- a) # s)"
| "long_neg _ = None"

definition op_effect :: "opcode \<Rightarrow> jval list \<Rightarrow> jval list option" where
  "op_effect c =
     (if c = Iadd then int2 ADD else if c = Isub then int2 SUB else if c = Imul then int2 MUL
      else if c = Idiv then int2 QUO else if c = Irem then int2 REM else if c = Iand then int2 AND_OP
      else if c = Ior then int2 OR_OP else if c = Ixor then int2 XOR_OP
      else if c = Ladd then long2 ADD else if c = Lsub then long2 SUB else if c = Lmul then long2 MUL
      else if c = Ldiv then long2 QUO else if c = Lrem then long2 REM else if c = Land then long2 AND_OP
      else if c = Lor then long2 OR_OP else if c = Lxor then long2 XOR_OP
      else if c = Ishl then ishift SHL else if c = Ishr then ishift SHR else if c = Iushr then ishift USHR
      else if c = Lshl then lshift SHL else if c = Lshr then lshift SHR else if c = Lushr then lshift USHR
      else if c = Lcmp then long_cmp
      else if c = Fcmpl then float_cmp (- 1) else if c = Fcmpg then float_cmp 1
      else if c = Dcmpl then double_cmp (- 1) else if c = Dcmpg then double_cmp 1
      else if c = Ineg then int_neg else if c = Lneg then long_neg
      else if c = I2l then int_conv KindLong else if c = I2b then int_conv KindByte
      else if c = I2c then int_conv KindChar else if c = I2s then int_conv KindShort
      else if c = L2i then long_to_int
      else (\<lambda>s. None))"

text \<open>A conditional jump: whether it is taken, and the stack it leaves.\<close>

fun zero_test :: "(int \<Rightarrow> bool) \<Rightarrow> jval list \<Rightarrow> (bool \<times> jval list) option" where
  "zero_test p (VI a # s) = Some (p (sint a), s)"
| "zero_test p _ = None"

fun int_test :: "(int \<Rightarrow> int \<Rightarrow> bool) \<Rightarrow> jval list \<Rightarrow> (bool \<times> jval list) option" where
  "int_test p (VI b # VI a # s) = Some (p (sint a) (sint b), s)"
| "int_test p _ = None"

fun ref_test :: "(nat option \<Rightarrow> nat option \<Rightarrow> bool) \<Rightarrow> jval list \<Rightarrow> (bool \<times> jval list) option" where
  "ref_test p (VA b # VA a # s) = Some (p a b, s)"
| "ref_test p _ = None"

fun null_test :: "(nat option \<Rightarrow> bool) \<Rightarrow> jval list \<Rightarrow> (bool \<times> jval list) option" where
  "null_test p (VA a # s) = Some (p a, s)"
| "null_test p _ = None"

primrec cond_effect :: "cond \<Rightarrow> jval list \<Rightarrow> (bool \<times> jval list) option" where
  "cond_effect CondEq = zero_test (\<lambda>a. a = 0)"
| "cond_effect CondNe = zero_test (\<lambda>a. a \<noteq> 0)"
| "cond_effect CondLt = zero_test (\<lambda>a. a < 0)"
| "cond_effect CondGe = zero_test (\<lambda>a. a \<ge> 0)"
| "cond_effect CondGt = zero_test (\<lambda>a. a > 0)"
| "cond_effect CondLe = zero_test (\<lambda>a. a \<le> 0)"
| "cond_effect CondICmpEq = int_test (\<lambda>a b. a = b)"
| "cond_effect CondICmpNe = int_test (\<lambda>a b. a \<noteq> b)"
| "cond_effect CondICmpLt = int_test (\<lambda>a b. a < b)"
| "cond_effect CondICmpGe = int_test (\<lambda>a b. a \<ge> b)"
| "cond_effect CondICmpGt = int_test (\<lambda>a b. a > b)"
| "cond_effect CondICmpLe = int_test (\<lambda>a b. a \<le> b)"
| "cond_effect CondACmpEq = ref_test (\<lambda>a b. a = b)"
| "cond_effect CondACmpNe = ref_test (\<lambda>a b. a \<noteq> b)"
| "cond_effect CondNull = null_test (\<lambda>a. a = None)"
| "cond_effect CondNonNull = null_test (\<lambda>a. a \<noteq> None)"

fun of_local :: "local_type \<Rightarrow> jval \<Rightarrow> bool" where
  "of_local LocalI (VI a) = True"
| "of_local LocalL (VL a) = True"
| "of_local LocalF (VF a) = True"
| "of_local LocalD (VD a) = True"
| "of_local LocalA (VA a) = True"
| "of_local _ _ = False"

section \<open>The machine\<close>

type_synonym jstate = "nat \<times> jval list \<times> (nat \<Rightarrow> jval)"

definition mark_pos :: "code_op list \<Rightarrow> label_id \<Rightarrow> nat" where
  "mark_pos P l = length (takeWhile (\<lambda>c. c \<noteq> DoMark l) P)"

fun exec_op :: "code_op list \<Rightarrow> code_op \<Rightarrow> jstate \<Rightarrow> jstate option" where
  "exec_op P DoNewLabel (i, s, loc) = Some (i + 1, s, loc)"
| "exec_op P (DoMark l) (i, s, loc) = Some (i + 1, s, loc)"
| "exec_op P (DoLine n) (i, s, loc) = Some (i + 1, s, loc)"
| "exec_op P (DoLoad t n) (i, s, loc) = (if of_local t (loc (nat n)) then Some (i + 1, loc (nat n) # s, loc) else None)"
| "exec_op P (DoStore t n) (i, s, loc) =
     (case s of v # s' \<Rightarrow> if of_local t v then Some (i + 1, s', loc(nat n := v)) else None | [] \<Rightarrow> None)"
| "exec_op P (DoIconst v) (i, s, loc) = Some (i + 1, VI v # s, loc)"
| "exec_op P (DoLconst v) (i, s, loc) = Some (i + 1, VL v # s, loc)"
| "exec_op P (DoFconst v) (i, s, loc) = Some (i + 1, VF v # s, loc)"
| "exec_op P (DoDconst v) (i, s, loc) = Some (i + 1, VD v # s, loc)"
| "exec_op P DoAconstNull (i, s, loc) = Some (i + 1, VA None # s, loc)"
| "exec_op P (DoOp c) (i, s, loc) = map_option (\<lambda>s'. (i + 1, s', loc)) (op_effect c s)"
| "exec_op P (DoGoto l) (i, s, loc) = Some (mark_pos P l, s, loc)"
| "exec_op P (DoIf k l) (i, s, loc) =
     map_option (\<lambda>(b, s'). (if b then mark_pos P l else i + 1, s', loc)) (cond_effect k s)"
| "exec_op P _ _ = None"

definition jstep :: "code_op list \<Rightarrow> jstate \<Rightarrow> jstate option" where
  "jstep P st = (if fst st < length P then exec_op P (P ! fst st) st else None)"

inductive runs :: "code_op list \<Rightarrow> jstate \<Rightarrow> jstate \<Rightarrow> bool" for P where
  stop: "runs P s s"
| go: "jstep P s = Some t \<Longrightarrow> runs P t u \<Longrightarrow> runs P s u"

lemma runs_trans: "runs P s t \<Longrightarrow> runs P t u \<Longrightarrow> runs P s u"
  by (induction rule: runs.induct) (auto intro: runs.intros)

section \<open>Code in place\<close>

definition at_pc :: "code_op list \<Rightarrow> nat \<Rightarrow> code_op list \<Rightarrow> bool" where
  "at_pc P i c \<longleftrightarrow> take (length c) (drop i P) = c"

definition is_mark :: "code_op \<Rightarrow> bool" where
  "is_mark c = (case c of DoMark l \<Rightarrow> True | _ \<Rightarrow> False)"

definition marks_unique :: "code_op list \<Rightarrow> bool" where
  "marks_unique P \<longleftrightarrow> distinct (filter is_mark P)"

lemma at_pc_Nil [simp]: "at_pc P i []"
  by (simp add: at_pc_def)

lemma at_pc_Cons: "at_pc P i (c # b) \<longleftrightarrow> i < length P \<and> P ! i = c \<and> at_pc P (i + 1) b"
proof (cases "i < length P")
  case True
  then show ?thesis by (simp add: at_pc_def flip: Cons_nth_drop_Suc)
qed (simp add: at_pc_def)

lemma at_pc_append: "at_pc P i (a @ b) \<longleftrightarrow> at_pc P i a \<and> at_pc P (i + length a) b"
  by (induction a arbitrary: i) (auto simp: at_pc_Cons)

lemma runs_op:
  "at_pc P i [c] \<Longrightarrow> exec_op P c (i, s, loc) = Some t \<Longrightarrow> runs P (i, s, loc) t"
  by (rule runs.go [OF _ runs.stop]) (simp add: jstep_def at_pc_Cons)

lemma mark_pos_at:
  assumes "marks_unique P" "at_pc P i [DoMark l]"
  shows "mark_pos P l = i"
proof -
  have i: "i < length P" "P ! i = DoMark l" using assms(2) by (simp_all add: at_pc_Cons)
  then have P: "P = take i P @ DoMark l # drop (Suc i) P" using id_take_nth_drop [of i P] by simp
  have "filter is_mark (take i P @ DoMark l # drop (Suc i) P) = filter is_mark (take i P) @ DoMark l # filter is_mark (drop (Suc i) P)"
    by (simp add: is_mark_def)
  then have "distinct (filter is_mark (take i P) @ DoMark l # filter is_mark (drop (Suc i) P))"
    using assms(1) P by (simp add: marks_unique_def)
  then have "DoMark l \<notin> set (take i P)" by (auto simp: is_mark_def)
  then have "takeWhile (\<lambda>c. c \<noteq> DoMark l) (take i P @ DoMark l # drop (Suc i) P) = take i P"
    by (subst takeWhile_append2) auto
  then have "takeWhile (\<lambda>c. c \<noteq> DoMark l) P = take i P" using P by simp
  then show ?thesis using i(1) by (simp add: mark_pos_def)
qed

end
