(* ===== verification/LowerSound.thy ===== *)
theory LowerSound
  imports LowerExpr FoldJava Jvm
begin

text \<open>
  Compiled expressions compute what Java says. For expressions over boolean and integral operands (constants, local variables,
  parentheses, all unary and binary operators, casts and conditional expressions, and comparisons of floating point values) that attribution has
  typed, code generation (\<^verbatim>\<open>src/lower/expr.go\<close>, \<^verbatim>\<open>src/lower/cond.go\<close>, \<^verbatim>\<open>src/lower/convert.go\<close>) succeeds, and running the calls it makes pushes the value
  of the expression; a condition jumps exactly when it should. Comparisons with a NaN are left out, since the code gets them wrong. This theory
  holds what the property says: the value of an expression, the expressions covered, and what emitted code does; \<open>LowerOps\<close> proves
  conversions and operators, \<open>LowerCond\<close> conditions, and \<open>LowerCorrect\<close> the expressions and the property.
\<close>

section \<open>The value of an expression\<close>

definition kx :: "lowCtx \<Rightarrow> expr \<Rightarrow> Types.tkind" where
  "kx cx x = Kind (cx_Type cx x)"

text \<open>A value of a kind, in the range of the kind.\<close>

fun val_ok :: "Types.tkind \<Rightarrow> jval \<Rightarrow> bool" where
  "val_ok k (VI w) \<longleftrightarrow>
     k \<in> {KindByte, KindShort, KindChar, KindInt} \<and> int_to k w = w \<or> k = KindBoolean \<and> (w = 0 \<or> w = 1)"
| "val_ok k (VL w) \<longleftrightarrow> k = KindLong"
| "val_ok k (VF w) \<longleftrightarrow> k = KindFloat"
| "val_ok k (VD w) \<longleftrightarrow> k = KindDouble"
| "val_ok k (VA r) \<longleftrightarrow> False"

definition const_or :: "lowCtx \<Rightarrow> expr \<Rightarrow> jval option \<Rightarrow> jval option" where
  "const_or cx x r = (case cx_Const cx x of Some k \<Rightarrow> konst_jval (kx cx x) k | None \<Rightarrow> r)"

text \<open>JLS 15, given the types and the constants attribution recorded. An expression whose evaluation would throw, or compare
  a NaN, has no value here.\<close>

fun jeval :: "lowCtx \<Rightarrow> slotMap \<Rightarrow> (nat \<Rightarrow> jval) \<Rightarrow> expr \<Rightarrow> jval option" where
  "jeval cx sl loc (Ident i) = const_or cx (Ident i)
     (case cx_Use cx (Ident i) of
        Some (SymVar v) \<Rightarrow>
          (case smOf sl v of Some n \<Rightarrow> if val_ok (Kind (lcFieldType cx v)) (loc n) then Some (loc n) else None | None \<Rightarrow> None)
      | _ \<Rightarrow> None)"
| "jeval cx sl loc (ParenExpr s y) = const_or cx (ParenExpr s y) (jeval cx sl loc y)"
| "jeval cx sl loc (UnaryExpr s op y) = const_or cx (UnaryExpr s op y)
     (Option.bind (jeval cx sl loc y) (java_unary op (kx cx y)))"
| "jeval cx sl loc (BinaryExpr s x op y) = const_or cx (BinaryExpr s x op y)
     (Option.bind (jeval cx sl loc x) (\<lambda>a.
        if op = LAND \<and> a = jbool False \<or> op = LOR \<and> a = jbool True then Some a
        else Option.bind (jeval cx sl loc y) (\<lambda>b.
          if nan_among a b then None else java_binary op (kx cx x) (kx cx y) a b)))"
| "jeval cx sl loc (CastExpr s t bs y) = const_or cx (CastExpr s t bs y)
     (map_option (jconv (kx cx (CastExpr s t bs y))) (jeval cx sl loc y))"
| "jeval cx sl loc (CondExpr s c x y) = const_or cx (CondExpr s c x y)
     (Option.bind (jeval cx sl loc c) (\<lambda>b.
        map_option (jconv (kx cx (CondExpr s c x y))) (if b = jbool True then jeval cx sl loc x else jeval cx sl loc y)))"
| "jeval cx sl loc x = const_or cx x None"

text \<open>The expressions covered, with the types attribution gives them.\<close>

definition basic :: "lowCtx \<Rightarrow> expr \<Rightarrow> bool" where
  "basic cx x \<longleftrightarrow> cx_Type cx x = Basic (kx cx x)"

definition const_and :: "lowCtx \<Rightarrow> expr \<Rightarrow> bool \<Rightarrow> bool" where
  "const_and cx x r \<longleftrightarrow> basic cx x \<and>
     (case cx_Const cx x of
        Some k \<Rightarrow> (case konst_jval (kx cx x) k of Some v \<Rightarrow> val_ok (kx cx x) v | None \<Rightarrow> False)
      | None \<Rightarrow> r)"

definition same_sort :: "Types.tkind \<Rightarrow> Types.tkind \<Rightarrow> bool" where
  "same_sort k l \<longleftrightarrow> k \<in> int_kinds \<and> l \<in> int_kinds \<or> k = KindBoolean \<and> l = KindBoolean"

fun typed :: "lowCtx \<Rightarrow> slotMap \<Rightarrow> expr \<Rightarrow> bool" where
  "typed cx sl (Ident i) = const_and cx (Ident i)
     (case cx_Use cx (Ident i) of
        Some (SymVar v) \<Rightarrow> captureOf cx v = None \<and> vsVar (lcVar cx v) \<noteq> VarField \<and> smOf sl v \<noteq> None \<and>
          lcFieldType cx v = cx_Type cx (Ident i) \<and> IsPrimitive (kx cx (Ident i))
      | _ \<Rightarrow> False)"
| "typed cx sl (ParenExpr s y) = const_and cx (ParenExpr s y)
     (typed cx sl y \<and> cx_Type cx y = cx_Type cx (ParenExpr s y))"
| "typed cx sl (UnaryExpr s op y) = const_and cx (UnaryExpr s op y)
     (typed cx sl y \<and> op \<in> {ADD, SUB, TILDE, NOT_OP} \<and> kx cx y \<in> insert KindBoolean int_kinds \<and>
      attr_unary (lcHeap cx) op (cx_Type cx y) = (cx_Type cx (UnaryExpr s op y), []))"
| "typed cx sl (BinaryExpr s x op y) = const_and cx (BinaryExpr s x op y)
     (typed cx sl x \<and> typed cx sl y \<and> op \<in> shift_ops \<union> cmp_ops \<union> arith_ops \<union> {LAND, LOR} \<and>
      (same_sort (kx cx x) (kx cx y) \<or> op \<in> cmp_ops \<and> kx cx x = kx cx y \<and> kx cx x \<in> {KindFloat, KindDouble}) \<and>
      attr_binary (lcHeap cx) op (cx_Type cx x) (cx_Type cx y) = Some (cx_Type cx (BinaryExpr s x op y), []))"
| "typed cx sl (CastExpr s t bs y) = const_and cx (CastExpr s t bs y)
     (typed cx sl y \<and> same_sort (kx cx y) (kx cx (CastExpr s t bs y)))"
| "typed cx sl (CondExpr s c x y) = const_and cx (CondExpr s c x y)
     (typed cx sl c \<and> typed cx sl x \<and> typed cx sl y \<and> kx cx c = KindBoolean \<and>
      same_sort (kx cx x) (kx cx (CondExpr s c x y)) \<and> same_sort (kx cx y) (kx cx (CondExpr s c x y)))"
| "typed cx sl x = const_and cx x False"

section \<open>Emitted code\<close>

text \<open>What an emitter action appends satisfies \<open>Q\<close>, and it leaves the slots alone.\<close>

definition code_for :: "slotMap \<Rightarrow> unit emit \<Rightarrow> (code_op list \<Rightarrow> bool) \<Rightarrow> bool" where
  "code_for sl em Q \<longleftrightarrow> (\<forall>e. emSlots e = sl \<longrightarrow>
     (\<exists>c e'. em e = Ret () e' \<and> emCode e' = emCode e @ c \<and> emSlots e' = sl \<and> Q c))"

lemma code_for_mono: "code_for sl em Q \<Longrightarrow> (\<And>c. Q c \<Longrightarrow> R c) \<Longrightarrow> code_for sl em R"
  unfolding code_for_def by blast

lemma code_for_bind:
  assumes "code_for sl a Q" "code_for sl b R" "\<And>c d. Q c \<Longrightarrow> R d \<Longrightarrow> S (c @ d)"
  shows "code_for sl (em_bind a (\<lambda>_. b)) S"
  unfolding code_for_def
proof (intro allI impI)
  fix e :: emitter assume "emSlots e = sl"
  then obtain c e1 where 1: "a e = Ret () e1" "emCode e1 = emCode e @ c" "emSlots e1 = sl" "Q c" using assms(1) by (auto simp: code_for_def)
  obtain d e2 where 2: "b e1 = Ret () e2" "emCode e2 = emCode e1 @ d" "emSlots e2 = sl" "R d" using assms(2) 1(3) by (auto simp: code_for_def)
  show "\<exists>c e'. em_bind a (\<lambda>_. b) e = Ret () e' \<and> emCode e' = emCode e @ c \<and> emSlots e' = sl \<and> S c"
    using 1 2 assms(3) [OF 1(4) 2(4)] by (intro exI [of _ "c @ d"] exI [of _ e2]) (simp add: em_bind_def)
qed

lemma code_for_ret [simp]: "code_for sl (ret ()) Q \<longleftrightarrow> Q []"
  and code_for_call1 [simp]: "code_for sl (call1 k) Q \<longleftrightarrow> Q [k]"
  and code_for_alive [simp]: "code_for sl (set_alive b) Q \<longleftrightarrow> Q []"
  by (auto simp: code_for_def ret_def call1_def set_alive_def intro: exI [of _ "\<lparr>emCode = [], emLabels = 0, emSlots = sl, emAlive = True\<rparr>"])

lemma code_for_label:
  assumes "\<And>l. code_for sl (f l) (\<lambda>c. Q (DoNewLabel # c))"
  shows "code_for sl (em_bind newLabel f) Q"
  unfolding code_for_def
proof (intro allI impI)
  fix e :: emitter assume e: "emSlots e = sl"
  let ?e = "e\<lparr>emCode := emCode e @ [DoNewLabel], emLabels := emLabels e + 1\<rparr>"
  obtain c e1 where "f (emLabels e) ?e = Ret () e1" "emCode e1 = emCode ?e @ c" "emSlots e1 = sl" "Q (DoNewLabel # c)"
    using assms [of "emLabels e", unfolded code_for_def, rule_format, of ?e] e by auto
  then show "\<exists>c e'. em_bind newLabel f e = Ret () e' \<and> emCode e' = emCode e @ c \<and> emSlots e' = sl \<and> Q c"
    by (intro exI [of _ "DoNewLabel # c"] exI [of _ e1]) (simp add: em_bind_def newLabel_def)
qed

lemma code_for_seqs:
  "code_for sl (seqs []) Q \<longleftrightarrow> Q []"
  "code_for sl a R \<Longrightarrow> code_for sl (seqs as) S \<Longrightarrow> (\<And>c d. R c \<Longrightarrow> S d \<Longrightarrow> Q (c @ d)) \<Longrightarrow> code_for sl (seqs (a # as)) Q"
  by (simp_all add: code_for_bind)

section \<open>What code does\<close>

text \<open>Straight code: from its start to its end, changing the stack.\<close>

definition does :: "(nat \<Rightarrow> jval) \<Rightarrow> code_op list \<Rightarrow> jval list \<Rightarrow> jval list \<Rightarrow> bool" where
  "does loc c s t \<longleftrightarrow> (\<forall>P i. at_pc P i c \<and> marks_unique P \<longrightarrow> runs P (i, s, loc) (i + length c, t, loc))"

definition pushes :: "(nat \<Rightarrow> jval) \<Rightarrow> jval \<Rightarrow> code_op list \<Rightarrow> bool" where
  "pushes loc v c \<longleftrightarrow> (\<forall>s. does loc c s (v # s))"

text \<open>A branch: to the label if the condition holds, else to its end.\<close>

definition branches :: "(nat \<Rightarrow> jval) \<Rightarrow> bool \<Rightarrow> label_id \<Rightarrow> code_op list \<Rightarrow> bool" where
  "branches loc b l c \<longleftrightarrow> (\<forall>P i s. at_pc P i c \<and> marks_unique P \<longrightarrow>
     runs P (i, s, loc) (if b then mark_pos P l else i + length c, s, loc))"

lemma does_Nil [simp]: "does loc [] s s"
  by (simp add: does_def runs.stop)

lemma does_append:
  assumes "does loc c s t" "does loc d t u"
  shows "does loc (c @ d) s u"
  unfolding does_def at_pc_append
proof (intro allI impI; elim conjE)
  fix P i assume "at_pc P i c" "at_pc P (i + length c) d" "marks_unique P"
  then have r: "runs P (i, s, loc) (i + length c, t, loc)" "runs P (i + length c, t, loc) (i + length c + length d, u, loc)"
    using assms by (simp_all add: does_def)
  show "runs P (i, s, loc) (i + length (c @ d), u, loc)" using runs_trans [OF r] by (simp add: add.assoc)
qed

lemma does_op: "(\<And>P i. exec_op P k (i, s, loc) = Some (i + 1, t, loc)) \<Longrightarrow> does loc [k] s t"
  unfolding does_def by (auto intro!: runs_op)

lemma does_opcode: "op_effect c s = Some t \<Longrightarrow> does loc [DoOp c] s t"
  by (rule does_op) simp

lemma pushes_does: "pushes loc v c \<Longrightarrow> does loc c s (v # s)"
  by (simp add: pushes_def)

section \<open>Values have their kind\<close>

lemma int_to_idem [simp]: "int_to k (int_to k w) = int_to k w"
proof -
  have b: "(ucast (scast (x :: 8 word) :: u32) :: 8 word) = x" for x by (rule bit_word_eqI) (simp add: bit_simps)
  have s: "(ucast (scast (x :: 16 word) :: u32) :: 16 word) = x" for x by (rule bit_word_eqI) (simp add: bit_simps)
  have c: "(ucast (ucast (x :: 16 word) :: u32) :: 16 word) = x" for x by (rule bit_word_eqI) (simp add: bit_simps)
  consider "k = KindByte" | "k = KindShort" | "k = KindChar" | "k \<notin> {KindByte, KindShort, KindChar}" by blast
  then show ?thesis
  proof cases
    case 1 then show ?thesis by (simp only: int_to_def if_True refl b)
  next
    case 2 then show ?thesis by (simp only: int_to_def if_True if_False refl Types.tkind.distinct s)
  next
    case 3 then show ?thesis by (simp only: int_to_def if_True if_False refl Types.tkind.distinct c)
  next
    case 4 then show ?thesis by (simp add: int_to_def)
  qed
qed

lemma int_to_int [simp]: "int_to KindInt w = w" "int_to KindLong w = w" "int_to KindBoolean w = w"
  by (simp_all add: int_to_def)

lemma int_kinds_cases: "k \<in> int_kinds \<longleftrightarrow> k = KindLong \<or> k \<in> {KindByte, KindShort, KindChar, KindInt}"
  by (auto simp: int_kinds_def)

lemma val_ok_int: "k \<in> int_kinds \<Longrightarrow> val_ok k v \<Longrightarrow> (if k = KindLong then \<exists>w. v = VL w else \<exists>w. v = VI w \<and> int_to k w = w)"
  by (cases v) (auto simp: int_kinds_def)

lemma val_ok_bool: "val_ok KindBoolean v \<longleftrightarrow> (\<exists>b. v = jbool b)"
  by (cases v) (auto simp: jbool_def split: if_splits)

lemma val_conv:
  assumes "same_sort k l" "val_ok k v"
  shows "val_ok l (jconv l v)"
proof (cases "k = KindBoolean")
  case True
  then have "l = KindBoolean" using assms(1) by (auto simp: same_sort_def int_kinds_def)
  moreover obtain b where "v = jbool b" using assms(2) True by (auto simp: val_ok_bool)
  ultimately show ?thesis by (cases b) simp_all
next
  case False
  then have k: "k \<in> int_kinds" "l \<in> int_kinds" using assms(1) by (auto simp: same_sort_def)
  have "l = KindLong \<or> l \<in> {KindByte, KindShort, KindChar, KindInt}" using k(2) by (simp add: int_kinds_cases)
  then show ?thesis using val_ok_int [OF k(1) assms(2)] by (auto split: if_splits)
qed

lemma const_and_val: "const_and cx x r \<Longrightarrow> cx_Const cx x = Some k \<Longrightarrow> konst_jval (kx cx x) k = Some v \<Longrightarrow> val_ok (kx cx x) v"
  by (auto simp: const_and_def split: option.splits)

lemma typed_basic: "typed cx sl x \<Longrightarrow> basic cx x"
  by (cases x) (auto simp: const_and_def)

lemma promoted_kinds:
  "kl \<in> int_kinds \<Longrightarrow> kr \<in> int_kinds \<Longrightarrow> promoted kl kr \<in> {KindInt, KindLong} \<and> same_sort kl (promoted kl kr) \<and> same_sort kr (promoted kl kr)"
  by (auto simp: promoted_int same_sort_def int_kinds_def)

lemma bin_arith_ok: "val_ok p a \<Longrightarrow> p \<in> {KindInt, KindLong} \<Longrightarrow> bin_arith op a b = Some v \<Longrightarrow> val_ok p v"
  by (cases "(op, a, b)" rule: bin_arith.cases) auto

lemma bin_shift_ok: "val_ok p a \<Longrightarrow> p \<in> {KindInt, KindLong} \<Longrightarrow> bin_shift op a b = Some v \<Longrightarrow> val_ok p v"
  by (cases "(op, a, b)" rule: bin_shift.cases) auto

lemma java_unary_ok:
  assumes k: "k \<in> insert KindBoolean int_kinds" and v: "val_ok k a" "java_unary op k a = Some v"
    and u: "attr_unary h op (Basic k) = (t, [])" "op \<in> {ADD, SUB, TILDE, NOT_OP}"
  shows "val_ok (Kind t) v" "k = KindBoolean \<Longrightarrow> op = NOT_OP \<and> t = Basic KindBoolean" "k \<noteq> KindBoolean \<Longrightarrow> op \<noteq> NOT_OP \<and> t = Promote (Basic k)"
proof -
  show 1: "k = KindBoolean \<Longrightarrow> op = NOT_OP \<and> t = Basic KindBoolean"
    using u by (auto simp: attr_unary_def Let_def split: if_splits)
  show 2: "k \<noteq> KindBoolean \<Longrightarrow> op \<noteq> NOT_OP \<and> t = Promote (Basic k)"
    using u k by (auto simp: attr_unary_def Let_def split: if_splits)
  show "val_ok (Kind t) v"
  proof (cases "k = KindBoolean")
    case True
    then obtain b where "a = jbool b" using v(1) by (auto simp: val_ok_bool)
    then show ?thesis using 1 [OF True] v(2) by (cases b) (auto simp: java_unary_def)
  next
    case False
    then have k': "k \<in> int_kinds" using k by simp
    show ?thesis using 2 [OF False] v(2) val_ok_int [OF k' v(1)] u(2)
      by (auto simp: java_unary_def promote_int [OF k'] split: if_splits)
  qed
qed

end
