(* ===== verification/LowerOps.thy ===== *)
theory LowerOps
  imports LowerSound
begin

text \<open>
  What the pieces of emitted code do when they run: conversions, operators and comparisons, as lemmas that relate the opcode
  the code generator chooses (\<^verbatim>\<open>src/lower/expr.go\<close>, \<^verbatim>\<open>src/lower/convert.go\<close>, \<^verbatim>\<open>src/lower/cond.go\<close>) to the operator of the language.
\<close>

section \<open>Conversions\<close>

lemma op_effects:
  "op_effect I2l = int_conv KindLong" "op_effect I2b = int_conv KindByte" "op_effect I2c = int_conv KindChar"
  "op_effect I2s = int_conv KindShort" "op_effect L2i = long_to_int" "op_effect Lcmp = long_cmp"
  "op_effect Fcmpl = float_cmp (- 1)" "op_effect Fcmpg = float_cmp 1" "op_effect Dcmpl = double_cmp (- 1)"
  "op_effect Dcmpg = double_cmp 1" "op_effect Ineg = int_neg" "op_effect Lneg = long_neg"
  "op_effect Ixor = int2 XOR_OP" "op_effect Lxor = long2 XOR_OP"
  by (simp_all add: op_effect_def)

text \<open>The kinds between which the operators covered convert.\<close>

definition conv_ok :: "Types.tkind \<Rightarrow> Types.tkind \<Rightarrow> bool" where
  "conv_ok k p \<longleftrightarrow> same_sort k p \<or> k = KindBoolean \<and> p = KindInt \<or> k = p \<and> k \<in> {KindFloat, KindDouble}"

definition converts :: "(nat \<Rightarrow> jval) \<Rightarrow> Types.tkind \<Rightarrow> Types.tkind \<Rightarrow> code_op list \<Rightarrow> bool" where
  "converts loc k p c \<longleftrightarrow> (\<forall>v s. val_ok k v \<longrightarrow> does loc c (v # s) (jconv p v # s))"

lemma converts_Nil: "(\<And>v. val_ok k v \<Longrightarrow> jconv p v = v) \<Longrightarrow> converts loc k p []"
  by (simp add: converts_def)

lemma converts_op: "(\<And>v s. val_ok k v \<Longrightarrow> op_effect c (v # s) = Some (jconv p v # s)) \<Longrightarrow> converts loc k p [DoOp c]"
  by (auto simp: converts_def intro: does_opcode)

lemma converts_two:
  assumes "\<And>v s. val_ok k v \<Longrightarrow> op_effect c (v # s) = Some (jconv q v # s)"
    "\<And>v s. val_ok k v \<Longrightarrow> op_effect d (jconv q v # s) = Some (jconv p v # s)"
  shows "converts loc k p [DoOp c, DoOp d]"
  unfolding converts_def
proof (intro allI impI)
  fix v s assume v: "val_ok k v"
  show "does loc [DoOp c, DoOp d] (v # s) (jconv p v # s)"
    using does_append [OF does_opcode [OF assms(1) [OF v]] does_opcode [OF assms(2) [OF v]]] by simp
qed

lemma val_int_shape: "val_ok k v \<Longrightarrow> k \<in> {KindByte, KindShort, KindChar, KindInt, KindBoolean} \<Longrightarrow> \<exists>w. v = VI w"
  by (cases v) auto

lemma em_bind_ret [simp]: "em_bind a ret = a"
  by (auto simp: em_bind_def ret_def fun_eq_iff split: out.split)

lemma code_for_two: "code_for sl (em_bind (opc a) (\<lambda>_. opc b)) Q \<longleftrightarrow> Q [DoOp a, DoOp b]"
  by (auto simp: code_for_def opc_def call1_def em_bind_def ret_def
      intro: exI [of _ "\<lparr>emCode = [], emLabels = 0, emSlots = sl, emAlive = True\<rparr>"])

lemma code_for_opc [simp]: "code_for sl (opc c) Q \<longleftrightarrow> Q [DoOp c]"
  by (simp add: opc_def)

lemma convert_basic: "IsPrimitive k \<Longrightarrow> IsPrimitive p \<Longrightarrow> convert cx (Basic k) (Basic p) = primitive k p"
  by (auto simp: convert_def IsPrimitive_def)

lemma conv_same: "k = p \<Longrightarrow> val_ok k v \<Longrightarrow> conv_ok k p \<Longrightarrow> jconv p v = v"
  by (cases v) (auto simp: conv_ok_def same_sort_def int_kinds_def)

lemma from_int:
  assumes "k \<in> {KindByte, KindShort, KindChar, KindInt}" "p \<in> int_kinds"
  shows "code_for sl (prim_int p) (converts loc k p)"
proof -
  have v: "\<exists>w. v = VI w \<and> int_to k w = w" if "val_ok k v" for v using val_ok_int [of k v] that assms(1) by (auto simp: int_kinds_def)
  have "p = KindLong \<or> p = KindByte \<or> p = KindShort \<or> p = KindChar \<or> p = KindInt" using assms(2) by (auto simp: int_kinds_def)
  then show ?thesis
    by (elim disjE) (auto simp: prim_int_def op_effects intro!: converts_op converts_Nil dest!: v)
qed

lemma from_long:
  assumes "p \<in> int_kinds" "p \<noteq> KindLong"
  shows "code_for sl (primitive KindLong p) (converts loc KindLong p)"
proof -
  have v: "\<exists>w. v = VL w" if "val_ok KindLong v" for v using val_ok_int [of KindLong v] that by (auto simp: int_kinds_def)
  have "p = KindByte \<or> p = KindShort \<or> p = KindChar \<or> p = KindInt" using assms by (auto simp: int_kinds_def)
  then show ?thesis
    by (elim disjE) (auto simp: primitive_def prim_int_def op_effects code_for_two intro!: converts_op converts_two [where q = KindInt] dest!: v)
qed

lemma convert_code:
  assumes "conv_ok k p"
  shows "code_for sl (convert cx (Basic k) (Basic p)) (converts loc k p)"
proof -
  have p: "IsPrimitive k" "IsPrimitive p" using assms by (auto simp: conv_ok_def same_sort_def int_kinds_def IsPrimitive_def)
  consider "k = p" | "k = KindBoolean" "p = KindInt" | "k \<noteq> p" "k \<in> {KindByte, KindShort, KindChar, KindInt}" "p \<in> int_kinds"
    | "k = KindLong" "p \<in> int_kinds" "p \<noteq> KindLong"
    using assms by (auto simp: conv_ok_def same_sort_def int_kinds_cases)
  then show ?thesis
  proof cases
    case 1
    then have "convert cx (Basic k) (Basic p) = ret ()" using convert_basic [OF p] by (simp add: primitive_def)
    then show ?thesis using assms conv_same [OF 1] by (auto intro!: converts_Nil)
  next
    case 2 then show ?thesis by (auto simp: convert_basic IsPrimitive_def primitive_def prim_int_def val_ok_bool jbool_def intro!: converts_Nil)
  next
    case 3 then show ?thesis using from_int by (simp add: convert_basic [OF p] primitive_def)
  next
    case 4 then show ?thesis using from_long convert_basic [OF p] by simp
  qed
qed

section \<open>Operators\<close>

definition operates :: "(nat \<Rightarrow> jval) \<Rightarrow> Types.tkind \<Rightarrow> Types.tkind \<Rightarrow> (jval \<Rightarrow> jval \<Rightarrow> jval option) \<Rightarrow> code_op list \<Rightarrow> bool" where
  "operates loc p q f c \<longleftrightarrow> (\<forall>a b v s. val_ok p a \<and> val_ok q b \<and> f a b = Some v \<longrightarrow> does loc c (b # a # s) (v # s))"

lemma operates_op:
  assumes "\<And>a b s. val_ok p a \<Longrightarrow> val_ok q b \<Longrightarrow> op_effect c (b # a # s) = map_option (\<lambda>v. v # s) (f a b)"
  shows "operates loc p q f [DoOp c]"
  using assms by (auto simp: operates_def intro!: does_opcode)

lemma int_word: "val_ok KindInt v \<longleftrightarrow> (\<exists>w. v = VI w)"
  by (cases v) auto

lemma long_word: "val_ok KindLong v \<longleftrightarrow> (\<exists>w. v = VL w)"
  by (cases v) auto

lemma float_word: "val_ok KindFloat v \<longleftrightarrow> (\<exists>w. v = VF w)" "val_ok KindDouble v \<longleftrightarrow> (\<exists>w. v = VD w)"
  by (cases v; auto)+

lemma arith_effects:
  assumes "op \<in> arith_ops"
  shows "\<exists>c. arithOp op KindInt = Some c \<and> op_effect c = int2 op" "\<exists>c. arithOp op KindLong = Some c \<and> op_effect c = long2 op"
  using assms by (elim insertE emptyE; simp add: arithOp_def op_effect_def)+

lemma shift_effects:
  assumes "op \<in> shift_ops"
  shows "\<exists>c. shiftOp op KindInt = Some c \<and> op_effect c = ishift op" "\<exists>c. shiftOp op KindLong = Some c \<and> op_effect c = lshift op"
  using assms by (elim insertE emptyE; simp add: shiftOp_def op_effect_def)+

lemma arith_code:
  assumes "op \<in> arith_ops" "p \<in> {KindInt, KindLong}"
  shows "code_for sl (opc_or msg (arithOp op p)) (operates loc p p (bin_arith op))"
proof -
  obtain c d where c: "arithOp op KindInt = Some c" "op_effect c = int2 op" and d: "arithOp op KindLong = Some d" "op_effect d = long2 op"
    using arith_effects [OF assms(1)] by blast
  have i: "operates loc KindInt KindInt (bin_arith op) [DoOp c]"
    by (rule operates_op) (auto simp: c int_word option.map_comp comp_def)
  have l: "operates loc KindLong KindLong (bin_arith op) [DoOp d]"
    by (rule operates_op) (auto simp: d long_word option.map_comp comp_def)
  show ?thesis using assms(2) i l by (auto simp: opc_or_def c(1) d(1))
qed

lemma shift_code:
  assumes "op \<in> shift_ops" "p \<in> {KindInt, KindLong}"
  shows "code_for sl (opc_or msg (shiftOp op p)) (operates loc p KindInt (bin_shift op))"
proof -
  obtain c d where c: "shiftOp op KindInt = Some c" "op_effect c = ishift op" and d: "shiftOp op KindLong = Some d" "op_effect d = lshift op"
    using shift_effects [OF assms(1)] by blast
  have i: "operates loc KindInt KindInt (bin_shift op) [DoOp c]"
    by (rule operates_op) (auto simp: c int_word option.map_comp comp_def)
  have l: "operates loc KindLong KindInt (bin_shift op) [DoOp d]"
    by (rule operates_op) (auto simp: d long_word int_word option.map_comp comp_def)
  show ?thesis using assms(2) i l by (auto simp: opc_or_def c(1) d(1))
qed

section \<open>Jumps\<close>

definition jumps :: "(nat \<Rightarrow> jval) \<Rightarrow> bool \<Rightarrow> label_id \<Rightarrow> code_op list \<Rightarrow> jval list \<Rightarrow> jval list \<Rightarrow> bool" where
  "jumps loc b l c s t \<longleftrightarrow> (\<forall>P i. at_pc P i c \<and> marks_unique P \<longrightarrow>
     runs P (i, s, loc) (if b then mark_pos P l else i + length c, t, loc))"

lemma branches_jumps: "branches loc b l c \<longleftrightarrow> (\<forall>s. jumps loc b l c s s)"
  by (auto simp: branches_def jumps_def)

lemma does_jumps:
  assumes "does loc c s t" "jumps loc b l d t u"
  shows "jumps loc b l (c @ d) s u"
  unfolding jumps_def at_pc_append
proof (intro allI impI; elim conjE)
  fix P i assume "at_pc P i c" "at_pc P (i + length c) d" "marks_unique P"
  then have r: "runs P (i, s, loc) (i + length c, t, loc)"
      "runs P (i + length c, t, loc) (if b then mark_pos P l else i + length c + length d, u, loc)"
    using assms by (simp_all add: does_def jumps_def)
  show "runs P (i, s, loc) (if b then mark_pos P l else i + length (c @ d), u, loc)"
    using runs_trans [OF r] by (cases b) (simp_all add: add.assoc)
qed

lemma jumps_does:
  assumes "jumps loc False l c s t" "does loc d t u"
  shows "does loc (c @ d) s u"
proof -
  have "does loc c s t" using assms(1) by (simp add: jumps_def does_def)
  then show ?thesis using assms(2) by (rule does_append)
qed

lemma jumps_if: "cond_effect k s = Some (b, t) \<Longrightarrow> jumps loc b l [DoIf k l] s t"
  unfolding jumps_def by (auto intro!: runs_op)

lemma jumps_goto: "jumps loc True l [DoGoto l] s s"
  unfolding jumps_def by (auto intro!: runs_op)

lemma jumps_no [simp]: "jumps loc b l [] s s \<longleftrightarrow> True" if "\<not> b"
  using that by (auto simp: jumps_def runs.stop)

text \<open>A comparison of two values on the stack.\<close>

definition tests :: "(nat \<Rightarrow> jval) \<Rightarrow> Types.tkind \<Rightarrow> Token.tkind \<Rightarrow> label_id \<Rightarrow> code_op list \<Rightarrow> bool" where
  "tests loc p k l c \<longleftrightarrow> (\<forall>a b r s. val_ok p a \<and> val_ok p b \<and> \<not> nan_among a b \<and> bin_cmp k a b = Some r \<longrightarrow> jumps loc r l c (b # a # s) s)"

lemma sint_signs [simp]: "sint (1 :: u32) = 1" "sint (- 1 :: u32) = - 1"
  by simp_all

lemma int_test_code:
  assumes "k \<in> cmp_ops"
  shows "code_for sl (branchCompare k l) (tests loc KindInt k l)"
proof -
  have "\<exists>c. branchCompare k l = call1 (DoIf c l) \<and> (\<forall>a b r s. bin_cmp k (VI a) (VI b) = Some r \<longrightarrow> cond_effect c (VI b # VI a # s) = Some (r, s))"
    using assms by (elim insertE emptyE) (simp_all add: branchCompare_def jcmp_def, (intro exI conjI, rule refl, simp)+)
  then obtain c where c: "branchCompare k l = call1 (DoIf c l)"
    "\<And>a b r s. bin_cmp k (VI a) (VI b) = Some r \<Longrightarrow> cond_effect c (VI b # VI a # s) = Some (r, s)" by blast
  have "tests loc KindInt k l [DoIf c l]"
    unfolding tests_def
  proof (intro allI impI; elim conjE)
    fix a b r s assume "val_ok KindInt a" "val_ok KindInt b" and r: "bin_cmp k a b = Some r"
    then obtain x y where "a = VI x" "b = VI y" by (auto simp: int_word)
    then show "jumps loc r l [DoIf c l] (b # a # s) s" using c(2) r by (auto intro!: jumps_if)
  qed
  then show ?thesis by (simp add: c(1))
qed

lemma zero_test_code:
  assumes "k \<in> cmp_ops"
  shows "\<exists>c. branchAgainstZero k l = call1 (DoIf c l) \<and>
    (\<forall>x y r s. jcmp k x y = Some r \<longrightarrow> cond_effect c (three_way x y # s) = Some (r, s))"
  using assms by (elim insertE emptyE) (simp_all add: branchAgainstZero_def jcmp_def, (intro exI conjI, rule refl, simp add: three_way_def)+)

lemma wide_test_code:
  assumes k: "k \<in> cmp_ops" and p: "p \<in> {KindLong, KindFloat, KindDouble}"
  shows "code_for sl (seqs [opc_or msg (cmpOp p k), branchAgainstZero k l]) (tests loc p k l)"
proof -
  obtain c where c: "branchAgainstZero k l = call1 (DoIf c l)"
    "\<And>x y r s. jcmp k x y = Some r \<Longrightarrow> cond_effect c (three_way x y # s) = Some (r, s)" using zero_test_code [OF k] by blast
  have "\<exists>d. cmpOp p k = Some d \<and> (\<forall>a b r s. val_ok p a \<and> val_ok p b \<and> \<not> nan_among a b \<and> bin_cmp k a b = Some r \<longrightarrow>
      (\<exists>x y. op_effect d (b # a # s) = Some (three_way x y # s) \<and> jcmp k x y = Some r))"
    using p by (elim insertE emptyE) (auto simp: cmpOp_def op_effects long_word float_word, (intro exI conjI, rule refl, assumption)+)
  then obtain d where d: "cmpOp p k = Some d"
    "\<And>a b r s. val_ok p a \<Longrightarrow> val_ok p b \<Longrightarrow> \<not> nan_among a b \<Longrightarrow> bin_cmp k a b = Some r \<Longrightarrow>
      \<exists>x y. op_effect d (b # a # s) = Some (three_way x y # s) \<and> jcmp k x y = Some r" by blast
  have "tests loc p k l [DoOp d, DoIf c l]"
    unfolding tests_def
  proof (intro allI impI; elim conjE)
    fix a b r s assume "val_ok p a" "val_ok p b" "\<not> nan_among a b" "bin_cmp k a b = Some r"
    then obtain x y where e: "op_effect d (b # a # s) = Some (three_way x y # s)" "jcmp k x y = Some r" using d(2) by blast
    show "jumps loc r l [DoOp d, DoIf c l] (b # a # s) s"
      using does_jumps [OF does_opcode [OF e(1)] jumps_if [OF c(2) [OF e(2)]]] by simp
  qed
  then have t: "tests loc p k l ([DoOp d] @ [DoIf c l])" by simp
  show ?thesis
    by (rule code_for_seqs(2) [where R = "\<lambda>x. x = [DoOp d]" and S = "\<lambda>x. x = [DoIf c l]"])
      (use t in \<open>auto simp: opc_or_def d(1) c(1)\<close>)
qed

lemma invert_code:
  assumes "k \<in> cmp_ops"
  shows "\<exists>j. invert k = Some j \<and> j \<in> cmp_ops \<and> (\<forall>a b r. \<not> nan_among a b \<and> bin_cmp k a b = Some r \<longrightarrow> bin_cmp j a b = Some (\<not> r))"
proof -
  have "\<exists>j. invert k = Some j \<and> j \<in> cmp_ops \<and> (\<forall>x y r. jcmp k x y = Some r \<longrightarrow> jcmp j x y = Some (\<not> r)) \<and>
      (k = EQL \<longrightarrow> j = NEQ) \<and> (k = NEQ \<longrightarrow> j = EQL)"
    using assms by (elim insertE emptyE) (simp_all add: invert_def jcmp_def, auto)
  then obtain j where j: "invert k = Some j" "j \<in> cmp_ops" "\<And>x y r. jcmp k x y = Some r \<Longrightarrow> jcmp j x y = Some (\<not> r)"
    and q: "k = EQL \<longrightarrow> j = NEQ" "k = NEQ \<longrightarrow> j = EQL" by auto
  have "bin_cmp j a b = Some (\<not> r)" if n: "\<not> nan_among a b" "bin_cmp k a b = Some r" for a b r
    using n j(3) q by (cases "(k, a, b)" rule: bin_cmp.cases) (auto split: if_splits)
  then show ?thesis using j(1,2) by blast
qed

section \<open>Typed operators\<close>

lemma attr_binary_cmp:
  "attr_binary h op (Basic k) (Basic k') = Some (t, []) \<Longrightarrow> op \<in> cmp_ops \<Longrightarrow> k \<noteq> KindError \<Longrightarrow> k' \<noteq> KindError \<Longrightarrow> t = Basic KindBoolean"
  by (auto simp: attr_binary_def Let_def split: if_splits bind_splits)

definition promo :: "Types.tkind \<Rightarrow> Types.tkind \<Rightarrow> Types.tkind \<Rightarrow> bool" where
  "promo kl kr p \<longleftrightarrow> PromoteBinary (Basic kl) (Basic kr) = Basic p \<and> promoted kl kr = p \<and> conv_ok kl p \<and> conv_ok kr p"

lemma promo_int: "kl \<in> int_kinds \<Longrightarrow> kr \<in> int_kinds \<Longrightarrow> \<exists>p \<in> {KindInt, KindLong}. promo kl kr p"
  by (auto simp: promo_def promoted_def PromoteBinary_def conv_ok_def same_sort_def int_kinds_def)

lemma promo_other:
  "promo KindBoolean KindBoolean KindInt" "promo KindFloat KindFloat KindFloat" "promo KindDouble KindDouble KindDouble"
  by (auto simp: promo_def promoted_def PromoteBinary_def conv_ok_def)

lemma binary_cases:
  assumes "same_sort kl kr \<or> op \<in> cmp_ops \<and> kl = kr \<and> kl \<in> {KindFloat, KindDouble}"
    and t: "attr_binary h op (Basic kl) (Basic kr) = Some (t, [])" and o: "op \<in> shift_ops \<union> cmp_ops \<union> arith_ops \<union> {LAND, LOR}"
  obtains (shift) q where "op \<in> shift_ops" "kl \<in> int_kinds" "kr \<in> int_kinds" "q \<in> {KindInt, KindLong}" "t = Basic q"
      "Promote (Basic kl) = Basic q" "conv_ok kl q" "conv_ok kr KindInt"
    | (cmp) p where "op \<in> cmp_ops" "t = Basic KindBoolean" "promo kl kr p" "p \<in> {KindInt, KindLong, KindFloat, KindDouble}"
    | (arith) p where "op \<in> arith_ops" "promo kl kr p" "p \<in> {KindInt, KindLong}" "t = Basic (if kl = KindBoolean then KindBoolean else p)"
    | (logic) "op \<in> {LAND, LOR}" "kl = KindBoolean" "kr = KindBoolean" "t = Basic KindBoolean"
proof -
  consider (int) "kl \<in> int_kinds" "kr \<in> int_kinds" | (bool) "kl = KindBoolean" "kr = KindBoolean"
    | (float) "op \<in> cmp_ops" "kl = kr" "kl \<in> {KindFloat, KindDouble}"
    using assms(1) by (auto simp: same_sort_def)
  then show thesis
  proof cases
    case int
    note a = attr_binary_int [OF t int]
    obtain p where p: "p \<in> {KindInt, KindLong}" "promo kl kr p" using promo_int [OF int] by blast
    consider "op \<in> shift_ops" | "op \<in> cmp_ops" | "op \<in> arith_ops" using o a(4,5) by blast
    then show thesis
    proof cases
      case 1
      show thesis by (rule shift [of "if kl = KindLong then KindLong else KindInt"])
        (use 1 a(1) int promote_int [OF int(1)] in \<open>auto simp: conv_ok_def same_sort_def int_kinds_def\<close>)
    next
      case 2 then show thesis using cmp [of p] a(2) p by blast
    next
      case 3
      then have "t = Basic p" using a(3) p(2) by (simp add: promo_def)
      then show thesis using arith [of p] 3 p int by auto
    qed
  next
    case bool
    then have t': "attr_binary h op (Basic KindBoolean) (Basic KindBoolean) = Some (t, [])" using t by simp
    have op: "op \<in> {AND_OP, OR_OP, XOR_OP, LAND, LOR, EQL, NEQ}" using attr_binary_bool(1,2) [OF t'] o by blast
    note b = attr_binary_bool(3) [OF t' op]
    consider "op \<in> {LAND, LOR}" | "op \<in> {EQL, NEQ}" | "op \<in> {AND_OP, OR_OP, XOR_OP}" using op by blast
    then show thesis
    proof cases
      case 1 then show thesis using logic b bool by blast
    next
      case 2 then show thesis using cmp [of KindInt] b bool promo_other(1) by blast
    next
      case 3
      then have "op \<in> arith_ops" by blast
      then show thesis using arith [of KindInt] b bool promo_other(1) by simp
    qed
  next
    case float
    then show thesis using cmp [of kl] attr_binary_cmp [OF t float(1)] promo_other(2,3) by auto
  qed
qed

lemma val_promo: "conv_ok k p \<Longrightarrow> val_ok k v \<Longrightarrow> val_ok p (jconv p v)"
  unfolding conv_ok_def by (elim disjE) (simp add: val_conv, (cases v; auto)+)

lemma java_binary_ok:
  assumes s: "same_sort kl kr \<or> op \<in> cmp_ops \<and> kl = kr \<and> kl \<in> {KindFloat, KindDouble}"
    and t: "attr_binary h op (Basic kl) (Basic kr) = Some (t, [])" and o: "op \<in> shift_ops \<union> cmp_ops \<union> arith_ops \<union> {LAND, LOR}"
    and v: "val_ok kl a" "val_ok kr b" "java_binary op kl kr a b = Some v"
  shows "val_ok (Kind t) v"
  using s t o
proof (cases rule: binary_cases)
  case (shift q)
  then show ?thesis using v(3) bin_shift_ok [OF val_promo [OF shift(7) v(1)] shift(4)] by (auto simp: java_binary_def)
next
  case (cmp p)
  then show ?thesis using v(3) by (auto simp: java_binary_def val_ok_bool)
next
  case (arith p)
  have a: "val_ok p (jconv p a)" using arith(2) val_promo [OF _ v(1)] by (simp add: promo_def)
  have j: "bin_arith op (jconv p a) (jconv p b) = Some v" using v(3) arith(1,2) by (auto simp: java_binary_def promo_def)
  show ?thesis
  proof (cases "kl = KindBoolean")
    case True
    then have r: "kr = KindBoolean" using s arith(1) by (auto simp: same_sort_def int_kinds_def)
    then have "attr_binary h op (Basic KindBoolean) (Basic KindBoolean) = Some (t, [])" using t True by simp
    from attr_binary_bool(2) [OF this] arith(1) have k: "kr = KindBoolean" "op \<in> {AND_OP, OR_OP, XOR_OP}" using r by blast+
    obtain x y where "a = jbool x" "b = jbool y" using v(1,2) True k(1) by (auto simp: val_ok_bool)
    moreover have "p = KindInt" using arith(2) True r promo_other(1) by (simp add: promo_def)
    ultimately show ?thesis using j k(2) arith(4) True by (cases x; cases y) (auto simp: jarith_def)
  next
    case False
    then show ?thesis using bin_arith_ok [OF a arith(3) j] arith(4) by simp
  qed
next
  case logic
  obtain x y where "a = jbool x" "b = jbool y" using v(1,2) logic(2,3) by (auto simp: val_ok_bool)
  then show ?thesis using v(3) logic by (cases x; cases y) (auto simp: java_binary_def jarith_def)
qed

lemma typed_val: "typed cx sl x \<Longrightarrow> jeval cx sl loc x = Some v \<Longrightarrow> val_ok (kx cx x) v"
proof (induction cx sl loc x arbitrary: v rule: jeval.induct)
  case (1 cx sl loc i)
  then show ?case
    by (auto simp: const_or_def kx_def const_and_def basic_def split: option.splits symbol.splits if_splits)
next
  case (2 cx sl loc s y)
  then show ?case by (auto simp: const_or_def kx_def const_and_def split: option.splits)
next
  case (3 cx sl loc s op y)
  show ?case
  proof (cases "cx_Const cx (UnaryExpr s op y)")
    case None
    have t: "typed cx sl y" "op \<in> {ADD, SUB, TILDE, NOT_OP}" "kx cx y \<in> insert KindBoolean int_kinds"
        "attr_unary (lcHeap cx) op (Basic (kx cx y)) = (cx_Type cx (UnaryExpr s op y), [])"
      using 3(2) None typed_basic [of cx sl y] by (simp_all add: const_and_def basic_def)
    obtain a where a: "jeval cx sl loc y = Some a" "java_unary op (kx cx y) a = Some v"
      using 3(3) None by (auto simp: const_or_def split: bind_splits)
    show ?thesis using java_unary_ok(1) [OF t(3) 3(1) [OF t(1) a(1)] a(2) t(4,2)] by (simp add: kx_def)
  next
    case (Some k)
    then show ?thesis using const_and_val 3(2,3) by (auto simp: const_or_def)
  qed
next
  case (4 cx sl loc s x op y)
  let ?n = "BinaryExpr s x op y"
  show ?case
  proof (cases "cx_Const cx ?n")
    case None
    have t: "typed cx sl x" "typed cx sl y" "op \<in> shift_ops \<union> cmp_ops \<union> arith_ops \<union> {LAND, LOR}"
        "same_sort (kx cx x) (kx cx y) \<or> op \<in> cmp_ops \<and> kx cx x = kx cx y \<and> kx cx x \<in> {KindFloat, KindDouble}"
        "attr_binary (lcHeap cx) op (Basic (kx cx x)) (Basic (kx cx y)) = Some (cx_Type cx ?n, [])"
      using 4(3) None typed_basic [of cx sl x] typed_basic [of cx sl y] by (simp_all add: const_and_def basic_def)
    obtain a where a: "jeval cx sl loc x = Some a" using 4(4) None by (auto simp: const_or_def split: bind_splits)
    note va = 4(1) [OF t(1) a]
    show ?thesis
    proof (cases "op = LAND \<and> a = jbool False \<or> op = LOR \<and> a = jbool True")
      case True
      then have "v = a" using 4(4) None a by (simp add: const_or_def)
      moreover have "kx cx ?n = KindBoolean" using t(4,5,3) by (cases rule: binary_cases) (use True in \<open>auto simp: kx_def\<close>)
      ultimately show ?thesis using True by auto
    next
      case False
      then obtain b where b: "jeval cx sl loc y = Some b" "java_binary op (kx cx x) (kx cx y) a b = Some v"
        using 4(4) None a by (auto simp: const_or_def split: bind_splits if_splits)
      have "val_ok (kx cx y) b" by (rule 4(2) [OF a False t(2) b(1)])
      then show ?thesis using java_binary_ok [OF t(4,5,3) va _ b(2)] by (simp add: kx_def)
    qed
  next
    case (Some k)
    then show ?thesis using const_and_val 4(3,4) by (auto simp: const_or_def)
  qed
next
  case (5 cx sl loc s t bs y)
  show ?case
  proof (cases "cx_Const cx (CastExpr s t bs y)")
    case None
    then show ?thesis using 5 val_conv by (auto simp: const_or_def const_and_def)
  next
    case (Some k)
    then show ?thesis using const_and_val 5(2,3) by (auto simp: const_or_def)
  qed
next
  case (6 cx sl loc s c x y)
  show ?case
  proof (cases "cx_Const cx (CondExpr s c x y)")
    case None
    then show ?thesis using 6 val_conv by (auto simp: const_or_def const_and_def split: bind_splits if_splits)
  next
    case (Some k)
    then show ?thesis using const_and_val 6(4,5) by (auto simp: const_or_def)
  qed
qed (auto simp: const_or_def const_and_def split: option.splits)

end
