(* ===== verification/LowerCond.thy ===== *)
theory LowerCond
  imports LowerOps
begin

text \<open>
  Conditions compile to jumps (\<^verbatim>\<open>src/lower/cond.go\<close>): what good code for a value and for a condition is, how pieces of code with internal
  labels fit together, and that comparisons, negations, conjunctions and disjunctions of good code are good.
\<close>

section \<open>Good code\<close>

text \<open>Code for a value pushes it; code for a condition jumps when it has the wanted value.\<close>

definition good_value :: "lowCtx \<Rightarrow> slotMap \<Rightarrow> (nat \<Rightarrow> jval) \<Rightarrow> (expr \<Rightarrow> unit emit) \<Rightarrow> expr \<Rightarrow> bool" where
  "good_value cx sl loc ex x \<longleftrightarrow> code_for sl (ex x) (\<lambda>c. \<forall>v. jeval cx sl loc x = Some v \<longrightarrow> pushes loc v c)"

definition good_cond :: "lowCtx \<Rightarrow> slotMap \<Rightarrow> (nat \<Rightarrow> jval) \<Rightarrow> (expr \<Rightarrow> unit emit) \<Rightarrow> expr \<Rightarrow> bool" where
  "good_cond cx sl loc ex x \<longleftrightarrow> (\<forall>l when. code_for sl (lower_cond cx ex x l when)
     (\<lambda>c. \<forall>b. jeval cx sl loc x = Some (jbool b) \<longrightarrow> branches loc (b = when) l c))"

lemma em_bind_unit: "em_bind a (\<lambda>_. ret ()) = a" for a :: "unit emit"
  by (auto simp: em_bind_def ret_def fun_eq_iff split: out.split)

lemma em_bind_assoc: "em_bind (em_bind a f) g = em_bind a (\<lambda>x. em_bind (f x) g)"
  by (auto simp: em_bind_def fun_eq_iff split: out.split)

lemma typed_type: "typed cx sl x \<Longrightarrow> cx_Type cx x = Basic (kx cx x)"
  using typed_basic by (auto simp: basic_def)

lemma exprAs_code:
  assumes t: "typed cx sl x" and g: "good_value cx sl loc ex x" and k: "conv_ok (kx cx x) p"
  shows "code_for sl (exprAs cx ex x (Basic p)) (\<lambda>c. \<forall>v. jeval cx sl loc x = Some v \<longrightarrow> pushes loc (jconv p v) c)"
  unfolding exprAs_def typed_type [OF t] seqs.simps em_bind_unit
proof (rule code_for_bind [OF g [unfolded good_value_def] convert_code [OF k]], intro allI impI)
  fix c d v assume p: "\<forall>v. jeval cx sl loc x = Some v \<longrightarrow> pushes loc v c" "converts loc (kx cx x) p d" "jeval cx sl loc x = Some v"
  then show "pushes loc (jconv p v) (c @ d)"
    using typed_val [OF t p(3)] by (auto simp: pushes_def converts_def intro: does_append)
qed

section \<open>Branches\<close>

lemma branches_run:
  "branches loc b l c \<Longrightarrow> at_pc P j c \<Longrightarrow> marks_unique P \<Longrightarrow> runs P (j, s, loc) (if b then mark_pos P l else j + length c, s, loc)"
  by (simp add: branches_def)

lemma pushes_run: "pushes loc v c \<Longrightarrow> at_pc P j c \<Longrightarrow> marks_unique P \<Longrightarrow> runs P (j, s, loc) (j + length c, v # s, loc)"
  by (simp add: pushes_def does_def)

lemma branches_seq:
  assumes "branches loc p l c" "\<not> p \<Longrightarrow> branches loc q l d"
  shows "branches loc (p \<or> q) l (c @ d)"
  unfolding branches_def at_pc_append
proof (intro allI impI; elim conjE)
  fix P i s assume a: "at_pc P i c" "at_pc P (i + length c) d" "marks_unique P"
  show "runs P (i, s, loc) (if p \<or> q then mark_pos P l else i + length (c @ d), s, loc)"
  proof (cases p)
    case True
    then show ?thesis using assms(1) a by (simp add: branches_def)
  next
    case False
    have "runs P (i, s, loc) (i + length c, s, loc)" using assms(1) a False by (simp add: branches_def)
    moreover have "runs P (i + length c, s, loc) (if q then mark_pos P l else i + length c + length d, s, loc)"
      using assms(2) [OF False] a by (simp add: branches_def)
    ultimately show ?thesis using False runs_trans by (cases q) (fastforce simp: add.assoc)+
  qed
qed

text \<open>A label that is placed at the end of the code. Running to its position runs to the end.\<close>

lemma at_mark:
  assumes "marks_unique P" "at_pc P j [DoMark l]"
  shows "mark_pos P l = j" "runs P (j, s, loc) (j + 1, s, loc)"
  using mark_pos_at [OF assms] runs_op [OF assms(2), of s loc] by simp_all

lemma at_op:
  assumes "at_pc P j [k]"
  shows "k = DoNewLabel \<Longrightarrow> runs P (j, s, loc) (j + 1, s, loc)" "k = DoIconst w \<Longrightarrow> runs P (j, s, loc) (j + 1, VI w # s, loc)"
    "k = DoGoto l \<Longrightarrow> runs P (j, s, loc) (mark_pos P l, s, loc)"
  by (rule runs_op [OF assms]; simp)+

lemma branches_skip:
  assumes c: "branches loc p skip c" and d: "\<not> p \<Longrightarrow> branches loc q l d"
  shows "branches loc (\<not> p \<and> q) l (DoNewLabel # c @ d @ [DoMark skip])"
  unfolding branches_def
proof (intro allI impI; elim conjE)
  fix P i s assume u: "marks_unique P" and "at_pc P i (DoNewLabel # c @ d @ [DoMark skip])"
  then have a: "at_pc P i [DoNewLabel]" "at_pc P (i + 1) c" "at_pc P (i + 1 + length c) d"
      "at_pc P (i + 1 + length c + length d) [DoMark skip]"
    by (simp_all add: at_pc_Cons at_pc_append)
  note m = at_mark(1) [OF u a(4)] at_mark(2) [OF u a(4), of s loc]
  have n: "runs P (i, s, loc) (i + 1, s, loc)" by (rule at_op(1) [OF a(1) refl])
  have c': "runs P (i + 1, s, loc) (if p then mark_pos P skip else i + 1 + length c, s, loc)" by (rule branches_run [OF c a(2) u])
  have d': "runs P (i + 1 + length c, s, loc) (if q then mark_pos P l else i + 1 + length c + length d, s, loc)" if "\<not> p"
    by (rule branches_run [OF d [OF that] a(3) u])
  have e: "i + length (DoNewLabel # c @ d @ [DoMark skip]) = i + 1 + length c + length d + 1" by simp
  show "runs P (i, s, loc) (if \<not> p \<and> q then mark_pos P l else i + length (DoNewLabel # c @ d @ [DoMark skip]), s, loc)"
    unfolding e using n c' d' m by (cases p; cases q) (auto intro: runs_trans)
qed

lemma pushes_cond:
  assumes c: "branches loc b t c"
  shows "pushes loc (jbool b)
    ([DoNewLabel, DoNewLabel, DoNewLabel] @ c @ [DoIconst 0, DoGoto l, DoMark t, DoIconst 1, DoMark l])"
  unfolding pushes_def does_def
proof (intro allI impI; elim conjE)
  fix s P i assume u: "marks_unique P"
    and "at_pc P i ([DoNewLabel, DoNewLabel, DoNewLabel] @ c @ [DoIconst 0, DoGoto l, DoMark t, DoIconst 1, DoMark l])"
  then have a: "at_pc P i [DoNewLabel]" "at_pc P (i + 1) [DoNewLabel]" "at_pc P (i + 2) [DoNewLabel]" "at_pc P (i + 3) c"
      "at_pc P (i + 3 + length c) [DoIconst 0]" "at_pc P (i + 3 + length c + 1) [DoGoto l]" "at_pc P (i + 3 + length c + 2) [DoMark t]"
      "at_pc P (i + 3 + length c + 3) [DoIconst 1]" "at_pc P (i + 3 + length c + 4) [DoMark l]"
    by (simp_all add: at_pc_Cons at_pc_append eval_nat_numeral)
  let ?j = "i + 3 + length c"
  note t = at_mark [OF u a(7)] and l = at_mark [OF u a(9)]
  have n: "runs P (i, s, loc) (i + 3, s, loc)"
    using runs_trans [OF at_op(1) [OF a(1) refl] runs_trans [OF at_op(1) [OF a(2) refl]]] at_op(1) [OF a(3) refl, of s loc]
    by (simp add: eval_nat_numeral)
  have c': "runs P (i + 3, s, loc) (if b then mark_pos P t else ?j, s, loc)" by (rule branches_run [OF c a(4) u])
  have f: "runs P (?j, s, loc) (?j + 4, VI 0 # s, loc)"
    using runs_trans [OF at_op(2) [OF a(5) refl] at_op(3) [OF a(6) refl]] l(1) by simp
  have tr: "runs P (?j + 2, s, loc) (?j + 4, VI 1 # s, loc)"
    using runs_trans [OF t(2) [of s loc]] at_op(2) [OF a(8) refl, of s loc] by (simp add: eval_nat_numeral)
  have "runs P (i + 3, s, loc) (?j + 4, jbool b # s, loc)" using runs_trans [OF c'] f tr t(1) by (cases b) simp_all
  from runs_trans [OF n runs_trans [OF this l(2)]]
  show "runs P (i, s, loc) (i + length ([DoNewLabel, DoNewLabel, DoNewLabel] @ c @ [DoIconst 0, DoGoto l, DoMark t, DoIconst 1, DoMark l]),
      jbool b # s, loc)"
    by (simp add: eval_nat_numeral)
qed

lemma pushes_choice:
  assumes c: "branches loc (\<not> b) els c" and x: "b \<Longrightarrow> pushes loc v x" and y: "\<not> b \<Longrightarrow> pushes loc v y"
  shows "pushes loc v ([DoNewLabel, DoNewLabel] @ c @ x @ [DoGoto l, DoMark els] @ y @ [DoMark l])"
  unfolding pushes_def does_def
proof (intro allI impI; elim conjE)
  fix s P i assume u: "marks_unique P" and "at_pc P i ([DoNewLabel, DoNewLabel] @ c @ x @ [DoGoto l, DoMark els] @ y @ [DoMark l])"
  then have a: "at_pc P i [DoNewLabel]" "at_pc P (i + 1) [DoNewLabel]" "at_pc P (i + 2) c" "at_pc P (i + 2 + length c) x"
      "at_pc P (i + 2 + length c + length x) [DoGoto l]" "at_pc P (i + 2 + length c + length x + 1) [DoMark els]"
      "at_pc P (i + 2 + length c + length x + 2) y" "at_pc P (i + 2 + length c + length x + 2 + length y) [DoMark l]"
    by (simp_all add: at_pc_Cons at_pc_append eval_nat_numeral)
  let ?j = "i + 2 + length c + length x"
  note e = at_mark [OF u a(6)] and m = at_mark [OF u a(8)]
  have n: "runs P (i, s, loc) (i + 2, s, loc)"
    using runs_trans [OF at_op(1) [OF a(1) refl] at_op(1) [OF a(2) refl]] by (simp add: eval_nat_numeral)
  have c': "runs P (i + 2, s, loc) (if b then i + 2 + length c else mark_pos P els, s, loc)"
    using branches_run [OF c a(3) u, of s] by (cases b) simp_all
  have "runs P (i + 2, s, loc) (?j + 2 + length y, v # s, loc)"
  proof (cases b)
    case True
    then have "runs P (i + 2 + length c, s, loc) (?j, v # s, loc)" using pushes_run [OF x a(4) u] by simp
    from runs_trans [OF this at_op(3) [OF a(5) refl]] show ?thesis using runs_trans [OF c'] True m(1) by simp
  next
    case False
    then have "runs P (?j + 2, s, loc) (?j + 2 + length y, v # s, loc)" using pushes_run [OF y a(7) u] by simp
    then have "runs P (?j + 1, s, loc) (?j + 2 + length y, v # s, loc)" using runs_trans [OF e(2)] by (simp add: eval_nat_numeral)
    then show ?thesis using runs_trans [OF c'] False e(1) by simp
  qed
  from runs_trans [OF n runs_trans [OF this m(2)]]
  show "runs P (i, s, loc) (i + length ([DoNewLabel, DoNewLabel] @ c @ x @ [DoGoto l, DoMark els] @ y @ [DoMark l]), v # s, loc)"
    by (simp add: eval_nat_numeral add.assoc)
qed

section \<open>Conditions\<close>

lemma nan_conv: "nan_among (jconv p a) (jconv p b) \<longleftrightarrow> nan_among a b"
  by (cases a; cases b) auto

lemma test_code:
  assumes "k \<in> cmp_ops" "p \<in> {KindInt, KindLong, KindFloat, KindDouble}"
  shows "code_for sl (if p = KindInt \<or> p = KindBoolean then branchCompare k l
    else seqs [opc_or msg (cmpOp p k), branchAgainstZero k l]) (tests loc p k l)"
  using int_test_code [OF assms(1)] wide_test_code [OF assms(1), of p] assms(2) by auto

lemma no_reference [simp]: "conv_ok k p \<Longrightarrow> \<not> IsReference (Basic k)"
  by (auto simp: conv_ok_def same_sort_def int_kinds_def IsReference_def)

text \<open>The jump of a comparison, whichever way it is wanted.\<close>

lemma wanted_code:
  assumes "op \<in> cmp_ops" "p \<in> {KindInt, KindLong, KindFloat, KindDouble}"
  shows "code_for sl (case (if when then Some op else invert op) of
        None \<Rightarrow> bug msg'
      | Some k \<Rightarrow> if p = KindInt \<or> p = KindBoolean then branchCompare k l else seqs [opc_or msg (cmpOp p k), branchAgainstZero k l])
    (\<lambda>c. \<forall>a b r s. val_ok p a \<and> val_ok p b \<and> \<not> nan_among a b \<and> bin_cmp op a b = Some r \<longrightarrow> jumps loc (r = when) l c (b # a # s) s)"
proof (cases "when")
  case True
  have c: "code_for sl (if p = KindInt \<or> p = KindBoolean then branchCompare op l
      else seqs [opc_or msg (cmpOp p op), branchAgainstZero op l]) (tests loc p op l)" by (rule test_code [OF assms])
  have "tests loc p op l c \<Longrightarrow> \<forall>a b r s. val_ok p a \<and> val_ok p b \<and> \<not> nan_among a b \<and> bin_cmp op a b = Some r \<longrightarrow>
      jumps loc (r = when) l c (b # a # s) s" for c
    using True by (simp add: tests_def)
  from code_for_mono [OF c this] show ?thesis using True by simp
next
  case False
  obtain j where j: "invert op = Some j" "j \<in> cmp_ops"
      "\<And>a b r. \<not> nan_among a b \<Longrightarrow> bin_cmp op a b = Some r \<Longrightarrow> bin_cmp j a b = Some (\<not> r)"
    using invert_code [OF assms(1)] by blast
  have c: "code_for sl (if p = KindInt \<or> p = KindBoolean then branchCompare j l
      else seqs [opc_or msg (cmpOp p j), branchAgainstZero j l]) (tests loc p j l)" by (rule test_code [OF j(2) assms(2)])
  have "tests loc p j l c \<Longrightarrow> \<forall>a b r s. val_ok p a \<and> val_ok p b \<and> \<not> nan_among a b \<and> bin_cmp op a b = Some r \<longrightarrow>
      jumps loc (r = when) l c (b # a # s) s" for c
    using j(3) False by (fastforce simp: tests_def)
  from code_for_mono [OF c this] show ?thesis using False j(1) by simp
qed

lemma compare_code:
  assumes x: "typed cx sl x" "good_value cx sl loc ex x" and y: "typed cx sl y" "good_value cx sl loc ex y"
    and p: "promo (kx cx x) (kx cx y) p" "p \<in> {KindInt, KindLong, KindFloat, KindDouble}" and o: "op \<in> cmp_ops"
  shows "code_for sl (lower_compare cx ex x op y l when) (\<lambda>c. \<forall>a b r. jeval cx sl loc x = Some a \<and> jeval cx sl loc y = Some b \<and>
    \<not> nan_among a b \<and> bin_cmp op (jconv p a) (jconv p b) = Some r \<longrightarrow> branches loc (r = when) l c)"
proof -
  have k: "conv_ok (kx cx x) p" "conv_ok (kx cx y) p" "PromoteBinary (cx_Type cx x) (cx_Type cx y) = Basic p"
    using p(1) typed_type [OF x(1)] typed_type [OF y(1)] by (simp_all add: promo_def)
  let ?T = "case (if when then Some op else invert op) of
        None \<Rightarrow> bug ''not a comparison''
      | Some k \<Rightarrow> if p = KindInt \<or> p = KindBoolean then branchCompare k l
          else seqs [opc_or ''no comparison opcode'' (cmpOp p k), branchAgainstZero k l]"
  have e: "lower_compare cx ex x op y l when =
      em_bind (exprAs cx ex x (Basic p)) (\<lambda>_. em_bind (exprAs cx ex y (Basic p)) (\<lambda>_. ?T))"
    using typed_type [OF x(1)] k
    by (simp add: lower_compare_def Let_def exprAs_def em_bind_assoc em_bind_unit cong: option.case_cong if_cong)
  have yt: "code_for sl (em_bind (exprAs cx ex y (Basic p)) (\<lambda>_. ?T)) (\<lambda>c. \<forall>a b r s. val_ok p a \<and> jeval cx sl loc y = Some b \<and>
      \<not> nan_among a (jconv p b) \<and> bin_cmp op a (jconv p b) = Some r \<longrightarrow> jumps loc (r = when) l c (a # s) s)"
    by (rule code_for_bind [OF exprAs_code [OF y k(2)] wanted_code [OF o p(2)]])
      (use typed_val [OF y(1)] val_promo [OF k(2)] in \<open>blast intro: does_jumps pushes_does\<close>)
  show ?thesis
    unfolding e branches_jumps
    by (rule code_for_bind [OF exprAs_code [OF x k(1)] yt])
      (use typed_val [OF x(1)] val_promo [OF k(1)] in \<open>blast intro: does_jumps pushes_does dest: nan_conv [THEN iffD1]\<close>)
qed

lemma lower_cond_None: "cx_Const cx x = None \<Longrightarrow> lower_cond cx ex x l when =
    (case x of
       ParenExpr s y \<Rightarrow> lower_cond cx ex y l when
     | UnaryExpr s op y \<Rightarrow> if op = NOT_OP then lower_cond cx ex y l (\<not> when) else seqs [ex x, branchZero l when]
     | BinaryExpr s a op b \<Rightarrow>
         if op = LAND then condAnd cx ex a b l when
         else if op = LOR then condOr cx ex a b l when
         else if op \<in> {EQL, NEQ, LSS, GTR, LEQ, GEQ} then lower_compare cx ex a op b l when
         else seqs [ex x, branchZero l when]
     | InstanceOfExpr s y t p \<Rightarrow> seqs
         [ex y,
          (case t of
             Some r \<Rightarrow> seqs
               [em_bind (lift (castTarget (lcHeap cx) (in_NodeType (lcInfo cx) r))) (\<lambda>n. call1 (DoInstanceOf n)), branchZero l when]
           | None \<Rightarrow> bug ''instanceof pattern in condition position'')]
     | _ \<Rightarrow> seqs [ex x, branchZero l when])"
  by (subst lower_cond.simps) simp

lemma const_or_None [simp]: "cx_Const cx x = None \<Longrightarrow> const_or cx x r = r"
  by (simp add: const_or_def)

lemma zero_test_jbool [simp]:
  "zero_test (\<lambda>a. a \<noteq> 0) (jbool b # s) = Some (b, s)" "zero_test (\<lambda>a. a = 0) (jbool b # s) = Some (\<not> b, s)"
  by (cases b; simp)+

lemma good_cond_const:
  assumes "cx_Const cx x = Some k" "konst_jval KindBoolean k = Some v" "kx cx x = KindBoolean"
  shows "good_cond cx sl loc ex x"
proof -
  obtain b where b: "kValue k = Some (CBool b)" "v = jbool b" using konst_bool [OF assms(2)] by blast
  have "jeval cx sl loc x = Some (jbool b)" using assms b(2) by (cases x) (simp_all add: const_or_def)
  then show ?thesis using assms(1) b(1)
    by (auto simp: good_cond_def lower_cond.simps branches_jumps intro: jumps_goto)
qed

lemma cond_value:
  assumes "good_value cx sl loc ex x"
  shows "code_for sl (seqs [ex x, branchZero l when]) (\<lambda>c. \<forall>b. jeval cx sl loc x = Some (jbool b) \<longrightarrow> branches loc (b = when) l c)"
proof -
  have "code_for sl (branchZero l when) (\<lambda>c. \<forall>b s. jumps loc (b = when) l c (jbool b # s) s)"
    by (auto simp: branchZero_def intro!: jumps_if)
  then show ?thesis
    unfolding branches_jumps seqs.simps em_bind_unit
    by (rule code_for_bind [OF assms [unfolded good_value_def]]) (blast intro: does_jumps pushes_does)
qed

lemma good_cond_plain:
  assumes "cx_Const cx x = None" "good_value cx sl loc ex x"
    and "\<And>s y. x \<noteq> ParenExpr s y" "\<And>s y. x \<noteq> UnaryExpr s NOT_OP y" "\<And>s y t p. x \<noteq> InstanceOfExpr s y t p"
    and "\<And>s a op b. op \<in> {LAND, LOR} \<union> cmp_ops \<Longrightarrow> x \<noteq> BinaryExpr s a op b"
  shows "good_cond cx sl loc ex x"
proof -
  have "lower_cond cx ex x l w = seqs [ex x, branchZero l w]" for l w
    using assms(3-6) by (subst lower_cond_None [OF assms(1)]) (auto split: expr.split)
  then show ?thesis using cond_value [OF assms(2)] by (simp add: good_cond_def)
qed

lemma good_cond_paren:
  assumes "cx_Const cx (ParenExpr s y) = None" "good_cond cx sl loc ex y"
  shows "good_cond cx sl loc ex (ParenExpr s y)"
  using assms by (simp add: good_cond_def lower_cond_None)

lemma good_cond_not:
  assumes n: "cx_Const cx (UnaryExpr s NOT_OP y) = None" and g: "good_cond cx sl loc ex y" "typed cx sl y" "kx cx y = KindBoolean"
  shows "good_cond cx sl loc ex (UnaryExpr s NOT_OP y)"
proof -
  have "jeval cx sl loc y = Some (jbool (\<not> b))" if j: "jeval cx sl loc (UnaryExpr s NOT_OP y) = Some (jbool b)" for b
  proof -
    obtain a where a: "jeval cx sl loc y = Some a" "java_unary NOT_OP KindBoolean a = Some (jbool b)"
      using j g(3) n by (auto split: bind_splits)
    obtain p where "a = jbool p" using typed_val [OF g(2) a(1)] g(3) by (auto simp: val_ok_bool)
    then show ?thesis using a by (cases p; cases b) (simp_all add: java_unary_def)
  qed
  then have "code_for sl (lower_cond cx ex y l (\<not> w)) (\<lambda>c. \<forall>b. jeval cx sl loc (UnaryExpr s NOT_OP y) = Some (jbool b) \<longrightarrow> branches loc (b = w) l c)" for l w
    by (intro code_for_mono [OF g(1) [unfolded good_cond_def, rule_format, of l "\<not> w"]]) force
  then show ?thesis by (simp add: good_cond_def lower_cond_None [OF n])
qed

text \<open>The operands of a binary operator that has a value.\<close>

lemma binary_value:
  assumes n: "cx_Const cx (BinaryExpr s x op y) = None" and j: "jeval cx sl loc (BinaryExpr s x op y) = Some v" and o: "op \<notin> {LAND, LOR}"
  obtains a b where "jeval cx sl loc x = Some a" "jeval cx sl loc y = Some b" "\<not> nan_among a b"
    "java_binary op (kx cx x) (kx cx y) a b = Some v"
  using j o n by (auto split: bind_splits if_splits)

lemma good_cond_compare:
  assumes n: "cx_Const cx (BinaryExpr s x op y) = None"
    and x: "typed cx sl x" "good_value cx sl loc ex x" and y: "typed cx sl y" "good_value cx sl loc ex y"
    and p: "promo (kx cx x) (kx cx y) p" "p \<in> {KindInt, KindLong, KindFloat, KindDouble}" and o: "op \<in> cmp_ops"
  shows "good_cond cx sl loc ex (BinaryExpr s x op y)"
proof -
  have "\<exists>a b. jeval cx sl loc x = Some a \<and> jeval cx sl loc y = Some b \<and> \<not> nan_among a b \<and> bin_cmp op (jconv p a) (jconv p b) = Some r"
    if "jeval cx sl loc (BinaryExpr s x op y) = Some (jbool r)" for r
    by (rule binary_value [OF n that]) (use o p(1) in \<open>auto simp: java_binary_def promo_def\<close>)
  then have "code_for sl (lower_compare cx ex x op y l w) (\<lambda>c. \<forall>b. jeval cx sl loc (BinaryExpr s x op y) = Some (jbool b) \<longrightarrow> branches loc (b = w) l c)" for l w
    by (intro code_for_mono [OF compare_code [OF x y p o]]) blast
  then show ?thesis using o by (auto simp: good_cond_def lower_cond_None [OF n])
qed

lemma logic_value:
  assumes n: "cx_Const cx (BinaryExpr s x op y) = None" and j: "jeval cx sl loc (BinaryExpr s x op y) = Some (jbool r)"
    and o: "op \<in> {LAND, LOR}" and x: "typed cx sl x" "kx cx x = KindBoolean" and y: "typed cx sl y" "kx cx y = KindBoolean"
  shows "\<exists>p. jeval cx sl loc x = Some (jbool p) \<and> (if p = (op = LAND) then jeval cx sl loc y = Some (jbool r) else r = p)"
proof -
  obtain a where a: "jeval cx sl loc x = Some a" using j n by (auto split: bind_splits)
  obtain p where p: "a = jbool p" using typed_val [OF x(1) a] x(2) by (auto simp: val_ok_bool)
  show ?thesis
  proof (cases "p = (op = LAND)")
    case True
    then obtain b where b: "jeval cx sl loc y = Some b" "java_binary op KindBoolean KindBoolean a b = Some (jbool r)"
      using j a p o n x(2) y(2) by (cases p) (auto split: bind_splits if_splits)
    obtain q where "b = jbool q" using typed_val [OF y(1) b(1)] y(2) by (auto simp: val_ok_bool)
    then have "q = r" using b(2) p True o by (cases p; cases q; cases r) (auto simp: java_binary_def jarith_def)
    then show ?thesis using a p True b(1) \<open>b = jbool q\<close> by auto
  next
    case False
    then have "jbool r = jbool p" using j a p o n by (cases p) auto
    then show ?thesis using a p False by auto
  qed
qed

lemma branches_case: "branches loc p l c \<Longrightarrow> p = q \<Longrightarrow> branches loc q l c"
  by simp

lemma both_code:
  assumes g: "good_cond cx sl loc ex x" "good_cond cx sl loc ex y"
  shows "code_for sl (seqs [lower_cond cx ex x l w, lower_cond cx ex y l w]) (\<lambda>c. \<forall>p q. jeval cx sl loc x = Some (jbool p) \<and>
      (p \<noteq> w \<longrightarrow> jeval cx sl loc y = Some (jbool q)) \<longrightarrow> branches loc (p = w \<or> q = w) l c)"
  unfolding seqs.simps em_bind_unit
  by (rule code_for_bind [OF g(1) [unfolded good_cond_def, rule_format] g(2) [unfolded good_cond_def, rule_format]])
    (blast intro: branches_seq)

lemma skip_code:
  assumes g: "good_cond cx sl loc ex x" "good_cond cx sl loc ex y"
  shows "code_for sl (em_bind newLabel (\<lambda>skip. seqs [lower_cond cx ex x skip (\<not> w), lower_cond cx ex y l w, call1 (DoMark skip)]))
    (\<lambda>c. \<forall>p q. jeval cx sl loc x = Some (jbool p) \<and> (p = w \<longrightarrow> jeval cx sl loc y = Some (jbool q)) \<longrightarrow>
      branches loc (p = w \<and> q = w) l c)"
proof (rule code_for_label)
  fix skip
  let ?C = "\<lambda>x l w c. \<forall>b. jeval cx sl loc x = Some (jbool b) \<longrightarrow> branches loc (b = w) l c"
  have y: "code_for sl (em_bind (lower_cond cx ex y l w) (\<lambda>_. call1 (DoMark skip))) (\<lambda>c. \<exists>d. c = d @ [DoMark skip] \<and> ?C y l w d)"
    by (rule code_for_bind [OF g(2) [unfolded good_cond_def, rule_format], where R = "\<lambda>c. c = [DoMark skip]"]) auto
  show "code_for sl (seqs [lower_cond cx ex x skip (\<not> w), lower_cond cx ex y l w, call1 (DoMark skip)])
    (\<lambda>c. \<forall>p q. jeval cx sl loc x = Some (jbool p) \<and> (p = w \<longrightarrow> jeval cx sl loc y = Some (jbool q)) \<longrightarrow>
      branches loc (p = w \<and> q = w) l (DoNewLabel # c))"
    unfolding seqs.simps em_bind_unit
  proof (rule code_for_bind [OF g(1) [unfolded good_cond_def, rule_format] y], intro allI impI, elim exE conjE)
    fix c d e p q
    assume a: "?C x skip (\<not> w) c" "d = e @ [DoMark skip]" "?C y l w e" "jeval cx sl loc x = Some (jbool p)"
      "p = w \<longrightarrow> jeval cx sl loc y = Some (jbool q)"
    have "branches loc (\<not> (p \<noteq> w) \<and> q = w) l (DoNewLabel # c @ e @ [DoMark skip])"
      by (rule branches_skip) (use a in auto)
    then show "branches loc (p = w \<and> q = w) l (DoNewLabel # c @ d)" using a(2) by simp
  qed
qed

lemma good_cond_logic:
  assumes n: "cx_Const cx (BinaryExpr s x op y) = None" and o: "op \<in> {LAND, LOR}"
    and x: "typed cx sl x" "kx cx x = KindBoolean" "good_cond cx sl loc ex x"
    and y: "typed cx sl y" "kx cx y = KindBoolean" "good_cond cx sl loc ex y"
  shows "good_cond cx sl loc ex (BinaryExpr s x op y)"
proof -
  note v = logic_value [OF n _ o x(1,2) y(1,2), of loc]
  have "code_for sl (lower_cond cx ex (BinaryExpr s x op y) l w)
    (\<lambda>c. \<forall>b. jeval cx sl loc (BinaryExpr s x op y) = Some (jbool b) \<longrightarrow> branches loc (b = w) l c)" for l w
  proof (cases "w = (op = LAND)")
    case True
    then have e: "lower_cond cx ex (BinaryExpr s x op y) l w =
        em_bind newLabel (\<lambda>skip. seqs [lower_cond cx ex x skip (\<not> w), lower_cond cx ex y l w, call1 (DoMark skip)])"
      using o by (auto simp: lower_cond_None [OF n] condAnd.simps condOr.simps)
    show ?thesis
      unfolding e
    proof (rule code_for_mono [OF skip_code [OF x(3) y(3)]], intro allI impI)
      fix c b
      assume c: "\<forall>p q. jeval cx sl loc x = Some (jbool p) \<and> (p = w \<longrightarrow> jeval cx sl loc y = Some (jbool q)) \<longrightarrow> branches loc (p = w \<and> q = w) l c"
        and j: "jeval cx sl loc (BinaryExpr s x op y) = Some (jbool b)"
      obtain p where p: "jeval cx sl loc x = Some (jbool p)" "if p = (op = LAND) then jeval cx sl loc y = Some (jbool b) else b = p"
        using v [OF j] by blast
      have "branches loc (p = w \<and> b = w) l c" using c [rule_format, of p b] p True by (simp split: if_splits)
      then show "branches loc (b = w) l c" by (rule branches_case) (use p(2) True in \<open>auto split: if_splits\<close>)
    qed
  next
    case False
    then have e: "lower_cond cx ex (BinaryExpr s x op y) l w = seqs [lower_cond cx ex x l w, lower_cond cx ex y l w]"
      using o by (auto simp: lower_cond_None [OF n] condAnd.simps condOr.simps)
    show ?thesis
      unfolding e
    proof (rule code_for_mono [OF both_code [OF x(3) y(3)]], intro allI impI)
      fix c b
      assume c: "\<forall>p q. jeval cx sl loc x = Some (jbool p) \<and> (p \<noteq> w \<longrightarrow> jeval cx sl loc y = Some (jbool q)) \<longrightarrow> branches loc (p = w \<or> q = w) l c"
        and j: "jeval cx sl loc (BinaryExpr s x op y) = Some (jbool b)"
      obtain p where p: "jeval cx sl loc x = Some (jbool p)" "if p = (op = LAND) then jeval cx sl loc y = Some (jbool b) else b = p"
        using v [OF j] by blast
      have "branches loc (p = w \<or> b = w) l c" using c [rule_format, of p b] p False by (auto split: if_splits)
      then show "branches loc (b = w) l c" by (rule branches_case) (use p(2) False in \<open>auto split: if_splits\<close>)
    qed
  qed
  then show ?thesis by (simp add: good_cond_def)
qed

end
