(* ===== verification/LowerCorrect.thy ===== *)
theory LowerCorrect
  imports LowerCond
begin

text \<open>
  Expressions compile to code that computes them (\<^verbatim>\<open>src/lower/expr.go\<close>): every form of expression covered, by induction over the expression,
  and the property itself.
\<close>

section \<open>Values\<close>

lemma typed_const: "typed cx sl x \<Longrightarrow> cx_Const cx x = Some k \<Longrightarrow> \<exists>v. konst_jval (kx cx x) k = Some v"
  by (cases x) (auto simp: const_and_def split: option.splits)

lemma pushes_op: "(\<And>P i s. exec_op P k (i, s, loc) = Some (i + 1, v # s, loc)) \<Longrightarrow> pushes loc v [k]"
  by (auto simp: pushes_def intro: does_op)

lemma value_const:
  assumes "cx_Const cx x = Some k" "konst_jval (kx cx x) k = Some v"
  shows "good_value cx sl loc (expr_body cx ex) x"
proof -
  have j: "jeval cx sl loc x = Some v" using assms by (cases x) (simp_all add: const_or_def)
  obtain w where w: "kValue k = Some w" "const_jval (kx cx x) w = Some v" using assms(2) by (auto simp: konst_jval_def bind_eq_Some_conv)
  have "\<exists>c. lower_constant k = Some c \<and> pushes loc v [c]"
    using w by (cases w) (auto simp: lower_constant_def jbool_def intro!: pushes_op split: if_splits)
  then show ?thesis using assms(1) j by (auto simp: good_value_def expr_body_def)
qed

lemma body_None: "cx_Const cx x = None \<Longrightarrow> expr_body cx ex x =
    (case x of
       ParenExpr s y \<Rightarrow> ex y
     | Ident i \<Rightarrow> lower_name cx x
     | BinaryExpr s a op b \<Rightarrow> lower_binary cx ex x a op b
     | UnaryExpr s op y \<Rightarrow> lower_unary cx ex x op y
     | CastExpr s t bs y \<Rightarrow> exprAs cx ex y (cx_Type cx x)
     | CondExpr s c a b \<Rightarrow> lower_condExpr cx ex x c a b
     | _ \<Rightarrow> expr_body cx ex x)"
  by (cases x) (simp_all add: expr_body_def exprAs_def)

lemma value_local:
  assumes n: "cx_Const cx (Ident i) = None" and t: "typed cx sl (Ident i)"
  shows "good_value cx sl loc (expr_body cx ex) (Ident i)"
proof -
  let ?x = "Ident i"
  obtain v m where v: "cx_Use cx ?x = Some (SymVar v)" "captureOf cx v = None" "vsVar (lcVar cx v) \<noteq> VarField" "smOf sl v = Some m"
      "lcFieldType cx v = cx_Type cx ?x" "IsPrimitive (kx cx ?x)"
    using t n by (auto simp: const_and_def split: option.splits symbol.splits)
  let ?c = "DoLoad (local_type_of (cx_Type cx ?x)) (int m)"
  have "pushes loc w [?c]" if "jeval cx sl loc ?x = Some w" for w
  proof -
    have w: "val_ok (kx cx ?x) (loc m)" "w = loc m" using that n v by (simp_all add: kx_def split: if_splits)
    have "of_local (local_type_of (cx_Type cx ?x)) (loc m)"
      using w(1) v(6) by (cases "loc m") (auto simp: local_type_of_def kx_def)
    then show ?thesis using w(2) by (auto intro!: pushes_op)
  qed
  moreover have "expr_body cx ex ?x = em_bind (em_slot v) (\<lambda>k. call1 (DoLoad (local_type_of (cx_Type cx ?x)) (int k)))"
    using n v by (simp add: body_None lower_name_def loadVar_def loadLocal_def Let_def)
  ultimately show ?thesis using v(4)
    by (auto simp: good_value_def code_for_def em_bind_def em_slot_def call1_def)
qed

lemma code_for_calls: "code_for sl (seqs (map call1 cs)) (\<lambda>c. c = cs)"
  by (induction cs) (auto intro: code_for_bind)

lemma condValue_code:
  assumes g: "good_cond cx sl loc ex x" and b: "\<And>v. jeval cx sl loc x = Some v \<Longrightarrow> \<exists>b. v = jbool b"
  shows "code_for sl (condValue cx ex x) (\<lambda>c. \<forall>v. jeval cx sl loc x = Some v \<longrightarrow> pushes loc v c)"
  unfolding condValue_def
proof (intro code_for_label)
  fix t f d
  have c: "code_for sl (seqs [iconst 0, call1 (DoGoto d), call1 (DoMark t), iconst 1, call1 (DoMark d)])
      (\<lambda>c. c = [DoIconst 0, DoGoto d, DoMark t, DoIconst 1, DoMark d])"
    using code_for_calls [of sl "[DoIconst 0, DoGoto d, DoMark t, DoIconst 1, DoMark d]"] by simp
  show "code_for sl (seqs [lower_cond cx ex x t True, iconst 0, call1 (DoGoto d), call1 (DoMark t), iconst 1, call1 (DoMark d)])
      (\<lambda>c. \<forall>v. jeval cx sl loc x = Some v \<longrightarrow> pushes loc v (DoNewLabel # DoNewLabel # DoNewLabel # c))"
  proof (rule code_for_seqs(2) [OF g [unfolded good_cond_def, rule_format] c], intro allI impI)
    fix c e v
    assume c: "\<forall>b. jeval cx sl loc x = Some (jbool b) \<longrightarrow> branches loc (b = True) t c"
      and e: "e = [DoIconst 0, DoGoto d, DoMark t, DoIconst 1, DoMark d]" and v: "jeval cx sl loc x = Some v"
    obtain p where "v = jbool p" using b [OF v] by blast
    then show "pushes loc v (DoNewLabel # DoNewLabel # DoNewLabel # c @ e)" using c v e pushes_cond [of loc p t c d] by simp
  qed
qed

lemma operands_code:
  assumes x: "typed cx sl x" "good_value cx sl loc ex x" "conv_ok (kx cx x) p" and y: "typed cx sl y" "good_value cx sl loc ex y" "conv_ok (kx cx y) q"
    and t: "code_for sl t (operates loc p q f)"
  shows "code_for sl (seqs [exprAs cx ex x (Basic p), exprAs cx ex y (Basic q), t])
    (\<lambda>c. \<forall>a b v. jeval cx sl loc x = Some a \<and> jeval cx sl loc y = Some b \<and> f (jconv p a) (jconv q b) = Some v \<longrightarrow> pushes loc v c)"
proof -
  have y': "code_for sl (em_bind (exprAs cx ex y (Basic q)) (\<lambda>_. t)) (\<lambda>c. \<forall>a b v s. val_ok p a \<and> jeval cx sl loc y = Some b \<and>
      f a (jconv q b) = Some v \<longrightarrow> does loc c (a # s) (v # s))"
  proof (rule code_for_bind [OF exprAs_code [OF y] t], intro allI impI, elim conjE)
    fix c d a b v s
    assume c: "\<forall>v. jeval cx sl loc y = Some v \<longrightarrow> pushes loc (jconv q v) c" "operates loc p q f d" "val_ok p a"
      "jeval cx sl loc y = Some b" "f a (jconv q b) = Some v"
    have "does loc c (a # s) (jconv q b # a # s)" using c(1,4) by (simp add: pushes_does)
    moreover have "does loc d (jconv q b # a # s) (v # s)"
      using c(2,3,5) val_promo [OF y(3) typed_val [OF y(1) c(4)]] by (simp add: operates_def)
    ultimately show "does loc (c @ d) (a # s) (v # s)" by (rule does_append)
  qed
  show ?thesis
    unfolding seqs.simps em_bind_unit
  proof (rule code_for_bind [OF exprAs_code [OF x] y'], intro allI impI, elim conjE)
    fix c d a b v
    assume c: "\<forall>v. jeval cx sl loc x = Some v \<longrightarrow> pushes loc (jconv p v) c"
        "\<forall>a b v s. val_ok p a \<and> jeval cx sl loc y = Some b \<and> f a (jconv q b) = Some v \<longrightarrow> does loc d (a # s) (v # s)"
        "jeval cx sl loc x = Some a" "jeval cx sl loc y = Some b" "f (jconv p a) (jconv q b) = Some v"
    have "does loc c s (jconv p a # s)" for s using c(1,3) by (simp add: pushes_does)
    moreover have "does loc d (jconv p a # s) (v # s)" for s
      using c(2,4,5) val_promo [OF x(3) typed_val [OF x(1) c(3)]] by blast
    ultimately show "pushes loc v (c @ d)" unfolding pushes_def by (blast intro: does_append)
  qed
qed

lemma value_binary:
  assumes n: "cx_Const cx (BinaryExpr s x op y) = None" and t: "typed cx sl (BinaryExpr s x op y)"
    and x: "good_value cx sl loc ex x" and y: "good_value cx sl loc ex y"
    and c: "op \<in> cmp_ops \<union> {LAND, LOR} \<Longrightarrow> good_cond cx sl loc ex (BinaryExpr s x op y)"
  shows "good_value cx sl loc (expr_body cx ex) (BinaryExpr s x op y)"
proof -
  let ?n = "BinaryExpr s x op y"
  have tx: "typed cx sl x" and ty: "typed cx sl y" and o: "op \<in> shift_ops \<union> cmp_ops \<union> arith_ops \<union> {LAND, LOR}"
    and ss: "same_sort (kx cx x) (kx cx y) \<or> op \<in> cmp_ops \<and> kx cx x = kx cx y \<and> kx cx x \<in> {KindFloat, KindDouble}"
    and tt: "attr_binary (lcHeap cx) op (Basic (kx cx x)) (Basic (kx cx y)) = Some (cx_Type cx ?n, [])"
    using t n typed_type [of cx sl x] typed_type [of cx sl y] by (simp_all add: const_and_def)
  have bd: "expr_body cx ex ?n = lower_binary cx ex ?n x op y" using n by (simp add: body_None)
  show ?thesis
    using ss tt o
  proof (cases rule: binary_cases)
    case (shift q)
    have e: "lower_binary cx ex ?n x op y = seqs [exprAs cx ex x (Basic q), exprAs cx ex y (Basic KindInt),
        opc_or ''not a shift'' (shiftOp op q)]"
      using shift(1,5) by (auto simp: lower_binary_def isConcat_def)
    show ?thesis
      unfolding good_value_def bd e
    proof (rule code_for_mono [OF operands_code [OF tx x shift(7) ty y shift(8) shift_code [OF shift(1,4)]]], intro allI impI)
      fix c v
      assume c: "\<forall>a b v. jeval cx sl loc x = Some a \<and> jeval cx sl loc y = Some b \<and> bin_shift op (jconv q a) (jconv KindInt b) = Some v \<longrightarrow> pushes loc v c"
        and v: "jeval cx sl loc ?n = Some v"
      show "pushes loc v c"
        by (rule binary_value [OF n v]) (use c shift(1,6) in \<open>auto simp: java_binary_def\<close>)
    qed
  next
    case (cmp p)
    then have "lower_binary cx ex ?n x op y = condValue cx ex ?n" by (simp add: lower_binary_def)
    moreover have "\<exists>b. v = jbool b" if "jeval cx sl loc ?n = Some v" for v
      using typed_val [OF t that] cmp(2) by (auto simp: kx_def val_ok_bool)
    moreover have "op \<in> cmp_ops \<union> {LAND, LOR}" using cmp(1) by blast
    ultimately show ?thesis using condValue_code [OF c] bd unfolding good_value_def by metis
  next
    case (arith p)
    have e: "lower_binary cx ex ?n x op y = seqs [exprAs cx ex x (Basic p), exprAs cx ex y (Basic p), opc_or ''no opcode'' (arithOp op p)]"
      using arith(1,2,4) typed_type [OF tx] typed_type [OF ty] by (auto simp: lower_binary_def isConcat_def promo_def Let_def)
    have k: "conv_ok (kx cx x) p" "conv_ok (kx cx y) p" "promoted (kx cx x) (kx cx y) = p" using arith(2) by (simp_all add: promo_def)
    show ?thesis
      unfolding good_value_def bd e
    proof (rule code_for_mono [OF operands_code [OF tx x k(1) ty y k(2) arith_code [OF arith(1,3)]]], intro allI impI)
      fix c v
      assume c: "\<forall>a b v. jeval cx sl loc x = Some a \<and> jeval cx sl loc y = Some b \<and> bin_arith op (jconv p a) (jconv p b) = Some v \<longrightarrow> pushes loc v c"
        and v: "jeval cx sl loc ?n = Some v"
      show "pushes loc v c"
        by (rule binary_value [OF n v]) (use c arith(1) k(3) in \<open>auto simp: java_binary_def\<close>)
    qed
  next
    case logic
    then have "lower_binary cx ex ?n x op y = condValue cx ex ?n" by (auto simp: lower_binary_def)
    moreover have "\<exists>b. v = jbool b" if "jeval cx sl loc ?n = Some v" for v
      using typed_val [OF t that] logic(4) by (auto simp: kx_def val_ok_bool)
    moreover have "op \<in> cmp_ops \<union> {LAND, LOR}" using logic(1) by blast
    ultimately show ?thesis using condValue_code [OF c] bd unfolding good_value_def by metis
  qed
qed

lemma operand_code:
  assumes y: "typed cx sl y" "good_value cx sl loc ex y" "conv_ok (kx cx y) q"
    and t: "code_for sl t (\<lambda>c. \<forall>a v s. val_ok q a \<and> f a = Some v \<longrightarrow> does loc c (a # s) (v # s))"
  shows "code_for sl (seqs [exprAs cx ex y (Basic q), t])
    (\<lambda>c. \<forall>a v. jeval cx sl loc y = Some a \<and> f (jconv q a) = Some v \<longrightarrow> pushes loc v c)"
  unfolding seqs.simps em_bind_unit
proof (rule code_for_bind [OF exprAs_code [OF y] t], intro allI impI, elim conjE)
  fix c d a v
  assume c: "\<forall>v. jeval cx sl loc y = Some v \<longrightarrow> pushes loc (jconv q v) c"
    "\<forall>a v s. val_ok q a \<and> f a = Some v \<longrightarrow> does loc d (a # s) (v # s)" "jeval cx sl loc y = Some a" "f (jconv q a) = Some v"
  have "does loc c s (jconv q a # s)" for s using c(1,3) by (simp add: pushes_does)
  moreover have "does loc d (jconv q a # s) (v # s)" for s
    using c(2,4) val_promo [OF y(3) typed_val [OF y(1) c(3)]] by blast
  ultimately show "pushes loc v (c @ d)" unfolding pushes_def by (blast intro: does_append)
qed

lemma complement_code:
  assumes "q \<in> {KindInt, KindLong}"
  shows "code_for sl (if q = KindLong then seqs [call1 (DoLconst (- 1)), opc Lxor] else seqs [iconst (- 1), opc Ixor])
    (\<lambda>c. \<forall>a v s. val_ok q a \<and> jcompl a = Some v \<longrightarrow> does loc c (a # s) (v # s))"
proof -
  have l: "does loc ([DoLconst (- 1)] @ [DoOp Lxor]) (VL w # s) (VL (NOT w) # s)" for w s
    by (rule does_append, rule does_op, simp, rule does_opcode, simp add: op_effects jarith_def)
  have i: "does loc ([DoIconst (- 1)] @ [DoOp Ixor]) (VI w # s) (VI (NOT w) # s)" for w s
    by (rule does_append, rule does_op, simp, rule does_opcode, simp add: op_effects jarith_def)
  have "code_for sl (seqs [call1 (DoLconst (- 1)), opc Lxor]) (\<lambda>c. c = [DoLconst (- 1), DoOp Lxor])"
    "code_for sl (seqs [iconst (- 1), opc Ixor]) (\<lambda>c. c = [DoIconst (- 1), DoOp Ixor])"
    using code_for_calls [of sl "[DoLconst (- 1), DoOp Lxor]"] code_for_calls [of sl "[DoIconst (- 1), DoOp Ixor]"] by (simp_all add: opc_def)
  then show ?thesis using assms i l
    by (elim insertE emptyE) (auto simp: int_word long_word elim!: code_for_mono)
qed

lemma value_unary:
  assumes n: "cx_Const cx (UnaryExpr s op y) = None" and t: "typed cx sl (UnaryExpr s op y)"
    and y: "good_value cx sl loc ex y" and c: "op = NOT_OP \<Longrightarrow> good_cond cx sl loc ex (UnaryExpr s op y)"
  shows "good_value cx sl loc (expr_body cx ex) (UnaryExpr s op y)"
proof -
  let ?n = "UnaryExpr s op y"
  have ty: "typed cx sl y" and o: "op \<in> {ADD, SUB, TILDE, NOT_OP}" and k: "kx cx y \<in> insert KindBoolean int_kinds"
    and u: "attr_unary (lcHeap cx) op (Basic (kx cx y)) = (cx_Type cx ?n, [])"
    using t n typed_type [of cx sl y] by (simp_all add: const_and_def)
  have bd: "expr_body cx ex ?n = lower_unary cx ex ?n op y" using n by (simp add: body_None)
  have j: "\<exists>a. jeval cx sl loc y = Some a \<and> java_unary op (kx cx y) a = Some v" if "jeval cx sl loc ?n = Some v" for v
    using that n by (auto split: bind_splits)
  show ?thesis
  proof (cases "kx cx y = KindBoolean")
    case True
    then have op: "op = NOT_OP" "cx_Type cx ?n = Basic KindBoolean"
      using u o by (auto simp: attr_unary_def Let_def split: if_splits)
    then have "expr_body cx ex ?n = condValue cx ex ?n" using bd by (simp add: lower_unary_def Let_def)
    moreover have "\<exists>b. v = jbool b" if "jeval cx sl loc ?n = Some v" for v
      using typed_val [OF t that] op(2) by (auto simp: kx_def val_ok_bool)
    ultimately show ?thesis using condValue_code [OF c [OF op(1)]] unfolding good_value_def by metis
  next
    case False
    then have ki: "kx cx y \<in> int_kinds" using k by simp
    have op: "op \<in> {ADD, SUB, TILDE}" "cx_Type cx ?n = Promote (Basic (kx cx y))"
      using u o False ki by (auto simp: attr_unary_def Let_def split: if_splits)
    define q where "q = (if kx cx y = KindLong then KindLong else KindInt)"
    have q: "cx_Type cx ?n = Basic q" "q \<in> {KindInt, KindLong}" "conv_ok (kx cx y) q" "Kind (Promote (Basic (kx cx y))) = q"
      using op(2) ki by (auto simp: q_def promote_int conv_ok_def same_sort_def int_kinds_def)
    note e = exprAs_code [OF ty y q(3)]
    have vq: "val_ok q (jconv q a)" if "jeval cx sl loc y = Some a" for a by (rule val_promo [OF q(3) typed_val [OF ty that]])
    consider "op = ADD" | "op = SUB" | "op = TILDE" using op(1) by blast
    then show ?thesis
    proof cases
      case 1
      show ?thesis
        unfolding good_value_def
        by (rule code_for_mono [where Q = "\<lambda>c. \<forall>v. jeval cx sl loc y = Some v \<longrightarrow> pushes loc (jconv q v) c"])
          (use 1 e bd q j in \<open>auto simp: lower_unary_def Let_def java_unary_def\<close>)
    next
      case 2
      have g: "op_effect (negOp q) (a # s) = map_option (\<lambda>v. v # s) (jneg a)" if "val_ok q a" for a s
        using q(2) that by (auto simp: negOp_def op_effects int_word long_word)
      have "code_for sl (opc (negOp q)) (\<lambda>c. \<forall>a v s. val_ok q a \<and> jneg a = Some v \<longrightarrow> does loc c (a # s) (v # s))"
        by (auto simp: g intro!: does_opcode)
      from operand_code [OF ty y q(3) this]
      have "code_for sl (seqs [exprAs cx ex y (Basic q), opc (negOp q)]) (\<lambda>c. \<forall>v. jeval cx sl loc ?n = Some v \<longrightarrow> pushes loc v c)"
        by (rule code_for_mono) (use j q(4) 2 in \<open>force simp: java_unary_def\<close>)
      then show ?thesis using 2 bd q(1) by (simp add: good_value_def lower_unary_def Let_def)
    next
      case 3
      from operand_code [OF ty y q(3) complement_code [OF q(2)]]
      have "code_for sl (seqs [exprAs cx ex y (Basic q), if q = KindLong then seqs [call1 (DoLconst (- 1)), opc Lxor] else seqs [iconst (- 1), opc Ixor]])
          (\<lambda>c. \<forall>v. jeval cx sl loc ?n = Some v \<longrightarrow> pushes loc v c)"
        by (rule code_for_mono) (use j q(4) 3 in \<open>force simp: java_unary_def\<close>)
      then show ?thesis using 3 bd q(1) by (simp add: good_value_def lower_unary_def Let_def)
    qed
  qed
qed

lemma value_cast:
  assumes n: "cx_Const cx (CastExpr s t bs y) = None" and t: "typed cx sl (CastExpr s t bs y)" and y: "good_value cx sl loc ex y"
  shows "good_value cx sl loc (expr_body cx ex) (CastExpr s t bs y)"
proof -
  have ty: "typed cx sl y" "conv_ok (kx cx y) (kx cx (CastExpr s t bs y))" using t n by (simp_all add: const_and_def conv_ok_def)
  have e: "expr_body cx ex (CastExpr s t bs y) = exprAs cx ex y (Basic (kx cx (CastExpr s t bs y)))"
    using typed_type [OF t] by (simp add: body_None [OF n])
  show ?thesis
    unfolding good_value_def e
    by (rule code_for_mono [OF exprAs_code [OF ty(1) y ty(2)]]) (use n in \<open>auto split: bind_splits\<close>)
qed

lemma code_for_pre:
  assumes "code_for sl a (\<lambda>c. c = p)" "code_for sl b (\<lambda>c. Q (p @ c))"
  shows "code_for sl (em_bind a (\<lambda>_. b)) Q"
  by (rule code_for_bind [OF assms]) simp

lemma em_mark_code: "code_for sl (em_mark l) (\<lambda>c. c = [DoMark l])"
  unfolding em_mark_def seqs.simps em_bind_unit by (rule code_for_bind [where Q = "\<lambda>c. c = [DoMark l]" and R = "\<lambda>c. c = []"]) auto

lemma value_choice:
  assumes n: "cx_Const cx (CondExpr s b x y) = None" and t: "typed cx sl (CondExpr s b x y)"
    and g: "good_cond cx sl loc ex b" "good_value cx sl loc ex x" "good_value cx sl loc ex y"
  shows "good_value cx sl loc (expr_body cx ex) (CondExpr s b x y)"
proof -
  let ?n = "CondExpr s b x y"
  let ?k = "kx cx ?n"
  have tb: "typed cx sl b" "kx cx b = KindBoolean" and tx: "typed cx sl x" "conv_ok (kx cx x) ?k" and ty: "typed cx sl y" "conv_ok (kx cx y) ?k"
    using t n by (simp_all add: const_and_def conv_ok_def)
  let ?V = "\<lambda>z c. \<forall>v. jeval cx sl loc z = Some v \<longrightarrow> pushes loc (jconv ?k v) c"
  have y: "code_for sl (em_bind (exprAs cx ex y (Basic ?k)) (\<lambda>_. em_mark d)) (\<lambda>c. \<exists>c3. c = c3 @ [DoMark d] \<and> ?V y c3)" for d
    by (rule code_for_bind [OF exprAs_code [OF ty(1) g(3) ty(2)] em_mark_code]) blast
  have jump: "code_for sl (seqs [call1 (DoGoto d), set_alive False, em_mark els]) (\<lambda>c. c = [DoGoto d, DoMark els])" for d els
    unfolding seqs.simps em_bind_unit
    by (rule code_for_pre [where p = "[DoGoto d]"], simp, rule code_for_pre [where p = "[]"], simp, rule code_for_mono [OF em_mark_code], simp)
  have jy: "code_for sl (em_bind (seqs [call1 (DoGoto d), set_alive False, em_mark els])
      (\<lambda>_. em_bind (exprAs cx ex y (Basic ?k)) (\<lambda>_. em_mark d)))
      (\<lambda>c. \<exists>c3. c = [DoGoto d, DoMark els] @ c3 @ [DoMark d] \<and> ?V y c3)" for d els
    by (rule code_for_bind [OF jump y]) blast
  have x: "code_for sl (em_bind (exprAs cx ex x (Basic ?k)) (\<lambda>_. em_bind (seqs [call1 (DoGoto d), set_alive False, em_mark els])
      (\<lambda>_. em_bind (exprAs cx ex y (Basic ?k)) (\<lambda>_. em_mark d))))
      (\<lambda>c. \<exists>c2 c3. c = c2 @ [DoGoto d, DoMark els] @ c3 @ [DoMark d] \<and> ?V x c2 \<and> ?V y c3)" for d els
    by (rule code_for_bind [OF exprAs_code [OF tx(1) g(2) tx(2)] jy]) blast
  have e: "expr_body cx ex ?n = em_bind newLabel (\<lambda>els. em_bind newLabel (\<lambda>d. em_bind (lower_cond cx ex b els False)
      (\<lambda>_. em_bind (exprAs cx ex x (Basic ?k)) (\<lambda>_. em_bind (seqs [call1 (DoGoto d), set_alive False, em_mark els])
      (\<lambda>_. em_bind (exprAs cx ex y (Basic ?k)) (\<lambda>_. em_mark d))))))"
    using typed_type [OF t] by (simp add: body_None [OF n] lower_condExpr_def Let_def em_bind_assoc)
  show ?thesis
    unfolding good_value_def e
  proof (intro code_for_label, rule code_for_bind [OF g(1) [unfolded good_cond_def, rule_format] x], intro allI impI, elim exE conjE)
    fix els d c r v c2 c3
    assume c: "\<forall>b'. jeval cx sl loc b = Some (jbool b') \<longrightarrow> branches loc (b' = False) els c"
      and r: "r = c2 @ [DoGoto d, DoMark els] @ c3 @ [DoMark d]" "?V x c2" "?V y c3" and v: "jeval cx sl loc ?n = Some v"
    obtain a where a: "jeval cx sl loc b = Some a" using v n by (auto split: bind_splits)
    obtain p where p: "a = jbool p" using typed_val [OF tb(1) a] tb(2) by (auto simp: val_ok_bool)
    have "pushes loc v ([DoNewLabel, DoNewLabel] @ c @ c2 @ [DoGoto d, DoMark els] @ c3 @ [DoMark d])"
    proof (rule pushes_choice)
      show "branches loc (\<not> p) els c" using c a p by auto
      show "pushes loc v c2" if p using v n a p that r(2) by auto
      show "pushes loc v c3" if "\<not> p" using v n a p that r(3) by auto
    qed
    then show "pushes loc v (DoNewLabel # DoNewLabel # c @ r)" using r(1) by simp
  qed
qed

section \<open>All expressions\<close>

definition good :: "lowCtx \<Rightarrow> slotMap \<Rightarrow> (nat \<Rightarrow> jval) \<Rightarrow> (expr \<Rightarrow> unit emit) \<Rightarrow> expr \<Rightarrow> bool" where
  "good cx sl loc ex x \<longleftrightarrow> good_value cx sl loc ex x \<and> (kx cx x = KindBoolean \<longrightarrow> good_cond cx sl loc ex x)"

definition lowers :: "lowCtx \<Rightarrow> slotMap \<Rightarrow> expr \<Rightarrow> bool" where
  "lowers cx sl x \<longleftrightarrow> (\<exists>N. \<forall>n\<ge>N. \<forall>loc. good cx sl loc (lower_expr cx n) x)"

lemma lowers_common: "\<forall>y \<in> set ys. lowers cx sl y \<Longrightarrow> \<exists>N. \<forall>n\<ge>N. \<forall>loc. \<forall>y \<in> set ys. good cx sl loc (lower_expr cx n) y"
proof (induction ys)
  case (Cons y ys)
  then obtain N M where "\<forall>n\<ge>N. \<forall>loc. good cx sl loc (lower_expr cx n) y" "\<forall>n\<ge>M. \<forall>loc. \<forall>y \<in> set ys. good cx sl loc (lower_expr cx n) y"
    by (auto simp: lowers_def)
  then show ?case by (intro exI [of _ "max N M"]) auto
qed simp

lemma lowers_step:
  assumes s: "\<forall>y \<in> set ys. lowers cx sl y"
    and v: "\<And>loc ex. \<forall>y \<in> set ys. good cx sl loc ex y \<Longrightarrow> good_value cx sl loc (expr_body cx ex) x"
    and c: "\<And>loc ex. \<forall>y \<in> set ys. good cx sl loc ex y \<Longrightarrow> good_value cx sl loc ex x \<Longrightarrow> kx cx x = KindBoolean \<Longrightarrow> good_cond cx sl loc ex x"
  shows "lowers cx sl x"
proof -
  obtain N where N: "\<And>n loc. N \<le> n \<Longrightarrow> \<forall>y \<in> set ys. good cx sl loc (lower_expr cx n) y" using lowers_common [OF s] by blast
  have "good cx sl loc (lower_expr cx n) x" if n: "Suc N \<le> n" for n loc
  proof -
    obtain m where m: "n = Suc m" "N \<le> m" using n by (cases n) auto
    have "good_value cx sl loc (lower_expr cx n) x" using v [OF N [OF m(2)]] m(1) by simp
    then show ?thesis using c [OF N] n by (simp add: good_def)
  qed
  then show ?thesis unfolding lowers_def by blast
qed

lemma lowers_const:
  assumes "typed cx sl x" "cx_Const cx x = Some k"
  shows "lowers cx sl x"
proof -
  obtain v where v: "konst_jval (kx cx x) k = Some v" using typed_const [OF assms] by blast
  show ?thesis
    by (rule lowers_step [of "[]"]) (use value_const good_cond_const assms(2) v in \<open>auto\<close>)
qed

lemma lowers_all: "typed cx sl x \<Longrightarrow> lowers cx sl x"
proof (induction cx sl x rule: typed.induct)
  case (1 cx sl i)
  show ?case
  proof (cases "cx_Const cx (Ident i)")
    case None
    show ?thesis by (rule lowers_step [of "[]"]) (use value_local [OF None 1] good_cond_plain [OF None] in \<open>auto\<close>)
  next
    case (Some k) then show ?thesis by (rule lowers_const [OF 1])
  qed
next
  case (2 cx sl s y)
  show ?case
  proof (cases "cx_Const cx (ParenExpr s y)")
    case None
    then have t: "typed cx sl y" "kx cx (ParenExpr s y) = kx cx y" using 2(2) by (simp_all add: const_and_def kx_def)
    show ?thesis
      by (rule lowers_step [of "[y]"])
        (use 2(1) [OF t(1)] None t(2) good_cond_paren [OF None] in \<open>auto simp: good_def good_value_def body_None [OF None]\<close>)
  next
    case (Some k) then show ?thesis by (rule lowers_const [OF 2(2)])
  qed
next
  case (3 cx sl s op y)
  show ?case
  proof (cases "cx_Const cx (UnaryExpr s op y)")
    case None
    have t: "typed cx sl y" using 3(2) None by (simp add: const_and_def)
    have b: "kx cx y = KindBoolean" if "op = NOT_OP"
    proof -
      have "attr_unary (lcHeap cx) NOT_OP (Basic (kx cx y)) = (cx_Type cx (UnaryExpr s op y), [])" "kx cx y \<in> insert KindBoolean int_kinds"
        using 3(2) None that typed_type [OF t] by (simp_all add: const_and_def)
      then show ?thesis by (auto simp: attr_unary_def Let_def int_kinds_def split: if_splits)
    qed
    have c: "good_cond cx sl loc ex (UnaryExpr s op y)" if "good cx sl loc ex y" "good_value cx sl loc ex (UnaryExpr s op y) \<or> op = NOT_OP" for loc ex
    proof (cases "op = NOT_OP")
      case True
      then show ?thesis using good_cond_not [of cx s y sl loc ex] None that(1) t b by (simp add: good_def)
    next
      case False
      then show ?thesis using good_cond_plain [OF None] that(2) by auto
    qed
    show ?thesis
      by (rule lowers_step [of "[y]"]) (use 3(1) [OF t] c value_unary [OF None 3(2)] in \<open>auto simp: good_def\<close>)
  next
    case (Some k) then show ?thesis by (rule lowers_const [OF 3(2)])
  qed
next
  case (4 cx sl s x op y)
  let ?n = "BinaryExpr s x op y"
  show ?case
  proof (cases "cx_Const cx ?n")
    case None
    have t: "typed cx sl x" "typed cx sl y" "op \<in> shift_ops \<union> cmp_ops \<union> arith_ops \<union> {LAND, LOR}"
        "same_sort (kx cx x) (kx cx y) \<or> op \<in> cmp_ops \<and> kx cx x = kx cx y \<and> kx cx x \<in> {KindFloat, KindDouble}"
        "attr_binary (lcHeap cx) op (Basic (kx cx x)) (Basic (kx cx y)) = Some (cx_Type cx ?n, [])"
      using 4(3) None typed_type [of cx sl x] typed_type [of cx sl y] by (simp_all add: const_and_def)
    have c: "good_cond cx sl loc ex ?n"
      if g: "good cx sl loc ex x" "good cx sl loc ex y" "good_value cx sl loc ex ?n \<or> op \<in> cmp_ops \<union> {LAND, LOR}" for loc ex
      using t(4,5,3)
    proof (cases rule: binary_cases)
      case (cmp p)
      then show ?thesis using good_cond_compare [OF None t(1) _ t(2) _ cmp(3,4,1)] g by (simp add: good_def)
    next
      case logic
      then show ?thesis using good_cond_logic [OF None logic(1) t(1) logic(2) _ t(2) logic(3)] g by (simp add: good_def)
    next
      case shift
      from shift(1) have o: "op \<notin> cmp_ops \<union> {LAND, LOR}" by auto
      then have "good_value cx sl loc ex ?n" using g(3) by blast
      then show ?thesis using o by (intro good_cond_plain [OF None]) auto
    next
      case arith
      from arith(1) have o: "op \<notin> cmp_ops \<union> {LAND, LOR}" by auto
      then have "good_value cx sl loc ex ?n" using g(3) by blast
      then show ?thesis using o by (intro good_cond_plain [OF None]) auto
    qed
    show ?thesis
    proof (rule lowers_step [of "[x, y]"])
      show "\<forall>z \<in> set [x, y]. lowers cx sl z" using 4(1) [OF t(1)] 4(2) [OF t(2)] by simp
    next
      fix loc ex
      assume "\<forall>z \<in> set [x, y]. good cx sl loc ex z"
      then have g: "good cx sl loc ex x" "good cx sl loc ex y" by simp_all
      have gv: "good_value cx sl loc ex x" "good_value cx sl loc ex y" using g by (simp_all add: good_def)
      show "good_value cx sl loc (expr_body cx ex) ?n" by (rule value_binary [OF None 4(3) gv c [OF g disjI2]])
      show "good_cond cx sl loc ex ?n" if "good_value cx sl loc ex ?n" by (rule c [OF g disjI1 [OF that]])
    qed
  next
    case (Some k) then show ?thesis by (rule lowers_const [OF 4(3)])
  qed
next
  case (5 cx sl s t bs y)
  show ?case
  proof (cases "cx_Const cx (CastExpr s t bs y)")
    case None
    have t: "typed cx sl y" using 5(2) None by (simp add: const_and_def)
    show ?thesis
      by (rule lowers_step [of "[y]"])
        (use 5(1) [OF t] value_cast [OF None 5(2)] good_cond_plain [OF None] in \<open>auto simp: good_def\<close>)
  next
    case (Some k) then show ?thesis by (rule lowers_const [OF 5(2)])
  qed
next
  case (6 cx sl s b x y)
  show ?case
  proof (cases "cx_Const cx (CondExpr s b x y)")
    case None
    have t: "typed cx sl b" "typed cx sl x" "typed cx sl y" "kx cx b = KindBoolean" using 6(4) None by (simp_all add: const_and_def)
    show ?thesis
      by (rule lowers_step [of "[b, x, y]"])
        (use 6(1) [OF t(1)] 6(2) [OF t(2)] 6(3) [OF t(3)] t(4) value_choice [OF None 6(4)] good_cond_plain [OF None] in \<open>auto simp: good_def\<close>)
  next
    case (Some k) then show ?thesis by (rule lowers_const [OF 6(4)])
  qed
qed (auto simp: const_and_def intro: lowers_const split: option.splits)

section \<open>The property\<close>

lemma code_for_all:
  assumes "\<And>loc :: nat \<Rightarrow> jval. code_for sl em (Q loc)"
  shows "code_for sl em (\<lambda>c. \<forall>loc. Q loc c)"
  unfolding code_for_def
proof (intro allI impI)
  fix e :: emitter assume e: "emSlots e = sl"
  obtain c e' where c: "em e = Ret () e'" "emCode e' = emCode e @ c" "emSlots e' = sl"
    using assms [of undefined] e by (auto simp: code_for_def)
  have "Q loc c" for loc using assms [of loc] e c by (auto simp: code_for_def)
  then show "\<exists>c e'. em e = Ret () e' \<and> emCode e' = emCode e @ c \<and> emSlots e' = sl \<and> (\<forall>loc. Q loc c)" using c by blast
qed

text \<open>What compiling an expression should achieve: from some amount of fuel on, code generation succeeds; the code pushes the value of the
  expression, whatever the local variables hold, and a condition jumps to its label exactly when it has the wanted value.\<close>

definition compiles :: "lowCtx \<Rightarrow> slotMap \<Rightarrow> expr \<Rightarrow> bool" where
  "compiles cx sl x \<longleftrightarrow> (\<exists>N. \<forall>n\<ge>N.
     code_for sl (lower_expr cx n x) (\<lambda>c. \<forall>loc v. jeval cx sl loc x = Some v \<longrightarrow> pushes loc v c) \<and>
     (kx cx x = KindBoolean \<longrightarrow> (\<forall>l when. code_for sl (lower_cond cx (lower_expr cx n) x l when)
        (\<lambda>c. \<forall>loc b. jeval cx sl loc x = Some (jbool b) \<longrightarrow> branches loc (b = when) l c))))"

lemma lowers_compiles:
  assumes "lowers cx sl x"
  shows "compiles cx sl x"
proof -
  obtain N where N: "\<And>n loc. N \<le> n \<Longrightarrow> good cx sl loc (lower_expr cx n) x" using assms by (auto simp: lowers_def)
  show ?thesis
    unfolding compiles_def
  proof (intro exI [of _ N] allI impI conjI)
    fix n assume "N \<le> n"
    note g = N [OF this, unfolded good_def good_value_def good_cond_def]
    show "code_for sl (lower_expr cx n x) (\<lambda>c. \<forall>loc v. jeval cx sl loc x = Some v \<longrightarrow> pushes loc v c)"
      by (rule code_for_all) (rule g [THEN conjunct1])
    fix l "when" assume "kx cx x = KindBoolean"
    then show "code_for sl (lower_cond cx (lower_expr cx n) x l when)
        (\<lambda>c. \<forall>loc b. jeval cx sl loc x = Some (jbool b) \<longrightarrow> branches loc (b = when) l c)"
      by (intro code_for_all g [THEN conjunct2, rule_format])
  qed
qed

text \<open>Why a NaN is excluded: for an ordered comparison that jumps when it holds, the opcode chosen makes a NaN jump.\<close>

lemma nan_comparison:
  assumes "op \<in> {LSS, LEQ, GTR, GEQ}" "f32_nan a \<or> f32_nan b"
  shows "code_for sl (seqs [opc_or msg (cmpOp KindFloat op), branchAgainstZero op l])
      (\<lambda>c. \<forall>s. jumps loc True l c (VF b # VF a # s) s)"
    and "bin_cmp op (VF a) (VF b) = Some False"
proof -
  show "bin_cmp op (VF a) (VF b) = Some False" using assms by (elim insertE emptyE) (simp_all add: jcmp_def)
  have "\<exists>w d k. cmpOp KindFloat op = Some d \<and> op_effect d = float_cmp w \<and> branchAgainstZero op l = call1 (DoIf k l) \<and>
      (\<forall>s. cond_effect k (VI w # s) = Some (True, s))"
  proof -
    consider "op = LSS" | "op = LEQ" | "op = GTR" | "op = GEQ" using assms(1) by blast
    then show ?thesis
    proof cases
      case 1 then show ?thesis
        by (intro exI [of _ "- 1"] exI [of _ Fcmpl] exI [of _ CondLt]) (simp add: cmpOp_def branchAgainstZero_def op_effects)
    next
      case 2 then show ?thesis
        by (intro exI [of _ "- 1"] exI [of _ Fcmpl] exI [of _ CondLe]) (simp add: cmpOp_def branchAgainstZero_def op_effects)
    next
      case 3 then show ?thesis
        by (intro exI [of _ 1] exI [of _ Fcmpg] exI [of _ CondGt]) (simp add: cmpOp_def branchAgainstZero_def op_effects)
    next
      case 4 then show ?thesis
        by (intro exI [of _ 1] exI [of _ Fcmpg] exI [of _ CondGe]) (simp add: cmpOp_def branchAgainstZero_def op_effects)
    qed
  qed
  then obtain w d k where d: "cmpOp KindFloat op = Some d" "op_effect d = float_cmp w" "branchAgainstZero op l = call1 (DoIf k l)"
      "\<And>s. cond_effect k (VI w # s) = Some (True, s)" by blast
  have "jumps loc True l ([DoOp d] @ [DoIf k l]) (VF b # VF a # s) s" for s
    by (rule does_jumps [OF does_opcode jumps_if]) (use d assms(2) in auto)
  moreover have "code_for sl (seqs [opc_or msg (cmpOp KindFloat op), branchAgainstZero op l]) (\<lambda>c. c = [DoOp d, DoIf k l])"
    using code_for_calls [of sl "[DoOp d, DoIf k l]"] d by (simp add: opc_or_def opc_def)
  ultimately show "code_for sl (seqs [opc_or msg (cmpOp KindFloat op), branchAgainstZero op l])
      (\<lambda>c. \<forall>s. jumps loc True l c (VF b # VF a # s) s)"
    by (auto elim!: code_for_mono)
qed


definition at_zero :: span where
  "at_zero = \<lparr>spLo = 0, spHi = 0\<rparr>"

definition local_name :: expr where
  "local_name = Ident \<lparr>idSpan = at_zero, idCtx = 0, idUnderscore = False\<rparr>"

text \<open>The expression \<^verbatim>\<open>n + n < n\<close> for a local variable of type \<open>int\<close> in slot 1.\<close>

definition sum_less :: expr where
  "sum_less = BinaryExpr at_zero (BinaryExpr at_zero local_name ADD local_name) LSS local_name"

definition small_cx :: lowCtx where
  "small_cx = \<lparr>lcInfo = \<lparr>inTypes = (\<lambda>x. case x of BinaryExpr s a op b \<Rightarrow> Some (Basic (if op = LSS then KindBoolean else KindInt)) | _ \<Rightarrow> Some (Basic KindInt)),
       inNodeTypes = (\<lambda>r. None), inUses = (\<lambda>x. Some (SymVar 0)), inConsts = (\<lambda>x. None)\<rparr>,
     lcFloats = some_floats, lcHeap = no_classes, lcFieldType = (\<lambda>v. Basic KindInt), lcMethodType = (\<lambda>m. \<lparr>mtTypeParams = [], mtParams = [], mtResult = Basic KindVoid, mtThrows = []\<rparr>),
     lcVar = (\<lambda>v. \<lparr>vsName = ''n'', vsVar = VarLocal, vsFlags = 0, vsClass = None\<rparr>), lcMethod = (\<lambda>m. \<lparr>mdName = [], mdFlags = 0, mdClass = 0, mdDescriptor = []\<rparr>), lcClass = (\<lambda>c. \<lparr>clFlags = 0, clOuter = None\<rparr>),
     lcPattern = (\<lambda>r. None), lcNameText = (\<lambda>s. []), lcSelf = 0, lcCaptures = [], lcThisField = [], lcAccessors = (\<lambda>s. None), lcLambdas = []\<rparr>"

definition one_slot :: slotMap where
  "one_slot = \<lparr>smOf = [0 \<mapsto> 1], smNext = 2, smMax = 2\<rparr>"


end
