(* ===== verification/Spec2Isabelle.thy ===== *)
theory Spec2Isabelle
  imports Prelude Mutf8 Desc Op Version ByteIO ConstPool PoolBuilder Instr Attributes
    CodeLayout CodeWriter CodeInv CodeSteps CodeBranches Resolve Builder BuildCode Decoder DecoderSound ReadBack RoundTrip BuildSteps Switches Operands
    Token SourceFile SourceSpans Scanner ScanSteps ScanRun
    Types Subtype Subtyping Signature SignatureLang SignatureEntry
    Ast Fold JavaOps FoldJava Lower LowerExpr Jvm LowerSound LowerOps LowerCond LowerCorrect
begin

text \<open>
  A verification library for mocha, a Java compiler and toolchain written in Go (\<^verbatim>\<open>src/\<close>).

  \<^bold>\<open>The program.\<close> A source file becomes a \<open>token.File\<close> (Unicode escapes translated, positions remembered), the scanner cuts
  it into tokens, the parser builds a syntax tree, \<^verbatim>\<open>sym\<close> and \<^verbatim>\<open>types\<close> give names and types a meaning (from source or
  from class files found by \<^verbatim>\<open>classpath\<close>), \<^verbatim>\<open>analyzer\<close> checks the program, and \<^verbatim>\<open>lower\<close> writes class files through the
  \<open>Builder\<close> and the \<open>CodeWriter\<close> of \<^verbatim>\<open>classfile\<close>. Class files are read back with \<open>classfile.Read\<close>. The packages under
  \<^verbatim>\<open>jvm\<close> hold what both sides of a class file share: modified UTF-8, descriptors and opcodes.

  \<^bold>\<open>What is modelled.\<close> The two ends of that pipeline, operation by operation, and in its middle the type relation, constant
  folding and the code generated for expressions.

  \<^item> \<open>Prelude\<close>: words for Go's integers, results with an error value, the lemma collections.
  \<^item> \<open>Mutf8\<close>, \<open>Desc\<close>, \<open>Op\<close> (\<^verbatim>\<open>jvm/\<close>): the codec with its error positions, the descriptor parser and printer, the
    opcode table. The lemmas say that each codec accepts exactly the canonical forms and inverts its printer.
  \<^item> \<open>Version\<close>, \<open>ByteIO\<close>, \<open>ConstPool\<close>, \<open>Instr\<close>, \<open>Attributes\<close>, \<open>Decoder\<close>, \<open>DecoderSound\<close> (\<^verbatim>\<open>version.go\<close>, \<^verbatim>\<open>reader.go\<close>,
    \<^verbatim>\<open>constpool.go\<close>, \<^verbatim>\<open>code.go\<close>, \<^verbatim>\<open>attribute.go\<close>, \<^verbatim>\<open>attrs.go\<close>, \<^verbatim>\<open>member.go\<close>, \<^verbatim>\<open>classfile.go\<close>, \<^verbatim>\<open>decoder.go\<close>): reading a class file.
    The reader is a record with its position and a sticky error; the locale \<open>cursor_op\<close> states what every read keeps,
    the locale \<open>decoding\<close> what every decoder operation keeps. Shown: the pool accepted is well formed, every accepted
    class is, \<open>KeepRaw\<close> loses nothing, lookups do not depend on the memo, the instruction iterator ends and never
    panics, and the recursion over nested attribute tables is well founded.
  \<^item> \<open>PoolBuilder\<close>, \<open>CodeWriter\<close>, \<open>CodeLayout\<close>, \<open>CodeInv\<close>, \<open>CodeSteps\<close>, \<open>CodeBranches\<close>, \<open>Resolve\<close>, \<open>Builder\<close>, \<open>BuildCode\<close>,
    \<open>Switches\<close>, \<open>Operands\<close> (\<^verbatim>\<open>poolbuilder.go\<close>, \<^verbatim>\<open>codewriter.go\<close>, \<^verbatim>\<open>builder.go\<close>, \<^verbatim>\<open>writer.go\<close>): writing one. Every call of the writers is
    a function on a state record; the locale \<open>code_step\<close> is the contract of a call on a \<open>CodeWriter\<close>. Shown: interning
    is injective and read back, accepted bodies are code arrays whose branches reach their labels, widening settles,
    the compact encodings mean what was asked for, and switches are sorted.
  \<^item> \<open>ReadBack\<close>, \<open>RoundTrip\<close>, \<open>BuildSteps\<close>: the composition of the two, over arbitrary sequences of builder calls.
  \<^item> \<open>Token\<close>, \<open>SourceFile\<close>, \<open>SourceSpans\<close> (\<^verbatim>\<open>token/\<close>) and \<open>Scanner\<close>, \<open>ScanSteps\<close>, \<open>ScanRun\<close> (\<^verbatim>\<open>scanner/\<close>): the lexical front end.
    Shown: the keyword tables are consistent, spans of the text map to the source they come from, positions are
    exact, and whatever the input the tokens tile the text.
  \<^item> \<open>Types\<close>, \<open>Subtype\<close>, \<open>Subtyping\<close> (\<^verbatim>\<open>types.go\<close>, \<^verbatim>\<open>erase.go\<close>, \<^verbatim>\<open>subtype.go\<close>) and \<open>Signature\<close>, \<open>SignatureLang\<close>, \<open>SignatureEntry\<close>
    (\<^verbatim>\<open>signature.go\<close>): the type model. Shown: erasure ends exactly on acyclic bounds and its descriptors parse back,
    the walks over the hierarchy decide reachability, subtyping is a preorder, and the signature parser
    always returns and accepts exactly the strings a grammar spells.
  \<^item> \<open>Ast\<close>, \<open>Fold\<close>, \<open>JavaOps\<close>, \<open>FoldJava\<close> (\<^verbatim>\<open>ast/expr.go\<close>; \<^verbatim>\<open>const.go\<close>, \<^verbatim>\<open>fold.go\<close>, \<^verbatim>\<open>convert.go\<close> and the operators of
    \<^verbatim>\<open>expr.go\<close> in \<^verbatim>\<open>analyzer/attr/\<close>): expressions, the tables attribution fills, the types of operators, conversions and folding.
    \<open>JavaOps\<close> says what the operators of the language mean on machine words; shown is that folding, which computes in
    64 bits, gives the value the language does.
  \<^item> \<open>Lower\<close>, \<open>LowerExpr\<close> (\<^verbatim>\<open>lower/slot.go\<close>, \<^verbatim>\<open>convert.go\<close>, \<^verbatim>\<open>item.go\<close>, \<^verbatim>\<open>cond.go\<close>, \<^verbatim>\<open>string.go\<close>, \<^verbatim>\<open>expr.go\<close>): code generation for every
    form of expression, as the calls made on a \<open>CodeWriter\<close>. \<open>Jvm\<close> is a machine that runs such calls, by the instruction
    set of the virtual machine; \<open>LowerSound\<close> gives expressions a value, and \<open>LowerOps\<close>, \<open>LowerCond\<close>, \<open>LowerCorrect\<close> show that the
    code generated for them pushes it, or jumps on it.

  \<^bold>\<open>Conventions.\<close> Go's unsigned integers are words of their width and wrap; \<open>int\<close> is \<open>int\<close> or \<open>nat\<close> where the code
  cannot overflow it, and the bound is then a hypothesis (files below 4 GiB, code arrays below \<open>2 ^ 32\<close> bytes before
  the 65535 limit is checked, translated texts below \<open>2 ^ 32 - 1\<close> bytes). A slice is a list, a string a list of bytes,
  a nil result or a failed type assertion an option, an error a value of an error datatype, a panic the \<open>None\<close> of an
  option or an own constructor. Pointers that are only read are the values they point to.

  \<^bold>\<open>Loops and fuel.\<close> Loops over data are structural recursion. The iterator is drained with \<open>length + 1\<close> calls, which the
  property on the iterator shows to be enough. The replay loop of \<open>Code\<close> runs at most \<open>maxReplays\<close> times as in the source.
  Attribute tables nest to depth two, which the property on the recursion shows to be all that any input
  reaches. The signature parser takes \<open>6 * length + 6\<close> units, shown to be enough for every input. The scanner's main
  loop has its termination proof. \<open>Erase\<close>, \<open>Descriptor\<close> and \<open>isSubtype\<close> follow pointers that may be cyclic and are
  partial functions: \<open>None\<close> is a call that does not return, and the properties say when it does. Code generation takes the depth
  of recursion as fuel; the property on compiled expressions shows that enough of it exists, and that more is never too much.

  \<^bold>\<open>Parameters.\<close> The Unicode category tables of the Go library, which the scanner consults above ASCII, are an argument of the
  model. The class hierarchy a symbol carries is a function from binary names to the completed symbols. Floating point arithmetic
  is the record \<open>goFloats\<close> of Go's operations on bit patterns, the decoding of literals the record \<open>litDecoders\<close>, because the functions
  \<^verbatim>\<open>fold.go\<close> calls for it are not in the repository. What code generation reads of symbols is in the tables of \<open>lowCtx\<close>.

  \<^bold>\<open>Not modelled.\<close> The parser builds the tree that \<open>Ast\<close> describes but is not translated. The symbol graph with its lazy
  completion under locks, the walk of attribution over declarations and statements, and the flow and lint checks work on each other's
  mutable pointer structures. Of \<^verbatim>\<open>lower\<close>, statements and the declaration of members are left out: the package does not
  build (\<^verbatim>\<open>stmt.go\<close> calls \<open>switchStmt\<close> and \<open>needAssertions\<close>, which no file declares, and uses fields its records do not have), so their
  behaviour cannot be read off the source. The class path, the command line and the Android tools are input and
  output around library calls. Inside the modelled files, the functions that only format a message and the calls into the
  file system are left out.
\<close>

end
